(* ===== verification/Prelude.thy ===== *)
theory Prelude
  imports Main "HOL-Library.Word" "HOL-Library.Monad_Syntax"
begin

text \<open>
  Shared vocabulary of the development: the memory of C objects (arrays whose every
  access is checked against their size), NUL-terminated strings, the scanning loop
  \<open>for (i = 0; i < n; i++) if (...) break;\<close> that the code writes in a dozen places, and
  the deletion of an array slot by \<open>memmove\<close>.

  Conventions.  An object of \<open>n\<close> cells is a list of length \<open>n\<close>.  A pointer that is only
  read through is the list of the cells from the pointer to the end of its object; a
  pointer that is written through is an index into its object.  An access outside the
  object is undefined behaviour in C: the model returns \<^const>\<open>None\<close> there, so that a
  result \<^term>\<open>Some r\<close> says in particular that no access left its object.  Sizes
  (\<open>size_t\<close>) are natural numbers; where an unsigned subtraction can go below zero the
  model writes the case out.
\<close>

named_theorems buf_simps

section \<open>Checked memory accesses\<close>

definition rd :: "'a list \<Rightarrow> nat \<Rightarrow> 'a option" where
  "rd b i = (if i < length b then Some (b ! i) else None)"

definition wr :: "'a list \<Rightarrow> nat \<Rightarrow> 'a \<Rightarrow> 'a list option" where
  "wr b i v = (if i < length b then Some (b[i := v]) else None)"

lemma rd_Some_iff: "rd b i = Some v \<longleftrightarrow> i < length b \<and> v = b ! i"
  by (auto simp: rd_def)

lemma wr_Some_iff: "wr b i v = Some b' \<longleftrightarrow> i < length b \<and> b' = b[i := v]"
  by (auto simp: wr_def)

lemma rd_in [buf_simps]: "i < length b \<Longrightarrow> rd b i = Some (b ! i)"
  by (simp add: rd_def)

lemma wr_in [buf_simps]: "i < length b \<Longrightarrow> wr b i v = Some (b[i := v])"
  by (simp add: wr_def)

lemma rd_out [buf_simps]: "length b \<le> i \<Longrightarrow> rd b i = None"
  by (simp add: rd_def)

lemma wr_out [buf_simps]: "length b \<le> i \<Longrightarrow> wr b i v = None"
  by (simp add: wr_def)

lemma wr_length: "wr b i v = Some b' \<Longrightarrow> length b' = length b"
  by (auto simp: wr_def split: if_splits)

lemma rd_length: "rd b i = Some v \<Longrightarrow> i < length b"
  by (simp add: rd_def split: if_splits)

lemma drop_last_single: "length b = Suc n \<Longrightarrow> \<exists>x. drop n b = [x]"
proof -
  assume "length b = Suc n"
  then have "length (drop n b) = Suc 0" by simp
  then show ?thesis unfolding length_Suc_conv by auto
qed

text \<open>Writing the first cell after a prefix of known contents.\<close>

lemma wr_append [buf_simps]: "wr (xs @ y # ys) (length xs) v = Some (xs @ v # ys)"
  by (simp add: wr_def)

lemma rd_append [buf_simps]: "rd (xs @ y # ys) (length xs) = Some y"
  by (simp add: rd_def)

text \<open>\<open>memcpy\<close> to the offset \<open>off\<close> of an object, and a loop that may fail over a list.\<close>

definition blit :: "'a list \<Rightarrow> nat \<Rightarrow> 'a list \<Rightarrow> 'a list option" where
  "blit dst off src = (if off + length src \<le> length dst then Some (take off dst @ src @ drop (off + length src) dst) else None)"

fun fold_opt :: "('s \<Rightarrow> 'a \<Rightarrow> 's option) \<Rightarrow> 's \<Rightarrow> 'a list \<Rightarrow> 's option" where
  "fold_opt f s [] = Some s"
| "fold_opt f s (x # xs) = do { s \<leftarrow> f s x; fold_opt f s xs }"

section \<open>NUL-terminated strings\<close>

abbreviation NUL :: char where
  "NUL \<equiv> CHR 0x00"

text \<open>
  \<open>nonul s\<close>: \<open>s\<close> can be the contents of a C string.  \<open>terminated b\<close>: the object \<open>b\<close>
  holds a C string; \<open>cstr b\<close> is that string.
\<close>

definition nonul :: "string \<Rightarrow> bool" where
  "nonul s \<longleftrightarrow> NUL \<notin> set s"

definition terminated :: "char list \<Rightarrow> bool" where
  "terminated b \<longleftrightarrow> NUL \<in> set b"

definition cstr :: "char list \<Rightarrow> string" where
  "cstr b = takeWhile (\<lambda>c. c \<noteq> NUL) b"

lemma nonul_simps [simp]:
  "nonul []"
  "nonul (c # s) \<longleftrightarrow> c \<noteq> NUL \<and> nonul s"
  "nonul (s @ t) \<longleftrightarrow> nonul s \<and> nonul t"
  "nonul (rev s) \<longleftrightarrow> nonul s"
  by (auto simp: nonul_def)

lemma nonul_take [intro]: "nonul s \<Longrightarrow> nonul (take n s)"
  by (auto simp: nonul_def dest: in_set_takeD)

lemma nonul_drop [intro]: "nonul s \<Longrightarrow> nonul (drop n s)"
  by (auto simp: nonul_def dest: in_set_dropD)

lemma cstr_append_NUL [simp]: "nonul s \<Longrightarrow> cstr (s @ NUL # r) = s"
  by (induction s) (auto simp: cstr_def)

lemma terminated_append_NUL [simp]: "terminated (s @ NUL # r)"
  by (simp add: terminated_def)

lemma nonul_cstr [simp]: "nonul (cstr b)"
  by (auto simp: nonul_def cstr_def dest: set_takeWhileD)

lemma terminated_split:
  assumes "terminated b"
  obtains r where "b = cstr b @ NUL # r"
proof -
  from assms have "dropWhile (\<lambda>c. c \<noteq> NUL) b \<noteq> []"
    by (auto simp: terminated_def dropWhile_eq_Nil_conv)
  then obtain c r where cr: "dropWhile (\<lambda>c. c \<noteq> NUL) b = c # r"
    by (cases "dropWhile (\<lambda>c. c \<noteq> NUL) b") auto
  then have "c = NUL"
    using hd_dropWhile [of "\<lambda>c. c \<noteq> NUL" b] by simp
  with cr have "b = cstr b @ NUL # r"
    by (metis cstr_def takeWhile_dropWhile_id)
  then show thesis by (rule that)
qed

text \<open>\<open>strlen\<close>, and the loop \<open>while (*s++) ;\<close> that moves past the terminator.\<close>

fun scan_nul :: "char list \<Rightarrow> char list option" where
  "scan_nul [] = None"
| "scan_nul (c # s) = (if c = NUL then Some s else scan_nul s)"

fun strlen :: "char list \<Rightarrow> nat option" where
  "strlen [] = None"
| "strlen (c # s) = (if c = NUL then Some 0 else map_option Suc (strlen s))"

lemma scan_nul_append [simp]: "nonul s \<Longrightarrow> scan_nul (s @ NUL # r) = Some r"
  by (induction s) auto

lemma strlen_append [simp]: "nonul s \<Longrightarrow> strlen (s @ NUL # r) = Some (length s)"
  by (induction s) auto

section \<open>Scanning loops and array slots\<close>

text \<open>The index at which a scanning loop stops: the first hit, or the length.\<close>

fun first_idx :: "('a \<Rightarrow> bool) \<Rightarrow> 'a list \<Rightarrow> nat" where
  "first_idx P [] = 0"
| "first_idx P (x # xs) = (if P x then 0 else Suc (first_idx P xs))"

lemma first_idx_le [simp]: "first_idx P xs \<le> length xs"
  by (induction xs) auto

lemma first_idx_less_iff: "first_idx P xs < length xs \<longleftrightarrow> (\<exists>x \<in> set xs. P x)"
  by (induction xs) auto

lemma first_idx_none: "\<not> (\<exists>x \<in> set xs. P x) \<Longrightarrow> first_idx P xs = length xs"
  by (induction xs) auto

lemma first_idx_eq_length_iff: "first_idx P xs = length xs \<longleftrightarrow> \<not> (\<exists>x \<in> set xs. P x)"
  by (induction xs) auto

lemma first_idx_holds: "first_idx P xs < length xs \<Longrightarrow> P (xs ! first_idx P xs)"
  by (induction xs) (auto split: if_splits)

lemma first_idx_before: "i < first_idx P xs \<Longrightarrow> \<not> P (xs ! i)"
  by (induction xs arbitrary: i) (auto simp: nth_Cons' split: if_splits)

lemma first_idx_append:
  "first_idx P (xs @ ys) =
     (if \<exists>x \<in> set xs. P x then first_idx P xs else length xs + first_idx P ys)"
  by (induction xs) auto

lemma first_idx_map: "first_idx P (map f xs) = first_idx (P \<circ> f) xs"
  by (induction xs) auto

text \<open>\<open>memmove(&a[i], &a[i+1], (n-i-1) * sizeof *a)\<close> followed by \<open>n--\<close>.\<close>

definition del_at :: "nat \<Rightarrow> 'a list \<Rightarrow> 'a list" where
  "del_at i xs = take i xs @ drop (Suc i) xs"

lemma length_del_at: "i < length xs \<Longrightarrow> length (del_at i xs) = length xs - 1"
  by (simp add: del_at_def)

lemma del_at_split: "i < length xs \<Longrightarrow> xs = take i xs @ xs ! i # drop (Suc i) xs"
  by (rule id_take_nth_drop)

lemma set_del_at_subset: "set (del_at i xs) \<subseteq> set xs"
  by (auto simp: del_at_def dest: in_set_takeD in_set_dropD)

lemma set_del_at_distinct:
  assumes "distinct xs" and "i < length xs"
  shows "set (del_at i xs) = set xs - {xs ! i}"
proof -
  from assms(2) have xs: "xs = take i xs @ xs ! i # drop (Suc i) xs"
    by (rule id_take_nth_drop)
  with assms(1) have "distinct (take i xs @ xs ! i # drop (Suc i) xs)" by simp
  then have "xs ! i \<notin> set (take i xs)" "xs ! i \<notin> set (drop (Suc i) xs)" by auto
  moreover have "set xs = set (take i xs) \<union> {xs ! i} \<union> set (drop (Suc i) xs)"
    using arg_cong [OF xs, of set] by simp
  ultimately show ?thesis by (auto simp: del_at_def)
qed

lemma distinct_del_at: "distinct xs \<Longrightarrow> distinct (del_at i xs)"
  by (auto simp: del_at_def set_take_disj_set_drop_if_distinct)

lemma map_del_at: "map f (del_at i xs) = del_at i (map f xs)"
  by (simp add: del_at_def take_map drop_map)

section \<open>Cutting strings\<close>

text \<open>
  \<open>strrchr\<close>: the position of the last occurrence.  \<open>cut_last c s\<close> is the string after
  \<open>if ((p = strrchr(s, c)) != NULL) *p = 0\<close>.
\<close>

fun strrchr :: "string \<Rightarrow> char \<Rightarrow> nat option" where
  "strrchr [] c = None"
| "strrchr (x # s) c = (case strrchr s c of Some i \<Rightarrow> Some (Suc i) | None \<Rightarrow> if x = c then Some 0 else None)"

definition cut_last :: "char \<Rightarrow> string \<Rightarrow> string" where
  "cut_last c s = (case strrchr s c of None \<Rightarrow> s | Some i \<Rightarrow> take i s)"

lemma strrchr_None_iff: "strrchr s c = None \<longleftrightarrow> c \<notin> set s"
  by (induction s) (auto split: option.splits)

lemma strrchr_none [simp]: "c \<notin> set s \<Longrightarrow> strrchr s c = None"
  by (simp add: strrchr_None_iff)

lemma strrchr_append: "c \<notin> set t \<Longrightarrow> strrchr (s @ c # t) c = Some (length s)"
  by (induction s) simp_all

lemma cut_last_none [simp]: "c \<notin> set s \<Longrightarrow> cut_last c s = s"
  by (simp add: cut_last_def)

lemma cut_last_append [simp]: "c \<notin> set t \<Longrightarrow> cut_last c (s @ c # t) = s"
  by (simp add: cut_last_def strrchr_append)

lemma strrchr_Some:
  "strrchr s c = Some i \<Longrightarrow> i < length s \<and> s ! i = c \<and> c \<notin> set (drop (Suc i) s)"
proof (induction s arbitrary: i)
  case Nil
  then show ?case by simp
next
  case (Cons x s)
  then show ?case
  proof (cases "strrchr s c")
    case None
    then have "c \<notin> set s" by (rule strrchr_None_iff [THEN iffD1])
    with None show ?thesis using Cons.prems by (simp split: if_splits)
  next
    case (Some j)
    with Cons.prems have "i = Suc j" by simp
    with Cons.IH [OF Some] show ?thesis by simp
  qed
qed

end
