(* ===== verification/CStr.thy ===== *)
theory CStr
  imports Prelude
begin

text \<open>
  The bounded string routines of core/string.c: \<open>AG_Strlcpy\<close>, \<open>AG_Strlcat\<close>, \<open>AG_Strsep\<close>,
  \<open>AG_StrReverse\<close> and the decimal formatters \<open>AG_StrlcpyInt\<close>, \<open>AG_StrlcpyUint\<close>,
  \<open>AG_StrlcatInt\<close>, \<open>AG_StrlcatUint\<close>, and the case-insensitive search of
  core/string.h.  Each loop is translated over checked memory; the lemmas then
  state what each routine computes on the strings its arguments hold, and that it
  stays inside its buffers.
\<close>

section \<open>AG_Strlcpy\<close>

text \<open>The do-while loop: \<open>d\<close> indexes \<open>dst\<close>, the third argument is \<open>s\<close>, the last is \<open>n\<close>.\<close>

fun strlcpy_copy ::
  "char list \<Rightarrow> nat \<Rightarrow> char list \<Rightarrow> nat \<Rightarrow> (char list \<times> nat \<times> char list \<times> nat) option" where
  "strlcpy_copy dst d [] n = None"
| "strlcpy_copy dst d (c # s) n = do {
     dst \<leftarrow> wr dst d c;
     if c = NUL then Some (dst, Suc d, s, n)
     else if n - 1 \<noteq> 0 then strlcpy_copy dst (Suc d) s (n - 1)
     else Some (dst, Suc d, s, 0)
   }"

definition AG_Strlcpy :: "char list \<Rightarrow> char list \<Rightarrow> nat \<Rightarrow> (char list \<times> nat) option" where
  "AG_Strlcpy dst src siz = do {
     (dst, d, s, n) \<leftarrow> (if siz \<noteq> 0 \<and> siz - 1 \<noteq> 0 then strlcpy_copy dst 0 src (siz - 1)
                        else Some (dst, 0, src, siz - 1));
     (dst, s) \<leftarrow> (if n = 0 then do {
                   dst \<leftarrow> (if siz \<noteq> 0 then wr dst d NUL else Some dst);
                   s \<leftarrow> scan_nul s;
                   Some (dst, s)
                 } else Some (dst, s));
     Some (dst, length src - length s - 1)
   }"

lemma strlcpy_copy_fits:
  assumes "nonul s" and "length s < n" and "d + length s < length dst"
  shows "strlcpy_copy dst d (s @ NUL # r) n =
           Some (take d dst @ s @ NUL # drop (d + length s + 1) dst,
                 d + length s + 1, r, n - length s)"
  using assms
proof (induction s arbitrary: dst d n)
  case Nil
  then show ?case by (simp add: wr_in upd_conv_take_nth_drop)
next
  case (Cons c s)
  from Cons.prems have d: "d < length dst" by simp
  let ?dst = "dst[d := c]"
  have "strlcpy_copy dst d ((c # s) @ NUL # r) n = strlcpy_copy ?dst (Suc d) (s @ NUL # r) (n - 1)"
    using Cons.prems d by (simp add: wr_in)
  also have "\<dots> = Some (take (Suc d) ?dst @ s @ NUL # drop (Suc d + length s + 1) ?dst,
                 Suc d + length s + 1, r, n - 1 - length s)"
    using Cons.prems by (intro Cons.IH) auto
  also have "take (Suc d) ?dst = take d dst @ [c]"
    using d by (simp add: take_Suc_conv_app_nth)
  also have "drop (Suc d + length s + 1) ?dst = drop (Suc d + length s + 1) dst"
    by simp
  finally show ?case by simp
qed

lemma strlcpy_copy_truncates:
  assumes "nonul s" and "0 < n" and "n \<le> length s" and "d + n \<le> length dst"
  shows "strlcpy_copy dst d (s @ t) n =
           Some (take d dst @ take n s @ drop (d + n) dst, d + n, drop n s @ t, 0)"
  using assms
proof (induction s arbitrary: dst d n)
  case Nil
  then show ?case by simp
next
  case (Cons c s)
  from Cons.prems have d: "d < length dst" by simp
  let ?dst = "dst[d := c]"
  have tk: "take (Suc d) ?dst = take d dst @ [c]"
    using d by (simp add: take_Suc_conv_app_nth)
  show ?case
  proof (cases "n = 1")
    case True
    with Cons.prems d show ?thesis
      by (simp add: wr_in upd_conv_take_nth_drop)
  next
    case False
    with Cons.prems obtain m where n: "n = Suc m" and m: "0 < m"
      by (cases n) auto
    have "strlcpy_copy dst d ((c # s) @ t) n = strlcpy_copy ?dst (Suc d) (s @ t) m"
      using Cons.prems d n m by (simp add: wr_in)
    also have "\<dots> = Some (take (Suc d) ?dst @ take m s @ drop (Suc d + m) ?dst,
                         Suc d + m, drop m s @ t, 0)"
      using Cons.prems n m by (intro Cons.IH) auto
    finally show ?thesis using n tk by simp
  qed
qed

text \<open>
  What the routine does on strings: \<open>dst\<close> gets the first \<open>siz - 1\<close> characters and a NUL,
  the rest of \<open>dst\<close> is untouched, and the result is the length of the source.
\<close>

lemma AG_Strlcpy_spec:
  assumes s: "nonul s" and siz: "siz \<le> length dst" "siz \<noteq> 0"
  shows "AG_Strlcpy dst (s @ NUL # r) siz =
           Some (take (siz - 1) s @ NUL # drop (Suc (min (siz - 1) (length s))) dst, length s)"
proof (cases "length s < siz - 1")
  case True
  then have "strlcpy_copy dst 0 (s @ NUL # r) (siz - 1) =
     Some (s @ NUL # drop (Suc (length s)) dst, length s + 1, r, siz - 1 - length s)"
    using strlcpy_copy_fits [of s "siz - 1" 0 dst r] s siz by simp
  moreover from True have "\<not> siz \<le> Suc (length s)" by simp
  ultimately show ?thesis using True siz by (simp add: AG_Strlcpy_def)
next
  case False
  show ?thesis
  proof (cases "siz = 1")
    case True
    with siz obtain a b where dst: "dst = a # b" by (cases dst) auto
    from True dst s show ?thesis by (simp add: AG_Strlcpy_def wr_def)
  next
    case n1: False
    let ?n = "siz - 1"
    have n: "0 < ?n" "?n \<le> length s" "?n < length dst" using n1 False siz by auto
    have cp: "strlcpy_copy dst 0 (s @ NUL # r) ?n =
       Some (take ?n s @ drop ?n dst, ?n, drop ?n s @ NUL # r, 0)"
      using strlcpy_copy_truncates [of s ?n 0 dst "NUL # r"] s n by simp
    have w: "wr (take ?n s @ drop ?n dst) ?n NUL = Some (take ?n s @ NUL # drop siz dst)"
      using n siz by (cases "drop ?n dst") (auto simp: wr_def list_update_append min_def drop_Suc
          tl_drop [symmetric] Cons_nth_drop_Suc [symmetric] split: nat_diff_split)
    have sc: "scan_nul (drop ?n s @ NUL # r) = Some r"
      using s by (intro scan_nul_append) auto
    from n n1 cp w sc siz show ?thesis by (simp add: AG_Strlcpy_def min_def)
  qed
qed

lemma AG_Strlcpy_zero: "nonul s \<Longrightarrow> AG_Strlcpy dst (s @ NUL # r) 0 = Some (dst, length s)"
  by (simp add: AG_Strlcpy_def)


text \<open>The pure function behind the routine, used by the components that only see strings.\<close>

definition str_cpy :: "nat \<Rightarrow> string \<Rightarrow> string" where
  "str_cpy siz s = take (siz - 1) s"

section \<open>AG_Strlcat\<close>

text \<open>\<open>while (n-- != 0 && *d != 0) d++;\<close>\<close>

fun strlcat_end :: "char list \<Rightarrow> nat \<Rightarrow> nat \<Rightarrow> nat option" where
  "strlcat_end dst d 0 = Some d"
| "strlcat_end dst d (Suc n) = do {
     c \<leftarrow> rd dst d;
     if c \<noteq> NUL then strlcat_end dst (Suc d) n else Some d
   }"

fun strlcat_copy ::
  "char list \<Rightarrow> nat \<Rightarrow> char list \<Rightarrow> nat \<Rightarrow> (char list \<times> nat \<times> char list) option" where
  "strlcat_copy dst d [] n = None"
| "strlcat_copy dst d (c # s) n =
     (if c = NUL then Some (dst, d, c # s)
      else if n \<noteq> 1 then do { dst \<leftarrow> wr dst d c; strlcat_copy dst (Suc d) s (n - 1) }
      else strlcat_copy dst d s n)"

definition AG_Strlcat :: "char list \<Rightarrow> char list \<Rightarrow> nat \<Rightarrow> (char list \<times> nat) option" where
  "AG_Strlcat dst src siz = do {
     dlen \<leftarrow> strlcat_end dst 0 siz;
     let n = siz - dlen;
     if n = 0 then do { len \<leftarrow> strlen src; Some (dst, dlen + len) }
     else do {
       (dst, d, s) \<leftarrow> strlcat_copy dst dlen src n;
       dst \<leftarrow> wr dst d NUL;
       Some (dst, dlen + (length src - length s))
     }
   }"

lemma strlcat_end_spec:
  assumes "nonul t" and "d + length t \<le> length dst" and "take (length t) (drop d dst) = t"
    and "n \<le> length t \<or> d + length t < length dst \<and> dst ! (d + length t) = NUL"
  shows "strlcat_end dst d n = Some (d + min n (length t))"
  using assms
proof (induction n arbitrary: d t)
  case 0
  then show ?case by simp
next
  case (Suc n)
  show ?case
  proof (cases t)
    case Nil
    with Suc.prems show ?thesis by (auto simp: rd_def)
  next
    case (Cons c t')
    with Suc.prems have d: "d < length dst" by simp
    then have dr: "drop d dst = dst ! d # drop (Suc d) dst" by (simp add: Cons_nth_drop_Suc)
    from Suc.prems(3) Cons dr have c: "dst ! d = c" and t': "take (length t') (drop (Suc d) dst) = t'"
      by simp_all
    have "strlcat_end dst (Suc d) n = Some (Suc d + min n (length t'))"
      using Suc.prems Cons t' by (intro Suc.IH) auto
    with c d Cons Suc.prems(1) show ?thesis by (simp add: rd_def)
  qed
qed

lemma strlcat_copy_spec:
  assumes "nonul s" and "0 < n" and "d + n \<le> length dst"
  shows "strlcat_copy dst d (s @ NUL # r) n =
           (let k = min (n - 1) (length s)
            in Some (take d dst @ take k s @ drop (d + k) dst, d + k, NUL # r))"
  using assms
proof (induction s arbitrary: dst d n)
  case Nil
  then show ?case by (simp add: Let_def)
next
  case (Cons c s)
  show ?case
  proof (cases "n = 1")
    case True
    with Cons.prems Cons.IH [of n d dst] show ?thesis by (simp add: Let_def)
  next
    case False
    with Cons.prems have d: "d < length dst" by simp
    let ?dst = "dst[d := c]"
    have tk: "take (Suc d) ?dst = take d dst @ [c]"
      using d by (simp add: take_Suc_conv_app_nth)
    have mn: "min (n - 1) (length (c # s)) = Suc (min (n - 1 - 1) (length s))"
      using Cons.prems False by (auto simp: min_def)
    have "strlcat_copy dst d ((c # s) @ NUL # r) n = strlcat_copy ?dst (Suc d) (s @ NUL # r) (n - 1)"
      using Cons.prems d False by (simp add: wr_in)
    also have "\<dots> = (let k = min (n - 1 - 1) (length s)
        in Some (take (Suc d) ?dst @ take k s @ drop (Suc d + k) ?dst, Suc d + k, NUL # r))"
      using Cons.prems False by (intro Cons.IH) auto
    finally show ?thesis using tk mn by (simp add: Let_def)
  qed
qed

text \<open>
  \<open>dst\<close> holds \<open>t\<close>.  With room left (\<open>length t < siz\<close>) the source is appended as far as it
  fits and the result is the length of the whole concatenation; without room nothing is
  written and the result is \<open>siz\<close> plus the length of the source.
\<close>

theorem AG_Strlcat_spec:
  assumes t: "nonul t" and s: "nonul s" and siz: "siz \<le> length t + Suc (length u)"
  shows "AG_Strlcat (t @ NUL # u) (s @ NUL # r) siz =
           (if siz \<le> length t then Some (t @ NUL # u, siz + length s)
            else let k = min (siz - length t - 1) (length s)
                 in Some (t @ take k s @ NUL # drop k u, length t + length s))"
proof -
  let ?dst = "t @ NUL # u"
  have e: "strlcat_end ?dst 0 siz = Some (min siz (length t))"
    using strlcat_end_spec [of t 0 ?dst siz] t by simp
  show ?thesis
  proof (cases "siz \<le> length t")
    case True
    with e s show ?thesis by (simp add: AG_Strlcat_def min_def)
  next
    case False
    let ?n = "siz - length t"
    let ?k = "min (?n - 1) (length s)"
    have k: "?k \<le> length u" using siz False by (auto simp: min_def)
    have "strlcat_copy ?dst (length t) (s @ NUL # r) ?n =
       Some (take (length t) ?dst @ take ?k s @ drop (length t + ?k) ?dst, length t + ?k, NUL # r)"
      using strlcat_copy_spec [of s ?n "length t" ?dst r] s siz False by (simp add: Let_def)
    moreover obtain v where v: "drop ?k (NUL # u) = v # drop ?k u"
      using k by (metis Cons_nth_drop_Suc drop_Suc_Cons le_imp_less_Suc length_Cons)
    moreover have "wr (t @ take ?k s @ v # drop ?k u) (length t + ?k) NUL =
        Some (t @ take ?k s @ NUL # drop ?k u)"
      using wr_append [of "t @ take ?k s" v "drop ?k u" NUL] by simp
    ultimately show ?thesis
      using e False by (simp add: AG_Strlcat_def Let_def)
  qed
qed

definition str_cat :: "nat \<Rightarrow> string \<Rightarrow> string \<Rightarrow> string" where
  "str_cat siz t s = (if siz \<le> length t then t else take (siz - 1) (t @ s))"

section \<open>AG_Strsep\<close>

text \<open>The inner do-while: is \<open>c\<close> one of the delimiters, the terminator of \<open>delim\<close> included?\<close>

fun strsep_hit :: "char \<Rightarrow> char list \<Rightarrow> bool option" where
  "strsep_hit c [] = None"
| "strsep_hit c (sc # spanp) =
     (if sc = c then Some True else if sc \<noteq> NUL then strsep_hit c spanp else Some False)"

text \<open>
  The outer loop.  The result is the new \<open>*stringp\<close> (\<^const>\<open>None\<close> for \<open>NULL\<close>) and the
  buffer, in which the delimiter has become a NUL.
\<close>

function strsep_scan :: "char list \<Rightarrow> nat \<Rightarrow> char list \<Rightarrow> (nat option \<times> char list) option" where
  "strsep_scan b s delim = do {
     c \<leftarrow> rd b s;
     hit \<leftarrow> strsep_hit c delim;
     if hit then (if c = NUL then Some (None, b) else Some (Some (Suc s), b[s := NUL]))
     else strsep_scan b (Suc s) delim
   }"
  by pat_completeness auto
termination
  by (relation "measure (\<lambda>(b, s, _). length b - s)") (auto dest: rd_length)

declare strsep_scan.simps [simp del]

text \<open>\<open>stringp\<close> is a position in \<open>b\<close> or NULL; the token returned is the old position.\<close>

definition AG_Strsep ::
  "char list \<Rightarrow> nat option \<Rightarrow> char list \<Rightarrow> (nat option \<times> nat option \<times> char list) option" where
  "AG_Strsep b stringp delim =
     (case stringp of
        None \<Rightarrow> Some (None, None, b)
      | Some s \<Rightarrow> do { (next, b) \<leftarrow> strsep_scan b s delim; Some (Some s, next, b) })"

lemma strsep_hit_spec: "nonul ds \<Longrightarrow> strsep_hit c (ds @ NUL # r) = Some (c \<in> set ds \<or> c = NUL)"
  by (induction ds) auto

lemma strsep_scan_spec:
  assumes "nonul ds" and "nonul tok" and "set tok \<inter> set ds = {}" and "c = NUL \<or> c \<in> set ds"
  shows "strsep_scan (pre @ tok @ c # post) (length pre) (ds @ NUL # r) =
           (if c = NUL then Some (None, pre @ tok @ c # post)
            else Some (Some (length pre + length tok + 1), pre @ tok @ NUL # post))"
  using assms
proof (induction tok arbitrary: pre)
  case Nil
  then show ?case by (subst strsep_scan.simps) (auto simp: buf_simps strsep_hit_spec)
next
  case (Cons x tok)
  have "strsep_scan (pre @ (x # tok) @ c # post) (length pre) (ds @ NUL # r) =
        strsep_scan ((pre @ [x]) @ tok @ c # post) (length (pre @ [x])) (ds @ NUL # r)"
    using Cons.prems by (subst strsep_scan.simps) (auto simp: buf_simps strsep_hit_spec)
  also have "\<dots> = (if c = NUL then Some (None, (pre @ [x]) @ tok @ c # post)
      else Some (Some (length (pre @ [x]) + length tok + 1), (pre @ [x]) @ tok @ NUL # post))"
    using Cons.prems by (intro Cons.IH) auto
  finally show ?case by simp
qed

text \<open>
  The strings seen by a caller that collects every token: \<open>split_on ds s\<close>.  One call
  of \<open>AG_Strsep\<close> peels off one element.
\<close>

fun split_on :: "char set \<Rightarrow> string \<Rightarrow> string list" where
  "split_on ds [] = [[]]"
| "split_on ds (c # s) =
     (if c \<in> ds then [] # split_on ds s
      else (c # hd (split_on ds s)) # tl (split_on ds s))"

lemma split_on_nonempty [simp]: "split_on ds s \<noteq> []"
  by (induction s) auto

lemma split_on_token:
  "set tok \<inter> ds = {} \<Longrightarrow> split_on ds tok = [tok]"
  by (induction tok) auto

lemma split_on_delim:
  "set tok \<inter> ds = {} \<Longrightarrow> c \<in> ds \<Longrightarrow> split_on ds (tok @ c # s) = tok # split_on ds s"
  by (induction tok) auto

function strsep_all :: "char list \<Rightarrow> nat option \<Rightarrow> char list \<Rightarrow> string list option" where
  "strsep_all b stringp delim = do {
     (tok, next, b) \<leftarrow> AG_Strsep b stringp delim;
     (case tok of
        None \<Rightarrow> Some []
      | Some p \<Rightarrow> map_option ((#) (cstr (drop p b))) (strsep_all b next delim))
   }"
  by pat_completeness auto

lemma strsep_scan_next:
  "strsep_scan b s delim = Some (nxt, b') \<Longrightarrow>
     length b' = length b \<and> (\<forall>n. nxt = Some n \<longrightarrow> s < n \<and> n \<le> length b)"
proof (induction b s delim arbitrary: rule: strsep_scan.induct)
  case (1 b s delim)
  from "1.prems" obtain c hit where c: "rd b s = Some c" and h: "strsep_hit c delim = Some hit"
    by (subst (asm) strsep_scan.simps) (auto split: Option.bind_splits)
  show ?case
  proof (cases hit)
    case True
    with "1.prems" c h show ?thesis
      by (subst (asm) strsep_scan.simps) (auto split: if_splits dest: rd_length)
  next
    case False
    with "1.prems" c h have "strsep_scan b (Suc s) delim = Some (nxt, b')"
      by (subst (asm) strsep_scan.simps) simp
    then show ?thesis using "1.IH" [OF c h] False by force
  qed
qed

termination strsep_all
  by (relation "measure (\<lambda>(b, p, _). case p of None \<Rightarrow> 0 | Some n \<Rightarrow> Suc (length b) - n + 1)")
     (auto simp: AG_Strsep_def dest!: strsep_scan_next split: option.splits Option.bind_splits)

declare strsep_all.simps [simp del]

lemma strsep_all_split:
  assumes "nonul ds" and "nonul s"
  shows "strsep_all (pre @ s @ NUL # post) (Some (length pre)) (ds @ NUL # r) =
           Some (split_on (set ds) s)"
  using assms(2)
proof (induction "length s" arbitrary: s pre rule: less_induct)
  case less
  let ?tok = "takeWhile (\<lambda>c. c \<notin> set ds) s"
  have tok: "nonul ?tok" "set ?tok \<inter> set ds = {}"
    using less.prems by (auto simp: nonul_def dest: set_takeWhileD)
  show ?case
  proof (cases "dropWhile (\<lambda>c. c \<notin> set ds) s")
    case Nil
    then have s: "?tok = s" by (metis append_Nil2 takeWhile_dropWhile_id)
    have "strsep_scan (pre @ s @ NUL # post) (length pre) (ds @ NUL # r) =
        Some (None, pre @ s @ NUL # post)"
      using strsep_scan_spec [of ds s NUL pre post r] assms(1) tok s by simp
    moreover have "split_on (set ds) s = [s]"
      using split_on_token [OF tok(2)] unfolding s .
    ultimately show ?thesis using less.prems
      by (subst strsep_all.simps) (simp add: AG_Strsep_def strsep_all.simps [of _ None])
  next
    case (Cons c s')
    then have cd: "c \<in> set ds" using hd_dropWhile [of "\<lambda>c. c \<notin> set ds" s] by simp
    have s: "s = ?tok @ c # s'" using Cons by (metis takeWhile_dropWhile_id)
    have cn: "c \<noteq> NUL" using cd assms(1) by (auto simp: nonul_def)
    have ns': "nonul s'" using less.prems s by (metis nonul_simps(2,3))
    define pre' where "pre' = pre @ ?tok @ [NUL]"
    have sc: "strsep_scan (pre @ s @ NUL # post) (length pre) (ds @ NUL # r) =
        Some (Some (length pre'), pre' @ s' @ NUL # post)"
      using strsep_scan_spec [of ds ?tok c pre "s' @ NUL # post" r] assms(1) tok cd cn s
      by (simp add: pre'_def) (metis append.assoc append_Cons)
    have "length s' < length s" using arg_cong [OF s, of length] by simp
    then have "strsep_all (pre' @ s' @ NUL # post) (Some (length pre')) (ds @ NUL # r) =
        Some (split_on (set ds) s')"
      using ns' by (rule less.hyps)
    moreover have "split_on (set ds) s = ?tok # split_on (set ds) s'"
      using split_on_delim [OF tok(2) cd, of s'] s by simp
    moreover have "cstr (drop (length pre) (pre' @ s' @ NUL # post)) = ?tok"
      using tok(1) by (simp add: pre'_def)
    ultimately show ?thesis using sc
      by (subst strsep_all.simps) (simp add: AG_Strsep_def)
  qed
qed

text \<open>The tokens of a string, as its callers collect them.\<close>

definition tokens :: "string \<Rightarrow> string \<Rightarrow> string list option" where
  "tokens ds s = strsep_all (s @ [NUL]) (Some 0) (ds @ [NUL])"

lemma tokens_eq: "nonul ds \<Longrightarrow> nonul s \<Longrightarrow> tokens ds s = Some (split_on (set ds) s)"
  using strsep_all_split [of ds s "[]" "[]" "[]"] by (simp add: tokens_def)

section \<open>AG_StrReverse\<close>

function strreverse_end :: "char list \<Rightarrow> nat \<Rightarrow> nat option" where
  "strreverse_end b q = do {
     c \<leftarrow> rd b (Suc q);
     if c \<noteq> NUL then strreverse_end b (Suc q) else Some (Suc q)
   }"
  by pat_completeness auto
termination
  by (relation "measure (\<lambda>(b, q). length b - q)") (auto dest: rd_length)

function strreverse_swap :: "char list \<Rightarrow> nat \<Rightarrow> nat \<Rightarrow> char list option" where
  "strreverse_swap b p q =
     (let q = q - 1
      in if p < q then do {
           c \<leftarrow> rd b p;
           c' \<leftarrow> rd b q;
           b \<leftarrow> wr b p c';
           b \<leftarrow> wr b q c;
           strreverse_swap b (Suc p) q
         } else Some b)"
  by pat_completeness auto
termination
  by (relation "measure (\<lambda>(b, p, q). q - p)") auto

declare strreverse_end.simps [simp del] strreverse_swap.simps [simp del]

definition AG_StrReverse :: "char list \<Rightarrow> nat \<Rightarrow> char list option" where
  "AG_StrReverse b s = do {
     c \<leftarrow> rd b s;
     if c = NUL then Some b
     else do { q \<leftarrow> strreverse_end b s; strreverse_swap b s q }
   }"

lemma strreverse_end_spec:
  "nonul s \<Longrightarrow> strreverse_end (pre @ x # s @ NUL # post) (length pre) =
     Some (length pre + length s + 1)"
proof (induction s arbitrary: pre x)
  case Nil
  then show ?case by (subst strreverse_end.simps) (simp add: rd_def nth_append)
next
  case (Cons y s)
  have "strreverse_end (pre @ x # (y # s) @ NUL # post) (length pre) =
        strreverse_end ((pre @ [x]) @ y # s @ NUL # post) (length (pre @ [x]))"
    using Cons.prems by (subst strreverse_end.simps) (simp add: rd_def nth_append)
  also have "\<dots> = Some (length (pre @ [x]) + length s + 1)"
    using Cons.prems by (intro Cons.IH) simp
  finally show ?case by simp
qed

lemma strreverse_swap_spec:
  "strreverse_swap (pre @ s @ post) (length pre) (length pre + length s) = Some (pre @ rev s @ post)"
proof (induction "length s" arbitrary: s pre post rule: less_induct)
  case less
  show ?case
  proof (cases "length s < 2")
    case True
    then have "rev s = s" by (cases s) auto
    with True show ?thesis by (subst strreverse_swap.simps) (auto simp: Let_def)
  next
    case False
    then obtain x s' where s1: "s = x # s'" and "s' \<noteq> []" by (cases s) auto
    then obtain m y where s: "s = x # m @ [y]" by (metis rev_exhaust)
    have "strreverse_swap (pre @ s @ post) (length pre) (length pre + length s) =
      strreverse_swap ((pre @ [y]) @ m @ (x # post)) (length (pre @ [y])) (length (pre @ [y]) + length m)"
      by (subst strreverse_swap.simps)
         (simp add: s Let_def rd_def wr_def nth_append list_update_append)
    also have "\<dots> = Some ((pre @ [y]) @ rev m @ (x # post))"
      using s by (intro less.hyps) simp
    finally show ?thesis by (simp add: s)
  qed
qed

theorem AG_StrReverse_spec:
  assumes "nonul s"
  shows "AG_StrReverse (pre @ s @ NUL # post) (length pre) = Some (pre @ rev s @ NUL # post)"
proof (cases s)
  case Nil
  then show ?thesis by (simp add: AG_StrReverse_def buf_simps)
next
  case (Cons x s')
  with assms have e: "strreverse_end (pre @ s @ NUL # post) (length pre) = Some (length pre + length s)"
    using strreverse_end_spec [of s' pre x post] by simp
  have "rd (pre @ s @ NUL # post) (length pre) = Some x" using Cons by (simp add: buf_simps)
  moreover have "x \<noteq> NUL" using assms Cons by simp
  ultimately show ?thesis using e strreverse_swap_spec [of pre s "NUL # post"]
    by (simp add: AG_StrReverse_def)
qed

section \<open>Decimal formatting\<close>

text \<open>\<open>static const char *digits = "0123456789";\<close>\<close>

definition digit_char :: "nat \<Rightarrow> char" where
  "digit_char n = ''0123456789'' ! n"

text \<open>
  The do-while of the four formatters.  It leaves at \<open>trunc\<close> when \<open>i + 1 > sz\<close>; the
  last component of the result says so.
\<close>

function put_digits :: "char list \<Rightarrow> nat \<Rightarrow> nat \<Rightarrow> nat \<Rightarrow> (char list \<times> nat \<times> bool) option" where
  "put_digits s i val sz =
     (if i + 1 > sz then Some (s, i, True)
      else do {
        s \<leftarrow> wr s i (digit_char (val mod 10));
        if val div 10 > 0 then put_digits s (Suc i) (val div 10) sz
        else Some (s, Suc i, False)
      })"
  by pat_completeness auto
termination
  by (relation "measure (\<lambda>(_, _, val, _). val)") auto

declare put_digits.simps [simp del]

text \<open>The end of the four formatters: NUL, reversal from \<open>start\<close>, result.\<close>

definition end_digits :: "char list \<Rightarrow> nat \<Rightarrow> nat \<Rightarrow> nat \<Rightarrow> bool \<Rightarrow> (char list \<times> nat) option" where
  "end_digits s start i sz trunc =
     (if trunc \<or> i + 1 > sz then do {
        s \<leftarrow> wr s (sz - 1) NUL;
        s \<leftarrow> AG_StrReverse s start;
        Some (s, i + 1)
      } else do {
        s \<leftarrow> wr s i NUL;
        s \<leftarrow> AG_StrReverse s start;
        Some (s, i)
      })"

definition put_sign :: "char list \<Rightarrow> nat \<Rightarrow> bool \<Rightarrow> bool \<Rightarrow> nat \<Rightarrow> (char list \<times> nat \<times> bool) option" where
  "put_sign s i trunc sign sz =
     (if \<not> trunc \<and> sign then
        (if i + 1 > sz then Some (s, i, True)
         else do { s \<leftarrow> wr s i (CHR ''-''); Some (s, Suc i, False) })
      else Some (s, i, trunc))"

definition AG_StrlcpyUint :: "char list \<Rightarrow> nat \<Rightarrow> nat \<Rightarrow> (char list \<times> nat) option" where
  "AG_StrlcpyUint s val sz =
     (if sz < 1 then Some (s, 1)
      else do {
        (s, i, trunc) \<leftarrow> put_digits s 0 val sz;
        end_digits s 0 i sz trunc
      })"

text \<open>
  \<open>val\<close> is a 32-bit \<open>int\<close>; \<open>-val\<close> overflows for the smallest one, which C leaves
  undefined.
\<close>

definition AG_StrlcpyInt :: "char list \<Rightarrow> int \<Rightarrow> nat \<Rightarrow> (char list \<times> nat) option" where
  "AG_StrlcpyInt s val sz =
     (if sz < 1 then Some (s, 1)
      else if val = - (2 ^ 31) then None
      else do {
        (s, i, trunc) \<leftarrow> put_digits s 0 (nat (if val < 0 then - val else val)) sz;
        (s, i, trunc) \<leftarrow> put_sign s i trunc (val < 0) sz;
        end_digits s 0 i sz trunc
      })"

definition AG_StrlcatUint :: "char list \<Rightarrow> nat \<Rightarrow> nat \<Rightarrow> (char list \<times> nat) option" where
  "AG_StrlcatUint s val sz = do {
     iStart \<leftarrow> strlen s;
     if sz < 1 then Some (s, 1)
     else do {
       (s, i, trunc) \<leftarrow> put_digits s iStart val sz;
       end_digits s iStart i sz trunc
     }
   }"

definition AG_StrlcatInt :: "char list \<Rightarrow> int \<Rightarrow> nat \<Rightarrow> (char list \<times> nat) option" where
  "AG_StrlcatInt s val sz = do {
     iStart \<leftarrow> strlen s;
     if sz < 1 then Some (s, 1)
     else if val = - (2 ^ 31) then None
     else do {
       (s, i, trunc) \<leftarrow> put_digits s iStart (nat (if val < 0 then - val else val)) sz;
       (s, i, trunc) \<leftarrow> put_sign s i trunc (val < 0) sz;
       end_digits s iStart i sz trunc
     }
   }"

text \<open>The decimal numeral of a number, least significant digit first and in reading order.\<close>

function dec_rev :: "nat \<Rightarrow> string" where
  "dec_rev n = digit_char (n mod 10) # (if n div 10 > 0 then dec_rev (n div 10) else [])"
  by pat_completeness auto
termination
  by (relation "measure id") auto

declare dec_rev.simps [simp del]

definition dec :: "nat \<Rightarrow> string" where
  "dec n = rev (dec_rev n)"

definition dec_int :: "int \<Rightarrow> string" where
  "dec_int v = (if v < 0 then CHR ''-'' # dec (nat (- v)) else dec (nat v))"

definition undec_rev :: "string \<Rightarrow> nat" where
  "undec_rev s = foldr (\<lambda>c n. (of_char c - 48) + 10 * n) s 0"

lemma digit_char_val: "d < 10 \<Longrightarrow> of_char (digit_char d) - 48 = d"
  by (auto simp: digit_char_def nth_Cons' numeral_eq_Suc less_Suc_eq)

lemma digit_char_nonul [simp]: "d < 10 \<Longrightarrow> digit_char d \<noteq> NUL"
  by (auto simp: digit_char_def nth_Cons' numeral_eq_Suc less_Suc_eq)

lemma undec_dec_rev: "undec_rev (dec_rev n) = n"
proof (induction n rule: dec_rev.induct)
  case (1 n)
  show ?case
  proof (cases "n div 10 > 0")
    case True
    with "1.IH" have "undec_rev (dec_rev (n div 10)) = n div 10" by simp
    with True show ?thesis
      by (subst dec_rev.simps) (simp add: undec_rev_def digit_char_val)
  next
    case False
    then show ?thesis
      by (subst dec_rev.simps) (simp add: undec_rev_def digit_char_val)
  qed
qed

lemma dec_inject [simp]: "dec m = dec n \<longleftrightarrow> m = n"
  by (metis dec_def rev_rev_ident undec_dec_rev)

lemma dec_rev_nonul [simp]: "nonul (dec_rev n)"
  by (induction n rule: dec_rev.induct) (subst dec_rev.simps, simp)

lemma dec_nonul [simp]: "nonul (dec n)"
  by (simp add: dec_def)

lemma dec_rev_length_pos [simp]: "0 < length (dec_rev n)"
  by (subst dec_rev.simps) simp

lemma dec_rev_length_le: "n < 10 ^ k \<Longrightarrow> 0 < k \<Longrightarrow> length (dec_rev n) \<le> k"
proof (induction k arbitrary: n)
  case 0
  then show ?case by simp
next
  case (Suc k)
  show ?case
  proof (cases "n div 10 > 0")
    case True
    with Suc.prems have "0 < k" by (cases k) auto
    moreover have "n div 10 < 10 ^ k" using Suc.prems(1) by (simp add: less_mult_imp_div_less mult.commute)
    ultimately have "length (dec_rev (n div 10)) \<le> k" by (rule Suc.IH [rotated])
    with True show ?thesis by (subst dec_rev.simps) simp
  next
    case False
    then show ?thesis by (subst dec_rev.simps) simp
  qed
qed

lemma put_digits_spec:
  assumes "sz \<le> length s" and "i \<le> sz"
  shows "put_digits s i val sz =
     (let f = dec_rev val
      in if i + length f \<le> sz then Some (take i s @ f @ drop (i + length f) s, i + length f, False)
         else Some (take i s @ take (sz - i) f @ drop sz s, sz, True))"
  using assms
proof (induction s i val sz rule: put_digits.induct)
  case (1 s i val sz)
  show ?case
  proof (cases "i + 1 > sz")
    case True
    with "1.prems" have i: "i = sz" by simp
    moreover have "\<not> i + length (dec_rev val) \<le> sz"
      using i dec_rev_length_pos [of val] by linarith
    ultimately show ?thesis by (subst put_digits.simps) (simp add: Let_def)
  next
    case False
    with "1.prems" have il: "i < length s" "i < sz" by auto
    let ?s = "s[i := digit_char (val mod 10)]"
    have w: "wr s i (digit_char (val mod 10)) = Some ?s" using il by (simp add: wr_def)
    have tk: "take (Suc i) ?s = take i s @ [digit_char (val mod 10)]"
      using il by (simp add: take_Suc_conv_app_nth)
    show ?thesis
    proof (cases "val div 10 > 0")
      case True
      with "1.prems" "1.IH" [OF False w True] il
      have ih: "put_digits ?s (Suc i) (val div 10) sz =
        (let f = dec_rev (val div 10)
         in if Suc i + length f \<le> sz
            then Some (take (Suc i) ?s @ f @ drop (Suc i + length f) ?s, Suc i + length f, False)
            else Some (take (Suc i) ?s @ take (sz - Suc i) f @ drop sz ?s, sz, True))" by simp
      have f: "dec_rev val = digit_char (val mod 10) # dec_rev (val div 10)"
        using True by (subst dec_rev.simps) simp
      show ?thesis using False w True ih il tk
        by (subst put_digits.simps) (simp add: f Let_def take_Cons')
    next
      case v0: False
      then have f: "dec_rev val = [digit_char (val mod 10)]"
        by (subst dec_rev.simps) simp
      show ?thesis using False w v0 il
        by (subst put_digits.simps) (simp add: f upd_conv_take_nth_drop)
    qed
  qed
qed

text \<open>Digits, sign, end: \<open>F\<close> is the text to write, \<open>start\<close> where it goes.\<close>

definition signed_dec :: "bool \<Rightarrow> nat \<Rightarrow> string" where
  "signed_dec sign n = (if sign then [CHR ''-''] else []) @ dec n"

lemma signed_dec_nonul [simp]: "nonul (signed_dec sign n)"
  by (simp add: signed_dec_def)

lemma put_sign_spec:
  assumes "sz \<le> length s" and "start \<le> sz"
  shows "do { (s, i, trunc) \<leftarrow> put_digits s start n sz; put_sign s i trunc sign sz } =
     (let f = rev (signed_dec sign n)
      in if start + length f \<le> sz
         then Some (take start s @ f @ drop (start + length f) s, start + length f, False)
         else Some (take start s @ take (sz - start) f @ drop sz s, sz, True))"
proof (cases "start + length (dec_rev n) + 1 \<le> sz \<and> sign")
  case True
  let ?f = "dec_rev n" and ?i = "start + length (dec_rev n)"
  have i: "?i < length s" using True assms by simp
  then have dr: "drop ?i s = s ! ?i # drop (Suc ?i) s" by (simp add: Cons_nth_drop_Suc)
  have "wr ((take start s @ ?f) @ s ! ?i # drop (Suc ?i) s) (length (take start s @ ?f)) (CHR ''-'') =
     Some ((take start s @ ?f) @ CHR ''-'' # drop (Suc ?i) s)" by (rule wr_append)
  then have "wr (take start s @ ?f @ drop ?i s) ?i (CHR ''-'') =
     Some (take start s @ ?f @ CHR ''-'' # drop (Suc ?i) s)" using assms by (simp add: dr min_absorb2)
  then show ?thesis using True assms
    by (simp add: put_digits_spec put_sign_def signed_dec_def dec_def Let_def)
next
  case False
  then consider "\<not> sign" | "sign" "start + length (dec_rev n) = sz"
    | "sign" "\<not> start + length (dec_rev n) \<le> sz" by linarith
  then show ?thesis using assms
    by cases (simp_all add: put_digits_spec put_sign_def signed_dec_def dec_def Let_def)
qed

lemma end_digits_fits:
  assumes "nonul f" and "length pre + length f < sz"
  shows "end_digits (pre @ f @ x # post) (length pre) (length pre + length f) sz False =
           Some (pre @ rev f @ NUL # post, length pre + length f)"
proof -
  have "wr (pre @ f @ x # post) (length pre + length f) NUL = Some (pre @ f @ NUL # post)"
    using wr_append [of "pre @ f" x post NUL] by simp
  then show ?thesis using assms by (simp add: end_digits_def AG_StrReverse_spec)
qed

lemma end_digits_truncates:
  assumes "nonul f" and "length pre + length f + 1 = sz"
    and "trunc \<or> i + 1 > sz"
  shows "end_digits (pre @ f @ x # post) (length pre) i sz trunc =
           Some (pre @ rev f @ NUL # post, i + 1)"
proof -
  have "sz - 1 = length (pre @ f)" using assms(2) by simp
  then have "wr (pre @ f @ x # post) (sz - 1) NUL = Some (pre @ f @ NUL # post)"
    using wr_append [of "pre @ f" x post NUL] by (simp del: length_append)
  then show ?thesis using assms by (simp add: end_digits_def AG_StrReverse_spec)
qed

lemma format_digits:
  assumes "sz \<le> length s" and "start < sz"
  shows "do { (s, i, trunc) \<leftarrow> put_digits s start n sz;
              (s, i, trunc) \<leftarrow> put_sign s i trunc sign sz;
              end_digits s start i sz trunc } =
     (let F = signed_dec sign n
      in if start + length F < sz
         then Some (take start s @ F @ NUL # drop (start + length F + 1) s, start + length F)
         else Some (take start s @ drop (length F - (sz - 1 - start)) F @ NUL # drop sz s, sz + 1))"
proof -
  let ?F = "signed_dec sign n" and ?f = "rev (signed_dec sign n)" and ?pre = "take start s"
  have pre: "length ?pre = start" using assms by simp
  have assoc: "do { (s, i, trunc) \<leftarrow> put_digits s start n sz;
              (s, i, trunc) \<leftarrow> put_sign s i trunc sign sz;
              end_digits s start i sz trunc } =
    do { (s, i, trunc) \<leftarrow> do { (s, i, trunc) \<leftarrow> put_digits s start n sz; put_sign s i trunc sign sz };
         end_digits s start i sz trunc }"
    by (simp add: case_prod_unfold)
  show ?thesis
  proof (cases "start + length ?F < sz")
    case True
    with assms obtain x post where xp: "drop (start + length ?F) s = x # post"
      by (cases "drop (start + length ?F) s") auto
    then have post: "post = drop (start + length ?F + 1) s"
      by (metis drop_Suc add.commute list.sel(3) plus_1_eq_Suc tl_drop)
    have "end_digits (?pre @ ?f @ x # post) start (start + length ?f) sz False =
        Some (?pre @ ?F @ NUL # post, start + length ?F)"
      using end_digits_fits [of ?f ?pre sz x post] pre True by simp
    with True xp post assms show ?thesis
      unfolding assoc by (simp add: put_sign_spec Let_def)
  next
    case False
    let ?g = "take (sz - 1 - start) ?f"
    have len: "length ?g = sz - 1 - start" using False assms by simp
    have g: "take (sz - start) ?f = ?g @ [?f ! (sz - 1 - start)]"
    proof -
      have "sz - start = Suc (sz - 1 - start)" using assms by simp
      moreover have "sz - 1 - start < length ?f" using False assms by simp
      ultimately show ?thesis by (simp only: take_Suc_conv_app_nth)
    qed
    have e: "end_digits (?pre @ ?g @ x # post) start i sz trunc = Some (?pre @ rev ?g @ NUL # post, i + 1)"
      if "trunc \<or> i + 1 > sz" for x post i trunc
    proof -
      have "nonul ?g" by auto
      moreover have "length ?pre + length ?g + 1 = sz" using pre len assms by simp
      ultimately show ?thesis using end_digits_truncates [of ?g ?pre sz trunc i x post] that
        unfolding pre by blast
    qed
    have rv: "rev (take (sz - Suc start) ?f) = drop (length ?F - (sz - Suc start)) ?F"
      by (simp add: rev_take)
    let ?B = "?pre @ ?g @ ?f ! (sz - 1 - start) # drop sz s"
    have "?B = ?pre @ take (sz - start) ?f @ drop sz s" unfolding g by simp
    moreover have "do { (s, i, trunc) \<leftarrow> put_digits s start n sz; put_sign s i trunc sign sz } =
        Some (?pre @ take (sz - start) ?f @ drop sz s, sz, start + length ?f > sz)"
      using False assms by (cases "start + length ?F = sz") (simp_all add: put_sign_spec Let_def)
    ultimately have "do { (s, i, trunc) \<leftarrow> put_digits s start n sz; put_sign s i trunc sign sz } =
        Some (?B, sz, start + length ?f > sz)" by simp
    then show ?thesis
      unfolding assoc using e [of "start + length ?f > sz" sz] False by (simp add: rv Let_def)
  qed
qed

text \<open>
  The four formatters.  When the text fits it is written with its terminator and its
  length is returned; otherwise its last \<open>size - 1\<close> characters are, and the result is
  \<open>size + 1\<close>.
\<close>

lemma put_sign_False: "put_sign s i trunc False sz = Some (s, i, trunc)"
  by (simp add: put_sign_def)

definition int_ok :: "int \<Rightarrow> bool" where
  "int_ok v \<longleftrightarrow> - (2 ^ 31) < v \<and> v < 2 ^ 31"

lemma signed_dec_int: "signed_dec (v < 0) (nat (if v < 0 then - v else v)) = dec_int v"
  by (simp add: signed_dec_def dec_int_def)

lemma AG_StrlcpyUint_spec:
  assumes "sz \<le> length s" and "0 < sz"
  shows "AG_StrlcpyUint s n sz =
     (let F = dec n
      in if length F < sz then Some (F @ NUL # drop (length F + 1) s, length F)
         else Some (drop (length F - (sz - 1)) F @ NUL # drop sz s, sz + 1))"
  using format_digits [of sz s 0 n False] assms
  by (simp add: AG_StrlcpyUint_def put_sign_False signed_dec_def Let_def)

lemma AG_StrlcpyInt_spec:
  assumes "sz \<le> length s" and "0 < sz" and "int_ok v"
  shows "AG_StrlcpyInt s v sz =
     (let F = dec_int v
      in if length F < sz then Some (F @ NUL # drop (length F + 1) s, length F)
         else Some (drop (length F - (sz - 1)) F @ NUL # drop sz s, sz + 1))"
  using format_digits [of sz s 0 "nat (if v < 0 then - v else v)" "v < 0"] assms signed_dec_int [of v]
  by (simp add: AG_StrlcpyInt_def int_ok_def Let_def)

lemma AG_StrlcatUint_spec:
  assumes "nonul t" and "length t < sz" and "sz \<le> length t + 1 + length u"
  shows "AG_StrlcatUint (t @ NUL # u) n sz =
     (let F = dec n
      in if length t + length F < sz
         then Some (t @ F @ NUL # drop (length F) u, length t + length F)
         else Some (t @ drop (length F - (sz - 1 - length t)) F @ NUL # drop (sz - length t - 1) u, sz + 1))"
proof -
  have d: "drop (sz - length t) (NUL # u) = drop (sz - Suc (length t)) u"
    using assms(2) by (simp add: drop_Cons')
  show ?thesis
    using format_digits [of sz "t @ NUL # u" "length t" n False] assms
    by (simp add: AG_StrlcatUint_def put_sign_False signed_dec_def Let_def d)
qed

lemma AG_StrlcatInt_spec:
  assumes "nonul t" and "length t < sz" and "sz \<le> length t + 1 + length u" and "int_ok v"
  shows "AG_StrlcatInt (t @ NUL # u) v sz =
     (let F = dec_int v
      in if length t + length F < sz
         then Some (t @ F @ NUL # drop (length F) u, length t + length F)
         else Some (t @ drop (length F - (sz - 1 - length t)) F @ NUL # drop (sz - length t - 1) u, sz + 1))"
proof -
  have d: "drop (sz - length t) (NUL # u) = drop (sz - Suc (length t)) u"
    using assms(2) by (simp add: drop_Cons')
  show ?thesis
    using format_digits [of sz "t @ NUL # u" "length t" "nat (if v < 0 then - v else v)" "v < 0"]
      assms signed_dec_int [of v]
    by (simp add: AG_StrlcatInt_def int_ok_def Let_def d)
qed

lemma AG_StrlcpyInt_min: "0 < sz \<Longrightarrow> AG_StrlcpyInt s (- (2 ^ 31)) sz = None"
  by (simp add: AG_StrlcpyInt_def)

section \<open>Properties\<close>

text \<open>
  C31: on a destination of at least \<open>dsize > 0\<close> bytes \<open>AG_Strlcpy\<close> stays inside its
  buffers, leaves a NUL-terminated string that is the first \<open>dsize - 1\<close> characters of
  the source, changes nothing past \<open>dsize\<close> and returns the length of the source.
\<close>

theorem AG_Strlcpy_refines:
  assumes "nonul s" and "siz \<le> length dst" and "0 < siz"
  shows "\<exists>dst'. AG_Strlcpy dst (s @ NUL # r) siz = Some (dst', length s) \<and>
           terminated dst' \<and> cstr dst' = str_cpy siz s \<and>
           length dst' = length dst \<and> drop siz dst' = drop siz dst"
proof -
  let ?k = "min (siz - 1) (length s)"
  let ?dst' = "take (siz - 1) s @ NUL # drop (Suc ?k) dst"
  have k: "length (take (siz - 1) s) = ?k" by simp
  have "AG_Strlcpy dst (s @ NUL # r) siz = Some (?dst', length s)"
    using assms by (intro AG_Strlcpy_spec) auto
  moreover have "cstr ?dst' = str_cpy siz s"
    unfolding str_cpy_def using assms(1) by (intro cstr_append_NUL) auto
  moreover have "length ?dst' = length dst" using assms by (auto simp: min_def)
  moreover have "drop siz ?dst' = drop siz dst"
  proof -
    have "drop siz ?dst' = drop (siz - Suc ?k) (drop (Suc ?k) dst)"
      using assms k by (simp add: drop_Cons' split: nat_diff_split) 
    then show ?thesis using assms by simp
  qed
  ultimately show ?thesis by (intro exI [of _ ?dst'] conjI) (assumption | simp add: terminated_def)+
qed

theorem AG_Strlcpy_refines_witness:
  "\<exists>dst'. AG_Strlcpy ''wxyz++'' (''hello'' @ NUL # []) 4 = Some (dst', 5) \<and> cstr dst' = ''hel'' \<and>
     drop 4 dst' = ''++''"
  using AG_Strlcpy_refines [of "''hello''" 4 "''wxyz++''" "[]"] by (auto simp: str_cpy_def)

text \<open>
  On a destination that holds a string shorter than \<open>dsize\<close>, \<open>AG_Strlcat\<close> leaves the
  first \<open>dsize - 1\<close> characters of the concatenation, NUL-terminated, and returns the
  length of the whole concatenation.
\<close>

theorem AG_Strlcat_refines:
  assumes "nonul t" and "nonul s" and "siz \<le> length t + Suc (length u)" and "length t < siz"
  shows "\<exists>dst'. AG_Strlcat (t @ NUL # u) (s @ NUL # r) siz = Some (dst', length t + length s) \<and>
           terminated dst' \<and> cstr dst' = str_cat siz t s \<and>
           length dst' = length (t @ NUL # u)"
proof -
  let ?k = "min (siz - length t - 1) (length s)"
  have k: "?k \<le> length u" using assms by (auto simp: min_def)
  have eq: "AG_Strlcat (t @ NUL # u) (s @ NUL # r) siz =
      Some ((t @ take ?k s) @ NUL # drop ?k u, length t + length s)"
    using AG_Strlcat_spec [of t s siz u r] assms by (simp add: Let_def)
  have "nonul (t @ take ?k s)" using assms by auto
  then have "cstr ((t @ take ?k s) @ NUL # drop ?k u) = t @ take ?k s"
    by (rule cstr_append_NUL)
  also have "\<dots> = str_cat siz t s"
    using assms by (auto simp: str_cat_def min_def split: nat_diff_split)
  finally show ?thesis using eq k by (auto simp: terminated_def)
qed

theorem AG_Strlcat_refines_witness:
  "\<exists>dst'. AG_Strlcat (''ab'' @ NUL # ''xyz'') (''cdefg'' @ NUL # []) 6 = Some (dst', 7) \<and>
     cstr dst' = ''abcde''"
  using AG_Strlcat_refines [of "''ab''" "''cdefg''" 6 "''xyz''" "[]"] by (auto simp: str_cat_def)

text \<open>
  A caller that repeats \<open>AG_Strsep\<close> until it returns NULL gets the fields of the
  string between the delimiters, in order, the empty ones included.
\<close>

theorem strsep_all_splits:
  assumes "nonul ds" and "nonul s"
  shows "strsep_all (pre @ s @ NUL # post) (Some (length pre)) (ds @ NUL # r) =
           Some (split_on (set ds) s)"
  using assms by (rule strsep_all_split)

theorem strsep_all_splits_witness:
  "strsep_all (''x'' @ ''a:b/:c'' @ NUL # []) (Some 1) (''/:'' @ NUL # []) =
     Some [''a'', ''b'', '''', ''c'']"
  using strsep_all_splits [of "''/:''" "''a:b/:c''" "''x''" "[]" "[]"] by simp

text \<open>Reading a signed decimal numeral.\<close>

definition undec_int :: "string \<Rightarrow> int" where
  "undec_int s = (case s of c # s' \<Rightarrow> if c = CHR ''-'' then - int (undec_rev (rev s')) else int (undec_rev (rev s))
                  | [] \<Rightarrow> 0)"

lemma dec_hd: "hd (dec n) \<noteq> CHR ''-''"
proof -
  have "set (dec_rev n) \<subseteq> digit_char ` {0..<10}"
    by (induction n rule: dec_rev.induct) (subst dec_rev.simps, auto)
  moreover have "dec n \<noteq> []" by (metis dec_def dec_rev_length_pos length_greater_0_conv rev_is_Nil_conv)
  ultimately have "hd (dec n) \<in> digit_char ` {0..<10}"
    by (metis dec_def hd_in_set set_rev subsetD)
  then show ?thesis by (auto simp: digit_char_def nth_Cons' numeral_eq_Suc less_Suc_eq)
qed

lemma undec_dec_int: "undec_int (dec_int v) = v"
proof (cases "v < 0")
  case True
  then show ?thesis by (simp add: dec_int_def undec_int_def dec_def undec_dec_rev)
next
  case False
  obtain c s where cs: "dec (nat v) = c # s"
    by (metis dec_def dec_rev_length_pos length_greater_0_conv list.exhaust rev_is_Nil_conv)
  then have "c \<noteq> CHR ''-''" using dec_hd [of "nat v"] by simp
  moreover have "undec_rev (rev (c # s)) = nat v"
    unfolding cs [symmetric] by (simp add: dec_def undec_dec_rev)
  ultimately show ?thesis using False cs by (simp add: dec_int_def undec_int_def)
qed

lemma length_dec_int: "int_ok v \<Longrightarrow> length (dec_int v) \<le> 11"
proof -
  assume v: "int_ok v"
  have "length (dec_rev n) \<le> 10" if "n < 2 ^ 31" for n
    using that dec_rev_length_le [of n 10] by simp
  moreover have "nat v < 2 ^ 31 \<and> nat (- v) < 2 ^ 31" using v by (auto simp: int_ok_def)
  ultimately have "length (dec_rev (nat v)) \<le> 10" "length (dec_rev (nat (- v))) \<le> 10" by blast+
  then show ?thesis by (simp add: dec_int_def dec_def)
qed

text \<open>
  \<open>AG_StrlcpyInt\<close> into twelve bytes or more prints every \<open>int\<close> but the smallest in
  decimal: reading the buffer back gives the number, and the result is its length.
\<close>

theorem AG_StrlcpyInt_roundtrip:
  assumes "int_ok v" and "12 \<le> sz" and "sz \<le> length s"
  shows "\<exists>s'. AG_StrlcpyInt s v sz = Some (s', length (cstr s')) \<and> length s' = length s \<and>
           terminated s' \<and> undec_int (cstr s') = v"
proof -
  have "length (dec_int v) < sz" using length_dec_int [OF assms(1)] assms(2) by simp
  moreover have "nonul (dec_int v)" by (simp add: dec_int_def)
  ultimately show ?thesis
    using assms AG_StrlcpyInt_spec [of sz s v] by (simp add: undec_dec_int Let_def)
qed

theorem AG_StrlcpyInt_roundtrip_witness:
  "\<exists>s'. AG_StrlcpyInt (replicate 12 CHR ''?'') (-2147483647) 12 = Some (s', length (cstr s')) \<and>
     undec_int (cstr s') = -2147483647"
  using AG_StrlcpyInt_roundtrip [of "-2147483647" 12 "replicate 12 CHR ''?''"]
  by (auto simp: int_ok_def)

end
