(* ===== verification/CaseStr.thy ===== *)
theory CaseStr
  imports CStr
begin

text \<open>
  Case-insensitive comparison and search: the table of core/string_strcasecmp.h, the
  inline functions \<open>AG_Strcasecmp\<close> and \<open>AG_Strncasecmp\<close> of core/string.h and
  \<open>AG_Strcasestr\<close> of core/string.c, over the read pointers of \<open>Prelude\<close>.
\<close>

definition agStrcasecmpMapASCII :: "nat list" where
  "agStrcasecmpMapASCII = [
   0, 1, 2, 3, 4, 5, 6, 7, 8, 9, 10, 11, 12, 13, 14, 15,
   16, 17, 18, 19, 20, 21, 22, 23, 24, 25, 26, 27, 28, 29, 30, 31,
   32, 33, 34, 35, 36, 37, 38, 39, 40, 41, 42, 43, 44, 45, 46, 47,
   48, 49, 50, 51, 52, 53, 54, 55, 56, 57, 58, 59, 60, 61, 62, 63,
   64, 97, 98, 99, 100, 101, 102, 103, 104, 105, 106, 107, 108, 109, 110, 111,
   112, 113, 114, 115, 116, 117, 118, 119, 120, 121, 122, 91, 92, 93, 94, 95,
   96, 97, 98, 99, 100, 101, 102, 103, 104, 105, 106, 107, 108, 109, 110, 111,
   112, 113, 114, 115, 116, 117, 118, 119, 120, 121, 122, 123, 124, 125, 126, 127,
   128, 129, 130, 131, 132, 133, 134, 135, 136, 137, 138, 139, 140, 141, 142, 143,
   144, 145, 146, 147, 148, 149, 150, 151, 152, 153, 154, 155, 156, 157, 158, 159,
   160, 161, 162, 163, 164, 165, 166, 167, 168, 169, 170, 171, 172, 173, 174, 175,
   176, 177, 178, 179, 180, 181, 182, 183, 184, 185, 186, 187, 188, 189, 190, 191,
   192, 225, 226, 227, 228, 229, 230, 231, 232, 233, 234, 235, 236, 237, 238, 239,
   240, 241, 242, 243, 244, 245, 246, 247, 248, 249, 250, 219, 220, 221, 222, 223,
   224, 225, 226, 227, 228, 229, 230, 231, 232, 233, 234, 235, 236, 237, 238, 239,
   240, 241, 242, 243, 244, 245, 246, 247, 248, 249, 250, 251, 252, 253, 254, 255
  ]"

definition cm :: "char \<Rightarrow> nat" where
  "cm c = agStrcasecmpMapASCII ! of_char c"

text \<open>C's \<open>tolower\<close> in the C locale.\<close>

definition tolower :: "char \<Rightarrow> char" where
  "tolower c = (if (65::nat) \<le> of_char c \<and> of_char c \<le> (90::nat) then char_of (of_char c + (32::nat)) else c)"

fun AG_Strcasecmp :: "char list \<Rightarrow> char list \<Rightarrow> int option" where
  "AG_Strcasecmp (c1 # s1) (c2 # s2) =
     (if cm c1 = cm c2 then (if c1 = NUL then Some 0 else AG_Strcasecmp s1 s2)
      else Some (int (cm c1) - int (cm c2)))"
| "AG_Strcasecmp _ _ = None"

fun AG_Strncasecmp :: "char list \<Rightarrow> char list \<Rightarrow> nat \<Rightarrow> int option" where
  "AG_Strncasecmp s1 s2 0 = Some 0"
| "AG_Strncasecmp (c1 # s1) (c2 # s2) (Suc n) =
     (if cm c1 \<noteq> cm c2 then Some (int (cm c1) - int (cm c2)) else AG_Strncasecmp s1 s2 n)"
| "AG_Strncasecmp _ _ (Suc n) = None"

text \<open>The nested do-while of \<open>AG_Strcasestr\<close>; \<open>Some None\<close> is the result \<open>NULL\<close>.\<close>

fun strcasestr_loop :: "char \<Rightarrow> char list \<Rightarrow> nat \<Rightarrow> char list \<Rightarrow> char list option option" where
  "strcasestr_loop c fnd len [] = None"
| "strcasestr_loop c fnd len (sc # s) =
     (if sc = NUL then Some None
      else if tolower sc \<noteq> c then strcasestr_loop c fnd len s
      else do {
        r \<leftarrow> AG_Strncasecmp s fnd len;
        if r \<noteq> 0 then strcasestr_loop c fnd len s else Some (Some (sc # s))
      })"

definition AG_Strcasestr :: "char list \<Rightarrow> char list \<Rightarrow> char list option option" where
  "AG_Strcasestr s fnd =
     (case fnd of
        [] \<Rightarrow> None
      | c # fnd \<Rightarrow>
          if c \<noteq> NUL then do {
            len \<leftarrow> strlen fnd;
            strcasestr_loop (tolower c) fnd len s
          } else Some (Some s))"

section \<open>What the table says\<close>

lemma char_nat_cases: "of_char (c::char) < (256::nat)"
  by (metis char_of_eq_iff nat_of_char_less_256)

lemma agStrcasecmpMapASCII_map:
  "agStrcasecmpMapASCII =
     map (\<lambda>n. if 65 \<le> n \<and> n \<le> 90 \<or> 193 \<le> n \<and> n \<le> 218 then n + 32 else n) [0..<256]"
  by (simp add: agStrcasecmpMapASCII_def upt_rec [of 0] upt_rec [of "Suc 0"]
      upt_rec_numeral numeral_2_eq_2 [symmetric])

lemma cm_table:
  "n < 256 \<Longrightarrow> agStrcasecmpMapASCII ! n =
     (if 65 \<le> n \<and> n \<le> 90 \<or> 193 \<le> n \<and> n \<le> 218 then n + 32 else n)"
  by (simp add: agStrcasecmpMapASCII_map)

lemma of_char_0: "of_char c = (0::nat) \<longleftrightarrow> c = NUL"
proof -
  have "(of_char c :: nat) = of_char NUL \<longleftrightarrow> c = NUL" by (rule of_char_eq_iff)
  then show ?thesis by simp
qed

lemma cm_eq: "cm c = (let n = of_char c in
    if 65 \<le> n \<and> n \<le> 90 \<or> 193 \<le> n \<and> n \<le> 218 then n + 32 else n)"
  by (simp add: cm_def cm_table char_nat_cases Let_def)

lemma cm_NUL [simp]: "cm c = 0 \<longleftrightarrow> c = NUL" "cm NUL = 0"
  by (auto simp: cm_eq Let_def of_char_0 split: if_splits)

lemma cm_ascii: "of_char c < (128::nat) \<Longrightarrow> cm c = of_char (tolower c)"
  by (auto simp: cm_eq tolower_def Let_def)

text \<open>Equality up to case.\<close>

definition ci_eq :: "string \<Rightarrow> string \<Rightarrow> bool" where
  "ci_eq s t \<longleftrightarrow> map cm s = map cm t"

lemma AG_Strcasecmp_total:
  "nonul s \<Longrightarrow> nonul t \<Longrightarrow>
   \<exists>v. AG_Strcasecmp (s @ NUL # r) (t @ NUL # r') = Some v \<and> (v = 0 \<longleftrightarrow> ci_eq s t)"
proof (induction s arbitrary: t)
  case Nil
  then show ?case by (cases t) (auto simp: ci_eq_def)
next
  case (Cons c s)
  then show ?case
  proof (cases t)
    case Nil
    with Cons.prems show ?thesis by (auto simp: ci_eq_def)
  next
    case (Cons d t')
    with Cons.prems Cons.IH [of t'] show ?thesis by (auto simp: ci_eq_def)
  qed
qed

lemma AG_Strncasecmp_total:
  "nonul s \<Longrightarrow> nonul f \<Longrightarrow>
   \<exists>v. AG_Strncasecmp (s @ NUL # r) (f @ NUL # r') (length f) = Some v \<and>
       (v = 0 \<longleftrightarrow> length f \<le> length s \<and> ci_eq (take (length f) s) f)"
proof (induction f arbitrary: s)
  case Nil
  then show ?case by (auto simp: ci_eq_def)
next
  case (Cons c f)
  show ?case
  proof (cases s)
    case Nil
    with Cons.prems show ?thesis by (auto simp: ci_eq_def)
  next
    case (Cons d s')
    with Cons.prems Cons.IH [of s'] show ?thesis by (auto simp: ci_eq_def)
  qed
qed

text \<open>
  The comparison does not stop at the terminator: two equal strings, each alone in its
  object, are read past their end as soon as \<open>n\<close> is larger than their size.
\<close>

lemma AG_Strncasecmp_overread:
  "length s + 1 < n \<Longrightarrow> AG_Strncasecmp (s @ [NUL]) (s @ [NUL]) n = None"
proof (induction s arbitrary: n)
  case Nil
  then have "2 \<le> n" by simp
  then obtain m where "n = 2 + m" using le_Suc_ex by blast
  then show ?case by simp
next
  case (Cons c s)
  then show ?case by (cases n) auto
qed

text \<open>The reference: the first suffix of \<open>s\<close> that starts with the needle, up to case.\<close>

definition ci_prefix :: "string \<Rightarrow> string \<Rightarrow> bool" where
  "ci_prefix f s \<longleftrightarrow>
     (case f of [] \<Rightarrow> True
      | c # f' \<Rightarrow> s \<noteq> [] \<and> tolower (hd s) = tolower c \<and> length f' \<le> length (tl s) \<and>
                ci_eq (take (length f') (tl s)) f')"

fun find_ci :: "string \<Rightarrow> string \<Rightarrow> string option" where
  "find_ci f [] = None"
| "find_ci f (c # s) = (if ci_prefix f (c # s) then Some (c # s) else find_ci f s)"

lemma strcasestr_loop_spec:
  assumes "nonul s" and "nonul f"
  shows "strcasestr_loop (tolower c) (f @ NUL # r') (length f) (s @ NUL # r) =
           Some (map_option (\<lambda>t. t @ NUL # r) (find_ci (c # f) s))"
  using assms(1)
proof (induction s)
  case Nil
  then show ?case by simp
next
  case (Cons sc s)
  then obtain v where "AG_Strncasecmp (s @ NUL # r) (f @ NUL # r') (length f) = Some v"
    "v = 0 \<longleftrightarrow> length f \<le> length s \<and> ci_eq (take (length f) s) f"
    using AG_Strncasecmp_total [of s f r r'] assms(2) by auto
  with Cons show ?case by (auto simp: ci_prefix_def)
qed

lemma AG_Strcasestr_spec:
  assumes "nonul s" and "nonul f" and "f \<noteq> []"
  shows "AG_Strcasestr (s @ NUL # r) (f @ NUL # r') =
           Some (map_option (\<lambda>t. t @ NUL # r) (find_ci f s))"
  using assms strcasestr_loop_spec [of s "tl f" "hd f" r' r]
  by (cases f) (auto simp: AG_Strcasestr_def)

lemma find_ci_Some:
  "find_ci f s = Some t \<Longrightarrow> \<exists>u. s = u @ t \<and> ci_prefix f t \<and>
     (\<forall>i < length u. \<not> ci_prefix f (drop i s))"
proof (induction s)
  case Nil
  then show ?case by simp
next
  case (Cons c s)
  show ?case
  proof (cases "ci_prefix f (c # s)")
    case True
    with Cons.prems show ?thesis by (intro exI [of _ "[]"]) auto
  next
    case False
    with Cons obtain u where "s = u @ t" "ci_prefix f t" "\<forall>i < length u. \<not> ci_prefix f (drop i s)"
      by auto
    with False show ?thesis
      by (intro exI [of _ "c # u"]) (auto simp: drop_Cons' less_Suc_eq_0_disj)
  qed
qed

section \<open>Properties\<close>

lemma find_ci_None: "find_ci f s = None \<Longrightarrow> i < length s \<Longrightarrow> \<not> ci_prefix f (drop i s)"
  by (induction s arbitrary: i) (auto simp: drop_Cons' split: if_splits)

text \<open>
  \<open>AG_Strcasestr\<close> returns the first position at which the needle occurs up to case,
  and NULL only when it occurs nowhere; it stays inside both strings.
\<close>

theorem AG_Strcasestr_first:
  assumes "nonul s" and "nonul f" and "f \<noteq> []"
  shows "case AG_Strcasestr (s @ NUL # r) (f @ NUL # r') of
      None \<Rightarrow> False
    | Some None \<Rightarrow> \<forall>i < length s. \<not> ci_prefix f (drop i s)
    | Some (Some p) \<Rightarrow> \<exists>u t. s = u @ t \<and> p = t @ NUL # r \<and> ci_prefix f t \<and>
        (\<forall>i < length u. \<not> ci_prefix f (drop i s))"
proof (cases "find_ci f s")
  case None
  then show ?thesis using assms find_ci_None [of f s] by (simp add: AG_Strcasestr_spec)
next
  case (Some t)
  then show ?thesis using assms find_ci_Some [OF Some] by (auto simp: AG_Strcasestr_spec)
qed

theorem AG_Strcasestr_first_witness:
  "(case AG_Strcasestr (''xaBC'' @ NUL # []) (''Ab'' @ NUL # []) of
      None \<Rightarrow> False
    | Some None \<Rightarrow> \<forall>i < length ''xaBC''. \<not> ci_prefix ''Ab'' (drop i ''xaBC'')
    | Some (Some p) \<Rightarrow> \<exists>u t. ''xaBC'' = u @ t \<and> p = t @ NUL # [] \<and> ci_prefix ''Ab'' t \<and>
        (\<forall>i < length u. \<not> ci_prefix ''Ab'' (drop i ''xaBC'')))"
  by (rule AG_Strcasestr_first) simp_all

end
