(* ===== verification/Unicode.thy ===== *)
theory Unicode
  imports Prelude
begin

unbundle bit_operations_syntax

text \<open>
  Conversion between byte strings and the internal UCS-4 strings: the length functions
  of core/string.h and \<open>AG_ImportUnicode\<close>, \<open>AG_ExportUnicode\<close> of core/string.c, for the
  encodings the library implements itself (UTF-8 and US-ASCII).  Any other encoding
  goes to \<open>iconv\<close>, which is a parameter of the model.  Strings are lists of 8-bit and
  32-bit words with a zero at their end; buffers are checked as in \<open>Prelude\<close>.
\<close>

type_synonym byte = "8 word"
type_synonym ucs = "32 word"

section \<open>Lengths\<close>

text \<open>\<open>AG_LengthUCS4\<close>.\<close>

fun AG_LengthUCS4 :: "ucs list \<Rightarrow> nat option" where
  "AG_LengthUCS4 [] = None"
| "AG_LengthUCS4 (u # us) = (if u = 0 then Some 0 else map_option Suc (AG_LengthUCS4 us))"

definition AG_CharLengthUTF8FromUCS4 :: "ucs \<Rightarrow> int" where
  "AG_CharLengthUTF8FromUCS4 ch =
     (if ch < 0x80 then 1
      else if ch < 0x800 then 2
      else if ch < 0x10000 then 3
      else if ch < 0x200000 then 4
      else if ch < 0x4000000 then 5
      else if ch \<le> 0x7fffffff then 6
      else -1)"

text \<open>The result is the return value and the final \<open>*rv\<close>.\<close>

fun lengthUTF8FromUCS4_loop :: "ucs list \<Rightarrow> nat \<Rightarrow> (int \<times> nat) option" where
  "lengthUTF8FromUCS4_loop [] rv = None"
| "lengthUTF8FromUCS4_loop (c # cs) rv =
     (if c = 0 then Some (0, rv)
      else let cLen = AG_CharLengthUTF8FromUCS4 c
           in if cLen = -1 then Some (-1, rv) else lengthUTF8FromUCS4_loop cs (rv + nat cLen))"

definition AG_LengthUTF8FromUCS4 :: "ucs list \<Rightarrow> (int \<times> nat) option" where
  "AG_LengthUTF8FromUCS4 ucs4 = lengthUTF8FromUCS4_loop ucs4 0"

definition AG_CharLengthUTF8 :: "byte \<Rightarrow> int" where
  "AG_CharLengthUTF8 ch =
     (if drop_bit 7 ch = 0 then 1
      else if drop_bit 5 (ch AND 0xe0) = 0x6 then 2
      else if drop_bit 4 (ch AND 0xf0) = 0xe then 3
      else if drop_bit 3 (ch AND 0xf8) = 0x1e then 4
      else if drop_bit 2 (ch AND 0xfc) = 0x3e then 5
      else if drop_bit 1 (ch AND 0xfe) = 0x7e then 6
      else -1)"

text \<open>\<open>for (i = 0; i < cLen; i++) if (c[i] == 0) return (0);\<close>\<close>

fun nul_within :: "byte list \<Rightarrow> nat \<Rightarrow> bool option" where
  "nul_within c 0 = Some False"
| "nul_within [] (Suc n) = None"
| "nul_within (b # c) (Suc n) = (if b = 0 then Some True else nul_within c n)"

lemma AG_CharLengthUTF8_range:
  "AG_CharLengthUTF8 ch \<in> {-1, 1, 2, 3, 4, 5, 6}"
  by (simp add: AG_CharLengthUTF8_def)

lemma AG_CharLengthUTF8_pos: "AG_CharLengthUTF8 ch \<noteq> -1 \<Longrightarrow> 1 \<le> AG_CharLengthUTF8 ch"
  using AG_CharLengthUTF8_range [of ch] by auto

function lengthUTF8_loop :: "byte list \<Rightarrow> nat \<Rightarrow> (int \<times> nat) option" where
  "lengthUTF8_loop c rv =
     (case c of
        [] \<Rightarrow> None
      | ch # _ \<Rightarrow>
          let cLen = AG_CharLengthUTF8 ch
          in if cLen = -1 then Some (-1, rv)
             else do {
               z \<leftarrow> nul_within c (nat cLen);
               if z then Some (0, rv) else lengthUTF8_loop (drop (nat cLen) c) (rv + 1)
             })"
  by pat_completeness auto
termination
proof (relation "measure (\<lambda>(c, _). length c)", goal_cases)
  case 1
  then show ?case by simp
next
  case (2 c rv ch x22 x xa)
  then have "1 \<le> AG_CharLengthUTF8 ch" by (metis AG_CharLengthUTF8_pos)
  with 2 show ?case by (cases c) auto
qed

declare lengthUTF8_loop.simps [simp del]

definition AG_LengthUTF8 :: "byte list \<Rightarrow> (int \<times> nat) option" where
  "AG_LengthUTF8 s =
     (case s of [] \<Rightarrow> None
      | c # _ \<Rightarrow> if c = 0 then Some (0, 0) else lengthUTF8_loop s 0)"

section \<open>AG_ImportUnicode\<close>

text \<open>One \<open>case\<close> of the switch: the character and the index of its last byte.\<close>

definition cont_bits :: "byte list \<Rightarrow> nat \<Rightarrow> ucs option" where
  "cont_bits s i = map_option (\<lambda>b. ucast (b AND 0x3f)) (rd s i)"

definition import_char :: "byte list \<Rightarrow> nat \<Rightarrow> int \<Rightarrow> (ucs \<times> nat) option" where
  "import_char s i cLen = do {
     b \<leftarrow> rd s i;
     if cLen = 1 then Some (ucast b, i)
     else if cLen = 2 then do {
       c1 \<leftarrow> cont_bits s (i + 1);
       Some (push_bit 6 (ucast (b AND 0x1f)) OR c1, i + 1)
     }
     else if cLen = 3 then do {
       c1 \<leftarrow> cont_bits s (i + 1);
       c2 \<leftarrow> cont_bits s (i + 2);
       Some (push_bit 12 (ucast (b AND 0x0f)) OR push_bit 6 c1 OR c2, i + 2)
     }
     else if cLen = 4 then do {
       c1 \<leftarrow> cont_bits s (i + 1);
       c2 \<leftarrow> cont_bits s (i + 2);
       c3 \<leftarrow> cont_bits s (i + 3);
       Some (push_bit 18 (ucast (b AND 0x07)) OR push_bit 12 c1 OR push_bit 6 c2 OR c3, i + 3)
     }
     else if cLen = 5 then do {
       c1 \<leftarrow> cont_bits s (i + 1);
       c2 \<leftarrow> cont_bits s (i + 2);
       c3 \<leftarrow> cont_bits s (i + 3);
       c4 \<leftarrow> cont_bits s (i + 4);
       Some (push_bit 24 (ucast (b AND 0x03)) OR push_bit 18 c1 OR push_bit 12 c2 OR
             push_bit 6 c3 OR c4, i + 4)
     }
     else do {
       c1 \<leftarrow> cont_bits s (i + 1);
       c2 \<leftarrow> cont_bits s (i + 2);
       c3 \<leftarrow> cont_bits s (i + 3);
       c4 \<leftarrow> cont_bits s (i + 4);
       c5 \<leftarrow> cont_bits s (i + 5);
       Some (push_bit 30 (ucast (b AND 0x01)) OR push_bit 24 c1 OR push_bit 18 c2 OR
             push_bit 12 c3 OR push_bit 6 c4 OR c5, i + 5)
     }
   }"

lemma import_char_index: "import_char s i cLen = Some (u, i') \<Longrightarrow> i \<le> i'"
  by (auto simp: import_char_def split: Option.bind_splits if_splits)

text \<open>\<open>Some None\<close> is the return of \<open>NULL\<close> for a bad lead byte.\<close>

function import_loop ::
  "byte list \<Rightarrow> ucs list \<Rightarrow> nat \<Rightarrow> nat \<Rightarrow> nat \<Rightarrow> (ucs list \<times> nat) option option" where
  "import_loop s ucs i j sLen =
     (if i < sLen then do {
        b \<leftarrow> rd s i;
        if AG_CharLengthUTF8 b = -1 then Some None
        else do {
          (u, i') \<leftarrow> import_char s i (AG_CharLengthUTF8 b);
          ucs \<leftarrow> wr ucs j u;
          import_loop s ucs (i' + 1) (j + 1) sLen
        }
      } else do {
        ucs \<leftarrow> wr ucs j 0;
        Some (Some (ucs, j))
      })"
  by pat_completeness auto
termination
  by (relation "measure (\<lambda>(_, _, i, _, sLen). sLen - i)") (auto dest: import_char_index)

declare import_loop.simps [simp del]

fun strlen_b :: "byte list \<Rightarrow> nat option" where
  "strlen_b [] = None"
| "strlen_b (c # s) = (if c = 0 then Some 0 else map_option Suc (strlen_b s))"

fun import_ascii_loop ::
  "byte list \<Rightarrow> ucs list \<Rightarrow> nat \<Rightarrow> nat \<Rightarrow> (ucs list \<times> nat) option" where
  "import_ascii_loop s ucs i 0 = do { ucs \<leftarrow> wr ucs i 0; Some (ucs, i) }"
| "import_ascii_loop s ucs i (Suc n) = do {
     b \<leftarrow> rd s i;
     ucs \<leftarrow> wr ucs i (ucast b);
     import_ascii_loop s ucs (Suc i) n
   }"

text \<open>
  \<open>mem\<close> is what \<open>TryMalloc\<close> returns for a request of so many cells (\<^const>\<open>None\<close> when it
  fails; the contents of fresh memory are arbitrary); \<open>iconv\<close> is \<open>ImportUnicodeICONV\<close>.  A
  result \<open>Some (Some (ucs, len, size))\<close> carries \<open>*pOutLen\<close> and \<open>*pOutSize\<close>.
\<close>

definition AG_ImportUnicode ::
  "(nat \<Rightarrow> ucs list option) \<Rightarrow> (string \<Rightarrow> byte list \<Rightarrow> (ucs list \<times> nat \<times> nat) option) \<Rightarrow>
   string \<Rightarrow> byte list \<Rightarrow> (ucs list \<times> nat \<times> nat) option option" where
  "AG_ImportUnicode mem iconv encoding s = do {
     sLen \<leftarrow> strlen_b s;
     if encoding = ''UTF-8'' then do {
       (rv, utf8len) \<leftarrow> AG_LengthUTF8 s;
       if rv = -1 then Some None
       else (case mem (utf8len + 1) of
               None \<Rightarrow> Some None
             | Some ucs \<Rightarrow> do {
                 res \<leftarrow> import_loop s ucs 0 0 sLen;
                 Some (map_option (\<lambda>(ucs, j). (ucs, j, (utf8len + 1) * 4)) res)
               })
     } else if encoding = ''US-ASCII'' then
       (case mem (sLen + 1) of
          None \<Rightarrow> Some None
        | Some ucs \<Rightarrow> do {
            (ucs, i) \<leftarrow> import_ascii_loop s ucs 0 sLen;
            Some (Some (ucs, i, (sLen + 1) * 4))
          })
     else Some (iconv encoding s)
   }"

section \<open>AG_ExportUnicode\<close>

text \<open>\<open>for (i = chlen - 1; i > 0; i--) { dst[i] = (uch & 0x3f) | 0x80; uch >>= 6; }\<close>\<close>

fun put_conts :: "byte list \<Rightarrow> nat \<Rightarrow> nat \<Rightarrow> ucs \<Rightarrow> (byte list \<times> ucs) option" where
  "put_conts dst d 0 uch = Some (dst, uch)"
| "put_conts dst d (Suc i) uch = do {
     dst \<leftarrow> wr dst (d + Suc i) (ucast ((uch AND 0x3f) OR 0x80));
     put_conts dst d i (drop_bit 6 uch)
   }"

definition utf8_lead :: "ucs \<Rightarrow> (nat \<times> ucs) option" where
  "utf8_lead uch =
     (if uch < 0x80 then Some (1, 0)
      else if uch < 0x800 then Some (2, 0xc0)
      else if uch < 0x10000 then Some (3, 0xe0)
      else if uch < 0x200000 then Some (4, 0xf0)
      else if uch < 0x4000000 then Some (5, 0xf8)
      else if uch \<le> 0x7fffffff then Some (6, 0xfc)
      else None)"

text \<open>The result is the return value and the destination buffer.\<close>

fun export_utf8_loop :: "ucs list \<Rightarrow> byte list \<Rightarrow> nat \<Rightarrow> nat \<Rightarrow> nat \<Rightarrow> (int \<times> byte list) option" where
  "export_utf8_loop [] dst d len dstSize = None"
| "export_utf8_loop (uch # ucs) dst d len dstSize =
     (if uch \<noteq> 0 \<and> len < dstSize then
        (case utf8_lead uch of
           None \<Rightarrow> Some (-1, dst)
         | Some (chlen, ch1) \<Rightarrow>
             if len + chlen + 1 > dstSize then Some (-1, dst)
             else do {
               (dst, uch) \<leftarrow> put_conts dst d (chlen - 1) uch;
               dst \<leftarrow> wr dst d (ucast (uch OR ch1));
               export_utf8_loop ucs dst (d + chlen) (len + chlen) dstSize
             })
      else do { dst \<leftarrow> wr dst d 0; Some (0, dst) })"

fun export_ascii_loop :: "ucs list \<Rightarrow> byte list \<Rightarrow> nat \<Rightarrow> nat \<Rightarrow> nat \<Rightarrow> (int \<times> byte list) option" where
  "export_ascii_loop [] dst d len dstSize = None"
| "export_ascii_loop (uch # ucs) dst d len dstSize =
     (if uch \<noteq> 0 \<and> len < dstSize then
        (if \<not> uch < 0x80 then Some (-1, dst)
         else do {
           dst \<leftarrow> wr dst d (ucast uch);
           export_ascii_loop ucs dst (d + 1) (len + 1) dstSize
         })
      else do { dst \<leftarrow> wr dst d 0; Some (0, dst) })"

definition AG_ExportUnicode ::
  "(string \<Rightarrow> byte list \<Rightarrow> ucs list \<Rightarrow> nat \<Rightarrow> int \<times> byte list) \<Rightarrow>
   string \<Rightarrow> byte list \<Rightarrow> ucs list \<Rightarrow> nat \<Rightarrow> (int \<times> byte list) option" where
  "AG_ExportUnicode iconv encoding dst ucs dstSize =
     (if encoding = ''UTF-8'' then export_utf8_loop ucs dst 0 0 dstSize
      else if encoding = ''US-ASCII'' then export_ascii_loop ucs dst 0 0 dstSize
      else Some (iconv encoding dst ucs dstSize))"

section \<open>The UTF-8 encoding of a character\<close>

fun conts :: "nat \<Rightarrow> ucs \<Rightarrow> byte list" where
  "conts 0 u = []"
| "conts (Suc k) u = conts k (drop_bit 6 u) @ [ucast ((u AND 0x3f) OR 0x80)]"

definition utf8_enc :: "ucs \<Rightarrow> byte list" where
  "utf8_enc u = (case utf8_lead u of None \<Rightarrow> []
     | Some (n, ch1) \<Rightarrow> ucast (drop_bit (6 * (n - 1)) u OR ch1) # conts (n - 1) u)"

definition utf8_ok :: "ucs \<Rightarrow> bool" where
  "utf8_ok u \<longleftrightarrow> u \<noteq> 0 \<and> u \<le> 0x7fffffff"

lemma length_conts [simp]: "length (conts k u) = k"
  by (induction k arbitrary: u) auto

lemma utf8_lead_Some: "u \<le> 0x7fffffff \<Longrightarrow> \<exists>n ch1. utf8_lead u = Some (n, ch1) \<and> 0 < n"
  by (simp add: utf8_lead_def)

lemma put_conts_spec:
  "length xs = k \<Longrightarrow>
   put_conts (pre @ x # xs @ post) (length pre) k u = Some (pre @ x # conts k u @ post, drop_bit (6 * k) u)"
proof (induction k arbitrary: xs post u)
  case 0
  then show ?case by simp
next
  case (Suc k)
  then obtain ys y where xs: "xs = ys @ [y]" and ys: "length ys = k"
    by (metis length_Suc_conv_rev)
  let ?c = "ucast ((u AND 0x3f) OR 0x80) :: byte"
  have "wr ((pre @ x # ys) @ y # post) (length (pre @ x # ys)) ?c = Some ((pre @ x # ys) @ ?c # post)"
    by (rule wr_append)
  then have w: "wr (pre @ x # xs @ post) (length pre + Suc k) ?c = Some (pre @ x # ys @ ?c # post)"
    by (simp add: xs ys)
  show ?case
    using Suc.IH [OF ys, of "?c # post" "drop_bit 6 u"] w by (simp add: drop_bit_drop_bit add.commute)
qed

section \<open>Bits\<close>

lemma word_less_range:
  assumes "(v::32 word) < word_of_nat k" and "k < 2 ^ 32"
  shows "\<exists>n \<in> set [0..<k]. v = word_of_nat n"
proof -
  have "unat v < k" using assms by (simp add: word_less_nat_alt unat_of_nat)
  then show ?thesis by (intro bexI [of _ "unat v"]) auto
qed

lemmas upt_numeral = upt_rec [of 0] upt_rec [of "Suc 0"] upt_rec_numeral numeral_2_eq_2 [symmetric]

text \<open>The lead byte announces its length and carries the high bits.\<close>

lemma lead2: "v < 32 \<Longrightarrow> AG_CharLengthUTF8 (ucast (v OR 0xc0)) = 2 \<and>
    (ucast ((ucast (v OR 0xc0) :: byte) AND 0x1f) :: ucs) = v"
  using word_less_range [of v 32] by (auto simp: upt_numeral AG_CharLengthUTF8_def)

lemma lead3: "v < 16 \<Longrightarrow> AG_CharLengthUTF8 (ucast (v OR 0xe0)) = 3 \<and>
    (ucast ((ucast (v OR 0xe0) :: byte) AND 0x0f) :: ucs) = v"
  using word_less_range [of v 16] by (auto simp: upt_numeral AG_CharLengthUTF8_def)

lemma lead4: "v < 8 \<Longrightarrow> AG_CharLengthUTF8 (ucast (v OR 0xf0)) = 4 \<and>
    (ucast ((ucast (v OR 0xf0) :: byte) AND 0x07) :: ucs) = v"
  using word_less_range [of v 8] by (auto simp: upt_numeral AG_CharLengthUTF8_def)

lemma lead5: "v < 4 \<Longrightarrow> AG_CharLengthUTF8 (ucast (v OR 0xf8)) = 5 \<and>
    (ucast ((ucast (v OR 0xf8) :: byte) AND 0x03) :: ucs) = v"
  using word_less_range [of v 4] by (auto simp: upt_numeral AG_CharLengthUTF8_def)

lemma lead6: "v < 2 \<Longrightarrow> AG_CharLengthUTF8 (ucast (v OR 0xfc)) = 6 \<and>
    (ucast ((ucast (v OR 0xfc) :: byte) AND 0x01) :: ucs) = v"
  using word_less_range [of v 2] by (auto simp: upt_numeral AG_CharLengthUTF8_def)

lemma bit_0x3f: "bit (0x3f :: 'a::len word) n \<longleftrightarrow> n < min LENGTH('a) 6"
proof -
  have "(0x3f :: 'a word) = mask 6" by (simp add: mask_eq_exp_minus_1)
  then show ?thesis by (simp only: bit_mask_iff) auto
qed

lemma bit_0x80: "bit (0x80 :: 'a::len word) n \<longleftrightarrow> n < LENGTH('a) \<and> n = 7"
proof -
  have "(0x80 :: 'a word) = 2 ^ 7" by simp
  then show ?thesis by (simp only: bit_exp_iff possible_bit_word)
qed

lemmas cont_bits_simps = bit_0x3f bit_0x80 bit_and_iff bit_or_iff bit_push_bit_iff
  bit_drop_bit_eq bit_unsigned_iff possible_bit_word

lemma cont_value: "(ucast ((ucast ((w AND 0x3f) OR 0x80) :: byte) AND 0x3f) :: ucs) = w AND 0x3f"
  by (rule bit_word_eqI, simp only: cont_bits_simps o_apply) auto

lemma cont_nonzero: "(ucast (((w::ucs) AND 0x3f) OR 0x80) :: byte) \<noteq> 0"
proof
  assume "(ucast ((w AND 0x3f) OR 0x80) :: byte) = 0"
  then have "\<not> bit (ucast ((w AND 0x3f) OR 0x80) :: byte) 7" by simp
  then show False by (simp only: cont_bits_simps) simp
qed

lemma join_bits:
  "push_bit 6 (drop_bit 6 u) OR (u AND 0x3f) = (u :: ucs)"
  by (rule bit_word_eqI, simp only: cont_bits_simps o_apply) auto

lemma join_bits_next:
  "push_bit (k + 6) (drop_bit (k + 6) u) OR push_bit k (drop_bit k u AND 0x3f) = push_bit k (drop_bit k (u :: ucs))"
proof (rule bit_word_eqI)
  fix n
  assume "n < LENGTH(32)"
  then show "bit (push_bit (k + 6) (drop_bit (k + 6) u) OR push_bit k (drop_bit k u AND 0x3f)) n
      = bit (push_bit k (drop_bit k u)) n"
    by (cases "k + 6 \<le> n", simp_all only: cont_bits_simps o_apply) auto
qed

lemma drop_less: "unat u < b * 2 ^ k \<Longrightarrow> unat (drop_bit k (u :: ucs)) < b"
  unfolding unat_drop_bit_eq by (simp add: drop_bit_eq_div less_mult_imp_div_less)

lemmas drop_less_simps = drop_less [of _ _ 6] drop_less [of _ _ 12] drop_less [of _ _ 18]
  drop_less [of _ _ 24] drop_less [of _ _ 30]

text \<open>One character of a well-formed string is decoded to what was encoded.\<close>

lemma rd_after [buf_simps]:
  "rd (pre @ x # ys) (length pre + Suc k) = rd ys k"
  by (simp add: rd_def nth_append)

lemma conts_numeral:
  "conts 1 u = [ucast ((u AND 0x3f) OR 0x80)]"
  "conts 2 u = [ucast ((drop_bit 6 u AND 0x3f) OR 0x80), ucast ((u AND 0x3f) OR 0x80)]"
  "conts 3 u = [ucast ((drop_bit 12 u AND 0x3f) OR 0x80), ucast ((drop_bit 6 u AND 0x3f) OR 0x80),
     ucast ((u AND 0x3f) OR 0x80)]"
  "conts 4 u = [ucast ((drop_bit 18 u AND 0x3f) OR 0x80), ucast ((drop_bit 12 u AND 0x3f) OR 0x80),
     ucast ((drop_bit 6 u AND 0x3f) OR 0x80), ucast ((u AND 0x3f) OR 0x80)]"
  "conts 5 u = [ucast ((drop_bit 24 u AND 0x3f) OR 0x80), ucast ((drop_bit 18 u AND 0x3f) OR 0x80),
     ucast ((drop_bit 12 u AND 0x3f) OR 0x80), ucast ((drop_bit 6 u AND 0x3f) OR 0x80),
     ucast ((u AND 0x3f) OR 0x80)]"
  by (simp_all add: numeral_eq_Suc drop_bit_drop_bit)

lemmas join_bits_12 = join_bits_next [of 6, unfolded numeral_plus_numeral add_num_simps]
lemmas join_bits_18 = join_bits_next [of 12, unfolded numeral_plus_numeral add_num_simps]
lemmas join_bits_24 = join_bits_next [of 18, unfolded numeral_plus_numeral add_num_simps]
lemmas join_bits_30 = join_bits_next [of 24, unfolded numeral_plus_numeral add_num_simps]

lemma join3: "push_bit 12 (drop_bit 12 u) OR push_bit 6 (drop_bit 6 u AND 0x3f) OR (u AND 0x3f) = (u :: ucs)"
  by (simp only: or.assoc [symmetric] join_bits_12 join_bits)

lemma join4: "push_bit 18 (drop_bit 18 u) OR push_bit 12 (drop_bit 12 u AND 0x3f) OR
    push_bit 6 (drop_bit 6 u AND 0x3f) OR (u AND 0x3f) = (u :: ucs)"
  by (simp only: or.assoc [symmetric] join_bits_18 join_bits_12 join_bits)

lemma join5: "push_bit 24 (drop_bit 24 u) OR push_bit 18 (drop_bit 18 u AND 0x3f) OR
    push_bit 12 (drop_bit 12 u AND 0x3f) OR push_bit 6 (drop_bit 6 u AND 0x3f) OR (u AND 0x3f) = (u :: ucs)"
  by (simp only: or.assoc [symmetric] join_bits_24 join_bits_18 join_bits_12 join_bits)

lemma join6: "push_bit 30 (drop_bit 30 u) OR push_bit 24 (drop_bit 24 u AND 0x3f) OR
    push_bit 18 (drop_bit 18 u AND 0x3f) OR push_bit 12 (drop_bit 12 u AND 0x3f) OR
    push_bit 6 (drop_bit 6 u AND 0x3f) OR (u AND 0x3f) = (u :: ucs)"
  by (simp only: or.assoc [symmetric] join_bits_30 join_bits_24 join_bits_18 join_bits_12 join_bits)

lemmas join_steps = join_bits join3 [simplified] join4 [simplified] join5 [simplified] join6 [simplified]

text \<open>The five shapes of a multi-byte character, and the single byte.\<close>

lemma utf8_cases:
  assumes "utf8_ok u"
  obtains (1) "u < 0x80"
  | (2) "\<not> u < 0x80" "u < 0x800"
  | (3) "\<not> u < 0x800" "u < 0x10000"
  | (4) "\<not> u < 0x10000" "u < 0x200000"
  | (5) "\<not> u < 0x200000" "u < 0x4000000"
  | (6) "\<not> u < 0x4000000" "u \<le> 0x7fffffff"
  using assms unfolding utf8_ok_def by blast

lemma utf8_enc_1: "u < 0x80 \<Longrightarrow> utf8_enc u = [ucast u]"
  by (simp add: utf8_enc_def utf8_lead_def)

lemma utf8_enc_2: "\<not> u < 0x80 \<Longrightarrow> u < 0x800 \<Longrightarrow> utf8_enc u = ucast (drop_bit 6 u OR 0xc0) # conts 1 u"
  by (simp add: utf8_enc_def utf8_lead_def)

lemma utf8_enc_3: "\<not> u < 0x800 \<Longrightarrow> u < 0x10000 \<Longrightarrow> utf8_enc u = ucast (drop_bit 12 u OR 0xe0) # conts 2 u"
  by (auto simp add: utf8_enc_def utf8_lead_def word_less_nat_alt)

lemma utf8_enc_4: "\<not> u < 0x10000 \<Longrightarrow> u < 0x200000 \<Longrightarrow> utf8_enc u = ucast (drop_bit 18 u OR 0xf0) # conts 3 u"
  by (auto simp add: utf8_enc_def utf8_lead_def word_less_nat_alt)

lemma utf8_enc_5: "\<not> u < 0x200000 \<Longrightarrow> u < 0x4000000 \<Longrightarrow> utf8_enc u = ucast (drop_bit 24 u OR 0xf8) # conts 4 u"
  by (auto simp add: utf8_enc_def utf8_lead_def word_less_nat_alt)

lemma utf8_enc_6: "\<not> u < 0x4000000 \<Longrightarrow> u \<le> 0x7fffffff \<Longrightarrow> utf8_enc u = ucast (drop_bit 30 u OR 0xfc) # conts 5 u"
  by (auto simp add: utf8_enc_def utf8_lead_def word_less_nat_alt word_le_nat_alt)

lemmas utf8_enc_shapes = utf8_enc_1 utf8_enc_2 utf8_enc_3 utf8_enc_4 utf8_enc_5 utf8_enc_6

text \<open>The decoder, on the encoding of one character in any context.\<close>

lemma lead_ascii: "u < 0x80 \<Longrightarrow> AG_CharLengthUTF8 (ucast (u::ucs)) = 1 \<and> (ucast (ucast u :: byte) :: ucs) = u"
  using word_less_range [of u 128] by (auto simp: upt_numeral AG_CharLengthUTF8_def)

lemma lead_bounds:
  fixes u :: ucs
  shows "u < 0x800 \<Longrightarrow> drop_bit 6 u < 32" "u < 0x10000 \<Longrightarrow> drop_bit 12 u < 16"
    "u < 0x200000 \<Longrightarrow> drop_bit 18 u < 8" "u < 0x4000000 \<Longrightarrow> drop_bit 24 u < 4"
    "u \<le> 0x7fffffff \<Longrightarrow> drop_bit 30 u < 2"
  by (auto simp: word_less_nat_alt word_le_nat_alt intro!: drop_less)


lemma import_char_enc:
  assumes "utf8_ok u"
  shows "\<exists>b bs. utf8_enc u = b # bs \<and> AG_CharLengthUTF8 b = int (length (utf8_enc u)) \<and>
           b \<noteq> 0 \<and> (\<forall>c \<in> set bs. c \<noteq> 0) \<and>
           import_char (pre @ utf8_enc u @ post) (length pre) (AG_CharLengthUTF8 b) =
             Some (u, length pre + length bs)"
  using assms
proof (cases u rule: utf8_cases)
  case 1
  have "(ucast u :: byte) \<noteq> 0"
    using lead_ascii [OF 1] assms by (auto simp: utf8_ok_def)
  with lead_ascii [OF 1] show ?thesis
    by (simp add: utf8_enc_1 [OF 1] import_char_def buf_simps)
next
  case 2
  note l = lead2 [OF lead_bounds(1) [OF 2(2)]]
  from l have "(ucast (drop_bit 6 u OR 0xc0) :: byte) \<noteq> 0"
    by (auto simp: AG_CharLengthUTF8_def)
  with l show ?thesis
    by (simp add: utf8_enc_2 [OF 2] conts_numeral import_char_def cont_bits_def buf_simps
        cont_value cont_nonzero join_steps rd_def nth_append)
next
  case 3
  note l = lead3 [OF lead_bounds(2) [OF 3(2)]]
  from l have "(ucast (drop_bit 12 u OR 0xe0) :: byte) \<noteq> 0"
    by (auto simp: AG_CharLengthUTF8_def)
  with l show ?thesis
    by (simp add: utf8_enc_3 [OF 3] conts_numeral import_char_def cont_bits_def buf_simps
        cont_value cont_nonzero join_steps rd_def nth_append)
next
  case 4
  note l = lead4 [OF lead_bounds(3) [OF 4(2)]]
  from l have "(ucast (drop_bit 18 u OR 0xf0) :: byte) \<noteq> 0"
    by (auto simp: AG_CharLengthUTF8_def)
  with l show ?thesis
    by (simp add: utf8_enc_4 [OF 4] conts_numeral import_char_def cont_bits_def buf_simps
        cont_value cont_nonzero join_steps rd_def nth_append)
next
  case 5
  note l = lead5 [OF lead_bounds(4) [OF 5(2)]]
  from l have "(ucast (drop_bit 24 u OR 0xf8) :: byte) \<noteq> 0"
    by (auto simp: AG_CharLengthUTF8_def)
  with l show ?thesis
    by (simp add: utf8_enc_5 [OF 5] conts_numeral import_char_def cont_bits_def buf_simps
        cont_value cont_nonzero join_steps rd_def nth_append)
next
  case 6
  note l = lead6 [OF lead_bounds(5) [OF 6(2)]]
  from l have "(ucast (drop_bit 30 u OR 0xfc) :: byte) \<noteq> 0"
    by (auto simp: AG_CharLengthUTF8_def)
  with l show ?thesis
    by (simp add: utf8_enc_6 [OF 6] conts_numeral import_char_def cont_bits_def buf_simps
        cont_value cont_nonzero join_steps rd_def nth_append)
qed

section \<open>Strings\<close>

definition utf8_str :: "ucs list \<Rightarrow> byte list" where
  "utf8_str us = concat (map utf8_enc us)"

definition ucs_ok :: "ucs list \<Rightarrow> bool" where
  "ucs_ok us \<longleftrightarrow> (\<forall>u \<in> set us. utf8_ok u)"

lemma utf8_str_simps [simp]:
  "utf8_str [] = []" "utf8_str (u # us) = utf8_enc u @ utf8_str us"
  by (simp_all add: utf8_str_def)

lemma ucs_ok_simps [simp]: "ucs_ok []" "ucs_ok (u # us) \<longleftrightarrow> utf8_ok u \<and> ucs_ok us"
  by (simp_all add: ucs_ok_def)

lemma utf8_enc_nonempty: "utf8_ok u \<Longrightarrow> 0 < length (utf8_enc u)"
  using import_char_enc [of u "[]" "[]"] by auto

lemma utf8_enc_nonzero: "utf8_ok u \<Longrightarrow> 0 \<notin> set (utf8_enc u)"
  using import_char_enc [of u "[]" "[]"] by auto

lemma utf8_str_nonzero: "ucs_ok us \<Longrightarrow> 0 \<notin> set (utf8_str us)"
  by (induction us) (auto dest: utf8_enc_nonzero)

lemma utf8_lead_enc:
  assumes "utf8_ok u"
  shows "\<exists>ch1. utf8_lead u = Some (length (utf8_enc u), ch1) \<and>
    utf8_enc u = ucast (drop_bit (6 * (length (utf8_enc u) - 1)) u OR ch1) # conts (length (utf8_enc u) - 1) u"
proof -
  from assms obtain n ch1 where l: "utf8_lead u = Some (n, ch1)" "0 < n"
    using utf8_lead_Some [of u] unfolding utf8_ok_def by blast
  then have e: "utf8_enc u = ucast (drop_bit (6 * (n - 1)) u OR ch1) # conts (n - 1) u"
    by (simp add: utf8_enc_def)
  then have "length (utf8_enc u) = n" using l by simp
  with l e show ?thesis by simp
qed

lemma length_utf8_enc:
  assumes "utf8_ok u" shows "AG_CharLengthUTF8FromUCS4 u = int (length (utf8_enc u))"
  using assms
proof (cases u rule: utf8_cases)
  case 1 then show ?thesis by (simp add: utf8_enc_1 AG_CharLengthUTF8FromUCS4_def)
next
  case 2 then show ?thesis by (simp add: utf8_enc_2 AG_CharLengthUTF8FromUCS4_def)
next
  case 3 then show ?thesis
    by (auto simp: utf8_enc_3 AG_CharLengthUTF8FromUCS4_def word_less_nat_alt)
next
  case 4 then show ?thesis
    by (auto simp: utf8_enc_4 AG_CharLengthUTF8FromUCS4_def word_less_nat_alt)
next
  case 5 then show ?thesis
    by (auto simp: utf8_enc_5 AG_CharLengthUTF8FromUCS4_def word_less_nat_alt)
next
  case 6 then show ?thesis
    by (auto simp: utf8_enc_6 AG_CharLengthUTF8FromUCS4_def word_less_nat_alt word_le_nat_alt)
qed

lemma lengthUTF8FromUCS4_loop_spec:
  "ucs_ok us \<Longrightarrow> lengthUTF8FromUCS4_loop (us @ 0 # r) rv = Some (0, rv + length (utf8_str us))"
proof (induction us arbitrary: rv)
  case Nil
  then show ?case by simp
next
  case (Cons u us)
  moreover from Cons.prems have "AG_CharLengthUTF8FromUCS4 u = int (length (utf8_enc u))"
    by (simp add: length_utf8_enc)
  ultimately show ?case by (auto simp: utf8_ok_def Let_def)
qed

text \<open>Export: one character, then the whole string.\<close>

lemma export_utf8_step:
  assumes "utf8_ok u" and "len + length (utf8_enc u) < dstSize" and "length xs = length (utf8_enc u)"
  shows "export_utf8_loop (u # us) (pre @ xs @ post) (length pre) len dstSize =
    export_utf8_loop us ((pre @ utf8_enc u) @ post) (length (pre @ utf8_enc u))
      (len + length (utf8_enc u)) dstSize"
proof -
  let ?n = "length (utf8_enc u)"
  obtain ch1 where l: "utf8_lead u = Some (?n, ch1)"
    and e: "utf8_enc u = ucast (drop_bit (6 * (?n - 1)) u OR ch1) # conts (?n - 1) u"
    using utf8_lead_enc [OF assms(1)] by blast
  obtain x ys where xs: "xs = x # ys" and ys: "length ys = ?n - 1"
    using assms(3) utf8_enc_nonempty [OF assms(1)] by (cases xs) auto
  have p: "put_conts (pre @ xs @ post) (length pre) (?n - 1) u =
      Some (pre @ x # conts (?n - 1) u @ post, drop_bit (6 * (?n - 1)) u)"
    using put_conts_spec [OF ys] xs by simp
  have "wr (pre @ x # conts (?n - 1) u @ post) (length pre) (ucast (drop_bit (6 * (?n - 1)) u OR ch1)) =
      Some (pre @ utf8_enc u @ post)"
    unfolding wr_append by (subst (2) e) simp
  then show ?thesis using assms l p by (simp add: utf8_ok_def)
qed

lemma export_utf8_spec:
  assumes "ucs_ok us" and "len + length (utf8_str us) < dstSize" and "length (utf8_str us) < length xs"
  shows "export_utf8_loop (us @ 0 # r) (pre @ xs) (length pre) len dstSize =
           Some (0, pre @ utf8_str us @ 0 # drop (length (utf8_str us) + 1) xs)"
  using assms
proof (induction us arbitrary: pre xs len)
  case Nil
  then show ?case by (cases xs) (simp_all add: buf_simps)
next
  case (Cons u us)
  let ?n = "length (utf8_enc u)"
  have "export_utf8_loop ((u # us) @ 0 # r) (pre @ take ?n xs @ drop ?n xs) (length pre) len dstSize =
    export_utf8_loop (us @ 0 # r) ((pre @ utf8_enc u) @ drop ?n xs) (length (pre @ utf8_enc u))
      (len + ?n) dstSize"
    using export_utf8_step [of u len dstSize "take ?n xs" "us @ 0 # r" pre "drop ?n xs"] Cons.prems
    by (simp del: export_utf8_loop.simps)
  also have "\<dots> = Some (0, (pre @ utf8_enc u) @ utf8_str us @
      0 # drop (length (utf8_str us) + 1) (drop ?n xs))"
    using Cons.prems by (intro Cons.IH) auto
  finally show ?case by (simp add: add_ac)
qed

lemma export_utf8_full:
  assumes "ucs_ok us" and "len < dstSize" and "dstSize \<le> len + length (utf8_str us)"
    and "dstSize - len \<le> length xs"
  shows "\<exists>dst'. export_utf8_loop (us @ 0 # r) (pre @ xs) (length pre) len dstSize = Some (-1, dst')"
  using assms
proof (induction us arbitrary: pre xs len)
  case Nil
  then show ?case by simp
next
  case (Cons u us)
  let ?n = "length (utf8_enc u)"
  show ?case
  proof (cases "len + ?n < dstSize")
    case True
    have "export_utf8_loop ((u # us) @ 0 # r) (pre @ take ?n xs @ drop ?n xs) (length pre) len dstSize =
      export_utf8_loop (us @ 0 # r) ((pre @ utf8_enc u) @ drop ?n xs) (length (pre @ utf8_enc u))
        (len + ?n) dstSize"
      using export_utf8_step [of u len dstSize "take ?n xs" "us @ 0 # r" pre "drop ?n xs"] Cons.prems True
      by (simp del: export_utf8_loop.simps)
    moreover have "\<exists>dst'. export_utf8_loop (us @ 0 # r) ((pre @ utf8_enc u) @ drop ?n xs)
        (length (pre @ utf8_enc u)) (len + ?n) dstSize = Some (-1, dst')"
      using Cons.prems True by (intro Cons.IH) auto
    ultimately show ?thesis by (metis append_take_drop_id)
  next
    case False
    obtain ch1 where "utf8_lead u = Some (?n, ch1)"
      using utf8_lead_enc Cons.prems by fastforce
    with False Cons.prems show ?thesis by (simp add: utf8_ok_def)
  qed
qed

text \<open>Import.\<close>

lemma strlen_b_append: "0 \<notin> set s \<Longrightarrow> strlen_b (s @ 0 # r) = Some (length s)"
  by (induction s) auto

lemma nul_within_append: "0 \<notin> set s \<Longrightarrow> nul_within (s @ r) (length s) = Some False"
  by (induction s) auto

lemma lengthUTF8_loop_enc:
  assumes "utf8_ok u"
  shows "lengthUTF8_loop (utf8_enc u @ r) rv = lengthUTF8_loop r (rv + 1)"
proof -
  obtain b bs where e: "utf8_enc u = b # bs" "AG_CharLengthUTF8 b = int (length (utf8_enc u))"
    using import_char_enc [OF assms, of "[]" "[]"] by auto
  let ?n = "nat (AG_CharLengthUTF8 b)"
  have n: "?n = length (utf8_enc u)" by (simp only: e(2) nat_int)
  have "nul_within (utf8_enc u @ r) ?n = Some False"
    unfolding n by (rule nul_within_append) (rule utf8_enc_nonzero [OF assms])
  moreover have "drop ?n (utf8_enc u @ r) = r" unfolding n by simp
  moreover have "AG_CharLengthUTF8 b \<noteq> -1" using e(2) by simp
  ultimately show ?thesis
    by (subst lengthUTF8_loop.simps) (simp add: e(1) Let_def)
qed

lemma lengthUTF8_loop_str:
  "ucs_ok us \<Longrightarrow> lengthUTF8_loop (utf8_str us @ r) rv = lengthUTF8_loop r (rv + length us)"
  by (induction us arbitrary: rv) (simp_all add: lengthUTF8_loop_enc)

lemma lengthUTF8_loop_end: "lengthUTF8_loop (0 # r) rv = Some (0, rv)"
  by (subst lengthUTF8_loop.simps) (simp add: AG_CharLengthUTF8_def)

lemma AG_LengthUTF8_eq: "s \<noteq> [] \<Longrightarrow> AG_LengthUTF8 s = lengthUTF8_loop s 0"
  by (cases s) (auto simp: AG_LengthUTF8_def lengthUTF8_loop_end)

lemma import_loop_enc:
  assumes "utf8_ok u" and "j < length ucs" and "length pre + length (utf8_enc u) \<le> sLen"
  shows "import_loop (pre @ utf8_enc u @ r) ucs (length pre) j sLen =
    import_loop ((pre @ utf8_enc u) @ r) (ucs[j := u]) (length (pre @ utf8_enc u)) (j + 1) sLen"
proof -
  obtain b bs where e: "utf8_enc u = b # bs" "AG_CharLengthUTF8 b = int (length (utf8_enc u))"
    and i: "import_char (pre @ utf8_enc u @ r) (length pre) (AG_CharLengthUTF8 b) =
             Some (u, length pre + length bs)"
    using import_char_enc [OF assms(1), of pre r] by auto
  have "rd (pre @ utf8_enc u @ r) (length pre) = Some b"
    by (simp add: e buf_simps)
  then show ?thesis using assms(2,3) e i
    by (subst import_loop.simps) (simp add: wr_in)
qed

lemma import_loop_str:
  assumes "ucs_ok us" and "j + length us \<le> length ucs"
    and "length pre + length (utf8_str us) \<le> sLen"
  shows "import_loop (pre @ utf8_str us @ r) ucs (length pre) j sLen =
    import_loop (pre @ utf8_str us @ r) (take j ucs @ us @ drop (j + length us) ucs)
      (length pre + length (utf8_str us)) (j + length us) sLen"
  using assms
proof (induction us arbitrary: pre ucs j)
  case Nil
  then show ?case by simp
next
  case (Cons u us)
  have "import_loop (pre @ utf8_str (u # us) @ r) ucs (length pre) j sLen =
    import_loop ((pre @ utf8_enc u) @ utf8_str us @ r) (ucs[j := u]) (length (pre @ utf8_enc u)) (j + 1) sLen"
    using import_loop_enc [of u j ucs pre sLen "utf8_str us @ r"] Cons.prems by simp
  also have "\<dots> = import_loop ((pre @ utf8_enc u) @ utf8_str us @ r)
      (take (j + 1) (ucs[j := u]) @ us @ drop (j + 1 + length us) (ucs[j := u]))
      (length (pre @ utf8_enc u) + length (utf8_str us)) (j + 1 + length us) sLen"
    using Cons.prems by (intro Cons.IH) auto
  also have "take (j + 1) (ucs[j := u]) = take j ucs @ [u]"
    using Cons.prems by (simp add: take_Suc_conv_app_nth)
  finally show ?case by (simp add: add_ac)
qed

text \<open>Memory that \<open>TryMalloc\<close> hands out: as many cells as were asked for.\<close>

definition mem_ok :: "(nat \<Rightarrow> ucs list option) \<Rightarrow> bool" where
  "mem_ok mem \<longleftrightarrow> (\<forall>n. \<exists>b. mem n = Some b \<and> length b = n)"

lemma import_utf8_spec:
  assumes "ucs_ok us" and "mem_ok mem"
  shows "AG_ImportUnicode mem iconv ''UTF-8'' (utf8_str us @ 0 # r) =
           Some (Some (us @ [0], length us, (length us + 1) * 4))"
proof -
  obtain b where b: "mem (length us + 1) = Some b" "length b = length us + 1"
    using assms(2) unfolding mem_ok_def by blast
  have len: "AG_LengthUTF8 (utf8_str us @ 0 # r) = Some (0, length us)"
    using assms(1) by (simp add: AG_LengthUTF8_eq lengthUTF8_loop_str lengthUTF8_loop_end)
  have "import_loop (utf8_str us @ 0 # r) b 0 0 (length (utf8_str us)) =
    import_loop (utf8_str us @ 0 # r) (us @ drop (length us) b) (length (utf8_str us)) (length us)
      (length (utf8_str us))"
    using import_loop_str [of us 0 b "[]" "length (utf8_str us)" "0 # r"] assms(1) b by simp
  also have "\<dots> = Some (Some (us @ [0], length us))"
  proof -
    obtain x where "drop (length us) b = [x]"
      using b(2) drop_last_single by force
    then show ?thesis by (subst import_loop.simps) (simp add: wr_append)
  qed
  finally show ?thesis
    using len b strlen_b_append [OF utf8_str_nonzero [OF assms(1)]] by (simp add: AG_ImportUnicode_def)
qed

text \<open>
  A string that ends in the middle of a sequence: \<open>AG_LengthUTF8\<close> does not count the
  unfinished character, \<open>AG_ImportUnicode\<close> stores it, and the terminator falls outside
  the allocation.
\<close>

lemma import_truncated_overflow:
  assumes "ucs_ok us" and "mem_ok mem" and "AG_CharLengthUTF8 b = 2"
  shows "AG_ImportUnicode mem iconv ''UTF-8'' (utf8_str us @ [b, 0]) = None"
proof -
  let ?s = "utf8_str us @ [b, 0]" and ?k = "length (utf8_str us)"
  obtain u where u: "mem (length us + 1) = Some u" "length u = length us + 1"
    using assms(2) unfolding mem_ok_def by blast
  have b0: "b \<noteq> 0" using assms(3) by (auto simp: AG_CharLengthUTF8_def)
  have "lengthUTF8_loop [b, 0] (length us) = Some (0, length us)"
    using assms(3) b0 by (subst lengthUTF8_loop.simps) (simp add: numeral_2_eq_2)
  then have len: "AG_LengthUTF8 ?s = Some (0, length us)"
    using assms(1) by (simp add: AG_LengthUTF8_eq lengthUTF8_loop_str)
  have sl: "strlen_b ?s = Some (?k + 1)"
    using strlen_b_append [of "utf8_str us @ [b]" "[]"] utf8_str_nonzero [OF assms(1)] b0 by simp
  have rdb: "rd ?s ?k = Some b" by (rule rd_append)
  have rd0: "rd ?s (?k + 1) = Some 0" by (simp add: rd_def nth_append)
  let ?c = "push_bit 6 (ucast (b AND 0x1f)) :: ucs"
  have ic: "import_char ?s ?k 2 = Some (?c, ?k + 1)"
    unfolding import_char_def cont_bits_def rdb rd0 by simp
  have "import_loop ?s u 0 0 (?k + 1) =
    import_loop ?s (us @ drop (length us) u) ?k (length us) (?k + 1)"
    using import_loop_str [of us 0 u "[]" "?k + 1" "[b, 0]"] assms(1) u by simp
  also have "\<dots> = import_loop ?s (us @ [?c]) (?k + 1 + 1) (length us + 1) (?k + 1)"
  proof -
    obtain x where "drop (length us) u = [x]"
      using u(2) drop_last_single by force
    then have "wr (us @ drop (length us) u) (length us) ?c = Some (us @ [?c])"
      by (simp add: wr_append)
    then show ?thesis using rdb ic assms(3) by (subst import_loop.simps) simp
  qed
  also have "\<dots> = None"
    by (subst import_loop.simps) (simp add: wr_def)
  finally show ?thesis using len u sl by (simp add: AG_ImportUnicode_def)
qed

text \<open>US-ASCII export: no room is kept for the terminator.\<close>

lemma export_ascii_spec:
  assumes "\<forall>u \<in> set us. u \<noteq> 0 \<and> u < 0x80" and "len + length us \<le> dstSize" and "length us < length xs"
  shows "export_ascii_loop (us @ 0 # r) (pre @ xs) (length pre) len dstSize =
           Some (0, pre @ map ucast us @ 0 # drop (length us + 1) xs)"
  using assms
proof (induction us arbitrary: pre xs len)
  case Nil
  then show ?case by (cases xs) (simp_all add: buf_simps)
next
  case (Cons u us)
  then obtain x ys where xs: "xs = x # ys" by (cases xs) auto
  from Cons.prems Cons.IH [of "len + 1" ys "pre @ [ucast u]"] show ?case
    by (simp add: xs buf_simps)
qed

lemma export_ascii_overflow:
  assumes "\<forall>u \<in> set us. u \<noteq> 0 \<and> u < 0x80" and "len + length us \<le> dstSize" and "length us = length xs"
  shows "export_ascii_loop (us @ 0 # r) (pre @ xs) (length pre) len dstSize = None"
  using assms
proof (induction us arbitrary: pre xs len)
  case Nil
  then show ?case by (simp add: buf_simps)
next
  case (Cons u us)
  then obtain x ys where xs: "xs = x # ys" by (cases xs) auto
  from Cons.prems Cons.IH [of "len + 1" ys "pre @ [ucast u]"] show ?case
    by (simp add: xs buf_simps)
qed

section \<open>Properties\<close>

text \<open>
  C27: exporting a Unicode string as UTF-8 into a buffer with room for it and importing
  the result gives the string back, for every character up to 0x7fffffff; the length and
  the allocated size that the import reports are those of the string.
\<close>

theorem utf8_roundtrip:
  assumes "ucs_ok us" and "mem_ok mem" and "length (utf8_str us) < dstSize" and "dstSize \<le> length dst"
  shows "\<exists>dst'. AG_ExportUnicode iconv_ex ''UTF-8'' dst (us @ 0 # r) dstSize = Some (0, dst') \<and>
           AG_ImportUnicode mem iconv_im ''UTF-8'' dst' =
             Some (Some (us @ [0], length us, (length us + 1) * 4))"
proof -
  have "AG_ExportUnicode iconv_ex ''UTF-8'' dst (us @ 0 # r) dstSize =
      Some (0, utf8_str us @ 0 # drop (length (utf8_str us) + 1) dst)"
    using assms export_utf8_spec [of us 0 dstSize dst r "[]"] by (simp add: AG_ExportUnicode_def)
  then show ?thesis using import_utf8_spec [OF assms(1,2)] by blast
qed

theorem utf8_roundtrip_witness:
  "\<exists>dst'. AG_ExportUnicode (\<lambda>_ _ _ _. (-1, [])) ''UTF-8'' (replicate 8 0) ([0x48, 0xe9, 0x20ac] @ 0 # []) 8 =
       Some (0, dst') \<and>
     AG_ImportUnicode (\<lambda>n. Some (replicate n 0)) (\<lambda>_ _. None) ''UTF-8'' dst' =
       Some (Some ([0x48, 0xe9, 0x20ac] @ [0], 3, 16))"
proof -
  have "ucs_ok [0x48, 0xe9, 0x20ac]" by (simp add: utf8_ok_def)
  moreover have "mem_ok (\<lambda>n. Some (replicate n 0))" by (simp add: mem_ok_def)
  moreover have "length (utf8_str [0x48, 0xe9, 0x20ac]) < 8"
    by (simp add: utf8_enc_def utf8_lead_def)
  ultimately show ?thesis
    using utf8_roundtrip [of "[0x48, 0xe9, 0x20ac]" "\<lambda>n. Some (replicate n 0)" 8 "replicate 8 0"
        "\<lambda>_ _ _ _. (-1, [])" "[]" "\<lambda>_ _. None"] by (simp add: numeral_3_eq_3)
qed

end
