(* ===== verification/Tbl.thy ===== *)
theory Tbl
  imports Prelude
begin

unbundle bit_operations_syntax

text \<open>
  The hash table of core/tbl.c and core/tbl.h.  A bucket holds two parallel arrays, its
  keys and its entries; the entry array is \<^const>\<open>None\<close> when the pointer to it dangles.
  An entry is an \<open>AG_Variable\<close>, here a value of type \<open>'v\<close> (\<open>AG_CopyVariable\<close> copies it,
  \<open>AG_FreeVariable\<close> drops it).  Hash values and the bucket count are 32-bit unsigned.
  The interface that the clients of a table rely on is the locale \<open>dictionary\<close>; its
  interpretation on the operations of this file is at the end.
\<close>

record 'v AG_TblBucket =
  keys :: "string list"
  ents :: "'v list option"
  nEnts :: nat

record 'v AG_Tbl =
  tbl_flags :: "32 word"
  buckets :: "'v AG_TblBucket list"
  nBuckets :: "32 word"

definition AG_TBL_DUPLICATES :: "32 word" where
  "AG_TBL_DUPLICATES = 0x01"

section \<open>Operations\<close>

definition empty_bucket :: "'v AG_TblBucket" where
  "empty_bucket = \<lparr>keys = [], ents = Some [], nEnts = 0\<rparr>"

text \<open>\<open>mem\<close>: does the \<open>TryMalloc\<close> of the bucket array succeed?\<close>

definition AG_TblInit :: "bool \<Rightarrow> 32 word \<Rightarrow> 32 word \<Rightarrow> 'v AG_Tbl option" where
  "AG_TblInit mem nb flags =
     (if \<not> mem then None
      else Some \<lparr>tbl_flags = flags, buckets = replicate (unat nb) empty_bucket,
                 nBuckets = nb\<rparr>)"

definition AG_TblNew :: "bool \<Rightarrow> bool \<Rightarrow> 32 word \<Rightarrow> 32 word \<Rightarrow> 'v AG_Tbl option" where
  "AG_TblNew mem_t mem_b nb flags =
     (if \<not> mem_t then None else AG_TblInit mem_b nb flags)"

text \<open>\<open>h = 31*h + *p\<close> over the unsigned characters of the key, then \<open>h % tbl->nBuckets\<close>.\<close>

fun tbl_hash_loop :: "32 word \<Rightarrow> string \<Rightarrow> 32 word" where
  "tbl_hash_loop h [] = h"
| "tbl_hash_loop h (c # p) = tbl_hash_loop (31 * h + of_char c) p"

definition AG_TblHash :: "'v AG_Tbl \<Rightarrow> string \<Rightarrow> nat option" where
  "AG_TblHash tbl key =
     (if nBuckets tbl = 0 then None else Some (unat (tbl_hash_loop 0 key mod nBuckets tbl)))"

text \<open>The scan that every operation starts with.\<close>

definition bucket_index :: "'v AG_TblBucket \<Rightarrow> string \<Rightarrow> nat" where
  "bucket_index buck key = first_idx (\<lambda>k. k = key) (take (nEnts buck) (keys buck))"

text \<open>\<open>Some None\<close> is \<open>NULL\<close>, with the error "No such entry".\<close>

definition AG_TblLookupHash :: "'v AG_Tbl \<Rightarrow> nat \<Rightarrow> string \<Rightarrow> 'v option option" where
  "AG_TblLookupHash tbl h key = do {
     buck \<leftarrow> rd (buckets tbl) h;
     let i = bucket_index buck key;
     if i = nEnts buck then Some None
     else do { es \<leftarrow> ents buck; v \<leftarrow> rd es i; Some (Some v) }
   }"

definition AG_TblExistsHash :: "'v AG_Tbl \<Rightarrow> nat \<Rightarrow> string \<Rightarrow> int option" where
  "AG_TblExistsHash tbl h key = do {
     buck \<leftarrow> rd (buckets tbl) h;
     Some (if bucket_index buck key < nEnts buck then 1 else 0)
   }"

text \<open>
  \<open>mem_e\<close>, \<open>mem_k\<close>: do the two \<open>TryRealloc\<close> calls succeed?  When the second one fails the
  new entry array is freed while \<open>buck->ents\<close> still has the old address.
\<close>

definition AG_TblInsertHash ::
  "bool \<Rightarrow> bool \<Rightarrow> 'v AG_Tbl \<Rightarrow> nat \<Rightarrow> string \<Rightarrow> 'v \<Rightarrow> (int \<times> 'v AG_Tbl) option" where
  "AG_TblInsertHash mem_e mem_k tbl h key V = do {
     buck \<leftarrow> rd (buckets tbl) h;
     let i = bucket_index buck key;
     if tbl_flags tbl AND AG_TBL_DUPLICATES = 0 \<and> i < nEnts buck then Some (-1, tbl)
     else do {
       es \<leftarrow> ents buck;
       if \<not> mem_e then Some (-1, tbl)
       else if \<not> mem_k then
         Some (-1, tbl\<lparr>buckets := (buckets tbl)[h := buck\<lparr>ents := None\<rparr>]\<rparr>)
       else Some (0, tbl\<lparr>buckets := (buckets tbl)[h :=
              \<lparr>keys = take (nEnts buck) (keys buck) @ [key], ents = Some (take (nEnts buck) es @ [V]),
               nEnts = nEnts buck + 1\<rparr>]\<rparr>)
     }
   }"

definition AG_TblDeleteHash :: "'v AG_Tbl \<Rightarrow> nat \<Rightarrow> string \<Rightarrow> (int \<times> 'v AG_Tbl) option" where
  "AG_TblDeleteHash tbl h key = do {
     buck \<leftarrow> rd (buckets tbl) h;
     let i = bucket_index buck key;
     if i = nEnts buck then Some (-1, tbl)
     else do {
       es \<leftarrow> ents buck;
       Some (0, tbl\<lparr>buckets := (buckets tbl)[h :=
         \<lparr>keys = del_at i (keys buck), ents = Some (del_at i es), nEnts = nEnts buck - 1\<rparr>]\<rparr>)
     }
   }"

text \<open>The inline wrappers hash the key first.\<close>

definition AG_TblLookup :: "'v AG_Tbl \<Rightarrow> string \<Rightarrow> 'v option option" where
  "AG_TblLookup tbl key = do { h \<leftarrow> AG_TblHash tbl key; AG_TblLookupHash tbl h key }"

definition AG_TblExists :: "'v AG_Tbl \<Rightarrow> string \<Rightarrow> int option" where
  "AG_TblExists tbl key = do { h \<leftarrow> AG_TblHash tbl key; AG_TblExistsHash tbl h key }"

definition AG_TblInsert :: "bool \<Rightarrow> bool \<Rightarrow> 'v AG_Tbl \<Rightarrow> string \<Rightarrow> 'v \<Rightarrow> (int \<times> 'v AG_Tbl) option" where
  "AG_TblInsert mem_e mem_k tbl key V =
     do { h \<leftarrow> AG_TblHash tbl key; AG_TblInsertHash mem_e mem_k tbl h key V }"

definition AG_TblDelete :: "'v AG_Tbl \<Rightarrow> string \<Rightarrow> (int \<times> 'v AG_Tbl) option" where
  "AG_TblDelete tbl key = do { h \<leftarrow> AG_TblHash tbl key; AG_TblDeleteHash tbl h key }"

section \<open>Well-formed tables\<close>

definition bucket_ok :: "'v AG_TblBucket \<Rightarrow> bool" where
  "bucket_ok b \<longleftrightarrow> length (keys b) = nEnts b \<and> distinct (keys b) \<and>
     (\<exists>es. ents b = Some es \<and> length es = nEnts b)"

text \<open>Without \<open>AG_TBL_DUPLICATES\<close>; every key sits in the bucket it hashes to.\<close>

definition tbl_ok :: "'v AG_Tbl \<Rightarrow> bool" where
  "tbl_ok t \<longleftrightarrow> nBuckets t \<noteq> 0 \<and> tbl_flags t AND AG_TBL_DUPLICATES = 0 \<and>
     length (buckets t) = unat (nBuckets t) \<and>
     (\<forall>b \<in> set (buckets t). bucket_ok b) \<and>
     (\<forall>h < length (buckets t). \<forall>k \<in> set (keys (buckets t ! h)). AG_TblHash t k = Some h)"

text \<open>The finite map a table stands for.\<close>

definition bucket_map :: "'v AG_TblBucket \<Rightarrow> string \<Rightarrow> 'v option" where
  "bucket_map b = map_of (zip (keys b) (case ents b of None \<Rightarrow> [] | Some es \<Rightarrow> es))"

definition tbl_map :: "'v AG_Tbl \<Rightarrow> string \<Rightarrow> 'v option" where
  "tbl_map t key = (case AG_TblHash t key of
     None \<Rightarrow> None | Some h \<Rightarrow> bucket_map (buckets t ! h) key)"

lemma AG_TblHash_range: "tbl_ok t \<Longrightarrow> \<exists>h. AG_TblHash t key = Some h \<and> h < length (buckets t)"
  by (auto simp: tbl_ok_def AG_TblHash_def unat_mod word_neq_0_conv word_less_nat_alt)

lemma AG_TblHash_cong: "nBuckets t = nBuckets t' \<Longrightarrow> AG_TblHash t key = AG_TblHash t' key"
  by (simp add: AG_TblHash_def)

lemma map_of_zip_first_idx:
  "length ks = length vs \<Longrightarrow>
   map_of (zip ks vs) k = (let i = first_idx (\<lambda>x. x = k) ks in if i = length ks then None else Some (vs ! i))"
proof (induction ks vs rule: list_induct2)
  case Nil
  then show ?case by simp
next
  case (Cons x xs y ys)
  then show ?case by (auto simp: Let_def)
qed

lemma bucket_index_eq: "bucket_ok b \<Longrightarrow> bucket_index b k = first_idx (\<lambda>x. x = k) (keys b)"
  by (simp add: bucket_index_def bucket_ok_def)

lemma bucket_map_index:
  assumes "bucket_ok b"
  shows "bucket_map b k = (if bucket_index b k = nEnts b then None
           else Some (the (ents b) ! bucket_index b k))"
  using assms by (auto simp: bucket_map_def bucket_index_eq bucket_ok_def map_of_zip_first_idx Let_def)

lemma bucket_index_le: "bucket_ok b \<Longrightarrow> bucket_index b k \<le> nEnts b"
  by (metis bucket_index_eq bucket_ok_def first_idx_le)

lemma bucket_map_None_iff: "bucket_ok b \<Longrightarrow> bucket_map b k = None \<longleftrightarrow> k \<notin> set (keys b)"
proof -
  assume b: "bucket_ok b"
  have "first_idx (\<lambda>x. x = k) (keys b) = length (keys b) \<longleftrightarrow> k \<notin> set (keys b)"
    by (auto simp: first_idx_eq_length_iff)
  then show ?thesis using b by (simp add: bucket_map_index bucket_index_eq) (simp add: bucket_ok_def)
qed

lemma AG_TblLookup_spec: "tbl_ok t \<Longrightarrow> AG_TblLookup t key = Some (tbl_map t key)"
proof -
  assume ok: "tbl_ok t"
  then obtain h where h: "AG_TblHash t key = Some h" "h < length (buckets t)"
    using AG_TblHash_range by blast
  let ?b = "buckets t ! h"
  have b: "bucket_ok ?b" using ok h by (auto simp: tbl_ok_def)
  then obtain es where es: "ents ?b = Some es" "length es = nEnts ?b" by (auto simp: bucket_ok_def)
  have "bucket_index ?b key \<le> nEnts ?b" using b by (rule bucket_index_le)
  then show ?thesis using h b es
    by (auto simp: AG_TblLookup_def AG_TblLookupHash_def tbl_map_def bucket_map_index rd_in Let_def)
qed

lemma AG_TblExists_spec:
  assumes "tbl_ok t"
  shows "AG_TblExists t key = Some (if tbl_map t key = None then 0 else 1)"
proof -
  obtain h where h: "AG_TblHash t key = Some h" "h < length (buckets t)"
    using AG_TblHash_range [OF assms] by blast
  let ?b = "buckets t ! h"
  have b: "bucket_ok ?b" using assms h by (auto simp: tbl_ok_def)
  have "bucket_index ?b key \<le> nEnts ?b" using b by (rule bucket_index_le)
  then show ?thesis using h b
    by (auto simp: AG_TblExists_def AG_TblExistsHash_def tbl_map_def bucket_map_index rd_in)
qed

text \<open>Replacing one bucket by another with the same kind of keys.\<close>

lemma tbl_ok_update:
  assumes "tbl_ok t" and "h < length (buckets t)" and "bucket_ok b"
    and "\<And>k. k \<in> set (keys b) \<Longrightarrow> AG_TblHash t k = Some h"
  shows "tbl_ok (t\<lparr>buckets := (buckets t)[h := b]\<rparr>)"
    and "tbl_map (t\<lparr>buckets := (buckets t)[h := b]\<rparr>) k =
      (if AG_TblHash t k = Some h then bucket_map b k else tbl_map t k)"
proof -
  let ?t = "t\<lparr>buckets := (buckets t)[h := b]\<rparr>"
  have hash: "AG_TblHash ?t k = AG_TblHash t k" for k by (rule AG_TblHash_cong) simp
  show "tbl_ok ?t"
    using assms by (auto simp: tbl_ok_def hash nth_list_update dest!: set_update_subset_insert [THEN subsetD])
  show "tbl_map ?t k = (if AG_TblHash t k = Some h then bucket_map b k else tbl_map t k)"
    using assms(2) by (auto simp: tbl_map_def hash nth_list_update split: option.splits)
qed

lemma map_of_zip_snoc:
  assumes "length ks = length vs" and "key \<notin> set ks"
  shows "map_of (zip (ks @ [key]) (vs @ [v])) = (map_of (zip ks vs))(key \<mapsto> v)"
  using assms by (induction ks vs rule: list_induct2) (auto simp: fun_upd_twist)

lemma AG_TblInsert_new:
  assumes ok: "tbl_ok t" and new: "tbl_map t key = None"
  shows "\<exists>t'. AG_TblInsert True True t key V = Some (0, t') \<and> tbl_ok t' \<and>
           tbl_map t' = (tbl_map t)(key \<mapsto> V)"
proof -
  obtain h where h: "AG_TblHash t key = Some h" "h < length (buckets t)"
    using AG_TblHash_range [OF ok] by blast
  let ?b = "buckets t ! h"
  have b: "bucket_ok ?b" using ok h by (auto simp: tbl_ok_def)
  then obtain es where es: "ents ?b = Some es" "length es = nEnts ?b" "length (keys ?b) = nEnts ?b"
    by (auto simp: bucket_ok_def)
  let ?b' = "\<lparr>keys = keys ?b @ [key], ents = Some (es @ [V]), nEnts = nEnts ?b + 1\<rparr>"
  let ?t' = "t\<lparr>buckets := (buckets t)[h := ?b']\<rparr>"
  have fresh: "key \<notin> set (keys ?b)"
    using new h b by (simp add: tbl_map_def bucket_map_None_iff)
  have b': "bucket_ok ?b'" using b es fresh by (simp add: bucket_ok_def)
  have ks: "AG_TblHash t k = Some h" if "k \<in> set (keys ?b')" for k
    using that ok h by (auto simp: tbl_ok_def)
  have "bucket_index ?b key = nEnts ?b"
    using b fresh es by (simp add: bucket_index_eq first_idx_none)
  then have "AG_TblInsert True True t key V = Some (0, ?t')"
    using h es ok by (simp add: AG_TblInsert_def AG_TblInsertHash_def rd_in tbl_ok_def Let_def)
  moreover note upd = tbl_ok_update [OF ok h(2) b' ks]
  moreover have "tbl_map ?t' = (tbl_map t)(key \<mapsto> V)"
  proof
    fix k
    have "bucket_map ?b' k = ((bucket_map ?b)(key \<mapsto> V)) k"
      using es fresh by (simp add: bucket_map_def map_of_zip_snoc del: zip_append)
    then show "tbl_map ?t' k = ((tbl_map t)(key \<mapsto> V)) k"
      using upd(2) [of k] h by (auto simp: tbl_map_def)
  qed
  ultimately show ?thesis by blast
qed

lemma AG_TblInsert_existing:
  assumes ok: "tbl_ok t" and old: "tbl_map t key \<noteq> None"
  shows "AG_TblInsert me mk t key V = Some (-1, t)"
proof -
  obtain h where h: "AG_TblHash t key = Some h" "h < length (buckets t)"
    using AG_TblHash_range [OF ok] by blast
  let ?b = "buckets t ! h"
  have b: "bucket_ok ?b" using ok h by (auto simp: tbl_ok_def)
  have "bucket_index ?b key < nEnts ?b"
    using old h b bucket_index_le [OF b, of key] by (simp add: tbl_map_def bucket_map_index split: if_splits)
  then show ?thesis
    using h ok by (simp add: AG_TblInsert_def AG_TblInsertHash_def rd_in tbl_ok_def Let_def)
qed

lemma map_of_zip_del_at:
  assumes "distinct ks" and "length ks = length vs" and "i < length ks"
  shows "map_of (zip (del_at i ks) (del_at i vs)) = (map_of (zip ks vs))(ks ! i := None)"
  using assms(2,1,3)
proof (induction ks vs arbitrary: i rule: list_induct2)
  case Nil
  then show ?case by simp
next
  case (Cons x xs y ys)
  show ?case
  proof (cases i)
    case 0
    have "map_of (zip xs ys) x = None" using Cons by (simp add: map_of_zip_is_None)
    then show ?thesis using 0 by (auto simp: del_at_def fun_eq_iff)
  next
    case (Suc j)
    then have j: "j < length xs" using Cons.prems by simp
    then have "xs ! j \<noteq> x" using Cons.prems by auto
    then show ?thesis using Cons.IH [of j] Cons.prems Suc j
      by (auto simp: del_at_def fun_upd_twist)
  qed
qed

lemma AG_TblDelete_existing:
  assumes ok: "tbl_ok t" and old: "tbl_map t key \<noteq> None"
  shows "\<exists>t'. AG_TblDelete t key = Some (0, t') \<and> tbl_ok t' \<and> tbl_map t' = (tbl_map t)(key := None)"
proof -
  obtain h where h: "AG_TblHash t key = Some h" "h < length (buckets t)"
    using AG_TblHash_range [OF ok] by blast
  let ?b = "buckets t ! h"
  have b: "bucket_ok ?b" using ok h by (auto simp: tbl_ok_def)
  then obtain es where es: "ents ?b = Some es" "length es = nEnts ?b" "length (keys ?b) = nEnts ?b"
    "distinct (keys ?b)" by (auto simp: bucket_ok_def)
  let ?i = "bucket_index ?b key"
  have i: "?i < nEnts ?b"
    using old h b bucket_index_le [OF b, of key] by (simp add: tbl_map_def bucket_map_index split: if_splits)
  have key: "keys ?b ! ?i = key"
    using i b es first_idx_holds [of "\<lambda>x. x = key" "keys ?b"] by (simp add: bucket_index_eq)
  let ?b' = "\<lparr>keys = del_at ?i (keys ?b), ents = Some (del_at ?i es), nEnts = nEnts ?b - 1\<rparr>"
  let ?t' = "t\<lparr>buckets := (buckets t)[h := ?b']\<rparr>"
  have b': "bucket_ok ?b'" using es i by (simp add: bucket_ok_def length_del_at distinct_del_at)
  have ks: "AG_TblHash t k = Some h" if "k \<in> set (keys ?b')" for k
    using that ok h set_del_at_subset [of ?i "keys ?b"] by (auto simp: tbl_ok_def)
  have "AG_TblDelete t key = Some (0, ?t')"
    using h es i by (simp add: AG_TblDelete_def AG_TblDeleteHash_def rd_in Let_def)
  moreover note upd = tbl_ok_update [OF ok h(2) b' ks]
  moreover have "tbl_map ?t' = (tbl_map t)(key := None)"
  proof
    fix k
    have "bucket_map ?b' k = ((bucket_map ?b)(key := None)) k"
      using es i key map_of_zip_del_at [of "keys ?b" es ?i] by (simp add: bucket_map_def)
    then show "tbl_map ?t' k = ((tbl_map t)(key := None)) k"
      using upd(2) [of k] h by (auto simp: tbl_map_def)
  qed
  ultimately show ?thesis by blast
qed

lemma AG_TblDelete_missing:
  assumes ok: "tbl_ok t" and new: "tbl_map t key = None"
  shows "AG_TblDelete t key = Some (-1, t)"
proof -
  obtain h where h: "AG_TblHash t key = Some h" "h < length (buckets t)"
    using AG_TblHash_range [OF ok] by blast
  have "bucket_ok (buckets t ! h)" using ok h by (auto simp: tbl_ok_def)
  then have "bucket_index (buckets t ! h) key = nEnts (buckets t ! h)"
    using new h by (simp add: tbl_map_def bucket_map_index split: if_splits)
  then show ?thesis using h by (simp add: AG_TblDelete_def AG_TblDeleteHash_def rd_in Let_def)
qed

lemma AG_TblInit_ok:
  assumes "n \<noteq> 0" and "flags AND AG_TBL_DUPLICATES = 0"
  shows "\<exists>t :: 'v AG_Tbl. AG_TblInit True n flags = Some t \<and> tbl_ok t \<and> tbl_map t = Map.empty"
proof -
  let ?t = "\<lparr>tbl_flags = flags, buckets = replicate (unat n) empty_bucket, nBuckets = n\<rparr> :: 'v AG_Tbl"
  have ok: "tbl_ok ?t" using assms by (auto simp: tbl_ok_def empty_bucket_def bucket_ok_def)
  moreover have "tbl_map ?t k = None" for k
  proof -
    obtain h where "AG_TblHash ?t k = Some h" "h < length (buckets ?t)"
      using AG_TblHash_range [OF ok, of k] by blast
    then show ?thesis by (simp add: tbl_map_def empty_bucket_def bucket_map_def)
  qed
  ultimately show ?thesis by (auto simp: AG_TblInit_def fun_eq_iff)
qed

text \<open>
  When the second reallocation fails, the bucket keeps a dangling pointer: the next
  lookup of a key that was in the table is undefined.
\<close>

lemma AG_TblInsert_oom:
  assumes ok: "tbl_ok t" and new: "tbl_map t key = None"
    and old: "tbl_map t key' \<noteq> None" and same: "AG_TblHash t key' = AG_TblHash t key"
  shows "\<exists>t'. AG_TblInsert True False t key V = Some (-1, t') \<and> AG_TblLookup t' key' = None"
proof -
  obtain h where h: "AG_TblHash t key = Some h" "h < length (buckets t)"
    using AG_TblHash_range [OF ok] by blast
  let ?b = "buckets t ! h"
  have b: "bucket_ok ?b" using ok h by (auto simp: tbl_ok_def)
  have "bucket_index ?b key = nEnts ?b"
    using new h b by (simp add: tbl_map_def bucket_map_index split: if_splits)
  then have "AG_TblInsert True False t key V =
      Some (-1, t\<lparr>buckets := (buckets t)[h := ?b\<lparr>ents := None\<rparr>]\<rparr>)"
    using h b by (auto simp: AG_TblInsert_def AG_TblInsertHash_def rd_in Let_def bucket_ok_def)
  moreover have "bucket_index ?b key' \<noteq> nEnts ?b"
    using old h same b by (simp add: tbl_map_def bucket_map_index split: if_splits)
  ultimately show ?thesis
    using h same AG_TblHash_cong [of t "t\<lparr>buckets := (buckets t)[h := ?b\<lparr>ents := None\<rparr>]\<rparr>" key']
    by (simp add: AG_TblLookup_def AG_TblLookupHash_def rd_in bucket_index_def Let_def)
qed

section \<open>The interface of a dictionary\<close>

text \<open>
  What a client may rely on: lookups see the last successful change, an insertion of a
  key that is there and a deletion of one that is not are refused, and both keep the
  invariant.  \<open>ins\<close> and \<open>del\<close> return \<^const>\<open>None\<close> when they refuse.
\<close>

locale dictionary =
  fixes inv :: "'t \<Rightarrow> bool"
    and look :: "'t \<Rightarrow> 'k \<Rightarrow> 'v option"
    and ins :: "'t \<Rightarrow> 'k \<Rightarrow> 'v \<Rightarrow> 't option"
    and del :: "'t \<Rightarrow> 'k \<Rightarrow> 't option"
  assumes ins_new: "inv t \<Longrightarrow> look t k = None \<Longrightarrow>
        \<exists>t'. ins t k v = Some t' \<and> inv t' \<and> look t' = (look t)(k \<mapsto> v)"
    and ins_old: "inv t \<Longrightarrow> look t k \<noteq> None \<Longrightarrow> ins t k v = None"
    and del_old: "inv t \<Longrightarrow> look t k \<noteq> None \<Longrightarrow>
        \<exists>t'. del t k = Some t' \<and> inv t' \<and> look t' = (look t)(k := None)"
    and del_new: "inv t \<Longrightarrow> look t k = None \<Longrightarrow> del t k = None"
begin

lemma ins_Some: "inv t \<Longrightarrow> ins t k v = Some t' \<Longrightarrow>
    inv t' \<and> look t k = None \<and> look t' = (look t)(k \<mapsto> v)"
  by (metis ins_new ins_old option.distinct(1) option.inject)

lemma del_Some: "inv t \<Longrightarrow> del t k = Some t' \<Longrightarrow> inv t' \<and> look t' = (look t)(k := None)"
  by (metis del_new del_old option.distinct(1) option.inject)

lemma del_ins: "inv t \<Longrightarrow> ins t k v = Some t' \<Longrightarrow>
    \<exists>t''. del t' k = Some t'' \<and> inv t'' \<and> look t'' = look t"
proof -
  assume a: "inv t" "ins t k v = Some t'"
  then have t': "inv t'" "look t k = None" "look t' = (look t)(k \<mapsto> v)" using ins_Some by blast+
  then obtain t'' where "del t' k = Some t''" "inv t''" "look t'' = (look t')(k := None)"
    using del_old [of t' k] by auto
  moreover have "((look t)(k \<mapsto> v))(k := None) = look t" using t'(2) by (simp add: fun_upd_idem)
  ultimately show ?thesis using t'(3) by auto
qed

text \<open>Inserting a list of bindings stops at the first refusal.\<close>

fun ins_all :: "'t \<Rightarrow> ('k \<times> 'v) list \<Rightarrow> 't option" where
  "ins_all t [] = Some t"
| "ins_all t ((k, v) # xs) = (case ins t k v of None \<Rightarrow> None | Some t' \<Rightarrow> ins_all t' xs)"

lemma ins_all_fresh:
  assumes "inv t" and "distinct (map fst xs)" and "\<forall>k \<in> fst ` set xs. look t k = None"
  shows "\<exists>t'. ins_all t xs = Some t' \<and> inv t' \<and> look t' = look t ++ map_of xs"
  using assms
proof (induction xs arbitrary: t)
  case Nil
  then show ?case by simp
next
  case (Cons x xs)
  obtain k v where x: "x = (k, v)" by (cases x)
  from Cons.prems x obtain t1 where t1: "ins t k v = Some t1" "inv t1" "look t1 = (look t)(k \<mapsto> v)"
    using ins_new [of t k v] by auto
  have "\<forall>k' \<in> fst ` set xs. look t1 k' = None" using Cons.prems x t1 by auto
  moreover have "distinct (map fst xs)" using Cons.prems by simp
  ultimately obtain t' where "ins_all t1 xs = Some t'" "inv t'" "look t' = look t1 ++ map_of xs"
    using Cons.IH [OF t1(2)] by blast
  moreover have "(look t)(k \<mapsto> v) ++ map_of xs = look t ++ map_of ((k, v) # xs)"
  proof -
    have "map_of xs k = None" using Cons.prems(2) x by (simp add: map_of_eq_None_iff)
    then show ?thesis by (auto simp: fun_eq_iff map_add_def split: option.splits)
  qed
  ultimately have "look t' = look t ++ map_of (x # xs)" using t1 x by metis
  moreover have "ins_all t (x # xs) = Some t'" using \<open>ins_all t1 xs = Some t'\<close> t1 x by simp
  ultimately show ?case using \<open>inv t'\<close> by blast
qed

end

text \<open>The table provides the interface, as long as memory lasts.\<close>

definition tbl_ins :: "'v AG_Tbl \<Rightarrow> string \<Rightarrow> 'v \<Rightarrow> 'v AG_Tbl option" where
  "tbl_ins t k v = (case AG_TblInsert True True t k v of
     Some (rv, t') \<Rightarrow> if rv = 0 then Some t' else None | None \<Rightarrow> None)"

definition tbl_del :: "'v AG_Tbl \<Rightarrow> string \<Rightarrow> 'v AG_Tbl option" where
  "tbl_del t k = (case AG_TblDelete t k of
     Some (rv, t') \<Rightarrow> if rv = 0 then Some t' else None | None \<Rightarrow> None)"

interpretation tbl: dictionary tbl_ok tbl_map tbl_ins tbl_del
proof unfold_locales
  fix t :: "'a AG_Tbl" and k v
  assume ok: "tbl_ok t"
  show "tbl_map t k = None \<Longrightarrow> \<exists>t'. tbl_ins t k v = Some t' \<and> tbl_ok t' \<and> tbl_map t' = (tbl_map t)(k \<mapsto> v)"
    using AG_TblInsert_new [OF ok, of k v] by (auto simp: tbl_ins_def)
  show "tbl_map t k \<noteq> None \<Longrightarrow> tbl_ins t k v = None"
    using AG_TblInsert_existing [OF ok, of k] by (simp add: tbl_ins_def)
  show "tbl_map t k \<noteq> None \<Longrightarrow> \<exists>t'. tbl_del t k = Some t' \<and> tbl_ok t' \<and> tbl_map t' = (tbl_map t)(k := None)"
    using AG_TblDelete_existing [OF ok, of k] by (auto simp: tbl_del_def)
  show "tbl_map t k = None \<Longrightarrow> tbl_del t k = None"
    using AG_TblDelete_missing [OF ok, of k] by (simp add: tbl_del_def)
qed

section \<open>Properties\<close>

text \<open>Sequences of table operations, on the table and on the finite map it stands for.\<close>

datatype 'v tbl_op = Ins string 'v | Del string

fun tbl_step :: "'v AG_Tbl \<Rightarrow> 'v tbl_op \<Rightarrow> (int \<times> 'v AG_Tbl) option" where
  "tbl_step t (Ins k v) = AG_TblInsert True True t k v"
| "tbl_step t (Del k) = AG_TblDelete t k"

fun map_step :: "(string \<Rightarrow> 'v option) \<Rightarrow> 'v tbl_op \<Rightarrow> int \<times> (string \<Rightarrow> 'v option)" where
  "map_step m (Ins k v) = (if m k = None then (0, m(k \<mapsto> v)) else (-1, m))"
| "map_step m (Del k) = (if m k = None then (-1, m) else (0, m(k := None)))"

fun tbl_run :: "'v AG_Tbl \<Rightarrow> 'v tbl_op list \<Rightarrow> (int list \<times> 'v AG_Tbl) option" where
  "tbl_run t [] = Some ([], t)"
| "tbl_run t (x # xs) = do {
     (rv, t) \<leftarrow> tbl_step t x;
     (rvs, t) \<leftarrow> tbl_run t xs;
     Some (rv # rvs, t)
   }"

fun map_run :: "(string \<Rightarrow> 'v option) \<Rightarrow> 'v tbl_op list \<Rightarrow> int list \<times> (string \<Rightarrow> 'v option)" where
  "map_run m [] = ([], m)"
| "map_run m (x # xs) = (let (rv, m) = map_step m x; (rvs, m) = map_run m xs in (rv # rvs, m))"

lemma tbl_step_refines:
  assumes "tbl_ok t"
  shows "\<exists>t'. tbl_step t x = Some (fst (map_step (tbl_map t) x), t') \<and> tbl_ok t' \<and>
           tbl_map t' = snd (map_step (tbl_map t) x)"
proof (cases x)
  case (Ins k v)
  then show ?thesis
    using AG_TblInsert_new [OF assms, of k v] AG_TblInsert_existing [OF assms, of k True True v] assms
    by (cases "tbl_map t k = None") auto
next
  case (Del k)
  then show ?thesis
    using AG_TblDelete_existing [OF assms, of k] AG_TblDelete_missing [OF assms, of k] assms
    by (cases "tbl_map t k = None") auto
qed

lemma tbl_run_refines:
  assumes "tbl_ok t"
  shows "\<exists>t'. tbl_run t xs = Some (fst (map_run (tbl_map t) xs), t') \<and> tbl_ok t' \<and>
           tbl_map t' = snd (map_run (tbl_map t) xs)"
  using assms
proof (induction xs arbitrary: t)
  case Nil
  then show ?case by simp
next
  case (Cons x xs)
  obtain t1 where t1: "tbl_step t x = Some (fst (map_step (tbl_map t) x), t1)" "tbl_ok t1"
    "tbl_map t1 = snd (map_step (tbl_map t) x)" using tbl_step_refines [OF Cons.prems] by blast
  obtain t2 where "tbl_run t1 xs = Some (fst (map_run (tbl_map t1) xs), t2)" "tbl_ok t2"
    "tbl_map t2 = snd (map_run (tbl_map t1) xs)" using Cons.IH [OF t1(2)] by blast
  with t1 show ?case by (simp add: case_prod_unfold Let_def)
qed

text \<open>
  C1: a table with at least one bucket and without \<open>AG_TBL_DUPLICATES\<close> is a finite map:
  after any sequence of insertions and deletions every return code is the one the map
  gives, and \<open>AG_TblLookup\<close> and \<open>AG_TblExists\<close> answer what the map holds.  Memory is available
  (\<open>AG_TblInsert_failure_dangles\<close> is about an insertion without it).
\<close>

theorem AG_Tbl_refines_map:
  assumes "n \<noteq> 0" and "flags AND AG_TBL_DUPLICATES = 0"
  shows "\<exists>t0 t. AG_TblNew True True n flags = Some t0 \<and>
           tbl_run t0 xs = Some (fst (map_run Map.empty xs), t) \<and> tbl_ok t \<and>
           (\<forall>k. AG_TblLookup t k = Some (snd (map_run Map.empty xs) k) \<and>
                AG_TblExists t k = Some (if snd (map_run Map.empty xs) k = None then 0 else 1))"
proof -
  obtain t0 :: "'a AG_Tbl" where t0: "AG_TblInit True n flags = Some t0" "tbl_ok t0" "tbl_map t0 = Map.empty"
    using AG_TblInit_ok [OF assms] by blast
  obtain t where "tbl_run t0 xs = Some (fst (map_run Map.empty xs), t)" "tbl_ok t"
    "tbl_map t = snd (map_run Map.empty xs)" using tbl_run_refines [OF t0(2), of xs] t0(3) by auto
  then show ?thesis using t0 by (auto simp: AG_TblNew_def AG_TblLookup_spec AG_TblExists_spec)
qed

theorem AG_Tbl_refines_map_witness:
  "\<exists>t0 t. AG_TblNew True True 2 0 = Some t0 \<and>
     tbl_run t0 [Ins ''a'' (1::int), Ins ''c'' 2, Ins ''a'' 3, Del ''a'', Del ''b''] =
       Some ([0, 0, -1, 0, -1], t) \<and>
     AG_TblLookup t ''c'' = Some (Some 2) \<and> AG_TblExists t ''a'' = Some 0"
  using AG_Tbl_refines_map [of 2 0 "[Ins ''a'' (1::int), Ins ''c'' 2, Ins ''a'' 3, Del ''a'', Del ''b'']"]
  by (auto simp: Let_def)

text \<open>
  When the second reallocation of an insertion fails, the bucket keeps the address
  of the entry array that was just freed: the insertion reports its error, and the next
  lookup of a key of that bucket is undefined.
\<close>

theorem AG_TblInsert_failure_dangles:
  assumes "tbl_ok t" and "tbl_map t key = None"
    and "tbl_map t key' \<noteq> None" and "AG_TblHash t key' = AG_TblHash t key"
  shows "\<exists>t'. AG_TblInsert True False t key V = Some (-1, t') \<and> AG_TblLookup t' key' = None"
  using assms by (rule AG_TblInsert_oom)

theorem AG_TblInsert_failure_dangles_witness:
  "\<exists>t t1 t2. AG_TblNew True True 1 0 = Some t \<and>
     AG_TblInsert True True t ''a'' (1::int) = Some (0, t1) \<and>
     AG_TblInsert True False t1 ''b'' 2 = Some (-1, t2) \<and> AG_TblLookup t2 ''a'' = None"
proof -
  obtain t :: "int AG_Tbl" where t: "AG_TblInit True 1 0 = Some t" "tbl_ok t" "tbl_map t = Map.empty"
    using AG_TblInit_ok [of 1 0] by auto
  obtain t1 where t1: "AG_TblInsert True True t ''a'' 1 = Some (0, t1)" "tbl_ok t1"
    "tbl_map t1 = [''a'' \<mapsto> 1]" using AG_TblInsert_new [OF t(2), of "''a''" 1] t(3) by auto
  have "nBuckets t1 = 1" using t1(1) t(1)
    by (auto simp: AG_TblInit_def AG_TblInsert_def AG_TblInsertHash_def Let_def bind_eq_Some_conv split: if_splits)
  then have "AG_TblHash t1 ''a'' = AG_TblHash t1 ''b''" by (simp add: AG_TblHash_def)
  then show ?thesis
    using AG_TblInsert_failure_dangles [of t1 "''b''" "''a''" 2] t t1 by (auto simp: AG_TblNew_def)
qed

end
