(* ===== verification/ClassTbl.thy ===== *)
theory ClassTbl
  imports CaseStr Tbl
begin

text \<open>
  The class registry of core/class.c and core/class.h: parsing of class specifications
  such as \<open>Agar(Object:Foo)@lib\<close>, namespaces, module directories, registration in the
  class tree and in the class table, lookup, loading of a class from a shared object, and
  the comparison of a class with a pattern.

  Strings are HOL strings without NUL; every fixed-size field is filled through
  \<^const>\<open>str_cpy\<close> and \<^const>\<open>str_cat\<close>, which \<open>CStr\<close> shows to be what \<open>AG_Strlcpy\<close> and
  \<open>AG_Strlcat\<close> leave in the buffer.  A class structure is known by its address, a natural
  number.  The list of the direct subclasses of a class is the list its TAILQ holds.  The
  locks are not modelled: every operation holds the class lock throughout.  The outer
  \<^const>\<open>None\<close> is undefined behaviour or a call of \<open>AG_FatalError\<close>, which does not return.
\<close>

abbreviation AG_OBJECT_HIER_MAX :: nat where "AG_OBJECT_HIER_MAX \<equiv> 256"
abbreviation AG_OBJECT_TYPE_MAX :: nat where "AG_OBJECT_TYPE_MAX \<equiv> 48"
abbreviation AG_OBJECT_NAME_MAX :: nat where "AG_OBJECT_NAME_MAX \<equiv> 128"
abbreviation AG_OBJECT_LIBS_MAX :: nat where "AG_OBJECT_LIBS_MAX \<equiv> 128"

section \<open>Data\<close>

record AG_ObjectClassSpec =
  cs_hier :: string
  cs_libs :: string
  cs_spec :: string
  cs_name :: string

record AG_Namespace =
  ns_name :: string
  ns_pfx :: string
  ns_url :: string

record AG_ObjectClass =
  cl_hier :: string
  cl_name :: string
  cl_libs :: string
  cl_sub :: "nat list"
  cl_super :: "nat option"

text \<open>The global variables of class.c, and the class structures by address.\<close>

record class_reg =
  agClassTbl :: "nat AG_Tbl"
  agClassTree :: nat
  agNamespaceTbl :: "AG_Namespace list"
  agModuleDirs :: "string list"
  cl_mem :: "nat \<Rightarrow> AG_ObjectClass"

text \<open>The address of the root class.\<close>

definition agObjectClass :: nat where
  "agObjectClass = 0"

section \<open>Namespaces and module directories\<close>

definition AG_GetNamespace :: "AG_Namespace list \<Rightarrow> string \<Rightarrow> AG_Namespace option" where
  "AG_GetNamespace nss name =
     (let i = first_idx (\<lambda>n. ns_name n = name) nss
      in if i < length nss then Some (nss ! i) else None)"

definition AG_RegisterNamespace ::
  "AG_Namespace list \<Rightarrow> string \<Rightarrow> string \<Rightarrow> string \<Rightarrow> AG_Namespace list" where
  "AG_RegisterNamespace nss name pfx url = nss @ [\<lparr>ns_name = name, ns_pfx = pfx, ns_url = url\<rparr>]"

definition AG_UnregisterNamespace :: "AG_Namespace list \<Rightarrow> string \<Rightarrow> AG_Namespace list" where
  "AG_UnregisterNamespace nss name =
     (let i = first_idx (\<lambda>n. ns_name n = name) nss
      in if i < length nss then del_at i nss else nss)"

text \<open>
  \<open>AG_PATHSEPCHAR\<close> is a slash.  The last character of the path is read even when the path
  is empty, which is out of bounds.
\<close>

definition AG_RegisterModuleDirectory :: "string list \<Rightarrow> string \<Rightarrow> string list option" where
  "AG_RegisterModuleDirectory dirs path =
     (if path = [] then None
      else Some (dirs @ [if last path = CHR ''/'' then butlast path else path]))"

definition AG_UnregisterModuleDirectory :: "string list \<Rightarrow> string \<Rightarrow> string list" where
  "AG_UnregisterModuleDirectory dirs path =
     (let i = first_idx (\<lambda>d. d = path) dirs
      in if i < length dirs then del_at i dirs else dirs)"

section \<open>AG_ParseClassSpec\<close>

text \<open>
  The variables of the loop.  \<open>ps_hier\<close> is what \<open>cs->hier\<close> holds and \<open>ps_i\<close> the offset of
  the next append; \<open>ps_ns\<close> is what was written from the start of \<open>nsName\<close> to \<open>pNsName\<close> and
  \<open>ps_ns0\<close> tells whether \<open>nsName[0]\<close> is NUL; \<open>ps_open\<close> is \<^const>\<open>None\<close> while \<open>pOpen\<close> is NULL and
  otherwise the characters between \<open>pOpen\<close> and the current one.
\<close>

record parse_state =
  ps_hier :: string
  ps_i :: nat
  ps_libs :: string
  ps_ns :: string
  ps_ns0 :: bool
  ps_open :: "string option"

text \<open>
  \<open>i += Strlcpy(&cs->hier[i], s, sizeof(cs->hier)-i)\<close>.  The offset grows by the whole
  length; past the end of the array the size wraps around and the copy overflows.
\<close>

definition hier_put :: "string \<Rightarrow> string \<times> nat \<Rightarrow> (string \<times> nat) option" where
  "hier_put s hi = (case hi of (h, i) \<Rightarrow>
     if i > AG_OBJECT_HIER_MAX then None
     else Some (h @ str_cpy (AG_OBJECT_HIER_MAX - i) s, i + length s))"

fun put_classes :: "string \<Rightarrow> string list \<Rightarrow> string \<times> nat \<Rightarrow> (string \<times> nat) option" where
  "put_classes pfx [] hi = Some hi"
| "put_classes pfx (tok # toks) hi = do {
     hi \<leftarrow> hier_put pfx hi;
     hi \<leftarrow> hier_put tok hi;
     hi \<leftarrow> hier_put '':'' hi;
     put_classes pfx toks hi
   }"

text \<open>The part of the body that runs while \<open>pOpen\<close> is NULL; \<open>rest\<close> is the text after \<open>c\<close>.\<close>

definition outside_paren :: "char \<Rightarrow> string \<Rightarrow> parse_state \<Rightarrow> parse_state" where
  "outside_paren c rest st =
     (let st = (if c \<noteq> CHR '':'' then st\<lparr>ps_ns := ps_ns st @ [c], ps_ns0 := False\<rparr> else st)
      in if c = CHR ''@'' \<and> rest \<noteq> [] then st\<lparr>ps_libs := str_cpy AG_OBJECT_LIBS_MAX rest\<rparr> else st)"

text \<open>
  A closing parenthesis.  \<open>Some None\<close> is the return of -1.  With \<open>pOpen\<close> NULL the copy
  into \<open>buf\<close> reads through the null pointer.
\<close>

definition close_paren :: "AG_Namespace list \<Rightarrow> parse_state \<Rightarrow> parse_state option option" where
  "close_paren nss st =
     (if ps_open st = Some [] then Some (Some (st\<lparr>ps_open := None\<rparr>))
      else
        let name = ps_ns st;
            st = st\<lparr>ps_ns := [], ps_ns0 := (ps_ns0 st \<or> name = [])\<rparr>
        in case AG_GetNamespace nss name of
             None \<Rightarrow> Some None
           | Some ns \<Rightarrow> do {
               inner \<leftarrow> ps_open st;
               toks \<leftarrow> tokens '':'' (take (AG_OBJECT_HIER_MAX - 1) inner);
               (h, i) \<leftarrow> put_classes (ns_pfx ns) toks (ps_hier st, ps_i st);
               Some (Some (st\<lparr>ps_hier := h, ps_i := i, ps_open := None\<rparr>))
             })"

fun parse_loop :: "AG_Namespace list \<Rightarrow> string \<Rightarrow> parse_state \<Rightarrow> parse_state option option" where
  "parse_loop nss [] st = Some (Some st)"
| "parse_loop nss (c # rest) st =
     (if c = CHR ''('' \<and> rest \<noteq> [] then
        (if ps_open st \<noteq> None \<or> ps_ns0 st then Some None
         else parse_loop nss rest (st\<lparr>ps_open := Some []\<rparr>))
      else
        let st = (if ps_open st = None then outside_paren c rest st else st)
        in if c = CHR '')'' then
             (case close_paren nss st of
                None \<Rightarrow> None
              | Some None \<Rightarrow> Some None
              | Some (Some st) \<Rightarrow> parse_loop nss rest st)
           else parse_loop nss rest (st\<lparr>ps_open := map_option (\<lambda>a. a @ [c]) (ps_open st)\<rparr>))"

definition parse_init :: parse_state where
  "parse_init = \<lparr>ps_hier = [], ps_i = 0, ps_libs = [], ps_ns = [], ps_ns0 = True, ps_open = None\<rparr>"

text \<open>
  \<open>strrchr(hier, ':')\<close> with a character after it: the class name is what follows,
  otherwise the whole hierarchy.
\<close>

definition hier_name :: "string \<Rightarrow> string" where
  "hier_name h = (case strrchr h (CHR '':'') of
     Some k \<Rightarrow> if Suc k < length h then drop (Suc k) h else h
   | None \<Rightarrow> h)"

text \<open>
  The three final steps.  \<open>cs->hier[i]\<close> is written when \<open>i > 0\<close> and the last character is not a
  colon; \<open>i \<ge> 256\<close> means that the appends have run over the end of the array.
\<close>

definition AG_ParseClassSpec :: "AG_Namespace list \<Rightarrow> string \<Rightarrow> AG_ObjectClassSpec option option" where
  "AG_ParseClassSpec nss spec =
     (if length spec \<ge> AG_OBJECT_HIER_MAX then Some None
      else (case parse_loop nss spec parse_init of
          None \<Rightarrow> None
        | Some None \<Rightarrow> Some None
        | Some (Some st) \<Rightarrow> do {
            h \<leftarrow> (if ps_i st = 0 then Some (str_cpy AG_OBJECT_HIER_MAX spec)
                  else if ps_i st \<ge> AG_OBJECT_HIER_MAX then None
                  else if ps_hier st ! (ps_i st - 1) = CHR '':'' then Some (take (ps_i st - 1) (ps_hier st))
                  else Some (ps_hier st));
            let h = cut_last CHR ''@'' h;
            let name = cut_last CHR ''@'' (str_cpy AG_OBJECT_NAME_MAX (hier_name h));
            let spec = str_cpy AG_OBJECT_HIER_MAX h;
            let spec = (if ps_libs st \<noteq> [] then str_cat AG_OBJECT_HIER_MAX spec (ps_libs st) else spec);
            Some (Some \<lparr>cs_hier = h, cs_libs = ps_libs st, cs_spec = spec, cs_name = name\<rparr>)
          }))"

section \<open>The registry\<close>

text \<open>\<open>InitClass\<close> reads \<open>hier\<close> again for the name, which it truncates to its own field.\<close>

definition InitClass :: "AG_ObjectClass \<Rightarrow> string \<Rightarrow> string \<Rightarrow> AG_ObjectClass" where
  "InitClass cl hier libs = cl\<lparr>
     cl_hier := str_cpy AG_OBJECT_HIER_MAX hier,
     cl_libs := str_cpy AG_OBJECT_LIBS_MAX libs,
     cl_name := str_cpy AG_OBJECT_TYPE_MAX (hier_name hier),
     cl_sub := []\<rparr>"

definition AG_InitClassTbl :: "(nat \<Rightarrow> AG_ObjectClass) \<Rightarrow> class_reg option" where
  "AG_InitClassTbl mem = do {
     let nss = AG_RegisterNamespace [] ''Agar'' ''AG_'' ''http://libagar.org/'';
     let mem = mem(agObjectClass := InitClass (mem agObjectClass) ''AG_Object'' '''');
     t \<leftarrow> AG_TblNew True True 256 0;
     (rv, t) \<leftarrow> AG_TblInsert True True t ''AG_Object'' agObjectClass;
     if rv = -1 then None
     else Some \<lparr>agClassTbl = t, agClassTree = agObjectClass, agNamespaceTbl = nss,
                agModuleDirs = [], cl_mem = mem\<rparr>
   }"

definition AG_LookupClass :: "class_reg \<Rightarrow> string \<Rightarrow> nat option option" where
  "AG_LookupClass R inSpec =
     (if inSpec = [] \<or> inSpec = ''Agar(Object)'' \<or> inSpec = ''AG_Object'' then Some (Some (agClassTree R))
      else (case AG_ParseClassSpec (agNamespaceTbl R) inSpec of
          None \<Rightarrow> None
        | Some None \<Rightarrow> Some None
        | Some (Some cs) \<Rightarrow> AG_TblLookup (agClassTbl R) (cs_hier cs)))"

text \<open>\<open>TAILQ_INSERT_TAIL\<close> and \<open>TAILQ_REMOVE\<close> on the list of subclasses of \<open>par\<close>.\<close>

definition sub_add :: "nat \<Rightarrow> nat \<Rightarrow> (nat \<Rightarrow> AG_ObjectClass) \<Rightarrow> nat \<Rightarrow> AG_ObjectClass" where
  "sub_add par c mem = mem(par := (mem par)\<lparr>cl_sub := cl_sub (mem par) @ [c]\<rparr>)"

definition sub_remove :: "nat \<Rightarrow> nat \<Rightarrow> (nat \<Rightarrow> AG_ObjectClass) \<Rightarrow> nat \<Rightarrow> AG_ObjectClass" where
  "sub_remove par c mem = mem(par := (mem par)\<lparr>cl_sub := remove1 c (cl_sub (mem par))\<rparr>)"

definition AG_RegisterClass :: "class_reg \<Rightarrow> nat \<Rightarrow> class_reg option" where
  "AG_RegisterClass R c = do {
     r \<leftarrow> AG_ParseClassSpec (agNamespaceTbl R) (cl_hier (cl_mem R c));
     cs \<leftarrow> r;
     let mem = (cl_mem R)(c := InitClass (cl_mem R c) (cs_hier cs) (cs_libs cs));
     par \<leftarrow> (case strrchr (cs_hier cs) CHR '':'' of
               None \<Rightarrow> Some (agClassTree R)
             | Some k \<Rightarrow> do { s \<leftarrow> AG_LookupClass R (take k (cs_hier cs)); s });
     let mem = mem(c := (mem c)\<lparr>cl_super := Some par\<rparr>);
     let mem = sub_add par c mem;
     (rv, t) \<leftarrow> AG_TblInsert True True (agClassTbl R) (cl_hier (mem c)) c;
     if rv = -1 then None else Some (R\<lparr>cl_mem := mem, agClassTbl := t\<rparr>)
   }"

definition AG_UnregisterClass :: "class_reg \<Rightarrow> nat \<Rightarrow> class_reg option" where
  "AG_UnregisterClass R c = do {
     h \<leftarrow> AG_TblHash (agClassTbl R) (cl_hier (cl_mem R c));
     e \<leftarrow> AG_TblExistsHash (agClassTbl R) h (cl_hier (cl_mem R c));
     if e \<noteq> 0 then do {
       par \<leftarrow> cl_super (cl_mem R c);
       let mem = sub_remove par c (cl_mem R);
       let mem = mem(c := (mem c)\<lparr>cl_super := None\<rparr>);
       (rv, t) \<leftarrow> AG_TblDeleteHash (agClassTbl R) h (cl_hier (mem c));
       Some (R\<lparr>cl_mem := mem, agClassTbl := t\<rparr>)
     } else Some R
   }"

section \<open>Loading a class\<close>

text \<open>The loop of \<open>GetClassSymbol\<close>: \<open>buf\<close> is what was written, of length \<open>l\<close>.\<close>

fun class_symbol_loop :: "nat \<Rightarrow> string \<Rightarrow> bool \<Rightarrow> string \<Rightarrow> string option" where
  "class_symbol_loop len [] inPfx buf = Some buf"
| "class_symbol_loop len (c # s) inPfx buf =
     (if c = CHR ''_'' then class_symbol_loop len s False buf
      else if length buf + 2 \<ge> len then None
      else class_symbol_loop len s inPfx (buf @ [if inPfx then tolower c else c]))"

definition GetClassSymbol :: "nat \<Rightarrow> AG_ObjectClassSpec \<Rightarrow> string option" where
  "GetClassSymbol len cs = do {
     buf \<leftarrow> class_symbol_loop len (cs_name cs) True [];
     if length buf + length ''Class'' \<ge> len then None else Some (str_cat len buf ''Class'')
   }"

text \<open>
  The dynamic loader is not part of this code: \<open>load\<close>, \<open>symb\<close> and \<open>unload\<close> are
  \<open>AG_LoadDSO\<close>, \<open>AG_SymDSO\<close> and \<open>AG_UnloadDSO\<close> over a loader state \<open>'x\<close>.  The loop returns
  the loader state, \<open>pClass\<close>, and whether it went to \<open>fail\<close>.
\<close>

fun load_libs ::
  "('x \<Rightarrow> string \<Rightarrow> 'd option \<times> 'x) \<Rightarrow> ('x \<Rightarrow> 'd \<Rightarrow> string \<Rightarrow> nat option) \<Rightarrow> ('x \<Rightarrow> 'd \<Rightarrow> 'x) \<Rightarrow>
   AG_ObjectClassSpec \<Rightarrow> string list \<Rightarrow> nat \<Rightarrow> 'x \<Rightarrow> nat option \<Rightarrow> 'x \<times> nat option \<times> bool" where
  "load_libs load symb unload cs [] i x pClass = (x, pClass, False)"
| "load_libs load symb unload cs (lib # libs) i x pClass =
     (case load x lib of
        (None, x) \<Rightarrow> (x, pClass, True)
      | (Some dso, x) \<Rightarrow>
          if i = 0 then
            (case GetClassSymbol AG_OBJECT_HIER_MAX cs of
               None \<Rightarrow> (x, pClass, True)
             | Some buf \<Rightarrow>
                 (case symb x dso buf of
                    None \<Rightarrow> (unload x dso, pClass, True)
                  | Some p \<Rightarrow> load_libs load symb unload cs libs (Suc i) x (Some p)))
          else load_libs load symb unload cs libs (Suc i) x pClass)"

text \<open>The result: the class returned (NULL is \<open>None\<close>), the registry and the loader.\<close>

definition AG_LoadClass ::
  "('x \<Rightarrow> string \<Rightarrow> 'd option \<times> 'x) \<Rightarrow> ('x \<Rightarrow> 'd \<Rightarrow> string \<Rightarrow> nat option) \<Rightarrow> ('x \<Rightarrow> 'd \<Rightarrow> 'x) \<Rightarrow>
   class_reg \<Rightarrow> 'x \<Rightarrow> string \<Rightarrow> (nat option \<times> class_reg \<times> 'x) option" where
  "AG_LoadClass load symb unload R x classSpec = do {
     r \<leftarrow> AG_ParseClassSpec (agNamespaceTbl R) classSpec;
     (case r of
        None \<Rightarrow> Some (None, R, x)
      | Some cs \<Rightarrow> do {
          cl \<leftarrow> AG_LookupClass R (cs_hier cs);
          if cl \<noteq> None then Some (cl, R, x)
          else if cs_libs cs = [] then Some (None, R, x)
          else do {
            libs \<leftarrow> tokens '', '' (cs_libs cs);
            (case load_libs load symb unload cs libs 0 x None of
               (x, pClass, True) \<Rightarrow> Some (pClass, R, x)
             | (x, None, False) \<Rightarrow> Some (None, R, x)
             | (x, Some p, False) \<Rightarrow> do { R \<leftarrow> AG_RegisterClass R p; Some (Some p, R, x) })
          }
        })
   }"

text \<open>
  \<open>lookup_dso\<close> is the search of the list of loaded objects, \<open>AG_LookupDSO\<close>.  \<open>Strsep\<close> cuts
  \<open>cl->libs\<close> in place: its first token is left there.
\<close>

fun unload_libs :: "('x \<Rightarrow> string \<Rightarrow> 'd option) \<Rightarrow> ('x \<Rightarrow> 'd \<Rightarrow> 'x) \<Rightarrow> string list \<Rightarrow> 'x \<Rightarrow> 'x" where
  "unload_libs lookup_dso unload [] x = x"
| "unload_libs lookup_dso unload (lib # libs) x =
     unload_libs lookup_dso unload libs
       (case lookup_dso x lib of None \<Rightarrow> x | Some dso \<Rightarrow> unload x dso)"

definition AG_UnloadClass ::
  "('x \<Rightarrow> string \<Rightarrow> 'd option) \<Rightarrow> ('x \<Rightarrow> 'd \<Rightarrow> 'x) \<Rightarrow> class_reg \<Rightarrow> 'x \<Rightarrow> nat \<Rightarrow> (class_reg \<times> 'x) option" where
  "AG_UnloadClass lookup_dso unload R x c = do {
     R \<leftarrow> AG_UnregisterClass R c;
     libs \<leftarrow> tokens '', '' (cl_libs (cl_mem R c));
     let mem = (cl_mem R)(c := (cl_mem R c)\<lparr>cl_libs := hd libs\<rparr>);
     Some (R\<lparr>cl_mem := mem\<rparr>, unload_libs lookup_dso unload libs x)
   }"

section \<open>Comparing a class with a pattern\<close>

text \<open>The loop over the two token lists: \<open>zip\<close> stops with the shorter one.\<close>

definition AG_ClassIsNamedGeneral :: "AG_ObjectClass \<Rightarrow> string \<Rightarrow> int option" where
  "AG_ClassIsNamedGeneral cl cn = do {
     cs \<leftarrow> tokens '':'' (str_cpy AG_OBJECT_HIER_MAX cn);
     ss \<leftarrow> tokens '':'' (str_cpy AG_OBJECT_HIER_MAX (cl_hier cl));
     Some (if list_all (\<lambda>(c, s). c = ''*'' \<or> c = s) (zip cs ss) then 1 else 0)
   }"

text \<open>The search for a final \<open>:*\<close>; \<open>k\<close> is the offset of \<open>c\<close> in \<open>pat\<close>.\<close>

fun suffix_wild_loop :: "string \<Rightarrow> string \<Rightarrow> nat \<Rightarrow> string \<Rightarrow> bool" where
  "suffix_wild_loop hier pat k [] = False"
| "suffix_wild_loop hier pat k (c # rest) =
     (if c # rest = '':*'' then
        (if k = 0 then True
         else if take k hier = take k pat \<and> (length hier \<le> k \<or> hier ! k = CHR '':'') then True
         else suffix_wild_loop hier pat (Suc k) rest)
      else suffix_wild_loop hier pat (Suc k) rest)"

definition AG_ClassIsNamed :: "AG_ObjectClass \<Rightarrow> string \<Rightarrow> int option" where
  "AG_ClassIsNamed cl pat =
     (let nwild = length (filter (\<lambda>c. c = CHR ''*'') pat)
      in if nwild = 0 then Some (if cl_hier cl = pat then 1 else 0)
         else if nwild = 1 then
           (if last pat = CHR ''*'' then Some (if suffix_wild_loop (cl_hier cl) pat 0 pat then 1 else 0)
            else if hd pat = CHR ''*'' then Some 1
            else AG_ClassIsNamedGeneral cl pat)
         else AG_ClassIsNamedGeneral cl pat)"

text \<open>
  \<open>AG_ObjectGetInheritHier\<close>: the class of every prefix of the hierarchy that ends
  before a colon, and of the whole of it; \<open>done\<close> is the part before \<open>c\<close>.
\<close>

fun inherit_loop :: "class_reg \<Rightarrow> string \<Rightarrow> string \<Rightarrow> nat list option option" where
  "inherit_loop R pre [] = do {
     cl \<leftarrow> AG_LookupClass R pre;
     Some (map_option (\<lambda>c. [c]) cl)
   }"
| "inherit_loop R pre (c # rest) =
     (if c = CHR '':'' then do {
        cl \<leftarrow> AG_LookupClass R pre;
        (case cl of
           None \<Rightarrow> Some None
         | Some k \<Rightarrow> do { ks \<leftarrow> inherit_loop R (pre @ [c]) rest; Some (map_option ((#) k) ks) })
      } else inherit_loop R (pre @ [c]) rest)"

definition AG_ObjectGetInheritHier :: "class_reg \<Rightarrow> string \<Rightarrow> nat list option option" where
  "AG_ObjectGetInheritHier R hier =
     (if hier = [] then Some (Some []) else inherit_loop R [] (str_cpy AG_OBJECT_HIER_MAX hier))"

section \<open>What the parser computes\<close>

text \<open>Characters with a meaning of their own in a specification.\<close>

definition plain :: "string \<Rightarrow> bool" where
  "plain s \<longleftrightarrow> nonul s \<and> CHR ''('' \<notin> set s \<and> CHR '')'' \<notin> set s \<and> CHR ''@'' \<notin> set s"

definition plain_name :: "string \<Rightarrow> bool" where
  "plain_name s \<longleftrightarrow> plain s \<and> CHR '':'' \<notin> set s \<and> s \<noteq> []"

lemma plain_simps [simp]:
  "plain []"
  "plain (c # s) \<longleftrightarrow> c \<noteq> NUL \<and> c \<noteq> CHR ''('' \<and> c \<noteq> CHR '')'' \<and> c \<noteq> CHR ''@'' \<and> plain s"
  "plain (s @ t) \<longleftrightarrow> plain s \<and> plain t"
  by (auto simp: plain_def)

lemma plain_take [intro]: "plain s \<Longrightarrow> plain (take n s)"
  by (auto simp: plain_def dest: in_set_takeD)

fun join_colon :: "string list \<Rightarrow> string" where
  "join_colon [] = []"
| "join_colon [s] = s"
| "join_colon (s # t # ss) = s @ CHR '':'' # join_colon (t # ss)"

lemma join_colon_terms: "ss \<noteq> [] \<Longrightarrow> concat (map (\<lambda>s. s @ '':'') ss) = join_colon ss @ '':''"
  by (induction ss rule: join_colon.induct) auto

lemma split_join: "ss \<noteq> [] \<Longrightarrow> \<forall>s \<in> set ss. CHR '':'' \<notin> set s \<Longrightarrow> split_on {CHR '':''} (join_colon ss) = ss"
  by (induction ss rule: join_colon.induct) (auto simp: split_on_token split_on_delim)

lemma join_colon_last:
  "ss \<noteq> [] \<Longrightarrow> \<exists>p. join_colon ss = p @ last ss \<and> (p = [] \<or> (\<exists>q. p = q @ '':''))"
proof (induction ss rule: join_colon.induct)
  case (3 s t ss)
  then obtain p where p: "join_colon (t # ss) = p @ last (t # ss)" "p = [] \<or> (\<exists>q. p = q @ '':'')" by auto
  show ?case
  proof (cases "p = []")
    case True
    then show ?thesis using p by (intro exI [of _ "s @ '':''"]) simp
  next
    case False
    with p obtain q where "p = q @ '':''" by auto
    then show ?thesis using p by (intro exI [of _ "s @ CHR '':'' # p"]) simp
  qed
qed simp_all

lemma hier_name_last:
  assumes "ss \<noteq> []" and "CHR '':'' \<notin> set (last ss)" and "last ss \<noteq> []"
  shows "hier_name (join_colon ss) = last ss"
proof -
  obtain p where p: "join_colon ss = p @ last ss" "p = [] \<or> (\<exists>q. p = q @ '':'')"
    using join_colon_last [OF assms(1)] by blast
  from p(2) show ?thesis
  proof
    assume "p = []"
    then show ?thesis using p assms by (simp add: hier_name_def)
  next
    assume "\<exists>q. p = q @ '':''"
    then obtain q where "join_colon ss = q @ CHR '':'' # last ss" using p by auto
    then show ?thesis using assms by (simp add: hier_name_def strrchr_append)
  qed
qed

lemma ps_open_same: "ps_open st = x \<Longrightarrow> ps_open_update (\<lambda>_. x) st = st"
  by (cases st) simp

lemma parse_outside:
  assumes "plain u" and "ps_open st = None"
  shows "parse_loop nss (u @ rest) st =
     parse_loop nss rest (st\<lparr>ps_ns := ps_ns st @ filter (\<lambda>c. c \<noteq> CHR '':'') u,
                            ps_ns0 := (ps_ns0 st \<and> filter (\<lambda>c. c \<noteq> CHR '':'') u = [])\<rparr>)"
  using assms
proof (induction u arbitrary: st)
  case Nil
  then show ?case by simp
next
  case (Cons c u)
  then show ?case
    by (cases "c = CHR '':''") (simp_all add: outside_paren_def Let_def ps_open_same)
qed

lemma parse_inside:
  assumes "CHR ''('' \<notin> set u" and "CHR '')'' \<notin> set u" and "ps_open st = Some a"
  shows "parse_loop nss (u @ rest) st = parse_loop nss rest (st\<lparr>ps_open := Some (a @ u)\<rparr>)"
  using assms
proof (induction u arbitrary: st a)
  case Nil
  then show ?case by (simp add: ps_open_same)
next
  case (Cons c u)
  have "c \<noteq> CHR ''(''" "c \<noteq> CHR '')''" using Cons.prems by auto
  then show ?case
    using Cons.prems Cons.IH [of "st\<lparr>ps_open := Some (a @ [c])\<rparr>" "a @ [c]"] by simp
qed

lemma str_cpy_fits [simp]: "length s < n \<Longrightarrow> str_cpy n s = s"
  by (simp add: str_cpy_def)

definition terms :: "string \<Rightarrow> string list \<Rightarrow> string" where
  "terms pfx toks = concat (map (\<lambda>t. pfx @ t @ '':'') toks)"

lemma hier_put_fits: "i + length s < 256 \<Longrightarrow> hier_put s (h, i) = Some (h @ s, i + length s)"
  by (simp add: hier_put_def)

lemma put_classes_spec:
  "i + length (terms pfx toks) < 256 \<Longrightarrow>
   put_classes pfx toks (h, i) = Some (h @ terms pfx toks, i + length (terms pfx toks))"
  by (induction toks arbitrary: h i) (simp_all add: terms_def hier_put_fits add.assoc)

text \<open>One group \<open>Namespace(Class1:Class2)\<close>.\<close>

definition group_text :: "string \<times> string list \<Rightarrow> string" where
  "group_text g = fst g @ CHR ''('' # join_colon (snd g) @ '')''"

definition group_ok :: "AG_Namespace list \<Rightarrow> string \<times> string list \<Rightarrow> bool" where
  "group_ok nss g \<longleftrightarrow> plain_name (fst g) \<and> snd g \<noteq> [] \<and> (\<forall>t \<in> set (snd g). plain_name t) \<and>
     AG_GetNamespace nss (fst g) \<noteq> None"

definition group_pfx :: "AG_Namespace list \<Rightarrow> string \<times> string list \<Rightarrow> string" where
  "group_pfx nss g = ns_pfx (the (AG_GetNamespace nss (fst g)))"

lemma plain_join: "\<forall>t \<in> set ss. plain_name t \<Longrightarrow> plain (join_colon ss)"
  by (induction ss rule: join_colon.induct) (auto simp: plain_name_def)

lemma join_colon_Nil_iff: "\<forall>t \<in> set ss. t \<noteq> [] \<Longrightarrow> join_colon ss = [] \<longleftrightarrow> ss = []"
  by (induction ss rule: join_colon.induct) auto

lemma parse_group:
  assumes g: "group_ok nss g" and st: "ps_open st = None" "ps_ns st = []"
    and i: "ps_i st + length (terms (group_pfx nss g) (snd g)) < 256"
    and len: "length (join_colon (snd g)) < 256"
  shows "\<exists>z. parse_loop nss (group_text g @ rest) st =
     parse_loop nss rest (st\<lparr>ps_hier := ps_hier st @ terms (group_pfx nss g) (snd g),
        ps_i := ps_i st + length (terms (group_pfx nss g) (snd g)), ps_ns := [], ps_ns0 := z, ps_open := None\<rparr>)"
proof -
  obtain name toks where gg: "g = (name, toks)" by (cases g)
  obtain ns where ns: "AG_GetNamespace nss name = Some ns" using g gg by (auto simp: group_ok_def)
  let ?J = "join_colon toks"
  have name: "plain name" "CHR '':'' \<notin> set name" "name \<noteq> []" using g gg by (auto simp: group_ok_def plain_name_def)
  have J: "plain ?J" "?J \<noteq> []"
    using g gg plain_join [of toks] join_colon_Nil_iff [of toks] by (auto simp: group_ok_def plain_name_def)
  have fname: "filter (\<lambda>c. c \<noteq> CHR '':'') name = name" using name by (auto intro: filter_True)
  let ?st = "st\<lparr>ps_ns := name, ps_ns0 := False\<rparr>"
  have 1: "parse_loop nss (group_text g @ rest) st = parse_loop nss (CHR ''('' # ?J @ '')'' @ rest) ?st"
    using parse_outside [of name st nss "CHR ''('' # ?J @ '')'' @ rest"] name st fname
    by (simp add: group_text_def gg)
  have 2: "parse_loop nss (CHR ''('' # ?J @ '')'' @ rest) ?st =
     parse_loop nss (?J @ '')'' @ rest) (?st\<lparr>ps_open := Some []\<rparr>)" using st by simp
  have 3: "parse_loop nss (?J @ '')'' @ rest) (?st\<lparr>ps_open := Some []\<rparr>) =
     parse_loop nss ('')'' @ rest) (?st\<lparr>ps_open := Some ?J\<rparr>)"
    using parse_inside [of ?J "?st\<lparr>ps_open := Some []\<rparr>" "[]" nss "'')'' @ rest"] J by (simp add: plain_def)
  have toks: "tokens '':'' (take 255 ?J) = Some toks"
    using len gg g J tokens_eq [of "'':''" ?J] split_join [of toks]
    by (simp add: group_ok_def plain_name_def plain_def)
  have 4: "close_paren nss (?st\<lparr>ps_open := Some ?J\<rparr>) = Some (Some (st\<lparr>
        ps_hier := ps_hier st @ terms (ns_pfx ns) toks, ps_i := ps_i st + length (terms (ns_pfx ns) toks),
        ps_ns := [], ps_ns0 := False, ps_open := None\<rparr>))"
    using J ns toks name i gg put_classes_spec [of "ps_i st" "ns_pfx ns" toks "ps_hier st"]
    by (simp add: close_paren_def Let_def group_pfx_def)
  show ?thesis
    unfolding 1 2 3 using 4 ns gg by (intro exI [of _ False]) (simp add: group_pfx_def)
qed

text \<open>A whole specification: groups, and the libraries after an at sign.\<close>

definition spec_text :: "(string \<times> string list) list \<Rightarrow> string \<Rightarrow> string" where
  "spec_text gs libs = concat (map group_text gs) @ (if libs = [] then [] else CHR ''@'' # libs)"

definition spec_classes :: "AG_Namespace list \<Rightarrow> (string \<times> string list) list \<Rightarrow> string list" where
  "spec_classes nss gs = concat (map (\<lambda>g. map (\<lambda>t. group_pfx nss g @ t) (snd g)) gs)"

definition all_terms :: "AG_Namespace list \<Rightarrow> (string \<times> string list) list \<Rightarrow> string" where
  "all_terms nss gs = concat (map (\<lambda>g. terms (group_pfx nss g) (snd g)) gs)"

lemma all_terms_eq: "all_terms nss gs = concat (map (\<lambda>s. s @ '':'') (spec_classes nss gs))"
  by (induction gs) (simp_all add: all_terms_def spec_classes_def terms_def comp_def)

lemma parse_groups:
  assumes "\<forall>g \<in> set gs. group_ok nss g" and "\<forall>g \<in> set gs. length (join_colon (snd g)) < 256"
    and "ps_open st = None" and "ps_ns st = []"
    and "ps_i st + length (all_terms nss gs) < 256"
  shows "\<exists>z. parse_loop nss (concat (map group_text gs) @ rest) st =
     parse_loop nss rest (st\<lparr>ps_hier := ps_hier st @ all_terms nss gs,
        ps_i := ps_i st + length (all_terms nss gs), ps_ns := [], ps_ns0 := z, ps_open := None\<rparr>)"
  using assms
proof (induction gs arbitrary: st)
  case Nil
  then have "st\<lparr>ps_hier := ps_hier st @ all_terms nss [], ps_i := ps_i st + length (all_terms nss []),
      ps_ns := [], ps_ns0 := ps_ns0 st, ps_open := None\<rparr> = st"
    by (cases st) (simp add: all_terms_def)
  then show ?case by (intro exI [of _ "ps_ns0 st"]) simp
next
  case (Cons g gs)
  let ?t = "terms (group_pfx nss g) (snd g)"
  have at: "all_terms nss (g # gs) = ?t @ all_terms nss gs" by (simp add: all_terms_def)
  obtain z where z: "parse_loop nss (group_text g @ concat (map group_text gs) @ rest) st =
     parse_loop nss (concat (map group_text gs) @ rest) (st\<lparr>ps_hier := ps_hier st @ ?t,
        ps_i := ps_i st + length ?t, ps_ns := [], ps_ns0 := z, ps_open := None\<rparr>)"
    using parse_group [of nss g st "concat (map group_text gs) @ rest"] Cons.prems at by auto
  show ?case
    using Cons.IH [of "st\<lparr>ps_hier := ps_hier st @ ?t,
        ps_i := ps_i st + length ?t, ps_ns := [], ps_ns0 := z, ps_open := None\<rparr>"] Cons.prems z at
    by (simp add: add.assoc)
qed

lemma parse_libs:
  assumes "plain libs" and "length libs < 128" and "libs \<noteq> []" and "ps_open st = None"
  shows "\<exists>st'. parse_loop nss (CHR ''@'' # libs) st = Some (Some st') \<and> ps_hier st' = ps_hier st \<and>
           ps_i st' = ps_i st \<and> ps_libs st' = libs"
proof -
  let ?st = "st\<lparr>ps_ns := ps_ns st @ ''@'', ps_ns0 := False, ps_libs := libs\<rparr>"
  have "parse_loop nss (CHR ''@'' # libs) st = parse_loop nss (libs @ []) ?st"
    using assms by (simp add: outside_paren_def Let_def ps_open_same)
  then show ?thesis using parse_outside [of libs ?st nss "[]"] assms by simp
qed

lemma length_join_le: "length (join_colon toks) \<le> length (terms pfx toks)"
  by (induction toks rule: join_colon.induct) (auto simp: terms_def)

lemma AG_ParseClassSpec_groups:
  assumes gs: "gs \<noteq> []" "\<forall>g \<in> set gs. group_ok nss g"
    and pfx: "\<forall>n \<in> set nss. plain (ns_pfx n) \<and> CHR '':'' \<notin> set (ns_pfx n)"
    and libs: "plain libs" "length libs < 128"
    and len: "length (spec_text gs libs) < 256" "length (all_terms nss gs) < 256"
  shows "\<exists>cs. AG_ParseClassSpec nss (spec_text gs libs) = Some (Some cs) \<and>
     cs_hier cs = join_colon (spec_classes nss gs) \<and> cs_libs cs = libs \<and>
     cs_name cs = take 127 (last (spec_classes nss gs))"
proof -
  let ?C = "spec_classes nss gs"
  have pfx_in: "group_pfx nss g = ns_pfx n \<and> n \<in> set nss" if "AG_GetNamespace nss (fst g) = Some n" for g n
    using that by (auto simp: group_pfx_def AG_GetNamespace_def Let_def split: if_splits)
  have C: "?C \<noteq> [] \<and> (\<forall>s \<in> set ?C. plain_name s)"
  proof -
    have "plain_name (group_pfx nss g @ t)" if "g \<in> set gs" "t \<in> set (snd g)" for g t
      using that gs(2) pfx pfx_in [of g] by (fastforce simp: group_ok_def plain_name_def)
    moreover have "snd (hd gs) \<noteq> []" using gs by (cases gs) (auto simp: group_ok_def)
    ultimately show ?thesis using gs(1) by (cases gs) (auto simp: spec_classes_def)
  qed
  have trm: "all_terms nss gs = join_colon ?C @ '':''"
    using C by (simp add: all_terms_eq join_colon_terms)
  have jl: "\<forall>g \<in> set gs. length (join_colon (snd g)) < 256"
  proof
    fix g assume "g \<in> set gs"
    then have "length (terms (group_pfx nss g) (snd g)) \<le> length (all_terms nss gs)"
      using split_list by (fastforce simp: all_terms_def)
    then show "length (join_colon (snd g)) < 256"
      using len(2) length_join_le [of "snd g" "group_pfx nss g"] by simp
  qed
  have z: "\<exists>z. parse_loop nss (concat (map group_text gs) @ rest) parse_init =
     parse_loop nss rest (parse_init\<lparr>ps_hier := all_terms nss gs,
        ps_i := length (all_terms nss gs), ps_ns := [], ps_ns0 := z, ps_open := None\<rparr>)" for rest
    using parse_groups [OF gs(2) jl, of parse_init rest] len(2) by (simp add: parse_init_def)
  have "\<exists>st. parse_loop nss (spec_text gs libs) parse_init = Some (Some st) \<and>
      ps_hier st = all_terms nss gs \<and> ps_i st = length (all_terms nss gs) \<and> ps_libs st = libs"
  proof (cases "libs = []")
    case True
    then show ?thesis using z [of "[]"] by (auto simp: spec_text_def parse_init_def)
  next
    case False
    obtain z where "parse_loop nss (spec_text gs libs) parse_init =
        parse_loop nss (CHR ''@'' # libs) (parse_init\<lparr>ps_hier := all_terms nss gs,
          ps_i := length (all_terms nss gs), ps_ns := [], ps_ns0 := z, ps_open := None\<rparr>)"
      using z [of "CHR ''@'' # libs"] False by (auto simp: spec_text_def)
    then show ?thesis
      using parse_libs [OF libs False, of "parse_init\<lparr>ps_hier := all_terms nss gs,
          ps_i := length (all_terms nss gs), ps_ns := [], ps_ns0 := z, ps_open := None\<rparr>" nss]
      by (simp del: parse_loop.simps)
  qed
  then obtain st where st: "parse_loop nss (spec_text gs libs) parse_init = Some (Some st)"
    "ps_hier st = all_terms nss gs" "ps_i st = length (all_terms nss gs)" "ps_libs st = libs" by blast
  have J: "CHR ''@'' \<notin> set (join_colon ?C)" using C plain_join [of ?C] by (simp add: plain_def)
  have name: "hier_name (join_colon ?C) = last ?C"
    using C hier_name_last [of ?C] last_in_set [of ?C] by (simp add: plain_name_def)
  have "CHR ''@'' \<notin> set (take 127 (last ?C))"
    using C last_in_set [of ?C] by (auto simp: plain_name_def plain_def dest: in_set_takeD)
  then show ?thesis
    using st len J name trm by (simp add: AG_ParseClassSpec_def Let_def nth_append str_cpy_def)
qed

text \<open>A plain hierarchy such as \<open>AG_Object:AG_Foo\<close> is its own specification.\<close>

lemma AG_ParseClassSpec_flat:
  assumes "plain h" and "length h < 256"
  shows "\<exists>cs. AG_ParseClassSpec nss h = Some (Some cs) \<and> cs_hier cs = h \<and> cs_libs cs = []"
  using parse_outside [of h parse_init nss "[]"] assms
  by (simp add: AG_ParseClassSpec_def parse_init_def Let_def plain_def)

section \<open>The registry invariant\<close>

text \<open>A hierarchy that can be registered.\<close>

definition hier_ok :: "string \<Rightarrow> bool" where
  "hier_ok h \<longleftrightarrow> plain h \<and> h \<noteq> [] \<and> hd h \<noteq> CHR '':'' \<and> length h < 256"

text \<open>The hierarchy of the superclass.\<close>

definition super_hier :: "string \<Rightarrow> string" where
  "super_hier h = (case strrchr h CHR '':'' of None \<Rightarrow> ''AG_Object'' | Some k \<Rightarrow> take k h)"

abbreviation reg_map :: "class_reg \<Rightarrow> string \<Rightarrow> nat option" where
  "reg_map R \<equiv> tbl_map (agClassTbl R)"

text \<open>
  The table maps a hierarchy to the class that has it; but for the root, the
  superclass of a registered class is the registered class of the shorter hierarchy, and
  lists it among its subclasses; every subclass so listed is registered.
\<close>

definition reg_ok :: "class_reg \<Rightarrow> bool" where
  "reg_ok R \<longleftrightarrow> tbl_ok (agClassTbl R) \<and> agClassTree R = agObjectClass \<and>
     reg_map R ''AG_Object'' = Some agObjectClass \<and>
     (\<forall>h c. reg_map R h = Some c \<longrightarrow> hier_ok h \<and> cl_hier (cl_mem R c) = h \<and>
        (c \<noteq> agObjectClass \<longrightarrow> (\<exists>p. cl_super (cl_mem R c) = Some p \<and>
           reg_map R (super_hier h) = Some p \<and> c \<in> set (cl_sub (cl_mem R p))))) \<and>
     (\<forall>h p. reg_map R h = Some p \<longrightarrow> distinct (cl_sub (cl_mem R p)) \<and>
        (\<forall>c \<in> set (cl_sub (cl_mem R p)). c \<noteq> agObjectClass \<and> cl_super (cl_mem R c) = Some p \<and>
           (\<exists>h'. reg_map R h' = Some c)))"

lemma reg_okD:
  assumes "reg_ok R"
  shows "tbl_ok (agClassTbl R)" "agClassTree R = agObjectClass" "reg_map R ''AG_Object'' = Some agObjectClass"
    and "reg_map R h = Some c \<Longrightarrow> hier_ok h \<and> cl_hier (cl_mem R c) = h"
    and "reg_map R h = Some c \<Longrightarrow> c \<noteq> agObjectClass \<Longrightarrow>
      \<exists>p. cl_super (cl_mem R c) = Some p \<and> reg_map R (super_hier h) = Some p \<and> c \<in> set (cl_sub (cl_mem R p))"
    and "reg_map R h = Some p \<Longrightarrow> distinct (cl_sub (cl_mem R p))"
    and "reg_map R h = Some p \<Longrightarrow> c \<in> set (cl_sub (cl_mem R p)) \<Longrightarrow>
      c \<noteq> agObjectClass \<and> cl_super (cl_mem R c) = Some p \<and> (\<exists>h'. reg_map R h' = Some c)"
  using assms unfolding reg_ok_def by blast+

lemma AG_LookupClass_flat:
  assumes "reg_ok R" and "hier_ok h"
  shows "AG_LookupClass R h = Some (reg_map R h)"
proof (cases "h = ''AG_Object''")
  case True
  then show ?thesis using reg_okD(2,3) [OF assms(1)] by (simp add: AG_LookupClass_def)
next
  case False
  obtain cs where "AG_ParseClassSpec (agNamespaceTbl R) h = Some (Some cs)" "cs_hier cs = h"
    using AG_ParseClassSpec_flat [of h] assms(2) by (auto simp: hier_ok_def)
  moreover have "h \<noteq> ''Agar(Object)''" using assms(2) by (auto simp: hier_ok_def)
  ultimately show ?thesis
    using False assms by (simp add: AG_LookupClass_def hier_ok_def AG_TblLookup_spec reg_okD(1))
qed

text \<open>Any specification finds the class of the hierarchy it parses to.\<close>

lemma AG_LookupClass_spec:
  assumes "reg_ok R" and "AG_ParseClassSpec (agNamespaceTbl R) spec = Some (Some cs)"
    and "spec \<noteq> []" and "spec \<noteq> ''Agar(Object)''"
  shows "AG_LookupClass R spec = Some (reg_map R (cs_hier cs))"
proof (cases "spec = ''AG_Object''")
  case True
  then have "cs_hier cs = ''AG_Object''"
    using assms(2) AG_ParseClassSpec_flat [of "''AG_Object''" "agNamespaceTbl R"] by auto
  with True show ?thesis using reg_okD(2,3) [OF assms(1)] by (simp add: AG_LookupClass_def)
next
  case False
  then show ?thesis
    using assms by (simp add: AG_LookupClass_def AG_TblLookup_spec reg_okD(1))
qed

lemma tbl_insert_fresh:
  assumes "tbl_ok t" and "tbl_map t k = None"
  shows "\<exists>t'. AG_TblInsert True True t k v = Some (0, t') \<and> tbl_ok t' \<and> tbl_map t' = (tbl_map t)(k \<mapsto> v)"
proof -
  obtain t' where t': "tbl_ins t k v = Some t'" "tbl_ok t'" "tbl_map t' = (tbl_map t)(k \<mapsto> v)"
    using tbl.ins_new [OF assms] by blast
  then have "AG_TblInsert True True t k v = Some (0, t')"
    by (auto simp: tbl_ins_def split: option.splits if_splits)
  then show ?thesis using t' by blast
qed

lemma tbl_delete_there:
  assumes "tbl_ok t" and "tbl_map t k \<noteq> None"
  shows "\<exists>t'. AG_TblDelete t k = Some (0, t') \<and> tbl_ok t' \<and> tbl_map t' = (tbl_map t)(k := None)"
proof -
  obtain t' where t': "tbl_del t k = Some t'" "tbl_ok t'" "tbl_map t' = (tbl_map t)(k := None)"
    using tbl.del_old [OF assms] by blast
  then have "AG_TblDelete t k = Some (0, t')"
    by (auto simp: tbl_del_def split: option.splits if_splits)
  then show ?thesis using t' by blast
qed

text \<open>The search for the superclass, in the registry before the class is entered.\<close>

lemma super_lookup:
  assumes "reg_ok R" and "hier_ok h"
  shows "(case strrchr h CHR '':'' of None \<Rightarrow> Some (agClassTree R)
          | Some k \<Rightarrow> do { s \<leftarrow> AG_LookupClass R (take k h); s }) = reg_map R (super_hier h)"
proof (cases "strrchr h CHR '':''")
  case None
  then show ?thesis using reg_okD(2,3) [OF assms(1)] by (simp add: super_hier_def)
next
  case (Some k)
  then have k: "k < length h" "h ! k = CHR '':''" using strrchr_Some by blast+
  then have "k \<noteq> 0" using assms(2) by (metis hd_conv_nth hier_ok_def)
  then have "hier_ok (take k h)" using assms(2) k by (auto simp: hier_ok_def)
  then show ?thesis using AG_LookupClass_flat [OF assms(1)] Some by (simp add: super_hier_def)
qed

lemma AG_RegisterClass_step:
  assumes R: "reg_ok R" and new: "\<forall>h. reg_map R h \<noteq> Some c"
    and cs: "AG_ParseClassSpec (agNamespaceTbl R) (cl_hier (cl_mem R c)) = Some (Some cs)"
    and h: "hier_ok (cs_hier cs)" "reg_map R (cs_hier cs) = None"
    and p: "reg_map R (super_hier (cs_hier cs)) = Some p"
  shows "\<exists>t. AG_RegisterClass R c = Some (R\<lparr>cl_mem :=
        sub_add p c ((cl_mem R)(c := (InitClass (cl_mem R c) (cs_hier cs) (cs_libs cs))\<lparr>cl_super := Some p\<rparr>)),
        agClassTbl := t\<rparr>) \<and> tbl_ok t \<and> tbl_map t = (reg_map R)(cs_hier cs \<mapsto> c)"
proof -
  have hier: "str_cpy 256 (cs_hier cs) = cs_hier cs" using h(1) by (simp add: hier_ok_def)
  obtain t where t: "AG_TblInsert True True (agClassTbl R) (cs_hier cs) c = Some (0, t)"
    "tbl_ok t" "tbl_map t = (reg_map R)(cs_hier cs \<mapsto> c)"
    using tbl_insert_fresh [OF reg_okD(1) [OF R] h(2)] by blast
  have "p \<noteq> c" using p new by auto
  with t cs p super_lookup [OF R h(1)] have "AG_RegisterClass R c = Some (R\<lparr>cl_mem :=
        sub_add p c ((cl_mem R)(c := (InitClass (cl_mem R c) (cs_hier cs) (cs_libs cs))\<lparr>cl_super := Some p\<rparr>)),
        agClassTbl := t\<rparr>)"
    by (simp add: AG_RegisterClass_def InitClass_def sub_add_def hier)
  with t show ?thesis by blast
qed

lemma AG_RegisterClass_spec:
  assumes R: "reg_ok R" and new: "\<forall>h. reg_map R h \<noteq> Some c"
    and cs: "AG_ParseClassSpec (agNamespaceTbl R) (cl_hier (cl_mem R c)) = Some (Some cs)"
    and h: "hier_ok (cs_hier cs)" "reg_map R (cs_hier cs) = None"
    and p: "reg_map R (super_hier (cs_hier cs)) = Some p"
  shows "\<exists>R'. AG_RegisterClass R c = Some R' \<and> reg_ok R' \<and>
     reg_map R' = (reg_map R)(cs_hier cs \<mapsto> c) \<and> agNamespaceTbl R' = agNamespaceTbl R \<and>
     cl_super (cl_mem R' c) = Some p \<and> cl_sub (cl_mem R' c) = []"
proof -
  let ?h = "cs_hier cs"
  let ?cl = "(InitClass (cl_mem R c) ?h (cs_libs cs))\<lparr>cl_super := Some p\<rparr>"
  obtain t where t: "AG_RegisterClass R c = Some (R\<lparr>cl_mem := sub_add p c ((cl_mem R)(c := ?cl)), agClassTbl := t\<rparr>)"
    "tbl_ok t" "tbl_map t = (reg_map R)(?h \<mapsto> c)" using AG_RegisterClass_step [OF assms] by blast
  let ?R = "R\<lparr>cl_mem := sub_add p c ((cl_mem R)(c := ?cl)), agClassTbl := t\<rparr>"
  have pc: "p \<noteq> c" using p new by auto
  have c0: "c \<noteq> agObjectClass" using new reg_okD(3) [OF R] by metis
  have cl: "cl_hier ?cl = ?h" "cl_sub ?cl = []" "cl_super ?cl = Some p"
    using h(1) by (simp_all add: InitClass_def hier_ok_def)
  have mem: "cl_mem ?R k = (if k = c then ?cl else if k = p then (cl_mem R p)\<lparr>cl_sub := cl_sub (cl_mem R p) @ [c]\<rparr>
      else cl_mem R k)" for k using pc by (simp add: sub_add_def)
  have map': "reg_map ?R k = (if k = ?h then Some c else reg_map R k)" for k using t(3) by simp
  have sh: "super_hier ?h \<noteq> ?h"
    using strrchr_Some [of ?h "CHR '':''"] h p reg_okD(3) [OF R]
    by (auto simp: super_hier_def split: option.splits)
  have "reg_ok ?R"
    unfolding reg_ok_def
  proof (intro conjI allI impI ballI)
    show "tbl_ok (agClassTbl ?R)" using t by simp
    show "agClassTree ?R = agObjectClass" using reg_okD(2) [OF R] by simp
    show "reg_map ?R ''AG_Object'' = Some agObjectClass" using reg_okD(3) [OF R] h(2) map' by auto
  next
    fix h' k assume a: "reg_map ?R h' = Some k"
    show "hier_ok h'" using a map' h(1) reg_okD(4) [OF R, of h' k] by (auto split: if_splits)
    show "cl_hier (cl_mem ?R k) = h'"
      using a map' cl new mem reg_okD(4) [OF R, of h' k] by (auto split: if_splits)
    show "\<exists>q. cl_super (cl_mem ?R k) = Some q \<and> reg_map ?R (super_hier h') = Some q \<and> k \<in> set (cl_sub (cl_mem ?R q))"
      if k0: "k \<noteq> agObjectClass"
    proof (cases "h' = ?h")
      case True
      then have "k = c" using a map' by simp
      then show ?thesis using True p sh pc cl map' mem by auto
    next
      case False
      then have k: "reg_map R h' = Some k" using a map' by simp
      then obtain q where q: "cl_super (cl_mem R k) = Some q" "reg_map R (super_hier h') = Some q"
        "k \<in> set (cl_sub (cl_mem R q))" using reg_okD(5) [OF R k k0] by blast
      then have "q \<noteq> c" "k \<noteq> c" "super_hier h' \<noteq> ?h" using new k h(2) by auto
      then show ?thesis using q map' mem by auto
    qed
  next
    fix h' q assume a: "reg_map ?R h' = Some q"
    show "distinct (cl_sub (cl_mem ?R q))"
    proof (cases "q = c")
      case False
      then have "reg_map R h' = Some q" using a map' by (auto split: if_splits)
      moreover have "c \<notin> set (cl_sub (cl_mem R p))"
        using reg_okD(7) [OF R p, of c] new by blast
      ultimately show ?thesis using reg_okD(6) [OF R] p False mem by auto
    qed (use mem cl in simp)
    fix k assume k: "k \<in> set (cl_sub (cl_mem ?R q))"
    have qc: "q \<noteq> c" using k mem cl by auto
    then have rq: "reg_map R h' = Some q" using a map' by (auto split: if_splits)
    have kk: "k = c \<and> q = p \<or> k \<in> set (cl_sub (cl_mem R q))" using k mem qc by (auto split: if_splits)
    have old: "k \<noteq> c \<and> k \<noteq> agObjectClass \<and> cl_super (cl_mem R k) = Some q \<and> (\<exists>h. reg_map R h = Some k)"
      if "k \<in> set (cl_sub (cl_mem R q))" using reg_okD(7) [OF R rq that] new by blast
    show "k \<noteq> agObjectClass" using kk old c0 by blast
    show "cl_super (cl_mem ?R k) = Some q" using kk old cl mem by auto
    show "\<exists>h''. reg_map ?R h'' = Some k"
    proof (cases "k = c")
      case True
      then show ?thesis using map' by auto
    next
      case False
      then obtain h'' where "reg_map R h'' = Some k" using kk old by blast
      moreover from this have "h'' \<noteq> ?h" using h(2) by auto
      ultimately show ?thesis using map' by (intro exI [of _ h'']) simp
    qed
  qed
  then show ?thesis using t mem cl map' by (intro exI [of _ ?R]) (auto simp: fun_eq_iff)
qed

lemma AG_TblDelete_parts:
  "AG_TblHash t k = Some x \<Longrightarrow> AG_TblDelete t k = AG_TblDeleteHash t x k"
  "AG_TblHash t k = Some x \<Longrightarrow> AG_TblExists t k = AG_TblExistsHash t x k"
  by (simp_all add: AG_TblDelete_def AG_TblExists_def)

lemma reg_ok_inject: "reg_ok R \<Longrightarrow> reg_map R h = Some c \<Longrightarrow> reg_map R h' = Some c \<Longrightarrow> h = h'"
  using reg_okD(4) by metis

lemma AG_UnregisterClass_spec:
  assumes R: "reg_ok R" and c: "reg_map R h = Some c" "c \<noteq> agObjectClass" "cl_sub (cl_mem R c) = []"
  shows "\<exists>R'. AG_UnregisterClass R c = Some R' \<and> reg_ok R' \<and> reg_map R' = (reg_map R)(h := None) \<and>
     agNamespaceTbl R' = agNamespaceTbl R"
proof -
  have h: "hier_ok h" "cl_hier (cl_mem R c) = h" using reg_okD(4) [OF R c(1)] by auto
  obtain p where p: "cl_super (cl_mem R c) = Some p" "reg_map R (super_hier h) = Some p" "c \<in> set (cl_sub (cl_mem R p))"
    using reg_okD(5) [OF R c(1,2)] by blast
  obtain t where t: "AG_TblDelete (agClassTbl R) h = Some (0, t)" "tbl_ok t" "tbl_map t = (reg_map R)(h := None)"
    using tbl_delete_there [OF reg_okD(1) [OF R], of h] c by auto
  obtain x where x: "AG_TblHash (agClassTbl R) h = Some x" using AG_TblHash_range [OF reg_okD(1) [OF R]] by blast
  have ex: "AG_TblExistsHash (agClassTbl R) x h = Some 1"
    using AG_TblExists_spec [OF reg_okD(1) [OF R], of h] c AG_TblDelete_parts(2) [OF x] by simp
  have pc: "p \<noteq> c" using p c by auto
  let ?mem = "(sub_remove p c (cl_mem R))(c := (cl_mem R c)\<lparr>cl_super := None\<rparr>)"
  define R' where "R' = R\<lparr>cl_mem := ?mem, agClassTbl := t\<rparr>"
  have run: "AG_UnregisterClass R c = Some R'"
    using h x ex p t AG_TblDelete_parts(1) [OF x] pc by (simp add: AG_UnregisterClass_def sub_remove_def Let_def R'_def)
  have mem: "cl_mem R' k = (if k = c then (cl_mem R c)\<lparr>cl_super := None\<rparr>
      else if k = p then (cl_mem R p)\<lparr>cl_sub := remove1 c (cl_sub (cl_mem R p))\<rparr> else cl_mem R k)" for k
    using pc by (simp add: sub_remove_def R'_def)
  have map': "reg_map R' k = (if k = h then None else reg_map R k)" for k using t(3) by (simp add: R'_def)
  have other: "reg_map R' h' = Some k \<longleftrightarrow> reg_map R h' = Some k \<and> k \<noteq> c" for h' k
  proof (cases "h' = h")
    case True
    then show ?thesis using map' [of h'] c(1) by auto
  next
    case False
    then show ?thesis using map' [of h'] reg_ok_inject [OF R c(1), of h'] by auto
  qed
  have nomem: "c \<notin> set (cl_sub (cl_mem R' q))" if "reg_map R h' = Some q" "q \<noteq> c" for h' q
  proof (cases "q = p")
    case True
    then show ?thesis using mem [of q] that(2) reg_okD(6) [OF R p(2)] by simp
  next
    case False
    then show ?thesis using mem [of q] that p(1) reg_okD(7) [OF R that(1), of c] by auto
  qed
  have "reg_ok R'"
    unfolding reg_ok_def
  proof (intro conjI allI impI ballI)
    show "tbl_ok (agClassTbl R')" using t by (simp add: R'_def)
    show "agClassTree R' = agObjectClass" using reg_okD(2) [OF R] by (simp add: R'_def)
    show "reg_map R' ''AG_Object'' = Some agObjectClass" using reg_okD(3) [OF R] c(2) other by auto
  next
    fix h' k assume "reg_map R' h' = Some k"
    then have k: "reg_map R h' = Some k" "k \<noteq> c" using other by blast+
    show "hier_ok h'" "cl_hier (cl_mem R' k) = h'" using reg_okD(4) [OF R k(1)] k(2) mem by (auto split: if_splits)
    assume k0: "k \<noteq> agObjectClass"
    then obtain q where q: "cl_super (cl_mem R k) = Some q" "reg_map R (super_hier h') = Some q"
        "k \<in> set (cl_sub (cl_mem R q))" using reg_okD(5) [OF R k(1) k0] by blast
    then have "q \<noteq> c" using c(3) by auto
    then show "\<exists>q. cl_super (cl_mem R' k) = Some q \<and> reg_map R' (super_hier h') = Some q \<and> k \<in> set (cl_sub (cl_mem R' q))"
      using q k other [of "super_hier h'" q] mem by auto
  next
    fix h' q assume "reg_map R' h' = Some q"
    then have q: "reg_map R h' = Some q" "q \<noteq> c" using other by blast+
    show "distinct (cl_sub (cl_mem R' q))"
      using reg_okD(6) [OF R q(1)] q(2) mem by (auto split: if_splits)
    fix k assume k: "k \<in> set (cl_sub (cl_mem R' q))"
    have kc: "k \<noteq> c" using nomem [OF q] k by auto
    have "k \<in> set (cl_sub (cl_mem R q))" using k mem [of q] q(2) set_remove1_subset [of c] by (auto split: if_splits)
    then have "k \<noteq> agObjectClass \<and> cl_super (cl_mem R k) = Some q \<and> (\<exists>h. reg_map R h = Some k)"
      using reg_okD(7) [OF R q(1)] by blast
    then show "k \<noteq> agObjectClass" "cl_super (cl_mem R' k) = Some q" "\<exists>h''. reg_map R' h'' = Some k"
      using kc other mem by auto
  qed
  then show ?thesis using run t map' by (intro exI [of _ R']) (simp add: R'_def)
qed

lemma AG_InitClassTbl_spec:
  "\<exists>R. AG_InitClassTbl mem = Some R \<and> reg_ok R \<and> reg_map R = [''AG_Object'' \<mapsto> agObjectClass] \<and>
     agNamespaceTbl R = [\<lparr>ns_name = ''Agar'', ns_pfx = ''AG_'', ns_url = ''http://libagar.org/''\<rparr>] \<and>
     (\<forall>c. c \<noteq> agObjectClass \<longrightarrow> cl_mem R c = mem c)"
proof -
  obtain t0 :: "nat AG_Tbl" where t0: "AG_TblInit True 256 0 = Some t0" "tbl_ok t0" "tbl_map t0 = Map.empty"
    using AG_TblInit_ok [of 256 0] by auto
  obtain t where t: "AG_TblInsert True True t0 ''AG_Object'' agObjectClass = Some (0, t)" "tbl_ok t"
    "tbl_map t = [''AG_Object'' \<mapsto> agObjectClass]"
    using tbl_insert_fresh [OF t0(2), of "''AG_Object''" agObjectClass] t0(3) by auto
  have "hier_ok ''AG_Object''" by (simp add: hier_ok_def)
  then show ?thesis using t0 t
    by (auto simp: AG_InitClassTbl_def AG_TblNew_def AG_RegisterNamespace_def reg_ok_def InitClass_def
        agObjectClass_def Let_def split: if_splits)
qed

section \<open>Inheritance\<close>

text \<open>The hierarchies of a class and of its superclasses, the oldest first.\<close>

fun cprefs :: "string \<Rightarrow> string \<Rightarrow> string list" where
  "cprefs pre [] = [pre]"
| "cprefs pre (c # rest) = (if c = CHR '':'' then pre # cprefs (pre @ [c]) rest else cprefs (pre @ [c]) rest)"

lemma inherit_loop_spec:
  assumes "reg_ok R"
  shows "\<forall>q \<in> set (cprefs pre rest). hier_ok q \<and> reg_map R q \<noteq> None \<Longrightarrow>
    inherit_loop R pre rest = Some (Some (map (the \<circ> reg_map R) (cprefs pre rest)))"
proof (induction rest arbitrary: pre)
  case Nil
  then show ?case using AG_LookupClass_flat [OF assms] by auto
next
  case (Cons c rest)
  then show ?case using AG_LookupClass_flat [OF assms] by (cases "c = CHR '':''") auto
qed

lemma cprefs_nocolon: "CHR '':'' \<notin> set s \<Longrightarrow> cprefs pre (s @ rest) = cprefs (pre @ s) rest"
  by (induction s arbitrary: pre) auto

lemma cprefs_append: "cprefs pre (s @ CHR '':'' # t) = cprefs pre s @ cprefs (pre @ s @ '':'') t"
  by (induction s arbitrary: pre) auto

lemma cprefs_super:
  assumes "strrchr h CHR '':'' = Some k"
  shows "cprefs [] h = cprefs [] (take k h) @ [h]"
proof -
  have k: "k < length h" "h ! k = CHR '':''" "CHR '':'' \<notin> set (drop (Suc k) h)"
    using strrchr_Some [OF assms] by auto
  then have h: "h = take k h @ CHR '':'' # drop (Suc k) h" using id_take_nth_drop by metis
  have "cprefs [] h = cprefs [] (take k h) @ cprefs (take k h @ '':'') (drop (Suc k) h)"
    by (subst h, subst cprefs_append) simp
  moreover have "cprefs (take k h @ '':'') (drop (Suc k) h) = [h]"
    using cprefs_nocolon [OF k(3), of _ "[]"] h by simp
  ultimately show ?thesis by simp
qed

lemma registered_prefixes:
  assumes R: "reg_ok R"
  shows "reg_map R h \<noteq> None \<Longrightarrow> \<forall>q \<in> set (cprefs [] h). hier_ok q \<and> reg_map R q \<noteq> None"
proof (induction "length h" arbitrary: h rule: less_induct)
  case less
  then obtain c where c: "reg_map R h = Some c" by blast
  show ?case
  proof (cases "strrchr h CHR '':''")
    case None
    then have "cprefs [] h = [h]" using cprefs_nocolon [of h "[]" "[]"] by (simp add: strrchr_None_iff)
    then show ?thesis using c reg_okD(4) [OF R c] by simp
  next
    case (Some k)
    have "c \<noteq> agObjectClass"
    proof
      assume "c = agObjectClass"
      then have "h = ''AG_Object''" using reg_ok_inject [OF R c] reg_okD(3) [OF R] by simp
      then show False using Some by simp
    qed
    then have "reg_map R (take k h) \<noteq> None" using reg_okD(5) [OF R c] Some by (auto simp: super_hier_def)
    moreover have "length (take k h) < length h" using strrchr_Some [OF Some] by simp
    ultimately show ?thesis using less.hyps [of "take k h"] c reg_okD(4) [OF R c] cprefs_super [OF Some] by auto
  qed
qed

section \<open>Patterns\<close>

lemma suffix_wild_loop_spec:
  assumes "CHR ''*'' \<notin> set p"
  shows "suffix_wild_loop hier (pre @ p @ '':*'') (length pre) (p @ '':*'') \<longleftrightarrow>
     pre @ p = [] \<or> hier = pre @ p \<or> (\<exists>q. hier = pre @ p @ CHR '':'' # q)"
  using assms
proof (induction p arbitrary: pre)
  case Nil
  show ?case
  proof (cases "pre = []")
    case False
    have "take (length pre) hier = pre \<and> (length hier \<le> length pre \<or> hier ! length pre = CHR '':'') \<longleftrightarrow>
        hier = pre \<or> (\<exists>q. hier = pre @ CHR '':'' # q)" (is "?l \<longleftrightarrow> ?r")
    proof
      assume l: ?l
      then have "hier = pre @ drop (length pre) hier" by (metis append_take_drop_id)
      moreover have "drop (length pre) hier = [] \<or> (\<exists>q. drop (length pre) hier = CHR '':'' # q)"
        using l by (metis Cons_nth_drop_Suc drop_all not_le)
      ultimately show ?r by (metis append_Nil2)
    qed auto
    then show ?thesis using False by simp
  qed simp
next
  case (Cons c p)
  have "c # p @ '':*'' \<noteq> '':*''" using Cons.prems by (cases p) auto
  then show ?case using Cons.IH [of "pre @ [c]"] Cons.prems by simp
qed

lemma AG_ClassIsNamed_spec:
  assumes "CHR ''*'' \<notin> set p"
  shows "AG_ClassIsNamed cl p = Some (if cl_hier cl = p then 1 else 0)"
    and "p \<noteq> [] \<Longrightarrow> AG_ClassIsNamed cl (p @ '':*'') =
      Some (if cl_hier cl = p \<or> (\<exists>q. cl_hier cl = p @ CHR '':'' # q) then 1 else 0)"
proof -
  have f: "filter (\<lambda>c. c = CHR ''*'') p = []" using assms by (induction p) auto
  then show "AG_ClassIsNamed cl p = Some (if cl_hier cl = p then 1 else 0)"
    by (simp add: AG_ClassIsNamed_def)
  assume "p \<noteq> []"
  then show "AG_ClassIsNamed cl (p @ '':*'') =
      Some (if cl_hier cl = p \<or> (\<exists>q. cl_hier cl = p @ CHR '':'' # q) then 1 else 0)"
    using f suffix_wild_loop_spec [OF assms, of "cl_hier cl" "[]"] by (simp add: AG_ClassIsNamed_def)
qed

lemma cprefs_prefix: "q \<in> set (cprefs pre s) \<Longrightarrow> q = pre @ s \<or> (\<exists>t. pre @ s = q @ CHR '':'' # t)"
proof (induction s arbitrary: pre)
  case Nil
  then show ?case by simp
next
  case (Cons c s)
  then show ?case using Cons.IH [of "pre @ [c]"] by (auto split: if_splits)
qed

section \<open>Properties\<close>

text \<open>
  C26: a specification made of groups \<open>Namespace(Class1:Class2)\<close> over registered
  namespaces, with libraries after an at sign, parses to the hierarchy in which every
  class carries the prefix of its namespace, to those libraries, and to the last class as
  name (cut to 127 characters), as long as the expansion fits the 256-byte field.
\<close>

theorem AG_ParseClassSpec_sound:
  assumes "gs \<noteq> []" and "\<forall>g \<in> set gs. group_ok nss g"
    and "\<forall>n \<in> set nss. plain (ns_pfx n) \<and> CHR '':'' \<notin> set (ns_pfx n)"
    and "plain libs" and "length libs < 128"
    and "length (spec_text gs libs) < 256" and "length (all_terms nss gs) < 256"
  shows "\<exists>cs. AG_ParseClassSpec nss (spec_text gs libs) = Some (Some cs) \<and>
     cs_hier cs = join_colon (spec_classes nss gs) \<and> cs_libs cs = libs \<and>
     cs_name cs = take 127 (last (spec_classes nss gs))"
  using assms by (rule AG_ParseClassSpec_groups)

theorem AG_ParseClassSpec_sound_witness:
  "\<exists>cs. AG_ParseClassSpec [\<lparr>ns_name = ''Agar'', ns_pfx = ''AG_'', ns_url = ''''\<rparr>] ''Agar(Object:Foo)@foo,bar'' =
       Some (Some cs) \<and>
     cs_hier cs = ''AG_Object:AG_Foo'' \<and> cs_libs cs = ''foo,bar'' \<and> cs_name cs = ''AG_Foo''"
  using AG_ParseClassSpec_sound [of "[(''Agar'', [''Object'', ''Foo''])]"
      "[\<lparr>ns_name = ''Agar'', ns_pfx = ''AG_'', ns_url = ''''\<rparr>]" "''foo,bar''"]
  by (simp add: group_ok_def plain_name_def AG_GetNamespace_def spec_text_def group_text_def all_terms_def
      terms_def group_pfx_def spec_classes_def Let_def)

text \<open>
  When the prefixes make the hierarchy of a short specification longer than its
  field, the appends of \<open>AG_ParseClassSpec\<close> run over the end of the structure: fifty-two
  one-letter classes under the namespace \<open>Agar\<close> are enough.
\<close>

definition long_spec :: "string" where
  "long_spec = ''Agar('' @ concat (replicate 51 ''a:'') @ ''a)''"

theorem AG_ParseClassSpec_overflow:
  "AG_ParseClassSpec [\<lparr>ns_name = ''Agar'', ns_pfx = ''AG_'', ns_url = ''''\<rparr>] long_spec = None \<and>
   length long_spec < 256"
  by code_simp

text \<open>
  C25: registering a class whose superclass is registered enters it in the tree and in
  the table: lookups of its hierarchy find it and every other lookup answers as before;
  unregistering it (it has no subclasses then) brings the old table back.  The registry
  invariant is kept by both.
\<close>

theorem AG_RegisterClass_lookup:
  assumes "reg_ok R" and "\<forall>h. reg_map R h \<noteq> Some c"
    and "AG_ParseClassSpec (agNamespaceTbl R) (cl_hier (cl_mem R c)) = Some (Some cs)"
    and "hier_ok (cs_hier cs)" and "reg_map R (cs_hier cs) = None"
    and "reg_map R (super_hier (cs_hier cs)) = Some p"
  shows "\<exists>R1 R2. AG_RegisterClass R c = Some R1 \<and> reg_ok R1 \<and> cl_super (cl_mem R1 c) = Some p \<and>
     (\<forall>h. hier_ok h \<longrightarrow> AG_LookupClass R1 h = Some (if h = cs_hier cs then Some c else reg_map R h)) \<and>
     AG_UnregisterClass R1 c = Some R2 \<and> reg_ok R2 \<and> reg_map R2 = reg_map R"
proof -
  obtain R1 where R1: "AG_RegisterClass R c = Some R1" "reg_ok R1" "reg_map R1 = (reg_map R)(cs_hier cs \<mapsto> c)"
    "cl_super (cl_mem R1 c) = Some p" "cl_sub (cl_mem R1 c) = []"
    using AG_RegisterClass_spec [OF assms] by blast
  have "c \<noteq> agObjectClass" using assms(2) reg_okD(3) [OF assms(1)] by metis
  then obtain R2 where R2: "AG_UnregisterClass R1 c = Some R2" "reg_ok R2"
    "reg_map R2 = (reg_map R1)(cs_hier cs := None)"
    using AG_UnregisterClass_spec [OF R1(2), of "cs_hier cs" c] R1(3,5) by auto
  have "reg_map R2 = reg_map R" using R2(3) R1(3) assms(5) by auto
  moreover have "\<forall>h. hier_ok h \<longrightarrow> AG_LookupClass R1 h = Some (if h = cs_hier cs then Some c else reg_map R h)"
    using AG_LookupClass_flat [OF R1(2)] R1(3) by simp
  ultimately show ?thesis using R1 R2 by blast
qed

definition example_mem :: "nat \<Rightarrow> AG_ObjectClass" where
  "example_mem k = \<lparr>cl_hier = ''Agar(Object:Foo)'', cl_name = [], cl_libs = [], cl_sub = [], cl_super = None\<rparr>"

theorem AG_RegisterClass_lookup_witness:
  "\<exists>R R1 R2. AG_InitClassTbl example_mem = Some R \<and> AG_RegisterClass R 1 = Some R1 \<and>
     AG_LookupClass R1 ''AG_Object:AG_Foo'' = Some (Some 1) \<and>
     AG_UnregisterClass R1 1 = Some R2 \<and> reg_map R2 = reg_map R"
proof -
  obtain R where R: "AG_InitClassTbl example_mem = Some R" "reg_ok R" "reg_map R = [''AG_Object'' \<mapsto> agObjectClass]"
    "agNamespaceTbl R = [\<lparr>ns_name = ''Agar'', ns_pfx = ''AG_'', ns_url = ''http://libagar.org/''\<rparr>]"
    "\<forall>c. c \<noteq> agObjectClass \<longrightarrow> cl_mem R c = example_mem c"
    using AG_InitClassTbl_spec by blast
  obtain cs where cs: "AG_ParseClassSpec (agNamespaceTbl R) ''Agar(Object:Foo)'' = Some (Some cs)"
    "cs_hier cs = ''AG_Object:AG_Foo''"
    using AG_ParseClassSpec_groups [of "[(''Agar'', [''Object'', ''Foo''])]" "agNamespaceTbl R" "[]"] R(4)
    by (auto simp: group_ok_def plain_name_def AG_GetNamespace_def spec_text_def group_text_def all_terms_def
        terms_def group_pfx_def spec_classes_def Let_def)
  have "cl_hier (cl_mem R 1) = ''Agar(Object:Foo)''" using R(5) by (simp add: example_mem_def agObjectClass_def)
  moreover have "hier_ok ''AG_Object:AG_Foo''" by (simp add: hier_ok_def)
  moreover have "super_hier ''AG_Object:AG_Foo'' = ''AG_Object''" by code_simp
  moreover have "\<forall>h. reg_map R h \<noteq> Some 1" using R(3) by (auto simp: agObjectClass_def)
  ultimately obtain R1 R2 where "AG_RegisterClass R 1 = Some R1"
      "\<forall>h. hier_ok h \<longrightarrow> AG_LookupClass R1 h = Some (if h = cs_hier cs then Some 1 else reg_map R h)"
      "AG_UnregisterClass R1 1 = Some R2" "reg_map R2 = reg_map R"
    using AG_RegisterClass_lookup [of R 1 cs agObjectClass] R cs by auto
  then show ?thesis using R(1) cs(2) \<open>hier_ok ''AG_Object:AG_Foo''\<close> by auto
qed

text \<open>
  \<open>AG_ObjectGetInheritHier\<close> on a registered class returns, from the oldest, the
  classes of the prefixes of its hierarchy, the class itself last; and the class is an
  instance of each of them in the sense of \<open>AG_OfClass\<close> with the pattern
  \<open>hierarchy:*\<close>.
\<close>

theorem AG_ObjectGetInheritHier_chain:
  assumes "reg_ok R" and "reg_map R h = Some c" and "CHR ''*'' \<notin> set h"
  shows "\<exists>ks. AG_ObjectGetInheritHier R h = Some (Some ks) \<and> map (\<lambda>k. cl_hier (cl_mem R k)) ks = cprefs [] h \<and>
     last ks = c \<and> (\<forall>k \<in> set ks. AG_ClassIsNamed (cl_mem R c) (cl_hier (cl_mem R k) @ '':*'') = Some 1)"
proof -
  let ?ks = "map (the \<circ> reg_map R) (cprefs [] h)"
  have reg: "\<forall>q \<in> set (cprefs [] h). hier_ok q \<and> reg_map R q \<noteq> None"
    using registered_prefixes [OF assms(1), of h] assms(2) by simp
  have h: "hier_ok h" "cl_hier (cl_mem R c) = h" using reg_okD(4) [OF assms(1,2)] by auto
  then have run: "AG_ObjectGetInheritHier R h = Some (Some ?ks)"
    using inherit_loop_spec [OF assms(1) reg] by (simp add: AG_ObjectGetInheritHier_def hier_ok_def)
  have hiers: "cl_hier (cl_mem R (the (reg_map R q))) = q" if "q \<in> set (cprefs [] h)" for q
    using that reg reg_okD(4) [OF assms(1)] by fastforce
  have pre: "q = h \<or> (\<exists>t. h = q @ CHR '':'' # t)" if "q \<in> set (cprefs [] h)" for q
    using that cprefs_prefix by fastforce
  have lst: "last (cprefs pre s) = pre @ s" "cprefs pre s \<noteq> []" for pre s by (induction s arbitrary: pre) auto
  have "AG_ClassIsNamed (cl_mem R c) (q @ '':*'') = Some 1" if "q \<in> set (cprefs [] h)" for q
  proof -
    have "q \<noteq> []" using that reg by (auto simp: hier_ok_def)
    moreover have "CHR ''*'' \<notin> set q" using pre [OF that] assms(3) by auto
    ultimately show ?thesis using pre [OF that] h(2) by (auto simp: AG_ClassIsNamed_spec(2))
  qed
  moreover have "map (\<lambda>k. cl_hier (cl_mem R k)) ?ks = cprefs [] h"
    using hiers by (simp add: comp_def map_idI)
  ultimately show ?thesis using run hiers assms(2) lst [of "[]" h]
    by (intro exI [of _ ?ks]) (simp add: comp_def last_map)
qed

theorem AG_ObjectGetInheritHier_chain_witness:
  "\<exists>R ks. AG_InitClassTbl example_mem = Some R \<and>
     AG_ObjectGetInheritHier R ''AG_Object'' = Some (Some ks) \<and> last ks = agObjectClass \<and>
     (\<forall>k \<in> set ks. AG_ClassIsNamed (cl_mem R agObjectClass) (cl_hier (cl_mem R k) @ '':*'') = Some 1)"
proof -
  obtain R where R: "AG_InitClassTbl example_mem = Some R" "reg_ok R"
    "reg_map R = [''AG_Object'' \<mapsto> agObjectClass]" using AG_InitClassTbl_spec by blast
  then show ?thesis using AG_ObjectGetInheritHier_chain [of R "''AG_Object''" agObjectClass] by auto
qed

text \<open>
  When the first library of a class is linked and has the symbol, but a later one
  cannot be linked, \<open>AG_LoadClass\<close> goes to its error exit and yet returns the class: the
  caller gets a class that is not registered.
\<close>

theorem AG_LoadClass_unregistered:
  assumes "AG_ParseClassSpec (agNamespaceTbl R) spec = Some (Some cs)"
    and "AG_LookupClass R (cs_hier cs) = Some None"
    and "cs_libs cs = l1 @ CHR '','' # l2" and "plain (l1 @ l2)"
    and "set (l1 @ l2) \<inter> {CHR '','', CHR '' ''} = {}"
    and "load x l1 = (Some dso, x1)" and "GetClassSymbol AG_OBJECT_HIER_MAX cs = Some name"
    and "symb x1 dso name = Some p" and "load x1 l2 = (None, x2)"
  shows "AG_LoadClass load symb unload R x spec = Some (Some p, R, x2)"
proof -
  have "split_on {CHR '','', CHR '' ''} (l1 @ CHR '','' # l2) = [l1, l2]"
    using assms(5) by (simp add: split_on_delim split_on_token disjoint_iff)
  then have "tokens '', '' (cs_libs cs) = Some [l1, l2]"
    using assms(3,4) tokens_eq [of "'', ''" "cs_libs cs"] by (simp add: plain_def)
  then show ?thesis using assms by (simp add: AG_LoadClass_def)
qed

theorem AG_LoadClass_unregistered_witness:
  "\<exists>R. AG_InitClassTbl example_mem = Some R \<and>
     AG_LoadClass (\<lambda>x l. if l = ''foo'' then (Some (), x) else (None, x)) (\<lambda>x d s. Some 1) (\<lambda>x d. x)
       R () ''Agar(Object:Foo)@foo,bar'' = Some (Some 1, R, ()) \<and>
     AG_LookupClass R ''AG_Object:AG_Foo'' = Some None"
proof -
  obtain R where R: "AG_InitClassTbl example_mem = Some R" "reg_ok R" "reg_map R = [''AG_Object'' \<mapsto> agObjectClass]"
    "agNamespaceTbl R = [\<lparr>ns_name = ''Agar'', ns_pfx = ''AG_'', ns_url = ''http://libagar.org/''\<rparr>]"
    using AG_InitClassTbl_spec by blast
  obtain cs where cs: "AG_ParseClassSpec (agNamespaceTbl R) ''Agar(Object:Foo)@foo,bar'' = Some (Some cs)"
    "cs_hier cs = ''AG_Object:AG_Foo''" "cs_libs cs = ''foo,bar''" "cs_name cs = ''AG_Foo''"
    using AG_ParseClassSpec_groups [of "[(''Agar'', [''Object'', ''Foo''])]" "agNamespaceTbl R" "''foo,bar''"] R(4)
    by (auto simp: group_ok_def plain_name_def AG_GetNamespace_def spec_text_def group_text_def all_terms_def
        terms_def group_pfx_def spec_classes_def Let_def)
  have none: "AG_LookupClass R ''AG_Object:AG_Foo'' = Some None"
    using AG_LookupClass_flat [OF R(2), of "''AG_Object:AG_Foo''"] R(3) by (simp add: hier_ok_def)
  have "GetClassSymbol 256 cs = Some ''agFooClass''"
  proof -
    have "tolower CHR ''A'' = CHR ''a''" "tolower CHR ''G'' = CHR ''g''" by code_simp+
    then show ?thesis using cs(4) by (simp add: GetClassSymbol_def str_cat_def)
  qed
  then show ?thesis
    using R(1) none cs AG_LoadClass_unregistered [of R "''Agar(Object:Foo)@foo,bar''" cs "''foo''" "''bar''"
        "\<lambda>x l. if l = ''foo'' then (Some (), x) else (None, x)" "()" "()" "()" "''agFooClass''"
        "\<lambda>x d s. Some 1" 1 "()" "\<lambda>x d. x"]
    by simp
qed

end
