(* ===== verification/Queue.thy ===== *)
theory Queue
  imports Prelude
begin

text \<open>
  The tail queues of core/queue.h at the level of their pointers.  An element is known by
  its address, a natural number; \<open>tqe_prev\<close> and \<open>tqh_last\<close> hold the address of a pointer,
  either the head's \<open>tqh_first\<close> or the \<open>tqe_next\<close> field of an element.  The representation
  predicate \<open>tq_rep\<close> says that a queue holds a list; the lemmas show that every macro does
  on the pointers what the other theories of the development do on lists, and that
  inserting an element that is already linked does not.
\<close>

datatype addr = Head | NextOf nat

record tailq =
  tqh_first :: "nat option"
  tqh_last :: addr
  tqe_next :: "nat \<Rightarrow> nat option"
  tqe_prev :: "nat \<Rightarrow> addr"

text \<open>Reading and writing through the address of a pointer.\<close>

definition deref :: "tailq \<Rightarrow> addr \<Rightarrow> nat option" where
  "deref q a = (case a of Head \<Rightarrow> tqh_first q | NextOf e \<Rightarrow> tqe_next q e)"

definition assign :: "tailq \<Rightarrow> addr \<Rightarrow> nat option \<Rightarrow> tailq" where
  "assign q a v = (case a of Head \<Rightarrow> q\<lparr>tqh_first := v\<rparr> | NextOf e \<Rightarrow> q\<lparr>tqe_next := (tqe_next q)(e := v)\<rparr>)"

section \<open>The macros\<close>

definition TAILQ_INIT :: "tailq \<Rightarrow> tailq" where
  "TAILQ_INIT q = q\<lparr>tqh_first := None, tqh_last := Head\<rparr>"

definition TAILQ_INSERT_HEAD :: "nat \<Rightarrow> tailq \<Rightarrow> tailq" where
  "TAILQ_INSERT_HEAD elm q =
     (let q = q\<lparr>tqe_next := (tqe_next q)(elm := tqh_first q)\<rparr>;
          q = (case tqh_first q of
                 Some f \<Rightarrow> q\<lparr>tqe_prev := (tqe_prev q)(f := NextOf elm)\<rparr>
               | None \<Rightarrow> q\<lparr>tqh_last := NextOf elm\<rparr>);
          q = q\<lparr>tqh_first := Some elm\<rparr>
      in q\<lparr>tqe_prev := (tqe_prev q)(elm := Head)\<rparr>)"

definition TAILQ_INSERT_TAIL :: "nat \<Rightarrow> tailq \<Rightarrow> tailq" where
  "TAILQ_INSERT_TAIL elm q =
     (let q = q\<lparr>tqe_next := (tqe_next q)(elm := None)\<rparr>;
          q = q\<lparr>tqe_prev := (tqe_prev q)(elm := tqh_last q)\<rparr>;
          q = assign q (tqh_last q) (Some elm)
      in q\<lparr>tqh_last := NextOf elm\<rparr>)"

definition TAILQ_INSERT_AFTER :: "nat \<Rightarrow> nat \<Rightarrow> tailq \<Rightarrow> tailq" where
  "TAILQ_INSERT_AFTER listelm elm q =
     (let q = q\<lparr>tqe_next := (tqe_next q)(elm := tqe_next q listelm)\<rparr>;
          q = (case tqe_next q elm of
                 Some n \<Rightarrow> q\<lparr>tqe_prev := (tqe_prev q)(n := NextOf elm)\<rparr>
               | None \<Rightarrow> q\<lparr>tqh_last := NextOf elm\<rparr>);
          q = q\<lparr>tqe_next := (tqe_next q)(listelm := Some elm)\<rparr>
      in q\<lparr>tqe_prev := (tqe_prev q)(elm := NextOf listelm)\<rparr>)"

definition TAILQ_INSERT_BEFORE :: "nat \<Rightarrow> nat \<Rightarrow> tailq \<Rightarrow> tailq" where
  "TAILQ_INSERT_BEFORE listelm elm q =
     (let q = q\<lparr>tqe_prev := (tqe_prev q)(elm := tqe_prev q listelm)\<rparr>;
          q = q\<lparr>tqe_next := (tqe_next q)(elm := Some listelm)\<rparr>;
          q = assign q (tqe_prev q listelm) (Some elm)
      in q\<lparr>tqe_prev := (tqe_prev q)(listelm := NextOf elm)\<rparr>)"

definition TAILQ_REMOVE :: "nat \<Rightarrow> tailq \<Rightarrow> tailq" where
  "TAILQ_REMOVE elm q =
     (let q = (case tqe_next q elm of
                 Some n \<Rightarrow> q\<lparr>tqe_prev := (tqe_prev q)(n := tqe_prev q elm)\<rparr>
               | None \<Rightarrow> q\<lparr>tqh_last := tqe_prev q elm\<rparr>)
      in assign q (tqe_prev q elm) (tqe_next q elm))"

text \<open>
  \<open>TAILQ_LAST\<close> and \<open>TAILQ_PREV\<close> take the address of a pointer for the address of a head,
  whose \<open>tqh_last\<close> is then the \<open>tqe_prev\<close> of the element.
\<close>

definition TAILQ_LAST :: "tailq \<Rightarrow> nat option" where
  "TAILQ_LAST q = deref q (case tqh_last q of Head \<Rightarrow> tqh_last q | NextOf e \<Rightarrow> tqe_prev q e)"

definition TAILQ_PREV :: "nat \<Rightarrow> tailq \<Rightarrow> nat option" where
  "TAILQ_PREV elm q = deref q (case tqe_prev q elm of Head \<Rightarrow> tqh_last q | NextOf e \<Rightarrow> tqe_prev q e)"

section \<open>Lists\<close>

fun seg :: "tailq \<Rightarrow> addr \<Rightarrow> nat list \<Rightarrow> bool" where
  "seg q a [] \<longleftrightarrow> True"
| "seg q a (x # xs) \<longleftrightarrow> deref q a = Some x \<and> tqe_prev q x = a \<and> seg q (NextOf x) xs"

definition end_addr :: "addr \<Rightarrow> nat list \<Rightarrow> addr" where
  "end_addr a xs = (if xs = [] then a else NextOf (last xs))"

definition tq_rep :: "tailq \<Rightarrow> nat list \<Rightarrow> bool" where
  "tq_rep q xs \<longleftrightarrow> distinct xs \<and> seg q Head xs \<and> deref q (end_addr Head xs) = None \<and>
     tqh_last q = end_addr Head xs"

lemma end_addr_simps [simp]:
  "end_addr a [] = a"
  "end_addr a (x # xs) = end_addr (NextOf x) xs"
  "end_addr a (xs @ ys) = end_addr (end_addr a xs) ys"
  by (auto simp: end_addr_def)

lemma seg_append [simp]: "seg q a (xs @ ys) \<longleftrightarrow> seg q a xs \<and> seg q (end_addr a xs) ys"
  by (induction xs arbitrary: a) (auto simp: end_addr_def)

lemma end_addr_cases: "end_addr Head xs = Head \<and> xs = [] \<or> (\<exists>e \<in> set xs. end_addr Head xs = NextOf e)"
  by (auto simp: end_addr_def)

text \<open>A segment is unchanged by changes elsewhere.\<close>

definition used :: "addr \<Rightarrow> nat list \<Rightarrow> addr set" where
  "used a xs = insert a (NextOf ` set xs)"

lemma seg_frame:
  assumes "seg q a xs" and "\<forall>x \<in> set xs. tqe_prev q' x = tqe_prev q x"
    and "xs \<noteq> [] \<longrightarrow> deref q' a = deref q a"
    and "\<forall>x \<in> set (butlast xs). tqe_next q' x = tqe_next q x"
  shows "seg q' a xs"
  using assms
proof (induction xs arbitrary: a)
  case Nil
  then show ?case by simp
next
  case (Cons x xs)
  have "xs \<noteq> [] \<longrightarrow> deref q' (NextOf x) = deref q (NextOf x)"
    using Cons.prems(4) by (cases xs) (auto simp: deref_def)
  moreover have "\<forall>y \<in> set (butlast xs). tqe_next q' y = tqe_next q y"
    using Cons.prems(4) by (cases xs) auto
  ultimately show ?case using Cons by auto
qed

lemma tq_rep_init: "tq_rep (TAILQ_INIT q) []"
  by (simp add: tq_rep_def TAILQ_INIT_def deref_def)

lemma tq_rep_first: "tq_rep q xs \<Longrightarrow> tqh_first q = (case xs of [] \<Rightarrow> None | x # _ \<Rightarrow> Some x)"
  by (cases xs) (auto simp: tq_rep_def deref_def)

lemma tq_rep_next:
  assumes "tq_rep q (xs @ x # ys)"
  shows "tqe_next q x = (case ys of [] \<Rightarrow> None | y # _ \<Rightarrow> Some y)"
  using assms by (cases ys) (auto simp: tq_rep_def deref_def end_addr_def split: if_splits)

lemma tq_rep_prev: "tq_rep q (xs @ x # ys) \<Longrightarrow> tqe_prev q x = end_addr Head xs"
  by (simp add: tq_rep_def)

lemma butlast_snoc_mem: "x \<in> set (butlast xs) \<Longrightarrow> distinct xs \<Longrightarrow> x \<noteq> last xs \<and> x \<in> set xs"
  by (metis append_butlast_last_id butlast.simps(1) distinct_butlast empty_iff in_set_butlastD list.set(1)
      not_distinct_conv_prefix)

lemma tq_rep_insert_tail:
  assumes rep: "tq_rep q xs" and new: "e \<notin> set xs"
  shows "tq_rep (TAILQ_INSERT_TAIL e q) (xs @ [e])"
proof (cases "xs = []")
  case True
  then show ?thesis using rep
    by (simp add: tq_rep_def TAILQ_INSERT_TAIL_def Let_def assign_def deref_def)
next
  case False
  let ?l = "last xs" and ?q = "TAILQ_INSERT_TAIL e q"
  have l: "tqh_last q = NextOf ?l" "?l \<in> set xs" "?l \<noteq> e" using rep new False by (auto simp: tq_rep_def end_addr_def)
  then have q: "tqe_next ?q = (tqe_next q)(e := None, ?l := Some e)" "tqe_prev ?q = (tqe_prev q)(e := NextOf ?l)"
    "tqh_first ?q = tqh_first q" "tqh_last ?q = NextOf e"
    by (simp_all add: TAILQ_INSERT_TAIL_def Let_def assign_def)
  have "seg ?q Head xs"
  proof (rule seg_frame [of q])
    show "seg q Head xs" using rep by (simp add: tq_rep_def)
    show "\<forall>x \<in> set xs. tqe_prev ?q x = tqe_prev q x" using new q(2) by auto
    show "xs \<noteq> [] \<longrightarrow> deref ?q Head = deref q Head" using q(3) by (simp add: deref_def)
    show "\<forall>x \<in> set (butlast xs). tqe_next ?q x = tqe_next q x"
      using q(1) new butlast_snoc_mem rep by (fastforce simp: tq_rep_def)
  qed
  then show ?thesis using rep new False q l by (simp add: tq_rep_def end_addr_def deref_def)
qed


text \<open>The start of a queue, up to the place of a change at address \<open>end_addr Head xs\<close>.\<close>

lemma seg_start:
  assumes "seg q Head xs" and "distinct xs" and "\<forall>x \<in> set xs. tqe_prev q' x = tqe_prev q x"
    and "xs = [] \<or> tqh_first q' = tqh_first q"
    and "\<forall>x \<in> set xs. NextOf x \<noteq> end_addr Head xs \<longrightarrow> tqe_next q' x = tqe_next q x"
  shows "seg q' Head xs"
proof (rule seg_frame [OF assms(1,3)])
  show "xs \<noteq> [] \<longrightarrow> deref q' Head = deref q Head" using assms(4) by (auto simp: deref_def)
  show "\<forall>x \<in> set (butlast xs). tqe_next q' x = tqe_next q x"
    using assms(2,5) butlast_snoc_mem by (fastforce simp: end_addr_def dest: in_set_butlastD)
qed

lemma seg_rest:
  assumes "seg q (NextOf y) xs" and "\<forall>x \<in> set xs. tqe_prev q' x = tqe_prev q x"
    and "\<forall>x \<in> set (y # xs). tqe_next q' x = tqe_next q x"
  shows "seg q' (NextOf y) xs"
  by (rule seg_frame [OF assms(1,2)]) (use assms(3) in \<open>auto simp: deref_def dest: in_set_butlastD\<close>)

lemma tq_rep_insert_before:
  assumes rep: "tq_rep q (xs @ y # ys)" and new: "e \<notin> set (xs @ y # ys)"
  shows "tq_rep (TAILQ_INSERT_BEFORE y e q) (xs @ e # y # ys)"
proof -
  let ?p = "end_addr Head xs" and ?q = "TAILQ_INSERT_BEFORE y e q"
  have p: "tqe_prev q y = ?p" using rep by (rule tq_rep_prev)
  have d: "distinct (xs @ y # ys)" "seg q Head xs" "seg q (NextOf y) ys" using rep by (auto simp: tq_rep_def)
  have ey: "e \<noteq> y" using new by auto
  have prev: "tqe_prev ?q = (tqe_prev q)(e := ?p, y := NextOf e)"
    using p ey by (auto simp: TAILQ_INSERT_BEFORE_def Let_def assign_def fun_upd_twist split: addr.splits)
  have nxt: "tqe_next ?q x = (if NextOf x = ?p then Some e else if x = e then Some y else tqe_next q x)" for x
    using p ey by (auto simp: TAILQ_INSERT_BEFORE_def Let_def assign_def split: addr.splits)
  have frst: "tqh_first ?q = (if ?p = Head then Some e else tqh_first q)" and lst: "tqh_last ?q = tqh_last q"
    using p ey by (auto simp: TAILQ_INSERT_BEFORE_def Let_def assign_def split: addr.splits)
  have ep: "NextOf e \<noteq> ?p" and pn: "NextOf x \<noteq> ?p" if "x \<in> set (y # ys)" for x
    using new that d(1) end_addr_cases [of xs] by (auto simp: disjoint_iff)
  have start: "seg ?q Head xs"
    by (rule seg_start [OF d(2)]) (use d new prev frst nxt in \<open>auto simp: end_addr_def\<close>)
  have rest: "seg ?q (NextOf y) ys"
    by (rule seg_rest [OF d(3)]) (use d new prev nxt pn in auto)
  have "deref ?q ?p = Some e"
    using frst nxt end_addr_cases [of xs] by (auto simp: deref_def)
  moreover have "deref ?q (NextOf e) = Some y" using nxt [of e] ep ey by (auto simp: deref_def)
  moreover have "deref ?q (end_addr (NextOf y) ys) = None"
  proof -
    have "end_addr (NextOf y) ys = NextOf (last (y # ys))" by (simp add: end_addr_def)
    moreover have "last (y # ys) \<in> set (y # ys)" by (rule last_in_set) simp
    ultimately show ?thesis using rep new nxt pn by (auto simp: tq_rep_def deref_def end_addr_def)
  qed
  ultimately show ?thesis
    using start rest prev lst rep new ey d by (simp add: tq_rep_def)
qed

lemma tq_rep_remove:
  assumes rep: "tq_rep q (xs @ e # ys)"
  shows "tq_rep (TAILQ_REMOVE e q) (xs @ ys)"
proof -
  let ?p = "end_addr Head xs" and ?q = "TAILQ_REMOVE e q"
  let ?n = "case ys of [] \<Rightarrow> None | y # _ \<Rightarrow> Some y"
  have p: "tqe_prev q e = ?p" using rep by (rule tq_rep_prev)
  have n: "tqe_next q e = ?n" using rep by (rule tq_rep_next)
  have d: "distinct (xs @ e # ys)" "seg q Head xs" "seg q (NextOf e) ys" using rep by (auto simp: tq_rep_def)
  have ep: "NextOf e \<noteq> ?p" using d(1) end_addr_cases [of xs] by auto
  have prev: "tqe_prev ?q = (case ys of [] \<Rightarrow> tqe_prev q | y # _ \<Rightarrow> (tqe_prev q)(y := ?p))"
    using p n by (auto simp: TAILQ_REMOVE_def Let_def assign_def split: addr.splits option.splits list.splits)
  have nxt: "tqe_next ?q x = (if NextOf x = ?p then ?n else tqe_next q x)" for x
    using p n d by (auto simp: TAILQ_REMOVE_def Let_def assign_def split: addr.splits option.splits list.splits)
  have frst: "tqh_first ?q = (if ?p = Head then ?n else tqh_first q)"
    and lst: "tqh_last ?q = (if ys = [] then ?p else tqh_last q)"
    using p n d by (auto simp: TAILQ_REMOVE_def Let_def assign_def split: addr.splits option.splits list.splits)
  have pn: "NextOf x \<noteq> ?p" if "x \<in> set ys" for x
    using that d(1) end_addr_cases [of xs] by (auto simp: disjoint_iff)
  have start: "seg ?q Head xs"
    by (rule seg_start [OF d(2)]) (use d prev frst nxt in \<open>auto simp: end_addr_def split: list.splits\<close>)
  have dp: "deref ?q ?p = ?n" using frst nxt end_addr_cases [of xs] by (auto simp: deref_def)
  show ?thesis
  proof (cases ys)
    case Nil
    then show ?thesis using start dp lst d rep by (simp add: tq_rep_def)
  next
    case (Cons y zs)
    have "seg ?q (NextOf y) zs"
      by (rule seg_rest [of q]) (use d Cons prev nxt pn in auto)
    moreover have "deref ?q (end_addr (NextOf y) zs) = None"
    proof -
      have "end_addr (NextOf y) zs = NextOf (last (y # zs))" by (simp add: end_addr_def)
      moreover have "last (y # zs) \<in> set ys" using Cons last_in_set [of "y # zs"] by simp
      ultimately show ?thesis using rep Cons nxt pn by (auto simp: tq_rep_def deref_def end_addr_def)
    qed
    ultimately show ?thesis using start dp lst d rep Cons prev by (simp add: tq_rep_def)
  qed
qed

lemma tq_rep_insert_head:
  assumes rep: "tq_rep q xs" and new: "e \<notin> set xs"
  shows "tq_rep (TAILQ_INSERT_HEAD e q) (e # xs)"
proof (cases xs)
  case Nil
  then show ?thesis using rep
    by (simp add: tq_rep_def TAILQ_INSERT_HEAD_def Let_def deref_def)
next
  case (Cons y ys)
  let ?q = "TAILQ_INSERT_HEAD e q"
  have f: "tqh_first q = Some y" using tq_rep_first [OF rep] Cons by simp
  then have q: "tqe_next ?q = (tqe_next q)(e := Some y)" "tqe_prev ?q = (tqe_prev q)(y := NextOf e, e := Head)"
    "tqh_first ?q = Some e" "tqh_last ?q = tqh_last q"
    by (simp_all add: TAILQ_INSERT_HEAD_def Let_def)
  have d: "distinct (y # ys)" "seg q (NextOf y) ys" using rep Cons by (auto simp: tq_rep_def)
  have "seg ?q (NextOf y) ys"
    by (rule seg_rest [OF d(2)]) (use d new Cons q in auto)
  moreover have "deref ?q (end_addr (NextOf y) ys) = None"
  proof -
    have "end_addr (NextOf y) ys = NextOf (last (y # ys))" by (simp add: end_addr_def)
    moreover have "last (y # ys) \<noteq> e" using new Cons last_in_set [of "y # ys"] by auto
    moreover have "tqe_next q (last (y # ys)) = None"
      using rep Cons by (simp add: tq_rep_def deref_def end_addr_def split: if_splits)
    ultimately show ?thesis using q by (simp add: deref_def)
  qed
  ultimately show ?thesis using q rep new Cons d
    by (simp add: tq_rep_def deref_def)
qed

lemma tq_rep_insert_after:
  assumes rep: "tq_rep q (xs @ y # ys)" and new: "e \<notin> set (xs @ y # ys)"
  shows "tq_rep (TAILQ_INSERT_AFTER y e q) (xs @ y # e # ys)"
proof (cases ys)
  case Nil
  have lst: "tqh_last q = NextOf y" using rep Nil by (simp add: tq_rep_def end_addr_def)
  have "tqe_next q y = None" using tq_rep_next [OF rep] Nil by simp
  then have "TAILQ_INSERT_AFTER y e q = TAILQ_INSERT_TAIL e q"
    using lst new by (simp add: TAILQ_INSERT_AFTER_def TAILQ_INSERT_TAIL_def Let_def assign_def)
  then show ?thesis using tq_rep_insert_tail [OF rep new] Nil by simp
next
  case (Cons z zs)
  have n: "tqe_next q y = Some z" using tq_rep_next [OF rep] Cons by simp
  have p: "tqe_prev q z = NextOf y" using rep Cons by (simp add: tq_rep_def)
  have "e \<noteq> y" "e \<noteq> z" "y \<noteq> z" using new rep Cons by (auto simp: tq_rep_def)
  then have "TAILQ_INSERT_AFTER y e q = TAILQ_INSERT_BEFORE z e q"
    using n p by (simp add: TAILQ_INSERT_AFTER_def TAILQ_INSERT_BEFORE_def Let_def assign_def fun_upd_twist)
  then show ?thesis
    using tq_rep_insert_before [of q "xs @ [y]" z zs e] rep new Cons by simp
qed

lemma tq_rep_last:
  assumes "tq_rep q xs"
  shows "TAILQ_LAST q = (if xs = [] then None else Some (last xs))"
proof (cases xs rule: rev_cases)
  case Nil
  then show ?thesis using assms by (simp add: TAILQ_LAST_def tq_rep_def)
next
  case (snoc ys x)
  then show ?thesis using assms by (simp add: TAILQ_LAST_def tq_rep_def end_addr_def)
qed

lemma tq_rep_prev_elem:
  assumes "tq_rep q (xs @ x # ys)"
  shows "TAILQ_PREV x q = (if xs = [] then None else Some (last xs))"
proof (cases xs rule: rev_cases)
  case Nil
  then have "tqh_last q = NextOf (last (x # ys))" "tqe_prev q x = Head" using assms by (auto simp: tq_rep_def end_addr_def)
  moreover have "tqe_next q (last (x # ys)) = None"
    using assms Nil by (simp add: tq_rep_def end_addr_def deref_def split: if_splits)
  ultimately show ?thesis using Nil by (simp add: TAILQ_PREV_def deref_def)
next
  case (snoc zs z)
  then show ?thesis using assms by (simp add: TAILQ_PREV_def tq_rep_def end_addr_def)
qed

section \<open>Traversal\<close>

text \<open>
  \<open>TAILQ_FOREACH\<close> visits \<open>nth_from q (tqh_first q) 0\<close>, \<open>nth_from q (tqh_first q) 1\<close> and so on
  until one of them is \<open>NULL\<close>.
\<close>

fun nth_from :: "tailq \<Rightarrow> nat option \<Rightarrow> nat \<Rightarrow> nat option" where
  "nth_from q x 0 = x"
| "nth_from q x (Suc k) = (case x of None \<Rightarrow> None | Some e \<Rightarrow> nth_from q (tqe_next q e) k)"

text \<open>The elements a traversal visits, at most \<open>fuel\<close> of them.\<close>

fun foreach :: "tailq \<Rightarrow> nat option \<Rightarrow> nat \<Rightarrow> nat list option" where
  "foreach q None fuel = Some []"
| "foreach q (Some e) 0 = None"
| "foreach q (Some e) (Suc fuel) = map_option ((#) e) (foreach q (tqe_next q e) fuel)"

lemma foreach_seg:
  "seg q a xs \<Longrightarrow> deref q (end_addr a xs) = None \<Longrightarrow> length xs \<le> fuel \<Longrightarrow>
   foreach q (deref q a) fuel = Some xs"
proof (induction xs arbitrary: a fuel)
  case Nil
  then show ?case by simp
next
  case (Cons x xs)
  then obtain n where "fuel = Suc n" by (cases fuel) auto
  moreover have "deref q (NextOf x) = tqe_next q x" by (simp add: deref_def)
  ultimately show ?case using Cons.prems Cons.IH [of "NextOf x" n] by simp
qed

lemma tq_rep_foreach: "tq_rep q xs \<Longrightarrow> length xs \<le> fuel \<Longrightarrow> foreach q (tqh_first q) fuel = Some xs"
  using foreach_seg [of q Head xs fuel] by (simp add: tq_rep_def) (simp add: deref_def)

lemma closed_never_ends:
  assumes "\<forall>x \<in> S. \<exists>y \<in> S. tqe_next q x = Some y" and "e \<in> S"
  shows "foreach q (Some e) fuel = None"
  using assms(2)
proof (induction fuel arbitrary: e)
  case 0
  then show ?case by simp
next
  case (Suc n)
  then obtain y where "y \<in> S" "tqe_next q e = Some y" using assms(1) by blast
  then show ?case using Suc.IH by simp
qed

lemma double_insert_cycles:
  assumes rep: "tq_rep q (xs @ y # ys @ e # zs)"
  shows "foreach (TAILQ_INSERT_BEFORE y e q) (Some e) fuel = None"
proof -
  let ?p = "end_addr Head xs" and ?q = "TAILQ_INSERT_BEFORE y e q"
  have p: "tqe_prev q y = ?p" using rep by (rule tq_rep_prev)
  have d: "distinct (xs @ y # ys @ e # zs)" using rep by (simp add: tq_rep_def)
  then have pn: "NextOf x \<noteq> ?p" if "x \<in> set (y # ys @ [e])" for x
    using that end_addr_cases [of xs] by auto
  have nxt: "tqe_next ?q x = (if x = e then Some y else tqe_next q x)" if "x \<in> set (y # ys @ [e])" for x
    using p d pn [OF that] by (auto simp: TAILQ_INSERT_BEFORE_def Let_def assign_def split: addr.splits)
  have "\<exists>x' \<in> set (y # ys @ [e]). tqe_next ?q x = Some x'" if x: "x \<in> set (y # ys @ [e])" for x
  proof (cases "x = e")
    case True
    then show ?thesis using nxt [OF x] by simp
  next
    case False
    then obtain us vs where uv: "y # ys = us @ x # vs" using x split_list [of x "y # ys"] by auto
    have "xs @ y # ys @ e # zs = xs @ (y # ys) @ e # zs" by simp
    then have "xs @ y # ys @ e # zs = (xs @ us) @ x # (vs @ e # zs)" unfolding uv by simp
    then have "tqe_next q x = (case vs @ e # zs of [] \<Rightarrow> None | w # _ \<Rightarrow> Some w)"
      using tq_rep_next [of q "xs @ us" x "vs @ e # zs"] rep by metis
    moreover have "set vs \<subseteq> set (y # ys)" unfolding uv by auto
    ultimately show ?thesis using nxt [OF x] False by (cases vs) auto
  qed
  then show ?thesis by (intro closed_never_ends [of "set (y # ys @ [e])"]) auto
qed

section \<open>The interface of a list of elements\<close>

text \<open>
  What the components rely on: the four operations that they apply to their queues, and a
  traversal that ends and visits the list.
\<close>

locale element_list =
  fixes rep :: "'q \<Rightarrow> 'e list \<Rightarrow> bool"
    and insert_tail :: "'e \<Rightarrow> 'q \<Rightarrow> 'q"
    and insert_before :: "'e \<Rightarrow> 'e \<Rightarrow> 'q \<Rightarrow> 'q"
    and remove :: "'e \<Rightarrow> 'q \<Rightarrow> 'q"
    and visit :: "'q \<Rightarrow> nat \<Rightarrow> 'e list option"
  assumes rep_distinct: "rep q xs \<Longrightarrow> distinct xs"
    and rep_tail: "rep q xs \<Longrightarrow> e \<notin> set xs \<Longrightarrow> rep (insert_tail e q) (xs @ [e])"
    and rep_before: "rep q (xs @ y # ys) \<Longrightarrow> e \<notin> set (xs @ y # ys) \<Longrightarrow>
        rep (insert_before y e q) (xs @ e # y # ys)"
    and rep_remove: "rep q (xs @ e # ys) \<Longrightarrow> rep (remove e q) (xs @ ys)"
    and rep_visit: "rep q xs \<Longrightarrow> length xs \<le> fuel \<Longrightarrow> visit q fuel = Some xs"
begin

lemma rep_remove1: "rep q xs \<Longrightarrow> e \<in> set xs \<Longrightarrow> rep (remove e q) (remove1 e xs)"
proof -
  assume a: "rep q xs" "e \<in> set xs"
  then obtain ys zs where yz: "xs = ys @ e # zs" "e \<notin> set ys" by (meson split_list_first)
  then show ?thesis using a rep_remove by (simp add: remove1_append)
qed

lemma rep_move_before:
  "rep q (xs @ y # ys @ e # zs) \<Longrightarrow> rep (insert_before y e (remove e q)) (xs @ e # y # ys @ zs)"
proof -
  assume a: "rep q (xs @ y # ys @ e # zs)"
  then have "rep (remove e q) ((xs @ y # ys) @ zs)" using rep_remove [of q "xs @ y # ys" e zs] by simp
  moreover have "e \<notin> set (xs @ y # ys @ zs)" using rep_distinct [OF a] by auto
  ultimately show ?thesis using rep_before [of "remove e q" xs y "ys @ zs" e] by simp
qed

text \<open>Any sequence of insertions at the tail of fresh elements is visited in order.\<close>

lemma rep_insert_all:
  "rep q xs \<Longrightarrow> distinct (xs @ es) \<Longrightarrow> rep (fold insert_tail es q) (xs @ es)"
proof (induction es arbitrary: q xs)
  case Nil
  then show ?case by simp
next
  case (Cons e es)
  then show ?case using Cons.IH [of "insert_tail e q" "xs @ [e]"] rep_tail [of q xs e] by simp
qed

lemma visit_insert_all:
  "rep q [] \<Longrightarrow> distinct es \<Longrightarrow> length es \<le> fuel \<Longrightarrow> visit (fold insert_tail es q) fuel = Some es"
  using rep_insert_all [of q "[]" es] rep_visit by simp

end

interpretation tailq: element_list tq_rep TAILQ_INSERT_TAIL TAILQ_INSERT_BEFORE TAILQ_REMOVE
    "\<lambda>q. foreach q (tqh_first q)"
  by unfold_locales (auto simp: tq_rep_insert_tail tq_rep_insert_before tq_rep_remove tq_rep_foreach
      intro: tq_rep_def [THEN iffD1, THEN conjunct1])

section \<open>Properties\<close>

text \<open>
  C24: the pointer operations of a tail queue are the list operations: appending at the
  tail, inserting before an element, moving an element before another and removing one,
  after which a traversal with \<open>TAILQ_FOREACH\<close> ends and visits the list.
\<close>

theorem TAILQ_refines_list:
  assumes "distinct (xs @ y # ys)" and "e \<notin> set (xs @ y # ys)" and "r \<in> set (xs @ y # ys)"
    and "Suc (Suc (length (xs @ ys))) \<le> fuel"
  shows "let q = fold TAILQ_INSERT_TAIL (xs @ y # ys) (TAILQ_INIT q0);
             visit = (\<lambda>q. foreach q (tqh_first q) fuel)
         in visit q = Some (xs @ y # ys) \<and>
            visit (TAILQ_INSERT_BEFORE y e q) = Some (xs @ e # y # ys) \<and>
            visit (TAILQ_REMOVE r q) = Some (remove1 r (xs @ y # ys)) \<and>
            visit (TAILQ_REMOVE e (TAILQ_INSERT_BEFORE y e q)) = Some (xs @ y # ys)"
proof -
  let ?q = "fold TAILQ_INSERT_TAIL (xs @ y # ys) (TAILQ_INIT q0)"
  have rep: "tq_rep ?q (xs @ y # ys)"
    using tailq.rep_insert_all [OF tq_rep_init, of "xs @ y # ys" q0] assms(1) by simp
  then have before: "tq_rep (TAILQ_INSERT_BEFORE y e ?q) (xs @ e # y # ys)"
    using tailq.rep_before assms(2) by blast
  have len: "length (remove1 r (xs @ y # ys)) \<le> fuel"
    using assms(4) length_remove1 [of r "xs @ y # ys"] by simp
  have "foreach ?q (tqh_first ?q) fuel = Some (xs @ y # ys)"
    using tailq.rep_visit [OF rep, of fuel] assms(4) by simp
  moreover have "foreach (TAILQ_INSERT_BEFORE y e ?q) (tqh_first (TAILQ_INSERT_BEFORE y e ?q)) fuel = Some (xs @ e # y # ys)"
    using tailq.rep_visit [OF before, of fuel] assms(4) by simp
  moreover have "foreach (TAILQ_REMOVE r ?q) (tqh_first (TAILQ_REMOVE r ?q)) fuel = Some (remove1 r (xs @ y # ys))"
    using tailq.rep_visit [OF tailq.rep_remove1 [OF rep assms(3)] len] .
  moreover have "foreach (TAILQ_REMOVE e (TAILQ_INSERT_BEFORE y e ?q))
      (tqh_first (TAILQ_REMOVE e (TAILQ_INSERT_BEFORE y e ?q))) fuel = Some (xs @ y # ys)"
    using tailq.rep_visit [OF tailq.rep_remove [OF before], of fuel] assms(4) by simp
  ultimately show ?thesis by (simp only: Let_def)
qed

theorem TAILQ_refines_list_witness:
  "\<exists>q. foreach (TAILQ_REMOVE 5 q) (tqh_first (TAILQ_REMOVE 5 q)) 9 = Some [3, 4] \<and>
       foreach (TAILQ_INSERT_BEFORE 4 7 q) (tqh_first (TAILQ_INSERT_BEFORE 4 7 q)) 9 = Some [3, 7, 4, 5]"
proof -
  define q0 where "q0 = \<lparr>tqh_first = None, tqh_last = Head, tqe_next = (\<lambda>_. None), tqe_prev = (\<lambda>_. Head)\<rparr>"
  define q where "q = fold TAILQ_INSERT_TAIL ([3] @ 4 # [5]) (TAILQ_INIT q0)"
  show ?thesis
    using TAILQ_refines_list [of "[3]" 4 "[5]" 7 5 9 q0, folded q_def] by (auto simp: Let_def)
qed

text \<open>
  Inserting an element that is already further down the queue makes it a cycle: a
  traversal that reaches the element never ends.
\<close>

theorem TAILQ_double_insert:
  assumes "tq_rep q (xs @ y # ys @ e # zs)"
  shows "\<forall>fuel. foreach (TAILQ_INSERT_BEFORE y e q) (Some e) fuel = None"
  using double_insert_cycles [OF assms] by blast

theorem TAILQ_double_insert_witness:
  "\<exists>q. tq_rep q [1, 2] \<and> (\<forall>fuel. foreach (TAILQ_INSERT_BEFORE 1 2 q) (Some 2) fuel = None)"
proof -
  define q0 where "q0 = \<lparr>tqh_first = None, tqh_last = Head, tqe_next = (\<lambda>_. None), tqe_prev = (\<lambda>_. Head)\<rparr>"
  have "tq_rep (fold TAILQ_INSERT_TAIL [1, 2] (TAILQ_INIT q0)) [1, 2]"
    using tailq.rep_insert_all [OF tq_rep_init, of "[1, 2]" q0] by simp
  then show ?thesis using TAILQ_double_insert [of _ "[]" 1 "[]" 2 "[]"] by auto
qed

end
