(* ===== verification/ObjData.thy ===== *)
theory ObjData
  imports ClassTbl Queue
begin

text \<open>
  The data of Agar objects: variables and their type table (core/variable.h,
  core/variable.c), events (core/event.h), timers (core/time.h), dependencies and objects
  (core/object.h), and the memory they live in.

  Objects, variables, events and timers are known by their addresses; each kind has its
  own map from addresses to structures, in which an address that was never allocated, or
  was freed, is \<^const>\<open>None\<close>.  Plain C memory that variables point to is one more map: a
  cell holds a value of one C type, a buffer holds characters.  A union is a value tagged
  with the member that was written last; reading another member is left out of the model
  (\<^const>\<open>None\<close>), except after the all-zero initialisation.  A queue is the list that its
  TAILQ holds (see \<open>Queue\<close>); inserting an element that the list already has would make the
  queue a cycle, and is \<^const>\<open>None\<close>.  Floating-point values are their bit patterns.  Locks
  are not modelled; the configuration is the one without threads, with 64-bit integers
  and without \<open>long double\<close>.
\<close>

section \<open>Values and variable types\<close>

datatype cval =
    C_null
  | C_u "32 word" | C_i "32 word"
  | C_u8 "8 word" | C_s8 "8 word"
  | C_u16 "16 word" | C_s16 "16 word"
  | C_u32 "32 word" | C_s32 "32 word"
  | C_u64 "64 word" | C_s64 "64 word"
  | C_flt "32 word" | C_dbl "64 word"
  | C_p "nat option" | C_Cp "nat option"
  | C_s "nat option" | C_Cs "nat option"

datatype AG_VariableType =
    AG_VARIABLE_NULL
  | AG_VARIABLE_UINT | AG_VARIABLE_P_UINT
  | AG_VARIABLE_INT | AG_VARIABLE_P_INT
  | AG_VARIABLE_UINT8 | AG_VARIABLE_P_UINT8
  | AG_VARIABLE_SINT8 | AG_VARIABLE_P_SINT8
  | AG_VARIABLE_UINT16 | AG_VARIABLE_P_UINT16
  | AG_VARIABLE_SINT16 | AG_VARIABLE_P_SINT16
  | AG_VARIABLE_UINT32 | AG_VARIABLE_P_UINT32
  | AG_VARIABLE_SINT32 | AG_VARIABLE_P_SINT32
  | AG_VARIABLE_UINT64 | AG_VARIABLE_P_UINT64
  | AG_VARIABLE_SINT64 | AG_VARIABLE_P_SINT64
  | AG_VARIABLE_FLOAT | AG_VARIABLE_P_FLOAT
  | AG_VARIABLE_DOUBLE | AG_VARIABLE_P_DOUBLE
  | AG_VARIABLE_LONG_DOUBLE | AG_VARIABLE_P_LONG_DOUBLE
  | AG_VARIABLE_STRING | AG_VARIABLE_P_STRING
  | AG_VARIABLE_CONST_STRING | AG_VARIABLE_P_CONST_STRING
  | AG_VARIABLE_POINTER | AG_VARIABLE_P_POINTER
  | AG_VARIABLE_CONST_POINTER | AG_VARIABLE_P_CONST_POINTER
  | AG_VARIABLE_P_FLAG | AG_VARIABLE_P_FLAG8 | AG_VARIABLE_P_FLAG16 | AG_VARIABLE_P_FLAG32
  | AG_VARIABLE_P_OBJECT | AG_VARIABLE_P_TEXT | AG_VARIABLE_P_VARIABLE

record AG_VariableTypeInfo =
  vt_indirLvl :: nat
  vt_name :: string
  vt_typeTgt :: AG_VariableType
  vt_code :: int
  vt_size :: nat

definition vt :: "nat \<Rightarrow> string \<Rightarrow> AG_VariableType \<Rightarrow> int \<Rightarrow> nat \<Rightarrow> AG_VariableTypeInfo" where
  "vt l n t c s = \<lparr>vt_indirLvl = l, vt_name = n, vt_typeTgt = t, vt_code = c, vt_size = s\<rparr>"

text \<open>\<open>sizeof\<close> as on a 64-bit machine: int 4, long double 16, pointers 8.\<close>

fun agVariableTypes :: "AG_VariableType \<Rightarrow> AG_VariableTypeInfo" where
  "agVariableTypes AG_VARIABLE_NULL = vt 0 ''NULL'' AG_VARIABLE_NULL (-1) 0"
| "agVariableTypes AG_VARIABLE_UINT = vt 0 ''Uint'' AG_VARIABLE_UINT 0 4"
| "agVariableTypes AG_VARIABLE_P_UINT = vt 1 ''Uint *'' AG_VARIABLE_UINT 0 4"
| "agVariableTypes AG_VARIABLE_INT = vt 0 ''int'' AG_VARIABLE_INT 1 4"
| "agVariableTypes AG_VARIABLE_P_INT = vt 1 ''int *'' AG_VARIABLE_INT 1 4"
| "agVariableTypes AG_VARIABLE_UINT8 = vt 0 ''Uint8'' AG_VARIABLE_UINT8 2 1"
| "agVariableTypes AG_VARIABLE_P_UINT8 = vt 1 ''Uint8 *'' AG_VARIABLE_UINT8 2 1"
| "agVariableTypes AG_VARIABLE_SINT8 = vt 0 ''Sint8'' AG_VARIABLE_SINT8 3 1"
| "agVariableTypes AG_VARIABLE_P_SINT8 = vt 1 ''Sint8 *'' AG_VARIABLE_SINT8 3 1"
| "agVariableTypes AG_VARIABLE_UINT16 = vt 0 ''Uint16'' AG_VARIABLE_UINT16 4 2"
| "agVariableTypes AG_VARIABLE_P_UINT16 = vt 1 ''Uint16 *'' AG_VARIABLE_UINT16 4 2"
| "agVariableTypes AG_VARIABLE_SINT16 = vt 0 ''Sint16'' AG_VARIABLE_SINT16 5 2"
| "agVariableTypes AG_VARIABLE_P_SINT16 = vt 1 ''Sint16 *'' AG_VARIABLE_SINT16 5 2"
| "agVariableTypes AG_VARIABLE_UINT32 = vt 0 ''Uint32'' AG_VARIABLE_UINT32 6 4"
| "agVariableTypes AG_VARIABLE_P_UINT32 = vt 1 ''Uint32 *'' AG_VARIABLE_UINT32 6 4"
| "agVariableTypes AG_VARIABLE_SINT32 = vt 0 ''Sint32'' AG_VARIABLE_SINT32 7 4"
| "agVariableTypes AG_VARIABLE_P_SINT32 = vt 1 ''Sint32 *'' AG_VARIABLE_SINT32 7 4"
| "agVariableTypes AG_VARIABLE_UINT64 = vt 0 ''Uint64'' AG_VARIABLE_UINT64 8 8"
| "agVariableTypes AG_VARIABLE_P_UINT64 = vt 1 ''Uint64 *'' AG_VARIABLE_UINT64 8 8"
| "agVariableTypes AG_VARIABLE_SINT64 = vt 0 ''Sint64'' AG_VARIABLE_SINT64 9 8"
| "agVariableTypes AG_VARIABLE_P_SINT64 = vt 1 ''Sint64 *'' AG_VARIABLE_SINT64 9 8"
| "agVariableTypes AG_VARIABLE_FLOAT = vt 0 ''float'' AG_VARIABLE_FLOAT 10 4"
| "agVariableTypes AG_VARIABLE_P_FLOAT = vt 1 ''float *'' AG_VARIABLE_FLOAT 10 4"
| "agVariableTypes AG_VARIABLE_DOUBLE = vt 0 ''double'' AG_VARIABLE_DOUBLE 11 8"
| "agVariableTypes AG_VARIABLE_P_DOUBLE = vt 1 ''double *'' AG_VARIABLE_DOUBLE 11 8"
| "agVariableTypes AG_VARIABLE_LONG_DOUBLE = vt 0 ''long double'' AG_VARIABLE_LONG_DOUBLE 12 16"
| "agVariableTypes AG_VARIABLE_P_LONG_DOUBLE = vt 1 ''long double *'' AG_VARIABLE_LONG_DOUBLE 12 16"
| "agVariableTypes AG_VARIABLE_STRING = vt 0 ''Str'' AG_VARIABLE_STRING 13 8"
| "agVariableTypes AG_VARIABLE_P_STRING = vt 1 ''Str *'' AG_VARIABLE_STRING 13 8"
| "agVariableTypes AG_VARIABLE_CONST_STRING = vt 0 ''Const Str'' AG_VARIABLE_CONST_STRING 13 8"
| "agVariableTypes AG_VARIABLE_P_CONST_STRING = vt 1 ''Const Str *'' AG_VARIABLE_CONST_STRING 13 8"
| "agVariableTypes AG_VARIABLE_POINTER = vt 0 ''Ptr'' AG_VARIABLE_POINTER (-1) 8"
| "agVariableTypes AG_VARIABLE_P_POINTER = vt 1 ''Ptr *'' AG_VARIABLE_POINTER (-1) 8"
| "agVariableTypes AG_VARIABLE_CONST_POINTER = vt 0 ''Const Ptr'' AG_VARIABLE_CONST_POINTER (-1) 8"
| "agVariableTypes AG_VARIABLE_P_CONST_POINTER = vt 1 ''Const Ptr *'' AG_VARIABLE_CONST_POINTER (-1) 8"
| "agVariableTypes AG_VARIABLE_P_FLAG = vt 1 ''Flag *'' AG_VARIABLE_P_FLAG (-1) 4"
| "agVariableTypes AG_VARIABLE_P_FLAG8 = vt 1 ''Flag8 *'' AG_VARIABLE_P_FLAG8 (-1) 1"
| "agVariableTypes AG_VARIABLE_P_FLAG16 = vt 1 ''Flag16 *'' AG_VARIABLE_P_FLAG16 (-1) 2"
| "agVariableTypes AG_VARIABLE_P_FLAG32 = vt 1 ''Flag32 *'' AG_VARIABLE_P_FLAG32 (-1) 4"
| "agVariableTypes AG_VARIABLE_P_OBJECT = vt 1 ''Object *'' AG_VARIABLE_P_OBJECT (-1) 8"
| "agVariableTypes AG_VARIABLE_P_TEXT = vt 1 ''Text *'' AG_VARIABLE_P_TEXT (-1) 8"
| "agVariableTypes AG_VARIABLE_P_VARIABLE = vt 1 ''Variable *'' AG_VARIABLE_P_VARIABLE (-1) 8"

text \<open>The union \<open>info\<close> of a variable: a string size, a bit mask, or the key of a reference.\<close>

datatype vinfo = I_size nat | I_mask "32 word" | I_ref "string option"

record AG_Variable =
  v_name :: string
  v_type :: AG_VariableType
  v_mutex :: "nat option"
  v_info :: vinfo
  v_fn :: "nat option"
  v_data :: cval

text \<open>\<open>info.size\<close>; a null reference key is all zero.\<close>

definition info_size :: "AG_Variable \<Rightarrow> nat option" where
  "info_size V = (case v_info V of I_size n \<Rightarrow> Some n | I_ref None \<Rightarrow> Some 0 | _ \<Rightarrow> None)"

definition AG_InitVariable :: "AG_VariableType \<Rightarrow> AG_Variable \<Rightarrow> AG_Variable" where
  "AG_InitVariable t V = V\<lparr>v_type := t, v_mutex := None, v_fn := None, v_info := I_ref None,
     v_data := C_s None\<rparr>"

section \<open>Events, timers, objects\<close>

record AG_Event =
  ev_name :: string
  ev_flags :: "32 word"
  ev_fn :: "nat option"
  ev_argc :: nat
  ev_argc0 :: nat
  ev_argv :: "AG_Variable list"

definition AG_EVENT_PROPAGATE :: "32 word" where
  "AG_EVENT_PROPAGATE = 0x02"

abbreviation AG_EVENT_ARGS_MAX :: nat where "AG_EVENT_ARGS_MAX \<equiv> 16"
abbreviation AG_EVENT_NAME_MAX :: nat where "AG_EVENT_NAME_MAX \<equiv> 32"
abbreviation AG_VARIABLE_NAME_MAX :: nat where "AG_VARIABLE_NAME_MAX \<equiv> 40"
abbreviation AG_OBJECT_PATH_MAX :: nat where "AG_OBJECT_PATH_MAX \<equiv> 1024"

record AG_Timer =
  to_id :: int
  to_obj :: "nat option"
  to_flags :: "32 word"
  to_tSched :: "32 word"
  to_ival :: "32 word"
  to_fn :: "nat option"
  to_fnEvent :: AG_Event
  to_name :: string

definition AG_TIMER_AUTO_FREE :: "32 word" where
  "AG_TIMER_AUTO_FREE = 0x02"

text \<open>
  Sinks and the source of events.  Of the changes for kqueue only what the code queues is kept: the action stands for the
  flags \<open>EV_ADD\<close>, \<open>EV_ENABLE\<close>, \<open>EV_ONESHOT\<close> and \<open>EV_DELETE\<close>, and \<open>EV_ERROR\<close> marks events that report a failed change.
\<close>

datatype ag_event_sink_type = AG_SINK_NONE | AG_SINK_PROLOGUE | AG_SINK_EPILOGUE | AG_SINK_SPINNER | AG_SINK_TERMINATOR | AG_SINK_TIMER
  | AG_SINK_READ | AG_SINK_WRITE | AG_SINK_FSEVENT | AG_SINK_PROCEVENT

record AG_EventSink =
  sk_type :: ag_event_sink_type
  sk_ident :: int
  sk_flags :: "32 word"
  sk_flagsMatched :: "32 word"
  sk_fn :: nat
  sk_fnArgs :: AG_Event

datatype sink_method = By_kqueue | By_timerfd | By_timedselect | By_select | By_spinner

datatype ev_filter = EVFILT_TIMER | EVFILT_READ | EVFILT_WRITE | EVFILT_VNODE | EVFILT_PROC | EVFILT_other

datatype kev_action = EV_ADD_ENABLE | EV_ADD_ENABLE_ONESHOT | EV_DELETE | EV_ERROR | EV_none

record kevent =
  ke_ident :: int
  ke_filter :: ev_filter
  ke_flags :: kev_action
  ke_fflags :: "32 word"
  ke_data :: int
  ke_udata :: "nat option"

record event_source =
  so_caps :: "ag_event_sink_type \<Rightarrow> bool"
  so_flags :: "32 word"
  so_breakReq :: int
  so_returnCode :: int
  so_sinkFn :: sink_method
  so_timerFns :: bool
  so_prologues :: "nat list"
  so_epilogues :: "nat list"
  so_spinners :: "nat list"
  so_sinks :: "nat list"
  so_changes :: "kevent list"
  so_maxChanges :: nat

record AG_ObjectDep =
  dep_persistent :: int
  dep_path :: "string option"
  dep_obj :: "nat option"
  dep_count :: "32 word"

record AG_Object =
  ob_name :: string
  ob_archivePath :: "string option"
  ob_save_pfx :: "string option"
  ob_cls :: nat
  ob_flags :: "32 word"
  ob_events :: "nat list"
  ob_timers :: "nat list"
  ob_vars :: "nat list"
  ob_deps :: "AG_ObjectDep list"
  ob_children :: "nat list"
  ob_parent :: "nat option"
  ob_root :: nat
  ob_attachFn :: "nat option"
  ob_detachFn :: "nat option"

section \<open>Memory\<close>

datatype memobj = M_cell cval | M_buf "char list"

record world =
  w_objs :: "nat \<Rightarrow> AG_Object option"
  w_vars :: "nat \<Rightarrow> AG_Variable option"
  w_events :: "nat \<Rightarrow> AG_Event option"
  w_timers :: "nat \<Rightarrow> AG_Timer option"
  w_mem :: "nat \<Rightarrow> memobj option"
  w_brk :: nat
  w_timerObjQ :: "nat list"
  w_reg :: class_reg
  w_source :: "event_source option"
  w_sinks :: "nat \<Rightarrow> AG_EventSink option"
  w_timerCount :: "32 word"

text \<open>A structure that is all zero, and a memory without objects, for the examples.\<close>

definition blank_obj :: AG_Object where
  "blank_obj = \<lparr>ob_name = [], ob_archivePath = None, ob_save_pfx = None, ob_cls = agObjectClass,
     ob_flags = 0, ob_events = [], ob_timers = [], ob_vars = [], ob_deps = [], ob_children = [],
     ob_parent = None, ob_root = 0, ob_attachFn = None, ob_detachFn = None\<rparr>"

definition blank_world :: world where
  "blank_world = \<lparr>w_objs = Map.empty, w_vars = Map.empty, w_events = Map.empty, w_timers = Map.empty,
     w_mem = Map.empty, w_brk = 0, w_timerObjQ = [],
     w_reg = the (AG_InitClassTbl (\<lambda>_. \<lparr>cl_hier = [], cl_name = [], cl_libs = [], cl_sub = [], cl_super = None\<rparr>)),
     w_source = None, w_sinks = Map.empty, w_timerCount = 0\<rparr>"

text \<open>A new structure gets an address that was never used before.\<close>

definition fresh :: "world \<Rightarrow> nat \<times> world" where
  "fresh w = (w_brk w, w\<lparr>w_brk := Suc (w_brk w)\<rparr>)"

definition put_obj :: "nat \<Rightarrow> AG_Object \<Rightarrow> world \<Rightarrow> world" where
  "put_obj p ob w = w\<lparr>w_objs := (w_objs w)(p \<mapsto> ob)\<rparr>"

definition put_var :: "nat \<Rightarrow> AG_Variable \<Rightarrow> world \<Rightarrow> world" where
  "put_var v V w = w\<lparr>w_vars := (w_vars w)(v \<mapsto> V)\<rparr>"

definition put_event :: "nat \<Rightarrow> AG_Event \<Rightarrow> world \<Rightarrow> world" where
  "put_event e ev w = w\<lparr>w_events := (w_events w)(e \<mapsto> ev)\<rparr>"

definition put_timer :: "nat \<Rightarrow> AG_Timer \<Rightarrow> world \<Rightarrow> world" where
  "put_timer t to w = w\<lparr>w_timers := (w_timers w)(t \<mapsto> to)\<rparr>"

definition put_mem :: "nat \<Rightarrow> memobj \<Rightarrow> world \<Rightarrow> world" where
  "put_mem a m w = w\<lparr>w_mem := (w_mem w)(a \<mapsto> m)\<rparr>"

named_theorems world_simps

lemma put_simps [simp]:
  "w_objs (put_obj p ob w) = (w_objs w)(p \<mapsto> ob)" "w_vars (put_obj p ob w) = w_vars w"
  "w_events (put_obj p ob w) = w_events w" "w_timers (put_obj p ob w) = w_timers w"
  "w_mem (put_obj p ob w) = w_mem w" "w_brk (put_obj p ob w) = w_brk w"
  "w_timerObjQ (put_obj p ob w) = w_timerObjQ w" "w_reg (put_obj p ob w) = w_reg w"
  "w_objs (put_var v V w) = w_objs w" "w_vars (put_var v V w) = (w_vars w)(v \<mapsto> V)"
  "w_events (put_var v V w) = w_events w" "w_timers (put_var v V w) = w_timers w"
  "w_mem (put_var v V w) = w_mem w" "w_brk (put_var v V w) = w_brk w"
  "w_timerObjQ (put_var v V w) = w_timerObjQ w" "w_reg (put_var v V w) = w_reg w"
  "w_objs (put_event e ev w) = w_objs w" "w_vars (put_event e ev w) = w_vars w"
  "w_events (put_event e ev w) = (w_events w)(e \<mapsto> ev)" "w_timers (put_event e ev w) = w_timers w"
  "w_mem (put_event e ev w) = w_mem w" "w_brk (put_event e ev w) = w_brk w"
  "w_timerObjQ (put_event e ev w) = w_timerObjQ w" "w_reg (put_event e ev w) = w_reg w"
  "w_objs (put_timer t to w) = w_objs w" "w_vars (put_timer t to w) = w_vars w"
  "w_events (put_timer t to w) = w_events w" "w_timers (put_timer t to w) = (w_timers w)(t \<mapsto> to)"
  "w_mem (put_timer t to w) = w_mem w" "w_brk (put_timer t to w) = w_brk w"
  "w_timerObjQ (put_timer t to w) = w_timerObjQ w" "w_reg (put_timer t to w) = w_reg w"
  "w_objs (put_mem a m w) = w_objs w" "w_vars (put_mem a m w) = w_vars w"
  "w_events (put_mem a m w) = w_events w" "w_timers (put_mem a m w) = w_timers w"
  "w_mem (put_mem a m w) = (w_mem w)(a \<mapsto> m)" "w_brk (put_mem a m w) = w_brk w"
  "w_timerObjQ (put_mem a m w) = w_timerObjQ w" "w_reg (put_mem a m w) = w_reg w"
  by (simp_all add: put_obj_def put_var_def put_event_def put_timer_def put_mem_def)

section \<open>Queues as lists\<close>

text \<open>
  The search of a queue for the first structure with a property,
  \<open>TAILQ_FOREACH(x, ...) if (...) break;\<close>.  \<open>Some None\<close>: the loop ended with \<open>NULL\<close>.
\<close>

fun find_first :: "(nat \<Rightarrow> 'r option) \<Rightarrow> ('r \<Rightarrow> bool) \<Rightarrow> nat list \<Rightarrow> nat option option" where
  "find_first m P [] = Some None"
| "find_first m P (x # xs) = do { r \<leftarrow> m x; if P r then Some (Some x) else find_first m P xs }"

definition q_insert_tail :: "nat \<Rightarrow> nat list \<Rightarrow> nat list option" where
  "q_insert_tail e xs = (if e \<in> set xs then None else Some (xs @ [e]))"

definition q_insert_before :: "nat \<Rightarrow> nat \<Rightarrow> nat list \<Rightarrow> nat list option" where
  "q_insert_before y e xs =
     (if e \<in> set xs then None
      else Some (takeWhile (\<lambda>x. x \<noteq> y) xs @ e # dropWhile (\<lambda>x. x \<noteq> y) xs))"

definition q_remove :: "nat \<Rightarrow> nat list \<Rightarrow> nat list option" where
  "q_remove e xs = (if e \<in> set xs then Some (remove1 e xs) else None)"

lemma find_first_None:
  "find_first m P xs = Some None \<longleftrightarrow> (\<forall>x \<in> set xs. \<exists>r. m x = Some r \<and> \<not> P r)"
  by (induction xs) (auto simp: bind_eq_Some_conv)

lemma find_first_SomeI:
  "\<forall>y \<in> set ys. \<exists>r. m y = Some r \<and> \<not> P r \<Longrightarrow> m x = Some r \<Longrightarrow> P r \<Longrightarrow>
   find_first m P (ys @ x # zs) = Some (Some x)"
  by (induction ys) auto

lemma find_first_SomeD:
  "find_first m P xs = Some (Some x) \<Longrightarrow>
     \<exists>ys zs r. xs = ys @ x # zs \<and> m x = Some r \<and> P r \<and> (\<forall>y \<in> set ys. \<exists>r. m y = Some r \<and> \<not> P r)"
proof (induction xs)
  case Nil
  then show ?case by simp
next
  case (Cons a xs)
  then obtain r where r: "m a = Some r" by (auto simp: bind_eq_Some_conv)
  show ?case
  proof (cases "P r")
    case True
    then show ?thesis using Cons.prems r by (intro exI [of _ "[]"] exI [of _ xs]) auto
  next
    case False
    then obtain ys zs r' where "xs = ys @ x # zs" "m x = Some r'" "P r'"
      "\<forall>y \<in> set ys. \<exists>r. m y = Some r \<and> \<not> P r" using Cons r by auto
    then show ?thesis using r False
      by (intro exI [of _ "a # ys"] exI [of _ zs] exI [of _ r']) auto
  qed
qed

lemma find_first_total:
  "\<forall>x \<in> set xs. m x \<noteq> None \<Longrightarrow> \<exists>r. find_first m P xs = Some r"
  by (induction xs) auto

lemma find_first_cong:
  "(\<And>x. x \<in> set xs \<Longrightarrow> m x = m' x) \<Longrightarrow> find_first m P xs = find_first m' P xs"
proof (induction xs)
  case (Cons a xs)
  then have "m a = m' a" "find_first m P xs = find_first m' P xs" by auto
  then show ?case by (simp only: find_first.simps)
qed simp

text \<open>The pointer operations on a queue that holds the list, when the list operations succeed.\<close>

lemma q_insert_tail_refines:
  "tq_rep q xs \<Longrightarrow> q_insert_tail e xs = Some ys \<Longrightarrow> tq_rep (TAILQ_INSERT_TAIL e q) ys"
  by (auto simp: q_insert_tail_def tq_rep_insert_tail split: if_splits)

lemma q_insert_before_refines:
  assumes "tq_rep q xs" and "y \<in> set xs" and "q_insert_before y e xs = Some ys"
  shows "tq_rep (TAILQ_INSERT_BEFORE y e q) ys"
proof -
  obtain as bs where xs: "xs = as @ y # bs" "y \<notin> set as" using assms(2) by (meson split_list_first)
  have "takeWhile (\<lambda>x. x \<noteq> y) xs = as" "dropWhile (\<lambda>x. x \<noteq> y) xs = y # bs"
    using xs(2) unfolding xs(1) by (induction as) auto
  then show ?thesis
    using assms xs tq_rep_insert_before [of q as y bs e] by (auto simp: q_insert_before_def split: if_splits)
qed

lemma q_remove_refines:
  "tq_rep q xs \<Longrightarrow> q_remove e xs = Some ys \<Longrightarrow> tq_rep (TAILQ_REMOVE e q) ys"
  using tailq.rep_remove1 by (auto simp: q_remove_def split: if_splits)

end
