(* ===== verification/Events.thy ===== *)
theory Events
  imports ObjData
begin

text \<open>
  The events of core/event.c and core/event.h: event structures and their arguments,
  event handlers (AG_SetEvent and its relatives), posting, propagation to descendants and
  forwarding.

  A handler is the parameter \<open>call\<close>: given the address of a function and the event
  structure it is passed, it changes the world, and may do anything, event lists
  included.  The traversals therefore follow the list as it is after each call: the
  successor of the current element is looked up again, and is undefined when a handler
  has removed that element.  Since a handler can make a traversal endless, the loops
  carry fuel; running out of it is \<^const>\<open>None\<close>.  The delivery of an event to a thread of
  its own (\<open>AG_EVENT_ASYNC\<close>) exists only with threads.
\<close>

type_synonym handlers = "nat \<Rightarrow> AG_Event \<Rightarrow> world \<Rightarrow> world option"

section \<open>Event structures\<close>

definition blank_var :: AG_Variable where
  "blank_var = \<lparr>v_name = [], v_type = AG_VARIABLE_NULL, v_mutex = None, v_info = I_ref None,
     v_fn = None, v_data = C_null\<rparr>"

text \<open>A structure as \<open>malloc\<close> returns it; its contents are only read after being written.\<close>

definition blank_event :: AG_Event where
  "blank_event = \<lparr>ev_name = [], ev_flags = 0, ev_fn = None, ev_argc = 0, ev_argc0 = 0,
     ev_argv = replicate AG_EVENT_ARGS_MAX blank_var\<rparr>"

definition InitPointerArg :: "nat option \<Rightarrow> AG_Variable \<Rightarrow> AG_Variable" where
  "InitPointerArg p V = V\<lparr>v_name := [], v_type := AG_VARIABLE_POINTER, v_fn := None, v_mutex := None,
     v_data := C_p p\<rparr>"

text \<open>\<open>InitPointerArg(&ev->argv[i], p)\<close>\<close>

definition set_ptr_arg :: "nat \<Rightarrow> nat option \<Rightarrow> AG_Event \<Rightarrow> AG_Event option" where
  "set_ptr_arg i p ev = do {
     V \<leftarrow> rd (ev_argv ev) i;
     argv \<leftarrow> wr (ev_argv ev) i (InitPointerArg p V);
     Some (ev\<lparr>ev_argv := argv\<rparr>)
   }"

definition InitEvent :: "nat option \<Rightarrow> AG_Event \<Rightarrow> AG_Event option" where
  "InitEvent ob ev = set_ptr_arg 0 ob (ev\<lparr>ev_flags := 0, ev_argc := 1, ev_argc0 := 1, ev_fn := None\<rparr>)"

text \<open>
  \<open>AG_EVENT_INS_ARG\<close>: one argument of type \<open>t\<close> from the variable arguments; the value
  must be of the kind the format asks for.  A \<open>double\<close> argument that is stored in a
  \<open>float\<close> appears in the list already converted.
\<close>

definition INS_ARG :: "AG_VariableType \<Rightarrow> (cval \<Rightarrow> bool) \<Rightarrow> AG_Event \<Rightarrow> cval list \<Rightarrow> (AG_Event \<times> cval list) option" where
  "INS_ARG t kind ev ap = (case ap of
     [] \<Rightarrow> None
   | val # ap \<Rightarrow>
       if \<not> kind val then None
       else do {
         V \<leftarrow> rd (ev_argv ev) (ev_argc ev);
         argv \<leftarrow> wr (ev_argv ev) (ev_argc ev) (V\<lparr>v_type := t, v_mutex := None, v_data := val, v_fn := None\<rparr>);
         Some (ev\<lparr>ev_argv := argv, ev_argc := ev_argc ev + 1\<rparr>, ap)
       })"

definition is_p :: "cval \<Rightarrow> bool" where "is_p v = (case v of C_p _ \<Rightarrow> True | _ \<Rightarrow> False)"
definition is_Cp :: "cval \<Rightarrow> bool" where "is_Cp v = (case v of C_Cp _ \<Rightarrow> True | _ \<Rightarrow> False)"
definition is_s :: "cval \<Rightarrow> bool" where "is_s v = (case v of C_s _ \<Rightarrow> True | _ \<Rightarrow> False)"
definition is_Cs :: "cval \<Rightarrow> bool" where "is_Cs v = (case v of C_Cs _ \<Rightarrow> True | _ \<Rightarrow> False)"
definition is_i :: "cval \<Rightarrow> bool" where "is_i v = (case v of C_i _ \<Rightarrow> True | _ \<Rightarrow> False)"
definition is_flt :: "cval \<Rightarrow> bool" where "is_flt v = (case v of C_flt _ \<Rightarrow> True | _ \<Rightarrow> False)"
definition is_dbl :: "cval \<Rightarrow> bool" where "is_dbl v = (case v of C_dbl _ \<Rightarrow> True | _ \<Rightarrow> False)"
definition is_s32 :: "cval \<Rightarrow> bool" where "is_s32 v = (case v of C_s32 _ \<Rightarrow> True | _ \<Rightarrow> False)"
definition is_u32 :: "cval \<Rightarrow> bool" where "is_u32 v = (case v of C_u32 _ \<Rightarrow> True | _ \<Rightarrow> False)"

lemmas is_simps = is_p_def is_Cp_def is_s_def is_Cs_def is_i_def is_flt_def is_dbl_def is_s32_def is_u32_def

text \<open>
  The name in parentheses after a conversion: \<open>c\<close> is at the opening parenthesis, and is
  moved past the name and, when the (truncated) name has one, its closing parenthesis.
\<close>

definition arg_name :: "string \<Rightarrow> AG_Event \<Rightarrow> (string \<times> AG_Event) option" where
  "arg_name c ev = do {
     V \<leftarrow> rd (ev_argv ev) (ev_argc ev - 1);
     let (name, c) = (if take 1 c = ''('' \<and> 1 < length c then
           (let name = str_cpy AG_VARIABLE_NAME_MAX (drop 1 c);
                i = first_idx (\<lambda>x. x = CHR '')'') name
            in if i < length name then (take i name, drop (i + 2) c) else (name, drop (length name) c))
         else ([], c));
     argv \<leftarrow> wr (ev_argv ev) (ev_argc ev - 1) (V\<lparr>v_name := name\<rparr>);
     Some (c, ev\<lparr>ev_argv := argv\<rparr>)
   }"

lemma arg_name_length: "arg_name c ev = Some (c', ev') \<Longrightarrow> length c' \<le> length c"
  by (auto simp: arg_name_def bind_eq_Some_conv Let_def split: if_splits)

text \<open>
  \<open>AG_EVENT_GET_ARGS\<close> with a format that is not NULL.  A conversion that is not known,
  the end of the arguments and more than 16 arguments are undefined or fatal.
\<close>

definition push_conv :: "char \<Rightarrow> string \<Rightarrow> cval list \<Rightarrow> AG_Event \<Rightarrow> (string \<times> AG_Event \<times> cval list) option" where
  "push_conv c cs ap ev =
     (if c = CHR ''p'' then do { r \<leftarrow> INS_ARG AG_VARIABLE_POINTER is_p ev ap; Some (cs, r) }
      else if c = CHR ''i'' then do { r \<leftarrow> INS_ARG AG_VARIABLE_INT is_i ev ap; Some (cs, r) }
      else if c = CHR ''u'' then do { r \<leftarrow> INS_ARG AG_VARIABLE_UINT is_i ev ap; Some (cs, r) }
      else if c = CHR ''f'' then do { r \<leftarrow> INS_ARG AG_VARIABLE_FLOAT is_flt ev ap; Some (cs, r) }
      else if c = CHR ''d'' then do { r \<leftarrow> INS_ARG AG_VARIABLE_DOUBLE is_dbl ev ap; Some (cs, r) }
      else if c = CHR ''s'' then do { r \<leftarrow> INS_ARG AG_VARIABLE_STRING is_s ev ap; Some (cs, r) }
      else if c = CHR ''l'' \<and> take 1 cs = ''i'' then
        do { r \<leftarrow> INS_ARG AG_VARIABLE_SINT32 is_s32 ev ap; Some (drop 1 cs, r) }
      else if c = CHR ''l'' \<and> take 1 cs = ''u'' then
        do { r \<leftarrow> INS_ARG AG_VARIABLE_UINT32 is_u32 ev ap; Some (drop 1 cs, r) }
      else if c = CHR ''C'' \<and> take 1 cs = ''s'' then
        do { r \<leftarrow> INS_ARG AG_VARIABLE_CONST_STRING is_Cs ev ap; Some (drop 1 cs, r) }
      else if c = CHR ''C'' \<and> take 1 cs = ''p'' then
        do { r \<leftarrow> INS_ARG AG_VARIABLE_CONST_POINTER is_Cp ev ap; Some (drop 1 cs, r) }
      else None)"

lemma push_conv_length: "push_conv c cs ap ev = Some (cs', ev', ap') \<Longrightarrow> length cs' \<le> length cs"
  by (auto simp: push_conv_def bind_eq_Some_conv split: if_splits)

function push_args :: "string \<Rightarrow> cval list \<Rightarrow> AG_Event \<Rightarrow> AG_Event option" where
  "push_args [] ap ev = Some ev"
| "push_args (c # cs) ap ev =
     (if c = CHR '' '' \<or> c = CHR '','' \<or> c = CHR ''%'' then push_args cs ap ev
      else do {
        (cs, ev, ap) \<leftarrow> push_conv c cs ap ev;
        (cs, ev) \<leftarrow> arg_name cs ev;
        push_args cs ap ev
      })"
  by pat_completeness auto
termination
  by (relation "measure (\<lambda>(c, ap, ev). length c)")
     (auto dest!: push_conv_length arg_name_length)

definition GET_ARGS :: "string option \<Rightarrow> cval list \<Rightarrow> AG_Event \<Rightarrow> AG_Event option" where
  "GET_ARGS fmt ap ev = (case fmt of None \<Rightarrow> Some ev | Some c \<Rightarrow> push_args c ap ev)"

definition AG_EventInit :: "AG_Event \<Rightarrow> AG_Event option" where
  "AG_EventInit ev = InitEvent None ev"

definition AG_EventArgs :: "AG_Event \<Rightarrow> string option \<Rightarrow> cval list \<Rightarrow> AG_Event option" where
  "AG_EventArgs ev fmt ap = do {
     ev \<leftarrow> InitEvent None ev;
     ev \<leftarrow> GET_ARGS fmt ap ev;
     Some (ev\<lparr>ev_argc0 := ev_argc ev\<rparr>)
   }"

section \<open>Handlers of an object\<close>

definition find_event :: "world \<Rightarrow> AG_Object \<Rightarrow> string \<Rightarrow> nat option option" where
  "find_event w ob name = find_first (w_events w) (\<lambda>ev. ev_name ev = name) (ob_events ob)"

definition AG_SetEvent ::
  "nat \<Rightarrow> string option \<Rightarrow> nat option \<Rightarrow> string option \<Rightarrow> cval list \<Rightarrow> world \<Rightarrow> (nat \<times> world) option" where
  "AG_SetEvent p name fn fmt ap w = do {
     ob \<leftarrow> w_objs w p;
     found \<leftarrow> (case name of None \<Rightarrow> Some None | Some s \<Rightarrow> find_event w ob s);
     (e, ev, w) \<leftarrow> (case found of
         None \<Rightarrow> do {
           let (e, w) = fresh w;
           ev \<leftarrow> InitEvent (Some p) blank_event;
           let ev = ev\<lparr>ev_name := (case name of None \<Rightarrow> [] | Some s \<Rightarrow> str_cpy AG_EVENT_NAME_MAX s)\<rparr>;
           evs \<leftarrow> q_insert_tail e (ob_events ob);
           Some (e, ev, put_obj p (ob\<lparr>ob_events := evs\<rparr>) w)
         }
       | Some e \<Rightarrow> do {
           ev \<leftarrow> w_events w e;
           Some (e, ev\<lparr>ev_argc := 1, ev_argc0 := 1\<rparr>, w)
         });
     ev \<leftarrow> set_ptr_arg 0 (Some p) ev;
     ev \<leftarrow> GET_ARGS fmt ap (ev\<lparr>ev_fn := fn\<rparr>);
     Some (e, put_event e (ev\<lparr>ev_argc0 := ev_argc ev\<rparr>) w)
   }"

definition AG_AddEvent ::
  "nat \<Rightarrow> string option \<Rightarrow> nat option \<Rightarrow> string option \<Rightarrow> cval list \<Rightarrow> world \<Rightarrow> (nat \<times> world) option" where
  "AG_AddEvent p name fn fmt ap w = do {
     ob \<leftarrow> w_objs w p;
     let (e, w) = fresh w;
     ev \<leftarrow> InitEvent (Some p) blank_event;
     ev \<leftarrow> (case name of
         Some s \<Rightarrow> do {
           found \<leftarrow> find_event w ob s;
           ev \<leftarrow> (case found of
               None \<Rightarrow> Some ev
             | Some e' \<Rightarrow> do { evOther \<leftarrow> w_events w e'; Some (ev\<lparr>ev_flags := ev_flags evOther\<rparr>) });
           Some (ev\<lparr>ev_name := str_cpy AG_EVENT_NAME_MAX s\<rparr>)
         }
       | None \<Rightarrow> Some (ev\<lparr>ev_name := []\<rparr>));
     ev \<leftarrow> GET_ARGS fmt ap (ev\<lparr>ev_fn := fn\<rparr>);
     evs \<leftarrow> q_insert_tail e (ob_events ob);
     Some (e, put_event e (ev\<lparr>ev_argc0 := ev_argc ev\<rparr>) (put_obj p (ob\<lparr>ob_events := evs\<rparr>) w))
   }"

text \<open>\<open>AG_SetVoidFn\<close>, \<open>AG_SetIntFn\<close> and the others, which differ in the type of \<open>fn\<close> only.\<close>

definition AG_SET_TYPED_FN ::
  "nat \<Rightarrow> nat option \<Rightarrow> string option \<Rightarrow> cval list \<Rightarrow> world \<Rightarrow> (nat \<times> world) option" where
  "AG_SET_TYPED_FN p fn fmt ap w = do {
     let (e, w) = fresh w;
     ev \<leftarrow> InitEvent (Some p) blank_event;
     let ev = ev\<lparr>ev_name := [], ev_fn := fn\<rparr>;
     ev \<leftarrow> set_ptr_arg 0 (Some p) ev;
     ev \<leftarrow> GET_ARGS fmt ap ev;
     ob \<leftarrow> w_objs w p;
     evs \<leftarrow> q_insert_tail e (ob_events ob);
     Some (e, put_event e (ev\<lparr>ev_argc0 := ev_argc ev\<rparr>) (put_obj p (ob\<lparr>ob_events := evs\<rparr>) w))
   }"

definition AG_UnsetEvent :: "nat \<Rightarrow> string \<Rightarrow> world \<Rightarrow> world option" where
  "AG_UnsetEvent p name w = do {
     ob \<leftarrow> w_objs w p;
     found \<leftarrow> find_event w ob name;
     (case found of
        None \<Rightarrow> Some w
      | Some e \<Rightarrow> do {
          evs \<leftarrow> q_remove e (ob_events ob);
          Some ((put_obj p (ob\<lparr>ob_events := evs\<rparr>) w)\<lparr>w_events := (w_events w)(e := None)\<rparr>)
        })
   }"

definition AG_FindEventHandler :: "nat \<Rightarrow> string \<Rightarrow> world \<Rightarrow> nat option option" where
  "AG_FindEventHandler p name w = do { ob \<leftarrow> w_objs w p; find_event w ob name }"

section \<open>Posting\<close>

text \<open>\<open>TAILQ_NEXT\<close>: the element after \<open>x\<close>; undefined when \<open>x\<close> is no longer in the list.\<close>

fun next_of :: "nat \<Rightarrow> nat list \<Rightarrow> nat option option" where
  "next_of x [] = None"
| "next_of x (y # ys) = (if x = y then Some (case ys of [] \<Rightarrow> None | z # _ \<Rightarrow> Some z) else next_of x ys)"

definition first_of :: "nat list \<Rightarrow> nat option" where
  "first_of xs = (case xs of [] \<Rightarrow> None | x # _ \<Rightarrow> Some x)"

text \<open>A pointer to an event: to a local copy, or to the structure of a handler.\<close>

datatype evptr = Local AG_Event | Stored nat

definition ev_deref :: "world \<Rightarrow> evptr \<Rightarrow> AG_Event option" where
  "ev_deref w r = (case r of Local ev \<Rightarrow> Some ev | Stored e \<Rightarrow> w_events w e)"

definition run_fn :: "handlers \<Rightarrow> nat option \<Rightarrow> AG_Event \<Rightarrow> world \<Rightarrow> world option" where
  "run_fn call fn ev w = (case fn of None \<Rightarrow> Some w | Some f \<Rightarrow> call f ev w)"

function (sequential) PropagateEvent :: "nat \<Rightarrow> handlers \<Rightarrow> nat option \<Rightarrow> nat \<Rightarrow> evptr \<Rightarrow> world \<Rightarrow> world option"
  and propagate_children :: "nat \<Rightarrow> handlers \<Rightarrow> nat \<Rightarrow> nat option \<Rightarrow> evptr \<Rightarrow> world \<Rightarrow> world option"
  and AG_ForwardEvent :: "nat \<Rightarrow> handlers \<Rightarrow> nat option \<Rightarrow> nat \<Rightarrow> evptr \<Rightarrow> world \<Rightarrow> world option"
  and forward_loop :: "nat \<Rightarrow> handlers \<Rightarrow> nat option \<Rightarrow> nat \<Rightarrow> evptr \<Rightarrow> nat option \<Rightarrow> world \<Rightarrow> world option" where
  "PropagateEvent 0 call sndr rcvr r w = None"
| "PropagateEvent (Suc n) call sndr rcvr r w = do {
     ob \<leftarrow> w_objs w rcvr;
     w \<leftarrow> propagate_children n call rcvr (first_of (ob_children ob)) r w;
     AG_ForwardEvent n call sndr rcvr r w
   }"
| "propagate_children 0 call rcvr chld r w = None"
| "propagate_children (Suc n) call rcvr chld r w = (case chld of
     None \<Rightarrow> Some w
   | Some c \<Rightarrow> do {
       w \<leftarrow> PropagateEvent n call (Some rcvr) c r w;
       ob \<leftarrow> w_objs w rcvr;
       chld' \<leftarrow> next_of c (ob_children ob);
       propagate_children n call rcvr chld' r w
     })"
| "AG_ForwardEvent 0 call sndr rcvr r w = None"
| "AG_ForwardEvent (Suc n) call sndr rcvr r w = do {
     ob \<leftarrow> w_objs w rcvr;
     forward_loop n call sndr rcvr r (first_of (ob_events ob)) w
   }"
| "forward_loop 0 call sndr rcvr r cur w = None"
| "forward_loop (Suc n) call sndr rcvr r cur w = (case cur of
     None \<Rightarrow> Some w
   | Some e \<Rightarrow> do {
       event \<leftarrow> ev_deref w r;
       ev \<leftarrow> w_events w e;
       w \<leftarrow> (if ev_name event \<noteq> ev_name ev then Some w
             else do {
               tmpev \<leftarrow> set_ptr_arg 0 (Some rcvr) event;
               tmpev \<leftarrow> set_ptr_arg (ev_argc tmpev) sndr tmpev;
               w \<leftarrow> (if ev_flags ev AND AG_EVENT_PROPAGATE \<noteq> 0 then do {
                       ob \<leftarrow> w_objs w rcvr;
                       propagate_children n call rcvr (first_of (ob_children ob)) (Stored e) w
                     } else Some w);
               ev \<leftarrow> w_events w e;
               run_fn call (ev_fn ev) tmpev w
             });
       ob \<leftarrow> w_objs w rcvr;
       e' \<leftarrow> next_of e (ob_events ob);
       forward_loop n call sndr rcvr r e' w
     })"
  by pat_completeness auto
termination
  by (relation "measure (\<lambda>x. case x of Inl (Inl y) \<Rightarrow> fst y | Inl (Inr y) \<Rightarrow> fst y
                                | Inr (Inl y) \<Rightarrow> fst y | Inr (Inr y) \<Rightarrow> fst y)") simp_all

text \<open>
  One handler of \<open>AG_PostEvent\<close>: the copy \<open>tmpev\<close> with the posted arguments and the
  sender, propagation (once per post), the call.
\<close>

definition deliver ::
  "nat \<Rightarrow> handlers \<Rightarrow> nat option \<Rightarrow> nat \<Rightarrow> string option \<Rightarrow> cval list \<Rightarrow> bool \<Rightarrow> AG_Event \<Rightarrow> world \<Rightarrow>
   (bool \<times> world) option" where
  "deliver n call sndr rcvr fmt ap propagated ev w = do {
     tmpev \<leftarrow> GET_ARGS fmt ap ev;
     tmpev \<leftarrow> set_ptr_arg (ev_argc tmpev) sndr tmpev;
     (propagated, w) \<leftarrow> (if ev_flags tmpev AND AG_EVENT_PROPAGATE \<noteq> 0 \<and> \<not> propagated then do {
           ob \<leftarrow> w_objs w rcvr;
           w \<leftarrow> propagate_children n call rcvr (first_of (ob_children ob)) (Local tmpev) w;
           Some (True, w)
         } else Some (propagated, w));
     w \<leftarrow> run_fn call (ev_fn tmpev) tmpev w;
     Some (propagated, w)
   }"

fun post_loop ::
  "nat \<Rightarrow> handlers \<Rightarrow> nat option \<Rightarrow> nat \<Rightarrow> string \<Rightarrow> string option \<Rightarrow> cval list \<Rightarrow> bool \<Rightarrow> nat option \<Rightarrow>
   world \<Rightarrow> world option" where
  "post_loop 0 call sndr rcvr evname fmt ap propagated cur w = None"
| "post_loop (Suc n) call sndr rcvr evname fmt ap propagated cur w = (case cur of
     None \<Rightarrow> Some w
   | Some e \<Rightarrow> do {
       ev \<leftarrow> w_events w e;
       (propagated, w) \<leftarrow> (if evname \<noteq> ev_name ev then Some (propagated, w)
                          else deliver n call sndr rcvr fmt ap propagated ev w);
       ob \<leftarrow> w_objs w rcvr;
       e' \<leftarrow> next_of e (ob_events ob);
       post_loop n call sndr rcvr evname fmt ap propagated e' w
     })"

definition AG_PostEvent ::
  "nat \<Rightarrow> handlers \<Rightarrow> nat option \<Rightarrow> nat \<Rightarrow> string \<Rightarrow> string option \<Rightarrow> cval list \<Rightarrow> world \<Rightarrow> world option" where
  "AG_PostEvent n call sndr rcvr evname fmt ap w = do {
     ob \<leftarrow> w_objs w rcvr;
     post_loop n call sndr rcvr evname fmt ap False (first_of (ob_events ob)) w
   }"

definition AG_PostEventByPtr ::
  "nat \<Rightarrow> handlers \<Rightarrow> nat option \<Rightarrow> nat \<Rightarrow> nat \<Rightarrow> string option \<Rightarrow> cval list \<Rightarrow> world \<Rightarrow> world option" where
  "AG_PostEventByPtr n call sndr rcvr e fmt ap w = do {
     ev \<leftarrow> w_events w e;
     (propagated, w) \<leftarrow> deliver n call sndr rcvr fmt ap False ev w;
     Some w
   }"

section \<open>Event queues\<close>

text \<open>\<open>nEvents\<close> is the length of the array.  The name of a queued event is never set.\<close>

definition AG_InitEventQ :: "AG_Event list" where
  "AG_InitEventQ = []"

definition AG_QueueEvent :: "AG_Event list \<Rightarrow> string \<Rightarrow> string option \<Rightarrow> cval list \<Rightarrow> AG_Event list option" where
  "AG_QueueEvent eq evname fmt ap = do {
     ev \<leftarrow> InitEvent None blank_event;
     ev \<leftarrow> GET_ARGS fmt ap ev;
     Some (eq @ [ev\<lparr>ev_argc0 := ev_argc ev\<rparr>])
   }"

text \<open>Arguments by name: the search of \<open>AG_GetNamedEventArg\<close>, fatal without a match.\<close>

definition AG_GetNamedEventArg :: "AG_Event \<Rightarrow> string \<Rightarrow> AG_Variable option" where
  "AG_GetNamedEventArg ev key =
     (let i = first_idx (\<lambda>V. v_name V = key) (take (ev_argc ev) (ev_argv ev))
      in if i < ev_argc ev then rd (ev_argv ev) i else None)"

section \<open>Arguments from a format\<close>

text \<open>
  A format that a caller writes: for each argument a conversion and a name, which may be
  empty, as \<open>"%p(obj),%s"\<close>.
\<close>

definition conv_type :: "string \<Rightarrow> AG_VariableType option" where
  "conv_type k =
     (if k = ''p'' then Some AG_VARIABLE_POINTER
      else if k = ''i'' then Some AG_VARIABLE_INT
      else if k = ''u'' then Some AG_VARIABLE_UINT
      else if k = ''f'' then Some AG_VARIABLE_FLOAT
      else if k = ''d'' then Some AG_VARIABLE_DOUBLE
      else if k = ''s'' then Some AG_VARIABLE_STRING
      else if k = ''li'' then Some AG_VARIABLE_SINT32
      else if k = ''lu'' then Some AG_VARIABLE_UINT32
      else if k = ''Cs'' then Some AG_VARIABLE_CONST_STRING
      else if k = ''Cp'' then Some AG_VARIABLE_CONST_POINTER
      else None)"

definition conv_kind :: "string \<Rightarrow> cval \<Rightarrow> bool" where
  "conv_kind k =
     (if k = ''p'' then is_p else if k = ''i'' then is_i else if k = ''u'' then is_i
      else if k = ''f'' then is_flt else if k = ''d'' then is_dbl else if k = ''s'' then is_s
      else if k = ''li'' then is_s32 else if k = ''lu'' then is_u32
      else if k = ''Cs'' then is_Cs else if k = ''Cp'' then is_Cp else (\<lambda>_. False))"

type_synonym earg = "string \<times> string \<times> cval"

definition arg_fmt :: "earg \<Rightarrow> string" where
  "arg_fmt a = (case a of (k, nm, val) \<Rightarrow> ''%'' @ k @ (if nm = [] then [] else ''('' @ nm @ '')''))"

fun args_fmt :: "earg list \<Rightarrow> string" where
  "args_fmt [] = []"
| "args_fmt (a # as) = arg_fmt a @ (if as = [] then [] else '','') @ args_fmt as"

definition arg_ok :: "earg \<Rightarrow> bool" where
  "arg_ok a = (case a of (k, nm, val) \<Rightarrow>
     conv_kind k val \<and> length nm + 1 < AG_VARIABLE_NAME_MAX \<and> CHR '')'' \<notin> set nm)"

definition arg_var :: "earg \<Rightarrow> AG_Variable \<Rightarrow> AG_Variable" where
  "arg_var a V = (case a of (k, nm, val) \<Rightarrow>
     V\<lparr>v_type := the (conv_type k), v_mutex := None, v_data := val, v_fn := None, v_name := nm\<rparr>)"

fun with_args :: "earg list \<Rightarrow> AG_Event \<Rightarrow> AG_Event" where
  "with_args [] ev = ev"
| "with_args (a # as) ev = with_args as
     (ev\<lparr>ev_argc := ev_argc ev + 1, ev_argv := (ev_argv ev)[ev_argc ev := arg_var a (ev_argv ev ! ev_argc ev)]\<rparr>)"

lemma conv_kindD: "conv_kind k val \<Longrightarrow>
    k = ''p'' \<and> is_p val \<or> k = ''i'' \<and> is_i val \<or> k = ''u'' \<and> is_i val \<or> k = ''f'' \<and> is_flt val \<or>
    k = ''d'' \<and> is_dbl val \<or> k = ''s'' \<and> is_s val \<or> k = ''li'' \<and> is_s32 val \<or> k = ''lu'' \<and> is_u32 val \<or>
    k = ''Cs'' \<and> is_Cs val \<or> k = ''Cp'' \<and> is_Cp val"
  unfolding conv_kind_def by (auto split: if_splits)

lemma INS_ARG_ok: "kind val \<Longrightarrow> ev_argc ev < length (ev_argv ev) \<Longrightarrow>
    INS_ARG t kind ev (val # ap) = Some (ev\<lparr>ev_argv := (ev_argv ev)[ev_argc ev :=
      (ev_argv ev ! ev_argc ev)\<lparr>v_type := t, v_mutex := None, v_data := val, v_fn := None\<rparr>],
      ev_argc := ev_argc ev + 1\<rparr>, ap)"
  by (simp add: INS_ARG_def buf_simps)

lemma push_conv_ok:
  assumes "conv_kind k val" "ev_argc ev < length (ev_argv ev)"
  shows "push_conv (hd k) (tl k @ cs) (val # ap) ev =
    Some (cs, ev\<lparr>ev_argv := (ev_argv ev)[ev_argc ev :=
      (ev_argv ev ! ev_argc ev)\<lparr>v_type := the (conv_type k), v_mutex := None, v_data := val, v_fn := None\<rparr>],
      ev_argc := ev_argc ev + 1\<rparr>, ap)"
  using conv_kindD [OF assms(1)] assms(2)
  by (elim disjE) (simp_all add: push_conv_def INS_ARG_ok conv_type_def)

lemma arg_name_ok:
  assumes "length nm + 1 < AG_VARIABLE_NAME_MAX" "CHR '')'' \<notin> set nm" "take 1 rest \<noteq> ''(''"
    "ev_argc ev - 1 < length (ev_argv ev)"
  shows "arg_name ((if nm = [] then [] else ''('' @ nm @ '')'') @ rest) ev =
    Some (rest, ev\<lparr>ev_argv := (ev_argv ev)[ev_argc ev - 1 := (ev_argv ev ! (ev_argc ev - 1))\<lparr>v_name := nm\<rparr>]\<rparr>)"
proof (cases "nm = []")
  case True
  then show ?thesis using assms by (simp add: arg_name_def buf_simps)
next
  case False
  let ?r = "take (38 - length nm) rest"
  have cpy: "str_cpy AG_VARIABLE_NAME_MAX (nm @ CHR '')'' # rest) = nm @ CHR '')'' # ?r"
    using assms(1) by (simp add: str_cpy_def take_Cons')
  have idx: "first_idx (\<lambda>x. x = CHR '')'') (nm @ CHR '')'' # ?r) = length nm"
    using assms(2) by (simp add: first_idx_append)
  show ?thesis using False assms by (simp add: arg_name_def Let_def cpy [unfolded One_nat_def] idx buf_simps)
qed


lemma push_arg_one:
  assumes ok: "arg_ok a" and n: "ev_argc ev < length (ev_argv ev)" and r: "take 1 rest \<noteq> ''(''"
  shows "push_args (arg_fmt a @ rest) (snd (snd a) # ap) ev = push_args rest ap (with_args [a] ev)"
proof -
  obtain k nm val where a: "a = (k, nm, val)" by (cases a)
  have ka: "conv_kind k val" and nm: "length nm + 1 < AG_VARIABLE_NAME_MAX" "CHR '')'' \<notin> set nm"
    using ok by (simp_all add: arg_ok_def a)
  obtain c cs where k: "k = c # cs" and c: "c \<noteq> CHR '' ''" "c \<noteq> CHR '',''" "c \<noteq> CHR ''%''"
    using conv_kindD [OF ka] by auto
  define nmf where "nmf = (if nm = [] then [] else ''('' @ nm @ '')'')"
  define ev1 where "ev1 = ev\<lparr>ev_argv := (ev_argv ev)[ev_argc ev :=
      (ev_argv ev ! ev_argc ev)\<lparr>v_type := the (conv_type k), v_mutex := None, v_data := val, v_fn := None\<rparr>],
      ev_argc := ev_argc ev + 1\<rparr>"
  have 1: "push_conv c (cs @ nmf @ rest) (val # ap) ev = Some (nmf @ rest, ev1, ap)"
    using push_conv_ok [OF ka n, of "nmf @ rest" ap] by (simp add: k ev1_def)
  have 2: "arg_name (nmf @ rest) ev1 = Some (rest, with_args [a] ev)"
    using arg_name_ok [OF nm r, of ev1] n
    by (simp add: nmf_def ev1_def a arg_var_def)
  have "push_args (arg_fmt a @ rest) (val # ap) ev = push_args (c # cs @ nmf @ rest) (val # ap) ev"
    by (simp add: arg_fmt_def a k nmf_def)
  also have "\<dots> = push_args rest ap (with_args [a] ev)"
    using c 1 2 by simp
  finally show ?thesis by (simp add: a)
qed

lemma with_args_length [simp]:
  "length (ev_argv (with_args as ev)) = length (ev_argv ev)"
  "ev_argc (with_args as ev) = ev_argc ev + length as"
  by (induction as arbitrary: ev) auto

lemma args_fmt_noparen: "take 1 (args_fmt as) \<noteq> ''(''"
  by (cases as) (auto simp: arg_fmt_def split: prod.splits)

lemma push_args_ok:
  assumes "list_all arg_ok as" "ev_argc ev + length as \<le> length (ev_argv ev)"
  shows "push_args (args_fmt as) (map (\<lambda>a. snd (snd a)) as) ev = Some (with_args as ev)"
  using assms
proof (induction as arbitrary: ev)
  case Nil
  then show ?case by simp
next
  case (Cons a as)
  define sep where "sep = (if as = [] then [] else '','')"
  have "push_args (args_fmt (a # as)) (map (\<lambda>a. snd (snd a)) (a # as)) ev =
        push_args (sep @ args_fmt as) (map (\<lambda>a. snd (snd a)) as) (with_args [a] ev)"
    using Cons.prems push_arg_one [of a ev "sep @ args_fmt as"] by (simp add: sep_def)
  also have "\<dots> = push_args (args_fmt as) (map (\<lambda>a. snd (snd a)) as) (with_args [a] ev)"
    by (simp add: sep_def)
  also have "\<dots> = Some (with_args as (with_args [a] ev))"
    using Cons.prems by (intro Cons.IH) auto
  finally show ?case by simp
qed

lemma with_args_nth:
  assumes "ev_argc ev + length as \<le> length (ev_argv ev)" "i < length as"
  shows "ev_argv (with_args as ev) ! (ev_argc ev + i) = arg_var (as ! i) (ev_argv ev ! (ev_argc ev + i))"
  using assms
proof (induction as arbitrary: ev i)
  case Nil
  then show ?case by simp
next
  case (Cons a as)
  show ?case
  proof (cases i)
    case 0
    have "j < ev_argc e \<Longrightarrow> ev_argv (with_args bs e) ! j = ev_argv e ! j" for bs j e
      by (induction bs arbitrary: e) auto
    then show ?thesis using Cons.prems 0 by simp
  next
    case (Suc j)
    then show ?thesis using Cons.prems Cons.IH [of "with_args [a] ev" j] by simp
  qed
qed

lemma with_args_before: "j < ev_argc ev \<Longrightarrow> ev_argv (with_args as ev) ! j = ev_argv ev ! j"
  by (induction as arbitrary: ev) auto

lemma with_args_fields [simp]:
  "ev_name (with_args as ev) = ev_name ev" "ev_flags (with_args as ev) = ev_flags ev"
  "ev_fn (with_args as ev) = ev_fn ev" "ev_argc0 (with_args as ev) = ev_argc0 ev"
  by (induction as arbitrary: ev) auto

lemma INS_ARG_flags: "INS_ARG t k ev ap = Some (ev', ap') \<Longrightarrow>
    ev_flags ev' = ev_flags ev \<and> ev_fn ev' = ev_fn ev \<and> ev_name ev' = ev_name ev"
  by (auto simp: INS_ARG_def bind_eq_Some_conv split: list.splits if_splits)

lemma push_conv_flags: "push_conv c cs ap ev = Some (cs', ev', ap') \<Longrightarrow>
    ev_flags ev' = ev_flags ev \<and> ev_fn ev' = ev_fn ev \<and> ev_name ev' = ev_name ev"
  by (auto simp: push_conv_def bind_eq_Some_conv split: if_splits dest: INS_ARG_flags)

lemma arg_name_flags: "arg_name c ev = Some (c', ev') \<Longrightarrow>
    ev_flags ev' = ev_flags ev \<and> ev_fn ev' = ev_fn ev \<and> ev_name ev' = ev_name ev"
  by (auto simp: arg_name_def bind_eq_Some_conv Let_def split: if_splits)

lemma set_ptr_arg_flags: "set_ptr_arg i p ev = Some ev' \<Longrightarrow> ev_flags ev' = ev_flags ev \<and> ev_fn ev' = ev_fn ev
    \<and> ev_name ev' = ev_name ev \<and> ev_argc ev' = ev_argc ev"
  by (auto simp: set_ptr_arg_def bind_eq_Some_conv)

section \<open>What posting does\<close>

text \<open>Handlers that leave the objects and the events alone.\<close>

definition quiet :: "handlers \<Rightarrow> bool" where
  "quiet call \<longleftrightarrow> (\<forall>f ev w w'. call f ev w = Some w' \<longrightarrow> w_objs w' = w_objs w \<and> w_events w' = w_events w)"

definition evs_of :: "world \<Rightarrow> nat \<Rightarrow> AG_Event list" where
  "evs_of w p = map (\<lambda>e. the (w_events w e)) (ob_events (the (w_objs w p)))"

text \<open>The objects below a receiver, as the tree of their addresses.\<close>

datatype otree = Node (oroot: nat) (osubs: "otree list")

fun events_ok :: "world \<Rightarrow> nat \<Rightarrow> bool" where
  "events_ok w p = (case w_objs w p of None \<Rightarrow> False | Some ob \<Rightarrow>
     distinct (ob_events ob) \<and> (\<forall>e \<in> set (ob_events ob). w_events w e \<noteq> None))"

fun is_otree :: "world \<Rightarrow> otree \<Rightarrow> bool" where
  "is_otree w (Node p ts) \<longleftrightarrow> events_ok w p \<and> ob_children (the (w_objs w p)) = map oroot ts \<and>
     distinct (map oroot ts) \<and> (\<forall>t \<in> set ts. is_otree w t)"

text \<open>Who forwards to whom: the descendants in post-order, each from its parent.\<close>

fun below :: "otree \<Rightarrow> (nat \<times> nat) list" where
  "below (Node p ts) = concat (map (\<lambda>t. below t @ [(p, oroot t)]) ts)"

text \<open>The specification of forwarding: every handler of that name gets the event once.\<close>

fun forward_all :: "handlers \<Rightarrow> nat option \<Rightarrow> nat \<Rightarrow> AG_Event \<Rightarrow> AG_Event list \<Rightarrow> world \<Rightarrow> world option" where
  "forward_all call sndr rcvr event [] w = Some w"
| "forward_all call sndr rcvr event (ev # evs) w = do {
     w \<leftarrow> (if ev_name event = ev_name ev then do {
             tmpev \<leftarrow> set_ptr_arg 0 (Some rcvr) event;
             tmpev \<leftarrow> set_ptr_arg (ev_argc tmpev) sndr tmpev;
             run_fn call (ev_fn ev) tmpev w
           } else Some w);
     forward_all call sndr rcvr event evs w
   }"

fun forward_list :: "handlers \<Rightarrow> AG_Event \<Rightarrow> (nat \<times> nat) list \<Rightarrow> world \<Rightarrow> world option" where
  "forward_list call event [] w = Some w"
| "forward_list call event ((s, r) # ps) w = do {
     w \<leftarrow> forward_all call (Some s) r event (evs_of w r) w;
     forward_list call event ps w
   }"

lemma forward_list_append:
  "forward_list call event (ps @ qs) w = do { w \<leftarrow> forward_list call event ps w; forward_list call event qs w }"
proof (induction ps arbitrary: w)
  case (Cons p ps)
  then show ?case by (cases p; cases "forward_all call (Some (fst p)) (snd p) event (evs_of w (snd p)) w") auto
qed simp

lemma forward_list_snoc:
  "forward_list call event (ps @ [(s, r)]) w =
   do { w \<leftarrow> forward_list call event ps w; forward_all call (Some s) r event (evs_of w r) w }"
proof -
  have "forward_list call event [(s, r)] w' = forward_all call (Some s) r event (evs_of w' r) w'" for w'
    by (cases "forward_all call (Some s) r event (evs_of w' r) w'") auto
  then show ?thesis by (simp only: forward_list_append)
qed

text \<open>And of a post: the structures of the receiver in turn, the descendants once.\<close>

fun deliver_all ::
  "handlers \<Rightarrow> nat option \<Rightarrow> otree \<Rightarrow> string option \<Rightarrow> cval list \<Rightarrow> bool \<Rightarrow> AG_Event list \<Rightarrow> world \<Rightarrow> world option" where
  "deliver_all call sndr t fmt ap propagated [] w = Some w"
| "deliver_all call sndr t fmt ap propagated (ev # evs) w = do {
     tmpev \<leftarrow> GET_ARGS fmt ap ev;
     tmpev \<leftarrow> set_ptr_arg (ev_argc tmpev) sndr tmpev;
     w \<leftarrow> (if ev_flags ev AND AG_EVENT_PROPAGATE \<noteq> 0 \<and> \<not> propagated
           then forward_list call tmpev (below t) w else Some w);
     w \<leftarrow> run_fn call (ev_fn tmpev) tmpev w;
     deliver_all call sndr t fmt ap (propagated \<or> ev_flags ev AND AG_EVENT_PROPAGATE \<noteq> 0) evs w
   }"

definition plain_handlers :: "world \<Rightarrow> string \<Rightarrow> nat \<Rightarrow> bool" where
  "plain_handlers w name p \<longleftrightarrow> (\<forall>ev \<in> set (evs_of w p). ev_name ev = name \<longrightarrow> ev_flags ev AND AG_EVENT_PROPAGATE = 0)"

text \<open>Fuel enough for a tree.\<close>

fun tree_fuel :: "world \<Rightarrow> otree \<Rightarrow> nat" where
  "tree_fuel w (Node p ts) = 3 + length (evs_of w p) + sum_list (map (\<lambda>t. Suc (tree_fuel w t)) ts)"

lemma run_fn_quiet: "quiet call \<Longrightarrow> run_fn call fn ev w = Some w' \<Longrightarrow> w_objs w' = w_objs w \<and> w_events w' = w_events w"
  by (auto simp: run_fn_def quiet_def split: option.splits)

lemma same_world:
  assumes "w_objs w' = w_objs w" "w_events w' = w_events w"
  shows "evs_of w' = evs_of w" "events_ok w' = events_ok w" "is_otree w' t = is_otree w t"
    "plain_handlers w' = plain_handlers w" "tree_fuel w' t = tree_fuel w t"
proof -
  show e: "evs_of w' = evs_of w" and o: "events_ok w' = events_ok w"
    by (simp_all add: evs_of_def fun_eq_iff assms split: option.split)
  show "is_otree w' t = is_otree w t" using assms o by (induction t) auto
  show "plain_handlers w' = plain_handlers w" using e by (auto simp: plain_handlers_def fun_eq_iff)
  show "tree_fuel w' t = tree_fuel w t" using e by (induction t) (simp cong: map_cong)
qed

lemma next_of_append: "x \<notin> set xs \<Longrightarrow> next_of x (xs @ x # ys) = Some (first_of ys)"
  by (induction xs) (auto simp: first_of_def split: list.splits)

lemma forward_all_quiet:
  "quiet call \<Longrightarrow> forward_all call sndr rcvr event evs w = Some w' \<Longrightarrow> w_objs w' = w_objs w \<and> w_events w' = w_events w"
proof (induction evs arbitrary: w)
  case (Cons ev evs)
  then show ?case
    by (auto simp: bind_eq_Some_conv split: if_splits dest!: run_fn_quiet)
qed simp

lemma forward_list_quiet:
  "quiet call \<Longrightarrow> forward_list call event ps w = Some w' \<Longrightarrow> w_objs w' = w_objs w \<and> w_events w' = w_events w"
proof (induction ps arbitrary: w)
  case (Cons p ps)
  then show ?case by (cases p) (auto simp: bind_eq_Some_conv dest!: forward_all_quiet)
qed simp

lemma forward_loop_eq:
  assumes q: "quiet call" and "w_objs w rcvr = Some ob" "ob_events ob = us @ vs" "distinct (ob_events ob)"
    "\<forall>e \<in> set vs. w_events w e \<noteq> None"
    "\<forall>e \<in> set vs. ev_name (the (w_events w e)) = ev_name event \<longrightarrow> ev_flags (the (w_events w e)) AND AG_EVENT_PROPAGATE = 0"
    "length vs < n"
  shows "forward_loop n call sndr rcvr (Local event) (first_of vs) w =
         forward_all call sndr rcvr event (map (\<lambda>e. the (w_events w e)) vs) w"
  using assms(2-)
proof (induction vs arbitrary: us n w)
  case Nil
  then obtain m where "n = Suc m" by (cases n) auto
  then show ?case by (simp add: first_of_def)
next
  case (Cons e vs)
  obtain m where n: "n = Suc m" using Cons.prems by (cases n) auto
  obtain ev where e: "w_events w e = Some ev" using Cons.prems(4) by auto
  have fl: "ev_name ev = ev_name event \<Longrightarrow> ev_flags ev AND AG_EVENT_PROPAGATE = 0"
    using Cons.prems(5) e by auto
  define step where "step = (if ev_name event = ev_name ev then do {
             tmpev \<leftarrow> set_ptr_arg 0 (Some rcvr) event;
             tmpev \<leftarrow> set_ptr_arg (ev_argc tmpev) sndr tmpev;
             run_fn call (ev_fn ev) tmpev w
           } else Some w)"
  have st: "step = Some w' \<Longrightarrow> w_objs w' = w_objs w \<and> w_events w' = w_events w" for w'
    using run_fn_quiet [OF q] by (auto simp: step_def bind_eq_Some_conv split: if_splits)
  have rec: "step = Some w' \<Longrightarrow> do { ob \<leftarrow> w_objs w' rcvr; e' \<leftarrow> next_of e (ob_events ob);
       forward_loop m call sndr rcvr (Local event) e' w' } =
       forward_all call sndr rcvr event (map (\<lambda>e. the (w_events w' e)) vs) w'" for w'
  proof -
    assume s: "step = Some w'"
    have "e \<notin> set us" using Cons.prems(2,3) by auto
    then have "next_of e (ob_events ob) = Some (first_of vs)" using Cons.prems(2) next_of_append by simp
    moreover have "forward_loop m call sndr rcvr (Local event) (first_of vs) w' =
       forward_all call sndr rcvr event (map (\<lambda>e. the (w_events w' e)) vs) w'"
      using Cons.prems st [OF s] n by (intro Cons.IH [of _ "us @ [e]"]) auto
    ultimately show ?thesis using Cons.prems(1) st [OF s] by simp
  qed
  have "forward_loop n call sndr rcvr (Local event) (first_of (e # vs)) w =
        step \<bind> (\<lambda>w. w_objs w rcvr \<bind> (\<lambda>ob. next_of e (ob_events ob) \<bind> (\<lambda>e'. forward_loop m call sndr rcvr (Local event) e' w)))"
    using e fl by (cases "ev_name event = ev_name ev") (auto simp: n first_of_def ev_deref_def step_def bind_assoc intro!: bind_option_cong)
  also have "\<dots> = step \<bind> (\<lambda>w'. forward_all call sndr rcvr event (map (\<lambda>e. the (w_events w e)) vs) w')"
  proof (cases step)
    case None
    then show ?thesis by simp
  next
    case (Some w')
    then show ?thesis using rec [OF Some] st [OF Some] by simp
  qed
  also have "\<dots> = forward_all call sndr rcvr event (map (\<lambda>e. the (w_events w e)) (e # vs)) w"
    by (simp add: step_def e)
  finally show ?case .
qed


lemma ForwardEvent_eq:
  assumes q: "quiet call" and o: "events_ok w rcvr" and pl: "plain_handlers w (ev_name event) rcvr"
    and n: "Suc (length (evs_of w rcvr)) < n"
  shows "AG_ForwardEvent n call sndr rcvr (Local event) w = forward_all call sndr rcvr event (evs_of w rcvr) w"
proof -
  obtain m where m: "n = Suc m" using n by (cases n) auto
  obtain ob where ob: "w_objs w rcvr = Some ob" "distinct (ob_events ob)" "\<forall>e \<in> set (ob_events ob). w_events w e \<noteq> None"
    using o by (auto split: option.splits)
  show ?thesis
    using forward_loop_eq [OF q ob(1), of "[]" "ob_events ob" event m sndr] ob pl n
    by (simp add: m evs_of_def plain_handlers_def)
qed

definition subtree_done :: "handlers \<Rightarrow> AG_Event \<Rightarrow> otree \<Rightarrow> bool" where
  "subtree_done call event t \<longleftrightarrow> (\<forall>w sndr n. is_otree w t \<longrightarrow>
     (\<forall>(s, r) \<in> set ((sndr, oroot t) # below t). plain_handlers w (ev_name event) r) \<longrightarrow> tree_fuel w t \<le> n \<longrightarrow>
     PropagateEvent n call (Some sndr) (oroot t) (Local event) w =
     forward_list call event (below t @ [(sndr, oroot t)]) w)"

lemma children_loop:
  assumes q: "quiet call"
  shows "\<forall>t \<in> set vs. subtree_done call event t \<Longrightarrow> ts = us @ vs \<Longrightarrow> is_otree w (Node p ts) \<Longrightarrow>
      \<forall>(s, r) \<in> set (below (Node p ts)). plain_handlers w (ev_name event) r \<Longrightarrow>
      sum_list (map (\<lambda>t. Suc (tree_fuel w t)) vs) < n \<Longrightarrow>
      propagate_children n call p (first_of (map oroot vs)) (Local event) w =
      forward_list call event (below (Node p vs)) w"
proof (induction vs arbitrary: us n w)
  case Nil
  then obtain k where "n = Suc k" by (cases n) auto
  then show ?case by (simp add: first_of_def)
next
  case (Cons t vs)
  obtain k where m: "n = Suc k" using Cons.prems by (cases n) auto
  define a where "a = below t @ [(p, oroot t)]"
  obtain ob where ob: "w_objs w p = Some ob" "ob_children ob = map oroot ts"
    using Cons.prems by (auto split: option.splits)
  have "is_otree w t" "\<forall>(s, r) \<in> set ((p, oroot t) # below t). plain_handlers w (ev_name event) r"
    "tree_fuel w t \<le> k" using Cons.prems m by auto
  then have pe: "PropagateEvent k call (Some p) (oroot t) (Local event) w = forward_list call event a w"
    using Cons.prems(1) by (auto simp: subtree_done_def a_def)
  have "oroot t \<notin> set (map oroot us)" using Cons.prems(2,3) by auto
  then have nx: "next_of (oroot t) (ob_children ob) = Some (first_of (map oroot vs))"
    using ob(2) Cons.prems(2) next_of_append [of "oroot t" "map oroot us" "map oroot vs"] by simp
  have sp: "forward_list call event (below (Node p (t # vs))) w =
      do { w \<leftarrow> forward_list call event a w; forward_list call event (below (Node p vs)) w }"
    by (simp add: forward_list_append a_def)
  show ?case
  proof (cases "forward_list call event a w")
    case None
    then show ?thesis using pe unfolding sp by (simp add: m first_of_def)
  next
    case (Some w2)
    then have same: "w_objs w2 = w_objs w" "w_events w2 = w_events w"
      using forward_list_quiet [OF q Some] by auto
    have "propagate_children k call p (first_of (map oroot vs)) (Local event) w2 =
          forward_list call event (below (Node p vs)) w2"
      using Cons.prems same_world [OF same] m
      by (intro Cons.IH [of "us @ [t]"]) (auto simp del: is_otree.simps events_ok.simps)
    then show ?thesis using pe Some ob nx same unfolding sp by (simp add: m first_of_def)
  qed
qed

lemma propagate_eq:
  assumes q: "quiet call"
  shows "subtree_done call event t"
proof (induction t)
  case (Node p ts)
  show ?case unfolding subtree_done_def
  proof (intro allI impI)
    fix w sndr n
    assume t: "is_otree w (Node p ts)" and f: "tree_fuel w (Node p ts) \<le> n"
      and pl: "\<forall>(s, r) \<in> set ((sndr, oroot (Node p ts)) # below (Node p ts)). plain_handlers w (ev_name event) r"
    obtain k where n: "n = Suc k" using f by (cases n) auto
    obtain ob where ob: "w_objs w p = Some ob" "ob_children ob = map oroot ts"
      using t by (auto split: option.splits)
    have c: "propagate_children k call p (first_of (ob_children ob)) (Local event) w =
             forward_list call event (below (Node p ts)) w"
      using children_loop [OF q, of ts event ts "[]" w p k] Node t pl f ob n by simp
    show "PropagateEvent n call (Some sndr) (oroot (Node p ts)) (Local event) w =
          forward_list call event (below (Node p ts) @ [(sndr, oroot (Node p ts))]) w"
    proof (cases "forward_list call event (below (Node p ts)) w")
      case None
      then show ?thesis using c ob by (simp add: n forward_list_append)
    next
      case (Some w2)
      then have same: "w_objs w2 = w_objs w" "w_events w2 = w_events w"
        using forward_list_quiet [OF q Some] by auto
      have "AG_ForwardEvent k call (Some sndr) p (Local event) w2 =
            forward_all call (Some sndr) p event (evs_of w2 p) w2"
        using t pl f n same_world [OF same]
        by (intro ForwardEvent_eq [OF q]) (auto simp del: events_ok.simps)
      then show ?thesis using c ob Some by (simp add: n forward_list_snoc)
    qed
  qed
qed

lemma push_args_flags: "push_args c ap ev = Some ev' \<Longrightarrow> ev_flags ev' = ev_flags ev \<and> ev_fn ev' = ev_fn ev \<and> ev_name ev' = ev_name ev"
proof (induction c ap ev arbitrary: ev' rule: push_args.induct)
  case (2 c cs ap ev)
  show ?case
  proof (cases "c = CHR '' '' \<or> c = CHR '','' \<or> c = CHR ''%''")
    case True
    then have "push_args cs ap ev = Some ev'" using "2.prems" by (auto simp only: push_args.simps if_True)
    then show ?thesis using "2.IH"(1) True by blast
  next
    case False
    then obtain cs1 ev1 ap1 cs2 ev2 where
      s: "push_conv c cs ap ev = Some (cs1, ev1, ap1)" "arg_name cs1 ev1 = Some (cs2, ev2)" "push_args cs2 ap1 ev2 = Some ev'"
      using "2.prems" by (auto simp: bind_eq_Some_conv)
    show ?thesis using "2.IH"(2) [OF False s(1) refl refl s(2) refl s(3)] push_conv_flags [OF s(1)] arg_name_flags [OF s(2)] by simp
  qed
qed simp


lemma GET_ARGS_flags: "GET_ARGS fmt ap ev = Some ev' \<Longrightarrow>
    ev_flags ev' = ev_flags ev \<and> ev_fn ev' = ev_fn ev \<and> ev_name ev' = ev_name ev"
  by (auto simp: GET_ARGS_def split: option.splits dest: push_args_flags)

lemma deliver_eq:
  assumes q: "quiet call" and t: "is_otree w (Node rcvr ts)"
    and pl: "\<forall>(s, r) \<in> set (below (Node rcvr ts)). plain_handlers w (ev_name ev) r"
    and n: "tree_fuel w (Node rcvr ts) \<le> n"
  shows "deliver n call sndr rcvr fmt ap propagated ev w = do {
     tmpev \<leftarrow> GET_ARGS fmt ap ev;
     tmpev \<leftarrow> set_ptr_arg (ev_argc tmpev) sndr tmpev;
     w \<leftarrow> (if ev_flags ev AND AG_EVENT_PROPAGATE \<noteq> 0 \<and> \<not> propagated
           then forward_list call tmpev (below (Node rcvr ts)) w else Some w);
     w \<leftarrow> run_fn call (ev_fn tmpev) tmpev w;
     Some (propagated \<or> ev_flags ev AND AG_EVENT_PROPAGATE \<noteq> 0, w)
   }"
proof -
  obtain ob where ob: "w_objs w rcvr = Some ob" "ob_children ob = map oroot ts"
    using t by (auto split: option.splits)
  show ?thesis
  proof (cases "GET_ARGS fmt ap ev \<bind> (\<lambda>tmpev. set_ptr_arg (ev_argc tmpev) sndr tmpev)")
    case None
    then show ?thesis unfolding deliver_def by (cases "GET_ARGS fmt ap ev") auto
  next
    case (Some tmpev)
    then obtain e1 where e1: "GET_ARGS fmt ap ev = Some e1" "set_ptr_arg (ev_argc e1) sndr e1 = Some tmpev"
      by (auto simp: bind_eq_Some_conv)
    have fl: "ev_flags tmpev = ev_flags ev" "ev_name tmpev = ev_name ev"
      using GET_ARGS_flags [OF e1(1)] set_ptr_arg_flags [OF e1(2)] by auto
    have "propagate_children n call rcvr (first_of (ob_children ob)) (Local tmpev) w =
          forward_list call tmpev (below (Node rcvr ts)) w"
      using children_loop [OF q, of ts tmpev ts "[]" w rcvr n] propagate_eq [OF q] t pl n fl ob by simp
    then show ?thesis unfolding deliver_def using e1 fl ob by (auto simp: bind_assoc)
  qed
qed

lemma post_loop_eq:
  assumes q: "quiet call"
  shows "is_otree w (Node rcvr ts) \<Longrightarrow>
    \<forall>(s, r) \<in> set (below (Node rcvr ts)). plain_handlers w name r \<Longrightarrow>
    w_objs w rcvr = Some ob \<Longrightarrow> ob_events ob = us @ vs \<Longrightarrow>
    tree_fuel w (Node rcvr ts) + length vs < n \<Longrightarrow>
    post_loop n call sndr rcvr name fmt ap propagated (first_of vs) w =
    deliver_all call sndr (Node rcvr ts) fmt ap propagated
      (filter (\<lambda>ev. ev_name ev = name) (map (\<lambda>e. the (w_events w e)) vs)) w"
proof (induction vs arbitrary: us n w propagated)
  case Nil
  then obtain k where "n = Suc k" by (cases n) auto
  then show ?case by (simp add: first_of_def)
next
  case (Cons e vs)
  obtain m where n: "n = Suc m" using Cons.prems by (cases n) auto
  have d: "distinct (ob_events ob)" and a: "\<forall>e \<in> set (ob_events ob). w_events w e \<noteq> None"
    using Cons.prems(1,3) by auto
  obtain ev where e: "w_events w e = Some ev" using a Cons.prems(4) by auto
  have "e \<notin> set us" using d Cons.prems(4) by auto
  then have nx: "next_of e (ob_events ob) = Some (first_of vs)" using Cons.prems(4) next_of_append by simp
  have rec: "w_objs w' = w_objs w \<Longrightarrow> w_events w' = w_events w \<Longrightarrow>
      post_loop m call sndr rcvr name fmt ap pr (first_of vs) w' =
      deliver_all call sndr (Node rcvr ts) fmt ap pr
        (filter (\<lambda>ev. ev_name ev = name) (map (\<lambda>e. the (w_events w e)) vs)) w'" for w' pr
    using Cons.prems same_world [of w' w] n Cons.IH [of w' "us @ [e]" m pr]
    by (simp del: is_otree.simps events_ok.simps tree_fuel.simps)
  show ?case
  proof (cases "ev_name ev = name")
    case False
    then show ?thesis using e nx Cons.prems(3) rec [of w] by (auto simp: n first_of_def)
  next
    case True
    define fin where "fin = do {
       tmpev \<leftarrow> GET_ARGS fmt ap ev;
       tmpev \<leftarrow> set_ptr_arg (ev_argc tmpev) sndr tmpev;
       w \<leftarrow> (if ev_flags ev AND AG_EVENT_PROPAGATE \<noteq> 0 \<and> \<not> propagated
             then forward_list call tmpev (below (Node rcvr ts)) w else Some w);
       w \<leftarrow> run_fn call (ev_fn tmpev) tmpev w;
       Some (propagated \<or> ev_flags ev AND AG_EVENT_PROPAGATE \<noteq> 0, w) }"
    have dl: "deliver m call sndr rcvr fmt ap propagated ev w = fin"
      unfolding fin_def using Cons.prems True n by (intro deliver_eq [OF q]) auto
    have quietfin: "fin = Some (pr, w') \<Longrightarrow> w_objs w' = w_objs w \<and> w_events w' = w_events w \<and>
        pr = (propagated \<or> ev_flags ev AND AG_EVENT_PROPAGATE \<noteq> 0)" for pr w'
      using run_fn_quiet [OF q] forward_list_quiet [OF q]
      by (fastforce simp: fin_def bind_eq_Some_conv split: if_splits)
    have rhs: "deliver_all call sndr (Node rcvr ts) fmt ap propagated (ev # evs) w = do {
        (pr, w) \<leftarrow> fin; deliver_all call sndr (Node rcvr ts) fmt ap pr evs w }" for evs
      by (simp add: fin_def bind_assoc)
    show ?thesis
    proof (cases fin)
      case None
      then show ?thesis using e True dl rhs by (simp add: n first_of_def)
    next
      case (Some r)
      obtain pr w' where r: "r = (pr, w')" by (cases r)
      have "w_objs w' = w_objs w" "w_events w' = w_events w" using quietfin Some r by auto
      then show ?thesis using e True dl rhs Some r nx rec [of w' pr] Cons.prems(3)
        by (simp add: n first_of_def)
    qed
  qed
qed

lemma AG_PostEvent_spec:
  assumes "quiet call" "is_otree w (Node rcvr ts)"
    "\<forall>(s, r) \<in> set (below (Node rcvr ts)). plain_handlers w name r"
    "2 * tree_fuel w (Node rcvr ts) \<le> n"
  shows "AG_PostEvent n call sndr rcvr name fmt ap w =
    deliver_all call sndr (Node rcvr ts) fmt ap False (filter (\<lambda>ev. ev_name ev = name) (evs_of w rcvr)) w"
proof -
  obtain ob where ob: "w_objs w rcvr = Some ob" using assms(2) by (auto split: option.splits)
  show ?thesis
    using post_loop_eq [OF assms(1,2,3) ob, of "[]" "ob_events ob" n sndr fmt ap False] assms(4) ob
    by (simp add: AG_PostEvent_def evs_of_def)
qed

section \<open>The handlers of an object\<close>

definition world_ok :: "world \<Rightarrow> bool" where
  "world_ok w \<longleftrightarrow> (\<forall>a. w_brk w \<le> a \<longrightarrow> w_objs w a = None \<and> w_vars w a = None \<and> w_events w a = None \<and>
      w_timers w a = None \<and> w_mem w a = None) \<and>
   (\<forall>e ev. w_events w e = Some ev \<longrightarrow> length (ev_argv ev) = AG_EVENT_ARGS_MAX)"

text \<open>An event structure with this name, function and arguments, for the object \<open>p\<close>.\<close>

definition event_is :: "nat \<Rightarrow> string \<Rightarrow> nat option \<Rightarrow> earg list \<Rightarrow> AG_Event \<Rightarrow> bool" where
  "event_is p name fn as ev \<longleftrightarrow> ev_name ev = name \<and> ev_fn ev = fn \<and>
     ev_argc ev = 1 + length as \<and> ev_argc0 ev = 1 + length as \<and> length (ev_argv ev) = AG_EVENT_ARGS_MAX \<and>
     v_type (ev_argv ev ! 0) = AG_VARIABLE_POINTER \<and> v_data (ev_argv ev ! 0) = C_p (Some p) \<and>
     (\<forall>i < length as. case as ! i of (k, nm, val) \<Rightarrow>
        v_name (ev_argv ev ! (1 + i)) = nm \<and> v_type (ev_argv ev ! (1 + i)) = the (conv_type k) \<and>
        v_data (ev_argv ev ! (1 + i)) = val)"

lemma world_ok_fresh:
  "world_ok w \<Longrightarrow> w_events w (w_brk w) = None" "world_ok w \<Longrightarrow> w_events w e = Some ev \<Longrightarrow> e < w_brk w"
  by (auto simp: world_ok_def not_le [symmetric])

lemma world_ok_argv: "world_ok w \<Longrightarrow> w_events w e = Some ev \<Longrightarrow> length (ev_argv ev) = AG_EVENT_ARGS_MAX"
  by (simp add: world_ok_def)

lemma set_args_is:
  assumes "length (ev_argv ev) = AG_EVENT_ARGS_MAX" "ev_argc ev = 1" "ev_name ev = name"
    "list_all arg_ok as" "length as < AG_EVENT_ARGS_MAX"
  shows "\<exists>ev1 ev2. set_ptr_arg 0 (Some p) ev = Some ev1 \<and>
     GET_ARGS (Some (args_fmt as)) (map (\<lambda>a. snd (snd a)) as) (ev1\<lparr>ev_fn := fn\<rparr>) = Some ev2 \<and>
     event_is p name fn as (ev2\<lparr>ev_argc0 := ev_argc ev2\<rparr>) \<and> ev_flags ev2 = ev_flags ev"
proof -
  define ev1 where "ev1 = ev\<lparr>ev_argv := (ev_argv ev)[0 := InitPointerArg (Some p) (ev_argv ev ! 0)]\<rparr>"
  have 1: "set_ptr_arg 0 (Some p) ev = Some ev1" using assms(1) by (simp add: set_ptr_arg_def ev1_def buf_simps)
  define ev2 where "ev2 = with_args as (ev1\<lparr>ev_fn := fn\<rparr>)"
  have 2: "GET_ARGS (Some (args_fmt as)) (map (\<lambda>a. snd (snd a)) as) (ev1\<lparr>ev_fn := fn\<rparr>) = Some ev2"
    using assms by (simp add: GET_ARGS_def ev2_def ev1_def push_args_ok)
  have "ev_argv ev2 ! 0 = InitPointerArg (Some p) (ev_argv ev ! 0)"
    using assms with_args_before [of 0 "ev1\<lparr>ev_fn := fn\<rparr>" as] by (simp add: ev2_def ev1_def)
  moreover have "\<forall>i < length as. ev_argv ev2 ! (1 + i) = arg_var (as ! i) (ev_argv ev1 ! (1 + i))"
    using assms with_args_nth [of "ev1\<lparr>ev_fn := fn\<rparr>" as] by (simp add: ev2_def ev1_def)
  ultimately have "event_is p name fn as (ev2\<lparr>ev_argc0 := ev_argc ev2\<rparr>)"
    using assms unfolding event_is_def
    by (auto simp: ev2_def ev1_def InitPointerArg_def arg_var_def split: prod.splits)
  then show ?thesis using 1 2 by (auto simp: ev2_def ev1_def)
qed

lemma find_event_split:
  assumes "events_ok w p" "w_objs w p = Some ob"
  shows "find_event w ob name = Some None \<and> (\<forall>ev \<in> set (evs_of w p). ev_name ev \<noteq> name) \<or>
    (\<exists>us e vs ev. find_event w ob name = Some (Some e) \<and> ob_events ob = us @ e # vs \<and>
       w_events w e = Some ev \<and> ev_name ev = name \<and>
       (\<forall>x \<in> set us. \<exists>r. w_events w x = Some r \<and> ev_name r \<noteq> name))"
proof -
  have all: "\<forall>x \<in> set (ob_events ob). w_events w x \<noteq> None" using assms by auto
  obtain r where r: "find_event w ob name = Some r"
    using find_first_total [OF all] by (auto simp: find_event_def)
  show ?thesis
  proof (cases r)
    case None
    then have "\<forall>x \<in> set (ob_events ob). \<exists>r. w_events w x = Some r \<and> ev_name r \<noteq> name"
      using r by (simp add: find_event_def find_first_None)
    then show ?thesis using r None assms(2) by (auto simp: evs_of_def)
  next
    case (Some e)
    then show ?thesis using find_first_SomeD [of _ _ "ob_events ob" e] r
      by (auto simp: find_event_def)
  qed
qed

lemma InitEvent_blank:
  "InitEvent ob blank_event = Some (blank_event\<lparr>ev_argc := 1, ev_argc0 := 1,
     ev_argv := (ev_argv blank_event)[0 := InitPointerArg ob blank_var]\<rparr>)"
  by (simp add: InitEvent_def set_ptr_arg_def blank_event_def buf_simps)

lemma AG_SetEvent_spec:
  assumes w: "world_ok w" and ok: "events_ok w p" and as: "list_all arg_ok as" "length as < AG_EVENT_ARGS_MAX"
    and nm: "length name < AG_EVENT_NAME_MAX"
  shows "\<exists>e ev w'. AG_SetEvent p (Some name) fn (Some (args_fmt as)) (map (\<lambda>a. snd (snd a)) as) w = Some (e, w') \<and>
     AG_FindEventHandler p name w' = Some (Some e) \<and> w_events w' e = Some ev \<and> event_is p name fn as ev \<and>
     world_ok w' \<and> events_ok w' p \<and>
     filter (\<lambda>ev. ev_name ev \<noteq> name) (evs_of w' p) = filter (\<lambda>ev. ev_name ev \<noteq> name) (evs_of w p) \<and>
     length (filter (\<lambda>ev. ev_name ev = name) (evs_of w' p)) =
       max 1 (length (filter (\<lambda>ev. ev_name ev = name) (evs_of w p)))"
proof -
  obtain ob where ob: "w_objs w p = Some ob" using ok by (auto split: option.splits)
  have d: "distinct (ob_events ob)" and a: "\<forall>e \<in> set (ob_events ob). w_events w e \<noteq> None" using ok ob by auto
  from find_event_split [OF ok ob, of name] show ?thesis
  proof (elim disjE exE conjE)
    assume f: "find_event w ob name = Some None" and none: "\<forall>ev \<in> set (evs_of w p). ev_name ev \<noteq> name"
    define e where "e = w_brk w"
    have e: "e \<notin> set (ob_events ob)" "w_events w e = None"
      using a world_ok_fresh(1) [OF w] by (auto simp: e_def)
    have un: "\<forall>x \<in> set (ob_events ob). x \<noteq> e \<and> (\<exists>r. w_events w x = Some r \<and> ev_name r \<noteq> name)"
    proof
      fix x assume "x \<in> set (ob_events ob)"
      then show "x \<noteq> e \<and> (\<exists>r. w_events w x = Some r \<and> ev_name r \<noteq> name)"
        using none a e ob by (cases "w_events w x") (auto simp: evs_of_def)
    qed
    define ev0 where "ev0 = blank_event\<lparr>ev_argc := Suc 0, ev_argc0 := Suc 0,
      ev_argv := (ev_argv blank_event)[0 := InitPointerArg (Some p) blank_var], ev_name := name\<rparr>"
    have "length (ev_argv ev0) = AG_EVENT_ARGS_MAX" "ev_argc ev0 = 1" "ev_name ev0 = name"
      by (simp_all add: ev0_def blank_event_def)
    from set_args_is [OF this as, of p fn] obtain ev1 ev2 where
      1: "set_ptr_arg 0 (Some p) ev0 = Some ev1"
      "GET_ARGS (Some (args_fmt as)) (map (\<lambda>a. snd (snd a)) as) (ev1\<lparr>ev_fn := fn\<rparr>) = Some ev2"
      and is_ev: "event_is p name fn as (ev2\<lparr>ev_argc0 := ev_argc ev2\<rparr>)" by auto
    define w1 where "w1 = w\<lparr>w_brk := Suc e\<rparr>"
    define w' where "w' = put_event e (ev2\<lparr>ev_argc0 := ev_argc ev2\<rparr>) (put_obj p (ob\<lparr>ob_events := ob_events ob @ [e]\<rparr>) w1)"
    have run: "AG_SetEvent p (Some name) fn (Some (args_fmt as)) (map (\<lambda>a. snd (snd a)) as) w = Some (e, w')"
      using ob f nm 1 e by (simp add: AG_SetEvent_def fresh_def InitEvent_blank str_cpy_def q_insert_tail_def
          ev0_def [symmetric] e_def [symmetric] w1_def [symmetric] w'_def)
    have evs: "evs_of w' p = evs_of w p @ [ev2\<lparr>ev_argc0 := ev_argc ev2\<rparr>]"
      using e ob by (auto simp: evs_of_def w'_def w1_def)
    show ?thesis
    proof (intro exI conjI)
      show "AG_SetEvent p (Some name) fn (Some (args_fmt as)) (map (\<lambda>a. snd (snd a)) as) w = Some (e, w')" by (rule run)
      show "w_events w' e = Some (ev2\<lparr>ev_argc0 := ev_argc ev2\<rparr>)" by (simp add: w'_def)
      have "find_first (w_events w') (\<lambda>ev. ev_name ev = name) (ob_events ob @ e # []) = Some (Some e)"
        by (rule find_first_SomeI) (use un is_ev in \<open>auto simp: w'_def w1_def event_is_def\<close>)
      then show "AG_FindEventHandler p name w' = Some (Some e)"
        by (simp add: AG_FindEventHandler_def find_event_def w'_def)
      show "world_ok w'" using w is_ev ob e_def
        by (auto simp: world_ok_def w'_def w1_def event_is_def)
      show "events_ok w' p" using d a e by (auto simp: w'_def w1_def)
    qed (use is_ev none in \<open>auto simp: evs event_is_def filter_empty_conv\<close>)
  next
    fix us e vs ev
    assume f: "find_event w ob name = Some (Some e)" and sp: "ob_events ob = us @ e # vs"
      and e: "w_events w e = Some ev" "ev_name ev = name"
      and us: "\<forall>x \<in> set us. \<exists>r. w_events w x = Some r \<and> ev_name r \<noteq> name"
    define ev0 where "ev0 = ev\<lparr>ev_argc := Suc 0, ev_argc0 := Suc 0\<rparr>"
    have "length (ev_argv ev0) = AG_EVENT_ARGS_MAX" "ev_argc ev0 = 1" "ev_name ev0 = name"
      using world_ok_argv [OF w e(1)] e by (simp_all add: ev0_def)
    from set_args_is [OF this as, of p fn] obtain ev1 ev2 where
      1: "set_ptr_arg 0 (Some p) ev0 = Some ev1"
      "GET_ARGS (Some (args_fmt as)) (map (\<lambda>a. snd (snd a)) as) (ev1\<lparr>ev_fn := fn\<rparr>) = Some ev2"
      and is_ev: "event_is p name fn as (ev2\<lparr>ev_argc0 := ev_argc ev2\<rparr>)" by auto
    define w' where "w' = put_event e (ev2\<lparr>ev_argc0 := ev_argc ev2\<rparr>) w"
    have run: "AG_SetEvent p (Some name) fn (Some (args_fmt as)) (map (\<lambda>a. snd (snd a)) as) w = Some (e, w')"
      using ob f 1 e by (simp add: AG_SetEvent_def ev0_def [symmetric] w'_def)
    have nin: "e \<notin> set us" "e \<notin> set vs" using d sp by auto
    have evs: "evs_of w p = map (\<lambda>e. the (w_events w e)) us @ ev # map (\<lambda>e. the (w_events w e)) vs"
       "evs_of w' p = map (\<lambda>e. the (w_events w e)) us @ ev2\<lparr>ev_argc0 := ev_argc ev2\<rparr> # map (\<lambda>e. the (w_events w e)) vs"
      using ob sp e nin by (auto simp: evs_of_def w'_def)
    show ?thesis
    proof (intro exI conjI)
      show "AG_SetEvent p (Some name) fn (Some (args_fmt as)) (map (\<lambda>a. snd (snd a)) as) w = Some (e, w')" by (rule run)
      show "w_events w' e = Some (ev2\<lparr>ev_argc0 := ev_argc ev2\<rparr>)" by (simp add: w'_def)
      have "find_first (w_events w') (\<lambda>ev. ev_name ev = name) (us @ e # vs) = Some (Some e)"
        by (rule find_first_SomeI) (use us is_ev nin in \<open>auto simp: w'_def event_is_def\<close>)
      then show "AG_FindEventHandler p name w' = Some (Some e)"
        using ob sp by (simp add: AG_FindEventHandler_def find_event_def w'_def)
      show "world_ok w'" using w is_ev e
        by (auto simp: world_ok_def w'_def event_is_def)
      show "events_ok w' p" using ok ob by (auto simp: w'_def)
    qed (use is_ev e in \<open>auto simp: evs event_is_def\<close>)
  qed
qed


lemma AG_AddEvent_spec:
  assumes w: "world_ok w" and ok: "events_ok w p" and as: "list_all arg_ok as" "length as < AG_EVENT_ARGS_MAX"
    and nm: "length name < AG_EVENT_NAME_MAX"
  shows "\<exists>e ev w'. AG_AddEvent p (Some name) fn (Some (args_fmt as)) (map (\<lambda>a. snd (snd a)) as) w = Some (e, w') \<and>
     evs_of w' p = evs_of w p @ [ev] \<and> event_is p name fn as ev \<and>
     ev_flags ev = (case filter (\<lambda>ev. ev_name ev = name) (evs_of w p) of [] \<Rightarrow> 0 | ev' # _ \<Rightarrow> ev_flags ev') \<and>
     world_ok w' \<and> events_ok w' p"
proof -
  obtain ob where ob: "w_objs w p = Some ob" using ok by (auto split: option.splits)
  have d: "distinct (ob_events ob)" and a: "\<forall>e \<in> set (ob_events ob). w_events w e \<noteq> None" using ok ob by auto
  define fl where "fl = (case filter (\<lambda>ev. ev_name ev = name) (evs_of w p) of [] \<Rightarrow> 0 | ev' # _ \<Rightarrow> ev_flags ev')"
  define e where "e = w_brk w"
  have e: "e \<notin> set (ob_events ob)" "w_events w e = None"
    using a world_ok_fresh(1) [OF w] by (auto simp: e_def)
  define ev0 where "ev0 = blank_event\<lparr>ev_argc := Suc 0, ev_argc0 := Suc 0,
      ev_argv := (ev_argv blank_event)[0 := InitPointerArg (Some p) blank_var]\<rparr>"
  define w1 where "w1 = w\<lparr>w_brk := Suc e\<rparr>"
  have w1: "find_event w1 ob name = find_event w ob name" "w_events w1 = w_events w"
    by (simp_all add: find_event_def w1_def)
  have flags: "(do { found \<leftarrow> find_event w ob name;
       (case found of None \<Rightarrow> Some ev0
        | Some e' \<Rightarrow> do { evOther \<leftarrow> w_events w e'; Some (ev0\<lparr>ev_flags := ev_flags evOther\<rparr>) }) }) = Some (ev0\<lparr>ev_flags := fl\<rparr>)"
    using find_event_split [OF ok ob, of name]
  proof (elim disjE exE conjE)
    assume 1: "find_event w ob name = Some None" "\<forall>ev \<in> set (evs_of w p). ev_name ev \<noteq> name"
    then have "fl = 0" by (simp add: fl_def)
    then show ?thesis using 1 by (simp add: ev0_def blank_event_def)
  next
    fix us e' vs ev
    assume 1: "find_event w ob name = Some (Some e')" "ob_events ob = us @ e' # vs" "w_events w e' = Some ev"
      "ev_name ev = name" "\<forall>x \<in> set us. \<exists>r. w_events w x = Some r \<and> ev_name r \<noteq> name"
    have "filter (\<lambda>ev. ev_name ev = name) (map (\<lambda>e. the (w_events w e)) us) = []"
      using 1(5) by (fastforce simp: filter_empty_conv)
    then have "fl = ev_flags ev" using 1 ob by (simp add: fl_def evs_of_def)
    then show ?thesis using 1 by simp
  qed
  define ev1 where "ev1 = ev0\<lparr>ev_flags := fl, ev_name := name\<rparr>"
  have l: "length (ev_argv ev1) = AG_EVENT_ARGS_MAX" "ev_argc ev1 = 1" "ev_name ev1 = name"
    and s0: "set_ptr_arg 0 (Some p) ev1 = Some ev1"
    by (simp_all add: ev1_def ev0_def blank_event_def set_ptr_arg_def buf_simps InitPointerArg_def)
  from set_args_is [OF l as, of p fn] s0 obtain ev2 where
    1: "GET_ARGS (Some (args_fmt as)) (map (\<lambda>a. snd (snd a)) as) (ev1\<lparr>ev_fn := fn\<rparr>) = Some ev2"
    and is_ev: "event_is p name fn as (ev2\<lparr>ev_argc0 := ev_argc ev2\<rparr>)" and f2: "ev_flags ev2 = fl"
    by (auto simp: ev1_def)
  define w' where "w' = put_event e (ev2\<lparr>ev_argc0 := ev_argc ev2\<rparr>) (put_obj p (ob\<lparr>ob_events := ob_events ob @ [e]\<rparr>) w1)"
  obtain found where fd: "find_event w ob name = Some found"
    "(case found of None \<Rightarrow> Some ev0
        | Some e' \<Rightarrow> do { evOther \<leftarrow> w_events w e'; Some (ev0\<lparr>ev_flags := ev_flags evOther\<rparr>) }) = Some (ev0\<lparr>ev_flags := fl\<rparr>)"
    using flags by (auto simp: bind_eq_Some_conv)
  have run: "AG_AddEvent p (Some name) fn (Some (args_fmt as)) (map (\<lambda>a. snd (snd a)) as) w = Some (e, w')"
    using ob fd 1 e nm by (cases found) (auto simp: ev1_def AG_AddEvent_def fresh_def InitEvent_blank str_cpy_def q_insert_tail_def
        ev0_def [symmetric] e_def [symmetric] w1_def [symmetric] w1 w'_def bind_eq_Some_conv)
  have evs: "evs_of w' p = evs_of w p @ [ev2\<lparr>ev_argc0 := ev_argc ev2\<rparr>]"
    using e ob by (auto simp: evs_of_def w'_def w1_def)
  have "world_ok w'" using w is_ev ob e_def by (auto simp: world_ok_def w'_def w1_def event_is_def)
  moreover have "events_ok w' p" using d a e by (auto simp: w'_def w1_def)
  moreover have "ev_flags (ev2\<lparr>ev_argc0 := ev_argc ev2\<rparr>) = fl" using f2 by simp
  ultimately show ?thesis using run evs is_ev unfolding fl_def by blast
qed

lemma AG_UnsetEvent_spec:
  assumes ok: "events_ok w p"
  shows "\<exists>w'. AG_UnsetEvent p name w = Some w' \<and> events_ok w' p \<and>
     evs_of w' p = takeWhile (\<lambda>ev. ev_name ev \<noteq> name) (evs_of w p) @ tl (dropWhile (\<lambda>ev. ev_name ev \<noteq> name) (evs_of w p)) \<and>
     (\<forall>q. q \<noteq> p \<longrightarrow> w_objs w' q = w_objs w q)"
proof -
  obtain ob where ob: "w_objs w p = Some ob" using ok by (auto split: option.splits)
  have d: "distinct (ob_events ob)" and a: "\<forall>e \<in> set (ob_events ob). w_events w e \<noteq> None" using ok ob by auto
  from find_event_split [OF ok ob, of name] show ?thesis
  proof (elim disjE exE conjE)
    assume 1: "find_event w ob name = Some None" "\<forall>ev \<in> set (evs_of w p). ev_name ev \<noteq> name"
    then have "takeWhile (\<lambda>ev. ev_name ev \<noteq> name) (evs_of w p) = evs_of w p"
      "dropWhile (\<lambda>ev. ev_name ev \<noteq> name) (evs_of w p) = []"
      by (simp_all add: takeWhile_eq_all_conv)
    moreover have "AG_UnsetEvent p name w = Some w" using 1 ob by (simp add: AG_UnsetEvent_def)
    ultimately show ?thesis using ok by (intro exI [of _ w]) (simp add: takeWhile_eq_all_conv [THEN iffD2] dropWhile_eq_Nil_conv [THEN iffD2])
  next
    fix us e vs ev
    assume 1: "find_event w ob name = Some (Some e)" "ob_events ob = us @ e # vs" "w_events w e = Some ev"
      "ev_name ev = name" "\<forall>x \<in> set us. \<exists>r. w_events w x = Some r \<and> ev_name r \<noteq> name"
    have nin: "e \<notin> set us" "e \<notin> set vs" using d 1(2) by auto
    define w' where "w' = (put_obj p (ob\<lparr>ob_events := us @ vs\<rparr>) w)\<lparr>w_events := (w_events w)(e := None)\<rparr>"
    have run: "AG_UnsetEvent p name w = Some w'"
      using 1 ob nin by (simp add: AG_UnsetEvent_def q_remove_def remove1_append w'_def)
    have evs: "evs_of w p = map (\<lambda>e. the (w_events w e)) us @ ev # map (\<lambda>e. the (w_events w e)) vs"
       "evs_of w' p = map (\<lambda>e. the (w_events w e)) us @ map (\<lambda>e. the (w_events w e)) vs"
      using ob 1(2,3) nin by (auto simp: evs_of_def w'_def)
    have ne: "\<forall>x \<in> set (map (\<lambda>e. the (w_events w e)) us). ev_name x \<noteq> name" using 1(5) by fastforce
    have "takeWhile (\<lambda>ev. ev_name ev \<noteq> name) (evs_of w p) = map (\<lambda>e. the (w_events w e)) us"
      "dropWhile (\<lambda>ev. ev_name ev \<noteq> name) (evs_of w p) = ev # map (\<lambda>e. the (w_events w e)) vs"
      using ne 1(4) by (simp_all add: evs takeWhile_append dropWhile_append3)
    moreover have "events_ok w' p" using d a 1(2) nin by (auto simp: w'_def)
    ultimately show ?thesis using run evs by (auto simp: w'_def)
  qed
qed

section \<open>Properties\<close>

text \<open>
  Two objects: 0 with two handlers of the event \<open>go\<close>, the first of which propagates, and
  its child 1 with one handler.  Every call is logged in a new cell, as the function and
  the receiver.
\<close>

definition log_call :: handlers where
  "log_call f ev w = (let (a, w) = fresh w in Some (put_mem a (M_cell (v_data (ev_argv ev ! 0))) w))"

definition sample_event :: "string \<Rightarrow> nat \<Rightarrow> 32 word \<Rightarrow> nat \<Rightarrow> AG_Event" where
  "sample_event name p fl f = (the (InitEvent (Some p) blank_event))\<lparr>ev_name := name, ev_flags := fl, ev_fn := Some f\<rparr>"

lemma blank_event_argv [simp]: "length (ev_argv blank_event) = AG_EVENT_ARGS_MAX"
  by (simp add: blank_event_def)

lemma sample_event_simps [simp]:
  "ev_name (sample_event name p fl f) = name" "ev_flags (sample_event name p fl f) = fl"
  "ev_fn (sample_event name p fl f) = Some f" "ev_argc (sample_event name p fl f) = 1"
  "length (ev_argv (sample_event name p fl f)) = AG_EVENT_ARGS_MAX"
  "v_data (ev_argv (sample_event name p fl f) ! 0) = C_p (Some p)"
  by (simp_all add: sample_event_def InitEvent_blank InitPointerArg_def)

definition sample_world :: world where
  "sample_world = blank_world\<lparr>
     w_objs := [0 \<mapsto> blank_obj\<lparr>ob_events := [10, 11], ob_children := [1]\<rparr>,
                1 \<mapsto> blank_obj\<lparr>ob_events := [12], ob_parent := Some 0\<rparr>],
     w_events := [10 \<mapsto> sample_event ''go'' 0 AG_EVENT_PROPAGATE 100,
                  11 \<mapsto> sample_event ''go'' 0 0 101,
                  12 \<mapsto> sample_event ''go'' 1 0 102],
     w_brk := 20\<rparr>"

text \<open>
  C2: \<open>AG_PostEvent\<close> when no handler of a descendant with the name of the event has the flag
  \<open>AG_EVENT_PROPAGATE\<close> (\<open>plain_handlers\<close>) and handlers leave the objects and their events
  alone (\<open>quiet\<close>), on a finite tree of objects with well-formed events and with fuel for it: every handler of the receiver with the name of the event is called once, in the order of
  registration, with its own arguments, the posted ones and the sender; the first one of the receiver that asks for
  propagation has the event forwarded, before its own call, to every descendant once, in
  post-order; and the traversal ends.  The first condition is needed: a descendant whose handler has the
  flag forwards the event again, and what is below it gets the event more than once (\<open>AG_PostEvent_twice\<close>).
\<close>

theorem AG_PostEvent_delivers:
  assumes "quiet call" "is_otree w (Node rcvr ts)"
    "\<forall>(s, r) \<in> set (below (Node rcvr ts)). plain_handlers w name r"
    "2 * tree_fuel w (Node rcvr ts) \<le> n"
  shows "AG_PostEvent n call sndr rcvr name fmt ap w =
    deliver_all call sndr (Node rcvr ts) fmt ap False (filter (\<lambda>ev. ev_name ev = name) (evs_of w rcvr)) w"
  using assms by (rule AG_PostEvent_spec)

lemma log_call_quiet: "quiet log_call"
  by (auto simp: quiet_def log_call_def fresh_def)

theorem AG_PostEvent_delivers_witness:
  "\<exists>w. AG_PostEvent 40 log_call None 0 ''go'' None [] sample_world = Some w \<and>
     map (w_mem w) [20, 21, 22, 23] =
       [Some (M_cell (C_p (Some 1))), Some (M_cell (C_p (Some 0))), Some (M_cell (C_p (Some 0))), None]"
proof -
  have "AG_PostEvent 40 log_call None 0 ''go'' None [] sample_world =
    deliver_all log_call None (Node 0 [Node 1 []]) None [] False
      (filter (\<lambda>ev. ev_name ev = ''go'') (evs_of sample_world 0)) sample_world"
    by (rule AG_PostEvent_delivers [OF log_call_quiet])
       (simp_all add: sample_world_def blank_world_def blank_obj_def plain_handlers_def evs_of_def)
  then show ?thesis
    by (simp add: sample_world_def blank_world_def blank_obj_def evs_of_def GET_ARGS_def set_ptr_arg_def
      buf_simps run_fn_def log_call_def fresh_def InitPointerArg_def AG_EVENT_PROPAGATE_def)
qed

text \<open>
  \<open>AG_SetEvent\<close> leaves exactly one more handler of that name when there was none, and
  otherwise replaces the first one in place: it is what \<open>AG_FindEventHandler\<close> then finds, with the
  function, and with the object and the arguments of the format, each under its name, as
  the argument vector; handlers of other names are not touched.
\<close>

theorem AG_SetEvent_binds:
  assumes "world_ok w" "events_ok w p" "list_all arg_ok as" "length as < AG_EVENT_ARGS_MAX"
    "length name < AG_EVENT_NAME_MAX"
  shows "\<exists>e ev w'. AG_SetEvent p (Some name) fn (Some (args_fmt as)) (map (\<lambda>a. snd (snd a)) as) w = Some (e, w') \<and>
     AG_FindEventHandler p name w' = Some (Some e) \<and> w_events w' e = Some ev \<and> event_is p name fn as ev \<and>
     world_ok w' \<and> events_ok w' p \<and>
     filter (\<lambda>ev. ev_name ev \<noteq> name) (evs_of w' p) = filter (\<lambda>ev. ev_name ev \<noteq> name) (evs_of w p) \<and>
     length (filter (\<lambda>ev. ev_name ev = name) (evs_of w' p)) =
       max 1 (length (filter (\<lambda>ev. ev_name ev = name) (evs_of w p)))"
  using assms by (rule AG_SetEvent_spec)

lemma sample_world_ok: "world_ok sample_world" "events_ok sample_world 0"
  by (auto simp: world_ok_def sample_world_def blank_world_def blank_obj_def split: if_splits)

theorem AG_SetEvent_binds_witness:
  "\<exists>e ev w'. AG_SetEvent 0 (Some ''go'') (Some 7) (Some ''%i(n),%Cs'') [C_i 5, C_Cs None] sample_world = Some (e, w') \<and>
     AG_FindEventHandler 0 ''go'' w' = Some (Some e) \<and> w_events w' e = Some ev \<and> ev_fn ev = Some 7 \<and> ev_argc ev = 3"
  using AG_SetEvent_binds [OF sample_world_ok, of "[(''i'', ''n'', C_i 5), (''Cs'', [], C_Cs None)]" "''go''" "Some 7"]
  by (auto simp: arg_ok_def conv_kind_def is_simps arg_fmt_def event_is_def)

text \<open>
  \<open>AG_AddEvent\<close> appends one handler with the given function and arguments, which takes
  over the flags of the first handler of that name, and keeps the others.
\<close>

theorem AG_AddEvent_appends:
  assumes "world_ok w" "events_ok w p" "list_all arg_ok as" "length as < AG_EVENT_ARGS_MAX"
    "length name < AG_EVENT_NAME_MAX"
  shows "\<exists>e ev w'. AG_AddEvent p (Some name) fn (Some (args_fmt as)) (map (\<lambda>a. snd (snd a)) as) w = Some (e, w') \<and>
     evs_of w' p = evs_of w p @ [ev] \<and> event_is p name fn as ev \<and>
     ev_flags ev = (case filter (\<lambda>ev. ev_name ev = name) (evs_of w p) of [] \<Rightarrow> 0 | ev' # _ \<Rightarrow> ev_flags ev') \<and>
     world_ok w' \<and> events_ok w' p"
  using assms by (rule AG_AddEvent_spec)

theorem AG_AddEvent_appends_witness:
  "\<exists>e ev w'. AG_AddEvent 0 (Some ''go'') (Some 7) (Some ''%p'') [C_p (Some 1)] sample_world = Some (e, w') \<and>
     evs_of w' 0 = evs_of sample_world 0 @ [ev] \<and> ev_flags ev = AG_EVENT_PROPAGATE"
  using AG_AddEvent_appends [OF sample_world_ok, of "[(''p'', [], C_p (Some 1))]" "''go''" "Some 7"]
  by (auto simp: arg_ok_def conv_kind_def is_simps arg_fmt_def event_is_def sample_world_def blank_obj_def
      evs_of_def)

text \<open>
  \<open>AG_UnsetEvent\<close> removes the first handler of that name and no other.
\<close>

theorem AG_UnsetEvent_removes:
  assumes "events_ok w p"
  shows "\<exists>w'. AG_UnsetEvent p name w = Some w' \<and> events_ok w' p \<and>
     evs_of w' p = takeWhile (\<lambda>ev. ev_name ev \<noteq> name) (evs_of w p) @ tl (dropWhile (\<lambda>ev. ev_name ev \<noteq> name) (evs_of w p)) \<and>
     (\<forall>q. q \<noteq> p \<longrightarrow> w_objs w' q = w_objs w q)"
  using assms by (rule AG_UnsetEvent_spec)

theorem AG_UnsetEvent_removes_witness:
  "\<exists>w'. AG_UnsetEvent 0 ''go'' sample_world = Some w' \<and> evs_of w' 0 = [sample_event ''go'' 0 0 101]"
  using AG_UnsetEvent_removes [OF sample_world_ok(2), of "''go''"]
  by (auto simp: sample_world_def blank_obj_def evs_of_def)

text \<open>
  When a handler of a child asks for propagation too, a post that is propagated
  reaches the grandchild twice: \<open>PropagateEvent\<close> forwards to the whole tree, and the
  child's \<open>AG_ForwardEvent\<close> propagates again.
\<close>

definition chain_world :: world where
  "chain_world = blank_world\<lparr>
     w_objs := [0 \<mapsto> blank_obj\<lparr>ob_events := [10], ob_children := [1]\<rparr>,
                1 \<mapsto> blank_obj\<lparr>ob_events := [11], ob_children := [2], ob_parent := Some 0\<rparr>,
                2 \<mapsto> blank_obj\<lparr>ob_events := [12], ob_parent := Some 1\<rparr>],
     w_events := [10 \<mapsto> sample_event ''go'' 0 AG_EVENT_PROPAGATE 100,
                  11 \<mapsto> sample_event ''go'' 1 AG_EVENT_PROPAGATE 101,
                  12 \<mapsto> sample_event ''go'' 2 0 102],
     w_brk := 20\<rparr>"

theorem AG_PostEvent_twice:
  "\<exists>w. AG_PostEvent 30 log_call None 0 ''go'' None [] chain_world = Some w \<and>
     map (w_mem w) [20, 21, 22, 23, 24] =
       [Some (M_cell (C_p (Some 2))), Some (M_cell (C_p (Some 2))), Some (M_cell (C_p (Some 1))),
        Some (M_cell (C_p (Some 0))), None]"
  by (simp add: AG_PostEvent_def chain_world_def blank_world_def blank_obj_def GET_ARGS_def set_ptr_arg_def buf_simps run_fn_def log_call_def fresh_def deliver_def
      InitPointerArg_def AG_EVENT_PROPAGATE_def first_of_def ev_deref_def numeral_eq_Suc)

end
