(* ===== verification/Variables.thy ===== *)
theory Variables
  imports Events CStr
begin

text \<open>
  The variables of core/variable.c and core/variable.h, with the look-up routines of
  core/object.h: binding, setting and reading the variables of an object, references
  between variables, functions as variables, strings, flags, copies, comparison, printing
  and substitution.

  The routines for the scalar types are instances of the macros \<open>FN_VARIABLE_GET\<close>,
  \<open>FN_VARIABLE_SET\<close>, \<open>FN_VARIABLE_BIND\<close>, \<open>FN_VARIABLE_BIND_FN\<close>, \<open>FN_VARIABLE_BIND_MP\<close> and
  \<open>FN_VARIABLE_GETFN\<close>, and so they are here.  What a variable can call is collected in
  a record of parameters: the event handlers, the functions of the scalar types, those of
  strings (which fill a buffer), and the two conversions of \<open>printf\<close> that depend on the
  platform.
\<close>

record hooks =
  hk_fuel :: nat
  hk_call :: handlers
  hk_eval :: "nat \<Rightarrow> AG_Event \<Rightarrow> world \<Rightarrow> (cval \<times> world) option"
  hk_str :: "nat \<Rightarrow> AG_Event option \<Rightarrow> char list \<Rightarrow> nat \<Rightarrow> world \<Rightarrow> (nat \<times> char list \<times> world) option"
  hk_flt :: "cval \<Rightarrow> string"
  hk_ptr :: "nat option \<Rightarrow> string"

section \<open>Members of the data union\<close>

datatype memb = M_u | M_i | M_u8 | M_s8 | M_u16 | M_s16 | M_u32 | M_s32 | M_u64 | M_s64
  | M_flt | M_dbl | M_p | M_Cp | M_s | M_Cs

fun memb_of :: "cval \<Rightarrow> memb option" where
  "memb_of C_null = None"
| "memb_of (C_u _) = Some M_u" | "memb_of (C_i _) = Some M_i"
| "memb_of (C_u8 _) = Some M_u8" | "memb_of (C_s8 _) = Some M_s8"
| "memb_of (C_u16 _) = Some M_u16" | "memb_of (C_s16 _) = Some M_s16"
| "memb_of (C_u32 _) = Some M_u32" | "memb_of (C_s32 _) = Some M_s32"
| "memb_of (C_u64 _) = Some M_u64" | "memb_of (C_s64 _) = Some M_s64"
| "memb_of (C_flt _) = Some M_flt" | "memb_of (C_dbl _) = Some M_dbl"
| "memb_of (C_p _) = Some M_p" | "memb_of (C_Cp _) = Some M_Cp"
| "memb_of (C_s _) = Some M_s" | "memb_of (C_Cs _) = Some M_Cs"

fun ptr_of :: "cval \<Rightarrow> nat option option" where
  "ptr_of (C_p x) = Some x" | "ptr_of (C_Cp x) = Some x"
| "ptr_of (C_s x) = Some x" | "ptr_of (C_Cs x) = Some x"
| "ptr_of _ = None"

text \<open>The value of a member in all-zero memory.\<close>

fun memb_zero :: "memb \<Rightarrow> cval" where
  "memb_zero M_u = C_u 0" | "memb_zero M_i = C_i 0"
| "memb_zero M_u8 = C_u8 0" | "memb_zero M_s8 = C_s8 0"
| "memb_zero M_u16 = C_u16 0" | "memb_zero M_s16 = C_s16 0"
| "memb_zero M_u32 = C_u32 0" | "memb_zero M_s32 = C_s32 0"
| "memb_zero M_u64 = C_u64 0" | "memb_zero M_s64 = C_s64 0"
| "memb_zero M_flt = C_flt 0" | "memb_zero M_dbl = C_dbl 0"
| "memb_zero M_p = C_p None" | "memb_zero M_Cp = C_Cp None"
| "memb_zero M_s = C_s None" | "memb_zero M_Cs = C_Cs None"

fun memb_ptr :: "memb \<Rightarrow> nat option \<Rightarrow> cval option" where
  "memb_ptr M_p x = Some (C_p x)" | "memb_ptr M_Cp x = Some (C_Cp x)"
| "memb_ptr M_s x = Some (C_s x)" | "memb_ptr M_Cs x = Some (C_Cs x)"
| "memb_ptr m x = (if x = None then Some (memb_zero m) else None)"

text \<open>
  Reading a member: the one that was written, one pointer for another, or a member of
  zeroed memory.
\<close>

definition rd_memb :: "memb \<Rightarrow> cval \<Rightarrow> cval option" where
  "rd_memb m d = (if memb_of d = Some m then Some d
                  else case ptr_of d of None \<Rightarrow> None | Some x \<Rightarrow> memb_ptr m x)"

text \<open>\<open>*(T * )V->data.p\<close> as a value and as the target of an assignment.\<close>

definition load_as :: "memb \<Rightarrow> AG_Variable \<Rightarrow> world \<Rightarrow> cval option" where
  "load_as m V w = do {
     p \<leftarrow> ptr_of (v_data V); a \<leftarrow> p; c \<leftarrow> w_mem w a;
     (case c of M_cell d \<Rightarrow> rd_memb m d | M_buf _ \<Rightarrow> None)
   }"

definition store_as :: "memb \<Rightarrow> cval \<Rightarrow> AG_Variable \<Rightarrow> world \<Rightarrow> world option" where
  "store_as m v V w = do {
     p \<leftarrow> ptr_of (v_data V); a \<leftarrow> p; c \<leftarrow> w_mem w a;
     (case c of
        M_cell d \<Rightarrow> (if memb_of d = Some m \<or> ptr_of d \<noteq> None \<and> m \<in> {M_p, M_Cp, M_s, M_Cs}
                    then Some (put_mem a (M_cell v) w) else None)
      | M_buf _ \<Rightarrow> None)
   }"

section \<open>Strings in memory\<close>

definition get_cstr :: "nat option \<Rightarrow> world \<Rightarrow> string option" where
  "get_cstr p w = do {
     a \<leftarrow> p; c \<leftarrow> w_mem w a;
     (case c of M_buf b \<Rightarrow> (if terminated b then Some (cstr b) else None) | M_cell _ \<Rightarrow> None)
   }"

definition Strdup :: "string \<Rightarrow> world \<Rightarrow> nat \<times> world" where
  "Strdup s w = (let (a, w) = fresh w in (a, put_mem a (M_buf (s @ [NUL])) w))"

definition free_ptr :: "nat option \<Rightarrow> world \<Rightarrow> world option" where
  "free_ptr p w = (case p of
     None \<Rightarrow> Some w
   | Some a \<Rightarrow> if w_mem w a = None then None else Some (w\<lparr>w_mem := (w_mem w)(a := None)\<rparr>))"

text \<open>\<open>Strlcpy(buf, s, size)\<close> into a buffer in memory.\<close>

definition strlcpy_mem :: "nat option \<Rightarrow> string \<Rightarrow> nat \<Rightarrow> world \<Rightarrow> world option" where
  "strlcpy_mem p s siz w = do {
     a \<leftarrow> p; c \<leftarrow> w_mem w a;
     (case c of
        M_buf b \<Rightarrow> do { (b, _) \<leftarrow> AG_Strlcpy b (s @ [NUL]) siz; Some (put_mem a (M_buf b) w) }
      | M_cell _ \<Rightarrow> None)
   }"

section \<open>Looking variables up\<close>

definition find_var :: "world \<Rightarrow> AG_Object \<Rightarrow> string \<Rightarrow> nat option option" where
  "find_var w ob name = find_first (w_vars w) (\<lambda>V. v_name V = name) (ob_vars ob)"

definition AG_FreeVariable :: "AG_Variable \<Rightarrow> world \<Rightarrow> world option" where
  "AG_FreeVariable V w =
     (if v_type V = AG_VARIABLE_STRING then do {
        n \<leftarrow> info_size V;
        if n = 0 then do { p \<leftarrow> ptr_of (v_data V); free_ptr p w } else Some w
      }
      else Some w)"

text \<open>The key of a reference is part of the structure; freeing it has no effect here.\<close>

definition new_var :: "nat \<Rightarrow> string \<Rightarrow> AG_VariableType \<Rightarrow> world \<Rightarrow> (nat \<times> world) option" where
  "new_var p name t w = do {
     ob \<leftarrow> w_objs w p;
     let (v, w) = fresh w;
     vars \<leftarrow> q_insert_tail v (ob_vars ob);
     Some (v, put_var v ((AG_InitVariable t blank_var)\<lparr>v_name := str_cpy AG_VARIABLE_NAME_MAX name\<rparr>)
                (put_obj p (ob\<lparr>ob_vars := vars\<rparr>) w))
   }"

definition AG_FetchVariable :: "nat \<Rightarrow> string \<Rightarrow> AG_VariableType \<Rightarrow> world \<Rightarrow> (nat \<times> world) option" where
  "AG_FetchVariable p name t w = do {
     ob \<leftarrow> w_objs w p;
     found \<leftarrow> find_var w ob name;
     (case found of Some v \<Rightarrow> Some (v, w) | None \<Rightarrow> new_var p name t w)
   }"

definition AG_FetchVariableOfType :: "nat \<Rightarrow> string \<Rightarrow> AG_VariableType \<Rightarrow> world \<Rightarrow> (nat \<times> world) option" where
  "AG_FetchVariableOfType p name t w = do {
     (v, w) \<leftarrow> AG_FetchVariable p name t w;
     V \<leftarrow> w_vars w v;
     if v_type V \<noteq> t then do {
       w \<leftarrow> AG_FreeVariable V w;
       Some (v, put_var v (AG_InitVariable t V) w)
     } else Some (v, w)
   }"

text \<open>
  The look-up that follows references.  A cycle of references makes it run for ever,
  which is \<^const>\<open>None\<close>; \<open>Some None\<close> is the result NULL.
\<close>

partial_function (option) AG_GetVariableLocked :: "world \<Rightarrow> nat \<Rightarrow> string \<Rightarrow> nat option option" where
  "AG_GetVariableLocked w p name = do {
     ob \<leftarrow> w_objs w p;
     found \<leftarrow> find_var w ob name;
     (case found of
        None \<Rightarrow> Some None
      | Some v \<Rightarrow> do {
          V \<leftarrow> w_vars w v;
          if v_type V = AG_VARIABLE_P_VARIABLE then do {
            tgt \<leftarrow> ptr_of (v_data V); tgt \<leftarrow> tgt;
            key \<leftarrow> (case v_info V of I_ref key \<Rightarrow> key | _ \<Rightarrow> None);
            AG_GetVariableLocked w tgt key
          } else Some (Some v)
        })
   }"

definition AG_Unset :: "nat \<Rightarrow> string \<Rightarrow> world \<Rightarrow> world option" where
  "AG_Unset p name w = do {
     ob \<leftarrow> w_objs w p;
     found \<leftarrow> find_var w ob name;
     (case found of
        None \<Rightarrow> Some w
      | Some v \<Rightarrow> do {
          V \<leftarrow> w_vars w v;
          vars \<leftarrow> q_remove v (ob_vars ob);
          w \<leftarrow> AG_FreeVariable V (put_obj p (ob\<lparr>ob_vars := vars\<rparr>) w);
          Some (w\<lparr>w_vars := (w_vars w)(v := None)\<rparr>)
        })
   }"

section \<open>The bodies of the scalar routines\<close>

definition get_ev_name :: "string \<Rightarrow> string" where
  "get_ev_name name = str_cat AG_EVENT_NAME_MAX (str_cpy AG_EVENT_NAME_MAX ''get-'') name"

definition FN_VARIABLE_GETFN :: "memb \<Rightarrow> hooks \<Rightarrow> nat \<Rightarrow> nat \<Rightarrow> world \<Rightarrow> world option" where
  "FN_VARIABLE_GETFN m H p v w = do {
     V \<leftarrow> w_vars w v;
     ob \<leftarrow> w_objs w p;
     found \<leftarrow> find_event w ob (get_ev_name (v_name V));
     (case found of
        None \<Rightarrow> Some w
      | Some e \<Rightarrow> do {
          ev \<leftarrow> w_events w e;
          f \<leftarrow> v_fn V;
          (d, w) \<leftarrow> hk_eval H f ev w;
          if memb_of d \<noteq> Some m then None
          else do { V \<leftarrow> w_vars w v; Some (put_var v (V\<lparr>v_data := d\<rparr>) w) }
        })
   }"

definition FN_VARIABLE_GET :: "memb \<Rightarrow> hooks \<Rightarrow> nat \<Rightarrow> string \<Rightarrow> world \<Rightarrow> (cval \<times> world) option" where
  "FN_VARIABLE_GET m H p name w = do {
     found \<leftarrow> AG_GetVariableLocked w p name;
     (case found of
        None \<Rightarrow> Some (memb_zero m, w)
      | Some v \<Rightarrow> do {
          V \<leftarrow> w_vars w v;
          w \<leftarrow> (if v_fn V \<noteq> None then FN_VARIABLE_GETFN m H p v w else Some w);
          V \<leftarrow> w_vars w v;
          rv \<leftarrow> (if 0 < vt_indirLvl (agVariableTypes (v_type V)) then load_as m V w else rd_memb m (v_data V));
          Some (rv, w)
        })
   }"

definition FN_VARIABLE_SET :: "memb \<Rightarrow> AG_VariableType \<Rightarrow> nat \<Rightarrow> string \<Rightarrow> cval \<Rightarrow> world \<Rightarrow> (nat \<times> world) option" where
  "FN_VARIABLE_SET m t p name val w = do {
     (v, w) \<leftarrow> AG_FetchVariable p name t w;
     V \<leftarrow> w_vars w v;
     w \<leftarrow> (if 0 < vt_indirLvl (agVariableTypes (v_type V)) then store_as m val V w
           else Some (put_var v (V\<lparr>v_data := val\<rparr>) w));
     Some (v, w)
   }"

text \<open>\<open>AG_PostEvent(NULL, obj, "bound", "%p", V)\<close>\<close>

definition post_bound :: "hooks \<Rightarrow> nat \<Rightarrow> nat \<Rightarrow> world \<Rightarrow> (nat \<times> world) option" where
  "post_bound H p v w = do {
     w \<leftarrow> AG_PostEvent (hk_fuel H) (hk_call H) None p ''bound'' (Some ''%p'') [C_p (Some v)] w;
     Some (v, w)
   }"

definition FN_VARIABLE_BIND :: "AG_VariableType \<Rightarrow> hooks \<Rightarrow> nat \<Rightarrow> string \<Rightarrow> nat option \<Rightarrow> world \<Rightarrow> (nat \<times> world) option" where
  "FN_VARIABLE_BIND t H p name a w = do {
     (v, w) \<leftarrow> AG_FetchVariableOfType p name t w;
     V \<leftarrow> w_vars w v;
     post_bound H p v (put_var v (V\<lparr>v_data := C_p a\<rparr>) w)
   }"

definition FN_VARIABLE_BIND_FN ::
  "AG_VariableType \<Rightarrow> hooks \<Rightarrow> nat \<Rightarrow> string \<Rightarrow> nat option \<Rightarrow> string option \<Rightarrow> cval list \<Rightarrow> world \<Rightarrow> (nat \<times> world) option" where
  "FN_VARIABLE_BIND_FN t H p name fn fmt ap w = do {
     (v, w) \<leftarrow> AG_FetchVariableOfType p name t w;
     V \<leftarrow> w_vars w v;
     (e, w) \<leftarrow> AG_SetEvent p (Some (get_ev_name name)) None None [] (put_var v (V\<lparr>v_fn := fn\<rparr>) w);
     ev \<leftarrow> w_events w e;
     ev \<leftarrow> GET_ARGS fmt ap ev;
     post_bound H p v (put_event e ev w)
   }"

definition FN_VARIABLE_BIND_MP ::
  "AG_VariableType \<Rightarrow> hooks \<Rightarrow> nat \<Rightarrow> string \<Rightarrow> nat option \<Rightarrow> nat option \<Rightarrow> world \<Rightarrow> (nat \<times> world) option" where
  "FN_VARIABLE_BIND_MP t H p name a mutex w = do {
     (v, w) \<leftarrow> AG_FetchVariableOfType p name t w;
     V \<leftarrow> w_vars w v;
     post_bound H p v (put_var v (V\<lparr>v_mutex := mutex, v_data := C_p a\<rparr>) w)
   }"

text \<open>\<open>AG_InitUint\<close> and its relatives\<close>

definition INIT_VAR :: "AG_VariableType \<Rightarrow> cval \<Rightarrow> AG_Variable \<Rightarrow> AG_Variable" where
  "INIT_VAR t val V = (AG_InitVariable t V)\<lparr>v_name := [], v_data := val\<rparr>"

section \<open>The scalar routines\<close>

definition GetUintFn :: "hooks \<Rightarrow> nat \<Rightarrow> nat \<Rightarrow> world \<Rightarrow> world option" where
  "GetUintFn = FN_VARIABLE_GETFN M_u"

definition AG_GetUint :: "hooks \<Rightarrow> nat \<Rightarrow> string \<Rightarrow> world \<Rightarrow> (cval \<times> world) option" where
  "AG_GetUint = FN_VARIABLE_GET M_u"

definition AG_SetUint :: "nat \<Rightarrow> string \<Rightarrow> 32 word \<Rightarrow> world \<Rightarrow> (nat \<times> world) option" where
  "AG_SetUint p name x = FN_VARIABLE_SET M_u AG_VARIABLE_UINT p name (C_u x)"

definition AG_InitUint :: "32 word \<Rightarrow> AG_Variable \<Rightarrow> AG_Variable" where
  "AG_InitUint x = INIT_VAR AG_VARIABLE_UINT (C_u x)"

definition AG_BindUint :: "hooks \<Rightarrow> nat \<Rightarrow> string \<Rightarrow> nat option \<Rightarrow> world \<Rightarrow> (nat \<times> world) option" where
  "AG_BindUint = FN_VARIABLE_BIND AG_VARIABLE_P_UINT"

definition AG_BindUintFn ::
  "hooks \<Rightarrow> nat \<Rightarrow> string \<Rightarrow> nat option \<Rightarrow> string option \<Rightarrow> cval list \<Rightarrow> world \<Rightarrow> (nat \<times> world) option" where
  "AG_BindUintFn = FN_VARIABLE_BIND_FN AG_VARIABLE_UINT"

definition AG_BindUintMp ::
  "hooks \<Rightarrow> nat \<Rightarrow> string \<Rightarrow> nat option \<Rightarrow> nat option \<Rightarrow> world \<Rightarrow> (nat \<times> world) option" where
  "AG_BindUintMp = FN_VARIABLE_BIND_MP AG_VARIABLE_P_UINT"

definition GetIntFn :: "hooks \<Rightarrow> nat \<Rightarrow> nat \<Rightarrow> world \<Rightarrow> world option" where
  "GetIntFn = FN_VARIABLE_GETFN M_i"

definition AG_GetInt :: "hooks \<Rightarrow> nat \<Rightarrow> string \<Rightarrow> world \<Rightarrow> (cval \<times> world) option" where
  "AG_GetInt = FN_VARIABLE_GET M_i"

definition AG_SetInt :: "nat \<Rightarrow> string \<Rightarrow> 32 word \<Rightarrow> world \<Rightarrow> (nat \<times> world) option" where
  "AG_SetInt p name x = FN_VARIABLE_SET M_i AG_VARIABLE_INT p name (C_i x)"

definition AG_InitInt :: "32 word \<Rightarrow> AG_Variable \<Rightarrow> AG_Variable" where
  "AG_InitInt x = INIT_VAR AG_VARIABLE_INT (C_i x)"

definition AG_BindInt :: "hooks \<Rightarrow> nat \<Rightarrow> string \<Rightarrow> nat option \<Rightarrow> world \<Rightarrow> (nat \<times> world) option" where
  "AG_BindInt = FN_VARIABLE_BIND AG_VARIABLE_P_INT"

definition AG_BindIntFn ::
  "hooks \<Rightarrow> nat \<Rightarrow> string \<Rightarrow> nat option \<Rightarrow> string option \<Rightarrow> cval list \<Rightarrow> world \<Rightarrow> (nat \<times> world) option" where
  "AG_BindIntFn = FN_VARIABLE_BIND_FN AG_VARIABLE_INT"

definition AG_BindIntMp ::
  "hooks \<Rightarrow> nat \<Rightarrow> string \<Rightarrow> nat option \<Rightarrow> nat option \<Rightarrow> world \<Rightarrow> (nat \<times> world) option" where
  "AG_BindIntMp = FN_VARIABLE_BIND_MP AG_VARIABLE_P_INT"

definition GetUint8Fn :: "hooks \<Rightarrow> nat \<Rightarrow> nat \<Rightarrow> world \<Rightarrow> world option" where
  "GetUint8Fn = FN_VARIABLE_GETFN M_u8"

definition AG_GetUint8 :: "hooks \<Rightarrow> nat \<Rightarrow> string \<Rightarrow> world \<Rightarrow> (cval \<times> world) option" where
  "AG_GetUint8 = FN_VARIABLE_GET M_u8"

definition AG_SetUint8 :: "nat \<Rightarrow> string \<Rightarrow> 8 word \<Rightarrow> world \<Rightarrow> (nat \<times> world) option" where
  "AG_SetUint8 p name x = FN_VARIABLE_SET M_u8 AG_VARIABLE_UINT8 p name (C_u8 x)"

definition AG_InitUint8 :: "8 word \<Rightarrow> AG_Variable \<Rightarrow> AG_Variable" where
  "AG_InitUint8 x = INIT_VAR AG_VARIABLE_UINT8 (C_u8 x)"

definition AG_BindUint8 :: "hooks \<Rightarrow> nat \<Rightarrow> string \<Rightarrow> nat option \<Rightarrow> world \<Rightarrow> (nat \<times> world) option" where
  "AG_BindUint8 = FN_VARIABLE_BIND AG_VARIABLE_P_UINT8"

definition AG_BindUint8Fn ::
  "hooks \<Rightarrow> nat \<Rightarrow> string \<Rightarrow> nat option \<Rightarrow> string option \<Rightarrow> cval list \<Rightarrow> world \<Rightarrow> (nat \<times> world) option" where
  "AG_BindUint8Fn = FN_VARIABLE_BIND_FN AG_VARIABLE_UINT8"

definition AG_BindUint8Mp ::
  "hooks \<Rightarrow> nat \<Rightarrow> string \<Rightarrow> nat option \<Rightarrow> nat option \<Rightarrow> world \<Rightarrow> (nat \<times> world) option" where
  "AG_BindUint8Mp = FN_VARIABLE_BIND_MP AG_VARIABLE_P_UINT8"

definition GetSint8Fn :: "hooks \<Rightarrow> nat \<Rightarrow> nat \<Rightarrow> world \<Rightarrow> world option" where
  "GetSint8Fn = FN_VARIABLE_GETFN M_s8"

definition AG_GetSint8 :: "hooks \<Rightarrow> nat \<Rightarrow> string \<Rightarrow> world \<Rightarrow> (cval \<times> world) option" where
  "AG_GetSint8 = FN_VARIABLE_GET M_s8"

definition AG_SetSint8 :: "nat \<Rightarrow> string \<Rightarrow> 8 word \<Rightarrow> world \<Rightarrow> (nat \<times> world) option" where
  "AG_SetSint8 p name x = FN_VARIABLE_SET M_s8 AG_VARIABLE_SINT8 p name (C_s8 x)"

definition AG_InitSint8 :: "8 word \<Rightarrow> AG_Variable \<Rightarrow> AG_Variable" where
  "AG_InitSint8 x = INIT_VAR AG_VARIABLE_SINT8 (C_s8 x)"

definition AG_BindSint8 :: "hooks \<Rightarrow> nat \<Rightarrow> string \<Rightarrow> nat option \<Rightarrow> world \<Rightarrow> (nat \<times> world) option" where
  "AG_BindSint8 = FN_VARIABLE_BIND AG_VARIABLE_P_SINT8"

definition AG_BindSint8Fn ::
  "hooks \<Rightarrow> nat \<Rightarrow> string \<Rightarrow> nat option \<Rightarrow> string option \<Rightarrow> cval list \<Rightarrow> world \<Rightarrow> (nat \<times> world) option" where
  "AG_BindSint8Fn = FN_VARIABLE_BIND_FN AG_VARIABLE_SINT8"

definition AG_BindSint8Mp ::
  "hooks \<Rightarrow> nat \<Rightarrow> string \<Rightarrow> nat option \<Rightarrow> nat option \<Rightarrow> world \<Rightarrow> (nat \<times> world) option" where
  "AG_BindSint8Mp = FN_VARIABLE_BIND_MP AG_VARIABLE_P_SINT8"

definition GetUint16Fn :: "hooks \<Rightarrow> nat \<Rightarrow> nat \<Rightarrow> world \<Rightarrow> world option" where
  "GetUint16Fn = FN_VARIABLE_GETFN M_u16"

definition AG_GetUint16 :: "hooks \<Rightarrow> nat \<Rightarrow> string \<Rightarrow> world \<Rightarrow> (cval \<times> world) option" where
  "AG_GetUint16 = FN_VARIABLE_GET M_u16"

definition AG_SetUint16 :: "nat \<Rightarrow> string \<Rightarrow> 16 word \<Rightarrow> world \<Rightarrow> (nat \<times> world) option" where
  "AG_SetUint16 p name x = FN_VARIABLE_SET M_u16 AG_VARIABLE_UINT16 p name (C_u16 x)"

definition AG_InitUint16 :: "16 word \<Rightarrow> AG_Variable \<Rightarrow> AG_Variable" where
  "AG_InitUint16 x = INIT_VAR AG_VARIABLE_UINT16 (C_u16 x)"

definition AG_BindUint16 :: "hooks \<Rightarrow> nat \<Rightarrow> string \<Rightarrow> nat option \<Rightarrow> world \<Rightarrow> (nat \<times> world) option" where
  "AG_BindUint16 = FN_VARIABLE_BIND AG_VARIABLE_P_UINT16"

definition AG_BindUint16Fn ::
  "hooks \<Rightarrow> nat \<Rightarrow> string \<Rightarrow> nat option \<Rightarrow> string option \<Rightarrow> cval list \<Rightarrow> world \<Rightarrow> (nat \<times> world) option" where
  "AG_BindUint16Fn = FN_VARIABLE_BIND_FN AG_VARIABLE_UINT16"

definition AG_BindUint16Mp ::
  "hooks \<Rightarrow> nat \<Rightarrow> string \<Rightarrow> nat option \<Rightarrow> nat option \<Rightarrow> world \<Rightarrow> (nat \<times> world) option" where
  "AG_BindUint16Mp = FN_VARIABLE_BIND_MP AG_VARIABLE_P_UINT16"

definition GetSint16Fn :: "hooks \<Rightarrow> nat \<Rightarrow> nat \<Rightarrow> world \<Rightarrow> world option" where
  "GetSint16Fn = FN_VARIABLE_GETFN M_s16"

definition AG_GetSint16 :: "hooks \<Rightarrow> nat \<Rightarrow> string \<Rightarrow> world \<Rightarrow> (cval \<times> world) option" where
  "AG_GetSint16 = FN_VARIABLE_GET M_s16"

definition AG_SetSint16 :: "nat \<Rightarrow> string \<Rightarrow> 16 word \<Rightarrow> world \<Rightarrow> (nat \<times> world) option" where
  "AG_SetSint16 p name x = FN_VARIABLE_SET M_s16 AG_VARIABLE_SINT16 p name (C_s16 x)"

definition AG_InitSint16 :: "16 word \<Rightarrow> AG_Variable \<Rightarrow> AG_Variable" where
  "AG_InitSint16 x = INIT_VAR AG_VARIABLE_SINT16 (C_s16 x)"

definition AG_BindSint16 :: "hooks \<Rightarrow> nat \<Rightarrow> string \<Rightarrow> nat option \<Rightarrow> world \<Rightarrow> (nat \<times> world) option" where
  "AG_BindSint16 = FN_VARIABLE_BIND AG_VARIABLE_P_SINT16"

definition AG_BindSint16Fn ::
  "hooks \<Rightarrow> nat \<Rightarrow> string \<Rightarrow> nat option \<Rightarrow> string option \<Rightarrow> cval list \<Rightarrow> world \<Rightarrow> (nat \<times> world) option" where
  "AG_BindSint16Fn = FN_VARIABLE_BIND_FN AG_VARIABLE_SINT16"

definition AG_BindSint16Mp ::
  "hooks \<Rightarrow> nat \<Rightarrow> string \<Rightarrow> nat option \<Rightarrow> nat option \<Rightarrow> world \<Rightarrow> (nat \<times> world) option" where
  "AG_BindSint16Mp = FN_VARIABLE_BIND_MP AG_VARIABLE_P_SINT16"

definition GetUint32Fn :: "hooks \<Rightarrow> nat \<Rightarrow> nat \<Rightarrow> world \<Rightarrow> world option" where
  "GetUint32Fn = FN_VARIABLE_GETFN M_u32"

definition AG_GetUint32 :: "hooks \<Rightarrow> nat \<Rightarrow> string \<Rightarrow> world \<Rightarrow> (cval \<times> world) option" where
  "AG_GetUint32 = FN_VARIABLE_GET M_u32"

definition AG_SetUint32 :: "nat \<Rightarrow> string \<Rightarrow> 32 word \<Rightarrow> world \<Rightarrow> (nat \<times> world) option" where
  "AG_SetUint32 p name x = FN_VARIABLE_SET M_u32 AG_VARIABLE_UINT32 p name (C_u32 x)"

definition AG_InitUint32 :: "32 word \<Rightarrow> AG_Variable \<Rightarrow> AG_Variable" where
  "AG_InitUint32 x = INIT_VAR AG_VARIABLE_UINT32 (C_u32 x)"

definition AG_BindUint32 :: "hooks \<Rightarrow> nat \<Rightarrow> string \<Rightarrow> nat option \<Rightarrow> world \<Rightarrow> (nat \<times> world) option" where
  "AG_BindUint32 = FN_VARIABLE_BIND AG_VARIABLE_P_UINT32"

definition AG_BindUint32Fn ::
  "hooks \<Rightarrow> nat \<Rightarrow> string \<Rightarrow> nat option \<Rightarrow> string option \<Rightarrow> cval list \<Rightarrow> world \<Rightarrow> (nat \<times> world) option" where
  "AG_BindUint32Fn = FN_VARIABLE_BIND_FN AG_VARIABLE_UINT32"

definition AG_BindUint32Mp ::
  "hooks \<Rightarrow> nat \<Rightarrow> string \<Rightarrow> nat option \<Rightarrow> nat option \<Rightarrow> world \<Rightarrow> (nat \<times> world) option" where
  "AG_BindUint32Mp = FN_VARIABLE_BIND_MP AG_VARIABLE_P_UINT32"

definition GetSint32Fn :: "hooks \<Rightarrow> nat \<Rightarrow> nat \<Rightarrow> world \<Rightarrow> world option" where
  "GetSint32Fn = FN_VARIABLE_GETFN M_s32"

definition AG_GetSint32 :: "hooks \<Rightarrow> nat \<Rightarrow> string \<Rightarrow> world \<Rightarrow> (cval \<times> world) option" where
  "AG_GetSint32 = FN_VARIABLE_GET M_s32"

definition AG_SetSint32 :: "nat \<Rightarrow> string \<Rightarrow> 32 word \<Rightarrow> world \<Rightarrow> (nat \<times> world) option" where
  "AG_SetSint32 p name x = FN_VARIABLE_SET M_s32 AG_VARIABLE_SINT32 p name (C_s32 x)"

definition AG_InitSint32 :: "32 word \<Rightarrow> AG_Variable \<Rightarrow> AG_Variable" where
  "AG_InitSint32 x = INIT_VAR AG_VARIABLE_SINT32 (C_s32 x)"

definition AG_BindSint32 :: "hooks \<Rightarrow> nat \<Rightarrow> string \<Rightarrow> nat option \<Rightarrow> world \<Rightarrow> (nat \<times> world) option" where
  "AG_BindSint32 = FN_VARIABLE_BIND AG_VARIABLE_P_SINT32"

definition AG_BindSint32Fn ::
  "hooks \<Rightarrow> nat \<Rightarrow> string \<Rightarrow> nat option \<Rightarrow> string option \<Rightarrow> cval list \<Rightarrow> world \<Rightarrow> (nat \<times> world) option" where
  "AG_BindSint32Fn = FN_VARIABLE_BIND_FN AG_VARIABLE_SINT32"

definition AG_BindSint32Mp ::
  "hooks \<Rightarrow> nat \<Rightarrow> string \<Rightarrow> nat option \<Rightarrow> nat option \<Rightarrow> world \<Rightarrow> (nat \<times> world) option" where
  "AG_BindSint32Mp = FN_VARIABLE_BIND_MP AG_VARIABLE_P_SINT32"

definition GetUint64Fn :: "hooks \<Rightarrow> nat \<Rightarrow> nat \<Rightarrow> world \<Rightarrow> world option" where
  "GetUint64Fn = FN_VARIABLE_GETFN M_u64"

definition AG_GetUint64 :: "hooks \<Rightarrow> nat \<Rightarrow> string \<Rightarrow> world \<Rightarrow> (cval \<times> world) option" where
  "AG_GetUint64 = FN_VARIABLE_GET M_u64"

definition AG_SetUint64 :: "nat \<Rightarrow> string \<Rightarrow> 64 word \<Rightarrow> world \<Rightarrow> (nat \<times> world) option" where
  "AG_SetUint64 p name x = FN_VARIABLE_SET M_u64 AG_VARIABLE_UINT64 p name (C_u64 x)"

definition AG_InitUint64 :: "64 word \<Rightarrow> AG_Variable \<Rightarrow> AG_Variable" where
  "AG_InitUint64 x = INIT_VAR AG_VARIABLE_UINT64 (C_u64 x)"

definition AG_BindUint64 :: "hooks \<Rightarrow> nat \<Rightarrow> string \<Rightarrow> nat option \<Rightarrow> world \<Rightarrow> (nat \<times> world) option" where
  "AG_BindUint64 = FN_VARIABLE_BIND AG_VARIABLE_P_UINT64"

definition AG_BindUint64Fn ::
  "hooks \<Rightarrow> nat \<Rightarrow> string \<Rightarrow> nat option \<Rightarrow> string option \<Rightarrow> cval list \<Rightarrow> world \<Rightarrow> (nat \<times> world) option" where
  "AG_BindUint64Fn = FN_VARIABLE_BIND_FN AG_VARIABLE_UINT64"

definition AG_BindUint64Mp ::
  "hooks \<Rightarrow> nat \<Rightarrow> string \<Rightarrow> nat option \<Rightarrow> nat option \<Rightarrow> world \<Rightarrow> (nat \<times> world) option" where
  "AG_BindUint64Mp = FN_VARIABLE_BIND_MP AG_VARIABLE_P_UINT64"

definition GetSint64Fn :: "hooks \<Rightarrow> nat \<Rightarrow> nat \<Rightarrow> world \<Rightarrow> world option" where
  "GetSint64Fn = FN_VARIABLE_GETFN M_s64"

definition AG_GetSint64 :: "hooks \<Rightarrow> nat \<Rightarrow> string \<Rightarrow> world \<Rightarrow> (cval \<times> world) option" where
  "AG_GetSint64 = FN_VARIABLE_GET M_s64"

definition AG_SetSint64 :: "nat \<Rightarrow> string \<Rightarrow> 64 word \<Rightarrow> world \<Rightarrow> (nat \<times> world) option" where
  "AG_SetSint64 p name x = FN_VARIABLE_SET M_s64 AG_VARIABLE_SINT64 p name (C_s64 x)"

definition AG_InitSint64 :: "64 word \<Rightarrow> AG_Variable \<Rightarrow> AG_Variable" where
  "AG_InitSint64 x = INIT_VAR AG_VARIABLE_SINT64 (C_s64 x)"

definition AG_BindSint64 :: "hooks \<Rightarrow> nat \<Rightarrow> string \<Rightarrow> nat option \<Rightarrow> world \<Rightarrow> (nat \<times> world) option" where
  "AG_BindSint64 = FN_VARIABLE_BIND AG_VARIABLE_P_SINT64"

definition AG_BindSint64Fn ::
  "hooks \<Rightarrow> nat \<Rightarrow> string \<Rightarrow> nat option \<Rightarrow> string option \<Rightarrow> cval list \<Rightarrow> world \<Rightarrow> (nat \<times> world) option" where
  "AG_BindSint64Fn = FN_VARIABLE_BIND_FN AG_VARIABLE_SINT64"

definition AG_BindSint64Mp ::
  "hooks \<Rightarrow> nat \<Rightarrow> string \<Rightarrow> nat option \<Rightarrow> nat option \<Rightarrow> world \<Rightarrow> (nat \<times> world) option" where
  "AG_BindSint64Mp = FN_VARIABLE_BIND_MP AG_VARIABLE_P_SINT64"

definition GetFloatFn :: "hooks \<Rightarrow> nat \<Rightarrow> nat \<Rightarrow> world \<Rightarrow> world option" where
  "GetFloatFn = FN_VARIABLE_GETFN M_flt"

definition AG_GetFloat :: "hooks \<Rightarrow> nat \<Rightarrow> string \<Rightarrow> world \<Rightarrow> (cval \<times> world) option" where
  "AG_GetFloat = FN_VARIABLE_GET M_flt"

definition AG_SetFloat :: "nat \<Rightarrow> string \<Rightarrow> 32 word \<Rightarrow> world \<Rightarrow> (nat \<times> world) option" where
  "AG_SetFloat p name x = FN_VARIABLE_SET M_flt AG_VARIABLE_FLOAT p name (C_flt x)"

definition AG_InitFloat :: "32 word \<Rightarrow> AG_Variable \<Rightarrow> AG_Variable" where
  "AG_InitFloat x = INIT_VAR AG_VARIABLE_FLOAT (C_flt x)"

definition AG_BindFloat :: "hooks \<Rightarrow> nat \<Rightarrow> string \<Rightarrow> nat option \<Rightarrow> world \<Rightarrow> (nat \<times> world) option" where
  "AG_BindFloat = FN_VARIABLE_BIND AG_VARIABLE_P_FLOAT"

definition AG_BindFloatFn ::
  "hooks \<Rightarrow> nat \<Rightarrow> string \<Rightarrow> nat option \<Rightarrow> string option \<Rightarrow> cval list \<Rightarrow> world \<Rightarrow> (nat \<times> world) option" where
  "AG_BindFloatFn = FN_VARIABLE_BIND_FN AG_VARIABLE_FLOAT"

definition AG_BindFloatMp ::
  "hooks \<Rightarrow> nat \<Rightarrow> string \<Rightarrow> nat option \<Rightarrow> nat option \<Rightarrow> world \<Rightarrow> (nat \<times> world) option" where
  "AG_BindFloatMp = FN_VARIABLE_BIND_MP AG_VARIABLE_P_FLOAT"

definition GetDoubleFn :: "hooks \<Rightarrow> nat \<Rightarrow> nat \<Rightarrow> world \<Rightarrow> world option" where
  "GetDoubleFn = FN_VARIABLE_GETFN M_dbl"

definition AG_GetDouble :: "hooks \<Rightarrow> nat \<Rightarrow> string \<Rightarrow> world \<Rightarrow> (cval \<times> world) option" where
  "AG_GetDouble = FN_VARIABLE_GET M_dbl"

definition AG_SetDouble :: "nat \<Rightarrow> string \<Rightarrow> 64 word \<Rightarrow> world \<Rightarrow> (nat \<times> world) option" where
  "AG_SetDouble p name x = FN_VARIABLE_SET M_dbl AG_VARIABLE_DOUBLE p name (C_dbl x)"

definition AG_InitDouble :: "64 word \<Rightarrow> AG_Variable \<Rightarrow> AG_Variable" where
  "AG_InitDouble x = INIT_VAR AG_VARIABLE_DOUBLE (C_dbl x)"

definition AG_BindDouble :: "hooks \<Rightarrow> nat \<Rightarrow> string \<Rightarrow> nat option \<Rightarrow> world \<Rightarrow> (nat \<times> world) option" where
  "AG_BindDouble = FN_VARIABLE_BIND AG_VARIABLE_P_DOUBLE"

definition AG_BindDoubleFn ::
  "hooks \<Rightarrow> nat \<Rightarrow> string \<Rightarrow> nat option \<Rightarrow> string option \<Rightarrow> cval list \<Rightarrow> world \<Rightarrow> (nat \<times> world) option" where
  "AG_BindDoubleFn = FN_VARIABLE_BIND_FN AG_VARIABLE_DOUBLE"

definition AG_BindDoubleMp ::
  "hooks \<Rightarrow> nat \<Rightarrow> string \<Rightarrow> nat option \<Rightarrow> nat option \<Rightarrow> world \<Rightarrow> (nat \<times> world) option" where
  "AG_BindDoubleMp = FN_VARIABLE_BIND_MP AG_VARIABLE_P_DOUBLE"

definition GetPointerFn :: "hooks \<Rightarrow> nat \<Rightarrow> nat \<Rightarrow> world \<Rightarrow> world option" where
  "GetPointerFn = FN_VARIABLE_GETFN M_p"

definition AG_GetPointer :: "hooks \<Rightarrow> nat \<Rightarrow> string \<Rightarrow> world \<Rightarrow> (cval \<times> world) option" where
  "AG_GetPointer = FN_VARIABLE_GET M_p"

definition AG_SetPointer :: "nat \<Rightarrow> string \<Rightarrow> nat option \<Rightarrow> world \<Rightarrow> (nat \<times> world) option" where
  "AG_SetPointer p name x = FN_VARIABLE_SET M_p AG_VARIABLE_POINTER p name (C_p x)"

definition AG_InitPointer :: "nat option \<Rightarrow> AG_Variable \<Rightarrow> AG_Variable" where
  "AG_InitPointer x = INIT_VAR AG_VARIABLE_POINTER (C_p x)"

definition AG_BindPointer :: "hooks \<Rightarrow> nat \<Rightarrow> string \<Rightarrow> nat option \<Rightarrow> world \<Rightarrow> (nat \<times> world) option" where
  "AG_BindPointer = FN_VARIABLE_BIND AG_VARIABLE_P_POINTER"

definition AG_BindPointerFn ::
  "hooks \<Rightarrow> nat \<Rightarrow> string \<Rightarrow> nat option \<Rightarrow> string option \<Rightarrow> cval list \<Rightarrow> world \<Rightarrow> (nat \<times> world) option" where
  "AG_BindPointerFn = FN_VARIABLE_BIND_FN AG_VARIABLE_POINTER"

definition AG_BindPointerMp ::
  "hooks \<Rightarrow> nat \<Rightarrow> string \<Rightarrow> nat option \<Rightarrow> nat option \<Rightarrow> world \<Rightarrow> (nat \<times> world) option" where
  "AG_BindPointerMp = FN_VARIABLE_BIND_MP AG_VARIABLE_P_POINTER"

definition GetTextFn :: "hooks \<Rightarrow> nat \<Rightarrow> nat \<Rightarrow> world \<Rightarrow> world option" where
  "GetTextFn = FN_VARIABLE_GETFN M_p"

definition AG_GetText :: "hooks \<Rightarrow> nat \<Rightarrow> string \<Rightarrow> world \<Rightarrow> (cval \<times> world) option" where
  "AG_GetText = FN_VARIABLE_GET M_p"

definition AG_SetText :: "nat \<Rightarrow> string \<Rightarrow> nat option \<Rightarrow> world \<Rightarrow> (nat \<times> world) option" where
  "AG_SetText p name x = FN_VARIABLE_SET M_p AG_VARIABLE_P_TEXT p name (C_p x)"

definition AG_InitText :: "nat option \<Rightarrow> AG_Variable \<Rightarrow> AG_Variable" where
  "AG_InitText x = INIT_VAR AG_VARIABLE_P_TEXT (C_p x)"

definition AG_BindText :: "hooks \<Rightarrow> nat \<Rightarrow> string \<Rightarrow> nat option \<Rightarrow> world \<Rightarrow> (nat \<times> world) option" where
  "AG_BindText = FN_VARIABLE_BIND AG_VARIABLE_P_TEXT"

definition AG_BindTextFn ::
  "hooks \<Rightarrow> nat \<Rightarrow> string \<Rightarrow> nat option \<Rightarrow> string option \<Rightarrow> cval list \<Rightarrow> world \<Rightarrow> (nat \<times> world) option" where
  "AG_BindTextFn = FN_VARIABLE_BIND_FN AG_VARIABLE_P_TEXT"

definition AG_BindTextMp ::
  "hooks \<Rightarrow> nat \<Rightarrow> string \<Rightarrow> nat option \<Rightarrow> nat option \<Rightarrow> world \<Rightarrow> (nat \<times> world) option" where
  "AG_BindTextMp = FN_VARIABLE_BIND_MP AG_VARIABLE_P_TEXT"

definition GetConstPointerFn :: "hooks \<Rightarrow> nat \<Rightarrow> nat \<Rightarrow> world \<Rightarrow> world option" where
  "GetConstPointerFn = FN_VARIABLE_GETFN M_Cp"

definition AG_GetConstPointer :: "hooks \<Rightarrow> nat \<Rightarrow> string \<Rightarrow> world \<Rightarrow> (cval \<times> world) option" where
  "AG_GetConstPointer = FN_VARIABLE_GET M_Cp"

definition AG_SetConstPointer :: "nat \<Rightarrow> string \<Rightarrow> nat option \<Rightarrow> world \<Rightarrow> (nat \<times> world) option" where
  "AG_SetConstPointer p name x = FN_VARIABLE_SET M_Cp AG_VARIABLE_CONST_POINTER p name (C_Cp x)"

definition AG_InitConstPointer :: "nat option \<Rightarrow> AG_Variable \<Rightarrow> AG_Variable" where
  "AG_InitConstPointer x = INIT_VAR AG_VARIABLE_CONST_POINTER (C_Cp x)"

definition AG_BindConstPointer :: "hooks \<Rightarrow> nat \<Rightarrow> string \<Rightarrow> nat option \<Rightarrow> world \<Rightarrow> (nat \<times> world) option" where
  "AG_BindConstPointer = FN_VARIABLE_BIND AG_VARIABLE_P_CONST_POINTER"

definition AG_BindConstPointerFn ::
  "hooks \<Rightarrow> nat \<Rightarrow> string \<Rightarrow> nat option \<Rightarrow> string option \<Rightarrow> cval list \<Rightarrow> world \<Rightarrow> (nat \<times> world) option" where
  "AG_BindConstPointerFn = FN_VARIABLE_BIND_FN AG_VARIABLE_CONST_POINTER"

definition AG_BindConstPointerMp ::
  "hooks \<Rightarrow> nat \<Rightarrow> string \<Rightarrow> nat option \<Rightarrow> nat option \<Rightarrow> world \<Rightarrow> (nat \<times> world) option" where
  "AG_BindConstPointerMp = FN_VARIABLE_BIND_MP AG_VARIABLE_P_CONST_POINTER"

section \<open>Strings\<close>

definition GetStringFn :: "hooks \<Rightarrow> nat \<Rightarrow> nat \<Rightarrow> char list \<Rightarrow> nat \<Rightarrow> world \<Rightarrow> (nat \<times> char list \<times> world) option" where
  "GetStringFn H p v dst dstSize w = do {
     V \<leftarrow> w_vars w v;
     ob \<leftarrow> w_objs w p;
     found \<leftarrow> find_event w ob (get_ev_name (v_name V));
     ev \<leftarrow> (case found of None \<Rightarrow> Some None | Some e \<Rightarrow> do { ev \<leftarrow> w_events w e; Some (Some ev) });
     (case v_fn V of
        None \<Rightarrow> Some (0, dst, w)
      | Some f \<Rightarrow> hk_str H f ev dst dstSize w)
   }"

text \<open>\<open>V->data.s\<close> as a string\<close>

definition data_str :: "AG_Variable \<Rightarrow> world \<Rightarrow> string option" where
  "data_str V w = do { p \<leftarrow> ptr_of (v_data V); get_cstr p w }"

text \<open>The buffer of the caller is \<open>dst\<close>; the result is the length and the buffer.\<close>

definition AG_GetString :: "hooks \<Rightarrow> nat \<Rightarrow> string \<Rightarrow> char list \<Rightarrow> nat \<Rightarrow> world \<Rightarrow> (nat \<times> char list \<times> world) option" where
  "AG_GetString H p name dst dstSize w = do {
     found \<leftarrow> AG_GetVariableLocked w p name;
     (case found of
        None \<Rightarrow> Some (0, dst, w)
      | Some v \<Rightarrow> do {
          V \<leftarrow> w_vars w v;
          if v_fn V \<noteq> None then GetStringFn H p v dst dstSize w
          else do {
            s \<leftarrow> data_str V w;
            (dst, _) \<leftarrow> AG_Strlcpy dst (s @ [NUL]) dstSize;
            Some (length s, dst, w)
          }
        })
   }"

definition AG_GetStringDup :: "hooks \<Rightarrow> nat \<Rightarrow> string \<Rightarrow> world \<Rightarrow> (nat option \<times> world) option" where
  "AG_GetStringDup H p name w = do {
     found \<leftarrow> AG_GetVariableLocked w p name;
     (case found of
        None \<Rightarrow> Some (None, w)
      | Some v \<Rightarrow> do {
          V \<leftarrow> w_vars w v;
          if v_fn V \<noteq> None then do {
            n \<leftarrow> info_size V;
            let (a, w) = fresh w;
            (_, b, w) \<leftarrow> GetStringFn H p v (replicate n NUL) n w;
            Some (Some a, put_mem a (M_buf b) w)
          } else do {
            s \<leftarrow> data_str V w;
            let (a, w) = Strdup s w;
            Some (Some a, w)
          }
        })
   }"

definition AG_GetStringP :: "nat \<Rightarrow> string \<Rightarrow> world \<Rightarrow> nat option option" where
  "AG_GetStringP p name w = do {
     found \<leftarrow> AG_GetVariableLocked w p name;
     (case found of
        None \<Rightarrow> Some None
      | Some v \<Rightarrow> do { V \<leftarrow> w_vars w v; ptr_of (v_data V) })
   }"

definition AG_SetString :: "nat \<Rightarrow> string \<Rightarrow> string \<Rightarrow> world \<Rightarrow> (nat \<times> world) option" where
  "AG_SetString p name s w = do {
     ob \<leftarrow> w_objs w p;
     found \<leftarrow> find_var w ob name;
     (case found of
        None \<Rightarrow> do {
          (v, w) \<leftarrow> new_var p name AG_VARIABLE_STRING w;
          V \<leftarrow> w_vars w v;
          let (a, w) = Strdup s w;
          Some (v, put_var v (V\<lparr>v_info := I_size 0, v_data := C_s (Some a)\<rparr>) w)
        }
      | Some v \<Rightarrow> do {
          V \<leftarrow> w_vars w v;
          if v_type V = AG_VARIABLE_STRING then do {
            n \<leftarrow> info_size V;
            w \<leftarrow> (if n = 0 then do { d \<leftarrow> ptr_of (v_data V); free_ptr d w } else Some w);
            let (a, w) = Strdup s w;
            Some (v, put_var v (V\<lparr>v_info := I_size 0, v_data := C_s (Some a)\<rparr>) w)
          }
          else if v_type V = AG_VARIABLE_P_STRING then do {
            d \<leftarrow> ptr_of (v_data V);
            n \<leftarrow> info_size V;
            w \<leftarrow> strlcpy_mem d s n w;
            Some (v, w)
          }
          else do {
            w \<leftarrow> AG_FreeVariable V w;
            let (a, w) = Strdup s w;
            Some (v, put_var v ((AG_InitVariable AG_VARIABLE_STRING V)\<lparr>v_info := I_size 0, v_data := C_s (Some a)\<rparr>) w)
          }
        })
   }"

definition AG_InitString :: "string \<Rightarrow> AG_Variable \<Rightarrow> world \<Rightarrow> AG_Variable \<times> world" where
  "AG_InitString s V w = (let (a, w) = Strdup s w in
     ((AG_InitVariable AG_VARIABLE_STRING V)\<lparr>v_name := [], v_data := C_s (Some a), v_info := I_size 0\<rparr>, w))"

definition AG_InitStringNODUP :: "nat option \<Rightarrow> AG_Variable \<Rightarrow> AG_Variable" where
  "AG_InitStringNODUP s V =
     (AG_InitVariable AG_VARIABLE_STRING V)\<lparr>v_name := [], v_data := C_s s, v_info := I_size 0\<rparr>"

definition AG_SetStringNODUP :: "nat \<Rightarrow> string \<Rightarrow> nat option \<Rightarrow> world \<Rightarrow> (nat \<times> world) option" where
  "AG_SetStringNODUP p name s w = do {
     (v, w) \<leftarrow> AG_FetchVariable p name AG_VARIABLE_STRING w;
     V \<leftarrow> w_vars w v;
     if v_type V = AG_VARIABLE_STRING then do {
       n \<leftarrow> info_size V;
       w \<leftarrow> (if n = 0 then do { d \<leftarrow> ptr_of (v_data V); free_ptr d w } else Some w);
       Some (v, put_var v (V\<lparr>v_info := I_size 0, v_data := C_s s\<rparr>) w)
     }
     else if v_type V = AG_VARIABLE_P_STRING then do {
       d \<leftarrow> ptr_of (v_data V);
       n \<leftarrow> info_size V;
       src \<leftarrow> get_cstr s w;
       w \<leftarrow> strlcpy_mem d src n w;
       Some (v, w)
     }
     else do {
       w \<leftarrow> AG_FreeVariable V w;
       Some (v, put_var v ((AG_InitVariable AG_VARIABLE_STRING V)\<lparr>v_info := I_size 0, v_data := C_s s\<rparr>) w)
     }
   }"

text \<open>\<open>AG_PrtString\<close>: the text that \<open>Vasprintf\<close> makes is the argument.\<close>

definition AG_PrtString :: "nat \<Rightarrow> string \<Rightarrow> string \<Rightarrow> world \<Rightarrow> (nat \<times> world) option" where
  "AG_PrtString p name txt w = (let (a, w) = Strdup txt w in AG_SetStringNODUP p name (Some a) w)"

text \<open>Binding with a size or a mask in \<open>info\<close>\<close>

definition bind_info ::
  "AG_VariableType \<Rightarrow> (AG_Variable \<Rightarrow> AG_Variable) \<Rightarrow> hooks \<Rightarrow> nat \<Rightarrow> string \<Rightarrow> world \<Rightarrow> (nat \<times> world) option" where
  "bind_info t f H p name w = do {
     (v, w) \<leftarrow> AG_FetchVariableOfType p name t w;
     V \<leftarrow> w_vars w v;
     post_bound H p v (put_var v (f V) w)
   }"

definition AG_BindString :: "hooks \<Rightarrow> nat \<Rightarrow> string \<Rightarrow> nat option \<Rightarrow> nat \<Rightarrow> world \<Rightarrow> (nat \<times> world) option" where
  "AG_BindString H p name buf bufSize =
     bind_info AG_VARIABLE_P_STRING (\<lambda>V. V\<lparr>v_data := C_s buf, v_info := I_size bufSize\<rparr>) H p name"

definition AG_BindStringFn ::
  "hooks \<Rightarrow> nat \<Rightarrow> string \<Rightarrow> nat option \<Rightarrow> string option \<Rightarrow> cval list \<Rightarrow> world \<Rightarrow> (nat \<times> world) option" where
  "AG_BindStringFn = FN_VARIABLE_BIND_FN AG_VARIABLE_STRING"

definition AG_BindStringMp ::
  "hooks \<Rightarrow> nat \<Rightarrow> string \<Rightarrow> nat option \<Rightarrow> nat \<Rightarrow> nat option \<Rightarrow> world \<Rightarrow> (nat \<times> world) option" where
  "AG_BindStringMp H p name buf siz mutex =
     bind_info AG_VARIABLE_P_STRING (\<lambda>V. V\<lparr>v_mutex := mutex, v_data := C_s buf, v_info := I_size siz\<rparr>) H p name"

definition AG_SetConstString :: "nat \<Rightarrow> string \<Rightarrow> nat option \<Rightarrow> world \<Rightarrow> (nat \<times> world) option" where
  "AG_SetConstString p name s w = do {
     (v, w) \<leftarrow> AG_FetchVariableOfType p name AG_VARIABLE_CONST_STRING w;
     V \<leftarrow> w_vars w v;
     txt \<leftarrow> get_cstr s w;
     Some (v, put_var v (V\<lparr>v_data := C_Cs s, v_info := I_size (length txt + 1)\<rparr>) w)
   }"

text \<open>\<open>a\<close> is the address of the caller's \<open>const char *\<close>, a cell.\<close>

definition cell_str :: "nat option \<Rightarrow> world \<Rightarrow> string option" where
  "cell_str a w = do {
     a \<leftarrow> a; c \<leftarrow> w_mem w a;
     (case c of M_cell d \<Rightarrow> do { s \<leftarrow> ptr_of d; get_cstr s w } | M_buf _ \<Rightarrow> None)
   }"

definition AG_BindConstString :: "hooks \<Rightarrow> nat \<Rightarrow> string \<Rightarrow> nat option \<Rightarrow> world \<Rightarrow> (nat \<times> world) option" where
  "AG_BindConstString H p name a w = do {
     txt \<leftarrow> cell_str a w;
     bind_info AG_VARIABLE_P_CONST_STRING (\<lambda>V. V\<lparr>v_data := C_Cs a, v_info := I_size (length txt + 1)\<rparr>) H p name w
   }"

definition AG_BindConstStringMp ::
  "hooks \<Rightarrow> nat \<Rightarrow> string \<Rightarrow> nat option \<Rightarrow> nat option \<Rightarrow> world \<Rightarrow> (nat \<times> world) option" where
  "AG_BindConstStringMp H p name a mutex w = do {
     txt \<leftarrow> cell_str a w;
     bind_info AG_VARIABLE_P_CONST_STRING
       (\<lambda>V. V\<lparr>v_mutex := mutex, v_data := C_Cs a, v_info := I_size (length txt + 1)\<rparr>) H p name w
   }"

section \<open>Flags and references\<close>

definition AG_BindFlag :: "hooks \<Rightarrow> nat \<Rightarrow> string \<Rightarrow> nat option \<Rightarrow> 32 word \<Rightarrow> world \<Rightarrow> (nat \<times> world) option" where
  "AG_BindFlag H p name a bits =
     bind_info AG_VARIABLE_P_FLAG (\<lambda>V. V\<lparr>v_data := C_p a, v_info := I_mask (bits)\<rparr>) H p name"

definition AG_BindFlagMp ::
  "hooks \<Rightarrow> nat \<Rightarrow> string \<Rightarrow> nat option \<Rightarrow> 32 word \<Rightarrow> nat option \<Rightarrow> world \<Rightarrow> (nat \<times> world) option" where
  "AG_BindFlagMp H p name a bits mutex =
     bind_info AG_VARIABLE_P_FLAG (\<lambda>V. V\<lparr>v_mutex := mutex, v_data := C_p a, v_info := I_mask (bits)\<rparr>) H p name"

definition AG_BindFlag8 :: "hooks \<Rightarrow> nat \<Rightarrow> string \<Rightarrow> nat option \<Rightarrow> 8 word \<Rightarrow> world \<Rightarrow> (nat \<times> world) option" where
  "AG_BindFlag8 H p name a bits =
     bind_info AG_VARIABLE_P_FLAG8 (\<lambda>V. V\<lparr>v_data := C_p a, v_info := I_mask (ucast bits)\<rparr>) H p name"

definition AG_BindFlag8Mp ::
  "hooks \<Rightarrow> nat \<Rightarrow> string \<Rightarrow> nat option \<Rightarrow> 8 word \<Rightarrow> nat option \<Rightarrow> world \<Rightarrow> (nat \<times> world) option" where
  "AG_BindFlag8Mp H p name a bits mutex =
     bind_info AG_VARIABLE_P_FLAG8 (\<lambda>V. V\<lparr>v_mutex := mutex, v_data := C_p a, v_info := I_mask (ucast bits)\<rparr>) H p name"

definition AG_BindFlag16 :: "hooks \<Rightarrow> nat \<Rightarrow> string \<Rightarrow> nat option \<Rightarrow> 16 word \<Rightarrow> world \<Rightarrow> (nat \<times> world) option" where
  "AG_BindFlag16 H p name a bits =
     bind_info AG_VARIABLE_P_FLAG16 (\<lambda>V. V\<lparr>v_data := C_p a, v_info := I_mask (ucast bits)\<rparr>) H p name"

definition AG_BindFlag16Mp ::
  "hooks \<Rightarrow> nat \<Rightarrow> string \<Rightarrow> nat option \<Rightarrow> 16 word \<Rightarrow> nat option \<Rightarrow> world \<Rightarrow> (nat \<times> world) option" where
  "AG_BindFlag16Mp H p name a bits mutex =
     bind_info AG_VARIABLE_P_FLAG16 (\<lambda>V. V\<lparr>v_mutex := mutex, v_data := C_p a, v_info := I_mask (ucast bits)\<rparr>) H p name"

definition AG_BindFlag32 :: "hooks \<Rightarrow> nat \<Rightarrow> string \<Rightarrow> nat option \<Rightarrow> 32 word \<Rightarrow> world \<Rightarrow> (nat \<times> world) option" where
  "AG_BindFlag32 H p name a bits =
     bind_info AG_VARIABLE_P_FLAG32 (\<lambda>V. V\<lparr>v_data := C_p a, v_info := I_mask (bits)\<rparr>) H p name"

definition AG_BindFlag32Mp ::
  "hooks \<Rightarrow> nat \<Rightarrow> string \<Rightarrow> nat option \<Rightarrow> 32 word \<Rightarrow> nat option \<Rightarrow> world \<Rightarrow> (nat \<times> world) option" where
  "AG_BindFlag32Mp H p name a bits mutex =
     bind_info AG_VARIABLE_P_FLAG32 (\<lambda>V. V\<lparr>v_mutex := mutex, v_data := C_p a, v_info := I_mask (bits)\<rparr>) H p name"

definition AG_BindVariable :: "hooks \<Rightarrow> nat \<Rightarrow> string \<Rightarrow> nat option \<Rightarrow> string \<Rightarrow> world \<Rightarrow> (nat \<times> world) option" where
  "AG_BindVariable H p name tgtObj tgtKey =
     bind_info AG_VARIABLE_P_VARIABLE (\<lambda>V. V\<lparr>v_data := C_p tgtObj, v_info := I_ref (Some tgtKey)\<rparr>) H p name"

section \<open>Copies, comparison, evaluation\<close>

definition AG_CopyVariable :: "AG_Variable \<Rightarrow> world \<Rightarrow> (AG_Variable \<times> world) option" where
  "AG_CopyVariable Vsrc w =
     (if v_type Vsrc = AG_VARIABLE_STRING then do {
        n \<leftarrow> info_size Vsrc;
        if n = 0 then do {
          s \<leftarrow> data_str Vsrc w;
          let (a, w) = Strdup s w;
          Some (Vsrc\<lparr>v_data := C_s (Some a)\<rparr>, w)
        } else Some (Vsrc, w)
      }
      else Some (Vsrc, w))"

text \<open>The table of the \<open>switch\<close>: the type after the dereference and the member.\<close>

fun deref_type :: "AG_VariableType \<Rightarrow> (AG_VariableType \<times> memb) option" where
  "deref_type AG_VARIABLE_P_UINT = Some (AG_VARIABLE_UINT, M_u)"
| "deref_type AG_VARIABLE_P_INT = Some (AG_VARIABLE_INT, M_i)"
| "deref_type AG_VARIABLE_P_UINT8 = Some (AG_VARIABLE_UINT8, M_u8)"
| "deref_type AG_VARIABLE_P_SINT8 = Some (AG_VARIABLE_SINT8, M_s8)"
| "deref_type AG_VARIABLE_P_UINT16 = Some (AG_VARIABLE_UINT16, M_u16)"
| "deref_type AG_VARIABLE_P_SINT16 = Some (AG_VARIABLE_SINT16, M_s16)"
| "deref_type AG_VARIABLE_P_UINT32 = Some (AG_VARIABLE_UINT32, M_u32)"
| "deref_type AG_VARIABLE_P_SINT32 = Some (AG_VARIABLE_SINT32, M_s32)"
| "deref_type AG_VARIABLE_P_UINT64 = Some (AG_VARIABLE_UINT64, M_u64)"
| "deref_type AG_VARIABLE_P_SINT64 = Some (AG_VARIABLE_SINT64, M_s64)"
| "deref_type AG_VARIABLE_P_FLOAT = Some (AG_VARIABLE_FLOAT, M_flt)"
| "deref_type AG_VARIABLE_P_DOUBLE = Some (AG_VARIABLE_DOUBLE, M_dbl)"
| "deref_type AG_VARIABLE_P_POINTER = Some (AG_VARIABLE_POINTER, M_p)"
| "deref_type _ = None"

definition AG_DerefVariable :: "AG_Variable \<Rightarrow> world \<Rightarrow> (AG_Variable \<times> world) option" where
  "AG_DerefVariable Vsrc w =
     (case deref_type (v_type Vsrc) of
        Some (t, m) \<Rightarrow> do { d \<leftarrow> load_as m Vsrc w; Some (Vsrc\<lparr>v_type := t, v_data := d\<rparr>, w) }
      | None \<Rightarrow>
          if v_type Vsrc = AG_VARIABLE_STRING \<or> v_type Vsrc = AG_VARIABLE_P_STRING then do {
            s \<leftarrow> data_str Vsrc w;
            let (a, w) = Strdup s w;
            Some (Vsrc\<lparr>v_data := C_s (Some a), v_info := I_size 0\<rparr>, w)
          }
          else Some (Vsrc, w))"

text \<open>
  The bytes of the union as a number, lowest byte first; \<open>memcmp\<close> over \<open>n\<close> bytes is 0 when
  the numbers agree modulo \<open>256 ^ n\<close>.  Its sign is not modelled.
\<close>

fun data_num :: "cval \<Rightarrow> nat" where
  "data_num C_null = 0"
| "data_num (C_u x) = unat x" | "data_num (C_i x) = unat x"
| "data_num (C_u8 x) = unat x" | "data_num (C_s8 x) = unat x"
| "data_num (C_u16 x) = unat x" | "data_num (C_s16 x) = unat x"
| "data_num (C_u32 x) = unat x" | "data_num (C_s32 x) = unat x"
| "data_num (C_u64 x) = unat x" | "data_num (C_s64 x) = unat x"
| "data_num (C_flt x) = unat x" | "data_num (C_dbl x) = unat x"
| "data_num (C_p x) = (case x of None \<Rightarrow> 0 | Some a \<Rightarrow> a)" | "data_num (C_Cp x) = (case x of None \<Rightarrow> 0 | Some a \<Rightarrow> a)"
| "data_num (C_s x) = (case x of None \<Rightarrow> 0 | Some a \<Rightarrow> a)" | "data_num (C_Cs x) = (case x of None \<Rightarrow> 0 | Some a \<Rightarrow> a)"

definition AG_CompareVariables :: "AG_Variable \<Rightarrow> AG_Variable \<Rightarrow> bool" where
  "AG_CompareVariables a b =
     (if v_type a \<noteq> v_type b then True
      else (let size = vt_size (agVariableTypes (v_type a)) in
        if size = 0 then True
        else data_num (v_data a) mod 256 ^ size \<noteq> data_num (v_data b) mod 256 ^ size))"

fun eval_memb :: "AG_VariableType \<Rightarrow> memb option" where
  "eval_memb AG_VARIABLE_UINT = Some M_u" | "eval_memb AG_VARIABLE_INT = Some M_i"
| "eval_memb AG_VARIABLE_UINT8 = Some M_u8" | "eval_memb AG_VARIABLE_SINT8 = Some M_s8"
| "eval_memb AG_VARIABLE_UINT16 = Some M_u16" | "eval_memb AG_VARIABLE_SINT16 = Some M_s16"
| "eval_memb AG_VARIABLE_UINT32 = Some M_u32" | "eval_memb AG_VARIABLE_SINT32 = Some M_s32"
| "eval_memb AG_VARIABLE_UINT64 = Some M_u64" | "eval_memb AG_VARIABLE_SINT64 = Some M_s64"
| "eval_memb AG_VARIABLE_FLOAT = Some M_flt" | "eval_memb AG_VARIABLE_DOUBLE = Some M_dbl"
| "eval_memb AG_VARIABLE_POINTER = Some M_p" | "eval_memb AG_VARIABLE_CONST_POINTER = Some M_Cp"
| "eval_memb _ = None"

text \<open>The result is 0, or -1 when there is no event with the arguments of the function.\<close>

definition AG_EvalVariable :: "hooks \<Rightarrow> nat \<Rightarrow> nat \<Rightarrow> world \<Rightarrow> (int \<times> world) option" where
  "AG_EvalVariable H p v w = do {
     V \<leftarrow> w_vars w v;
     (case v_fn V of
        None \<Rightarrow> Some (0, w)
      | Some f \<Rightarrow> do {
          ob \<leftarrow> w_objs w p;
          found \<leftarrow> find_event w ob (get_ev_name (v_name V));
          (case found of
             None \<Rightarrow> Some (-1, w)
           | Some e \<Rightarrow> do {
               ev \<leftarrow> w_events w e;
               (case eval_memb (v_type V) of
                  Some m \<Rightarrow> do {
                    (d, w) \<leftarrow> hk_eval H f ev w;
                    if memb_of d \<noteq> Some m then None
                    else do { V \<leftarrow> w_vars w v; Some (0, put_var v (V\<lparr>v_data := d\<rparr>) w) }
                  }
                | None \<Rightarrow>
                    if v_type V = AG_VARIABLE_STRING \<or> v_type V = AG_VARIABLE_CONST_STRING then do {
                      dst \<leftarrow> ptr_of (v_data V);
                      n \<leftarrow> info_size V;
                      (case dst of
                         None \<Rightarrow> do { (_, b, w) \<leftarrow> hk_str H f (Some ev) [] n w; Some (0, w) }
                       | Some a \<Rightarrow> do {
                           c \<leftarrow> w_mem w a;
                           (case c of
                              M_buf b \<Rightarrow> do {
                                (_, b, w) \<leftarrow> hk_str H f (Some ev) b n w;
                                Some (0, put_mem a (M_buf b) w) }
                            | M_cell _ \<Rightarrow> None)
                         })
                    }
                    else Some (0, w))
             })
        })
   }"

section \<open>Printing and substitution\<close>

text \<open>\<open>Snprintf(s, len, ...)\<close> with the text of the conversion; what does not fit is cut.\<close>

definition Snprintf :: "char list \<Rightarrow> nat \<Rightarrow> string \<Rightarrow> char list option" where
  "Snprintf b len txt =
     (if len = 0 then Some b
      else if length b < min (length txt) (len - 1) + 1 then None
      else (let t = take (len - 1) txt in Some (t @ [NUL] @ drop (length t + 1) b)))"

definition AG_PrintFlagsVariable :: "char list \<Rightarrow> nat \<Rightarrow> 32 word \<Rightarrow> AG_Variable \<Rightarrow> char list option" where
  "AG_PrintFlagsVariable b len val V =
     (case v_info V of
        I_mask bm \<Rightarrow> Snprintf b len (if val AND bm \<noteq> 0 then ''Set'' else ''UnSet'')
      | I_ref None \<Rightarrow> Snprintf b len ''UnSet''
      | _ \<Rightarrow> None)"

text \<open>
  What a value of a scalar type prints: the copies of integers, or the conversions of
  \<open>printf\<close>.
\<close>

fun print_cval :: "hooks \<Rightarrow> char list \<Rightarrow> nat \<Rightarrow> cval \<Rightarrow> char list option" where
  "print_cval H b len (C_u x) = map_option fst (AG_StrlcpyUint b (unat x) len)"
| "print_cval H b len (C_i x) = map_option fst (AG_StrlcpyInt b (sint x) len)"
| "print_cval H b len (C_u8 x) = map_option fst (AG_StrlcpyUint b (unat x) len)"
| "print_cval H b len (C_s8 x) = map_option fst (AG_StrlcpyInt b (sint x) len)"
| "print_cval H b len (C_u16 x) = map_option fst (AG_StrlcpyUint b (unat x) len)"
| "print_cval H b len (C_s16 x) = map_option fst (AG_StrlcpyInt b (sint x) len)"
| "print_cval H b len (C_u32 x) = Snprintf b len (dec (unat x))"
| "print_cval H b len (C_s32 x) = Snprintf b len (dec_int (sint x))"
| "print_cval H b len (C_u64 x) = Snprintf b len (dec (unat x))"
| "print_cval H b len (C_s64 x) = Snprintf b len (dec_int (sint x))"
| "print_cval H b len (C_flt x) = Snprintf b len (hk_flt H (C_flt x))"
| "print_cval H b len (C_dbl x) = Snprintf b len (hk_flt H (C_dbl x))"
| "print_cval H b len (C_p x) = Snprintf b len (hk_ptr H x)"
| "print_cval H b len _ = None"

text \<open>Which member a type prints, and whether it is behind a pointer.\<close>

fun print_memb :: "AG_VariableType \<Rightarrow> (memb \<times> bool) option" where
  "print_memb AG_VARIABLE_UINT = Some (M_u, False)" | "print_memb AG_VARIABLE_P_UINT = Some (M_u, True)"
| "print_memb AG_VARIABLE_INT = Some (M_i, False)" | "print_memb AG_VARIABLE_P_INT = Some (M_i, True)"
| "print_memb AG_VARIABLE_UINT8 = Some (M_u8, False)" | "print_memb AG_VARIABLE_P_UINT8 = Some (M_u8, True)"
| "print_memb AG_VARIABLE_SINT8 = Some (M_s8, False)" | "print_memb AG_VARIABLE_P_SINT8 = Some (M_s8, True)"
| "print_memb AG_VARIABLE_UINT16 = Some (M_u16, False)" | "print_memb AG_VARIABLE_P_UINT16 = Some (M_u16, True)"
| "print_memb AG_VARIABLE_SINT16 = Some (M_s16, False)" | "print_memb AG_VARIABLE_P_SINT16 = Some (M_s16, True)"
| "print_memb AG_VARIABLE_UINT32 = Some (M_u32, False)" | "print_memb AG_VARIABLE_P_UINT32 = Some (M_u32, True)"
| "print_memb AG_VARIABLE_SINT32 = Some (M_s32, False)" | "print_memb AG_VARIABLE_P_SINT32 = Some (M_s32, True)"
| "print_memb AG_VARIABLE_UINT64 = Some (M_u64, False)" | "print_memb AG_VARIABLE_P_UINT64 = Some (M_u64, True)"
| "print_memb AG_VARIABLE_SINT64 = Some (M_s64, False)" | "print_memb AG_VARIABLE_P_SINT64 = Some (M_s64, True)"
| "print_memb AG_VARIABLE_FLOAT = Some (M_flt, False)" | "print_memb AG_VARIABLE_P_FLOAT = Some (M_flt, True)"
| "print_memb AG_VARIABLE_DOUBLE = Some (M_dbl, False)" | "print_memb AG_VARIABLE_P_DOUBLE = Some (M_dbl, True)"
| "print_memb AG_VARIABLE_POINTER = Some (M_p, False)" | "print_memb AG_VARIABLE_P_POINTER = Some (M_p, True)"
| "print_memb AG_VARIABLE_CONST_POINTER = Some (M_p, False)"
| "print_memb AG_VARIABLE_P_CONST_POINTER = Some (M_p, True)"
| "print_memb _ = None"

definition flag_val :: "AG_Variable \<Rightarrow> world \<Rightarrow> 32 word option" where
  "flag_val V w = (case v_type V of
       AG_VARIABLE_P_FLAG \<Rightarrow> do { d \<leftarrow> load_as M_u V w; (case d of C_u x \<Rightarrow> Some x | _ \<Rightarrow> None) }
     | AG_VARIABLE_P_FLAG8 \<Rightarrow> do { d \<leftarrow> load_as M_u8 V w; (case d of C_u8 x \<Rightarrow> Some (ucast x) | _ \<Rightarrow> None) }
     | AG_VARIABLE_P_FLAG16 \<Rightarrow> do { d \<leftarrow> load_as M_u16 V w; (case d of C_u16 x \<Rightarrow> Some (ucast x) | _ \<Rightarrow> None) }
     | AG_VARIABLE_P_FLAG32 \<Rightarrow> do { d \<leftarrow> load_as M_u32 V w; (case d of C_u32 x \<Rightarrow> Some x | _ \<Rightarrow> None) }
     | _ \<Rightarrow> None)"

definition AG_PrintVariable :: "hooks \<Rightarrow> char list \<Rightarrow> nat \<Rightarrow> AG_Variable \<Rightarrow> world \<Rightarrow> char list option" where
  "AG_PrintVariable H b len V w =
     (case print_memb (v_type V) of
        Some (m, ind) \<Rightarrow> do {
          d \<leftarrow> (if ind then load_as m V w else rd_memb m (v_data V));
          print_cval H b len d
        }
      | None \<Rightarrow>
          if v_type V \<in> {AG_VARIABLE_STRING, AG_VARIABLE_CONST_STRING, AG_VARIABLE_P_STRING, AG_VARIABLE_P_CONST_STRING}
          then do { s \<leftarrow> data_str V w; map_option fst (AG_Strlcpy b (s @ [NUL]) len) }
          else if v_type V \<in> {AG_VARIABLE_P_FLAG, AG_VARIABLE_P_FLAG8, AG_VARIABLE_P_FLAG16, AG_VARIABLE_P_FLAG32}
          then do { val \<leftarrow> flag_val V w; AG_PrintFlagsVariable b len val V }
          else do { b \<leftarrow> wr b 0 (CHR ''?''); wr b 1 NUL })"

text \<open>
  \<open>AG_GetVariable\<close>: the variable, and the pointer to its value: the pointer it holds, or
  the address of its own data.
\<close>

datatype vptr = Ptr "nat option" | Own nat

definition AG_GetVariable :: "hooks \<Rightarrow> nat \<Rightarrow> string \<Rightarrow> world \<Rightarrow> ((nat \<times> vptr) option \<times> world) option" where
  "AG_GetVariable H p name w = do {
     found \<leftarrow> AG_GetVariableLocked w p name;
     (case found of
        None \<Rightarrow> Some (None, w)
      | Some v \<Rightarrow> do {
          V \<leftarrow> w_vars w v;
          w \<leftarrow> (if v_fn V \<noteq> None then do { (rv, w) \<leftarrow> AG_EvalVariable H p v w; Some w } else Some w);
          V \<leftarrow> w_vars w v;
          r \<leftarrow> (if 0 < vt_indirLvl (agVariableTypes (v_type V))
               then do { a \<leftarrow> ptr_of (v_data V); Some (Ptr a) } else Some (Own v));
          Some (Some (v, r), w)
        })
   }"

text \<open>
  \<open>AG_VariableSubst\<close> from the rest \<open>c\<close> of the string on; \<open>dst\<close> is the text in the buffer of
  \<open>len\<close> characters.
\<close>

definition subst_key :: "hooks \<Rightarrow> nat \<Rightarrow> string \<Rightarrow> world \<Rightarrow> string option" where
  "subst_key H p key w = do {
     ob \<leftarrow> w_objs w p;
     if key = ''name'' then Some (ob_name ob)
     else if key = ''class'' then Some (cl_name (cl_mem (w_reg w) (ob_cls ob)))
     else do {
       found \<leftarrow> AG_GetVariableLocked w p key;
       (case found of
          None \<Rightarrow> Some []
        | Some v \<Rightarrow> do {
            V \<leftarrow> w_vars w v;
            val \<leftarrow> AG_PrintVariable H (replicate 64 NUL) 64 V w;
            Some (cstr val)
          })
     }
   }"

function subst_loop :: "hooks \<Rightarrow> nat \<Rightarrow> nat \<Rightarrow> world \<Rightarrow> string \<Rightarrow> string \<Rightarrow> string option" where
  "subst_loop H p len w [] dst = Some dst"
| "subst_loop H p len w (x # c) dst =
     (if x = CHR ''$'' \<and> take 1 c = ''('' \<and> CHR '')'' \<in> set (drop 1 c) then
        (let key = takeWhile (\<lambda>y. y \<noteq> CHR '')'') (drop 1 c);
             rest = drop (length key + 2) c;
             kLen = length key + 1
         in if kLen \<ge> AG_VARIABLE_NAME_MAX then subst_loop H p len w rest dst
            else do {
              val \<leftarrow> subst_key H p key w;
              subst_loop H p len w rest (str_cat len dst val)
            })
      else subst_loop H p len w c (str_cat len dst [x]))"
  by pat_completeness auto
termination
  by (relation "measure (\<lambda>(H, p, len, w, c, dst). length c)") auto

definition AG_VariableSubst :: "hooks \<Rightarrow> nat \<Rightarrow> string \<Rightarrow> nat \<Rightarrow> world \<Rightarrow> string option" where
  "AG_VariableSubst H p s len w = (if len < 1 then Some [] else subst_loop H p len w s [])"

end
