(* ===== verification/VarLaws.thy ===== *)
theory VarLaws
  imports Variables
begin

text \<open>
  Laws of the variables: look-up by name, setting and reading scalars and strings, binding,
  references, substitution.
\<close>

section \<open>Variables by name\<close>

definition lookup :: "world \<Rightarrow> nat \<Rightarrow> string \<Rightarrow> AG_Variable option" where
  "lookup w p name = (case w_objs w p of None \<Rightarrow> None | Some ob \<Rightarrow>
     List.find (\<lambda>V. v_name V = name) (map (\<lambda>v. the (w_vars w v)) (ob_vars ob)))"

text \<open>The variables of an object: allocated, each in the list once.\<close>

definition vars_ok :: "world \<Rightarrow> nat \<Rightarrow> bool" where
  "vars_ok w p = (case w_objs w p of None \<Rightarrow> False | Some ob \<Rightarrow>
     distinct (ob_vars ob) \<and> (\<forall>v \<in> set (ob_vars ob). w_vars w v \<noteq> None))"

text \<open>Where the variable of a name is.\<close>

definition is_var :: "world \<Rightarrow> nat \<Rightarrow> string \<Rightarrow> nat \<Rightarrow> AG_Variable \<Rightarrow> bool" where
  "is_var w p name v V \<longleftrightarrow> (\<exists>ob us vs. w_objs w p = Some ob \<and> ob_vars ob = us @ v # vs \<and> w_vars w v = Some V \<and>
     v_name V = name \<and> distinct (ob_vars ob) \<and> (\<forall>x \<in> set (ob_vars ob). w_vars w x \<noteq> None) \<and>
     (\<forall>x \<in> set us. \<exists>r. w_vars w x = Some r \<and> v_name r \<noteq> name))"

definition no_var :: "world \<Rightarrow> nat \<Rightarrow> string \<Rightarrow> bool" where
  "no_var w p name \<longleftrightarrow> (\<exists>ob. w_objs w p = Some ob \<and> distinct (ob_vars ob) \<and>
     (\<forall>x \<in> set (ob_vars ob). \<exists>r. w_vars w x = Some r \<and> v_name r \<noteq> name))"

lemma find_append: "List.find P (xs @ ys) = (case List.find P xs of None \<Rightarrow> List.find P ys | Some x \<Rightarrow> Some x)"
  by (induction xs) auto

lemma find_NoneI: "(\<And>x. x \<in> set xs \<Longrightarrow> \<not> P x) \<Longrightarrow> List.find P xs = None"
  by (simp add: find_None_iff)

lemma is_var_lookup: "is_var w p name v V \<Longrightarrow> lookup w p name = Some V"
proof -
  assume "is_var w p name v V"
  then obtain ob us vs where o: "w_objs w p = Some ob" "ob_vars ob = us @ v # vs" "w_vars w v = Some V"
     "v_name V = name" "\<forall>x \<in> set us. \<exists>r. w_vars w x = Some r \<and> v_name r \<noteq> name" by (auto simp: is_var_def)
  have "List.find (\<lambda>V. v_name V = name) (map (\<lambda>v. the (w_vars w v)) us) = None"
    using o(5) by (intro find_NoneI) fastforce
  then show ?thesis using o by (simp add: lookup_def find_append)
qed

lemma is_var_find: "is_var w p name v V \<Longrightarrow> w_objs w p = Some ob \<Longrightarrow> find_var w ob name = Some (Some v)"
  by (auto simp: is_var_def find_var_def intro!: find_first_SomeI)

lemma is_var_name: "is_var w p name v V \<Longrightarrow> v_name V = name"
  by (auto simp: is_var_def)

lemma is_var_ptr: "is_var w p name v V \<Longrightarrow> w_vars w v = Some V"
  by (auto simp: is_var_def)

lemma no_var_find: "no_var w p name \<Longrightarrow> w_objs w p = Some ob \<Longrightarrow> find_var w ob name = Some None"
  by (auto simp: no_var_def find_var_def find_first_None)

lemma no_var_lookup: "no_var w p name \<Longrightarrow> lookup w p name = None"
  by (fastforce simp: no_var_def lookup_def find_None_iff)

lemma vars_ok_cases:
  assumes "vars_ok w p"
  obtains (None) "no_var w p name" "lookup w p name = None"
  | (Some) v V where "is_var w p name v V" "lookup w p name = Some V"
proof -
  obtain ob where ob: "w_objs w p = Some ob" "distinct (ob_vars ob)" "\<forall>v \<in> set (ob_vars ob). w_vars w v \<noteq> None"
    using assms by (auto simp: vars_ok_def split: option.splits)
  obtain r where r: "find_var w ob name = Some r"
    using find_first_total [OF ob(3)] by (auto simp: find_var_def)
  show ?thesis
  proof (cases r)
    case None
    then have nv: "no_var w p name" using r ob by (auto simp: find_var_def find_first_None no_var_def)
    show ?thesis by (rule that(1) [OF nv no_var_lookup [OF nv]])
  next
    case (Some v)
    then obtain us vs V where "ob_vars ob = us @ v # vs" "w_vars w v = Some V" "v_name V = name"
       "\<forall>x \<in> set us. \<exists>r. w_vars w x = Some r \<and> v_name r \<noteq> name"
      using r find_first_SomeD [of "w_vars w" "\<lambda>V. v_name V = name" "ob_vars ob" v] by (auto simp: find_var_def)
    then have iv: "is_var w p name v V" using ob unfolding is_var_def by blast
    show ?thesis by (rule that(2) [OF iv is_var_lookup [OF iv]])
  qed
qed

lemma is_var_vars_ok: "is_var w p name v V \<Longrightarrow> vars_ok w p"
  by (auto simp: is_var_def vars_ok_def)

lemma no_var_vars_ok: "no_var w p name \<Longrightarrow> vars_ok w p"
  by (fastforce simp: no_var_def vars_ok_def)

text \<open>Writing back the structure of a variable.\<close>

lemma is_var_put:
  assumes "is_var w p name v V" "v_name V' = name"
  shows "is_var (put_var v V' w) p name v V'"
proof -
  obtain ob us vs where o: "w_objs w p = Some ob" "ob_vars ob = us @ v # vs" "w_vars w v = Some V"
     "v_name V = name" "\<forall>x \<in> set us. \<exists>r. w_vars w x = Some r \<and> v_name r \<noteq> name"
     "distinct (ob_vars ob)" "\<forall>x \<in> set (ob_vars ob). w_vars w x \<noteq> None"
    using assms(1) by (auto simp: is_var_def)
  have "v \<notin> set us" using o(2,6) by auto
  then have "\<forall>x \<in> set us. \<exists>r. w_vars (put_var v V' w) x = Some r \<and> v_name r \<noteq> name" using o(5) by auto
  then show ?thesis unfolding is_var_def using o assms(2) by (intro exI [of _ ob] exI [of _ us] exI [of _ vs]) auto
qed

lemma is_var_other:
  assumes "is_var w p name v V" "v_name V' = name" "name' \<noteq> name"
  shows "lookup (put_var v V' w) p name' = lookup w p name'"
proof -
  obtain ob us vs where o: "w_objs w p = Some ob" "ob_vars ob = us @ v # vs" "w_vars w v = Some V" "v_name V = name"
     "distinct (ob_vars ob)"
    using assms(1) by (auto simp: is_var_def)
  have nin: "v \<notin> set us" "v \<notin> set vs" using o(2,5) by auto
  define P where "P V = (v_name V = name')" for V :: AG_Variable
  define f where "f x = the (w_vars w x)" for x
  define f' where "f' x = the (w_vars (put_var v V' w) x)" for x
  have eq: "map f' us = map f us" "map f' vs = map f vs" using nin by (auto simp: f_def f'_def)
  have "lookup (put_var v V' w) p name' = List.find P (map f' us @ V' # map f' vs)"
    using o(1,2) unfolding lookup_def P_def [symmetric] f'_def [symmetric] by (simp add: f'_def)
  also have "\<dots> = List.find P (map f us @ V # map f vs)"
    using o(4) assms(2,3) by (simp only: eq) (simp add: find_append P_def split: option.split)
  also have "\<dots> = lookup w p name'"
    using o(1,2,3) unfolding lookup_def P_def [symmetric] f_def [symmetric] by (simp add: f_def)
  finally show ?thesis .
qed

lemma is_var_mem: "is_var w p name v V \<Longrightarrow> is_var (put_mem a c w) p name v V"
  by (simp add: is_var_def)

lemma lookup_mem [simp]: "lookup (put_mem a c w) p name = lookup w p name"
  by (simp add: lookup_def split: option.split)

lemma lookup_event [simp]: "lookup (put_event e ev w) p name = lookup w p name"
  by (simp add: lookup_def split: option.split)

lemma new_var_spec:
  assumes nv: "no_var w p name" and w: "world_ok w" and len: "length name < AG_VARIABLE_NAME_MAX"
  shows "\<exists>w' V. new_var p name t w = Some (w_brk w, w') \<and> is_var w' p name (w_brk w) V \<and>
     V = (AG_InitVariable t blank_var)\<lparr>v_name := name\<rparr> \<and> world_ok w' \<and> w_mem w' = w_mem w \<and>
     w_events w' = w_events w \<and> evs_of w' = evs_of w \<and> (\<forall>q. events_ok w' q = events_ok w q) \<and>
     (\<forall>name'. name' \<noteq> name \<longrightarrow> lookup w' p name' = lookup w p name')"
proof -
  obtain ob where ob: "w_objs w p = Some ob" "distinct (ob_vars ob)"
     "\<forall>x \<in> set (ob_vars ob). \<exists>r. w_vars w x = Some r \<and> v_name r \<noteq> name"
    using nv by (auto simp: no_var_def)
  define v where "v = w_brk w"
  have fr: "w_vars w v = None" "w_objs w v = None" using w by (auto simp: world_ok_def v_def)
  then have vn: "v \<notin> set (ob_vars ob)" using ob(3) by fastforce
  define V where "V = (AG_InitVariable t blank_var)\<lparr>v_name := name\<rparr>"
  define w' where "w' = put_var v V (put_obj p (ob\<lparr>ob_vars := ob_vars ob @ [v]\<rparr>) (w\<lparr>w_brk := Suc v\<rparr>))"
  have run: "new_var p name t w = Some (v, w')"
    using ob vn len by (simp add: new_var_def fresh_def q_insert_tail_def str_cpy_def w'_def V_def v_def)
  have sv: "\<And>x. x \<in> set (ob_vars ob) \<Longrightarrow> w_vars w' x = w_vars w x" using vn by (auto simp: w'_def)
  have "is_var w' p name v V"
    unfolding is_var_def using ob vn sv
    by (intro exI [of _ "ob\<lparr>ob_vars := ob_vars ob @ [v]\<rparr>"] exI [of _ "ob_vars ob"] exI [of _ "[]"])
       (auto simp: w'_def V_def)
  moreover have "world_ok w'" using w ob(1) by (auto simp: world_ok_def w'_def v_def)
  moreover have "\<forall>name'. name' \<noteq> name \<longrightarrow> lookup w' p name' = lookup w p name'"
  proof (intro allI impI)
    fix name' assume n: "name' \<noteq> name"
    define P where "P V = (v_name V = name')" for V :: AG_Variable
    define f where "f x = the (w_vars w x)" for x
    define f' where "f' x = the (w_vars w' x)" for x
    have eq: "map f' (ob_vars ob) = map f (ob_vars ob)" using sv by (simp add: f_def f'_def)
    have "f' v = V" by (simp add: f'_def w'_def)
    then have "lookup w' p name' = List.find P (map f' (ob_vars ob) @ [V])"
      unfolding lookup_def P_def [symmetric] f'_def [symmetric] by (simp add: w'_def)
    also have "\<dots> = List.find P (map f (ob_vars ob))"
      using n by (simp only: eq) (simp add: find_append P_def V_def split: option.split)
    finally show "lookup w' p name' = lookup w p name'"
      using ob(1) unfolding lookup_def P_def [symmetric] f_def [symmetric] by simp
  qed
  moreover have "evs_of w' = evs_of w" using ob(1) by (auto simp: evs_of_def w'_def fun_eq_iff)
  moreover have "events_ok w' q = events_ok w q" for q using ob(1) by (auto simp: w'_def split: option.splits)
  moreover have "w_mem w' = w_mem w" "w_events w' = w_events w" by (simp_all add: w'_def)
  ultimately show ?thesis using run by (auto simp: v_def V_def)
qed


lemma is_var_obj: "is_var w p name v V \<Longrightarrow> \<exists>ob. w_objs w p = Some ob \<and> find_var w ob name = Some (Some v) \<and> w_vars w v = Some V"
proof -
  assume a: "is_var w p name v V"
  then obtain ob where "w_objs w p = Some ob" unfolding is_var_def by blast
  with is_var_find [OF a this] is_var_ptr [OF a] show ?thesis by blast
qed

lemma no_var_obj: "no_var w p name \<Longrightarrow> \<exists>ob. w_objs w p = Some ob \<and> find_var w ob name = Some None"
proof -
  assume a: "no_var w p name"
  then obtain ob where "w_objs w p = Some ob" unfolding no_var_def by blast
  with no_var_find [OF a this] show ?thesis by blast
qed

lemma gvl_var: "is_var w p name v V \<Longrightarrow> v_type V \<noteq> AG_VARIABLE_P_VARIABLE \<Longrightarrow> AG_GetVariableLocked w p name = Some (Some v)"
  by (subst AG_GetVariableLocked.simps) (auto dest!: is_var_obj)

lemma gvl_none: "no_var w p name \<Longrightarrow> AG_GetVariableLocked w p name = Some None"
  by (subst AG_GetVariableLocked.simps) (auto dest!: no_var_obj)

lemma fetch_var: "is_var w p name v V \<Longrightarrow> AG_FetchVariable p name t w = Some (v, w)"
  by (auto simp: AG_FetchVariable_def dest!: is_var_obj)

lemma fetch_new: "no_var w p name \<Longrightarrow> AG_FetchVariable p name t w = new_var p name t w"
  by (auto simp: AG_FetchVariable_def dest!: no_var_obj)

lemma rd_memb_same: "memb_of d = Some m \<Longrightarrow> rd_memb m d = Some d"
  by (simp add: rd_memb_def)

section \<open>Scalars\<close>

text \<open>Member, type and type of references of each scalar type (\<open>AG_Text\<close> is none).\<close>

definition scalar_types :: "(memb \<times> AG_VariableType \<times> AG_VariableType) list" where
  "scalar_types =
     [(M_u, AG_VARIABLE_UINT, AG_VARIABLE_P_UINT), (M_i, AG_VARIABLE_INT, AG_VARIABLE_P_INT),
      (M_u8, AG_VARIABLE_UINT8, AG_VARIABLE_P_UINT8), (M_s8, AG_VARIABLE_SINT8, AG_VARIABLE_P_SINT8),
      (M_u16, AG_VARIABLE_UINT16, AG_VARIABLE_P_UINT16), (M_s16, AG_VARIABLE_SINT16, AG_VARIABLE_P_SINT16),
      (M_u32, AG_VARIABLE_UINT32, AG_VARIABLE_P_UINT32), (M_s32, AG_VARIABLE_SINT32, AG_VARIABLE_P_SINT32),
      (M_u64, AG_VARIABLE_UINT64, AG_VARIABLE_P_UINT64), (M_s64, AG_VARIABLE_SINT64, AG_VARIABLE_P_SINT64),
      (M_flt, AG_VARIABLE_FLOAT, AG_VARIABLE_P_FLOAT), (M_dbl, AG_VARIABLE_DOUBLE, AG_VARIABLE_P_DOUBLE),
      (M_p, AG_VARIABLE_POINTER, AG_VARIABLE_P_POINTER),
      (M_Cp, AG_VARIABLE_CONST_POINTER, AG_VARIABLE_P_CONST_POINTER)]"

lemma scalar_types_table:
  "(m, t, pt) \<in> set scalar_types \<Longrightarrow> vt_indirLvl (agVariableTypes t) = 0 \<and> vt_indirLvl (agVariableTypes pt) = 1 \<and>
     vt_typeTgt (agVariableTypes pt) = t \<and> t \<noteq> AG_VARIABLE_P_VARIABLE \<and> pt \<noteq> AG_VARIABLE_P_VARIABLE \<and>
     t \<noteq> AG_VARIABLE_STRING \<and> pt \<noteq> AG_VARIABLE_STRING"
  by (auto simp: scalar_types_def vt_def)

text \<open>A variable a scalar can be stored in: not there yet, of the type, or bound to a cell.\<close>

definition scalar_slot :: "world \<Rightarrow> memb \<Rightarrow> AG_VariableType \<Rightarrow> AG_VariableType \<Rightarrow> AG_Variable option \<Rightarrow> bool" where
  "scalar_slot w m t pt Vo = (case Vo of
     None \<Rightarrow> True
   | Some V \<Rightarrow> v_fn V = None \<and> (v_type V = t \<or> v_type V = pt \<and>
       (case v_data V of C_p (Some a) \<Rightarrow> (case w_mem w a of Some (M_cell d) \<Rightarrow> memb_of d = Some m | _ \<Rightarrow> False) | _ \<Rightarrow> False)))"

lemma world_ok_put:
  "world_ok w \<Longrightarrow> w_vars w v \<noteq> None \<Longrightarrow> world_ok (put_var v V w)"
  "world_ok w \<Longrightarrow> w_mem w a \<noteq> None \<Longrightarrow> world_ok (put_mem a c w)"
  by (auto simp: world_ok_def)

lemma var_put_get:
  assumes iv: "is_var w p name v V" and t: "v_type V = t" "v_fn V = None" and val: "memb_of val = Some m"
    and tt: "vt_indirLvl (agVariableTypes t) = 0" "t \<noteq> AG_VARIABLE_P_VARIABLE"
  shows "FN_VARIABLE_GET m H p name (put_var v (V\<lparr>v_data := val\<rparr>) w) = Some (val, put_var v (V\<lparr>v_data := val\<rparr>) w)"
proof -
  have "is_var (put_var v (V\<lparr>v_data := val\<rparr>) w) p name v (V\<lparr>v_data := val\<rparr>)"
    using is_var_put [OF iv, of "V\<lparr>v_data := val\<rparr>"] is_var_name [OF iv] by simp
  from gvl_var [OF this] show ?thesis using t tt val by (simp add: FN_VARIABLE_GET_def rd_memb_same)
qed

lemma scalar_set_get:
  assumes vo: "vars_ok w p" and w: "world_ok w" and st: "(m, t, pt) \<in> set scalar_types"
    and val: "memb_of val = Some m" and len: "length name < AG_VARIABLE_NAME_MAX"
    and sl: "scalar_slot w m t pt (lookup w p name)"
  shows "\<exists>v w'. FN_VARIABLE_SET m t p name val w = Some (v, w') \<and> FN_VARIABLE_GET m H p name w' = Some (val, w') \<and>
     vars_ok w' p \<and> world_ok w' \<and> (\<forall>name'. name' \<noteq> name \<longrightarrow> lookup w' p name' = lookup w p name')"
  using vo
proof (cases rule: vars_ok_cases [of w p name])
  case None
  obtain w1 V where n: "new_var p name t w = Some (w_brk w, w1)" "is_var w1 p name (w_brk w) V"
    "V = (AG_InitVariable t blank_var)\<lparr>v_name := name\<rparr>" "world_ok w1"
    "\<forall>name'. name' \<noteq> name \<longrightarrow> lookup w1 p name' = lookup w p name'"
    using new_var_spec [OF None(1) w len] by blast
  let ?v = "w_brk w" and ?V = "V\<lparr>v_data := val\<rparr>"
  have T: "v_type V = t" "v_fn V = None" "v_name V = name" using n(3) by (simp_all add: AG_InitVariable_def)
  have "FN_VARIABLE_SET m t p name val w = Some (?v, put_var ?v ?V w1)"
    using n(1) is_var_ptr [OF n(2)] T scalar_types_table [OF st]
    by (simp add: FN_VARIABLE_SET_def fetch_new [OF None(1)])
  moreover have "FN_VARIABLE_GET m H p name (put_var ?v ?V w1) = Some (val, put_var ?v ?V w1)"
    using scalar_types_table [OF st] by (intro var_put_get [OF n(2) T(1,2) val]) auto
  moreover have "vars_ok (put_var ?v ?V w1) p" using is_var_put [OF n(2), of ?V] T(3) is_var_vars_ok by auto
  moreover have "world_ok (put_var ?v ?V w1)" using n(4) is_var_ptr [OF n(2)] by (intro world_ok_put) auto
  moreover have "\<forall>name'. name' \<noteq> name \<longrightarrow> lookup (put_var ?v ?V w1) p name' = lookup w p name'"
    using is_var_other [OF n(2), of ?V] T(3) n(5) by auto
  ultimately show ?thesis by blast
next
  case (Some v V)
  have nm: "v_name V = name" using Some(1) by (auto simp: is_var_def)
  have fn: "v_fn V = None" using sl Some(2) by (simp add: scalar_slot_def)
  consider (own) "v_type V = t" | (bound) a d where "v_type V = pt" "v_data V = C_p (Some a)" "w_mem w a = Some (M_cell d)" "memb_of d = Some m"
    using sl Some(2) by (auto simp: scalar_slot_def split: cval.splits option.splits memobj.splits)
  then show ?thesis
  proof cases
    case own
    let ?V = "V\<lparr>v_data := val\<rparr>"
    have "FN_VARIABLE_SET m t p name val w = Some (v, put_var v ?V w)"
      using is_var_ptr [OF Some(1)] own scalar_types_table [OF st]
      by (simp add: FN_VARIABLE_SET_def fetch_var [OF Some(1)])
    moreover have "FN_VARIABLE_GET m H p name (put_var v ?V w) = Some (val, put_var v ?V w)"
      using scalar_types_table [OF st] by (intro var_put_get [OF Some(1) own fn val]) auto
    moreover have "vars_ok (put_var v ?V w) p" using is_var_put [OF Some(1), of ?V] nm is_var_vars_ok by auto
    moreover have "world_ok (put_var v ?V w)" using w is_var_ptr [OF Some(1)] by (intro world_ok_put) auto
    moreover have "\<forall>name'. name' \<noteq> name \<longrightarrow> lookup (put_var v ?V w) p name' = lookup w p name'"
      using is_var_other [OF Some(1), of ?V] nm by auto
    ultimately show ?thesis by blast
  next
    case bound
    let ?w = "put_mem a (M_cell val) w"
    have "store_as m val V w = Some ?w" using bound by (simp add: store_as_def)
    then have "FN_VARIABLE_SET m t p name val w = Some (v, ?w)"
      using is_var_ptr [OF Some(1)] bound(1) scalar_types_table [OF st]
      by (simp add: FN_VARIABLE_SET_def fetch_var [OF Some(1)])
    moreover have "FN_VARIABLE_GET m H p name ?w = Some (val, ?w)"
      using gvl_var [OF is_var_mem [OF Some(1), of a "M_cell val"]] is_var_ptr [OF Some(1)] bound fn
        scalar_types_table [OF st] val
      by (simp add: FN_VARIABLE_GET_def load_as_def rd_memb_same)
    moreover have "vars_ok ?w p" by (rule is_var_vars_ok [OF is_var_mem [OF Some(1)]])
    moreover have "world_ok ?w" using w bound(3) by (intro world_ok_put) auto
    ultimately show ?thesis by auto
  qed
qed

section \<open>References\<close>

text \<open>
  What a look-up should return: the variable at the end of the chain of references, or
  NULL where the chain leaves the defined names.
\<close>

definition ref_of :: "AG_Variable \<Rightarrow> (nat \<times> string) option" where
  "ref_of V = (if v_type V \<noteq> AG_VARIABLE_P_VARIABLE then None
     else do { tgt \<leftarrow> ptr_of (v_data V); tgt \<leftarrow> tgt;
               key \<leftarrow> (case v_info V of I_ref key \<Rightarrow> key | _ \<Rightarrow> None); Some (tgt, key) })"

inductive resolves :: "world \<Rightarrow> nat \<Rightarrow> string \<Rightarrow> nat option \<Rightarrow> bool" where
  undefined: "no_var w p name \<Longrightarrow> resolves w p name None"
| variable: "is_var w p name v V \<Longrightarrow> v_type V \<noteq> AG_VARIABLE_P_VARIABLE \<Longrightarrow> resolves w p name (Some v)"
| reference: "is_var w p name v V \<Longrightarrow> v_type V = AG_VARIABLE_P_VARIABLE \<Longrightarrow> ref_of V = Some (q, key) \<Longrightarrow>
    resolves w q key r \<Longrightarrow> resolves w p name r"

inductive_cases resolvesE: "resolves w p name r"

lemma gvl_ref:
  "is_var w p name v V \<Longrightarrow> v_type V = AG_VARIABLE_P_VARIABLE \<Longrightarrow> ref_of V = Some (q, key) \<Longrightarrow>
   AG_GetVariableLocked w p name = AG_GetVariableLocked w q key"
  by (subst AG_GetVariableLocked.simps) (auto dest!: is_var_obj simp: ref_of_def bind_eq_Some_conv)

lemma resolves_gvl: "resolves w p name r \<Longrightarrow> AG_GetVariableLocked w p name = Some r"
  by (induction rule: resolves.induct) (auto simp: gvl_none gvl_var gvl_ref)

definition all_vars_ok :: "world \<Rightarrow> bool" where
  "all_vars_ok w \<longleftrightarrow> (\<forall>q. w_objs w q \<noteq> None \<longrightarrow> vars_ok w q)"

lemma gvl_resolves:
  assumes "AG_GetVariableLocked w p name = Some r" "all_vars_ok w"
  shows "resolves w p name r"
proof -
  have "all_vars_ok w \<longrightarrow> resolves w p name r"
    using assms(1)
  proof (rule AG_GetVariableLocked.raw_induct [where P = "\<lambda>w p name r. all_vars_ok w \<longrightarrow> resolves w p name r", rotated], intro impI)
    fix f w p name r
    assume IH: "\<And>w p name r. f w p name = Some r \<Longrightarrow> all_vars_ok w \<longrightarrow> resolves w p name r"
      and body: "do {
         ob \<leftarrow> w_objs w p;
         found \<leftarrow> find_var w ob name;
         (case found of
            None \<Rightarrow> Some None
          | Some v \<Rightarrow> do {
              V \<leftarrow> w_vars w v;
              if v_type V = AG_VARIABLE_P_VARIABLE then do {
                tgt \<leftarrow> ptr_of (v_data V); tgt \<leftarrow> tgt;
                key \<leftarrow> (case v_info V of I_ref key \<Rightarrow> key | _ \<Rightarrow> None);
                f w tgt key
              } else Some (Some v)
            })
       } = Some r"
      and ok: "all_vars_ok w"
    from body have "vars_ok w p" using ok by (auto simp: all_vars_ok_def bind_eq_Some_conv)
    then show "resolves w p name r"
    proof (cases rule: vars_ok_cases [of w p name])
      case None
      then show ?thesis using body no_var_obj [OF None(1)] by (auto intro: resolves.undefined)
    next
      case (Some v V)
      note iv = is_var_obj [OF Some(1)]
      show ?thesis
      proof (cases "v_type V = AG_VARIABLE_P_VARIABLE")
        case False
        then show ?thesis using body iv Some(1) by (auto intro: resolves.variable)
      next
        case True
        then obtain q key where "ref_of V = Some (q, key)" "f w q key = Some r"
          using body iv by (auto simp: ref_of_def bind_eq_Some_conv split: vinfo.splits)
        then show ?thesis using IH ok Some(1) True by (blast intro: resolves.reference)
      qed
    qed
  qed
  then show ?thesis using assms(2) by blast
qed

text \<open>A set of references that only lead to each other.\<close>

lemma cycle_diverges:
  assumes "(p, name) \<in> C"
    and "\<forall>(p, name) \<in> C. \<exists>v V q key. is_var w p name v V \<and> v_type V = AG_VARIABLE_P_VARIABLE \<and>
           ref_of V = Some (q, key) \<and> (q, key) \<in> C"
    and "all_vars_ok w"
  shows "AG_GetVariableLocked w p name = None"
proof -
  have "resolves w' p name r \<Longrightarrow> w' = w \<Longrightarrow> (p, name) \<in> C \<Longrightarrow> False" for w' p name r
  proof (induction w' p name r rule: resolves.induct)
    case (undefined w' p name)
    then obtain v' V' where "is_var w p name v' V'" using assms(2) by blast
    then show ?case using is_var_lookup [of w p name v' V'] no_var_lookup [OF undefined.hyps(1)] undefined.prems(1) by simp
  next
    case (variable w' p name v V)
    then obtain v' V' where "is_var w p name v' V'" "v_type V' = AG_VARIABLE_P_VARIABLE"
      using assms(2) by blast
    moreover have "V' = V" using is_var_lookup [OF calculation(1)] is_var_lookup [OF variable.hyps(1)] variable.prems(1) by simp
    ultimately show ?case using variable by auto
  next
    case (reference w' p name v V q key r)
    then obtain v' V' q' key' where "is_var w p name v' V'" "ref_of V' = Some (q', key')" "(q', key') \<in> C"
      using assms(2) by blast
    moreover have "V' = V" using is_var_lookup [OF calculation(1)] is_var_lookup [OF reference.hyps(1)] reference.prems(1) by simp
    ultimately show ?case using reference by auto
  qed
  then show ?thesis using assms(1,3) gvl_resolves by (cases "AG_GetVariableLocked w p name") blast+
qed

text \<open>With references that go down in some order, every look-up returns.\<close>

lemma ranked_resolves:
  assumes ok: "all_vars_ok w" "w_objs w p \<noteq> None"
    and rank: "\<forall>p name v V q key. is_var w p name v V \<longrightarrow> v_type V = AG_VARIABLE_P_VARIABLE \<longrightarrow>
       ref_of V = Some (q, key) \<longrightarrow> rank (q, key) < (rank (p, name) :: nat)"
    and refs: "\<forall>p name v V. is_var w p name v V \<longrightarrow> v_type V = AG_VARIABLE_P_VARIABLE \<longrightarrow>
       (\<exists>q key. ref_of V = Some (q, key) \<and> w_objs w q \<noteq> None)"
  shows "\<exists>r. resolves w p name r"
  using ok(2)
proof (induction "rank (p, name)" arbitrary: p name rule: less_induct)
  case less
  have "vars_ok w p" using ok(1) less.prems by (simp add: all_vars_ok_def)
  then show ?case
  proof (cases rule: vars_ok_cases [of w p name])
    case None
    then show ?thesis by (blast intro: resolves.undefined)
  next
    case (Some v V)
    show ?thesis
    proof (cases "v_type V = AG_VARIABLE_P_VARIABLE")
      case False
      then show ?thesis using Some(1) by (blast intro: resolves.variable)
    next
      case True
      then obtain q key where q: "ref_of V = Some (q, key)" "w_objs w q \<noteq> None" using refs Some(1) by blast
      then have "rank (q, key) < rank (p, name)" using rank Some(1) True by blast
      then obtain r where "resolves w q key r" using less.hyps q(2) by blast
      then show ?thesis using Some(1) True q(1) by (blast intro: resolves.reference)
    qed
  qed
qed

section \<open>Strings\<close>

lemma is_var_cong: "w_objs w' = w_objs w \<Longrightarrow> w_vars w' = w_vars w \<Longrightarrow> is_var w' p name v V = is_var w p name v V"
  by (simp add: is_var_def)

lemma lookup_cong: "w_objs w' = w_objs w \<Longrightarrow> w_vars w' = w_vars w \<Longrightarrow> lookup w' = lookup w"
  by (simp add: lookup_def fun_eq_iff split: option.split)

text \<open>The text that a variable of a string type keeps of \<open>s\<close>.\<close>

definition kept :: "AG_Variable option \<Rightarrow> string \<Rightarrow> string" where
  "kept Vo s = (case Vo of
     Some V \<Rightarrow> if v_type V = AG_VARIABLE_P_STRING then (case info_size V of Some n \<Rightarrow> take (n - 1) s | None \<Rightarrow> s) else s
   | None \<Rightarrow> s)"

text \<open>The buffer that a variable is bound to, and the size it was bound with.\<close>

definition bound_buf :: "world \<Rightarrow> AG_Variable \<Rightarrow> (nat \<times> nat \<times> char list) option" where
  "bound_buf w V = do {
     q \<leftarrow> ptr_of (v_data V); a \<leftarrow> q; n \<leftarrow> info_size V; c \<leftarrow> w_mem w a;
     (case c of M_buf b \<Rightarrow> Some (a, n, b) | M_cell _ \<Rightarrow> None)
   }"

lemma bound_bufD:
  assumes "bound_buf w V = Some (a, n, b)"
  shows "ptr_of (v_data V) = Some (Some a)" "info_size V = Some n" "w_mem w a = Some (M_buf b)"
proof -
  obtain a' n' c where 1: "ptr_of (v_data V) = Some (Some a')" "info_size V = Some n'" "w_mem w a' = Some c"
    "(case c of M_buf b \<Rightarrow> Some (a', n', b) | M_cell _ \<Rightarrow> None) = Some (a, n, b)"
    using assms by (auto simp: bound_buf_def bind_eq_Some_conv)
  then show "ptr_of (v_data V) = Some (Some a)" "info_size V = Some n" "w_mem w a = Some (M_buf b)"
    by (cases c; simp)+
qed

text \<open>
  What \<open>AG_SetString\<close> can be applied to: a new name, a string of its own, a bound buffer,
  or a variable of another type, which it replaces.
\<close>

definition string_slot :: "world \<Rightarrow> AG_Variable option \<Rightarrow> bool" where
  "string_slot w Vo = (case Vo of
     None \<Rightarrow> True
   | Some V \<Rightarrow>
       if v_type V = AG_VARIABLE_STRING then v_fn V = None \<and> info_size V = Some 0 \<and>
         (case v_data V of C_s None \<Rightarrow> True | C_s (Some a) \<Rightarrow> w_mem w a \<noteq> None | _ \<Rightarrow> False)
       else if v_type V = AG_VARIABLE_P_STRING then v_fn V = None \<and>
         (case bound_buf w V of Some (a, n, b) \<Rightarrow> 0 < n \<and> n \<le> length b | None \<Rightarrow> False)
       else True)"

lemma data_str_buf:
  "ptr_of (v_data V) = Some (Some a) \<Longrightarrow> w_mem w a = Some (M_buf (s @ NUL # r)) \<Longrightarrow> nonul s \<Longrightarrow> data_str V w = Some s"
  by (simp add: data_str_def get_cstr_def terminated_def)

lemma get_string:
  assumes iv: "is_var w p name v V" and V: "v_type V \<noteq> AG_VARIABLE_P_VARIABLE" "v_fn V = None"
    and d: "ptr_of (v_data V) = Some (Some a)" "w_mem w a = Some (M_buf (s @ NUL # r))" "nonul s"
    and dst: "0 < dstSize" "dstSize \<le> length dst"
  shows "\<exists>dst'. AG_GetString H p name dst dstSize w = Some (length s, dst', w) \<and> cstr dst' = take (dstSize - 1) s"
proof -
  have "nonul (take (dstSize - 1) s)" using d(3) by (auto simp: nonul_def dest: in_set_takeD)
  then show ?thesis
    using gvl_var [OF iv V(1)] is_var_ptr [OF iv] V(2) data_str_buf [OF d] AG_Strlcpy_spec [OF d(3), of dstSize dst "[]"] dst
    by (simp add: AG_GetString_def)
qed

text \<open>A string of its own: duplicated into new memory.\<close>

lemma own_string:
  assumes iv: "is_var w p name v V" and w: "world_ok w" and s: "nonul s"
    and V': "v_type V' = AG_VARIABLE_STRING" "v_fn V' = None" "v_name V' = name" "v_data V' = C_s (Some a)"
    and st: "Strdup s w = (a, w1)"
    and dst: "0 < dstSize" "dstSize \<le> length dst"
  shows "(\<exists>dst'. AG_GetString H p name dst dstSize (put_var v V' w1) = Some (length s, dst', put_var v V' w1) \<and>
            cstr dst' = take (dstSize - 1) s) \<and>
         vars_ok (put_var v V' w1) p \<and> world_ok (put_var v V' w1) \<and>
         (\<forall>name'. name' \<noteq> name \<longrightarrow> lookup (put_var v V' w1) p name' = lookup w p name')"
proof -
  have a: "a = w_brk w" "w1 = put_mem a (M_buf (s @ [NUL])) (w\<lparr>w_brk := Suc a\<rparr>)"
    using st by (auto simp: Strdup_def fresh_def)
  have o: "w_objs w1 = w_objs w" "w_vars w1 = w_vars w" by (simp_all add: a(2))
  have iv1: "is_var w1 p name v V" using iv is_var_cong [OF o] by simp
  have iv2: "is_var (put_var v V' w1) p name v V'" using is_var_put [OF iv1 V'(3)] .
  have m: "w_mem (put_var v V' w1) a = Some (M_buf (s @ NUL # []))" by (simp add: a(2))
  have "world_ok w1" using w by (auto simp: world_ok_def a)
  then have "world_ok (put_var v V' w1)" using is_var_ptr [OF iv1] by (intro world_ok_put) auto
  moreover have "\<forall>name'. name' \<noteq> name \<longrightarrow> lookup (put_var v V' w1) p name' = lookup w p name'"
    using is_var_other [OF iv1 V'(3)] lookup_cong [OF o] by simp
  ultimately show ?thesis
    using get_string [OF iv2 _ V'(2) _ m s dst, of H] V'(4) V'(1) is_var_vars_ok [OF iv2] by simp
qed

lemma free_ptr_keeps:
  assumes "free_ptr q w = Some w1"
  shows "w_objs w1 = w_objs w" "w_vars w1 = w_vars w" "world_ok w \<Longrightarrow> world_ok w1"
  using assms by (auto simp: free_ptr_def world_ok_def split: option.splits if_splits)

lemma string_set_get:
  assumes vo: "vars_ok w p" and w: "world_ok w" and s: "nonul s" and len: "length name < AG_VARIABLE_NAME_MAX"
    and sl: "string_slot w (lookup w p name)" and dst: "0 < dstSize" "dstSize \<le> length dst"
  shows "\<exists>v w' dst'. AG_SetString p name s w = Some (v, w') \<and>
     AG_GetString H p name dst dstSize w' = Some (length (kept (lookup w p name) s), dst', w') \<and>
     cstr dst' = take (dstSize - 1) (kept (lookup w p name) s) \<and>
     vars_ok w' p \<and> world_ok w' \<and> (\<forall>name'. name' \<noteq> name \<longrightarrow> lookup w' p name' = lookup w p name')"
  using vo
proof (cases rule: vars_ok_cases [of w p name])
  case None
  obtain ob where ob: "w_objs w p = Some ob" "find_var w ob name = Some None" using no_var_obj [OF None(1)] by blast
  obtain w1 V where n: "new_var p name AG_VARIABLE_STRING w = Some (w_brk w, w1)" "is_var w1 p name (w_brk w) V"
    "V = (AG_InitVariable AG_VARIABLE_STRING blank_var)\<lparr>v_name := name\<rparr>" "world_ok w1"
    "\<forall>name'. name' \<noteq> name \<longrightarrow> lookup w1 p name' = lookup w p name'"
    using new_var_spec [OF None(1) w len] by blast
  obtain a w2 where d: "Strdup s w1 = (a, w2)" by (cases "Strdup s w1")
  define V' where "V' = V\<lparr>v_info := I_size 0, v_data := C_s (Some a)\<rparr>"
  have V': "v_type V' = AG_VARIABLE_STRING" "v_fn V' = None" "v_name V' = name" "v_data V' = C_s (Some a)"
    using n(3) by (simp_all add: V'_def AG_InitVariable_def)
  have run: "AG_SetString p name s w = Some (w_brk w, put_var (w_brk w) V' w2)"
    using ob n(1) is_var_ptr [OF n(2)] d by (simp add: AG_SetString_def V'_def)
  show ?thesis
    using own_string [OF n(2,4) s V' d dst, of H] run n(5) None(2) by (auto simp: kept_def)
next
  case (Some v V)
  obtain ob where ob: "w_objs w p = Some ob" "find_var w ob name = Some (Some v)" "w_vars w v = Some V"
    using is_var_obj [OF Some(1)] by blast
  note nm = is_var_name [OF Some(1)]
  consider (own) "v_type V = AG_VARIABLE_STRING" | (buf) "v_type V = AG_VARIABLE_P_STRING"
    | (other) "v_type V \<noteq> AG_VARIABLE_STRING" "v_type V \<noteq> AG_VARIABLE_P_STRING" by blast
  then show ?thesis
  proof cases
    case own
    then obtain q where q: "v_fn V = None" "info_size V = Some 0" "ptr_of (v_data V) = Some q" "q = None \<or> (\<exists>a. q = Some a \<and> w_mem w a \<noteq> None)"
      using sl Some(2) by (auto simp: string_slot_def split: cval.splits option.splits)
    then obtain w1 where f: "free_ptr q w = Some w1" by (auto simp: free_ptr_def)
    have iv1: "is_var w1 p name v V" using is_var_cong [OF free_ptr_keeps(1,2) [OF f]] Some(1) by simp
    obtain a w2 where d: "Strdup s w1 = (a, w2)" by (cases "Strdup s w1")
    define V' where "V' = V\<lparr>v_info := I_size 0, v_data := C_s (Some a)\<rparr>"
    have V': "v_type V' = AG_VARIABLE_STRING" "v_fn V' = None" "v_name V' = name" "v_data V' = C_s (Some a)"
      using own q nm by (simp_all add: V'_def)
    have run: "AG_SetString p name s w = Some (v, put_var v V' w2)"
      using ob own q f d by (simp add: AG_SetString_def V'_def)
    show ?thesis
      using own_string [OF iv1 free_ptr_keeps(3) [OF f w] s V' d dst, of H] run Some(2) own
        lookup_cong [OF free_ptr_keeps(1,2) [OF f]] by (auto simp: kept_def)
  next
    case other
    have f: "AG_FreeVariable V w = Some w" using other by (simp add: AG_FreeVariable_def)
    obtain a w2 where d: "Strdup s w = (a, w2)" by (cases "Strdup s w")
    define V' where "V' = (AG_InitVariable AG_VARIABLE_STRING V)\<lparr>v_info := I_size 0, v_data := C_s (Some a)\<rparr>"
    have V': "v_type V' = AG_VARIABLE_STRING" "v_fn V' = None" "v_name V' = name" "v_data V' = C_s (Some a)"
      using nm by (simp_all add: V'_def AG_InitVariable_def)
    have run: "AG_SetString p name s w = Some (v, put_var v V' w2)"
      using ob other f d by (simp add: AG_SetString_def V'_def)
    show ?thesis
      using own_string [OF Some(1) w s V' d dst, of H] run Some(2) other by (auto simp: kept_def)
  next
    case buf
    then obtain a n b where b: "v_fn V = None" "bound_buf w V = Some (a, n, b)" "0 < n" "n \<le> length b"
      using sl Some(2) by (auto simp: string_slot_def split: option.splits)
    note bb = bound_bufD [OF b(2)]
    define t where "t = take (n - 1) s"
    define r where "r = drop (Suc (min (n - 1) (length s))) b"
    have tn: "nonul t" using s by (auto simp: t_def nonul_def dest: in_set_takeD)
    have cp: "AG_Strlcpy b (s @ [NUL]) n = Some (t @ NUL # r, length s)"
      using AG_Strlcpy_spec [OF s b(4), of "[]"] b(3) by (simp add: t_def r_def)
    define w' where "w' = put_mem a (M_buf (t @ NUL # r)) w"
    have run: "AG_SetString p name s w = Some (v, w')"
      using ob buf bb cp by (simp add: AG_SetString_def strlcpy_mem_def w'_def)
    have iv: "is_var w' p name v V" using is_var_mem [OF Some(1)] by (simp add: w'_def)
    have m: "w_mem w' a = Some (M_buf (t @ NUL # r))" by (simp add: w'_def)
    have "world_ok w'" using w bb(3) unfolding w'_def by (intro world_ok_put) auto
    moreover have "lookup w' = lookup w" unfolding w'_def by (rule lookup_cong) auto
    ultimately show ?thesis
      using get_string [OF iv _ b(1) bb(1) m tn dst, of H] buf bb(2) run is_var_vars_ok [OF iv] Some(2)
      by (auto simp: kept_def t_def)
  qed
qed

section \<open>Binding\<close>

lemma post_none:
  assumes ok: "events_ok w p" and none: "\<forall>ev \<in> set (evs_of w p). ev_name ev \<noteq> name" and n: "length (evs_of w p) < n"
  shows "AG_PostEvent n call sndr p name fmt ap w = Some w"
proof -
  obtain ob where ob: "w_objs w p = Some ob" "distinct (ob_events ob)" "\<forall>e \<in> set (ob_events ob). w_events w e \<noteq> None"
    using ok by (auto split: option.splits)
  have "ob_events ob = us @ vs \<Longrightarrow> length vs < n \<Longrightarrow>
      post_loop n call sndr p name fmt ap False (first_of vs) w = Some w" for us vs n
  proof (induction vs arbitrary: us n)
    case Nil
    then obtain k where "n = Suc k" by (cases n) auto
    then show ?case by (simp add: first_of_def)
  next
    case (Cons e vs)
    obtain k where k: "n = Suc k" using Cons.prems by (cases n) auto
    obtain ev where ev: "w_events w e = Some ev" using ob(3) Cons.prems(1) by auto
    have "ev \<in> set (evs_of w p)" using ob(1) Cons.prems(1) ev by (simp add: evs_of_def)
    then have ne: "name \<noteq> ev_name ev" using none by auto
    have "e \<notin> set us" using ob(2) Cons.prems(1) by auto
    then have "next_of e (ob_events ob) = Some (first_of vs)" using Cons.prems(1) next_of_append by simp
    moreover have "post_loop k call sndr p name fmt ap False (first_of vs) w = Some w"
      using Cons.prems k by (intro Cons.IH [of "us @ [e]"]) auto
    ultimately show ?case using ev ne ob(1) by (simp add: k first_of_def)
  qed
  from this [of "[]" "ob_events ob" n] show ?thesis using ob(1) n by (simp add: AG_PostEvent_def evs_of_def)
qed

lemma events_put_var: "evs_of (put_var v V w) = evs_of w" "events_ok (put_var v V w) = events_ok w"
  by (auto simp: evs_of_def fun_eq_iff split: option.split)

text \<open>Fetching a variable as one of a type, when the old one owns no string.\<close>

lemma fetch_of_type:
  assumes vo: "vars_ok w p" and w: "world_ok w" and len: "length name < AG_VARIABLE_NAME_MAX"
    and old: "\<forall>V. lookup w p name = Some V \<longrightarrow> v_type V \<noteq> AG_VARIABLE_STRING \<and> (v_type V = t \<longrightarrow> v_fn V = None)"
  shows "\<exists>v V w'. AG_FetchVariableOfType p name t w = Some (v, w') \<and> is_var w' p name v V \<and> v_type V = t \<and> v_fn V = None \<and>
     world_ok w' \<and> w_mem w' = w_mem w \<and> evs_of w' p = evs_of w p \<and> events_ok w' p = events_ok w p \<and>
     (\<forall>name'. name' \<noteq> name \<longrightarrow> lookup w' p name' = lookup w p name')"
  using vo
proof (cases rule: vars_ok_cases [of w p name])
  case None
  obtain w1 V where n: "new_var p name t w = Some (w_brk w, w1)" "is_var w1 p name (w_brk w) V"
    "V = (AG_InitVariable t blank_var)\<lparr>v_name := name\<rparr>" "world_ok w1" "w_mem w1 = w_mem w" "evs_of w1 = evs_of w"
    "\<forall>q. events_ok w1 q = events_ok w q"
    "\<forall>name'. name' \<noteq> name \<longrightarrow> lookup w1 p name' = lookup w p name'"
    using new_var_spec [OF None(1) w len] by blast
  have T: "v_type V = t" "v_fn V = None" using n(3) by (simp_all add: AG_InitVariable_def)
  have "AG_FetchVariableOfType p name t w = Some (w_brk w, w1)"
    using n(1) is_var_ptr [OF n(2)] T by (simp add: AG_FetchVariableOfType_def fetch_new [OF None(1)])
  then show ?thesis using n T by auto
next
  case (Some v V)
  note nm = is_var_name [OF Some(1)]
  show ?thesis
  proof (cases "v_type V = t")
    case True
    then have "AG_FetchVariableOfType p name t w = Some (v, w)"
      using is_var_ptr [OF Some(1)] by (simp add: AG_FetchVariableOfType_def fetch_var [OF Some(1)])
    then show ?thesis using Some w True old by blast
  next
    case False
    define V' where "V' = AG_InitVariable t V"
    have V': "v_type V' = t" "v_fn V' = None" "v_name V' = name" using nm by (simp_all add: V'_def AG_InitVariable_def)
    have "v_type V \<noteq> AG_VARIABLE_STRING" using old Some(2) by blast
    then have run: "AG_FetchVariableOfType p name t w = Some (v, put_var v V' w)"
      using False is_var_ptr [OF Some(1)]
      by (simp add: AG_FetchVariableOfType_def fetch_var [OF Some(1)] AG_FreeVariable_def V'_def)
    have "world_ok (put_var v V' w)" using w is_var_ptr [OF Some(1)] by (intro world_ok_put) auto
    moreover have "evs_of (put_var v V' w) p = evs_of w p" by (simp add: evs_of_def)
    moreover have "events_ok (put_var v V' w) p = events_ok w p" by (simp split: option.split)
    ultimately show ?thesis
      using run is_var_put [OF Some(1) V'(3)] V' is_var_other [OF Some(1) V'(3)]
      by (intro exI [of _ v] exI [of _ V'] exI [of _ "put_var v V' w"]) (simp del: events_ok.simps)
  qed
qed

lemma bind_shares:
  assumes vo: "vars_ok w p" and w: "world_ok w" and ok: "events_ok w p" and st: "(m, t, pt) \<in> set scalar_types"
    and len: "length name < AG_VARIABLE_NAME_MAX" and cell: "w_mem w a = Some (M_cell d)" "memb_of d = Some m"
    and old: "\<forall>V. lookup w p name = Some V \<longrightarrow> v_type V \<noteq> AG_VARIABLE_STRING \<and> (v_type V = pt \<longrightarrow> v_fn V = None)"
    and none: "\<forall>ev \<in> set (evs_of w p). ev_name ev \<noteq> ''bound''" and n: "length (evs_of w p) < hk_fuel H"
  shows "\<exists>v w'. FN_VARIABLE_BIND pt H p name (Some a) w = Some (v, w') \<and> w_mem w' = w_mem w \<and> vars_ok w' p \<and> world_ok w' \<and>
     (\<forall>x. memb_of x = Some m \<longrightarrow>
        FN_VARIABLE_GET m H p name (put_mem a (M_cell x) w') = Some (x, put_mem a (M_cell x) w') \<and>
        FN_VARIABLE_SET m t p name x w' = Some (v, put_mem a (M_cell x) w')) \<and>
     (\<forall>name'. name' \<noteq> name \<longrightarrow> lookup w' p name' = lookup w p name')"
proof -
  obtain v V w1 where f: "AG_FetchVariableOfType p name pt w = Some (v, w1)" "is_var w1 p name v V" "v_type V = pt" "v_fn V = None"
     "world_ok w1" "w_mem w1 = w_mem w" "evs_of w1 p = evs_of w p" "events_ok w1 p = events_ok w p"
     "\<forall>name'. name' \<noteq> name \<longrightarrow> lookup w1 p name' = lookup w p name'"
    using fetch_of_type [OF vo w len old] by blast
  define V' where "V' = V\<lparr>v_data := C_p (Some a)\<rparr>"
  have V': "v_type V' = pt" "v_fn V' = None" "v_name V' = name" "v_data V' = C_p (Some a)"
    using f is_var_name [OF f(2)] by (simp_all add: V'_def)
  define w' where "w' = put_var v V' w1"
  have iv: "is_var w' p name v V'" unfolding w'_def by (rule is_var_put [OF f(2) V'(3)])
  have "evs_of w' p = evs_of w p" "events_ok w' p"
    using f(7,8) ok by (simp_all add: w'_def events_put_var del: events_ok.simps)
  then have "AG_PostEvent (hk_fuel H) (hk_call H) None p ''bound'' (Some ''%p'') [C_p (Some v)] w' = Some w'"
    using none n by (intro post_none) auto
  then have run: "FN_VARIABLE_BIND pt H p name (Some a) w = Some (v, w')"
    using f(1) is_var_ptr [OF f(2)] by (simp add: FN_VARIABLE_BIND_def post_bound_def V'_def [symmetric] w'_def [symmetric])
  have mem: "w_mem w' a = Some (M_cell d)" using cell f(6) by (simp add: w'_def)
  have "FN_VARIABLE_GET m H p name (put_mem a (M_cell x) w') = Some (x, put_mem a (M_cell x) w')" if "memb_of x = Some m" for x
    using gvl_var [OF is_var_mem [OF iv, of a "M_cell x"]] is_var_ptr [OF iv] V' scalar_types_table [OF st] that
    by (simp add: FN_VARIABLE_GET_def load_as_def rd_memb_same)
  moreover have "FN_VARIABLE_SET m t p name x w' = Some (v, put_mem a (M_cell x) w')" for x
    using is_var_ptr [OF iv] V' scalar_types_table [OF st] mem cell(2)
    by (simp add: FN_VARIABLE_SET_def fetch_var [OF iv] store_as_def)
  moreover have "world_ok w'" unfolding w'_def using f(5) is_var_ptr [OF f(2)] by (intro world_ok_put) auto
  moreover have "\<forall>name'. name' \<noteq> name \<longrightarrow> lookup w' p name' = lookup w p name'"
    unfolding w'_def using is_var_other [OF f(2) V'(3)] f(9) by simp
  moreover have "w_mem w' = w_mem w" using f(6) by (simp add: w'_def)
  ultimately show ?thesis using run is_var_vars_ok [OF iv] by blast
qed

section \<open>Substitution\<close>

text \<open>A text with references: characters, and keys in \<open>$(...)\<close>.\<close>

datatype part = Lit char | Key string

fun part_text :: "part \<Rightarrow> string" where
  "part_text (Lit c) = [c]"
| "part_text (Key k) = ''$('' @ k @ '')''"

text \<open>A dollar sign of the text is not followed by a parenthesis.\<close>

fun parts_ok :: "part list \<Rightarrow> bool" where
  "parts_ok [] \<longleftrightarrow> True"
| "parts_ok (Lit c # ps) \<longleftrightarrow> (c = CHR ''$'' \<longrightarrow> (case ps of Lit d # _ \<Rightarrow> d \<noteq> CHR ''('' | _ \<Rightarrow> True)) \<and> parts_ok ps"
| "parts_ok (Key k # ps) \<longleftrightarrow> CHR '')'' \<notin> set k \<and> parts_ok ps"

lemma parts_hd: "(case ps of Lit d # _ \<Rightarrow> d \<noteq> CHR ''('' | _ \<Rightarrow> True) \<Longrightarrow> take 1 (concat (map part_text ps)) \<noteq> ''(''"
  by (auto split: list.splits part.splits)

text \<open>A key that does not fit the buffer for it is dropped.\<close>

fun part_val :: "(string \<Rightarrow> string) \<Rightarrow> part \<Rightarrow> string" where
  "part_val f (Lit c) = [c]"
| "part_val f (Key k) = (if length k + 1 < AG_VARIABLE_NAME_MAX then f k else [])"

lemma str_cat_take: "0 < len \<Longrightarrow> str_cat len (take (len - Suc 0) t) x = take (len - Suc 0) (t @ x)"
  by (auto simp: str_cat_def min_def)

lemma subst_parts:
  assumes "parts_ok ps"
    and "\<forall>k. Key k \<in> set ps \<longrightarrow> length k + 1 < AG_VARIABLE_NAME_MAX \<longrightarrow> subst_key H p k w = Some (f k)" and "0 < len"
  shows "subst_loop H p len w (concat (map part_text ps)) (take (len - 1) t) =
    Some (take (len - 1) (t @ concat (map (part_val f) ps)))"
  using assms
proof (induction ps arbitrary: t)
  case Nil
  then show ?case by simp
next
  case (Cons x ps)
  have IH: "subst_loop H p len w (concat (map part_text ps)) (take (len - 1) u) =
    Some (take (len - 1) (u @ concat (map (part_val f) ps)))" for u
    using Cons by (cases x) auto
  show ?case
  proof (cases x)
    case (Lit c)
    have "c = CHR ''$'' \<Longrightarrow> take 1 (concat (map part_text ps)) \<noteq> ''(''" using Cons.prems(1) Lit by (intro parts_hd) simp
    then show ?thesis using Lit Cons.prems IH [of "t @ [c]"] by (auto simp add: str_cat_take simp del: take_append)
  next
    case (Key k)
    define rest where "rest = concat (map part_text ps)"
    have nk: "CHR '')'' \<notin> set k" using Cons.prems(1) Key by simp
    then have tw: "takeWhile (\<lambda>y. y \<noteq> CHR '')'') (k @ CHR '')'' # rest) = k" by (induction k) auto
    show ?thesis
    proof (cases "length k + 1 < AG_VARIABLE_NAME_MAX")
      case True
      then have "subst_key H p k w = Some (f k)" using Cons.prems(2) Key by auto
      then show ?thesis using Key True IH [of "t @ f k"] Cons.prems(3) tw
        by (simp add: rest_def [symmetric] str_cat_take del: take_append)
    next
      case False
      then show ?thesis using Key IH [of t] tw by (simp add: rest_def [symmetric])
    qed
  qed
qed

lemma AG_VariableSubst_spec:
  assumes "parts_ok ps" "0 < len"
    and "\<forall>k. Key k \<in> set ps \<longrightarrow> length k + 1 < AG_VARIABLE_NAME_MAX \<longrightarrow> subst_key H p k w = Some (f k)"
  shows "AG_VariableSubst H p (concat (map part_text ps)) len w = Some (take (len - 1) (concat (map (part_val f) ps)))"
  using subst_parts [OF assms(1,3,2), of "[]"] assms(2) by (simp add: AG_VariableSubst_def)

text \<open>
  What stands for a key: the name of the object or of its class, nothing for a variable that is not defined, and the value of the
  variable that the key leads to, along its references: an integer in decimal, a string cut to 63 characters.
\<close>

fun int_text :: "cval \<Rightarrow> string option" where
  "int_text (C_u x) = Some (dec (unat x))" | "int_text (C_i x) = (if int_ok (sint x) then Some (dec_int (sint x)) else None)"
| "int_text (C_u8 x) = Some (dec (unat x))" | "int_text (C_s8 x) = Some (dec_int (sint x))"
| "int_text (C_u16 x) = Some (dec (unat x))" | "int_text (C_s16 x) = Some (dec_int (sint x))"
| "int_text (C_u32 x) = Some (dec (unat x))" | "int_text (C_s32 x) = Some (dec_int (sint x))"
| "int_text (C_u64 x) = Some (dec (unat x))" | "int_text (C_s64 x) = Some (dec_int (sint x))"
| "int_text _ = None"

definition prints_as :: "world \<Rightarrow> AG_Variable \<Rightarrow> string \<Rightarrow> bool" where
  "prints_as w V s \<longleftrightarrow>
     (\<exists>m t pt d. (m, t, pt) \<in> set scalar_types \<and> memb_of d = Some m \<and> int_text d = Some s \<and>
        (v_type V = t \<and> v_data V = d \<or> v_type V = pt \<and> load_as m V w = Some d)) \<or>
     (v_type V \<in> {AG_VARIABLE_STRING, AG_VARIABLE_CONST_STRING, AG_VARIABLE_P_STRING, AG_VARIABLE_P_CONST_STRING} \<and>
        (\<exists>t. data_str V w = Some t \<and> s = take 63 t))"

definition key_value :: "world \<Rightarrow> nat \<Rightarrow> string \<Rightarrow> string \<Rightarrow> bool" where
  "key_value w p k s \<longleftrightarrow> (\<exists>ob. w_objs w p = Some ob \<and>
     (if k = ''name'' then s = ob_name ob
      else if k = ''class'' then s = cl_name (cl_mem (w_reg w) (ob_cls ob))
      else resolves w p k None \<and> s = [] \<or> (\<exists>v V. resolves w p k (Some v) \<and> w_vars w v = Some V \<and> prints_as w V s)))"

lemma key_valueI:
  "w_objs w p = Some ob \<Longrightarrow> k \<noteq> ''name'' \<Longrightarrow> k \<noteq> ''class'' \<Longrightarrow> resolves w p k (Some v) \<Longrightarrow> w_vars w v = Some V \<Longrightarrow> prints_as w V s \<Longrightarrow> key_value w p k s"
  by (auto simp: key_value_def)

lemma length_dec_le: "n < 10 ^ k \<Longrightarrow> 0 < k \<Longrightarrow> length (dec n) \<le> k"
  using dec_rev_length_le [of n k] by (simp add: dec_def)

lemma length_dec_word: "LENGTH('a::len) \<le> 64 \<Longrightarrow> length (dec (unat (x :: 'a word))) < 63"
proof -
  assume "LENGTH('a) \<le> 64"
  then have le: "(2::nat) ^ LENGTH('a) \<le> 2 ^ 64" by (intro power_increasing) simp_all
  have "unat x < 2 ^ 64" by (rule order_less_le_trans [OF unsigned_less le])
  then have "unat x < 10 ^ 20" by simp
  then show ?thesis using length_dec_le [of "unat x" 20] by simp
qed

lemma length_dec_int_word: "LENGTH('a::len) \<le> 64 \<Longrightarrow> length (dec_int (sint (x :: 'a word))) < 63"
proof -
  assume "LENGTH('a) \<le> 64"
  then have le: "(2::int) ^ (LENGTH('a) - 1) \<le> 2 ^ 63" by (intro power_increasing) simp_all
  have "- (2 ^ (LENGTH('a) - 1)) \<le> sint x" "sint x < 2 ^ (LENGTH('a) - 1)" using sint_range_size [of x] by (simp_all add: word_size)
  then have "- (2 ^ 63) \<le> sint x" "sint x < 2 ^ 63" using le by linarith+
  then have "nat (sint x) < 10 ^ 20" "nat (- sint x) < 10 ^ 20" by auto
  then have "length (dec (nat (sint x))) \<le> 20" "length (dec (nat (- sint x))) \<le> 20" using length_dec_le [of _ 20] by simp_all
  then show ?thesis by (auto simp: dec_int_def)
qed

lemma nonul_dec_int: "nonul (dec_int v)" by (simp add: dec_int_def)

lemma print_cval_text:
  assumes "int_text d = Some s"
  shows "\<exists>b. print_cval H (replicate 64 NUL) 64 d = Some b \<and> cstr b = s"
proof -
  have S: "\<exists>b. Snprintf (replicate 64 NUL) 64 t = Some b \<and> cstr b = t" if "length t < 63" "nonul t" for t
    using that by (simp add: Snprintf_def Let_def)
  have U: "\<exists>b. (\<exists>r. AG_StrlcpyUint (replicate 64 NUL) n 64 = Some (b, r)) \<and> cstr b = dec n" if "length (dec n) < 63" for n
    using that by (simp add: AG_StrlcpyUint_spec Let_def)
  have I: "\<exists>b. (\<exists>r. AG_StrlcpyInt (replicate 64 NUL) v 64 = Some (b, r)) \<and> cstr b = dec_int v" if "length (dec_int v) < 63" "int_ok v" for v
    using that nonul_dec_int [of v] by (simp add: AG_StrlcpyInt_spec Let_def)
  have ok: "int_ok (sint (x :: 8 word))" "int_ok (sint (y :: 16 word))" for x y
    using sint_range_size [of x] sint_range_size [of y] by (auto simp: int_ok_def word_size)
  show ?thesis
    using assms by (cases d) (auto split: if_splits intro!: S U I ok nonul_dec_int length_dec_word length_dec_int_word)
qed

lemma print_memb_scalar:
  assumes "(m, t, pt) \<in> set scalar_types" and "memb_of d = Some m" and "int_text d = Some s"
  shows "print_memb t = Some (m, False)" "print_memb pt = Some (m, True)"
  using assms by (auto simp: scalar_types_def) (cases d; auto)+

lemma prints_as_ok:
  assumes "prints_as w V s"
  shows "\<exists>b. AG_PrintVariable H (replicate 64 NUL) 64 V w = Some b \<and> cstr b = s"
  using assms unfolding prints_as_def
proof
  assume "\<exists>m t pt d. (m, t, pt) \<in> set scalar_types \<and> memb_of d = Some m \<and> int_text d = Some s \<and>
        (v_type V = t \<and> v_data V = d \<or> v_type V = pt \<and> load_as m V w = Some d)"
  then obtain m t pt d where st: "(m, t, pt) \<in> set scalar_types" "memb_of d = Some m" "int_text d = Some s"
    and V: "v_type V = t \<and> v_data V = d \<or> v_type V = pt \<and> load_as m V w = Some d" by blast
  show ?thesis using V print_memb_scalar [OF st] print_cval_text [OF st(3), of H] rd_memb_same [OF st(2)]
    by (auto simp: AG_PrintVariable_def)
next
  assume "v_type V \<in> {AG_VARIABLE_STRING, AG_VARIABLE_CONST_STRING, AG_VARIABLE_P_STRING, AG_VARIABLE_P_CONST_STRING} \<and>
        (\<exists>t. data_str V w = Some t \<and> s = take 63 t)"
  then obtain t where ty: "v_type V \<in> {AG_VARIABLE_STRING, AG_VARIABLE_CONST_STRING, AG_VARIABLE_P_STRING, AG_VARIABLE_P_CONST_STRING}"
    and t: "data_str V w = Some t" "s = take 63 t" by blast
  have pm: "print_memb (v_type V) = None" using ty by auto
  have nt: "nonul t"
  proof -
    obtain a c where "(case c of M_buf b \<Rightarrow> (if terminated b then Some (cstr b) else None) | M_cell _ \<Rightarrow> None) = Some t"
      using t(1) by (auto simp: data_str_def get_cstr_def bind_eq_Some_conv)
    then show ?thesis by (cases c) (auto split: if_splits)
  qed
  then have ns: "nonul (take 63 t)" by (auto simp: nonul_def dest: in_set_takeD)
  have "AG_Strlcpy (replicate 64 NUL) (t @ NUL # []) 64 = Some (str_cpy 64 t @ NUL # drop (length (str_cpy 64 t) + 1) (replicate 64 NUL), length t)"
    using nt by (subst AG_Strlcpy_spec) (simp_all add: str_cpy_def)
  then show ?thesis using t ty pm ns by (auto simp: AG_PrintVariable_def str_cpy_def)
qed

lemma subst_key_value:
  assumes "key_value w p k s"
  shows "subst_key H p k w = Some s"
proof -
  obtain ob where ob: "w_objs w p = Some ob" and s: "if k = ''name'' then s = ob_name ob
      else if k = ''class'' then s = cl_name (cl_mem (w_reg w) (ob_cls ob))
      else resolves w p k None \<and> s = [] \<or> (\<exists>v V. resolves w p k (Some v) \<and> w_vars w v = Some V \<and> prints_as w V s)"
    using assms by (auto simp: key_value_def)
  show ?thesis
  proof (cases "k = ''name'' \<or> k = ''class''")
    case True
    then show ?thesis using ob s by (auto simp: subst_key_def)
  next
    case False
    then have "resolves w p k None \<and> s = [] \<or> (\<exists>v V. resolves w p k (Some v) \<and> w_vars w v = Some V \<and> prints_as w V s)" using s by simp
    then show ?thesis
    proof
      assume "resolves w p k None \<and> s = []"
      then show ?thesis using ob False resolves_gvl [of w p k None] by (simp add: subst_key_def)
    next
      assume "\<exists>v V. resolves w p k (Some v) \<and> w_vars w v = Some V \<and> prints_as w V s"
      then obtain v V where "resolves w p k (Some v)" "w_vars w v = Some V" "prints_as w V s" by blast
      then show ?thesis using ob False resolves_gvl [of w p k "Some v"] prints_as_ok [of w V s H] by (auto simp: subst_key_def)
    qed
  qed
qed

section \<open>Properties\<close>

text \<open>
  C19: for every scalar type, a variable that is set reads back as the value, whether it is
  new, exists with the type, or is bound to memory, and has no function; the object stays well-formed and the
  variables of other names are as before.  The name fits its field.
\<close>

theorem AG_Set_then_Get:
  assumes "vars_ok w p" "world_ok w" "(m, t, pt) \<in> set scalar_types" "memb_of val = Some m"
    "length name < AG_VARIABLE_NAME_MAX" "scalar_slot w m t pt (lookup w p name)"
  shows "\<exists>v w'. FN_VARIABLE_SET m t p name val w = Some (v, w') \<and> FN_VARIABLE_GET m H p name w' = Some (val, w') \<and>
     vars_ok w' p \<and> world_ok w' \<and> (\<forall>name'. name' \<noteq> name \<longrightarrow> lookup w' p name' = lookup w p name')"
  using assms by (rule scalar_set_get)

text \<open>The sample world with an \<open>int\<close> at 15 and a buffer of 8 characters at 16.\<close>

definition var_world :: world where
  "var_world = sample_world\<lparr>w_mem := [15 \<mapsto> M_cell (C_i 3), 16 \<mapsto> M_buf (replicate 8 NUL)]\<rparr>"

lemma var_world_ok: "world_ok var_world" "events_ok var_world 0" "vars_ok var_world 0"
  "lookup var_world 0 name = None" "all_vars_ok var_world"
  by (auto simp: world_ok_def var_world_def sample_world_def blank_world_def blank_obj_def vars_ok_def lookup_def
      all_vars_ok_def split: if_splits)

definition test_hooks :: hooks where
  "test_hooks = \<lparr>hk_fuel = 10, hk_call = log_call, hk_eval = (\<lambda>_ _ w. Some (C_i 5, w)),
     hk_str = (\<lambda>_ _ b _ w. Some (0, b, w)), hk_flt = (\<lambda>_. []), hk_ptr = (\<lambda>_. [])\<rparr>"

theorem AG_Set_then_Get_witness:
  "\<exists>v w'. AG_SetInt 0 ''x'' 7 var_world = Some (v, w') \<and> AG_GetInt test_hooks 0 ''x'' w' = Some (C_i 7, w')"
  using AG_Set_then_Get [OF var_world_ok(3,1), of M_i AG_VARIABLE_INT AG_VARIABLE_P_INT "C_i 7" "''x''" test_hooks]
  by (auto simp: scalar_types_def scalar_slot_def var_world_ok AG_SetInt_def AG_GetInt_def)

text \<open>
  C22: a variable that is bound to memory is that memory: reading it gives what the program
  last stored there, and setting it stores there.  Before it is bound the variable is no string and has no function, and no
  handler waits for the event that binding posts.
\<close>

theorem AG_Bind_shares:
  assumes "vars_ok w p" "world_ok w" "events_ok w p" "(m, t, pt) \<in> set scalar_types"
    "length name < AG_VARIABLE_NAME_MAX" "w_mem w a = Some (M_cell d)" "memb_of d = Some m"
    "\<forall>V. lookup w p name = Some V \<longrightarrow> v_type V \<noteq> AG_VARIABLE_STRING \<and> (v_type V = pt \<longrightarrow> v_fn V = None)"
    "\<forall>ev \<in> set (evs_of w p). ev_name ev \<noteq> ''bound''" "length (evs_of w p) < hk_fuel H"
  shows "\<exists>v w'. FN_VARIABLE_BIND pt H p name (Some a) w = Some (v, w') \<and> w_mem w' = w_mem w \<and> vars_ok w' p \<and> world_ok w' \<and>
     (\<forall>x. memb_of x = Some m \<longrightarrow>
        FN_VARIABLE_GET m H p name (put_mem a (M_cell x) w') = Some (x, put_mem a (M_cell x) w') \<and>
        FN_VARIABLE_SET m t p name x w' = Some (v, put_mem a (M_cell x) w')) \<and>
     (\<forall>name'. name' \<noteq> name \<longrightarrow> lookup w' p name' = lookup w p name')"
  using assms by (rule bind_shares)

theorem AG_Bind_shares_witness:
  "\<exists>v w'. AG_BindInt test_hooks 0 ''x'' (Some 15) var_world = Some (v, w') \<and>
     AG_GetInt test_hooks 0 ''x'' (put_mem 15 (M_cell (C_i 4)) w') = Some (C_i 4, put_mem 15 (M_cell (C_i 4)) w')"
proof -
  have "\<forall>ev \<in> set (evs_of var_world 0). ev_name ev \<noteq> ''bound''" "length (evs_of var_world 0) < hk_fuel test_hooks"
    by (auto simp: evs_of_def var_world_def sample_world_def blank_obj_def test_hooks_def)
  moreover have cell: "w_mem var_world 15 = Some (M_cell (C_i 3))" by (simp add: var_world_def)
  ultimately obtain v w' where 1: "FN_VARIABLE_BIND AG_VARIABLE_P_INT test_hooks 0 ''x'' (Some 15) var_world = Some (v, w')"
    and 2: "\<forall>x. memb_of x = Some M_i \<longrightarrow>
        FN_VARIABLE_GET M_i test_hooks 0 ''x'' (put_mem 15 (M_cell x) w') = Some (x, put_mem 15 (M_cell x) w')"
    using AG_Bind_shares [OF var_world_ok(3,1,2), of M_i AG_VARIABLE_INT AG_VARIABLE_P_INT "''x''" 15 "C_i 3" test_hooks]
    by (auto simp: scalar_types_def var_world_ok)
  show ?thesis
    using 1 2 [rule_format, of "C_i 4"] by (auto simp: AG_BindInt_def AG_GetInt_def)
qed

text \<open>
  C20: \<open>AG_SetString\<close> and \<open>AG_GetString\<close>: the text reads back, cut to the size of the buffer
  where the variable is bound to one, and cut again to the caller's buffer; the result is
  the length before the second cut; no buffer is overrun.  The variable is new or without a function, and the name fits its field.
\<close>

theorem AG_SetString_then_GetString:
  assumes "vars_ok w p" "world_ok w" "nonul s" "length name < AG_VARIABLE_NAME_MAX"
    "string_slot w (lookup w p name)" "0 < dstSize" "dstSize \<le> length dst"
  shows "\<exists>v w' dst'. AG_SetString p name s w = Some (v, w') \<and>
     AG_GetString H p name dst dstSize w' = Some (length (kept (lookup w p name) s), dst', w') \<and>
     cstr dst' = take (dstSize - 1) (kept (lookup w p name) s) \<and>
     vars_ok w' p \<and> world_ok w' \<and> (\<forall>name'. name' \<noteq> name \<longrightarrow> lookup w' p name' = lookup w p name')"
  using assms by (rule string_set_get)

theorem AG_SetString_then_GetString_witness:
  "\<exists>v w' dst'. AG_SetString 0 ''x'' ''hello'' var_world = Some (v, w') \<and>
     AG_GetString test_hooks 0 ''x'' (replicate 4 NUL) 4 w' = Some (5, dst', w') \<and> cstr dst' = ''hel''"
  using AG_SetString_then_GetString [OF var_world_ok(3,1), of "''hello''" "''x''" 4 "replicate 4 NUL" test_hooks]
  by (auto simp: nonul_def var_world_ok string_slot_def kept_def)

text \<open>
  C21: the look-up of a variable returns the end of its chain of references, NULL where
  the chain leaves the defined names, and nothing else.
\<close>

theorem AG_GetVariableLocked_resolves:
  assumes "all_vars_ok w"
  shows "AG_GetVariableLocked w p name = Some r \<longleftrightarrow> resolves w p name r"
  using assms gvl_resolves resolves_gvl by blast

definition ref_world :: world where
  "ref_world = sample_world\<lparr>
     w_objs := [0 \<mapsto> blank_obj\<lparr>ob_vars := [5]\<rparr>, 1 \<mapsto> blank_obj\<lparr>ob_vars := [6, 7]\<rparr>],
     w_events := Map.empty,
     w_vars := [5 \<mapsto> blank_var\<lparr>v_name := ''a'', v_type := AG_VARIABLE_P_VARIABLE, v_data := C_p (Some 1), v_info := I_ref (Some ''b'')\<rparr>,
                6 \<mapsto> blank_var\<lparr>v_name := ''b'', v_type := AG_VARIABLE_INT, v_data := C_i 9, v_fn := Some 77\<rparr>,
                7 \<mapsto> blank_var\<lparr>v_name := ''c'', v_type := AG_VARIABLE_P_VARIABLE, v_data := C_p (Some 1), v_info := I_ref (Some ''c'')\<rparr>]\<rparr>"

lemma ref_world_ok: "all_vars_ok ref_world"
  by (auto simp: all_vars_ok_def ref_world_def vars_ok_def blank_obj_def split: if_splits)

lemma is_varI:
  "w_objs w p = Some ob \<Longrightarrow> ob_vars ob = us @ v # vs \<Longrightarrow> w_vars w v = Some V \<Longrightarrow> v_name V = name \<Longrightarrow>
   distinct (us @ v # vs) \<Longrightarrow> \<forall>x \<in> set (us @ v # vs). w_vars w x \<noteq> None \<Longrightarrow>
   \<forall>x \<in> set us. v_name (the (w_vars w x)) \<noteq> name \<Longrightarrow> is_var w p name v V"
proof -
  assume a: "w_objs w p = Some ob" "ob_vars ob = us @ v # vs" "w_vars w v = Some V" "v_name V = name"
    "distinct (us @ v # vs)" "\<forall>x \<in> set (us @ v # vs). w_vars w x \<noteq> None"
    "\<forall>x \<in> set us. v_name (the (w_vars w x)) \<noteq> name"
  then have u: "\<forall>x \<in> set us. \<exists>r. w_vars w x = Some r \<and> v_name r \<noteq> name" by fastforce
  show ?thesis unfolding is_var_def
    by (rule exI [of _ ob], rule exI [of _ us], rule exI [of _ vs]) (use a u in simp)
qed

lemma ref_world_vars:
  "is_var ref_world 0 ''a'' 5 (blank_var\<lparr>v_name := ''a'', v_type := AG_VARIABLE_P_VARIABLE, v_data := C_p (Some 1), v_info := I_ref (Some ''b'')\<rparr>)"
  "is_var ref_world 1 ''b'' 6 (blank_var\<lparr>v_name := ''b'', v_type := AG_VARIABLE_INT, v_data := C_i 9, v_fn := Some 77\<rparr>)"
  "is_var ref_world 1 ''c'' 7 (blank_var\<lparr>v_name := ''c'', v_type := AG_VARIABLE_P_VARIABLE, v_data := C_p (Some 1), v_info := I_ref (Some ''c'')\<rparr>)"
proof -
  show "is_var ref_world 0 ''a'' 5 (blank_var\<lparr>v_name := ''a'', v_type := AG_VARIABLE_P_VARIABLE, v_data := C_p (Some 1), v_info := I_ref (Some ''b'')\<rparr>)"
    by (rule is_varI [of _ _ "blank_obj\<lparr>ob_vars := [5]\<rparr>" "[]" _ "[]"]) (simp_all add: ref_world_def)
  show "is_var ref_world 1 ''b'' 6 (blank_var\<lparr>v_name := ''b'', v_type := AG_VARIABLE_INT, v_data := C_i 9, v_fn := Some 77\<rparr>)"
    by (rule is_varI [of _ _ "blank_obj\<lparr>ob_vars := [6, 7]\<rparr>" "[]" _ "[7]"]) (simp_all add: ref_world_def)
  show "is_var ref_world 1 ''c'' 7 (blank_var\<lparr>v_name := ''c'', v_type := AG_VARIABLE_P_VARIABLE, v_data := C_p (Some 1), v_info := I_ref (Some ''c'')\<rparr>)"
    by (rule is_varI [of _ _ "blank_obj\<lparr>ob_vars := [6, 7]\<rparr>" "[6]" _ "[]"]) (simp_all add: ref_world_def)
qed

theorem AG_GetVariableLocked_resolves_witness:
  "AG_GetVariableLocked ref_world 0 ''a'' = Some (Some 6)"
proof -
  have "resolves ref_world 0 ''a'' (Some 6)"
    by (rule resolves.reference [OF ref_world_vars(1) _ _ resolves.variable [OF ref_world_vars(2)]])
       (simp_all add: ref_of_def)
  then show ?thesis using AG_GetVariableLocked_resolves [OF ref_world_ok] by blast
qed

text \<open>
  When the references of the program go down in some order and lead to existing
  objects, every look-up returns.
\<close>

theorem AG_GetVariableLocked_terminates:
  assumes "all_vars_ok w" "w_objs w p \<noteq> None"
    and "\<forall>p name v V q key. is_var w p name v V \<longrightarrow> v_type V = AG_VARIABLE_P_VARIABLE \<longrightarrow>
       ref_of V = Some (q, key) \<longrightarrow> rank (q, key) < (rank (p, name) :: nat)"
    and "\<forall>p name v V. is_var w p name v V \<longrightarrow> v_type V = AG_VARIABLE_P_VARIABLE \<longrightarrow>
       (\<exists>q key. ref_of V = Some (q, key) \<and> w_objs w q \<noteq> None)"
  shows "\<exists>r. AG_GetVariableLocked w p name = Some r"
  using ranked_resolves [OF assms] resolves_gvl by blast

theorem AG_GetVariableLocked_terminates_witness:
  "\<exists>r. AG_GetVariableLocked var_world 0 ''x'' = Some r"
proof -
  have n: "\<not> is_var var_world p name v V" for p name v V
    by (auto simp: is_var_def var_world_def sample_world_def blank_obj_def split: if_splits)
  show ?thesis
    by (rule AG_GetVariableLocked_terminates [of _ _ "\<lambda>_. 0"])
       (auto simp: n var_world_ok, simp add: var_world_def sample_world_def)
qed

text \<open>
  References that only lead to each other make every look-up of them run for ever.
\<close>

theorem AG_GetVariableLocked_cycle:
  assumes "(p, name) \<in> C" "\<forall>(p, name) \<in> C. \<exists>v V q key. is_var w p name v V \<and> v_type V = AG_VARIABLE_P_VARIABLE \<and>
           ref_of V = Some (q, key) \<and> (q, key) \<in> C"
    and "all_vars_ok w"
  shows "AG_GetVariableLocked w p name = None"
  using assms by (rule cycle_diverges)

theorem AG_GetVariableLocked_cycle_witness: "AG_GetVariableLocked ref_world 1 ''c'' = None"
  by (rule AG_GetVariableLocked_cycle [of _ _ "{(1, ''c'')}", OF _ _ ref_world_ok])
     (use ref_world_vars(3) in \<open>auto simp: ref_of_def intro!: exI\<close>)

text \<open>
  C23: \<open>AG_VariableSubst\<close> replaces every reference \<open>$(key)\<close> by what stands for the key (\<open>key_value\<close>: the name of the object, the name of its
  class, nothing for a variable that is not defined, the decimal text of an integer or the first 63 characters of a string at the end of the
  chain of references), drops the references with a key of \<open>AG_VARIABLE_NAME_MAX - 1\<close> characters or more, copies the rest, and cuts the whole to the
  buffer.  Of a variable with a function it is the value stored last, since none is called.  A dollar sign of the text may not be followed by
  a parenthesis, and variables of other types (flags, floating point numbers, pointers, functions) and the least \<open>int\<close>, which is not printed, are not covered.
\<close>

theorem AG_VariableSubst_expands:
  assumes "parts_ok ps" "0 < len"
    and "\<forall>k. Key k \<in> set ps \<longrightarrow> length k + 1 < AG_VARIABLE_NAME_MAX \<longrightarrow> key_value w p k (f k)"
  shows "AG_VariableSubst H p (concat (map part_text ps)) len w = Some (take (len - 1) (concat (map (part_val f) ps)))"
  using assms(1,2) by (rule AG_VariableSubst_spec) (use assms(3) subst_key_value in blast)

definition subst_world :: world where
  "subst_world = sample_world\<lparr>w_objs := [0 \<mapsto> blank_obj\<lparr>ob_name := ''obj'', ob_vars := [5, 6, 7]\<rparr>],
     w_vars := [5 \<mapsto> blank_var\<lparr>v_name := ''ref'', v_type := AG_VARIABLE_P_VARIABLE, v_data := C_p (Some 0), v_info := I_ref (Some ''num'')\<rparr>,
                6 \<mapsto> blank_var\<lparr>v_name := ''num'', v_type := AG_VARIABLE_INT, v_data := C_i (- 9)\<rparr>,
                7 \<mapsto> blank_var\<lparr>v_name := ''str'', v_type := AG_VARIABLE_P_STRING, v_data := C_p (Some 30)\<rparr>],
     w_mem := [30 \<mapsto> M_buf (''hi'' @ [NUL])]\<rparr>"

theorem AG_VariableSubst_expands_witness:
  "AG_VariableSubst test_hooks 0 ''a$(nothing)$$(name)$(ref),$(str)'' 9 subst_world = Some ''a$obj-9,''"
proof -
  let ?f = "\<lambda>k. if k = ''name'' then ''obj'' else if k = ''ref'' then ''-9'' else if k = ''str'' then ''hi'' else []"
  have a: "is_var subst_world 0 ''ref'' 5 (blank_var\<lparr>v_name := ''ref'', v_type := AG_VARIABLE_P_VARIABLE, v_data := C_p (Some 0), v_info := I_ref (Some ''num'')\<rparr>)"
    by (rule is_varI [of _ _ "blank_obj\<lparr>ob_name := ''obj'', ob_vars := [5, 6, 7]\<rparr>" "[]" 5 "[6, 7]"]) (simp_all add: subst_world_def)
  have b: "is_var subst_world 0 ''num'' 6 (blank_var\<lparr>v_name := ''num'', v_type := AG_VARIABLE_INT, v_data := C_i (- 9)\<rparr>)"
    by (rule is_varI [of _ _ "blank_obj\<lparr>ob_name := ''obj'', ob_vars := [5, 6, 7]\<rparr>" "[5]" 6 "[7]"]) (simp_all add: subst_world_def)
  have c: "is_var subst_world 0 ''str'' 7 (blank_var\<lparr>v_name := ''str'', v_type := AG_VARIABLE_P_STRING, v_data := C_p (Some 30)\<rparr>)"
    by (rule is_varI [of _ _ "blank_obj\<lparr>ob_name := ''obj'', ob_vars := [5, 6, 7]\<rparr>" "[5, 6]" 7 "[]"]) (simp_all add: subst_world_def)
  have o: "w_objs subst_world 0 = Some (blank_obj\<lparr>ob_name := ''obj'', ob_vars := [5, 6, 7]\<rparr>)" by (simp add: subst_world_def)
  have d: "no_var subst_world 0 ''nothing''" by (simp add: no_var_def subst_world_def)
  have "resolves subst_world 0 ''ref'' (Some 6)"
    by (rule resolves.reference [OF a _ _ resolves.variable [OF b]]) (simp_all add: ref_of_def)
  moreover have "prints_as subst_world (blank_var\<lparr>v_name := ''num'', v_type := AG_VARIABLE_INT, v_data := C_i (- 9)\<rparr>) ''-9''"
  proof -
    have "int_text (C_i (- 9)) = Some ''-9''" by code_simp
    then show ?thesis unfolding prints_as_def by (intro disjI1 exI [of _ M_i] exI [of _ AG_VARIABLE_INT] exI [of _ AG_VARIABLE_P_INT] exI [of _ "C_i (- 9)"]) (simp add: scalar_types_def)
  qed
  ultimately have ref: "key_value subst_world 0 ''ref'' ''-9''" 
    by (intro key_valueI [OF o _ _ _ is_var_ptr [OF b]]) simp_all
  have "resolves subst_world 0 ''str'' (Some 7)" by (rule resolves.variable [OF c]) simp
  moreover have "prints_as subst_world (blank_var\<lparr>v_name := ''str'', v_type := AG_VARIABLE_P_STRING, v_data := C_p (Some 30)\<rparr>) ''hi''"
    unfolding prints_as_def by (rule disjI2) (simp add: data_str_def get_cstr_def subst_world_def terminated_def cstr_def)
  ultimately have str: "key_value subst_world 0 ''str'' ''hi''" 
    by (intro key_valueI [OF o _ _ _ is_var_ptr [OF c]]) simp_all
  have no: "key_value subst_world 0 ''nothing'' []" using resolves.undefined [OF d] by (simp add: key_value_def subst_world_def)
  have name: "key_value subst_world 0 ''name'' ''obj''" by (simp add: key_value_def subst_world_def)
  let ?ps = "[Lit (CHR ''a''), Key ''nothing'', Lit (CHR ''$''), Key ''name'', Key ''ref'', Lit (CHR '',''), Key ''str'']"
  have "AG_VariableSubst test_hooks 0 (concat (map part_text ?ps)) 9 subst_world = Some (take (9 - 1) (concat (map (part_val ?f) ?ps)))"
    by (rule AG_VariableSubst_expands) (use ref str no name in \<open>auto\<close>)
  moreover have "concat (map part_text ?ps) = ''a$(nothing)$$(name)$(ref),$(str)''" by code_simp
  moreover have "take (9 - 1) (concat (map (part_val ?f) ?ps)) = ''a$obj-9,''" by code_simp
  ultimately show ?thesis by simp
qed

text \<open>
  Setting a text variable that does not exist yet stores through the null pointer
  that the new variable holds.
\<close>

theorem AG_SetText_null:
  assumes "vars_ok w p" "world_ok w" "lookup w p name = None" "length name < AG_VARIABLE_NAME_MAX"
  shows "AG_SetText p name x w = None"
  using assms(1)
proof (cases rule: vars_ok_cases [of w p name])
  case None
  obtain w1 V where n: "new_var p name AG_VARIABLE_P_TEXT w = Some (w_brk w, w1)" "is_var w1 p name (w_brk w) V"
    "V = (AG_InitVariable AG_VARIABLE_P_TEXT blank_var)\<lparr>v_name := name\<rparr>"
    using new_var_spec [OF None(1) assms(2,4)] by blast
  then show ?thesis using is_var_ptr [OF n(2)]
    by (simp add: AG_SetText_def FN_VARIABLE_SET_def fetch_new [OF None(1)] AG_InitVariable_def store_as_def vt_def)
qed (use assms(3) in auto)

theorem AG_SetText_null_witness: "AG_SetText 0 ''x'' (Some 3) var_world = None"
  using AG_SetText_null [OF var_world_ok(3,1,4)] by simp

text \<open>
  Reading a variable that is defined by a function through a reference does not call
  the function: its arguments are looked for in the object of the reference, and the last
  stored value is returned.
\<close>

theorem AG_GetInt_stale:
  assumes "is_var w p name v V" "v_type V = AG_VARIABLE_P_VARIABLE" "ref_of V = Some (q, key)"
    and "is_var w q key v2 V2" "v_type V2 = AG_VARIABLE_INT" "v_fn V2 = Some f" "v_data V2 = C_i x"
    and "events_ok w p" "\<forall>ev \<in> set (evs_of w p). ev_name ev \<noteq> get_ev_name key"
  shows "AG_GetInt H p name w = Some (C_i x, w)"
proof -
  obtain ob where ob: "w_objs w p = Some ob" using assms(8) by (auto split: option.splits)
  have "find_event w ob (get_ev_name key) = Some None"
    using find_event_split [OF assms(8) ob, of "get_ev_name key"] assms(9) ob
    by (auto simp: evs_of_def)
  moreover have "AG_GetVariableLocked w p name = Some (Some v2)"
    using gvl_ref [OF assms(1-3)] gvl_var [OF assms(4)] assms(5) by simp
  ultimately show ?thesis
    using is_var_ptr [OF assms(4)] is_var_name [OF assms(4)] assms(5-7) ob
    by (simp add: AG_GetInt_def FN_VARIABLE_GET_def FN_VARIABLE_GETFN_def vt_def rd_memb_def)
qed

theorem AG_GetInt_stale_witness: "AG_GetInt test_hooks 0 ''a'' ref_world = Some (C_i 9, ref_world)"
  by (rule AG_GetInt_stale [OF ref_world_vars(1) _ _ ref_world_vars(2)])
     (simp_all add: ref_of_def evs_of_def ref_world_def blank_obj_def)

text \<open>
  Two variables of type \<open>Uint8 *\<close> compare equal when the lowest bytes of the two
  addresses agree: the comparison uses the size of what the pointers lead to.
\<close>

theorem AG_CompareVariables_addresses:
  assumes "v_type V = AG_VARIABLE_P_UINT8" "v_type V' = AG_VARIABLE_P_UINT8" "v_data V = C_p (Some a)"
    "v_data V' = C_p (Some b)"
  shows "\<not> AG_CompareVariables V V' \<longleftrightarrow> a mod 256 = b mod 256"
  using assms by (simp add: AG_CompareVariables_def vt_def)

theorem AG_CompareVariables_addresses_witness:
  "\<not> AG_CompareVariables (blank_var\<lparr>v_type := AG_VARIABLE_P_UINT8, v_data := C_p (Some 1000)\<rparr>)
       (blank_var\<lparr>v_type := AG_VARIABLE_P_UINT8, v_data := C_p (Some 1256)\<rparr>)"
  using AG_CompareVariables_addresses [of "blank_var\<lparr>v_type := AG_VARIABLE_P_UINT8, v_data := C_p (Some 1000)\<rparr>"
    "blank_var\<lparr>v_type := AG_VARIABLE_P_UINT8, v_data := C_p (Some 1256)\<rparr>" 1000 1256] by simp

text \<open>
  A variable bound with \<open>AG_BindConstString\<close> cannot be read with \<open>AG_GetString\<close>, which
  takes the address of the program's pointer for the text.
\<close>

theorem AG_BindConstString_misread:
  assumes "vars_ok w p" "world_ok w" "events_ok w p" "length name < AG_VARIABLE_NAME_MAX"
    "lookup w p name = None" "cell_str (Some a) w = Some txt"
    "\<forall>ev \<in> set (evs_of w p). ev_name ev \<noteq> ''bound''" "length (evs_of w p) < hk_fuel H"
  shows "\<exists>v w'. AG_BindConstString H p name (Some a) w = Some (v, w') \<and> AG_GetString H p name dst dstSize w' = None"
proof -
  obtain v V w1 where f: "AG_FetchVariableOfType p name AG_VARIABLE_P_CONST_STRING w = Some (v, w1)" "is_var w1 p name v V"
     "v_type V = AG_VARIABLE_P_CONST_STRING" "v_fn V = None"
     "w_mem w1 = w_mem w" "evs_of w1 p = evs_of w p" "events_ok w1 p = events_ok w p"
    using fetch_of_type [OF assms(1,2,4), of AG_VARIABLE_P_CONST_STRING] assms(5) by auto
  define V' where "V' = V\<lparr>v_data := C_Cs (Some a), v_info := I_size (length txt + 1)\<rparr>"
  have V': "v_type V' = AG_VARIABLE_P_CONST_STRING" "v_fn V' = None" "v_name V' = name" "v_data V' = C_Cs (Some a)"
    using f is_var_name [OF f(2)] by (simp_all add: V'_def)
  define w' where "w' = put_var v V' w1"
  have iv: "is_var w' p name v V'" unfolding w'_def by (rule is_var_put [OF f(2) V'(3)])
  have "AG_PostEvent (hk_fuel H) (hk_call H) None p ''bound'' (Some ''%p'') [C_p (Some v)] w' = Some w'"
    using assms(3,7,8) f(6,7) by (intro post_none) (simp_all add: w'_def events_put_var del: events_ok.simps)
  then have "AG_BindConstString H p name (Some a) w = Some (v, w')"
    using assms(6) f(1) is_var_ptr [OF f(2)]
    by (simp add: AG_BindConstString_def bind_info_def post_bound_def V'_def w'_def)
  moreover have "\<exists>d. w_mem w a = Some (M_cell d)"
    using assms(6) by (cases "w_mem w a"; cases "the (w_mem w a)") (auto simp: cell_str_def)
  then have "\<exists>d. w_mem w' a = Some (M_cell d)" using f(5) by (simp add: w'_def)
  ultimately show ?thesis
    using gvl_var [OF iv] V' is_var_ptr [OF iv] by (auto simp: AG_GetString_def data_str_def get_cstr_def)
qed

theorem AG_BindConstString_misread_witness:
  "\<exists>v w'. AG_BindConstString test_hooks 0 ''x'' (Some 15) (put_mem 15 (M_cell (C_Cs (Some 16))) var_world) = Some (v, w') \<and>
     AG_GetString test_hooks 0 ''x'' [NUL] 1 w' = None"
  by (rule AG_BindConstString_misread [of _ _ _ _ "[]"])
     (auto simp: vars_ok_def world_ok_def var_world_def sample_world_def blank_world_def blank_obj_def lookup_def
        cell_str_def get_cstr_def terminated_def cstr_def evs_of_def test_hooks_def split: if_splits)

end
