(* ===== verification/Timers.thy ===== *)
theory Timers
  imports Events Variables
begin

text \<open>
  The timers of core/timeout.c and the scheduled events of core/event.c.

  The timers of an object are a queue in the order of their expiration (the timing wheel)
  when the event source has no timers of its own, and an unordered list otherwise;
  \<open>agTimerObjQ\<close> (\<open>w_timerObjQ\<close>) holds the objects that have timers.  The event source is a
  parameter: whether it has timers, the routines it has for them, the clock, and the
  address of \<open>agTimerMgr\<close>, the object of timers without one.  Ticks are 32-bit words and
  wrap around.
\<close>

record AG_EventSource =
  src_timer_cap :: bool
  src_addTimerFn :: "(nat \<Rightarrow> 32 word \<Rightarrow> bool \<Rightarrow> world \<Rightarrow> (bool \<times> world) option) option"
  src_delTimerFn :: "(nat \<Rightarrow> world \<Rightarrow> world option) option"
  src_ticks :: "world \<Rightarrow> 32 word"
  src_mgr :: nat

type_synonym timer_fns = "nat \<Rightarrow> nat \<Rightarrow> AG_Event \<Rightarrow> world \<Rightarrow> (32 word \<times> world) option"

section \<open>Timer structures\<close>

definition blank_timer :: AG_Timer where
  "blank_timer = \<lparr>to_id = 0, to_obj = None, to_flags = 0, to_tSched = 0, to_ival = 0, to_fn = None,
     to_fnEvent = blank_event, to_name = []\<rparr>"

definition AG_InitTimer :: "string option \<Rightarrow> 32 word \<Rightarrow> AG_Timer \<Rightarrow> AG_Timer" where
  "AG_InitTimer name flags T = T\<lparr>
     to_name := (case name of None \<Rightarrow> [] | Some s \<Rightarrow> str_cpy 16 s),
     to_id := -1, to_obj := None, to_flags := flags, to_ival := 0, to_tSched := 0, to_fn := None\<rparr>"

definition timer_obj :: "AG_EventSource \<Rightarrow> nat option \<Rightarrow> nat" where
  "timer_obj src p = (case p of None \<Rightarrow> src_mgr src | Some q \<Rightarrow> q)"

definition set_timers :: "nat \<Rightarrow> nat list \<Rightarrow> world \<Rightarrow> world option" where
  "set_timers p ts w = do { ob \<leftarrow> w_objs w p; Some (put_obj p (ob\<lparr>ob_timers := ts\<rparr>) w) }"

definition timers_of :: "nat \<Rightarrow> world \<Rightarrow> nat list option" where
  "timers_of p w = do { ob \<leftarrow> w_objs w p; Some (ob_timers ob) }"

text \<open>\<open>TAILQ_INSERT_TAIL(&agTimerObjQ, ob, tobjs)\<close> and its inverse.\<close>

definition queue_obj :: "nat \<Rightarrow> world \<Rightarrow> world option" where
  "queue_obj p w = do { q \<leftarrow> q_insert_tail p (w_timerObjQ w); Some (w\<lparr>w_timerObjQ := q\<rparr>) }"

definition unqueue_obj :: "nat \<Rightarrow> world \<Rightarrow> world option" where
  "unqueue_obj p w = do { q \<leftarrow> q_remove p (w_timerObjQ w); Some (w\<lparr>w_timerObjQ := q\<rparr>) }"

section \<open>Adding and changing timers\<close>

text \<open>
  The search of the timing wheel from the rest \<open>cur\<close> of the list: \<open>Found y\<close>, a timer that
  expires later; \<open>Self\<close>, the timer itself; \<open>End\<close>.
\<close>

datatype wheel_pos = Found nat | Self | End

fun wheel_search :: "world \<Rightarrow> nat \<Rightarrow> 32 word \<Rightarrow> nat list \<Rightarrow> wheel_pos option" where
  "wheel_search w to tSched [] = Some End"
| "wheel_search w to tSched (toOther # ts) =
     (if toOther = to then Some Self
      else do {
        T \<leftarrow> w_timers w toOther;
        if tSched < to_tSched T then Some (Found toOther) else wheel_search w to tSched ts
      })"

definition wheel_place :: "nat \<Rightarrow> wheel_pos \<Rightarrow> nat list \<Rightarrow> nat list option" where
  "wheel_place to pos ts = (case pos of
     Found y \<Rightarrow> q_insert_before y to ts
   | End \<Rightarrow> q_insert_tail to ts
   | Self \<Rightarrow> None)"

text \<open>
  \<open>reinsert\<close>: when the search meets the timer itself, it is removed and the search starts
  over.  The result says whether that happened.
\<close>

definition wheel_insert :: "world \<Rightarrow> nat \<Rightarrow> 32 word \<Rightarrow> nat list \<Rightarrow> (bool \<times> nat list) option" where
  "wheel_insert w to tSched ts = do {
     pos \<leftarrow> wheel_search w to tSched ts;
     (if pos = Self then do {
        ts \<leftarrow> q_remove to ts;
        pos \<leftarrow> wheel_search w to tSched ts;
        ts \<leftarrow> wheel_place to pos ts;
        Some (True, ts)
      } else do {
        ts \<leftarrow> wheel_place to pos ts;
        Some (False, ts)
      })
   }"

text \<open>The two ways to enter a timer; \<open>newTimer\<close> and the world.\<close>

definition add_unordered :: "nat \<Rightarrow> nat \<Rightarrow> world \<Rightarrow> (bool \<times> world) option" where
  "add_unordered p to w = do {
     T \<leftarrow> w_timers w to;
     (case to_obj T of
        None \<Rightarrow> do {
          ts \<leftarrow> timers_of p w;
          w \<leftarrow> (if ts = [] then queue_obj p w else Some w);
          ts \<leftarrow> q_insert_tail to ts;
          w \<leftarrow> set_timers p ts w;
          Some (True, put_timer to (T\<lparr>to_obj := Some p, to_tSched := 0\<rparr>) w)
        }
      | Some q \<Rightarrow> if q \<noteq> p then None else Some (False, w))
   }"

definition add_wheel :: "AG_EventSource \<Rightarrow> nat \<Rightarrow> nat \<Rightarrow> 32 word \<Rightarrow> world \<Rightarrow> (bool \<times> world) option" where
  "add_wheel src p to ival w = do {
     T \<leftarrow> w_timers w to;
     (newTimer, T) \<leftarrow> (case to_obj T of
         None \<Rightarrow> Some (True, T\<lparr>to_obj := Some p\<rparr>)
       | Some q \<Rightarrow> if q \<noteq> p then None else Some (False, T));
     ts \<leftarrow> timers_of p w;
     w \<leftarrow> (if ts = [] then queue_obj p w else Some w);
     let tSched = src_ticks src w + ival;
     let w = put_timer to (T\<lparr>to_tSched := tSched\<rparr>) w;
     (again, ts) \<leftarrow> wheel_insert w to tSched ts;
     w \<leftarrow> set_timers p ts w;
     T \<leftarrow> w_timers w to;
     Some (newTimer \<and> \<not> again, put_timer to (T\<lparr>to_ival := ival, to_id := 0\<rparr>) w)
   }"

text \<open>The result is 0 or -1; changing the object of a timer is fatal.\<close>

definition AG_AddTimer ::
  "AG_EventSource \<Rightarrow> nat option \<Rightarrow> nat \<Rightarrow> 32 word \<Rightarrow> nat option \<Rightarrow> string option \<Rightarrow> cval list \<Rightarrow> world \<Rightarrow>
   (int \<times> world) option" where
  "AG_AddTimer src p to ival fn fmt ap w = do {
     let ob = timer_obj src p;
     (newTimer, w) \<leftarrow> (if src_timer_cap src then add_unordered ob to w else add_wheel src ob to ival w);
     T \<leftarrow> w_timers w to;
     ev \<leftarrow> AG_EventInit (to_fnEvent T);
     V \<leftarrow> rd (ev_argv ev) 0;
     argv \<leftarrow> wr (ev_argv ev) 0 (V\<lparr>v_data := C_p (Some ob)\<rparr>);
     ev \<leftarrow> GET_ARGS fmt ap (ev\<lparr>ev_argv := argv\<rparr>);
     let w = put_timer to (T\<lparr>to_fn := fn, to_fnEvent := ev\<lparr>ev_argc0 := ev_argc ev\<rparr>\<rparr>) w;
     (ok, w) \<leftarrow> (case src_addTimerFn src of None \<Rightarrow> Some (True, w) | Some f \<Rightarrow> f to ival newTimer w);
     if ok then Some (0, w)
     else do {
       T \<leftarrow> w_timers w to;
       let w = put_timer to (T\<lparr>to_obj := None\<rparr>) w;
       ts \<leftarrow> timers_of ob w;
       ts \<leftarrow> q_remove to ts;
       w \<leftarrow> set_timers ob ts w;
       w \<leftarrow> (if ts = [] then unqueue_obj ob w else Some w);
       Some (-1, w)
     }
   }"

definition AG_AddTimerAuto ::
  "AG_EventSource \<Rightarrow> nat option \<Rightarrow> 32 word \<Rightarrow> nat option \<Rightarrow> string option \<Rightarrow> cval list \<Rightarrow> world \<Rightarrow>
   (nat option \<times> world) option" where
  "AG_AddTimerAuto src p ival fn fmt ap w = do {
     let ob = timer_obj src p;
     let (to, w) = fresh w;
     let w = put_timer to (AG_InitTimer (Some ''auto'') AG_TIMER_AUTO_FREE blank_timer) w;
     (rv, w) \<leftarrow> AG_AddTimer src (Some ob) to ival fn None [] w;
     if rv = -1 then Some (None, w\<lparr>w_timers := (w_timers w)(to := None)\<rparr>)
     else do {
       T \<leftarrow> w_timers w to;
       ev \<leftarrow> GET_ARGS fmt ap (to_fnEvent T);
       Some (Some to, put_timer to (T\<lparr>to_fnEvent := ev\<lparr>ev_argc0 := ev_argc ev\<rparr>\<rparr>) w)
     }
   }"

definition AG_ResetTimer ::
  "AG_EventSource \<Rightarrow> nat option \<Rightarrow> nat \<Rightarrow> 32 word \<Rightarrow> world \<Rightarrow> (int \<times> world) option" where
  "AG_ResetTimer src p to ival w = do {
     let ob = timer_obj src p;
     (ok, w) \<leftarrow> (case src_addTimerFn src of None \<Rightarrow> Some (True, w) | Some f \<Rightarrow> f to ival False w);
     if \<not> ok then Some (-1, w)
     else do {
       w \<leftarrow> (if src_timer_cap src then Some w
            else do {
              T \<leftarrow> w_timers w to;
              let tSched = src_ticks src w + ival;
              let w = put_timer to (T\<lparr>to_tSched := tSched\<rparr>) w;
              ts \<leftarrow> timers_of ob w;
              ts \<leftarrow> q_remove to ts;
              pos \<leftarrow> wheel_search w to tSched ts;
              ts \<leftarrow> wheel_place to pos ts;
              set_timers ob ts w
            });
       T \<leftarrow> w_timers w to;
       Some (0, put_timer to (T\<lparr>to_ival := ival\<rparr>) w)
     }
   }"

section \<open>Cancelling timers\<close>

definition AG_TimerIsRunning :: "AG_EventSource \<Rightarrow> nat option \<Rightarrow> nat \<Rightarrow> world \<Rightarrow> bool option" where
  "AG_TimerIsRunning src p to w = do {
     ts \<leftarrow> timers_of (timer_obj src p) w;
     Some (to \<in> set ts)
   }"

definition AG_DelTimer :: "AG_EventSource \<Rightarrow> nat option \<Rightarrow> nat \<Rightarrow> world \<Rightarrow> world option" where
  "AG_DelTimer src p to w = do {
     let ob = timer_obj src p;
     ts \<leftarrow> timers_of ob w;
     if to \<notin> set ts then Some w
     else do {
       w \<leftarrow> (case src_delTimerFn src of None \<Rightarrow> Some w | Some f \<Rightarrow> f to w);
       T \<leftarrow> w_timers w to;
       let w = put_timer to (T\<lparr>to_id := -1, to_obj := None\<rparr>) w;
       ts \<leftarrow> timers_of ob w;
       ts \<leftarrow> q_remove to ts;
       w \<leftarrow> set_timers ob ts w;
       w \<leftarrow> (if ts = [] then unqueue_obj ob w else Some w);
       Some (if to_flags T AND AG_TIMER_AUTO_FREE \<noteq> 0 then w\<lparr>w_timers := (w_timers w)(to := None)\<rparr> else w)
     }
   }"

text \<open>The loop of \<open>AG_DelTimers\<close>, which saves the successor before each cancellation.\<close>

fun del_loop :: "nat \<Rightarrow> AG_EventSource \<Rightarrow> nat \<Rightarrow> nat option \<Rightarrow> world \<Rightarrow> world option" where
  "del_loop 0 src p cur w = None"
| "del_loop (Suc n) src p cur w = (case cur of
     None \<Rightarrow> Some w
   | Some to \<Rightarrow> do {
       ts \<leftarrow> timers_of p w;
       toNext \<leftarrow> next_of to ts;
       w \<leftarrow> AG_DelTimer src (Some p) to w;
       del_loop n src p toNext w
     })"

definition AG_DelTimers :: "nat \<Rightarrow> AG_EventSource \<Rightarrow> nat \<Rightarrow> world \<Rightarrow> world option" where
  "AG_DelTimers n src p w = do {
     ts \<leftarrow> timers_of p w;
     w \<leftarrow> del_loop n src p (first_of ts) w;
     set_timers p [] w
   }"

section \<open>Running timers\<close>

fun process_obj :: "nat \<Rightarrow> AG_EventSource \<Rightarrow> timer_fns \<Rightarrow> 32 word \<Rightarrow> nat \<Rightarrow> nat option \<Rightarrow> world \<Rightarrow> world option" where
  "process_obj 0 src call t p cur w = None"
| "process_obj (Suc n) src call t p cur w = (case cur of
     None \<Rightarrow> Some w
   | Some to \<Rightarrow> do {
       ts \<leftarrow> timers_of p w;
       toNext \<leftarrow> next_of to ts;
       T \<leftarrow> w_timers w to;
       if 0 < sint (to_tSched T - t) then process_obj n src call t p toNext w
       else do {
         f \<leftarrow> to_fn T;
         (rv, w) \<leftarrow> call f to (to_fnEvent T) w;
         if 0 < rv then do {
           (r, w) \<leftarrow> AG_ResetTimer src (Some p) to rv w;
           ts \<leftarrow> timers_of p w;
           process_obj n src call t p (first_of ts) w
         } else do {
           w \<leftarrow> AG_DelTimer src (Some p) to w;
           process_obj n src call t p toNext w
         }
       }
     })"

fun process_objs :: "nat \<Rightarrow> AG_EventSource \<Rightarrow> timer_fns \<Rightarrow> 32 word \<Rightarrow> nat option \<Rightarrow> world \<Rightarrow> world option" where
  "process_objs 0 src call t cur w = None"
| "process_objs (Suc n) src call t cur w = (case cur of
     None \<Rightarrow> Some w
   | Some p \<Rightarrow> do {
       obNext \<leftarrow> next_of p (w_timerObjQ w);
       ts \<leftarrow> timers_of p w;
       w \<leftarrow> process_obj n src call t p (first_of ts) w;
       process_objs n src call t obNext w
     })"

definition AG_ProcessTimeouts :: "nat \<Rightarrow> AG_EventSource \<Rightarrow> timer_fns \<Rightarrow> 32 word \<Rightarrow> world \<Rightarrow> world option" where
  "AG_ProcessTimeouts n src call t w = process_objs n src call t (first_of (w_timerObjQ w)) w"

definition AG_TIMER_EXECD :: "32 word" where
  "AG_TIMER_EXECD = 0x04"

definition AG_ExecTimerFn :: "timer_fns \<Rightarrow> nat \<Rightarrow> world \<Rightarrow> (32 word \<times> world) option" where
  "AG_ExecTimerFn call to w = do {
     T \<leftarrow> w_timers w to;
     f \<leftarrow> to_fn T;
     let w = put_timer to (T\<lparr>to_flags := to_flags T OR AG_TIMER_EXECD\<rparr>) w;
     (rv, w) \<leftarrow> call f to (to_fnEvent T) w;
     T \<leftarrow> w_timers w to;
     Some (rv, put_timer to (T\<lparr>to_flags := to_flags T AND NOT AG_TIMER_EXECD\<rparr>) w)
   }"

text \<open>
  Waiting for a timer; \<open>delay\<close> is what happens during one tick of \<open>AG_Delay\<close>.  It may wait
  for ever when \<open>timeout\<close> is 0.
\<close>

partial_function (option) timer_wait ::
  "(world \<Rightarrow> world) \<Rightarrow> AG_EventSource \<Rightarrow> nat option \<Rightarrow> nat \<Rightarrow> 32 word \<Rightarrow> 32 word \<Rightarrow> world \<Rightarrow> (int \<times> world) option" where
  "timer_wait delay src p to timeout elapsed w =
     (if 0 < timeout \<and> timeout \<le> elapsed + 1 then Some (-1, w)
      else do {
        running \<leftarrow> AG_TimerIsRunning src p to w;
        if \<not> running then Some (0, w)
        else timer_wait delay src p to timeout (if 0 < timeout then elapsed + 1 else elapsed) (delay w)
      })"

definition AG_TimerWait ::
  "(world \<Rightarrow> world) \<Rightarrow> AG_EventSource \<Rightarrow> nat option \<Rightarrow> nat \<Rightarrow> 32 word \<Rightarrow> world \<Rightarrow> (int \<times> world) option" where
  "AG_TimerWait delay src p to timeout w = timer_wait delay src p to timeout 0 w"

section \<open>Scheduled events\<close>

text \<open>The callback of scheduled events; its result, 0, cancels the timer.\<close>

definition EventTimeout :: "nat \<Rightarrow> handlers \<Rightarrow> AG_Event \<Rightarrow> world \<Rightarrow> (32 word \<times> world) option" where
  "EventTimeout n call event w = do {
     V0 \<leftarrow> rd (ev_argv event) 0; ob \<leftarrow> ptr_of (v_data V0); p \<leftarrow> ob;
     V1 \<leftarrow> rd (ev_argv event) 1; obSender \<leftarrow> ptr_of (v_data V1);
     V2 \<leftarrow> rd (ev_argv event) 2; s \<leftarrow> ptr_of (v_data V2); eventName \<leftarrow> get_cstr s w;
     ob \<leftarrow> w_objs w p;
     found \<leftarrow> find_event w ob eventName;
     (case found of
        None \<Rightarrow> Some (0, w)
      | Some e \<Rightarrow> do {
          ev \<leftarrow> w_events w e;
          ev \<leftarrow> set_ptr_arg (ev_argc ev) obSender ev;
          let w = put_event e ev w;
          w \<leftarrow> (if ev_flags ev AND AG_EVENT_PROPAGATE \<noteq> 0
               then propagate_children n call p (first_of (ob_children ob)) (Stored e) w else Some w);
          ev \<leftarrow> w_events w e;
          w \<leftarrow> run_fn call (ev_fn ev) ev w;
          Some (0, w)
        })
   }"

text \<open>
  \<open>AG_SchedEvent\<close>; \<open>timeoutFn\<close> is the address of \<open>EventTimeout\<close> and \<open>evname\<close> that of the
  name, which is not copied.
\<close>

definition AG_SchedEvent ::
  "AG_EventSource \<Rightarrow> nat \<Rightarrow> nat option \<Rightarrow> nat \<Rightarrow> 32 word \<Rightarrow> nat option \<Rightarrow> string option \<Rightarrow> cval list \<Rightarrow> world \<Rightarrow>
   (int \<times> world) option" where
  "AG_SchedEvent src timeoutFn sndr rcvr ticks evname fmt ap w = do {
     name \<leftarrow> get_cstr evname w;
     let (to, w) = fresh w;
     let w = put_timer to (AG_InitTimer (Some name) AG_TIMER_AUTO_FREE blank_timer) w;
     (rv, w) \<leftarrow> AG_AddTimer src (Some rcvr) to ticks (Some timeoutFn) (Some ''%p,%s'') [C_p sndr, C_s evname] w;
     if rv = -1 then Some (-1, w\<lparr>w_timers := (w_timers w)(to := None)\<rparr>)
     else do {
       T \<leftarrow> w_timers w to;
       ev \<leftarrow> AG_EventInit (to_fnEvent T);
       V \<leftarrow> rd (ev_argv ev) 0;
       argv \<leftarrow> wr (ev_argv ev) 0 (V\<lparr>v_data := C_p (Some rcvr)\<rparr>);
       ev \<leftarrow> GET_ARGS fmt ap (ev\<lparr>ev_argv := argv\<rparr>);
       Some (0, put_timer to (T\<lparr>to_fnEvent := ev\<lparr>ev_argc0 := ev_argc ev\<rparr>\<rparr>) w)
     }
   }"

end
