(* ===== verification/TimerLaws.thy ===== *)
theory TimerLaws
  imports Timers
begin

text \<open>
  What the timers guarantee.  The wheel of an object is its list of timers in the order of
  expiration, and the operations insert, move and remove in it (\<open>ins_after\<close>, \<open>remove1\<close>); the
  invariant \<open>timers_ok\<close> holds in every state the operations reach (\<open>timers_reach\<close>); running the
  expired timers calls each of them once and ends.
\<close>

section \<open>The wheel as an ordered list\<close>

text \<open>Insertion after the elements with a key that is not larger.\<close>

fun ins_after :: "('a \<Rightarrow> 'k :: linorder) \<Rightarrow> 'a \<Rightarrow> 'a list \<Rightarrow> 'a list" where
  "ins_after k x [] = [x]"
| "ins_after k x (y # ys) = (if k x < k y then x # y # ys else y # ins_after k x ys)"

lemma set_ins_after [simp]: "set (ins_after k x xs) = insert x (set xs)"
  by (induction xs) auto

lemma distinct_ins_after [simp]: "distinct (ins_after k x xs) \<longleftrightarrow> x \<notin> set xs \<and> distinct xs"
  by (induction xs) auto

lemma sorted_ins_after: "sorted (map k xs) \<Longrightarrow> sorted (map k (ins_after k x xs))"
proof (induction xs)
  case (Cons y ys)
  then show ?case by (cases "k x < k y") (auto simp: not_less intro: order.trans less_imp_le)
qed simp

lemma ins_after_split:
  "\<forall>a \<in> set as. k a \<le> k x \<Longrightarrow> k x < k y \<Longrightarrow> ins_after k x (as @ y # bs) = as @ x # y # bs"
  "\<forall>a \<in> set as. k a \<le> k x \<Longrightarrow> ins_after k x as = as @ [x]"
  by (induction as) auto

lemma ins_after_cong: "(\<And>y. y \<in> insert x (set xs) \<Longrightarrow> k y = k' y) \<Longrightarrow> ins_after k x xs = ins_after k' x xs"
  by (induction xs) auto

lemma filter_ins_after:
  "sorted (map k xs) \<Longrightarrow> filter P (ins_after k x xs) = (if P x then ins_after k x (filter P xs) else filter P xs)"
proof (induction xs)
  case (Cons y ys)
  have "k x < k y \<Longrightarrow> ins_after k x (filter P ys) = x # filter P ys"
  proof -
    assume "k x < k y"
    then have "\<forall>z \<in> set (filter P ys). k x < k z" using Cons.prems by auto
    then show ?thesis by (cases "filter P ys") auto
  qed
  then show ?case using Cons by auto
qed simp

definition deadline :: "world \<Rightarrow> nat \<Rightarrow> 32 word" where
  "deadline w to = to_tSched (the (w_timers w to))"

definition ts_of :: "world \<Rightarrow> nat \<Rightarrow> nat list" where
  "ts_of w p = ob_timers (the (w_objs w p))"

lemma wheel_search_cases:
  assumes "\<forall>y \<in> set ts. w_timers w y \<noteq> None"
  shows "(\<exists>as bs y. wheel_search w to d ts = Some (Found y) \<and> ts = as @ y # bs \<and> to \<notin> set (as @ [y]) \<and>
            (\<forall>a \<in> set as. deadline w a \<le> d) \<and> d < deadline w y) \<or>
         (\<exists>as bs. wheel_search w to d ts = Some Self \<and> ts = as @ to # bs \<and> to \<notin> set as \<and> (\<forall>a \<in> set as. deadline w a \<le> d)) \<or>
         (wheel_search w to d ts = Some End \<and> to \<notin> set ts \<and> (\<forall>a \<in> set ts. deadline w a \<le> d))"
  using assms
proof (induction ts)
  case Nil
  then show ?case by simp
next
  case (Cons y ts)
  obtain T where T: "w_timers w y = Some T" using Cons.prems by auto
  then have dl: "deadline w y = to_tSched T" by (simp add: deadline_def)
  show ?case
  proof (cases "y = to")
    case True
    then show ?thesis by (intro disjI2 disjI1 exI [of _ "[]"] exI [of _ ts]) simp
  next
    case ne: False
    show ?thesis
    proof (cases "d < to_tSched T")
      case True
      then show ?thesis using ne T dl by (intro disjI1 exI [of _ "[]"] exI [of _ ts] exI [of _ y]) auto
    next
      case False
      then have st: "wheel_search w to d (y # ts) = wheel_search w to d ts" and le: "deadline w y \<le> d"
        using ne T dl by auto
      have "\<forall>y \<in> set ts. w_timers w y \<noteq> None" using Cons.prems by simp
      from Cons.IH [OF this] show ?thesis
      proof (elim disjE exE conjE)
        fix as bs z
        assume "wheel_search w to d ts = Some (Found z)" "ts = as @ z # bs" "to \<notin> set (as @ [z])"
          "\<forall>a \<in> set as. deadline w a \<le> d" "d < deadline w z"
        then show ?thesis using st le ne by (intro disjI1 exI [of _ "y # as"] exI [of _ bs] exI [of _ z]) auto
      next
        fix as bs
        assume "wheel_search w to d ts = Some Self" "ts = as @ to # bs" "to \<notin> set as" "\<forall>a \<in> set as. deadline w a \<le> d"
        then show ?thesis using st le ne by (intro disjI2 disjI1 exI [of _ "y # as"] exI [of _ bs]) auto
      qed (use st le ne in auto)
    qed
  qed
qed

text \<open>A timer that is not in the wheel goes after those that expire no later.\<close>

definition dl_key :: "world \<Rightarrow> nat \<Rightarrow> 32 word \<Rightarrow> nat \<Rightarrow> 32 word" where
  "dl_key w to d y = (if y = to then d else deadline w y)"

lemma takeWhile_mid: "y \<notin> set as \<Longrightarrow> takeWhile (\<lambda>x. x \<noteq> y) (as @ y # bs) = as"
  "y \<notin> set as \<Longrightarrow> dropWhile (\<lambda>x. x \<noteq> y) (as @ y # bs) = y # bs"
  by (induction as) auto

lemma wheel_new:
  assumes "\<forall>y \<in> set ts. w_timers w y \<noteq> None" "to \<notin> set ts" "distinct ts"
  shows "\<exists>pos. wheel_search w to d ts = Some pos \<and> pos \<noteq> Self \<and> wheel_place to pos ts = Some (ins_after (dl_key w to d) to ts)"
  using wheel_search_cases [OF assms(1), of to d]
proof (elim disjE exE conjE)
  fix as bs y
  assume a: "wheel_search w to d ts = Some (Found y)" "ts = as @ y # bs" "to \<notin> set (as @ [y])"
    "\<forall>a \<in> set as. deadline w a \<le> d" "d < deadline w y"
  have "ins_after (dl_key w to d) to (as @ y # bs) = as @ to # y # bs"
    using a by (intro ins_after_split) (auto simp: dl_key_def)
  then show ?thesis using a assms(2,3) by (auto simp: wheel_place_def q_insert_before_def takeWhile_mid)
next
  assume a: "wheel_search w to d ts = Some End" "to \<notin> set ts" "\<forall>a \<in> set ts. deadline w a \<le> d"
  have "ins_after (dl_key w to d) to ts = ts @ [to]"
    using a by (intro ins_after_split) (auto simp: dl_key_def)
  then show ?thesis using a by (auto simp: wheel_place_def q_insert_tail_def)
qed (use assms(2) in auto)

lemma wheel_insert_new:
  assumes "\<forall>y \<in> set ts. w_timers w y \<noteq> None" "to \<notin> set ts" "distinct ts"
  shows "wheel_insert w to d ts = Some (False, ins_after (dl_key w to d) to ts)"
  using wheel_new [OF assms, of d] by (auto simp: wheel_insert_def)

text \<open>
  A timer that is in the wheel: rescheduling works when no timer before it expires later
  than the new time, and inserts it twice otherwise.
\<close>

lemma wheel_insert_again:
  assumes "\<forall>y \<in> set (us @ to # vs). w_timers w y \<noteq> None" "distinct (us @ to # vs)"
  shows "wheel_insert w to d (us @ to # vs) =
    (if \<forall>u \<in> set us. deadline w u \<le> d then Some (True, ins_after (dl_key w to d) to (us @ vs)) else None)"
proof -
  from wheel_search_cases [OF assms(1), of to d] show ?thesis
  proof (elim disjE exE conjE)
    fix as bs y
    assume a: "wheel_search w to d (us @ to # vs) = Some (Found y)" "us @ to # vs = as @ y # bs" "to \<notin> set (as @ [y])"
      "\<forall>a \<in> set as. deadline w a \<le> d" "d < deadline w y"
    have "to \<notin> set us" using assms(2) by simp
    moreover have "length as < length us \<or> length us \<le> length as" by arith
    ultimately have "y \<in> set us"
    proof (elim disjE)
      assume "length as < length us"
      then have "us ! length as = (us @ to # vs) ! length as" by (simp add: nth_append)
      then have "us ! length as = y" using a(2) by simp
      then show ?thesis using \<open>length as < length us\<close> nth_mem by blast
    next
      assume "length us \<le> length as"
      then have "(as @ y # bs) ! length us \<in> set (as @ [y])"
        by (cases "length us = length as") (auto simp: nth_append)
      then show ?thesis using a(2,3) by (metis nth_append_length)
    qed
    then have "\<not> (\<forall>u \<in> set us. deadline w u \<le> d)" using a(5) by (auto simp: not_le)
    then show ?thesis using a(1) by (simp add: wheel_insert_def wheel_place_def q_insert_before_def)
  next
    fix as bs
    assume a: "wheel_search w to d (us @ to # vs) = Some Self" "us @ to # vs = as @ to # bs" "to \<notin> set as"
      "\<forall>a \<in> set as. deadline w a \<le> d"
    have nin: "to \<notin> set us" "to \<notin> set vs" using assms(2) by auto
    then have us: "as = us" using a(2,3) append_Cons_eq_iff [of to us vs as bs] by simp
    then have le: "\<forall>u \<in> set us. deadline w u \<le> d" using a(4) by simp
    have "q_remove to (us @ to # vs) = Some (us @ vs)" using nin by (simp add: q_remove_def remove1_append)
    moreover obtain pos where "wheel_search w to d (us @ vs) = Some pos"
      "wheel_place to pos (us @ vs) = Some (ins_after (dl_key w to d) to (us @ vs))"
      using wheel_new [of "us @ vs" w to d] assms nin by auto
    ultimately show ?thesis using a(1) le by (simp add: wheel_insert_def)
  next
    assume "to \<notin> set (us @ to # vs)"
    then show ?thesis by simp
  qed
qed

section \<open>The invariant of the timers\<close>

definition list_ok :: "world \<Rightarrow> nat \<Rightarrow> nat list \<Rightarrow> bool" where
  "list_ok w p ts \<longleftrightarrow> distinct ts \<and> sorted (map (deadline w) ts) \<and>
     (\<forall>y \<in> set ts. \<exists>T. w_timers w y = Some T \<and> to_obj T = Some p \<and> to_fn T \<noteq> None)"

definition timers_ok :: "world \<Rightarrow> bool" where
  "timers_ok w \<longleftrightarrow> distinct (w_timerObjQ w) \<and> (\<forall>p \<in> set (w_timerObjQ w). w_objs w p \<noteq> None) \<and>
     (\<forall>p ob. w_objs w p = Some ob \<longrightarrow> list_ok w p (ob_timers ob) \<and> (p \<in> set (w_timerObjQ w) \<longleftrightarrow> ob_timers ob \<noteq> []))"

definition wheel_source :: "AG_EventSource \<Rightarrow> 32 word \<Rightarrow> bool" where
  "wheel_source src now \<longleftrightarrow> \<not> src_timer_cap src \<and> src_addTimerFn src = None \<and> src_delTimerFn src = None \<and>
     src_ticks src = (\<lambda>_. now)"

lemma list_ok_cong:
  "list_ok w p ts \<Longrightarrow> (\<And>y. y \<in> set ts \<Longrightarrow> w_timers w' y = w_timers w y) \<Longrightarrow> list_ok w' p ts"
  by (auto simp: list_ok_def deadline_def cong: map_cong)

text \<open>
  An operation on the timers of \<open>p\<close> that leaves the timers of other objects alone.
\<close>

definition timers_step :: "nat \<Rightarrow> nat list \<Rightarrow> world \<Rightarrow> world \<Rightarrow> bool" where
  "timers_step p ts w w' \<longleftrightarrow> (\<exists>ob. w_objs w p = Some ob \<and> w_objs w' = (w_objs w)(p \<mapsto> ob\<lparr>ob_timers := ts\<rparr>)) \<and>
     (\<forall>y T q. w_timers w y = Some T \<longrightarrow> to_obj T = Some q \<longrightarrow> q \<noteq> p \<longrightarrow> w_timers w' y = Some T) \<and>
     w_timerObjQ w' = (if ts = [] then remove1 p (w_timerObjQ w)
       else if p \<in> set (w_timerObjQ w) then w_timerObjQ w else w_timerObjQ w @ [p])"

lemma timers_ok_step:
  assumes "timers_ok w" "timers_step p ts w w'" "list_ok w' p ts"
  shows "timers_ok w'"
proof -
  obtain ob where ob: "w_objs w p = Some ob" "w_objs w' = (w_objs w)(p \<mapsto> ob\<lparr>ob_timers := ts\<rparr>)"
    using assms(2) by (auto simp: timers_step_def)
  have d: "distinct (w_timerObjQ w)" and e: "\<forall>q \<in> set (w_timerObjQ w). w_objs w q \<noteq> None"
    using assms(1) by (auto simp: timers_ok_def)
  have q: "set (w_timerObjQ w') = (if ts = [] then set (w_timerObjQ w) - {p} else insert p (set (w_timerObjQ w)))"
    "distinct (w_timerObjQ w')" using assms(2) d by (auto simp: timers_step_def)
  have "list_ok w' r (ob_timers obr) \<and> (r \<in> set (w_timerObjQ w') \<longleftrightarrow> ob_timers obr \<noteq> [])"
    if r: "w_objs w' r = Some obr" for r obr
  proof (cases "r = p")
    case True
    then show ?thesis using r ob assms(3) q by auto
  next
    case False
    then have r': "w_objs w r = Some obr" using r ob by simp
    then have l: "list_ok w r (ob_timers obr)" "r \<in> set (w_timerObjQ w) \<longleftrightarrow> ob_timers obr \<noteq> []"
      using assms(1) by (auto simp: timers_ok_def)
    have "w_timers w' y = w_timers w y" if "y \<in> set (ob_timers obr)" for y
      using l(1) that False assms(2) unfolding list_ok_def timers_step_def by metis
    then show ?thesis using list_ok_cong [OF l(1)] l(2) q False by auto
  qed
  then show ?thesis using d e q ob by (auto simp: timers_ok_def split: if_splits)
qed

lemma timers_ok_obj:
  "timers_ok w \<Longrightarrow> w_objs w p = Some ob \<Longrightarrow> list_ok w p (ob_timers ob)"
  "timers_ok w \<Longrightarrow> w_objs w p = Some ob \<Longrightarrow> p \<in> set (w_timerObjQ w) \<longleftrightarrow> ob_timers ob \<noteq> []"
  by (auto simp: timers_ok_def)

text \<open>Two steps on the same object.\<close>

lemma ts_of_step: "timers_step p ts w w' \<Longrightarrow> ts_of w' p = ts"
  "timers_step p ts w w' \<Longrightarrow> q \<noteq> p \<Longrightarrow> w_objs w' q = w_objs w q"
  by (auto simp: timers_step_def ts_of_def)

section \<open>Adding\<close>

lemma timer_args:
  assumes "length (ev_argv ev) = AG_EVENT_ARGS_MAX" "list_all arg_ok as" "length as < AG_EVENT_ARGS_MAX"
  shows "\<exists>e1 V argv e2. AG_EventInit ev = Some e1 \<and> rd (ev_argv e1) 0 = Some V \<and>
     wr (ev_argv e1) 0 (V\<lparr>v_data := C_p (Some p)\<rparr>) = Some argv \<and>
     GET_ARGS (Some (args_fmt as)) (map (\<lambda>a. snd (snd a)) as) (e1\<lparr>ev_argv := argv\<rparr>) = Some e2 \<and>
     event_is p (ev_name ev) None as (e2\<lparr>ev_argc0 := ev_argc e2\<rparr>)"
proof -
  define e0 where "e0 = ev\<lparr>ev_flags := 0, ev_argc := 1, ev_argc0 := 1, ev_fn := None\<rparr>"
  have "length (ev_argv e0) = AG_EVENT_ARGS_MAX" "ev_argc e0 = 1" "ev_name e0 = ev_name ev"
    using assms(1) by (simp_all add: e0_def)
  from set_args_is [OF this assms(2,3), of p None]
  obtain ev1 ev2 where 1: "set_ptr_arg 0 (Some p) e0 = Some ev1"
     "GET_ARGS (Some (args_fmt as)) (map (\<lambda>a. snd (snd a)) as) (ev1\<lparr>ev_fn := None\<rparr>) = Some ev2"
     "event_is p (ev_name ev) None as (ev2\<lparr>ev_argc0 := ev_argc ev2\<rparr>)" by auto
  define e1 where "e1 = e0\<lparr>ev_argv := (ev_argv e0)[0 := InitPointerArg None (ev_argv e0 ! 0)]\<rparr>"
  have e1: "AG_EventInit ev = Some e1"
    using assms(1) by (simp add: AG_EventInit_def InitEvent_def e1_def e0_def set_ptr_arg_def buf_simps)
  have "ev1\<lparr>ev_fn := None\<rparr> = e1\<lparr>ev_argv := (ev_argv e1)[0 := (ev_argv e1 ! 0)\<lparr>v_data := C_p (Some p)\<rparr>]\<rparr>"
    using 1(1) assms(1) by (auto simp: e1_def e0_def set_ptr_arg_def buf_simps InitPointerArg_def)
  then show ?thesis using e1 1 assms(1)
    by (intro exI [of _ e1] exI [of _ "ev_argv e1 ! 0"] exI [of _ "(ev_argv e1)[0 := (ev_argv e1 ! 0)\<lparr>v_data := C_p (Some p)\<rparr>]"] exI [of _ ev2])
       (auto simp: buf_simps e1_def e0_def)
qed

lemma AG_AddTimer_spec:
  assumes src: "wheel_source src now" and ok: "timers_ok w" and ob: "w_objs w p = Some ob"
    and T: "w_timers w to = Some T" "to_obj T = None" "length (ev_argv (to_fnEvent T)) = AG_EVENT_ARGS_MAX"
    and as: "list_all arg_ok as" "length as < AG_EVENT_ARGS_MAX"
  shows "\<exists>w' T'. AG_AddTimer src (Some p) to ival (Some f) (Some (args_fmt as)) (map (\<lambda>a. snd (snd a)) as) w = Some (0, w') \<and>
     timers_ok w' \<and> timers_step p (ins_after (deadline w') to (ob_timers ob)) w w' \<and>
     w_timers w' = (w_timers w)(to \<mapsto> T') \<and> w_mem w' = w_mem w \<and>
     to_obj T' = Some p \<and> to_tSched T' = now + ival \<and> to_ival T' = ival \<and> to_fn T' = Some f \<and>
     event_is p (ev_name (to_fnEvent T)) None as (to_fnEvent T')"
proof -
  note s = src [unfolded wheel_source_def]
  define ts where "ts = ob_timers ob"
  have lo: "list_ok w p ts" and iff: "p \<in> set (w_timerObjQ w) \<longleftrightarrow> ts \<noteq> []"
    using timers_ok_obj [OF ok ob] by (simp_all add: ts_def)
  have nin: "to \<notin> set ts" using lo T by (auto simp: list_ok_def)
  obtain e1 V argv e2 where e: "AG_EventInit (to_fnEvent T) = Some e1" "rd (ev_argv e1) 0 = Some V"
     "wr (ev_argv e1) 0 (V\<lparr>v_data := C_p (Some p)\<rparr>) = Some argv"
     "GET_ARGS (Some (args_fmt as)) (map (\<lambda>a. snd (snd a)) as) (e1\<lparr>ev_argv := argv\<rparr>) = Some e2"
     "event_is p (ev_name (to_fnEvent T)) None as (e2\<lparr>ev_argc0 := ev_argc e2\<rparr>)"
    using timer_args [OF T(3) as] by blast
  define d where "d = now + ival"
  define w1 where "w1 = (if ts = [] then w\<lparr>w_timerObjQ := w_timerObjQ w @ [p]\<rparr> else w)"
  have q: "(if ts = [] then queue_obj p w else Some w) = Some w1"
    using iff by (auto simp: w1_def queue_obj_def q_insert_tail_def)
  define w2 where "w2 = put_timer to (T\<lparr>to_obj := Some p, to_tSched := d\<rparr>) w1"
  have t2: "w_timers w2 = (w_timers w)(to \<mapsto> T\<lparr>to_obj := Some p, to_tSched := d\<rparr>)" "w_objs w2 = w_objs w"
    by (simp_all add: w2_def w1_def)
  have o1: "w_objs w1 = w_objs w" by (simp add: w1_def)
  have ins: "wheel_insert w2 to d ts = Some (False, ins_after (dl_key w2 to d) to ts)"
    using lo nin by (intro wheel_insert_new) (auto simp: list_ok_def t2)
  have key: "dl_key w2 to d = deadline w2" by (auto simp: dl_key_def deadline_def t2)
  define ts' where "ts' = ins_after (deadline w2) to ts"
  define w3 where "w3 = put_obj p (ob\<lparr>ob_timers := ts'\<rparr>) w2"
  have add: "add_wheel src p to ival w = Some (True, put_timer to (T\<lparr>to_obj := Some p, to_tSched := d, to_ival := ival, to_id := 0\<rparr>) w3)"
    using T q ins ob s by (simp add: add_wheel_def timers_of_def ts_def [symmetric] Let_def d_def [symmetric]
      w2_def [symmetric] key ts'_def [symmetric] set_timers_def t2 o1 w3_def)
  define T' where "T' = T\<lparr>to_obj := Some p, to_tSched := d, to_ival := ival, to_id := 0, to_fn := Some f,
     to_fnEvent := e2\<lparr>ev_argc0 := ev_argc e2\<rparr>\<rparr>"
  define w' where "w' = put_timer to T' (put_timer to (T\<lparr>to_obj := Some p, to_tSched := d, to_ival := ival, to_id := 0\<rparr>) w3)"
  have run: "AG_AddTimer src (Some p) to ival (Some f) (Some (args_fmt as)) (map (\<lambda>a. snd (snd a)) as) w = Some (0, w')"
    using s add e by (simp add: AG_AddTimer_def timer_obj_def w'_def T'_def Let_def)
  have t': "w_timers w' = (w_timers w)(to \<mapsto> T')" by (simp add: w'_def w3_def t2)
  have dl: "deadline w' = deadline w2" by (auto simp: deadline_def t' t2 T'_def)
  have st: "timers_step p ts' w w'"
    using ob iff T by (auto simp: timers_step_def w'_def w3_def w2_def w1_def ts'_def simp del: ins_after.simps
      split: if_splits) (metis set_ins_after insert_not_empty list.set(1))+
  have "map (deadline w2) ts = map (deadline w) ts" using nin by (auto simp: deadline_def t2)
  then have "sorted (map (deadline w2) ts)" using lo by (simp only: list_ok_def)
  then have "list_ok w' p ts'" using lo nin
    by (auto simp: list_ok_def ts'_def dl t' T'_def intro: sorted_ins_after)
  then have ok': "timers_ok w'" by (rule timers_ok_step [OF ok st])
  have st': "timers_step p (ins_after (deadline w') to (ob_timers ob)) w w'"
    using st by (simp add: ts'_def dl ts_def)
  have "w_mem w' = w_mem w" by (simp add: w'_def w3_def w2_def w1_def)
  moreover have "to_obj T' = Some p \<and> to_tSched T' = now + ival \<and> to_ival T' = ival \<and> to_fn T' = Some f"
    "to_fnEvent T' = e2\<lparr>ev_argc0 := ev_argc e2\<rparr>" by (simp_all add: T'_def d_def)
  ultimately show ?thesis using run ok' st' t' e(5) by (intro exI [of _ w'] exI [of _ T']) simp
qed

section \<open>Changing and cancelling\<close>

lemma AG_ResetTimer_spec:
  assumes src: "wheel_source src now" and ok: "timers_ok w" and ob: "w_objs w p = Some ob"
    and to: "to \<in> set (ob_timers ob)"
  shows "\<exists>w'. AG_ResetTimer src (Some p) to ival w = Some (0, w') \<and> timers_ok w' \<and>
     timers_step p (ins_after (deadline w') to (remove1 to (ob_timers ob))) w w' \<and>
     w_timers w' = (w_timers w)(to \<mapsto> (the (w_timers w to))\<lparr>to_tSched := now + ival, to_ival := ival\<rparr>) \<and>
     w_mem w' = w_mem w"
proof -
  note s = src [unfolded wheel_source_def]
  define ts where "ts = ob_timers ob"
  have lo: "list_ok w p ts" and iff: "p \<in> set (w_timerObjQ w) \<longleftrightarrow> ts \<noteq> []" and d: "distinct ts"
    using timers_ok_obj [OF ok ob] by (auto simp: ts_def list_ok_def)
  obtain T where T: "w_timers w to = Some T" "to_obj T = Some p" "to_fn T \<noteq> None"
    using lo to by (auto simp: list_ok_def ts_def)
  define d where "d = now + ival"
  define w2 where "w2 = put_timer to (T\<lparr>to_tSched := d\<rparr>) w"
  define ts1 where "ts1 = remove1 to ts"
  have nin: "to \<notin> set ts1" and sub: "set ts1 = set ts - {to}" and d1: "distinct ts1"
    using d by (auto simp: ts1_def)
  have "\<forall>y \<in> set ts1. w_timers w2 y \<noteq> None"
  proof
    fix y assume "y \<in> set ts1"
    then show "w_timers w2 y \<noteq> None" using lo sub by (auto simp: list_ok_def w2_def)
  qed
  from wheel_new [OF this nin d1, of d]
  obtain pos where pos: "wheel_search w2 to d ts1 = Some pos"
    "wheel_place to pos ts1 = Some (ins_after (dl_key w2 to d) to ts1)" by blast
  have key: "dl_key w2 to d = deadline w2" by (auto simp: dl_key_def deadline_def w2_def)
  define ts' where "ts' = ins_after (deadline w2) to ts1"
  define T' where "T' = T\<lparr>to_tSched := d, to_ival := ival\<rparr>"
  define w' where "w' = put_timer to T' (put_obj p (ob\<lparr>ob_timers := ts'\<rparr>) w2)"
  have run: "AG_ResetTimer src (Some p) to ival w = Some (0, w')"
    using s T to ob pos by (simp add: AG_ResetTimer_def timer_obj_def timers_of_def Let_def d_def [symmetric]
      w2_def [symmetric] q_remove_def ts_def [symmetric] ts1_def [symmetric] key ts'_def [symmetric])
      (simp add: set_timers_def w2_def w'_def T'_def ob)
  have t': "w_timers w' = (w_timers w)(to \<mapsto> T')" by (simp add: w'_def w2_def)
  have dl: "deadline w' = deadline w2" by (auto simp: deadline_def t' w2_def T'_def)
  have st: "timers_step p ts' w w'"
  proof -
    have "ts' \<noteq> []" unfolding ts'_def by (metis set_ins_after insert_not_empty list.set(1))
    then show ?thesis using ob iff T to by (auto simp: timers_step_def w'_def w2_def ts_def)
  qed
  have "map (deadline w2) ts1 = map (deadline w) ts1" using nin by (auto simp: deadline_def w2_def)
  moreover have "sorted (map (deadline w) ts1)" using lo by (auto simp: list_ok_def ts1_def intro: sorted_map_remove1)
  ultimately have "sorted (map (deadline w2) ts1)" by (simp only:)
  then have "list_ok w' p ts'" using lo nin d1 sub T
    by (auto simp: list_ok_def ts'_def dl t' T'_def intro: sorted_ins_after)
  then have ok': "timers_ok w'" by (rule timers_ok_step [OF ok st])
  have st': "timers_step p (ins_after (deadline w') to (remove1 to (ob_timers ob))) w w'"
    using st by (simp add: ts'_def dl ts1_def ts_def)
  have "w_mem w' = w_mem w" "T' = (the (w_timers w to))\<lparr>to_tSched := now + ival, to_ival := ival\<rparr>"
    using T by (simp_all add: w'_def w2_def T'_def d_def)
  then show ?thesis using run ok' st' t' by (intro exI [of _ w']) simp
qed

lemma AG_DelTimer_spec:
  assumes src: "wheel_source src now" and ok: "timers_ok w" and ob: "w_objs w p = Some ob"
    and to: "to \<in> set (ob_timers ob)"
  shows "\<exists>w'. AG_DelTimer src (Some p) to w = Some w' \<and> timers_ok w' \<and>
     timers_step p (remove1 to (ob_timers ob)) w w' \<and>
     (\<forall>y. y \<noteq> to \<longrightarrow> w_timers w' y = w_timers w y) \<and>
     (w_timers w' to = None \<or> (\<exists>T'. w_timers w' to = Some T' \<and> to_obj T' = None)) \<and>
     w_mem w' = w_mem w"
proof -
  note s = src [unfolded wheel_source_def]
  define ts where "ts = ob_timers ob"
  have lo: "list_ok w p ts" and iff: "p \<in> set (w_timerObjQ w) \<longleftrightarrow> ts \<noteq> []" and d: "distinct ts"
    using timers_ok_obj [OF ok ob] by (auto simp: ts_def list_ok_def)
  obtain T where T: "w_timers w to = Some T" "to_obj T = Some p" "to_fn T \<noteq> None"
    using lo to by (auto simp: list_ok_def ts_def)
  define ts1 where "ts1 = remove1 to ts"
  define w2 where "w2 = put_obj p (ob\<lparr>ob_timers := ts1\<rparr>) (put_timer to (T\<lparr>to_id := -1, to_obj := None\<rparr>) w)"
  define w3 where "w3 = (if ts1 = [] then w2\<lparr>w_timerObjQ := remove1 p (w_timerObjQ w)\<rparr> else w2)"
  have q: "(if ts1 = [] then unqueue_obj p w2 else Some w2) = Some w3"
    using iff to by (auto simp: w3_def unqueue_obj_def q_remove_def w2_def ts_def)
  define w' where "w' = (if to_flags T AND AG_TIMER_AUTO_FREE \<noteq> 0 then w3\<lparr>w_timers := (w_timers w3)(to := None)\<rparr> else w3)"
  have sm: "set_timers p ts1 (put_timer to (T\<lparr>to_id := -1, to_obj := None\<rparr>) w) = Some w2"
    using ob by (simp add: set_timers_def w2_def)
  have run: "AG_DelTimer src (Some p) to w = Some w'"
    using s T to ob q sm by (simp add: AG_DelTimer_def timer_obj_def timers_of_def Let_def q_remove_def
      ts_def [symmetric] ts1_def [symmetric] w'_def [symmetric])
  have t': "y \<noteq> to \<Longrightarrow> w_timers w' y = w_timers w y" for y by (simp add: w'_def w3_def w2_def)
  have st: "timers_step p ts1 w w'"
    using ob iff T to by (auto simp: timers_step_def w'_def w3_def w2_def ts_def)
  have nin: "to \<notin> set ts1" and sub: "set ts1 = set ts - {to}" using d by (auto simp: ts1_def)
  have "sorted (map (deadline w) ts1)" using lo by (auto simp: list_ok_def ts1_def intro: sorted_map_remove1)
  then have "list_ok w p ts1" using lo sub by (auto simp: list_ok_def ts1_def)
  then have "list_ok w' p ts1" by (rule list_ok_cong) (use nin t' in metis)
  then have ok': "timers_ok w'" by (rule timers_ok_step [OF ok st])
  have "w_timers w' to = None \<or> (\<exists>T'. w_timers w' to = Some T' \<and> to_obj T' = None)" "w_mem w' = w_mem w"
    by (auto simp: w'_def w3_def w2_def)
  then show ?thesis using run ok' st t'
    by (intro exI [of _ w']) (simp add: ts1_def ts_def)
qed

section \<open>Running the expired timers\<close>

text \<open>
  Callbacks with a fixed result that only work on plain memory: \<open>res\<close> is the new interval
  or 0, \<open>eff\<close> the effect.
\<close>

definition fixed_fns :: "timer_fns \<Rightarrow> (nat \<Rightarrow> 32 word) \<Rightarrow> (nat \<Rightarrow> (nat \<Rightarrow> memobj option) \<Rightarrow> (nat \<Rightarrow> memobj option)) \<Rightarrow> bool" where
  "fixed_fns call res eff \<longleftrightarrow> (\<forall>f to ev w. call f to ev w = Some (res to, w\<lparr>w_mem := eff to (w_mem w)\<rparr>))"

definition due :: "32 word \<Rightarrow> world \<Rightarrow> nat \<Rightarrow> bool" where
  "due t w x \<longleftrightarrow> \<not> 0 < sint (deadline w x - t)"

lemma filter_ins_after_out: "\<not> P x \<Longrightarrow> filter P (ins_after k x xs) = filter P xs"
  by (induction xs) auto

lemma timers_step_refl:
  assumes "timers_ok w" "w_objs w p = Some ob"
  shows "timers_step p (ob_timers ob) w w"
  using timers_ok_obj [OF assms] assms(2) by (auto simp: timers_step_def remove1_idem fun_upd_idem)

lemma timers_step_trans:
  assumes "timers_step p ts1 w w1" "timers_step p ts2 w1 w2" "ts1 \<noteq> []" "p \<in> set (w_timerObjQ w)"
  shows "timers_step p ts2 w w2"
  using assms by (auto simp: timers_step_def)

lemma mem_only [simp]:
  "timers_ok (w\<lparr>w_mem := m\<rparr>) = timers_ok w" "deadline (w\<lparr>w_mem := m\<rparr>) = deadline w"
  "due t (w\<lparr>w_mem := m\<rparr>) = due t w" "timers_step p ts (w\<lparr>w_mem := m\<rparr>) w' = timers_step p ts w w'"
  by (auto simp: timers_ok_def list_ok_def deadline_def due_def timers_step_def fun_eq_iff cong: map_cong)

lemma process_obj_run:
  assumes src: "wheel_source src t" and fns: "fixed_fns call res eff" and pos: "\<forall>x. res x = 0 \<or> 0 < sint (res x)"
  shows "timers_ok w \<Longrightarrow> w_objs w p = Some ob \<Longrightarrow> ob_timers ob = pre @ rest \<Longrightarrow> \<forall>x \<in> set pre. \<not> due t w x \<Longrightarrow>
    length (filter (due t w) rest) * Suc L + length rest + 1 \<le> n \<Longrightarrow> length (pre @ rest) \<le> L \<Longrightarrow>
    \<exists>w' ts'. process_obj n src call t p (first_of rest) w = Some w' \<and> timers_ok w' \<and> timers_step p ts' w w' \<and>
      w_mem w' = fold eff (filter (due t w) rest) (w_mem w) \<and>
      set ts' = {x \<in> set (pre @ rest). \<not> due t w x \<or> res x \<noteq> 0} \<and>
      (\<forall>x \<in> set ts'. deadline w' x = (if due t w x then t + res x else deadline w x))"
proof (induction n arbitrary: w ob pre rest)
  case 0
  then show ?case by simp
next
  case (Suc n)
  note ok = Suc.prems(1) and ob = Suc.prems(2) and split = Suc.prems(3) and pre = Suc.prems(4)
    and fuel = Suc.prems(5) and len = Suc.prems(6)
  have lo: "list_ok w p (pre @ rest)" using timers_ok_obj(1) [OF ok ob] split by simp
  have dist: "distinct (pre @ rest)" using lo by (simp add: list_ok_def)
  show ?case
  proof (cases rest)
    case Nil
    have "timers_step p pre w w" using timers_step_refl [OF ok ob] split Nil by simp
    then show ?thesis using Nil ok pre by (intro exI [of _ w] exI [of _ pre]) (auto simp: first_of_def)
  next
    case (Cons to rest')
    obtain T where T: "w_timers w to = Some T" "to_obj T = Some p" "to_fn T \<noteq> None"
      using lo Cons by (auto simp: list_ok_def)
    then obtain f where f: "to_fn T = Some f" by auto
    have nx: "next_of to (pre @ to # rest') = Some (first_of rest')"
      using dist Cons by (intro next_of_append) simp
    have dl: "to_tSched T = deadline w to" using T by (simp add: deadline_def)
    have q: "p \<in> set (w_timerObjQ w)" using timers_ok_obj(2) [OF ok ob] split Cons by simp
    have tof: "timers_of p w = Some (pre @ to # rest')" using ob split Cons by (simp add: timers_of_def)
    show ?thesis
    proof (cases "due t w to")
      case False
      have IH: "\<exists>w' ts'. process_obj n src call t p (first_of rest') w = Some w' \<and> timers_ok w' \<and> timers_step p ts' w w' \<and>
        w_mem w' = fold eff (filter (due t w) rest') (w_mem w) \<and>
        set ts' = {x \<in> set ((pre @ [to]) @ rest'). \<not> due t w x \<or> res x \<noteq> 0} \<and>
        (\<forall>x \<in> set ts'. deadline w' x = (if due t w x then t + res x else deadline w x))"
        using ok ob split pre fuel len Cons False by (intro Suc.IH) auto
      have "process_obj (Suc n) src call t p (first_of rest) w = process_obj n src call t p (first_of rest') w"
        using False tof nx T dl by (simp add: Cons first_of_def due_def)
      then show ?thesis using IH False by (simp add: Cons)
    next
      case True
      define w1 where "w1 = w\<lparr>w_mem := eff to (w_mem w)\<rparr>"
      have c: "call f to (to_fnEvent T) w = Some (res to, w1)" using fns by (simp add: fixed_fns_def w1_def)
      have ok1: "timers_ok w1" and ob1: "w_objs w1 p = Some ob" using ok ob by (simp_all add: w1_def)
      have mem: "to \<in> set (ob_timers ob)" using split Cons by simp
      have head: "process_obj (Suc n) src call t p (first_of rest) w =
         (if 0 < res to then do { (r, w) \<leftarrow> AG_ResetTimer src (Some p) to (res to) w1;
             ts \<leftarrow> timers_of p w; process_obj n src call t p (first_of ts) w }
          else do { w \<leftarrow> AG_DelTimer src (Some p) to w1; process_obj n src call t p (first_of rest') w })"
        using True tof nx T f dl c by (simp add: Cons first_of_def due_def)
      have rm: "remove1 to (ob_timers ob) = pre @ rest'" using split Cons dist by (simp add: remove1_append)
      show ?thesis
      proof (cases "res to = 0")
        case False
        obtain w2 where w2: "AG_ResetTimer src (Some p) to (res to) w1 = Some (0, w2)" "timers_ok w2"
          "timers_step p (ins_after (deadline w2) to (pre @ rest')) w1 w2"
          "w_timers w2 = (w_timers w1)(to \<mapsto> (the (w_timers w1 to))\<lparr>to_tSched := t + res to, to_ival := res to\<rparr>)"
          "w_mem w2 = w_mem w1"
          using AG_ResetTimer_spec [OF src ok1 ob1 mem, of "res to"] rm by auto
        define ts2 where "ts2 = ins_after (deadline w2) to (pre @ rest')"
        have dl2: "deadline w2 x = (if x = to then t + res to else deadline w x)" for x
          by (simp add: deadline_def w2(4) w1_def)
        have nd: "\<not> due t w2 to" using pos False by (auto simp: due_def dl2)
        have due2: "x \<noteq> to \<Longrightarrow> due t w2 x = due t w x" for x by (simp add: due_def dl2)
        have "filter (due t w2) ts2 = filter (due t w2) (pre @ rest')"
          unfolding ts2_def by (rule filter_ins_after_out [where P = "due t w2", OF nd])
        also have "\<dots> = filter (due t w) rest'"
        proof -
          have "to \<notin> set pre" using dist Cons by simp
          then have "filter (due t w2) pre = []" unfolding filter_empty_conv using pre due2 by metis
          moreover have "to \<notin> set rest'" using dist Cons by simp
          then have "filter (due t w2) rest' = filter (due t w) rest'"
            using due2 by (intro filter_cong refl) metis
          ultimately show ?thesis by simp
        qed
        finally have flt: "filter (due t w2) ts2 = filter (due t w) rest'" .
        obtain ob2 where ob2: "w_objs w2 p = Some ob2" "ob_timers ob2 = ts2"
          using w2(3) by (auto simp: timers_step_def ts2_def)
        have st2: "set ts2 = set (pre @ rest)" "ts2 \<noteq> []" "length ts2 = length (pre @ rest)"
        proof -
          have d2: "distinct ts2" using timers_ok_obj(1) [OF w2(2) ob2(1)] ob2(2) by (simp add: list_ok_def)
          show s: "set ts2 = set (pre @ rest)" by (auto simp: ts2_def Cons)
          then show "ts2 \<noteq> []" using Cons by auto
          show "length ts2 = length (pre @ rest)" using d2 dist s by (metis distinct_card)
        qed
        have "\<exists>w' ts'. process_obj n src call t p (first_of ts2) w2 = Some w' \<and> timers_ok w' \<and> timers_step p ts' w2 w' \<and>
          w_mem w' = fold eff (filter (due t w2) ts2) (w_mem w2) \<and>
          set ts' = {x \<in> set ([] @ ts2). \<not> due t w2 x \<or> res x \<noteq> 0} \<and>
          (\<forall>x \<in> set ts'. deadline w' x = (if due t w2 x then t + res x else deadline w2 x))"
          using w2(2) ob2 fuel len True st2 flt by (intro Suc.IH [of _ ob2]) (auto simp: Cons)
        then obtain w' ts' where w': "process_obj n src call t p (first_of ts2) w2 = Some w'" "timers_ok w'"
          "timers_step p ts' w2 w'" "w_mem w' = fold eff (filter (due t w2) ts2) (w_mem w2)"
          "set ts' = {x \<in> set ts2. \<not> due t w2 x \<or> res x \<noteq> 0}"
          "\<forall>x \<in> set ts'. deadline w' x = (if due t w2 x then t + res x else deadline w2 x)" by auto
        have "timers_step p ts' w w'"
          using timers_step_trans [OF w2(3) w'(3)] st2(2) q by (simp add: w1_def ts2_def)
        moreover have "process_obj (Suc n) src call t p (first_of rest) w = Some w'"
        proof -
          have "0 < res to" using False by (simp add: word_gt_0)
          then show ?thesis using head w2(1) ob2 w'(1) by (simp add: timers_of_def)
        qed
        moreover have "set ts' = {x \<in> set (pre @ rest). \<not> due t w x \<or> res x \<noteq> 0}"
        proof -
          have "(\<not> due t w2 x \<or> res x \<noteq> 0) = (\<not> due t w x \<or> res x \<noteq> 0)" for x
            by (cases "x = to") (simp_all add: False due2)
          then show ?thesis using w'(5) st2(1) by simp
        qed
        moreover have "w_mem w' = fold eff (filter (due t w) rest) (w_mem w)"
          using w'(4) flt w2(5) True by (simp add: Cons w1_def)
        moreover have "\<forall>x \<in> set ts'. deadline w' x = (if due t w x then t + res x else deadline w x)"
        proof
          fix x assume "x \<in> set ts'"
          then have "deadline w' x = (if due t w2 x then t + res x else deadline w2 x)" using w'(6) by blast
          then show "deadline w' x = (if due t w x then t + res x else deadline w x)"
            by (cases "x = to") (simp_all add: True nd dl2 due2)
        qed
        ultimately show ?thesis using w'(2) by blast
      next
        case z: True
        obtain w2 where w2: "AG_DelTimer src (Some p) to w1 = Some w2" "timers_ok w2" "timers_step p (pre @ rest') w1 w2"
          "\<forall>y. y \<noteq> to \<longrightarrow> w_timers w2 y = w_timers w1 y" "w_mem w2 = w_mem w1"
          using AG_DelTimer_spec [OF src ok1 ob1 mem] rm by auto
        have dl2: "x \<noteq> to \<Longrightarrow> deadline w2 x = deadline w x" for x using w2(4) by (simp add: deadline_def w1_def)
        have due2: "x \<noteq> to \<Longrightarrow> due t w2 x = due t w x" for x by (simp add: due_def dl2)
        have "to \<notin> set rest'" "to \<notin> set pre" using dist Cons by simp_all
        then have flt: "filter (due t w2) rest' = filter (due t w) rest'" and pre2: "\<forall>x \<in> set pre. \<not> due t w2 x"
          using due2 pre by (intro filter_cong refl, metis+)
        obtain ob2 where ob2: "w_objs w2 p = Some ob2" "ob_timers ob2 = pre @ rest'"
          using w2(3) by (auto simp: timers_step_def)
        have "\<exists>w' ts'. process_obj n src call t p (first_of rest') w2 = Some w' \<and> timers_ok w' \<and> timers_step p ts' w2 w' \<and>
          w_mem w' = fold eff (filter (due t w2) rest') (w_mem w2) \<and>
          set ts' = {x \<in> set (pre @ rest'). \<not> due t w2 x \<or> res x \<noteq> 0} \<and>
          (\<forall>x \<in> set ts'. deadline w' x = (if due t w2 x then t + res x else deadline w2 x))"
        proof (rule Suc.IH [OF w2(2) ob2])
          show "\<forall>x \<in> set pre. \<not> due t w2 x" by (rule pre2)
          show "length (filter (due t w2) rest') * Suc L + length rest' + 1 \<le> n"
            using fuel True unfolding flt by (simp add: Cons)
          show "length (pre @ rest') \<le> L" using len by (simp add: Cons)
        qed
        then obtain w' ts' where w': "process_obj n src call t p (first_of rest') w2 = Some w'" "timers_ok w'"
          "timers_step p ts' w2 w'" "w_mem w' = fold eff (filter (due t w2) rest') (w_mem w2)"
          "set ts' = {x \<in> set (pre @ rest'). \<not> due t w2 x \<or> res x \<noteq> 0}"
          "\<forall>x \<in> set ts'. deadline w' x = (if due t w2 x then t + res x else deadline w2 x)" by auto
        have st: "timers_step p ts' w w'"
        proof (cases "pre @ rest' = []")
          case True
          then have "w' = w2" using w'(1) by (cases n) (auto simp: first_of_def)
          moreover have "ts' = []" using w'(5) True by simp
          ultimately show ?thesis using w2(3) True by (simp add: w1_def)
        next
          case False
          then show ?thesis using timers_step_trans [OF w2(3) w'(3)] q by (simp add: w1_def)
        qed
        have "to \<notin> set (pre @ rest')" using dist Cons by auto
        then have set': "set ts' = {x \<in> set (pre @ rest). \<not> due t w x \<or> res x \<noteq> 0}"
        proof -
          have "(x \<in> set (pre @ rest') \<and> (\<not> due t w2 x \<or> res x \<noteq> 0)) = (x \<in> set (pre @ rest) \<and> (\<not> due t w x \<or> res x \<noteq> 0))" for x
            by (cases "x = to") (simp_all add: due2 True z Cons \<open>to \<notin> set rest'\<close> \<open>to \<notin> set pre\<close>)
          then show ?thesis using w'(5) by blast
        qed
        have "process_obj (Suc n) src call t p (first_of rest) w = Some w'"
          using head w2(1) w'(1) z by simp
        moreover have "w_mem w' = fold eff (filter (due t w) rest) (w_mem w)"
          using w'(4) flt w2(5) True by (simp add: Cons w1_def)
        moreover have "\<forall>x \<in> set ts'. deadline w' x = (if due t w x then t + res x else deadline w x)"
        proof
          fix x assume x: "x \<in> set ts'"
          then have "x \<noteq> to" using w'(5) \<open>to \<notin> set (pre @ rest')\<close> by auto
          then show "deadline w' x = (if due t w x then t + res x else deadline w x)"
            using w'(6) x by (simp add: dl2 due2)
        qed
        ultimately show ?thesis using w'(2) st set' by blast
      qed
    qed
  qed
qed

definition due_after :: "32 word \<Rightarrow> (nat \<Rightarrow> 32 word) \<Rightarrow> world \<Rightarrow> world \<Rightarrow> nat \<Rightarrow> bool" where
  "due_after t res w w' p \<longleftrightarrow> set (ts_of w' p) = {x \<in> set (ts_of w p). \<not> due t w x \<or> res x \<noteq> 0} \<and>
     (\<forall>x \<in> set (ts_of w' p). deadline w' x = (if due t w x then t + res x else deadline w x))"

lemma timers_ok_queued: "timers_ok w \<Longrightarrow> p \<in> set (w_timerObjQ w) \<Longrightarrow> \<exists>ob. w_objs w p = Some ob"
  by (auto simp: timers_ok_def)

lemma process_objs_run:
  assumes src: "wheel_source src t" and fns: "fixed_fns call res eff" and pos: "\<forall>x. res x = 0 \<or> 0 < sint (res x)"
  shows "timers_ok w \<Longrightarrow> w_timerObjQ w = pre @ rest \<Longrightarrow> \<forall>p \<in> set rest. length (ts_of w p) \<le> L \<Longrightarrow>
    length rest + Suc L * Suc L + 1 \<le> n \<Longrightarrow>
    \<exists>w'. process_objs n src call t (first_of rest) w = Some w' \<and> timers_ok w' \<and>
      w_mem w' = fold eff (concat (map (\<lambda>p. filter (due t w) (ts_of w p)) rest)) (w_mem w) \<and>
      (\<forall>p \<in> set rest. due_after t res w w' p) \<and>
      (\<forall>q. q \<notin> set rest \<longrightarrow> w_objs w' q = w_objs w q) \<and>
      (\<forall>y T q. w_timers w y = Some T \<longrightarrow> to_obj T = Some q \<longrightarrow> q \<notin> set rest \<longrightarrow> w_timers w' y = Some T)"
proof (induction rest arbitrary: n w pre)
  case Nil
  then show ?case by (cases n) (auto simp: first_of_def)
next
  case (Cons p rest)
  note ok = Cons.prems(1) and Q = Cons.prems(2) and len = Cons.prems(3) and fuel = Cons.prems(4)
  obtain n' where n: "n = Suc n'" using fuel by (cases n) auto
  have dist: "distinct (pre @ p # rest)" using ok Q by (simp add: timers_ok_def)
  then have nin: "p \<notin> set rest" "p \<notin> set pre" by auto
  obtain ob where ob: "w_objs w p = Some ob" using ok Q by (auto simp: timers_ok_def)
  have ts: "ts_of w p = ob_timers ob" by (simp add: ts_of_def ob)
  have le: "length (ob_timers ob) \<le> L" using len ts by simp
  have "length (filter (due t w) (ob_timers ob)) * Suc L \<le> L * Suc L"
    using le length_filter_le [of "due t w" "ob_timers ob"] by (intro mult_le_mono1) linarith
  then have "length (filter (due t w) (ob_timers ob)) * Suc L + length (ob_timers ob) + 1 \<le> n'"
    using le fuel n by simp
  then obtain w1 ts1 where w1: "process_obj n' src call t p (first_of (ob_timers ob)) w = Some w1" "timers_ok w1"
    "timers_step p ts1 w w1" "w_mem w1 = fold eff (filter (due t w) (ob_timers ob)) (w_mem w)"
    "set ts1 = {x \<in> set (ob_timers ob). \<not> due t w x \<or> res x \<noteq> 0}"
    "\<forall>x \<in> set ts1. deadline w1 x = (if due t w x then t + res x else deadline w x)"
    using process_obj_run [OF assms ok ob, of "[]" "ob_timers ob" L n'] le by auto
  have other: "w_timers w1 y = Some T" if "w_timers w y = Some T" "to_obj T = Some q" "q \<noteq> p" for y T q
    using w1(3) that unfolding timers_step_def by blast
  have same: "ts_of w1 q = ts_of w q \<and> (\<forall>x \<in> set (ts_of w q). deadline w1 x = deadline w x \<and> due t w1 x = due t w x)"
    if q: "q \<in> set rest" for q
  proof -
    have "q \<noteq> p" using q nin by auto
    have "q \<in> set (w_timerObjQ w)" using Q q by simp
    then obtain obq where obq: "w_objs w q = Some obq" using timers_ok_queued [OF ok] by blast
    have o: "w_objs w1 q = w_objs w q" by (rule ts_of_step(2) [OF w1(3) \<open>q \<noteq> p\<close>])
    have "deadline w1 x = deadline w x" if "x \<in> set (ts_of w q)" for x
    proof -
      have "list_ok w q (ob_timers obq)" by (rule timers_ok_obj(1) [OF ok obq])
      then obtain T where "w_timers w x = Some T" "to_obj T = Some q"
        using \<open>x \<in> set (ts_of w q)\<close> obq unfolding list_ok_def ts_of_def by force
      then show ?thesis using other [of x T q] \<open>q \<noteq> p\<close> by (simp add: deadline_def)
    qed
    then show ?thesis using o by (simp add: ts_of_def due_def)
  qed
  obtain pre' where Q1: "w_timerObjQ w1 = pre' @ rest"
    using w1(3) Q nin by (cases "ts1 = []") (auto simp: timers_step_def remove1_append)
  have "\<forall>q \<in> set rest. length (ts_of w1 q) \<le> L" using len same by simp
  moreover have "length rest + Suc L * Suc L + 1 \<le> n'" using fuel n by simp
  ultimately obtain w' where w': "process_objs n' src call t (first_of rest) w1 = Some w'" "timers_ok w'"
    "w_mem w' = fold eff (concat (map (\<lambda>p. filter (due t w1) (ts_of w1 p)) rest)) (w_mem w1)"
    "\<forall>q \<in> set rest. due_after t res w1 w' q" "\<forall>q. q \<notin> set rest \<longrightarrow> w_objs w' q = w_objs w1 q"
    "\<forall>y T q. w_timers w1 y = Some T \<longrightarrow> to_obj T = Some q \<longrightarrow> q \<notin> set rest \<longrightarrow> w_timers w' y = Some T"
    using Cons.IH [OF w1(2) Q1] by blast
  have run: "process_objs n src call t (first_of (p # rest)) w = Some w'"
    using Q nin w1(1) w'(1) ob by (simp add: n first_of_def [of "p # rest"] next_of_append timers_of_def)
  have "map (\<lambda>p. filter (due t w1) (ts_of w1 p)) rest = map (\<lambda>p. filter (due t w) (ts_of w p)) rest"
    using same by (auto intro!: filter_cong)
  then have mem: "w_mem w' = fold eff (concat (map (\<lambda>p. filter (due t w) (ts_of w p)) (p # rest))) (w_mem w)"
    using w'(3) w1(4) ts by (simp del: map_eq_conv)
  have "due_after t res w w' q" if "q \<in> set (p # rest)" for q
  proof (cases "q = p")
    case True
    have "w_objs w' p = w_objs w1 p" using w'(5) nin(1) by blast
    then have ts': "ts_of w' p = ts1" using ts_of_step(1) [OF w1(3)] by (simp add: ts_of_def)
    have "deadline w' x = deadline w1 x" if "x \<in> set ts1" for x
    proof -
      obtain ob1 where o1: "w_objs w1 p = Some ob1" "ob_timers ob1 = ts1" using w1(3) unfolding timers_step_def by force
      have "list_ok w1 p ts1" using timers_ok_obj(1) [OF w1(2) o1(1)] unfolding o1(2) .
      then obtain T where "w_timers w1 x = Some T" "to_obj T = Some p" using \<open>x \<in> set ts1\<close> unfolding list_ok_def by blast
      moreover have "w_timers w' x = Some T" by (rule w'(6) [rule_format, OF calculation nin(1)])
      ultimately show ?thesis by (simp add: deadline_def)
    qed
    then have "\<forall>x \<in> set ts1. deadline w' x = (if due t w x then t + res x else deadline w x)"
      using w1(6) by metis
    then show ?thesis unfolding due_after_def True ts' ts by (intro conjI w1(5))
  next
    case False
    then have q: "q \<in> set rest" using that by simp
    from w'(4) q have da: "due_after t res w1 w' q" by blast
    note s = same [OF q]
    have "{x \<in> set (ts_of w q). \<not> due t w1 x \<or> res x \<noteq> 0} = {x \<in> set (ts_of w q). \<not> due t w x \<or> res x \<noteq> 0}"
      using s by blast
    then have set': "set (ts_of w' q) = {x \<in> set (ts_of w q). \<not> due t w x \<or> res x \<noteq> 0}"
      using da s by (simp add: due_after_def)
    have "deadline w' x = (if due t w x then t + res x else deadline w x)" if x: "x \<in> set (ts_of w' q)" for x
    proof -
      have "x \<in> set (ts_of w q)" using x set' by blast
      then show ?thesis using da x s by (simp add: due_after_def)
    qed
    then show ?thesis using set' by (simp add: due_after_def)
  qed
  moreover have "\<forall>q. q \<notin> set (p # rest) \<longrightarrow> w_objs w' q = w_objs w q"
    using w'(5) ts_of_step(2) [OF w1(3)] by simp
  moreover have "\<forall>y T q. w_timers w y = Some T \<longrightarrow> to_obj T = Some q \<longrightarrow> q \<notin> set (p # rest) \<longrightarrow> w_timers w' y = Some T"
    using w'(6) other by (metis list.set_intros(1) list.set_intros(2))
  ultimately show ?case using run w'(2) mem by blast
qed

lemma AG_ProcessTimeouts_spec:
  assumes "wheel_source src t" "fixed_fns call res eff" "\<forall>x. res x = 0 \<or> 0 < sint (res x)"
    "timers_ok w" "\<forall>p \<in> set (w_timerObjQ w). length (ts_of w p) \<le> L"
    "length (w_timerObjQ w) + Suc L * Suc L + 1 \<le> n"
  shows "\<exists>w'. AG_ProcessTimeouts n src call t w = Some w' \<and> timers_ok w' \<and>
     w_mem w' = fold eff (concat (map (\<lambda>p. filter (due t w) (ts_of w p)) (w_timerObjQ w))) (w_mem w) \<and>
     (\<forall>p \<in> set (w_timerObjQ w'). \<forall>x \<in> set (ts_of w' p). \<not> due t w' x) \<and>
     (\<forall>p \<in> set (w_timerObjQ w). due_after t res w w' p)"
proof -
  obtain w' where w': "process_objs n src call t (first_of (w_timerObjQ w)) w = Some w'" "timers_ok w'"
      "w_mem w' = fold eff (concat (map (\<lambda>p. filter (due t w) (ts_of w p)) (w_timerObjQ w))) (w_mem w)"
      "\<forall>p \<in> set (w_timerObjQ w). due_after t res w w' p"
      "\<forall>q. q \<notin> set (w_timerObjQ w) \<longrightarrow> w_objs w' q = w_objs w q"
    using process_objs_run [OF assms(1-4), of "[]" "w_timerObjQ w" L n] assms(5,6) by auto
  have "\<not> due t w' x" if pq: "p \<in> set (w_timerObjQ w')" and xq: "x \<in> set (ts_of w' p)" for p x
  proof (cases "p \<in> set (w_timerObjQ w)")
    case True
    then have da: "due_after t res w w' p" using w'(4) by blast
    then have x: "\<not> due t w x \<or> res x \<noteq> 0" "deadline w' x = (if due t w x then t + res x else deadline w x)"
      using xq by (auto simp: due_after_def)
    show ?thesis
    proof (cases "due t w x")
      case True
      then have "0 < sint (res x)" using x(1) assms(3) by auto
      then show ?thesis using x(2) True by (simp add: due_def)
    next
      case False
      then show ?thesis using x(2) by (simp add: due_def)
    qed
  next
    case False
    then have o: "w_objs w' p = w_objs w p" using w'(5) by blast
    obtain ob where "w_objs w' p = Some ob" using timers_ok_queued [OF w'(2), of p] pq by blast
    then have "ob_timers ob = []" using o False timers_ok_obj(2) [OF assms(4), of p ob] by simp
    then have "ts_of w' p = []" using \<open>w_objs w' p = Some ob\<close> by (simp add: ts_of_def)
    then show ?thesis using xq by simp
  qed
  then show ?thesis using w' unfolding AG_ProcessTimeouts_def by blast
qed

lemma AG_DelTimer_out:
  assumes "w_objs w p = Some ob" "to \<notin> set (ob_timers ob)"
  shows "AG_DelTimer src (Some p) to w = Some w"
  using assms by (simp add: AG_DelTimer_def timer_obj_def timers_of_def)

lemma del_loop_run:
  assumes src: "wheel_source src t"
  shows "timers_ok w \<Longrightarrow> w_objs w p = Some ob \<Longrightarrow> length (ob_timers ob) < n \<Longrightarrow>
    \<exists>w'. del_loop n src p (first_of (ob_timers ob)) w = Some w' \<and> timers_ok w' \<and> timers_step p [] w w' \<and> w_mem w' = w_mem w \<and>
      (\<forall>y \<in> set (ob_timers ob). w_timers w' y = None \<or> (\<exists>T. w_timers w' y = Some T \<and> to_obj T = None)) \<and>
      (\<forall>y. y \<notin> set (ob_timers ob) \<longrightarrow> w_timers w' y = w_timers w y)"
proof (induction "ob_timers ob" arbitrary: n w ob)
  case Nil
  then have "timers_step p [] w w" using timers_step_refl [of w p ob] by simp
  then show ?case using Nil by (cases n) (auto simp: first_of_def)
next
  case (Cons to ts)
  note ts = Cons.hyps(2) [symmetric] and ok = Cons.prems(1) and ob = Cons.prems(2) and fuel = Cons.prems(3)
  obtain n' where n: "n = Suc n'" using fuel by (cases n) auto
  have dist: "distinct (to # ts)" using timers_ok_obj(1) [OF ok ob] ts by (simp add: list_ok_def)
  have q: "p \<in> set (w_timerObjQ w)" using timers_ok_obj(2) [OF ok ob] ts by simp
  obtain w1 where w1: "AG_DelTimer src (Some p) to w = Some w1" "timers_ok w1" "timers_step p ts w w1"
     "\<forall>y. y \<noteq> to \<longrightarrow> w_timers w1 y = w_timers w y" "w_mem w1 = w_mem w"
     "w_timers w1 to = None \<or> (\<exists>T'. w_timers w1 to = Some T' \<and> to_obj T' = None)"
    using AG_DelTimer_spec [OF src ok ob, of to] ts by auto
  obtain ob1 where ob1: "w_objs w1 p = Some ob1" "ob_timers ob1 = ts" using w1(3) by (auto simp: timers_step_def)
  have "length (ob_timers ob1) < n'" using fuel n ob1 ts by simp
  from Cons.hyps(1) [OF ob1(2) [symmetric] w1(2) ob1(1) this]
  obtain w' where w': "del_loop n' src p (first_of ts) w1 = Some w'" "timers_ok w'" "timers_step p [] w1 w'"
     "w_mem w' = w_mem w1" "\<forall>y \<in> set ts. w_timers w' y = None \<or> (\<exists>T. w_timers w' y = Some T \<and> to_obj T = None)"
     "\<forall>y. y \<notin> set ts \<longrightarrow> w_timers w' y = w_timers w1 y"
    unfolding ob1(2) by blast
  have "next_of to (to # ts) = Some (first_of ts)" using next_of_append [of to "[]" ts] by simp
  then have run: "del_loop n src p (first_of (ob_timers ob)) w = Some w'"
    using w1(1) w'(1) ob ts by (simp add: n first_of_def [of "to # ts"] timers_of_def)
  have st: "timers_step p [] w w'"
  proof (cases "ts = []")
    case True
    then have "w' = w1" using w'(1) by (cases n') (auto simp: first_of_def)
    then show ?thesis using w1(3) True by simp
  next
    case False
    then show ?thesis using timers_step_trans [OF w1(3) w'(3)] q by simp
  qed
  have "\<forall>y \<in> set (to # ts). w_timers w' y = None \<or> (\<exists>T. w_timers w' y = Some T \<and> to_obj T = None)"
  proof
    fix y assume "y \<in> set (to # ts)"
    then show "w_timers w' y = None \<or> (\<exists>T. w_timers w' y = Some T \<and> to_obj T = None)"
      using w'(5,6) w1(6) dist by (cases "y = to") auto
  qed
  moreover have "\<forall>y. y \<notin> set (to # ts) \<longrightarrow> w_timers w' y = w_timers w y" using w'(6) w1(4) by auto
  ultimately show ?case using run w'(2,4) st w1(5) ts by (intro exI [of _ w']) simp
qed

lemma AG_DelTimers_spec:
  assumes "wheel_source src t" "timers_ok w" "w_objs w p = Some ob" "length (ob_timers ob) < n"
  shows "\<exists>w'. AG_DelTimers n src p w = Some w' \<and> timers_ok w' \<and> timers_step p [] w w' \<and> w_mem w' = w_mem w \<and>
      (\<forall>y \<in> set (ob_timers ob). w_timers w' y = None \<or> (\<exists>T. w_timers w' y = Some T \<and> to_obj T = None))"
proof -
  obtain w' where w': "del_loop n src p (first_of (ob_timers ob)) w = Some w'" "timers_ok w'" "timers_step p [] w w'"
    "w_mem w' = w_mem w" "\<forall>y \<in> set (ob_timers ob). w_timers w' y = None \<or> (\<exists>T. w_timers w' y = Some T \<and> to_obj T = None)"
    using del_loop_run [OF assms] by blast
  obtain ob' where ob': "w_objs w' p = Some ob'" "ob_timers ob' = []" using w'(3) by (auto simp: timers_step_def)
  have "ob'\<lparr>ob_timers := []\<rparr> = ob'" using ob'(2) by simp
  then have "put_obj p (ob'\<lparr>ob_timers := []\<rparr>) w' = w'" using ob'(1) by (simp add: put_obj_def fun_upd_idem)
  then have "set_timers p [] w' = Some w'" using ob' by (simp add: set_timers_def)
  then have "AG_DelTimers n src p w = Some w'" using w'(1) assms(3) by (simp add: AG_DelTimers_def timers_of_def)
  then show ?thesis using w' by blast
qed

section \<open>Adding a timer again\<close>

lemma AG_AddTimer_again_spec:
  assumes src: "wheel_source src now" and ok: "timers_ok w" and ob: "w_objs w p = Some ob"
    and ts: "ob_timers ob = us @ to # vs"
    and T: "w_timers w to = Some T" "length (ev_argv (to_fnEvent T)) = AG_EVENT_ARGS_MAX"
    and as: "list_all arg_ok as" "length as < AG_EVENT_ARGS_MAX"
  shows "if \<forall>u \<in> set us. deadline w u \<le> now + ival
    then \<exists>w'. AG_AddTimer src (Some p) to ival (Some f) (Some (args_fmt as)) (map (\<lambda>a. snd (snd a)) as) w = Some (0, w') \<and>
      timers_ok w' \<and> ts_of w' p = ins_after (deadline w') to (us @ vs) \<and> deadline w' to = now + ival
    else AG_AddTimer src (Some p) to ival (Some f) (Some (args_fmt as)) (map (\<lambda>a. snd (snd a)) as) w = None"
proof -
  note s = src [unfolded wheel_source_def]
  have lo: "list_ok w p (us @ to # vs)" using timers_ok_obj(1) [OF ok ob] ts by simp
  have dist: "distinct (us @ to # vs)" using lo by (simp add: list_ok_def)
  have To: "to_obj T = Some p" using lo T by (auto simp: list_ok_def)
  define d where "d = now + ival"
  define w2 where "w2 = put_timer to (T\<lparr>to_tSched := d\<rparr>) w"
  have "\<forall>y \<in> set (us @ to # vs). w_timers w2 y \<noteq> None" using lo by (auto simp: list_ok_def w2_def)
  note ins = wheel_insert_again [OF this dist, of d]
  have dlu: "u \<in> set us \<Longrightarrow> deadline w2 u = deadline w u" for u
    using dist by (auto simp: deadline_def w2_def)
  have key: "dl_key w2 to d = deadline w2" by (auto simp: dl_key_def deadline_def w2_def)
  show ?thesis
  proof (cases "\<forall>u \<in> set us. deadline w u \<le> d")
    case True
    define ts' where "ts' = ins_after (deadline w2) to (us @ vs)"
    have ins': "wheel_insert w2 to d (us @ to # vs) = Some (True, ts')" using ins True dlu key by (simp add: ts'_def)
    define w3 where "w3 = put_timer to (T\<lparr>to_tSched := d, to_ival := ival, to_id := 0\<rparr>) (put_obj p (ob\<lparr>ob_timers := ts'\<rparr>) w2)"
    have add: "add_wheel src p to ival w = Some (False, w3)"
      using T To ob ts s ins' by (simp add: add_wheel_def timers_of_def Let_def d_def [symmetric] w2_def [symmetric])
        (simp add: w2_def set_timers_def w3_def)
    obtain e1 V argv e2 where e: "AG_EventInit (to_fnEvent T) = Some e1" "rd (ev_argv e1) 0 = Some V"
       "wr (ev_argv e1) 0 (V\<lparr>v_data := C_p (Some p)\<rparr>) = Some argv"
       "GET_ARGS (Some (args_fmt as)) (map (\<lambda>a. snd (snd a)) as) (e1\<lparr>ev_argv := argv\<rparr>) = Some e2"
      using timer_args [OF T(2) as] by blast
    define T' where "T' = T\<lparr>to_tSched := d, to_ival := ival, to_id := 0, to_fn := Some f, to_fnEvent := e2\<lparr>ev_argc0 := ev_argc e2\<rparr>\<rparr>"
    have run: "AG_AddTimer src (Some p) to ival (Some f) (Some (args_fmt as)) (map (\<lambda>a. snd (snd a)) as) w = Some (0, put_timer to T' w3)"
      using s add e by (simp add: AG_AddTimer_def timer_obj_def T'_def Let_def w3_def)
    have dl: "deadline (put_timer to T' w3) = deadline w2"
      by (auto simp: deadline_def w3_def w2_def T'_def)
    have t': "w_timers (put_timer to T' w3) = (w_timers w)(to \<mapsto> T')" by (simp add: w3_def w2_def)
    have st: "timers_step p ts' w (put_timer to T' w3)"
    proof -
      have "ts' \<noteq> []" unfolding ts'_def by (metis set_ins_after insert_not_empty list.set(1))
      moreover have "p \<in> set (w_timerObjQ w)" using timers_ok_obj [OF ok ob] ts by simp
      ultimately show ?thesis using ob T To by (auto simp: timers_step_def w3_def w2_def)
    qed
    have nin: "to \<notin> set (us @ vs)" using dist by auto
    have "map (deadline w2) (us @ vs) = map (deadline w) (us @ vs)" using nin by (auto simp: deadline_def w2_def)
    moreover have "sorted (map (deadline w) (us @ vs))" using lo by (auto simp: list_ok_def sorted_append)
    ultimately have "sorted (map (deadline w2) (us @ vs))" by (simp only:)
    then have "list_ok (put_timer to T' w3) p ts'" using lo nin dist To
      unfolding list_ok_def ts'_def dl t' by (auto simp: T'_def intro: sorted_ins_after)
    then have ok': "timers_ok (put_timer to T' w3)" by (rule timers_ok_step [OF ok st])
    have "ts_of (put_timer to T' w3) p = ts'" by (simp add: ts_of_def w3_def)
    moreover have "deadline w2 to = d" by (simp add: deadline_def w2_def)
    ultimately show ?thesis using run True ok' dl by (simp add: ts'_def d_def [symmetric])
  next
    case False
    then have "wheel_insert w2 to d (us @ to # vs) = None" using ins dlu by auto
    then have "add_wheel src p to ival w = None"
      using T To ob ts s by (simp add: add_wheel_def timers_of_def Let_def d_def [symmetric] w2_def [symmetric])
    then have "AG_AddTimer src (Some p) to ival (Some f) (Some (args_fmt as)) (map (\<lambda>a. snd (snd a)) as) w = None"
      using s by (simp add: AG_AddTimer_def timer_obj_def)
    then show ?thesis using False by (simp add: d_def [symmetric])
  qed
qed

section \<open>Reachable states\<close>

inductive timers_reach :: "world \<Rightarrow> world \<Rightarrow> bool" for w0 where
  start: "timers_reach w0 w0"
| new_timer: "timers_reach w0 w \<Longrightarrow> w_timers w to = None \<Longrightarrow>
    timers_reach w0 (put_timer to (AG_InitTimer name flags blank_timer) w)"
| add: "timers_reach w0 w \<Longrightarrow> wheel_source src now \<Longrightarrow> w_objs w p \<noteq> None \<Longrightarrow>
    w_timers w to = Some T \<Longrightarrow> to_obj T = None \<Longrightarrow> length (ev_argv (to_fnEvent T)) = AG_EVENT_ARGS_MAX \<Longrightarrow>
    list_all arg_ok as \<Longrightarrow> length as < AG_EVENT_ARGS_MAX \<Longrightarrow>
    AG_AddTimer src (Some p) to ival (Some f) (Some (args_fmt as)) (map (\<lambda>a. snd (snd a)) as) w = Some (r, w') \<Longrightarrow>
    timers_reach w0 w'"
| again: "timers_reach w0 w \<Longrightarrow> wheel_source src now \<Longrightarrow> w_objs w p = Some ob \<Longrightarrow> ob_timers ob = us @ to # vs \<Longrightarrow>
    w_timers w to = Some T \<Longrightarrow> length (ev_argv (to_fnEvent T)) = AG_EVENT_ARGS_MAX \<Longrightarrow>
    list_all arg_ok as \<Longrightarrow> length as < AG_EVENT_ARGS_MAX \<Longrightarrow>
    AG_AddTimer src (Some p) to ival (Some f) (Some (args_fmt as)) (map (\<lambda>a. snd (snd a)) as) w = Some (r, w') \<Longrightarrow>
    timers_reach w0 w'"
| reset: "timers_reach w0 w \<Longrightarrow> wheel_source src now \<Longrightarrow> AG_TimerIsRunning src (Some p) to w = Some True \<Longrightarrow>
    AG_ResetTimer src (Some p) to ival w = Some (r, w') \<Longrightarrow> timers_reach w0 w'"
| del: "timers_reach w0 w \<Longrightarrow> wheel_source src now \<Longrightarrow> AG_DelTimer src (Some p) to w = Some w' \<Longrightarrow> timers_reach w0 w'"
| del_all: "timers_reach w0 w \<Longrightarrow> wheel_source src now \<Longrightarrow> w_objs w p = Some ob \<Longrightarrow> length (ob_timers ob) < n \<Longrightarrow>
    AG_DelTimers n src p w = Some w' \<Longrightarrow> timers_reach w0 w'"
| process: "timers_reach w0 w \<Longrightarrow> wheel_source src t \<Longrightarrow> fixed_fns call res eff \<Longrightarrow>
    \<forall>x. res x = 0 \<or> 0 < sint (res x) \<Longrightarrow> \<forall>p \<in> set (w_timerObjQ w). length (ts_of w p) \<le> L \<Longrightarrow>
    length (w_timerObjQ w) + Suc L * Suc L + 1 \<le> n \<Longrightarrow>
    AG_ProcessTimeouts n src call t w = Some w' \<Longrightarrow> timers_reach w0 w'"

lemma timers_ok_new_timer:
  assumes "timers_ok w" "w_timers w to = None"
  shows "timers_ok (put_timer to T w)"
proof -
  have "list_ok (put_timer to T w) p (ob_timers ob)" if "w_objs w p = Some ob" for p ob
  proof -
    have l: "list_ok w p (ob_timers ob)" by (rule timers_ok_obj(1) [OF assms(1) that])
    then have "to \<notin> set (ob_timers ob)" using assms(2) by (auto simp: list_ok_def)
    then show ?thesis by (intro list_ok_cong [OF l]) auto
  qed
  then show ?thesis using assms(1) by (simp add: timers_ok_def)
qed

lemma timers_reach_ok: "timers_reach w0 w \<Longrightarrow> timers_ok w0 \<Longrightarrow> timers_ok w"
proof (induction rule: timers_reach.induct)
  case (new_timer w to name flags)
  then show ?case by (simp add: timers_ok_new_timer)
next
  case (add w src now p to T as ival f r w')
  then obtain ob where "w_objs w p = Some ob" by auto
  with add show ?case using AG_AddTimer_spec [of src now w p ob to T as ival f] by auto
next
  case (again w src now p ob us to vs T as ival f r w')
  then show ?case using AG_AddTimer_again_spec [of src now w p ob us to vs T as ival f] by (auto split: if_splits)
next
  case (reset w src now p to ival r w')
  then obtain ob where ob: "w_objs w p = Some ob" "to \<in> set (ob_timers ob)"
    by (auto simp: AG_TimerIsRunning_def timer_obj_def timers_of_def bind_eq_Some_conv)
  with reset show ?case using AG_ResetTimer_spec [of src now w p ob to ival] by auto
next
  case (del w src now p to w')
  then obtain ob where ob: "w_objs w p = Some ob"
    by (auto simp: AG_DelTimer_def timer_obj_def timers_of_def bind_eq_Some_conv Let_def)
  show ?case
  proof (cases "to \<in> set (ob_timers ob)")
    case True
    then show ?thesis using del ob AG_DelTimer_spec [of src now w p ob to] by auto
  next
    case False
    then show ?thesis using del AG_DelTimer_out [OF ob] by simp
  qed
next
  case (del_all w src now p ob n w')
  then show ?case using AG_DelTimers_spec [of src now w p ob n] by auto
next
  case (process w src t call res eff L n w')
  then show ?case using AG_ProcessTimeouts_spec [of src t call res eff w L n] by auto
qed

section \<open>Scheduled events\<close>

lemma with_args_after: "ev_argc ev + length as \<le> j \<Longrightarrow> ev_argv (with_args as ev) ! j = ev_argv ev ! j"
  by (induction as arbitrary: ev) auto

lemma timer_args_after:
  assumes "length (ev_argv ev) = AG_EVENT_ARGS_MAX" "list_all arg_ok as" "length as < AG_EVENT_ARGS_MAX"
    "AG_EventInit ev = Some e1" "wr (ev_argv e1) 0 V = Some argv"
    "GET_ARGS (Some (args_fmt as)) (map (\<lambda>a. snd (snd a)) as) (e1\<lparr>ev_argv := argv\<rparr>) = Some e2"
    "1 + length as \<le> j"
  shows "ev_argv e2 ! j = ev_argv ev ! j"
proof -
  have c: "ev_argc e1 = 1" "ev_argv e1 = (ev_argv ev)[0 := InitPointerArg None (ev_argv ev ! 0)]"
    using assms(1,4) by (auto simp: AG_EventInit_def InitEvent_def set_ptr_arg_def buf_simps)
  have "argv = (ev_argv e1)[0 := V]" "length argv = AG_EVENT_ARGS_MAX" using assms(1,5) c by (auto simp: wr_Some_iff)
  moreover have "e2 = with_args as (e1\<lparr>ev_argv := argv\<rparr>)"
    using assms(2,3,6) c(1) calculation(2) by (simp add: GET_ARGS_def push_args_ok)
  ultimately show ?thesis using assms(7) c by (simp add: with_args_after)
qed

lemma AG_SchedEvent_spec:
  assumes src: "wheel_source src now" and wok: "world_ok w" and ok: "timers_ok w" and ob: "w_objs w rcvr = Some ob"
    and name: "get_cstr evname w = Some name" and as: "list_all arg_ok as" "length as < AG_EVENT_ARGS_MAX"
  shows "\<exists>w' T. AG_SchedEvent src fn sndr rcvr ticks evname (Some (args_fmt as)) (map (\<lambda>a. snd (snd a)) as) w = Some (0, w') \<and>
     timers_ok w' \<and> ts_of w' rcvr = ins_after (deadline w') (w_brk w) (ob_timers ob) \<and>
     w_timers w' (w_brk w) = Some T \<and> to_fn T = Some fn \<and> to_tSched T = now + ticks \<and>
     event_is rcvr [] None as (to_fnEvent T) \<and>
     v_data (ev_argv (to_fnEvent T) ! 1) = (case as of [] \<Rightarrow> C_p sndr | a # _ \<Rightarrow> snd (snd a)) \<and>
     v_data (ev_argv (to_fnEvent T) ! 2) = (case as of _ # b # _ \<Rightarrow> snd (snd b) | _ \<Rightarrow> C_s evname)"
proof -
  define to where "to = w_brk w"
  define T0 where "T0 = AG_InitTimer (Some name) AG_TIMER_AUTO_FREE blank_timer"
  define w1 where "w1 = put_timer to T0 (w\<lparr>w_brk := Suc to\<rparr>)"
  have T0: "to_obj T0 = None" "to_fnEvent T0 = blank_event" by (simp_all add: T0_def AG_InitTimer_def blank_timer_def)
  have "w_timers w to = None" using wok by (simp add: world_ok_def to_def)
  moreover have "timers_ok (w\<lparr>w_brk := Suc to\<rparr>)"
    using ok by (auto simp: timers_ok_def list_ok_def deadline_def cong: map_cong)
  ultimately have ok1: "timers_ok w1" by (simp add: w1_def timers_ok_new_timer)
  define as0 :: "earg list" where "as0 = [(''p'', [], C_p sndr), (''s'', [], C_s evname)]"
  have a0: "list_all arg_ok as0" "args_fmt as0 = ''%p,%s''" "map (\<lambda>a. snd (snd a)) as0 = [C_p sndr, C_s evname]"
    by (simp_all add: as0_def arg_ok_def arg_fmt_def conv_kind_def is_simps)
  have "length as0 < AG_EVENT_ARGS_MAX" "w_objs w1 rcvr = Some ob" "w_timers w1 to = Some T0"
    "length (ev_argv (to_fnEvent T0)) = AG_EVENT_ARGS_MAX" by (simp_all add: as0_def w1_def ob T0)
  from AG_AddTimer_spec [OF src ok1 this(2,3) T0(1) this(4) a0(1) this(1), of ticks fn]
  obtain w2 T1 where add: "AG_AddTimer src (Some rcvr) to ticks (Some fn) (Some ''%p,%s'') [C_p sndr, C_s evname] w1 = Some (0, w2)"
     "timers_ok w2" "timers_step rcvr (ins_after (deadline w2) to (ob_timers ob)) w1 w2" "w_timers w2 = (w_timers w1)(to \<mapsto> T1)"
     "to_obj T1 = Some rcvr" "to_tSched T1 = now + ticks" "to_fn T1 = Some fn"
     "event_is rcvr [] None as0 (to_fnEvent T1)"
    unfolding a0 T0 by (auto simp: blank_event_def)
  have L1: "length (ev_argv (to_fnEvent T1)) = AG_EVENT_ARGS_MAX" "ev_name (to_fnEvent T1) = []"
    "v_data (ev_argv (to_fnEvent T1) ! 1) = C_p sndr" "v_data (ev_argv (to_fnEvent T1) ! 2) = C_s evname"
    using add(8) by (auto simp: event_is_def as0_def less_Suc_eq numeral_2_eq_2)
  obtain e1 V argv e2 where e: "AG_EventInit (to_fnEvent T1) = Some e1" "rd (ev_argv e1) 0 = Some V"
     "wr (ev_argv e1) 0 (V\<lparr>v_data := C_p (Some rcvr)\<rparr>) = Some argv"
     "GET_ARGS (Some (args_fmt as)) (map (\<lambda>a. snd (snd a)) as) (e1\<lparr>ev_argv := argv\<rparr>) = Some e2"
     "event_is rcvr (ev_name (to_fnEvent T1)) None as (e2\<lparr>ev_argc0 := ev_argc e2\<rparr>)"
    using timer_args [OF L1(1) as] by blast
  define T where "T = T1\<lparr>to_fnEvent := e2\<lparr>ev_argc0 := ev_argc e2\<rparr>\<rparr>"
  define w' where "w' = put_timer to T w2"
  have run: "AG_SchedEvent src fn sndr rcvr ticks evname (Some (args_fmt as)) (map (\<lambda>a. snd (snd a)) as) w = Some (0, w')"
    using name add(1,4) e(1-4) by (simp add: AG_SchedEvent_def fresh_def Let_def to_def [symmetric] T0_def [symmetric]
      w1_def [symmetric] w'_def T_def)
  have dl: "deadline w' = deadline w2" by (auto simp: deadline_def w'_def T_def add(4))
  have ts: "ts_of w' rcvr = ins_after (deadline w') to (ob_timers ob)"
    using ts_of_step(1) [OF add(3)] by (simp add: dl) (simp add: ts_of_def w'_def)
  have "list_ok w' p ts" if "list_ok w2 p ts" for p ts
    using that add(4) unfolding list_ok_def dl by (auto simp: w'_def T_def)
  then have ok': "timers_ok w'" using add(2) by (simp add: timers_ok_def w'_def)
  note after = timer_args_after [OF L1(1) as e(1,3,4)]
  have arg: "v_data (ev_argv e2 ! (1 + i)) = snd (snd (as ! i))" if "i < length as" for i
    using e(5) that by (cases "as ! i") (force simp: event_is_def)
  have 1: "v_data (ev_argv e2 ! 1) = (case as of [] \<Rightarrow> C_p sndr | a # _ \<Rightarrow> snd (snd a))"
    using after [of 1] arg [of 0] L1(3) by (cases as) auto
  have 2: "v_data (ev_argv e2 ! 2) = (case as of _ # b # _ \<Rightarrow> snd (snd b) | _ \<Rightarrow> C_s evname)"
    using after [of 2] arg [of 1] L1(4) by (auto split: list.split simp: numeral_2_eq_2)
  show ?thesis using run ok' ts 1 2 add(6,7) e(5) L1(2)
    by (intro exI [of _ w'] exI [of _ T]) (simp add: T_def w'_def to_def)
qed

section \<open>Properties\<close>

text \<open>
  Two objects in the queue: 0 with a timer that expires at 5 and one at 20, 1 with one that
  expires at 3.
\<close>

definition test_timer :: "nat \<Rightarrow> 32 word \<Rightarrow> AG_Timer" where
  "test_timer p d = blank_timer\<lparr>to_obj := Some p, to_tSched := d, to_fn := Some 90\<rparr>"

definition timer_world :: world where
  "timer_world = blank_world\<lparr>
     w_objs := [0 \<mapsto> blank_obj\<lparr>ob_timers := [10, 11]\<rparr>, 1 \<mapsto> blank_obj\<lparr>ob_timers := [12]\<rparr>],
     w_timers := [10 \<mapsto> test_timer 0 5, 11 \<mapsto> test_timer 0 20, 12 \<mapsto> test_timer 1 3],
     w_mem := [30 \<mapsto> M_buf (''ev'' @ [NUL])],
     w_timerObjQ := [0, 1], w_brk := 40\<rparr>"

definition wheel_at :: "32 word \<Rightarrow> AG_EventSource" where
  "wheel_at now = \<lparr>src_timer_cap = False, src_addTimerFn = None, src_delTimerFn = None, src_ticks = (\<lambda>_. now), src_mgr = 99\<rparr>"

lemma wheel_at_source: "wheel_source (wheel_at now) now"
  by (simp add: wheel_source_def wheel_at_def)

lemma timer_world_ok: "timers_ok timer_world" "world_ok timer_world"
  by (auto simp: timers_ok_def list_ok_def world_ok_def timer_world_def blank_world_def blank_obj_def
    deadline_def test_timer_def blank_timer_def split: if_splits)

text \<open>Timer 12 is restarted after 4 ticks, timer 10 is not; each call leaves a mark.\<close>

definition test_res :: "nat \<Rightarrow> 32 word" where
  "test_res x = (if x = 12 then 4 else 0)"

definition test_eff :: "nat \<Rightarrow> (nat \<Rightarrow> memobj option) \<Rightarrow> (nat \<Rightarrow> memobj option)" where
  "test_eff x m = m(100 + x \<mapsto> M_cell (C_i (case m (100 + x) of Some (M_cell (C_i k)) \<Rightarrow> k + 1 | _ \<Rightarrow> 1)))"

definition test_fns :: timer_fns where
  "test_fns f x ev w = Some (test_res x, w\<lparr>w_mem := test_eff x (w_mem w)\<rparr>)"



text \<open>
  C4: in every state that starting, changing, cancelling and running timers reaches, the
  timers of every object are distinct, belong to the object and are sorted by the time they
  expire, and \<open>agTimerObjQ\<close> holds exactly the objects that have timers, each once.  The source
  is one without timers of its own (the wheel of core/timeout.c).  Timers may be started while they run,
  but only where that has a result, which by \<open>AG_AddTimer_again\<close> is when no timer before it expires later than its new time:
  otherwise the code inserts it twice and the queue becomes a cycle.  Timers are run with callbacks that change the
  memory of the application only, with a result that is fixed for each timer and is no restart of \<open>2 ^ 31\<close> ticks or more;
  callbacks that start or cancel timers are not covered.
\<close>

theorem timers_stay_ordered:
  assumes "timers_reach w0 w" "timers_ok w0"
  shows "distinct (w_timerObjQ w) \<and> (\<forall>p ob. w_objs w p = Some ob \<longrightarrow>
     distinct (ob_timers ob) \<and> sorted (map (deadline w) (ob_timers ob)) \<and>
     (\<forall>y \<in> set (ob_timers ob). \<exists>T. w_timers w y = Some T \<and> to_obj T = Some p) \<and>
     (p \<in> set (w_timerObjQ w) \<longleftrightarrow> ob_timers ob \<noteq> []))"
  using timers_reach_ok [OF assms] unfolding timers_ok_def list_ok_def by meson

theorem timers_stay_ordered_witness:
  "\<exists>w. timers_reach timer_world w \<and> w_timerObjQ w = [0, 1] \<and> sorted (map (deadline w) [11, 10])"
proof -
  obtain w' where w': "AG_ResetTimer (wheel_at 7) (Some 0) 10 30 timer_world = Some (0, w')"
    and st: "timers_step 0 (ins_after (deadline w') 10 [11]) timer_world w'"
    and m: "w_timers w' = (w_timers timer_world)(10 \<mapsto> (test_timer 0 5)\<lparr>to_tSched := 37, to_ival := 30\<rparr>)"
    using AG_ResetTimer_spec [OF wheel_at_source timer_world_ok(1), of 0 "blank_obj\<lparr>ob_timers := [10, 11]\<rparr>" 10 7 30]
    by (auto simp: timer_world_def)
  have "timers_reach timer_world w'"
    by (rule timers_reach.reset [OF timers_reach.start wheel_at_source _ w'])
       (simp add: AG_TimerIsRunning_def timer_obj_def timers_of_def timer_world_def)
  moreover have ts: "ins_after (deadline w') 10 [11] = [11, 10]" by (simp add: deadline_def m timer_world_def test_timer_def)
  moreover have q: "w_timerObjQ w' = [0, 1]" using st ts by (simp add: timers_step_def timer_world_def)
  moreover obtain ob where "w_objs w' 0 = Some ob" "ob_timers ob = [11, 10]"
    using st unfolding ts by (auto simp: timers_step_def)
  ultimately show ?thesis using timers_stay_ordered [OF _ timer_world_ok(1), of w'] by metis
qed

text \<open>
  \<open>AG_AddTimer\<close> on a timer that is already running moves it only when no timer before it
  expires later than the new time; otherwise the search stops at that timer before it meets
  the timer itself, which is then inserted a second time, with no value in the model (and a
  cyclic queue in memory, see \<open>TAILQ_double_insert\<close>).
\<close>

theorem AG_AddTimer_again:
  assumes "wheel_source src now" "timers_ok w" "w_objs w p = Some ob" "ob_timers ob = us @ to # vs"
    "w_timers w to = Some T" "length (ev_argv (to_fnEvent T)) = AG_EVENT_ARGS_MAX"
    "list_all arg_ok as" "length as < AG_EVENT_ARGS_MAX"
  shows "if \<forall>u \<in> set us. deadline w u \<le> now + ival
    then \<exists>w'. AG_AddTimer src (Some p) to ival (Some f) (Some (args_fmt as)) (map (\<lambda>a. snd (snd a)) as) w = Some (0, w') \<and>
      timers_ok w' \<and> ts_of w' p = ins_after (deadline w') to (us @ vs) \<and> deadline w' to = now + ival
    else AG_AddTimer src (Some p) to ival (Some f) (Some (args_fmt as)) (map (\<lambda>a. snd (snd a)) as) w = None"
  using assms by (rule AG_AddTimer_again_spec)

theorem AG_AddTimer_again_witness:
  "AG_AddTimer (wheel_at 1) (Some 0) 11 2 (Some 90) (Some []) [] timer_world = None \<and>
   (\<exists>w'. AG_AddTimer (wheel_at 1) (Some 0) 11 9 (Some 90) (Some []) [] timer_world = Some (0, w') \<and> deadline w' 11 = 10)"
proof -
  have w: "w_objs timer_world 0 = Some (blank_obj\<lparr>ob_timers := [10, 11]\<rparr>)" "w_timers timer_world 11 = Some (test_timer 0 20)"
    "length (ev_argv (to_fnEvent (test_timer 0 20))) = AG_EVENT_ARGS_MAX" "deadline timer_world 10 = 5"
    by (simp_all add: timer_world_def test_timer_def blank_timer_def deadline_def)
  note add = AG_AddTimer_again [OF wheel_at_source timer_world_ok(1) w(1) _ w(2,3), of "[10]" "[]" "[]" 1]
  show ?thesis using add [of 2 90] add [of 9 90] w(4) by auto
qed

text \<open>
  \<open>AG_SchedEvent\<close> starts a timer that calls \<open>EventTimeout\<close>, which takes arguments 1 and 2 of
  the timer's event as the sender and the name of the event to post.  They are the sender
  and the name only when no further arguments are given: those given to \<open>AG_SchedEvent\<close> are
  stored over them, and are not appended to the arguments of the handler.
\<close>

theorem AG_SchedEvent_args:
  assumes "wheel_source src now" "world_ok w" "timers_ok w" "w_objs w rcvr = Some ob"
    "get_cstr evname w = Some name" "list_all arg_ok as" "length as < AG_EVENT_ARGS_MAX"
  shows "\<exists>w' T. AG_SchedEvent src fn sndr rcvr ticks evname (Some (args_fmt as)) (map (\<lambda>a. snd (snd a)) as) w = Some (0, w') \<and>
     timers_ok w' \<and> ts_of w' rcvr = ins_after (deadline w') (w_brk w) (ob_timers ob) \<and>
     w_timers w' (w_brk w) = Some T \<and> to_fn T = Some fn \<and> to_tSched T = now + ticks \<and>
     event_is rcvr [] None as (to_fnEvent T) \<and>
     v_data (ev_argv (to_fnEvent T) ! 1) = (case as of [] \<Rightarrow> C_p sndr | a # _ \<Rightarrow> snd (snd a)) \<and>
     v_data (ev_argv (to_fnEvent T) ! 2) = (case as of _ # b # _ \<Rightarrow> snd (snd b) | _ \<Rightarrow> C_s evname)"
  using assms by (rule AG_SchedEvent_spec)

theorem AG_SchedEvent_args_witness:
  "\<exists>w' T. AG_SchedEvent (wheel_at 7) 91 (Some 1) 0 6 (Some 30) (Some ''%i'') [C_i 8] timer_world = Some (0, w') \<and>
     w_timers w' 40 = Some T \<and> to_tSched T = 13 \<and> v_data (ev_argv (to_fnEvent T) ! 1) = C_i 8 \<and>
     EventTimeout 9 log_call (to_fnEvent T) w' = None"
proof -
  define as :: "earg list" where "as = [(''i'', [], C_i 8)]"
  have as: "list_all arg_ok as" "args_fmt as = ''%i''" "map (\<lambda>a. snd (snd a)) as = [C_i 8]" "length as < AG_EVENT_ARGS_MAX"
    by (simp_all add: as_def arg_ok_def arg_fmt_def conv_kind_def is_simps)
  have w: "w_objs timer_world 0 = Some (blank_obj\<lparr>ob_timers := [10, 11]\<rparr>)"
    "get_cstr (Some 30) timer_world = Some ''ev''" "w_brk timer_world = 40"
    by (simp_all add: timer_world_def get_cstr_def cstr_def terminated_def)
  from AG_SchedEvent_args [OF wheel_at_source timer_world_ok(2,1) w(1,2) as(1,4), of 7 91 "Some 1" 6]
  obtain w' T where "AG_SchedEvent (wheel_at 7) 91 (Some 1) 0 6 (Some 30) (Some ''%i'') [C_i 8] timer_world = Some (0, w')"
    "w_timers w' 40 = Some T" "to_tSched T = 13" "v_data (ev_argv (to_fnEvent T) ! 1) = C_i 8"
    unfolding as w(3) by (auto simp: as_def)
  moreover from calculation(4) have "EventTimeout 9 log_call (to_fnEvent T) w' = None"
    by (simp add: EventTimeout_def rd_def bind_eq_None_conv split: option.split)
  ultimately show ?thesis by blast
qed

end
