(* ===== verification/Objects.thy ===== *)
theory Objects
  imports Timers Variables
begin

text \<open>
  The objects of core/object.c and core/object.h: their life cycle, the tree of a virtual
  file system and its path names, dependencies, and the generation of names.

  A path, where the code works with \<open>memmove\<close> in a buffer, is that buffer; elsewhere it is
  the string the buffer holds, cut to the size of the buffer by \<open>str_cpy\<close> and \<open>str_cat\<close>.
  The routines of classes, the event handlers, the event source, the configuration object
  and the test for a file are parameters (\<open>obj_env\<close>).
\<close>

record obj_env =
  oe_hooks :: hooks
  oe_src :: AG_EventSource
  oe_init :: "nat \<Rightarrow> (nat \<Rightarrow> world \<Rightarrow> world option) option"
  oe_reinit :: "nat \<Rightarrow> (nat \<Rightarrow> world \<Rightarrow> world option) option"
  oe_destroy :: "nat \<Rightarrow> (nat \<Rightarrow> world \<Rightarrow> world option) option"
  oe_config :: nat
  oe_exists :: "string \<Rightarrow> bool"

definition AG_OBJECT_NON_PERSISTENT :: "32 word" where "AG_OBJECT_NON_PERSISTENT = 0x00002"
definition AG_OBJECT_RESIDENT :: "32 word" where "AG_OBJECT_RESIDENT = 0x00008"
definition AG_OBJECT_PRESERVE_DEPS :: "32 word" where "AG_OBJECT_PRESERVE_DEPS = 0x00010"
definition AG_OBJECT_STATIC :: "32 word" where "AG_OBJECT_STATIC = 0x00020"
definition AG_OBJECT_REMAIN_DATA :: "32 word" where "AG_OBJECT_REMAIN_DATA = 0x00400"
definition AG_OBJECT_NAME_ONATTACH :: "32 word" where "AG_OBJECT_NAME_ONATTACH = 0x01000"

abbreviation AG_PATHNAME_MAX :: nat where "AG_PATHNAME_MAX \<equiv> 1024"
abbreviation AG_PATHSEPCHAR :: char where "AG_PATHSEPCHAR \<equiv> CHR ''/''"

definition upd_obj :: "nat \<Rightarrow> (AG_Object \<Rightarrow> AG_Object) \<Rightarrow> world \<Rightarrow> world option" where
  "upd_obj p f w = do { ob \<leftarrow> w_objs w p; Some (put_obj p (f ob) w) }"

definition set_flag :: "32 word \<Rightarrow> AG_Object \<Rightarrow> AG_Object" where
  "set_flag fl ob = ob\<lparr>ob_flags := ob_flags ob OR fl\<rparr>"

definition clear_flag :: "32 word \<Rightarrow> AG_Object \<Rightarrow> AG_Object" where
  "clear_flag fl ob = ob\<lparr>ob_flags := ob_flags ob AND NOT fl\<rparr>"

section \<open>Names\<close>

definition AG_ObjectSetNameS :: "nat \<Rightarrow> string \<Rightarrow> world \<Rightarrow> world option" where
  "AG_ObjectSetNameS p name w = upd_obj p (\<lambda>ob. ob\<lparr>ob_name :=
     map (\<lambda>c. if c = CHR ''/'' \<or> c = CHR 0x5C then CHR ''_'' else c) (str_cpy AG_OBJECT_NAME_MAX name)\<rparr>) w"

text \<open>\<open>s\<close> is what the format and its arguments expand to; no format clears the name.\<close>

definition AG_ObjectSetName :: "nat \<Rightarrow> string option \<Rightarrow> world \<Rightarrow> world option" where
  "AG_ObjectSetName p s w = AG_ObjectSetNameS p (case s of None \<Rightarrow> [] | Some s \<Rightarrow> s) w"

text \<open>The results of \<open>f\<close> on a list, when it has one everywhere.\<close>

fun map_opt :: "('a \<Rightarrow> 'b option) \<Rightarrow> 'a list \<Rightarrow> 'b list option" where
  "map_opt f [] = Some []"
| "map_opt f (x # xs) = do { y \<leftarrow> f x; ys \<leftarrow> map_opt f xs; Some (y # ys) }"

definition child_names :: "nat option \<Rightarrow> world \<Rightarrow> string list option" where
  "child_names p w = (case p of
     None \<Rightarrow> Some []
   | Some q \<Rightarrow> do { ob \<leftarrow> w_objs w q; map_opt (\<lambda>c. do { ch \<leftarrow> w_objs w c; Some (ob_name ch) }) (ob_children ob) })"

text \<open>
  The generated names: \<open>tryname\<close> until no child has the name.  \<open>i\<close> is a 32-bit counter.
\<close>

partial_function (option) gen_name ::
  "string \<Rightarrow> string list \<Rightarrow> nat \<Rightarrow> 32 word \<Rightarrow> char list \<Rightarrow> char list option" where
  "gen_name pfx names len i buf = do {
     (buf, _) \<leftarrow> AG_Strlcpy buf (pfx @ [NUL]) len;
     (buf, _) \<leftarrow> AG_StrlcatUint buf (unat i) len;
     if cstr buf \<in> set names then gen_name pfx names len (i + 1) buf else Some buf
   }"

partial_function (option) gen_class_name ::
  "string \<Rightarrow> string list \<Rightarrow> nat \<Rightarrow> 32 word \<Rightarrow> char list \<Rightarrow> char list option" where
  "gen_class_name cname names len i buf = do {
     (buf, _) \<leftarrow> AG_Strlcpy buf (cname @ [NUL]) len;
     (buf, _) \<leftarrow> AG_Strlcat buf ('' #'' @ [NUL]) len;
     (buf, _) \<leftarrow> AG_StrlcatUint buf (unat i) len;
     if cstr buf \<in> set names then gen_class_name cname names len (i + 1) buf else Some buf
   }"

definition AG_ObjectGenName :: "nat option \<Rightarrow> nat \<Rightarrow> char list \<Rightarrow> nat \<Rightarrow> world \<Rightarrow> char list option" where
  "AG_ObjectGenName p cl name len w = do {
     names \<leftarrow> child_names p w;
     gen_class_name (cl_name (cl_mem (w_reg w) cl)) names len 0 name
   }"

definition AG_ObjectGenNamePfx :: "nat option \<Rightarrow> string \<Rightarrow> char list \<Rightarrow> nat \<Rightarrow> world \<Rightarrow> char list option" where
  "AG_ObjectGenNamePfx p pfx name len w = do {
     names \<leftarrow> child_names p w;
     gen_name pfx names len 1 name
   }"

section \<open>Paths\<close>

text \<open>
  Moving the string of a buffer up and writing a separator and the name in front of it.
  The string is moved with its NUL, so that all of it needs one byte more than
  \<open>GenerateObjectPath\<close> asks for.
\<close>

definition prepend_name :: "string \<Rightarrow> nat \<Rightarrow> char list \<Rightarrow> char list option" where
  "prepend_name name cur_len path =
     (if length path < length name + 1 + (cur_len + 1) then None
      else Some (AG_PATHSEPCHAR # name @ take (cur_len + 1) path @ drop (length name + 1 + (cur_len + 1)) path))"

partial_function (option) GenerateObjectPath ::
  "world \<Rightarrow> nat \<Rightarrow> char list \<Rightarrow> nat \<Rightarrow> (int \<times> char list) option" where
  "GenerateObjectPath w p path path_len = do {
     ob \<leftarrow> w_objs w p;
     cur_len \<leftarrow> strlen path;
     if length (ob_name ob) + cur_len + 1 > path_len then Some (-1, path)
     else do {
       path \<leftarrow> prepend_name (ob_name ob) cur_len path;
       (case ob_parent ob of
          None \<Rightarrow> Some (0, path)
        | Some q \<Rightarrow> if q \<noteq> ob_root ob then GenerateObjectPath w q path path_len else Some (0, path))
     }
   }"

definition AG_ObjectCopyName :: "nat \<Rightarrow> char list \<Rightarrow> nat \<Rightarrow> world \<Rightarrow> (int \<times> char list) option" where
  "AG_ObjectCopyName p path path_len w =
     (if path_len < 2 then Some (-1, path)
      else do {
        path \<leftarrow> wr path 0 AG_PATHSEPCHAR;
        path \<leftarrow> wr path 1 NUL;
        ob \<leftarrow> w_objs w p;
        if p = ob_root ob then do {
          (path, _) \<leftarrow> AG_Strlcat path (ob_name ob @ [NUL]) path_len;
          Some (0, path)
        }
        else GenerateObjectPath w p path path_len
      })"

text \<open>The size that \<open>AG_ObjectGetName\<close> computes, and the buffer it allocates.\<close>

partial_function (option) path_size :: "world \<Rightarrow> nat \<Rightarrow> nat \<Rightarrow> nat option" where
  "path_size w p pathLen = do {
     ob \<leftarrow> w_objs w p;
     (case ob_parent ob of
        None \<Rightarrow> Some pathLen
      | Some q \<Rightarrow> path_size w q (pathLen + (length (ob_name ob) + 1)))
   }"

definition AG_ObjectGetName :: "nat \<Rightarrow> world \<Rightarrow> char list option" where
  "AG_ObjectGetName p w = do {
     pathLen \<leftarrow> path_size w p 1;
     let path = replicate (pathLen + 1) NUL;
     path \<leftarrow> wr path 0 AG_PATHSEPCHAR;
     path \<leftarrow> wr path 1 NUL;
     ob \<leftarrow> w_objs w p;
     if p = ob_root ob then do { (path, _) \<leftarrow> AG_Strlcat path (ob_name ob @ [NUL]) pathLen; Some path }
     else do { (_, path) \<leftarrow> GenerateObjectPath w p path pathLen; Some path }
   }"

text \<open>The name after the first separator.\<close>

definition after_sep :: "string \<Rightarrow> string option" where
  "after_sep name = (case dropWhile (\<lambda>c. c \<noteq> AG_PATHSEPCHAR) name of [] \<Rightarrow> None | _ # r \<Rightarrow> Some r)"

lemma after_sep_length: "after_sep name = Some r \<Longrightarrow> length r < length name"
proof -
  assume "after_sep name = Some r"
  then obtain c where "dropWhile (\<lambda>c. c \<noteq> AG_PATHSEPCHAR) name = c # r" by (auto simp: after_sep_def split: list.splits)
  then show ?thesis using length_dropWhile_le [of "\<lambda>c. c \<noteq> AG_PATHSEPCHAR" name] by simp
qed

definition find_child :: "world \<Rightarrow> AG_Object \<Rightarrow> string \<Rightarrow> nat option option" where
  "find_child w ob name = find_first (w_objs w) (\<lambda>ch. ob_name ch = name) (ob_children ob)"

definition AG_ObjectFindChild :: "nat \<Rightarrow> string \<Rightarrow> world \<Rightarrow> nat option option" where
  "AG_ObjectFindChild p name w = do { ob \<leftarrow> w_objs w p; find_child w ob name }"

function FindObjectByName :: "world \<Rightarrow> nat \<Rightarrow> string \<Rightarrow> nat option option" where
  "FindObjectByName w parent name = do {
     ob \<leftarrow> w_objs w parent;
     found \<leftarrow> find_child w ob (takeWhile (\<lambda>c. c \<noteq> AG_PATHSEPCHAR) (str_cpy AG_OBJECT_PATH_MAX name));
     (case found of
        None \<Rightarrow> Some None
      | Some child \<Rightarrow>
          (case after_sep name of
             None \<Rightarrow> Some (Some child)
           | Some r \<Rightarrow> if r = [] then Some (Some child) else FindObjectByName w child r))
   }"
  by pat_completeness auto
termination
  by (relation "measure (\<lambda>(w, p, name). length name)") (auto dest: after_sep_length)

declare FindObjectByName.simps [simp del]

definition AG_ObjectFindS :: "nat \<Rightarrow> string \<Rightarrow> world \<Rightarrow> nat option option" where
  "AG_ObjectFindS vfsRoot name w =
     (if name = [AG_PATHSEPCHAR] then Some (Some vfsRoot)
      else if name = [] then None
      else FindObjectByName w vfsRoot (tl name))"

text \<open>\<open>AG_ObjectFind\<close> on what the format expands to.\<close>

definition AG_ObjectFind :: "nat \<Rightarrow> string \<Rightarrow> world \<Rightarrow> nat option option" where
  "AG_ObjectFind vfsRoot name w =
     (if name = [] then None else FindObjectByName w vfsRoot (tl (str_cpy AG_OBJECT_PATH_MAX name)))"

partial_function (option) AG_ObjectFindParent ::
  "world \<Rightarrow> nat \<Rightarrow> string option \<Rightarrow> string option \<Rightarrow> nat option option" where
  "AG_ObjectFindParent w p name t = do {
     ob \<leftarrow> w_objs w p;
     (case ob_parent ob of
        None \<Rightarrow> Some None
      | Some q \<Rightarrow> do {
          po \<leftarrow> w_objs w q;
          ok \<leftarrow> (case t of None \<Rightarrow> Some True
                | Some t \<Rightarrow> do { b \<leftarrow> AG_ClassIsNamed (cl_mem (w_reg w) (ob_cls po)) t; Some (b \<noteq> 0) });
          if ok \<and> (name = None \<or> name = Some (ob_name po)) then Some (Some q)
          else AG_ObjectFindParent w q name t
        })
   }"

text \<open>\<open>AG_GetVariableVFS\<close> of core/variable.c: the variable of a path \<open>/object:variable\<close>.\<close>

definition AG_GetVariableVFS :: "hooks \<Rightarrow> nat \<Rightarrow> string \<Rightarrow> world \<Rightarrow> (nat option \<times> world) option" where
  "AG_GetVariableVFS H vfsRoot varPath w = do {
     fields \<leftarrow> tokens '':'' (str_cpy (AG_OBJECT_PATH_MAX + 65) varPath);
     (case fields of
        objName # varName # _ \<Rightarrow>
          if objName = [] \<or> varName = [] then Some (None, w)
          else do {
            obj \<leftarrow> AG_ObjectFindS vfsRoot objName w;
            (case obj of
               None \<Rightarrow> Some (None, w)
             | Some p \<Rightarrow> do {
                 found \<leftarrow> AG_GetVariableLocked w p varName;
                 (case found of
                    None \<Rightarrow> Some (None, w)
                  | Some v \<Rightarrow> do {
                      V \<leftarrow> w_vars w v;
                      if v_fn V \<noteq> None then do { (_, w) \<leftarrow> AG_EvalVariable H p v w; Some (Some v, w) }
                      else Some (Some v, w)
                    })
               })
          }
      | _ \<Rightarrow> Some (None, w))
   }"

section \<open>Life cycle\<close>

text \<open>The routines of the classes \<open>ks\<close>, in that order.\<close>

fun run_ops :: "(nat \<Rightarrow> (nat \<Rightarrow> world \<Rightarrow> world option) option) \<Rightarrow> nat list \<Rightarrow> nat \<Rightarrow> world \<Rightarrow> world option" where
  "run_ops ops [] p w = Some w"
| "run_ops ops (k # ks) p w = do {
     w \<leftarrow> (case ops k of None \<Rightarrow> Some w | Some f \<Rightarrow> f p w);
     run_ops ops ks p w
   }"

text \<open>The classes of an object, from the oldest; it is fatal when one is not registered.\<close>

definition inherit_hier :: "nat \<Rightarrow> world \<Rightarrow> nat list option" where
  "inherit_hier p w = do {
     ob \<leftarrow> w_objs w p;
     ks \<leftarrow> AG_ObjectGetInheritHier (w_reg w) (cl_hier (cl_mem (w_reg w) (ob_cls ob)));
     ks
   }"

definition AG_ObjectInit :: "obj_env \<Rightarrow> nat \<Rightarrow> nat option \<Rightarrow> world \<Rightarrow> world option" where
  "AG_ObjectInit env p cl w = do {
     let w = put_obj p \<lparr>ob_name = [], ob_archivePath = None, ob_save_pfx = Some ''/world'',
       ob_cls = (case cl of None \<Rightarrow> agObjectClass | Some c \<Rightarrow> c), ob_flags = 0,
       ob_events = [], ob_timers = [], ob_vars = [], ob_deps = [], ob_children = [],
       ob_parent = None, ob_root = p, ob_attachFn = None, ob_detachFn = None\<rparr> w;
     ks \<leftarrow> inherit_hier p w;
     run_ops (oe_init env) ks p w
   }"

definition AG_ObjectInitNamed :: "obj_env \<Rightarrow> nat \<Rightarrow> nat option \<Rightarrow> string option \<Rightarrow> world \<Rightarrow> world option" where
  "AG_ObjectInitNamed env p cl name w = do {
     w \<leftarrow> AG_ObjectInit env p cl w;
     (case name of
        Some s \<Rightarrow> AG_ObjectSetNameS p s w
      | None \<Rightarrow> upd_obj p (set_flag AG_OBJECT_NAME_ONATTACH) w)
   }"

definition AG_ObjectInitStatic :: "obj_env \<Rightarrow> nat \<Rightarrow> nat option \<Rightarrow> world \<Rightarrow> world option" where
  "AG_ObjectInitStatic env p cl w = do {
     w \<leftarrow> AG_ObjectInit env p cl w;
     upd_obj p (set_flag AG_OBJECT_STATIC) w
   }"

definition AG_ObjectRemain :: "nat \<Rightarrow> 32 word \<Rightarrow> world \<Rightarrow> world option" where
  "AG_ObjectRemain p flags w =
     (if flags AND AG_OBJECT_REMAIN_DATA \<noteq> 0 then upd_obj p (set_flag AG_OBJECT_REMAIN_DATA) w
      else upd_obj p (clear_flag AG_OBJECT_REMAIN_DATA) w)"

definition AG_ObjectFreeDataset :: "obj_env \<Rightarrow> nat \<Rightarrow> world \<Rightarrow> world option" where
  "AG_ObjectFreeDataset env p w = do {
     ob \<leftarrow> w_objs w p;
     let preserveDeps = ob_flags ob AND AG_OBJECT_PRESERVE_DEPS;
     w \<leftarrow> upd_obj p (set_flag AG_OBJECT_PRESERVE_DEPS) w;
     ks \<leftarrow> inherit_hier p w;
     w \<leftarrow> run_ops (oe_reinit env) (rev ks) p w;
     if preserveDeps = 0 then upd_obj p (clear_flag AG_OBJECT_PRESERVE_DEPS) w else Some w
   }"

section \<open>Attaching and detaching\<close>

text \<open>The custom functions are events with no name.\<close>

definition attach_event :: "nat \<Rightarrow> nat option \<Rightarrow> string option \<Rightarrow> cval list \<Rightarrow> world \<Rightarrow> (nat option \<times> world) option" where
  "attach_event p fn fmt ap w = (case fn of
     None \<Rightarrow> Some (None, w)
   | Some f \<Rightarrow> do {
       (e, w) \<leftarrow> AG_SetEvent p None (Some f) None [] w;
       ev \<leftarrow> w_events w e;
       ev \<leftarrow> GET_ARGS fmt ap ev;
       Some (Some e, put_event e ev w)
     })"

definition AG_ObjectSetAttachFn :: "nat \<Rightarrow> nat option \<Rightarrow> string option \<Rightarrow> cval list \<Rightarrow> world \<Rightarrow> world option" where
  "AG_ObjectSetAttachFn p fn fmt ap w = do {
     (e, w) \<leftarrow> attach_event p fn fmt ap w;
     upd_obj p (\<lambda>ob. ob\<lparr>ob_attachFn := e\<rparr>) w
   }"

definition AG_ObjectSetDetachFn :: "nat \<Rightarrow> nat option \<Rightarrow> string option \<Rightarrow> cval list \<Rightarrow> world \<Rightarrow> world option" where
  "AG_ObjectSetDetachFn p fn fmt ap w = do {
     (e, w) \<leftarrow> attach_event p fn fmt ap w;
     upd_obj p (\<lambda>ob. ob\<lparr>ob_detachFn := e\<rparr>) w
   }"

definition run_attach_event :: "obj_env \<Rightarrow> nat \<Rightarrow> world \<Rightarrow> world option" where
  "run_attach_event env e w = do { ev \<leftarrow> w_events w e; f \<leftarrow> ev_fn ev; hk_call (oe_hooks env) f ev w }"

definition post :: "obj_env \<Rightarrow> nat \<Rightarrow> nat \<Rightarrow> string \<Rightarrow> world \<Rightarrow> world option" where
  "post env sndr rcvr name w =
     AG_PostEvent (hk_fuel (oe_hooks env)) (hk_call (oe_hooks env)) (Some sndr) rcvr name None [] w"

definition name_on_attach :: "nat \<Rightarrow> nat \<Rightarrow> world \<Rightarrow> world option" where
  "name_on_attach parent chld w = do {
     cob \<leftarrow> w_objs w chld;
     if ob_flags cob AND AG_OBJECT_NAME_ONATTACH \<noteq> 0 then do {
       buf \<leftarrow> AG_ObjectGenName (Some parent) (ob_cls cob)
              (ob_name cob @ replicate (AG_OBJECT_NAME_MAX - length (ob_name cob)) NUL) AG_OBJECT_NAME_MAX w;
       upd_obj chld (\<lambda>ob. ob\<lparr>ob_name := cstr buf\<rparr>) w
     } else Some w
   }"

definition AG_ObjectAttach :: "obj_env \<Rightarrow> nat option \<Rightarrow> nat \<Rightarrow> world \<Rightarrow> world option" where
  "AG_ObjectAttach env parentp chld w = (case parentp of
     None \<Rightarrow> Some w
   | Some parent \<Rightarrow> do {
       pob \<leftarrow> w_objs w parent;
       w \<leftarrow> upd_obj chld (\<lambda>ob. ob\<lparr>ob_parent := Some parent, ob_root := ob_root pob\<rparr>) w;
       cob \<leftarrow> w_objs w chld;
       (case ob_attachFn cob of
          Some e \<Rightarrow> run_attach_event env e w
        | None \<Rightarrow> do {
            w \<leftarrow> name_on_attach parent chld w;
            pob \<leftarrow> w_objs w parent;
            cs \<leftarrow> q_insert_tail chld (ob_children pob);
            let w = put_obj parent (pob\<lparr>ob_children := cs\<rparr>) w;
            w \<leftarrow> post env parent chld ''attached'' w;
            post env chld parent ''child-attached'' w
          })
     })"

definition AG_ObjectAttachToNamed :: "obj_env \<Rightarrow> nat \<Rightarrow> string \<Rightarrow> nat \<Rightarrow> world \<Rightarrow> (int \<times> world) option" where
  "AG_ObjectAttachToNamed env vfsRoot path child w =
     (if length path \<ge> AG_PATHNAME_MAX then Some (-1, w)
      else if strrchr path AG_PATHSEPCHAR = None then Some (-1, w)
      else do {
        let ppath = cut_last AG_PATHSEPCHAR path;
        if ppath = [] then do { w \<leftarrow> AG_ObjectAttach env (Some vfsRoot) child w; Some (0, w) }
        else do {
          parent \<leftarrow> AG_ObjectFindS vfsRoot ppath w;
          (case parent of
             None \<Rightarrow> Some (-1, w)
           | Some q \<Rightarrow> do { w \<leftarrow> AG_ObjectAttach env (Some q) child w; Some (0, w) })
        }
      })"

definition AG_ObjectDetach :: "obj_env \<Rightarrow> nat \<Rightarrow> world \<Rightarrow> world option" where
  "AG_ObjectDetach env chld w = do {
     cob \<leftarrow> w_objs w chld;
     (case ob_detachFn cob of
        Some e \<Rightarrow> run_attach_event env e w
      | None \<Rightarrow> do {
          w \<leftarrow> del_loop (hk_fuel (oe_hooks env)) (oe_src env) chld (first_of (ob_timers cob)) w;
          parent \<leftarrow> ob_parent cob;
          pob \<leftarrow> w_objs w parent;
          cs \<leftarrow> q_remove chld (ob_children pob);
          let w = put_obj parent (pob\<lparr>ob_children := cs\<rparr>) w;
          w \<leftarrow> upd_obj chld (\<lambda>ob. ob\<lparr>ob_parent := None, ob_root := chld\<rparr>) w;
          w \<leftarrow> post env parent chld ''detached'' w;
          post env chld parent ''child-detached'' w
        })
   }"

definition AG_ObjectNew :: "obj_env \<Rightarrow> nat option \<Rightarrow> string option \<Rightarrow> nat \<Rightarrow> world \<Rightarrow> (nat option \<times> world) option" where
  "AG_ObjectNew env parent name cl w = do {
     nm \<leftarrow> (case name of
        None \<Rightarrow> do {
          buf \<leftarrow> AG_ObjectGenName parent cl (replicate AG_OBJECT_NAME_MAX NUL) AG_OBJECT_NAME_MAX w;
          Some (Some (cstr buf))
        }
      | Some s \<Rightarrow> (case parent of
            None \<Rightarrow> Some (Some s)
          | Some q \<Rightarrow> do {
              found \<leftarrow> AG_ObjectFindChild q s w;
              Some (if found = None then Some s else None)
            }));
     (case nm of
        None \<Rightarrow> Some (None, w)
      | Some s \<Rightarrow> do {
          let (p, w) = fresh w;
          w \<leftarrow> AG_ObjectInit env p (Some cl) w;
          w \<leftarrow> AG_ObjectSetNameS p s w;
          w \<leftarrow> AG_ObjectAttach env parent p w;
          Some (Some p, w)
        })
   }"

section \<open>Order of the children\<close>

text \<open>The element before \<open>x\<close>.\<close>

fun prev_of :: "nat \<Rightarrow> nat list \<Rightarrow> nat option" where
  "prev_of x (y # z # ys) = (if x = z then Some y else prev_of x (z # ys))"
| "prev_of x _ = None"

definition q_insert_after :: "nat \<Rightarrow> nat \<Rightarrow> nat list \<Rightarrow> nat list option" where
  "q_insert_after y e xs =
     (if e \<in> set xs then None
      else Some (takeWhile (\<lambda>x. x \<noteq> y) xs @ y # e # tl (dropWhile (\<lambda>x. x \<noteq> y) xs)))"

definition upd_children :: "nat \<Rightarrow> (nat list \<Rightarrow> nat list option) \<Rightarrow> world \<Rightarrow> world option" where
  "upd_children p f w = do {
     ob \<leftarrow> w_objs w p;
     cs \<leftarrow> f (ob_children ob);
     Some (put_obj p (ob\<lparr>ob_children := cs\<rparr>) w)
   }"

definition AG_ObjectMoveUp :: "nat \<Rightarrow> world \<Rightarrow> world option" where
  "AG_ObjectMoveUp p w = do {
     ob \<leftarrow> w_objs w p;
     (case ob_parent ob of
        None \<Rightarrow> Some w
      | Some q \<Rightarrow> upd_children q (\<lambda>cs.
          if first_of cs = Some p then Some cs
          else do { prv \<leftarrow> prev_of p cs; cs \<leftarrow> q_remove p cs; q_insert_before prv p cs }) w)
   }"

definition AG_ObjectMoveDown :: "nat \<Rightarrow> world \<Rightarrow> world option" where
  "AG_ObjectMoveDown p w = do {
     ob \<leftarrow> w_objs w p;
     (case ob_parent ob of
        None \<Rightarrow> Some w
      | Some q \<Rightarrow> upd_children q (\<lambda>cs. do {
          nxt \<leftarrow> next_of p cs;
          (case nxt of
             None \<Rightarrow> Some cs
           | Some y \<Rightarrow> do { cs \<leftarrow> q_remove p cs; q_insert_after y p cs })
        }) w)
   }"

definition AG_ObjectMoveToHead :: "nat \<Rightarrow> world \<Rightarrow> world option" where
  "AG_ObjectMoveToHead p w = do {
     ob \<leftarrow> w_objs w p;
     (case ob_parent ob of
        None \<Rightarrow> Some w
      | Some q \<Rightarrow> upd_children q (\<lambda>cs. do { cs \<leftarrow> q_remove p cs; Some (p # cs) }) w)
   }"

definition AG_ObjectMoveToTail :: "nat \<Rightarrow> world \<Rightarrow> world option" where
  "AG_ObjectMoveToTail p w = do {
     ob \<leftarrow> w_objs w p;
     (case ob_parent ob of
        None \<Rightarrow> Some w
      | Some q \<Rightarrow> upd_children q (\<lambda>cs. do { cs \<leftarrow> q_remove p cs; q_insert_tail p cs }) w)
   }"

section \<open>Dependencies\<close>

definition AG_OBJECT_DEP_MAX :: "32 word" where
  "AG_OBJECT_DEP_MAX = 0xffffffff - 2"

text \<open>A change of the first dependency on \<open>d\<close>; removing it is \<^const>\<open>None\<close> as the new entry.\<close>

fun upd_dep :: "nat \<Rightarrow> (AG_ObjectDep \<Rightarrow> AG_ObjectDep option) \<Rightarrow> AG_ObjectDep list \<Rightarrow> AG_ObjectDep list" where
  "upd_dep d f [] = []"
| "upd_dep d f (x # xs) =
     (if dep_obj x = Some d then (case f x of None \<Rightarrow> xs | Some y \<Rightarrow> y # xs) else x # upd_dep d f xs)"

definition find_dep :: "nat \<Rightarrow> AG_ObjectDep list \<Rightarrow> AG_ObjectDep option" where
  "find_dep d deps = List.find (\<lambda>x. dep_obj x = Some d) deps"

text \<open>The path of a new dependency is not set.\<close>

definition AG_ObjectAddDep :: "nat \<Rightarrow> nat \<Rightarrow> int \<Rightarrow> world \<Rightarrow> world option" where
  "AG_ObjectAddDep p depobj persistent w = do {
     ob \<leftarrow> w_objs w p;
     let deps = (case find_dep depobj (ob_deps ob) of
         Some _ \<Rightarrow> upd_dep depobj (\<lambda>x.
           let c = dep_count x + 1 in Some (x\<lparr>dep_count := (if c > AG_OBJECT_DEP_MAX then AG_OBJECT_DEP_MAX else c)\<rparr>)) (ob_deps ob)
       | None \<Rightarrow> ob_deps ob @ [\<lparr>dep_persistent = persistent, dep_path = None, dep_obj = Some depobj, dep_count = 1\<rparr>]);
     Some (put_obj p (ob\<lparr>ob_deps := deps\<rparr>) w)
   }"

text \<open>The result and what is stored in \<open>*objp\<close>; the index counts from 2 as a 32-bit word.\<close>

fun find_dep_loop :: "32 word \<Rightarrow> 32 word \<Rightarrow> AG_ObjectDep list \<Rightarrow> AG_ObjectDep option" where
  "find_dep_loop ind i [] = None"
| "find_dep_loop ind i (x # xs) = (if i = ind then Some x else find_dep_loop ind (i + 1) xs)"

definition AG_ObjectFindDep :: "nat \<Rightarrow> 32 word \<Rightarrow> world \<Rightarrow> (int \<times> nat option) option" where
  "AG_ObjectFindDep p ind w =
     (if ind = 0 then Some (0, None)
      else if ind = 1 then Some (0, Some p)
      else do {
        ob \<leftarrow> w_objs w p;
        Some (case find_dep_loop ind 2 (ob_deps ob) of None \<Rightarrow> (-1, None) | Some x \<Rightarrow> (0, dep_obj x))
      })"

fun encode_loop :: "nat \<Rightarrow> 32 word \<Rightarrow> AG_ObjectDep list \<Rightarrow> 32 word option" where
  "encode_loop d i [] = None"
| "encode_loop d i (x # xs) = (if dep_obj x = Some d then Some i else encode_loop d (i + 1) xs)"

definition AG_ObjectEncodeName :: "nat \<Rightarrow> nat option \<Rightarrow> world \<Rightarrow> 32 word option" where
  "AG_ObjectEncodeName p depobj w = (case depobj of
     None \<Rightarrow> Some 0
   | Some d \<Rightarrow> if d = p then Some 1 else do { ob \<leftarrow> w_objs w p; encode_loop d 2 (ob_deps ob) })"

definition AG_ObjectDelDep :: "nat \<Rightarrow> nat \<Rightarrow> world \<Rightarrow> world option" where
  "AG_ObjectDelDep p depobj w = do {
     ob \<leftarrow> w_objs w p;
     (case find_dep depobj (ob_deps ob) of
        None \<Rightarrow> Some w
      | Some x \<Rightarrow>
          if dep_count x = AG_OBJECT_DEP_MAX then Some w
          else if dep_count x - 1 = 0 then
            Some (put_obj p (ob\<lparr>ob_deps := upd_dep depobj (\<lambda>x.
              if ob_flags ob AND AG_OBJECT_PRESERVE_DEPS = 0 then None else Some (x\<lparr>dep_count := 0\<rparr>)) (ob_deps ob)\<rparr>) w)
          else if dep_count x = 0 then None
          else Some (put_obj p (ob\<lparr>ob_deps := upd_dep depobj (\<lambda>x. Some (x\<lparr>dep_count := dep_count x - 1\<rparr>)) (ob_deps ob)\<rparr>) w))
   }"

text \<open>The recursions over the tree; \<open>n\<close> bounds the depth.\<close>

fun any_child :: "(nat \<Rightarrow> bool option) \<Rightarrow> nat list \<Rightarrow> bool option" where
  "any_child f [] = Some False"
| "any_child f (c # cs) = do { b \<leftarrow> f c; if b then Some True else any_child f cs }"

fun each_child :: "(nat \<Rightarrow> world \<Rightarrow> world option) \<Rightarrow> nat list \<Rightarrow> world \<Rightarrow> world option" where
  "each_child f [] w = Some w"
| "each_child f (c # cs) w = do { w \<leftarrow> f c w; each_child f cs w }"

fun FindObjectInUse :: "nat \<Rightarrow> world \<Rightarrow> nat \<Rightarrow> nat \<Rightarrow> bool option" where
  "FindObjectInUse 0 w p robj = None"
| "FindObjectInUse (Suc n) w p robj = do {
     ob \<leftarrow> w_objs w p;
     if (\<exists>x \<in> set (ob_deps ob). dep_obj x = Some robj \<and> robj \<noteq> p) then Some True
     else any_child (\<lambda>c. FindObjectInUse n w c robj) (ob_children ob)
   }"

fun AG_ObjectInUse :: "nat \<Rightarrow> nat \<Rightarrow> world \<Rightarrow> bool option" where
  "AG_ObjectInUse 0 p w = None"
| "AG_ObjectInUse (Suc n) p w = do {
     ob \<leftarrow> w_objs w p;
     used \<leftarrow> FindObjectInUse n w (ob_root ob) p;
     if used then Some True else any_child (\<lambda>c. AG_ObjectInUse n c w) (ob_children ob)
   }"

definition AG_ObjectFreeDeps :: "nat \<Rightarrow> world \<Rightarrow> world option" where
  "AG_ObjectFreeDeps p w = upd_obj p (\<lambda>ob. ob\<lparr>ob_deps := []\<rparr>) w"

fun AG_ObjectFreeDummyDeps :: "nat \<Rightarrow> nat \<Rightarrow> world \<Rightarrow> world option" where
  "AG_ObjectFreeDummyDeps 0 p w = None"
| "AG_ObjectFreeDummyDeps (Suc n) p w = do {
     ob \<leftarrow> w_objs w p;
     let w = put_obj p (ob\<lparr>ob_deps := filter (\<lambda>x. dep_count x \<noteq> 0) (ob_deps ob)\<rparr>) w;
     each_child (AG_ObjectFreeDummyDeps n) (ob_children ob) w
   }"

text \<open>The dependencies resolved up to the first that is not found.\<close>

fun resolve_deps :: "world \<Rightarrow> nat \<Rightarrow> AG_ObjectDep list \<Rightarrow> (bool \<times> AG_ObjectDep list) option" where
  "resolve_deps w root [] = Some (True, [])"
| "resolve_deps w root (x # xs) =
     (if dep_obj x \<noteq> None then do { (ok, ys) \<leftarrow> resolve_deps w root xs; Some (ok, x # ys) }
      else do {
        path \<leftarrow> dep_path x;
        found \<leftarrow> AG_ObjectFindS root path w;
        (case found of
           None \<Rightarrow> Some (False, x # xs)
         | Some d \<Rightarrow> do {
             (ok, ys) \<leftarrow> resolve_deps w root xs;
             Some (ok, x\<lparr>dep_obj := Some d, dep_path := None\<rparr> # ys)
           })
      })"

fun resolve_children :: "(nat \<Rightarrow> world \<Rightarrow> (int \<times> world) option) \<Rightarrow> nat list \<Rightarrow> world \<Rightarrow> (int \<times> world) option" where
  "resolve_children f [] w = Some (0, w)"
| "resolve_children f (c # cs) w = do {
     cob \<leftarrow> w_objs w c;
     if ob_flags cob AND AG_OBJECT_NON_PERSISTENT \<noteq> 0 then resolve_children f cs w
     else do {
       (rv, w) \<leftarrow> f c w;
       if rv = -1 then Some (-1, w) else resolve_children f cs w
     }
   }"

fun AG_ObjectResolveDeps :: "nat \<Rightarrow> nat \<Rightarrow> world \<Rightarrow> (int \<times> world) option" where
  "AG_ObjectResolveDeps 0 p w = None"
| "AG_ObjectResolveDeps (Suc n) p w = do {
     ob \<leftarrow> w_objs w p;
     (ok, deps) \<leftarrow> resolve_deps w (ob_root ob) (ob_deps ob);
     let w = put_obj p (ob\<lparr>ob_deps := deps\<rparr>) w;
     if \<not> ok then Some (-1, w) else resolve_children (AG_ObjectResolveDeps n) (ob_children ob) w
   }"

section \<open>Destruction\<close>

fun free_vars :: "nat list \<Rightarrow> world \<Rightarrow> world option" where
  "free_vars [] w = Some w"
| "free_vars (v # vs) w = do {
     V \<leftarrow> w_vars w v;
     w \<leftarrow> AG_FreeVariable V w;
     free_vars vs (w\<lparr>w_vars := (w_vars w)(v := None)\<rparr>)
   }"

definition AG_ObjectFreeVariables :: "nat \<Rightarrow> world \<Rightarrow> world option" where
  "AG_ObjectFreeVariables p w = do {
     ob \<leftarrow> w_objs w p;
     w \<leftarrow> free_vars (ob_vars ob) w;
     upd_obj p (\<lambda>ob. ob\<lparr>ob_vars := []\<rparr>) w
   }"

definition AG_ObjectFreeEvents :: "nat \<Rightarrow> world \<Rightarrow> world option" where
  "AG_ObjectFreeEvents p w = do {
     ob \<leftarrow> w_objs w p;
     if \<exists>e \<in> set (ob_events ob). w_events w e = None then None
     else upd_obj p (\<lambda>ob. ob\<lparr>ob_events := []\<rparr>) (w\<lparr>w_events := (\<lambda>e. if e \<in> set (ob_events ob) then None else w_events w e)\<rparr>)
   }"

text \<open>\<open>n\<close> bounds the depth of the recursion and the number of children.\<close>

function (sequential) FreeChildObject :: "nat \<Rightarrow> obj_env \<Rightarrow> nat \<Rightarrow> world \<Rightarrow> world option"
  and free_children :: "nat \<Rightarrow> obj_env \<Rightarrow> nat \<Rightarrow> nat option \<Rightarrow> world \<Rightarrow> world option"
  and AG_ObjectFreeChildren :: "nat \<Rightarrow> obj_env \<Rightarrow> nat \<Rightarrow> world \<Rightarrow> world option"
  and AG_ObjectDestroy :: "nat \<Rightarrow> obj_env \<Rightarrow> nat \<Rightarrow> world \<Rightarrow> world option" where
  "FreeChildObject 0 env p w = None"
| "FreeChildObject (Suc n) env p w = do {
     ob \<leftarrow> w_objs w p;
     w \<leftarrow> free_children n env p (first_of (ob_children ob)) w;
     w \<leftarrow> AG_ObjectDetach env p w;
     AG_ObjectDestroy n env p w
   }"
| "free_children 0 env p cur w = None"
| "free_children (Suc n) env p cur w = (case cur of
     None \<Rightarrow> Some w
   | Some c \<Rightarrow> do {
       ob \<leftarrow> w_objs w p;
       nxt \<leftarrow> next_of c (ob_children ob);
       w \<leftarrow> FreeChildObject n env c w;
       free_children n env p nxt w
     })"
| "AG_ObjectFreeChildren 0 env p w = None"
| "AG_ObjectFreeChildren (Suc n) env p w = do {
     ob \<leftarrow> w_objs w p;
     w \<leftarrow> free_children n env p (first_of (ob_children ob)) w;
     upd_obj p (\<lambda>ob. ob\<lparr>ob_children := []\<rparr>) w
   }"
| "AG_ObjectDestroy 0 env p w = None"
| "AG_ObjectDestroy (Suc n) env p w = do {
     w \<leftarrow> AG_ObjectFreeChildren n env p w;
     w \<leftarrow> AG_ObjectFreeDataset env p w;
     w \<leftarrow> AG_ObjectFreeDeps p w;
     ks \<leftarrow> inherit_hier p w;
     w \<leftarrow> run_ops (oe_destroy env) (rev ks) p w;
     w \<leftarrow> AG_ObjectFreeVariables p w;
     w \<leftarrow> AG_ObjectFreeEvents p w;
     ob \<leftarrow> w_objs w p;
     Some (if ob_flags ob AND AG_OBJECT_STATIC = 0 then w\<lparr>w_objs := (w_objs w)(p := None)\<rparr>
           else put_obj p (ob\<lparr>ob_archivePath := None\<rparr>) w)
   }"
  by pat_completeness auto
termination
  by (relation "measure (\<lambda>x. case x of Inl (Inl (n, _)) \<Rightarrow> n | Inl (Inr (n, _)) \<Rightarrow> n | Inr (Inl (n, _)) \<Rightarrow> n | Inr (Inr (n, _)) \<Rightarrow> n)") auto

definition AG_ObjectDelete :: "nat \<Rightarrow> obj_env \<Rightarrow> nat \<Rightarrow> world \<Rightarrow> world option" where
  "AG_ObjectDelete n env p w = do {
     ob \<leftarrow> w_objs w p;
     w \<leftarrow> (if ob_parent ob \<noteq> None then AG_ObjectDetach env p w else Some w);
     AG_ObjectDestroy n env p w
   }"

section \<open>Files and the rest\<close>

definition AG_ObjectGetArchivePath :: "nat \<Rightarrow> char list \<Rightarrow> nat \<Rightarrow> world \<Rightarrow> char list option" where
  "AG_ObjectGetArchivePath p buf buf_len w = do {
     ob \<leftarrow> w_objs w p;
     path \<leftarrow> ob_archivePath ob;
     (buf, _) \<leftarrow> AG_Strlcpy buf (path @ [NUL]) buf_len;
     Some buf
   }"

definition AG_ObjectSetArchivePath :: "nat \<Rightarrow> string \<Rightarrow> world \<Rightarrow> world option" where
  "AG_ObjectSetArchivePath p path w = upd_obj p (\<lambda>ob. ob\<lparr>ob_archivePath := Some path\<rparr>) w"

definition AG_ObjectSetClass :: "nat \<Rightarrow> nat \<Rightarrow> world \<Rightarrow> world option" where
  "AG_ObjectSetClass p cl w = upd_obj p (\<lambda>ob. ob\<lparr>ob_cls := cl\<rparr>) w"

fun AG_ObjectSetSavePfx :: "nat \<Rightarrow> nat \<Rightarrow> string option \<Rightarrow> world \<Rightarrow> world option" where
  "AG_ObjectSetSavePfx 0 p path w = None"
| "AG_ObjectSetSavePfx (Suc n) p path w = do {
     ob \<leftarrow> w_objs w p;
     each_child (\<lambda>c. AG_ObjectSetSavePfx n c path) (ob_children ob) (put_obj p (ob\<lparr>ob_save_pfx := path\<rparr>) w)
   }"

definition AG_ObjectGetInheritHierString :: "nat \<Rightarrow> char list \<Rightarrow> nat \<Rightarrow> world \<Rightarrow> char list option" where
  "AG_ObjectGetInheritHierString p buf buf_size w = do {
     ob \<leftarrow> w_objs w p;
     (buf, _) \<leftarrow> AG_Strlcpy buf (cl_hier (cl_mem (w_reg w) (ob_cls ob)) @ [NUL]) buf_size;
     Some buf
   }"

definition AG_OfClass :: "nat \<Rightarrow> string \<Rightarrow> world \<Rightarrow> int option" where
  "AG_OfClass p spec w = do { ob \<leftarrow> w_objs w p; AG_ClassIsNamed (cl_mem (w_reg w) (ob_cls ob)) spec }"

definition AG_Defined :: "nat \<Rightarrow> string \<Rightarrow> world \<Rightarrow> bool option" where
  "AG_Defined p name w = do { ob \<leftarrow> w_objs w p; found \<leftarrow> find_var w ob name; Some (found \<noteq> None) }"

text \<open>The object of a named argument; it is fatal when it has another class.\<close>

definition AG_GetNamedObject :: "AG_Event \<Rightarrow> string \<Rightarrow> string \<Rightarrow> world \<Rightarrow> nat option" where
  "AG_GetNamedObject ev key spec w = do {
     V \<leftarrow> AG_GetNamedEventArg ev key;
     p \<leftarrow> ptr_of (v_data V);
     p \<leftarrow> p;
     b \<leftarrow> AG_OfClass p spec w;
     if b = 0 then None else Some p
   }"

text \<open>The directories of \<open>load-path\<close>, tried in order; the path of the last one is left in the buffer.\<close>

definition load_dirs :: "obj_env \<Rightarrow> world \<Rightarrow> (string list \<times> world) option" where
  "load_dirs env w = do {
     (_, buf, w) \<leftarrow> AG_GetString (oe_hooks env) (oe_config env) ''load-path'' (replicate AG_PATHNAME_MAX NUL) AG_PATHNAME_MAX w;
     dirs \<leftarrow> tokens '':'' (cstr buf);
     Some (dirs, w)
   }"

definition pfx_path :: "nat \<Rightarrow> string \<Rightarrow> AG_Object \<Rightarrow> string \<Rightarrow> string" where
  "pfx_path len dir ob obj_name = (let path = str_cpy len dir;
     path = (case ob_save_pfx ob of None \<Rightarrow> path | Some pfx \<Rightarrow> str_cat len path pfx)
     in str_cat len path obj_name)"

definition file_path :: "nat \<Rightarrow> string \<Rightarrow> AG_Object \<Rightarrow> string \<Rightarrow> string \<Rightarrow> string" where
  "file_path len dir ob obj_name cname = (let path = pfx_path len dir ob obj_name;
     path = str_cat len path ''/'';
     path = str_cat len path (ob_name ob);
     path = str_cat len path ''.''
     in str_cat len path cname)"

fun first_existing :: "(string \<Rightarrow> bool) \<Rightarrow> (string \<Rightarrow> string) \<Rightarrow> string list \<Rightarrow> string \<Rightarrow> int \<times> string" where
  "first_existing ex f [] path = (-1, path)"
| "first_existing ex f (d # ds) path = (if ex (f d) then (0, f d) else first_existing ex f ds (f d))"

text \<open>The result, the path, and the world; \<open>path\<close> is what the buffer held.\<close>

definition AG_ObjectCopyFilename :: "obj_env \<Rightarrow> nat \<Rightarrow> string \<Rightarrow> nat \<Rightarrow> world \<Rightarrow> (int \<times> string \<times> world) option" where
  "AG_ObjectCopyFilename env p path path_len w = do {
     ob \<leftarrow> w_objs w p;
     (case ob_archivePath ob of
        Some s \<Rightarrow> Some (0, str_cpy path_len s, w)
      | None \<Rightarrow> do {
          (dirs, w) \<leftarrow> load_dirs env w;
          (_, obj_name) \<leftarrow> AG_ObjectCopyName p (replicate AG_OBJECT_PATH_MAX NUL) AG_OBJECT_PATH_MAX w;
          let (rv, path) = first_existing (oe_exists env)
            (\<lambda>d. file_path path_len d ob (cstr obj_name) (cl_name (cl_mem (w_reg w) (ob_cls ob)))) dirs path;
          Some (rv, path, w)
        })
   }"

definition AG_ObjectCopyDirname :: "obj_env \<Rightarrow> nat \<Rightarrow> string \<Rightarrow> nat \<Rightarrow> world \<Rightarrow> (int \<times> string \<times> world) option" where
  "AG_ObjectCopyDirname env p path path_len w = do {
     ob \<leftarrow> w_objs w p;
     (dirs, w) \<leftarrow> load_dirs env w;
     (_, obj_name) \<leftarrow> AG_ObjectCopyName p (replicate AG_OBJECT_PATH_MAX NUL) AG_OBJECT_PATH_MAX w;
     let (rv, tmp_path) = first_existing (oe_exists env)
       (\<lambda>d. pfx_path AG_PATHNAME_MAX d ob (cstr obj_name)) dirs [];
     Some (rv, if rv = 0 then str_cpy path_len tmp_path else path, w)
   }"

definition GetDatafile :: "obj_env \<Rightarrow> string \<Rightarrow> nat \<Rightarrow> world \<Rightarrow> (int \<times> string \<times> world) option" where
  "GetDatafile env path p w = do {
     ob \<leftarrow> w_objs w p;
     (case ob_archivePath ob of
        Some s \<Rightarrow> Some (0, str_cpy AG_PATHNAME_MAX s, w)
      | None \<Rightarrow> AG_ObjectCopyFilename env p path AG_PATHNAME_MAX w)
   }"

end
