(* ===== verification/ObjLaws.thy ===== *)
theory ObjLaws
  imports Objects
begin

text \<open>
  What objects guarantee: the path names of a virtual file system and the look-ups that
  follow them, generated names (the search is the locale \<open>name_search\<close>, interpreted for the
  names from a class and from a prefix), the dependency table, the links of the tree in
  every reachable state, and what attaching a subtree does to the names in it.
\<close>

section \<open>Path names\<close>

definition name_ok :: "string \<Rightarrow> bool" where
  "name_ok s \<longleftrightarrow> s \<noteq> [] \<and> length s < AG_OBJECT_NAME_MAX \<and> nonul s \<and> AG_PATHSEPCHAR \<notin> set s"

text \<open>
  The objects of a virtual file system with the names on the way from its root: every
  object below the root knows its parent and the root, has a proper name, and is the first
  child of its parent with that name.
\<close>

inductive in_vfs :: "world \<Rightarrow> nat \<Rightarrow> nat \<Rightarrow> string list \<Rightarrow> bool" for w root where
  top: "w_objs w root = Some ob \<Longrightarrow> ob_parent ob = None \<Longrightarrow> ob_root ob = root \<Longrightarrow> in_vfs w root root []"
| child: "in_vfs w root q ns \<Longrightarrow> w_objs w q = Some qo \<Longrightarrow> w_objs w c = Some co \<Longrightarrow> c \<noteq> root \<Longrightarrow>
    ob_parent co = Some q \<Longrightarrow> ob_root co = root \<Longrightarrow> name_ok (ob_name co) \<Longrightarrow>
    find_child w qo (ob_name co) = Some (Some c) \<Longrightarrow> in_vfs w root c (ns @ [ob_name co])"

inductive_cases in_vfs_topE: "in_vfs w root root ns"

definition path_of :: "string list \<Rightarrow> string" where
  "path_of ns = concat (map (\<lambda>n. AG_PATHSEPCHAR # n) ns) @ [AG_PATHSEPCHAR]"

definition path_len :: "string list \<Rightarrow> nat" where
  "path_len ns = sum_list (map (\<lambda>n. length n + 1) ns)"

lemma path_len_simps [simp]: "path_len [] = 0" "path_len (n # ns) = length n + 1 + path_len ns"
  "path_len (ns @ ms) = path_len ns + path_len ms"
  by (simp_all add: path_len_def)

lemma length_path_concat [simp]: "length (concat (map (\<lambda>n. AG_PATHSEPCHAR # n) ns)) = path_len ns"
  by (induction ns) simp_all

lemma in_vfs_obj: "in_vfs w root p ns \<Longrightarrow> \<exists>ob. w_objs w p = Some ob \<and> ob_root ob = root \<and> (p \<noteq> root \<longrightarrow> ns \<noteq> []) \<and>
    (p = root \<longrightarrow> ns = [] \<and> ob_parent ob = None)"
  by (induction rule: in_vfs.induct) auto

lemma in_vfs_names: "in_vfs w root p ns \<Longrightarrow> \<forall>n \<in> set ns. name_ok n"
  by (induction rule: in_vfs.induct) auto

lemma prepend_name_eq:
  "nonul s \<Longrightarrow> length name + 1 \<le> length u \<Longrightarrow>
   prepend_name name (length s) (s @ NUL # u) = Some (AG_PATHSEPCHAR # name @ s @ NUL # drop (length name + 1) u)"
  by (simp add: prepend_name_def)

lemma GenerateObjectPath_spec:
  "in_vfs w root p ns \<Longrightarrow> p \<noteq> root \<Longrightarrow> nonul s \<Longrightarrow> path_len ns \<le> length u \<Longrightarrow> length s + path_len ns \<le> len \<Longrightarrow>
   GenerateObjectPath w p (s @ NUL # u) len =
     Some (0, concat (map (\<lambda>n. AG_PATHSEPCHAR # n) ns) @ s @ NUL # drop (path_len ns) u)"
proof (induction arbitrary: s u rule: in_vfs.induct)
  case (top ob)
  then show ?case by simp
next
  case (child q ns qo c co)
  define t where "t = AG_PATHSEPCHAR # ob_name co @ s"
  define v where "v = drop (length (ob_name co) + 1) u"
  have nn: "nonul (ob_name co)" using child.hyps by (simp add: name_ok_def)
  have pre: "prepend_name (ob_name co) (length s) (s @ NUL # u) = Some (t @ NUL # v)"
    using child.prems prepend_name_eq [of s "ob_name co" u] by (simp add: t_def v_def)
  have head: "GenerateObjectPath w c (s @ NUL # u) len =
     (if q \<noteq> root then GenerateObjectPath w q (t @ NUL # v) len else Some (0, t @ NUL # v))"
    using child.hyps child.prems pre by (subst GenerateObjectPath.simps) (simp add: bind_eq_Some_conv)
  show ?case
  proof (cases "q = root")
    case True
    then have "ns = []" using in_vfs_obj [OF child.hyps(1)] by auto
    then show ?thesis using head True by (simp add: t_def v_def)
  next
    case False
    have "GenerateObjectPath w q (t @ NUL # v) len =
       Some (0, concat (map (\<lambda>n. AG_PATHSEPCHAR # n) ns) @ t @ NUL # drop (path_len ns) v)"
      using child.prems nn by (intro child.IH [OF False]) (auto simp: t_def v_def)
    then show ?thesis using head False by (simp add: t_def v_def add.commute)
  qed
qed

lemma path_size_spec: "in_vfs w root p ns \<Longrightarrow> path_size w p k = Some (k + path_len ns)"
proof (induction arbitrary: k rule: in_vfs.induct)
  case (top ob)
  then show ?case by (subst path_size.simps) simp
next
  case (child q ns qo c co)
  then show ?case by (subst path_size.simps) (simp add: algebra_simps)
qed

lemma strlen_total: "\<exists>n. strlen (s @ [NUL]) = Some n"
  by (induction s) auto

lemma AG_ObjectGetName_spec:
  assumes "in_vfs w root p ns"
  shows "\<exists>buf. AG_ObjectGetName p w = Some buf \<and> cstr buf = path_of ns \<and> terminated buf \<and> length buf = path_len ns + 2"
proof -
  obtain ob where ob: "w_objs w p = Some ob" "ob_root ob = root" "p = root \<longrightarrow> ns = [] \<and> ob_parent ob = None"
    using in_vfs_obj [OF assms] by auto
  define len where "len = 1 + path_len ns"
  have sz: "path_size w p (Suc 0) = Some (Suc (path_len ns))" using path_size_spec [OF assms, of 1] by simp
  define b0 where "b0 = [AG_PATHSEPCHAR] @ NUL # replicate (path_len ns) NUL"
  have get: "AG_ObjectGetName p w = (if p = root then do { (path, _) \<leftarrow> AG_Strlcat b0 (ob_name ob @ [NUL]) len; Some path }
     else do { (_, path) \<leftarrow> GenerateObjectPath w p b0 len; Some path })"
    by (simp add: AG_ObjectGetName_def sz Let_def ob wr_def len_def b0_def)
  show ?thesis
  proof (cases "p = root")
    case True
    then have ns: "ns = []" using ob by simp
    obtain n where "strlen (ob_name ob @ [NUL]) = Some n" using strlen_total by blast
    then have "AG_Strlcat b0 (ob_name ob @ [NUL]) len = Some (b0, 1 + n)"
      by (simp add: AG_Strlcat_def b0_def ns len_def rd_def)
    then have "AG_ObjectGetName p w = Some b0" using get True by simp
    then show ?thesis using cstr_append_NUL [of "[AG_PATHSEPCHAR]" "[]"] terminated_append_NUL [of "[AG_PATHSEPCHAR]" "[]"]
      by (simp add: b0_def ns path_of_def)
  next
    case False
    define buf where "buf = concat (map (\<lambda>n. AG_PATHSEPCHAR # n) ns) @ [AG_PATHSEPCHAR] @ NUL # drop (path_len ns) (replicate (path_len ns) NUL)"
    have "GenerateObjectPath w p b0 len = Some (0, buf)"
      unfolding b0_def buf_def using assms False by (intro GenerateObjectPath_spec) (auto simp: len_def)
    moreover have "nonul (path_of ns)"
      using in_vfs_names [OF assms] by (auto simp: path_of_def name_ok_def nonul_def)
    then have "cstr buf = path_of ns" "terminated buf"
      using cstr_append_NUL [of "path_of ns" "[]"] terminated_append_NUL [of "path_of ns" "[]"]
      by (simp_all add: buf_def path_of_def)
    moreover have "length buf = path_len ns + 2" by (simp add: buf_def)
    ultimately show ?thesis using get False by simp
  qed
qed

definition rel_path :: "string list \<Rightarrow> string" where
  "rel_path ns = concat (map (\<lambda>n. n @ [AG_PATHSEPCHAR]) ns)"

lemma path_of_rel: "path_of ns = AG_PATHSEPCHAR # rel_path ns"
proof -
  have "concat (map (\<lambda>n. AG_PATHSEPCHAR # n) ns) @ [AG_PATHSEPCHAR] = AG_PATHSEPCHAR # rel_path ns"
    by (induction ns) (simp_all add: rel_path_def)
  then show ?thesis by (simp add: path_of_def)
qed

lemma FindObjectByName_step:
  assumes "name_ok n" "w_objs w q = Some qo" "find_child w qo n = Some (Some c)"
  shows "FindObjectByName w q (n @ AG_PATHSEPCHAR # r) = (if r = [] then Some (Some c) else FindObjectByName w c r)"
proof -
  have n: "\<forall>x \<in> set n. x \<noteq> AG_PATHSEPCHAR" "length n < AG_OBJECT_NAME_MAX"
    using assms(1) by (auto simp: name_ok_def)
  have "str_cpy AG_OBJECT_PATH_MAX (n @ AG_PATHSEPCHAR # r) = n @ AG_PATHSEPCHAR # take (1022 - length n) r"
    using n(2) by (simp add: str_cpy_def take_Cons')
  then have t: "takeWhile (\<lambda>c. c \<noteq> AG_PATHSEPCHAR) (str_cpy AG_OBJECT_PATH_MAX (n @ AG_PATHSEPCHAR # r)) = n"
    using n(1) by (simp add: takeWhile_append2)
  have a: "after_sep (n @ AG_PATHSEPCHAR # r) = Some r" using n(1) by (simp add: after_sep_def dropWhile_append2)
  show ?thesis by (subst FindObjectByName.simps) (simp add: t a assms)
qed

lemma FindObjectByName_below:
  "in_vfs w root q ns \<Longrightarrow> r \<noteq> [] \<Longrightarrow> FindObjectByName w root (rel_path ns @ r) = FindObjectByName w q r"
proof (induction arbitrary: r rule: in_vfs.induct)
  case (top ob)
  then show ?case by (simp add: rel_path_def)
next
  case (child q ns qo c co)
  have "FindObjectByName w root (rel_path (ns @ [ob_name co]) @ r) =
      FindObjectByName w root (rel_path ns @ (ob_name co @ AG_PATHSEPCHAR # r))" by (simp add: rel_path_def)
  also have "\<dots> = FindObjectByName w q (ob_name co @ AG_PATHSEPCHAR # r)" by (rule child.IH) simp
  also have "\<dots> = FindObjectByName w c r" using child.hyps child.prems by (simp add: FindObjectByName_step)
  finally show ?case .
qed

lemma AG_ObjectFindS_path:
  assumes "in_vfs w root p ns"
  shows "AG_ObjectFindS root (path_of ns) w = Some (Some p)"
  using assms
proof (cases rule: in_vfs.cases)
  case top
  then show ?thesis by (simp add: path_of_def AG_ObjectFindS_def)
next
  case (child q ms qo co)
  have "FindObjectByName w root (rel_path ms @ (ob_name co @ [AG_PATHSEPCHAR])) = Some (Some p)"
    using child by (simp add: FindObjectByName_below FindObjectByName_step)
  then show ?thesis using child(1,7) by (auto simp: path_of_rel rel_path_def AG_ObjectFindS_def name_ok_def)
qed

text \<open>The same through a buffer of the caller, if it has a byte to spare.\<close>

lemma AG_ObjectCopyName_spec:
  assumes "in_vfs w root p ns" "p \<noteq> root" "path_len ns + 2 \<le> length buf" "path_len ns + 1 \<le> len" "2 \<le> len"
  shows "\<exists>buf'. AG_ObjectCopyName p buf len w = Some (0, buf') \<and> cstr buf' = path_of ns"
proof -
  obtain ob where ob: "w_objs w p = Some ob" "ob_root ob = root" using in_vfs_obj [OF assms(1)] by auto
  obtain a b u where b: "buf = a # b # u" using assms(3) by (cases buf; cases "tl buf") auto
  have "GenerateObjectPath w p ([AG_PATHSEPCHAR] @ NUL # u) len =
     Some (0, concat (map (\<lambda>n. AG_PATHSEPCHAR # n) ns) @ [AG_PATHSEPCHAR] @ NUL # drop (path_len ns) u)"
    using assms b by (intro GenerateObjectPath_spec) auto
  then have "AG_ObjectCopyName p buf len w = Some (0, path_of ns @ NUL # drop (path_len ns) u)"
    using assms(2,5) ob b by (simp add: AG_ObjectCopyName_def wr_def path_of_def)
  moreover have "nonul (path_of ns)"
    using in_vfs_names [OF assms(1)] by (auto simp: path_of_def name_ok_def nonul_def)
  ultimately show ?thesis by simp
qed

lemma AG_ObjectCopyName_root:
  assumes "in_vfs w root root ns" "w_objs w root = Some ob" "nonul (ob_name ob)" "length (ob_name ob) + 2 \<le> len" "len \<le> length buf"
  shows "\<exists>buf'. AG_ObjectCopyName root buf len w = Some (0, buf') \<and> cstr buf' = AG_PATHSEPCHAR # ob_name ob"
proof -
  have "ob_root ob = root" using in_vfs_obj [OF assms(1)] assms(2) by auto
  moreover obtain a b u where b: "buf = a # b # u" using assms(4,5) by (cases buf; cases "tl buf") auto
  moreover have sep: "nonul [AG_PATHSEPCHAR]" by simp
  then have "AG_Strlcat ([AG_PATHSEPCHAR] @ NUL # u) (ob_name ob @ [NUL]) len =
      Some ([AG_PATHSEPCHAR] @ ob_name ob @ NUL # drop (length (ob_name ob)) u, 1 + length (ob_name ob))"
  proof -
    have "min (len - length [AG_PATHSEPCHAR] - 1) (length (ob_name ob)) = length (ob_name ob)" using assms(4) by simp
    then show ?thesis using AG_Strlcat_spec [OF sep assms(3), of len u "[]"] assms(4,5) b by (simp add: Let_def)
  qed
  ultimately have "AG_ObjectCopyName root buf len w = Some (0, (AG_PATHSEPCHAR # ob_name ob) @ NUL # drop (length (ob_name ob)) u)"
    using assms(2,4) by (simp add: AG_ObjectCopyName_def wr_def)
  moreover have "nonul (AG_PATHSEPCHAR # ob_name ob)" using assms(3) by simp
  ultimately show ?thesis by (metis cstr_append_NUL)
qed

text \<open>A buffer of exactly the size that the code takes to be enough is overrun.\<close>

lemma GenerateObjectPath_overrun:
  "in_vfs w root p ns \<Longrightarrow> nonul s \<Longrightarrow> length u < path_len ns \<Longrightarrow> length s + path_len ns \<le> len \<Longrightarrow>
   GenerateObjectPath w p (s @ NUL # u) len = None"
proof (induction arbitrary: s u rule: in_vfs.induct)
  case (top ob)
  then show ?case by simp
next
  case (child q ns qo c co)
  show ?case
  proof (cases "length u < length (ob_name co) + 1")
    case True
    then have "prepend_name (ob_name co) (length s) (s @ NUL # u) = None" by (simp add: prepend_name_def)
    then show ?thesis using child.hyps child.prems by (subst GenerateObjectPath.simps) simp
  next
    case False
    define t where "t = AG_PATHSEPCHAR # ob_name co @ s"
    define v where "v = drop (length (ob_name co) + 1) u"
    have pre: "prepend_name (ob_name co) (length s) (s @ NUL # u) = Some (t @ NUL # v)"
      using child.prems False prepend_name_eq [of s "ob_name co" u] by (simp add: t_def v_def)
    have "q \<noteq> root" using child.prems(2) False in_vfs_obj [OF child.hyps(1)] by auto
    then have "GenerateObjectPath w c (s @ NUL # u) len = GenerateObjectPath w q (t @ NUL # v) len"
      using child.hyps child.prems pre by (subst GenerateObjectPath.simps) simp
    also have "\<dots> = None"
      using child.prems child.hyps False by (intro child.IH) (auto simp: t_def v_def name_ok_def)
    finally show ?thesis .
  qed
qed

lemma AG_ObjectCopyName_overrun_spec:
  assumes "in_vfs w root p ns" "p \<noteq> root" "length buf = path_len ns + 1"
  shows "AG_ObjectCopyName p buf (path_len ns + 1) w = None"
proof -
  obtain ob where ob: "w_objs w p = Some ob" "ob_root ob = root" using in_vfs_obj [OF assms(1)] by auto
  have "ns \<noteq> []" using in_vfs_obj [OF assms(1)] assms(2) by auto
  then have "0 < path_len ns" by (cases ns) auto
  then obtain a b u where b: "buf = a # b # u" using assms(3) by (cases buf; cases "tl buf") auto
  have "GenerateObjectPath w p ([AG_PATHSEPCHAR] @ NUL # u) (path_len ns + 1) = None"
    using assms b by (intro GenerateObjectPath_overrun) auto
  then show ?thesis using ob assms(2,3) b by (simp add: AG_ObjectCopyName_def wr_def)
qed

section \<open>Generated names\<close>

lemma dec_pos [simp]: "0 < length (dec k)" "dec k \<noteq> []"
  by (subst dec_def, subst dec_rev.simps, simp)+

lemma dec_length_mono: "j \<le> k \<Longrightarrow> length (dec j) \<le> length (dec k)"
proof -
  have "j \<le> k \<longrightarrow> length (dec_rev j) \<le> length (dec_rev k)" for j k
  proof (induction j arbitrary: k rule: dec_rev.induct)
    case (1 j)
    show ?case
    proof
      assume le: "j \<le> k"
      show "length (dec_rev j) \<le> length (dec_rev k)"
      proof (cases "j div 10 > 0")
        case True
        have "j div 10 \<le> k div 10" using le by (rule div_le_mono)
        then have "0 < k div 10" using True by linarith
        then show ?thesis using "1.IH" [OF True, of "k div 10"] True \<open>j div 10 \<le> k div 10\<close>
          by (subst (1 2) dec_rev.simps) simp
      next
        case False
        then show ?thesis by (subst (1 2) dec_rev.simps) simp
      qed
    qed
  qed
  then show "j \<le> k \<Longrightarrow> length (dec j) \<le> length (dec k)" by (simp add: dec_def)
qed

text \<open>
  A search that tries the numbers from \<open>i\<close> on: an attempt writes a name into the buffer, and
  the search ends with the first that is not taken.
\<close>

locale name_search =
  fixes attempt :: "nat \<Rightarrow> char list \<Rightarrow> char list option"
    and names :: "string list"
    and search :: "32 word \<Rightarrow> char list \<Rightarrow> char list option"
    and pfx :: string and len :: nat
  assumes search: "search i buf =
      do { b \<leftarrow> attempt (unat i) buf; if cstr b \<in> set names then search (i + 1) b else Some b }"
    and attempt: "nonul pfx \<Longrightarrow> len \<le> length buf \<Longrightarrow> length pfx + length (dec k) < len \<Longrightarrow>
      \<exists>b. attempt k buf = Some b \<and> cstr b = pfx @ dec k \<and> length b = length buf"
begin

lemma search_from:
  "nonul pfx \<Longrightarrow> i \<le> k \<Longrightarrow> \<forall>j. i \<le> j \<and> j < k \<longrightarrow> pfx @ dec j \<in> set names \<Longrightarrow> pfx @ dec k \<notin> set names \<Longrightarrow>
   k < 2 ^ 32 \<Longrightarrow> len \<le> length buf \<Longrightarrow> length pfx + length (dec k) < len \<Longrightarrow>
   \<exists>b. search (of_nat i) buf = Some b \<and> cstr b = pfx @ dec k \<and> length b = length buf"
proof (induction "k - i" arbitrary: i buf)
  case 0
  then have [simp]: "i = k" by simp
  have u: "unat (of_nat k :: 32 word) = k" using "0.prems" by (simp add: unat_of_nat)
  obtain b where "attempt k buf = Some b" "cstr b = pfx @ dec k" "length b = length buf"
    using attempt [of buf k] "0.prems" by auto
  then show ?case using "0.prems" u by (subst search) simp
next
  case (Suc m)
  have u: "unat (of_nat i :: 32 word) = i" using Suc.prems Suc.hyps(2) by (simp add: unat_of_nat)
  have "length (dec i) \<le> length (dec k)" using Suc.prems by (simp add: dec_length_mono)
  then obtain b where b: "attempt i buf = Some b" "cstr b = pfx @ dec i" "length b = length buf"
    using attempt [of buf i] Suc.prems by auto
  have "pfx @ dec i \<in> set names" using Suc.prems(3) Suc.hyps(2) by simp
  then have "search (of_nat i) buf = search (of_nat (Suc i)) b"
    using b u by (subst search) (simp add: add.commute)
  moreover have "\<exists>b'. search (of_nat (Suc i)) b = Some b' \<and> cstr b' = pfx @ dec k \<and> length b' = length b"
    using Suc.prems Suc.hyps(2) b(3) by (intro Suc.hyps(1)) auto
  ultimately show ?case using b(3) by simp
qed

text \<open>As many numbers as names, and one more, are enough.\<close>

lemma search_ends:
  assumes "nonul pfx" "length pfx + length (dec (i + length names)) < len" "len \<le> length buf" "i + length names < 2 ^ 32"
  shows "\<exists>b k. search (of_nat i) buf = Some b \<and> cstr b = pfx @ dec k \<and> length b = length buf \<and> cstr b \<notin> set names \<and>
    i \<le> k \<and> k \<le> i + length names \<and> (\<forall>j. i \<le> j \<and> j < k \<longrightarrow> pfx @ dec j \<in> set names)"
proof -
  have "\<exists>k. i \<le> k \<and> k \<le> i + length names \<and> pfx @ dec k \<notin> set names"
  proof (rule ccontr)
    assume "\<not> ?thesis"
    then have "(\<lambda>k. pfx @ dec k) ` {i..i + length names} \<subseteq> set names" by auto
    then have "card ((\<lambda>k. pfx @ dec k) ` {i..i + length names}) \<le> card (set names)" by (intro card_mono) auto
    moreover have "card ((\<lambda>k. pfx @ dec k) ` {i..i + length names}) = Suc (length names)"
      by (subst card_image) (auto simp: inj_on_def)
    ultimately show False using card_length [of names] by simp
  qed
  then obtain k0 where k0: "i \<le> k0" "k0 \<le> i + length names" "pfx @ dec k0 \<notin> set names" by auto
  define k where "k = (LEAST k. i \<le> k \<and> pfx @ dec k \<notin> set names)"
  have k: "i \<le> k \<and> pfx @ dec k \<notin> set names" unfolding k_def
    by (rule LeastI [of "\<lambda>k. i \<le> k \<and> pfx @ dec k \<notin> set names" k0]) (use k0 in simp)
  have le: "k \<le> k0" unfolding k_def by (rule Least_le) (use k0 in simp)
  have min: "\<forall>j. i \<le> j \<and> j < k \<longrightarrow> pfx @ dec j \<in> set names"
    using not_less_Least [of _ "\<lambda>k. i \<le> k \<and> pfx @ dec k \<notin> set names"] unfolding k_def by blast
  have "length (dec k) \<le> length (dec (i + length names))" using le k0 by (simp add: dec_length_mono)
  then obtain b where "search (of_nat i) buf = Some b" "cstr b = pfx @ dec k" "length b = length buf"
    using search_from [OF assms(1) conjunct1 [OF k] min conjunct2 [OF k] _ assms(3)] le k0(2) assms(2,4) by auto
  moreover have "k \<le> i + length names" using le k0(2) by (rule order.trans)
  moreover have "cstr b \<notin> set names" unfolding \<open>cstr b = pfx @ dec k\<close> by (rule conjunct2 [OF k])
  ultimately show ?thesis using conjunct1 [OF k] min by blast
qed

end

definition try_pfx :: "string \<Rightarrow> nat \<Rightarrow> nat \<Rightarrow> char list \<Rightarrow> char list option" where
  "try_pfx pfx len k buf = do { (buf, _) \<leftarrow> AG_Strlcpy buf (pfx @ [NUL]) len; (buf, _) \<leftarrow> AG_StrlcatUint buf k len; Some buf }"

definition try_class :: "string \<Rightarrow> nat \<Rightarrow> nat \<Rightarrow> char list \<Rightarrow> char list option" where
  "try_class cname len k buf = do { (buf, _) \<leftarrow> AG_Strlcpy buf (cname @ [NUL]) len; (buf, _) \<leftarrow> AG_Strlcat buf ('' #'' @ [NUL]) len;
     (buf, _) \<leftarrow> AG_StrlcatUint buf k len; Some buf }"

lemma gen_name_try: "gen_name pfx names len i buf =
    do { b \<leftarrow> try_pfx pfx len (unat i) buf; if cstr b \<in> set names then gen_name pfx names len (i + 1) b else Some b }"
  by (subst gen_name.simps) (simp add: try_pfx_def bind_assoc case_prod_unfold)

lemma gen_class_name_try: "gen_class_name cname names len i buf =
    do { b \<leftarrow> try_class cname len (unat i) buf; if cstr b \<in> set names then gen_class_name cname names len (i + 1) b else Some b }"
  by (subst gen_class_name.simps) (simp add: try_class_def bind_assoc case_prod_unfold)

lemma put_number:
  assumes "nonul t" "length t + length (dec k) < len" "len \<le> length t + 1 + length u"
  shows "\<exists>b n. AG_StrlcatUint (t @ NUL # u) k len = Some (b, n) \<and> cstr b = t @ dec k \<and> length b = length t + 1 + length u"
proof -
  have "AG_StrlcatUint (t @ NUL # u) k len = Some (t @ dec k @ NUL # drop (length (dec k)) u, length t + length (dec k))"
    using assms by (subst AG_StrlcatUint_spec) (simp_all add: Let_def)
  moreover have "cstr (t @ dec k @ NUL # drop (length (dec k)) u) = t @ dec k"
    using assms(1) cstr_append_NUL [of "t @ dec k"] by simp
  ultimately show ?thesis using assms by auto
qed

lemma copy_fits:
  assumes "nonul t" "len \<le> length buf" "length t + 1 < len"
  shows "AG_Strlcpy buf (t @ [NUL]) len = Some (t @ NUL # drop (length t + 1) buf, length t)"
  using assms AG_Strlcpy_spec [of t len buf "[]"] by (simp add: min_def)

lemma try_pfx_ok:
  assumes "nonul pfx" "len \<le> length buf" "length pfx + length (dec k) < len"
  shows "\<exists>b. try_pfx pfx len k buf = Some b \<and> cstr b = pfx @ dec k \<and> length b = length buf"
proof -
  have l: "length pfx + 1 < len" using assms(3) dec_pos(1) [of k] by linarith
  define u where "u = drop (length pfx + 1) buf"
  have "length u = length buf - (length pfx + 1)" by (simp add: u_def)
  then have u: "length pfx + 1 + length u = length buf" using l assms(2) by linarith
  have "len \<le> length pfx + 1 + length u" using u assms(2) by simp
  from put_number [OF assms(1,3) this]
  obtain b n where "AG_StrlcatUint (pfx @ NUL # u) k len = Some (b, n)" "cstr b = pfx @ dec k" "length b = length buf"
    unfolding u by blast
  then show ?thesis using copy_fits [OF assms(1,2) l] by (simp add: try_pfx_def u_def)
qed

lemma try_class_ok:
  assumes "nonul cname" "len \<le> length buf" "length (cname @ '' #'') + length (dec k) < len"
  shows "\<exists>b. try_class cname len k buf = Some b \<and> cstr b = (cname @ '' #'') @ dec k \<and> length b = length buf"
proof -
  define t where "t = cname @ '' #''"
  have l: "length t + 1 < len" using assms(3) dec_pos(1) [of k] unfolding t_def by linarith
  define u where "u = drop (length cname + 1) buf"
  have 1: "AG_Strlcpy buf (cname @ [NUL]) len = Some (cname @ NUL # u, length cname)"
    using copy_fits [OF assms(1,2)] l by (simp add: t_def u_def)
  have 2: "AG_Strlcat (cname @ NUL # u) ('' #'' @ [NUL]) len = Some (t @ NUL # drop 2 u, length t)"
    using AG_Strlcat_spec [of cname "'' #''" len u "[]"] assms(1,2) l by (simp add: t_def u_def min_def)
  have "\<exists>b n. AG_StrlcatUint (t @ NUL # drop 2 u) k len = Some (b, n) \<and> cstr b = t @ dec k \<and> length b = length t + 1 + length (drop 2 u)"
    using assms l by (intro put_number) (auto simp: t_def u_def)
  then obtain b n where "AG_StrlcatUint (t @ NUL # drop 2 u) k len = Some (b, n)" "cstr b = t @ dec k"
    "length b = length t + 1 + length (drop 2 u)" by auto
  then show ?thesis using 1 2 assms(2) l by (simp add: try_class_def t_def u_def)
qed

interpretation class_names: name_search "try_class cname len" names "gen_class_name cname names len" "cname @ '' #''" len
  for cname len names
  by unfold_locales (rule gen_class_name_try, rule try_class_ok, simp_all)

interpretation pfx_names: name_search "try_pfx pfx len" names "gen_name pfx names len" pfx len
  for pfx len names
  by unfold_locales (rule gen_name_try, rule try_pfx_ok)

text \<open>With a class name that leaves no room for a number, the same name is tried for ever.\<close>

lemma gen_class_name_stuck:
  assumes "\<And>k b. length b = L \<Longrightarrow> \<exists>b'. try_class cname len k b = Some b' \<and> cstr b' \<in> set names \<and> length b' = L"
    and "length buf = L"
  shows "gen_class_name cname names len i buf = None"
proof (rule ccontr)
  assume "gen_class_name cname names len i buf \<noteq> None"
  then obtain r where r: "gen_class_name cname names len i buf = Some r" by auto
  have "cname = cname \<longrightarrow> names = names \<longrightarrow> len = len \<longrightarrow> length buf = L \<longrightarrow> False"
  proof (rule gen_class_name.raw_induct [where P = "\<lambda>c ns n i b r. c = cname \<longrightarrow> ns = names \<longrightarrow> n = len \<longrightarrow> length b = L \<longrightarrow> False", rotated, OF r])
    fix f c ns n i b r
    assume IH: "\<And>c ns n i b r. f c ns n i b = Some r \<Longrightarrow> c = cname \<longrightarrow> ns = names \<longrightarrow> n = len \<longrightarrow> length b = L \<longrightarrow> False"
      and body: "do {
         (buf, _) \<leftarrow> AG_Strlcpy b (c @ [NUL]) n;
         (buf, _) \<leftarrow> AG_Strlcat buf ('' #'' @ [NUL]) n;
         (buf, _) \<leftarrow> AG_StrlcatUint buf (unat i) n;
         if cstr buf \<in> set ns then f c ns n (i + 1) buf else Some buf
       } = Some r"
    show "c = cname \<longrightarrow> ns = names \<longrightarrow> n = len \<longrightarrow> length b = L \<longrightarrow> False"
    proof (intro impI)
      assume eqs: "c = cname" "ns = names" "n = len" "length b = L"
      obtain b' where b': "try_class cname len (unat i) b = Some b'" "cstr b' \<in> set names" "length b' = L"
        using assms(1) [OF eqs(4)] by blast
      have "f cname names len (i + 1) b' = Some r"
        using body b' unfolding eqs(1-3) try_class_def by (auto simp: bind_eq_Some_conv split: if_splits)
      then show False using IH b'(3) by blast
    qed
  qed
  then show False using assms(2) by simp
qed

lemma put_number_full:
  assumes "nonul t" "length t + 1 = len" "len \<le> length t + 1 + length u"
  shows "AG_StrlcatUint (t @ NUL # u) k len = Some (t @ NUL # u, len + 1)"
proof -
  have "\<not> length t + length (dec k) < len" using assms(2) dec_pos(1) [of k] by linarith
  then show ?thesis using assms by (subst AG_StrlcatUint_spec) (simp_all add: Let_def)
qed

lemma try_class_full:
  assumes "nonul cname" "len \<le> length buf" "0 < len" "len - 1 \<le> length (cname @ '' #'')"
  shows "\<exists>b. try_class cname len k buf = Some b \<and> cstr b = take (len - 1) (cname @ '' #'') \<and> length b = length buf"
proof -
  define c where "c = take (len - 1) cname"
  have c: "length c = min (length cname) (len - 1)" "nonul c" using assms(1) by (auto simp: c_def)
  define u where "u = drop (Suc (min (len - 1) (length cname))) buf"
  have 1: "AG_Strlcpy buf (cname @ [NUL]) len = Some (c @ NUL # u, length cname)"
    using assms(1-3) by (subst AG_Strlcpy_spec) (simp_all add: c_def u_def)
  have lu: "length c + 1 + length u = length buf" using c(1) assms(2,3) by (simp add: u_def min_def)
  define j where "j = min (len - length c - 1) 2"
  define t where "t = c @ take j '' #''"
  have 2: "AG_Strlcat (c @ NUL # u) ('' #'' @ [NUL]) len = Some (t @ NUL # drop j u, length c + 2)"
    using c assms(2,3) lu by (subst AG_Strlcat_spec) (auto simp: t_def j_def Let_def numeral_2_eq_2)
  have t: "t = take (len - 1) (cname @ '' #'')" using c(1) assms(3) by (auto simp: t_def j_def c_def min_def take_Cons' split: if_splits)
  then have lt: "length t + 1 = len" using assms(3,4) by simp
  have nt: "nonul t" using assms(1) unfolding t by (intro nonul_take) simp
  have "j \<le> length u" using lu assms(2) unfolding j_def by linarith
  moreover have "length t = length c + j" by (simp add: t_def j_def numeral_2_eq_2)
  ultimately have le: "length t + 1 + length (drop j u) = length buf" using lu by simp
  then have 3: "AG_StrlcatUint (t @ NUL # drop j u) k len = Some (t @ NUL # drop j u, len + 1)"
    using nt lt assms(2) by (intro put_number_full) auto
  have "cstr (t @ NUL # drop j u) = t" using nt by simp
  then show ?thesis using 1 2 3 le t by (simp add: try_class_def)
qed

lemma AG_ObjectGenName_stuck_spec:
  assumes "child_names p w = Some names" "cl_name (cl_mem (w_reg w) cl) = cname" "nonul cname"
    "len \<le> length buf" "0 < len" "len - 1 \<le> length (cname @ '' #'')" "take (len - 1) (cname @ '' #'') \<in> set names"
  shows "AG_ObjectGenName p cl buf len w = None"
proof -
  have "gen_class_name cname names len 0 buf = None"
  proof (rule gen_class_name_stuck)
    show "\<exists>b'. try_class cname len k b = Some b' \<and> cstr b' \<in> set names \<and> length b' = length buf" if "length b = length buf" for k b
      using try_class_full [OF assms(3), of len b k] assms(4-7) that by auto
  qed simp
  then show ?thesis using assms(1,2) by (simp add: AG_ObjectGenName_def)
qed

lemma AG_ObjectGenName_spec:
  assumes "child_names p w = Some names" "cl_name (cl_mem (w_reg w) cl) = cname" "nonul cname"
    "len \<le> length buf" "length (cname @ '' #'') + length (dec (length names)) < len" "length names < 2 ^ 32"
  shows "\<exists>b k. AG_ObjectGenName p cl buf len w = Some b \<and> cstr b = cname @ '' #'' @ dec k \<and> cstr b \<notin> set names \<and>
     k \<le> length names \<and> (\<forall>j < k. cname @ '' #'' @ dec j \<in> set names)"
  using class_names.search_ends [of cname 0 names len buf] assms
  by (auto simp: AG_ObjectGenName_def)

lemma AG_ObjectGenNamePfx_spec:
  assumes "child_names p w = Some names" "nonul pfx"
    "len \<le> length buf" "length pfx + length (dec (length names + 1)) < len" "length names + 1 < 2 ^ 32"
  shows "\<exists>b k. AG_ObjectGenNamePfx p pfx buf len w = Some b \<and> cstr b = pfx @ dec k \<and> cstr b \<notin> set names \<and>
     1 \<le> k \<and> k \<le> length names + 1 \<and> (\<forall>j. 1 \<le> j \<and> j < k \<longrightarrow> pfx @ dec j \<in> set names)"
  using pfx_names.search_ends [of pfx 1 names len buf] assms
  by (auto simp: AG_ObjectGenNamePfx_def)

section \<open>Dependencies\<close>

lemma unat_inc: "unat i + 1 < 2 ^ 32 \<Longrightarrow> unat (i + 1 :: 32 word) = unat i + 1"
  by (simp add: unat_word_ariths)

lemma encode_loop_ge: "encode_loop d i xs = Some e \<Longrightarrow> unat i + length xs < 2 ^ 32 \<Longrightarrow> i \<le> e"
proof (induction xs arbitrary: i)
  case (Cons x xs)
  show ?case
  proof (cases "dep_obj x = Some d")
    case False
    have s: "unat (i + 1) = unat i + 1" using Cons.prems(2) by (intro unat_inc) simp
    have "i + 1 \<le> e" using Cons.IH [of "i + 1"] Cons.prems False s by simp
    moreover have "i \<le> i + 1" using s by (simp add: word_le_nat_alt)
    ultimately show ?thesis by (rule order.trans [rotated])
  qed (use Cons.prems in simp)
qed simp

lemma encode_then_find:
  "encode_loop d i xs = Some e \<Longrightarrow> unat i + length xs < 2 ^ 32 \<Longrightarrow> \<exists>x. find_dep_loop e i xs = Some x \<and> dep_obj x = Some d"
proof (induction xs arbitrary: i)
  case (Cons x xs)
  show ?case
  proof (cases "dep_obj x = Some d")
    case False
    have s: "unat (i + 1) = unat i + 1" using Cons.prems(2) by (intro unat_inc) simp
    have e: "encode_loop d (i + 1) xs = Some e" using Cons.prems(1) False by simp
    have "i + 1 \<le> e" using encode_loop_ge [OF e] Cons.prems(2) s by simp
    then have "i \<noteq> e" using s by (auto simp: word_le_nat_alt)
    then show ?thesis using Cons.IH [OF e] Cons.prems(2) s by simp
  qed (use Cons.prems in simp)
qed simp

lemma encode_loop_total: "\<exists>x \<in> set xs. dep_obj x = Some d \<Longrightarrow> \<exists>e. encode_loop d i xs = Some e"
  by (induction xs arbitrary: i) auto

lemma upd_dep_length: "length (upd_dep d f xs) \<le> length xs"
  by (induction xs) (auto split: option.split)

lemma find_dep_upd: "find_dep d xs = Some x \<Longrightarrow> f x = Some y \<Longrightarrow> dep_obj y = Some d \<Longrightarrow>
   find_dep d (upd_dep d f xs) = Some y"
  by (induction xs) (auto simp: find_dep_def)

lemma upd_dep_twice: "find_dep d xs = Some x \<Longrightarrow> f x = Some y \<Longrightarrow> dep_obj y = Some d \<Longrightarrow> g y = Some x \<Longrightarrow>
   upd_dep d g (upd_dep d f xs) = xs"
  by (induction xs) (auto simp: find_dep_def)

lemma upd_dep_last: "find_dep d xs = None \<Longrightarrow> dep_obj x = Some d \<Longrightarrow> f x = None \<Longrightarrow> upd_dep d f (xs @ [x]) = xs"
  by (induction xs) (auto simp: find_dep_def split: if_splits)

lemma find_dep_last: "find_dep d xs = None \<Longrightarrow> dep_obj x = Some d \<Longrightarrow> find_dep d (xs @ [x]) = Some x"
  by (induction xs) (auto simp: find_dep_def split: if_splits)

lemma find_dep_in: "find_dep d xs = Some x \<Longrightarrow> x \<in> set xs \<and> dep_obj x = Some d"
  by (auto simp: find_dep_def find_Some_iff)

lemma put_obj_back: "w_objs w p = Some ob \<Longrightarrow> put_obj p ob (put_obj p ob' w) = w"
  by (simp add: put_obj_def fun_upd_idem)

lemma AG_ObjectDep_spec:
  assumes ob: "w_objs w p = Some ob" and d: "d \<noteq> p" and len: "length (ob_deps ob) + 3 < 2 ^ 32"
  shows "\<exists>w' i. AG_ObjectAddDep p d pers w = Some w' \<and>
     AG_ObjectEncodeName p (Some d) w' = Some i \<and> AG_ObjectFindDep p i w' = Some (0, Some d) \<and>
     ((case find_dep d (ob_deps ob) of
         None \<Rightarrow> ob_flags ob AND AG_OBJECT_PRESERVE_DEPS = 0
       | Some x \<Rightarrow> 0 < dep_count x \<and> dep_count x < AG_OBJECT_DEP_MAX - 1) \<longrightarrow> AG_ObjectDelDep p d w' = Some w)"
proof -
  define new where "new = \<lparr>dep_persistent = pers, dep_path = None, dep_obj = Some d, dep_count = 1\<rparr>"
  define inc :: "AG_ObjectDep \<Rightarrow> AG_ObjectDep option" where "inc = (\<lambda>x. let c = dep_count x + 1 in Some (x\<lparr>dep_count := (if c > AG_OBJECT_DEP_MAX then AG_OBJECT_DEP_MAX else c)\<rparr>))"
  define deps where "deps = (case find_dep d (ob_deps ob) of Some _ \<Rightarrow> upd_dep d inc (ob_deps ob) | None \<Rightarrow> ob_deps ob @ [new])"
  define w' where "w' = put_obj p (ob\<lparr>ob_deps := deps\<rparr>) w"
  have add: "AG_ObjectAddDep p d pers w = Some w'"
    by (auto simp: AG_ObjectAddDep_def ob deps_def w'_def inc_def new_def Let_def split: option.split)
  have ob': "w_objs w' p = Some (ob\<lparr>ob_deps := deps\<rparr>)" by (simp add: w'_def)
  obtain x where x: "find_dep d deps = Some x" "case find_dep d (ob_deps ob) of None \<Rightarrow> x = new | Some y \<Rightarrow> inc y = Some x"
  proof (cases "find_dep d (ob_deps ob)")
    case None
    then show thesis using that [of new] by (simp add: deps_def find_dep_last new_def)
  next
    case (Some y)
    obtain z where z: "inc y = Some z" "dep_obj z = Some d" using find_dep_in [OF Some] by (auto simp: inc_def Let_def)
    then show thesis using that [of z] Some find_dep_upd [where f = inc, OF Some z] by (simp add: deps_def)
  qed
  have l: "unat (2 :: 32 word) + length deps < 2 ^ 32"
    using len upd_dep_length [of d inc "ob_deps ob"] by (auto simp: deps_def split: option.split)
  obtain i where i: "encode_loop d 2 deps = Some i" using encode_loop_total [of deps d 2] find_dep_in [OF x(1)] by blast
  have ge: "2 \<le> i" by (rule encode_loop_ge [OF i l])
  have enc: "AG_ObjectEncodeName p (Some d) w' = Some i" using i d ob' by (simp add: AG_ObjectEncodeName_def)
  obtain y where "find_dep_loop i 2 deps = Some y" "dep_obj y = Some d" using encode_then_find [OF i l] by blast
  moreover have "i \<noteq> 0" "i \<noteq> 1" using ge by (auto simp: word_le_nat_alt)
  ultimately have fnd: "AG_ObjectFindDep p i w' = Some (0, Some d)" using ob' by (simp add: AG_ObjectFindDep_def)
  have undo: "put_obj p ob w' = w" using ob by (simp add: w'_def put_obj_back)
  have del: "AG_ObjectDelDep p d w' = Some w" if c: "case find_dep d (ob_deps ob) of
         None \<Rightarrow> ob_flags ob AND AG_OBJECT_PRESERVE_DEPS = 0
       | Some x \<Rightarrow> 0 < dep_count x \<and> dep_count x < AG_OBJECT_DEP_MAX - 1"
  proof (cases "find_dep d (ob_deps ob)")
    case None
    then have "upd_dep d (\<lambda>x. None) deps = ob_deps ob" by (simp add: deps_def upd_dep_last new_def)
    then show ?thesis using None c x ob' undo by (simp add: AG_ObjectDelDep_def new_def AG_OBJECT_DEP_MAX_def)
  next
    case (Some y)
    have y: "0 < dep_count y" "dep_count y < AG_OBJECT_DEP_MAX - 1" using c Some by auto
    have s: "unat (dep_count y + 1) = unat (dep_count y) + 1"
      using y(2) by (intro unat_inc) (simp add: AG_OBJECT_DEP_MAX_def word_less_nat_alt)
    have small: "\<not> dep_count y + 1 > AG_OBJECT_DEP_MAX" "dep_count y + 1 \<noteq> AG_OBJECT_DEP_MAX"
      using y(2) s by (auto simp: AG_OBJECT_DEP_MAX_def word_less_nat_alt word_unat_eq_iff)
    have xy: "x = y\<lparr>dep_count := dep_count y + 1\<rparr>" using x(2) Some small(1) by (simp add: inc_def Let_def)
    have "upd_dep d (\<lambda>x. Some (x\<lparr>dep_count := dep_count x - 1\<rparr>)) deps = ob_deps ob"
      using Some small(1) find_dep_in [OF Some] unfolding deps_def
      by (simp, intro upd_dep_twice [OF Some]) (auto simp: inc_def Let_def)
    moreover have "dep_count x - 1 \<noteq> 0" "dep_count x \<noteq> 0" using xy y(1) s by (auto simp: word_unat_eq_iff word_less_nat_alt)
    ultimately show ?thesis using x(1) xy small ob' undo by (simp add: AG_ObjectDelDep_def)
  qed
  show ?thesis using add enc fnd del by blast
qed

section \<open>The links of the tree\<close>

text \<open>What the tree depends on: the children and the parent of every object.\<close>

definition tree_view :: "world \<Rightarrow> nat \<Rightarrow> (nat list \<times> nat option) option" where
  "tree_view w p = map_option (\<lambda>ob. (ob_children ob, ob_parent ob)) (w_objs w p)"

definition links_ok :: "(nat \<Rightarrow> (nat list \<times> nat option) option) \<Rightarrow> bool" where
  "links_ok v \<longleftrightarrow> (\<forall>p cs par. v p = Some (cs, par) \<longrightarrow> distinct cs) \<and>
     (\<forall>p cs par c. v p = Some (cs, par) \<longrightarrow> c \<in> set cs \<longrightarrow> (\<exists>ds. v c = Some (ds, Some p))) \<and>
     (\<forall>p cs q. v p = Some (cs, Some q) \<longrightarrow> (\<exists>cs' par'. v q = Some (cs', par') \<and> p \<in> set cs'))"

definition tree_ok :: "world \<Rightarrow> bool" where
  "tree_ok w \<longleftrightarrow> links_ok (tree_view w)"

lemma links_okD:
  "links_ok v \<Longrightarrow> v p = Some (cs, par) \<Longrightarrow> distinct cs"
  "links_ok v \<Longrightarrow> v p = Some (cs, par) \<Longrightarrow> c \<in> set cs \<Longrightarrow> \<exists>ds. v c = Some (ds, Some p)"
  "links_ok v \<Longrightarrow> v p = Some (cs, Some q) \<Longrightarrow> \<exists>cs' par'. v q = Some (cs', par') \<and> p \<in> set cs'"
  unfolding links_ok_def by blast+

lemma links_init:
  assumes "links_ok v" "v p = None"
  shows "links_ok (v(p \<mapsto> ([], None)))"
  unfolding links_ok_def
proof (intro conjI allI impI)
  fix r cs par c assume a: "(v(p \<mapsto> ([], None))) r = Some (cs, par)" "c \<in> set cs"
  then have "v r = Some (cs, par)" by (auto split: if_splits)
  then show "\<exists>ds. (v(p \<mapsto> ([], None))) c = Some (ds, Some r)" using links_okD(2) [OF assms(1) _ a(2)] assms(2) by auto
next
  fix r cs q assume "(v(p \<mapsto> ([], None))) r = Some (cs, Some q)"
  then have "v r = Some (cs, Some q)" by (auto split: if_splits)
  then show "\<exists>cs' par'. (v(p \<mapsto> ([], None))) q = Some (cs', par') \<and> r \<in> set cs'"
    using links_okD(3) [OF assms(1)] assms(2) by fastforce
qed (use links_okD(1) [OF assms(1)] in \<open>auto split: if_splits\<close>)

lemma links_attach:
  assumes ok: "links_ok v" and c: "v c = Some (ds, None)" and p: "v p = Some (cs, par)" and ne: "c \<noteq> p"
  shows "links_ok (v(c \<mapsto> (ds, Some p), p \<mapsto> (cs @ [c], par)))" (is "links_ok ?v")
  unfolding links_ok_def
proof (intro conjI allI impI)
  have nin: "x \<notin> set cs'" if "v r = Some (cs', par')" "x = c" for r cs' par' x
    using links_okD(2) [OF ok that(1), of x] that(2) c by auto
  fix r rs rp assume "?v r = Some (rs, rp)"
  then show "distinct rs" using links_okD(1) [OF ok] p c nin [OF p refl] by (auto split: if_splits)
next
  fix r rs rp x assume a: "?v r = Some (rs, rp)" "x \<in> set rs"
  show "\<exists>es. ?v x = Some (es, Some r)"
  proof (cases "x = c")
    case True
    have "r = p"
    proof (rule ccontr)
      assume "r \<noteq> p"
      then obtain rp' where "v r = Some (rs, rp')" using a(1) c by (auto split: if_splits)
      then show False using links_okD(2) [OF ok _ a(2)] c True by auto
    qed
    then show ?thesis using True ne by simp
  next
    case False
    obtain rs' rp' where r: "v r = Some (rs', rp')" "x \<in> set rs'" using a c p False by (auto split: if_splits)
    then obtain es where "v x = Some (es, Some r)" using links_okD(2) [OF ok] by blast
    then show ?thesis using False p by auto
  qed
next
  fix r rs q assume a: "?v r = Some (rs, Some q)"
  show "\<exists>cs' par'. ?v q = Some (cs', par') \<and> r \<in> set cs'"
  proof (cases "r = c")
    case True
    then show ?thesis using a ne by auto
  next
    case False
    then obtain rs' where "v r = Some (rs', Some q)" using a p by (auto split: if_splits)
    then obtain cs' par' where "v q = Some (cs', par')" "r \<in> set cs'" using links_okD(3) [OF ok] by blast
    then show ?thesis using c p by auto
  qed
qed

lemma links_detach:
  assumes ok: "links_ok v" and c: "v c = Some (ds, Some p)" and p: "v p = Some (cs, par)" and ne: "c \<noteq> p"
  shows "links_ok (v(p \<mapsto> (remove1 c cs, par), c \<mapsto> (ds, None)))" (is "links_ok ?v")
  unfolding links_ok_def
proof (intro conjI allI impI)
  have d: "distinct cs" using links_okD(1) [OF ok p] .
  fix r rs rp assume "?v r = Some (rs, rp)"
  then show "distinct rs" using links_okD(1) [OF ok] p c d by (auto split: if_splits)
next
  have d: "distinct cs" using links_okD(1) [OF ok p] .
  fix r rs rp x assume a: "?v r = Some (rs, rp)" "x \<in> set rs"
  obtain rs' rp' where r: "v r = Some (rs', rp')" "x \<in> set rs'" "r = p \<longrightarrow> x \<noteq> c" using a c p d ne by (auto split: if_splits)
  then obtain es where es: "v x = Some (es, Some r)" using links_okD(2) [OF ok] by blast
  then have "x \<noteq> c" using r(3) c by auto
  then show "\<exists>es. ?v x = Some (es, Some r)" using es p by auto
next
  fix r rs q assume a: "?v r = Some (rs, Some q)"
  then have ne': "r \<noteq> c" by (auto split: if_splits)
  then obtain rs' where "v r = Some (rs', Some q)" using a p by (auto split: if_splits)
  then obtain cs' par' where "v q = Some (cs', par')" "r \<in> set cs'" using links_okD(3) [OF ok] by blast
  then show "\<exists>cs' par'. ?v q = Some (cs', par') \<and> r \<in> set cs'" using c p ne' by auto
qed

lemma links_permute:
  assumes ok: "links_ok v" and p: "v p = Some (cs, par)" and ps: "distinct cs'" "set cs' = set cs"
  shows "links_ok (v(p \<mapsto> (cs', par)))" (is "links_ok ?v")
  unfolding links_ok_def
proof (intro conjI allI impI)
  fix r rs rp assume "?v r = Some (rs, rp)"
  then show "distinct rs" using links_okD(1) [OF ok] ps by (auto split: if_splits)
next
  fix r rs rp x assume a: "?v r = Some (rs, rp)" "x \<in> set rs"
  then obtain rs' rp' where r: "v r = Some (rs', rp')" "x \<in> set rs'" using p ps by (auto split: if_splits)
  then obtain es where es: "v x = Some (es, Some r)" using links_okD(2) [OF ok] by blast
  then show "\<exists>es. ?v x = Some (es, Some r)" using p by auto
next
  fix r rs q assume a: "?v r = Some (rs, Some q)"
  then obtain rs' where "v r = Some (rs', Some q)" using p by (auto split: if_splits)
  then obtain qs qp where q: "v q = Some (qs, qp)" "r \<in> set qs" using links_okD(3) [OF ok] by blast
  then have "?v q = (if q = p then Some (cs', par) else Some (qs, qp))" by simp
  moreover have "q = p \<longrightarrow> r \<in> set cs'" using q p ps(2) by (metis Pair_inject option.inject)
  ultimately show "\<exists>cs' par'. ?v q = Some (cs', par') \<and> r \<in> set cs'" using q(2) by (cases "q = p") auto
qed

text \<open>Handlers and class routines that leave the objects alone.\<close>

definition quiet_env :: "obj_env \<Rightarrow> bool" where
  "quiet_env env \<longleftrightarrow> quiet (hk_call (oe_hooks env)) \<and>
     (\<forall>k f p w w'. oe_init env k = Some f \<longrightarrow> f p w = Some w' \<longrightarrow> w_objs w' = w_objs w) \<and>
     src_delTimerFn (oe_src env) = None"

lemma forward_quiet:
  assumes "quiet call"
  shows "(\<forall>sndr rcvr r w w'. PropagateEvent n call sndr rcvr r w = Some w' \<longrightarrow> w_objs w' = w_objs w) \<and>
    (\<forall>rcvr chld r w w'. propagate_children n call rcvr chld r w = Some w' \<longrightarrow> w_objs w' = w_objs w) \<and>
    (\<forall>sndr rcvr r w w'. AG_ForwardEvent n call sndr rcvr r w = Some w' \<longrightarrow> w_objs w' = w_objs w) \<and>
    (\<forall>sndr rcvr r cur w w'. forward_loop n call sndr rcvr r cur w = Some w' \<longrightarrow> w_objs w' = w_objs w)"
proof (induction n)
  case (Suc n)
  show ?case
    using Suc.IH run_fn_quiet [OF assms]
    by (intro conjI allI impI) (fastforce simp: bind_eq_Some_conv split: option.splits if_splits)+
qed simp

lemma post_quiet:
  assumes "quiet call"
  shows "post_loop n call sndr rcvr name fmt ap pg cur w = Some w' \<Longrightarrow> w_objs w' = w_objs w"
proof (induction n arbitrary: pg cur w)
  case (Suc n)
  have d: "w_objs w2 = w_objs w1" if "deliver n call sndr rcvr fmt ap pg ev w1 = Some (pg', w2)" for pg ev w1 pg' w2
    using that forward_quiet [OF assms, of n] run_fn_quiet [OF assms]
    by (fastforce simp: deliver_def bind_eq_Some_conv split: if_splits)
  show ?case using Suc.prems Suc.IH d
    by (fastforce simp: bind_eq_Some_conv split: option.splits if_splits prod.splits)
qed simp

lemma post_view: "quiet_env env \<Longrightarrow> post env s r name w = Some w' \<Longrightarrow> w_objs w' = w_objs w"
  by (auto simp: post_def AG_PostEvent_def quiet_env_def bind_eq_Some_conv dest: post_quiet)

lemma tree_view_put: "tree_view (put_obj p ob w) = (tree_view w)(p \<mapsto> (ob_children ob, ob_parent ob))"
  by (auto simp: tree_view_def)

lemma tree_view_Some: "tree_view w p = Some (cs, par) \<longleftrightarrow> (\<exists>ob. w_objs w p = Some ob \<and> ob_children ob = cs \<and> ob_parent ob = par)"
  by (auto simp: tree_view_def)

lemma upd_obj_view:
  "upd_obj p f w = Some w' \<Longrightarrow> (\<And>ob. ob_children (f ob) = ob_children ob \<and> ob_parent (f ob) = ob_parent ob) \<Longrightarrow>
   tree_view w' = tree_view w"
  by (auto simp: upd_obj_def bind_eq_Some_conv tree_view_def)

lemma run_ops_quiet: "quiet_env env \<Longrightarrow> run_ops (oe_init env) ks p w = Some w' \<Longrightarrow> w_objs w' = w_objs w"
proof (induction ks arbitrary: w)
  case (Cons k ks)
  then obtain w1 where w1: "(case oe_init env k of None \<Rightarrow> Some w | Some f \<Rightarrow> f p w) = Some w1"
    "run_ops (oe_init env) ks p w1 = Some w'" by (auto simp: bind_eq_Some_conv)
  then have "w_objs w1 = w_objs w" using Cons.prems(1) by (auto simp: quiet_env_def split: option.splits)
  then show ?case using Cons.IH [OF Cons.prems(1) w1(2)] by simp
qed simp

lemma tree_view_cong: "w_objs w' = w_objs w \<Longrightarrow> tree_view w' = tree_view w"
  by (simp add: tree_view_def fun_eq_iff)

lemma set_timers_view: "set_timers p ts w = Some w' \<Longrightarrow> tree_view w' = tree_view w"
  by (auto simp: set_timers_def bind_eq_Some_conv tree_view_put tree_view_def fun_eq_iff)

lemma unqueue_view: "unqueue_obj p w = Some w' \<Longrightarrow> tree_view w' = tree_view w"
  by (auto simp: unqueue_obj_def bind_eq_Some_conv intro: tree_view_cong)

lemma AG_DelTimer_view:
  assumes env: "quiet_env env" and run: "AG_DelTimer (oe_src env) q to w = Some w'"
  shows "tree_view w' = tree_view w"
proof -
  obtain ts where ts: "timers_of (timer_obj (oe_src env) q) w = Some ts"
    using run by (auto simp: AG_DelTimer_def Let_def bind_eq_Some_conv)
  show ?thesis
  proof (cases "to \<in> set ts")
    case False
    then show ?thesis using run ts by (simp add: AG_DelTimer_def Let_def)
  next
    case True
    then obtain T ts1 ts2 w1 w2 where s: "set_timers (timer_obj (oe_src env) q) ts2
         (put_timer to (T\<lparr>to_id := -1, to_obj := None\<rparr>) w) = Some w1"
      "(if ts2 = [] then unqueue_obj (timer_obj (oe_src env) q) w1 else Some w1) = Some w2"
      "w' = (if to_flags T AND AG_TIMER_AUTO_FREE \<noteq> 0 then w2\<lparr>w_timers := (w_timers w2)(to := None)\<rparr> else w2)"
      using run ts env by (auto simp: AG_DelTimer_def Let_def bind_eq_Some_conv quiet_env_def)
    have "tree_view w' = tree_view w2" using s(3) by (auto intro: tree_view_cong)
    also have "\<dots> = tree_view w1" using s(2) unqueue_view by (auto split: if_splits)
    also have "\<dots> = tree_view (put_timer to (T\<lparr>to_id := -1, to_obj := None\<rparr>) w)" by (rule set_timers_view [OF s(1)])
    finally show ?thesis by (simp add: tree_view_def fun_eq_iff)
  qed
qed

lemma del_loop_view: "quiet_env env \<Longrightarrow> del_loop n (oe_src env) p cur w = Some w' \<Longrightarrow> tree_view w' = tree_view w"
proof (induction n arbitrary: cur w)
  case (Suc n)
  then show ?case by (auto simp: bind_eq_Some_conv split: option.splits dest!: AG_DelTimer_view)
qed simp

text \<open>The operations in terms of the links.\<close>

lemma AG_ObjectInit_view:
  assumes "quiet_env env" "AG_ObjectInit env p cl w = Some w'"
  shows "tree_view w' = (tree_view w)(p \<mapsto> ([], None))"
  using assms run_ops_quiet [OF assms(1)]
  by (fastforce simp: AG_ObjectInit_def Let_def bind_eq_Some_conv tree_view_def fun_eq_iff)

lemma AG_ObjectAttach_view:
  assumes env: "quiet_env env" and run: "AG_ObjectAttach env (Some p) c w = Some w'"
    and c: "w_objs w c = Some cob" "ob_attachFn cob = None" and p: "w_objs w p = Some pob" and ne: "c \<noteq> p"
  shows "tree_view w' = (tree_view w)(c \<mapsto> (ob_children cob, Some p), p \<mapsto> (ob_children pob @ [c], ob_parent pob)) \<and>
    c \<notin> set (ob_children pob)"
proof -
  define w1 where "w1 = put_obj c (cob\<lparr>ob_parent := Some p, ob_root := ob_root pob\<rparr>) w"
  obtain w2 cs w3 where w2: "name_on_attach p c w1 = Some w2" and cs: "q_insert_tail c (ob_children (the (w_objs w2 p))) = Some cs"
    and w3: "post env p c ''attached'' (put_obj p ((the (w_objs w2 p))\<lparr>ob_children := cs\<rparr>) w2) = Some w3"
    "post env c p ''child-attached'' w3 = Some w'"
    using run c p by (auto simp: AG_ObjectAttach_def upd_obj_def w1_def bind_eq_Some_conv Let_def)
  have same: "w_objs w2 p = Some pob" "tree_view w2 = tree_view w1"
    using w2 ne p by (auto simp: name_on_attach_def upd_obj_def w1_def bind_eq_Some_conv tree_view_def split: if_splits)
  have w': "tree_view w' = tree_view (put_obj p (pob\<lparr>ob_children := cs\<rparr>) w2)"
    by (rule tree_view_cong) (use post_view [OF env w3(2)] post_view [OF env w3(1)] same(1) in simp)
  have "cs = ob_children pob @ [c]" "c \<notin> set (ob_children pob)" using cs same(1) by (auto simp: q_insert_tail_def split: if_splits)
  then show ?thesis using w' same(2) by (simp add: tree_view_put w1_def)
qed

lemma AG_ObjectDetach_view:
  assumes env: "quiet_env env" and run: "AG_ObjectDetach env c w = Some w'"
    and c: "w_objs w c = Some cob" "ob_detachFn cob = None" "ob_parent cob = Some p" and ne: "c \<noteq> p"
  shows "\<exists>cs par. tree_view w p = Some (cs, par) \<and>
    tree_view w' = (tree_view w)(p \<mapsto> (remove1 c cs, par), c \<mapsto> (ob_children cob, None))"
proof -
  obtain w1 pob cs w2 w3 where w1: "del_loop (hk_fuel (oe_hooks env)) (oe_src env) c (first_of (ob_timers cob)) w = Some w1"
    and pob: "w_objs w1 p = Some pob" and cs: "q_remove c (ob_children pob) = Some cs"
    and w2: "upd_obj c (\<lambda>ob. ob\<lparr>ob_parent := None, ob_root := c\<rparr>) (put_obj p (pob\<lparr>ob_children := cs\<rparr>) w1) = Some w2"
    and w3: "post env p c ''detached'' w2 = Some w3" "post env c p ''child-detached'' w3 = Some w'"
    using run c by (auto simp: AG_ObjectDetach_def bind_eq_Some_conv Let_def)
  have v1: "tree_view w1 = tree_view w" using del_loop_view [OF env w1] .
  then obtain cob1 where c1: "w_objs w1 c = Some cob1" "ob_children cob1 = ob_children cob"
    using c(1) by (metis tree_view_Some)
  have "w2 = put_obj c (cob1\<lparr>ob_parent := None, ob_root := c\<rparr>) (put_obj p (pob\<lparr>ob_children := cs\<rparr>) w1)"
    using w2 c1(1) ne by (simp add: upd_obj_def)
  moreover have "tree_view w' = tree_view w2"
    by (rule tree_view_cong) (use post_view [OF env w3(1)] post_view [OF env w3(2)] in simp)
  moreover have "tree_view w p = Some (ob_children pob, ob_parent pob)" using pob v1 by (metis tree_view_Some)
  moreover have "cs = remove1 c (ob_children pob)" using cs by (auto simp: q_remove_def split: if_splits)
  ultimately show ?thesis using c1(2) v1 by (auto simp: tree_view_put)
qed

lemma remove_split: "q_remove p cs = Some cs' \<Longrightarrow> distinct cs \<Longrightarrow> distinct cs' \<and> set cs = insert p (set cs') \<and> p \<notin> set cs'"
  by (auto simp: q_remove_def split: if_splits)

lemma takeWhile_dropWhile_set: "set (takeWhile P xs) \<union> set (dropWhile P xs) = set xs"
  by (metis set_append takeWhile_dropWhile_id)

lemma insert_before_perm: "q_insert_before y p cs' = Some cs'' \<Longrightarrow> distinct cs' \<Longrightarrow> distinct cs'' \<and> set cs'' = insert p (set cs')"
proof -
  assume a: "q_insert_before y p cs' = Some cs''" "distinct cs'"
  then have e: "cs'' = takeWhile (\<lambda>x. x \<noteq> y) cs' @ p # dropWhile (\<lambda>x. x \<noteq> y) cs'" "p \<notin> set cs'"
    by (auto simp: q_insert_before_def split: if_splits)
  have "distinct (takeWhile (\<lambda>x. x \<noteq> y) cs' @ dropWhile (\<lambda>x. x \<noteq> y) cs')" using a(2) by simp
  then show ?thesis using e takeWhile_dropWhile_set [of "\<lambda>x. x \<noteq> y" cs'] unfolding distinct_append by auto
qed

lemma insert_after_perm:
  assumes "q_insert_after y p cs' = Some cs''" "distinct cs'" "y \<in> set cs'"
  shows "distinct cs'' \<and> set cs'' = insert p (set cs')"
proof -
  obtain as bs where s: "cs' = as @ y # bs" "y \<notin> set as" using assms(3) by (meson split_list_first)
  then have "takeWhile (\<lambda>x. x \<noteq> y) cs' = as" "dropWhile (\<lambda>x. x \<noteq> y) cs' = y # bs"
    using s(2) unfolding s(1) by (induction as) auto
  then show ?thesis using assms s by (auto simp: q_insert_after_def split: if_splits)
qed

lemma next_of_in: "next_of p cs = Some (Some y) \<Longrightarrow> distinct cs \<Longrightarrow> y \<in> set cs \<and> y \<noteq> p"
  by (induction cs) (auto split: if_splits list.splits)

definition perm_op :: "(nat list \<Rightarrow> nat list option) \<Rightarrow> bool" where
  "perm_op f \<longleftrightarrow> (\<forall>cs cs'. f cs = Some cs' \<longrightarrow> distinct cs \<longrightarrow> distinct cs' \<and> set cs' = set cs)"

lemma tree_ok_children: "tree_ok w \<Longrightarrow> w_objs w p = Some ob \<Longrightarrow> distinct (ob_children ob)"
  unfolding tree_ok_def using links_okD(1) tree_view_Some by blast

lemma upd_children_ok:
  assumes "perm_op f" "tree_ok w" "upd_children q f w = Some w'"
  shows "tree_ok w'"
proof -
  obtain ob cs where o: "w_objs w q = Some ob" "f (ob_children ob) = Some cs" "w' = put_obj q (ob\<lparr>ob_children := cs\<rparr>) w"
    using assms(3) by (auto simp: upd_children_def bind_eq_Some_conv)
  have v: "tree_view w q = Some (ob_children ob, ob_parent ob)" using o(1) by (simp add: tree_view_def)
  have "distinct cs" "set cs = set (ob_children ob)"
    using assms(1) o(2) tree_ok_children [OF assms(2) o(1)] unfolding perm_op_def by blast+
  then show ?thesis using links_permute [where v = "tree_view w", OF _ v] assms(2) o(3) by (simp add: tree_ok_def tree_view_put)
qed

lemma move_perms:
  "perm_op (\<lambda>cs. if first_of cs = Some p then Some cs else do { prv \<leftarrow> prev_of p cs; cs \<leftarrow> q_remove p cs; q_insert_before prv p cs })"
  "perm_op (\<lambda>cs. do { nxt \<leftarrow> next_of p cs; (case nxt of None \<Rightarrow> Some cs | Some y \<Rightarrow> do { cs \<leftarrow> q_remove p cs; q_insert_after y p cs }) })"
  "perm_op (\<lambda>cs. do { cs \<leftarrow> q_remove p cs; Some (p # cs) })"
  "perm_op (\<lambda>cs. do { cs \<leftarrow> q_remove p cs; q_insert_tail p cs })"
proof -
  show "perm_op (\<lambda>cs. if first_of cs = Some p then Some cs else do { prv \<leftarrow> prev_of p cs; cs \<leftarrow> q_remove p cs; q_insert_before prv p cs })"
    unfolding perm_op_def using remove_split insert_before_perm
    by (fastforce simp: bind_eq_Some_conv split: if_splits)
  show "perm_op (\<lambda>cs. do { cs \<leftarrow> q_remove p cs; Some (p # cs) })"
    unfolding perm_op_def using remove_split by (fastforce simp: bind_eq_Some_conv)
  show "perm_op (\<lambda>cs. do { cs \<leftarrow> q_remove p cs; q_insert_tail p cs })"
    unfolding perm_op_def using remove_split by (fastforce simp: bind_eq_Some_conv q_insert_tail_def split: if_splits)
  show "perm_op (\<lambda>cs. do { nxt \<leftarrow> next_of p cs; (case nxt of None \<Rightarrow> Some cs | Some y \<Rightarrow> do { cs \<leftarrow> q_remove p cs; q_insert_after y p cs }) })"
    unfolding perm_op_def
  proof (intro allI impI)
    fix cs cs' assume a: "do { nxt \<leftarrow> next_of p cs; (case nxt of None \<Rightarrow> Some cs | Some y \<Rightarrow> do { cs \<leftarrow> q_remove p cs; q_insert_after y p cs }) } = Some cs'"
      "distinct cs"
    then obtain nxt where n: "next_of p cs = Some nxt" by (auto simp: bind_eq_Some_conv)
    show "distinct cs' \<and> set cs' = set cs"
    proof (cases nxt)
      case None
      then show ?thesis using a n by simp
    next
      case (Some y)
      then obtain cs1 where c: "q_remove p cs = Some cs1" "q_insert_after y p cs1 = Some cs'"
        using a n by (auto simp: bind_eq_Some_conv)
      have y: "y \<in> set cs" "y \<noteq> p" using next_of_in n Some a(2) by auto
      have r: "distinct cs1" "set cs = insert p (set cs1)" using remove_split [OF c(1) a(2)] by auto
      then show ?thesis using insert_after_perm [OF c(2) r(1)] y by auto
    qed
  qed
qed

lemma move_op_ok:
  assumes "tree_ok w" "perm_op f"
    "do { ob \<leftarrow> w_objs w p; (case ob_parent ob of None \<Rightarrow> Some w | Some q \<Rightarrow> upd_children q f w) } = Some w'"
  shows "tree_ok w'"
proof -
  obtain ob where "w_objs w p = Some ob" using assms(3) by (auto simp: bind_eq_Some_conv)
  then show ?thesis using assms upd_children_ok by (cases "ob_parent ob") auto
qed

lemma move_ok:
  "tree_ok w \<Longrightarrow> AG_ObjectMoveUp p w = Some w' \<Longrightarrow> tree_ok w'"
  "tree_ok w \<Longrightarrow> AG_ObjectMoveDown p w = Some w' \<Longrightarrow> tree_ok w'"
  "tree_ok w \<Longrightarrow> AG_ObjectMoveToHead p w = Some w' \<Longrightarrow> tree_ok w'"
  "tree_ok w \<Longrightarrow> AG_ObjectMoveToTail p w = Some w' \<Longrightarrow> tree_ok w'"
  unfolding AG_ObjectMoveUp_def AG_ObjectMoveDown_def AG_ObjectMoveToHead_def AG_ObjectMoveToTail_def
  by (erule move_op_ok [OF _ move_perms(1)] move_op_ok [OF _ move_perms(2)] move_op_ok [OF _ move_perms(3)]
    move_op_ok [OF _ move_perms(4)], assumption)+

text \<open>The states that the operations on the tree reach.\<close>

inductive vfs_reach :: "obj_env \<Rightarrow> world \<Rightarrow> world \<Rightarrow> bool" for env w0 where
  start: "vfs_reach env w0 w0"
| init: "vfs_reach env w0 w \<Longrightarrow> w_objs w p = None \<Longrightarrow> AG_ObjectInit env p cl w = Some w' \<Longrightarrow> vfs_reach env w0 w'"
| attach: "vfs_reach env w0 w \<Longrightarrow> w_objs w c = Some cob \<Longrightarrow> ob_parent cob = None \<Longrightarrow> ob_attachFn cob = None \<Longrightarrow> c \<noteq> p \<Longrightarrow>
    AG_ObjectAttach env (Some p) c w = Some w' \<Longrightarrow> vfs_reach env w0 w'"
| detach: "vfs_reach env w0 w \<Longrightarrow> w_objs w c = Some cob \<Longrightarrow> ob_parent cob \<noteq> Some c \<Longrightarrow> ob_detachFn cob = None \<Longrightarrow>
    AG_ObjectDetach env c w = Some w' \<Longrightarrow> vfs_reach env w0 w'"
| rename: "vfs_reach env w0 w \<Longrightarrow> AG_ObjectSetNameS p name w = Some w' \<Longrightarrow> vfs_reach env w0 w'"
| up: "vfs_reach env w0 w \<Longrightarrow> AG_ObjectMoveUp p w = Some w' \<Longrightarrow> vfs_reach env w0 w'"
| down: "vfs_reach env w0 w \<Longrightarrow> AG_ObjectMoveDown p w = Some w' \<Longrightarrow> vfs_reach env w0 w'"
| to_head: "vfs_reach env w0 w \<Longrightarrow> AG_ObjectMoveToHead p w = Some w' \<Longrightarrow> vfs_reach env w0 w'"
| to_tail: "vfs_reach env w0 w \<Longrightarrow> AG_ObjectMoveToTail p w = Some w' \<Longrightarrow> vfs_reach env w0 w'"
| add_dep: "vfs_reach env w0 w \<Longrightarrow> AG_ObjectAddDep p d pers w = Some w' \<Longrightarrow> vfs_reach env w0 w'"
| del_dep: "vfs_reach env w0 w \<Longrightarrow> AG_ObjectDelDep p d w = Some w' \<Longrightarrow> vfs_reach env w0 w'"

lemma deps_view: "w_objs w p = Some ob \<Longrightarrow> tree_view (put_obj p (ob\<lparr>ob_deps := ds\<rparr>) w) = tree_view w"
  by (auto simp: tree_view_def fun_eq_iff)

lemma dep_view:
  "AG_ObjectAddDep p d pers w = Some w' \<Longrightarrow> tree_view w' = tree_view w"
  "AG_ObjectDelDep p d w = Some w' \<Longrightarrow> tree_view w' = tree_view w"
proof -
  assume "AG_ObjectAddDep p d pers w = Some w'"
  then obtain ob ds where "w_objs w p = Some ob" "w' = put_obj p (ob\<lparr>ob_deps := ds\<rparr>) w"
    unfolding AG_ObjectAddDep_def Let_def bind_eq_Some_conv by blast
  then show "tree_view w' = tree_view w" by (simp add: deps_view)
next
  assume a: "AG_ObjectDelDep p d w = Some w'"
  then obtain ob where ob: "w_objs w p = Some ob" unfolding AG_ObjectDelDep_def bind_eq_Some_conv by blast
  then have "w' = w \<or> (\<exists>ds. w' = put_obj p (ob\<lparr>ob_deps := ds\<rparr>) w)"
    using a by (simp add: AG_ObjectDelDep_def split: option.splits if_splits) blast+
  then show "tree_view w' = tree_view w" using ob deps_view by auto
qed

lemma vfs_reach_ok:
  assumes env: "quiet_env env"
  shows "vfs_reach env w0 w \<Longrightarrow> tree_ok w0 \<Longrightarrow> tree_ok w"
proof (induction rule: vfs_reach.induct)
  case (init w p cl w')
  then have "tree_view w p = None" by (simp add: tree_view_def)
  then show ?case using links_init AG_ObjectInit_view [OF env init.hyps(3)] init by (simp add: tree_ok_def)
next
  case (attach w c cob p w')
  obtain pob where p: "w_objs w p = Some pob" using attach.hyps(6) by (auto simp: AG_ObjectAttach_def bind_eq_Some_conv)
  have "tree_view w c = Some (ob_children cob, None)" "tree_view w p = Some (ob_children pob, ob_parent pob)"
    using attach.hyps p by (simp_all add: tree_view_def)
  from links_attach [OF _ this attach.hyps(5)] show ?case
    using AG_ObjectAttach_view [OF env attach.hyps(6,2,4) p attach.hyps(5)] attach by (simp add: tree_ok_def)
next
  case (detach w c cob w')
  obtain p where p: "ob_parent cob = Some p" using detach.hyps(2,4,5) by (auto simp: AG_ObjectDetach_def bind_eq_Some_conv)
  then have ne: "c \<noteq> p" using detach.hyps(3) by auto
  obtain cs par where v: "tree_view w p = Some (cs, par)"
    "tree_view w' = (tree_view w)(p \<mapsto> (remove1 c cs, par), c \<mapsto> (ob_children cob, None))"
    using AG_ObjectDetach_view [OF env detach.hyps(5,2,4) p ne] by blast
  have "tree_view w c = Some (ob_children cob, Some p)" using detach.hyps(2) p by (simp add: tree_view_def)
  from links_detach [OF _ this v(1) ne] show ?case using detach v(2) by (simp add: tree_ok_def)
next
  case (rename w p name w')
  then have "tree_view w' = tree_view w" unfolding AG_ObjectSetNameS_def by (auto intro: upd_obj_view)
  then show ?case using rename by (simp add: tree_ok_def)
next
  case start
  then show ?case .
next
  case (add_dep w p d pers w')
  then show ?case using dep_view(1) [OF add_dep.hyps(2)] by (simp add: tree_ok_def)
next
  case (del_dep w p d w')
  then show ?case using dep_view(2) [OF del_dep.hyps(2)] by (simp add: tree_ok_def)
qed (use move_ok in blast)+

section \<open>Attaching a subtree\<close>

lemma in_vfs_fun: "in_vfs w root p ns \<Longrightarrow> p \<noteq> root \<Longrightarrow>
   \<exists>co q ms. w_objs w p = Some co \<and> ob_parent co = Some q \<and> in_vfs w root q ms"
  by (induction rule: in_vfs.induct) auto

lemma GenerateObjectPath_same:
  "in_vfs w c d ns \<Longrightarrow> d \<noteq> c \<Longrightarrow> (\<And>x ms. in_vfs w c x ms \<Longrightarrow> x \<noteq> c \<Longrightarrow> w_objs w' x = w_objs w x) \<Longrightarrow>
   GenerateObjectPath w' d b len = GenerateObjectPath w d b len"
proof (induction arbitrary: b rule: in_vfs.induct)
  case (top ob)
  then show ?case by simp
next
  case (child q ns qo d co)
  have "in_vfs w c d (ns @ [ob_name co])" using child.hyps by (rule in_vfs.child)
  then have o: "w_objs w' d = Some co" using child.prems child.hyps by simp
  show ?case
  proof (cases "q = c")
    case True
    then show ?thesis using o child.hyps by (subst (1 2) GenerateObjectPath.simps) (simp cong: if_cong option.case_cong)
  next
    case False
    have "GenerateObjectPath w' q b len = GenerateObjectPath w q b len" for b
      using child.IH [OF False] child.prems(2) by blast
    then show ?thesis using o child.hyps False by (subst (1 2) GenerateObjectPath.simps) (simp cong: if_cong option.case_cong)
  qed
qed

lemma path_size_same:
  "in_vfs w c d ns \<Longrightarrow> (\<And>x ms. in_vfs w c x ms \<Longrightarrow> x \<noteq> c \<Longrightarrow> w_objs w' x = w_objs w x) \<Longrightarrow>
   path_size w' d k = path_size w' c (k + path_len ns)"
proof (induction arbitrary: k rule: in_vfs.induct)
  case (child q ns qo d co)
  have "in_vfs w c d (ns @ [ob_name co])" using child.hyps by (rule in_vfs.child)
  then have "w_objs w' d = Some co" using child.prems child.hyps by simp
  then have "path_size w' d k = path_size w' q (k + (length (ob_name co) + 1))"
    using child.hyps by (subst path_size.simps) simp
  then show ?case using child.IH [OF child.prems] by (simp add: algebra_simps)
qed simp

text \<open>The part of the world a look-up below \<open>root\<close> depends on.\<close>

lemma find_first_grow:
  "find_first m P xs = Some (Some x) \<Longrightarrow> (\<And>y r. m y = Some r \<Longrightarrow> \<exists>r'. m' y = Some r' \<and> P r' = P r) \<Longrightarrow>
   find_first m' P (xs @ ys) = Some (Some x)"
proof (induction xs)
  case (Cons a xs)
  obtain r where r: "m a = Some r" using Cons.prems(1) by (auto simp: bind_eq_Some_conv)
  then obtain r' where "m' a = Some r'" "P r' = P r" using Cons.prems(2) by blast
  then show ?case using Cons r by (auto split: if_splits)
qed simp

lemma in_vfs_grow:
  "in_vfs w root p ns \<Longrightarrow>
   (\<And>q qo. w_objs w q = Some qo \<Longrightarrow> q \<noteq> c \<Longrightarrow> \<exists>qo' cs. w_objs w' q = Some qo' \<and> ob_children qo' = ob_children qo @ cs \<and>
      ob_name qo' = ob_name qo \<and> ob_parent qo' = ob_parent qo \<and> ob_root qo' = ob_root qo) \<Longrightarrow>
   map_option ob_name (w_objs w' c) = map_option ob_name (w_objs w c) \<Longrightarrow>
   (\<forall>ms. \<not> in_vfs w root c ms) \<Longrightarrow> in_vfs w' root p ns"
proof (induction rule: in_vfs.induct)
  case (top ob)
  have "root \<noteq> c" using top.hyps top.prems(3) in_vfs.top by blast
  then show ?case using top in_vfs.top by (metis (no_types, lifting))
next
  case (child q ns qo d co)
  have "in_vfs w root d (ns @ [ob_name co])" using child.hyps by (rule in_vfs.child)
  then have "d \<noteq> c" "q \<noteq> c" using child.prems(3) child.hyps(1) by auto
  then obtain qo' cs co' cs' where o: "w_objs w' q = Some qo'" "ob_children qo' = ob_children qo @ cs"
    "w_objs w' d = Some co'" "ob_name co' = ob_name co" "ob_parent co' = ob_parent co" "ob_root co' = ob_root co"
    using child.prems(1) child.hyps(2,3) by blast
  have "\<exists>r'. w_objs w' y = Some r' \<and> (ob_name r' = nm) = (ob_name r = nm)" if "w_objs w y = Some r" for y r nm
    using child.prems(1) [of y r] child.prems(2) that by (cases "y = c") auto
  then have "find_child w' qo' (ob_name co') = Some (Some d)"
    using find_first_grow [OF child.hyps(8) [unfolded find_child_def], of "w_objs w'" cs]
    by (simp add: find_child_def o)
  then show ?case using in_vfs.child [OF child.IH [OF child.prems] o(1,3)] child.hyps o by simp
qed

text \<open>The objects after an attachment with handlers that leave them alone.\<close>

lemma AG_ObjectAttach_objs:
  assumes env: "quiet_env env" and run: "AG_ObjectAttach env (Some p) c w = Some w'"
    and c: "w_objs w c = Some cob" "ob_attachFn cob = None" "ob_flags cob AND AG_OBJECT_NAME_ONATTACH = 0"
    and p: "w_objs w p = Some pob" and ne: "c \<noteq> p"
  shows "w_objs w' = (w_objs w)(c \<mapsto> cob\<lparr>ob_parent := Some p, ob_root := ob_root pob\<rparr>,
     p \<mapsto> pob\<lparr>ob_children := ob_children pob @ [c]\<rparr>)"
proof -
  define w1 where "w1 = put_obj c (cob\<lparr>ob_parent := Some p, ob_root := ob_root pob\<rparr>) w"
  obtain cs w3 where cs: "q_insert_tail c (ob_children pob) = Some cs"
    and w3: "post env p c ''attached'' (put_obj p (pob\<lparr>ob_children := cs\<rparr>) w1) = Some w3"
    "post env c p ''child-attached'' w3 = Some w'"
    using run c p ne by (auto simp: AG_ObjectAttach_def name_on_attach_def upd_obj_def w1_def bind_eq_Some_conv Let_def)
  have "cs = ob_children pob @ [c]" using cs by (auto simp: q_insert_tail_def split: if_splits)
  then show ?thesis using post_view [OF env w3(2)] post_view [OF env w3(1)] by (simp add: w1_def)
qed

lemma AG_ObjectAttach_names_spec:
  assumes env: "quiet_env env" and run: "AG_ObjectAttach env (Some p) c w = Some w'"
    and c: "w_objs w c = Some cob" "ob_attachFn cob = None" "ob_flags cob AND AG_OBJECT_NAME_ONATTACH = 0"
    and cn: "name_ok (ob_name cob)" and p: "w_objs w p = Some pob" "in_vfs w r p ms"
    and out: "\<forall>ns. \<not> in_vfs w r c ns" "\<forall>ns. \<not> in_vfs w c p ns"
    and new: "find_child w pob (ob_name cob) = Some None"
  shows "(\<exists>buf. AG_ObjectGetName c w' = Some buf \<and> cstr buf = path_of (ms @ [ob_name cob])) \<and>
     AG_ObjectFindS r (path_of (ms @ [ob_name cob])) w' = Some (Some c) \<and>
     (\<forall>d ns. in_vfs w c d ns \<and> d \<noteq> c \<longrightarrow> (\<exists>buf. AG_ObjectGetName d w' = Some buf \<and> cstr buf = path_of ns))"
proof -
  have ne: "c \<noteq> p" using p(2) out(1) by auto
  have rc: "r \<noteq> c"
  proof
    assume "r = c"
    then show False using p(2) out(2) by simp
  qed
  obtain pob' where "w_objs w p = Some pob'" "ob_root pob' = r" using in_vfs_obj [OF p(2)] by blast
  then have root: "ob_root pob = r" using p(1) by simp
  have o: "w_objs w' = (w_objs w)(c \<mapsto> cob\<lparr>ob_parent := Some p, ob_root := r\<rparr>, p \<mapsto> pob\<lparr>ob_children := ob_children pob @ [c]\<rparr>)"
    using AG_ObjectAttach_objs [OF env run c p(1) ne] root by simp
  have p': "in_vfs w' r p ms"
  proof (rule in_vfs_grow [OF p(2) _ _ out(1)])
    show "map_option ob_name (w_objs w' c) = map_option ob_name (w_objs w c)" using o c ne by simp
    show "\<exists>qo' cs. w_objs w' q = Some qo' \<and> ob_children qo' = ob_children qo @ cs \<and> ob_name qo' = ob_name qo \<and>
        ob_parent qo' = ob_parent qo \<and> ob_root qo' = ob_root qo" if "w_objs w q = Some qo" "q \<noteq> c" for q qo
      using that o p(1) by (cases "q = p") auto
  qed
  have "find_child w' (pob\<lparr>ob_children := ob_children pob @ [c]\<rparr>) (ob_name cob) = Some (Some c)"
  proof -
    have "\<forall>x \<in> set (ob_children pob). \<exists>y. w_objs w x = Some y \<and> ob_name y \<noteq> ob_name cob"
      using new by (simp add: find_child_def find_first_None)
    then have "\<forall>x \<in> set (ob_children pob). \<exists>y. w_objs w' x = Some y \<and> ob_name y \<noteq> ob_name cob"
      using o c(1) p(1) by fastforce
    then show ?thesis unfolding find_child_def
      by (simp, intro find_first_SomeI [where r = "cob\<lparr>ob_parent := Some p, ob_root := r\<rparr>"]) (use o ne in auto)
  qed
  then have c': "in_vfs w' r c (ms @ [ob_name cob])"
    using in_vfs.child [OF p', of "pob\<lparr>ob_children := ob_children pob @ [c]\<rparr>" c "cob\<lparr>ob_parent := Some p, ob_root := r\<rparr>"] o rc cn ne
    by simp
  have "\<exists>buf. AG_ObjectGetName d w' = Some buf \<and> cstr buf = path_of ns" if d: "in_vfs w c d ns" "d \<noteq> c" for d ns
  proof -
    have same: "w_objs w' x = w_objs w x" if "in_vfs w c x ks" "x \<noteq> c" for x ks
    proof -
      have "x \<noteq> p" using that(1) out(2) by auto
      then show ?thesis using that(2) o by simp
    qed
    have sz: "path_size w' d (Suc 0) = Some (Suc (path_len ns + path_len (ms @ [ob_name cob])))"
      using path_size_same [OF d(1), of w' "Suc 0"] same path_size_spec [OF c'] by simp
    define len where "len = Suc (path_len ns + path_len (ms @ [ob_name cob]))"
    have obd: "\<exists>ob. w_objs w' d = Some ob \<and> ob_root ob = c" using in_vfs_obj [OF d(1)] same [OF d] by auto
    have "GenerateObjectPath w d ([AG_PATHSEPCHAR] @ NUL # replicate (len - 1) NUL) len =
       Some (0, concat (map (\<lambda>n. AG_PATHSEPCHAR # n) ns) @ [AG_PATHSEPCHAR] @ NUL # drop (path_len ns) (replicate (len - 1) NUL))"
      using d by (intro GenerateObjectPath_spec) (auto simp: len_def)
    then have g: "GenerateObjectPath w' d (AG_PATHSEPCHAR # NUL # replicate (len - 1) NUL) len =
       Some (0, path_of ns @ NUL # drop (path_len ns) (replicate (len - 1) NUL))"
      using GenerateObjectPath_same [OF d same] by (simp add: path_of_def)
    have "AG_ObjectGetName d w' = Some (path_of ns @ NUL # drop (path_len ns) (replicate (len - 1) NUL))"
      using g obd d(2) by (auto simp: AG_ObjectGetName_def sz len_def Let_def wr_def)
    moreover have "nonul (path_of ns)" using in_vfs_names [OF d(1)] by (auto simp: path_of_def name_ok_def nonul_def)
    ultimately show ?thesis by simp
  qed
  then show ?thesis using AG_ObjectGetName_spec [OF c'] AG_ObjectFindS_path [OF c'] by blast
qed

section \<open>Properties\<close>

text \<open>
  A root 0 with two children 1 and 2 and a child 3 of 1; an object 4 of its own with a child 5; all of
  them of the root class.
\<close>

definition obj_node :: "string \<Rightarrow> nat option \<Rightarrow> nat \<Rightarrow> nat list \<Rightarrow> AG_Object" where
  "obj_node name par root cs = blank_obj\<lparr>ob_name := name, ob_parent := par, ob_root := root, ob_children := cs\<rparr>"

lemma obj_node_simps [simp]:
  "ob_name (obj_node n q r cs) = n" "ob_parent (obj_node n q r cs) = q" "ob_root (obj_node n q r cs) = r"
  "ob_children (obj_node n q r cs) = cs" "ob_attachFn (obj_node n q r cs) = None" "ob_flags (obj_node n q r cs) = 0"
  "ob_deps (obj_node n q r cs) = []" "ob_events (obj_node n q r cs) = []"
  by (simp_all add: obj_node_def blank_obj_def)

definition vfs_world :: world where
  "vfs_world = blank_world\<lparr>w_objs := [0 \<mapsto> obj_node ''vfs'' None 0 [1, 2], 1 \<mapsto> obj_node ''a'' (Some 0) 0 [3],
     2 \<mapsto> obj_node ''foo #0'' (Some 0) 0 [], 3 \<mapsto> obj_node ''b c'' (Some 1) 0 [],
     4 \<mapsto> obj_node ''d'' None 4 [5], 5 \<mapsto> obj_node ''e'' (Some 4) 4 []], w_brk := 10\<rparr>"

lemma vfs_world_objs [simp]:
  "w_objs vfs_world 0 = Some (obj_node ''vfs'' None 0 [1, 2])" "w_objs vfs_world 1 = Some (obj_node ''a'' (Some 0) 0 [3])"
  "w_objs vfs_world (Suc 0) = Some (obj_node ''a'' (Some 0) 0 [3])"
  "w_objs vfs_world 2 = Some (obj_node ''foo #0'' (Some 0) 0 [])" "w_objs vfs_world 3 = Some (obj_node ''b c'' (Some 1) 0 [])"
  "w_objs vfs_world 4 = Some (obj_node ''d'' None 4 [5])" "w_objs vfs_world 5 = Some (obj_node ''e'' (Some 4) 4 [])"
  by (simp_all add: vfs_world_def)

lemma vfs_world_paths:
  "in_vfs vfs_world 0 0 []" "in_vfs vfs_world 0 1 [''a'']" "in_vfs vfs_world 0 3 [''a'', ''b c'']"
  "in_vfs vfs_world 4 4 []" "in_vfs vfs_world 4 5 [''e'']"
proof -
  show 0: "in_vfs vfs_world 0 0 []" by (rule in_vfs.top [OF vfs_world_objs(1)]) simp_all
  show 1: "in_vfs vfs_world 0 1 [''a'']"
    using in_vfs.child [OF 0 vfs_world_objs(1,2)] by (simp add: name_ok_def find_child_def)
  show "in_vfs vfs_world 0 3 [''a'', ''b c'']"
    using in_vfs.child [OF 1 vfs_world_objs(2,5)] by (simp add: name_ok_def find_child_def)
  show 4: "in_vfs vfs_world 4 4 []" by (rule in_vfs.top [OF vfs_world_objs(6)]) simp_all
  show "in_vfs vfs_world 4 5 [''e'']"
    using in_vfs.child [OF 4 vfs_world_objs(6,7)] by (simp add: name_ok_def find_child_def)
qed

lemma vfs_world_roots: "in_vfs vfs_world r p ns \<Longrightarrow> \<exists>ob. w_objs vfs_world p = Some ob \<and> ob_root ob = r"
  using in_vfs_obj by blast

definition test_env :: obj_env where
  "test_env = \<lparr>oe_hooks = \<lparr>hk_fuel = 20, hk_call = (\<lambda>f ev w. Some w), hk_eval = (\<lambda>f ev w. None),
     hk_str = (\<lambda>f ev b n w. None), hk_flt = (\<lambda>_. []), hk_ptr = (\<lambda>_. [])\<rparr>,
     oe_src = \<lparr>src_timer_cap = False, src_addTimerFn = None, src_delTimerFn = None, src_ticks = (\<lambda>_. 0), src_mgr = 99\<rparr>,
     oe_init = (\<lambda>_. None), oe_reinit = (\<lambda>_. None), oe_destroy = (\<lambda>_. None), oe_config = 98, oe_exists = (\<lambda>_. False)\<rparr>"

lemma test_env_quiet: "quiet_env test_env"
  by (simp add: quiet_env_def test_env_def quiet_def)

lemma vfs_world_tree: "tree_ok vfs_world"
  unfolding tree_ok_def links_ok_def tree_view_def
  by (auto simp: vfs_world_def blank_world_def split: if_splits)

text \<open>
  C5: the path names of the objects of a virtual file system: \<open>AG_ObjectGetName\<close> returns, in a
  buffer of exactly the size it needs, the names on the way from the root, each after a
  separator, and a last separator; \<open>AG_ObjectFindS\<close> on that path is the object.  For every object but the root
  \<open>AG_ObjectCopyName\<close> writes the same path to a buffer with room for it; for the root it does not: it writes the
  name of the root after a separator, where the path is the separator alone.  The objects are those that every name on their way leads to:
  names are not empty and have no separator, and no earlier child has the same name.
\<close>

theorem AG_Object_path_roundtrip:
  assumes "in_vfs w root p ns"
  shows "\<exists>buf. AG_ObjectGetName p w = Some buf \<and> cstr buf = path_of ns \<and> length buf = path_len ns + 2 \<and>
     AG_ObjectFindS root (cstr buf) w = Some (Some p) \<and>
     (\<forall>b len. p \<noteq> root \<longrightarrow> path_len ns + 2 \<le> len \<longrightarrow> len \<le> length b \<longrightarrow>
        (\<exists>b'. AG_ObjectCopyName p b len w = Some (0, b') \<and> cstr b' = cstr buf)) \<and>
     (\<forall>b len ob. p = root \<longrightarrow> w_objs w p = Some ob \<longrightarrow> nonul (ob_name ob) \<longrightarrow> length (ob_name ob) + 2 \<le> len \<longrightarrow> len \<le> length b \<longrightarrow>
        (\<exists>b'. AG_ObjectCopyName p b len w = Some (0, b') \<and> cstr b' = AG_PATHSEPCHAR # ob_name ob))"
proof -
  obtain buf where buf: "AG_ObjectGetName p w = Some buf" "cstr buf = path_of ns" "length buf = path_len ns + 2"
    using AG_ObjectGetName_spec [OF assms] by blast
  moreover have "AG_ObjectFindS root (cstr buf) w = Some (Some p)" using AG_ObjectFindS_path [OF assms] buf(2) by simp
  moreover have "\<exists>b'. AG_ObjectCopyName p b len w = Some (0, b') \<and> cstr b' = cstr buf"
    if "p \<noteq> root" "path_len ns + 2 \<le> len" "len \<le> length b" for b len
    using AG_ObjectCopyName_spec [OF assms that(1), of b len] that buf(2) by simp
  moreover have "\<exists>b'. AG_ObjectCopyName p b len w = Some (0, b') \<and> cstr b' = AG_PATHSEPCHAR # ob_name ob"
    if "p = root" "w_objs w p = Some ob" "nonul (ob_name ob)" "length (ob_name ob) + 2 \<le> len" "len \<le> length b" for b len ob
    using AG_ObjectCopyName_root [OF assms [unfolded that(1)]] that by blast
  ultimately show ?thesis by blast
qed

theorem AG_Object_path_roundtrip_witness:
  "\<exists>buf. AG_ObjectGetName 3 vfs_world = Some buf \<and> cstr buf = ''/a/b c/'' \<and>
     AG_ObjectFindS 0 ''/a/b c/'' vfs_world = Some (Some 3)"
  using AG_Object_path_roundtrip [OF vfs_world_paths(3)] by (auto simp: path_of_def)

text \<open>
  \<open>GenerateObjectPath\<close> takes a buffer to be large enough when the path fits without its
  terminator: with a buffer of exactly that size \<open>AG_ObjectCopyName\<close> writes one byte past its
  end.
\<close>

theorem AG_ObjectCopyName_overrun:
  assumes "in_vfs w root p ns" "p \<noteq> root" "length buf = path_len ns + 1"
  shows "AG_ObjectCopyName p buf (length buf) w = None"
  using AG_ObjectCopyName_overrun_spec [OF assms] assms(3) by simp

theorem AG_ObjectCopyName_overrun_witness: "AG_ObjectCopyName 1 ''123'' 3 vfs_world = None"
  using AG_ObjectCopyName_overrun [OF vfs_world_paths(2), of "''123''"] by (simp add: numeral_3_eq_3)



text \<open>
  C30: \<open>AG_ObjectGenName\<close>: when the class name leaves room for the number of children, the
  result is the class name with the least number that makes it different from the names of
  all children; when it leaves no room, and a child has the truncated name, the search
  never ends.
\<close>

theorem AG_ObjectGenName_unique:
  assumes "child_names p w = Some names" "cl_name (cl_mem (w_reg w) cl) = cname" "nonul cname"
    "0 < len" "len \<le> length buf" "length names < 2 ^ 32"
  shows "(length (cname @ '' #'') + length (dec (length names)) < len \<longrightarrow>
      (\<exists>b k. AG_ObjectGenName p cl buf len w = Some b \<and> cstr b = cname @ '' #'' @ dec k \<and> cstr b \<notin> set names \<and>
         k \<le> length names \<and> (\<forall>j < k. cname @ '' #'' @ dec j \<in> set names))) \<and>
    (len - 1 \<le> length (cname @ '' #'') \<and> take (len - 1) (cname @ '' #'') \<in> set names \<longrightarrow>
      AG_ObjectGenName p cl buf len w = None)"
  using AG_ObjectGenName_spec [OF assms(1-3,5) _ assms(6)] AG_ObjectGenName_stuck_spec [OF assms(1-3,5,4)] by blast

text \<open>The same world with a class 7 named \<open>foo\<close>.\<close>

definition named_world :: world where
  "named_world = vfs_world\<lparr>w_reg := (w_reg vfs_world)\<lparr>cl_mem := (\<lambda>_. \<lparr>cl_hier = ''AG_Foo'', cl_name = ''foo'', cl_libs = [],
     cl_sub = [], cl_super = None\<rparr>)\<rparr>\<rparr>"

theorem AG_ObjectGenName_unique_witness:
  "(\<exists>b. AG_ObjectGenName (Some 0) 7 (replicate 9 NUL) 9 named_world = Some b \<and> cstr b \<notin> {''a'', ''foo #0''}) \<and>
   AG_ObjectGenName (Some 1) 7 (replicate 4 NUL) 4 (put_obj 3 (obj_node ''foo'' (Some 1) 0 []) named_world) = None"
proof -
  have n: "child_names (Some 0) named_world = Some [''a'', ''foo #0'']"
    using vfs_world_objs by (simp add: child_names_def named_world_def del: vfs_world_objs)
  have d: "length (dec (Suc (Suc 0))) = 1" by (simp add: dec_def dec_rev.simps)
  have c: "cl_name (cl_mem (w_reg named_world) 7) = ''foo''" by (simp add: named_world_def)
  have 1: "\<exists>b. AG_ObjectGenName (Some 0) 7 (replicate 9 NUL) 9 named_world = Some b \<and> cstr b \<notin> {''a'', ''foo #0''}"
    using AG_ObjectGenName_unique [OF n c, of 9 "replicate 9 NUL"] d by auto
  define w where "w = put_obj 3 (obj_node ''foo'' (Some 1) 0 []) named_world"
  have "child_names (Some 1) w = Some [''foo'']" by (simp add: child_names_def w_def named_world_def)
  moreover have "cl_name (cl_mem (w_reg w) 7) = ''foo''" by (simp add: w_def named_world_def)
  ultimately have "AG_ObjectGenName (Some 1) 7 (replicate 4 NUL) 4 w = None"
    using AG_ObjectGenName_unique [of "Some 1" w "[''foo'']" 7 "''foo''" 4 "replicate 4 NUL"] by simp
  then show ?thesis using 1 by (simp add: w_def)
qed

text \<open>
  After \<open>AG_ObjectAddDep\<close> the code of the dependency decodes to the object again, and
  \<open>AG_ObjectDelDep\<close> undoes the addition, except for a count that is wired or a table that keeps
  entries without references.
\<close>

theorem AG_ObjectDep_roundtrip:
  assumes "w_objs w p = Some ob" "d \<noteq> p" "length (ob_deps ob) + 3 < 2 ^ 32"
  shows "\<exists>w' i. AG_ObjectAddDep p d pers w = Some w' \<and>
     AG_ObjectEncodeName p (Some d) w' = Some i \<and> AG_ObjectFindDep p i w' = Some (0, Some d) \<and>
     ((case find_dep d (ob_deps ob) of
         None \<Rightarrow> ob_flags ob AND AG_OBJECT_PRESERVE_DEPS = 0
       | Some x \<Rightarrow> 0 < dep_count x \<and> dep_count x < AG_OBJECT_DEP_MAX - 1) \<longrightarrow> AG_ObjectDelDep p d w' = Some w)"
  using assms by (rule AG_ObjectDep_spec)

theorem AG_ObjectDep_roundtrip_witness:
  "\<exists>w' i. AG_ObjectAddDep 1 2 1 vfs_world = Some w' \<and> AG_ObjectEncodeName 1 (Some 2) w' = Some i \<and>
     AG_ObjectFindDep 1 i w' = Some (0, Some 2) \<and> AG_ObjectDelDep 1 2 w' = Some vfs_world"
  using AG_ObjectDep_roundtrip [of vfs_world 1 "obj_node ''a'' (Some 0) 0 [3]" 2 1]
  by (simp add: find_dep_def)

text \<open>
  \<open>AG_ObjectAttach\<close> of an object with a subtree: the object itself is then found under its
  path from the new root, but the objects below it keep the old root, and
  \<open>AG_ObjectGetName\<close> still returns their paths from it.
\<close>

theorem AG_ObjectAttach_names:
  assumes "quiet_env env" "AG_ObjectAttach env (Some p) c w = Some w'"
    "w_objs w c = Some cob" "ob_attachFn cob = None" "ob_flags cob AND AG_OBJECT_NAME_ONATTACH = 0"
    "name_ok (ob_name cob)" "w_objs w p = Some pob" "in_vfs w r p ms"
    "\<forall>ns. \<not> in_vfs w r c ns" "\<forall>ns. \<not> in_vfs w c p ns" "find_child w pob (ob_name cob) = Some None"
  shows "(\<exists>buf. AG_ObjectGetName c w' = Some buf \<and> cstr buf = path_of (ms @ [ob_name cob])) \<and>
     AG_ObjectFindS r (path_of (ms @ [ob_name cob])) w' = Some (Some c) \<and>
     (\<forall>d ns. in_vfs w c d ns \<and> d \<noteq> c \<longrightarrow> (\<exists>buf. AG_ObjectGetName d w' = Some buf \<and> cstr buf = path_of ns))"
  using assms by (rule AG_ObjectAttach_names_spec)

theorem AG_ObjectAttach_names_witness:
  "\<exists>w' b4 b5. AG_ObjectAttach test_env (Some 1) 4 vfs_world = Some w' \<and>
     AG_ObjectGetName 4 w' = Some b4 \<and> cstr b4 = ''/a/d/'' \<and> AG_ObjectGetName 5 w' = Some b5 \<and> cstr b5 = ''/e/''"
proof -
  obtain w' where w': "AG_ObjectAttach test_env (Some 1) 4 vfs_world = Some w'"
    by (simp add: AG_ObjectAttach_def upd_obj_def name_on_attach_def q_insert_tail_def post_def AG_PostEvent_def
      test_env_def first_of_def obj_node_def blank_obj_def numeral_eq_Suc vfs_world_def)
  have "\<forall>ns. \<not> in_vfs vfs_world 0 4 ns" "\<forall>ns. \<not> in_vfs vfs_world 4 1 ns"
    using vfs_world_roots [of 0 4] vfs_world_roots [of 4 1] by auto
  then show ?thesis
    using AG_ObjectAttach_names [OF test_env_quiet w' vfs_world_objs(6) _ _ _ vfs_world_objs(2) vfs_world_paths(2)] vfs_world_paths(5) w'
    by (fastforce simp: name_ok_def find_child_def path_of_def)
qed

end
