(* ===== verification/Data.thy ===== *)
theory Data
  imports CStr "HOL-Library.Word"
begin

unbundle bit_operations_syntax

text \<open>
  Data sources and serialization: core/data_source.c, core/data_source.h,
  core/byteswap.h, core/load_integral.h, core/load_real.h, core/load_string.c,
  core/load_version.c.

  A source is a fixed block of memory (\<open>K_Core\<close>), a constant one (\<open>K_ConstCore\<close>), one that
  grows (\<open>K_AutoCore\<close>), or a file that stdio opened for reading or writing (\<open>K_FileR\<close>,
  \<open>K_FileW\<close>); sockets, which are calls of the system, are left out.  The pointers to
  functions of a source are the kind.  The data of a source in memory is the list of bytes of
  the allocated block, whose length need not be the size the source believes; copying
  outside it is \<^const>\<open>None\<close>.  The data of a file is its contents, its offset is the position
  of the stream; stdio fails only where its documentation says so.  The host is little-endian; \<open>off_t\<close> is an integer,
  \<open>size_t\<close> arithmetic wraps around at 64 bits.  The error handler of a source either ends the
  program (\<open>ds_fatal\<close>, the default) or counts the error and returns.
\<close>

type_synonym byte = "8 word"

datatype ag_byte_order = AG_BYTEORDER_BE | AG_BYTEORDER_LE

datatype ag_seek_mode = AG_SEEK_SET | AG_SEEK_CUR | AG_SEEK_END

datatype source_kind = K_Core | K_ConstCore | K_AutoCore | K_FileR | K_FileW

record AG_DataSource =
  ds_debug :: bool
  ds_fatal :: bool
  ds_errors :: nat
  byte_order :: ag_byte_order
  wrLast :: nat
  rdLast :: nat
  wrTotal :: nat
  rdTotal :: nat
  ds_kind :: source_kind
  cs_data :: "byte list"
  cs_size :: nat
  cs_offs :: int
  junk :: byte

definition AG_SOURCE_UINT8 :: "32 word" where "AG_SOURCE_UINT8 = 0x41470001"
definition AG_SOURCE_UINT16 :: "32 word" where "AG_SOURCE_UINT16 = 0x41470003"
definition AG_SOURCE_UINT32 :: "32 word" where "AG_SOURCE_UINT32 = 0x41470005"
definition AG_SOURCE_UINT64 :: "32 word" where "AG_SOURCE_UINT64 = 0x41470007"
definition AG_SOURCE_FLOAT :: "32 word" where "AG_SOURCE_FLOAT = 0x41470009"
definition AG_SOURCE_DOUBLE :: "32 word" where "AG_SOURCE_DOUBLE = 0x4147000a"
definition AG_SOURCE_STRING :: "32 word" where "AG_SOURCE_STRING = 0x4147000c"
definition AG_SOURCE_STRING_PAD :: "32 word" where "AG_SOURCE_STRING_PAD = 0x4147000e"

section \<open>Bytes\<close>

definition AG_Swap16 :: "16 word \<Rightarrow> 16 word" where
  "AG_Swap16 x = push_bit 8 x OR drop_bit 8 x"

definition AG_Swap32 :: "32 word \<Rightarrow> 32 word" where
  "AG_Swap32 x = push_bit 24 x OR (push_bit 8 x AND 0x00FF0000) OR (drop_bit 8 x AND 0x0000FF00) OR drop_bit 24 x"

definition AG_Swap64 :: "64 word \<Rightarrow> 64 word" where
  "AG_Swap64 x = (let low = ucast x :: 32 word; high = ucast (drop_bit 32 x) :: 32 word
     in push_bit 32 (ucast (AG_Swap32 low)) OR ucast (AG_Swap32 high))"

text \<open>An object of \<open>n\<close> bytes in the memory of the host.\<close>

definition to_bytes :: "nat \<Rightarrow> 'a :: len word \<Rightarrow> byte list" where
  "to_bytes n w = map (\<lambda>i. ucast (drop_bit (8 * i) w)) [0..<n]"

definition from_bytes :: "byte list \<Rightarrow> 'a :: len word" where
  "from_bytes bs = foldr (\<lambda>b w. ucast b OR push_bit 8 w) bs 0"

text \<open>Between the byte order of a source and that of the host.\<close>

definition swap_for :: "('a \<Rightarrow> 'a) \<Rightarrow> AG_DataSource \<Rightarrow> 'a \<Rightarrow> 'a" where
  "swap_for sw ds x = (if byte_order ds = AG_BYTEORDER_BE then sw x else x)"

definition bytes_str :: "byte list \<Rightarrow> char list" where
  "bytes_str bs = map (\<lambda>b. char_of (unat b)) bs"

definition str_bytes :: "char list \<Rightarrow> byte list" where
  "str_bytes s = map (\<lambda>c. of_nat (of_char c)) s"

text \<open>\<open>size_t\<close> of a sum.\<close>

definition usz :: "int \<Rightarrow> nat" where "usz x = nat (x mod 2 ^ 64)"

definition mem_read :: "byte list \<Rightarrow> int \<Rightarrow> nat \<Rightarrow> byte list option" where
  "mem_read d pos len = (if 0 \<le> pos \<and> nat pos + len \<le> length d then Some (take len (drop (nat pos) d)) else None)"

definition mem_write :: "byte list \<Rightarrow> int \<Rightarrow> byte list \<Rightarrow> byte list option" where
  "mem_write d pos bs = (if 0 \<le> pos \<and> nat pos + length bs \<le> length d
     then Some (take (nat pos) d @ bs @ drop (nat pos + length bs) d) else None)"

text \<open>\<open>realloc\<close>, which does not fail here; new bytes hold \<open>j\<close>.\<close>

definition mem_realloc :: "'a \<Rightarrow> 'a list \<Rightarrow> nat \<Rightarrow> 'a list" where
  "mem_realloc j d n = take n d @ replicate (n - length d) j"

section \<open>Operations of the sources\<close>

text \<open>
  The results: the return value, the bytes that were read, what is stored through the
  pointer \<open>rv\<close>, if anything, and the source.
\<close>

definition CoreRead :: "nat \<Rightarrow> AG_DataSource \<Rightarrow> (int \<times> byte list \<times> nat option \<times> AG_DataSource) option" where
  "CoreRead len ds =
     (if usz (cs_offs ds + int len) > cs_size ds then Some (-1, [], None, ds)
      else do {
        bs \<leftarrow> mem_read (cs_data ds) (cs_offs ds) len;
        Some (0, bs, Some len, ds\<lparr>cs_offs := cs_offs ds + int len\<rparr>)
      })"

definition CoreReadAt :: "nat \<Rightarrow> int \<Rightarrow> AG_DataSource \<Rightarrow> (int \<times> byte list \<times> nat option \<times> AG_DataSource) option" where
  "CoreReadAt len pos ds =
     (if usz (pos + int len) > cs_size ds then Some (-1, [], None, ds)
      else do { bs \<leftarrow> mem_read (cs_data ds) pos len; Some (0, bs, Some len, ds) })"

definition CoreWrite :: "byte list \<Rightarrow> AG_DataSource \<Rightarrow> (int \<times> nat option \<times> AG_DataSource) option" where
  "CoreWrite bs ds =
     (if usz (cs_offs ds + int (length bs)) > cs_size ds then Some (-1, None, ds)
      else do {
        d \<leftarrow> mem_write (cs_data ds) (cs_offs ds) bs;
        Some (0, Some (length bs), ds\<lparr>cs_data := d, cs_offs := cs_offs ds + int (length bs)\<rparr>)
      })"

definition CoreAutoWrite :: "byte list \<Rightarrow> AG_DataSource \<Rightarrow> (int \<times> nat option \<times> AG_DataSource) option" where
  "CoreAutoWrite bs ds = do {
     let data = (if usz (cs_offs ds + int (length bs)) > cs_size ds
                 then mem_realloc (junk ds) (cs_data ds) (usz (cs_offs ds + int (length bs))) else cs_data ds);
     d \<leftarrow> mem_write data (cs_offs ds) bs;
     Some (0, Some (length bs), ds\<lparr>cs_data := d, cs_size := cs_size ds + length bs, cs_offs := cs_offs ds + int (length bs)\<rparr>)
   }"

definition CoreWriteAt :: "byte list \<Rightarrow> int \<Rightarrow> AG_DataSource \<Rightarrow> (int \<times> nat option \<times> AG_DataSource) option" where
  "CoreWriteAt bs pos ds =
     (if usz (pos + int (length bs)) > cs_size ds then Some (-1, None, ds)
      else do { d \<leftarrow> mem_write (cs_data ds) pos bs; Some (0, Some (length bs), ds\<lparr>cs_data := d\<rparr>) })"

definition CoreAutoWriteAt :: "byte list \<Rightarrow> int \<Rightarrow> AG_DataSource \<Rightarrow> (int \<times> nat option \<times> AG_DataSource) option" where
  "CoreAutoWriteAt bs pos ds =
     (if pos < 0 then Some (-1, None, ds)
      else do {
        let ds = (if usz (pos + int (length bs)) > cs_size ds
                  then ds\<lparr>cs_data := mem_realloc (junk ds) (cs_data ds) (usz (pos + int (length bs))), cs_size := usz (pos + int (length bs))\<rparr>
                  else ds);
        d \<leftarrow> mem_write (cs_data ds) pos bs;
        Some (0, Some (length bs), ds\<lparr>cs_data := d\<rparr>)
      })"

definition WriteNotSup :: "byte list \<Rightarrow> AG_DataSource \<Rightarrow> (int \<times> nat option \<times> AG_DataSource) option" where
  "WriteNotSup bs ds = Some (-1, None, ds)"

definition WriteAtNotSup :: "byte list \<Rightarrow> int \<Rightarrow> AG_DataSource \<Rightarrow> (int \<times> nat option \<times> AG_DataSource) option" where
  "WriteAtNotSup bs pos ds = Some (-1, None, ds)"

definition CoreTell :: "AG_DataSource \<Rightarrow> int" where
  "CoreTell ds = cs_offs ds"

definition CoreSeek :: "int \<Rightarrow> ag_seek_mode \<Rightarrow> AG_DataSource \<Rightarrow> int \<times> AG_DataSource" where
  "CoreSeek offs mode ds =
     (let nOffs = (case mode of AG_SEEK_SET \<Rightarrow> offs | AG_SEEK_CUR \<Rightarrow> cs_offs ds + offs | AG_SEEK_END \<Rightarrow> int (cs_size ds) - offs)
      in if nOffs < 0 \<or> nat nOffs \<ge> cs_size ds then (-1, ds) else (0, ds\<lparr>cs_offs := nOffs\<rparr>))"

text \<open>
  Files.  \<open>fread\<close> gives what there is, and 0 with the error mark on a stream for writing;
  \<open>fwrite\<close> fails on a stream for reading; \<open>fseek\<close> fails on a negative position.
\<close>

definition FileRead :: "nat \<Rightarrow> AG_DataSource \<Rightarrow> (int \<times> byte list \<times> nat option \<times> AG_DataSource) option" where
  "FileRead len ds =
     (if ds_kind ds = K_FileW then Some (if 0 < len then -1 else 0, [], Some 0, ds)
      else let bs = take len (drop (nat (cs_offs ds)) (cs_data ds))
           in Some (0, bs, Some (length bs), ds\<lparr>cs_offs := cs_offs ds + int (length bs)\<rparr>))"

definition FileReadAt :: "nat \<Rightarrow> int \<Rightarrow> AG_DataSource \<Rightarrow> (int \<times> byte list \<times> nat option \<times> AG_DataSource) option" where
  "FileReadAt len pos ds =
     (if pos < 0 then Some (-1, [], None, ds)
      else if ds_kind ds = K_FileW then Some (if 0 < len then -1 else 0, [], Some 0, ds)
      else let bs = take len (drop (nat pos) (cs_data ds)) in Some (0, bs, Some (length bs), ds))"

definition file_write :: "byte list \<Rightarrow> int \<Rightarrow> byte list \<Rightarrow> byte list" where
  "file_write d pos bs = (if bs = [] then d else
     take (nat pos) (d @ replicate (nat pos - length d) 0) @ bs @ drop (nat pos + length bs) d)"

definition FileWrite :: "byte list \<Rightarrow> AG_DataSource \<Rightarrow> (int \<times> nat option \<times> AG_DataSource) option" where
  "FileWrite bs ds =
     (if ds_kind ds = K_FileR then Some (if bs \<noteq> [] then -1 else 0, Some 0, ds)
      else let d = file_write (cs_data ds) (cs_offs ds) bs
           in Some (0, Some (length bs), ds\<lparr>cs_data := d, cs_size := length d, cs_offs := cs_offs ds + int (length bs)\<rparr>))"

definition FileWriteAt :: "byte list \<Rightarrow> int \<Rightarrow> AG_DataSource \<Rightarrow> (int \<times> nat option \<times> AG_DataSource) option" where
  "FileWriteAt bs pos ds =
     (if pos < 0 then Some (-1, None, ds)
      else if ds_kind ds = K_FileR then Some (if bs \<noteq> [] then -1 else 0, Some 0, ds)
      else let d = file_write (cs_data ds) pos bs in Some (0, Some (length bs), ds\<lparr>cs_data := d, cs_size := length d\<rparr>))"

definition FileTell :: "AG_DataSource \<Rightarrow> int" where
  "FileTell ds = cs_offs ds"

definition FileSeek :: "int \<Rightarrow> ag_seek_mode \<Rightarrow> AG_DataSource \<Rightarrow> int \<times> AG_DataSource" where
  "FileSeek offs mode ds =
     (let nOffs = (case mode of AG_SEEK_SET \<Rightarrow> offs | AG_SEEK_CUR \<Rightarrow> cs_offs ds + offs | AG_SEEK_END \<Rightarrow> int (length (cs_data ds)) + offs)
      in if nOffs < 0 then (-1, ds) else (0, ds\<lparr>cs_offs := nOffs\<rparr>))"

text \<open>The functions of each kind.\<close>

definition is_file :: "AG_DataSource \<Rightarrow> bool" where
  "is_file ds \<longleftrightarrow> ds_kind ds = K_FileR \<or> ds_kind ds = K_FileW"

definition ds_read :: "nat \<Rightarrow> AG_DataSource \<Rightarrow> (int \<times> byte list \<times> nat option \<times> AG_DataSource) option" where
  "ds_read len ds = (if is_file ds then FileRead len ds else CoreRead len ds)"

definition ds_read_at :: "nat \<Rightarrow> int \<Rightarrow> AG_DataSource \<Rightarrow> (int \<times> byte list \<times> nat option \<times> AG_DataSource) option" where
  "ds_read_at len pos ds = (if is_file ds then FileReadAt len pos ds else CoreReadAt len pos ds)"

definition ds_write :: "byte list \<Rightarrow> AG_DataSource \<Rightarrow> (int \<times> nat option \<times> AG_DataSource) option" where
  "ds_write bs ds = (case ds_kind ds of K_Core \<Rightarrow> CoreWrite bs ds | K_ConstCore \<Rightarrow> WriteNotSup bs ds
     | K_AutoCore \<Rightarrow> CoreAutoWrite bs ds | _ \<Rightarrow> FileWrite bs ds)"

definition ds_write_at :: "byte list \<Rightarrow> int \<Rightarrow> AG_DataSource \<Rightarrow> (int \<times> nat option \<times> AG_DataSource) option" where
  "ds_write_at bs pos ds = (case ds_kind ds of K_Core \<Rightarrow> CoreWriteAt bs pos ds | K_ConstCore \<Rightarrow> WriteAtNotSup bs pos ds
     | K_AutoCore \<Rightarrow> CoreAutoWriteAt bs pos ds | _ \<Rightarrow> FileWriteAt bs pos ds)"

definition ds_tell :: "AG_DataSource \<Rightarrow> int" where
  "ds_tell ds = (if is_file ds then FileTell ds else CoreTell ds)"

definition ds_seek :: "int \<Rightarrow> ag_seek_mode \<Rightarrow> AG_DataSource \<Rightarrow> int \<times> AG_DataSource" where
  "ds_seek offs mode ds = (if is_file ds then FileSeek offs mode ds else CoreSeek offs mode ds)"

definition AG_DataSourceInit :: "byte \<Rightarrow> AG_DataSource" where
  "AG_DataSourceInit j = \<lparr>ds_debug = False, ds_fatal = True, ds_errors = 0, byte_order = AG_BYTEORDER_BE,
     wrLast = 0, rdLast = 0, wrTotal = 0, rdTotal = 0, ds_kind = K_Core, cs_data = [], cs_size = 0, cs_offs = 0, junk = j\<rparr>"

definition AG_OpenCore :: "byte \<Rightarrow> byte list \<Rightarrow> nat \<Rightarrow> AG_DataSource" where
  "AG_OpenCore j data len = (AG_DataSourceInit j)\<lparr>cs_data := data, cs_size := len, cs_offs := 0, ds_kind := K_Core\<rparr>"

definition AG_OpenConstCore :: "byte \<Rightarrow> byte list \<Rightarrow> nat \<Rightarrow> AG_DataSource" where
  "AG_OpenConstCore j data len = (AG_DataSourceInit j)\<lparr>cs_data := data, cs_size := len, cs_offs := 0, ds_kind := K_ConstCore\<rparr>"

definition AG_OpenAutoCore :: "byte \<Rightarrow> AG_DataSource" where
  "AG_OpenAutoCore j = (AG_DataSourceInit j)\<lparr>cs_data := [], cs_size := 0, cs_offs := 0, ds_kind := K_AutoCore\<rparr>"

text \<open>
  A stream on the contents of a file, and the file it leaves when it is closed: \<open>fopen\<close> with
  the modes \<open>rb\<close> and \<open>wb\<close>.  The result of \<open>fopen\<close> for writing is a parameter.
\<close>

definition AG_OpenFile_rb :: "byte \<Rightarrow> (string \<Rightarrow> byte list option) \<Rightarrow> string \<Rightarrow> AG_DataSource option" where
  "AG_OpenFile_rb j files path = (case files path of
     None \<Rightarrow> None
   | Some d \<Rightarrow> Some ((AG_DataSourceInit j)\<lparr>cs_data := d, cs_size := length d, cs_offs := 0, ds_kind := K_FileR\<rparr>))"

definition AG_OpenFile_wb :: "byte \<Rightarrow> (string \<Rightarrow> bool) \<Rightarrow> string \<Rightarrow> AG_DataSource option" where
  "AG_OpenFile_wb j can_open path =
     (if can_open path then Some ((AG_DataSourceInit j)\<lparr>cs_data := [], cs_size := 0, cs_offs := 0, ds_kind := K_FileW\<rparr>) else None)"

definition AG_DataSourceRealloc :: "nat \<Rightarrow> AG_DataSource \<Rightarrow> int \<times> AG_DataSource" where
  "AG_DataSourceRealloc len ds = (0, ds\<lparr>cs_data := mem_realloc (junk ds) (cs_data ds) len, cs_size := len\<rparr>)"

definition AG_Tell :: "AG_DataSource \<Rightarrow> int" where
  "AG_Tell ds = ds_tell ds"

definition AG_Seek :: "int \<Rightarrow> ag_seek_mode \<Rightarrow> AG_DataSource \<Rightarrow> int \<times> AG_DataSource" where
  "AG_Seek pos mode ds = ds_seek pos mode ds"

definition AG_SetByteOrder :: "ag_byte_order \<Rightarrow> AG_DataSource \<Rightarrow> AG_DataSource" where
  "AG_SetByteOrder order ds = ds\<lparr>byte_order := order\<rparr>"

definition AG_SetSourceDebug :: "bool \<Rightarrow> AG_DataSource \<Rightarrow> AG_DataSource" where
  "AG_SetSourceDebug enable ds = ds\<lparr>ds_debug := enable\<rparr>"

definition AG_DataSourceError :: "AG_DataSource \<Rightarrow> AG_DataSource option" where
  "AG_DataSourceError ds = (if ds_fatal ds then None else Some (ds\<lparr>ds_errors := ds_errors ds + 1\<rparr>))"

text \<open>What is stored through \<open>&ds->rdLast\<close> and \<open>&ds->wrLast\<close>, and the totals.\<close>

definition count_read :: "nat option \<Rightarrow> AG_DataSource \<Rightarrow> AG_DataSource" where
  "count_read n ds = (let ds = (case n of None \<Rightarrow> ds | Some k \<Rightarrow> ds\<lparr>rdLast := k\<rparr>) in ds\<lparr>rdTotal := rdTotal ds + rdLast ds\<rparr>)"

definition count_write :: "nat option \<Rightarrow> AG_DataSource \<Rightarrow> AG_DataSource" where
  "count_write n ds = (let ds = (case n of None \<Rightarrow> ds | Some k \<Rightarrow> ds\<lparr>wrLast := k\<rparr>) in ds\<lparr>wrTotal := wrTotal ds + wrLast ds\<rparr>)"

definition AG_Read :: "nat \<Rightarrow> AG_DataSource \<Rightarrow> (int \<times> byte list \<times> AG_DataSource) option" where
  "AG_Read len ds = do {
     (rv, bs, n, ds) \<leftarrow> ds_read len ds;
     let ds = count_read n ds;
     Some (if rdLast ds < len then -1 else rv, bs, ds)
   }"

definition AG_ReadP :: "nat \<Rightarrow> AG_DataSource \<Rightarrow> (int \<times> byte list \<times> nat \<times> AG_DataSource) option" where
  "AG_ReadP len ds = do {
     (rv, bs, n, ds) \<leftarrow> ds_read len ds;
     let ds = count_read n ds;
     Some (rv, bs, rdLast ds, ds)
   }"

definition AG_ReadAt :: "nat \<Rightarrow> int \<Rightarrow> AG_DataSource \<Rightarrow> (int \<times> byte list \<times> AG_DataSource) option" where
  "AG_ReadAt len pos ds = do {
     (rv, bs, n, ds) \<leftarrow> ds_read_at len pos ds;
     let ds = count_read n ds;
     Some (if rdLast ds < len then -1 else rv, bs, ds)
   }"

definition AG_ReadAtP :: "nat \<Rightarrow> int \<Rightarrow> AG_DataSource \<Rightarrow> (int \<times> byte list \<times> nat \<times> AG_DataSource) option" where
  "AG_ReadAtP len pos ds = do {
     (rv, bs, n, ds) \<leftarrow> ds_read_at len pos ds;
     let ds = count_read n ds;
     Some (rv, bs, rdLast ds, ds)
   }"

definition AG_Write :: "byte list \<Rightarrow> AG_DataSource \<Rightarrow> (int \<times> AG_DataSource) option" where
  "AG_Write bs ds = do {
     (rv, n, ds) \<leftarrow> ds_write bs ds;
     let ds = count_write n ds;
     Some (if wrLast ds < length bs then -1 else rv, ds)
   }"

definition AG_WriteP :: "byte list \<Rightarrow> AG_DataSource \<Rightarrow> (int \<times> nat \<times> AG_DataSource) option" where
  "AG_WriteP bs ds = do {
     (rv, n, ds) \<leftarrow> ds_write bs ds;
     let ds = count_write n ds;
     Some (rv, wrLast ds, ds)
   }"

definition AG_WriteAt :: "byte list \<Rightarrow> int \<Rightarrow> AG_DataSource \<Rightarrow> (int \<times> AG_DataSource) option" where
  "AG_WriteAt bs pos ds = do {
     (rv, n, ds) \<leftarrow> ds_write_at bs pos ds;
     let ds = count_write n ds;
     Some (if wrLast ds < length bs then -1 else rv, ds)
   }"

definition AG_WriteAtP :: "byte list \<Rightarrow> int \<Rightarrow> AG_DataSource \<Rightarrow> (int \<times> nat \<times> AG_DataSource) option" where
  "AG_WriteAtP bs pos ds = do {
     (rv, n, ds) \<leftarrow> ds_write_at bs pos ds;
     let ds = count_write n ds;
     Some (rv, wrLast ds, ds)
   }"


text \<open>\<open>AG_DataSourceSetErrorFn\<close> with a handler that returns.\<close>

definition AG_DataSourceSetErrorFn :: "AG_DataSource \<Rightarrow> AG_DataSource" where
  "AG_DataSourceSetErrorFn ds = ds\<lparr>ds_fatal := False\<rparr>"

definition AG_DataSourceSetDebug :: "bool \<Rightarrow> AG_DataSource \<Rightarrow> AG_DataSource" where
  "AG_DataSourceSetDebug flag ds = ds\<lparr>ds_debug := flag\<rparr>"

section \<open>Type codes\<close>

text \<open>After a call that reports an error with a nonzero value: the exception of the source.\<close>

definition or_error :: "int \<times> AG_DataSource \<Rightarrow> AG_DataSource option" where
  "or_error r = (case r of (rv, ds) \<Rightarrow> if rv \<noteq> 0 then AG_DataSourceError ds else Some ds)"

definition AG_WriteTypeCode :: "32 word \<Rightarrow> AG_DataSource \<Rightarrow> AG_DataSource option" where
  "AG_WriteTypeCode type ds = do {
     r \<leftarrow> AG_Write (to_bytes 4 (swap_for AG_Swap32 ds type)) ds;
     or_error r
   }"

definition AG_WriteTypeCodeAt :: "32 word \<Rightarrow> int \<Rightarrow> AG_DataSource \<Rightarrow> AG_DataSource option" where
  "AG_WriteTypeCodeAt type offs ds = do {
     r \<leftarrow> AG_WriteAt (to_bytes 4 (swap_for AG_Swap32 ds type)) offs ds;
     or_error r
   }"

definition AG_WriteTypeCodeE :: "32 word \<Rightarrow> AG_DataSource \<Rightarrow> (int \<times> AG_DataSource) option" where
  "AG_WriteTypeCodeE type ds = AG_Write (to_bytes 4 (swap_for AG_Swap32 ds type)) ds"

definition AG_CheckTypeCode :: "32 word \<Rightarrow> AG_DataSource \<Rightarrow> (int \<times> AG_DataSource) option" where
  "AG_CheckTypeCode type ds = do {
     (rv, bs, ds) \<leftarrow> AG_Read 4 ds;
     Some (if rv \<noteq> 0 then -1 else if swap_for AG_Swap32 ds (from_bytes bs) = type then 0 else -1, ds)
   }"

text \<open>\<open>ds->debug && AG_CheckTypeCode(ds, type) == -1\<close>, and the same for writing.\<close>

definition bad_type :: "32 word \<Rightarrow> AG_DataSource \<Rightarrow> (bool \<times> AG_DataSource) option" where
  "bad_type type ds =
     (if ds_debug ds then do { (rv, ds) \<leftarrow> AG_CheckTypeCode type ds; Some (rv = -1, ds) } else Some (False, ds))"

definition debug_type :: "32 word \<Rightarrow> AG_DataSource \<Rightarrow> AG_DataSource option" where
  "debug_type type ds = (if ds_debug ds then AG_WriteTypeCode type ds else Some ds)"

definition AG_WRITEAT_DEBUGOFFS :: "AG_DataSource \<Rightarrow> int \<Rightarrow> int" where
  "AG_WRITEAT_DEBUGOFFS ds pos = (if ds_debug ds then pos + 4 else pos)"

section \<open>Integers and floating-point numbers\<close>

text \<open>
  The routines of load_integral.h and load_real.h have one body each, over the type code, the
  number of bytes and the swap of the type.
\<close>

definition read_num :: "32 word \<Rightarrow> nat \<Rightarrow> ('a :: len word \<Rightarrow> 'a word) \<Rightarrow> AG_DataSource \<Rightarrow> ('a word \<times> AG_DataSource) option" where
  "read_num type n sw ds = do {
     (bad, ds) \<leftarrow> bad_type type ds;
     if bad then Some (0, ds)
     else do {
       (rv, bs, ds) \<leftarrow> AG_Read n ds;
       if rv \<noteq> 0 then do { ds \<leftarrow> AG_DataSourceError ds; Some (0, ds) }
       else Some (swap_for sw ds (from_bytes bs), ds)
     }
   }"

definition readv_num :: "32 word \<Rightarrow> nat \<Rightarrow> ('a :: len word \<Rightarrow> 'a word) \<Rightarrow> AG_DataSource \<Rightarrow> (int \<times> 'a word option \<times> AG_DataSource) option" where
  "readv_num type n sw ds = do {
     (bad, ds) \<leftarrow> bad_type type ds;
     if bad then Some (-1, None, ds)
     else do {
       (rv, bs, ds) \<leftarrow> AG_Read n ds;
       if rv \<noteq> 0 then Some (-1, None, ds)
       else Some (0, Some (swap_for sw ds (from_bytes bs)), ds)
     }
   }"

definition write_num :: "32 word \<Rightarrow> nat \<Rightarrow> ('a :: len word \<Rightarrow> 'a word) \<Rightarrow> 'a word \<Rightarrow> AG_DataSource \<Rightarrow> AG_DataSource option" where
  "write_num type n sw u ds = do {
     let i = swap_for sw ds u;
     ds \<leftarrow> debug_type type ds;
     r \<leftarrow> AG_Write (to_bytes n i) ds;
     or_error r
   }"

definition writev_num :: "32 word \<Rightarrow> nat \<Rightarrow> ('a :: len word \<Rightarrow> 'a word) \<Rightarrow> 'a word \<Rightarrow> AG_DataSource \<Rightarrow> (int \<times> AG_DataSource) option" where
  "writev_num type n sw u ds = do {
     let i = swap_for sw ds u;
     (rv, ds) \<leftarrow> (if ds_debug ds then AG_WriteTypeCodeE type ds else Some (0, ds));
     if rv = -1 then Some (-1, ds) else AG_Write (to_bytes n i) ds
   }"

definition write_num_at :: "32 word \<Rightarrow> nat \<Rightarrow> ('a :: len word \<Rightarrow> 'a word) \<Rightarrow> 'a word \<Rightarrow> int \<Rightarrow> AG_DataSource \<Rightarrow> AG_DataSource option" where
  "write_num_at type n sw u pos ds = do {
     let i = swap_for sw ds u;
     ds \<leftarrow> (if ds_debug ds then AG_WriteTypeCodeAt type pos ds else Some ds);
     r \<leftarrow> AG_WriteAt (to_bytes n i) (AG_WRITEAT_DEBUGOFFS ds pos) ds;
     or_error r
   }"

definition AG_ReadUint8 :: "AG_DataSource \<Rightarrow> (8 word \<times> AG_DataSource) option" where
  "AG_ReadUint8 = read_num AG_SOURCE_UINT8 1 id"

definition AG_ReadUint8v :: "AG_DataSource \<Rightarrow> (int \<times> 8 word option \<times> AG_DataSource) option" where
  "AG_ReadUint8v = readv_num AG_SOURCE_UINT8 1 id"

definition AG_WriteUint8 :: "8 word \<Rightarrow> AG_DataSource \<Rightarrow> AG_DataSource option" where
  "AG_WriteUint8 = write_num AG_SOURCE_UINT8 1 id"

definition AG_WriteUint8v :: "8 word \<Rightarrow> AG_DataSource \<Rightarrow> (int \<times> AG_DataSource) option" where
  "AG_WriteUint8v = writev_num AG_SOURCE_UINT8 1 id"

definition AG_WriteUint8At :: "8 word \<Rightarrow> int \<Rightarrow> AG_DataSource \<Rightarrow> AG_DataSource option" where
  "AG_WriteUint8At = write_num_at AG_SOURCE_UINT8 1 id"

definition AG_ReadUint16 :: "AG_DataSource \<Rightarrow> (16 word \<times> AG_DataSource) option" where
  "AG_ReadUint16 = read_num AG_SOURCE_UINT16 2 AG_Swap16"

definition AG_ReadUint16v :: "AG_DataSource \<Rightarrow> (int \<times> 16 word option \<times> AG_DataSource) option" where
  "AG_ReadUint16v = readv_num AG_SOURCE_UINT16 2 AG_Swap16"

definition AG_WriteUint16 :: "16 word \<Rightarrow> AG_DataSource \<Rightarrow> AG_DataSource option" where
  "AG_WriteUint16 = write_num AG_SOURCE_UINT16 2 AG_Swap16"

definition AG_WriteUint16v :: "16 word \<Rightarrow> AG_DataSource \<Rightarrow> (int \<times> AG_DataSource) option" where
  "AG_WriteUint16v = writev_num AG_SOURCE_UINT16 2 AG_Swap16"

definition AG_WriteUint16At :: "16 word \<Rightarrow> int \<Rightarrow> AG_DataSource \<Rightarrow> AG_DataSource option" where
  "AG_WriteUint16At = write_num_at AG_SOURCE_UINT16 2 AG_Swap16"

definition AG_ReadUint32 :: "AG_DataSource \<Rightarrow> (32 word \<times> AG_DataSource) option" where
  "AG_ReadUint32 = read_num AG_SOURCE_UINT32 4 AG_Swap32"

definition AG_ReadUint32v :: "AG_DataSource \<Rightarrow> (int \<times> 32 word option \<times> AG_DataSource) option" where
  "AG_ReadUint32v = readv_num AG_SOURCE_UINT32 4 AG_Swap32"

definition AG_WriteUint32 :: "32 word \<Rightarrow> AG_DataSource \<Rightarrow> AG_DataSource option" where
  "AG_WriteUint32 = write_num AG_SOURCE_UINT32 4 AG_Swap32"

definition AG_WriteUint32v :: "32 word \<Rightarrow> AG_DataSource \<Rightarrow> (int \<times> AG_DataSource) option" where
  "AG_WriteUint32v = writev_num AG_SOURCE_UINT32 4 AG_Swap32"

definition AG_WriteUint32At :: "32 word \<Rightarrow> int \<Rightarrow> AG_DataSource \<Rightarrow> AG_DataSource option" where
  "AG_WriteUint32At = write_num_at AG_SOURCE_UINT32 4 AG_Swap32"

definition AG_ReadUint64 :: "AG_DataSource \<Rightarrow> (64 word \<times> AG_DataSource) option" where
  "AG_ReadUint64 = read_num AG_SOURCE_UINT64 8 AG_Swap64"

definition AG_ReadUint64v :: "AG_DataSource \<Rightarrow> (int \<times> 64 word option \<times> AG_DataSource) option" where
  "AG_ReadUint64v = readv_num AG_SOURCE_UINT64 8 AG_Swap64"

definition AG_WriteUint64 :: "64 word \<Rightarrow> AG_DataSource \<Rightarrow> AG_DataSource option" where
  "AG_WriteUint64 = write_num AG_SOURCE_UINT64 8 AG_Swap64"

definition AG_WriteUint64v :: "64 word \<Rightarrow> AG_DataSource \<Rightarrow> (int \<times> AG_DataSource) option" where
  "AG_WriteUint64v = writev_num AG_SOURCE_UINT64 8 AG_Swap64"

definition AG_WriteUint64At :: "64 word \<Rightarrow> int \<Rightarrow> AG_DataSource \<Rightarrow> AG_DataSource option" where
  "AG_WriteUint64At = write_num_at AG_SOURCE_UINT64 8 AG_Swap64"

text \<open>A \<open>float\<close> or a \<open>double\<close> is its bit pattern, which \<open>AG_SwapFLT\<close> and \<open>AG_SwapDBL\<close> swap as an integer.\<close>

definition AG_ReadFloat :: "AG_DataSource \<Rightarrow> (32 word \<times> AG_DataSource) option" where
  "AG_ReadFloat = read_num AG_SOURCE_FLOAT 4 AG_Swap32"

definition AG_ReadFloatv :: "AG_DataSource \<Rightarrow> (int \<times> 32 word option \<times> AG_DataSource) option" where
  "AG_ReadFloatv = readv_num AG_SOURCE_FLOAT 4 AG_Swap32"

definition AG_WriteFloat :: "32 word \<Rightarrow> AG_DataSource \<Rightarrow> AG_DataSource option" where
  "AG_WriteFloat = write_num AG_SOURCE_FLOAT 4 AG_Swap32"

definition AG_WriteFloatv :: "32 word \<Rightarrow> AG_DataSource \<Rightarrow> (int \<times> AG_DataSource) option" where
  "AG_WriteFloatv = writev_num AG_SOURCE_FLOAT 4 AG_Swap32"

definition AG_WriteFloatAt :: "32 word \<Rightarrow> int \<Rightarrow> AG_DataSource \<Rightarrow> AG_DataSource option" where
  "AG_WriteFloatAt = write_num_at AG_SOURCE_FLOAT 4 AG_Swap32"

definition AG_ReadDouble :: "AG_DataSource \<Rightarrow> (64 word \<times> AG_DataSource) option" where
  "AG_ReadDouble = read_num AG_SOURCE_DOUBLE 8 AG_Swap64"

definition AG_ReadDoublev :: "AG_DataSource \<Rightarrow> (int \<times> 64 word option \<times> AG_DataSource) option" where
  "AG_ReadDoublev = readv_num AG_SOURCE_DOUBLE 8 AG_Swap64"

definition AG_WriteDouble :: "64 word \<Rightarrow> AG_DataSource \<Rightarrow> AG_DataSource option" where
  "AG_WriteDouble = write_num AG_SOURCE_DOUBLE 8 AG_Swap64"

definition AG_WriteDoublev :: "64 word \<Rightarrow> AG_DataSource \<Rightarrow> (int \<times> AG_DataSource) option" where
  "AG_WriteDoublev = writev_num AG_SOURCE_DOUBLE 8 AG_Swap64"

definition AG_WriteDoubleAt :: "64 word \<Rightarrow> int \<Rightarrow> AG_DataSource \<Rightarrow> AG_DataSource option" where
  "AG_WriteDoubleAt = write_num_at AG_SOURCE_DOUBLE 8 AG_Swap64"


section \<open>Strings\<close>

text \<open>
  \<open>ds->read(ds, .., &ds->rdLast)\<close> and \<open>ds->write(..)\<close> as the string routines call them: whether the
  call reported 0, and the source with \<open>rdLast\<close> or \<open>wrLast\<close> set.
\<close>

definition raw_read :: "nat \<Rightarrow> AG_DataSource \<Rightarrow> (bool \<times> byte list \<times> AG_DataSource) option" where
  "raw_read len ds = do {
     (rv, bs, n, ds) \<leftarrow> ds_read len ds;
     Some (rv = 0, bs, case n of None \<Rightarrow> ds | Some k \<Rightarrow> ds\<lparr>rdLast := k\<rparr>)
   }"

definition raw_write :: "byte list \<Rightarrow> AG_DataSource \<Rightarrow> (bool \<times> AG_DataSource) option" where
  "raw_write bs ds = do {
     (rv, n, ds) \<leftarrow> ds_write bs ds;
     let ds = (case n of None \<Rightarrow> ds | Some k \<Rightarrow> ds\<lparr>wrLast := k\<rparr>);
     Some (rv = 0, if rv = 0 then ds\<lparr>wrTotal := wrTotal ds + wrLast ds\<rparr> else ds)
   }"

text \<open>The low 32 bits of a \<open>size_t\<close>, an \<open>off_t\<close> from a \<open>size_t\<close>.\<close>

definition u32 :: "nat \<Rightarrow> 32 word" where "u32 n = of_nat n"

definition off_of :: "nat \<Rightarrow> int" where "off_of n = sint (of_nat n :: 64 word)"

text \<open>A copy to the start of a buffer.\<close>

definition put_buf :: "char list \<Rightarrow> char list \<Rightarrow> char list option" where
  "put_buf s dst = (if length s \<le> length dst then Some (s @ drop (length s) dst) else None)"

definition AG_ReadStringLen :: "nat \<Rightarrow> AG_DataSource \<Rightarrow> (char list option \<times> AG_DataSource) option" where
  "AG_ReadStringLen maxlen ds = do {
     (bad, ds) \<leftarrow> bad_type AG_SOURCE_STRING ds;
     (rv, len, ds) \<leftarrow> (if bad then Some (-1, None, ds) else AG_ReadUint32v ds);
     (case len of
        None \<Rightarrow> do { ds \<leftarrow> AG_DataSourceError ds; Some (None, ds) }
      | Some len \<Rightarrow>
          if len > u32 maxlen then do { ds \<leftarrow> AG_DataSourceError ds; Some (None, ds) }
          else if unat len > 0 then do {
            (rv, bs, ds) \<leftarrow> AG_Read (unat len) ds;
            if rv \<noteq> 0 then do { ds \<leftarrow> AG_DataSourceError ds; Some (None, ds) }
            else Some (Some (bytes_str bs @ [NUL]), ds)
          } else Some (Some [NUL], ds))
   }"

definition AG_ReadStringLenv :: "nat \<Rightarrow> char list option \<Rightarrow> AG_DataSource \<Rightarrow>
    (int \<times> char list option \<times> nat option \<times> AG_DataSource) option" where
  "AG_ReadStringLenv maxlen s ds = do {
     (bad, ds) \<leftarrow> bad_type AG_SOURCE_STRING ds;
     (rv, len, ds) \<leftarrow> (if bad then Some (-1, None, ds) else AG_ReadUint32v ds);
     (case len of
        None \<Rightarrow> do { ds \<leftarrow> AG_DataSourceError ds; Some (-1, s, None, ds) }
      | Some len \<Rightarrow>
          if len > u32 maxlen then do { ds \<leftarrow> AG_DataSourceError ds; Some (-1, s, None, ds) }
          else do {
            let sp = mem_realloc (char_of (unat (junk ds))) (case s of None \<Rightarrow> [] | Some b \<Rightarrow> b) (unat len + 1);
            if unat len > 0 then do {
              (rv, bs, ds) \<leftarrow> AG_Read (unat len) ds;
              if rv \<noteq> 0 then do {
                sp \<leftarrow> wr sp 0 NUL;
                ds \<leftarrow> AG_DataSourceError ds;
                Some (-1, Some sp, None, ds)
              }
              else do {
                sp \<leftarrow> put_buf (bytes_str bs) sp;
                sp \<leftarrow> wr sp (unat len) NUL;
                Some (0, Some sp, Some (unat len), ds)
              }
            } else Some (0, Some sp, Some (unat len), ds)
          })
   }"

definition AG_ReadNulStringLen :: "nat \<Rightarrow> AG_DataSource \<Rightarrow> (char list option \<times> AG_DataSource) option" where
  "AG_ReadNulStringLen maxlen ds = do {
     (rv, len, ds) \<leftarrow> AG_ReadUint32v ds;
     (case len of
        None \<Rightarrow> do { ds \<leftarrow> AG_DataSourceError ds; Some (None, ds) }
      | Some len \<Rightarrow>
          if len > u32 maxlen then do { ds \<leftarrow> AG_DataSourceError ds; Some (None, ds) }
          else if unat len > 0 then do {
            (rv, bs, ds) \<leftarrow> AG_Read (unat len) ds;
            if rv \<noteq> 0 then do { ds \<leftarrow> AG_DataSourceError ds; Some (None, ds) }
            else Some (Some (bytes_str bs), ds)
          } else Some (Some [], ds))
   }"

definition AG_WriteString :: "string option \<Rightarrow> AG_DataSource \<Rightarrow> AG_DataSource option" where
  "AG_WriteString s ds = do {
     let s = (case s of None \<Rightarrow> [] | Some s \<Rightarrow> s);
     let slen = length s;
     let encLen = (if s = [] then 0 else swap_for AG_Swap32 ds (u32 slen));
     ds \<leftarrow> debug_type AG_SOURCE_STRING ds;
     (ok, ds) \<leftarrow> raw_write (to_bytes 4 encLen) ds;
     if \<not> ok then AG_DataSourceError ds
     else if slen > 0 then do {
       (ok, ds) \<leftarrow> raw_write (str_bytes s) ds;
       if \<not> ok then AG_DataSourceError ds else Some ds
     } else Some ds
   }"

text \<open>The loop that writes the padding, in chunks of at most 1024 bytes.\<close>

partial_function (option) write_padding :: "nat \<Rightarrow> AG_DataSource \<Rightarrow> (bool \<times> AG_DataSource) option" where
  "write_padding padLen ds =
     (if padLen > 0 then do {
        let chunkLen = min padLen 1024;
        (ok, ds) \<leftarrow> raw_write (replicate chunkLen 0) ds;
        if \<not> ok then Some (False, ds) else write_padding (usz (int padLen - int (wrLast ds))) ds
      } else Some (True, ds))"

definition AG_WriteStringPadded :: "string option \<Rightarrow> nat \<Rightarrow> AG_DataSource \<Rightarrow> AG_DataSource option" where
  "AG_WriteStringPadded s lenPadded ds = do {
     let s = (case s of None \<Rightarrow> [] | Some s \<Rightarrow> s);
     let slen = length s;
     if slen > lenPadded then AG_DataSourceError ds
     else do {
       let encLen = to_bytes 4 (swap_for AG_Swap32 ds (u32 slen)) @ to_bytes 4 (swap_for AG_Swap32 ds (u32 lenPadded));
       ds \<leftarrow> debug_type AG_SOURCE_STRING_PAD ds;
       (ok, ds) \<leftarrow> raw_write encLen ds;
       if \<not> ok then AG_DataSourceError ds
       else do {
         (ok, ds) \<leftarrow> (if slen > 0 then raw_write (str_bytes s) ds else Some (True, ds));
         if \<not> ok then AG_DataSourceError ds
         else do {
           (ok, ds) \<leftarrow> write_padding (lenPadded - slen) ds;
           if \<not> ok then AG_DataSourceError ds else Some ds
         }
       }
     }
   }"

text \<open>The results of the copies: what is returned, the buffer and the source.\<close>

definition copy_fail :: "char list \<Rightarrow> AG_DataSource \<Rightarrow> (nat \<times> char list \<times> AG_DataSource) option" where
  "copy_fail dst ds = do { dst \<leftarrow> wr dst 0 NUL; ds \<leftarrow> AG_DataSourceError ds; Some (0, dst, ds) }"

text \<open>The string itself, \<open>len\<close> bytes into \<open>dst\<close> with a NUL after them.\<close>

definition copy_body :: "char list \<Rightarrow> nat \<Rightarrow> AG_DataSource \<Rightarrow> (bool \<times> char list \<times> AG_DataSource) option" where
  "copy_body dst len ds =
     (if len = 0 then do { dst \<leftarrow> wr dst 0 NUL; Some (True, dst, ds) }
      else do {
        (ok, bs, ds) \<leftarrow> raw_read len ds;
        if \<not> ok then Some (False, dst, ds)
        else do {
          dst \<leftarrow> put_buf (bytes_str bs) dst;
          let ds = ds\<lparr>rdTotal := rdTotal ds + rdLast ds\<rparr>;
          if rdLast ds < len then Some (False, dst, ds)
          else do { dst \<leftarrow> wr dst (rdLast ds) NUL; Some (True, dst, ds) }
        }
      })"

definition AG_CopyString :: "char list \<Rightarrow> nat \<Rightarrow> AG_DataSource \<Rightarrow> (nat \<times> char list \<times> AG_DataSource) option" where
  "AG_CopyString dst dst_size ds = do {
     (bad, ds) \<leftarrow> bad_type AG_SOURCE_STRING ds;
     if bad then copy_fail dst ds
     else do {
       (ok, bs, ds) \<leftarrow> raw_read 4 ds;
       if \<not> ok then copy_fail dst ds
       else do {
         let ds = ds\<lparr>rdTotal := rdTotal ds + rdLast ds\<rparr>;
         if rdLast ds < 4 then copy_fail dst ds
         else do {
           let len = swap_for AG_Swap32 ds (from_bytes bs);
           let (rvLen, len) = (if len > u32 (usz (int dst_size - 1)) then (unat len + 1, u32 (usz (int dst_size - 1))) else (unat len, len));
           (ok, dst, ds) \<leftarrow> copy_body dst (unat len) ds;
           if \<not> ok then copy_fail dst ds else Some (rvLen, dst, ds)
         }
       }
     }
   }"

definition AG_CopyStringPadded :: "char list \<Rightarrow> nat \<Rightarrow> AG_DataSource \<Rightarrow> (nat \<times> char list \<times> AG_DataSource) option" where
  "AG_CopyStringPadded dst dst_size ds = do {
     (bad, ds) \<leftarrow> bad_type AG_SOURCE_STRING_PAD ds;
     if bad then copy_fail dst ds
     else do {
       (ok, bs, ds) \<leftarrow> raw_read 8 ds;
       if \<not> ok \<or> rdLast ds < 8 then copy_fail dst ds
       else do {
         let ds = ds\<lparr>rdTotal := rdTotal ds + rdLast ds\<rparr>;
         let len = unat (swap_for AG_Swap32 ds (from_bytes (take 4 bs)));
         let lenPadded = unat (swap_for AG_Swap32 ds (from_bytes (drop 4 bs)));
         let (rvLen, len) = (if len > unat (u32 (usz (int dst_size - 1))) then (len + 1, usz (int dst_size - 1)) else (len, len));
         (ok, dst, ds) \<leftarrow> copy_body dst len ds;
         if \<not> ok then copy_fail dst ds
         else do {
           let lenPadding = usz (int lenPadded - int len);
           let (rv, ds) = (if lenPadding > 0 then AG_Seek (off_of lenPadding) AG_SEEK_CUR ds else (0, ds));
           if rv = -1 then copy_fail dst ds else Some (rvLen, dst, ds)
         }
       }
     }
   }"

definition AG_SkipString :: "AG_DataSource \<Rightarrow> AG_DataSource option" where
  "AG_SkipString ds = do {
     (bad, ds) \<leftarrow> bad_type AG_SOURCE_STRING ds;
     (rv, len, ds) \<leftarrow> (if bad then Some (-1, None, ds) else AG_ReadUint32v ds);
     (case len of
        None \<Rightarrow> AG_DataSourceError ds
      | Some len \<Rightarrow> or_error (AG_Seek (off_of (unat len)) AG_SEEK_CUR ds))
   }"

definition AG_SkipStringPadded :: "AG_DataSource \<Rightarrow> AG_DataSource option" where
  "AG_SkipStringPadded ds = do {
     (bad, ds) \<leftarrow> bad_type AG_SOURCE_STRING_PAD ds;
     (rv, len, ds) \<leftarrow> (if bad then Some (-1, None, ds) else AG_ReadUint32v ds);
     (case len of
        None \<Rightarrow> AG_DataSourceError ds
      | Some len \<Rightarrow> do {
          (rv, lenPadded, ds) \<leftarrow> AG_ReadUint32v ds;
          (case lenPadded of
             None \<Rightarrow> AG_DataSourceError ds
           | Some lenPadded \<Rightarrow> or_error (AG_Seek (off_of (unat lenPadded)) AG_SEEK_CUR ds))
        })
   }"

definition AG_CopyNulString :: "char list \<Rightarrow> nat \<Rightarrow> AG_DataSource \<Rightarrow> (nat \<times> char list \<times> AG_DataSource) option" where
  "AG_CopyNulString dst dst_size ds = do {
     (rv, len, ds) \<leftarrow> AG_ReadUint32v ds;
     (case len of
        None \<Rightarrow> copy_fail dst ds
      | Some len \<Rightarrow> do {
          let (rv, len) = (if len > u32 dst_size then (unat len, u32 dst_size) else (unat len, len));
          (r, bs, ds) \<leftarrow> AG_Read (unat len) ds;
          if r \<noteq> 0 then copy_fail dst ds
          else do { dst \<leftarrow> put_buf (bytes_str bs) dst; Some (usz (int rv - 1), dst, ds) }
        })
   }"

section \<open>Versions\<close>

definition AG_VERSION_NAME_MAX :: nat where "AG_VERSION_NAME_MAX = 48"

record AG_Version =
  major :: "32 word"
  minor :: "32 word"

text \<open>Whether \<open>strncmp(a, b, n)\<close> is 0; \<^const>\<open>None\<close> when it would read past the end of an array.\<close>

fun strncmp_eq :: "char list \<Rightarrow> char list \<Rightarrow> nat \<Rightarrow> bool option" where
  "strncmp_eq a b 0 = Some True"
| "strncmp_eq (x # a) (y # b) (Suc n) = (if x \<noteq> y then Some False else if x = NUL then Some True else strncmp_eq a b n)"
| "strncmp_eq a b n = None"

definition AG_ReadVersion :: "string \<Rightarrow> AG_Version \<Rightarrow> AG_DataSource \<Rightarrow> (int \<times> AG_Version option \<times> AG_DataSource) option" where
  "AG_ReadVersion name ver ds = do {
     let nlen = length name;
     (rv, bs, ds) \<leftarrow> AG_Read AG_VERSION_NAME_MAX ds;
     same \<leftarrow> (if rv \<noteq> 0 then Some False else strncmp_eq (bytes_str bs) (name @ [NUL]) nlen);
     if \<not> same then Some (-1, None, ds)
     else do {
       (rv, ma, ds) \<leftarrow> AG_ReadUint32v ds;
       (case ma of
          None \<Rightarrow> Some (-1, None, ds)
        | Some ma \<Rightarrow> do {
            (rv, mi, ds) \<leftarrow> AG_ReadUint32v ds;
            (case mi of
               None \<Rightarrow> Some (-1, None, ds)
             | Some mi \<Rightarrow> Some (if ma \<noteq> major ver then -1 else 0, Some \<lparr>major = ma, minor = mi\<rparr>, ds))
          })
     }
   }"

definition AG_WriteVersion :: "string \<Rightarrow> AG_Version \<Rightarrow> AG_DataSource \<Rightarrow> (int \<times> AG_DataSource) option" where
  "AG_WriteVersion name ver ds = do {
     let nbuf = concat (replicate 12 ''agar'');
     (nbuf, n) \<leftarrow> AG_Strlcpy nbuf (name @ [NUL]) AG_VERSION_NAME_MAX;
     (rv, ds) \<leftarrow> AG_Write (str_bytes nbuf) ds;
     if rv \<noteq> 0 then Some (-1, ds)
     else do {
       (rv, ds) \<leftarrow> AG_WriteUint32v (major ver) ds;
       if rv = -1 then Some (-1, ds)
       else do {
         (rv, ds) \<leftarrow> AG_WriteUint32v (minor ver) ds;
         Some (if rv = -1 then -1 else 0, ds)
       }
     }
   }"

end
