(* ===== verification/DataLaws.thy ===== *)
theory DataLaws
  imports Data
begin

text \<open>
  Laws of the data sources and of serialization: the swaps reverse the bytes of a number and
  undo themselves, objects in memory are their bytes; a source whose block has the size it
  believes reads what is left of it and appends what is written (\<open>src_ok\<close>, \<open>to_read\<close>,
  \<open>reads\<close>, \<open>appends\<close>); the bytes that the writers of numbers and strings put down
  (\<open>stored\<close>), and what the readers make of them.  Over these, records of typed fields: round
  trips, the check of type codes, and the failures of strings and of overwriting.
\<close>

section \<open>Swaps\<close>

lemma mask_byte2: "(0x00FF0000 :: 32 word) = push_bit 16 (mask 8)" by (simp add: mask_eq_exp_minus_1 push_bit_eq_mult)
lemma mask_byte1: "(0x0000FF00 :: 32 word) = push_bit 8 (mask 8)" by (simp add: mask_eq_exp_minus_1 push_bit_eq_mult)

text \<open>The position of bit \<open>i\<close> when \<open>n + 1\<close> bytes are reversed.\<close>

definition mirror :: "nat \<Rightarrow> nat \<Rightarrow> nat" where
  "mirror n i = 8 * (n - i div 8) + i mod 8"

lemma div_mod_8: "r < 8 \<Longrightarrow> (8 * a + r) div 8 = a \<and> (8 * a + r) mod 8 = (r :: nat)"
  by simp

lemma mirror_props:
  assumes "i < 8 * Suc n"
  shows "mirror n i < 8 * Suc n" and "mirror n i div 8 = n - i div 8" and "mirror n i mod 8 = i mod 8"
    and "mirror n (mirror n i) = i"
proof -
  have r: "i mod 8 < 8" and q: "i div 8 \<le> n" using assms by auto
  show d: "mirror n i div 8 = n - i div 8" and m: "mirror n i mod 8 = i mod 8"
    unfolding mirror_def using div_mod_8 [OF r] by auto
  show "mirror n i < 8 * Suc n" unfolding mirror_def using r by auto
  have "mirror n (mirror n i) = 8 * (n - (n - i div 8)) + i mod 8" unfolding mirror_def [of n "mirror n i"] d m ..
  also have "\<dots> = i" using q by simp
  finally show "mirror n (mirror n i) = i" .
qed

lemma AG_Swap16_bit: "bit (AG_Swap16 x) i \<longleftrightarrow> i < 16 \<and> bit x (mirror 1 i)"
proof -
  have "i < 8 \<or> (8 \<le> i \<and> i < 16) \<or> 16 \<le> i" by arith
  moreover have "i < 8 \<Longrightarrow> i div 8 = 0 \<and> i mod 8 = i" by simp
  moreover have "8 \<le> i \<Longrightarrow> i < 16 \<Longrightarrow> i div 8 = 1 \<and> i mod 8 = i - 8" by presburger
  ultimately show ?thesis
    unfolding AG_Swap16_def mirror_def
    by (elim disjE) (auto simp: bit_simps ac_simps dest: bit_imp_le_length)
qed

lemma mirror_byte: "r < 8 \<Longrightarrow> mirror n (8 * k + r) = 8 * (n - k) + r"
  by (simp add: mirror_def)

lemma AG_Swap32_bit: "bit (AG_Swap32 x) i \<longleftrightarrow> i < 32 \<and> bit x (mirror 3 i)"
proof (cases "i < 32")
  case True
  define k r where "k = i div 8" and "r = i mod 8"
  then have i: "i = 8 * k + r" and r: "r < 8" and "k < 4" using True by auto
  then have "k = 0 \<or> k = 1 \<or> k = 2 \<or> k = 3" by arith
  then show ?thesis unfolding AG_Swap32_def mask_byte1 mask_byte2 i mirror_byte [OF r]
    using r by (elim disjE) (auto simp: bit_simps dest: bit_imp_le_length)
next
  case False
  then show ?thesis using bit_imp_le_length [of "AG_Swap32 x" i] by auto
qed

lemma AG_Swap64_bit: "bit (AG_Swap64 x) i \<longleftrightarrow> i < 64 \<and> bit x (mirror 7 i)"
proof (cases "i < 32")
  case True
  then have q: "i div 8 < 4" by arith
  then have "mirror 7 i = 32 + mirror 3 i" by (simp add: mirror_def)
  moreover have "mirror 3 i < 32" using mirror_props(1) [of i 3] True by simp
  ultimately show ?thesis using True
    by (simp add: AG_Swap64_def Let_def bit_simps AG_Swap32_bit)
next
  case False
  then obtain j where j: "i = j + 32" by (metis add.commute le_Suc_ex not_less)
  have d: "(j + 32) div 8 = j div 8 + 4" and m: "(j + 32) mod 8 = j mod 8"
    using div_mult_self1 [of 8 j 4] mod_mult_self1 [of j 4 8] by simp_all
  have e: "mirror 7 (j + 32) = mirror 3 j" unfolding mirror_def d m by simp
  have "j < 32 \<Longrightarrow> mirror 3 j < 32" using mirror_props(1) [of j 3] by simp
  then show ?thesis unfolding j e
    by (auto simp: AG_Swap64_def Let_def bit_simps AG_Swap32_bit)
qed

lemma AG_Swap16_swap [simp]: "AG_Swap16 (AG_Swap16 x) = x"
  by (rule bit_word_eqI) (use mirror_props [of _ 1] in \<open>auto simp: AG_Swap16_bit\<close>)

lemma AG_Swap32_swap [simp]: "AG_Swap32 (AG_Swap32 x) = x"
  by (rule bit_word_eqI) (use mirror_props [of _ 3] in \<open>auto simp: AG_Swap32_bit\<close>)

lemma AG_Swap64_swap [simp]: "AG_Swap64 (AG_Swap64 x) = x"
  by (rule bit_word_eqI) (use mirror_props [of _ 7] in \<open>auto simp: AG_Swap64_bit\<close>)

section \<open>Objects in memory\<close>

lemma to_bytes_length [simp]: "length (to_bytes n w) = n" by (simp add: to_bytes_def)

lemma to_bytes_Suc: "to_bytes (Suc n) w = ucast w # to_bytes n (drop_bit 8 w)"
  by (simp add: to_bytes_def upt_conv_Cons map_Suc_upt [symmetric] ac_simps del: upt_Suc)

lemma from_bytes_bit:
  "bit (from_bytes bs :: 'a :: len word) i \<longleftrightarrow> i < LENGTH('a) \<and> i div 8 < length bs \<and> bit (bs ! (i div 8)) (i mod 8)"
proof (induction bs arbitrary: i)
  case Nil
  then show ?case by (simp add: from_bytes_def)
next
  case (Cons b bs)
  have e: "from_bytes (b # bs) = ucast b OR push_bit 8 (from_bytes bs :: 'a word)" by (simp add: from_bytes_def)
  show ?case
  proof (cases "i < 8")
    case True
    then show ?thesis unfolding e by (auto simp: bit_simps dest: bit_imp_le_length)
  next
    case False
    then obtain j where j: "i = j + 8" by (metis add.commute le_Suc_ex not_less)
    have "\<not> bit b (j + 8)" using bit_imp_le_length [of b "j + 8"] by auto
    then have "bit (from_bytes (b # bs) :: 'a word) i \<longleftrightarrow> i < LENGTH('a) \<and> bit (from_bytes bs :: 'a word) j"
      unfolding e j by (simp add: bit_simps)
    then show ?thesis unfolding Cons.IH j by (simp add: div_add_self2) auto
  qed
qed

lemma from_to_bytes: "LENGTH('a) = 8 * n \<Longrightarrow> from_bytes (to_bytes n w) = (w :: 'a :: len word)"
  by (rule bit_word_eqI) (auto simp: from_bytes_bit to_bytes_def bit_simps)

text \<open>Swapping a number reverses its bytes.\<close>

lemma swap_bytes:
  assumes "LENGTH('a) = 8 * Suc n" and "\<And>i. bit (y :: 'a :: len word) i \<longleftrightarrow> i < 8 * Suc n \<and> bit x (mirror n i)"
  shows "to_bytes (Suc n) y = rev (to_bytes (Suc n) x)"
proof (rule nth_equalityI)
  fix k assume "k < length (to_bytes (Suc n) y)"
  then have k: "k \<le> n" by simp
  show "to_bytes (Suc n) y ! k = rev (to_bytes (Suc n) x) ! k"
  proof (rule bit_word_eqI)
    fix j :: nat assume "j < LENGTH(8)"
    then have j: "j < 8" by simp
    have "mirror n (8 * k + j) = 8 * (n - k) + j" using j by (simp add: mirror_def)
    then show "bit (to_bytes (Suc n) y ! k) j = bit (rev (to_bytes (Suc n) x) ! k) j"
      using k j assms(1) by (simp add: to_bytes_def rev_nth bit_simps assms(2) nth_upt del: upt_Suc) (subst nth_upt; simp)
  qed
qed simp

lemma AG_Swap32_bytes: "to_bytes 4 (AG_Swap32 x) = rev (to_bytes 4 x)"
  using swap_bytes [of 3 "AG_Swap32 x" x] by (simp add: AG_Swap32_bit)

lemma bytes_str_str_bytes [simp]: "bytes_str (str_bytes s) = s"
  by (induction s) (simp_all add: bytes_str_def str_bytes_def unat_of_nat)

lemma length_bytes_str [simp]: "length (bytes_str bs) = length bs" "length (str_bytes s) = length s"
  by (simp_all add: bytes_str_def str_bytes_def)

section \<open>Sequential access to a block in memory\<close>

text \<open>A source whose block has the size that it believes, and what is left to read of it.\<close>

definition sized :: "AG_DataSource \<Rightarrow> bool" where
  "sized ds \<longleftrightarrow> cs_size ds = length (cs_data ds) \<and> 0 \<le> cs_offs ds \<and> cs_offs ds \<le> int (cs_size ds) \<and> int (cs_size ds) < 2 ^ 63"

definition src_ok :: "AG_DataSource \<Rightarrow> bool" where
  "src_ok ds \<longleftrightarrow> sized ds \<and> ds_kind ds \<noteq> K_FileW"

definition to_read :: "AG_DataSource \<Rightarrow> byte list" where
  "to_read ds = drop (nat (cs_offs ds)) (cs_data ds)"

text \<open>What all operations but those that set it up leave alone.\<close>

definition same_setup :: "AG_DataSource \<Rightarrow> AG_DataSource \<Rightarrow> bool" where
  "same_setup ds ds' \<longleftrightarrow> ds_kind ds' = ds_kind ds \<and> ds_debug ds' = ds_debug ds \<and> byte_order ds' = byte_order ds \<and>
     ds_fatal ds' = ds_fatal ds \<and> ds_errors ds' = ds_errors ds"

definition reads :: "AG_DataSource \<Rightarrow> byte list \<Rightarrow> AG_DataSource \<Rightarrow> bool" where
  "reads ds rest ds' \<longleftrightarrow> src_ok ds' \<and> to_read ds' = rest \<and> same_setup ds ds'"

definition appends :: "AG_DataSource \<Rightarrow> byte list \<Rightarrow> AG_DataSource \<Rightarrow> bool" where
  "appends ds bs ds' \<longleftrightarrow> sized ds' \<and> to_read ds' = [] \<and> cs_data ds' = cs_data ds @ bs \<and> same_setup ds ds'"

lemma same_setup_refl [simp]: "same_setup ds ds" by (simp add: same_setup_def)

lemma same_setup_trans [trans]: "same_setup a b \<Longrightarrow> same_setup b c \<Longrightarrow> same_setup a c"
  by (simp add: same_setup_def)

lemma reads_trans [trans]: "reads a x b \<Longrightarrow> reads b y c \<Longrightarrow> reads a y c"
  unfolding reads_def by (blast intro: same_setup_trans)

lemma appends_trans: "appends a x b \<Longrightarrow> appends b y c \<Longrightarrow> appends a (x @ y) c"
  unfolding appends_def by (auto intro: same_setup_trans)

lemma reads_setup: "reads ds r ds' \<Longrightarrow> ds_debug ds' = ds_debug ds \<and> byte_order ds' = byte_order ds"
  by (simp add: reads_def same_setup_def)

lemma appends_setup: "appends ds r ds' \<Longrightarrow> ds_debug ds' = ds_debug ds \<and> byte_order ds' = byte_order ds \<and> ds_kind ds' = ds_kind ds"
  by (simp add: appends_def same_setup_def)

lemma usz_small: "0 \<le> x \<Longrightarrow> x < 2 ^ 64 \<Longrightarrow> usz x = nat x" by (simp add: usz_def)

lemma to_read_split:
  assumes "sized ds" and "to_read ds = bs @ rest"
  shows "int (nat (cs_offs ds)) = cs_offs ds" and "nat (cs_offs ds) + length bs + length rest = length (cs_data ds)"
    and "mem_read (cs_data ds) (cs_offs ds) (length bs) = Some bs"
    and "usz (cs_offs ds + int (length bs)) = nat (cs_offs ds) + length bs"
    and "drop (nat (cs_offs ds + int (length bs))) (cs_data ds) = rest"
proof -
  let ?o = "nat (cs_offs ds)"
  show o: "int ?o = cs_offs ds" using assms(1) by (simp add: sized_def)
  have ol: "?o \<le> length (cs_data ds)" using assms(1) unfolding sized_def by linarith
  have "length (drop ?o (cs_data ds)) = length bs + length rest" using assms(2) unfolding to_read_def by simp
  then show l: "?o + length bs + length rest = length (cs_data ds)" using ol by simp
  have "0 \<le> cs_offs ds" using assms(1) by (simp add: sized_def)
  then show "mem_read (cs_data ds) (cs_offs ds) (length bs) = Some bs"
    using l assms(2) unfolding mem_read_def to_read_def by simp
  have "cs_offs ds + int (length bs) < 2 ^ 63" using l assms(1) o unfolding sized_def by linarith
  then show "usz (cs_offs ds + int (length bs)) = ?o + length bs"
    using \<open>0 \<le> cs_offs ds\<close> by (subst usz_small) (auto simp: nat_add_distrib)
  have "nat (cs_offs ds + int (length bs)) = length bs + ?o" using \<open>0 \<le> cs_offs ds\<close> by simp
  then show "drop (nat (cs_offs ds + int (length bs))) (cs_data ds) = rest"
    using assms(2) unfolding to_read_def by (simp add: drop_drop [symmetric])
qed

lemma advance:
  assumes "sized ds" and "to_read ds = bs @ rest"
  shows "sized (ds\<lparr>cs_offs := cs_offs ds + int (length bs)\<rparr>)"
    and "to_read (ds\<lparr>cs_offs := cs_offs ds + int (length bs)\<rparr>) = rest"
proof -
  note s = to_read_split [OF assms]
  have "0 \<le> cs_offs ds" using assms(1) by (simp add: sized_def)
  moreover have "cs_offs ds + int (length bs) \<le> int (length (cs_data ds))" using s(1,2) by linarith
  ultimately show "sized (ds\<lparr>cs_offs := cs_offs ds + int (length bs)\<rparr>)" using assms(1) by (simp add: sized_def)
  show "to_read (ds\<lparr>cs_offs := cs_offs ds + int (length bs)\<rparr>) = rest"
    using s(5) unfolding to_read_def by simp
qed

lemma ds_read_ok:
  assumes "src_ok ds" and "to_read ds = bs @ rest"
  shows "ds_read (length bs) ds = Some (0, bs, Some (length bs), ds\<lparr>cs_offs := cs_offs ds + int (length bs)\<rparr>)"
proof -
  have sz: "sized ds" using assms(1) by (simp add: src_ok_def)
  note s = to_read_split [OF sz assms(2)]
  have c: "cs_size ds = length (cs_data ds)" using sz by (simp add: sized_def)
  have "CoreRead (length bs) ds = Some (0, bs, Some (length bs), ds\<lparr>cs_offs := cs_offs ds + int (length bs)\<rparr>)"
    unfolding CoreRead_def s(3,4) using s(2) c by simp
  moreover have "FileRead (length bs) ds = Some (0, bs, Some (length bs), ds\<lparr>cs_offs := cs_offs ds + int (length bs)\<rparr>)"
    using assms by (simp add: FileRead_def src_ok_def to_read_def Let_def)
  ultimately show ?thesis by (simp add: ds_read_def)
qed

lemma sized_counts [simp]:
  "sized (ds\<lparr>rdLast := k\<rparr>) = sized ds" "sized (ds\<lparr>rdTotal := k\<rparr>) = sized ds"
  "sized (ds\<lparr>wrLast := k\<rparr>) = sized ds" "sized (ds\<lparr>wrTotal := k\<rparr>) = sized ds"
  "src_ok (ds\<lparr>rdLast := k\<rparr>) = src_ok ds" "src_ok (ds\<lparr>rdTotal := k\<rparr>) = src_ok ds"
  "to_read (ds\<lparr>rdLast := k\<rparr>) = to_read ds" "to_read (ds\<lparr>rdTotal := k\<rparr>) = to_read ds"
  "to_read (ds\<lparr>wrLast := k\<rparr>) = to_read ds" "to_read (ds\<lparr>wrTotal := k\<rparr>) = to_read ds"
  by (simp_all add: src_ok_def sized_def to_read_def)

lemma advance_reads:
  assumes "src_ok ds" and "to_read ds = bs @ rest"
  shows "reads ds rest (ds\<lparr>cs_offs := cs_offs ds + int (length bs)\<rparr>)"
  using assms advance [of ds bs rest] by (simp add: src_ok_def reads_def same_setup_def)

lemma AG_Read_ok:
  assumes "src_ok ds" and "to_read ds = bs @ rest" and "n = length bs"
  shows "\<exists>ds'. AG_Read n ds = Some (0, bs, ds') \<and> reads ds rest ds'"
  unfolding AG_Read_def assms(3) ds_read_ok [OF assms(1,2)]
  using advance_reads [OF assms(1,2)]
  by (simp add: count_read_def Let_def reads_def same_setup_def)

lemma raw_read_ok:
  assumes "src_ok ds" and "to_read ds = bs @ rest" and "n = length bs"
  shows "\<exists>ds'. raw_read n ds = Some (True, bs, ds') \<and> rdLast ds' = n \<and> reads ds rest ds'"
  unfolding raw_read_def assms(3) ds_read_ok [OF assms(1,2)]
  using advance_reads [OF assms(1,2)]
  by (simp add: reads_def same_setup_def)

text \<open>Too little is left.\<close>

lemma ds_read_short:
  assumes "src_ok ds" and "length (to_read ds) < n" and "int n < 2 ^ 63" and "\<not> is_file ds"
  shows "ds_read n ds = Some (-1, [], None, ds)"
proof -
  have o: "0 \<le> cs_offs ds" "cs_offs ds < 2 ^ 63" "cs_size ds = length (cs_data ds)" using assms(1) by (auto simp: src_ok_def sized_def)
  then have "usz (cs_offs ds + int n) = nat (cs_offs ds) + n" using assms(3) by (subst usz_small) auto
  moreover have "nat (cs_offs ds) + n > length (cs_data ds)" using assms(2) by (simp add: to_read_def)
  ultimately show ?thesis using o assms(4) by (simp add: ds_read_def CoreRead_def)
qed

lemma AG_Read_short:
  assumes "src_ok ds" and "length (to_read ds) < n" and "int n < 2 ^ 63" and "\<not> is_file ds"
  shows "\<exists>ds'. AG_Read n ds = Some (-1, [], ds') \<and> reads ds (to_read ds) ds'"
  using assms(1) by (simp add: AG_Read_def ds_read_short [OF assms] count_read_def Let_def reads_def same_setup_def)

text \<open>Writing at the end of a source that grows: of a block in memory or of a file.\<close>

definition at_end :: "AG_DataSource \<Rightarrow> bool" where
  "at_end ds \<longleftrightarrow> (ds_kind ds = K_AutoCore \<or> ds_kind ds = K_FileW) \<and> sized ds \<and> to_read ds = []"

lemma appends_at_end: "at_end ds \<Longrightarrow> appends ds bs ds' \<Longrightarrow> at_end ds'"
  by (simp add: at_end_def appends_def same_setup_def)

lemma at_end_offs: "at_end ds \<Longrightarrow> cs_offs ds = int (length (cs_data ds)) \<and> cs_size ds = length (cs_data ds)"
  by (auto simp: at_end_def to_read_def sized_def)

lemma ds_write_ok:
  assumes "at_end ds" and "int (length (cs_data ds)) + int (length bs) < 2 ^ 63"
  shows "\<exists>ds'. ds_write bs ds = Some (0, Some (length bs), ds') \<and> appends ds bs ds'"
proof -
  have o: "cs_offs ds = int (length (cs_data ds))" and c: "cs_size ds = length (cs_data ds)" using at_end_offs [OF assms(1)] by auto
  let ?ds = "ds\<lparr>cs_data := cs_data ds @ bs, cs_size := length (cs_data ds) + length bs, cs_offs := int (length (cs_data ds)) + int (length bs)\<rparr>"
  have u: "usz (int (length (cs_data ds)) + int (length bs)) = length (cs_data ds) + length bs"
    using assms(2) by (subst usz_small) auto
  have "CoreAutoWrite bs ds = Some (0, Some (length bs), ?ds)"
    unfolding CoreAutoWrite_def o u c by (simp add: mem_write_def mem_realloc_def Let_def)
  moreover have "ds_kind ds = K_FileW \<Longrightarrow> FileWrite bs ds = Some (0, Some (length bs), ?ds)"
    by (simp add: FileWrite_def file_write_def o Let_def)
  ultimately have "ds_write bs ds = Some (0, Some (length bs), ?ds)"
    using assms(1) by (auto simp: at_end_def ds_write_def)
  then show ?thesis using assms(2) by (simp add: appends_def sized_def to_read_def same_setup_def)
qed

lemma AG_Write_ok:
  assumes "at_end ds" and "int (length (cs_data ds)) + int (length bs) < 2 ^ 63"
  shows "\<exists>ds'. AG_Write bs ds = Some (0, ds') \<and> appends ds bs ds'"
proof -
  obtain ds' where "ds_write bs ds = Some (0, Some (length bs), ds')" "appends ds bs ds'" using ds_write_ok [OF assms] by blast
  then show ?thesis
    by (simp add: AG_Write_def count_write_def Let_def appends_def same_setup_def)
qed

lemma raw_write_ok:
  assumes "at_end ds" and "int (length (cs_data ds)) + int (length bs) < 2 ^ 63"
  shows "\<exists>ds'. raw_write bs ds = Some (True, ds') \<and> wrLast ds' = length bs \<and> appends ds bs ds'"
proof -
  obtain ds' where "ds_write bs ds = Some (0, Some (length bs), ds')" "appends ds bs ds'" using ds_write_ok [OF assms] by blast
  then show ?thesis
    by (simp add: raw_write_def appends_def same_setup_def)
qed

text \<open>Going back to fill in bytes that were left open.\<close>

lemma AG_WriteAt_ok:
  assumes "at_end ds" and "cs_data ds = xs @ ys @ zs" and "length bs = length ys" and "pos = int (length xs)"
  shows "\<exists>ds'. AG_WriteAt bs pos ds = Some (0, ds') \<and> at_end ds' \<and> cs_data ds' = xs @ bs @ zs \<and> same_setup ds ds'"
proof -
  have o: "cs_offs ds = int (length (cs_data ds))" and c: "cs_size ds = length (cs_data ds)" using at_end_offs [OF assms(1)] by auto
  have s: "int (length (cs_data ds)) < 2 ^ 63" using assms(1) by (simp add: at_end_def sized_def)
  have u: "usz (pos + int (length bs)) = length xs + length ys"
    using s unfolding assms(2-4) by (subst usz_small) auto
  let ?ds = "ds\<lparr>cs_data := xs @ bs @ zs\<rparr>"
  have "CoreAutoWriteAt bs pos ds = Some (0, Some (length bs), ?ds)"
    unfolding CoreAutoWriteAt_def u c using assms(2-4) by (simp add: mem_write_def Let_def)
  moreover have "ds_kind ds = K_FileW \<Longrightarrow> FileWriteAt bs pos ds = Some (0, Some (length bs), ?ds\<lparr>cs_size := length (xs @ bs @ zs)\<rparr>)"
    using assms(2-4) by (auto simp: FileWriteAt_def file_write_def Let_def)
  moreover have "length (xs @ bs @ zs) = cs_size ds" using assms(2,3) c by simp
  ultimately have w: "ds_write_at bs pos ds = Some (0, Some (length bs), ?ds)"
    using assms(1) by (auto simp: at_end_def ds_write_at_def)
  have "sized ?ds" "to_read ?ds = []" using assms(1-3) o c s by (auto simp: sized_def to_read_def)
  then show ?thesis using assms(1)
    by (simp add: AG_WriteAt_def w count_write_def Let_def at_end_def same_setup_def)
qed

section \<open>Numbers\<close>

text \<open>The bytes of a number in the order of a source, and the type code that precedes it.\<close>

definition num_bytes :: "ag_byte_order \<Rightarrow> nat \<Rightarrow> ('a :: len word \<Rightarrow> 'a word) \<Rightarrow> 'a word \<Rightarrow> byte list" where
  "num_bytes ord n sw w = to_bytes n (if ord = AG_BYTEORDER_BE then sw w else w)"

definition type_bytes :: "AG_DataSource \<Rightarrow> 32 word \<Rightarrow> byte list" where
  "type_bytes ds type = (if ds_debug ds then num_bytes (byte_order ds) 4 AG_Swap32 type else [])"

lemma length_num_bytes [simp]: "length (num_bytes ord n sw w) = n" by (simp add: num_bytes_def)

lemma swap_for_bytes: "to_bytes n (swap_for sw ds w) = num_bytes (byte_order ds) n sw w"
  by (simp add: num_bytes_def swap_for_def)

lemma from_num_bytes:
  assumes "LENGTH('a) = 8 * n" and "\<And>x. sw (sw x) = (x :: 'a :: len word)" and "byte_order ds = ord"
  shows "swap_for sw ds (from_bytes (num_bytes ord n sw w)) = w"
  using assms by (simp add: swap_for_def num_bytes_def from_to_bytes)

lemma type_bytes_setup: "same_setup ds ds' \<Longrightarrow> type_bytes ds' t = type_bytes ds t"
  by (simp add: type_bytes_def same_setup_def)

lemma debug_type_ok:
  assumes "at_end ds" and "int (length (cs_data ds)) + 4 < 2 ^ 63"
  shows "\<exists>ds'. debug_type t ds = Some ds' \<and> appends ds (type_bytes ds t) ds'"
proof (cases "ds_debug ds")
  case True
  obtain ds' where "AG_Write (num_bytes (byte_order ds) 4 AG_Swap32 t) ds = Some (0, ds')"
    "appends ds (num_bytes (byte_order ds) 4 AG_Swap32 t) ds'"
    using AG_Write_ok [OF assms(1), of "num_bytes (byte_order ds) 4 AG_Swap32 t"] assms(2) by auto
  then show ?thesis using True
    by (simp add: debug_type_def AG_WriteTypeCode_def swap_for_bytes or_error_def type_bytes_def)
next
  case False
  then show ?thesis using assms(1) by (simp add: debug_type_def type_bytes_def appends_def at_end_def)
qed

lemma bad_type_ok:
  assumes "src_ok ds" and "to_read ds = type_bytes ds t @ rest"
  shows "\<exists>ds'. bad_type t ds = Some (False, ds') \<and> reads ds rest ds'"
proof (cases "ds_debug ds")
  case True
  obtain ds' where d: "AG_Read 4 ds = Some (0, num_bytes (byte_order ds) 4 AG_Swap32 t, ds')" "reads ds rest ds'"
    using AG_Read_ok [OF assms(1), of "num_bytes (byte_order ds) 4 AG_Swap32 t" rest 4] assms(2) True by (auto simp: type_bytes_def)
  have "swap_for AG_Swap32 ds' (from_bytes (num_bytes (byte_order ds) 4 AG_Swap32 t)) = t"
    using reads_setup [OF d(2)] by (intro from_num_bytes) simp_all
  then show ?thesis using True d by (simp add: bad_type_def AG_CheckTypeCode_def)
next
  case False
  then show ?thesis using assms by (simp add: bad_type_def type_bytes_def reads_def)
qed

text \<open>Another type code, or too little to hold one.\<close>

lemma bad_type_other:
  assumes "src_ok ds" and "ds_debug ds" and "to_read ds = num_bytes (byte_order ds) 4 AG_Swap32 u @ rest" and "t \<noteq> u"
  shows "\<exists>ds'. bad_type t ds = Some (True, ds') \<and> reads ds rest ds'"
proof -
  obtain ds' where d: "AG_Read 4 ds = Some (0, num_bytes (byte_order ds) 4 AG_Swap32 u, ds')" "reads ds rest ds'"
    using AG_Read_ok [OF assms(1,3), of 4] by auto
  have "swap_for AG_Swap32 ds' (from_bytes (num_bytes (byte_order ds) 4 AG_Swap32 u)) = u"
    using reads_setup [OF d(2)] by (intro from_num_bytes) simp_all
  then show ?thesis using assms(2,4) d by (simp add: bad_type_def AG_CheckTypeCode_def)
qed

lemma bad_type_end:
  assumes "src_ok ds" and "ds_debug ds" and "length (to_read ds) < 4" and "\<not> is_file ds"
  shows "\<exists>ds'. bad_type t ds = Some (True, ds') \<and> reads ds (to_read ds) ds'"
  using AG_Read_short [OF assms(1,3) _ assms(4)] assms(2) by (auto simp: bad_type_def AG_CheckTypeCode_def)

lemma write_num_ok:
  assumes "at_end ds" and "int (length (cs_data ds)) + 4 + int n < 2 ^ 63"
  shows "\<exists>ds'. write_num t n sw w ds = Some ds' \<and> appends ds (type_bytes ds t @ num_bytes (byte_order ds) n sw w) ds'"
proof -
  obtain d1 where d1: "debug_type t ds = Some d1" "appends ds (type_bytes ds t) d1" using debug_type_ok [OF assms(1)] assms(2) by fastforce
  have "length (type_bytes ds t) \<le> 4" by (simp add: type_bytes_def)
  then obtain d2 where "AG_Write (num_bytes (byte_order ds) n sw w) d1 = Some (0, d2)" "appends d1 (num_bytes (byte_order ds) n sw w) d2"
    using AG_Write_ok [OF appends_at_end [OF assms(1) d1(2)], of "num_bytes (byte_order ds) n sw w"] assms(2) d1(2)
    by (auto simp: appends_def)
  then show ?thesis using d1 appends_trans [OF d1(2)]
    by (auto simp: write_num_def Let_def swap_for_bytes or_error_def)
qed

lemma readv_num_ok:
  assumes "src_ok ds" and "to_read ds = type_bytes ds t @ num_bytes (byte_order ds) n sw w @ rest"
    and "LENGTH('a) = 8 * n" and "\<And>x. sw (sw x) = (x :: 'a :: len word)"
  shows "\<exists>ds'. readv_num t n sw ds = Some (0, Some w, ds') \<and> reads ds rest ds'"
proof -
  obtain d1 where d1: "bad_type t ds = Some (False, d1)" "reads ds (num_bytes (byte_order ds) n sw w @ rest) d1"
    using bad_type_ok [OF assms(1,2)] by auto
  then obtain d2 where d2: "AG_Read n d1 = Some (0, num_bytes (byte_order ds) n sw w, d2)" "reads d1 rest d2"
    using AG_Read_ok [of d1 "num_bytes (byte_order ds) n sw w" rest n] by (auto simp: reads_def)
  have "swap_for sw d2 (from_bytes (num_bytes (byte_order ds) n sw w)) = w"
    using reads_setup [OF d1(2)] reads_setup [OF d2(2)] assms(3,4) by (intro from_num_bytes) simp_all
  then show ?thesis using d1 d2 reads_trans [OF d1(2) d2(2)] by (auto simp: readv_num_def)
qed

lemma readv_num_bad:
  assumes "bad_type t ds = Some (True, ds')"
  shows "readv_num t n sw ds = Some (-1, None, ds')" and "read_num t n sw ds = Some (0, ds')"
  using assms by (simp_all add: readv_num_def read_num_def)

section \<open>Strings\<close>

lemma raw_write_seq:
  assumes "appends ds bs d1" and "at_end ds" and "int (length (cs_data ds)) + int (length bs) + int (length cs) < 2 ^ 63"
  shows "\<exists>d2. raw_write cs d1 = Some (True, d2) \<and> wrLast d2 = length cs \<and> appends ds (bs @ cs) d2"
proof -
  have "int (length (cs_data d1)) + int (length cs) < 2 ^ 63" using assms(1,3) by (simp add: appends_def)
  from raw_write_ok [OF appends_at_end [OF assms(2,1)] this] show ?thesis using appends_trans [OF assms(1)] by blast
qed

definition string_bytes :: "ag_byte_order \<Rightarrow> string \<Rightarrow> byte list" where
  "string_bytes ord s = num_bytes ord 4 AG_Swap32 (u32 (length s)) @ str_bytes s"

definition padded_bytes :: "ag_byte_order \<Rightarrow> string \<Rightarrow> nat \<Rightarrow> byte list" where
  "padded_bytes ord s n = num_bytes ord 4 AG_Swap32 (u32 (length s)) @ num_bytes ord 4 AG_Swap32 (u32 n) @
     str_bytes s @ replicate (n - length s) 0"

lemma str_bytes_Nil [simp]: "str_bytes [] = []" by (simp add: str_bytes_def)

lemma zero_bytes: "AG_Swap32 0 = 0" by (simp add: AG_Swap32_def)

lemma AG_WriteString_ok:
  assumes "at_end ds" and "int (length (cs_data ds)) + 8 + int (length s) < 2 ^ 63"
  shows "\<exists>ds'. AG_WriteString (Some s) ds = Some ds' \<and>
    appends ds (type_bytes ds AG_SOURCE_STRING @ string_bytes (byte_order ds) s) ds'"
proof -
  let ?t = "type_bytes ds AG_SOURCE_STRING" and ?h = "num_bytes (byte_order ds) 4 AG_Swap32 (u32 (length s))"
  have t4: "length ?t \<le> 4" by (simp add: type_bytes_def)
  have h: "to_bytes 4 (if s = [] then 0 else swap_for AG_Swap32 ds (u32 (length s))) = ?h"
    by (simp add: swap_for_bytes) (simp add: num_bytes_def u32_def zero_bytes)
  obtain d1 where d1: "debug_type AG_SOURCE_STRING ds = Some d1" "appends ds ?t d1" using debug_type_ok [OF assms(1)] assms(2) by fastforce
  obtain d2 where d2: "raw_write ?h d1 = Some (True, d2)" "appends ds (?t @ ?h) d2"
    using raw_write_seq [OF d1(2) assms(1), of ?h] assms(2) t4 by auto
  show ?thesis
  proof (cases "s = []")
    case True
    with d1 d2 h show ?thesis by (auto simp: AG_WriteString_def Let_def string_bytes_def)
  next
    case False
    obtain d3 where "raw_write (str_bytes s) d2 = Some (True, d3)" "appends ds ((?t @ ?h) @ str_bytes s) d3"
      using raw_write_seq [OF d2(2) assms(1), of "str_bytes s"] assms(2) t4 by auto
    with False d1 d2 h show ?thesis by (auto simp: AG_WriteString_def Let_def string_bytes_def)
  qed
qed

lemma write_padding_ok:
  assumes "at_end ds" and "appends ds bs d" and "int (length (cs_data ds)) + int (length bs) + int n < 2 ^ 63"
  shows "\<exists>d'. write_padding n d = Some (True, d') \<and> appends ds (bs @ replicate n 0) d'"
  using assms(2,3)
proof (induction n arbitrary: bs d rule: less_induct)
  case (less n)
  show ?case
  proof (cases "n = 0")
    case True
    then show ?thesis using less.prems(1) by (subst write_padding.simps) simp
  next
    case False
    let ?k = "min n 1024"
    have kn: "?k \<le> n" "0 < ?k" using False by auto
    obtain d2 where d2: "raw_write (replicate ?k 0) d = Some (True, d2)" "wrLast d2 = ?k" "appends ds (bs @ replicate ?k 0) d2"
    proof -
      have "int (length (cs_data ds)) + int (length bs) + int (length (replicate ?k (0 :: byte))) < 2 ^ 63"
        using less.prems(2) kn(1) by simp
      from raw_write_seq [OF less.prems(1) assms(1) this] that show ?thesis by auto
    qed
    have u: "usz (int n - int ?k) = n - ?k" using kn less.prems(2) by (subst usz_small) auto
    have "n - ?k < n" using kn by simp
    moreover have "int (length (cs_data ds)) + int (length (bs @ replicate ?k 0)) + int (n - ?k) < 2 ^ 63"
      using less.prems(2) kn by simp
    ultimately obtain d3 where "write_padding (n - ?k) d2 = Some (True, d3)" "appends ds ((bs @ replicate ?k 0) @ replicate (n - ?k) 0) d3"
      using less.IH [OF _ d2(3)] by blast
    moreover have "(bs @ replicate ?k 0) @ replicate (n - ?k) 0 = bs @ replicate n 0"
      using kn(1) by (simp add: replicate_add [symmetric])
    ultimately show ?thesis using False d2 u by (subst write_padding.simps) simp
  qed
qed

lemma AG_WriteStringPadded_ok:
  assumes "at_end ds" and "length s \<le> n" and "int (length (cs_data ds)) + 12 + int n < 2 ^ 63"
  shows "\<exists>ds'. AG_WriteStringPadded (Some s) n ds = Some ds' \<and>
    appends ds (type_bytes ds AG_SOURCE_STRING_PAD @ padded_bytes (byte_order ds) s n) ds'"
proof -
  let ?t = "type_bytes ds AG_SOURCE_STRING_PAD"
  let ?h = "num_bytes (byte_order ds) 4 AG_Swap32 (u32 (length s)) @ num_bytes (byte_order ds) 4 AG_Swap32 (u32 n)"
  have t4: "length ?t \<le> 4" by (simp add: type_bytes_def)
  obtain d1 where d1: "debug_type AG_SOURCE_STRING_PAD ds = Some d1" "appends ds ?t d1" using debug_type_ok [OF assms(1)] assms(3) by fastforce
  obtain d2 where d2: "raw_write ?h d1 = Some (True, d2)" "appends ds (?t @ ?h) d2"
    using raw_write_seq [OF d1(2) assms(1), of ?h] assms(2,3) t4 by auto
  obtain d3 where d3: "(if length s > 0 then raw_write (str_bytes s) d2 else Some (True, d2)) = Some (True, d3)"
    "appends ds ((?t @ ?h) @ str_bytes s) d3"
  proof (cases "s = []")
    case True
    then show ?thesis using that [of d2] d2 by simp
  next
    case False
    then show ?thesis using raw_write_seq [OF d2(2) assms(1), of "str_bytes s"] assms(2,3) t4 that by auto
  qed
  obtain d4 where "write_padding (n - length s) d3 = Some (True, d4)"
    "appends ds (((?t @ ?h) @ str_bytes s) @ replicate (n - length s) 0) d4"
    using write_padding_ok [OF assms(1) d3(2), of "n - length s"] assms(2,3) t4 by auto
  then show ?thesis using d1 d2 d3 assms(2)
    by (auto simp: AG_WriteStringPadded_def Let_def swap_for_bytes padded_bytes_def)
qed

lemma unat_u32: "n < 2 ^ 32 \<Longrightarrow> unat (u32 n) = n" by (simp add: u32_def unat_of_nat)

lemma str_bytes_split: "str_bytes s = str_bytes (take k s) @ str_bytes (drop k s)"
  by (simp add: str_bytes_def map_append [symmetric])

lemma copy_body_ok:
  assumes "src_ok ds" and "to_read ds = str_bytes s @ rest" and "length s < length dst"
  shows "\<exists>ds'. copy_body dst (length s) ds = Some (True, s @ NUL # drop (Suc (length s)) dst, ds') \<and> reads ds rest ds'"
proof (cases "s = []")
  case True
  with assms(3) have "wr dst 0 NUL = Some (NUL # drop 1 dst)" by (cases dst) (simp_all add: wr_def)
  with True assms(1,2) show ?thesis by (simp add: copy_body_def reads_def)
next
  case False
  obtain d1 where d1: "raw_read (length s) ds = Some (True, str_bytes s, d1)" "rdLast d1 = length s" "reads ds rest d1"
    using raw_read_ok [OF assms(1,2)] by auto
  have "put_buf s dst = Some (s @ drop (length s) dst)" using assms(3) by (simp add: put_buf_def)
  moreover have "drop (length s) dst = dst ! length s # drop (Suc (length s)) dst" using assms(3) by (simp add: Cons_nth_drop_Suc)
  ultimately show ?thesis using False d1
    by (auto simp: copy_body_def Let_def wr_append reads_def same_setup_def)
qed

lemma AG_CopyString_ok:
  assumes "src_ok ds" and "to_read ds = type_bytes ds AG_SOURCE_STRING @ string_bytes (byte_order ds) s @ rest"
    and "length s < 2 ^ 32" and "0 < n" and "n \<le> 2 ^ 32" and "n \<le> length dst"
  shows "\<exists>ds'. AG_CopyString dst n ds = Some (if length s < n then length s else length s + 1,
      take (n - 1) s @ NUL # drop (Suc (length (take (n - 1) s))) dst, ds') \<and>
    reads ds (str_bytes (drop (n - 1) s) @ rest) ds'"
proof -
  let ?h = "num_bytes (byte_order ds) 4 AG_Swap32 (u32 (length s))" and ?k = "length (take (n - 1) s)"
  obtain d1 where d1: "bad_type AG_SOURCE_STRING ds = Some (False, d1)" "reads ds (?h @ str_bytes s @ rest) d1"
    using bad_type_ok [OF assms(1,2)] by (auto simp: string_bytes_def)
  then obtain d2 where d2: "raw_read 4 d1 = Some (True, ?h, d2)" "rdLast d2 = 4" "reads d1 (str_bytes s @ rest) d2"
    using raw_read_ok [of d1 ?h "str_bytes s @ rest" 4] by (auto simp: reads_def)
  let ?d2 = "d2\<lparr>rdTotal := rdTotal d2 + rdLast d2\<rparr>"
  have r2: "reads ds (str_bytes s @ rest) ?d2" using reads_trans [OF d1(2) d2(3)] by (simp add: reads_def same_setup_def)
  have len: "swap_for AG_Swap32 ?d2 (from_bytes ?h) = u32 (length s)"
    using reads_setup [OF r2] by (intro from_num_bytes) simp_all
  have usz: "usz (int n - 1) = n - 1" using assms(4,5) by (subst usz_small) auto
  have u: "unat (u32 (length s)) = length s" "unat (u32 (n - 1)) = n - 1" using assms(3-5) by (auto intro: unat_u32)
  have cut: "u32 (n - 1) < u32 (length s) \<longleftrightarrow> \<not> length s < n" using u assms(4) by (auto simp: word_less_nat_alt)
  have "str_bytes s @ rest = str_bytes (take (n - 1) s) @ str_bytes (drop (n - 1) s) @ rest" using str_bytes_split [of s "n - 1"] by simp
  then obtain d3 where d3: "copy_body dst ?k ?d2 = Some (True, take (n - 1) s @ NUL # drop (Suc ?k) dst, d3)"
    "reads ?d2 (str_bytes (drop (n - 1) s) @ rest) d3"
  proof -
    have "src_ok ?d2" and "to_read ?d2 = str_bytes (take (n - 1) s) @ str_bytes (drop (n - 1) s) @ rest"
      using r2 \<open>str_bytes s @ rest = _\<close> by (simp_all add: reads_def del: sized_counts)
    moreover have "?k < length dst" using assms(4,6) by simp
    ultimately show ?thesis using copy_body_ok [of ?d2 "take (n - 1) s" "str_bytes (drop (n - 1) s) @ rest" dst] that by blast
  qed
  have "AG_CopyString dst n ds = Some (if length s < n then length s else length s + 1, take (n - 1) s @ NUL # drop (Suc ?k) dst, d3)"
  proof (cases "length s < n")
    case True
    then have "?k = length s" by simp
    with True d3(1) show ?thesis unfolding AG_CopyString_def d1(1) using d2(1,2) len usz cut u
      by (simp add: Let_def)
  next
    case False
    then have "?k = n - 1" by simp
    with False d3(1) show ?thesis unfolding AG_CopyString_def d1(1) using d2(1,2) len usz cut u
      by (simp add: Let_def)
  qed
  then show ?thesis using reads_trans [OF r2 d3(2)] by blast
qed

lemma skip_ok:
  assumes "src_ok ds" and "to_read ds = pad @ rest" and "rest \<noteq> [] \<or> is_file ds"
  shows "\<exists>ds'. AG_Seek (int (length pad)) AG_SEEK_CUR ds = (0, ds') \<and> reads ds rest ds'"
proof -
  have sz: "sized ds" using assms(1) by (simp add: src_ok_def)
  note s = to_read_split [OF sz assms(2)]
  let ?ds = "ds\<lparr>cs_offs := cs_offs ds + int (length pad)\<rparr>"
  have o: "0 \<le> cs_offs ds" using sz by (simp add: sized_def)
  have "nat (cs_offs ds + int (length pad)) < cs_size ds" if "rest \<noteq> []"
  proof -
    have "length rest > 0" using that by simp
    then show ?thesis using s(1,2) sz unfolding sized_def by linarith
  qed
  then have "AG_Seek (int (length pad)) AG_SEEK_CUR ds = (0, ?ds)"
    using assms(3) o by (auto simp: AG_Seek_def ds_seek_def CoreSeek_def FileSeek_def Let_def)
  then show ?thesis using advance_reads [OF assms(1,2)] by simp
qed

lemma skip_to_end:
  assumes "src_ok ds" and "to_read ds = pad" and "\<not> is_file ds"
  shows "AG_Seek (int (length pad)) AG_SEEK_CUR ds = (-1, ds)"
proof -
  have sz: "sized ds" using assms(1) by (simp add: src_ok_def)
  note s = to_read_split [of ds pad "[]"]
  have "nat (cs_offs ds) + length pad = length (cs_data ds)" "int (nat (cs_offs ds)) = cs_offs ds" using s(1,2) sz assms(2) by simp_all
  then have "cs_size ds \<le> nat (cs_offs ds + int (length pad))" using sz unfolding sized_def by linarith
  then show ?thesis using assms(3) by (simp add: AG_Seek_def ds_seek_def CoreSeek_def Let_def)
qed

lemma off_of_small: "n < 2 ^ 63 \<Longrightarrow> off_of n = int n"
  by (simp add: off_of_def signed_of_nat signed_take_bit_int_eq_self)

text \<open>A padded record, read back into a buffer of its length; \<open>tail\<close> is what follows it.\<close>

lemma CopyStringPadded_body:
  assumes "src_ok ds" and "to_read ds = type_bytes ds AG_SOURCE_STRING_PAD @ padded_bytes (byte_order ds) s n @ rest"
    and "length s < n" and "n \<le> 2 ^ 31" and "n \<le> length dst"
  shows "\<exists>d. reads ds (replicate (n - length s) 0 @ rest) d \<and>
    AG_CopyStringPadded dst n ds =
      (let (rv, ds) = AG_Seek (int (n - length s)) AG_SEEK_CUR d; dst = s @ NUL # drop (Suc (length s)) dst
       in if rv = -1 then copy_fail dst ds else Some (length s, dst, ds))"
proof -
  let ?h1 = "num_bytes (byte_order ds) 4 AG_Swap32 (u32 (length s))" and ?h2 = "num_bytes (byte_order ds) 4 AG_Swap32 (u32 n)"
  let ?r = "str_bytes s @ replicate (n - length s) 0 @ rest"
  obtain d1 where d1: "bad_type AG_SOURCE_STRING_PAD ds = Some (False, d1)" "reads ds (?h1 @ ?h2 @ ?r) d1"
    using bad_type_ok [OF assms(1,2)] by (auto simp: padded_bytes_def)
  then obtain d2 where d2: "raw_read 8 d1 = Some (True, ?h1 @ ?h2, d2)" "rdLast d2 = 8" "reads d1 ?r d2"
    using raw_read_ok [of d1 "?h1 @ ?h2" ?r 8] by (auto simp: reads_def)
  let ?d2 = "d2\<lparr>rdTotal := rdTotal d2 + rdLast d2\<rparr>"
  have r2: "reads ds ?r ?d2" using reads_trans [OF d1(2) d2(3)] by (simp add: reads_def same_setup_def)
  have len: "swap_for AG_Swap32 ?d2 (from_bytes ?h1) = u32 (length s)" "swap_for AG_Swap32 ?d2 (from_bytes ?h2) = u32 n"
    using reads_setup [OF r2] by (intro from_num_bytes; simp)+
  have usz: "usz (int n - 1) = n - 1" using assms(3,4) by (subst usz_small) auto
  have u: "unat (u32 (length s)) = length s" "unat (u32 (n - 1)) = n - 1" "unat (u32 n) = n" using assms(3,4) by (auto intro!: unat_u32)
  have p: "usz (int n - int (length s)) = n - length s" using assms(3,4) by (subst usz_small) auto
  have off: "off_of (n - length s) = int (n - length s)" using assms(4) by (intro off_of_small) simp
  obtain d3 where d3: "copy_body dst (length s) ?d2 = Some (True, s @ NUL # drop (Suc (length s)) dst, d3)"
    "reads ?d2 (replicate (n - length s) 0 @ rest) d3"
    using copy_body_ok [of ?d2 s "replicate (n - length s) 0 @ rest" dst] r2 assms(3,5) by (auto simp: reads_def)
  have cut: "\<not> n - Suc 0 < length s" using assms(3) by simp
  have "AG_CopyStringPadded dst n ds =
      (let (rv, ds) = AG_Seek (int (n - length s)) AG_SEEK_CUR d3; dst = s @ NUL # drop (Suc (length s)) dst
       in if rv = -1 then copy_fail dst ds else Some (length s, dst, ds))"
    unfolding AG_CopyStringPadded_def d1(1) using d2(1,2) len usz u d3(1) assms(3) p off cut
    by (simp add: Let_def del: of_nat_diff)
  with reads_trans [OF r2 d3(2)] show ?thesis by blast
qed

lemma AG_CopyStringPadded_ok:
  assumes "src_ok ds" and "to_read ds = type_bytes ds AG_SOURCE_STRING_PAD @ padded_bytes (byte_order ds) s n @ rest"
    and "length s < n" and "n \<le> 2 ^ 31" and "n \<le> length dst" and "rest \<noteq> [] \<or> is_file ds"
  shows "\<exists>ds'. AG_CopyStringPadded dst n ds = Some (length s, s @ NUL # drop (Suc (length s)) dst, ds') \<and> reads ds rest ds'"
proof -
  obtain d where d: "reads ds (replicate (n - length s) 0 @ rest) d" "AG_CopyStringPadded dst n ds =
      (let (rv, ds) = AG_Seek (int (n - length s)) AG_SEEK_CUR d; dst = s @ NUL # drop (Suc (length s)) dst
       in if rv = -1 then copy_fail dst ds else Some (length s, dst, ds))"
    using CopyStringPadded_body [OF assms(1-5)] by blast
  obtain d' where "AG_Seek (int (n - length s)) AG_SEEK_CUR d = (0, d')" "reads d rest d'"
    using skip_ok [of d "replicate (n - length s) 0" rest] d(1) assms(6) by (auto simp: reads_def same_setup_def is_file_def)
  then show ?thesis using d reads_trans [OF d(1)] by (auto simp: Let_def)
qed

text \<open>At the end of the data the skip over the padding fails, and with it the whole read.\<close>

lemma AG_CopyStringPadded_last:
  assumes "src_ok ds" and "to_read ds = type_bytes ds AG_SOURCE_STRING_PAD @ padded_bytes (byte_order ds) s n"
    and "length s < n" and "n \<le> 2 ^ 31" and "n \<le> length dst" and "\<not> ds_fatal ds" and "\<not> is_file ds"
  shows "\<exists>dst' ds'. AG_CopyStringPadded dst n ds = Some (0, NUL # dst', ds') \<and> ds_errors ds' = ds_errors ds + 1"
proof -
  obtain d where d: "reads ds (replicate (n - length s) 0) d" "AG_CopyStringPadded dst n ds =
      (let (rv, ds) = AG_Seek (int (n - length s)) AG_SEEK_CUR d; dst = s @ NUL # drop (Suc (length s)) dst
       in if rv = -1 then copy_fail dst ds else Some (length s, dst, ds))"
    using CopyStringPadded_body [of ds s n "[]" dst] assms(1-5) by auto
  have "AG_Seek (int (n - length s)) AG_SEEK_CUR d = (-1, d)"
    using skip_to_end [of d] d(1) assms(7) by (auto simp: reads_def same_setup_def is_file_def)
  then show ?thesis using d assms(6)
    by (cases s) (auto simp: Let_def copy_fail_def wr_def AG_DataSourceError_def reads_def same_setup_def)
qed

section \<open>Records\<close>

text \<open>
  A record is a sequence of typed fields; \<open>Ty_String n\<close> is read into a buffer of \<open>n\<close> bytes and
  \<open>Ty_Padded n\<close> is a string in a field of \<open>n\<close> bytes.
\<close>

datatype field_type = Ty_Uint8 | Ty_Uint16 | Ty_Uint32 | Ty_Uint64 | Ty_Float | Ty_Double | Ty_String nat | Ty_Padded nat

datatype field = F_Uint8 "8 word" | F_Uint16 "16 word" | F_Uint32 "32 word" | F_Uint64 "64 word"
  | F_Float "32 word" | F_Double "64 word" | F_String string | F_Padded string

fun has_type :: "field \<Rightarrow> field_type \<Rightarrow> bool" where
  "has_type (F_Uint8 _) Ty_Uint8 = True"
| "has_type (F_Uint16 _) Ty_Uint16 = True"
| "has_type (F_Uint32 _) Ty_Uint32 = True"
| "has_type (F_Uint64 _) Ty_Uint64 = True"
| "has_type (F_Float _) Ty_Float = True"
| "has_type (F_Double _) Ty_Double = True"
| "has_type (F_String s) (Ty_String n) = (nonul s \<and> length s < n \<and> n \<le> 2 ^ 31)"
| "has_type (F_Padded s) (Ty_Padded n) = (nonul s \<and> length s < n \<and> n \<le> 2 ^ 31)"
| "has_type _ _ = False"

fun put_field :: "field_type \<Rightarrow> field \<Rightarrow> AG_DataSource \<Rightarrow> AG_DataSource option" where
  "put_field _ (F_Uint8 w) ds = AG_WriteUint8 w ds"
| "put_field _ (F_Uint16 w) ds = AG_WriteUint16 w ds"
| "put_field _ (F_Uint32 w) ds = AG_WriteUint32 w ds"
| "put_field _ (F_Uint64 w) ds = AG_WriteUint64 w ds"
| "put_field _ (F_Float w) ds = AG_WriteFloat w ds"
| "put_field _ (F_Double w) ds = AG_WriteDouble w ds"
| "put_field _ (F_String s) ds = AG_WriteString (Some s) ds"
| "put_field (Ty_Padded n) (F_Padded s) ds = AG_WriteStringPadded (Some s) n ds"
| "put_field _ (F_Padded s) ds = AG_WriteStringPadded (Some s) (length s) ds"

text \<open>A read of a field gives \<^const>\<open>None\<close> where the routine reports an error.\<close>

definition got :: "('a \<Rightarrow> field) \<Rightarrow> int \<times> 'a option \<times> AG_DataSource \<Rightarrow> field option \<times> AG_DataSource" where
  "got f r = (case r of (rv, v, ds) \<Rightarrow> (if rv = 0 then map_option f v else None, ds))"

definition got_string :: "(string \<Rightarrow> field) \<Rightarrow> AG_DataSource \<Rightarrow> nat \<times> char list \<times> AG_DataSource \<Rightarrow> field option \<times> AG_DataSource" where
  "got_string f ds r = (case r of (n, dst, ds') \<Rightarrow> (if ds_errors ds' = ds_errors ds then Some (f (cstr dst)) else None, ds'))"

fun get_field :: "field_type \<Rightarrow> AG_DataSource \<Rightarrow> (field option \<times> AG_DataSource) option" where
  "get_field Ty_Uint8 ds = map_option (got F_Uint8) (AG_ReadUint8v ds)"
| "get_field Ty_Uint16 ds = map_option (got F_Uint16) (AG_ReadUint16v ds)"
| "get_field Ty_Uint32 ds = map_option (got F_Uint32) (AG_ReadUint32v ds)"
| "get_field Ty_Uint64 ds = map_option (got F_Uint64) (AG_ReadUint64v ds)"
| "get_field Ty_Float ds = map_option (got F_Float) (AG_ReadFloatv ds)"
| "get_field Ty_Double ds = map_option (got F_Double) (AG_ReadDoublev ds)"
| "get_field (Ty_String n) ds = map_option (got_string F_String ds) (AG_CopyString (replicate n NUL) n ds)"
| "get_field (Ty_Padded n) ds = map_option (got_string F_Padded ds) (AG_CopyStringPadded (replicate n NUL) n ds)"

fun put_fields :: "field_type list \<Rightarrow> field list \<Rightarrow> AG_DataSource \<Rightarrow> AG_DataSource option" where
  "put_fields (t # ts) (f # fs) ds = do { ds \<leftarrow> put_field t f ds; put_fields ts fs ds }"
| "put_fields _ _ ds = Some ds"

text \<open>The fields until the first error, and whether there was one.\<close>

fun get_fields :: "field_type list \<Rightarrow> AG_DataSource \<Rightarrow> (field list \<times> bool \<times> AG_DataSource) option" where
  "get_fields [] ds = Some ([], False, ds)"
| "get_fields (t # ts) ds = do {
     (f, ds) \<leftarrow> get_field t ds;
     (case f of
        None \<Rightarrow> Some ([], True, ds)
      | Some f \<Rightarrow> do { (fs, err, ds) \<leftarrow> get_fields ts ds; Some (f # fs, err, ds) })
   }"

section \<open>What is in the stream\<close>

fun type_code :: "field_type \<Rightarrow> 32 word" where
  "type_code Ty_Uint8 = AG_SOURCE_UINT8"
| "type_code Ty_Uint16 = AG_SOURCE_UINT16"
| "type_code Ty_Uint32 = AG_SOURCE_UINT32"
| "type_code Ty_Uint64 = AG_SOURCE_UINT64"
| "type_code Ty_Float = AG_SOURCE_FLOAT"
| "type_code Ty_Double = AG_SOURCE_DOUBLE"
| "type_code (Ty_String _) = AG_SOURCE_STRING"
| "type_code (Ty_Padded _) = AG_SOURCE_STRING_PAD"

fun field_bytes :: "ag_byte_order \<Rightarrow> field_type \<Rightarrow> field \<Rightarrow> byte list" where
  "field_bytes ord _ (F_Uint8 w) = num_bytes ord 1 id w"
| "field_bytes ord _ (F_Uint16 w) = num_bytes ord 2 AG_Swap16 w"
| "field_bytes ord _ (F_Uint32 w) = num_bytes ord 4 AG_Swap32 w"
| "field_bytes ord _ (F_Uint64 w) = num_bytes ord 8 AG_Swap64 w"
| "field_bytes ord _ (F_Float w) = num_bytes ord 4 AG_Swap32 w"
| "field_bytes ord _ (F_Double w) = num_bytes ord 8 AG_Swap64 w"
| "field_bytes ord _ (F_String s) = string_bytes ord s"
| "field_bytes ord (Ty_Padded n) (F_Padded s) = padded_bytes ord s n"
| "field_bytes ord _ (F_Padded s) = []"

definition stored :: "AG_DataSource \<Rightarrow> field_type \<Rightarrow> field \<Rightarrow> byte list" where
  "stored ds t f = type_bytes ds (type_code t) @ field_bytes (byte_order ds) t f"

fun record_bytes :: "AG_DataSource \<Rightarrow> field_type list \<Rightarrow> field list \<Rightarrow> byte list" where
  "record_bytes ds (t # ts) (f # fs) = stored ds t f @ record_bytes ds ts fs"
| "record_bytes ds _ _ = []"

lemma stored_setup: "same_setup ds ds' \<Longrightarrow> stored ds' t f = stored ds t f"
  by (simp add: stored_def type_bytes_setup) (simp add: same_setup_def)

lemma record_bytes_setup: "same_setup ds ds' \<Longrightarrow> record_bytes ds' ts fs = record_bytes ds ts fs"
  by (induction ds ts fs rule: record_bytes.induct) (simp_all add: stored_setup)

lemmas source_types = AG_SOURCE_UINT8_def AG_SOURCE_UINT16_def AG_SOURCE_UINT32_def AG_SOURCE_UINT64_def
  AG_SOURCE_FLOAT_def AG_SOURCE_DOUBLE_def AG_SOURCE_STRING_def AG_SOURCE_STRING_PAD_def

lemmas number_routines =
  AG_WriteUint8_def AG_WriteUint16_def AG_WriteUint32_def AG_WriteUint64_def AG_WriteFloat_def AG_WriteDouble_def
  AG_ReadUint8v_def AG_ReadUint16v_def AG_ReadUint32v_def AG_ReadUint64v_def AG_ReadFloatv_def AG_ReadDoublev_def

lemma put_field_ok:
  assumes "has_type f t" and "at_end ds" and "int (length (cs_data ds)) + 16 + 2 ^ 31 < 2 ^ 63"
  shows "\<exists>ds'. put_field t f ds = Some ds' \<and> appends ds (stored ds t f) ds'"
  using assms
  by (cases f; cases t) (auto simp: number_routines stored_def intro!: write_num_ok AG_WriteString_ok AG_WriteStringPadded_ok)

lemma get_number:
  assumes "src_ok ds" and "to_read ds = (type_bytes ds c @ num_bytes (byte_order ds) n sw w) @ rest"
    and "LENGTH('a) = 8 * n" and "\<And>x. sw (sw x) = (x :: 'a :: len word)"
  shows "\<exists>ds'. map_option (got F) (readv_num c n sw ds) = Some (Some (F w), ds') \<and> reads ds rest ds'"
proof -
  obtain ds' where "readv_num c n sw ds = Some (0, Some w, ds')" "reads ds rest ds'"
    using readv_num_ok [where n = n and w = w and sw = sw, OF assms(1) _ assms(3,4)] assms(2) by auto
  then show ?thesis by (simp add: got_def)
qed

lemma get_field_ok:
  assumes "has_type f t" and "src_ok ds" and "to_read ds = stored ds t f @ rest" and "(\<exists>n. t = Ty_Padded n) \<longrightarrow> rest \<noteq> [] \<or> is_file ds"
  shows "\<exists>ds'. get_field t ds = Some (Some f, ds') \<and> reads ds rest ds'"
proof -
  have str: "\<exists>ds'. map_option (got_string F_String ds) (AG_CopyString (replicate n NUL) n ds) = Some (Some (F_String s), ds') \<and> reads ds rest ds'"
    if h: "nonul s" "length s < n" "n \<le> 2 ^ 31" "to_read ds = type_bytes ds AG_SOURCE_STRING @ string_bytes (byte_order ds) s @ rest" for s n
  proof -
    have "length s < 2 ^ 32" "0 < n" "n \<le> 2 ^ 32" using h by simp_all
    from AG_CopyString_ok [OF assms(2) h(4) this, of "replicate n NUL"]
    obtain ds' where "AG_CopyString (replicate n NUL) n ds = Some (length s, s @ NUL # drop (Suc (length s)) (replicate n NUL), ds')"
      "reads ds rest ds'" using h(2) by auto
    then show ?thesis using h(1) by (simp add: got_string_def reads_def same_setup_def)
  qed
  have pad: "\<exists>ds'. map_option (got_string F_Padded ds) (AG_CopyStringPadded (replicate n NUL) n ds) = Some (Some (F_Padded s), ds') \<and> reads ds rest ds'"
    if h: "nonul s" "length s < n" "n \<le> 2 ^ 31" "rest \<noteq> [] \<or> is_file ds"
      "to_read ds = type_bytes ds AG_SOURCE_STRING_PAD @ padded_bytes (byte_order ds) s n @ rest" for s n
  proof -
    from AG_CopyStringPadded_ok [OF assms(2) h(5,2,3) _ h(4), of "replicate n NUL"]
    obtain ds' where "AG_CopyStringPadded (replicate n NUL) n ds = Some (length s, s @ NUL # drop (Suc (length s)) (replicate n NUL), ds')"
      "reads ds rest ds'" by auto
    then show ?thesis using h(1) by (simp add: got_string_def reads_def same_setup_def)
  qed
  show ?thesis using assms
    by (cases f; cases t) (auto simp: number_routines stored_def simp del: map_option_eq_Some intro!: get_number str pad)
qed

lemma put_fields_ok:
  assumes "list_all2 has_type fs ts" and "at_end ds"
    and "int (length (cs_data ds)) + int (length (record_bytes ds ts fs)) + 16 + 2 ^ 31 < 2 ^ 63"
  shows "\<exists>ds'. put_fields ts fs ds = Some ds' \<and> appends ds (record_bytes ds ts fs) ds'"
  using assms
proof (induction ts fs arbitrary: ds rule: list_induct2')
  case 1
  then show ?case by (simp add: appends_def at_end_def)
next
  case (4 t ts f fs)
  obtain d1 where d1: "put_field t f ds = Some d1" "appends ds (stored ds t f) d1"
    using put_field_ok [of f t ds] 4(2-4) by auto
  have "record_bytes d1 ts fs = record_bytes ds ts fs" using d1(2) record_bytes_setup by (auto simp: appends_def)
  moreover have "int (length (cs_data d1)) + int (length (record_bytes ds ts fs)) + 16 + 2 ^ 31 < 2 ^ 63"
    using 4(4) d1(2) by (simp add: appends_def)
  ultimately obtain d2 where "put_fields ts fs d1 = Some d2" "appends d1 (record_bytes ds ts fs) d2"
    using 4(1) [of d1] 4(2) appends_at_end [OF 4(3) d1(2)] by auto
  with d1 show ?case using appends_trans [OF d1(2)] by auto
qed auto

lemma type_bytes_nonempty: "has_type f t \<Longrightarrow> stored ds t f \<noteq> []"
  by (cases f; cases t) (auto simp: stored_def string_bytes_def padded_bytes_def dest: arg_cong [where f = length])

text \<open>The fields of a record followed by \<open>rest\<close>, the last of them no padded string unless something follows.\<close>

lemma get_fields_ok:
  assumes "list_all2 has_type fs ts" and "src_ok ds" and "to_read ds = record_bytes ds ts fs @ rest"
    and "rest = [] \<and> \<not> is_file ds \<longrightarrow> ts = [] \<or> (\<forall>n. last ts \<noteq> Ty_Padded n)"
  shows "\<exists>ds'. get_fields ts ds = Some (fs, False, ds') \<and> reads ds rest ds'"
  using assms
proof (induction ts fs arbitrary: ds rule: list_induct2')
  case 1
  then show ?case by (simp add: reads_def)
next
  case (4 t ts f fs)
  have ne: "record_bytes ds ts fs @ rest \<noteq> [] \<or> is_file ds" if "t = Ty_Padded n" for n
  proof (cases "ts = []")
    case True
    then show ?thesis using that 4(5) by simp
  next
    case False
    then obtain t' ts' f' fs' where "ts = t' # ts'" "fs = f' # fs'" "has_type f' t'" using 4(2) by (cases ts; cases fs) auto
    then show ?thesis using type_bytes_nonempty by simp
  qed
  obtain d1 where d1: "get_field t ds = Some (Some f, d1)" "reads ds (record_bytes ds ts fs @ rest) d1"
    using get_field_ok [of f t ds "record_bytes ds ts fs @ rest"] 4(2-4) ne by auto
  have "record_bytes d1 ts fs = record_bytes ds ts fs" using d1(2) record_bytes_setup by (auto simp: reads_def)
  then obtain d2 where "get_fields ts d1 = Some (fs, False, d2)" "reads d1 rest d2"
    using 4(1) [of d1] 4(2,5) d1(2) by (auto simp: reads_def same_setup_def is_file_def split: if_splits)
  with d1 show ?case using reads_trans [OF d1(2)] by auto
qed auto

section \<open>Round trips and type checks\<close>

text \<open>A new source that grows, with a byte order and with or without type codes; its handler returns.\<close>

definition new_source :: "byte \<Rightarrow> ag_byte_order \<Rightarrow> bool \<Rightarrow> AG_DataSource" where
  "new_source j ord dbg = AG_DataSourceSetErrorFn (AG_SetSourceDebug dbg (AG_SetByteOrder ord (AG_OpenAutoCore j)))"

lemmas new_source_simps = new_source_def AG_DataSourceSetErrorFn_def AG_SetSourceDebug_def AG_SetByteOrder_def
  AG_OpenAutoCore_def AG_DataSourceInit_def

lemma new_source_at_end: "at_end (new_source j ord dbg)" "cs_data (new_source j ord dbg) = []"
  "ds_debug (new_source j ord dbg) = dbg" "byte_order (new_source j ord dbg) = ord" "ds_fatal (new_source j ord dbg) = False"
  "ds_kind (new_source j ord dbg) \<noteq> K_FileW" "\<not> is_file (new_source j ord dbg)"
  by (simp_all add: new_source_simps at_end_def sized_def to_read_def is_file_def)

lemma seek_start:
  assumes "src_ok ds" and "cs_data ds = [] \<longrightarrow> cs_offs ds = 0"
  shows "reads ds (cs_data ds) (snd (AG_Seek 0 AG_SEEK_SET ds))"
proof (cases "cs_data ds = []")
  case True
  then show ?thesis using assms by (simp add: AG_Seek_def ds_seek_def CoreSeek_def FileSeek_def Let_def reads_def src_ok_def sized_def to_read_def same_setup_def)
next
  case False
  then show ?thesis using assms by (simp add: AG_Seek_def ds_seek_def CoreSeek_def FileSeek_def Let_def reads_def src_ok_def sized_def to_read_def same_setup_def)
qed

lemma rewind:
  assumes "appends ds bs ds'" and "cs_data ds = []" and "ds_kind ds \<noteq> K_FileW"
  shows "reads ds bs (snd (AG_Seek 0 AG_SEEK_SET ds'))"
proof -
  have "sized ds'" "cs_data ds' = bs" "same_setup ds ds'" using assms by (auto simp: appends_def)
  moreover from \<open>sized ds'\<close> have "cs_data ds' = [] \<longrightarrow> cs_offs ds' = 0" by (auto simp: sized_def)
  moreover have "src_ok ds'" using calculation(1,3) assms(3) by (simp add: src_ok_def same_setup_def)
  ultimately show ?thesis using seek_start [of ds'] by (auto simp: reads_def intro: same_setup_trans)
qed

lemma write_and_rewind:
  assumes "list_all2 has_type fs ts" and "length (record_bytes (new_source j ord dbg) ts fs) < 2 ^ 62"
  shows "\<exists>ds1. put_fields ts fs (new_source j ord dbg) = Some ds1 \<and> cs_data ds1 = record_bytes (new_source j ord dbg) ts fs \<and>
     reads (new_source j ord dbg) (record_bytes (new_source j ord dbg) ts fs) (snd (AG_Seek 0 AG_SEEK_SET ds1))"
proof -
  let ?d = "new_source j ord dbg"
  obtain ds1 where ds1: "put_fields ts fs ?d = Some ds1" "appends ?d (record_bytes ?d ts fs) ds1"
    using put_fields_ok [OF assms(1) new_source_at_end(1), of j ord dbg] assms(2) new_source_at_end(2) [of j ord dbg] by auto
  then show ?thesis using rewind [OF ds1(2) new_source_at_end(2,6)] new_source_at_end(2) [of j ord dbg] by (auto simp: appends_def)
qed

lemma get_field_bad:
  assumes "bad_type (type_code t) ds = Some (True, ds')" and "ds_errors ds' = ds_errors ds" and "\<not> ds_fatal ds'"
    and "t \<noteq> Ty_String 0" and "t \<noteq> Ty_Padded 0"
  shows "\<exists>ds''. get_field t ds = Some (None, ds'')"
  using assms
  by (cases t) (auto simp: number_routines readv_num_bad got_def got_string_def AG_CopyString_def AG_CopyStringPadded_def
      copy_fail_def wr_def AG_DataSourceError_def)

lemma get_fields_prefix:
  assumes "list_all2 has_type fs ts" and "src_ok ds" and "to_read ds = record_bytes ds ts fs" and "ds_debug ds" and "\<not> ds_fatal ds"
    and "k < length ts" and "k < length ts'" and "take k ts' = take k ts" and "type_code (ts' ! k) \<noteq> type_code (ts ! k)"
    and "ts' ! k \<noteq> Ty_String 0" and "ts' ! k \<noteq> Ty_Padded 0"
  shows "\<exists>ds'. get_fields ts' ds = Some (take k fs, True, ds')"
  using assms
proof (induction k arbitrary: fs ts ts' ds)
  case 0
  then obtain t tt f ff t' tt' where c: "ts = t # tt" "fs = f # ff" "ts' = t' # tt'" by (cases ts; cases fs; cases ts') auto
  have "to_read ds = num_bytes (byte_order ds) 4 AG_Swap32 (type_code t) @ field_bytes (byte_order ds) t f @ record_bytes ds tt ff"
    using 0(3,4) c by (simp add: stored_def type_bytes_def)
  from bad_type_other [OF 0(2,4) this, of "type_code t'"] c 0
  obtain ds' where d: "bad_type (type_code t') ds = Some (True, ds')" "reads ds (field_bytes (byte_order ds) t f @ record_bytes ds tt ff) ds'"
    by auto
  then have "ds_errors ds' = ds_errors ds" "\<not> ds_fatal ds'" using 0(5) by (auto simp: reads_def same_setup_def)
  from get_field_bad [OF d(1) this] c 0 show ?case by auto
next
  case (Suc k)
  then obtain t tt f ff tt' where c: "ts = t # tt" "fs = f # ff" "ts' = t # tt'" by (cases ts; cases fs; cases ts') auto
  from Suc.prems c have "tt \<noteq> []" "ff \<noteq> []" by auto
  then obtain a b g h where cc: "tt = a # b" "ff = g # h" by (cases tt; cases ff) auto
  with Suc.prems(1) c have "record_bytes ds tt ff \<noteq> []" using type_bytes_nonempty by simp
  then obtain d1 where d1: "get_field t ds = Some (Some f, d1)" "reads ds (record_bytes ds tt ff) d1"
    using get_field_ok [of f t ds "record_bytes ds tt ff"] Suc.prems(1-3) c by auto
  have "record_bytes d1 tt ff = record_bytes ds tt ff" using d1(2) record_bytes_setup by (auto simp: reads_def)
  then obtain ds' where "get_fields tt' d1 = Some (take k ff, True, ds')"
    using Suc.IH [of ff tt d1 tt'] Suc.prems c d1(2) by (auto simp: reads_def same_setup_def)
  with d1 c show ?case by simp
qed

text \<open>
  C7: A record of typed fields (integers, floating-point numbers, strings, padded strings) that the
  writers put into a new memory source reads back, from the start of the source, as the fields
  that were written, in either byte order and with or without type codes; only the last field
  must not be a padded string.
\<close>

theorem record_roundtrip:
  assumes "list_all2 has_type fs ts" and "ts = [] \<or> (\<forall>n. last ts \<noteq> Ty_Padded n)"
    and "length (record_bytes (new_source j ord dbg) ts fs) < 2 ^ 62"
  shows "\<exists>ds1 ds2. put_fields ts fs (new_source j ord dbg) = Some ds1 \<and>
     get_fields ts (snd (AG_Seek 0 AG_SEEK_SET ds1)) = Some (fs, False, ds2) \<and> to_read ds2 = []"
proof -
  let ?d = "new_source j ord dbg"
  obtain ds1 where w: "put_fields ts fs ?d = Some ds1" and r: "reads ?d (record_bytes ?d ts fs) (snd (AG_Seek 0 AG_SEEK_SET ds1))"
    using write_and_rewind [OF assms(1,3)] by blast
  let ?s = "snd (AG_Seek 0 AG_SEEK_SET ds1)"
  have "record_bytes ?s ts fs = record_bytes ?d ts fs" using r record_bytes_setup by (auto simp: reads_def)
  then obtain ds2 where "get_fields ts ?s = Some (fs, False, ds2)" "reads ?s [] ds2"
    using get_fields_ok [of fs ts ?s "[]"] assms(1,2) r by (auto simp: reads_def)
  with w show ?thesis by (auto simp: reads_def)
qed

theorem record_roundtrip_witness:
  "\<exists>ds1 ds2. put_fields [Ty_Uint16, Ty_Padded 6, Ty_Uint32] [F_Uint16 0x1234, F_Padded ''abc'', F_Uint32 7] (new_source 0 AG_BYTEORDER_BE True) = Some ds1 \<and>
     get_fields [Ty_Uint16, Ty_Padded 6, Ty_Uint32] (snd (AG_Seek 0 AG_SEEK_SET ds1)) =
       Some ([F_Uint16 0x1234, F_Padded ''abc'', F_Uint32 7], False, ds2) \<and> to_read ds2 = []"
  by (rule record_roundtrip) (simp_all add: nonul_def stored_def padded_bytes_def type_bytes_def new_source_at_end)



text \<open>A string that \<open>AG_WriteString\<close> wrote, as the routines that read the length as a number see it.\<close>

lemma AG_ReadStringLen_debug:
  assumes "src_ok ds" and "ds_debug ds" and "\<not> ds_fatal ds" and "length s < 2 ^ 30"
    and "to_read ds = type_bytes ds AG_SOURCE_STRING @ string_bytes (byte_order ds) s @ rest"
  shows "\<exists>ds'. AG_ReadStringLen maxlen ds = Some (None, ds') \<and> ds_errors ds' = ds_errors ds + 1"
proof -
  let ?h = "num_bytes (byte_order ds) 4 AG_Swap32 (u32 (length s))"
  obtain d1 where d1: "bad_type AG_SOURCE_STRING ds = Some (False, d1)" "reads ds (?h @ str_bytes s @ rest) d1"
    using bad_type_ok [OF assms(1,5)] by (auto simp: string_bytes_def)
  have "unat (u32 (length s)) < 2 ^ 30" using assms(4) by (simp add: unat_u32)
  then have "AG_SOURCE_UINT32 \<noteq> u32 (length s)" by (auto simp: AG_SOURCE_UINT32_def)
  then obtain d2 where d2: "bad_type AG_SOURCE_UINT32 d1 = Some (True, d2)" "reads d1 (str_bytes s @ rest) d2"
    using bad_type_other [of d1 "u32 (length s)" "str_bytes s @ rest" AG_SOURCE_UINT32] d1(2) assms(2)
    by (auto simp: reads_def same_setup_def)
  have "\<not> ds_fatal d2" "ds_errors d2 = ds_errors ds" using d1(2) d2(2) assms(3) by (auto simp: reads_def same_setup_def)
  then show ?thesis
    by (simp add: AG_ReadStringLen_def d1(1) AG_ReadUint32v_def readv_num_bad(1) [OF d2(1)] AG_DataSourceError_def)
qed

text \<open>
  With type codes switched on, no string that \<open>AG_WriteString\<close> writes can be read back with
  \<open>AG_ReadStringLen\<close>, whatever its length and the limit are: the writer puts the length
  without a type code, the reader wants one.  \<open>AG_CopyString\<close> reads the same bytes back.
\<close>

theorem AG_ReadStringLen_untyped:
  assumes "nonul s" and "length s < 2 ^ 30" and "length s < n" and "n \<le> 2 ^ 32"
  shows "\<exists>ds ds1 ds2. AG_WriteString (Some s) (new_source j ord True) = Some ds \<and>
    AG_ReadStringLen maxlen (snd (AG_Seek 0 AG_SEEK_SET ds)) = Some (None, ds1) \<and> ds_errors ds1 = 1 \<and>
    AG_CopyString (replicate n NUL) n (snd (AG_Seek 0 AG_SEEK_SET ds)) = Some (length s, s @ replicate (n - length s) NUL, ds2)"
proof -
  let ?d = "new_source j ord True"
  let ?b = "type_bytes ?d AG_SOURCE_STRING @ string_bytes ord s"
  obtain ds where ds: "AG_WriteString (Some s) ?d = Some ds" "appends ?d ?b ds"
    using AG_WriteString_ok [OF new_source_at_end(1), of j ord True s] new_source_at_end [of j ord True] assms(2) by auto
  let ?s = "snd (AG_Seek 0 AG_SEEK_SET ds)"
  have r: "reads ?d ?b ?s" using rewind [OF ds(2) new_source_at_end(2,6)] .
  then have t: "src_ok ?s" "to_read ?s = type_bytes ?s AG_SOURCE_STRING @ string_bytes (byte_order ?s) s @ []"
    "ds_debug ?s" "\<not> ds_fatal ?s" "ds_errors ?s = 0"
    using type_bytes_setup [of ?d ?s] new_source_at_end [of j ord True] by (auto simp: reads_def same_setup_def new_source_simps)
  obtain ds1 where "AG_ReadStringLen maxlen ?s = Some (None, ds1)" "ds_errors ds1 = 1"
    using AG_ReadStringLen_debug [OF t(1,3,4) assms(2) t(2)] t(5) by auto
  moreover obtain ds2 where "AG_CopyString (replicate n NUL) n ?s = Some (length s, s @ NUL # drop (Suc (length s)) (replicate n NUL), ds2)"
    using AG_CopyString_ok [OF t(1,2), of n "replicate n NUL"] assms(2-4) by auto
  moreover have "NUL # drop (Suc (length s)) (replicate n NUL) = replicate (n - length s) NUL"
    using assms(3) by (simp add: replicate_Suc [symmetric] Suc_diff_Suc del: replicate_Suc)
  ultimately show ?thesis using ds(1) by auto
qed

theorem AG_ReadStringLen_untyped_witness:
  "\<exists>ds ds1 ds2. AG_WriteString (Some ''abc'') (new_source 0 AG_BYTEORDER_BE True) = Some ds \<and>
    AG_ReadStringLen 32767 (snd (AG_Seek 0 AG_SEEK_SET ds)) = Some (None, ds1) \<and> ds_errors ds1 = 1 \<and>
    AG_CopyString (replicate 8 NUL) 8 (snd (AG_Seek 0 AG_SEEK_SET ds)) =
      Some (length ''abc'', ''abc'' @ replicate (8 - length ''abc'') NUL, ds2)"
  by (rule AG_ReadStringLen_untyped) (simp_all add: nonul_def)

section \<open>Overwriting\<close>

lemma mem_write_inside:
  assumes "0 \<le> pos" and "nat pos + length bs \<le> length d"
  shows "\<exists>d'. mem_write d pos bs = Some d' \<and> length d' = length d"
  using assms by (auto simp: mem_write_def)

text \<open>
  Writing inside a memory source that grows adds the length written to the size it believes,
  although its block does not grow: reading up to the end of the data afterwards accesses
  memory past the block.
\<close>

theorem CoreAutoWrite_overwrite:
  assumes "ds_kind ds = K_AutoCore" and "src_ok ds" and "bs \<noteq> []" and "length bs \<le> length (to_read ds)"
  shows "\<exists>ds'. AG_Write bs ds = Some (0, ds') \<and> length (cs_data ds') = length (cs_data ds) \<and>
    cs_size ds' = length (cs_data ds') + length bs \<and> AG_Read (cs_size ds' - nat (cs_offs ds')) ds' = None"
proof -
  have "to_read ds = take (length bs) (to_read ds) @ drop (length bs) (to_read ds)" by simp
  have sz: "sized ds" using assms(2) by (simp add: src_ok_def)
  note s = to_read_split(2,4) [OF sz \<open>to_read ds = _ @ _\<close>]
  have c: "cs_size ds = length (cs_data ds)" "0 \<le> cs_offs ds" using sz by (auto simp: sized_def)
  have m: "min (length (to_read ds)) (length bs) = length bs" using assms(4) by simp
  have o: "int (nat (cs_offs ds)) = cs_offs ds" using c(2) by simp
  have l: "nat (cs_offs ds) + length bs \<le> length (cs_data ds)" using s(1) m by simp
  have u: "usz (cs_offs ds + int (length bs)) = nat (cs_offs ds) + length bs" using s(2) m by simp
  obtain d' where d': "mem_write (cs_data ds) (cs_offs ds) bs = Some d'" "length d' = length (cs_data ds)"
    using mem_write_inside [OF c(2) l] by blast
  let ?ds = "ds\<lparr>cs_data := d', cs_size := cs_size ds + length bs, cs_offs := cs_offs ds + int (length bs)\<rparr>"
  let ?w = "?ds\<lparr>wrLast := length bs, wrTotal := wrTotal ds + length bs\<rparr>"
  have w: "AG_Write bs ds = Some (0, ?w)"
    using l c(1) u d'(1) by (simp add: AG_Write_def ds_write_def assms(1) CoreAutoWrite_def Let_def count_write_def)
  let ?r = "cs_size ?w - nat (cs_offs ?w)"
  have n: "nat (cs_offs ?w) = nat (cs_offs ds) + length bs" using c(2) by (simp add: nat_add_distrib)
  then have r: "nat (cs_offs ?w) + ?r = cs_size ?w" using l c(1) by simp
  have "cs_offs ?w + int ?r = int (nat (cs_offs ?w) + ?r)" using c(2) by simp
  also have "\<dots> = int (cs_size ds + length bs)" unfolding r by simp
  finally have "usz (cs_offs ?w + int ?r) = cs_size ?w"
    using sz l by (subst usz_small) (auto simp: sized_def)
  moreover have "\<not> nat (cs_offs ?w) + ?r \<le> length d'" unfolding r using c(1) d'(2) assms(3) by simp
  then have "mem_read (cs_data ?w) (cs_offs ?w) ?r = None" by (simp add: mem_read_def)
  ultimately have "AG_Read ?r ?w = None" unfolding AG_Read_def ds_read_def CoreRead_def by (simp add: is_file_def assms(1))
  with w d'(2) c(1) show ?thesis by auto
qed

theorem CoreAutoWrite_overwrite_witness:
  "\<exists>ds'. AG_Write [9] ((new_source 0 AG_BYTEORDER_BE False)\<lparr>cs_data := [1, 2, 3], cs_size := 3\<rparr>) = Some (0, ds') \<and>
    length (cs_data ds') = length (cs_data ((new_source 0 AG_BYTEORDER_BE False)\<lparr>cs_data := [1, 2, 3], cs_size := 3\<rparr>)) \<and>
    cs_size ds' = length (cs_data ds') + length [9 :: byte] \<and> AG_Read (cs_size ds' - nat (cs_offs ds')) ds' = None"
  by (rule CoreAutoWrite_overwrite) (simp_all add: new_source_simps src_ok_def sized_def to_read_def)

section \<open>The other routines on numbers and strings\<close>

lemma read_num_ok:
  assumes "src_ok ds" and "to_read ds = type_bytes ds t @ num_bytes (byte_order ds) n sw w @ rest"
    and "LENGTH('a) = 8 * n" and "\<And>x. sw (sw x) = (x :: 'a :: len word)"
  shows "\<exists>ds'. read_num t n sw ds = Some (w, ds') \<and> reads ds rest ds'"
proof -
  obtain d1 where d1: "bad_type t ds = Some (False, d1)" "reads ds (num_bytes (byte_order ds) n sw w @ rest) d1"
    using bad_type_ok [OF assms(1,2)] by auto
  then obtain d2 where d2: "AG_Read n d1 = Some (0, num_bytes (byte_order ds) n sw w, d2)" "reads d1 rest d2"
    using AG_Read_ok [of d1 "num_bytes (byte_order ds) n sw w" rest n] by (auto simp: reads_def)
  have "swap_for sw d2 (from_bytes (num_bytes (byte_order ds) n sw w)) = w"
    using reads_setup [OF d1(2)] reads_setup [OF d2(2)] assms(3,4) by (intro from_num_bytes) simp_all
  then show ?thesis using d1 d2 reads_trans [OF d1(2) d2(2)] by (auto simp: read_num_def)
qed

lemma writev_num_ok:
  assumes "at_end ds" and "int (length (cs_data ds)) + 4 + int n < 2 ^ 63"
  shows "\<exists>ds'. writev_num t n sw w ds = Some (0, ds') \<and> appends ds (type_bytes ds t @ num_bytes (byte_order ds) n sw w) ds'"
proof -
  have "length (type_bytes ds t) \<le> 4" by (simp add: type_bytes_def)
  obtain d1 where d1: "(if ds_debug ds then AG_WriteTypeCodeE t ds else Some (0, ds)) = Some (0, d1)" "appends ds (type_bytes ds t) d1"
  proof (cases "ds_debug ds")
    case True
    then show ?thesis using AG_Write_ok [OF assms(1), of "num_bytes (byte_order ds) 4 AG_Swap32 t"] assms(2) that
      by (auto simp: AG_WriteTypeCodeE_def swap_for_bytes type_bytes_def)
  next
    case False
    then show ?thesis using that [of ds] assms(1) by (simp add: type_bytes_def appends_def at_end_def)
  qed
  obtain d2 where "AG_Write (num_bytes (byte_order ds) n sw w) d1 = Some (0, d2)" "appends d1 (num_bytes (byte_order ds) n sw w) d2"
    using AG_Write_ok [OF appends_at_end [OF assms(1) d1(2)], of "num_bytes (byte_order ds) n sw w"] assms(2) d1(2)
      \<open>length (type_bytes ds t) \<le> 4\<close> by (auto simp: appends_def)
  then show ?thesis using d1 appends_trans [OF d1(2)]
    by (auto simp: writev_num_def Let_def swap_for_bytes)
qed

text \<open>Filling in a number that was written before; \<open>xs\<close> is what precedes it.\<close>

lemma write_num_at_ok:
  assumes "at_end ds" and "\<not> ds_debug ds" and "cs_data ds = xs @ ys @ zs" and "length ys = n" and "pos = int (length xs)"
  shows "\<exists>ds'. write_num_at t n sw w pos ds = Some ds' \<and> at_end ds' \<and>
    cs_data ds' = xs @ num_bytes (byte_order ds) n sw w @ zs \<and> same_setup ds ds'"
proof -
  obtain ds' where "AG_WriteAt (num_bytes (byte_order ds) n sw w) pos ds = Some (0, ds')" "at_end ds'"
    "cs_data ds' = xs @ num_bytes (byte_order ds) n sw w @ zs" "same_setup ds ds'"
    using AG_WriteAt_ok [OF assms(1,3), of "num_bytes (byte_order ds) n sw w"] assms(4,5) by auto
  then show ?thesis using assms(2)
    by (simp add: write_num_at_def Let_def swap_for_bytes AG_WRITEAT_DEBUGOFFS_def or_error_def)
qed

lemma AG_ReadStringLen_ok:
  assumes "src_ok ds" and "\<not> ds_debug ds" and "to_read ds = string_bytes (byte_order ds) s @ rest"
    and "length s \<le> maxlen" and "maxlen < 2 ^ 32"
  shows "\<exists>ds'. AG_ReadStringLen maxlen ds = Some (Some (s @ [NUL]), ds') \<and> reads ds rest ds'"
proof -
  let ?h = "num_bytes (byte_order ds) 4 AG_Swap32 (u32 (length s))"
  obtain d1 where d1: "AG_ReadUint32v ds = Some (0, Some (u32 (length s)), d1)" "reads ds (str_bytes s @ rest) d1"
    using readv_num_ok [where t = AG_SOURCE_UINT32 and n = 4 and sw = AG_Swap32 and w = "u32 (length s)" and rest = "str_bytes s @ rest", OF assms(1)]
      assms(2,3) by (auto simp: AG_ReadUint32v_def type_bytes_def string_bytes_def)
  have l: "unat (u32 (length s)) = length s" "unat (u32 maxlen) = maxlen" using assms(4,5) by (auto intro!: unat_u32)
  then have "\<not> u32 maxlen < u32 (length s)" using assms(4) by (simp add: word_less_nat_alt)
  moreover obtain d2 where "AG_Read (length s) d1 = Some (0, str_bytes s, d2)" "reads d1 rest d2"
    using AG_Read_ok [of d1 "str_bytes s" rest "length s"] d1(2) by (auto simp: reads_def)
  ultimately show ?thesis
  proof (cases "s = []")
    case True
    then show ?thesis using assms(2) d1 l \<open>\<not> u32 maxlen < u32 (length s)\<close> by (simp add: AG_ReadStringLen_def bad_type_def)
  next
    case False
    then show ?thesis using assms(2) d1 l \<open>\<not> u32 maxlen < u32 (length s)\<close> \<open>AG_Read (length s) d1 = _\<close> reads_trans [OF d1(2) \<open>reads d1 rest d2\<close>]
      by (simp add: AG_ReadStringLen_def bad_type_def)
  qed
qed

section \<open>Versions\<close>

definition magic :: "string \<Rightarrow> string" where
  "magic name = name @ NUL # drop (Suc (length name)) (concat (replicate 12 ''agar''))"

definition version_bytes :: "AG_DataSource \<Rightarrow> string \<Rightarrow> AG_Version \<Rightarrow> byte list" where
  "version_bytes ds name ver = str_bytes (magic name) @
     type_bytes ds AG_SOURCE_UINT32 @ num_bytes (byte_order ds) 4 AG_Swap32 (major ver) @
     type_bytes ds AG_SOURCE_UINT32 @ num_bytes (byte_order ds) 4 AG_Swap32 (minor ver)"

lemma version_bytes_setup: "same_setup ds ds' \<Longrightarrow> version_bytes ds' name ver = version_bytes ds name ver"
  by (simp add: version_bytes_def type_bytes_setup) (simp add: same_setup_def)

lemma length_agar: "length (concat (replicate 12 ''agar'')) = 48"
  by (simp add: length_concat sum_list_replicate map_replicate_const)

lemma length_magic: "length name < AG_VERSION_NAME_MAX \<Longrightarrow> length (magic name) = AG_VERSION_NAME_MAX"
  by (simp add: magic_def AG_VERSION_NAME_MAX_def length_agar del: replicate_Suc)

lemma AG_WriteVersion_ok:
  assumes "at_end ds" and "nonul name" and "length name < AG_VERSION_NAME_MAX" and "int (length (cs_data ds)) + 64 < 2 ^ 63"
  shows "\<exists>ds'. AG_WriteVersion name ver ds = Some (0, ds') \<and> appends ds (version_bytes ds name ver) ds'"
proof -
  have ml: "length (magic name) = 48" using length_magic [OF assms(3)] by (simp add: AG_VERSION_NAME_MAX_def)
  have cp: "AG_Strlcpy (concat (replicate 12 ''agar'')) (name @ [NUL]) AG_VERSION_NAME_MAX = Some (magic name, length name)"
  proof -
    have "take (AG_VERSION_NAME_MAX - 1) name = name" and "min (AG_VERSION_NAME_MAX - 1) (length name) = length name"
      using assms(3) by (simp_all add: AG_VERSION_NAME_MAX_def)
    moreover have "AG_VERSION_NAME_MAX \<le> length (concat (replicate 12 ''agar''))" unfolding length_agar by (simp add: AG_VERSION_NAME_MAX_def)
    moreover have "AG_VERSION_NAME_MAX \<noteq> 0" by (simp add: AG_VERSION_NAME_MAX_def)
    ultimately show ?thesis using AG_Strlcpy_spec [OF assms(2), of AG_VERSION_NAME_MAX "concat (replicate 12 ''agar'')" "[]"]
      unfolding magic_def by metis
  qed
  let ?n1 = "num_bytes (byte_order ds) 4 AG_Swap32 (major ver)" and ?n2 = "num_bytes (byte_order ds) 4 AG_Swap32 (minor ver)"
  let ?t = "type_bytes ds AG_SOURCE_UINT32"
  have t4: "length ?t \<le> 4" by (simp add: type_bytes_def)
  obtain d1 where d1: "AG_Write (str_bytes (magic name)) ds = Some (0, d1)" "appends ds (str_bytes (magic name)) d1"
    using AG_Write_ok [OF assms(1), of "str_bytes (magic name)"] assms(4) ml by auto
  have s1: "same_setup ds d1" using d1(2) by (simp add: appends_def)
  obtain d2 where d2: "AG_WriteUint32v (major ver) d1 = Some (0, d2)" "appends d1 (?t @ ?n1) d2"
    using writev_num_ok [OF appends_at_end [OF assms(1) d1(2)], of 4 AG_SOURCE_UINT32 AG_Swap32 "major ver"] d1(2) assms(4) ml
      type_bytes_setup [OF s1] s1 by (auto simp: AG_WriteUint32v_def appends_def same_setup_def)
  have e2: "at_end d2" using appends_at_end [OF appends_at_end [OF assms(1) d1(2)] d2(2)] .
  have s2: "same_setup ds d2" using s1 d2(2) by (auto simp: appends_def intro: same_setup_trans)
  have l2: "length (cs_data d2) = length (cs_data ds) + 48 + length ?t + 4" using d1(2) d2(2) ml by (simp add: appends_def)
  obtain d3 where d3: "AG_WriteUint32v (minor ver) d2 = Some (0, d3)" "appends d2 (?t @ ?n2) d3"
    using writev_num_ok [OF e2, of 4 AG_SOURCE_UINT32 AG_Swap32 "minor ver"] assms(4) l2 t4
      type_bytes_setup [OF s2] s2 by (auto simp: AG_WriteUint32v_def same_setup_def)
  have "appends ds (version_bytes ds name ver) d3"
    using appends_trans [OF appends_trans [OF d1(2) d2(2)] d3(2)] by (simp add: version_bytes_def)
  moreover have "AG_WriteVersion name ver ds = Some (0, d3)"
    unfolding AG_WriteVersion_def Let_def cp using d1(1) d2(1) d3(1) by simp
  ultimately show ?thesis by blast
qed

lemma strncmp_prefix: "strncmp_eq (name @ a) (name @ b) (length name) = Some True"
  by (induction name) auto

lemma AG_ReadVersion_ok:
  assumes "src_ok ds" and "length name < AG_VERSION_NAME_MAX" and "to_read ds = version_bytes ds name ver @ rest"
  shows "\<exists>ds'. AG_ReadVersion name v ds = Some (if major ver \<noteq> major v then -1 else 0, Some ver, ds') \<and> reads ds rest ds'"
proof -
  let ?n1 = "num_bytes (byte_order ds) 4 AG_Swap32 (major ver)" and ?n2 = "num_bytes (byte_order ds) 4 AG_Swap32 (minor ver)"
  let ?t = "type_bytes ds AG_SOURCE_UINT32"
  obtain d1 where d1: "AG_Read AG_VERSION_NAME_MAX ds = Some (0, str_bytes (magic name), d1)" "reads ds (?t @ ?n1 @ ?t @ ?n2 @ rest) d1"
    using AG_Read_ok [OF assms(1), of "str_bytes (magic name)" "?t @ ?n1 @ ?t @ ?n2 @ rest" AG_VERSION_NAME_MAX] assms(3) length_magic [OF assms(2)]
    by (auto simp: version_bytes_def)
  have s1: "same_setup ds d1" "src_ok d1" using d1(2) by (auto simp: reads_def)
  obtain d2 where d2: "AG_ReadUint32v d1 = Some (0, Some (major ver), d2)" "reads d1 (?t @ ?n2 @ rest) d2"
    using readv_num_ok [where t = AG_SOURCE_UINT32 and n = 4 and sw = AG_Swap32 and w = "major ver" and rest = "?t @ ?n2 @ rest", OF s1(2)]
      d1(2) type_bytes_setup [OF s1(1)] s1(1) by (auto simp: AG_ReadUint32v_def reads_def same_setup_def)
  have s2: "same_setup ds d2" "src_ok d2" using d2(2) s1(1) by (auto simp: reads_def intro: same_setup_trans)
  obtain d3 where d3: "AG_ReadUint32v d2 = Some (0, Some (minor ver), d3)" "reads d2 rest d3"
    using readv_num_ok [where t = AG_SOURCE_UINT32 and n = 4 and sw = AG_Swap32 and w = "minor ver" and rest = rest, OF s2(2)]
      d2(2) type_bytes_setup [OF s2(1)] s2(1) by (auto simp: AG_ReadUint32v_def reads_def same_setup_def)
  have "strncmp_eq (bytes_str (str_bytes (magic name))) (name @ [NUL]) (length name) = Some True"
    by (simp add: magic_def strncmp_prefix)
  then have "AG_ReadVersion name v ds = Some (if major ver \<noteq> major v then -1 else 0, Some ver, d3)"
    unfolding AG_ReadVersion_def Let_def d1(1) using d2(1) d3(1) by simp
  then show ?thesis using reads_trans [OF reads_trans [OF d1(2) d2(2)] d3(2)] by blast
qed

end
