(* ===== verification/Archive.thy ===== *)
theory Archive
  imports Objects Data
begin

unbundle bit_operations_syntax

text \<open>
  The archives of objects (core/object.c): the header, the table of dependencies, the table of
  variables and the table of children that \<open>AG_ObjectSerialize\<close> writes and
  \<open>AG_ObjectUnserialize\<close> and the loading routines read, the files they are kept in, paging,
  checksums, the detection of changes and the entries of a database.

  The routines \<open>load\<close> and \<open>save\<close> of the classes are parameters (\<open>arch_env\<close>), and so are the
  dynamic loader, the directories of the file system and the digests.  A result in the
  option type is \<^const>\<open>None\<close> when the program ends: at an error of a source whose
  handler is the default one, or at an access outside the memory.
\<close>

type_synonym load_fn = "nat \<Rightarrow> AG_Version \<Rightarrow> AG_DataSource \<Rightarrow> world \<Rightarrow> (int \<times> AG_DataSource \<times> world) option"
type_synonym save_fn = "nat \<Rightarrow> AG_DataSource \<Rightarrow> world \<Rightarrow> (int \<times> AG_DataSource \<times> world) option"

record arch_env =
  ae_obj :: obj_env
  ae_ver :: "nat \<Rightarrow> AG_Version"
  ae_load :: "nat \<Rightarrow> load_fn option"
  ae_save :: "nat \<Rightarrow> save_fn option"

definition AG_OBJECT_FLOATING_VARS :: "32 word" where "AG_OBJECT_FLOATING_VARS = 0x00001"
definition AG_OBJECT_INDESTRUCTIBLE :: "32 word" where "AG_OBJECT_INDESTRUCTIBLE = 0x00004"
definition AG_OBJECT_READONLY :: "32 word" where "AG_OBJECT_READONLY = 0x00040"
definition AG_OBJECT_REOPEN_ONLOAD :: "32 word" where "AG_OBJECT_REOPEN_ONLOAD = 0x00200"
definition AG_OBJECT_DEBUG :: "32 word" where "AG_OBJECT_DEBUG = 0x00800"
definition AG_OBJECT_CHLD_AUTOSAVE :: "32 word" where "AG_OBJECT_CHLD_AUTOSAVE = 0x02000"
definition AG_OBJECT_DEBUG_DATA :: "32 word" where "AG_OBJECT_DEBUG_DATA = 0x04000"

definition AG_OBJECT_SAVED_FLAGS :: "32 word" where
  "AG_OBJECT_SAVED_FLAGS = AG_OBJECT_FLOATING_VARS OR AG_OBJECT_INDESTRUCTIBLE OR AG_OBJECT_PRESERVE_DEPS OR
     AG_OBJECT_READONLY OR AG_OBJECT_REOPEN_ONLOAD OR AG_OBJECT_REMAIN_DATA OR AG_OBJECT_DEBUG"

definition agPropTblVer :: AG_Version where "agPropTblVer = \<lparr>major = 2, minor = 1\<rparr>"

text \<open>The version of a class; that of the root class is a constant of object.c.\<close>

definition cls_ver :: "arch_env \<Rightarrow> nat \<Rightarrow> AG_Version" where
  "cls_ver env k = (if k = agObjectClass then \<lparr>major = 7, minor = 2\<rparr> else ae_ver env k)"

definition cls_of :: "nat \<Rightarrow> world \<Rightarrow> AG_ObjectClass option" where
  "cls_of p w = do { ob \<leftarrow> w_objs w p; Some (cl_mem (w_reg w) (ob_cls ob)) }"

definition has_flag :: "32 word \<Rightarrow> nat \<Rightarrow> world \<Rightarrow> bool option" where
  "has_flag fl p w = do { ob \<leftarrow> w_objs w p; Some (ob_flags ob AND fl \<noteq> 0) }"

section \<open>The header\<close>

record AG_ObjectHeader =
  oh_cs :: AG_ObjectClassSpec
  oh_dataOffs :: "32 word"
  oh_ver :: AG_Version
  oh_flags :: "32 word"

text \<open>\<open>AG_CopyString\<close> into a buffer of \<open>n\<close> bytes: what is returned and the string.\<close>

definition copy_str :: "nat \<Rightarrow> AG_DataSource \<Rightarrow> (nat \<times> string \<times> AG_DataSource) option" where
  "copy_str n ds = do { (rv, dst, ds) \<leftarrow> AG_CopyString (replicate n NUL) n ds; Some (rv, cstr dst, ds) }"

definition spec_of :: "string \<Rightarrow> string \<Rightarrow> string" where
  "spec_of hier libs = (let spec = str_cpy AG_OBJECT_HIER_MAX hier in
     if libs = [] then spec else str_cat AG_OBJECT_HIER_MAX (str_cat AG_OBJECT_HIER_MAX spec ''@'') libs)"

definition short_name :: "string \<Rightarrow> string" where
  "short_name hier = (case strrchr hier CHR '':'' of
     Some i \<Rightarrow> if drop (Suc i) hier \<noteq> [] then str_cpy AG_OBJECT_NAME_MAX (drop (Suc i) hier) else str_cpy AG_OBJECT_NAME_MAX hier
   | None \<Rightarrow> str_cpy AG_OBJECT_NAME_MAX hier)"

definition AG_ObjectReadHeader :: "arch_env \<Rightarrow> string \<Rightarrow> AG_DataSource \<Rightarrow> (AG_ObjectHeader option \<times> AG_DataSource) option" where
  "AG_ObjectReadHeader env objname ds = do {
     (rv, ver, ds) \<leftarrow> AG_ReadVersion objname (cls_ver env agObjectClass) ds;
     (case ver of
        Some ver \<Rightarrow>
          if rv = -1 then Some (None, ds)
          else do {
            (cs, ds) \<leftarrow>
              (if 2 \<le> minor ver then do {
                 (_, hier, ds) \<leftarrow> copy_str AG_OBJECT_HIER_MAX ds;
                 (_, libs, ds) \<leftarrow> copy_str AG_OBJECT_LIBS_MAX ds;
                 Some (\<lparr>cs_hier = hier, cs_libs = libs, cs_spec = spec_of hier libs, cs_name = short_name hier\<rparr>, ds)
               } else Some (\<lparr>cs_hier = [], cs_libs = [], cs_spec = [], cs_name = []\<rparr>, ds));
            (offs, ds) \<leftarrow> AG_ReadUint32 ds;
            (flags, ds) \<leftarrow> AG_ReadUint32 ds;
            Some (Some \<lparr>oh_cs = cs, oh_dataOffs = offs, oh_ver = ver, oh_flags = flags\<rparr>, ds)
          }
      | None \<Rightarrow> Some (None, ds))
   }"

section \<open>Dependencies\<close>

definition AG_LOAD_STRING_MAX :: nat where "AG_LOAD_STRING_MAX = 32767"

definition AG_ReadString :: "AG_DataSource \<Rightarrow> (string option \<times> AG_DataSource) option" where
  "AG_ReadString ds = do { (s, ds) \<leftarrow> AG_ReadStringLen AG_LOAD_STRING_MAX ds; Some (map_option cstr s, ds) }"

fun read_deps :: "nat \<Rightarrow> nat \<Rightarrow> AG_DataSource \<Rightarrow> world \<Rightarrow> (bool \<times> AG_DataSource \<times> world) option" where
  "read_deps p 0 ds w = Some (True, ds, w)"
| "read_deps p (Suc n) ds w = do {
     (path, ds) \<leftarrow> AG_ReadString ds;
     (case path of
        None \<Rightarrow> Some (False, ds, w)
      | Some path \<Rightarrow> do {
          w \<leftarrow> upd_obj p (\<lambda>ob. ob\<lparr>ob_deps := ob_deps ob @
            [\<lparr>dep_persistent = 1, dep_path = Some path, dep_obj = None, dep_count = 0\<rparr>]\<rparr>) w;
          read_deps p n ds w
        })
   }"

definition ReadDependencyTable :: "nat \<Rightarrow> AG_DataSource \<Rightarrow> world \<Rightarrow> (int \<times> AG_DataSource \<times> world) option" where
  "ReadDependencyTable p ds w = do {
     (count, ds) \<leftarrow> AG_ReadUint32 ds;
     (ok, ds, w) \<leftarrow> read_deps p (unat count) ds w;
     if ok then Some (0, ds, w) else do { w \<leftarrow> AG_ObjectFreeDeps p w; Some (-1, ds, w) }
   }"

text \<open>The path names of the persistent dependencies, and how many there are.\<close>

fun write_deps :: "AG_ObjectDep list \<Rightarrow> 32 word \<Rightarrow> world \<Rightarrow> AG_DataSource \<Rightarrow> (32 word \<times> AG_DataSource) option" where
  "write_deps [] count w ds = Some (count, ds)"
| "write_deps (dep # deps) count w ds =
     (if dep_persistent dep = 0 then write_deps deps count w ds
      else do {
        q \<leftarrow> dep_obj dep;
        (_, depName) \<leftarrow> AG_ObjectCopyName q (replicate AG_OBJECT_PATH_MAX NUL) AG_OBJECT_PATH_MAX w;
        ds \<leftarrow> AG_WriteString (Some (cstr depName)) ds;
        write_deps deps (count + 1) w ds
      })"

section \<open>Variables\<close>

text \<open>The types in the order of the table; the first with a code is the one the loader takes.\<close>

definition all_types :: "AG_VariableType list" where
  "all_types = [AG_VARIABLE_NULL, AG_VARIABLE_UINT, AG_VARIABLE_P_UINT, AG_VARIABLE_INT, AG_VARIABLE_P_INT,
     AG_VARIABLE_UINT8, AG_VARIABLE_P_UINT8, AG_VARIABLE_SINT8, AG_VARIABLE_P_SINT8,
     AG_VARIABLE_UINT16, AG_VARIABLE_P_UINT16, AG_VARIABLE_SINT16, AG_VARIABLE_P_SINT16,
     AG_VARIABLE_UINT32, AG_VARIABLE_P_UINT32, AG_VARIABLE_SINT32, AG_VARIABLE_P_SINT32,
     AG_VARIABLE_UINT64, AG_VARIABLE_P_UINT64, AG_VARIABLE_SINT64, AG_VARIABLE_P_SINT64,
     AG_VARIABLE_FLOAT, AG_VARIABLE_P_FLOAT, AG_VARIABLE_DOUBLE, AG_VARIABLE_P_DOUBLE,
     AG_VARIABLE_LONG_DOUBLE, AG_VARIABLE_P_LONG_DOUBLE, AG_VARIABLE_STRING, AG_VARIABLE_P_STRING,
     AG_VARIABLE_CONST_STRING, AG_VARIABLE_P_CONST_STRING, AG_VARIABLE_POINTER, AG_VARIABLE_P_POINTER,
     AG_VARIABLE_CONST_POINTER, AG_VARIABLE_P_CONST_POINTER, AG_VARIABLE_P_FLAG, AG_VARIABLE_P_FLAG8,
     AG_VARIABLE_P_FLAG16, AG_VARIABLE_P_FLAG32, AG_VARIABLE_P_OBJECT, AG_VARIABLE_P_TEXT, AG_VARIABLE_P_VARIABLE]"

definition type_of_code :: "int \<Rightarrow> AG_VariableType option" where
  "type_of_code code = List.find (\<lambda>t. vt_code (agVariableTypes t) = code) all_types"

text \<open>Reading a number and storing it: the value is read before the variable is set.\<close>

definition load_num :: "('a \<times> AG_DataSource) option \<Rightarrow> ('a \<Rightarrow> world \<Rightarrow> (nat \<times> world) option) \<Rightarrow> world \<Rightarrow>
    (bool \<times> AG_DataSource \<times> world) option" where
  "load_num r setv w = do { (x, ds) \<leftarrow> r; (v, w) \<leftarrow> setv x w; Some (True, ds, w) }"

fun load_value :: "AG_VariableType \<Rightarrow> nat \<Rightarrow> string \<Rightarrow> AG_DataSource \<Rightarrow> world \<Rightarrow> (bool \<times> AG_DataSource \<times> world) option" where
  "load_value AG_VARIABLE_UINT p key ds w = load_num (AG_ReadUint32 ds) (AG_SetUint p key) w"
| "load_value AG_VARIABLE_INT p key ds w = load_num (AG_ReadUint32 ds) (AG_SetInt p key) w"
| "load_value AG_VARIABLE_UINT8 p key ds w = load_num (AG_ReadUint8 ds) (AG_SetUint8 p key) w"
| "load_value AG_VARIABLE_SINT8 p key ds w = load_num (AG_ReadUint8 ds) (AG_SetSint8 p key) w"
| "load_value AG_VARIABLE_UINT16 p key ds w = load_num (AG_ReadUint16 ds) (AG_SetUint16 p key) w"
| "load_value AG_VARIABLE_SINT16 p key ds w = load_num (AG_ReadUint16 ds) (AG_SetSint16 p key) w"
| "load_value AG_VARIABLE_UINT32 p key ds w = load_num (AG_ReadUint32 ds) (AG_SetUint32 p key) w"
| "load_value AG_VARIABLE_SINT32 p key ds w = load_num (AG_ReadUint32 ds) (AG_SetSint32 p key) w"
| "load_value AG_VARIABLE_UINT64 p key ds w = load_num (AG_ReadUint64 ds) (AG_SetUint64 p key) w"
| "load_value AG_VARIABLE_SINT64 p key ds w = load_num (AG_ReadUint64 ds) (AG_SetSint64 p key) w"
| "load_value AG_VARIABLE_FLOAT p key ds w = load_num (AG_ReadFloat ds) (AG_SetFloat p key) w"
| "load_value AG_VARIABLE_DOUBLE p key ds w = load_num (AG_ReadDouble ds) (AG_SetDouble p key) w"
| "load_value AG_VARIABLE_STRING p key ds w = do {
     (s, ds) \<leftarrow> AG_ReadString ds;
     (v, w) \<leftarrow> AG_SetString p key (case s of Some s \<Rightarrow> s | None \<Rightarrow> []) w;
     Some (True, ds, w)
   }"
| "load_value _ p key ds w = Some (False, ds, w)"

fun load_vars :: "nat \<Rightarrow> nat \<Rightarrow> AG_DataSource \<Rightarrow> world \<Rightarrow> (bool \<times> AG_DataSource \<times> world) option" where
  "load_vars p 0 ds w = Some (True, ds, w)"
| "load_vars p (Suc n) ds w = do {
     (len, key, ds) \<leftarrow> copy_str 64 ds;
     if 64 \<le> len then Some (False, ds, w)
     else do {
       (code, ds) \<leftarrow> AG_ReadUint32 ds;
       (case type_of_code (sint code) of
          None \<Rightarrow> Some (False, ds, w)
        | Some t \<Rightarrow> do {
            (ok, ds, w) \<leftarrow> load_value (vt_typeTgt (agVariableTypes t)) p key ds w;
            if ok then load_vars p n ds w else Some (False, ds, w)
          })
     }
   }"

definition AG_ObjectLoadVariables :: "nat \<Rightarrow> AG_DataSource \<Rightarrow> world \<Rightarrow> (int \<times> AG_DataSource \<times> world) option" where
  "AG_ObjectLoadVariables p ds w = do {
     (rv, ver, ds) \<leftarrow> AG_ReadVersion ''AG_PropTbl'' agPropTblVer ds;
     if rv = -1 then Some (-1, ds, w)
     else do {
       floating \<leftarrow> has_flag AG_OBJECT_FLOATING_VARS p w;
       w \<leftarrow> (if floating then AG_ObjectFreeVariables p w else Some w);
       (count, ds) \<leftarrow> AG_ReadUint32 ds;
       (ok, ds, w) \<leftarrow> load_vars p (unat count) ds w;
       Some (if ok then 0 else -1, ds, w)
     }
   }"

text \<open>The member of the union that a type is saved from.\<close>

fun saved_memb :: "AG_VariableType \<Rightarrow> memb option" where
  "saved_memb AG_VARIABLE_UINT = Some M_u" | "saved_memb AG_VARIABLE_INT = Some M_i"
| "saved_memb AG_VARIABLE_UINT8 = Some M_u8" | "saved_memb AG_VARIABLE_SINT8 = Some M_s8"
| "saved_memb AG_VARIABLE_UINT16 = Some M_u16" | "saved_memb AG_VARIABLE_SINT16 = Some M_s16"
| "saved_memb AG_VARIABLE_UINT32 = Some M_u32" | "saved_memb AG_VARIABLE_SINT32 = Some M_s32"
| "saved_memb AG_VARIABLE_UINT64 = Some M_u64" | "saved_memb AG_VARIABLE_SINT64 = Some M_s64"
| "saved_memb AG_VARIABLE_FLOAT = Some M_flt" | "saved_memb AG_VARIABLE_DOUBLE = Some M_dbl"
| "saved_memb _ = None"

fun write_cval :: "cval \<Rightarrow> AG_DataSource \<Rightarrow> AG_DataSource option" where
  "write_cval (C_u x) ds = AG_WriteUint32 x ds" | "write_cval (C_i x) ds = AG_WriteUint32 x ds"
| "write_cval (C_u8 x) ds = AG_WriteUint8 x ds" | "write_cval (C_s8 x) ds = AG_WriteUint8 x ds"
| "write_cval (C_u16 x) ds = AG_WriteUint16 x ds" | "write_cval (C_s16 x) ds = AG_WriteUint16 x ds"
| "write_cval (C_u32 x) ds = AG_WriteUint32 x ds" | "write_cval (C_s32 x) ds = AG_WriteUint32 x ds"
| "write_cval (C_u64 x) ds = AG_WriteUint64 x ds" | "write_cval (C_s64 x) ds = AG_WriteUint64 x ds"
| "write_cval (C_flt x) ds = AG_WriteFloat x ds" | "write_cval (C_dbl x) ds = AG_WriteDouble x ds"
| "write_cval _ ds = None"

definition save_value :: "AG_Variable \<Rightarrow> world \<Rightarrow> AG_DataSource \<Rightarrow> AG_DataSource option" where
  "save_value V w ds = (let tgt = vt_typeTgt (agVariableTypes (v_type V)) in
     case saved_memb tgt of
       Some m \<Rightarrow> do {
         x \<leftarrow> (if 0 < vt_indirLvl (agVariableTypes (v_type V)) then load_as m V w else rd_memb m (v_data V));
         write_cval x ds
       }
     | None \<Rightarrow>
         if tgt = AG_VARIABLE_STRING then do {
           a \<leftarrow> ptr_of (v_data V);
           s \<leftarrow> (case a of None \<Rightarrow> Some None | Some _ \<Rightarrow> map_option Some (get_cstr a w));
           AG_WriteString s ds
         } else Some ds)"

fun save_vars :: "hooks \<Rightarrow> nat \<Rightarrow> nat list \<Rightarrow> 32 word \<Rightarrow> AG_DataSource \<Rightarrow> world \<Rightarrow> (32 word \<times> AG_DataSource \<times> world) option" where
  "save_vars H p [] count ds w = Some (count, ds, w)"
| "save_vars H p (v # vs) count ds w = do {
     V \<leftarrow> w_vars w v;
     let code = vt_code (agVariableTypes (v_type V));
     if code = -1 then save_vars H p vs count ds w
     else do {
       (rv, w) \<leftarrow> AG_EvalVariable H p v w;
       if rv = -1 then save_vars H p vs count ds w
       else do {
         V \<leftarrow> w_vars w v;
         ds \<leftarrow> AG_WriteString (Some (v_name V)) ds;
         ds \<leftarrow> AG_WriteUint32 (of_int code) ds;
         ds \<leftarrow> save_value V w ds;
         save_vars H p vs (count + 1) ds w
       }
     }
   }"

definition AG_ObjectSaveVariables :: "arch_env \<Rightarrow> nat \<Rightarrow> AG_DataSource \<Rightarrow> world \<Rightarrow> (AG_DataSource \<times> world) option" where
  "AG_ObjectSaveVariables env p ds w = do {
     (_, ds) \<leftarrow> AG_WriteVersion ''AG_PropTbl'' agPropTblVer ds;
     let countOffs = AG_Tell ds;
     ds \<leftarrow> AG_WriteUint32 0 ds;
     ob \<leftarrow> w_objs w p;
     (count, ds, w) \<leftarrow> save_vars (oe_hooks (ae_obj env)) p (ob_vars ob) 0 ds w;
     ds \<leftarrow> AG_WriteUint32At count countOffs ds;
     Some (ds, w)
   }"

section \<open>Whole objects\<close>

fun run_save :: "arch_env \<Rightarrow> nat list \<Rightarrow> nat \<Rightarrow> AG_DataSource \<Rightarrow> world \<Rightarrow> (bool \<times> AG_DataSource \<times> world) option" where
  "run_save env [] p ds w = Some (True, ds, w)"
| "run_save env (k # ks) p ds w = (case ae_save env k of
     None \<Rightarrow> run_save env ks p ds w
   | Some f \<Rightarrow> do {
       (rv, ds, w) \<leftarrow> f p ds w;
       if rv = -1 then Some (False, ds, w) else run_save env ks p ds w
     })"

fun run_load :: "arch_env \<Rightarrow> nat list \<Rightarrow> nat \<Rightarrow> AG_Version \<Rightarrow> AG_DataSource \<Rightarrow> world \<Rightarrow> (bool \<times> AG_DataSource \<times> world) option" where
  "run_load env [] p ver ds w = Some (True, ds, w)"
| "run_load env (k # ks) p ver ds w = (case ae_load env k of
     None \<Rightarrow> run_load env ks p ver ds w
   | Some f \<Rightarrow> do {
       (rv, ds, w) \<leftarrow> f p ver ds w;
       if rv = -1 then Some (False, ds, w) else run_load env ks p ver ds w
     })"

text \<open>The classes of an object, or \<open>Some None\<close> where the look-up returns -1.\<close>

definition obj_hier :: "nat \<Rightarrow> world \<Rightarrow> nat list option option" where
  "obj_hier p w = do { cl \<leftarrow> cls_of p w; AG_ObjectGetInheritHier (w_reg w) (cl_hier cl) }"

fun write_children :: "nat list \<Rightarrow> 32 word \<Rightarrow> world \<Rightarrow> AG_DataSource \<Rightarrow> (32 word \<times> AG_DataSource) option" where
  "write_children [] count w ds = Some (count, ds)"
| "write_children (c # cs) count w ds = do {
     chld \<leftarrow> w_objs w c;
     if ob_flags chld AND AG_OBJECT_NON_PERSISTENT \<noteq> 0 then write_children cs count w ds
     else do {
       ds \<leftarrow> AG_WriteString (Some (ob_name chld)) ds;
       ds \<leftarrow> AG_WriteString (Some (cl_hier (cl_mem (w_reg w) (ob_cls chld)))) ds;
       write_children cs (count + 1) w ds
     }
   }"

definition debug_off :: "nat \<Rightarrow> AG_DataSource \<Rightarrow> world \<Rightarrow> AG_DataSource option" where
  "debug_off p ds w = do { dbg \<leftarrow> has_flag AG_OBJECT_DEBUG_DATA p w; Some (if dbg then AG_SetSourceDebug False ds else ds) }"

definition debug_on :: "nat \<Rightarrow> AG_DataSource \<Rightarrow> world \<Rightarrow> AG_DataSource option" where
  "debug_on p ds w = do { dbg \<leftarrow> has_flag AG_OBJECT_DEBUG_DATA p w; Some (if dbg then AG_SetSourceDebug True ds else ds) }"

definition write_header :: "arch_env \<Rightarrow> nat \<Rightarrow> AG_DataSource \<Rightarrow> world \<Rightarrow> (int \<times> AG_DataSource) option" where
  "write_header env p ds w = do {
     ob \<leftarrow> w_objs w p;
     cl \<leftarrow> cls_of p w;
     (_, ds) \<leftarrow> AG_WriteVersion (cl_name (cl_mem (w_reg w) agObjectClass)) (cls_ver env agObjectClass) ds;
     ds \<leftarrow> AG_WriteString (Some (cl_hier cl)) ds;
     ds \<leftarrow> AG_WriteString (Some (cl_libs cl)) ds;
     let dataOffs = AG_Tell ds;
     ds \<leftarrow> AG_WriteUint32 0 ds;
     ds \<leftarrow> AG_WriteUint32 (ob_flags ob AND AG_OBJECT_SAVED_FLAGS) ds;
     Some (dataOffs, ds)
   }"

definition write_dep_table :: "nat \<Rightarrow> AG_DataSource \<Rightarrow> world \<Rightarrow> AG_DataSource option" where
  "write_dep_table p ds w = do {
     ob \<leftarrow> w_objs w p;
     let countOffs = AG_Tell ds;
     ds \<leftarrow> AG_WriteUint32 0 ds;
     (count, ds) \<leftarrow> write_deps (ob_deps ob) 0 w ds;
     AG_WriteUint32At count countOffs ds
   }"

definition write_child_table :: "nat \<Rightarrow> AG_DataSource \<Rightarrow> world \<Rightarrow> AG_DataSource option" where
  "write_child_table p ds w = do {
     ob \<leftarrow> w_objs w p;
     if ob_flags ob AND AG_OBJECT_CHLD_AUTOSAVE \<noteq> 0 then do {
       let countOffs = AG_Tell ds;
       ds \<leftarrow> AG_WriteUint32 0 ds;
       (count, ds) \<leftarrow> write_children (ob_children ob) 0 w ds;
       AG_WriteUint32At count countOffs ds
     } else AG_WriteUint32 0 ds
   }"

definition AG_ObjectSerialize :: "arch_env \<Rightarrow> nat \<Rightarrow> AG_DataSource \<Rightarrow> world \<Rightarrow> (int \<times> AG_DataSource \<times> world) option" where
  "AG_ObjectSerialize env p ds w = do {
     (dataOffs, ds) \<leftarrow> write_header env p ds w;
     ds \<leftarrow> write_dep_table p ds w;
     (ds, w) \<leftarrow> AG_ObjectSaveVariables env p ds w;
     ds \<leftarrow> write_child_table p ds w;
     ds \<leftarrow> AG_WriteUint32At (of_int (AG_Tell ds)) dataOffs ds;
     ob \<leftarrow> w_objs w p;
     cl \<leftarrow> cls_of p w;
     (_, ds) \<leftarrow> AG_WriteVersion (cl_name cl) (cls_ver env (ob_cls ob)) ds;
     ds \<leftarrow> debug_on p ds w;
     hier \<leftarrow> obj_hier p w;
     (ok, ds, w) \<leftarrow> (case hier of None \<Rightarrow> Some (False, ds, w) | Some ks \<Rightarrow> run_save env ks p ds w);
     ds \<leftarrow> debug_off p ds w;
     Some (if ok then 0 else -1, ds, w)
   }"

text \<open>The part of \<open>AG_ObjectUnserialize\<close> before its failure exit: whether it succeeds.\<close>

definition unserialize_body :: "arch_env \<Rightarrow> nat \<Rightarrow> AG_DataSource \<Rightarrow> world \<Rightarrow> (bool \<times> AG_DataSource \<times> world) option" where
  "unserialize_body env p ds w = do {
     (oh, ds) \<leftarrow> AG_ObjectReadHeader env (cl_name (cl_mem (w_reg w) agObjectClass)) ds;
     (case oh of
        None \<Rightarrow> Some (False, ds, w)
      | Some oh \<Rightarrow> do {
          w \<leftarrow> upd_obj p (\<lambda>ob. ob\<lparr>ob_flags := (ob_flags ob AND NOT AG_OBJECT_SAVED_FLAGS) OR oh_flags oh\<rparr>) w;
          (rv, ds, w) \<leftarrow> ReadDependencyTable p ds w;
          if rv = -1 then Some (False, ds, w)
          else do {
            (rv, ds, w) \<leftarrow> AG_ObjectLoadVariables p ds w;
            if rv = -1 then Some (False, ds, w)
            else do {
              (n, ds) \<leftarrow> AG_ReadUint32 ds;
              if n \<noteq> 0 then Some (False, ds, w)
              else do {
                ob \<leftarrow> w_objs w p;
                cl \<leftarrow> cls_of p w;
                (rv, ver, ds) \<leftarrow> AG_ReadVersion (cl_name cl) (cls_ver env (ob_cls ob)) ds;
                (case ver of
                   Some ver \<Rightarrow>
                     if rv = -1 then Some (False, ds, w)
                     else do {
                       ds \<leftarrow> debug_on p ds w;
                       hier \<leftarrow> obj_hier p w;
                       (case hier of None \<Rightarrow> Some (False, ds, w) | Some ks \<Rightarrow> run_load env ks p ver ds w)
                     }
                 | None \<Rightarrow> Some (False, ds, w))
              }
            }
          }
        })
   }"

definition AG_ObjectUnserialize :: "arch_env \<Rightarrow> nat \<Rightarrow> AG_DataSource \<Rightarrow> world \<Rightarrow> (int \<times> AG_DataSource \<times> world) option" where
  "AG_ObjectUnserialize env p ds w = do {
     (ok, ds, w) \<leftarrow> unserialize_body env p ds w;
     ds \<leftarrow> debug_off p ds w;
     if ok then Some (0, ds, w)
     else do {
       w \<leftarrow> AG_ObjectFreeDataset (ae_obj env) p w;
       w \<leftarrow> AG_ObjectFreeDeps p w;
       Some (-1, ds, w)
     }
   }"

end
