(* ===== verification/ArchiveLaws.thy ===== *)
theory ArchiveLaws
  imports Archive VarLaws DataLaws
begin

unbundle bit_operations_syntax

text \<open>
  Laws of the archives of objects: the bytes that the header, the tables and the values are
  written as (\<open>entry_bytes\<close>, \<open>deps_bytes\<close>, \<open>header_bytes\<close>, \<open>obj_archive\<close>), what the writers and the
  readers do with them, and the effect of loading on the variables of an object
  (\<open>vars_added\<close>).  They lead to the two lemmas \<open>AG_ObjectSerialize_ok\<close> and
  \<open>AG_ObjectUnserialize_ok\<close>, for any routines of the classes that read back what they wrote
  (\<open>saves\<close>, \<open>loads\<close>).
\<close>

section \<open>Values of variables in an archive\<close>

datatype saved_val = S_num cval | S_str string

text \<open>What the archive of a variable holds: the number, or the string, that it has or points to.\<close>

definition var_value :: "AG_Variable \<Rightarrow> world \<Rightarrow> saved_val option" where
  "var_value V w = (let tgt = vt_typeTgt (agVariableTypes (v_type V)) in
     case saved_memb tgt of
       Some m \<Rightarrow> map_option S_num (if 0 < vt_indirLvl (agVariableTypes (v_type V)) then load_as m V w else rd_memb m (v_data V))
     | None \<Rightarrow> if tgt = AG_VARIABLE_STRING then do {
           a \<leftarrow> ptr_of (v_data V);
           (case a of None \<Rightarrow> Some (S_str []) | Some _ \<Rightarrow> map_option S_str (get_cstr a w))
         } else None)"

fun cval_bytes :: "ag_byte_order \<Rightarrow> cval \<Rightarrow> byte list" where
  "cval_bytes ord (C_u x) = num_bytes ord 4 AG_Swap32 x" | "cval_bytes ord (C_i x) = num_bytes ord 4 AG_Swap32 x"
| "cval_bytes ord (C_u8 x) = num_bytes ord 1 id x" | "cval_bytes ord (C_s8 x) = num_bytes ord 1 id x"
| "cval_bytes ord (C_u16 x) = num_bytes ord 2 AG_Swap16 x" | "cval_bytes ord (C_s16 x) = num_bytes ord 2 AG_Swap16 x"
| "cval_bytes ord (C_u32 x) = num_bytes ord 4 AG_Swap32 x" | "cval_bytes ord (C_s32 x) = num_bytes ord 4 AG_Swap32 x"
| "cval_bytes ord (C_u64 x) = num_bytes ord 8 AG_Swap64 x" | "cval_bytes ord (C_s64 x) = num_bytes ord 8 AG_Swap64 x"
| "cval_bytes ord (C_flt x) = num_bytes ord 4 AG_Swap32 x" | "cval_bytes ord (C_dbl x) = num_bytes ord 8 AG_Swap64 x"
| "cval_bytes ord _ = []"

fun val_bytes :: "ag_byte_order \<Rightarrow> saved_val \<Rightarrow> byte list" where
  "val_bytes ord (S_num c) = cval_bytes ord c"
| "val_bytes ord (S_str s) = string_bytes ord s"

text \<open>The number has the type that its variable is saved as; a string can be read back.\<close>

fun val_ok :: "AG_VariableType \<Rightarrow> saved_val \<Rightarrow> bool" where
  "val_ok t (S_num c) = (saved_memb t \<noteq> None \<and> memb_of c = saved_memb t)"
| "val_ok t (S_str s) = (t = AG_VARIABLE_STRING \<and> nonul s \<and> length s \<le> AG_LOAD_STRING_MAX)"

definition code_of :: "AG_VariableType \<Rightarrow> int" where
  "code_of t = vt_code (agVariableTypes t)"

lemma codes:
  assumes "vt_typeTgt (agVariableTypes t) = tgt" and "saved_memb tgt \<noteq> None \<or> tgt = AG_VARIABLE_STRING"
  shows "code_of t \<noteq> -1" and "sint (of_int (code_of t) :: 32 word) = code_of t"
    and "\<exists>t'. type_of_code (code_of t) = Some t' \<and> vt_typeTgt (agVariableTypes t') = tgt"
  using assms by (cases t; auto simp: code_of_def vt_def type_of_code_def all_types_def)+

lemma string_room: "length s \<le> AG_LOAD_STRING_MAX \<Longrightarrow> length (string_bytes ord s) \<le> 32771"
  by (simp add: string_bytes_def AG_LOAD_STRING_MAX_def)

lemma val_room: "val_ok t x \<Longrightarrow> length (val_bytes ord x) \<le> 32771"
proof (cases x)
  case (S_num c)
  then show ?thesis by (cases c) auto
qed (auto dest: string_room)

text \<open>A step that writes, in the middle of a sequence of writes.\<close>

lemma then_appends:
  assumes "at_end ds" and "appends ds bs d1" and "length bs + length (cs_data ds) < 2 ^ 62"
    and "\<And>d. at_end d \<Longrightarrow> int (length (cs_data d)) + 65536 < 2 ^ 63 \<Longrightarrow> same_setup ds d \<Longrightarrow> \<exists>d2. f d = Some d2 \<and> appends d cs d2"
  shows "\<exists>d2. f d1 = Some d2 \<and> appends ds (bs @ cs) d2"
proof -
  have "same_setup ds d1" "length (cs_data d1) = length (cs_data ds) + length bs" using assms(2) by (auto simp: appends_def)
  then obtain d2 where "f d1 = Some d2" "appends d1 cs d2"
    using assms(4) [OF appends_at_end [OF assms(1,2)]] assms(3) by force
  then show ?thesis using appends_trans [OF assms(2)] by blast
qed

lemma write_cval_ok:
  assumes "at_end ds" and "\<not> ds_debug ds" and "int (length (cs_data ds)) + 65536 < 2 ^ 63" and "saved_memb t = Some m" and "memb_of c = Some m"
  shows "\<exists>ds'. write_cval c ds = Some ds' \<and> appends ds (cval_bytes (byte_order ds) c) ds'"
proof -
  have n: "\<exists>ds'. write_num ty n sw x ds = Some ds' \<and> appends ds (num_bytes (byte_order ds) n sw x) ds'" if "n \<le> 8"
    for ty n and sw :: "'a :: len word \<Rightarrow> 'a word" and x
    using write_num_ok [OF assms(1), of n ty sw x] assms(2,3) that by (auto simp: type_bytes_def)
  show ?thesis using assms(4,5)
    by (cases c) (auto simp: number_routines intro: n; cases t; auto)+
qed

section \<open>Loading into an object\<close>

text \<open>A variable that holds its own value.\<close>

fun num_type :: "memb \<Rightarrow> AG_VariableType" where
  "num_type M_u = AG_VARIABLE_UINT" | "num_type M_i = AG_VARIABLE_INT"
| "num_type M_u8 = AG_VARIABLE_UINT8" | "num_type M_s8 = AG_VARIABLE_SINT8"
| "num_type M_u16 = AG_VARIABLE_UINT16" | "num_type M_s16 = AG_VARIABLE_SINT16"
| "num_type M_u32 = AG_VARIABLE_UINT32" | "num_type M_s32 = AG_VARIABLE_SINT32"
| "num_type M_u64 = AG_VARIABLE_UINT64" | "num_type M_s64 = AG_VARIABLE_SINT64"
| "num_type M_flt = AG_VARIABLE_FLOAT" | "num_type M_dbl = AG_VARIABLE_DOUBLE"
| "num_type _ = AG_VARIABLE_NULL"

definition own_value :: "world \<Rightarrow> AG_Variable \<Rightarrow> saved_val \<Rightarrow> bool" where
  "own_value w V x \<longleftrightarrow> v_fn V = None \<and> (case x of
     S_num c \<Rightarrow> (\<exists>m. memb_of c = Some m \<and> v_type V = num_type m \<and> v_data V = c)
   | S_str s \<Rightarrow> v_type V = AG_VARIABLE_STRING \<and> nonul s \<and> (\<exists>a. v_data V = C_s (Some a) \<and> w_mem w a = Some (M_buf (s @ [NUL]))))"

text \<open>The entries \<open>es\<close> were added to object \<open>q\<close> as new variables, and nothing else changed.\<close>

definition vars_added :: "world \<Rightarrow> world \<Rightarrow> nat \<Rightarrow> (string \<times> saved_val) list \<Rightarrow> bool" where
  "vars_added w w' q es \<longleftrightarrow> (\<exists>ob new. w_objs w q = Some ob \<and>
     w_objs w' = (w_objs w)(q \<mapsto> ob\<lparr>ob_vars := ob_vars ob @ new\<rparr>) \<and> distinct new \<and>
     (\<forall>v \<in> set new. w_vars w v = None) \<and> (\<forall>x. w_vars w x \<noteq> None \<longrightarrow> w_vars w' x = w_vars w x) \<and>
     w_mem w \<subseteq>\<^sub>m w_mem w' \<and> w_reg w' = w_reg w \<and> world_ok w' \<and>
     list_all2 (\<lambda>v (name, x). \<exists>V. w_vars w' v = Some V \<and> v_name V = name \<and> own_value w' V x) new es)"

lemma own_value_mono: "own_value w V x \<Longrightarrow> w_mem w \<subseteq>\<^sub>m w_mem w' \<Longrightarrow> own_value w' V x"
  by (auto simp: own_value_def map_le_def split: saved_val.splits) (metis domI)

lemma vars_added_Nil: "world_ok w \<Longrightarrow> w_objs w q = Some ob \<Longrightarrow> vars_added w w q []"
  unfolding vars_added_def by (intro exI [of _ ob] exI [of _ "[]"]) auto

lemma vars_added_trans:
  assumes "vars_added w w1 q es" and "vars_added w1 w2 q es'"
  shows "vars_added w w2 q (es @ es')"
proof -
  obtain ob new where a: "w_objs w q = Some ob" "w_objs w1 = (w_objs w)(q \<mapsto> ob\<lparr>ob_vars := ob_vars ob @ new\<rparr>)" "distinct new"
     "\<forall>v \<in> set new. w_vars w v = None" "\<forall>x. w_vars w x \<noteq> None \<longrightarrow> w_vars w1 x = w_vars w x"
     "w_mem w \<subseteq>\<^sub>m w_mem w1" "w_reg w1 = w_reg w"
     "list_all2 (\<lambda>v (name, x). \<exists>V. w_vars w1 v = Some V \<and> v_name V = name \<and> own_value w1 V x) new es"
    using assms(1) unfolding vars_added_def by blast
  obtain ob' new' where b: "w_objs w1 q = Some ob'" "w_objs w2 = (w_objs w1)(q \<mapsto> ob'\<lparr>ob_vars := ob_vars ob' @ new'\<rparr>)" "distinct new'"
     "\<forall>v \<in> set new'. w_vars w1 v = None" "\<forall>x. w_vars w1 x \<noteq> None \<longrightarrow> w_vars w2 x = w_vars w1 x"
     "w_mem w1 \<subseteq>\<^sub>m w_mem w2" "w_reg w2 = w_reg w1" "world_ok w2"
     "list_all2 (\<lambda>v (name, x). \<exists>V. w_vars w2 v = Some V \<and> v_name V = name \<and> own_value w2 V x) new' es'"
    using assms(2) unfolding vars_added_def by blast
  have ob': "ob' = ob\<lparr>ob_vars := ob_vars ob @ new\<rparr>" using a(2) b(1) by simp
  have old: "list_all2 (\<lambda>v (name, x). \<exists>V. w_vars w2 v = Some V \<and> v_name V = name \<and> own_value w2 V x) new es"
    using a(8)
  proof (rule list_all2_mono)
    fix v e assume "case e of (name, x) \<Rightarrow> \<exists>V. w_vars w1 v = Some V \<and> v_name V = name \<and> own_value w1 V x"
    then show "case e of (name, x) \<Rightarrow> \<exists>V. w_vars w2 v = Some V \<and> v_name V = name \<and> own_value w2 V x"
      using b(5,6) own_value_mono by (cases e) fastforce
  qed
  have some1: "w_vars w1 v \<noteq> None" if v: "v \<in> set new" for v
  proof -
    obtain i where i: "i < length new" "v = new ! i" using v by (auto simp: in_set_conv_nth)
    show ?thesis using list_all2_nthD [OF a(8) i(1)] i(2) by (cases "es ! i") auto
  qed
  have "set new \<inter> set new' = {}" using b(4) some1 by fastforce
  moreover have "\<forall>v \<in> set new'. w_vars w v = None" using a(5) b(4) by (metis option.distinct(1))
  ultimately show ?thesis unfolding vars_added_def
    using a b ob' old map_le_trans [OF a(6) b(6)]
    by (intro exI [of _ ob] exI [of _ "new @ new'"]) (auto simp: list_all2_appendI)
qed

text \<open>A name that the object does not have.\<close>

lemma new_name:
  assumes "no_var w q name" and "world_ok w" and "length name < AG_VARIABLE_NAME_MAX"
  shows "\<exists>ob w1. w_objs w q = Some ob \<and> find_var w ob name = Some None \<and> new_var q name t w = Some (w_brk w, w1) \<and>
     w_objs w1 = (w_objs w)(q \<mapsto> ob\<lparr>ob_vars := ob_vars ob @ [w_brk w]\<rparr>) \<and>
     w_vars w1 = (w_vars w)(w_brk w \<mapsto> (AG_InitVariable t blank_var)\<lparr>v_name := name\<rparr>) \<and>
     w_mem w1 = w_mem w \<and> w_reg w1 = w_reg w \<and> w_brk w1 = Suc (w_brk w) \<and> w_vars w (w_brk w) = None \<and> world_ok w1"
proof -
  obtain ob where ob: "w_objs w q = Some ob" "find_var w ob name = Some None" using no_var_obj [OF assms(1)] by blast
  have fr: "w_vars w (w_brk w) = None" "w_objs w (w_brk w) = None" using assms(2) by (auto simp: world_ok_def)
  have "w_brk w \<notin> set (ob_vars ob)" using assms(1) ob(1) fr(1) by (fastforce simp: no_var_def)
  then have "new_var q name t w = Some (w_brk w, put_var (w_brk w) ((AG_InitVariable t blank_var)\<lparr>v_name := name\<rparr>)
      (put_obj q (ob\<lparr>ob_vars := ob_vars ob @ [w_brk w]\<rparr>) (w\<lparr>w_brk := Suc (w_brk w)\<rparr>)))"
    using ob(1) assms(3) by (simp add: new_var_def fresh_def q_insert_tail_def str_cpy_def)
  moreover have "world_ok (put_var (w_brk w) ((AG_InitVariable t blank_var)\<lparr>v_name := name\<rparr>)
      (put_obj q (ob\<lparr>ob_vars := ob_vars ob @ [w_brk w]\<rparr>) (w\<lparr>w_brk := Suc (w_brk w)\<rparr>)))"
    using assms(2) ob(1) by (auto simp: world_ok_def)
  ultimately show ?thesis using ob fr by auto
qed

lemma set_number_added:
  assumes "no_var w q name" and "world_ok w" and "length name < AG_VARIABLE_NAME_MAX" and "memb_of c = Some m"
    and "saved_memb t = Some m"
  shows "\<exists>v w'. FN_VARIABLE_SET m t q name c w = Some (v, w') \<and> vars_added w w' q [(name, S_num c)]"
proof -
  obtain ob w1 where n: "w_objs w q = Some ob" "find_var w ob name = Some None" "new_var q name t w = Some (w_brk w, w1)"
     "w_objs w1 = (w_objs w)(q \<mapsto> ob\<lparr>ob_vars := ob_vars ob @ [w_brk w]\<rparr>)"
     "w_vars w1 = (w_vars w)(w_brk w \<mapsto> (AG_InitVariable t blank_var)\<lparr>v_name := name\<rparr>)"
     "w_mem w1 = w_mem w" "w_reg w1 = w_reg w" "w_vars w (w_brk w) = None" "world_ok w1"
    using new_name [OF assms(1-3), of t] by blast
  have t: "num_type m = t" "vt_indirLvl (agVariableTypes t) = 0" using assms(5) by (cases t; auto simp: vt_def)+
  let ?V = "(AG_InitVariable t blank_var)\<lparr>v_name := name, v_data := c\<rparr>"
  have "FN_VARIABLE_SET m t q name c w = Some (w_brk w, put_var (w_brk w) ?V w1)"
    using n(1-3,5) t(2) by (simp add: FN_VARIABLE_SET_def AG_FetchVariable_def AG_InitVariable_def)
  moreover have "world_ok (put_var (w_brk w) ?V w1)" using n(5,9) by (intro world_ok_put) auto
  then have "vars_added w (put_var (w_brk w) ?V w1) q [(name, S_num c)]"
    unfolding vars_added_def using n assms(4) t(1)
    by (intro exI [of _ ob] exI [of _ "[w_brk w]"]) (auto simp: own_value_def AG_InitVariable_def)
  ultimately show ?thesis by blast
qed

lemma set_string_added:
  assumes "no_var w q name" and "world_ok w" and "length name < AG_VARIABLE_NAME_MAX" and "nonul s"
  shows "\<exists>v w'. AG_SetString q name s w = Some (v, w') \<and> vars_added w w' q [(name, S_str s)]"
proof -
  obtain ob w1 where n: "w_objs w q = Some ob" "find_var w ob name = Some None" "new_var q name AG_VARIABLE_STRING w = Some (w_brk w, w1)"
     "w_objs w1 = (w_objs w)(q \<mapsto> ob\<lparr>ob_vars := ob_vars ob @ [w_brk w]\<rparr>)"
     "w_vars w1 = (w_vars w)(w_brk w \<mapsto> (AG_InitVariable AG_VARIABLE_STRING blank_var)\<lparr>v_name := name\<rparr>)"
     "w_mem w1 = w_mem w" "w_reg w1 = w_reg w" "w_vars w (w_brk w) = None" "world_ok w1"
    using new_name [OF assms(1-3), of AG_VARIABLE_STRING] by blast
  let ?a = "w_brk w1" and ?w2 = "put_mem (w_brk w1) (M_buf (s @ [NUL])) (w1\<lparr>w_brk := Suc (w_brk w1)\<rparr>)"
  let ?V = "(AG_InitVariable AG_VARIABLE_STRING blank_var)\<lparr>v_name := name, v_info := I_size 0, v_data := C_s (Some ?a)\<rparr>"
  have fresh: "w_mem w ?a = None" using n(6,9) by (auto simp: world_ok_def)
  have run: "AG_SetString q name s w = Some (w_brk w, put_var (w_brk w) ?V ?w2)"
    using n(1-3,5) by (simp add: AG_SetString_def Strdup_def fresh_def Let_def)
  have "world_ok ?w2" using n(9) by (auto simp: world_ok_def)
  then have ok: "world_ok (put_var (w_brk w) ?V ?w2)" using n(5) by (rule_tac world_ok_put(1)) auto
  have "w_mem w \<subseteq>\<^sub>m w_mem (put_var (w_brk w) ?V ?w2)" using fresh n(6) by (auto simp: map_le_def)
  then have "vars_added w (put_var (w_brk w) ?V ?w2) q [(name, S_str s)]"
    unfolding vars_added_def using n assms(4) ok
    by (intro exI [of _ ob] exI [of _ "[w_brk w]"]) (auto simp: own_value_def AG_InitVariable_def)
  with run show ?thesis by blast
qed

section \<open>The entries of the table of variables\<close>

text \<open>A variable as it is saved: its name, its type and its value.\<close>

type_synonym entry = "string \<times> AG_VariableType \<times> saved_val"

fun entry_ok :: "entry \<Rightarrow> bool" where
  "entry_ok (name, t, x) \<longleftrightarrow> nonul name \<and> length name < AG_VARIABLE_NAME_MAX \<and> val_ok (vt_typeTgt (agVariableTypes t)) x"

fun entry_bytes :: "ag_byte_order \<Rightarrow> entry \<Rightarrow> byte list" where
  "entry_bytes ord (name, t, x) = string_bytes ord name @ num_bytes ord 4 AG_Swap32 (of_int (code_of t)) @ val_bytes ord x"

definition entries_bytes :: "ag_byte_order \<Rightarrow> entry list \<Rightarrow> byte list" where
  "entries_bytes ord es = concat (map (entry_bytes ord) es)"

abbreviation named :: "entry list \<Rightarrow> (string \<times> saved_val) list" where
  "named \<equiv> map (\<lambda>(name, t, x). (name, x))"

lemma entries_bytes_Nil [simp]: "entries_bytes ord [] = []" by (simp add: entries_bytes_def)
lemma entries_bytes_Cons [simp]: "entries_bytes ord (e # es) = entry_bytes ord e @ entries_bytes ord es"
  by (simp add: entries_bytes_def)
lemma entries_bytes_append [simp]: "entries_bytes ord (a @ b) = entries_bytes ord a @ entries_bytes ord b"
  by (simp add: entries_bytes_def)

text \<open>Names that are not added stay free.\<close>

lemma vars_added_no_var:
  assumes "vars_added w w' q es" and "no_var w q name" and "name \<notin> fst ` set es"
  shows "no_var w' q name"
proof -
  obtain ob new where a: "w_objs w q = Some ob" "w_objs w' = (w_objs w)(q \<mapsto> ob\<lparr>ob_vars := ob_vars ob @ new\<rparr>)" "distinct new"
     "\<forall>v \<in> set new. w_vars w v = None" "\<forall>x. w_vars w x \<noteq> None \<longrightarrow> w_vars w' x = w_vars w x"
     "list_all2 (\<lambda>v (name, x). \<exists>V. w_vars w' v = Some V \<and> v_name V = name \<and> own_value w' V x) new es"
    using assms(1) unfolding vars_added_def by blast
  have o: "distinct (ob_vars ob)" "\<forall>x \<in> set (ob_vars ob). \<exists>r. w_vars w x = Some r \<and> v_name r \<noteq> name"
    using assms(2) a(1) by (auto simp: no_var_def)
  have "\<exists>r. w_vars w' v = Some r \<and> v_name r \<noteq> name" if v: "v \<in> set new" for v
  proof -
    obtain i where i: "i < length new" "v = new ! i" using v by (auto simp: in_set_conv_nth)
    have "es ! i \<in> set es" using i a(6) by (simp add: list_all2_lengthD)
    then have "fst (es ! i) \<noteq> name" using assms(3) by blast
    then show ?thesis using list_all2_nthD [OF a(6) i(1)] i(2) by (cases "es ! i") auto
  qed
  moreover have "\<exists>r. w_vars w' v = Some r \<and> v_name r \<noteq> name" if "v \<in> set (ob_vars ob)" for v
    using o(2) a(5) that by (metis option.distinct(1))
  moreover have "set (ob_vars ob) \<inter> set new = {}" using o(2) a(4) by fastforce
  ultimately show ?thesis using a(2,3) o(1) by (auto simp: no_var_def)
qed

text \<open>Reading the parts of an entry from a source that is not in debug mode.\<close>

lemma read_u32_ok:
  assumes "src_ok ds" and "\<not> ds_debug ds" and "to_read ds = num_bytes (byte_order ds) 4 AG_Swap32 x @ rest"
  shows "\<exists>ds'. AG_ReadUint32 ds = Some (x, ds') \<and> reads ds rest ds'"
  using read_num_ok [OF assms(1), of AG_SOURCE_UINT32 4 AG_Swap32 x rest] assms(2,3)
  by (simp add: AG_ReadUint32_def type_bytes_def)

lemma copy_str_ok:
  assumes "src_ok ds" and "\<not> ds_debug ds" and "to_read ds = string_bytes (byte_order ds) s @ rest" and "nonul s" and "length s < n"
    and "n \<le> 2 ^ 32"
  shows "\<exists>ds'. copy_str n ds = Some (length s, s, ds') \<and> reads ds rest ds'"
proof -
  have "take (n - 1) s = s" "drop (n - 1) s = []" using assms(5) by auto
  then show ?thesis
    using AG_CopyString_ok [OF assms(1), of s rest n "replicate n NUL"] assms
    by (auto simp: copy_str_def type_bytes_def)
qed

lemma AG_ReadString_ok:
  assumes "src_ok ds" and "\<not> ds_debug ds" and "to_read ds = string_bytes (byte_order ds) s @ rest" and "nonul s"
    and "length s \<le> AG_LOAD_STRING_MAX"
  shows "\<exists>ds'. AG_ReadString ds = Some (Some s, ds') \<and> reads ds rest ds'"
proof -
  obtain ds' where "AG_ReadStringLen AG_LOAD_STRING_MAX ds = Some (Some (s @ [NUL]), ds')" "reads ds rest ds'"
    using AG_ReadStringLen_ok [OF assms(1-3,5)] by (auto simp: AG_LOAD_STRING_MAX_def)
  then show ?thesis using assms(4) by (simp add: AG_ReadString_def)
qed

lemma load_num_ok:
  assumes "\<exists>ds'. r = Some (x, ds') \<and> reads ds rest ds'" and "\<exists>v w'. setv x w = Some (v, w') \<and> P w'"
  shows "\<exists>ds' w'. load_num r setv w = Some (True, ds', w') \<and> reads ds rest ds' \<and> P w'"
  using assms by (auto simp: load_num_def)

lemmas number_setters =
  AG_SetUint_def AG_SetInt_def AG_SetUint8_def AG_SetSint8_def AG_SetUint16_def AG_SetSint16_def AG_SetUint32_def
  AG_SetSint32_def AG_SetUint64_def AG_SetSint64_def AG_SetFloat_def AG_SetDouble_def

lemmas number_readers =
  AG_ReadUint8_def AG_ReadUint16_def AG_ReadUint32_def AG_ReadUint64_def AG_ReadFloat_def AG_ReadDouble_def

lemma load_value_ok:
  assumes "src_ok ds" and "\<not> ds_debug ds" and "to_read ds = val_bytes (byte_order ds) x @ rest" and "val_ok t x"
    and "no_var w q name" and "world_ok w" and "length name < AG_VARIABLE_NAME_MAX"
  shows "\<exists>ds' w'. load_value t q name ds w = Some (True, ds', w') \<and> reads ds rest ds' \<and> vars_added w w' q [(name, x)]"
proof (cases x)
  case (S_str s)
  then have t: "t = AG_VARIABLE_STRING" "nonul s" "length s \<le> AG_LOAD_STRING_MAX" using assms(4) by auto
  obtain d1 where "AG_ReadString ds = Some (Some s, d1)" "reads ds rest d1"
    using AG_ReadString_ok [OF assms(1,2) _ t(2,3)] assms(3) S_str by auto
  then show ?thesis using set_string_added [OF assms(5-7) t(2)] t(1) S_str by auto
next
  case (S_num c)
  then obtain m where m: "saved_memb t = Some m" "memb_of c = Some m" using assms(4) by (cases "saved_memb t") auto
  have rd: "\<exists>ds'. read_num ty n sw ds = Some (y, ds') \<and> reads ds rest ds'"
    if "to_read ds = num_bytes (byte_order ds) n sw y @ rest" "LENGTH('a) = 8 * n" "\<And>z. sw (sw z) = z"
    for ty n and sw :: "'a :: len word \<Rightarrow> 'a word" and y
    using read_num_ok [OF assms(1), of ty n sw y rest] assms(2) that by (simp add: type_bytes_def)
  have st: "\<exists>v w'. FN_VARIABLE_SET m t q name c w = Some (v, w') \<and> vars_added w w' q [(name, S_num c)]"
    using set_number_added [OF assms(5-7) m(2,1)] .
  show ?thesis using m S_num st assms(3)
    by (cases c; simp; cases t; simp)
      (rule load_num_ok; simp add: number_readers number_setters rd)+
qed

lemma load_vars_ok:
  assumes "list_all entry_ok es" and "distinct (map fst es)" and "\<forall>e \<in> set es. no_var w q (fst e)"
    and "src_ok ds" and "\<not> ds_debug ds" and "to_read ds = entries_bytes (byte_order ds) es @ rest" and "world_ok w"
    and "w_objs w q \<noteq> None"
  shows "\<exists>ds' w'. load_vars q (length es) ds w = Some (True, ds', w') \<and> reads ds rest ds' \<and> vars_added w w' q (named es)"
  using assms
proof (induction es arbitrary: ds w)
  case Nil
  then show ?case using vars_added_Nil by (auto simp: reads_def)
next
  case (Cons e es)
  obtain name t x where e: "e = (name, t, x)" by (cases e)
  let ?tgt = "vt_typeTgt (agVariableTypes t)" and ?ord = "byte_order ds"
  have ok: "nonul name" "length name < AG_VARIABLE_NAME_MAX" "val_ok ?tgt x" and nv: "no_var w q name"
    using Cons.prems(1,3) e by auto
  have s: "saved_memb ?tgt \<noteq> None \<or> ?tgt = AG_VARIABLE_STRING" using ok(3) by (cases x) auto
  note c = codes [OF refl s]
  let ?rest = "entries_bytes ?ord es @ rest" and ?code = "of_int (code_of t) :: 32 word"
  obtain d1 where d1: "copy_str 64 ds = Some (length name, name, d1)"
      "reads ds (num_bytes ?ord 4 AG_Swap32 ?code @ val_bytes ?ord x @ ?rest) d1"
    using copy_str_ok [OF Cons.prems(4,5), of name "num_bytes ?ord 4 AG_Swap32 ?code @ val_bytes ?ord x @ ?rest" 64]
      Cons.prems(6) ok(1,2) e by auto
  have s1: "src_ok d1" "\<not> ds_debug d1" "byte_order d1 = ?ord"
    using d1(2) Cons.prems(5) reads_setup [OF d1(2)] by (auto simp: reads_def)
  obtain d2 where d2: "AG_ReadUint32 d1 = Some (?code, d2)" "reads d1 (val_bytes ?ord x @ ?rest) d2"
    using read_u32_ok [OF s1(1,2), of ?code "val_bytes ?ord x @ ?rest"] d1(2) s1(3) by (auto simp: reads_def)
  have s2: "src_ok d2" "\<not> ds_debug d2" "byte_order d2 = ?ord"
    using d2(2) s1 reads_setup [OF d2(2)] by (auto simp: reads_def)
  obtain d3 w1 where d3: "load_value ?tgt q name d2 w = Some (True, d3, w1)" "reads d2 ?rest d3" "vars_added w w1 q [(name, x)]"
    using load_value_ok [OF s2(1,2) _ ok(3) nv Cons.prems(7) ok(2), of ?rest] d2(2) s2(3) by (auto simp: reads_def)
  have s3: "src_ok d3" "\<not> ds_debug d3" "byte_order d3 = ?ord" "to_read d3 = ?rest"
    using d3(2) s2 reads_setup [OF d3(2)] by (auto simp: reads_def)
  have w1: "world_ok w1" "w_objs w1 q \<noteq> None" using d3(3) by (auto simp: vars_added_def)
  have "\<forall>e' \<in> set es. no_var w1 q (fst e')"
    using vars_added_no_var [OF d3(3)] Cons.prems(2,3) e by (fastforce simp: image_iff)
  then obtain d4 w2 where d4: "load_vars q (length es) d3 w1 = Some (True, d4, w2)" "reads d3 rest d4" "vars_added w1 w2 q (named es)"
    using Cons.IH [of w1 d3] Cons.prems(1,2) s3 w1 by auto
  obtain t' where t': "type_of_code (code_of t) = Some t'" "vt_typeTgt (agVariableTypes t') = ?tgt" using c(3) by blast
  have "load_vars q (length (e # es)) ds w = Some (True, d4, w2)"
    using d1(1) d2(1) d3(1) d4(1) t' c(2) ok(2) by simp
  moreover have "reads ds rest d4" using d1(2) d2(2) d3(2) d4(2) by (meson reads_trans)
  moreover have "vars_added w w2 q (named (e # es))" using vars_added_trans [OF d3(3) d4(3)] e by simp
  ultimately show ?case by blast
qed

section \<open>Saving the variables\<close>

lemma AG_WriteString_plain:
  assumes "at_end ds" and "\<not> ds_debug ds" and "int (length (cs_data ds)) + int (length s) + 65536 < 2 ^ 63"
  shows "\<exists>ds'. AG_WriteString (Some s) ds = Some ds' \<and> appends ds (string_bytes (byte_order ds) s) ds'"
  using AG_WriteString_ok [OF assms(1), of s] assms(2,3) by (auto simp: type_bytes_def)

lemma AG_WriteString_null: "AG_WriteString None ds = AG_WriteString (Some []) ds"
  by (simp add: AG_WriteString_def)

lemma write_u32_ok:
  assumes "at_end ds" and "\<not> ds_debug ds" and "int (length (cs_data ds)) + 65536 < 2 ^ 63"
  shows "\<exists>ds'. AG_WriteUint32 x ds = Some ds' \<and> appends ds (num_bytes (byte_order ds) 4 AG_Swap32 x) ds'"
  using write_num_ok [OF assms(1), of 4 AG_SOURCE_UINT32 AG_Swap32 x] assms(2,3) by (auto simp: AG_WriteUint32_def type_bytes_def)

lemma save_value_ok:
  assumes "at_end ds" and "\<not> ds_debug ds" and "int (length (cs_data ds)) + 131072 < 2 ^ 63"
    and "var_value V w = Some x" and "val_ok (vt_typeTgt (agVariableTypes (v_type V))) x"
  shows "\<exists>ds'. save_value V w ds = Some ds' \<and> appends ds (val_bytes (byte_order ds) x) ds'"
proof (cases x)
  case (S_num c)
  let ?t = "vt_typeTgt (agVariableTypes (v_type V))"
  obtain m where m: "saved_memb ?t = Some m" "memb_of c = Some m" using assms(5) S_num by (cases "saved_memb ?t") auto
  obtain ds' where "write_cval c ds = Some ds'" "appends ds (cval_bytes (byte_order ds) c) ds'"
    using write_cval_ok [OF assms(1,2) _ m] assms(3) by auto
  then show ?thesis using assms(4) S_num m by (auto simp: save_value_def var_value_def Let_def split: if_splits)
next
  case (S_str s)
  let ?t = "vt_typeTgt (agVariableTypes (v_type V))"
  have t: "?t = AG_VARIABLE_STRING" "length s \<le> AG_LOAD_STRING_MAX" using assms(5) S_str by auto
  obtain ds' where "AG_WriteString (Some s) ds = Some ds'" "appends ds (string_bytes (byte_order ds) s) ds'"
    using AG_WriteString_plain [OF assms(1,2), of s] assms(3) t(2) by (auto simp: AG_LOAD_STRING_MAX_def)
  then show ?thesis using assms(4) S_str t(1)
    by (cases "ptr_of (v_data V)") (auto simp: save_value_def var_value_def Let_def AG_WriteString_null split: option.splits)
qed

text \<open>The entries of the table for variables without functions whose values can be saved and loaded.\<close>

definition saved_entry :: "world \<Rightarrow> nat \<Rightarrow> entry list" where
  "saved_entry w v = (case w_vars w v of None \<Rightarrow> [] | Some V \<Rightarrow>
     if code_of (v_type V) = -1 then [] else [(v_name V, v_type V, the (var_value V w))])"

definition saved_entries :: "world \<Rightarrow> nat list \<Rightarrow> entry list" where
  "saved_entries w vs = concat (map (saved_entry w) vs)"

definition savable :: "world \<Rightarrow> nat \<Rightarrow> bool" where
  "savable w v \<longleftrightarrow> (\<exists>V. w_vars w v = Some V \<and> v_fn V = None \<and>
     (code_of (v_type V) \<noteq> -1 \<longrightarrow> (\<exists>x. var_value V w = Some x \<and> entry_ok (v_name V, v_type V, x))))"

lemma saved_entries_simps [simp]:
  "saved_entries w [] = []" "saved_entries w (v # vs) = saved_entry w v @ saved_entries w vs"
  by (simp_all add: saved_entries_def)

lemma entry_room:
  assumes "entry_ok e"
  shows "length (entry_bytes ord e) \<le> 40000"
proof (cases e)
  case (fields name t x)
  then show ?thesis using assms val_room [of "vt_typeTgt (agVariableTypes t)" x ord] by (auto simp: string_bytes_def)
qed

lemma savable_entry_ok: "savable w v \<Longrightarrow> list_all entry_ok (saved_entry w v)"
  by (auto simp: savable_def saved_entry_def)

lemma savable_entries_ok: "list_all (savable w) vs \<Longrightarrow> list_all entry_ok (saved_entries w vs)"
  by (induction vs) (auto simp: savable_entry_ok)

lemma save_vars_ok:
  assumes "list_all (savable w) vs" and "at_end ds" and "\<not> ds_debug ds"
    and "int (length (cs_data ds)) + int (length (entries_bytes (byte_order ds) (saved_entries w vs))) + 131072 < 2 ^ 63"
  shows "\<exists>ds'. save_vars H p vs count ds w = Some (count + of_nat (length (saved_entries w vs)), ds', w) \<and>
     appends ds (entries_bytes (byte_order ds) (saved_entries w vs)) ds'"
  using assms
proof (induction vs arbitrary: count ds)
  case Nil
  then show ?case by (auto simp: appends_def at_end_def)
next
  case (Cons v vs)
  obtain V where V: "w_vars w v = Some V" "v_fn V = None" using Cons.prems(1) by (auto simp: savable_def)
  show ?case
  proof (cases "code_of (v_type V) = -1")
    case True
    then have "saved_entry w v = []" using V by (simp add: saved_entry_def)
    then show ?thesis using Cons.IH [of ds count] Cons.prems V True by (auto simp: code_of_def Let_def)
  next
    case False
    then obtain x where x: "var_value V w = Some x" "entry_ok (v_name V, v_type V, x)"
      using Cons.prems(1) V by (auto simp: savable_def)
    let ?e = "(v_name V, v_type V, x)" and ?ord = "byte_order ds"
    let ?n = "string_bytes ?ord (v_name V)" and ?c = "num_bytes ?ord 4 AG_Swap32 (of_int (code_of (v_type V)))"
    have e: "saved_entry w v = [?e]" using V False x(1) by (simp add: saved_entry_def)
    have nl: "length (v_name V) < 40" using x(2) by simp
    have room: "int (length (cs_data ds)) + 131072 < 2 ^ 63" using Cons.prems(4) by linarith
    obtain d1 where d1: "AG_WriteString (Some (v_name V)) ds = Some d1" "appends ds ?n d1"
      using AG_WriteString_plain [OF Cons.prems(2,3), of "v_name V"] room nl by auto
    note s1 = appends_setup [OF d1(2)] appends_at_end [OF Cons.prems(2) d1(2)]
    have l1: "length (cs_data d1) = length (cs_data ds) + length ?n" using d1(2) by (simp add: appends_def)
    have r1: "int (length (cs_data d1)) + 66000 < 2 ^ 63" using l1 room nl by (simp add: string_bytes_def)
    obtain d2 where d2: "AG_WriteUint32 (of_int (code_of (v_type V))) d1 = Some d2" "appends d1 ?c d2"
      using write_u32_ok [OF s1(2), of "of_int (code_of (v_type V))"] s1(1) Cons.prems(3) r1 by auto
    note s2 = appends_setup [OF d2(2)] appends_at_end [OF s1(2) d2(2)]
    have l2: "length (cs_data d2) = length (cs_data d1) + 4" using d2(2) by (simp add: appends_def)
    obtain d3 where d3: "save_value V w d2 = Some d3" "appends d2 (val_bytes ?ord x) d3"
      using save_value_ok [OF s2(2), of V w x] s1(1) s2(1) Cons.prems(3,4) x l1 l2 e by (auto simp: string_bytes_def)
    have a3: "appends ds (entry_bytes ?ord ?e) d3"
      using appends_trans [OF appends_trans [OF d1(2) d2(2)] d3(2)] by simp
    have "length (cs_data d3) = length (cs_data ds) + length (entry_bytes ?ord ?e)" using a3 by (simp add: appends_def)
    then obtain d4 where d4: "save_vars H p vs (count + 1) d3 w = Some (count + 1 + of_nat (length (saved_entries w vs)), d4, w)"
        "appends d3 (entries_bytes ?ord (saved_entries w vs)) d4"
      using Cons.IH [of d3 "count + 1"] Cons.prems appends_setup [OF a3] appends_at_end [OF Cons.prems(2) a3] e by auto
    have "save_vars H p (v # vs) count ds w = Some (count + of_nat (length (saved_entries w (v # vs))), d4, w)"
      using V False d1(1) d2(1) d3(1) d4(1) e by (simp add: AG_EvalVariable_def Let_def code_of_def ac_simps)
    moreover have "appends ds (entries_bytes ?ord (saved_entries w (v # vs))) d4"
      using appends_trans [OF a3 d4(2)] e by simp
    ultimately show ?thesis by blast
  qed
qed

text \<open>A count that is left open and filled in when the items behind it are known.\<close>

lemma counted_ok:
  assumes "at_end ds" and "\<not> ds_debug ds" and "int (length (cs_data ds)) + int (length bs) + 150000 < 2 ^ 63"
    and "\<And>d. at_end d \<Longrightarrow> \<not> ds_debug d \<Longrightarrow> same_setup ds d \<Longrightarrow> int (length (cs_data d)) + int (length bs) + 140000 < 2 ^ 63 \<Longrightarrow>
      \<exists>d'. items d = Some (F d') \<and> appends d bs d'"
  shows "\<exists>d1 d2 ds'. AG_WriteUint32 0 ds = Some d1 \<and> items d1 = Some (F d2) \<and>
     AG_WriteUint32At count (AG_Tell ds) d2 = Some ds' \<and> appends ds (num_bytes (byte_order ds) 4 AG_Swap32 count @ bs) ds'"
proof -
  let ?z = "num_bytes (byte_order ds) 4 AG_Swap32 0"
  have room: "int (length (cs_data ds)) + 131072 < 2 ^ 63" using assms(3) by linarith
  then obtain d1 where d1: "AG_WriteUint32 0 ds = Some d1" "appends ds ?z d1" using write_u32_ok [OF assms(1,2), of 0] by auto
  note s1 = appends_setup [OF d1(2)] appends_at_end [OF assms(1) d1(2)]
  have l1: "length (cs_data d1) = length (cs_data ds) + 4" using d1(2) by (simp add: appends_def)
  obtain d2 where d2: "items d1 = Some (F d2)" "appends d1 bs d2"
    using assms(4) [of d1] s1 assms(2,3) d1(2) l1 by (auto simp: appends_def)
  note s2 = appends_setup [OF d2(2)] appends_at_end [OF s1(2) d2(2)]
  have data: "cs_data d2 = cs_data ds @ ?z @ bs" using d1(2) d2(2) by (simp add: appends_def)
  have tell: "AG_Tell ds = int (length (cs_data ds))"
    using at_end_offs [OF assms(1)] assms(1) by (auto simp: AG_Tell_def ds_tell_def CoreTell_def FileTell_def)
  obtain ds' where ds': "AG_WriteUint32At count (AG_Tell ds) d2 = Some ds'" "at_end ds'"
     "cs_data ds' = cs_data ds @ num_bytes (byte_order d2) 4 AG_Swap32 count @ bs" "same_setup d2 ds'"
    using write_num_at_ok [OF s2(2) _ data, of 4 "int (length (cs_data ds))" AG_SOURCE_UINT32 AG_Swap32 count] s1 s2 assms(2)
    by (auto simp: AG_WriteUint32At_def tell)
  have "same_setup ds ds'" using d1(2) d2(2) ds'(4) unfolding appends_def by (meson same_setup_trans)
  then have "appends ds (num_bytes (byte_order ds) 4 AG_Swap32 count @ bs) ds'"
    using ds'(2,3) s1(1) s2(1) by (simp add: appends_def at_end_def)
  then show ?thesis using d1(1) d2(1) ds'(1) by blast
qed

definition table_bytes :: "AG_DataSource \<Rightarrow> entry list \<Rightarrow> byte list" where
  "table_bytes ds es = version_bytes ds ''AG_PropTbl'' agPropTblVer @
     num_bytes (byte_order ds) 4 AG_Swap32 (of_nat (length es)) @ entries_bytes (byte_order ds) es"

lemma save_variables_ok:
  assumes "w_objs w p = Some ob" and "list_all (savable w) (ob_vars ob)" and "at_end ds" and "\<not> ds_debug ds"
    and "int (length (cs_data ds)) + int (length (entries_bytes (byte_order ds) (saved_entries w (ob_vars ob)))) + 200000 < 2 ^ 63"
  shows "\<exists>ds'. AG_ObjectSaveVariables env p ds w = Some (ds', w) \<and> appends ds (table_bytes ds (saved_entries w (ob_vars ob))) ds'"
proof -
  let ?es = "saved_entries w (ob_vars ob)" and ?v = "version_bytes ds ''AG_PropTbl'' agPropTblVer"
  let ?H = "oe_hooks (ae_obj env)"
  have room: "int (length (cs_data ds)) + 200000 < 2 ^ 63" using assms(5) by linarith
  obtain d1 where d1: "AG_WriteVersion ''AG_PropTbl'' agPropTblVer ds = Some (0, d1)" "appends ds ?v d1"
    using AG_WriteVersion_ok [OF assms(3), of "''AG_PropTbl''" agPropTblVer] room by (auto simp: AG_VERSION_NAME_MAX_def)
  note s1 = appends_setup [OF d1(2)] appends_at_end [OF assms(3) d1(2)]
  have "length ?v \<le> 64"
    using length_magic [of "''AG_PropTbl''"] by (simp add: version_bytes_def type_bytes_def AG_VERSION_NAME_MAX_def assms(4))
  then have l1: "length (cs_data d1) \<le> length (cs_data ds) + 64" using d1(2) by (simp add: appends_def)
  let ?F = "\<lambda>d. (of_nat (length ?es), d, w)"
  have items: "\<exists>d'. save_vars ?H p (ob_vars ob) 0 d w = Some (?F d') \<and> appends d (entries_bytes (byte_order d1) ?es) d'"
    if d: "at_end d" "\<not> ds_debug d" "same_setup d1 d" "int (length (cs_data d)) + int (length (entries_bytes (byte_order d1) ?es)) + 140000 < 2 ^ 63" for d
    using save_vars_ok [OF assms(2) d(1,2), of ?H p 0] d(3,4) by (auto simp: same_setup_def)
  obtain d2 d3 ds' where ds': "AG_WriteUint32 0 d1 = Some d2" "save_vars ?H p (ob_vars ob) 0 d2 w = Some (?F d3)"
     "AG_WriteUint32At (of_nat (length ?es)) (AG_Tell d1) d3 = Some ds'"
     "appends d1 (num_bytes (byte_order d1) 4 AG_Swap32 (of_nat (length ?es)) @ entries_bytes (byte_order d1) ?es) ds'"
    using counted_ok [where items = "\<lambda>d. save_vars ?H p (ob_vars ob) 0 d w" and F = ?F and count = "of_nat (length ?es)" and bs = "entries_bytes (byte_order d1) ?es", OF s1(2) _ _ items]
      s1(1) assms(4,5) l1 by auto
  have "appends ds (table_bytes ds ?es) ds'" using appends_trans [OF d1(2) ds'(4)] s1(1) by (simp add: table_bytes_def)
  then show ?thesis using d1(1) ds'(1-3) assms(1) by (simp add: AG_ObjectSaveVariables_def Let_def)
qed

section \<open>Loading the variables\<close>

lemma load_variables_ok:
  assumes "w_objs w q = Some ob" and "ob_flags ob AND AG_OBJECT_FLOATING_VARS = 0"
    and "list_all entry_ok es" and "distinct (map fst es)" and "\<forall>e \<in> set es. no_var w q (fst e)" and "length es < 2 ^ 32"
    and "src_ok ds" and "\<not> ds_debug ds" and "to_read ds = table_bytes ds es @ rest" and "world_ok w"
  shows "\<exists>ds' w'. AG_ObjectLoadVariables q ds w = Some (0, ds', w') \<and> reads ds rest ds' \<and> vars_added w w' q (named es)"
proof -
  let ?ord = "byte_order ds"
  let ?r1 = "num_bytes ?ord 4 AG_Swap32 (of_nat (length es)) @ entries_bytes ?ord es @ rest"
  obtain d1 where d1: "AG_ReadVersion ''AG_PropTbl'' agPropTblVer ds = Some (0, Some agPropTblVer, d1)" "reads ds ?r1 d1"
    using AG_ReadVersion_ok [OF assms(7), of "''AG_PropTbl''" agPropTblVer ?r1 agPropTblVer] assms(9)
    by (auto simp: table_bytes_def AG_VERSION_NAME_MAX_def)
  note s1 = reads_setup [OF d1(2)]
  obtain d2 where d2: "AG_ReadUint32 d1 = Some (of_nat (length es), d2)" "reads d1 (entries_bytes ?ord es @ rest) d2"
    using read_u32_ok [of d1 "of_nat (length es)" "entries_bytes ?ord es @ rest"] d1(2) s1 assms(8) by (auto simp: reads_def)
  note s2 = reads_setup [OF d2(2)]
  obtain d3 w' where d3: "load_vars q (length es) d2 w = Some (True, d3, w')" "reads d2 rest d3" "vars_added w w' q (named es)"
    using load_vars_ok [OF assms(3-5), of d2 rest] d2(2) s1 s2 assms(1,8,10) by (auto simp: reads_def)
  have "unat (of_nat (length es) :: 32 word) = length es" using assms(6) by (simp add: unat_of_nat)
  moreover have "reads ds rest d3" using d1(2) d2(2) d3(2) by (meson reads_trans)
  ultimately show ?thesis using d1(1) d2(1) d3(1,3) assms(1,2)
    by (auto simp: AG_ObjectLoadVariables_def has_flag_def)
qed

section \<open>The header\<close>

definition header_bytes :: "arch_env \<Rightarrow> AG_DataSource \<Rightarrow> string \<Rightarrow> string \<Rightarrow> string \<Rightarrow> 32 word \<Rightarrow> 32 word \<Rightarrow> byte list" where
  "header_bytes env ds name hier libs offs flags = version_bytes ds name (cls_ver env agObjectClass) @
     string_bytes (byte_order ds) hier @ string_bytes (byte_order ds) libs @
     num_bytes (byte_order ds) 4 AG_Swap32 offs @ num_bytes (byte_order ds) 4 AG_Swap32 flags"

definition spec_ok :: "AG_ObjectClass \<Rightarrow> bool" where
  "spec_ok cl \<longleftrightarrow> nonul (cl_hier cl) \<and> length (cl_hier cl) < AG_OBJECT_HIER_MAX \<and> nonul (cl_libs cl) \<and> length (cl_libs cl) < AG_OBJECT_LIBS_MAX"

lemma read_header_ok:
  assumes "src_ok ds" and "\<not> ds_debug ds" and "length name < AG_VERSION_NAME_MAX"
    and "nonul hier" "length hier < AG_OBJECT_HIER_MAX" "nonul libs" "length libs < AG_OBJECT_LIBS_MAX"
    and "to_read ds = header_bytes env ds name hier libs offs flags @ rest"
  shows "\<exists>ds' oh. AG_ObjectReadHeader env name ds = Some (Some oh, ds') \<and> reads ds rest ds' \<and> oh_flags oh = flags \<and>
    oh_dataOffs oh = offs \<and> cs_hier (oh_cs oh) = hier \<and> cs_libs (oh_cs oh) = libs"
proof -
  let ?ord = "byte_order ds" and ?v = "cls_ver env agObjectClass"
  let ?n = "\<lambda>x. num_bytes ?ord 4 AG_Swap32 x"
  let ?r3 = "?n offs @ ?n flags @ rest"
  obtain d1 where d1: "AG_ReadVersion name ?v ds = Some (0, Some ?v, d1)" "reads ds (string_bytes ?ord hier @ string_bytes ?ord libs @ ?r3) d1"
    using AG_ReadVersion_ok [OF assms(1,3), of ?v "string_bytes ?ord hier @ string_bytes ?ord libs @ ?r3" ?v] assms(8)
    by (auto simp: header_bytes_def)
  note s1 = reads_setup [OF d1(2)]
  obtain d2 where d2: "copy_str AG_OBJECT_HIER_MAX d1 = Some (length hier, hier, d2)" "reads d1 (string_bytes ?ord libs @ ?r3) d2"
    using copy_str_ok [of d1 hier "string_bytes ?ord libs @ ?r3" AG_OBJECT_HIER_MAX] d1(2) s1 assms(2,4,5) by (auto simp: reads_def)
  note s2 = reads_setup [OF d2(2)]
  obtain d3 where d3: "copy_str AG_OBJECT_LIBS_MAX d2 = Some (length libs, libs, d3)" "reads d2 ?r3 d3"
    using copy_str_ok [of d2 libs ?r3 AG_OBJECT_LIBS_MAX] d2(2) s1 s2 assms(2,6,7) by (auto simp: reads_def)
  note s3 = reads_setup [OF d3(2)]
  obtain d4 where d4: "AG_ReadUint32 d3 = Some (offs, d4)" "reads d3 (?n flags @ rest) d4"
    using read_u32_ok [of d3 offs "?n flags @ rest"] d3(2) s1 s2 s3 assms(2) by (auto simp: reads_def)
  note s4 = reads_setup [OF d4(2)]
  obtain d5 where d5: "AG_ReadUint32 d4 = Some (flags, d5)" "reads d4 rest d5"
    using read_u32_ok [of d4 flags rest] d4(2) s1 s2 s3 s4 assms(2) by (auto simp: reads_def)
  have "reads ds rest d5" using d1(2) d2(2) d3(2) d4(2) d5(2) by (meson reads_trans)
  moreover have "2 \<le> minor ?v" by (simp add: cls_ver_def)
  ultimately show ?thesis using d1(1) d2(1) d3(1) d4(1) d5(1) by (simp add: AG_ObjectReadHeader_def)
qed

section \<open>The table of dependencies\<close>

definition dep_name :: "world \<Rightarrow> AG_ObjectDep \<Rightarrow> string option" where
  "dep_name w dep = do {
     q \<leftarrow> dep_obj dep;
     (_, buf) \<leftarrow> AG_ObjectCopyName q (replicate AG_OBJECT_PATH_MAX NUL) AG_OBJECT_PATH_MAX w;
     Some (cstr buf)
   }"

abbreviation kept :: "AG_ObjectDep list \<Rightarrow> AG_ObjectDep list" where
  "kept \<equiv> filter (\<lambda>d. dep_persistent d \<noteq> 0)"

definition paths_bytes :: "ag_byte_order \<Rightarrow> string list \<Rightarrow> byte list" where
  "paths_bytes ord paths = concat (map (string_bytes ord) paths)"

lemma paths_bytes_simps [simp]:
  "paths_bytes ord [] = []" "paths_bytes ord (s # ss) = string_bytes ord s @ paths_bytes ord ss"
  by (simp_all add: paths_bytes_def)

definition deps_bytes :: "ag_byte_order \<Rightarrow> string list \<Rightarrow> byte list" where
  "deps_bytes ord paths = num_bytes ord 4 AG_Swap32 (of_nat (length paths)) @ paths_bytes ord paths"

definition loaded_dep :: "string \<Rightarrow> AG_ObjectDep" where
  "loaded_dep path = \<lparr>dep_persistent = 1, dep_path = Some path, dep_obj = None, dep_count = 0\<rparr>"

lemma write_deps_ok:
  assumes "map (dep_name w) (kept deps) = map Some paths" and "at_end ds" and "\<not> ds_debug ds"
    and "int (length (cs_data ds)) + int (length (paths_bytes (byte_order ds) paths)) + 131072 < 2 ^ 63"
  shows "\<exists>ds'. write_deps deps count w ds = Some (count + of_nat (length paths), ds') \<and> appends ds (paths_bytes (byte_order ds) paths) ds'"
  using assms
proof (induction deps arbitrary: count ds paths)
  case Nil
  then show ?case by (auto simp: appends_def at_end_def)
next
  case (Cons dep deps)
  show ?case
  proof (cases "dep_persistent dep = 0")
    case True
    then show ?thesis using Cons.IH [of paths ds count] Cons.prems by simp
  next
    case False
    then obtain s ss where s: "paths = s # ss" "dep_name w dep = Some s" "map (dep_name w) (kept deps) = map Some ss"
      using Cons.prems(1) by (cases paths) auto
    obtain d1 where d1: "AG_WriteString (Some s) ds = Some d1" "appends ds (string_bytes (byte_order ds) s) d1"
      using AG_WriteString_plain [OF Cons.prems(2,3), of s] Cons.prems(4) s(1) by (auto simp: string_bytes_def)
    have "length (cs_data d1) = length (cs_data ds) + length (string_bytes (byte_order ds) s)" using d1(2) by (simp add: appends_def)
    then obtain d2 where d2: "write_deps deps (count + 1) w d1 = Some (count + 1 + of_nat (length ss), d2)"
        "appends d1 (paths_bytes (byte_order ds) ss) d2"
      using Cons.IH [OF s(3), of d1 "count + 1"] Cons.prems s(1) appends_setup [OF d1(2)] appends_at_end [OF Cons.prems(2) d1(2)] by auto
    show ?thesis using s d1(1) d2(1) False appends_trans [OF d1(2) d2(2)]
      by (auto simp: dep_name_def ac_simps split: option.splits Option.bind_splits)
  qed
qed

lemma write_dep_table_ok:
  assumes "w_objs w p = Some ob" and "map (dep_name w) (kept (ob_deps ob)) = map Some paths" and "at_end ds" and "\<not> ds_debug ds"
    and "int (length (cs_data ds)) + int (length (paths_bytes (byte_order ds) paths)) + 200000 < 2 ^ 63"
  shows "\<exists>ds'. write_dep_table p ds w = Some ds' \<and> appends ds (deps_bytes (byte_order ds) paths) ds'"
proof -
  let ?F = "\<lambda>d. (of_nat (length paths), d)" and ?n = "of_nat (length paths) :: 32 word"
  have items: "\<exists>d'. write_deps (ob_deps ob) 0 w d = Some (?F d') \<and> appends d (paths_bytes (byte_order ds) paths) d'"
    if d: "at_end d" "\<not> ds_debug d" "same_setup ds d" "int (length (cs_data d)) + int (length (paths_bytes (byte_order ds) paths)) + 140000 < 2 ^ 63" for d
    using write_deps_ok [OF assms(2) d(1,2), of 0] d(3,4) by (auto simp: same_setup_def)
  show ?thesis
    using counted_ok [where items = "write_deps (ob_deps ob) 0 w" and F = ?F and count = ?n and bs = "paths_bytes (byte_order ds) paths",
        OF assms(3,4) _ items] assms(1,5)
    by (auto simp: write_dep_table_def Let_def deps_bytes_def)
qed

lemma read_deps_ok:
  assumes "list_all (\<lambda>s. nonul s \<and> length s \<le> AG_LOAD_STRING_MAX) paths" and "src_ok ds" and "\<not> ds_debug ds"
    and "to_read ds = paths_bytes (byte_order ds) paths @ rest" and "w_objs w q = Some ob"
  shows "\<exists>ds'. read_deps q (length paths) ds w =
      Some (True, ds', put_obj q (ob\<lparr>ob_deps := ob_deps ob @ map loaded_dep paths\<rparr>) w) \<and> reads ds rest ds'"
  using assms
proof (induction paths arbitrary: ds w ob)
  case Nil
  then show ?case by (auto simp: reads_def put_obj_def fun_upd_idem)
next
  case (Cons s ss)
  obtain d1 where d1: "AG_ReadString ds = Some (Some s, d1)" "reads ds (paths_bytes (byte_order ds) ss @ rest) d1"
    using AG_ReadString_ok [OF Cons.prems(2,3), of s "paths_bytes (byte_order ds) ss @ rest"] Cons.prems(1,4) by auto
  note s1 = reads_setup [OF d1(2)]
  let ?ob = "ob\<lparr>ob_deps := ob_deps ob @ [loaded_dep s]\<rparr>"
  obtain d2 where d2: "read_deps q (length ss) d1 (put_obj q ?ob w) =
      Some (True, d2, put_obj q (?ob\<lparr>ob_deps := ob_deps ?ob @ map loaded_dep ss\<rparr>) (put_obj q ?ob w))" "reads d1 rest d2"
    using Cons.IH [of d1 "put_obj q ?ob w" ?ob] Cons.prems s1 d1(2) by (auto simp: reads_def)
  have "reads ds rest d2" using reads_trans [OF d1(2) d2(2)] .
  then show ?case using d1(1) d2(1) Cons.prems(5) by (simp add: upd_obj_def put_obj_def loaded_dep_def [symmetric])
qed

lemma ReadDependencyTable_ok:
  assumes "list_all (\<lambda>s. nonul s \<and> length s \<le> AG_LOAD_STRING_MAX) paths" and "length paths < 2 ^ 32" and "src_ok ds" and "\<not> ds_debug ds"
    and "to_read ds = deps_bytes (byte_order ds) paths @ rest" and "w_objs w q = Some ob"
  shows "\<exists>ds'. ReadDependencyTable q ds w =
      Some (0, ds', put_obj q (ob\<lparr>ob_deps := ob_deps ob @ map loaded_dep paths\<rparr>) w) \<and> reads ds rest ds'"
proof -
  obtain d1 where d1: "AG_ReadUint32 ds = Some (of_nat (length paths), d1)" "reads ds (paths_bytes (byte_order ds) paths @ rest) d1"
    using read_u32_ok [OF assms(3,4), of "of_nat (length paths)" "paths_bytes (byte_order ds) paths @ rest"] assms(5)
    by (auto simp: deps_bytes_def)
  note s1 = reads_setup [OF d1(2)]
  have "unat (of_nat (length paths) :: 32 word) = length paths" using assms(2) by (simp add: unat_of_nat)
  moreover obtain d2 where "read_deps q (length paths) d1 w =
      Some (True, d2, put_obj q (ob\<lparr>ob_deps := ob_deps ob @ map loaded_dep paths\<rparr>) w)" "reads d1 rest d2"
    using read_deps_ok [OF assms(1), of d1 rest w q ob] d1(2) s1 assms(4,6) by (auto simp: reads_def)
  ultimately show ?thesis using d1(1) reads_trans [OF d1(2)] by (auto simp: ReadDependencyTable_def)
qed

section \<open>Whole archives\<close>

lemma length_version_bytes:
  "\<not> ds_debug ds \<Longrightarrow> length name < AG_VERSION_NAME_MAX \<Longrightarrow> length (version_bytes ds name ver) = 56"
  using length_magic [of name] by (simp add: version_bytes_def type_bytes_def AG_VERSION_NAME_MAX_def)

text \<open>What precedes the offset of the data set in an archive, what is between it and the data set, and what follows.\<close>

definition arch_start :: "arch_env \<Rightarrow> AG_DataSource \<Rightarrow> string \<Rightarrow> AG_ObjectClass \<Rightarrow> byte list" where
  "arch_start env ds name cl = version_bytes ds name (cls_ver env agObjectClass) @
     string_bytes (byte_order ds) (cl_hier cl) @ string_bytes (byte_order ds) (cl_libs cl)"

definition arch_tables :: "AG_DataSource \<Rightarrow> 32 word \<Rightarrow> string list \<Rightarrow> entry list \<Rightarrow> byte list" where
  "arch_tables ds flags paths es = num_bytes (byte_order ds) 4 AG_Swap32 flags @ deps_bytes (byte_order ds) paths @
     table_bytes ds es @ num_bytes (byte_order ds) 4 AG_Swap32 0"

definition arch_bytes :: "arch_env \<Rightarrow> AG_DataSource \<Rightarrow> string \<Rightarrow> AG_ObjectClass \<Rightarrow> AG_Version \<Rightarrow> 32 word \<Rightarrow> string list \<Rightarrow>
    entry list \<Rightarrow> byte list \<Rightarrow> byte list" where
  "arch_bytes env ds name cl ver flags paths es data =
     arch_start env ds name cl @
     num_bytes (byte_order ds) 4 AG_Swap32
       (of_nat (length (cs_data ds) + length (arch_start env ds name cl) + 4 + length (arch_tables ds flags paths es))) @
     arch_tables ds flags paths es @ version_bytes ds (cl_name cl) ver @ data"

lemma same_setup_order: "same_setup a b \<Longrightarrow> byte_order b = byte_order a \<and> ds_debug b = ds_debug a"
  by (simp add: same_setup_def)

text \<open>The routines of the classes: what they write, and that they read it back.\<close>

definition saves :: "arch_env \<Rightarrow> nat list \<Rightarrow> nat \<Rightarrow> world \<Rightarrow> AG_DataSource \<Rightarrow> byte list \<Rightarrow> bool" where
  "saves env ks p w ds data \<longleftrightarrow> (\<forall>d. at_end d \<and> same_setup ds d \<and> int (length (cs_data d)) + int (length data) + 65536 < 2 ^ 63 \<longrightarrow>
     (\<exists>d'. run_save env ks p d w = Some (True, d', w) \<and> appends d data d'))"

definition loads :: "arch_env \<Rightarrow> nat list \<Rightarrow> nat \<Rightarrow> AG_Version \<Rightarrow> AG_DataSource \<Rightarrow> byte list \<Rightarrow> (world \<Rightarrow> world) \<Rightarrow> bool" where
  "loads env ks q ver ds data F \<longleftrightarrow> (\<forall>d w. src_ok d \<and> same_setup ds d \<and> to_read d = data \<longrightarrow>
     (\<exists>d'. run_load env ks q ver d w = Some (True, d', F w)))"

text \<open>An object whose archive can be loaded again.\<close>

definition archivable :: "arch_env \<Rightarrow> nat \<Rightarrow> world \<Rightarrow> AG_Object \<Rightarrow> AG_ObjectClass \<Rightarrow> nat list \<Rightarrow> string list \<Rightarrow> bool" where
  "archivable env p w ob cl ks paths \<longleftrightarrow> w_objs w p = Some ob \<and> cl = cl_mem (w_reg w) (ob_cls ob) \<and>
     ob_flags ob AND (AG_OBJECT_CHLD_AUTOSAVE OR AG_OBJECT_DEBUG_DATA) = 0 \<and> obj_hier p w = Some (Some ks) \<and>
     spec_ok cl \<and> nonul (cl_name cl) \<and> length (cl_name cl) < AG_VERSION_NAME_MAX \<and>
     nonul (cl_name (cl_mem (w_reg w) agObjectClass)) \<and> length (cl_name (cl_mem (w_reg w) agObjectClass)) < AG_VERSION_NAME_MAX \<and>
     list_all (savable w) (ob_vars ob) \<and> distinct (map fst (saved_entries w (ob_vars ob))) \<and>
     length (saved_entries w (ob_vars ob)) < 2 ^ 32 \<and>
     map (dep_name w) (kept (ob_deps ob)) = map Some paths \<and> list_all (\<lambda>s. length s \<le> AG_LOAD_STRING_MAX) paths \<and> length paths < 2 ^ 32"

definition obj_archive :: "arch_env \<Rightarrow> world \<Rightarrow> AG_DataSource \<Rightarrow> AG_Object \<Rightarrow> AG_ObjectClass \<Rightarrow> string list \<Rightarrow> byte list \<Rightarrow> byte list" where
  "obj_archive env w ds ob cl paths data = arch_bytes env ds (cl_name (cl_mem (w_reg w) agObjectClass)) cl (cls_ver env (ob_cls ob))
     (ob_flags ob AND AG_OBJECT_SAVED_FLAGS) paths (saved_entries w (ob_vars ob)) data"

lemma archivable_flags:
  assumes "archivable env p w ob cl ks paths"
  shows "ob_flags ob AND AG_OBJECT_CHLD_AUTOSAVE = 0" and "ob_flags ob AND AG_OBJECT_DEBUG_DATA = 0"
proof -
  have z: "ob_flags ob AND (AG_OBJECT_CHLD_AUTOSAVE OR AG_OBJECT_DEBUG_DATA) = 0" using assms by (simp add: archivable_def)
  have "ob_flags ob AND x = (ob_flags ob AND (AG_OBJECT_CHLD_AUTOSAVE OR AG_OBJECT_DEBUG_DATA)) AND x"
    if "(AG_OBJECT_CHLD_AUTOSAVE OR AG_OBJECT_DEBUG_DATA) AND x = x" for x using that by (simp add: and.assoc)
  from this [of AG_OBJECT_CHLD_AUTOSAVE] this [of AG_OBJECT_DEBUG_DATA] z
  show "ob_flags ob AND AG_OBJECT_CHLD_AUTOSAVE = 0" and "ob_flags ob AND AG_OBJECT_DEBUG_DATA = 0"
    by (simp_all add: AG_OBJECT_CHLD_AUTOSAVE_def AG_OBJECT_DEBUG_DATA_def)
qed

lemma write_header_ok:
  assumes "archivable env p w ob cl ks paths" and "at_end ds" and "\<not> ds_debug ds" and "int (length (cs_data ds)) + 200000 < 2 ^ 63"
  defines "S \<equiv> arch_start env ds (cl_name (cl_mem (w_reg w) agObjectClass)) cl"
  shows "\<exists>ds'. write_header env p ds w = Some (int (length (cs_data ds) + length S), ds') \<and>
    appends ds (S @ num_bytes (byte_order ds) 4 AG_Swap32 0 @ num_bytes (byte_order ds) 4 AG_Swap32 (ob_flags ob AND AG_OBJECT_SAVED_FLAGS)) ds'
    \<and> length S < 1000"
proof -
  let ?ord = "byte_order ds" and ?name = "cl_name (cl_mem (w_reg w) agObjectClass)" and ?v = "cls_ver env agObjectClass"
  have A: "w_objs w p = Some ob" "cl = cl_mem (w_reg w) (ob_cls ob)" "spec_ok cl" "nonul ?name" "length ?name < AG_VERSION_NAME_MAX"
    using assms(1) by (auto simp: archivable_def)
  have sp: "length (cl_hier cl) < 256" "length (cl_libs cl) < 128" using A(3) by (auto simp: spec_ok_def)
  have l: "length (version_bytes ds ?name ?v) = 56" using length_version_bytes [OF assms(3) A(5)] .
  obtain d1 where d1: "AG_WriteVersion ?name ?v ds = Some (0, d1)" "appends ds (version_bytes ds ?name ?v) d1"
    using AG_WriteVersion_ok [OF assms(2) A(4,5), of ?v] assms(4) by auto
  note s1 = appends_setup [OF d1(2)] appends_at_end [OF assms(2) d1(2)]
  have l1: "length (cs_data d1) = length (cs_data ds) + 56" using d1(2) l by (simp add: appends_def)
  obtain d2 where d2: "AG_WriteString (Some (cl_hier cl)) d1 = Some d2" "appends d1 (string_bytes ?ord (cl_hier cl)) d2"
    using AG_WriteString_plain [OF s1(2), of "cl_hier cl"] s1(1) assms(3,4) l1 sp by auto
  note s2 = appends_setup [OF d2(2)] appends_at_end [OF s1(2) d2(2)]
  have l2: "length (cs_data d2) < length (cs_data ds) + 400" using d2(2) l1 sp by (simp add: appends_def string_bytes_def)
  obtain d3 where d3: "AG_WriteString (Some (cl_libs cl)) d2 = Some d3" "appends d2 (string_bytes ?ord (cl_libs cl)) d3"
    using AG_WriteString_plain [OF s2(2), of "cl_libs cl"] s1(1) s2(1) assms(3,4) l2 sp by auto
  note s3 = appends_setup [OF d3(2)] appends_at_end [OF s2(2) d3(2)]
  have data: "cs_data d3 = cs_data ds @ S" using d1(2) d2(2) d3(2) by (simp add: appends_def S_def arch_start_def)
  have lS: "length S < 1000" using l sp by (simp add: S_def arch_start_def string_bytes_def)
  have tell: "AG_Tell d3 = int (length (cs_data ds) + length S)"
    using at_end_offs [OF s3(2)] s3(2) data by (auto simp: AG_Tell_def ds_tell_def CoreTell_def FileTell_def at_end_def)
  obtain d4 where d4: "AG_WriteUint32 0 d3 = Some d4" "appends d3 (num_bytes ?ord 4 AG_Swap32 0) d4"
    using write_u32_ok [OF s3(2), of 0] s1(1) s2(1) s3(1) assms(3,4) data lS by auto
  note s4 = appends_setup [OF d4(2)] appends_at_end [OF s3(2) d4(2)]
  have l4: "length (cs_data d4) = length (cs_data ds) + length S + 4" using d4(2) data by (simp add: appends_def)
  let ?f = "ob_flags ob AND AG_OBJECT_SAVED_FLAGS"
  obtain d5 where d5: "AG_WriteUint32 ?f d4 = Some d5" "appends d4 (num_bytes ?ord 4 AG_Swap32 ?f) d5"
    using write_u32_ok [OF s4(2), of ?f] s1(1) s2(1) s3(1) s4(1) assms(3,4) l4 lS by auto
  have "appends ds (S @ num_bytes ?ord 4 AG_Swap32 0 @ num_bytes ?ord 4 AG_Swap32 ?f) d5"
    using appends_trans [OF appends_trans [OF appends_trans [OF appends_trans [OF d1(2) d2(2)] d3(2)] d4(2)] d5(2)]
    by (simp add: S_def arch_start_def)
  moreover have "write_header env p ds w = Some (int (length (cs_data ds) + length S), d5)"
    using d1(1) d2(1) d3(1) d4(1) d5(1) A(1,2) tell by (simp add: write_header_def cls_of_def Let_def)
  ultimately show ?thesis using lS by blast
qed

lemma AG_ObjectSerialize_ok:
  assumes "archivable env p w ob cl ks paths" and "at_end ds" and "\<not> ds_debug ds" and "saves env ks p w ds data"
    and "int (length (cs_data ds)) + int (length (obj_archive env w ds ob cl paths data)) + 300000 < 2 ^ 63"
  shows "\<exists>ds'. AG_ObjectSerialize env p ds w = Some (0, ds', w) \<and> appends ds (obj_archive env w ds ob cl paths data) ds'"
proof -
  let ?ord = "byte_order ds" and ?n = "\<lambda>x. num_bytes (byte_order ds) 4 AG_Swap32 (x :: 32 word)"
  let ?f = "ob_flags ob AND AG_OBJECT_SAVED_FLAGS" and ?es = "saved_entries w (ob_vars ob)"
  let ?S = "arch_start env ds (cl_name (cl_mem (w_reg w) agObjectClass)) cl" and ?ver = "cls_ver env (ob_cls ob)"
  let ?T = "arch_tables ds ?f paths ?es"
  let ?offs = "of_nat (length (cs_data ds) + length ?S + 4 + length ?T) :: 32 word"
  have A: "w_objs w p = Some ob" "cl = cl_mem (w_reg w) (ob_cls ob)" "obj_hier p w = Some (Some ks)"
     "nonul (cl_name cl)" "length (cl_name cl) < AG_VERSION_NAME_MAX" "list_all (savable w) (ob_vars ob)"
     "map (dep_name w) (kept (ob_deps ob)) = map Some paths"
    using assms(1) by (auto simp: archivable_def)
  note fl = archivable_flags [OF assms(1)]
  have room: "int (length (cs_data ds)) + int (length ?S) + int (length ?T) + int (length data) + 300060 < 2 ^ 63"
    using assms(5) length_version_bytes [OF assms(3) A(5), of ?ver] by (simp add: obj_archive_def arch_bytes_def)
  obtain d1 where d1: "write_header env p ds w = Some (int (length (cs_data ds) + length ?S), d1)"
      "appends ds (?S @ ?n 0 @ ?n ?f) d1" "length ?S < 1000"
    using write_header_ok [OF assms(1-3)] room by auto
  note s1 = appends_setup [OF d1(2)] appends_at_end [OF assms(2) d1(2)]
  have l1: "cs_data d1 = cs_data ds @ ?S @ ?n 0 @ ?n ?f" using d1(2) by (simp add: appends_def)
  have lT: "length ?T = 4 + length (deps_bytes ?ord paths) + length (table_bytes ds ?es) + 4" by (simp add: arch_tables_def)
  obtain d2 where d2: "write_dep_table p d1 w = Some d2" "appends d1 (deps_bytes ?ord paths) d2"
    using write_dep_table_ok [OF A(1,7) s1(2)] s1(1) assms(3) room lT l1 by (auto simp: deps_bytes_def)
  note s2 = appends_setup [OF d2(2)] appends_at_end [OF s1(2) d2(2)]
  have l2: "cs_data d2 = cs_data ds @ ?S @ ?n 0 @ ?n ?f @ deps_bytes ?ord paths" using d2(2) l1 by (simp add: appends_def)
  have ss2: "same_setup ds d2" using d1(2) d2(2) by (auto simp: appends_def intro: same_setup_trans)
  have tb: "table_bytes d2 ?es = table_bytes ds ?es"
    using version_bytes_setup [OF ss2] same_setup_order [OF ss2] by (simp add: table_bytes_def)
  obtain d3 where d3: "AG_ObjectSaveVariables env p d2 w = Some (d3, w)" "appends d2 (table_bytes ds ?es) d3"
    using save_variables_ok [OF A(1,6) s2(2), of env] s1(1) s2(1) assms(3) room lT l2 tb by (auto simp: table_bytes_def)
  note s3 = appends_setup [OF d3(2)] appends_at_end [OF s2(2) d3(2)]
  have l3: "cs_data d3 = cs_data ds @ ?S @ ?n 0 @ ?n ?f @ deps_bytes ?ord paths @ table_bytes ds ?es" using d3(2) l2 by (simp add: appends_def)
  obtain d4 where d4: "AG_WriteUint32 0 d3 = Some d4" "appends d3 (?n 0) d4"
    using write_u32_ok [OF s3(2), of 0] s1(1) s2(1) s3(1) assms(3) room lT l3 by auto
  note s4 = appends_setup [OF d4(2)] appends_at_end [OF s3(2) d4(2)]
  have l4: "cs_data d4 = (cs_data ds @ ?S) @ ?n 0 @ ?T" using d4(2) l3 by (simp add: appends_def arch_tables_def)
  have tell: "AG_Tell d4 = int (length (cs_data ds) + length ?S + 4 + length ?T)"
    using at_end_offs [OF s4(2)] s4(2) l4 by (auto simp: AG_Tell_def ds_tell_def CoreTell_def FileTell_def at_end_def)
  have chld: "write_child_table p d3 w = Some d4" using d4(1) A(1) fl(1) by (simp add: write_child_table_def)
  obtain d5 where d5: "AG_WriteUint32At (of_int (AG_Tell d4)) (int (length (cs_data ds) + length ?S)) d4 = Some d5" "at_end d5"
     "cs_data d5 = (cs_data ds @ ?S) @ ?n ?offs @ ?T" "same_setup d4 d5"
    using write_num_at_ok [OF s4(2) _ l4, of 4 "int (length (cs_data ds) + length ?S)" AG_SOURCE_UINT32 AG_Swap32 "of_int (AG_Tell d4)"]
      s1 s2 s3 s4 assms(3) by (auto simp: AG_WriteUint32At_def tell)
  have ss5: "same_setup ds d5" using ss2 d3(2) d4(2) d5(4) unfolding appends_def by (meson same_setup_trans)
  note o5 = same_setup_order [OF ss5]
  obtain d6 where d6: "AG_WriteVersion (cl_name cl) ?ver d5 = Some (0, d6)" "appends d5 (version_bytes ds (cl_name cl) ?ver) d6"
    using AG_WriteVersion_ok [OF d5(2) A(4,5), of ?ver] room d5(3) version_bytes_setup [OF ss5] by auto
  have e6: "at_end d6" using appends_at_end [OF d5(2) d6(2)] .
  have ss6: "same_setup ds d6" using ss5 d6(2) by (auto simp: appends_def intro: same_setup_trans)
  have l6: "cs_data d6 = cs_data ds @ ?S @ ?n ?offs @ ?T @ version_bytes ds (cl_name cl) ?ver" using d6(2) d5(3) by (simp add: appends_def)
  obtain d7 where d7: "run_save env ks p d6 w = Some (True, d7, w)" "appends d6 data d7"
    using assms(4) e6 ss6 l6 room length_version_bytes [OF assms(3) A(5), of ?ver] unfolding saves_def by auto
  have "AG_ObjectSerialize env p ds w = Some (0, d7, w)"
    using d1(1) d2(1) d3(1) chld d5(1) d6(1) d7(1) A(1-3) fl(2)
    by (simp add: AG_ObjectSerialize_def cls_of_def debug_on_def debug_off_def has_flag_def Let_def)
  moreover have "same_setup ds d7" using ss6 d7(2) by (auto simp: appends_def intro: same_setup_trans)
  then have "appends ds (obj_archive env w ds ob cl paths data) d7"
    using d7(2) l6 by (simp add: appends_def obj_archive_def arch_bytes_def)
  ultimately show ?thesis by blast
qed

section \<open>Loading a whole archive\<close>

text \<open>The object as it is before its variables are loaded.\<close>

definition unarchived :: "AG_Object \<Rightarrow> 32 word \<Rightarrow> string list \<Rightarrow> AG_Object" where
  "unarchived ob flags paths = ob\<lparr>ob_flags := (ob_flags ob AND NOT AG_OBJECT_SAVED_FLAGS) OR (flags AND AG_OBJECT_SAVED_FLAGS),
     ob_deps := ob_deps ob @ map loaded_dep paths\<rparr>"

text \<open>An object that the archive can be loaded into: of the class, and without the variables in it.\<close>

definition loadable :: "nat \<Rightarrow> world \<Rightarrow> AG_Object \<Rightarrow> AG_Object \<Rightarrow> entry list \<Rightarrow> bool" where
  "loadable q w ob ob' es \<longleftrightarrow> world_ok w \<and> w_objs w q = Some ob' \<and> ob_cls ob' = ob_cls ob \<and>
     ob_flags ob' AND AG_OBJECT_DEBUG_DATA = 0 \<and> ob_flags ob AND AG_OBJECT_FLOATING_VARS = 0 \<and>
     (\<forall>e \<in> set es. no_var w q (fst e))"

lemma no_var_put_obj:
  assumes "no_var w q name" and "w_objs w q = Some ob" and "ob_vars ob' = ob_vars ob"
  shows "no_var (put_obj q ob' w) q name"
  using assms by (auto simp: no_var_def)

lemma world_ok_put_obj: "world_ok w \<Longrightarrow> w_objs w q \<noteq> None \<Longrightarrow> world_ok (put_obj q ob w)"
  by (auto simp: world_ok_def)

lemma flags_masked:
  fixes f g s x :: "'a :: len word"
  shows "x AND s = x \<Longrightarrow> g AND x = 0 \<Longrightarrow> ((f AND NOT s) OR (g AND s)) AND x = 0"
    and "x AND s = 0 \<Longrightarrow> f AND x = 0 \<Longrightarrow> ((f AND NOT s) OR (g AND s)) AND x = 0"
  by (auto simp: bit_eq_iff bit_simps)

lemma flags_in:
  "AG_OBJECT_FLOATING_VARS AND AG_OBJECT_SAVED_FLAGS = AG_OBJECT_FLOATING_VARS" "AG_OBJECT_DEBUG_DATA AND AG_OBJECT_SAVED_FLAGS = 0"
  by (simp_all add: AG_OBJECT_SAVED_FLAGS_def AG_OBJECT_FLOATING_VARS_def AG_OBJECT_INDESTRUCTIBLE_def AG_OBJECT_PRESERVE_DEPS_def
      AG_OBJECT_READONLY_def AG_OBJECT_REOPEN_ONLOAD_def AG_OBJECT_REMAIN_DATA_def AG_OBJECT_DEBUG_def AG_OBJECT_DEBUG_DATA_def)

lemma AG_ObjectUnserialize_ok:
  assumes "archivable env p w ob cl ks paths" and "loadable q w' ob ob' (saved_entries w (ob_vars ob))" and "w_reg w' = w_reg w"
    and "src_ok ds" and "\<not> ds_debug ds" and "to_read ds = obj_archive env w ds0 ob cl paths data"
    and "same_setup ds ds0 \<or> byte_order ds0 = byte_order ds \<and> \<not> ds_debug ds0"
    and "loads env ks q (cls_ver env (ob_cls ob)) ds data F"
    and keep: "\<And>w2. w_reg (F w2) = w_reg w2" "\<And>w2. map_option ob_flags (w_objs (F w2) q) = map_option ob_flags (w_objs w2 q)"
  shows "\<exists>ds' w2. AG_ObjectUnserialize env q ds w' = Some (0, ds', F w2) \<and>
    vars_added (put_obj q (unarchived ob' (ob_flags ob) paths) w') w2 q (named (saved_entries w (ob_vars ob)))"
proof -
  let ?ord = "byte_order ds" and ?n = "\<lambda>x. num_bytes (byte_order ds) 4 AG_Swap32 (x :: 32 word)"
  let ?f = "ob_flags ob AND AG_OBJECT_SAVED_FLAGS" and ?es = "saved_entries w (ob_vars ob)"
  let ?name = "cl_name (cl_mem (w_reg w) agObjectClass)" and ?ver = "cls_ver env (ob_cls ob)"
  have A: "cl = cl_mem (w_reg w) (ob_cls ob)" "obj_hier p w = Some (Some ks)" "w_objs w p = Some ob" "spec_ok cl"
     "length (cl_name cl) < AG_VERSION_NAME_MAX" "length ?name < AG_VERSION_NAME_MAX" "list_all (savable w) (ob_vars ob)"
     "distinct (map fst ?es)" "length ?es < 2 ^ 32" "map (dep_name w) (kept (ob_deps ob)) = map Some paths"
     "list_all (\<lambda>s. length s \<le> AG_LOAD_STRING_MAX) paths" "length paths < 2 ^ 32"
    using assms(1) by (auto simp: archivable_def)
  have B: "world_ok w'" "w_objs w' q = Some ob'" "ob_cls ob' = ob_cls ob" "ob_flags ob' AND AG_OBJECT_DEBUG_DATA = 0"
     "ob_flags ob AND AG_OBJECT_FLOATING_VARS = 0" "\<forall>e \<in> set ?es. no_var w' q (fst e)"
    using assms(2) by (auto simp: loadable_def)
  have o: "byte_order ds0 = ?ord" "\<not> ds_debug ds0" using assms(5,7) by (auto simp: same_setup_def)
  have vb: "version_bytes ds0 nm v = version_bytes ds nm v" for nm v
    using o assms(5) by (simp add: version_bytes_def type_bytes_def)
  have nn: "list_all (\<lambda>s. nonul s \<and> length s \<le> AG_LOAD_STRING_MAX) paths"
  proof -
    have "nonul s" if "s \<in> set paths" for s
    proof -
      have "Some s \<in> set (map (dep_name w) (kept (ob_deps ob)))" unfolding A(10) using that by simp
      then show ?thesis by (auto simp: dep_name_def split: Option.bind_splits)
    qed
    then show ?thesis using A(11) by (simp add: list_all_iff)
  qed
  let ?tail = "version_bytes ds (cl_name cl) ?ver @ data"
  let ?r3 = "?n 0 @ ?tail" let ?r2 = "table_bytes ds ?es @ ?r3" let ?r1 = "deps_bytes ?ord paths @ ?r2"
  obtain offs where src: "to_read ds = header_bytes env ds ?name (cl_hier cl) (cl_libs cl) offs ?f @ ?r1"
    using assms(6) o by (auto simp: obj_archive_def arch_bytes_def arch_start_def arch_tables_def header_bytes_def table_bytes_def vb)
  obtain d1 oh where d1: "AG_ObjectReadHeader env ?name ds = Some (Some oh, d1)" "reads ds ?r1 d1" "oh_flags oh = ?f"
    using read_header_ok [OF assms(4,5) A(6) _ _ _ _ src] A(4) by (auto simp: spec_ok_def)
  note s1 = reads_setup [OF d1(2)]
  let ?ob1 = "ob'\<lparr>ob_flags := (ob_flags ob' AND NOT AG_OBJECT_SAVED_FLAGS) OR ?f\<rparr>"
  let ?w1 = "put_obj q ?ob1 w'" and ?U = "unarchived ob' (ob_flags ob) paths"
  obtain d2 where d2: "ReadDependencyTable q d1 ?w1 = Some (0, d2, put_obj q ?U w')" "reads d1 ?r2 d2"
    using ReadDependencyTable_ok [OF nn A(12), of d1 ?r2 ?w1 q ?ob1] d1(2) s1 assms(5)
    by (auto simp: reads_def unarchived_def put_obj_def)
  note s2 = reads_setup [OF d2(2)]
  have ss2: "same_setup ds d2" using d1(2) d2(2) by (auto simp: reads_def intro: same_setup_trans)
  have tb: "table_bytes d2 ?es = table_bytes ds ?es"
    using version_bytes_setup [OF ss2] same_setup_order [OF ss2] by (simp add: table_bytes_def)
  have fl: "ob_flags ?U AND AG_OBJECT_FLOATING_VARS = 0" "ob_flags ?U AND AG_OBJECT_DEBUG_DATA = 0"
    unfolding unarchived_def
    using flags_masked(1) [OF flags_in(1) B(5), of "ob_flags ob'"] flags_masked(2) [OF flags_in(2) B(4), of "ob_flags ob"] by simp_all
  have nv: "\<forall>e \<in> set ?es. no_var (put_obj q ?U w') q (fst e)"
    using B(6) no_var_put_obj [OF _ B(2), of _ ?U] by (auto simp: unarchived_def)
  obtain d3 w2 where d3: "AG_ObjectLoadVariables q d2 (put_obj q ?U w') = Some (0, d3, w2)" "reads d2 ?r3 d3"
      "vars_added (put_obj q ?U w') w2 q (named ?es)"
    using load_variables_ok [of "put_obj q ?U w'" q ?U ?es d2 ?r3] fl savable_entries_ok [OF A(7)] A(8,9) nv d2(2) tb s1 s2 assms(5)
      world_ok_put_obj [OF B(1), of q ?U] B(2) by (auto simp: reads_def)
  note s3 = reads_setup [OF d3(2)]
  obtain d4 where d4: "AG_ReadUint32 d3 = Some (0, d4)" "reads d3 ?tail d4"
    using read_u32_ok [of d3 0 ?tail] d3(2) s1 s2 s3 assms(5) by (auto simp: reads_def)
  have ss4: "same_setup ds d4" using ss2 d3(2) d4(2) unfolding reads_def by (meson same_setup_trans)
  obtain d5 where d5: "AG_ReadVersion (cl_name cl) ?ver d4 = Some (0, Some ?ver, d5)" "reads d4 data d5"
    using AG_ReadVersion_ok [of d4 "cl_name cl" ?ver data ?ver] A(5) d4(2) version_bytes_setup [OF ss4] by (auto simp: reads_def)
  have ss5: "same_setup ds d5" using ss4 d5(2) unfolding reads_def by (meson same_setup_trans)
  obtain d6 where d6: "run_load env ks q ?ver d5 w2 = Some (True, d6, F w2)"
    using assms(8) ss5 d5(2) unfolding loads_def reads_def by blast
  obtain new where w2: "w_objs w2 q = Some (?U\<lparr>ob_vars := ob_vars ?U @ new\<rparr>)" "w_reg w2 = w_reg w"
    using d3(3) assms(3) by (auto simp: vars_added_def)
  have cls: "w_objs w2 q = Some ob2 \<Longrightarrow> ob_cls ob2 = ob_cls ob" for ob2 using w2(1) B(3) by (auto simp: unarchived_def)
  have body: "unserialize_body env q ds w' = Some (True, d6, F w2)"
    unfolding unserialize_body_def
    using d1 d2(1) d3(1) d4(1) d5(1) d6 w2 fl(2) A(1-3) B(2,3) assms(3)
    by (simp add: upd_obj_def cls_of_def debug_on_def has_flag_def obj_hier_def unarchived_def)
  obtain ob3 where ob3: "w_objs (F w2) q = Some ob3" "ob_flags ob3 = ob_flags ?U"
    using keep(2) [of w2] w2(1) by auto
  then have "AG_ObjectUnserialize env q ds w' = Some (0, d6, F w2)"
    using body fl(2) by (simp add: AG_ObjectUnserialize_def debug_off_def has_flag_def)
  then show ?thesis using d3(3) by blast
qed

section \<open>What is found afterwards\<close>

lemma vars_added_lookup:
  assumes "vars_added w w' q es" and "\<forall>e \<in> set es. no_var w q (fst e)" and "distinct (map fst es)" and "(name, x) \<in> set es"
  shows "\<exists>V. lookup w' q name = Some V \<and> own_value w' V x"
proof -
  obtain ob new where a: "w_objs w q = Some ob" "w_objs w' = (w_objs w)(q \<mapsto> ob\<lparr>ob_vars := ob_vars ob @ new\<rparr>)"
     "\<forall>x. w_vars w x \<noteq> None \<longrightarrow> w_vars w' x = w_vars w x"
     "list_all2 (\<lambda>v (name, x). \<exists>V. w_vars w' v = Some V \<and> v_name V = name \<and> own_value w' V x) new es"
    using assms(1) unfolding vars_added_def by blast
  obtain i where i: "i < length es" "es ! i = (name, x)" using assms(4) by (auto simp: in_set_conv_nth)
  have li: "length new = length es" using a(4) by (rule list_all2_lengthD)
  have old: "\<forall>v \<in> set (ob_vars ob). \<exists>r. w_vars w v = Some r \<and> v_name r \<noteq> name"
    using assms(2,4) a(1) by (fastforce simp: no_var_def)
  have nth: "\<exists>V. w_vars w' (new ! j) = Some V \<and> v_name V = fst (es ! j) \<and> own_value w' V (snd (es ! j))" if "j < length es" for j
    using list_all2_nthD [OF a(4), of j] that li by (cases "es ! j") auto
  have 1: "List.find (\<lambda>V. v_name V = name) (map (\<lambda>v. the (w_vars w' v)) (ob_vars ob)) = None"
  proof (rule find_NoneI)
    fix V assume "V \<in> set (map (\<lambda>v. the (w_vars w' v)) (ob_vars ob))"
    then obtain v where v: "v \<in> set (ob_vars ob)" "V = the (w_vars w' v)" by auto
    then obtain r where "w_vars w v = Some r" "v_name r \<noteq> name" using old by blast
    then show "\<not> v_name V = name" using a(3) v(2) by simp
  qed
  have 2: "List.find (\<lambda>V. v_name V = name) (map (\<lambda>v. the (w_vars w' v)) new) = Some (the (w_vars w' (new ! i)))"
    unfolding find_Some_iff
  proof (intro exI [of _ i] conjI allI impI)
    show "i < length (map (\<lambda>v. the (w_vars w' v)) new)" using i li by simp
    show "v_name (map (\<lambda>v. the (w_vars w' v)) new ! i) = name" using nth [OF i(1)] i li by auto
    show "the (w_vars w' (new ! i)) = map (\<lambda>v. the (w_vars w' v)) new ! i" using i li by simp
    fix j assume j: "j < i"
    have "fst (es ! j) \<noteq> fst (es ! i)" using assms(3) j i(1) by (auto simp: distinct_conv_nth)
    then show "v_name (map (\<lambda>v. the (w_vars w' v)) new ! j) \<noteq> name" using nth [of j] i j li by auto
  qed
  have "lookup w' q name = Some (the (w_vars w' (new ! i)))"
    using a(2) 1 2 by (simp add: lookup_def find_append)
  then show ?thesis using nth [OF i(1)] i(2) by auto
qed

end
