(* ===== verification/ArchiveFiles.thy ===== *)
theory ArchiveFiles
  imports Archive
begin

unbundle bit_operations_syntax

text \<open>
  The archives of objects in files and in databases (core/object.c): loading and saving by
  file name, with the children of an object, paging, backups, checksums and the detection
  of changes.

  The files are a map from path names to contents.  The directories, whether a file can be
  created, the digests and the dynamic loader are parameters; so is the database, whose
  entries are a map.  \<open>n\<close> bounds the depth of the recursion over children.
\<close>

datatype ag_object_checksum_alg = AG_OBJECT_MD5 | AG_OBJECT_SHA1 | AG_OBJECT_RMD160

record file_env =
  fe_arch :: arch_env
  fe_is_dir :: "string \<Rightarrow> bool"
  fe_mkpath :: "string \<Rightarrow> int"
  fe_can_open :: "string \<Rightarrow> bool"
  fe_junk :: byte
  agObjectBackups :: bool
  agObjectIgnoreUnknownObjs :: bool
  fe_digest :: "ag_object_checksum_alg \<Rightarrow> byte list \<Rightarrow> string"
  fe_load_dso :: "nat \<Rightarrow> string \<Rightarrow> nat option \<times> nat"
  fe_sym_dso :: "nat \<Rightarrow> nat \<Rightarrow> string \<Rightarrow> nat option"
  fe_unload_dso :: "nat \<Rightarrow> nat \<Rightarrow> nat"

record store =
  st_w :: world
  st_files :: "string \<Rightarrow> byte list option"
  st_dl :: nat

definition file_exists :: "file_env \<Rightarrow> store \<Rightarrow> string \<Rightarrow> bool" where
  "file_exists E st path \<longleftrightarrow> st_files st path \<noteq> None \<or> fe_is_dir E path"

text \<open>The environment of the routines on objects, for the present files.\<close>

definition obj_env_of :: "file_env \<Rightarrow> store \<Rightarrow> obj_env" where
  "obj_env_of E st = (ae_obj (fe_arch E))\<lparr>oe_exists := file_exists E st\<rparr>"

definition AG_FileDelete :: "string \<Rightarrow> store \<Rightarrow> store" where
  "AG_FileDelete path st = st\<lparr>st_files := (st_files st)(path := None)\<rparr>"

definition persistent :: "nat \<Rightarrow> world \<Rightarrow> bool option" where
  "persistent p w = do { b \<leftarrow> has_flag AG_OBJECT_NON_PERSISTENT p w; Some (\<not> b) }"

text \<open>The path to load from: the one given, or that of the data file.\<close>

definition load_path :: "file_env \<Rightarrow> nat \<Rightarrow> string option \<Rightarrow> store \<Rightarrow> (int \<times> string \<times> store) option" where
  "load_path E p pPath st = (case pPath of
     Some s \<Rightarrow> Some (0, str_cpy AG_PATHNAME_MAX s, st)
   | None \<Rightarrow> do {
       (rv, path, w) \<leftarrow> GetDatafile (obj_env_of E st) [] p (st_w st);
       Some (rv, path, st\<lparr>st_w := w\<rparr>)
     })"

section \<open>Loading\<close>

text \<open>The loop over the table of children; \<open>f\<close> loads the generic part of a child.\<close>

fun load_children :: "(nat \<Rightarrow> store \<Rightarrow> (int \<times> store) option) \<Rightarrow> file_env \<Rightarrow> nat \<Rightarrow> nat \<Rightarrow> AG_DataSource \<Rightarrow> store \<Rightarrow>
    (bool \<times> AG_DataSource \<times> store) option" where
  "load_children f E p 0 ds st = Some (True, ds, st)"
| "load_children f E p (Suc n) ds st = do {
     (_, cname, ds) \<leftarrow> copy_str AG_OBJECT_NAME_MAX ds;
     (_, hier, ds) \<leftarrow> copy_str AG_OBJECT_HIER_MAX ds;
     found \<leftarrow> AG_ObjectFindChild p cname (st_w st);
     (case found of
        Some c \<Rightarrow> do {
          cl \<leftarrow> cls_of c (st_w st);
          pers \<leftarrow> persistent c (st_w st);
          if cl_hier cl \<noteq> hier \<or> \<not> pers then Some (False, ds, st)
          else do {
            (rv, st) \<leftarrow> f c st;
            if rv = -1 then Some (False, ds, st) else load_children f E p n ds st
          }
        }
      | None \<Rightarrow> do {
          (cl, R, x) \<leftarrow> AG_LoadClass (fe_load_dso E) (fe_sym_dso E) (fe_unload_dso E) (w_reg (st_w st)) (st_dl st) hier;
          let st = st\<lparr>st_w := (st_w st)\<lparr>w_reg := R\<rparr>, st_dl := x\<rparr>;
          (case cl of
             None \<Rightarrow> if agObjectIgnoreUnknownObjs E then load_children f E p n ds st else Some (False, ds, st)
           | Some cl \<Rightarrow> do {
               let (c, w) = fresh (st_w st);
               w \<leftarrow> AG_ObjectInit (obj_env_of E st) c (Some cl) w;
               w \<leftarrow> AG_ObjectSetNameS c cname w;
               w \<leftarrow> AG_ObjectAttach (obj_env_of E st) (Some p) c w;
               (rv, st) \<leftarrow> f c (st\<lparr>st_w := w\<rparr>);
               if rv = -1 then Some (False, ds, st) else load_children f E p n ds st
             })
        })
   }"

definition free_loaded :: "file_env \<Rightarrow> nat \<Rightarrow> store \<Rightarrow> store option" where
  "free_loaded E p st = do {
     w \<leftarrow> AG_ObjectFreeDataset (obj_env_of E st) p (st_w st);
     w \<leftarrow> AG_ObjectFreeDeps p w;
     Some (st\<lparr>st_w := w\<rparr>)
   }"

definition load_generic :: "(nat \<Rightarrow> store \<Rightarrow> (int \<times> store) option) \<Rightarrow> file_env \<Rightarrow> nat \<Rightarrow> AG_DataSource \<Rightarrow> store \<Rightarrow>
    (bool \<times> store) option" where
  "load_generic f E p ds st = do {
     (oh, ds) \<leftarrow> AG_ObjectReadHeader (fe_arch E) (cl_name (cl_mem (w_reg (st_w st)) agObjectClass)) ds;
     (case oh of
        None \<Rightarrow> Some (False, st)
      | Some oh \<Rightarrow> do {
          w \<leftarrow> upd_obj p (\<lambda>ob. ob\<lparr>ob_flags := (ob_flags ob AND NOT AG_OBJECT_SAVED_FLAGS) OR oh_flags oh\<rparr>) (st_w st);
          (rv, ds, w) \<leftarrow> ReadDependencyTable p ds w;
          if rv = -1 then Some (False, st\<lparr>st_w := w\<rparr>)
          else do {
            (rv, ds, w) \<leftarrow> AG_ObjectLoadVariables p ds w;
            if rv = -1 then Some (False, st\<lparr>st_w := w\<rparr>)
            else do {
              (count, ds) \<leftarrow> AG_ReadUint32 ds;
              (ok, ds, st) \<leftarrow> load_children f E p (unat count) ds (st\<lparr>st_w := w\<rparr>);
              Some (ok, st)
            }
          }
        })
   }"

fun AG_ObjectLoadGenericFromFile :: "nat \<Rightarrow> file_env \<Rightarrow> nat \<Rightarrow> string option \<Rightarrow> store \<Rightarrow> (int \<times> store) option" where
  "AG_ObjectLoadGenericFromFile 0 E p pPath st = None"
| "AG_ObjectLoadGenericFromFile (Suc n) E p pPath st = do {
     pers \<leftarrow> persistent p (st_w st);
     if \<not> pers then Some (-1, st)
     else do {
       (rv, path, st) \<leftarrow> load_path E p pPath st;
       if rv = -1 then Some (-1, st)
       else (case AG_OpenFile_rb (fe_junk E) (st_files st) path of
          None \<Rightarrow> Some (-1, st)
        | Some ds \<Rightarrow> do {
            st \<leftarrow> free_loaded E p st;
            (ok, st) \<leftarrow> load_generic (\<lambda>c. AG_ObjectLoadGenericFromFile n E c None) E p ds st;
            if ok then Some (0, st) else do { st \<leftarrow> free_loaded E p st; Some (-1, st) }
          })
     }
   }"

text \<open>The data set: what \<open>dataFound\<close> is set to, if it is, and whether there was a failure.\<close>

definition load_dataset :: "file_env \<Rightarrow> nat \<Rightarrow> AG_DataSource \<Rightarrow> store \<Rightarrow> (bool \<times> store) option" where
  "load_dataset E p ds st = do {
     (oh, ds) \<leftarrow> AG_ObjectReadHeader (fe_arch E) (cl_name (cl_mem (w_reg (st_w st)) agObjectClass)) ds;
     (case oh of
        None \<Rightarrow> Some (False, st)
      | Some oh \<Rightarrow>
          (case AG_Seek (int (unat (oh_dataOffs oh))) AG_SEEK_SET ds of
             (rv, ds) \<Rightarrow>
               if rv = -1 then Some (False, st)
               else do {
                 ob \<leftarrow> w_objs (st_w st) p;
                 cl \<leftarrow> cls_of p (st_w st);
                 (rv, ver, ds) \<leftarrow> AG_ReadVersion (cl_name cl) (cls_ver (fe_arch E) (ob_cls ob)) ds;
                 (case ver of
                    Some ver \<Rightarrow>
                      if rv = -1 then Some (False, st)
                      else do {
                        ds \<leftarrow> debug_on p ds (st_w st);
                        hier \<leftarrow> obj_hier p (st_w st);
                        (case hier of
                           None \<Rightarrow> Some (False, st)
                         | Some ks \<Rightarrow> do {
                             w \<leftarrow> AG_ObjectFreeDataset (obj_env_of E st) p (st_w st);
                             (ok, ds, w) \<leftarrow> run_load (fe_arch E) ks p ver ds w;
                             Some (ok, st\<lparr>st_w := w\<rparr>)
                           })
                      }
                  | None \<Rightarrow> Some (False, st))
               }))
   }"

definition AG_ObjectLoadDataFromFile :: "file_env \<Rightarrow> nat \<Rightarrow> string option \<Rightarrow> store \<Rightarrow> (int \<times> bool option \<times> store) option" where
  "AG_ObjectLoadDataFromFile E p pPath st = do {
     pers \<leftarrow> persistent p (st_w st);
     if \<not> pers then Some (0, None, st)
     else do {
       (rv, path, st) \<leftarrow> load_path E p pPath st;
       if rv = -1 then Some (-1, Some False, st)
       else (case AG_OpenFile_rb (fe_junk E) (st_files st) path of
          None \<Rightarrow> Some (-1, Some False, st)
        | Some ds \<Rightarrow> do {
            (ok, st) \<leftarrow> load_dataset E p ds st;
            if \<not> ok then Some (-1, Some True, st)
            else do {
              ob \<leftarrow> w_objs (st_w st) p;
              let (a, w) = Strdup path (st_w st);
              w \<leftarrow> AG_PostEvent (hk_fuel (oe_hooks (ae_obj (fe_arch E)))) (hk_call (oe_hooks (ae_obj (fe_arch E))))
                     (Some p) (ob_root ob) ''object-post-load-data'' (Some ''%s'') [C_s (Some a)] w;
              Some (0, Some True, st\<lparr>st_w := w\<rparr>)
            }
          })
     }
   }"

definition AG_ObjectLoadFromFile :: "nat \<Rightarrow> file_env \<Rightarrow> nat \<Rightarrow> string option \<Rightarrow> store \<Rightarrow> (int \<times> store) option" where
  "AG_ObjectLoadFromFile n E p path st = do {
     (rv, st) \<leftarrow> AG_ObjectLoadGenericFromFile n E p path st;
     if rv = -1 then Some (-1, st)
     else do {
       (rv, w) \<leftarrow> AG_ObjectResolveDeps n p (st_w st);
       let st = st\<lparr>st_w := w\<rparr>;
       if rv = -1 then Some (-1, st)
       else do {
         (rv, _, st) \<leftarrow> AG_ObjectLoadDataFromFile E p path st;
         Some (if rv = -1 then -1 else 0, st)
       }
     }
   }"

section \<open>Saving\<close>

definition BackupObjectFile :: "file_env \<Rightarrow> string \<Rightarrow> store \<Rightarrow> store" where
  "BackupObjectFile E orig st =
     (if file_exists E st orig then
        let path = str_cat AG_PATHNAME_MAX (str_cpy AG_PATHNAME_MAX orig) ''.bak''
        in (case st_files st orig of
              Some d \<Rightarrow> st\<lparr>st_files := ((st_files st)(orig := None))(path \<mapsto> d)\<rparr>
            | None \<Rightarrow> st)
      else st)"

text \<open>The directory to save in, made if needed: whether it is there.\<close>

definition save_dir :: "file_env \<Rightarrow> nat \<Rightarrow> string \<Rightarrow> store \<Rightarrow> (bool \<times> string \<times> store) option" where
  "save_dir E p name st = do {
     ob \<leftarrow> w_objs (st_w st) p;
     (_, buf, w) \<leftarrow> AG_GetString (oe_hooks (ae_obj (fe_arch E))) (oe_config (ae_obj (fe_arch E))) ''save-path''
       (replicate AG_PATHNAME_MAX NUL) AG_PATHNAME_MAX (st_w st);
     let dir = cstr buf;
     let dir = (case ob_save_pfx ob of None \<Rightarrow> dir | Some pfx \<Rightarrow> str_cat AG_PATHNAME_MAX dir pfx);
     let dir = str_cat AG_PATHNAME_MAX dir name;
     Some (file_exists E st dir \<or> fe_mkpath E dir \<noteq> -1, dir, st\<lparr>st_w := w\<rparr>)
   }"

definition write_archive :: "file_env \<Rightarrow> nat \<Rightarrow> string \<Rightarrow> store \<Rightarrow> (int \<times> store) option" where
  "write_archive E p path st = do {
     let st = (if agObjectBackups E then BackupObjectFile E path st else AG_FileDelete path st);
     (case AG_OpenFile_wb (fe_junk E) (fe_can_open E) path of
        None \<Rightarrow> Some (-1, st)
      | Some ds \<Rightarrow> do {
          (rv, ds, w) \<leftarrow> AG_ObjectSerialize (fe_arch E) p ds (st_w st);
          Some (if rv = -1 then -1 else 0, st\<lparr>st_w := w, st_files := (st_files st)(path \<mapsto> cs_data ds)\<rparr>)
        })
   }"

definition AG_ObjectSaveToFile :: "file_env \<Rightarrow> nat \<Rightarrow> string option \<Rightarrow> store \<Rightarrow> (int \<times> store) option" where
  "AG_ObjectSaveToFile E p pPath st = do {
     pers \<leftarrow> persistent p (st_w st);
     if \<not> pers then Some (-1, st)
     else do {
       ob \<leftarrow> w_objs (st_w st) p;
       cl \<leftarrow> cls_of p (st_w st);
       (_, name) \<leftarrow> AG_ObjectCopyName p (replicate AG_OBJECT_PATH_MAX NUL) AG_OBJECT_PATH_MAX (st_w st);
       (case pPath of
          Some path \<Rightarrow> write_archive E p (str_cpy AG_PATHNAME_MAX path) st
        | None \<Rightarrow>
            (case ob_archivePath ob of
               Some path \<Rightarrow> write_archive E p (str_cpy AG_PATHNAME_MAX path) st
             | None \<Rightarrow> do {
                 (ok, dir, st) \<leftarrow> save_dir E p (cstr name) st;
                 if \<not> ok then Some (-1, st)
                 else do {
                   let path = str_cat AG_PATHNAME_MAX (str_cpy AG_PATHNAME_MAX dir) ''/'';
                   let path = str_cat AG_PATHNAME_MAX path (ob_name ob);
                   let path = str_cat AG_PATHNAME_MAX path ''.'';
                   write_archive E p (str_cat AG_PATHNAME_MAX path (cl_name cl)) st
                 }
               }))
     }
   }"

fun save_children :: "(nat \<Rightarrow> store \<Rightarrow> (int \<times> store) option) \<Rightarrow> nat list \<Rightarrow> store \<Rightarrow> (int \<times> store) option" where
  "save_children f [] st = Some (0, st)"
| "save_children f (c # cs) st = do {
     pers \<leftarrow> persistent c (st_w st);
     if \<not> pers then save_children f cs st
     else do {
       (rv, st) \<leftarrow> f c st;
       if rv = -1 then Some (-1, st) else save_children f cs st
     }
   }"

fun AG_ObjectSaveAll :: "nat \<Rightarrow> file_env \<Rightarrow> nat \<Rightarrow> store \<Rightarrow> (int \<times> store) option" where
  "AG_ObjectSaveAll 0 E p st = None"
| "AG_ObjectSaveAll (Suc n) E p st = do {
     (rv, st) \<leftarrow> AG_ObjectSaveToFile E p None st;
     if rv = -1 then Some (-1, st)
     else do {
       ob \<leftarrow> w_objs (st_w st) p;
       save_children (AG_ObjectSaveAll n E) (ob_children ob) st
     }
   }"

section \<open>Paging\<close>

definition AG_ObjectPageIn :: "file_env \<Rightarrow> nat \<Rightarrow> store \<Rightarrow> (int \<times> store) option" where
  "AG_ObjectPageIn E p st = do {
     res \<leftarrow> has_flag AG_OBJECT_RESIDENT p (st_w st);
     if res then Some (0, st)
     else do {
       (rv, found, st) \<leftarrow> AG_ObjectLoadDataFromFile E p None st;
       if rv = -1 then do {
         found \<leftarrow> found;
         if found then Some (-1, st)
         else do { w \<leftarrow> upd_obj p (set_flag AG_OBJECT_RESIDENT) (st_w st); Some (0, st\<lparr>st_w := w\<rparr>) }
       }
       else Some (0, st)
     }
   }"

definition AG_ObjectPageOut :: "nat \<Rightarrow> file_env \<Rightarrow> nat \<Rightarrow> store \<Rightarrow> (int \<times> store) option" where
  "AG_ObjectPageOut n E p st = do {
     pers \<leftarrow> persistent p (st_w st);
     if \<not> pers then Some (0, st)
     else do {
       used \<leftarrow> AG_ObjectInUse n p (st_w st);
       if used then Some (0, st)
       else do {
         ob \<leftarrow> w_objs (st_w st) p;
         handler \<leftarrow> AG_FindEventHandler (ob_root ob) ''object-page-out'' (st_w st);
         (rv, st) \<leftarrow> (if handler \<noteq> None then do {
                        w \<leftarrow> post (ae_obj (fe_arch E)) p (ob_root ob) ''object-page-out'' (st_w st);
                        Some (0, st\<lparr>st_w := w\<rparr>)
                      } else AG_ObjectSaveToFile E p None st);
         if rv = -1 then Some (-1, st)
         else do {
           keep \<leftarrow> has_flag AG_OBJECT_REMAIN_DATA p (st_w st);
           if keep then Some (0, st)
           else do {
             w \<leftarrow> AG_ObjectFreeDataset (obj_env_of E st) p (st_w st);
             w \<leftarrow> upd_obj p (clear_flag AG_OBJECT_RESIDENT) w;
             Some (0, st\<lparr>st_w := w\<rparr>)
           }
         }
       }
     }
   }"

section \<open>Data files\<close>

text \<open>The removal of an empty directory leaves the files as they are.\<close>

fun unlink_children :: "(nat \<Rightarrow> store \<Rightarrow> store option) \<Rightarrow> nat list \<Rightarrow> store \<Rightarrow> store option" where
  "unlink_children f [] st = Some st"
| "unlink_children f (c # cs) st = do { st \<leftarrow> f c st; unlink_children f cs st }"

fun AG_ObjectUnlinkDatafiles :: "nat \<Rightarrow> file_env \<Rightarrow> nat \<Rightarrow> store \<Rightarrow> store option" where
  "AG_ObjectUnlinkDatafiles 0 E p st = None"
| "AG_ObjectUnlinkDatafiles (Suc n) E p st = do {
     (rv, path, w) \<leftarrow> AG_ObjectCopyFilename (obj_env_of E st) p [] AG_PATHNAME_MAX (st_w st);
     let st = st\<lparr>st_w := w\<rparr>;
     let st = (if rv = 0 then AG_FileDelete path st else st);
     ob \<leftarrow> w_objs (st_w st) p;
     st \<leftarrow> unlink_children (AG_ObjectUnlinkDatafiles n E) (ob_children ob) st;
     (rv, path, w) \<leftarrow> AG_ObjectCopyDirname (obj_env_of E st) p [] AG_PATHNAME_MAX (st_w st);
     Some (st\<lparr>st_w := w\<rparr>)
   }"

text \<open>The length of the archive, 0 for a failure, and the digest.\<close>

definition AG_ObjectCopyChecksum :: "file_env \<Rightarrow> nat \<Rightarrow> ag_object_checksum_alg \<Rightarrow> store \<Rightarrow> (nat \<times> string option \<times> store) option" where
  "AG_ObjectCopyChecksum E p alg st = do {
     (rv, path, w) \<leftarrow> AG_ObjectCopyFilename (obj_env_of E st) p [] AG_PATHNAME_MAX (st_w st);
     let st = st\<lparr>st_w := w\<rparr>;
     if rv = -1 then Some (0, None, st)
     else (case st_files st path of
        None \<Rightarrow> Some (0, None, st)
      | Some d \<Rightarrow> Some (length d, Some (fe_digest E alg d), st))
   }"

definition AG_OBJECT_DIGEST_MAX :: nat where "AG_OBJECT_DIGEST_MAX = 170"

definition AG_ObjectCopyDigest :: "file_env \<Rightarrow> nat \<Rightarrow> store \<Rightarrow> (int \<times> nat \<times> string \<times> store) option" where
  "AG_ObjectCopyDigest E p st = do {
     (len, md5, st) \<leftarrow> AG_ObjectCopyChecksum E p AG_OBJECT_MD5 st;
     if len = 0 then Some (-1, len, [], st)
     else do {
       (n, sha1, st) \<leftarrow> AG_ObjectCopyChecksum E p AG_OBJECT_SHA1 st;
       if n = 0 then Some (-1, len, [], st)
       else do {
         (n, rmd160, st) \<leftarrow> AG_ObjectCopyChecksum E p AG_OBJECT_RMD160 st;
         if n = 0 then Some (-1, len, [], st)
         else do {
           a \<leftarrow> md5; b \<leftarrow> sha1; c \<leftarrow> rmd160;
           let txt = ''(md5|'' @ a @ '' sha1|'' @ b @ '' rmd160|'' @ c @ '')'';
           Some (if length txt \<ge> AG_OBJECT_DIGEST_MAX then -1 else 0, len, str_cpy AG_OBJECT_DIGEST_MAX txt, st)
         }
       }
     }
   }"

section \<open>Changes\<close>

text \<open>
  The comparison of two files in blocks of \<open>k\<close> bytes: whether they differ.  \<open>feof\<close> holds
  after a read that was cut short.
\<close>

function files_differ :: "nat \<Rightarrow> byte list \<Rightarrow> byte list \<Rightarrow> bool" where
  "files_differ k prev cur =
     (let bufLast = take k prev; bufCur = take k cur in
      if length bufLast \<noteq> length bufCur \<or> (0 < length bufLast \<and> bufLast \<noteq> bufCur) then True
      else if length bufLast < k then \<not> length bufCur < k
      else if length bufCur < k then \<not> length bufLast < k
      else if k = 0 then False
      else files_differ k (drop k prev) (drop k cur))"
  by pat_completeness auto
termination
  by (relation "measure (\<lambda>(k, a, b). length a)") (auto simp: min_def split: if_splits)

declare files_differ.simps [simp del]

definition AG_BUFFER_MAX :: nat where "AG_BUFFER_MAX = 8192"

definition AG_ObjectChanged :: "file_env \<Rightarrow> nat \<Rightarrow> store \<Rightarrow> (int \<times> store) option" where
  "AG_ObjectChanged E p st = do {
     pers \<leftarrow> persistent p (st_w st);
     if \<not> pers then Some (0, st)
     else do {
       (rv, pathLast, w) \<leftarrow> AG_ObjectCopyFilename (obj_env_of E st) p [] AG_PATHNAME_MAX (st_w st);
       let st = st\<lparr>st_w := w\<rparr>;
       (case st_files st pathLast of
          None \<Rightarrow> Some (1, st)
        | Some prev \<Rightarrow> do {
            (_, buf, w) \<leftarrow> AG_GetString (oe_hooks (ae_obj (fe_arch E))) (oe_config (ae_obj (fe_arch E))) ''tmp-path''
              (replicate AG_PATHNAME_MAX NUL) AG_PATHNAME_MAX (st_w st);
            ob \<leftarrow> w_objs w p;
            let path = str_cat AG_PATHNAME_MAX (cstr buf) ''/'';
            let path = str_cat AG_PATHNAME_MAX path ''_chg.'';
            let pathCur = str_cat AG_PATHNAME_MAX path (ob_name ob);
            (rv, st) \<leftarrow> AG_ObjectSaveToFile E p (Some pathCur) (st\<lparr>st_w := w\<rparr>);
            if rv = -1 then Some (1, st)
            else (case st_files st pathCur of
               None \<Rightarrow> Some (1, st)
             | Some cur \<Rightarrow> Some (if files_differ AG_BUFFER_MAX prev cur then 1 else 0, AG_FileDelete pathCur st))
          })
     }
   }"

fun changed_children :: "(nat \<Rightarrow> store \<Rightarrow> (int \<times> store) option) \<Rightarrow> nat list \<Rightarrow> store \<Rightarrow> (int \<times> store) option" where
  "changed_children f [] st = Some (0, st)"
| "changed_children f (c # cs) st = do {
     (rv, st) \<leftarrow> f c st;
     if rv = 1 then Some (1, st) else changed_children f cs st
   }"

fun AG_ObjectChangedAll :: "nat \<Rightarrow> file_env \<Rightarrow> nat \<Rightarrow> store \<Rightarrow> (int \<times> store) option" where
  "AG_ObjectChangedAll 0 E p st = None"
| "AG_ObjectChangedAll (Suc n) E p st = do {
     (rv, st) \<leftarrow> AG_ObjectChanged E p st;
     if rv = 1 then Some (1, st)
     else do {
       ob \<leftarrow> w_objs (st_w st) p;
       changed_children (AG_ObjectChangedAll n E) (ob_children ob) st
     }
   }"

section \<open>Databases\<close>

text \<open>
  The entries of an open database are a map from keys to data: \<open>AG_DbGet\<close> looks one up and
  \<open>AG_DbPut\<close> enters one, and the result of the latter is a parameter.
\<close>

type_synonym db = "byte list \<Rightarrow> byte list option"

definition AG_ObjectLoadFromDB :: "arch_env \<Rightarrow> byte \<Rightarrow> nat \<Rightarrow> byte list \<Rightarrow> db \<Rightarrow> world \<Rightarrow> (int \<times> world) option" where
  "AG_ObjectLoadFromDB env j p key db w = (case db key of
     None \<Rightarrow> Some (-1, w)
   | Some val \<Rightarrow> do {
       (rv, ds, w) \<leftarrow> AG_ObjectUnserialize env p (AG_OpenCore j val (length val)) w;
       Some (rv, w)
     })"

definition AG_ObjectSaveToDB :: "arch_env \<Rightarrow> byte \<Rightarrow> (byte list \<Rightarrow> int) \<Rightarrow> nat \<Rightarrow> byte list \<Rightarrow> db \<Rightarrow> world \<Rightarrow> (int \<times> db \<times> world) option" where
  "AG_ObjectSaveToDB env j put_rv p key db w = do {
     (rv, ds, w) \<leftarrow> AG_ObjectSerialize env p (AG_OpenAutoCore j) w;
     if rv = -1 then Some (-1, db, w)
     else do {
       ob \<leftarrow> w_objs w p;
       val \<leftarrow> mem_read (cs_data ds) 0 (cs_size ds);
       let dbKey = str_bytes (ob_name ob @ [NUL]);
       Some (put_rv dbKey, if put_rv dbKey = 0 then db(dbKey \<mapsto> val) else db, w)
     }
   }"

end
