(* ===== verification/ArchiveProps.thy ===== *)
theory ArchiveProps
  imports ArchiveLaws ArchiveFiles
begin

unbundle bit_operations_syntax

text \<open>
  Properties of the archives of objects in databases and files: the round trip through a
  database, the detection of changes, and the loss of constant strings.
\<close>

section \<open>Databases and files\<close>

text \<open>The variables of an archive are those of the object again.\<close>

definition has_values :: "world \<Rightarrow> nat \<Rightarrow> entry list \<Rightarrow> bool" where
  "has_values w q es \<longleftrightarrow> (\<forall>(name, t, x) \<in> set es. \<exists>V. lookup w q name = Some V \<and> own_value w V x)"

lemma has_values_added:
  assumes "vars_added w w' q (named es)" and "\<forall>e \<in> set es. no_var w q (fst e)" and "distinct (map fst es)"
  shows "has_values w' q es"
proof -
  have "\<forall>e \<in> set (named es). no_var w q (fst e)" "distinct (map fst (named es))"
    using assms(2,3) by (auto simp: o_def case_prod_beta)
  then show ?thesis using vars_added_lookup [OF assms(1)] by (force simp: has_values_def)
qed

lemma core_source:
  "at_end (AG_OpenAutoCore j)" "cs_data (AG_OpenAutoCore j) = []" "\<not> ds_debug (AG_OpenAutoCore j)"
  "length bs < 2 ^ 63 \<Longrightarrow> src_ok (AG_OpenCore j bs (length bs))" "\<not> ds_debug (AG_OpenCore j bs n)"
  "to_read (AG_OpenCore j bs n) = bs" "byte_order (AG_OpenAutoCore j) = byte_order (AG_OpenCore j' bs n)"
  "same_setup (AG_OpenCore j bs n) d = same_setup (AG_OpenCore j [] 0) d"
  by (auto simp: AG_OpenAutoCore_def AG_OpenCore_def AG_DataSourceInit_def at_end_def src_ok_def sized_def to_read_def same_setup_def)

lemma AG_ObjectSaveToDB_ok:
  assumes "archivable env p w ob cl ks paths" and "saves env ks p w (AG_OpenAutoCore j) data"
    and "length (obj_archive env w (AG_OpenAutoCore j) ob cl paths data) < 2 ^ 62"
  shows "AG_ObjectSaveToDB env j (\<lambda>_. 0) p key db w =
    Some (0, db(str_bytes (ob_name ob @ [NUL]) \<mapsto> obj_archive env w (AG_OpenAutoCore j) ob cl paths data), w)"
proof -
  obtain ds' where ds': "AG_ObjectSerialize env p (AG_OpenAutoCore j) w = Some (0, ds', w)"
     "appends (AG_OpenAutoCore j) (obj_archive env w (AG_OpenAutoCore j) ob cl paths data) ds'"
    using AG_ObjectSerialize_ok [OF assms(1) core_source(1,3) assms(2)] assms(3) core_source(2) [of j] by auto
  have "cs_data ds' = obj_archive env w (AG_OpenAutoCore j) ob cl paths data" "cs_size ds' = length (cs_data ds')"
    using ds'(2) core_source(2) [of j] by (auto simp: appends_def sized_def)
  then have "mem_read (cs_data ds') 0 (cs_size ds') = Some (obj_archive env w (AG_OpenAutoCore j) ob cl paths data)"
    by (simp add: mem_read_def)
  moreover have "w_objs w p = Some ob" using assms(1) by (simp add: archivable_def)
  ultimately show ?thesis using ds'(1) by (simp add: AG_ObjectSaveToDB_def Let_def)
qed

lemma AG_ObjectLoadFromDB_ok:
  assumes "archivable env p w ob cl ks paths" and "loadable q w' ob ob' (saved_entries w (ob_vars ob))" and "w_reg w' = w_reg w"
    and "loads env ks q (cls_ver env (ob_cls ob)) (AG_OpenCore j [] 0) data F"
    and keep: "\<And>w2. w_reg (F w2) = w_reg w2" "\<And>w2. map_option ob_flags (w_objs (F w2) q) = map_option ob_flags (w_objs w2 q)"
    and "db key = Some (obj_archive env w (AG_OpenAutoCore j) ob cl paths data)"
    and "length (obj_archive env w (AG_OpenAutoCore j) ob cl paths data) < 2 ^ 62"
  shows "\<exists>w2. AG_ObjectLoadFromDB env j q key db w' = Some (0, F w2) \<and>
    vars_added (put_obj q (unarchived ob' (ob_flags ob) paths) w') w2 q (named (saved_entries w (ob_vars ob)))"
proof -
  let ?b = "obj_archive env w (AG_OpenAutoCore j) ob cl paths data"
  have l: "loads env ks q (cls_ver env (ob_cls ob)) (AG_OpenCore j ?b (length ?b)) data F"
    using assms(4) core_source(8) [of j ?b "length ?b"] by (simp add: loads_def)
  have s: "src_ok (AG_OpenCore j ?b (length ?b))" using core_source(4) [of ?b j] assms(8) by simp
  have o: "byte_order (AG_OpenAutoCore j) = byte_order (AG_OpenCore j ?b (length ?b))" by (rule core_source(7))
  obtain ds' w2 where "AG_ObjectUnserialize env q (AG_OpenCore j ?b (length ?b)) w' = Some (0, ds', F w2)"
     "vars_added (put_obj q (unarchived ob' (ob_flags ob) paths) w') w2 q (named (saved_entries w (ob_vars ob)))"
    using AG_ObjectUnserialize_ok [OF assms(1-3) s core_source(5) core_source(6) _ l keep] o core_source(3) [of j] by auto
  then show ?thesis using assms(7) by (auto simp: AG_ObjectLoadFromDB_def)
qed

text \<open>The comparison of two files in blocks.\<close>



lemma files_differ_iff: "0 < k \<Longrightarrow> files_differ k prev cur \<longleftrightarrow> prev \<noteq> cur"
proof (induction k prev cur rule: files_differ.induct)
  case (1 k prev cur)
  let ?a = "take k prev" and ?b = "take k cur"
  have split: "prev = cur \<longleftrightarrow> ?a = ?b \<and> drop k prev = drop k cur" by (metis append_take_drop_id)
  show ?case
  proof (cases "length ?a \<noteq> length ?b \<or> (0 < length ?a \<and> ?a \<noteq> ?b)")
    case True
    then show ?thesis by (subst files_differ.simps) (auto simp: Let_def)
  next
    case False
    then have ab: "?a = ?b" by (metis length_0_conv length_greater_0_conv)
    show ?thesis
    proof (cases "length ?a < k")
      case True
      have "length ?b < k" using True by (simp only: ab)
      then have "drop k prev = []" "drop k cur = []" using True by (simp_all add: min_less_iff_disj)
      then have eq: "cur = prev" using split ab by metis
      show ?thesis using True unfolding eq by (subst files_differ.simps) (simp add: Let_def min_less_iff_disj)
    next
      case F: False
      then have "files_differ k prev cur = files_differ k (drop k prev) (drop k cur)"
        using False F 1(2) ab [symmetric] by (subst files_differ.simps) (simp only: Let_def, simp)
      moreover have "files_differ k (drop k prev) (drop k cur) \<longleftrightarrow> drop k prev \<noteq> drop k cur"
        using 1(1) [of ?a ?b] False F ab 1(2) by auto
      ultimately show ?thesis using split ab by simp
    qed
  qed
qed

lemma file_source:
  assumes "AG_OpenFile_wb j can path = Some ds"
  shows "at_end ds" "cs_data ds = []" "\<not> ds_debug ds" "ds = (AG_DataSourceInit j)\<lparr>cs_data := [], cs_size := 0, cs_offs := 0, ds_kind := K_FileW\<rparr>"
  using assms by (auto simp: AG_OpenFile_wb_def AG_DataSourceInit_def at_end_def sized_def to_read_def split: if_splits)

abbreviation file_src :: "byte \<Rightarrow> AG_DataSource" where
  "file_src j \<equiv> (AG_DataSourceInit j)\<lparr>cs_data := [], cs_size := 0, cs_offs := 0, ds_kind := K_FileW\<rparr>"

lemma write_archive_ok:
  assumes "archivable (fe_arch E) p (st_w st) ob cl ks paths" and "saves (fe_arch E) ks p (st_w st) (file_src (fe_junk E)) data"
    and "length (obj_archive (fe_arch E) (st_w st) (file_src (fe_junk E)) ob cl paths data) < 2 ^ 62" and "fe_can_open E path"
    and "\<not> agObjectBackups E"
  shows "write_archive E p path st = Some (0, st\<lparr>st_files := (st_files st)(path \<mapsto>
      obj_archive (fe_arch E) (st_w st) (file_src (fe_junk E)) ob cl paths data)\<rparr>)"
proof -
  have open': "AG_OpenFile_wb (fe_junk E) (fe_can_open E) path = Some (file_src (fe_junk E))" using assms(4) by (simp add: AG_OpenFile_wb_def)
  note f = file_source [OF open']
  obtain ds' where "AG_ObjectSerialize (fe_arch E) p (file_src (fe_junk E)) (st_w st) = Some (0, ds', st_w st)"
     "appends (file_src (fe_junk E)) (obj_archive (fe_arch E) (st_w st) (file_src (fe_junk E)) ob cl paths data) ds'"
    using AG_ObjectSerialize_ok [OF assms(1) f(1,3) assms(2)] assms(3) f(2) by auto
  then show ?thesis using open' assms(5) f(2) by (simp add: write_archive_def AG_FileDelete_def appends_def)
qed

text \<open>Saving the value of a constant string.\<close>

lemma save_vars_append:
  "save_vars H p (vs @ us) count ds w = Option.bind (save_vars H p vs count ds w) (\<lambda>(n, d, w'). save_vars H p us n d w')"
proof (induction vs arbitrary: count ds w)
  case (Cons v vs)
  then show ?case
    by (cases "w_vars w v") (auto simp: Let_def split: Option.bind_splits)
qed simp

lemma const_string_saved:
  assumes "w_objs w p = Some ob" and "ob_vars ob = vs @ [v]" and "list_all (savable w) vs"
    and "w_vars w v = Some V" and "v_type V = AG_VARIABLE_CONST_STRING" and "v_fn V = None" and "length (v_name V) < AG_VARIABLE_NAME_MAX"
    and "at_end ds" and "\<not> ds_debug ds"
    and "int (length (cs_data ds)) + int (length (entries_bytes (byte_order ds) (saved_entries w vs))) + 300000 < 2 ^ 63"
  defines "es \<equiv> saved_entries w vs @ [(v_name V, AG_VARIABLE_STRING, S_str [])]"
  shows "\<exists>ds' bs. AG_ObjectSaveVariables env p ds w = Some (ds', w) \<and> appends ds bs ds' \<and>
    bs @ num_bytes (byte_order ds) 4 AG_Swap32 0 = table_bytes ds es"
proof -
  let ?ord = "byte_order ds" and ?v = "version_bytes ds ''AG_PropTbl'' agPropTblVer" and ?H = "oe_hooks (ae_obj env)"
  let ?last = "string_bytes ?ord (v_name V) @ num_bytes ?ord 4 AG_Swap32 13" and ?es = "saved_entries w vs"
  have room: "int (length (cs_data ds)) + 300000 < 2 ^ 63" using assms(10) by linarith
  obtain d1 where d1: "AG_WriteVersion ''AG_PropTbl'' agPropTblVer ds = Some (0, d1)" "appends ds ?v d1"
    using AG_WriteVersion_ok [OF assms(8), of "''AG_PropTbl''" agPropTblVer] room by (auto simp: AG_VERSION_NAME_MAX_def)
  note s1 = appends_setup [OF d1(2)] appends_at_end [OF assms(8) d1(2)]
  have l1: "length (cs_data d1) = length (cs_data ds) + 56"
    using d1(2) length_version_bytes [OF assms(9), of "''AG_PropTbl''"] by (simp add: appends_def AG_VERSION_NAME_MAX_def)
  let ?F = "\<lambda>d. (of_nat (length es), d, w)" and ?bs = "entries_bytes (byte_order d1) ?es @ ?last"
  have items: "\<exists>d'. save_vars ?H p (ob_vars ob) 0 d w = Some (?F d') \<and> appends d ?bs d'"
    if d: "at_end d" "\<not> ds_debug d" "same_setup d1 d" "int (length (cs_data d)) + int (length ?bs) + 140000 < 2 ^ 63" for d
  proof -
    obtain d2 where d2: "save_vars ?H p vs 0 d w = Some (of_nat (length ?es), d2, w)" "appends d (entries_bytes (byte_order d1) ?es) d2"
      using save_vars_ok [OF assms(3) d(1,2), of ?H p 0] d(3,4) by (auto simp: same_setup_def)
    note s2 = appends_setup [OF d2(2)] appends_at_end [OF d(1) d2(2)]
    have o: "byte_order d2 = ?ord" using s1(1) s2(1) d(3) by (simp add: same_setup_def)
    have l2: "cs_data d2 = cs_data d @ entries_bytes (byte_order d1) ?es" using d2(2) by (simp add: appends_def)
    obtain d3 where d3: "AG_WriteString (Some (v_name V)) d2 = Some d3" "appends d2 (string_bytes ?ord (v_name V)) d3"
      using AG_WriteString_plain [OF s2(2), of "v_name V"] s2(1) d(2,4) o assms(7) l2 by auto
    note s3 = appends_setup [OF d3(2)] appends_at_end [OF s2(2) d3(2)]
    obtain d4 where d4: "AG_WriteUint32 13 d3 = Some d4" "appends d3 (num_bytes ?ord 4 AG_Swap32 13) d4"
      using write_u32_ok [OF s3(2), of 13] s2(1) s3(1) d(2,4) o assms(7) l2 d3(2) by (auto simp: appends_def string_bytes_def)
    have "save_vars ?H p [v] (of_nat (length ?es)) d2 w = Some (?F d4)"
      using assms(4-6) d3(1) d4(1) by (simp add: AG_EvalVariable_def save_value_def es_def vt_def)
    then have "save_vars ?H p (ob_vars ob) 0 d w = Some (?F d4)" using d2(1) unfolding assms(2) save_vars_append by simp
    moreover have "appends d ?bs d4" using appends_trans [OF appends_trans [OF d2(2) d3(2)] d4(2)] by simp
    ultimately show ?thesis by blast
  qed
  obtain d2 d3 ds' where ds': "AG_WriteUint32 0 d1 = Some d2" "save_vars ?H p (ob_vars ob) 0 d2 w = Some (?F d3)"
     "AG_WriteUint32At (of_nat (length es)) (AG_Tell d1) d3 = Some ds'"
     "appends d1 (num_bytes (byte_order d1) 4 AG_Swap32 (of_nat (length es)) @ ?bs) ds'"
    using counted_ok [where items = "\<lambda>d. save_vars ?H p (ob_vars ob) 0 d w" and F = ?F and count = "of_nat (length es)" and bs = ?bs,
      OF s1(2) _ _ items] s1(1) assms(7,9,10) l1 by (auto simp: string_bytes_def)
  have "AG_ObjectSaveVariables env p ds w = Some (ds', w)" using d1(1) ds'(1-3) assms(1) by (simp add: AG_ObjectSaveVariables_def Let_def)
  moreover have "appends ds (?v @ num_bytes ?ord 4 AG_Swap32 (of_nat (length es)) @ ?bs) ds'"
    using appends_trans [OF d1(2) ds'(4)] s1(1) by simp
  moreover have "(?v @ num_bytes ?ord 4 AG_Swap32 (of_nat (length es)) @ ?bs) @ num_bytes ?ord 4 AG_Swap32 0 = table_bytes ds es"
    using s1(1) by (simp add: table_bytes_def es_def code_of_def string_bytes_def u32_def vt_def)
  ultimately show ?thesis by blast
qed

section \<open>Properties\<close>

text \<open>
  An object 0 with a number and a string, an empty object 1, the configuration 98 with the
  path of temporary files; a class whose data set is the number 42.
\<close>

definition own_var :: "string \<Rightarrow> AG_VariableType \<Rightarrow> cval \<Rightarrow> AG_Variable" where
  "own_var name t d = (AG_InitVariable t blank_var)\<lparr>v_name := name, v_data := d\<rparr>"

definition arch_world :: world where
  "arch_world = blank_world\<lparr>
     w_objs := [0 \<mapsto> blank_obj\<lparr>ob_name := ''src'', ob_vars := [10, 11], ob_archivePath := Some ''/s.arc''\<rparr>,
                1 \<mapsto> blank_obj\<lparr>ob_name := ''dst''\<rparr>, 2 \<mapsto> blank_obj\<lparr>ob_name := ''cst'', ob_vars := [10, 12]\<rparr>,
                98 \<mapsto> blank_obj\<lparr>ob_name := ''config'', ob_vars := [13]\<rparr>],
     w_vars := [10 \<mapsto> own_var ''n'' AG_VARIABLE_INT (C_i 7), 11 \<mapsto> own_var ''s'' AG_VARIABLE_STRING (C_s (Some 20)),
                12 \<mapsto> own_var ''c'' AG_VARIABLE_CONST_STRING (C_Cs (Some 20)),
                13 \<mapsto> own_var ''tmp-path'' AG_VARIABLE_STRING (C_s (Some 21))],
     w_mem := [20 \<mapsto> M_buf (''text'' @ [NUL]), 21 \<mapsto> M_buf (''/tmp'' @ [NUL])], w_brk := 100\<rparr>"

definition test_arch :: arch_env where
  "test_arch = \<lparr>ae_obj = \<lparr>oe_hooks = \<lparr>hk_fuel = 20, hk_call = (\<lambda>f ev w. Some w), hk_eval = (\<lambda>f ev w. None),
       hk_str = (\<lambda>f ev b n w. None), hk_flt = (\<lambda>_. []), hk_ptr = (\<lambda>_. [])\<rparr>,
     oe_src = \<lparr>src_timer_cap = False, src_addTimerFn = None, src_delTimerFn = None, src_ticks = (\<lambda>_. 0), src_mgr = 99\<rparr>,
     oe_init = (\<lambda>_. None), oe_reinit = (\<lambda>_. None), oe_destroy = (\<lambda>_. None), oe_config = 98, oe_exists = (\<lambda>_. False)\<rparr>,
     ae_ver = (\<lambda>_. \<lparr>major = 1, minor = 0\<rparr>),
     ae_load = (\<lambda>k. Some (\<lambda>p v ds w. map_option (\<lambda>(x, ds). (if x = 42 then 0 else -1, ds, w)) (AG_ReadUint32 ds))),
     ae_save = (\<lambda>k. Some (\<lambda>p ds w. map_option (\<lambda>ds. (0, ds, w)) (AG_WriteUint32 42 ds)))\<rparr>"

definition obj_cls :: AG_ObjectClass where
  "obj_cls = \<lparr>cl_hier = ''AG_Object'', cl_name = ''AG_Object'', cl_libs = [], cl_sub = [], cl_super = None\<rparr>"

lemma arch_world_cls: "cl_mem (w_reg arch_world) agObjectClass = obj_cls" by code_simp
lemma arch_world_hier: "obj_hier 0 arch_world = Some (Some [agObjectClass])" by code_simp
lemma arch_world_entries:
  "saved_entries arch_world [10, 11] = [(''n'', AG_VARIABLE_INT, S_num (C_i 7)), (''s'', AG_VARIABLE_STRING, S_str ''text'')]"
  "saved_entries arch_world [10] = [(''n'', AG_VARIABLE_INT, S_num (C_i 7))]"
  by code_simp+

lemma arch_world_savable: "savable arch_world 10" "savable arch_world 11"
  by (auto simp: savable_def arch_world_def own_var_def var_value_def AG_InitVariable_def vt_def rd_memb_def get_cstr_def AG_LOAD_STRING_MAX_def terminated_def cstr_def)

lemma arch_world_ok: "world_ok arch_world"
  by (auto simp: world_ok_def arch_world_def blank_world_def split: if_splits)

lemma arch_world_objs:
  "w_objs arch_world 0 = Some (blank_obj\<lparr>ob_name := ''src'', ob_vars := [10, 11], ob_archivePath := Some ''/s.arc''\<rparr>)"
  "w_objs arch_world 1 = Some (blank_obj\<lparr>ob_name := ''dst''\<rparr>)" "w_objs arch_world 2 = Some (blank_obj\<lparr>ob_name := ''cst'', ob_vars := [10, 12]\<rparr>)"
  by (simp_all add: arch_world_def)

abbreviation src_obj :: AG_Object where
  "src_obj \<equiv> blank_obj\<lparr>ob_name := ''src'', ob_vars := [10, 11], ob_archivePath := Some ''/s.arc''\<rparr>"

lemma arch_world_archivable: "archivable test_arch 0 arch_world src_obj obj_cls [agObjectClass] []"
  unfolding archivable_def using arch_world_objs(1) arch_world_cls arch_world_hier arch_world_entries(1) arch_world_savable
  by (simp add: blank_obj_def obj_cls_def spec_ok_def nonul_def AG_VERSION_NAME_MAX_def)

lemma arch_world_loadable: "loadable 1 arch_world src_obj (blank_obj\<lparr>ob_name := ''dst''\<rparr>) (saved_entries arch_world (ob_vars src_obj))"
  using arch_world_ok arch_world_objs by (simp add: loadable_def blank_obj_def no_var_def)

lemma test_arch_saves: "\<not> ds_debug ds \<Longrightarrow> saves test_arch [agObjectClass] p w ds (num_bytes (byte_order ds) 4 AG_Swap32 42)"
  unfolding saves_def
proof (intro allI impI)
  fix d assume a: "\<not> ds_debug ds"
    "at_end d \<and> same_setup ds d \<and> int (length (cs_data d)) + int (length (num_bytes (byte_order ds) 4 AG_Swap32 (42 :: 32 word))) + 65536 < 2 ^ 63"
  then have "at_end d" "\<not> ds_debug d" "byte_order d = byte_order ds" by (auto simp: same_setup_def)
  moreover obtain d' where "AG_WriteUint32 42 d = Some d'" "appends d (num_bytes (byte_order d) 4 AG_Swap32 42) d'"
    using write_u32_ok [of d 42] calculation a(2) by auto
  ultimately show "\<exists>d'. run_save test_arch [agObjectClass] p d w = Some (True, d', w) \<and> appends d (num_bytes (byte_order ds) 4 AG_Swap32 42) d'"
    by (simp add: test_arch_def)
qed

lemma test_arch_loads: "\<not> ds_debug ds \<Longrightarrow> loads test_arch [agObjectClass] q ver ds (num_bytes (byte_order ds) 4 AG_Swap32 42) id"
  unfolding loads_def
proof (intro allI impI)
  fix d w assume a: "\<not> ds_debug ds" "src_ok d \<and> same_setup ds d \<and> to_read d = num_bytes (byte_order ds) 4 AG_Swap32 42"
  then have "\<not> ds_debug d" "byte_order d = byte_order ds" by (auto simp: same_setup_def)
  then obtain d' where "AG_ReadUint32 d = Some (42, d')" using read_u32_ok [of d 42 "[]"] a(2) by auto
  then show "\<exists>d'. run_load test_arch [agObjectClass] q ver d w = Some (True, d', id w)" by (simp add: test_arch_def)
qed

lemma arch_world_room:
  "\<not> ds_debug ds \<Longrightarrow> length (obj_archive test_arch arch_world ds src_obj obj_cls [] (num_bytes (byte_order ds) 4 AG_Swap32 (42 :: 32 word))) < 2 ^ 62"
  using length_version_bytes [of ds "''AG_Object''"] length_version_bytes [of ds "''AG_PropTbl''"] arch_world_cls arch_world_entries(1)
  by (simp add: obj_archive_def arch_bytes_def arch_start_def arch_tables_def table_bytes_def deps_bytes_def string_bytes_def obj_cls_def
      AG_VERSION_NAME_MAX_def)

lemma arch_world_tmp:
  "\<exists>buf. AG_GetString (oe_hooks (ae_obj test_arch)) (oe_config (ae_obj test_arch)) ''tmp-path''
     (replicate AG_PATHNAME_MAX NUL) AG_PATHNAME_MAX arch_world = Some (length ''/tmp'', buf, arch_world) \<and> cstr buf = ''/tmp''"
proof -
  let ?V = "own_var ''tmp-path'' AG_VARIABLE_STRING (C_s (Some 21))"
  have iv: "is_var arch_world 98 ''tmp-path'' 13 ?V"
    by (auto simp: is_var_def arch_world_def own_var_def blank_obj_def intro!: exI [of _ "[]"])
  have "w_mem arch_world 21 = Some (M_buf (''/tmp'' @ NUL # []))" by (simp add: arch_world_def)
  from get_string [OF iv _ _ _ this, of AG_PATHNAME_MAX "replicate AG_PATHNAME_MAX NUL" "oe_hooks (ae_obj test_arch)"] show ?thesis
    by (simp add: own_var_def AG_InitVariable_def test_arch_def)
qed

lemma arch_world_name:
  "AG_ObjectCopyName 0 (replicate AG_OBJECT_PATH_MAX NUL) AG_OBJECT_PATH_MAX arch_world \<noteq> None"
  by code_simp

definition test_files :: file_env where
  "test_files = \<lparr>fe_arch = test_arch, fe_is_dir = (\<lambda>_. False), fe_mkpath = (\<lambda>_. 0), fe_can_open = (\<lambda>_. True), fe_junk = 0,
     agObjectBackups = False, agObjectIgnoreUnknownObjs = False, fe_digest = (\<lambda>_ _. []), fe_load_dso = (\<lambda>_ _. (None, 0)),
     fe_sym_dso = (\<lambda>_ _ _. None), fe_unload_dso = (\<lambda>_ _. 0)\<rparr>"

lemma test_files_simps [simp]:
  "fe_arch test_files = test_arch" "fe_can_open test_files = (\<lambda>_. True)" "fe_junk test_files = 0" "agObjectBackups test_files = False"
  by (simp_all add: test_files_def)

abbreviation arch_store :: store where
  "arch_store \<equiv> \<lparr>st_w = arch_world, st_files = [''/s.arc'' \<mapsto> [1, 2, 3]], st_dl = 0\<rparr>"

text \<open>
  C9: an object archived in a database is restored from it: \<open>AG_ObjectSaveToDB\<close> enters the
  archive of an object without saved children, not in debug mode, that has no variable with a function and no
  constant string (\<open>archivable\<close>; variables of the types that are not saved are left out), \<open>AG_ObjectLoadFromDB\<close> of that entry into an
  object of the class succeeds, the object gets the flags that are saved and the
  dependencies, and a new variable for every number and string that was saved, and the data
  set goes to the routines of the classes; no other object changes.  The key it is entered
  under is the name of the object: the key that the caller passes is ignored, so that a
  look-up with it fails.
\<close>

theorem AG_ObjectDB_roundtrip:
  assumes "archivable env p w ob cl ks paths" and "loadable q w' ob ob' (saved_entries w (ob_vars ob))" and "w_reg w' = w_reg w"
    and "saves env ks p w (AG_OpenAutoCore j) data" and "loads env ks q (cls_ver env (ob_cls ob)) (AG_OpenCore j [] 0) data F"
    and "\<And>w2. w_reg (F w2) = w_reg w2 \<and> map_option ob_flags (w_objs (F w2) q) = map_option ob_flags (w_objs w2 q)"
    and "length (obj_archive env w (AG_OpenAutoCore j) ob cl paths data) < 2 ^ 62"
  shows "\<exists>db' w2. AG_ObjectSaveToDB env j (\<lambda>_. 0) p key db w = Some (0, db', w) \<and>
    AG_ObjectLoadFromDB env j q (str_bytes (ob_name ob @ [NUL])) db' w' = Some (0, F w2) \<and>
    (\<exists>new. w_objs w2 = (w_objs w')(q \<mapsto> (unarchived ob' (ob_flags ob) paths)\<lparr>ob_vars := ob_vars ob' @ new\<rparr>)) \<and>
    has_values w2 q (saved_entries w (ob_vars ob)) \<and>
    (key \<noteq> str_bytes (ob_name ob @ [NUL]) \<and> db key = None \<longrightarrow> AG_ObjectLoadFromDB env j q key db' w' = Some (-1, w'))"
proof -
  let ?es = "saved_entries w (ob_vars ob)" and ?U = "unarchived ob' (ob_flags ob) paths"
  let ?db = "db(str_bytes (ob_name ob @ [NUL]) \<mapsto> obj_archive env w (AG_OpenAutoCore j) ob cl paths data)"
  have L: "w_objs w' q = Some ob'" "\<forall>e \<in> set ?es. no_var w' q (fst e)" "distinct (map fst ?es)"
    using assms(1,2) by (auto simp: loadable_def archivable_def)
  obtain w2 where w2: "AG_ObjectLoadFromDB env j q (str_bytes (ob_name ob @ [NUL])) ?db w' = Some (0, F w2)"
     "vars_added (put_obj q ?U w') w2 q (named ?es)"
    using AG_ObjectLoadFromDB_ok [where db = ?db and key = "str_bytes (ob_name ob @ [NUL])", OF assms(1-3,5) _ _ _ assms(7)] assms(6) by auto
  have "\<forall>e \<in> set ?es. no_var (put_obj q ?U w') q (fst e)"
    using L(2) no_var_put_obj [OF _ L(1), of _ ?U] by (auto simp: unarchived_def)
  from has_values_added [OF w2(2) this L(3)] have "has_values w2 q ?es" .
  moreover have "\<exists>new. w_objs w2 = (w_objs w')(q \<mapsto> ?U\<lparr>ob_vars := ob_vars ob' @ new\<rparr>)"
    using w2(2) by (auto simp: vars_added_def unarchived_def)
  moreover have "key \<noteq> str_bytes (ob_name ob @ [NUL]) \<and> db key = None \<longrightarrow> AG_ObjectLoadFromDB env j q key ?db w' = Some (-1, w')"
    by (simp add: AG_ObjectLoadFromDB_def)
  ultimately show ?thesis using AG_ObjectSaveToDB_ok [OF assms(1,4,7), of key db] w2(1) by blast
qed

theorem AG_ObjectDB_roundtrip_witness:
  "\<exists>db' w2. AG_ObjectSaveToDB test_arch 0 (\<lambda>_. 0) 0 [1] (\<lambda>_. None) arch_world = Some (0, db', arch_world) \<and>
    AG_ObjectLoadFromDB test_arch 0 1 (str_bytes (''src'' @ [NUL])) db' arch_world = Some (0, w2) \<and>
    has_values w2 1 [(''n'', AG_VARIABLE_INT, S_num (C_i 7)), (''s'', AG_VARIABLE_STRING, S_str ''text'')] \<and>
    AG_ObjectLoadFromDB test_arch 0 1 [1] db' arch_world = Some (-1, arch_world)"
proof -
  let ?d = "num_bytes (byte_order (AG_OpenAutoCore 0)) 4 AG_Swap32 (42 :: 32 word)"
  have s: "saves test_arch [agObjectClass] 0 arch_world (AG_OpenAutoCore 0) ?d" using test_arch_saves core_source(3) by blast
  have o: "byte_order (AG_OpenAutoCore 0) = byte_order (AG_OpenCore 0 [] 0)" by (rule core_source(7))
  have l: "loads test_arch [agObjectClass] 1 (cls_ver test_arch (ob_cls src_obj)) (AG_OpenCore 0 [] 0) ?d id"
    unfolding o by (rule test_arch_loads [OF core_source(5)])
  have r: "length (obj_archive test_arch arch_world (AG_OpenAutoCore 0) src_obj obj_cls [] ?d) < 2 ^ 62"
    by (rule arch_world_room [OF core_source(3)])
  show ?thesis
    using AG_ObjectDB_roundtrip [OF arch_world_archivable arch_world_loadable refl s l _ r, of "[1]" "\<lambda>_. None"]
      arch_world_entries(1) by (force simp: str_bytes_def)
qed

text \<open>
  C10: \<open>AG_ObjectChanged\<close> is exact: for a persistent object with an archive path it returns 0
  when the file holds the archive that would be written now, and 1 otherwise (also when there
  is no file), and leaves all files but the temporary one alone; \<open>AG_ObjectSaveToFile\<close> makes
  the file hold that archive.  The object can be archived (\<open>archivable\<close>, \<open>saves\<close>), backups are off, files can be opened, and the paths,
  that of the temporary file being another, fit their buffers.
\<close>

theorem AG_ObjectChanged_exact:
  assumes "A = obj_archive (fe_arch E) (st_w st) (file_src (fe_junk E)) ob cl paths data" and "archivable (fe_arch E) p (st_w st) ob cl ks paths" and "saves (fe_arch E) ks p (st_w st) (file_src (fe_junk E)) data"
    and "length A < 2 ^ 62" and "\<not> agObjectBackups E" and "\<forall>path. fe_can_open E path"
    and "ob_flags ob AND AG_OBJECT_NON_PERSISTENT = 0" and "ob_archivePath ob = Some path" and "length path < AG_PATHNAME_MAX"
    and "AG_ObjectCopyName p (replicate AG_OBJECT_PATH_MAX NUL) AG_OBJECT_PATH_MAX (st_w st) = Some nm"
    and "AG_GetString (oe_hooks (ae_obj (fe_arch E))) (oe_config (ae_obj (fe_arch E))) ''tmp-path''
       (replicate AG_PATHNAME_MAX NUL) AG_PATHNAME_MAX (st_w st) = Some (n, buf, st_w st)"
    and "tmp = str_cat AG_PATHNAME_MAX (str_cat AG_PATHNAME_MAX (str_cat AG_PATHNAME_MAX (cstr buf) ''/'') ''_chg.'') (ob_name ob)"
    and "tmp \<noteq> path" and "length tmp < AG_PATHNAME_MAX"
  shows "AG_ObjectSaveToFile E p None st = Some (0, st\<lparr>st_files := (st_files st)(path \<mapsto> A)\<rparr>) \<and>
    (\<exists>st'. AG_ObjectChanged E p st = Some (if st_files st path = Some A then 0 else 1, st') \<and> st_w st' = st_w st \<and>
      (\<forall>f. f \<noteq> tmp \<longrightarrow> st_files st' f = st_files st f))"
proof -
  have ob: "w_objs (st_w st) p = Some ob" using assms(2) by (simp add: archivable_def)
  have save: "write_archive E p f st = Some (0, st\<lparr>st_files := (st_files st)(f \<mapsto> A)\<rparr>)" for f
    using write_archive_ok [OF assms(2,3) _ _ assms(5), of f] assms(4,6) by (simp add: assms(1))
  have cpy: "str_cpy AG_PATHNAME_MAX path = path" "str_cpy AG_PATHNAME_MAX tmp = tmp" using assms(9,14) by (simp_all add: str_cpy_def)
  have pers: "persistent p (st_w st) = Some True" using ob assms(7) by (simp add: persistent_def has_flag_def)
  obtain nm1 nm2 where nm: "nm = (nm1, nm2)" by (cases nm)
  have whole: "AG_ObjectSaveToFile E p None st = Some (0, st\<lparr>st_files := (st_files st)(path \<mapsto> A)\<rparr>)"
    using save cpy ob pers assms(8,10) nm by (simp add: AG_ObjectSaveToFile_def cls_of_def)
  have tmpsave: "AG_ObjectSaveToFile E p (Some tmp) st = Some (0, st\<lparr>st_files := (st_files st)(tmp \<mapsto> A)\<rparr>)"
    using save cpy ob pers assms(10) nm by (simp add: AG_ObjectSaveToFile_def cls_of_def)
  have fn: "AG_ObjectCopyFilename (obj_env_of E st) p [] AG_PATHNAME_MAX (st_w st) = Some (0, path, st_w st)"
    using ob assms(8) cpy by (simp add: AG_ObjectCopyFilename_def)
  have d: "files_differ AG_BUFFER_MAX a b \<longleftrightarrow> a \<noteq> b" for a b by (rule files_differ_iff) (simp add: AG_BUFFER_MAX_def)
  have "\<exists>st'. AG_ObjectChanged E p st = Some (if st_files st path = Some A then 0 else 1, st') \<and> st_w st' = st_w st \<and>
      (\<forall>f. f \<noteq> tmp \<longrightarrow> st_files st' f = st_files st f)"
  proof (cases "st_files st path")
    case None
    then show ?thesis using pers fn by (simp add: AG_ObjectChanged_def)
  next
    case (Some prev)
    then show ?thesis using pers fn assms(11,12) ob tmpsave
      by (simp add: AG_ObjectChanged_def Let_def d AG_FileDelete_def)
  qed
  with whole show ?thesis by blast
qed

theorem AG_ObjectChanged_exact_witness:
  "\<exists>A st'. AG_ObjectSaveToFile test_files 0 None arch_store = Some (0, arch_store\<lparr>st_files := [''/s.arc'' \<mapsto> A]\<rparr>) \<and>
    AG_ObjectChanged test_files 0 arch_store = Some (if [1, 2, 3] = A then 0 else 1, st')"
proof -
  let ?d = "num_bytes (byte_order (file_src 0)) 4 AG_Swap32 (42 :: 32 word)"
  let ?A = "obj_archive test_arch arch_world (file_src 0) src_obj obj_cls [] ?d"
  obtain nm where nm: "AG_ObjectCopyName 0 (replicate AG_OBJECT_PATH_MAX NUL) AG_OBJECT_PATH_MAX arch_world = Some nm"
    using arch_world_name by blast
  obtain buf where buf: "AG_GetString (oe_hooks (ae_obj test_arch)) (oe_config (ae_obj test_arch)) ''tmp-path''
     (replicate AG_PATHNAME_MAX NUL) AG_PATHNAME_MAX arch_world = Some (length ''/tmp'', buf, arch_world)" "cstr buf = ''/tmp''"
    using arch_world_tmp by blast
  have dbg: "\<not> ds_debug (file_src 0)" by (simp add: AG_DataSourceInit_def)
  have s: "saves test_arch [agObjectClass] 0 arch_world (file_src 0) ?d" by (rule test_arch_saves [OF dbg])
  have tmp: "str_cat AG_PATHNAME_MAX (str_cat AG_PATHNAME_MAX (str_cat AG_PATHNAME_MAX (cstr buf) ''/'') ''_chg.'') (ob_name src_obj) = ''/tmp/_chg.src''"
    using buf(2) by (simp add: str_cat_def)
  show ?thesis
    using AG_ObjectChanged_exact [where E = test_files and st = arch_store and p = 0 and ob = src_obj and cl = obj_cls and ks = "[agObjectClass]"
        and paths = "[]" and data = ?d and path = "''/s.arc''" and nm = nm and n = "length ''/tmp''" and buf = buf and tmp = "''/tmp/_chg.src''" and A = ?A]
      arch_world_archivable s arch_world_room [OF dbg] nm buf(1) tmp
    by (auto simp: blank_obj_def)
qed

text \<open>
  The value of a constant string is not saved, but its name and the code of a string are:
  when the last variable of an object is one, the archive reads as if it held the empty
  string, whose length is the 4 bytes that follow the table; an object without children that
  is loaded from the archive gets the empty string, and the reader has gone past the count
  of children.
\<close>

theorem AG_ConstString_lost:
  assumes "w_objs w p = Some ob" and "ob_vars ob = vs @ [v]" and "list_all (savable w) vs"
    and "w_vars w v = Some V" and "v_type V = AG_VARIABLE_CONST_STRING" and "v_fn V = None" and "length (v_name V) < AG_VARIABLE_NAME_MAX"
    and "nonul (v_name V)" and "distinct (map fst (saved_entries w vs) @ [v_name V])" and "length (saved_entries w vs) < 2 ^ 32 - 1"
    and "length (entries_bytes ord (saved_entries w vs)) < 2 ^ 62"
    and "world_ok w'" and "w_objs w' q = Some ob'" and "ob_flags ob' AND AG_OBJECT_FLOATING_VARS = 0"
    and "\<forall>e \<in> set (saved_entries w vs @ [(v_name V, AG_VARIABLE_STRING, S_str [])]). no_var w' q (fst e)"
  shows "\<exists>d1 d2 d3 w2. AG_ObjectSaveVariables env p (new_source j ord False) w = Some (d1, w) \<and> AG_WriteUint32 0 d1 = Some d2 \<and>
    AG_ObjectLoadVariables q (snd (AG_Seek 0 AG_SEEK_SET d2)) w' = Some (0, d3, w2) \<and> to_read d3 = [] \<and>
    has_values w2 q (saved_entries w vs @ [(v_name V, AG_VARIABLE_STRING, S_str [])])"
proof -
  let ?ds = "new_source j ord False" and ?es = "saved_entries w vs @ [(v_name V, AG_VARIABLE_STRING, S_str [])]"
  note ns = new_source_at_end [of j ord False]
  have dbg: "\<not> ds_debug ?ds" using ns(3) by simp
  obtain d1 bs where d1: "AG_ObjectSaveVariables env p ?ds w = Some (d1, w)" "appends ?ds bs d1"
     "bs @ num_bytes ord 4 AG_Swap32 0 = table_bytes ?ds ?es"
    using const_string_saved [OF assms(1-7) ns(1) dbg, of env] assms(11) ns(2,4) by auto
  note s1 = appends_setup [OF d1(2)] appends_at_end [OF ns(1) d1(2)]
  have "length (table_bytes ?ds ?es) \<le> 2 ^ 62 + 200"
    using assms(7,11) ns(4) length_version_bytes [OF dbg, of "''AG_PropTbl''"]
    by (simp add: table_bytes_def AG_VERSION_NAME_MAX_def string_bytes_def)
  then have "int (length bs) \<le> 2 ^ 62 + 200" unfolding d1(3) [symmetric] by simp
  then obtain d2 where d2: "AG_WriteUint32 0 d1 = Some d2" "appends d1 (num_bytes ord 4 AG_Swap32 0) d2"
    using write_u32_ok [OF s1(2), of 0] s1(1) d1(2) ns(2-4) by (auto simp: appends_def)
  have "appends ?ds (table_bytes ?ds ?es) d2" using appends_trans [OF d1(2) d2(2)] d1(3) by simp
  from rewind [OF this ns(2,6)] have r: "reads ?ds (table_bytes ?ds ?es) (snd (AG_Seek 0 AG_SEEK_SET d2))" .
  let ?d = "snd (AG_Seek 0 AG_SEEK_SET d2)"
  have ss: "same_setup ?ds ?d" using r by (simp add: reads_def)
  have tb: "table_bytes ?d ?es = table_bytes ?ds ?es"
    using version_bytes_setup [OF ss] same_setup_order [OF ss] by (simp add: table_bytes_def)
  have eo: "list_all entry_ok ?es" using savable_entries_ok [OF assms(3)] assms(7,8) by (simp add: vt_def)
  obtain d3 w2 where d3: "AG_ObjectLoadVariables q ?d w' = Some (0, d3, w2)" "reads ?d [] d3" "vars_added w' w2 q (named ?es)"
    using load_variables_ok [OF assms(13,14) eo _ assms(15) _ _ _ _ assms(12), of ?d "[]"] assms(9,10) r tb dbg same_setup_order [OF ss]
    by (auto simp: reads_def)
  have "has_values w2 q ?es" using has_values_added [OF d3(3) assms(15)] assms(9) by simp
  then show ?thesis using d1(1) d2(1) d3(1,2) by (auto simp: reads_def)
qed

theorem AG_ConstString_lost_witness:
  "\<exists>d1 d2 d3 w2. AG_ObjectSaveVariables test_arch 2 (new_source 0 AG_BYTEORDER_LE False) arch_world = Some (d1, arch_world) \<and>
    AG_WriteUint32 0 d1 = Some d2 \<and>
    AG_ObjectLoadVariables 1 (snd (AG_Seek 0 AG_SEEK_SET d2)) arch_world = Some (0, d3, w2) \<and> to_read d3 = [] \<and>
    has_values w2 1 [(''n'', AG_VARIABLE_INT, S_num (C_i 7)), (''c'', AG_VARIABLE_STRING, S_str [])]"
proof -
  let ?V = "own_var ''c'' AG_VARIABLE_CONST_STRING (C_Cs (Some 20))"
  have V: "w_vars arch_world 12 = Some ?V" "v_type ?V = AG_VARIABLE_CONST_STRING" "v_fn ?V = None" "v_name ?V = ''c''"
    by (simp_all add: arch_world_def own_var_def AG_InitVariable_def)
  have l: "length (entries_bytes AG_BYTEORDER_LE (saved_entries arch_world [10])) < 2 ^ 62"
    unfolding arch_world_entries(2) by (simp add: string_bytes_def)
  have nv: "no_var arch_world 1 name" for name by (simp add: blank_obj_def no_var_def arch_world_objs(2) del: One_nat_def)
  show ?thesis
    using AG_ConstString_lost [OF arch_world_objs(3) _ _ V(1-3) _ _ _ _ l arch_world_ok arch_world_objs(2), of test_arch 0]
      arch_world_savable V(4) arch_world_entries(2) nv
    by (simp add: blank_obj_def del: One_nat_def)
qed

end
