(* ===== verification/Web.thy ===== *)
theory Web
  imports CStr CaseStr
begin

unbundle bit_operations_syntax

text \<open>
  Queries of the HTTP application server (core/web.c, core/web.h): the arguments and cookies of a
  query, the encoding of URLs and forms, the parsing of the request line and of the request
  headers, the buffer of the response headers, and the numbers that arguments are read as.

  A result in the option type is \<^const>\<open>None\<close> when the process ends (\<open>AG_FatalError\<close>) or accesses memory
  outside an object.  Allocation does not fail.  Strings are without their terminator except in the buffer of
  the response headers and in the values of arguments, which are objects in memory.
\<close>

section \<open>Characters and numbers of the C library\<close>

abbreviation CR :: char where "CR \<equiv> CHR 0x0D"
abbreviation LF :: char where "LF \<equiv> CHR 0x0A"
abbreviation HT :: char where "HT \<equiv> CHR 0x09"

text \<open>The character classes in the C locale.\<close>

definition ascii :: "char \<Rightarrow> nat" where "ascii c = of_char c"

definition isdigit :: "char \<Rightarrow> bool" where "isdigit c \<longleftrightarrow> 48 \<le> ascii c \<and> ascii c \<le> 57"
definition isupper :: "char \<Rightarrow> bool" where "isupper c \<longleftrightarrow> 65 \<le> ascii c \<and> ascii c \<le> 90"
definition islower :: "char \<Rightarrow> bool" where "islower c \<longleftrightarrow> 97 \<le> ascii c \<and> ascii c \<le> 122"
definition isalnum :: "char \<Rightarrow> bool" where "isalnum c \<longleftrightarrow> isdigit c \<or> isupper c \<or> islower c"
definition isspace :: "char \<Rightarrow> bool" where "isspace c \<longleftrightarrow> 9 \<le> ascii c \<and> ascii c \<le> 13 \<or> ascii c = 32"
definition isgraph :: "char \<Rightarrow> bool" where "isgraph c \<longleftrightarrow> 33 \<le> ascii c \<and> ascii c \<le> 126"
definition isprint :: "char \<Rightarrow> bool" where "isprint c \<longleftrightarrow> 32 \<le> ascii c \<and> ascii c \<le> 126"
definition isxdigit :: "char \<Rightarrow> bool" where
  "isxdigit c \<longleftrightarrow> isdigit c \<or> 65 \<le> ascii c \<and> ascii c \<le> 70 \<or> 97 \<le> ascii c \<and> ascii c \<le> 102"

lemma tolower_upper: "tolower c = (if isupper c then char_of (ascii c + 32) else c)"
  by (simp add: tolower_def isupper_def ascii_def)

definition hex_value :: "char \<Rightarrow> nat" where
  "hex_value c = (if isdigit c then ascii c - 48 else if isupper c then ascii c - 55 else ascii c - 87)"

text \<open>Two digits of \<open>%02x\<close>.\<close>

definition hex_digit :: "nat \<Rightarrow> char" where
  "hex_digit n = ''0123456789abcdef'' ! n"

definition strcaseeq :: "string \<Rightarrow> string \<Rightarrow> bool" where
  "strcaseeq s t \<longleftrightarrow> map tolower s = map tolower t"

text \<open>\<open>strncasecmp(s, t, strlen(t)) == 0\<close>.\<close>

definition has_prefix :: "string \<Rightarrow> string \<Rightarrow> bool" where
  "has_prefix s t \<longleftrightarrow> map tolower (take (length t) s) = map tolower t"

fun contains_ci :: "string \<Rightarrow> string \<Rightarrow> bool" where
  "contains_ci [] t = has_prefix [] t"
| "contains_ci (c # s) t = (has_prefix (c # s) t \<or> contains_ci s t)"

text \<open>
  \<open>strtol\<close> and \<open>strtoul\<close> with base 10: the value, what follows the number, and whether it was
  out of range.  Without a digit nothing is consumed.
\<close>

definition digits_value :: "string \<Rightarrow> nat" where
  "digits_value s = foldl (\<lambda>n c. 10 * n + (ascii c - 48)) 0 s"

definition split_number :: "string \<Rightarrow> bool \<times> string \<times> string" where
  "split_number s = (let t = dropWhile isspace s;
     (neg, u) = (case t of c # u \<Rightarrow> if c = CHR ''-'' then (True, u) else if c = CHR ''+'' then (False, u) else (False, t) | [] \<Rightarrow> (False, []))
     in if takeWhile isdigit u = [] then (False, [], s) else (neg, takeWhile isdigit u, dropWhile isdigit u))"

abbreviation LONG_MAX :: int where "LONG_MAX \<equiv> 2 ^ 63 - 1"
abbreviation LONG_MIN :: int where "LONG_MIN \<equiv> - (2 ^ 63)"
abbreviation INT_MAX :: int where "INT_MAX \<equiv> 2 ^ 31 - 1"
abbreviation INT_MIN :: int where "INT_MIN \<equiv> - (2 ^ 31)"
abbreviation ULONG_MAX :: int where "ULONG_MAX \<equiv> 2 ^ 64 - 1"
abbreviation UINT_MAX :: int where "UINT_MAX \<equiv> 2 ^ 32 - 1"

definition strtol :: "string \<Rightarrow> int \<times> string \<times> bool" where
  "strtol s = (case split_number s of (neg, ds, rest) \<Rightarrow>
     let v = (if neg then - int (digits_value ds) else int (digits_value ds)) in
     if v > LONG_MAX then (LONG_MAX, rest, True) else if v < LONG_MIN then (LONG_MIN, rest, True) else (v, rest, False))"

definition strtoul :: "string \<Rightarrow> int \<times> string \<times> bool" where
  "strtoul s = (case split_number s of (neg, ds, rest) \<Rightarrow>
     let v = int (digits_value ds) in
     if v > ULONG_MAX then (ULONG_MAX, rest, True) else ((if neg then (- v) mod 2 ^ 64 else v), rest, False))"

text \<open>\<open>strtonum(s, min, max)\<close>: no value for a string that is not a number of the range.\<close>

definition strtonum :: "string \<Rightarrow> int \<Rightarrow> int \<Rightarrow> int option" where
  "strtonum s mn mx = (case strtol s of (v, rest, erange) \<Rightarrow>
     if s = [] \<or> rest \<noteq> [] \<or> erange \<or> v < mn \<or> v > mx then None else Some v)"

section \<open>Queries\<close>

text \<open>The last constructor stands for the other values that the integer of the enumeration can have.\<close>

datatype web_argument_type = WEB_GET_ARGUMENT | WEB_POST_ARGUMENT | WEB_OTHER_ARGUMENT nat

text \<open>The value is the block that is allocated for it, if any.\<close>

record WEB_Argument =
  a_type :: web_argument_type
  a_key :: string
  a_value :: "char list option"
  a_len :: nat
  a_contentType :: string

record WEB_Cookie =
  ck_name :: string
  ck_value :: string
  ck_expires :: string
  ck_domain :: string
  ck_path :: string
  ck_flags :: "32 word"

text \<open>
  The arrays \<open>acceptLangs\<close> and \<open>headLine\<close> are given up to their counts, and \<open>data\<close> up to
  \<open>dataLen\<close>.
\<close>

record WEB_Query =
  q_method :: nat
  q_flags :: "32 word"
  q_compressLvl :: int
  q_acceptLangs :: "string list"
  q_args :: "WEB_Argument list"
  q_nArgs :: nat
  q_cookies :: "WEB_Cookie list"
  q_nCookies :: nat
  q_contentType :: string
  q_contentLength :: nat
  q_rangeFrom :: int
  q_rangeTo :: int
  q_userIP :: string
  q_userHost :: string
  q_userAgent :: string
  q_code :: string
  q_head :: "char list"
  q_headLine :: "nat list"
  q_headLen :: nat
  q_data :: string
  q_dataSize :: nat
  q_lang :: string
  q_date :: string

definition WEB_METHOD_LAST :: nat where "WEB_METHOD_LAST = 8"
definition WEB_METHOD_HEAD :: nat where "WEB_METHOD_HEAD = 1"
definition WEB_MAX_ARGS :: nat where "WEB_MAX_ARGS = 256"
definition WEB_MAX_COOKIES :: nat where "WEB_MAX_COOKIES = 32"
definition WEB_ARG_KEY_MAX :: nat where "WEB_ARG_KEY_MAX = 64"
definition WEB_ARG_LENGTH_MAX :: nat where "WEB_ARG_LENGTH_MAX = 100000000"
definition WEB_LANGS_MAX :: nat where "WEB_LANGS_MAX = 64"
definition WEB_LANG_CODE_MAX :: nat where "WEB_LANG_CODE_MAX = 6"
definition WEB_URL_MAX :: nat where "WEB_URL_MAX = 768"
definition WEB_OPNAME_MAX :: nat where "WEB_OPNAME_MAX = 32"
definition WEB_USERAGENT_MAX :: nat where "WEB_USERAGENT_MAX = 512"
definition WEB_HTTP_HEADER_MAX :: nat where "WEB_HTTP_HEADER_MAX = 1024"
definition WEB_HTTP_PER_HEADER_MAX :: nat where "WEB_HTTP_PER_HEADER_MAX = 256"
definition WEB_HTTP_MAXHEADERS :: nat where "WEB_HTTP_MAXHEADERS = 32"
definition WEB_COOKIE_NAME_MAX :: nat where "WEB_COOKIE_NAME_MAX = 48"
definition WEB_COOKIE_VALUE_MAX :: nat where "WEB_COOKIE_VALUE_MAX = 3807"
definition WEB_COOKIE_EXPIRE_MAX :: nat where "WEB_COOKIE_EXPIRE_MAX = 64"
definition WEB_COOKIE_SET_MAX :: nat where "WEB_COOKIE_SET_MAX = 128"
definition WEB_COOKIE_SECURE :: "32 word" where "WEB_COOKIE_SECURE = 0x01"
definition WEB_DATA_BUFSIZE :: nat where "WEB_DATA_BUFSIZE = 65536"
definition WEB_DATA_COMPRESS_LVL :: int where "WEB_DATA_COMPRESS_LVL = 6"
definition WEB_DATA_COMPRESS_MIN :: nat where "WEB_DATA_COMPRESS_MIN = 8192"
definition WEB_INT_RANGE_MAX :: nat where "WEB_INT_RANGE_MAX = 21"

definition WEB_QUERY_CONTENT_READ :: "32 word" where "WEB_QUERY_CONTENT_READ = 0x01"
definition WEB_QUERY_KEEPALIVE :: "32 word" where "WEB_QUERY_KEEPALIVE = 0x02"
definition WEB_QUERY_DEFLATE :: "32 word" where "WEB_QUERY_DEFLATE = 0x04"
definition WEB_QUERY_NOCOMPRESSION :: "32 word" where "WEB_QUERY_NOCOMPRESSION = 0x08"
definition WEB_QUERY_RANGE :: "32 word" where "WEB_QUERY_RANGE = 0x10"
definition WEB_QUERY_PROXIED :: "32 word" where "WEB_QUERY_PROXIED = 0x20"

lemmas web_sizes = WEB_MAX_ARGS_def WEB_MAX_COOKIES_def WEB_ARG_KEY_MAX_def WEB_ARG_LENGTH_MAX_def WEB_LANGS_MAX_def
  WEB_LANG_CODE_MAX_def WEB_URL_MAX_def WEB_OPNAME_MAX_def WEB_USERAGENT_MAX_def WEB_HTTP_HEADER_MAX_def
  WEB_HTTP_PER_HEADER_MAX_def WEB_HTTP_MAXHEADERS_def WEB_COOKIE_NAME_MAX_def WEB_COOKIE_VALUE_MAX_def
  WEB_COOKIE_EXPIRE_MAX_def WEB_COOKIE_SET_MAX_def WEB_DATA_BUFSIZE_def WEB_INT_RANGE_MAX_def

section \<open>Encoding of URLs\<close>

definition url_unsafe :: string where
  "url_unsafe = ''<>\"#%{}|'' @ [CHR 0x5C] @ ''^~[]`''"

definition url_escaped :: "char \<Rightarrow> bool" where
  "url_escaped c \<longleftrightarrow> \<not> isgraph c \<or> c \<in> set url_unsafe"

text \<open>
  The buffer, the offset of \<open>dp\<close> in it, and the length \<open>len\<close> of the buffer.  After a \<open>realloc\<close>
  that moves the block \<open>dp\<close> points into the old one, which is freed; \<open>stays\<close> says whether the block
  stays where it is.
\<close>

fun escape_loop :: "bool \<Rightarrow> string \<Rightarrow> char list \<Rightarrow> nat \<Rightarrow> (char list \<times> nat) option" where
  "escape_loop stays [] dst dp = Some (dst, dp)"
| "escape_loop stays (c # sp) dst dp =
     (if url_escaped c then
        if \<not> stays then None
        else do {
          let dst = dst @ replicate 3 NUL;
          dst \<leftarrow> wr dst dp (CHR ''%'');
          dst \<leftarrow> wr dst (dp + 1) (hex_digit (ascii c div 16));
          dst \<leftarrow> wr dst (dp + 2) (hex_digit (ascii c mod 16));
          escape_loop stays sp dst (dp + 3)
        }
      else do {
        dst \<leftarrow> wr dst dp c;
        escape_loop stays sp dst (dp + 1)
      })"

definition WEB_EscapeURL :: "bool \<Rightarrow> string \<Rightarrow> char list option" where
  "WEB_EscapeURL stays url = do {
     (dst, dp) \<leftarrow> escape_loop stays url (replicate (length url + 1) NUL) 0;
     wr dst dp NUL
   }"

definition unplus :: "char \<Rightarrow> char" where
  "unplus c = (if c = CHR ''+'' then CHR '' '' else c)"

fun unescape :: "string \<Rightarrow> string" where
  "unescape (c # a # b # sp) =
     (if c = CHR ''%'' \<and> isxdigit a \<and> isxdigit b then
        (let n = 16 * hex_value a + hex_value b in (if n = 0 then CHR ''_'' else char_of n) # unescape sp)
      else unplus c # unescape (a # b # sp))"
| "unescape (c # sp) = unplus c # unescape sp"
| "unescape [] = []"

definition WEB_UnescapeURL :: "string \<Rightarrow> string" where
  "WEB_UnescapeURL url = unescape url"

section \<open>Arguments\<close>

datatype web_error =
    Arg_Missing string
  | Arg_NotANumber string
  | Arg_OutOfRange string
  | Arg_Exceeds string nat
  | Arg_InvalidRange string
  | Arg_NoSuch string
  | Key_TooLong
  | Web_Fail string

text \<open>Reading the value of an argument as a string.\<close>

definition arg_string :: "WEB_Argument \<Rightarrow> string option" where
  "arg_string a = (case a_value a of None \<Rightarrow> None | Some b \<Rightarrow> if terminated b then Some (cstr b) else None)"

definition WEB_GetArgument :: "WEB_Query \<Rightarrow> string \<Rightarrow> WEB_Argument option" where
  "WEB_GetArgument q key = find (\<lambda>a. a_key a = key) (q_args q)"

definition WEB_GetBool :: "WEB_Query \<Rightarrow> string \<Rightarrow> bool option" where
  "WEB_GetBool q key = (case WEB_GetArgument q key of
     None \<Rightarrow> Some False
   | Some a \<Rightarrow> do { v \<leftarrow> arg_string a; Some (v \<noteq> []) })"

definition int_of :: "int \<Rightarrow> int" where "int_of v = sint (word_of_int v :: 32 word)"
definition Uint_of :: "int \<Rightarrow> int" where "Uint_of v = uint (word_of_int v :: 32 word)"

definition WEB_GetInt :: "WEB_Query \<Rightarrow> string \<Rightarrow> (web_error + int) option" where
  "WEB_GetInt q key = (case WEB_GetArgument q key of
     None \<Rightarrow> Some (Inl (Arg_Missing key))
   | Some a \<Rightarrow> do {
       v \<leftarrow> arg_string a;
       let (rv, ep, erange) = strtol v;
       Some (if v = [] \<or> ep \<noteq> [] then Inl (Arg_NotANumber key)
             else if erange \<and> ((rv = LONG_MAX \<or> rv = LONG_MIN) \<or> rv > INT_MAX \<or> rv < INT_MIN) then Inl (Arg_OutOfRange key)
             else Inr (int_of rv))
     })"

definition WEB_GetUint :: "WEB_Query \<Rightarrow> string \<Rightarrow> (web_error + int) option" where
  "WEB_GetUint q key = (case WEB_GetArgument q key of
     None \<Rightarrow> Some (Inl (Arg_Missing key))
   | Some a \<Rightarrow> do {
       v \<leftarrow> arg_string a;
       let (rv, ep, erange) = strtoul v;
       Some (if v = [] \<or> ep \<noteq> [] then Inl (Arg_NotANumber key)
             else if erange \<and> rv = ULONG_MAX then Inl (Arg_OutOfRange key)
             else Inr (Uint_of rv))
     })"

definition WEB_GetUint64 :: "WEB_Query \<Rightarrow> string \<Rightarrow> (web_error + int) option" where
  "WEB_GetUint64 q key = (case WEB_GetArgument q key of
     None \<Rightarrow> Some (Inl (Arg_Missing key))
   | Some a \<Rightarrow> do {
       v \<leftarrow> arg_string a;
       let (rv, ep, erange) = strtoul v;
       Some (if v = [] \<or> ep \<noteq> [] then Inl (Arg_NotANumber key)
             else if erange \<and> rv = ULONG_MAX then Inl (Arg_OutOfRange key)
             else Inr rv)
     })"

definition WEB_GetSint64 :: "WEB_Query \<Rightarrow> string \<Rightarrow> (web_error + int) option" where
  "WEB_GetSint64 q key = (case WEB_GetArgument q key of
     None \<Rightarrow> Some (Inl (Arg_Missing key))
   | Some a \<Rightarrow> do {
       v \<leftarrow> arg_string a;
       let (rv, ep, erange) = strtol v;
       Some (if v = [] \<or> ep \<noteq> [] then Inl (Arg_NotANumber key)
             else if erange \<and> rv = LONG_MAX then Inl (Arg_OutOfRange key)
             else Inr rv)
     })"

definition WEB_GetIntR :: "WEB_Query \<Rightarrow> string \<Rightarrow> int \<Rightarrow> int \<Rightarrow> (web_error + int) option" where
  "WEB_GetIntR q key mn mx = (case WEB_GetArgument q key of
     None \<Rightarrow> Some (Inl (Arg_Missing key))
   | Some a \<Rightarrow> do {
       v \<leftarrow> arg_string a;
       let (rv, ep, erange) = strtol v;
       Some (if v = [] \<or> ep \<noteq> [] then Inl (Arg_NotANumber key)
             else if erange \<and> ((rv = LONG_MAX \<or> rv = LONG_MIN) \<or> rv > INT_MAX \<or> rv < INT_MIN) then Inl (Arg_OutOfRange key)
             else if rv < mn \<or> rv > mx then Inl (Arg_OutOfRange key)
             else Inr (int_of rv))
     })"

definition WEB_GetUintR :: "WEB_Query \<Rightarrow> string \<Rightarrow> int \<Rightarrow> (web_error + int) option" where
  "WEB_GetUintR q key mx = (case WEB_GetArgument q key of
     None \<Rightarrow> Some (Inl (Arg_Missing key))
   | Some a \<Rightarrow> do {
       v \<leftarrow> arg_string a;
       let (rv, ep, erange) = strtoul v;
       Some (if v = [] \<or> ep \<noteq> [] then Inl (Arg_NotANumber key)
             else if erange \<and> (rv = UINT_MAX \<or> rv > UINT_MAX) then Inl (Arg_OutOfRange key)
             else if rv > mx then Inl (Arg_OutOfRange key)
             else Inr (Uint_of rv))
     })"

definition WEB_GetEnum :: "WEB_Query \<Rightarrow> string \<Rightarrow> int \<Rightarrow> (web_error + int) option" where
  "WEB_GetEnum q key lst = (case WEB_GetArgument q key of
     None \<Rightarrow> Some (Inl (Arg_Missing key))
   | Some a \<Rightarrow> do {
       v \<leftarrow> arg_string a;
       let (rv, ep, erange) = strtol v;
       Some (if v = [] \<or> ep \<noteq> [] then Inl (Arg_NotANumber key)
             else if erange \<and> ((rv = LONG_MAX \<or> rv = LONG_MIN) \<or> rv > INT_MAX \<or> rv < INT_MIN) then Inl (Arg_OutOfRange key)
             else if rv < 0 \<or> rv > lst then Inl (Arg_OutOfRange key)
             else Inr (Uint_of rv))
     })"

text \<open>
  The range takes the values that \<open>*pMin\<close> and \<open>*pMax\<close> have before the call, for one bound that is
  empty leaves both as they are.
\<close>

fun range_chars :: "string \<Rightarrow> nat \<Rightarrow> string \<Rightarrow> bool" where
  "range_chars sep nSeps [] = True"
| "range_chars sep nSeps (c # s) =
     (if \<not> isdigit c \<and> \<not> isspace c \<and> c \<notin> set sep then False
      else if c \<in> set sep then (if nSeps + 1 > 1 then False else range_chars sep (nSeps + 1) s)
      else range_chars sep nSeps s)"

definition WEB_GetIntRange :: "WEB_Query \<Rightarrow> string \<Rightarrow> string \<Rightarrow> int \<Rightarrow> int \<Rightarrow> (web_error option \<times> int \<times> int) option" where
  "WEB_GetIntRange q key sep mn mx = (case WEB_GetArgument q key of
     None \<Rightarrow> Some (Some (Arg_Missing key), mn, mx)
   | Some a \<Rightarrow> do {
       v \<leftarrow> arg_string a;
       if set v \<inter> set sep \<noteq> {} then
         if \<not> range_chars sep 0 v then Some (Some (Arg_InvalidRange key), mn, mx)
         else
           let (mn, mx) = (case split_on (set sep) (str_cpy WEB_INT_RANGE_MAX v) of
                  from # to # _ \<Rightarrow>
                    if from \<noteq> [] \<and> to \<noteq> [] then (int_of (fst (strtol from)), int_of (fst (strtol to))) else (mn, mx)
                | _ \<Rightarrow> (mn, mx))
           in Some (if mn > mx then Some (Arg_InvalidRange key) else None, mn, mx)
       else
         let n = int_of (fst (strtol v)) in Some (None, n, n)
     })"

text \<open>Changes of an argument in place, for the first that has the key.\<close>

definition put_arg :: "WEB_Query \<Rightarrow> string \<Rightarrow> char list option \<Rightarrow> nat \<Rightarrow> WEB_Query" where
  "put_arg q key value len = (let i = first_idx (\<lambda>a. a_key a = key) (q_args q) in
     if i = length (q_args q) then
       q\<lparr>q_args := q_args q @ [\<lparr>a_type = WEB_GET_ARGUMENT, a_key = str_cpy WEB_ARG_KEY_MAX key, a_value = value,
                                a_len = len, a_contentType = []\<rparr>],
         q_nArgs := q_nArgs q + 1\<rparr>
     else q\<lparr>q_args := (q_args q)[i := (q_args q ! i)\<lparr>a_value := value, a_len := len\<rparr>]\<rparr>)"

definition WEB_SetS :: "WEB_Query \<Rightarrow> string \<Rightarrow> string option \<Rightarrow> WEB_Query option" where
  "WEB_SetS q key val = (case val of
     None \<Rightarrow> None
   | Some v \<Rightarrow> Some (put_arg q key (Some (v @ [NUL])) (length v + 1)))"

text \<open>The text is what the format produces.\<close>

definition WEB_Set :: "WEB_Query \<Rightarrow> string \<Rightarrow> string option \<Rightarrow> WEB_Query" where
  "WEB_Set q key txt = (case txt of
     None \<Rightarrow> put_arg q key None 0
   | Some v \<Rightarrow> put_arg q key (Some (v @ [NUL])) (length v + 1))"

definition WEB_Unset :: "WEB_Query \<Rightarrow> string \<Rightarrow> (web_error + WEB_Query)" where
  "WEB_Unset q key = (let i = first_idx (\<lambda>a. a_key a = key) (q_args q) in
     if i = length (q_args q) then Inl (Arg_NoSuch key)
     else Inr (q\<lparr>q_args := del_at i (q_args q), q_nArgs := q_nArgs q - 1\<rparr>))"

definition WEB_Get :: "WEB_Query \<Rightarrow> string \<Rightarrow> nat \<Rightarrow> web_error + char list option" where
  "WEB_Get q key len = (case WEB_GetArgument q key of
     None \<Rightarrow> Inl (Arg_Missing key)
   | Some a \<Rightarrow> if a_len a > len then Inl (Arg_Exceeds key len) else Inr (a_value a))"

text \<open>\<open>WEB_TRIM_WHITESPACE\<close>, on strings and on the block that holds the string.\<close>

definition rstrip :: "string \<Rightarrow> string" where
  "rstrip s = rev (dropWhile isspace (rev s))"

definition strip :: "string \<Rightarrow> string" where
  "strip s = rstrip (dropWhile isspace s)"

definition WEB_TRIM_WHITESPACE :: "char list \<Rightarrow> string \<times> char list" where
  "WEB_TRIM_WHITESPACE b = (let v = cstr b; s = dropWhile isspace v; t = rstrip s in
     (t, takeWhile isspace v @ t @ replicate (length s - length t) NUL @ drop (length v) b))"

definition WEB_GetTrim :: "WEB_Query \<Rightarrow> string \<Rightarrow> nat \<Rightarrow> ((web_error + string) \<times> WEB_Query) option" where
  "WEB_GetTrim q key len = (let i = first_idx (\<lambda>a. a_key a = key) (q_args q) in
     if i = length (q_args q) then Some (Inl (Arg_Missing key), q)
     else case a_value (q_args q ! i) of
       None \<Rightarrow> Some (Inl (Arg_Missing key), q)
     | Some b \<Rightarrow>
         if \<not> terminated b then None
         else let (s, b) = WEB_TRIM_WHITESPACE b;
                  q = q\<lparr>q_args := (q_args q)[i := (q_args q ! i)\<lparr>a_value := Some b\<rparr>]\<rparr>
              in Some (if length s \<ge> len then Inl (Arg_Exceeds key len) else Inr s, q))"

section \<open>Forms\<close>

text \<open>
  One pass of the loop.  The result is \<^const>\<open>None\<close> when the argument is freed twice.  The block of a value is given up to
  its terminator.
\<close>

definition form_arg :: "web_argument_type \<Rightarrow> string \<Rightarrow> WEB_Query \<Rightarrow> ((web_error + unit) \<times> WEB_Query) option" where
  "form_arg t s q = (case split_on {CHR ''=''} s of
     name # vals \<Rightarrow>
       if name = [] then Some (Inr (), q)
       else if length name \<ge> WEB_ARG_KEY_MAX then Some (Inl Key_TooLong, q)
       else do {
         (value, len) \<leftarrow> (case vals of
             value # _ \<Rightarrow>
               (let u = WEB_UnescapeURL value in
                if length u + 1 > WEB_ARG_LENGTH_MAX then None else Some (u @ [NUL], length u + 1))
           | [] \<Rightarrow> Some ([NUL], 0));
         Some (Inr (), q\<lparr>q_args := q_args q @ [\<lparr>a_type = t, a_key = name, a_value = Some value, a_len = len, a_contentType = []\<rparr>],
                         q_nArgs := q_nArgs q + 1\<rparr>)
       })"

fun form_args :: "web_argument_type \<Rightarrow> string list \<Rightarrow> WEB_Query \<Rightarrow> ((web_error + unit) \<times> WEB_Query) option" where
  "form_args t [] q = Some (Inr (), q)"
| "form_args t (s # ss) q = do {
     (r, q) \<leftarrow> form_arg t s q;
     case r of Inl e \<Rightarrow> Some (Inl e, q) | Inr _ \<Rightarrow> form_args t ss q
   }"

definition WEB_ParseFormUrlEncoded :: "WEB_Query \<Rightarrow> string \<Rightarrow> web_argument_type \<Rightarrow> ((web_error + unit) \<times> WEB_Query) option" where
  "WEB_ParseFormUrlEncoded q qsinput t = form_args t (take WEB_MAX_ARGS (split_on {CHR ''&''} qsinput)) q"

section \<open>Cookies\<close>

definition WEB_LookupCookie :: "WEB_Query \<Rightarrow> string \<Rightarrow> WEB_Cookie option" where
  "WEB_LookupCookie q name = find (\<lambda>ck. ck_name ck = name) (q_cookies q)"

definition WEB_GetCookie :: "WEB_Query \<Rightarrow> string \<Rightarrow> string option" where
  "WEB_GetCookie q name = map_option ck_value (WEB_LookupCookie q name)"

definition WEB_SetCookieS :: "WEB_Query \<Rightarrow> string \<Rightarrow> string \<Rightarrow> WEB_Query" where
  "WEB_SetCookieS q name value = (let i = first_idx (\<lambda>ck. ck_name ck = name) (q_cookies q);
       ck = (\<lambda>nm. \<lparr>ck_name = nm, ck_value = str_cpy WEB_COOKIE_VALUE_MAX value, ck_expires = [], ck_domain = [],
                   ck_path = [], ck_flags = 0\<rparr>) in
     if i = length (q_cookies q) then
       q\<lparr>q_cookies := ck (str_cpy WEB_COOKIE_NAME_MAX name) # q_cookies q, q_nCookies := q_nCookies q + 1\<rparr>
     else q\<lparr>q_cookies := (q_cookies q)[i := ck (ck_name (q_cookies q ! i))]\<rparr>)"

text \<open>The place of the cookie that \<^const>\<open>WEB_SetCookieS\<close> returns.\<close>

definition cookie_place :: "WEB_Query \<Rightarrow> string \<Rightarrow> nat" where
  "cookie_place q name = (let i = first_idx (\<lambda>ck. ck_name ck = name) (q_cookies q) in
     if i = length (q_cookies q) then 0 else i)"

definition WEB_SetCookie :: "WEB_Query \<Rightarrow> string \<Rightarrow> string \<Rightarrow> WEB_Query" where
  "WEB_SetCookie q name txt = (let i = cookie_place q name; q = WEB_SetCookieS q name [] in
     q\<lparr>q_cookies := (q_cookies q)[i := (q_cookies q ! i)\<lparr>ck_value := str_cpy WEB_COOKIE_VALUE_MAX txt\<rparr>]\<rparr>)"

definition WEB_DelCookie :: "WEB_Query \<Rightarrow> string \<Rightarrow> WEB_Query" where
  "WEB_DelCookie q name = (let i = cookie_place q name; q = WEB_SetCookieS q name [] in
     q\<lparr>q_cookies := (q_cookies q)[i := (q_cookies q ! i)
        \<lparr>ck_expires := str_cpy WEB_COOKIE_EXPIRE_MAX ''Thu, 01 Jan 1970 00:00:01 GMT''\<rparr>]\<rparr>)"

text \<open>
  \<open>ParseCookie\<close> finds or creates the cookie, and sets its fields, as \<^const>\<open>WEB_SetCookieS\<close> does.
\<close>

definition parse_cookie :: "string \<Rightarrow> WEB_Query \<Rightarrow> WEB_Query" where
  "parse_cookie t q =
     (if CHR ''='' \<notin> set t then q
      else case split_on {CHR ''=''} t of
        sKey # rest \<Rightarrow> WEB_SetCookieS q (strip sKey) (case rest of sVal # _ \<Rightarrow> strip sVal | [] \<Rightarrow> []))"

definition ParseCookie :: "WEB_Query \<Rightarrow> string \<Rightarrow> WEB_Query" where
  "ParseCookie q s = fold parse_cookie (split_on {CHR '';''} s) q"

section \<open>The response headers\<close>

text \<open>
  \<open>head\<close> is an array of 1024 characters that holds the status line and the headers; \<open>headLen\<close> is their
  length and \<open>headLine\<close> has the offsets at which lines begin.  Copies that leave the array have no result.
  Differences of sizes wrap around.
\<close>

definition size_diff :: "nat \<Rightarrow> nat \<Rightarrow> nat" where
  "size_diff a b = nat ((int a - int b) mod 2 ^ 64)"

definition size_add :: "nat \<Rightarrow> nat \<Rightarrow> nat" where
  "size_add a b = (a + b) mod 2 ^ 64"

definition memmove :: "char list \<Rightarrow> nat \<Rightarrow> nat \<Rightarrow> nat \<Rightarrow> char list option" where
  "memmove b dst src n = (if src + n \<le> length b then blit b dst (take n (drop src b)) else None)"

text \<open>\<open>strchr\<close> from an offset: no result when neither the character nor the terminator follow.\<close>

fun strchr_at :: "char list \<Rightarrow> char \<Rightarrow> nat \<Rightarrow> nat option option" where
  "strchr_at [] c p = None"
| "strchr_at (x # xs) c p = (if x = c then Some (Some p) else if x = NUL then Some None else strchr_at xs c (p + 1))"

fun strchrnul :: "char list \<Rightarrow> char \<Rightarrow> nat option" where
  "strchrnul [] c = None"
| "strchrnul (x # xs) c = (if x = c \<or> x = NUL then Some 0 else map_option Suc (strchrnul xs c))"

fun header_lines :: "char list \<Rightarrow> nat \<Rightarrow> nat list \<Rightarrow> nat list option" where
  "header_lines [] p ls = None"
| "header_lines (c # cs) p ls =
     (if c = NUL then Some ls
      else if c = LF then
        (case cs of
           [] \<Rightarrow> None
         | d # _ \<Rightarrow> if d = NUL then header_lines cs (p + 1) ls
                    else if length ls + 1 \<ge> WEB_HTTP_MAXHEADERS then Some ls
                    else header_lines cs (p + 1) (ls @ [p + 1]))
      else header_lines cs (p + 1) ls)"

definition WEB_UpdateHeaderLines :: "WEB_Query \<Rightarrow> WEB_Query option" where
  "WEB_UpdateHeaderLines q = do { ls \<leftarrow> header_lines (q_head q) 0 []; Some (q\<lparr>q_headLine := ls\<rparr>) }"

definition WEB_ClearHeaders :: "WEB_Query \<Rightarrow> string \<Rightarrow> WEB_Query option" where
  "WEB_ClearHeaders q status = do {
     head \<leftarrow> blit (q_head q) 0 (status @ [NUL]);
     Some (q\<lparr>q_head := head, q_headLen := length status, q_headLine := [length status]\<rparr>)
   }"

definition WEB_SetCode :: "WEB_Query \<Rightarrow> string \<Rightarrow> WEB_Query option" where
  "WEB_SetCode q code = do {
     let httpCode = str_cat 64 (str_cat 64 (str_cpy 64 ''HTTP/1.0 '') code) [CR, LF];
     cEnd \<leftarrow> strchrnul (q_head q) LF;
     let newLen = length httpCode;
     let oldLen = cEnd + 1;
     let rest = size_diff (q_headLen q) oldLen;
     if size_add rest newLen \<ge> WEB_HTTP_HEADER_MAX - 2 then None
     else do {
       head \<leftarrow> (if newLen \<noteq> oldLen \<and> rest > 0 then memmove (q_head q) newLen oldLen rest else Some (q_head q));
       head \<leftarrow> blit head 0 httpCode;
       let q = q\<lparr>q_head := head\<rparr>;
       if newLen \<noteq> oldLen then WEB_UpdateHeaderLines q else Some q
     }
   }"

definition WEB_AppendHeaderS :: "WEB_Query \<Rightarrow> string \<Rightarrow> string \<Rightarrow> WEB_Query option" where
  "WEB_AppendHeaderS q key value =
     (if length (q_headLine q) + 1 \<ge> WEB_HTTP_MAXHEADERS then None
      else do {
        let newLine = str_cpy WEB_HTTP_PER_HEADER_MAX key;
        let newLine = str_cat WEB_HTTP_PER_HEADER_MAX newLine '': '';
        let newLine = str_cat WEB_HTTP_PER_HEADER_MAX newLine value;
        let newLine = str_cat WEB_HTTP_PER_HEADER_MAX newLine [CR, LF];
        let newLen = length newLine;
        if q_headLen q + newLen + 1 \<ge> WEB_HTTP_HEADER_MAX - 2 then None
        else do {
          head \<leftarrow> blit (q_head q) (q_headLen q) (newLine @ [NUL]);
          Some (q\<lparr>q_head := head, q_headLine := q_headLine q @ [q_headLen q], q_headLen := q_headLen q + newLen\<rparr>)
        }
      })"

text \<open>The line is given by its offset.\<close>

definition WEB_EditHeader :: "WEB_Query \<Rightarrow> nat \<Rightarrow> string \<Rightarrow> WEB_Query option" where
  "WEB_EditHeader q cLine value = do {
     colon \<leftarrow> strchr_at (drop cLine (q_head q)) (CHR '':'') cLine;
     cSep \<leftarrow> colon;
     c \<leftarrow> rd (q_head q) (cSep + 1);
     if c \<noteq> CHR '' '' then None
     else do {
       cr \<leftarrow> strchr_at (drop (cSep + 1) (q_head q)) CR (cSep + 1);
       cEnd \<leftarrow> cr;
       let cSep = cSep + 1;
       let oldLen = cEnd - cSep + 1;
       let newLen = length value;
       let rest = size_diff (q_headLen q) oldLen;
       if size_add rest newLen \<ge> WEB_HTTP_HEADER_MAX then None
       else do {
         head \<leftarrow> (if newLen \<noteq> oldLen \<and> rest > 0
                  then memmove (q_head q) (cSep + 1 + newLen) (cSep + 1 + oldLen - 2)
                         (size_add (size_diff (q_headLen q) (cSep + 1 + oldLen - 2)) 1)
                  else Some (q_head q));
         head \<leftarrow> blit head (cSep + 1) value;
         head \<leftarrow> wr head (cSep + newLen + 1) CR;
         head \<leftarrow> wr head (cSep + newLen + 2) LF;
         let q = q\<lparr>q_head := head\<rparr>;
         if newLen \<noteq> oldLen then WEB_UpdateHeaderLines q else Some q
       }
     }
   }"

text \<open>\<open>strncasecmp(cLine, key, keyLen) == 0 && cLine[keyLen] == ':' && cLine[keyLen+1] == ' '\<close>.\<close>

fun line_is :: "char list \<Rightarrow> string \<Rightarrow> bool option" where
  "line_is [] ks = None"
| "line_is (c # cs) [] = (if c = CHR '':'' then map_option (\<lambda>d. d = CHR '' '') (rd cs 0) else Some False)"
| "line_is (c # cs) (k # ks) = (if tolower c = tolower k then line_is cs ks else Some False)"

fun find_line :: "char list \<Rightarrow> string \<Rightarrow> nat list \<Rightarrow> nat option option" where
  "find_line head key [] = Some None"
| "find_line head key (l # ls) = do {
     b \<leftarrow> line_is (drop l head) key;
     if b then Some (Some l) else find_line head key ls
   }"

definition WEB_SetHeaderS :: "WEB_Query \<Rightarrow> string \<Rightarrow> string \<Rightarrow> WEB_Query option" where
  "WEB_SetHeaderS q key value = do {
     l \<leftarrow> find_line (q_head q) key (q_headLine q);
     case l of Some cLine \<Rightarrow> WEB_EditHeader q cLine value | None \<Rightarrow> WEB_AppendHeaderS q key value
   }"

text \<open>The formatted variants: the text that the format produces is cut.\<close>

definition WEB_SetHeader :: "WEB_Query \<Rightarrow> string \<Rightarrow> string \<Rightarrow> WEB_Query option" where
  "WEB_SetHeader q key txt = WEB_SetHeaderS q key (str_cpy WEB_HTTP_PER_HEADER_MAX txt)"

definition WEB_AppendHeader :: "WEB_Query \<Rightarrow> string \<Rightarrow> string \<Rightarrow> WEB_Query option" where
  "WEB_AppendHeader q key txt = WEB_AppendHeaderS q key (str_cpy WEB_HTTP_PER_HEADER_MAX txt)"

text \<open>
  The loops around \<open>write\<close> and \<open>read\<close>, for the results that the system calls have one after another.  The
  first component of the result is what was sent or received; no result while the calls run out.
\<close>

datatype sys_result = Sys_Count nat | Sys_Retry | Sys_Error

fun WEB_SYS_Write :: "sys_result list \<Rightarrow> string \<Rightarrow> (string \<times> bool) option" where
  "WEB_SYS_Write rs [] = Some ([], True)"
| "WEB_SYS_Write [] data = None"
| "WEB_SYS_Write (Sys_Retry # rs) data = WEB_SYS_Write rs data"
| "WEB_SYS_Write (Sys_Error # rs) data = Some ([], False)"
| "WEB_SYS_Write (Sys_Count n # rs) data =
     (if n = 0 then Some ([], False)
      else map_option (\<lambda>(s, ok). (take n data @ s, ok)) (WEB_SYS_Write rs (drop n data)))"

datatype sys_read = Read_Data string | Read_Retry | Read_Error

fun WEB_SYS_Read :: "sys_read list \<Rightarrow> nat \<Rightarrow> (string \<times> bool) option" where
  "WEB_SYS_Read rs 0 = Some ([], True)"
| "WEB_SYS_Read [] len = None"
| "WEB_SYS_Read (Read_Retry # rs) len = WEB_SYS_Read rs len"
| "WEB_SYS_Read (Read_Error # rs) len = Some ([], False)"
| "WEB_SYS_Read (Read_Data s # rs) len =
     (if s = [] then Some ([], False)
      else map_option (\<lambda>(t, ok). (s @ t, ok)) (WEB_SYS_Read rs (len - length s)))"

text \<open>What is written to the client.\<close>

definition WEB_WriteHeaders :: "WEB_Query \<Rightarrow> (string \<times> WEB_Query) option" where
  "WEB_WriteHeaders q = do {
     head \<leftarrow> wr (q_head q) (q_headLen q) CR;
     head \<leftarrow> wr head (q_headLen q + 1) LF;
     head \<leftarrow> wr head (q_headLen q + 2) NUL;
     Some (take (q_headLen q + 2) head, q\<lparr>q_head := head\<rparr>)
   }"

section \<open>The request line and the request headers\<close>

record WEB_Application =
  app_name :: string
  app_availLangs :: "string list"
  app_homeOp :: string

definition op_char :: "char \<Rightarrow> bool" where
  "op_char c \<longleftrightarrow> isalnum c \<or> c \<in> set ''_-.''"

text \<open>The boolean tells 0 (\<^const>\<open>True\<close>) from -1.\<close>

definition with_code :: "WEB_Query \<Rightarrow> string \<Rightarrow> (bool \<times> WEB_Query) option" where
  "with_code q code = do { q \<leftarrow> WEB_SetCode q code; Some (False, q) }"

definition ParseURL :: "WEB_Application \<Rightarrow> WEB_Query \<Rightarrow> string \<Rightarrow> (bool \<times> WEB_Query) option" where
  "ParseURL app q s =
     (if take 1 s \<noteq> ''/'' then with_code q ''400 Bad Request''
      else if length (tl s) \<ge> WEB_URL_MAX then with_code q ''414 Request-URI Too Long''
      else
        let path = takeWhile (\<lambda>c. c \<notin> set ''?&/'') (tl s);
            pathArgs = drop (length path + 1) (tl s) in
        if length path \<ge> WEB_OPNAME_MAX then with_code q ''414 Request-URI Too Long''
        else if \<not> list_all op_char path then with_code q ''400 Bad Request''
        else do {
          q \<leftarrow> WEB_SetS q ''op'' (Some (if path \<noteq> [] then path else app_homeOp app));
          if pathArgs = [] then Some (True, q)
          else if CHR ''='' \<in> set pathArgs then do {
            (r, q) \<leftarrow> WEB_ParseFormUrlEncoded q pathArgs WEB_GET_ARGUMENT;
            case r of Inl _ \<Rightarrow> with_code q ''400 Bad Request'' | Inr _ \<Rightarrow> Some (True, q)
          }
          else do { q \<leftarrow> WEB_SetS q ''_argument'' (Some pathArgs); Some (True, q) }
        })"

fun accept_langs :: "string list \<Rightarrow> WEB_Query \<Rightarrow> bool \<times> WEB_Query" where
  "accept_langs [] q = (True, q)"
| "accept_langs (t # ts) q =
     (if take 2 t = ''q='' then accept_langs ts q
      else if length (q_acceptLangs q) + 1 > WEB_LANGS_MAX then (False, q)
      else accept_langs ts (q\<lparr>q_acceptLangs := q_acceptLangs q @ [str_cpy WEB_LANG_CODE_MAX t]\<rparr>))"

definition ParseAcceptLanguage :: "WEB_Application \<Rightarrow> WEB_Query \<Rightarrow> string \<Rightarrow> (bool \<times> WEB_Query) option" where
  "ParseAcceptLanguage app q s = (case accept_langs (split_on (set '',;'') s) (q\<lparr>q_acceptLangs := []\<rparr>) of
     (False, q) \<Rightarrow> with_code q ''400 Bad Request''
   | (True, q) \<Rightarrow>
       Some (True, case find (\<lambda>avail. \<exists>l \<in> set (q_acceptLangs q). strcaseeq l avail) (app_availLangs app) of
         Some avail \<Rightarrow> q\<lparr>q_lang := str_cpy 4 avail\<rparr>
       | None \<Rightarrow> q))"

definition ParseRange :: "WEB_Query \<Rightarrow> string \<Rightarrow> (bool \<times> WEB_Query) option" where
  "ParseRange q s =
     (if CHR '','' \<in> set s then with_code q ''416 Range Not Satisfiable''
      else case split_on {CHR ''-''} s of
        from # to # _ \<Rightarrow>
          (case strtonum from 0 INT_MAX of
             None \<Rightarrow> with_code (q\<lparr>q_rangeFrom := 0\<rparr>) ''416 Range Not Satisfiable''
           | Some f \<Rightarrow>
               (case strtonum to 0 INT_MAX of
                  None \<Rightarrow> with_code (q\<lparr>q_rangeFrom := f, q_rangeTo := 0\<rparr>) ''416 Range Not Satisfiable''
                | Some t \<Rightarrow> Some (True, q\<lparr>q_rangeFrom := f, q_rangeTo := t, q_flags := q_flags q OR WEB_QUERY_RANGE\<rparr>)))
      | _ \<Rightarrow> with_code q ''416 Range Not Satisfiable'')"

text \<open>\<open>zlib\<close>: is the program built with zlib?\<close>

definition WEB_ParseHeader :: "bool \<Rightarrow> WEB_Application \<Rightarrow> WEB_Query \<Rightarrow> string \<Rightarrow> (bool \<times> WEB_Query) option" where
  "WEB_ParseHeader zlib app q s =
     (if strcaseeq s ''Connection: keep-alive'' then Some (True, q\<lparr>q_flags := q_flags q OR WEB_QUERY_KEEPALIVE\<rparr>)
      else if zlib \<and> has_prefix s ''Accept-Encoding: '' \<and> contains_ci (drop 17 s) ''deflate'' then
        Some (True, q\<lparr>q_flags := q_flags q OR WEB_QUERY_DEFLATE\<rparr>)
      else if has_prefix s ''X-Forwarded-For: '' then
        Some (True, q\<lparr>q_flags := q_flags q OR WEB_QUERY_PROXIED, q_userIP := str_cpy 64 (drop 17 s)\<rparr>)
      else if has_prefix s ''X-Forwarded-Host: '' then Some (True, q\<lparr>q_userHost := str_cpy 256 (drop 18 s)\<rparr>)
      else if has_prefix s ''User-Agent: '' then Some (True, q\<lparr>q_userAgent := str_cpy WEB_USERAGENT_MAX s\<rparr>)
      else if has_prefix s ''Accept-Language: '' then ParseAcceptLanguage app q (drop 17 s)
      else if has_prefix s ''Cookie: '' then Some (True, ParseCookie q (drop 8 s))
      else if has_prefix s ''Range: '' then ParseRange q (drop 7 s)
      else Some (True, q))"

definition WEB_KeepAlive :: "WEB_Query \<Rightarrow> (bool \<times> WEB_Query) option" where
  "WEB_KeepAlive q =
     (if q_flags q AND WEB_QUERY_KEEPALIVE \<noteq> 0 then do {
        q \<leftarrow> WEB_SetHeaderS q ''Connection'' ''keep-alive''; Some (True, q)
      } else do {
        q \<leftarrow> WEB_SetHeaderS q ''Connection'' ''close''; Some (False, q)
      })"

definition WEB_QueryInit :: "WEB_Query \<Rightarrow> string \<Rightarrow> WEB_Query option" where
  "WEB_QueryInit q lang = do {
     let q = q\<lparr>q_method := 0, q_flags := 0, q_compressLvl := WEB_DATA_COMPRESS_LVL, q_acceptLangs := [],
               q_nCookies := 0, q_contentType := [], q_contentLength := 0, q_nArgs := 0, q_date := [],
               q_userIP := [], q_userHost := [], q_userAgent := [], q_code := [], q_lang := str_cpy 4 lang,
               q_args := [], q_cookies := []\<rparr>;
     q \<leftarrow> WEB_ClearHeaders q (''HTTP/1.0 200 OK'' @ [CR, LF]);
     Some (q\<lparr>q_data := [], q_dataSize := 0\<rparr>)
   }"

text \<open>\<open>date\<close>: the text of the current time, if \<open>gmtime_r\<close> can convert it.\<close>

definition WEB_InitFrontQuery :: "WEB_Application \<Rightarrow> string option \<Rightarrow> WEB_Query \<Rightarrow> nat \<Rightarrow> string \<Rightarrow> (bool \<times> WEB_Query) option" where
  "WEB_InitFrontQuery app date q meth url = do {
     lang \<leftarrow> rd (app_availLangs app) 0;
     q \<leftarrow> WEB_QueryInit q lang;
     (ok, q) \<leftarrow> ParseURL app (q\<lparr>q_method := meth\<rparr>) url;
     if \<not> ok then Some (False, q)
     else do {
       q \<leftarrow> (case date of None \<Rightarrow> Some q
             | Some d \<Rightarrow> WEB_SetHeaderS (q\<lparr>q_date := str_cpy 32 d\<rparr>) ''Date'' (str_cpy 32 d));
       q \<leftarrow> WEB_SetHeaderS q ''Server'' (app_name app);
       Some (True, q)
     }
   }"

text \<open>The loops over the lines of the request headers: for GET and HEAD, and for POST and OPTIONS.\<close>

definition cut_cr :: "string \<Rightarrow> string" where
  "cut_cr s = takeWhile (\<lambda>c. c \<noteq> CR) s"

fun get_headers :: "bool \<Rightarrow> WEB_Application \<Rightarrow> string list \<Rightarrow> WEB_Query \<Rightarrow> (bool \<times> WEB_Query) option" where
  "get_headers zlib app [] q = Some (True, q)"
| "get_headers zlib app (s # ss) q = do {
     (ok, q) \<leftarrow> WEB_ParseHeader zlib app q (cut_cr s);
     if ok then get_headers zlib app ss q else Some (False, q)
   }"

definition content_length :: "string \<Rightarrow> nat" where
  "content_length s = nat (fst (strtol s) mod 2 ^ 64)"

fun post_headers :: "bool \<Rightarrow> WEB_Application \<Rightarrow> string list \<Rightarrow> WEB_Query \<Rightarrow> (bool \<times> WEB_Query) option" where
  "post_headers zlib app [] q = Some (True, q)"
| "post_headers zlib app (l # ss) q = (let s = cut_cr l in
     if has_prefix s ''Content-Type: '' then post_headers zlib app ss (q\<lparr>q_contentType := str_cpy 128 (drop 14 s)\<rparr>)
     else if has_prefix s ''Content-Length: '' then
       post_headers zlib app ss (q\<lparr>q_contentLength := content_length (drop 16 s)\<rparr>)
     else do {
       (ok, q) \<leftarrow> WEB_ParseHeader zlib app q s;
       if ok then post_headers zlib app ss q else Some (False, q)
     })"

section \<open>The response body\<close>

definition WEB_Write :: "WEB_Query \<Rightarrow> string \<Rightarrow> WEB_Query" where
  "WEB_Write q data = q\<lparr>q_dataSize := (if length (q_data q) + length data > q_dataSize q
                                      then q_dataSize q + length data + WEB_DATA_BUFSIZE else q_dataSize q),
                       q_data := q_data q @ data\<rparr>"

definition WEB_PutC :: "WEB_Query \<Rightarrow> char \<Rightarrow> WEB_Query" where
  "WEB_PutC q c = WEB_Write q [c]"

definition WEB_PutS :: "WEB_Query \<Rightarrow> string \<Rightarrow> WEB_Query" where
  "WEB_PutS q s = WEB_Write q s"

abbreviation BS :: char where "BS \<equiv> CHR 0x5C"
abbreviation DQ :: char where "DQ \<equiv> CHR 0x22"

definition json_char :: "WEB_Query \<Rightarrow> char \<Rightarrow> WEB_Query" where
  "json_char q c =
     (if c = BS then WEB_PutS q [BS, BS]
      else if c = DQ then WEB_PutS q [BS, DQ]
      else if c = CR then WEB_PutS q (BS # ''r'')
      else if c = LF then WEB_PutS q (BS # ''n'')
      else if c = HT then WEB_PutS q (BS # ''t'')
      else WEB_PutC q c)"

definition WEB_PutJSON_S :: "WEB_Query \<Rightarrow> string \<Rightarrow> string \<Rightarrow> WEB_Query" where
  "WEB_PutJSON_S q key val = (
     let q = WEB_PutC q DQ;
         q = WEB_PutS q key;
         q = WEB_PutS q (DQ # '': '' @ [DQ]);
         q = foldl json_char q val
     in WEB_PutS q [DQ, CHR '',''])"

definition json_nohtml_char :: "WEB_Query \<Rightarrow> char \<Rightarrow> WEB_Query" where
  "json_nohtml_char q c =
     (if c = BS then WEB_PutS q [BS, BS]
      else if c = DQ then WEB_PutS q [BS, DQ]
      else if c = LF then WEB_PutS q (BS # ''n'')
      else if c = HT then WEB_PutS q (BS # ''t'')
      else if c = CHR ''<'' then WEB_PutS q ''&lt;''
      else if c = CHR ''>'' then WEB_PutS q ''&gt;''
      else WEB_PutC q c)"

definition WEB_PutJSON_NoHTML_S :: "WEB_Query \<Rightarrow> string \<Rightarrow> string \<Rightarrow> WEB_Query" where
  "WEB_PutJSON_NoHTML_S q key val = (
     let q = WEB_PutC q DQ;
         q = WEB_PutS q key;
         q = WEB_PutS q (DQ # '': '' @ [DQ]);
         q = foldl json_nohtml_char q val
     in WEB_PutS q [DQ, CHR '',''])"

text \<open>The formatted variants, for the text that the format produces.\<close>

definition WEB_PutJSON :: "WEB_Query \<Rightarrow> string \<Rightarrow> string \<Rightarrow> WEB_Query" where
  "WEB_PutJSON q key txt = WEB_PutJSON_S q key txt"

definition WEB_Printf :: "WEB_Query \<Rightarrow> string \<Rightarrow> WEB_Query" where
  "WEB_Printf q txt = WEB_Write q txt"

definition WEB_SetCompression :: "WEB_Query \<Rightarrow> bool \<Rightarrow> int \<Rightarrow> WEB_Query" where
  "WEB_SetCompression q enable level =
     (if enable then q\<lparr>q_flags := q_flags q AND NOT WEB_QUERY_NOCOMPRESSION, q_compressLvl := level\<rparr>
      else q\<lparr>q_flags := q_flags q OR WEB_QUERY_NOCOMPRESSION\<rparr>)"

definition WEB_ClearQuery :: "WEB_Query \<Rightarrow> WEB_Query" where
  "WEB_ClearQuery q = q\<lparr>q_data := [], q_dataSize := 0\<rparr>"

text \<open>
  \<open>MessageToHTML\<close>: the loop ends once fewer than five characters are left of the buffer; the size is at
  least five.
\<close>

fun message_html :: "nat \<Rightarrow> nat \<Rightarrow> string \<Rightarrow> string" where
  "message_html len d [] = []"
| "message_html len d (c # s) =
     (if d < len - 5 then
        (if c = CHR ''<'' then ''&lt;'' @ message_html len (d + 4) s
         else if c = CHR ''>'' then ''&gt;'' @ message_html len (d + 4) s
         else c # message_html len (d + 1) s)
      else [])"

definition MessageToHTML :: "nat \<Rightarrow> string \<Rightarrow> string" where
  "MessageToHTML htmlMsgLen msg = message_html htmlMsgLen 0 msg"

definition WEB_SESSID_MAX :: nat where "WEB_SESSID_MAX = 11"

text \<open>\<open>exists\<close>: does the file of the session exist?\<close>

definition ValidSessionID :: "(string \<Rightarrow> bool) \<Rightarrow> string \<Rightarrow> bool" where
  "ValidSessionID file_exists sessID \<longleftrightarrow>
     sessID \<noteq> [] \<and> length sessID < WEB_SESSID_MAX \<and> list_all isdigit sessID \<and> file_exists (''sessions/'' @ sessID)"

end
