(* ===== verification/WebVars.thy ===== *)
theory WebVars
  imports Web
begin

unbundle bit_operations_syntax

text \<open>
  Variables of the pages of the application server and their substitution (core/web_var.c and the inline
  routines of core/web.h).  A variable owns a block of \<open>bufSize\<close> characters; what a fresh block holds is the
  character \<open>J\<close>.  The list of variables is \<open>webApp->vars\<close>, from its head.
\<close>

section \<open>Variables\<close>

definition WEB_VAR_NAME_MAX :: nat where "WEB_VAR_NAME_MAX = 32"
definition WEB_VAR_BUF_INIT :: nat where "WEB_VAR_BUF_INIT = 128"
definition WEB_VAR_BUF_GROW :: nat where "WEB_VAR_BUF_GROW = 1024"
definition VAR_GETTEXT_MAX :: nat where "VAR_GETTEXT_MAX = 256"

record WEB_Variable =
  v_key :: string
  v_value :: "char list"
  v_len :: nat
  v_bufSize :: nat
  v_global :: bool

text \<open>The first variable of that name, or a new one at the head, gets the value.\<close>

definition put_web_var :: "WEB_Variable list \<Rightarrow> string option \<Rightarrow> char list \<Rightarrow> nat \<Rightarrow> bool \<Rightarrow> WEB_Variable list" where
  "put_web_var vars key value len glob = (
     let i = (case key of None \<Rightarrow> length vars | Some k \<Rightarrow> first_idx (\<lambda>v. v_key v = k) vars);
         k = (case key of None \<Rightarrow> [] | Some k \<Rightarrow> str_cpy WEB_VAR_NAME_MAX k) in
     if i = length vars then
       \<lparr>v_key = k, v_value = value, v_len = len, v_bufSize = length value, v_global = glob\<rparr> # vars
     else vars[i := (vars ! i)\<lparr>v_value := value, v_len := len, v_bufSize := length value, v_global := glob\<rparr>])"

definition var_block :: "char \<Rightarrow> string option \<Rightarrow> char list \<times> nat" where
  "var_block J s = (case s of
     Some t \<Rightarrow> (t @ [NUL], length t)
   | None \<Rightarrow> (NUL # replicate (WEB_VAR_BUF_INIT - 1) J, 0))"

text \<open>The formatted variants take the text that the format produces.\<close>

definition WEB_VAR_Set :: "char \<Rightarrow> WEB_Variable list \<Rightarrow> string option \<Rightarrow> string option \<Rightarrow> WEB_Variable list" where
  "WEB_VAR_Set J vars key txt = (case var_block J txt of (b, n) \<Rightarrow> put_web_var vars key b n False)"

definition WEB_VAR_SetS :: "char \<Rightarrow> WEB_Variable list \<Rightarrow> string option \<Rightarrow> string option \<Rightarrow> WEB_Variable list" where
  "WEB_VAR_SetS J vars key s = (case var_block J s of (b, n) \<Rightarrow> put_web_var vars key b n False)"

text \<open>The block is taken over; it is given up to the terminator.\<close>

definition WEB_VAR_SetS_NODUP :: "WEB_Variable list \<Rightarrow> string option \<Rightarrow> string \<Rightarrow> WEB_Variable list" where
  "WEB_VAR_SetS_NODUP vars key s = put_web_var vars key (s @ [NUL]) (length s) False"

definition WEB_VAR_SetGlobal :: "char \<Rightarrow> WEB_Variable list \<Rightarrow> string \<Rightarrow> string option \<Rightarrow> WEB_Variable list" where
  "WEB_VAR_SetGlobal J vars key txt = (case var_block J txt of (b, n) \<Rightarrow> put_web_var vars (Some key) b n True)"

definition WEB_VAR_SetGlobalS :: "char \<Rightarrow> WEB_Variable list \<Rightarrow> string \<Rightarrow> string option \<Rightarrow> WEB_Variable list" where
  "WEB_VAR_SetGlobalS J vars key s = (case var_block J s of (b, n) \<Rightarrow> put_web_var vars (Some key) b n True)"

definition WEB_VAR_New :: "char \<Rightarrow> WEB_Variable list \<Rightarrow> string \<Rightarrow> WEB_Variable list" where
  "WEB_VAR_New J vars key = WEB_VAR_SetS J vars (Some key) None"

definition WEB_VAR_SetIntRange :: "char \<Rightarrow> WEB_Variable list \<Rightarrow> string \<Rightarrow> int \<Rightarrow> int \<Rightarrow> WEB_Variable list" where
  "WEB_VAR_SetIntRange J vars key mn mx =
     (if mn = mx then WEB_VAR_Set J vars (Some key) (Some (dec_int mn))
      else WEB_VAR_Set J vars (Some key) (Some (dec_int mn @ ''-'' @ dec_int mx)))"

definition var_place :: "WEB_Variable list \<Rightarrow> string \<Rightarrow> nat" where
  "var_place vars key = first_idx (\<lambda>v. v_key v = key) vars"

text \<open>
  \<open>WEB_VAR_Unset\<close> takes the variable off the list, and \<open>WEB_VAR_Free\<close> does so once more: the second time its
  neighbours already point past it, so that nothing changes.
\<close>

definition WEB_VAR_Unset :: "WEB_Variable list \<Rightarrow> string \<Rightarrow> WEB_Variable list" where
  "WEB_VAR_Unset vars key =
     (if var_place vars key = length vars then vars else del_at (var_place vars key) vars)"

definition WEB_VAR_Wipe :: "WEB_Variable list \<Rightarrow> string \<Rightarrow> WEB_Variable list" where
  "WEB_VAR_Wipe vars key = (let i = var_place vars key in
     if i = length vars then vars
     else vars[i := (vars ! i)\<lparr>v_value := replicate (v_bufSize (vars ! i)) NUL\<rparr>])"

definition WEB_VAR_Defined :: "WEB_Variable list \<Rightarrow> string \<Rightarrow> bool" where
  "WEB_VAR_Defined vars key \<longleftrightarrow> (\<exists>v \<in> set vars. v_key v = key)"

definition WEB_VAR_Get :: "WEB_Variable list \<Rightarrow> string \<Rightarrow> char list option" where
  "WEB_VAR_Get vars key = map_option v_value (find (\<lambda>v. v_key v \<noteq> [] \<and> v_key v = key) vars)"

section \<open>Appending\<close>

definition WEB_VAR_Grow :: "char \<Rightarrow> WEB_Variable \<Rightarrow> nat \<Rightarrow> WEB_Variable" where
  "WEB_VAR_Grow J V len =
     (if v_len V + len \<ge> v_bufSize V then
        V\<lparr>v_bufSize := v_len V + len + WEB_VAR_BUF_GROW,
          v_value := v_value V @ replicate (v_len V + len + WEB_VAR_BUF_GROW - length (v_value V)) J\<rparr>
      else V)"

definition WEB_VAR_CatC :: "char \<Rightarrow> WEB_Variable \<Rightarrow> char \<Rightarrow> WEB_Variable option" where
  "WEB_VAR_CatC J V c = do {
     let V = WEB_VAR_Grow J V 1;
     b \<leftarrow> wr (v_value V) (v_len V) c;
     b \<leftarrow> wr b (v_len V + 1) NUL;
     Some (V\<lparr>v_value := b, v_len := v_len V + 1\<rparr>)
   }"

definition WEB_VAR_CatS :: "char \<Rightarrow> WEB_Variable \<Rightarrow> string \<Rightarrow> WEB_Variable option" where
  "WEB_VAR_CatS J V s = do {
     let V = WEB_VAR_Grow J V (length s + 1);
     b \<leftarrow> blit (v_value V) (v_len V) (s @ [NUL]);
     Some (V\<lparr>v_value := b, v_len := v_len V + length s\<rparr>)
   }"

definition WEB_VAR_CatS_NODUP :: "char \<Rightarrow> WEB_Variable \<Rightarrow> string \<Rightarrow> WEB_Variable option" where
  "WEB_VAR_CatS_NODUP J V s = do {
     let V = WEB_VAR_Grow J V (length s + 1);
     b \<leftarrow> blit (v_value V) (v_len V) (s @ [NUL]);
     Some (V\<lparr>v_value := b, v_len := v_len V + length s\<rparr>)
   }"

definition WEB_VAR_Cat :: "char \<Rightarrow> WEB_Variable \<Rightarrow> string \<Rightarrow> WEB_Variable option" where
  "WEB_VAR_Cat J V txt = do {
     let V = WEB_VAR_Grow J V (length txt + 1);
     b \<leftarrow> blit (v_value V) (v_len V) (txt @ [NUL]);
     Some (V\<lparr>v_value := b, v_len := v_len V + length txt\<rparr>)
   }"

definition nohtml_char :: "char \<Rightarrow> WEB_Variable \<Rightarrow> char \<Rightarrow> WEB_Variable option" where
  "nohtml_char J V c =
     (if c = DQ then WEB_VAR_CatS J V ''&quot;''
      else if c = CHR ''&'' then WEB_VAR_CatS J V ''&amp;''
      else if c = CHR ''<'' then WEB_VAR_CatS J V ''&lt;''
      else if c = CHR ''>'' then WEB_VAR_CatS J V ''&gt;''
      else WEB_VAR_CatC J V c)"

definition WEB_VAR_CatS_NoHTML :: "char \<Rightarrow> WEB_Variable \<Rightarrow> string \<Rightarrow> WEB_Variable option" where
  "WEB_VAR_CatS_NoHTML J V s = fold_opt (nohtml_char J) (WEB_VAR_Grow J V (length s)) s"

definition js_char :: "char \<Rightarrow> WEB_Variable \<Rightarrow> char \<Rightarrow> WEB_Variable option" where
  "js_char J V c =
     (if c = BS then WEB_VAR_CatS J V [BS, BS]
      else if c = DQ then WEB_VAR_CatS J V [BS, DQ]
      else WEB_VAR_CatC J V c)"

definition WEB_VAR_CatJS :: "char \<Rightarrow> WEB_Variable \<Rightarrow> string \<Rightarrow> WEB_Variable option" where
  "WEB_VAR_CatJS J V s = do {
     V \<leftarrow> WEB_VAR_CatC J (WEB_VAR_Grow J V (length s + 3)) DQ;
     V \<leftarrow> fold_opt (js_char J) V s;
     WEB_VAR_CatS J V [DQ, CHR '','']
   }"

definition js_nohtml_char :: "char \<Rightarrow> WEB_Variable \<Rightarrow> char \<Rightarrow> WEB_Variable option" where
  "js_nohtml_char J V c =
     (if c = BS then WEB_VAR_CatS J V [BS, BS]
      else if c = DQ then WEB_VAR_CatS J V [BS, DQ]
      else if c = CHR ''<'' then WEB_VAR_CatS J V ''&lt;''
      else if c = CHR ''>'' then WEB_VAR_CatS J V ''&gt;''
      else WEB_VAR_CatC J V c)"

definition WEB_VAR_CatJS_NoHTML :: "char \<Rightarrow> WEB_Variable \<Rightarrow> string \<Rightarrow> WEB_Variable option" where
  "WEB_VAR_CatJS_NoHTML J V s = do {
     V \<leftarrow> WEB_VAR_CatC J (WEB_VAR_Grow J V (length s + 3)) DQ;
     V \<leftarrow> fold_opt (js_nohtml_char J) V s;
     WEB_VAR_CatS J V [DQ, CHR '','']
   }"

text \<open>The bytes and their number; the number is not zero, since the last byte becomes the terminator.\<close>

definition WEB_VAR_CatN :: "char \<Rightarrow> WEB_Variable \<Rightarrow> char list \<Rightarrow> WEB_Variable option" where
  "WEB_VAR_CatN J V s = do {
     let V = WEB_VAR_Grow J V (length s + 1);
     b \<leftarrow> blit (v_value V) (v_len V) s;
     if v_len V + length s = 0 then None
     else do {
       b \<leftarrow> wr b (v_len V + length s - 1) NUL;
       Some (V\<lparr>v_value := b, v_len := v_len V + length s\<rparr>)
     }
   }"

definition WEB_VAR_CatN_NoNUL :: "char \<Rightarrow> WEB_Variable \<Rightarrow> char list \<Rightarrow> WEB_Variable option" where
  "WEB_VAR_CatN_NoNUL J V s = do {
     let V = WEB_VAR_Grow J V (length s + 1);
     b \<leftarrow> blit (v_value V) (v_len V) s;
     Some (V\<lparr>v_value := b, v_len := v_len V + length s\<rparr>)
   }"

section \<open>Substitution\<close>

definition VarNameChar :: "char \<Rightarrow> bool" where
  "VarNameChar c \<longleftrightarrow> isalnum c \<or> c = CHR ''_''"

text \<open>
  The source is not terminated: what is left of it is a list, and a character past its end cannot be
  read.  The loops that collect a name stop at the last character of the source.
\<close>

fun scan_name :: "(char \<Rightarrow> bool) \<Rightarrow> nat \<Rightarrow> string \<Rightarrow> string \<times> string" where
  "scan_name P (Suc n) (c # d # s) =
     (if P c then (case scan_name P n (d # s) of (v, r) \<Rightarrow> (c # v, r)) else ([], c # d # s))"
| "scan_name P n s = ([], s)"

text \<open>What follows the sign: is it a text to translate, the name, and the rest.\<close>

definition var_name :: "string \<Rightarrow> (bool \<times> string \<times> string) option" where
  "var_name s = do {
     c \<leftarrow> rd s 0;
     trans \<leftarrow> (if c = CHR ''_'' then map_option (\<lambda>d. d = CHR ''('') (rd s 1) else Some False);
     Some (if trans then
             (case scan_name (\<lambda>c. c \<noteq> CHR '')'' \<and> isprint c) (VAR_GETTEXT_MAX - 1) (drop 2 s) of
                (v, r) \<Rightarrow> (True, v, drop 1 r))
           else
             (case scan_name VarNameChar (VAR_GETTEXT_MAX - 1) s of (v, r) \<Rightarrow> (False, v, r)))
   }"

datatype web_varsubst_mode =
    WEB_VARSUBST_NORMAL
  | WEB_VARSUBST_VAR
  | WEB_VARSUBST_ESCAPE
  | WEB_VARSUBST_TRANSLATE

text \<open>The first part of a pass of the loop: the mode, the name, and what is left of the source.\<close>

definition filter_mode :: "string \<Rightarrow> (web_varsubst_mode \<times> string \<times> string) option" where
  "filter_mode s =
     (if take 3 s = ''%24'' \<and> length s > 3 then do {
        (trans, v, r) \<leftarrow> var_name (drop 3 s);
        Some (if trans then WEB_VARSUBST_TRANSLATE
              else if length s > 6 \<and> take 3 (drop 3 s) = ''%24'' then WEB_VARSUBST_ESCAPE
              else WEB_VARSUBST_VAR, v, r)
      }
      else if take 1 s = ''$'' then do {
        c \<leftarrow> rd s 1;
        (trans, v, r) \<leftarrow> var_name (drop 1 s);
        Some (if trans then WEB_VARSUBST_TRANSLATE
              else if c = CHR ''$'' then WEB_VARSUBST_ESCAPE
              else WEB_VARSUBST_VAR, v, r)
      }
      else Some (WEB_VARSUBST_NORMAL, [], s))"

text \<open>The second part; \<open>put\<close> is the routine that writes, \<open>tr\<close> is \<open>gettext\<close>.\<close>

definition filter_put :: "(WEB_Query \<Rightarrow> string \<Rightarrow> WEB_Query) \<Rightarrow> (string \<Rightarrow> string) \<Rightarrow> WEB_Variable list \<Rightarrow> WEB_Query \<Rightarrow>
    web_varsubst_mode \<times> string \<times> string \<Rightarrow> (WEB_Query \<times> string) option" where
  "filter_put put tr vars q m = (case m of (mode, vName, s) \<Rightarrow>
     (case mode of
        WEB_VARSUBST_NORMAL \<Rightarrow> do { c \<leftarrow> rd s 0; Some (put q [c], drop 1 s) }
      | WEB_VARSUBST_ESCAPE \<Rightarrow> Some (put (put q ''$'') vName, s)
      | WEB_VARSUBST_TRANSLATE \<Rightarrow> Some (put q (tr vName), s)
      | WEB_VARSUBST_VAR \<Rightarrow>
          if vName = [] then Some (q, s)
          else (case WEB_VAR_Get vars vName of
                  None \<Rightarrow> Some (q, s)
                | Some b \<Rightarrow> if terminated b then Some (put q (cstr b), s) else None)))"

lemma scan_name_length: "scan_name P n s = (v, r) \<Longrightarrow> length r \<le> length s"
  by (induction P n s arbitrary: v rule: scan_name.induct) (auto split: if_splits prod.splits)

lemma var_name_length:
  assumes "var_name s = Some (t, v, r)"
  shows "length r \<le> length s"
proof -
  have "length b \<le> length s" if "scan_name P n (drop 2 s) = (a, b)" for P n a b
    using scan_name_length [OF that] by simp
  then have "length (drop 1 b) \<le> length s" if "scan_name P n (drop 2 s) = (a, b)" for P n a b
    using \<open>\<And>P n a b. scan_name P n (drop 2 s) = (a, b) \<Longrightarrow> length b \<le> length s\<close> [OF that] by simp
  with assms show ?thesis
    by (auto simp: var_name_def bind_eq_Some_conv split: if_splits prod.splits dest: scan_name_length)
qed

lemma filter_mode_length:
  assumes "filter_mode s = Some (mode, v, r)"
  shows "length r \<le> length s \<and> (mode \<noteq> WEB_VARSUBST_NORMAL \<longrightarrow> length r < length s)"
proof -
  have "length r < length s" if "var_name (drop n s) = Some (t, v, r)" "0 < n" "s \<noteq> []" for n t
    using var_name_length [OF that(1)] that(2,3) by (cases s; cases n) auto
  with assms show ?thesis
    by (fastforce simp: filter_mode_def bind_eq_Some_conv rd_Some_iff split: if_splits prod.splits)
qed

lemma filter_put_length:
  assumes "filter_mode s = Some m" and "filter_put put tr vars q m = Some (q', r)"
  shows "length r < length s"
proof -
  obtain mode v s' where m: "m = (mode, v, s')" by (cases m)
  with assms(1) have "length s' \<le> length s \<and> (mode \<noteq> WEB_VARSUBST_NORMAL \<longrightarrow> length s' < length s)"
    by (simp add: filter_mode_length)
  with assms(2) show ?thesis
    by (cases s') (auto simp: m filter_put_def rd_def split: web_varsubst_mode.splits if_splits option.splits)
qed

function filter_document :: "(string \<Rightarrow> string) \<Rightarrow> WEB_Variable list \<Rightarrow> string \<Rightarrow> WEB_Query \<Rightarrow> WEB_Query option" where
  "filter_document tr vars s q =
     (if s = [] then Some q
      else case filter_mode s of
        None \<Rightarrow> None
      | Some m \<Rightarrow> (case filter_put WEB_Write tr vars q m of
           None \<Rightarrow> None
         | Some (q', s') \<Rightarrow> filter_document tr vars s' q'))"
  by pat_completeness auto
termination
  by (relation "measure (\<lambda>(tr, vars, s, q). length s)") (auto dest: filter_put_length)

declare filter_document.simps [simp del]

definition WEB_VAR_FilterDocument :: "(string \<Rightarrow> string) \<Rightarrow> WEB_Variable list \<Rightarrow> WEB_Query \<Rightarrow> string \<Rightarrow> WEB_Query option" where
  "WEB_VAR_FilterDocument tr vars q src = filter_document tr vars src q"

definition json_frag_char :: "WEB_Query \<Rightarrow> char \<Rightarrow> WEB_Query" where
  "json_frag_char q c =
     (if c = BS then WEB_PutS q [BS, BS]
      else if c = DQ then WEB_PutS q [BS, DQ]
      else if c = LF then WEB_PutS q (BS # ''n'')
      else if c = HT then WEB_PutS q (BS # ''t'')
      else WEB_PutC q c)"

definition WEB_VAR_WriteJSON :: "WEB_Query \<Rightarrow> string \<Rightarrow> WEB_Query" where
  "WEB_VAR_WriteJSON q s = foldl json_frag_char q s"

text \<open>\<open>strncmp(s, t, strlen(t)) == 0\<close> on text that may end before.\<close>

fun starts_with :: "string \<Rightarrow> string \<Rightarrow> bool option" where
  "starts_with s [] = Some True"
| "starts_with [] (t # ts) = None"
| "starts_with (c # s) (t # ts) = (if c = t then starts_with s ts else Some False)"

datatype body_mark = Body_Begin | Body_End | Body_None

definition body_tag :: "string \<Rightarrow> body_mark option" where
  "body_tag s =
     (if take 1 s = ''<'' then do {
        b \<leftarrow> starts_with (drop 1 s) ''body>'';
        if b then Some Body_Begin
        else do { e \<leftarrow> starts_with (drop 1 s) ''/body>''; Some (if e then Body_End else Body_None) }
      }
      else Some Body_None)"

text \<open>
  Outside of the body the loop goes on without moving.  The outer option tells whether it returns, the inner
  one whether it stays within the source.
\<close>

partial_function (option) filter_fragment ::
    "(string \<Rightarrow> string) \<Rightarrow> WEB_Variable list \<Rightarrow> bool \<Rightarrow> string \<Rightarrow> WEB_Query \<Rightarrow> WEB_Query option option" where
  "filter_fragment tr vars inBody s q =
     (if s = [] then Some (Some q)
      else case body_tag s of
        None \<Rightarrow> Some None
      | Some tag \<Rightarrow>
          if tag = Body_End then Some (Some q)
          else if \<not> inBody \<and> tag \<noteq> Body_Begin then filter_fragment tr vars inBody s q
          else (case filter_mode s of
             None \<Rightarrow> Some None
           | Some m \<Rightarrow> (case filter_put WEB_VAR_WriteJSON tr vars q m of
                None \<Rightarrow> Some None
              | Some (q', s') \<Rightarrow> filter_fragment tr vars True s' q')))"

definition WEB_VAR_FilterFragment :: "(string \<Rightarrow> string) \<Rightarrow> WEB_Variable list \<Rightarrow> WEB_Query \<Rightarrow> string \<Rightarrow> WEB_Query option option" where
  "WEB_VAR_FilterFragment tr vars q src = filter_fragment tr vars False src q"

end
