(* ===== verification/WebServe.thy ===== *)
theory WebServe
  imports WebVars
begin

unbundle bit_operations_syntax

text \<open>
  Answers of the application server (core/web.c, with \<open>WEB_CloseSession\<close> of core/web_auth.c): pages and errors, the output of a query,
  the preparation of queries, the methods, and the dispatch of a query to the modules.
  The world has the page variables, the files, the error message and the open
  session.  The commands and callbacks of the application are values of the type \<^typ>\<open>'c\<close>, run by parameters.
  A result is \<^const>\<open>None\<close> when the process ends or leaves an object; what is written to the client is returned.
\<close>

definition WEB_SESSION_VAR_KEY_MAX :: nat where "WEB_SESSION_VAR_KEY_MAX = 32"
definition WEB_SESSION_VAR_VALUE_MAX :: nat where "WEB_SESSION_VAR_VALUE_MAX = 1024"
definition WEB_ERROR_MAX :: nat where "WEB_ERROR_MAX = 1024"
definition WEB_FRONTEND_RDBUFSIZE :: nat where "WEB_FRONTEND_RDBUFSIZE = 16384"
definition WEB_FORMDATA_MAX :: nat where "WEB_FORMDATA_MAX = 8 * 1024 * 1024"
definition FILENAME_MAX :: nat where "FILENAME_MAX = 4096"

record WEB_SessionVar =
  sv_key :: string
  sv_value :: string

record WEB_Session =
  S_id :: string
  S_vars :: "WEB_SessionVar list"
  S_nVars :: nat
  S_nEvents :: nat

record web_world =
  ww_vars :: "WEB_Variable list"
  ww_files :: "string \<Rightarrow> char list option"
  ww_error :: string
  ww_sess :: WEB_Session

text \<open>The build (\<open>HAVE_ZLIB\<close>, \<open>VERSION\<close>), \<open>gettext\<close>, what fresh memory holds, and the application.\<close>

record web_env =
  e_zlib :: bool
  e_version :: string
  e_tr :: "string \<Rightarrow> string"
  e_junk :: char
  e_app :: WEB_Application

text \<open>zlib: \<open>deflateInit\<close>, and the pieces of output that \<open>deflate\<close> gives for one input (with \<open>Z_FINISH\<close> or not).\<close>

record 'z web_zlib =
  z_init :: "int \<Rightarrow> 'z option"
  z_deflate :: "'z \<Rightarrow> string \<Rightarrow> bool \<Rightarrow> ('z \<times> string list) option"

section \<open>Pages\<close>

text \<open>Attribute values are between single quotes.\<close>

definition quoted :: "string \<Rightarrow> string" where "quoted s = CHR 0x27 # s @ [CHR 0x27]"

definition set_var :: "web_env \<Rightarrow> string \<Rightarrow> string option \<Rightarrow> web_world \<Rightarrow> web_world" where
  "set_var e key s W = W\<lparr>ww_vars := WEB_VAR_SetS (e_junk e) (ww_vars W) (Some key) s\<rparr>"

definition set_var_text :: "web_env \<Rightarrow> string \<Rightarrow> string \<Rightarrow> web_world \<Rightarrow> web_world" where
  "set_var_text e key txt W = W\<lparr>ww_vars := WEB_VAR_Set (e_junk e) (ww_vars W) (Some key) (Some txt)\<rparr>"

definition cat_var :: "string \<Rightarrow> (WEB_Variable \<Rightarrow> WEB_Variable option) \<Rightarrow> web_world \<Rightarrow> web_world option" where
  "cat_var key f W = (let i = var_place (ww_vars W) key in do {
     V \<leftarrow> rd (ww_vars W) i;
     V \<leftarrow> f V;
     Some (W\<lparr>ww_vars := (ww_vars W)[i := V]\<rparr>)
   })"

definition FindDoc :: "web_world \<Rightarrow> string \<Rightarrow> string option" where
  "FindDoc W name = (let path = str_cat FILENAME_MAX (str_cpy FILENAME_MAX ''html/'') name in
     if ww_files W path \<noteq> None then Some path else None)"

text \<open>The document in the language of the query, or else in English.\<close>

definition page_path :: "web_world \<Rightarrow> string \<Rightarrow> string \<Rightarrow> string option" where
  "page_path W lang name = (let file = (\<lambda>l. str_cat FILENAME_MAX (str_cat FILENAME_MAX (str_cpy FILENAME_MAX name) ''.html.'') l) in
     case FindDoc W (file lang) of Some p \<Rightarrow> Some p | None \<Rightarrow> FindDoc W (file ''en''))"

definition WEB_OutputHTML :: "web_env \<Rightarrow> web_world \<Rightarrow> WEB_Query \<Rightarrow> string \<Rightarrow> (bool \<times> WEB_Query) option" where
  "WEB_OutputHTML e W q name = (case page_path W (q_lang q) name of
     None \<Rightarrow> Some (False, q)
   | Some path \<Rightarrow> do {
       data \<leftarrow> ww_files W path;
       q \<leftarrow> WEB_VAR_FilterDocument (e_tr e) (ww_vars W) q data;
       Some (True, q)
     })"

text \<open>The outer option tells whether the filter of the fragment returns.\<close>

definition WEB_PutJSON_HTML :: "web_env \<Rightarrow> web_world \<Rightarrow> WEB_Query \<Rightarrow> string \<Rightarrow> string \<Rightarrow> (bool \<times> WEB_Query) option option" where
  "WEB_PutJSON_HTML e W q key name = (
     let q = WEB_PutS (WEB_PutS (WEB_PutC q DQ) key) (DQ # '': '' @ [DQ]) in
     case page_path W (q_lang q) name of
       None \<Rightarrow> Some (Some (False, WEB_PutS (WEB_PutS q (ww_error W)) [DQ, CHR '','']))
     | Some path \<Rightarrow>
         (case ww_files W path of
            None \<Rightarrow> Some None
          | Some data \<Rightarrow> map_option (map_option (\<lambda>q. (True, WEB_PutS q [DQ, CHR '',''])))
              (WEB_VAR_FilterFragment (e_tr e) (ww_vars W) q data)))"

definition WEB_OutputError :: "web_env \<Rightarrow> web_world \<Rightarrow> WEB_Query \<Rightarrow> string \<Rightarrow> (web_world \<times> WEB_Query) option" where
  "WEB_OutputError e W q msg = (
     let W = set_var_text e ''_error''
           (''<div class='' @ quoted ''alert alert-danger'' @ '' role='' @ quoted ''alert'' @ ''>'' @
            e_tr e ''Error'' @ '': <strong>'' @ MessageToHTML WEB_ERROR_MAX msg @ ''</strong></div>'') W
     in do { (ok, q) \<leftarrow> WEB_OutputHTML e W q ''error''; Some (W, q) })"

definition dismissible :: "web_env \<Rightarrow> string \<Rightarrow> web_world \<Rightarrow> web_world" where
  "dismissible e htmlMsg W = set_var_text e ''_error''
     (''<center><div class='' @ quoted ''alert alert-danger alert-dismissible'' @ '' role='' @ quoted ''alert'' @ ''>'' @
      e_tr e ''Error'' @ '': <strong>'' @ htmlMsg @ ''</strong><a class='' @ quoted ''close'' @ '' data-dismiss='' @ quoted ''alert'' @
      ''>&times;</a></div></center>'') W"

definition WEB_SetError :: "web_env \<Rightarrow> string \<Rightarrow> web_world \<Rightarrow> web_world" where
  "WEB_SetError e txt W = dismissible e (MessageToHTML WEB_ERROR_MAX (str_cpy WEB_ERROR_MAX txt)) W"

definition WEB_SetErrorS :: "web_env \<Rightarrow> string \<Rightarrow> web_world \<Rightarrow> web_world" where
  "WEB_SetErrorS e msg W = dismissible e (MessageToHTML WEB_ERROR_MAX msg) W"

definition WEB_SetSuccess :: "web_env \<Rightarrow> string \<Rightarrow> web_world \<Rightarrow> web_world" where
  "WEB_SetSuccess e txt W = set_var_text e ''_error''
     (''<div class='' @ quoted ''alert alert-success alert-dismissible'' @ '' role='' @ quoted ''alert'' @
      ''><span class='' @ quoted ''sr-only'' @ ''>'' @ e_tr e ''Success: '' @ '': </span>'' @
      MessageToHTML WEB_ERROR_MAX (str_cpy WEB_ERROR_MAX txt) @ ''<a class='' @ quoted ''close'' @ '' data-dismiss='' @ quoted ''alert'' @
      ''>&times;</a></div>'') W"

section \<open>Output\<close>

text \<open>An \<open>int\<close> that is compared with a \<open>size_t\<close>.\<close>

definition usize :: "int \<Rightarrow> nat" where "usize v = nat (v mod 2 ^ 64)"

text \<open>The digits of \<open>%lx\<close>.\<close>

fun hex_rev :: "nat \<Rightarrow> nat \<Rightarrow> string" where
  "hex_rev 0 n = []"
| "hex_rev (Suc k) n = hex_digit (n mod 16) # (if n < 16 then [] else hex_rev k (n div 16))"

definition hex_nat :: "nat \<Rightarrow> string" where
  "hex_nat n = rev (hex_rev 16 n)"

definition chunk :: "string \<Rightarrow> string" where
  "chunk s = (if s = [] then [] else hex_nat (length s) @ [CR, LF] @ s @ [CR, LF])"

text \<open>
  The outer loop of \<open>WEB_FlushQuery_DEFLATE\<close>.  When nothing is left before a short block was seen, the loop ends without
  \<open>Z_FINISH\<close> and the assertion after it fails.
\<close>

definition deflate_block :: nat where "deflate_block = WEB_DATA_BUFSIZE - 2"

function deflate_loop :: "'z web_zlib \<Rightarrow> 'z \<Rightarrow> string \<Rightarrow> string list option" where
  "deflate_loop Z st rest =
     (if length rest < deflate_block then
        if rest = [] then None
        else map_option snd (z_deflate Z st rest True)
      else do {
        (st, ps) \<leftarrow> z_deflate Z st (take deflate_block rest) False;
        qs \<leftarrow> deflate_loop Z st (drop deflate_block rest);
        Some (ps @ qs)
      })"
  by pat_completeness auto
termination
  by (relation "measure (\<lambda>(Z, st, rest). length rest)") (auto simp: deflate_block_def WEB_DATA_BUFSIZE_def)

declare deflate_loop.simps [simp del]

definition WEB_FlushQuery_DEFLATE :: "'z web_zlib \<Rightarrow> WEB_Query \<Rightarrow> (string \<times> WEB_Query) option" where
  "WEB_FlushQuery_DEFLATE Z q = do {
     let head_only = (q_method q = WEB_METHOD_HEAD);
     q \<leftarrow> WEB_SetHeaderS q ''Content-Encoding'' ''deflate'';
     (sent, q) \<leftarrow> (if head_only then Some ([], q)
                 else do { q \<leftarrow> WEB_SetHeaderS q ''Transfer-Encoding'' ''chunked''; WEB_WriteHeaders q });
     case z_init Z (q_compressLvl q) of
       None \<Rightarrow> Some (sent, q)
     | Some st \<Rightarrow> do {
         ps \<leftarrow> deflate_loop Z st (q_data q);
         if head_only then do {
           q \<leftarrow> WEB_SetHeader q ''Content-Length'' (dec (sum_list (map (\<lambda>p. length p + 2) ps)));
           WEB_WriteHeaders q
         }
         else Some (sent @ concat (map chunk ps) @ ''0'' @ [CR, LF, CR, LF], q)
       }
   }"

definition WEB_FlushQuery_RANGE :: "web_env \<Rightarrow> web_world \<Rightarrow> WEB_Query \<Rightarrow> (string \<times> web_world \<times> WEB_Query) option" where
  "WEB_FlushQuery_RANGE e W q = (let dataLen = length (q_data q) in
     if q_rangeFrom q \<le> q_rangeTo q \<and> usize (q_rangeTo q) \<le> dataLen \<and>
        (q_rangeFrom q + q_rangeTo q > INT_MAX \<or> q_rangeFrom q + q_rangeTo q < INT_MIN) then None
     else if q_rangeFrom q > q_rangeTo q \<or> usize (q_rangeTo q) > dataLen \<or> usize (q_rangeFrom q + q_rangeTo q) > dataLen then do {
       q \<leftarrow> WEB_SetCode q ''416 Range Not Satisfiable'';
       q \<leftarrow> WEB_SetHeaderS q ''Content-Language'' ''en'';
       (W, q) \<leftarrow> WEB_OutputError e W q ''Requested range is not satisfiable'';
       (sent, q) \<leftarrow> WEB_WriteHeaders q;
       Some (sent @ q_data q, W, q)
     }
     else do {
       let rangeLen = nat (q_rangeTo q - q_rangeFrom q);
       q \<leftarrow> WEB_SetCode q ''206 Partial Content'';
       q \<leftarrow> WEB_SetHeader q ''Content-Range''
              (''bytes '' @ dec_int (q_rangeFrom q) @ ''-'' @ dec_int (q_rangeTo q) @ ''/'' @ dec dataLen);
       q \<leftarrow> WEB_SetHeader q ''Content-Length'' (dec rangeLen);
       (sent, q) \<leftarrow> WEB_WriteHeaders q;
       Some (sent @ (if q_method q \<noteq> WEB_METHOD_HEAD then take rangeLen (drop (nat (q_rangeFrom q)) (q_data q)) else []), W, q)
     })"

definition WEB_FlushQuery :: "'z web_zlib \<Rightarrow> web_env \<Rightarrow> web_world \<Rightarrow> WEB_Query \<Rightarrow> (string \<times> web_world \<times> WEB_Query) option" where
  "WEB_FlushQuery Z e W q = do {
     (sent, W, q) \<leftarrow>
       (if q_flags q AND WEB_QUERY_RANGE \<noteq> 0 then WEB_FlushQuery_RANGE e W q
        else if e_zlib e \<and> q_flags q AND WEB_QUERY_DEFLATE \<noteq> 0 \<and> q_flags q AND WEB_QUERY_NOCOMPRESSION = 0 \<and>
                length (q_data q) \<ge> WEB_DATA_COMPRESS_MIN then
          map_option (\<lambda>(s, q). (s, W, q)) (WEB_FlushQuery_DEFLATE Z q)
        else do {
          q \<leftarrow> (if length (q_data q) > 0 then WEB_SetHeader q ''Content-Length'' (dec (length (q_data q))) else Some q);
          (sent, q) \<leftarrow> WEB_WriteHeaders q;
          Some (sent @ (if q_method q \<noteq> WEB_METHOD_HEAD then q_data q else []), W, q)
        });
     Some (sent, W, WEB_ClearQuery q)
   }"

section \<open>Beginning of queries\<close>

definition WEB_BeginQueryCommon :: "web_env \<Rightarrow> web_world \<Rightarrow> WEB_Query \<Rightarrow> web_world \<times> WEB_Query" where
  "WEB_BeginQueryCommon e W q = (
     let q = (if q_dataSize q = 0 then q\<lparr>q_dataSize := WEB_DATA_BUFSIZE\<rparr> else q);
         W = set_var e ''_error'' (Some []) W
     in (set_var e ''_lang'' (Some (q_lang q)) W, q\<lparr>q_data := []\<rparr>))"

definition WEB_GLYPHICON :: "string \<Rightarrow> string" where
  "WEB_GLYPHICON x = ''<span class='' @ quoted (''glyphicons glyphicons-'' @ x) @ ''></span>''"

text \<open>\<open>front\<close>: the callback \<open>beginFrontQuery\<close> of the session class, if any.\<close>

type_synonym web_callback = "web_world \<Rightarrow> WEB_Query \<Rightarrow> (web_world \<times> WEB_Query) option"

definition WEB_BeginFrontQuery :: "web_env \<Rightarrow> (string \<Rightarrow> web_callback) option \<Rightarrow> web_world \<Rightarrow> WEB_Query \<Rightarrow> string \<Rightarrow> (web_world \<times> WEB_Query) option" where
  "WEB_BeginFrontQuery e front W q op = (
     let (W, q) = WEB_BeginQueryCommon e W q;
         q = q\<lparr>q_flags := q_flags q AND NOT WEB_QUERY_RANGE\<rparr>
     in case front of
          Some f \<Rightarrow> f op W q
        | None \<Rightarrow>
            let W = set_var e ''_user'' (Some ''(nobody)'') W;
                W = set_var e ''_theme'' (Some ''Default'') W;
                W = set_var_text e ''_modules''
                      (''<li><a style='' @ quoted ''font-weight:bold'' @ '' href='' @ quoted ''/'' @ ''>'' @ WEB_GLYPHICON ''log-in'' @ ''&nbsp;'' @
                       e_tr e ''Log in'' @ ''</a></li><li role='' @ quoted ''separator'' @ '' class='' @ quoted ''divider'' @ ''></li>'') W
            in Some (W, q))"

record 'c WEB_Command =
  cmd_name :: string
  cmd_fn :: 'c
  cmd_type :: "string option"

record WEB_Section =
  sec_name :: string
  sec_cmd :: string

text \<open>The arrays are given up to the entry without a name.\<close>

record 'c WEB_Module =
  m_name :: string
  m_icon :: string
  m_lname :: string
  m_indexFn :: "'c option"
  m_menu :: "(string \<Rightarrow> web_callback) option"
  m_sessClose :: "(web_world \<Rightarrow> web_world option) option"
  m_commands :: "'c WEB_Command list"
  m_sections :: "WEB_Section list option"

text \<open>The value of the header \<open>Set-Cookie\<close>.\<close>

definition set_cookie_text :: "WEB_Cookie \<Rightarrow> string" where
  "set_cookie_text ck = (
     let cat = (\<lambda>t s. str_cat WEB_COOKIE_SET_MAX s t);
         sc = str_cpy WEB_COOKIE_SET_MAX (ck_name ck);
         sc = cat ''='' sc;
         sc = cat (ck_value ck) sc;
         sc = (if ck_expires ck \<noteq> [] then cat (ck_expires ck) (cat ''; Expires='' sc) else sc);
         sc = (if ck_domain ck \<noteq> [] then cat (ck_domain ck) (cat ''; Domain='' sc) else sc);
         sc = (if ck_path ck \<noteq> [] then cat (ck_path ck) (cat ''; Path='' sc) else sc)
     in if ck_flags ck AND WEB_COOKIE_SECURE \<noteq> 0 then cat ''; Secure'' sc else sc)"

definition append_cookie :: "WEB_Query \<Rightarrow> WEB_Cookie \<Rightarrow> WEB_Query option" where
  "append_cookie q ck = WEB_AppendHeaderS q ''Set-Cookie'' (set_cookie_text ck)"

definition cat_text :: "web_env \<Rightarrow> string \<Rightarrow> web_world \<Rightarrow> web_world option" where
  "cat_text e txt W = cat_var ''_modules'' (\<lambda>V. WEB_VAR_Cat (e_junk e) V txt) W"

definition cat_str :: "web_env \<Rightarrow> string \<Rightarrow> web_world \<Rightarrow> web_world option" where
  "cat_str e s W = cat_var ''_modules'' (\<lambda>V. WEB_VAR_CatS (e_junk e) V s) W"

text \<open>The menu entry of one module.\<close>

definition menu_section :: "web_env \<Rightarrow> web_world \<Rightarrow> WEB_Section \<Rightarrow> web_world option" where
  "menu_section e W sec =
     cat_text e (''<li><a href='' @ quoted (''/'' @ sec_cmd sec) @ ''>'' @ sec_name sec @ ''</a></li>'') W"

definition menu_module :: "web_env \<Rightarrow> web_world \<times> WEB_Query \<Rightarrow> 'c WEB_Module \<Rightarrow> (web_world \<times> WEB_Query) option" where
  "menu_module e Wq md = (case Wq of (W, q) \<Rightarrow>
     (case m_menu md of
        Some menu \<Rightarrow> menu ''_modules'' W q
      | None \<Rightarrow>
          (case m_sections md of
             None \<Rightarrow> do {
               W \<leftarrow> cat_text e (''<li><a href='' @ quoted (''/'' @ m_name md) @ ''>'' @ m_icon md @ e_tr e (m_lname md) @ ''</a></li>'') W;
               Some (W, q)
             }
           | Some secs \<Rightarrow>
               if secs = [] then Some (W, q)
               else do {
                 W \<leftarrow> cat_str e (''<li class='' @ quoted ''dropdown'' @ ''><a href='' @ quoted ''#'' @ '' class='' @ quoted ''dropdown-toggle'' @
                                '' data-toggle='' @ quoted ''dropdown'' @ '' role='' @ quoted ''button'' @ '' aria-haspopup='' @ quoted ''true'' @
                                '' aria-expanded='' @ quoted ''false'' @ ''>'') W;
                 W \<leftarrow> cat_str e (m_icon md) W;
                 W \<leftarrow> cat_str e (e_tr e (m_lname md)) W;
                 W \<leftarrow> cat_str e (''<span class='' @ quoted ''caret'' @ ''></span></a><ul class='' @ quoted ''dropdown-menu'' @ ''>'') W;
                 W \<leftarrow> fold_opt (menu_section e) W secs;
                 W \<leftarrow> cat_str e ''</ul></li>'' W;
                 Some (W, q)
               })))"

definition arg_value :: "WEB_Query \<Rightarrow> string \<Rightarrow> nat \<Rightarrow> string option option" where
  "arg_value q key len = (case WEB_Get q key len of
     Inl _ \<Rightarrow> Some None
   | Inr None \<Rightarrow> Some None
   | Inr (Some b) \<Rightarrow> if terminated b then Some (Some (cstr b)) else None)"

definition WEB_BeginWorkerQuery :: "web_env \<Rightarrow> (string \<Rightarrow> web_callback) option \<Rightarrow> 'c WEB_Module list \<Rightarrow> web_world \<Rightarrow> WEB_Query \<Rightarrow> (web_world \<times> WEB_Query) option" where
  "WEB_BeginWorkerQuery e menuFn modules W q = do {
     let (W, q) = WEB_BeginQueryCommon e W q;
     q \<leftarrow> WEB_SetHeaderS q ''Date'' (q_date q);
     q \<leftarrow> (if q_flags q AND WEB_QUERY_KEEPALIVE \<noteq> 0 then WEB_SetHeaderS q ''Connection'' ''keep-alive'' else Some q);
     q \<leftarrow> fold_opt append_cookie q (q_cookies q);
     op \<leftarrow> arg_value q ''op'' WEB_OPNAME_MAX;
     let W = set_var e ''op'' (Some (case op of Some s \<Rightarrow> s | None \<Rightarrow> app_homeOp (e_app e))) W;
     let W = set_var e ''_modules'' None W;
     case menuFn of
       Some menu \<Rightarrow> menu ''_modules'' W q
     | None \<Rightarrow> do {
         (W, q) \<leftarrow> fold_opt (menu_module e) (W, q) modules;
         W \<leftarrow> cat_text e (''<li><a href='' @ quoted ''/logout'' @ ''>'' @ WEB_GLYPHICON ''log-out'' @ ''&nbsp;'' @ e_tr e ''Logout'' @
                         ''</a></li><li role='' @ quoted ''separator'' @ '' class='' @ quoted ''divider'' @ ''></li>'') W;
         Some (W, q)
       }
   }"

section \<open>Methods\<close>

definition WEB_MethodNotAllowed :: "'z web_zlib \<Rightarrow> web_env \<Rightarrow> string option \<Rightarrow> web_world \<Rightarrow> WEB_Query \<Rightarrow> string \<Rightarrow> (string \<times> web_world \<times> WEB_Query) option" where
  "WEB_MethodNotAllowed Z e date W q url = do {
     (ok, q) \<leftarrow> WEB_InitFrontQuery (e_app e) date q 0 url;
     q \<leftarrow> WEB_SetCode q ''405 Method not allowed'';
     q \<leftarrow> WEB_SetHeaderS q ''Allow'' ''GET, HEAD, POST, OPTIONS'';
     WEB_FlushQuery Z e W q
   }"

text \<open>
  The label \<open>fail\<close> of the methods.  The boolean says whether the connection is kept.
\<close>

definition front_fail :: "'z web_zlib \<Rightarrow> web_env \<Rightarrow> web_world \<Rightarrow> WEB_Query \<Rightarrow> (bool \<times> string \<times> web_world) option" where
  "front_fail Z e W q = do {
     q \<leftarrow> WEB_SetHeaderS q ''Content-Language'' ''en'';
     (W, q) \<leftarrow> WEB_OutputError e W q (ww_error W);
     (keep, q) \<leftarrow> WEB_KeepAlive q;
     (sent, W, q) \<leftarrow> WEB_FlushQuery Z e W q;
     Some (keep, sent, W)
   }"

text \<open>
  OPTIONS.  A read of what is left of the body that fails is not noticed, so that the results of the reads do not matter.
\<close>

definition WEB_FrontOPTIONS :: "'z web_zlib \<Rightarrow> web_env \<Rightarrow> (string \<Rightarrow> web_callback) option \<Rightarrow> string option \<Rightarrow> web_world \<Rightarrow> WEB_Query \<Rightarrow>
    string \<Rightarrow> string \<Rightarrow> nat \<Rightarrow> (bool \<times> string \<times> web_world) option" where
  "WEB_FrontOPTIONS Z e front date W q pUrl pHeaders rdBufLen = do {
     let url = (if take 1 pUrl = ''*'' then ''/'' else pUrl);
     (ok, q) \<leftarrow> WEB_InitFrontQuery (e_app e) date q 3 url;
     if \<not> ok then front_fail Z e W q
     else do {
       (ok, q) \<leftarrow> post_headers (e_zlib e) (e_app e) (split_on {LF} pHeaders) q;
       if \<not> ok then front_fail Z e W q
       else if q_contentLength q > 0 \<and> q_contentType q = [] then do {
         q \<leftarrow> WEB_SetCode q ''400 Bad Request''; front_fail Z e W q
       }
       else if q_contentLength q > rdBufLen \<and> q_contentLength q - rdBufLen > 1024 then do {
         q \<leftarrow> WEB_SetCode q ''400 Bad Request'';
         front_fail Z e W (q\<lparr>q_flags := q_flags q AND NOT WEB_QUERY_KEEPALIVE\<rparr>)
       }
       else do {
         (keep, q) \<leftarrow> WEB_KeepAlive (q\<lparr>q_flags := q_flags q OR WEB_QUERY_CONTENT_READ\<rparr>);
         (W, q) \<leftarrow> WEB_BeginFrontQuery e front W q url;
         q \<leftarrow> WEB_SetHeaderS q ''Allow'' ''GET,HEAD,POST,OPTIONS'';
         q \<leftarrow> WEB_SetHeaderS q ''Vary'' ''User-Agent'';
         q \<leftarrow> WEB_SetHeaderS q ''Content-Length'' ''0'';
         (sent, W, q) \<leftarrow> WEB_FlushQuery Z e W q;
         Some (keep, sent, W)
       }
     }
   }"

section \<open>Commands\<close>

text \<open>\<open>unlink\<close>, and the end of a session (\<open>close\<close> is the callback of the session class).\<close>

definition unlink :: "string \<Rightarrow> web_world \<Rightarrow> web_world" where
  "unlink path W = W\<lparr>ww_files := (ww_files W)(path := None)\<rparr>"

definition session_path :: "string \<Rightarrow> string \<Rightarrow> string" where
  "session_path sid suffix = str_cat FILENAME_MAX (str_cat FILENAME_MAX (str_cpy FILENAME_MAX ''sessions/'') sid) suffix"

definition close_module :: "web_world \<Rightarrow> 'c WEB_Module \<Rightarrow> web_world option" where
  "close_module W md = (case m_sessClose md of Some f \<Rightarrow> f W | None \<Rightarrow> Some W)"

definition WEB_CloseSession :: "(web_world \<Rightarrow> web_world option) option \<Rightarrow> 'c WEB_Module list \<Rightarrow> web_world \<Rightarrow> web_world option" where
  "WEB_CloseSession close modules W = do {
     W \<leftarrow> (case close of Some f \<Rightarrow> f W | None \<Rightarrow> Some W);
     W \<leftarrow> fold_opt close_module W modules;
     let W = unlink (session_path (S_id (ww_sess W)) []) W;
     let W = unlink (session_path (S_id (ww_sess W)) ''.sock'') W;
     Some (unlink (session_path (S_id (ww_sess W)) ''.events'') W)
   }"

text \<open>The headers of every command, in their order.\<close>

definition command_headers :: "WEB_Query \<Rightarrow> WEB_Query option" where
  "command_headers q = do {
     q \<leftarrow> WEB_SetHeaderS q ''Accept-Ranges'' ''bytes'';
     q \<leftarrow> WEB_SetHeaderS q ''Vary'' ''Accept-Language,Accept-Encoding,User-Agent'';
     q \<leftarrow> WEB_SetHeaderS q ''Last-Modified'' (q_date q);
     q \<leftarrow> WEB_SetHeaderS q ''Content-Language'' (q_lang q);
     q \<leftarrow> WEB_SetHeaderS q ''Cache-Control'' ''no-cache, no-store, must-revalidate'';
     WEB_SetHeaderS q ''Expires'' ''0''
   }"

definition json_error :: "web_env \<Rightarrow> web_world \<Rightarrow> WEB_Query \<Rightarrow> WEB_Query" where
  "json_error e W q = WEB_PutS (WEB_PutJSON_NoHTML_S q ''error'' (ww_error W))
     (DQ # ''backend_version'' @ [DQ] @ '': '' @ [DQ] @ e_version e @ [DQ] @ ''}'' @ [CR, LF])"

definition json_code :: "string \<Rightarrow> string" where
  "json_code s = DQ # ''code'' @ [DQ] @ '': '' @ s"

text \<open>
  The branches on the type of the command; \<open>run\<close> runs a command.
\<close>

definition run_command :: "('c \<Rightarrow> web_world \<Rightarrow> WEB_Query \<Rightarrow> (int \<times> web_world \<times> WEB_Query) option) \<Rightarrow> web_env \<Rightarrow> web_world \<Rightarrow> WEB_Query \<Rightarrow>
    'c WEB_Command \<Rightarrow> (web_world \<times> WEB_Query) option" where
  "run_command run e W q cmd =
     (if cmd_type cmd = Some ''[json-status]'' then do {
        q \<leftarrow> WEB_SetHeaderS q ''Content-Type'' ''application/json; charset=utf8'';
        (rv, W, q) \<leftarrow> run (cmd_fn cmd) W q;
        Some (W, if rv = 0 then WEB_PutS q (''{'' @ json_code ''0'' @ ''}'' @ [CR, LF])
                 else json_error e W (WEB_PutS q (''{'' @ json_code ''-1'' @ '','')))
      }
      else if cmd_type cmd = Some ''[json]'' then do {
        q \<leftarrow> WEB_SetHeaderS q ''Content-Type'' ''application/json; charset=utf8'';
        let q = WEB_PutS q (''{'' @ [DQ] @ ''lang'' @ [DQ] @ '': '' @ [DQ]);
        let q = WEB_PutS q (q_lang q);
        let q = WEB_PutS q [DQ, CHR '',''];
        (rv, W, q) \<leftarrow> run (cmd_fn cmd) W q;
        Some (W, if rv = 0 then WEB_PutS q (json_code ''0'' @ ''}'' @ [CR, LF])
                 else json_error e W (WEB_PutS q (json_code ''-1'' @ '','')))
      }
      else case cmd_type cmd of
        Some typ \<Rightarrow>
          if typ = ''text/html'' then do {
            q \<leftarrow> WEB_SetHeaderS q ''Content-Type'' ''text/html; charset=utf8'';
            (rv, W, q) \<leftarrow> run (cmd_fn cmd) W q;
            if rv \<noteq> 0 then WEB_OutputError e W q (ww_error W) else Some (W, q)
          }
          else do {
            q \<leftarrow> WEB_SetHeaderS q ''Content-Type'' typ;
            (rv, W, q) \<leftarrow> run (cmd_fn cmd) W q;
            Some (W, q)
          }
      | None \<Rightarrow> do { (rv, W, q) \<leftarrow> run (cmd_fn cmd) W q; Some (W, q) })"

definition exec_fail :: "'z web_zlib \<Rightarrow> web_env \<Rightarrow> web_world \<Rightarrow> WEB_Query \<Rightarrow> (int \<times> string \<times> web_world \<times> WEB_Query) option" where
  "exec_fail Z e W q = do {
     q \<leftarrow> WEB_SetHeaderS q ''Content-Language'' ''en'';
     q \<leftarrow> WEB_SetHeaderS q ''Cache-Control'' ''no-cache, no-store, must-revalidate'';
     q \<leftarrow> WEB_SetHeaderS q ''Expires'' ''0'';
     (W, q) \<leftarrow> WEB_OutputError e W q ''The requested URL was not found on this server'';
     (sent, W, q) \<leftarrow> WEB_FlushQuery Z e W q;
     Some (0, sent, W, q)
   }"

text \<open>The operation of the query: an error code to answer with, or the name.\<close>

definition query_op :: "WEB_Application \<Rightarrow> WEB_Query \<Rightarrow> (string + string) option" where
  "query_op app q = (case WEB_GetArgument q ''op'' of
     None \<Rightarrow> Some (Inr (app_homeOp app))
   | Some a \<Rightarrow>
       if a_len a \<ge> WEB_OPNAME_MAX then Some (Inl ''413 Request too large'')
       else do {
         op \<leftarrow> arg_string a;
         Some (if list_all op_char op then Inr op else Inl ''404 Not Found'')
       })"

definition find_module :: "'c WEB_Module list \<Rightarrow> string \<Rightarrow> 'c WEB_Module option" where
  "find_module modules op = find (\<lambda>md. take (length (m_name md)) op = m_name md) modules"

text \<open>The name of a module stands for its index command.\<close>

definition index_op :: "'c WEB_Module \<Rightarrow> string \<Rightarrow> string" where
  "index_op md op =
     (if m_name md = op \<and> m_indexFn md \<noteq> None then
        (case find (\<lambda>cmd. Some (cmd_fn cmd) = m_indexFn md) (m_commands md) of Some cmd \<Rightarrow> cmd_name cmd | None \<Rightarrow> op)
      else op)"

definition WEB_ExecWorkerQuery :: "'z web_zlib \<Rightarrow> web_env \<Rightarrow> ('c \<Rightarrow> web_world \<Rightarrow> WEB_Query \<Rightarrow> (int \<times> web_world \<times> WEB_Query) option) \<Rightarrow>
    (web_world \<Rightarrow> web_world option) option \<Rightarrow> 'c WEB_Module list \<Rightarrow> web_world \<Rightarrow> WEB_Query \<Rightarrow> (int \<times> string \<times> web_world \<times> WEB_Query) option" where
  "WEB_ExecWorkerQuery Z e run close modules W q = do {
     r \<leftarrow> query_op (e_app e) q;
     case r of
       Inl code \<Rightarrow> do { q \<leftarrow> WEB_SetCode q code; exec_fail Z e W q }
     | Inr op \<Rightarrow>
         if op = ''logout'' then do {
           W \<leftarrow> WEB_CloseSession close modules W;
           Some (1, [], W, WEB_ClearQuery q)
         }
         else (case find_module modules op of
           None \<Rightarrow> do { q \<leftarrow> WEB_SetCode q ''404 Not Found''; exec_fail Z e W q }
         | Some md \<Rightarrow> (let W = W\<lparr>ww_error := ''Missing argument''\<rparr> in
             (case find (\<lambda>cmd. cmd_name cmd = index_op md op) (m_commands md) of
                None \<Rightarrow> do { q \<leftarrow> WEB_SetCode q ''404 Not Found''; exec_fail Z e W q }
              | Some cmd \<Rightarrow> do {
                  q \<leftarrow> command_headers q;
                  (W, q) \<leftarrow> run_command run e W q cmd;
                  (sent, W, q) \<leftarrow> WEB_FlushQuery Z e W q;
                  Some (0, sent, W, q)
                })))
   }"

section \<open>Bodies of POST requests\<close>

text \<open>
  The part of \<open>WEB_FrontPOST\<close> between the headers and \<open>WEB_ProcessQuery\<close>.  \<open>rdBuf\<close> is what was read past the headers;
  \<open>rs\<close> are the results of the reads; when they run out the process waits, and there is no result.  The
  expression \<open>q.contentLength - rdBufLen\<close> wraps around when more was read than the body has; a read past the 16384 characters of the buffer has no
  result.
\<close>

definition post_body :: "sys_read list \<Rightarrow> WEB_Query \<Rightarrow> string \<Rightarrow> (bool \<times> WEB_Query) option" where
  "post_body rs q rdBuf = (
     if (take 33 (q_contentType q) = ''application/x-www-form-urlencoded'' \<or> take 16 (q_contentType q) = ''application/json'') \<and>
        q_contentLength q > 0 then
       if q_contentLength q > size_diff (size_diff WEB_FRONTEND_RDBUFSIZE (length rdBuf)) 1 then with_code q ''400 Bad Request''
       else do {
         (s, ok) \<leftarrow> WEB_SYS_Read rs (size_diff (q_contentLength q) (length rdBuf));
         if length rdBuf + length s > WEB_FRONTEND_RDBUFSIZE then None
         else if \<not> ok then with_code q ''500 Internal Server Error''
         else do {
           (r, q) \<leftarrow> WEB_ParseFormUrlEncoded q (cstr (take (q_contentLength q) (rdBuf @ s) @ [NUL])) WEB_POST_ARGUMENT;
           case r of
             Inl _ \<Rightarrow> with_code q ''400 Bad Request''
           | Inr _ \<Rightarrow> Some (True, q\<lparr>q_flags := q_flags q OR WEB_QUERY_CONTENT_READ\<rparr>)
         }
       }
     else if take 19 (q_contentType q) = ''multipart/form-data'' \<and> q_contentLength q > 0 then
       if q_contentLength q > WEB_FORMDATA_MAX then with_code q ''400 Bad Request'' else Some (True, q)
     else Some (True, q))"

end
