(* ===== verification/WebSave.thy ===== *)
theory WebSave
  imports Archive WebServe
begin

unbundle bit_operations_syntax

text \<open>
  Queries on their way from the frontend to a worker process (\<open>WEB_QuerySave\<close>, \<open>WEB_QueryLoad\<close> of core/web.c), the forms
  that the worker reads (\<open>WEB_ReadFormData\<close>), and the sessions with their files (core/web_auth.c).
  A result is \<^const>\<open>None\<close> when the process ends: the sources are left with the error handler that ends it.
\<close>

section \<open>Serialized queries\<close>

definition WEB_QUERY_MAX :: nat where "WEB_QUERY_MAX = 4096"

definition arg_type_code :: "web_argument_type \<Rightarrow> 8 word" where
  "arg_type_code t = (case t of WEB_GET_ARGUMENT \<Rightarrow> 0 | WEB_POST_ARGUMENT \<Rightarrow> 1 | WEB_OTHER_ARGUMENT n \<Rightarrow> of_nat n)"

definition arg_code_type :: "8 word \<Rightarrow> web_argument_type" where
  "arg_code_type c = (if c = 0 then WEB_GET_ARGUMENT else if c = 1 then WEB_POST_ARGUMENT else WEB_OTHER_ARGUMENT (unat c))"

text \<open>The bytes that are written for the value are the first \<open>len\<close> of its block; nobody looks at the result of the write.\<close>

definition arg_bytes :: "WEB_Argument \<Rightarrow> byte list option" where
  "arg_bytes a = (case a_value a of
     None \<Rightarrow> if a_len a = 0 then Some [] else None
   | Some b \<Rightarrow> if a_len a \<le> length b then Some (str_bytes (take (a_len a) b)) else None)"

definition save_arg :: "AG_DataSource \<Rightarrow> WEB_Argument \<Rightarrow> AG_DataSource option" where
  "save_arg ds a = do {
     ds \<leftarrow> AG_WriteUint8 (arg_type_code (a_type a)) ds;
     ds \<leftarrow> AG_WriteString (Some (a_contentType a)) ds;
     ds \<leftarrow> AG_WriteString (Some (a_key a)) ds;
     ds \<leftarrow> AG_WriteUint32 (u32 (a_len a)) ds;
     bs \<leftarrow> arg_bytes a;
     (rv, ds) \<leftarrow> AG_Write bs ds;
     Some ds
   }"

definition save_cookie :: "AG_DataSource \<Rightarrow> WEB_Cookie \<Rightarrow> AG_DataSource option" where
  "save_cookie ds ck = do {
     ds \<leftarrow> AG_WriteString (Some (ck_name ck)) ds;
     ds \<leftarrow> AG_WriteString (Some (ck_value ck)) ds;
     AG_WriteUint32 (ck_flags ck) ds
   }"

definition save_string :: "AG_DataSource \<Rightarrow> string \<Rightarrow> AG_DataSource option" where
  "save_string ds s = AG_WriteString (Some s) ds"

text \<open>\<open>buf\<close> is the buffer on the stack.  The result is what is sent to the worker.\<close>

definition WEB_QuerySave :: "byte \<Rightarrow> byte list \<Rightarrow> WEB_Query \<Rightarrow> byte list option" where
  "WEB_QuerySave j buf q = do {
     let ds = AG_OpenCore j (drop 4 buf) (WEB_QUERY_MAX - 4);
     ds \<leftarrow> AG_WriteUint8 (of_nat (q_method q)) ds;
     ds \<leftarrow> AG_WriteUint8 (ucast (q_flags q)) ds;
     ds \<leftarrow> fold_opt save_string ds [q_date q, q_userIP q, q_userHost q, q_userAgent q];
     ds \<leftarrow> AG_WriteUint8 (of_nat (length (q_acceptLangs q))) ds;
     ds \<leftarrow> fold_opt save_string ds (q_acceptLangs q);
     ds \<leftarrow> AG_WriteUint32 (u32 (q_nArgs q)) ds;
     ds \<leftarrow> fold_opt save_arg ds (q_args q);
     ds \<leftarrow> AG_WriteUint32 (u32 (q_nCookies q)) ds;
     ds \<leftarrow> fold_opt save_cookie ds (q_cookies q);
     ds \<leftarrow> AG_WriteString (Some (q_contentType q)) ds;
     ds \<leftarrow> AG_WriteUint32 (u32 (q_contentLength q)) ds;
     let len = u32 (nat (cs_offs ds));
     Some (take (unat len + 4) (to_bytes 4 len @ cs_data ds))
   }"

definition web_fail :: "string \<Rightarrow> WEB_Query \<Rightarrow> ((web_error + unit) \<times> WEB_Query) option" where
  "web_fail msg q = Some (Inl (Web_Fail msg), q)"

fun load_langs :: "nat \<Rightarrow> AG_DataSource \<Rightarrow> WEB_Query \<Rightarrow> (AG_DataSource \<times> WEB_Query) option" where
  "load_langs 0 ds q = Some (ds, q)"
| "load_langs (Suc n) ds q = do {
     (_, l, ds) \<leftarrow> copy_str WEB_LANG_CODE_MAX ds;
     load_langs n ds (q\<lparr>q_acceptLangs := q_acceptLangs q @ [l]\<rparr>)
   }"

text \<open>The boolean is \<^const>\<open>False\<close> when the routine fails, with the reason left out.\<close>

fun load_args :: "nat \<Rightarrow> AG_DataSource \<Rightarrow> WEB_Query \<Rightarrow> (bool \<times> AG_DataSource \<times> WEB_Query) option" where
  "load_args 0 ds q = Some (True, ds, q)"
| "load_args (Suc n) ds q = do {
     (t, ds) \<leftarrow> AG_ReadUint8 ds;
     (_, ctype, ds) \<leftarrow> copy_str 32 ds;
     (_, key, ds) \<leftarrow> copy_str WEB_ARG_KEY_MAX ds;
     (len, ds) \<leftarrow> AG_ReadUint32 ds;
     if unat len > WEB_ARG_LENGTH_MAX then Some (False, ds, q)
     else do {
       (rv, bs, ds) \<leftarrow> AG_Read (unat len) ds;
       if rv = -1 then Some (False, ds, q)
       else load_args n ds
         (q\<lparr>q_args := q_args q @ [\<lparr>a_type = arg_code_type t, a_key = key, a_value = Some (bytes_str bs), a_len = unat len,
                                     a_contentType = ctype\<rparr>],
            q_nArgs := q_nArgs q + 1\<rparr>)
     }
   }"

fun load_cookies :: "nat \<Rightarrow> AG_DataSource \<Rightarrow> WEB_Query \<Rightarrow> (bool \<times> AG_DataSource \<times> WEB_Query) option" where
  "load_cookies 0 ds q = Some (True, ds, q)"
| "load_cookies (Suc n) ds q = do {
     (_, name, ds) \<leftarrow> copy_str WEB_COOKIE_NAME_MAX ds;
     (_, value, ds) \<leftarrow> copy_str WEB_COOKIE_VALUE_MAX ds;
     (rv, flags, ds) \<leftarrow> AG_ReadUint32v ds;
     (case flags of
        None \<Rightarrow> Some (False, ds, q)
      | Some fl \<Rightarrow> load_cookies n ds
          (q\<lparr>q_cookies := q_cookies q @ [\<lparr>ck_name = name, ck_value = value, ck_expires = [], ck_domain = [], ck_path = [], ck_flags = fl\<rparr>],
             q_nCookies := q_nCookies q + 1\<rparr>))
   }"

definition WEB_QueryLoad :: "byte \<Rightarrow> WEB_Query \<Rightarrow> byte list \<Rightarrow> ((web_error + unit) \<times> WEB_Query) option" where
  "WEB_QueryLoad j q data = do {
     let ds = AG_OpenConstCore j data (length data);
     (meth, ds) \<leftarrow> AG_ReadUint8 ds;
     let q = q\<lparr>q_method := unat meth\<rparr>;
     if unat meth \<ge> WEB_METHOD_LAST then web_fail ''Bad method'' q
     else do {
       (flags, ds) \<leftarrow> AG_ReadUint8 ds;
       (_, date, ds) \<leftarrow> copy_str 32 ds;
       (_, ip, ds) \<leftarrow> copy_str 64 ds;
       (_, host, ds) \<leftarrow> copy_str 256 ds;
       (_, agent, ds) \<leftarrow> copy_str WEB_USERAGENT_MAX ds;
       let q = q\<lparr>q_flags := ucast flags, q_date := date, q_userIP := ip, q_userHost := host, q_userAgent := agent\<rparr>;
       (count, ds) \<leftarrow> AG_ReadUint8 ds;
       if unat count \<ge> WEB_LANGS_MAX then web_fail ''Too many languages'' q
       else do {
         (ds, q) \<leftarrow> load_langs (unat count) ds (q\<lparr>q_acceptLangs := []\<rparr>);
         (count, ds) \<leftarrow> AG_ReadUint32 ds;
         if unat count > WEB_MAX_ARGS then web_fail ''Too many args'' q
         else do {
           (ok, ds, q) \<leftarrow> load_args (unat count) ds q;
           if \<not> ok then web_fail [] q
           else do {
             (count, ds) \<leftarrow> AG_ReadUint32 ds;
             if unat count > WEB_MAX_COOKIES then web_fail ''Too many cookies'' q
             else do {
               (ok, ds, q) \<leftarrow> load_cookies (unat count) ds q;
               if \<not> ok then web_fail [] q
               else do {
                 (_, ctype, ds) \<leftarrow> copy_str 128 ds;
                 (clen, ds) \<leftarrow> AG_ReadUint32 ds;
                 Some (Inr (), q\<lparr>q_contentType := ctype, q_contentLength := unat clen\<rparr>)
               }
             }
           }
         }
       }
     }
   }"

section \<open>Forms with parts\<close>

text \<open>
  \<open>WEB_ReadFormData\<close>.  What is left of the buffer is a list that ends with the terminator; the characters that the routine
  overwrites lie before the place where it goes on.
\<close>

fun find_sub :: "string \<Rightarrow> string \<Rightarrow> nat option" where
  "find_sub p [] = (if p = [] then Some 0 else None)"
| "find_sub p (c # s) = (if take (length p) (c # s) = p then Some 0 else map_option Suc (find_sub p s))"

text \<open>The tokens of the header until one gives the name.\<close>

fun disposition_name :: "string list \<Rightarrow> string option" where
  "disposition_name [] = None"
| "disposition_name (t # ts) = (let u = dropWhile isspace t in
     if take 6 u = ''name='' @ [DQ] \<and> DQ \<in> set (drop 6 u) then Some (takeWhile (\<lambda>c. c \<noteq> DQ) (drop 6 u))
     else disposition_name ts)"

datatype form_part = Form_End | Form_Error | Form_Part WEB_Argument string

text \<open>The type of the part, without one space before it, and the place of its data.\<close>

definition header_text :: "string \<Rightarrow> string" where
  "header_text s = (case s of c # t \<Rightarrow> if isspace c then t else s | [] \<Rightarrow> [])"

definition part_type :: "string \<Rightarrow> (string \<times> string) option option" where
  "part_type after =
     (if take 1 after = ''C'' \<and> has_prefix after ''Content-Type:'' then
        (case strchr_at (drop 13 after) CR 13 of
           None \<Rightarrow> None
         | Some None \<Rightarrow> Some (Some ([], dropWhile isspace after))
         | Some (Some tEnd) \<Rightarrow>
             (case strchr_at after LF 0 of
                None \<Rightarrow> None
              | Some None \<Rightarrow> Some None
              | Some (Some cEnd) \<Rightarrow>
                  if cEnd + 3 \<ge> length after then None
                  else Some (Some (str_cpy 32 (header_text (take (tEnd - 13) (drop 13 after))), drop (cEnd + 3) after))))
      else Some (Some ([], dropWhile isspace after)))"

text \<open>The data up to the next boundary, without the end of line before it.\<close>

definition part_data :: "string \<Rightarrow> string \<Rightarrow> string \<Rightarrow> string \<Rightarrow> form_part" where
  "part_data boundary name ctype cStart = (case find_sub boundary (butlast cStart) of
     None \<Rightarrow> Form_Error
   | Some lenPart \<Rightarrow>
       if lenPart + 1 > WEB_ARG_LENGTH_MAX then Form_Error
       else
         let v = take lenPart cStart;
             crlf = (lenPart \<ge> 2 \<and> drop (lenPart - 2) v = [CR, LF]);
             w = (if crlf then take (lenPart - 2) v else v)
         in Form_Part \<lparr>a_type = WEB_POST_ARGUMENT, a_key = str_cpy WEB_ARG_KEY_MAX name, a_value = Some (w @ [NUL]),
              a_len = length w + 1, a_contentType = ctype\<rparr> (drop lenPart cStart))"

definition form_part_at :: "string \<Rightarrow> string \<Rightarrow> form_part option" where
  "form_part_at boundary c0 = (let c = drop (length boundary + 2) c0 in
     case strchr_at c LF 0 of
       None \<Rightarrow> None
     | Some None \<Rightarrow> Some Form_Error
     | Some (Some k) \<Rightarrow>
         if \<not> has_prefix (take k c) ''Content-Disposition:'' then Some Form_End
         else (case disposition_name (split_on {CHR '';''} (take k c)) of
           None \<Rightarrow> Some Form_End
         | Some name \<Rightarrow>
             (case part_type (drop (k + 1) c) of
                None \<Rightarrow> None
              | Some None \<Rightarrow> Some Form_Error
              | Some (Some (ctype, cStart)) \<Rightarrow> Some (part_data boundary name ctype cStart))))"

lemma strchr_at_bound: "strchr_at xs c p = Some (Some i) \<Longrightarrow> p \<le> i \<and> i < p + length xs"
  by (induction xs c p rule: strchr_at.induct) (auto split: if_splits)

lemma length_dropWhile_less: "length (dropWhile P xs) \<le> length xs"
  by (induction xs) auto

lemma part_type_length: "part_type after = Some (Some (t, r)) \<Longrightarrow> length r \<le> length after"
  by (auto simp: part_type_def length_dropWhile_less split: if_splits option.splits)

lemma part_data_rest: "part_data b n t s = Form_Part a r \<Longrightarrow> length r \<le> length s"
  by (auto simp: part_data_def Let_def split: option.splits if_splits)

lemma form_part_at_length:
  assumes "form_part_at b c = Some (Form_Part a r)"
  shows "length r < length c"
proof -
  let ?c = "drop (length b + 2) c"
  obtain k where k: "strchr_at ?c LF 0 = Some (Some k)"
    using assms unfolding form_part_at_def Let_def by (auto split: option.splits)
  obtain n t s where "part_type (drop (k + 1) ?c) = Some (Some (t, s))" "part_data b n t s = Form_Part a r"
    using assms k unfolding form_part_at_def Let_def by (auto split: option.splits if_splits)
  then have "length r \<le> length (drop (k + 1) ?c)" using part_type_length part_data_rest by (meson le_trans)
  moreover have "k < length ?c" using strchr_at_bound [OF k] by simp
  ultimately show ?thesis by simp
qed

text \<open>The result of the loop: was it left without an error?\<close>

function form_parts :: "string \<Rightarrow> nat \<Rightarrow> string \<Rightarrow> WEB_Query \<Rightarrow> (bool \<times> WEB_Query) option" where
  "form_parts boundary partIndex c q = (case c of
     [] \<Rightarrow> None
   | x # xs \<Rightarrow>
       if x = NUL then Some (True, q)
       else if x \<noteq> CHR ''-'' \<or> (partIndex = 0 \<and> take (length boundary) c \<noteq> boundary) then form_parts boundary partIndex xs q
       else (case form_part_at boundary c of
          None \<Rightarrow> None
        | Some Form_End \<Rightarrow> Some (True, q)
        | Some Form_Error \<Rightarrow> Some (False, q)
        | Some (Form_Part a r) \<Rightarrow> form_parts boundary (partIndex + 1) r (q\<lparr>q_args := q_args q @ [a], q_nArgs := q_nArgs q + 1\<rparr>)))"
  by pat_completeness auto
termination
  by (relation "measure (\<lambda>(b, i, c, q). length c)") (auto dest: form_part_at_length)

declare form_parts.simps [simp del]

definition WEB_ReadFormData :: "sys_read list \<Rightarrow> WEB_Query \<Rightarrow> (bool \<times> WEB_Query) option" where
  "WEB_ReadFormData rs q = (case find_sub ''boundary='' (q_contentType q) of
     None \<Rightarrow> Some (False, q)
   | Some i \<Rightarrow>
       let b = drop (i + 9) (q_contentType q) in
       if b = [] \<or> length b + 2 \<ge> 73 then Some (False, q)
       else do {
         (data, ok) \<leftarrow> WEB_SYS_Read rs (q_contentLength q);
         if \<not> ok then Some (False, q) else form_parts (''--'' @ b) 0 (data @ [NUL]) q
       })"

section \<open>Sessions\<close>

definition WEB_SESSION_DATA_MAGIC :: "32 word" where "WEB_SESSION_DATA_MAGIC = 0x50657243"
definition WEB_SESSION_VARIABLES_MAX :: nat where "WEB_SESSION_VARIABLES_MAX = 100"

text \<open>\<open>init\<close>, \<open>load\<close> and \<open>save\<close> are the operations of the session class, if it has them.\<close>

definition WEB_SessionInit :: "(WEB_Session \<Rightarrow> WEB_Session) option \<Rightarrow> WEB_Session" where
  "WEB_SessionInit init = (let S = \<lparr>S_id = [], S_vars = [], S_nVars = 0, S_nEvents = 0\<rparr> in
     case init of Some f \<Rightarrow> f S | None \<Rightarrow> S)"

definition WEB_GetSV :: "WEB_Session \<Rightarrow> string \<Rightarrow> string" where
  "WEB_GetSV S key = (case find (\<lambda>v. sv_key v = key) (S_vars S) of Some v \<Rightarrow> sv_value v | None \<Rightarrow> [])"

definition WEB_SetSV_S :: "WEB_Session \<Rightarrow> string \<Rightarrow> string \<Rightarrow> WEB_Session" where
  "WEB_SetSV_S S key s = (let i = first_idx (\<lambda>v. sv_key v = key) (S_vars S); val = str_cpy WEB_SESSION_VAR_VALUE_MAX s in
     if i = length (S_vars S) then
       S\<lparr>S_vars := S_vars S @ [\<lparr>sv_key = str_cpy WEB_SESSION_VAR_KEY_MAX key, sv_value = val\<rparr>], S_nVars := S_nVars S + 1\<rparr>
     else S\<lparr>S_vars := (S_vars S)[i := (S_vars S ! i)\<lparr>sv_value := val\<rparr>]\<rparr>)"

text \<open>For the text that the format produces.\<close>

definition WEB_SetSV :: "WEB_Session \<Rightarrow> string \<Rightarrow> string \<Rightarrow> WEB_Session" where
  "WEB_SetSV S key txt = (let i = first_idx (\<lambda>v. sv_key v = key) (S_vars S); val = str_cpy WEB_SESSION_VAR_VALUE_MAX txt in
     if i = length (S_vars S) then
       S\<lparr>S_vars := S_vars S @ [\<lparr>sv_key = str_cpy WEB_SESSION_VAR_KEY_MAX key, sv_value = val\<rparr>], S_nVars := S_nVars S + 1\<rparr>
     else S\<lparr>S_vars := (S_vars S)[i := (S_vars S ! i)\<lparr>sv_value := val\<rparr>]\<rparr>)"

fun load_svs :: "nat \<Rightarrow> AG_DataSource \<Rightarrow> WEB_Session \<Rightarrow> (AG_DataSource \<times> WEB_Session) option" where
  "load_svs 0 ds S = Some (ds, S)"
| "load_svs (Suc n) ds S = do {
     (_, key, ds) \<leftarrow> copy_str WEB_SESSION_VAR_KEY_MAX ds;
     (_, value, ds) \<leftarrow> copy_str WEB_SESSION_VAR_VALUE_MAX ds;
     load_svs n ds (S\<lparr>S_vars := S_vars S @ [\<lparr>sv_key = key, sv_value = value\<rparr>], S_nVars := S_nVars S + 1\<rparr>)
   }"

type_synonym session_load = "WEB_Session \<Rightarrow> AG_DataSource \<Rightarrow> (bool \<times> WEB_Session \<times> AG_DataSource) option"
type_synonym session_save = "WEB_Session \<Rightarrow> AG_DataSource \<Rightarrow> AG_DataSource option"

definition WEB_SessionLoad :: "byte \<Rightarrow> session_load option \<Rightarrow> (string \<Rightarrow> char list option) \<Rightarrow> WEB_Session \<Rightarrow> string \<Rightarrow> (bool \<times> WEB_Session) option" where
  "WEB_SessionLoad j load files S sid = (
     let S = S\<lparr>S_id := str_cpy WEB_SESSID_MAX sid\<rparr> in
     case AG_OpenFile_rb j (\<lambda>p. map_option str_bytes (files p)) (session_path sid []) of
       None \<Rightarrow> Some (False, S)
     | Some ds \<Rightarrow> do {
         (magic, ds) \<leftarrow> AG_ReadUint32 ds;
         if magic \<noteq> WEB_SESSION_DATA_MAGIC then Some (False, S)
         else do {
           (count, ds) \<leftarrow> AG_ReadUint32 ds;
           if count = 0 \<or> unat count > WEB_SESSION_VARIABLES_MAX then Some (False, S)
           else do {
             (ds, S) \<leftarrow> load_svs (unat count) ds (S\<lparr>S_nVars := 0\<rparr>);
             (n, ds) \<leftarrow> AG_ReadUint32 ds;
             let S = S\<lparr>S_nEvents := unat n\<rparr>;
             case load of
               None \<Rightarrow> Some (True, S)
             | Some f \<Rightarrow> do { (ok, S, ds) \<leftarrow> f S ds; Some (ok, S) }
           }
         }
       })"

definition save_sv :: "AG_DataSource \<Rightarrow> WEB_SessionVar \<Rightarrow> AG_DataSource option" where
  "save_sv ds v = do { ds \<leftarrow> AG_WriteString (Some (sv_key v)) ds; AG_WriteString (Some (sv_value v)) ds }"

text \<open>The contents that the file has afterwards; \<open>can_open\<close> says whether the file can be opened for writing.\<close>

definition WEB_SessionSave :: "byte \<Rightarrow> session_save option \<Rightarrow> (string \<Rightarrow> bool) \<Rightarrow> (string \<Rightarrow> char list option) \<Rightarrow> WEB_Session \<Rightarrow>
    (bool \<times> (string \<Rightarrow> char list option)) option" where
  "WEB_SessionSave j save can_open files S = (let path = session_path (S_id S) [] in
     case AG_OpenFile_wb j can_open path of
       None \<Rightarrow> Some (False, files)
     | Some ds \<Rightarrow> do {
         ds \<leftarrow> AG_WriteUint32 WEB_SESSION_DATA_MAGIC ds;
         ds \<leftarrow> AG_WriteUint32 (u32 (S_nVars S)) ds;
         ds \<leftarrow> fold_opt save_sv ds (S_vars S);
         ds \<leftarrow> AG_WriteUint32 (u32 (S_nEvents S)) ds;
         ds \<leftarrow> (case save of None \<Rightarrow> Some ds | Some f \<Rightarrow> f S ds);
         Some (True, files(path := Some (bytes_str (cs_data ds))))
       })"

text \<open>
  \<open>WEB_SetSV_ALL\<close>: for the names that \<open>readdir\<close> gives for the directory of the sessions.
\<close>

definition set_sv_in :: "byte \<Rightarrow> (WEB_Session \<Rightarrow> WEB_Session) option \<Rightarrow> session_load option \<Rightarrow> session_save option \<Rightarrow> (string \<Rightarrow> bool) \<Rightarrow>
    string \<Rightarrow> string \<Rightarrow> string \<Rightarrow> (string \<Rightarrow> char list option) \<Rightarrow> string \<Rightarrow> (string \<Rightarrow> char list option) option" where
  "set_sv_in j init load save can_open user key val files name =
     (if CHR ''.'' \<in> set name then Some files
      else do {
        (ok, S) \<leftarrow> WEB_SessionLoad j load files (WEB_SessionInit init) name;
        if \<not> ok \<or> WEB_GetSV S ''user'' \<noteq> user then Some files
        else do {
          (ok, files) \<leftarrow> WEB_SessionSave j save can_open files (WEB_SetSV_S S key val);
          Some files
        }
      })"

definition WEB_SetSV_ALL :: "byte \<Rightarrow> (WEB_Session \<Rightarrow> WEB_Session) option \<Rightarrow> session_load option \<Rightarrow> session_save option \<Rightarrow> (string \<Rightarrow> bool) \<Rightarrow>
    string list \<Rightarrow> string \<Rightarrow> string \<Rightarrow> string \<Rightarrow> (string \<Rightarrow> char list option) \<Rightarrow> (string \<Rightarrow> char list option) option" where
  "WEB_SetSV_ALL j init load save can_open names user key val files =
     fold_opt (set_sv_in j init load save can_open user key val) files names"

end
