(* ===== verification/WebLaws.thy ===== *)
theory WebLaws
  imports WebSave
begin

unbundle bit_operations_syntax

text \<open>
  Laws of the requests and of the headers of the answer: the escapes of URLs and forms, the numbers of
  arguments, the ranges, and the buffer of the headers, which is a list of lines (\<open>headers_rep\<close>) on which
  \<open>WEB_SetHeaderS\<close> is an update (\<open>set_hdr\<close>).
\<close>

section \<open>A query\<close>

definition fresh_query :: WEB_Query where
  "fresh_query = \<lparr>q_method = 0, q_flags = 0, q_compressLvl = 6, q_acceptLangs = [], q_args = [], q_nArgs = 0, q_cookies = [],
     q_nCookies = 0, q_contentType = [], q_contentLength = 0, q_rangeFrom = 0, q_rangeTo = 0, q_userIP = [], q_userHost = [],
     q_userAgent = [], q_code = [], q_head = ''HTTP/1.0 200 OK'' @ [CR, LF] @ ''Date: today'' @ [CR, LF] @ replicate 994 NUL,
     q_headLine = [17, 17], q_headLen = 30, q_data = [], q_dataSize = 0, q_lang = ''en'', q_date = []\<rparr>"

section \<open>URLs\<close>

lemma ascii_less: "ascii c < 256" unfolding ascii_def by (rule nat_of_char_less_256)

lemma char_of_ascii [simp]: "char_of (ascii c) = c" by (simp add: ascii_def)

lemma ascii_zero: "ascii c = 0 \<longleftrightarrow> c = NUL"
proof
  assume "ascii c = 0"
  then have "c = char_of (0 :: nat)" using char_of_ascii [of c] by simp
  also have "char_of (0 :: nat) = NUL" by code_simp
  finally show "c = NUL" .
qed (simp add: ascii_def)

lemma below_16: "n < 16 \<Longrightarrow> n \<in> {0, 1, 2, 3, 4, 5, 6, 7, 8, 9, 10, 11, 12, 13, 14, 15}" for n :: nat unfolding insert_iff empty_iff by arith

lemma hex_digits:
  assumes "n < 16"
  shows "isxdigit (hex_digit n)" and "hex_value (hex_digit n) = n" and "hex_digit n \<noteq> NUL"
proof -
  have "\<forall>n \<in> {0, 1, 2, 3, 4, 5, 6, 7, 8, 9, 10, 11, 12, 13, 14, 15}. isxdigit (hex_digit n) \<and> hex_value (hex_digit n) = n \<and> hex_digit n \<noteq> NUL"
    by code_simp
  then have "isxdigit (hex_digit n) \<and> hex_value (hex_digit n) = n \<and> hex_digit n \<noteq> NUL"
    using below_16 [OF assms] by (rule bspec)
  then show "isxdigit (hex_digit n)" and "hex_value (hex_digit n) = n" and "hex_digit n \<noteq> NUL" by simp_all
qed

definition esc_char :: "char \<Rightarrow> string" where
  "esc_char c = (if url_escaped c then [CHR ''%'', hex_digit (ascii c div 16), hex_digit (ascii c mod 16)] else [c])"

definition esc :: "string \<Rightarrow> string" where
  "esc s = concat (map esc_char s)"

lemma wr_end: "wr (xs @ y # ys) (length xs) z = Some (xs @ z # ys)"
  by (simp add: wr_def)

lemma escape_loop_ok:
  "dst = xs @ ys \<Longrightarrow> length s < length ys \<Longrightarrow>
   \<exists>r. escape_loop True s dst (length xs) = Some (xs @ esc s @ r, length xs + length (esc s)) \<and> r \<noteq> []"
proof (induction s arbitrary: dst xs ys)
  case Nil
  then show ?case by (auto simp: esc_def)
next
  case (Cons c s)
  show ?case
  proof (cases "url_escaped c")
    case True
    let ?h = "hex_digit (ascii c div 16)" and ?l = "hex_digit (ascii c mod 16)"
    obtain a b d zs where ys: "ys @ replicate 3 NUL = a # b # d # zs" and len: "length s < length zs"
    proof -
      have "3 \<le> length (ys @ replicate 3 NUL)" by simp
      then obtain a b d zs where e: "ys @ replicate 3 NUL = a # b # d # zs"
        by (auto simp only: Suc_le_length_iff numeral_3_eq_3)
      have "length (ys @ replicate 3 NUL) = length (a # b # d # zs)" by (simp only: e)
      then have "length s < length zs" using Cons.prems(2) by simp
      with e show thesis by (rule that)
    qed
    have w: "wr (xs @ a # b # d # zs) (length xs) (CHR ''%'') = Some (xs @ CHR ''%'' # b # d # zs)"
      "wr (xs @ CHR ''%'' # b # d # zs) (length xs + 1) ?h = Some (xs @ CHR ''%'' # ?h # d # zs)"
      "wr (xs @ CHR ''%'' # ?h # d # zs) (length xs + 2) ?l = Some (xs @ CHR ''%'' # ?h # ?l # zs)"
      by (simp_all add: wr_def list_update_append)
    let ?xs = "xs @ [CHR ''%'', ?h, ?l]"
    obtain r where "escape_loop True s (?xs @ zs) (length ?xs) = Some (?xs @ esc s @ r, length ?xs + length (esc s))" "r \<noteq> []"
      using Cons.IH [OF refl len, of ?xs] by blast
    moreover have "?xs @ zs = xs @ CHR ''%'' # ?h # ?l # zs" "length ?xs = length xs + 3"
      "?xs @ esc s @ r = xs @ esc (c # s) @ r" "length ?xs + length (esc s) = length xs + length (esc (c # s))"
      using True by (simp_all add: esc_def esc_char_def)
    ultimately have "escape_loop True s (xs @ CHR ''%'' # ?h # ?l # zs) (length xs + 3) = Some (xs @ esc (c # s) @ r, length xs + length (esc (c # s)))"
      by (simp only:)
    moreover have "dst @ replicate 3 NUL = xs @ a # b # d # zs" using Cons.prems(1) ys by simp
    ultimately show ?thesis using True w \<open>r \<noteq> []\<close> by (auto simp: Let_def)
  next
    case False
    obtain y zs where ys: "ys = y # zs" using Cons.prems(2) by (cases ys) auto
    obtain r where "escape_loop True s ((xs @ [c]) @ zs) (length (xs @ [c])) = Some ((xs @ [c]) @ esc s @ r, length (xs @ [c]) + length (esc s))" "r \<noteq> []"
      using Cons.IH [OF refl, of zs "xs @ [c]"] Cons.prems(2) ys by auto
    then have "escape_loop True s (xs @ c # zs) (length xs + 1) = Some (xs @ esc (c # s) @ r, length xs + length (esc (c # s)))"
      using False by (simp add: esc_def esc_char_def)
    moreover have "wr dst (length xs) c = Some (xs @ c # zs)" using Cons.prems(1) ys wr_end by simp
    ultimately show ?thesis using False \<open>r \<noteq> []\<close> by auto
  qed
qed

lemma WEB_EscapeURL_ok: "\<exists>r. WEB_EscapeURL True s = Some (esc s @ NUL # r)"
proof -
  obtain r where r: "escape_loop True s (replicate (length s + 1) NUL) 0 = Some (esc s @ r, length (esc s))" "r \<noteq> []"
    using escape_loop_ok [of "replicate (length s + 1) NUL" "[]" "replicate (length s + 1) NUL" s] by auto
  then obtain y r' where "r = y # r'" by (cases r) auto
  with r show ?thesis by (simp add: WEB_EscapeURL_def wr_end)
qed

lemma percent_escaped: "url_escaped (CHR ''%'')" by code_simp

lemma unescape_esc_char:
  assumes "c \<noteq> NUL"
  shows "unescape (esc_char c @ t) = unplus c # unescape t"
proof (cases "url_escaped c")
  case True
  have d: "ascii c div 16 < 16" "ascii c mod 16 < 16" using ascii_less [of c] by auto
  have "\<not> url_escaped (CHR ''+'')" by code_simp
  with True have "c \<noteq> CHR ''+''" by blast
  then have "unplus c = c" by (simp add: unplus_def)
  moreover have "16 * (ascii c div 16) + ascii c mod 16 = ascii c" by simp
  ultimately show ?thesis using True hex_digits [OF d(1)] hex_digits [OF d(2)] assms
    by (simp add: esc_char_def ascii_zero)
next
  case False
  then have c: "c \<noteq> CHR ''%''" using percent_escaped by auto
  show ?thesis
  proof (cases t rule: unescape.cases)
    case (1 x a b sp)
    then show ?thesis using False c by (simp add: esc_char_def)
  qed (use False c in \<open>simp_all add: esc_char_def\<close>)
qed

lemma unescape_esc: "nonul s \<Longrightarrow> unescape (esc s) = map unplus s"
proof (induction s)
  case (Cons c s)
  then show ?case using unescape_esc_char [of c "esc s"] by (simp add: esc_def)
qed (simp add: esc_def)

lemma esc_char_nonul: "c \<noteq> NUL \<Longrightarrow> nonul (esc_char c)"
  using hex_digits(3) ascii_less [of c] by (simp add: esc_char_def)

lemma esc_nonul: "nonul s \<Longrightarrow> nonul (esc s)"
  by (induction s) (simp_all add: esc_def esc_char_nonul)

lemma escape_loop_moved:
  "dst = xs @ ys \<Longrightarrow> length s < length ys \<Longrightarrow> escape_loop False s dst (length xs) = None \<longleftrightarrow> (\<exists>c \<in> set s. url_escaped c)"
proof (induction s arbitrary: dst xs ys)
  case (Cons c s)
  obtain y zs where ys: "ys = y # zs" using Cons.prems(2) by (cases ys) auto
  have "escape_loop False s (xs @ c # zs) (length xs + 1) = None \<longleftrightarrow> (\<exists>c \<in> set s. url_escaped c)"
    using Cons.IH [of "xs @ c # zs" "xs @ [c]" zs] Cons.prems(2) ys by simp
  then show ?case using Cons.prems(1) ys by (simp add: wr_end)
qed simp

lemma escape_room:
  assumes "escape_loop False s dst dp = Some (d, p)" and "dp + length s < length dst"
  shows "p < length d"
  using assms
proof (induction s arbitrary: dst dp)
  case (Cons c s)
  then show ?case by (auto simp: bind_eq_Some_conv wr_Some_iff split: if_splits)
qed simp

text \<open>
  C18: escaping a string gives a buffer that holds a string, which unescapes to the string with every plus sign
  turned into a space; and when \<open>realloc\<close> moves the block the routine goes through a dangling pointer exactly
  if some character has to be escaped.
\<close>

theorem WEB_URL_roundtrip:
  assumes "nonul s"
  shows "(\<exists>b. WEB_EscapeURL True s = Some b \<and> terminated b \<and> list_all (\<lambda>c. isgraph c) (cstr b) \<and>
              WEB_UnescapeURL (cstr b) = map (\<lambda>c. if c = CHR ''+'' then CHR '' '' else c) s) \<and>
         (WEB_EscapeURL False s = None \<longleftrightarrow> (\<exists>c \<in> set s. url_escaped c))"
proof -
  obtain r where r: "WEB_EscapeURL True s = Some (esc s @ NUL # r)" using WEB_EscapeURL_ok by blast
  have "list_all isgraph (esc_char c)" for c
  proof (cases "url_escaped c")
    case True
    have "\<forall>n \<in> {0, 1, 2, 3, 4, 5, 6, 7, 8, 9, 10, 11, 12, 13, 14, 15}. isgraph (hex_digit n)" by code_simp
    then have "isgraph (hex_digit n)" if "n < 16" for n using below_16 [OF that] by (rule bspec)
    moreover have "isgraph (CHR ''%'')" by code_simp
    ultimately show ?thesis using True ascii_less [of c] by (simp add: esc_char_def)
  next
    case False
    then show ?thesis by (simp add: esc_char_def url_escaped_def)
  qed
  then have "list_all isgraph (esc s)" by (induction s) (simp_all add: esc_def)
  moreover have "map unplus s = map (\<lambda>c. if c = CHR ''+'' then CHR '' '' else c) s" by (simp add: unplus_def)
  moreover have "WEB_EscapeURL False s = None \<longleftrightarrow> (\<exists>c \<in> set s. url_escaped c)"
  proof -
    have "escape_loop False s (replicate (length s + 1) NUL) 0 = None \<longleftrightarrow> (\<exists>c \<in> set s. url_escaped c)"
      using escape_loop_moved [of "replicate (length s + 1) NUL" "[]" "replicate (length s + 1) NUL" s] by simp
    then show ?thesis using escape_room [of s "replicate (length s + 1) NUL" 0]
      by (cases "escape_loop False s (replicate (length s + 1) NUL) 0") (auto simp: WEB_EscapeURL_def wr_def)
  qed
  ultimately show ?thesis
    using r unescape_esc [OF assms] esc_nonul [OF assms] by (simp add: WEB_UnescapeURL_def)
qed

theorem WEB_URL_roundtrip_witness:
  "(\<exists>b. WEB_EscapeURL True ''a b%'' = Some b \<and> terminated b \<and> list_all (\<lambda>c. isgraph c) (cstr b) \<and>
        WEB_UnescapeURL (cstr b) = map (\<lambda>c. if c = CHR ''+'' then CHR '' '' else c) ''a b%'') \<and>
   (WEB_EscapeURL False ''a b%'' = None \<longleftrightarrow> (\<exists>c \<in> set ''a b%''. url_escaped c)) \<and>
   WEB_EscapeURL True ''a b%'' \<noteq> Some ''a b%''"
proof -
  have "WEB_EscapeURL True ''a b%'' \<noteq> Some ''a b%''" by code_simp
  then show ?thesis using WEB_URL_roundtrip [of "''a b%''"] by simp
qed

section \<open>Forms\<close>

definition form_pair :: "string \<times> string \<Rightarrow> string" where
  "form_pair kv = fst kv @ ''='' @ esc (snd kv)"

fun form_text :: "(string \<times> string) list \<Rightarrow> string" where
  "form_text [] = []"
| "form_text [kv] = form_pair kv"
| "form_text (kv # kvs) = form_pair kv @ ''&'' @ form_text kvs"

definition pair_ok :: "string \<times> string \<Rightarrow> bool" where
  "pair_ok kv \<longleftrightarrow> fst kv \<noteq> [] \<and> length (fst kv) < WEB_ARG_KEY_MAX \<and> set (fst kv) \<inter> set ''&='' = {} \<and>
     nonul (snd kv) \<and> set (snd kv) \<inter> set ''&='' = {} \<and> length (snd kv) < WEB_ARG_LENGTH_MAX"

definition pair_arg :: "web_argument_type \<Rightarrow> string \<times> string \<Rightarrow> WEB_Argument" where
  "pair_arg t kv = \<lparr>a_type = t, a_key = fst kv, a_value = Some (map unplus (snd kv) @ [NUL]), a_len = length (snd kv) + 1,
     a_contentType = []\<rparr>"

lemma esc_no_delims: "set s \<inter> set ''&='' = {} \<Longrightarrow> set (esc s) \<inter> set ''&='' = {}"
proof (induction s)
  case (Cons c s)
  have "\<forall>n \<in> {0, 1, 2, 3, 4, 5, 6, 7, 8, 9, 10, 11, 12, 13, 14, 15}. hex_digit n \<notin> set ''&=''" by code_simp
  then have h: "hex_digit n \<notin> set ''&=''" if "n < 16" for n using below_16 [OF that] by (rule bspec)
  have "ascii c div 16 < 16" "ascii c mod 16 < 16" using ascii_less [of c] by auto
  then have "hex_digit (ascii c div 16) \<notin> set ''&=''" "hex_digit (ascii c mod 16) \<notin> set ''&=''" "CHR ''%'' \<notin> set ''&=''"
    using h by (blast, blast, simp)
  then have "set (esc_char c) \<inter> set ''&='' = {}" using Cons.prems unfolding esc_char_def by (simp add: eq_commute)
  then show ?case using Cons by (auto simp: esc_def)
qed (simp add: esc_def)

lemma form_arg_ok:
  assumes "pair_ok kv"
  shows "form_arg t (form_pair kv) q = Some (Inr (), q\<lparr>q_args := q_args q @ [pair_arg t kv], q_nArgs := q_nArgs q + 1\<rparr>)"
proof -
  have k: "CHR ''='' \<notin> set (fst kv)" "CHR ''='' \<notin> set (esc (snd kv))"
    using assms esc_no_delims [of "snd kv"] by (auto simp: pair_ok_def)
  then have "split_on {CHR ''=''} (form_pair kv) = [fst kv, esc (snd kv)]"
    by (simp add: form_pair_def split_on_delim split_on_token)
  then show ?thesis using assms unescape_esc [of "snd kv"]
    by (simp add: form_arg_def pair_ok_def pair_arg_def WEB_UnescapeURL_def)
qed

lemma form_args_ok:
  "list_all pair_ok kvs \<Longrightarrow>
   form_args t (map form_pair kvs) q = Some (Inr (), q\<lparr>q_args := q_args q @ map (pair_arg t) kvs, q_nArgs := q_nArgs q + length kvs\<rparr>)"
  by (induction kvs arbitrary: q) (simp_all add: form_arg_ok)

lemma split_form:
  assumes "list_all pair_ok kvs" and "kvs \<noteq> []"
  shows "split_on {CHR ''&''} (form_text kvs) = map form_pair kvs"
  using assms
proof (induction kvs rule: form_text.induct)
  case (2 kv)
  then have "CHR ''&'' \<notin> set (form_pair kv)" using esc_no_delims [of "snd kv"] by (auto simp: pair_ok_def form_pair_def)
  then show ?case by (simp add: split_on_token)
next
  case (3 kv kv' kvs)
  then have "CHR ''&'' \<notin> set (form_pair kv)" using esc_no_delims [of "snd kv"] by (auto simp: pair_ok_def form_pair_def)
  then show ?case using 3 by (simp add: split_on_delim)
qed simp

text \<open>
  A form of at most 256 pairs of a name and a value, the values escaped, is parsed to these arguments, in order
  and after those that are there; a plus sign of a value becomes a space.
\<close>

theorem WEB_ParseFormUrlEncoded_form:
  assumes "kvs \<noteq> []" and "length kvs \<le> WEB_MAX_ARGS" and "list_all pair_ok kvs"
  shows "WEB_ParseFormUrlEncoded q (form_text kvs) t =
    Some (Inr (), q\<lparr>q_args := q_args q @ map (pair_arg t) kvs, q_nArgs := q_nArgs q + length kvs\<rparr>)"
  using assms by (simp add: WEB_ParseFormUrlEncoded_def split_form form_args_ok)

theorem WEB_ParseFormUrlEncoded_form_witness:
  "WEB_ParseFormUrlEncoded fresh_query ''name=J%20D&x=1+1'' WEB_GET_ARGUMENT =
     Some (Inr (), fresh_query\<lparr>q_args := q_args fresh_query @ map (pair_arg WEB_GET_ARGUMENT) [(''name'', ''J D''), (''x'', ''1+1'')],
                            q_nArgs := q_nArgs fresh_query + length [(''name'', ''J D''), (''x'', ''1+1'')]\<rparr>)"
proof -
  have "form_text [(''name'', ''J D''), (''x'', ''1+1'')] = ''name=J%20D&x=1+1''" by code_simp
  moreover have "list_all pair_ok [(''name'', ''J D''), (''x'', ''1+1'')]" by (simp add: pair_ok_def nonul_def WEB_ARG_KEY_MAX_def WEB_ARG_LENGTH_MAX_def)
  ultimately show ?thesis
    using WEB_ParseFormUrlEncoded_form [of "[(''name'', ''J D''), (''x'', ''1+1'')]" fresh_query WEB_GET_ARGUMENT]
    by (simp add: WEB_MAX_ARGS_def)
qed

section \<open>The buffer of the headers\<close>

lemma blit_ok: "b = xs @ ys @ zs \<Longrightarrow> length ys = length s \<Longrightarrow> off = length xs \<Longrightarrow> blit b off s = Some (xs @ s @ zs)"
  by (simp add: blit_def)

lemma memmove_same: "b = xs @ ys @ zs \<Longrightarrow> length xs = p \<Longrightarrow> length ys = n \<Longrightarrow> memmove b p p n = Some b"
  by (auto simp: memmove_def blit_def)

lemma strchrnul_ok: "c \<notin> set s \<Longrightarrow> nonul s \<Longrightarrow> strchrnul (s @ c # r) c = Some (length s)"
  by (induction s) auto

lemma strchr_at_ok: "c \<notin> set s \<Longrightarrow> nonul s \<Longrightarrow> strchr_at (s @ c # r) c p = Some (Some (p + length s))"
  by (induction s arbitrary: p) auto

lemma header_lines_ok: "NUL \<in> set cs \<Longrightarrow> header_lines cs p ls \<noteq> None"
proof (induction cs arbitrary: p ls)
  case (Cons c cs)
  then have "c = NUL \<or> (\<forall>p ls. header_lines cs p ls \<noteq> None) \<and> cs \<noteq> []" by (cases "c = NUL") (auto simp del: header_lines.simps)
  then show ?case unfolding header_lines.simps(2) [of c cs] by (auto simp del: header_lines.simps split: list.splits)
qed simp

lemma size_diff_ge: "b \<le> a \<Longrightarrow> a < 2 ^ 64 \<Longrightarrow> size_diff a b = a - b"
proof -
  assume "b \<le> a" and "a < 2 ^ 64"
  then have "(int a - int b) mod 2 ^ 64 = int a - int b" by (intro mod_pos_pos_trivial) auto
  then show ?thesis using \<open>b \<le> a\<close> by (simp add: size_diff_def)
qed

lemma size_add_small: "a + b < 2 ^ 64 \<Longrightarrow> size_add a b = a + b"
  by (simp add: size_add_def)

lemma WriteHeaders_ok:
  assumes "q_headLen q + 2 < length (q_head q)"
  shows "WEB_WriteHeaders q = Some (take (q_headLen q) (q_head q) @ [CR, LF], q\<lparr>q_head := (q_head q)[q_headLen q := CR, q_headLen q + 1 := LF, q_headLen q + 2 := NUL]\<rparr>)"
proof -
  have "take (n + 2) (b[n := CR, n + 1 := LF, n + 2 := NUL]) = take n b @ [CR, LF]" if "n + 2 < length b" for n and b :: "char list"
  proof -
    have "3 \<le> length (drop n b)" using that by simp
    then obtain x y z r where "drop n b = x # y # z # r" by (auto simp only: Suc_le_length_iff numeral_3_eq_3)
    then have b: "b = take n b @ x # y # z # r" by (metis append_take_drop_id)
    have l: "length (take n b) = n" using that by simp
    define xs where "xs = take n b"
    have "length xs = n" using l by (simp add: xs_def)
    then show ?thesis unfolding b [folded xs_def] by (simp add: list_update_append)
  qed
  then show ?thesis using assms by (simp add: WEB_WriteHeaders_def wr_def)
qed

text \<open>The text of a status line.\<close>

definition status_line :: "string \<Rightarrow> string" where
  "status_line code = ''HTTP/1.0 '' @ code @ [CR, LF]"

lemma SetCode_ok:
  assumes head: "q_head q = old @ [LF] @ body @ pad" "length (q_head q) = WEB_HTTP_HEADER_MAX" "LF \<notin> set old" "nonul old"
    and len: "q_headLen q = length old + 1 + length body"
    and new: "length (status_line code) < 64" "length old + 1 < length (status_line code)"
    and room: "length (status_line code) + length body < WEB_HTTP_HEADER_MAX - 2"
    and pad: "NUL \<in> set (drop (length (status_line code) - (length old + 1)) pad)"
  shows "\<exists>q'. WEB_SetCode q code = Some q' \<and> q_headLen q' = q_headLen q \<and>
    q_head q' = status_line code @ body @ drop (length (status_line code) - (length old + 1)) pad"
proof -
  let ?new = "status_line code" and ?o = "length old + 1"
  define k where "k = length ?new - ?o"
  have k: "length ?new = ?o + k" using new(2) by (simp add: k_def)
  have "str_cat 64 (str_cat 64 (str_cpy 64 ''HTTP/1.0 '') code) [CR, LF] = ?new"
    using new(1) by (simp add: str_cat_def str_cpy_def status_line_def)
  note code = this
  have lf: "strchrnul (q_head q) LF = Some (length old)" using strchrnul_ok [OF head(3,4)] head(1) by simp
  have kp: "k \<le> length pad" using head(1,2) len room k by (simp add: WEB_HTTP_HEADER_MAX_def)
  have rest: "size_diff (q_headLen q) (length old + 1) = length body"
    using len room new(2) by (subst size_diff_ge) (auto simp: WEB_HTTP_HEADER_MAX_def)
  have add: "size_add (length body) (length ?new) = length body + length ?new"
    using room by (intro size_add_small) (auto simp: WEB_HTTP_HEADER_MAX_def)
  obtain h1 where h1: "(if length ?new \<noteq> length old + 1 \<and> length body > 0 then memmove (q_head q) (length ?new) (length old + 1) (length body)
      else Some (q_head q)) = Some h1" "drop (length ?new) h1 = body @ drop k pad" "length h1 = length (q_head q)"
  proof (cases "body = []")
    case True
    have "drop (length ?new) (q_head q) = drop k pad" using head(1) True k by simp
    then show ?thesis using True by (intro that [of "q_head q"]) simp_all
  next
    case False
    have d: "take (length body) (drop (length old + 1) (q_head q)) = body" using head(1) by simp
    have r: "drop (length ?new + length body) (q_head q) = drop k pad" using head(1) k by simp
    have l: "length ?new + length body \<le> length (q_head q)" "length old + 1 + length body \<le> length (q_head q)"
      using head(2) room k by (auto simp: WEB_HTTP_HEADER_MAX_def)
    then have "memmove (q_head q) (length ?new) (length old + 1) (length body) =
        Some (take (length ?new) (q_head q) @ body @ drop k pad)"
      by (simp only: memmove_def d blit_def r if_True)
    moreover have "length (take (length ?new) (q_head q) @ body @ drop k pad) = length (q_head q)"
    proof -
      have "length (drop (length ?new + length body) (q_head q)) = length (drop k pad)" by (simp only: r)
      then show ?thesis using l by simp
    qed
    moreover have "drop (length ?new) (take (length ?new) (q_head q) @ body @ drop k pad) = body @ drop k pad" using l by simp
    ultimately show ?thesis using False k new(2) by (intro that [of "take (length ?new) (q_head q) @ body @ drop k pad"]) simp_all
  qed
  have lh: "length ?new \<le> length h1" using h1(3) head(2) room by (simp add: WEB_HTTP_HEADER_MAX_def)
  have "h1 = take (length ?new) h1 @ body @ drop k pad" using h1(2) by (metis append_take_drop_id)
  then have b: "blit h1 0 ?new = Some (?new @ body @ drop k pad)" using lh
    by (intro blit_ok [where xs = "[]" and ys = "take (length ?new) h1", simplified]) auto
  have "NUL \<in> set (?new @ body @ drop k pad)" using pad by (simp add: k_def)
  then obtain ls where "header_lines (?new @ body @ drop k pad) 0 [] = Some ls"
    using header_lines_ok by blast
  then show ?thesis using room rest add lf code h1(1) b new(2)
    by (auto simp: WEB_SetCode_def Let_def WEB_UpdateHeaderLines_def k_def)
qed

text \<open>
  Setting a code whose status line is longer than the one in the buffer moves the headers along, but does not count
  the characters: the headers that are sent lack as many at their end, and with them the end of the last line.
\<close>

theorem WEB_SetCode_truncates:
  assumes "q_head q = old @ [LF] @ body @ pad" and "length (q_head q) = WEB_HTTP_HEADER_MAX" and "LF \<notin> set old" and "nonul old"
    and "q_headLen q = length old + 1 + length body"
    and "length (status_line code) < 64" and "length old + 1 < length (status_line code)"
    and "length (status_line code) + length body < WEB_HTTP_HEADER_MAX - 2"
    and "NUL \<in> set (drop (length (status_line code) - (length old + 1)) pad)"
  shows "\<exists>q' q''. WEB_SetCode q code = Some q' \<and>
    WEB_WriteHeaders q' = Some (take (length old + 1 + length body) (status_line code @ body) @ [CR, LF], q'')"
proof -
  obtain q' where q': "WEB_SetCode q code = Some q'" "q_headLen q' = q_headLen q"
    "q_head q' = status_line code @ body @ drop (length (status_line code) - (length old + 1)) pad"
    using SetCode_ok [OF assms] by blast
  have "q_headLen q' + 2 < length (q_head q')"
    using assms(1,2,5,7,8) q'(2,3) by (simp add: WEB_HTTP_HEADER_MAX_def)
  then show ?thesis using q' assms(5,7) by (simp add: WriteHeaders_ok)
qed


theorem WEB_SetCode_truncates_witness:
  "\<exists>q' q''. WEB_SetCode fresh_query ''404 Not Found'' = Some q' \<and>
     WEB_WriteHeaders q' = Some (''HTTP/1.0 404 Not Found'' @ [CR, LF] @ ''Date: '' @ [CR, LF], q'')"
proof -
  have "take (length (''HTTP/1.0 200 OK'' @ [CR]) + 1 + length (''Date: today'' @ [CR, LF]))
     (status_line ''404 Not Found'' @ ''Date: today'' @ [CR, LF]) = ''HTTP/1.0 404 Not Found'' @ [CR, LF] @ ''Date: ''"
    by code_simp
  then show ?thesis
    using WEB_SetCode_truncates [of fresh_query "''HTTP/1.0 200 OK'' @ [CR]" "''Date: today'' @ [CR, LF]" "replicate 994 NUL" "''404 Not Found''"]
    by (simp add: fresh_query_def status_line_def WEB_HTTP_HEADER_MAX_def)
qed


section \<open>The headers as a list\<close>

definition hline :: "string \<times> string \<Rightarrow> string" where
  "hline h = fst h @ '': '' @ snd h @ [CR, LF]"

fun starts :: "nat \<Rightarrow> (string \<times> string) list \<Rightarrow> nat list" where
  "starts n [] = []"
| "starts n (h # hs) = n # starts (n + length (hline h)) hs"

definition hdr_ok :: "string \<times> string \<Rightarrow> bool" where
  "hdr_ok h \<longleftrightarrow> fst h \<noteq> [] \<and> CHR '':'' \<notin> set (fst h) \<and> {CR, LF, NUL} \<inter> set (fst h) = {} \<and> {CR, LF, NUL} \<inter> set (snd h) = {} \<and>
     length (hline h) < WEB_HTTP_PER_HEADER_MAX"

text \<open>The buffer holds a status line and headers.\<close>

definition headers_rep :: "WEB_Query \<Rightarrow> string \<Rightarrow> (string \<times> string) list \<Rightarrow> bool" where
  "headers_rep q st hs \<longleftrightarrow> (let n = length st + 1 in
     (\<exists>pad. q_head q = st @ LF # concat (map hline hs) @ NUL # pad) \<and> length (q_head q) = WEB_HTTP_HEADER_MAX \<and>
     LF \<notin> set st \<and> nonul st \<and> list_all hdr_ok hs \<and> q_headLen q = n + length (concat (map hline hs)) \<and>
     q_headLen q + 2 < WEB_HTTP_HEADER_MAX \<and> (q_headLine q = starts n hs \<or> q_headLine q = n # starts n hs))"

definition same_key :: "string \<Rightarrow> string \<times> string \<Rightarrow> bool" where
  "same_key k h \<longleftrightarrow> map tolower (fst h) = map tolower k"

definition set_hdr :: "string \<Rightarrow> string \<Rightarrow> (string \<times> string) list \<Rightarrow> (string \<times> string) list" where
  "set_hdr k v hs = (let i = first_idx (same_key k) hs in
     if i < length hs then hs[i := (fst (hs ! i), v)] else hs @ [(k, v)])"

lemma length_starts [simp]: "length (starts n hs) = length hs"
  by (induction hs arbitrary: n) simp_all

lemma starts_append: "starts n (hs @ [h]) = starts n hs @ [n + length (concat (map hline hs))]"
  by (induction hs arbitrary: n) (simp_all add: add.assoc)

lemma starts_update: "length (hline h) = length (hline (hs ! i)) \<Longrightarrow> starts n (hs[i := h]) = starts n hs"
  by (induction hs arbitrary: n i) (auto split: nat.split)

lemma starts_nth: "i < length hs \<Longrightarrow> starts n hs ! i = n + length (concat (map hline (take i hs)))"
  by (induction hs arbitrary: n i) (auto simp: nth_Cons' take_Cons' split: nat.split)

lemma tolower_colon: "tolower c = CHR '':'' \<longleftrightarrow> c = CHR '':''"
proof
  assume a: "tolower c = CHR '':''"
  show "c = CHR '':''"
  proof (cases "isupper c")
    case True
    then have "ascii (tolower c) = ascii c + 32" by (simp add: tolower_upper isupper_def ascii_def)
    moreover have "ascii (CHR '':'') = 58" by code_simp
    ultimately have False using a True by (simp add: isupper_def)
    then show ?thesis ..
  qed (use a in \<open>simp add: tolower_upper\<close>)
next
  have "tolower (CHR '':'') = CHR '':''" by code_simp
  then show "c = CHR '':'' \<Longrightarrow> tolower c = CHR '':''" by simp
qed

lemma line_is_key:
  "CHR '':'' \<notin> set k \<Longrightarrow> CHR '':'' \<notin> set key \<Longrightarrow> line_is (k @ CHR '':'' # CHR '' '' # r) key = Some (map tolower k = map tolower key)"
proof (induction key arbitrary: k)
  case Nil
  then show ?case by (cases k) (auto simp: rd_def)
next
  case (Cons x key)
  have "tolower (CHR '':'') = CHR '':''" by code_simp
  then show ?case using Cons tolower_colon [of x] by (cases k) auto
qed

lemma line_is_hline:
  assumes "hdr_ok h" and "CHR '':'' \<notin> set key"
  shows "line_is (hline h @ r) key = Some (same_key key h)"
  using line_is_key [of "fst h" key "snd h @ [CR, LF] @ r"] assms by (simp add: hline_def hdr_ok_def same_key_def)

lemma line_is_end: "key \<noteq> [] \<Longrightarrow> NUL \<notin> set key \<Longrightarrow> line_is (NUL # r) key = Some False"
proof -
  assume "key \<noteq> []" and k: "NUL \<notin> set key"
  then obtain x xs where x: "key = x # xs" by (cases key) auto
  have "tolower x \<noteq> NUL"
  proof
    assume a: "tolower x = NUL"
    show False
    proof (cases "isupper x")
      case True
      then have "ascii (tolower x) = ascii x + 32" by (simp add: tolower_upper isupper_def ascii_def)
      moreover have "ascii NUL = 0" by code_simp
      ultimately show False using a by simp
    qed (use a k x in \<open>simp add: tolower_upper\<close>)
  qed
  moreover have "tolower NUL = NUL" by code_simp
  ultimately show ?thesis using x by simp
qed

lemma find_line_starts:
  assumes "list_all hdr_ok hs" and "CHR '':'' \<notin> set key" and "length pre = n"
  shows "find_line (pre @ concat (map hline hs) @ r) key (starts n hs) =
    Some (if first_idx (same_key key) hs < length hs then Some (starts n hs ! first_idx (same_key key) hs) else None)"
  using assms
proof (induction hs arbitrary: pre n)
  case (Cons h hs)
  have "find_line ((pre @ hline h) @ concat (map hline hs) @ r) key (starts (n + length (hline h)) hs) =
    Some (if first_idx (same_key key) hs < length hs then Some (starts (n + length (hline h)) hs ! first_idx (same_key key) hs) else None)"
    using Cons.prems by (intro Cons.IH) auto
  moreover have "line_is (hline h @ concat (map hline hs) @ r) key = Some (same_key key h)"
    using Cons.prems(1,2) by (intro line_is_hline) auto
  ultimately show ?case using Cons.prems(3) by simp
qed simp

lemma header_lines_skip: "LF \<notin> set s \<Longrightarrow> nonul s \<Longrightarrow> header_lines (s @ cs) p ls = header_lines cs (p + length s) ls"
  by (induction s arbitrary: p) auto

lemma header_lines_starts:
  "list_all hdr_ok hs \<Longrightarrow> length ls + length hs < WEB_HTTP_MAXHEADERS \<Longrightarrow>
   header_lines (LF # concat (map hline hs) @ NUL # pad) p ls = Some (ls @ starts (p + 1) hs)"
proof (induction hs arbitrary: p ls)
  case (Cons h hs)
  let ?s = "fst h @ '': '' @ snd h @ [CR]"
  have s: "LF \<notin> set ?s" "nonul ?s" "?s \<noteq> []" using Cons.prems(1) by (auto simp: hdr_ok_def nonul_def)
  then obtain c s' where c: "?s = c # s'" by (cases ?s) auto
  have "c \<noteq> NUL" using s(2) unfolding c by simp
  note cs = c this
  have "header_lines (LF # (?s @ LF # concat (map hline hs) @ NUL # pad)) p ls =
    header_lines (?s @ LF # concat (map hline hs) @ NUL # pad) (p + 1) (ls @ [p + 1])"
    unfolding cs(1) header_lines.simps(2) [of LF] using cs(2) Cons.prems(2) by simp
  also have "\<dots> = header_lines (LF # concat (map hline hs) @ NUL # pad) (p + 1 + length ?s) (ls @ [p + 1])"
    using s by (intro header_lines_skip)
  also have "\<dots> = Some ((ls @ [p + 1]) @ starts (p + 1 + length ?s + 1) hs)"
    using Cons.prems by (intro Cons.IH) auto
  finally have *: "header_lines (LF # (?s @ LF # concat (map hline hs) @ NUL # pad)) p ls = \<dots>" .
  have "concat (map hline (h # hs)) @ NUL # pad = ?s @ LF # concat (map hline hs) @ NUL # pad" by (simp add: hline_def [of h])
  moreover have "starts (p + 1) (h # hs) = (p + 1) # starts (p + 1 + length ?s + 1) hs" by (simp add: hline_def [of h])
  ultimately show ?case using * by (simp only: append.assoc append_Cons append_Nil)
qed simp


lemma EditHeader_ok:
  assumes head: "q_head q = pre @ hline h @ aft @ NUL # pad" "length (q_head q) = WEB_HTTP_HEADER_MAX"
    and h: "hdr_ok h" and v: "length v = length (snd h)"
    and len: "q_headLen q = length (pre @ hline h @ aft)" "q_headLen q + 2 < WEB_HTTP_HEADER_MAX"
    and lines: "header_lines (pre @ hline (fst h, v) @ aft @ NUL # pad) 0 [] = Some ls"
  shows "WEB_EditHeader q (length pre) v = Some (q\<lparr>q_head := pre @ hline (fst h, v) @ aft @ NUL # pad, q_headLine := ls\<rparr>)"
proof -
  let ?k = "fst h" and ?w = "snd h" and ?r = "aft @ NUL # pad"
  let ?c = "length pre + length ?k" and ?e = "length pre + length ?k + 2 + length ?w"
  have k: "CHR '':'' \<notin> set ?k" "nonul ?k" "CR \<notin> set ('' '' @ ?w)" "nonul ('' '' @ ?w)" using h by (auto simp: hdr_ok_def nonul_def)
  have b: "q_head q = pre @ ?k @ CHR '':'' # CHR '' '' # ?w @ CR # LF # ?r" using head(1) by (simp add: hline_def)
  have colon: "strchr_at (drop (length pre) (q_head q)) (CHR '':'') (length pre) = Some (Some ?c)"
    using strchr_at_ok [OF k(1,2)] b by simp
  have sp: "rd (q_head q) (?c + 1) = Some (CHR '' '')" using b by (simp add: rd_def nth_append)
  have d: "drop (?c + 1) (q_head q) = ('' '' @ ?w) @ CR # LF # ?r" using b by simp
  have cr: "strchr_at (drop (?c + 1) (q_head q)) CR (?c + 1) = Some (Some ?e)"
    unfolding d strchr_at_ok [OF k(3,4)] by simp
  have old: "?e - (?c + 1) + 1 = length ?w + 2" by simp
  have hl: "length (hline h) = length ?k + length ?w + 4" by (simp add: hline_def)
  have n: "q_headLen q = ?e + 2 + length aft" using len(1) hl by simp
  have rest: "size_diff (q_headLen q) (length ?w + 2) = q_headLen q - (length ?w + 2)"
    using n len(2) by (intro size_diff_ge) (auto simp: WEB_HTTP_HEADER_MAX_def)
  have add: "size_add (q_headLen q - (length ?w + 2)) (length v) = q_headLen q - 2"
    using n v len(2) by (subst size_add_small) (auto simp: WEB_HTTP_HEADER_MAX_def)
  have mn: "size_add (size_diff (q_headLen q) ?e) 1 = q_headLen q - ?e + 1"
    using n len(2) by (subst size_diff_ge) (auto simp: size_add_small WEB_HTTP_HEADER_MAX_def)
  have mv: "memmove (q_head q) ?e ?e (q_headLen q - ?e + 1) = Some (q_head q)"
    using b n by (intro memmove_same [where xs = "pre @ ?k @ '': '' @ ?w" and ys = "CR # LF # aft @ [NUL]" and zs = pad]) simp_all
  have bl: "blit (q_head q) (?c + 2) v = Some ((pre @ ?k @ '': '') @ v @ CR # LF # ?r)"
    using b v by (intro blit_ok [where ys = ?w]) simp_all
  have w: "wr ((pre @ ?k @ '': '') @ v @ CR # LF # ?r) (?c + 2 + length v) CR = Some ((pre @ ?k @ '': '') @ v @ CR # LF # ?r)"
    "wr ((pre @ ?k @ '': '') @ v @ CR # LF # ?r) (?c + 3 + length v) LF = Some ((pre @ ?k @ '': '') @ v @ CR # LF # ?r)"
    by (simp_all add: wr_def list_update_append)
  have fin: "(pre @ ?k @ '': '') @ v @ CR # LF # ?r = pre @ hline (?k, v) @ ?r" by (simp add: hline_def)
  have e: "?c + 1 + 1 + length v = ?e" "?c + 1 + 1 + (length ?w + 2) - 2 = ?e" "?c + 1 + 1 = ?c + 2" "?c + 1 + length v + 1 = ?c + 2 + length v"
    "?c + 1 + length v + 2 = ?c + 3 + length v" using v by simp_all
  have lt: "\<not> q_headLen q - 2 \<ge> WEB_HTTP_HEADER_MAX" "q_headLen q - (length ?w + 2) > 0" "length v \<noteq> length ?w + 2"
    using len(2) n v by (auto simp: WEB_HTTP_HEADER_MAX_def)
  have l2: "header_lines ((pre @ ?k @ '': '') @ v @ CR # LF # ?r) 0 [] = Some ls" using lines by (simp only: fin)
  show ?thesis
    unfolding fin [symmetric] WEB_EditHeader_def colon bind.bind_lunit sp cr Let_def old rest add e mn mv bl w
    using lt l2 mn mv bl w by (simp add: v WEB_UpdateHeaderLines_def)
qed


text \<open>A value of another length: what follows is moved, and \<open>headLen\<close> stays.\<close>

lemma EditHeader_moves:
  assumes "strchr_at (drop l (q_head q)) (CHR '':'') l = Some (Some c)" "rd (q_head q) (c + 1) = Some (CHR '' '')"
    "strchr_at (drop (c + 1) (q_head q)) CR (c + 1) = Some (Some e)"
    and "size_diff (q_headLen q) (e - (c + 1) + 1) = r" "\<not> size_add r (length v) \<ge> WEB_HTTP_HEADER_MAX" "length v \<noteq> e - (c + 1) + 1" "r > 0"
    and "memmove (q_head q) (c + 1 + 1 + length v) (c + 1 + 1 + (e - (c + 1) + 1) - 2)
      (size_add (size_diff (q_headLen q) (c + 1 + 1 + (e - (c + 1) + 1) - 2)) 1) = Some h1"
    and "blit h1 (c + 1 + 1) v = Some h2" "wr h2 (c + 1 + length v + 1) CR = Some h3" "wr h3 (c + 1 + length v + 2) LF = Some h4"
    and "header_lines h4 0 [] = Some ls"
  shows "WEB_EditHeader q l v = Some (q\<lparr>q_head := h4, q_headLine := ls\<rparr>)"
  unfolding WEB_EditHeader_def assms(1) bind.bind_lunit assms(2,3) Let_def assms(4)
  using assms(5-) by (simp only: if_True if_False not_True_eq_False not_False_eq_True simp_thms bind.bind_lunit WEB_UpdateHeaderLines_def) simp

lemma EditHeader_resize:
  assumes head: "q_head q = pre @ hline h @ aft @ NUL # pad" "length (q_head q) = WEB_HTTP_HEADER_MAX"
    and h: "hdr_ok h" and v: "length v \<noteq> length (snd h) + 2"
    and len: "q_headLen q = length (pre @ hline h @ aft)" "q_headLen q + 2 < WEB_HTTP_HEADER_MAX" "q_headLen q + length v < WEB_HTTP_HEADER_MAX"
    and lines: "\<And>pad'. header_lines (pre @ hline (fst h, v) @ aft @ NUL # pad') 0 [] = Some ls"
  shows "WEB_EditHeader q (length pre) v = Some (q\<lparr>q_head := pre @ hline (fst h, v) @ aft @
    NUL # drop (length (pre @ hline (fst h, v) @ aft) + 1) (q_head q), q_headLine := ls\<rparr>)"
proof -
  let ?k = "fst h" and ?w = "snd h" and ?r = "aft @ NUL # pad"
  let ?c = "length pre + length ?k" and ?e = "length pre + length ?k + 2 + length ?w"
  let ?P = "pre @ ?k @ '': ''" and ?C = "CR # LF # aft @ [NUL]"
  have k: "CHR '':'' \<notin> set ?k" "nonul ?k" "CR \<notin> set ('' '' @ ?w)" "nonul ('' '' @ ?w)" using h by (auto simp: hdr_ok_def nonul_def)
  have b: "q_head q = pre @ ?k @ CHR '':'' # CHR '' '' # ?w @ CR # LF # ?r" using head(1) by (simp add: hline_def)
  have colon: "strchr_at (drop (length pre) (q_head q)) (CHR '':'') (length pre) = Some (Some ?c)"
    using strchr_at_ok [OF k(1,2)] b by simp
  have sp: "rd (q_head q) (?c + 1) = Some (CHR '' '')" using b by (simp add: rd_def nth_append)
  have d: "drop (?c + 1) (q_head q) = ('' '' @ ?w) @ CR # LF # ?r" using b by simp
  have cr: "strchr_at (drop (?c + 1) (q_head q)) CR (?c + 1) = Some (Some ?e)"
    unfolding d strchr_at_ok [OF k(3,4)] by simp
  have old: "?e - (?c + 1) + 1 = length ?w + 2" by simp
  have hl: "length (hline h) = length ?k + length ?w + 4" by (simp add: hline_def)
  have n: "q_headLen q = ?e + 2 + length aft" using len(1) hl by simp
  have rest: "size_diff (q_headLen q) (length ?w + 2) = q_headLen q - (length ?w + 2)"
    using n len(2) by (intro size_diff_ge) (auto simp: WEB_HTTP_HEADER_MAX_def)
  have add: "size_add (q_headLen q - (length ?w + 2)) (length v) = q_headLen q - (length ?w + 2) + length v"
    using len(3) by (subst size_add_small) (auto simp: WEB_HTTP_HEADER_MAX_def)
  have mn: "size_add (size_diff (q_headLen q) ?e) 1 = q_headLen q - ?e + 1"
    using n len(2) by (subst size_diff_ge) (auto simp: size_add_small WEB_HTTP_HEADER_MAX_def)
  have chunk: "take (q_headLen q - ?e + 1) (drop ?e (q_head q)) = ?C" using b n by simp
  have lc: "length ?C = q_headLen q - ?e + 1" using n by simp
  have fits: "?e + (q_headLen q - ?e + 1) \<le> length (q_head q)" "?c + 2 + length v + length ?C \<le> length (q_head q)"
    using n len(2,3) head(2) by simp_all
  let ?pad = "drop (?c + 2 + length v + length ?C) (q_head q)" and ?T = "take (?c + 2 + length v) (q_head q)"
  have mv: "memmove (q_head q) (?c + 2 + length v) ?e (q_headLen q - ?e + 1) = Some (?T @ ?C @ ?pad)"
    using fits by (simp only: memmove_def chunk blit_def if_True)
  have t: "take (?c + 2) (?T @ ?C @ ?pad) = ?P" "drop (?c + 2 + length v) (?T @ ?C @ ?pad) = ?C @ ?pad"
    using fits b by simp_all
  have tl: "?c + 2 + length v \<le> length (?T @ ?C @ ?pad)" using fits by simp
  have bl: "blit (?T @ ?C @ ?pad) (?c + 2) v = Some (?P @ v @ ?C @ ?pad)"
    using tl t by (simp only: blit_def if_True)
  have w: "wr (?P @ v @ ?C @ ?pad) (?c + 2 + length v) CR = Some (?P @ v @ ?C @ ?pad)"
    "wr (?P @ v @ ?C @ ?pad) (?c + 3 + length v) LF = Some (?P @ v @ ?C @ ?pad)"
    by (simp_all add: wr_def list_update_append)
  have pd: "?c + 2 + length v + length ?C = length (pre @ hline (?k, v) @ aft) + 1" by (simp add: hline_def)
  have fin: "?P @ v @ ?C @ ?pad = pre @ hline (?k, v) @ aft @ NUL # drop (length (pre @ hline (?k, v) @ aft) + 1) (q_head q)"
    unfolding pd by (simp add: hline_def)
  have e: "?c + 1 + 1 + length v = ?c + 2 + length v" "?c + 1 + 1 + (?e - (?c + 1) + 1) - 2 = ?e" "?c + 1 + 1 = ?c + 2"
    "?c + 1 + length v + 1 = ?c + 2 + length v" "?c + 1 + length v + 2 = ?c + 3 + length v" by simp_all
  have lt: "\<not> size_add (q_headLen q - (length ?w + 2)) (length v) \<ge> WEB_HTTP_HEADER_MAX" "q_headLen q - (length ?w + 2) > 0"
    using len(2,3) n unfolding add by auto
  have l2: "header_lines (?P @ v @ ?C @ ?pad) 0 [] = Some ls" using lines by (simp only: fin)
  have "WEB_EditHeader q (length pre) v = Some (q\<lparr>q_head := ?P @ v @ ?C @ ?pad, q_headLine := ls\<rparr>)"
  proof (rule EditHeader_moves [OF colon sp cr])
    show "size_diff (q_headLen q) (?e - (?c + 1) + 1) = q_headLen q - (length ?w + 2)" unfolding old by (rule rest)
    show "length v \<noteq> ?e - (?c + 1) + 1" unfolding old by (rule v)
    show "memmove (q_head q) (?c + 1 + 1 + length v) (?c + 1 + 1 + (?e - (?c + 1) + 1) - 2)
      (size_add (size_diff (q_headLen q) (?c + 1 + 1 + (?e - (?c + 1) + 1) - 2)) 1) = Some (?T @ ?C @ ?pad)"
      unfolding e(1,2) mn by (rule mv)
    show "blit (?T @ ?C @ ?pad) (?c + 1 + 1) v = Some (?P @ v @ ?C @ ?pad)" unfolding e(3) by (rule bl)
    show "wr (?P @ v @ ?C @ ?pad) (?c + 1 + length v + 1) CR = Some (?P @ v @ ?C @ ?pad)" unfolding e(4) by (rule w(1))
    show "wr (?P @ v @ ?C @ ?pad) (?c + 1 + length v + 2) LF = Some (?P @ v @ ?C @ ?pad)" unfolding e(5) by (rule w(2))
  qed (use lt l2 in blast)+
  then show ?thesis unfolding fin .
qed


text \<open>A value that is two longer: \<open>oldLen\<close> counts the end of the line, so nothing is moved, and the new end of the line
  is written over what follows.\<close>

lemma EditHeader_over:
  assumes head: "q_head q = pre @ hline h @ a # b # r"
    and h: "hdr_ok h" and v: "length v = length (snd h) + 2"
    and len: "length (pre @ hline h) \<le> q_headLen q" "q_headLen q < WEB_HTTP_HEADER_MAX"
  shows "WEB_EditHeader q (length pre) v = Some (q\<lparr>q_head := pre @ hline (fst h, v) @ r\<rparr>)"
proof -
  let ?k = "fst h" and ?w = "snd h" and ?r = "a # b # r"
  let ?c = "length pre + length ?k" and ?e = "length pre + length ?k + 2 + length ?w"
  have k: "CHR '':'' \<notin> set ?k" "nonul ?k" "CR \<notin> set ('' '' @ ?w)" "nonul ('' '' @ ?w)" using h by (auto simp: hdr_ok_def nonul_def)
  have b: "q_head q = pre @ ?k @ CHR '':'' # CHR '' '' # ?w @ CR # LF # ?r" using head(1) by (simp add: hline_def)
  have colon: "strchr_at (drop (length pre) (q_head q)) (CHR '':'') (length pre) = Some (Some ?c)"
    using strchr_at_ok [OF k(1,2)] b by simp
  have sp: "rd (q_head q) (?c + 1) = Some (CHR '' '')" using b by (simp add: rd_def nth_append)
  have d: "drop (?c + 1) (q_head q) = ('' '' @ ?w) @ CR # LF # ?r" using b by simp
  have cr: "strchr_at (drop (?c + 1) (q_head q)) CR (?c + 1) = Some (Some ?e)"
    unfolding d strchr_at_ok [OF k(3,4)] by simp
  have old: "?e - (?c + 1) + 1 = length ?w + 2" by simp
  have n: "length ?w + 2 \<le> q_headLen q" using len(1) by (simp add: hline_def)
  have rest: "size_add (size_diff (q_headLen q) (length ?w + 2)) (length ?w + 2) = q_headLen q"
    using n len(2) by (subst size_diff_ge) (auto simp: size_add_small WEB_HTTP_HEADER_MAX_def)
  let ?P = "pre @ ?k @ '': ''"
  have bl: "blit (q_head q) (?c + 1 + 1) v = Some (?P @ v @ ?r)"
    using b v by (intro blit_ok [where ys = "?w @ [CR, LF]"]) simp_all
  have w: "wr (?P @ v @ ?r) (?c + 1 + length v + 1) CR = Some (?P @ v @ CR # b # r)"
    "wr (?P @ v @ CR # b # r) (?c + 1 + length v + 2) LF = Some (?P @ v @ CR # LF # r)"
    by (simp_all add: wr_def list_update_append)
  have fin: "?P @ v @ CR # LF # r = pre @ hline (?k, v) @ r" by (simp add: hline_def)
  have lt: "\<not> q_headLen q \<ge> WEB_HTTP_HEADER_MAX" using len(2) by simp
  have "WEB_EditHeader q (length pre) v = Some (q\<lparr>q_head := ?P @ v @ CR # LF # r\<rparr>)"
    unfolding WEB_EditHeader_def colon bind.bind_lunit sp cr Let_def old v rest
    using lt by (simp only: if_False simp_thms bind.bind_lunit bl w [unfolded v])
  then show ?thesis unfolding fin .
qed


lemma str_cat_fits: "length t + length s < n \<Longrightarrow> str_cat n t s = t @ s" by (simp add: str_cat_def)

lemma AppendHeader_ok:
  assumes rep: "headers_rep q st hs" and h: "hdr_ok (k, v)" and n: "length hs + 2 < WEB_HTTP_MAXHEADERS"
    and room: "q_headLen q + length (hline (k, v)) + 1 < WEB_HTTP_HEADER_MAX - 2"
  shows "\<exists>q'. WEB_AppendHeaderS q k v = Some q' \<and> headers_rep q' st (hs @ [(k, v)])"
proof -
  let ?n = "length st + 1" and ?l = "hline (k, v)"
  obtain pad where pad: "q_head q = st @ LF # concat (map hline hs) @ NUL # pad" and len: "length (q_head q) = WEB_HTTP_HEADER_MAX"
    and hl: "q_headLen q = ?n + length (concat (map hline hs))" and lines: "q_headLine q = starts ?n hs \<or> q_headLine q = ?n # starts ?n hs"
    using rep by (auto simp: headers_rep_def Let_def)
  have ll: "length (q_headLine q) + 1 < WEB_HTTP_MAXHEADERS" using lines n by auto
  have tx: "str_cat WEB_HTTP_PER_HEADER_MAX (str_cat WEB_HTTP_PER_HEADER_MAX (str_cat WEB_HTTP_PER_HEADER_MAX
      (str_cpy WEB_HTTP_PER_HEADER_MAX k) '': '') v) [CR, LF] = ?l"
  proof -
    have l: "length k + length v + 4 < WEB_HTTP_PER_HEADER_MAX" using h by (simp add: hdr_ok_def hline_def)
    then show ?thesis by (simp add: str_cat_fits str_cpy_fits hline_def)
  qed
  let ?pre = "st @ LF # concat (map hline hs)"
  have lp: "length pad + length ?pre + 1 = WEB_HTTP_HEADER_MAX" using len pad by simp
  have b: "blit (q_head q) (q_headLen q) (?l @ [NUL]) = Some (?pre @ (?l @ [NUL]) @ drop (length ?l) pad)"
    using pad hl lp room by (intro blit_ok [where ys = "NUL # take (length ?l) pad"]) auto
  let ?q = "q\<lparr>q_head := ?pre @ (?l @ [NUL]) @ drop (length ?l) pad, q_headLine := q_headLine q @ [q_headLen q],
    q_headLen := q_headLen q + length ?l\<rparr>"
  have "WEB_AppendHeaderS q k v = Some ?q"
    using ll room unfolding WEB_AppendHeaderS_def Let_def tx b by simp
  moreover have "headers_rep ?q st (hs @ [(k, v)])"
    using rep h lines hl lp room by (auto simp: headers_rep_def Let_def starts_append)
  ultimately show ?thesis by blast
qed

lemma find_header_ok:
  assumes rep: "headers_rep q st hs" and h: "hdr_ok (k, v)"
  shows "find_line (q_head q) k (q_headLine q) =
    Some (if first_idx (same_key k) hs < length hs then Some (starts (length st + 1) hs ! first_idx (same_key k) hs) else None)"
proof -
  let ?n = "length st + 1" and ?i = "first_idx (same_key k) hs"
  obtain pad where pad: "q_head q = st @ LF # concat (map hline hs) @ NUL # pad" and len: "length (q_head q) = WEB_HTTP_HEADER_MAX"
    and st: "LF \<notin> set st" "nonul st" and hs: "list_all hdr_ok hs"
    and hl: "q_headLen q = ?n + length (concat (map hline hs))" "q_headLen q + 2 < WEB_HTTP_HEADER_MAX"
    and lines: "q_headLine q = starts ?n hs \<or> q_headLine q = ?n # starts ?n hs"
    using rep by (auto simp: headers_rep_def Let_def)
  have k: "CHR '':'' \<notin> set k" "k \<noteq> []" "NUL \<notin> set k" using h by (auto simp: hdr_ok_def)
  have fs: "find_line (q_head q) k (starts ?n hs) = Some (if ?i < length hs then Some (starts ?n hs ! ?i) else None)"
    using find_line_starts [OF hs k(1), of "st @ [LF]" ?n "NUL # pad"] pad by simp
  show ?thesis
  proof (cases "q_headLine q = starts ?n hs")
    case False
    then have q: "q_headLine q = ?n # starts ?n hs" using lines by blast
    have d: "drop ?n (q_head q) = concat (map hline hs) @ NUL # pad" using pad by simp
    show ?thesis
    proof (cases hs)
      case Nil
      then show ?thesis using q d line_is_end [OF k(2,3)] by simp
    next
      case (Cons h' hs')
      have "line_is (hline h' @ concat (map hline hs') @ NUL # pad) k = Some (same_key k h')"
        using hs Cons k(1) by (intro line_is_hline) auto
      then have "line_is (drop ?n (q_head q)) k = Some (same_key k h')" unfolding d Cons by simp
      then show ?thesis using q fs Cons by (auto split: if_splits)
    qed
  qed (use fs in simp)
qed

text \<open>What an update does to the buffer, by the lengths of the old and the new value.\<close>

lemma edit_header_ok:
  assumes rep: "headers_rep q st hs" and h: "hdr_ok (k, v)" and n: "length hs + 2 < WEB_HTTP_MAXHEADERS"
    and room: "q_headLen q + length (hline (k, v)) + 1 < WEB_HTTP_HEADER_MAX - 2"
    and i: "i = first_idx (same_key k) hs" and True: "i < length hs" and old: "old = snd (hs ! i)"
    and out: "out = st @ LF # concat (map hline (set_hdr k v hs))"
  shows "length v = length old \<Longrightarrow> \<exists>q'. WEB_SetHeaderS q k v = Some q' \<and> headers_rep q' st (set_hdr k v hs)"
    and "length v \<noteq> length old \<Longrightarrow> length v \<noteq> length old + 2 \<Longrightarrow>
      length out < WEB_HTTP_HEADER_MAX \<and>
      (\<exists>ls. WEB_SetHeaderS q k v = Some (q\<lparr>q_head := out @ NUL # drop (length out + 1) (q_head q), q_headLine := ls\<rparr>))"
    and "length v = length old + 2 \<Longrightarrow> \<exists>rest. WEB_SetHeaderS q k v = Some (q\<lparr>q_head :=
      st @ LF # concat (map hline (take i hs)) @ hline (fst (hs ! i), v) @ rest\<rparr>) \<and>
      length (st @ LF # concat (map hline (take i hs)) @ hline (fst (hs ! i), v) @ rest) = WEB_HTTP_HEADER_MAX \<and>
      (i + 1 < length hs \<longrightarrow> (\<exists>rest'. rest = drop 2 (concat (map hline (drop (Suc i) hs))) @ rest'))"
proof -
  let ?n = "length st + 1"
  obtain pad where pad: "q_head q = st @ LF # concat (map hline hs) @ NUL # pad" and len: "length (q_head q) = WEB_HTTP_HEADER_MAX"
    and st: "LF \<notin> set st" "nonul st" and hs: "list_all hdr_ok hs"
    and hl: "q_headLen q = ?n + length (concat (map hline hs))" "q_headLen q + 2 < WEB_HTTP_HEADER_MAX"
    and lines: "q_headLine q = starts ?n hs \<or> q_headLine q = ?n # starts ?n hs"
    using rep by (auto simp: headers_rep_def Let_def)
  let ?h = "hs ! i" and ?pre = "st @ LF # concat (map hline (take i hs))" and ?aft = "concat (map hline (drop (Suc i) hs))"
  let ?hs = "hs[i := (fst ?h, v)]"
  have split: "hs = take i hs @ ?h # drop (Suc i) hs" using True by (rule id_take_nth_drop)
  have cat: "concat (map hline hs) = concat (map hline (take i hs)) @ hline ?h @ ?aft"
    by (subst split) simp
  have cat': "concat (map hline ?hs) = concat (map hline (take i hs)) @ hline (fst ?h, v) @ ?aft"
    by (simp add: upd_conv_take_nth_drop [OF True])
  have ok: "hdr_ok ?h" using hs True by (simp add: list_all_length)
  have "same_key k ?h" using True unfolding i by (rule first_idx_holds)
  then have "length (fst ?h) = length k" unfolding same_key_def by (metis length_map)
  then have ok': "hdr_ok (fst ?h, v)" using ok h by (simp add: hdr_ok_def hline_def)
  have hs': "list_all hdr_ok ?hs" using hs ok' by (auto simp: list_all_iff dest: set_update_subset_insert [THEN subsetD])
  have new: "?pre @ hline (fst ?h, v) @ ?aft @ NUL # p = st @ LF # concat (map hline ?hs) @ NUL # p" for p using cat' by simp
  have "header_lines (st @ LF # concat (map hline ?hs) @ NUL # p) 0 [] = Some (starts ?n ?hs)" for p
    using header_lines_skip [OF st] header_lines_starts [OF hs', of "[]" p "length st"] n by simp
  then have ls: "header_lines (?pre @ hline (fst ?h, v) @ ?aft @ NUL # p) 0 [] = Some (starts ?n ?hs)" for p unfolding new .
  have at: "starts ?n hs ! i = length ?pre" using starts_nth [OF True, of ?n] by simp
  have call: "WEB_SetHeaderS q k v = WEB_EditHeader q (length ?pre) v"
    using find_header_ok [OF rep h] True at by (simp add: WEB_SetHeaderS_def i)
  have set: "set_hdr k v hs = ?hs" using True by (simp add: set_hdr_def Let_def i)
  have hd: "q_head q = ?pre @ hline ?h @ ?aft @ NUL # pad" using pad cat by simp
  have ln: "q_headLen q = length (?pre @ hline ?h @ ?aft)" using hl(1) cat by simp
  {
    assume lv: "length v = length old"
    have lh: "length (hline (fst ?h, v)) = length (hline ?h)" using lv by (simp add: hline_def old)
    let ?q = "q\<lparr>q_head := ?pre @ hline (fst ?h, v) @ ?aft @ NUL # pad, q_headLine := starts ?n ?hs\<rparr>"
    have "WEB_EditHeader q (length ?pre) v = Some ?q"
      using EditHeader_ok [OF hd len ok lv [unfolded old] ln hl(2) ls] .
    moreover have "headers_rep ?q st ?hs"
    proof -
      have "length (concat (map hline ?hs)) = length (concat (map hline hs))" unfolding cat cat' using lh by simp
      moreover have "length (st @ LF # concat (map hline ?hs) @ NUL # pad) = WEB_HTTP_HEADER_MAX"
        using len pad calculation by simp
      ultimately show ?thesis using st hs' hl unfolding headers_rep_def Let_def new by simp
    qed
    ultimately show "\<exists>q'. WEB_SetHeaderS q k v = Some q' \<and> headers_rep q' st (set_hdr k v hs)"
      unfolding set call by blast
  }
  {
    assume "length v \<noteq> length old" and lv: "length v \<noteq> length old + 2"
    have tx: "out = ?pre @ hline (fst ?h, v) @ ?aft" unfolding out set cat' by simp
    have lv': "length v \<noteq> length (snd ?h) + 2" using lv by (simp add: old)
    have "q_headLen q + length v < WEB_HTTP_HEADER_MAX" using room by (simp add: hline_def)
    from EditHeader_resize [OF hd len ok lv' ln hl(2) this ls]
    have "\<exists>ls. WEB_SetHeaderS q k v = Some (q\<lparr>q_head := out @ NUL # drop (length out + 1) (q_head q), q_headLine := ls\<rparr>)"
      unfolding call tx append.assoc by blast
    moreover have "length out < WEB_HTTP_HEADER_MAX"
      using room unfolding tx ln by (simp add: hline_def)
    ultimately show "length out < WEB_HTTP_HEADER_MAX \<and>
      (\<exists>ls. WEB_SetHeaderS q k v = Some (q\<lparr>q_head := out @ NUL # drop (length out + 1) (q_head q), q_headLine := ls\<rparr>))" by blast
  }
  {
    assume lv: "length v = length old + 2"
    let ?r = "?aft @ NUL # pad"
    have lp: "length ?r \<ge> 2" using len hl(2) unfolding hd ln by simp
    then obtain a b r where r: "?r = a # b # r" by (cases ?r; cases "tl ?r") auto
    have "length (?pre @ hline ?h) \<le> q_headLen q" unfolding ln by simp
    from EditHeader_over [OF hd [unfolded r] ok lv [unfolded old] this] hl(2)
    have "WEB_SetHeaderS q k v = Some (q\<lparr>q_head := ?pre @ hline (fst ?h, v) @ r\<rparr>)" unfolding call by simp
    moreover have "\<exists>rest'. r = drop 2 ?aft @ rest'" if "i + 1 < length hs"
    proof -
      have "length ?aft \<ge> 2" using that by (cases "drop (Suc i) hs") (auto simp: hline_def)
      then obtain x y z where "?aft = x # y # z" by (cases ?aft; cases "tl ?aft") auto
      then show ?thesis using r by auto
    qed
    moreover have "length (?pre @ hline (fst ?h, v) @ r) = WEB_HTTP_HEADER_MAX"
      using len lv unfolding hd r by (simp add: hline_def old)
    ultimately show "\<exists>rest. WEB_SetHeaderS q k v = Some (q\<lparr>q_head :=
      st @ LF # concat (map hline (take i hs)) @ hline (fst (hs ! i), v) @ rest\<rparr>) \<and>
      length (st @ LF # concat (map hline (take i hs)) @ hline (fst (hs ! i), v) @ rest) = WEB_HTTP_HEADER_MAX \<and>
      (i + 1 < length hs \<longrightarrow> (\<exists>rest'. rest = drop 2 (concat (map hline (drop (Suc i) hs))) @ rest'))"
      by auto
  }
qed

lemma WriteHeaders_rep:
  assumes "headers_rep q' st hs"
  shows "\<exists>q''. WEB_WriteHeaders q' = Some (st @ LF # concat (map hline hs) @ [CR, LF], q'')"
proof -
  let ?n = "length st + 1"
  obtain p where p: "q_head q' = st @ LF # concat (map hline hs) @ NUL # p"
    "length (q_head q') = WEB_HTTP_HEADER_MAX" "q_headLen q' = ?n + length (concat (map hline hs))"
    "q_headLen q' + 2 < WEB_HTTP_HEADER_MAX"
    using assms by (auto simp: headers_rep_def Let_def)
  then have "WEB_WriteHeaders q' = Some (take (q_headLen q') (q_head q') @ [CR, LF], q'\<lparr>q_head := (q_head q')[q_headLen q' := CR, q_headLen q' + 1 := LF, q_headLen q' + 2 := NUL]\<rparr>)"
    by (intro WriteHeaders_ok) simp
  moreover have "take (q_headLen q') (q_head q') = st @ LF # concat (map hline hs)" using p(1,3) by simp
  ultimately show ?thesis by simp
qed

lemma edit_sent:
  assumes rep: "headers_rep q st hs" and h: "hdr_ok (k, v)" and n: "length hs + 2 < WEB_HTTP_MAXHEADERS"
    and room: "q_headLen q + length (hline (k, v)) + 1 < WEB_HTTP_HEADER_MAX - 2"
    and i: "i = first_idx (same_key k) hs" and True: "i < length hs"
  shows "length v = length (snd (hs ! i)) + 2 \<Longrightarrow> \<exists>q' q''. WEB_SetHeaderS q k v = Some q' \<and>
      WEB_WriteHeaders q' = Some (take (q_headLen q) (st @ LF # concat (map hline (take i hs)) @ hline (fst (hs ! i), v) @
        drop 2 (concat (map hline (drop (Suc i) hs)))) @ [CR, LF], q'')"
    and "length v \<noteq> length (snd (hs ! i)) \<Longrightarrow> length v \<noteq> length (snd (hs ! i)) + 2 \<Longrightarrow>
      \<exists>q' q''. WEB_SetHeaderS q k v = Some q' \<and>
      WEB_WriteHeaders q' = Some (take (q_headLen q) (st @ LF # concat (map hline (set_hdr k v hs)) @
        NUL # drop (length st + length (concat (map hline (set_hdr k v hs))) + 2) (q_head q)) @ [CR, LF], q'')"
proof -
  let ?T = "st @ LF # concat (map hline (set_hdr k v hs))" and ?A = "concat (map hline (drop (Suc i) hs))"
  let ?P = "st @ LF # concat (map hline (take i hs))" and ?L = "hline (fst (hs ! i), v)"
  have len: "length (q_head q) = WEB_HTTP_HEADER_MAX" and hl: "q_headLen q + 2 < WEB_HTTP_HEADER_MAX"
    and hn: "q_headLen q = length st + 1 + length (concat (map hline hs))"
    using rep by (auto simp: headers_rep_def Let_def)
  have cat: "concat (map hline hs) = concat (map hline (take i hs)) @ hline (hs ! i) @ ?A"
    by (subst id_take_nth_drop [OF True]) simp
  have hle: "length (q_head q) = length b \<Longrightarrow> WEB_WriteHeaders (q\<lparr>q_head := b, q_headLine := ls\<rparr>) =
      Some (take (q_headLen q) b @ [CR, LF], q\<lparr>q_head := b[q_headLen q := CR, q_headLen q + 1 := LF, q_headLen q + 2 := NUL], q_headLine := ls\<rparr>)" for b ls
    using WriteHeaders_ok [of "q\<lparr>q_head := b, q_headLine := ls\<rparr>"] hl len by simp
  {
    assume lv: "length v = length (snd (hs ! i)) + 2"
    obtain rest where set: "WEB_SetHeaderS q k v = Some (q\<lparr>q_head := ?P @ ?L @ rest\<rparr>)"
      and lr: "length (?P @ ?L @ rest) = WEB_HTTP_HEADER_MAX"
      and rest: "i + 1 < length hs \<longrightarrow> (\<exists>rest'. rest = drop 2 ?A @ rest')"
      using edit_header_ok(3) [OF rep h n room i True refl refl lv] by auto
    have tk: "take (q_headLen q) (?P @ ?L @ rest) = take (q_headLen q) (?P @ ?L @ drop 2 ?A)"
    proof (cases "i + 1 < length hs")
      case True
      then obtain r where r: "?P @ ?L @ rest = (?P @ ?L @ drop 2 ?A) @ r" using rest by auto
      moreover have "q_headLen q - length (?P @ ?L @ drop 2 ?A) = 0" unfolding hn cat using lv by (simp add: hline_def)
      ultimately show ?thesis unfolding r take_append by simp
    next
      case False
      then have a: "?A = []" by simp
      have "q_headLen q - length (?P @ ?L) = 0" unfolding hn cat a using lv by (simp add: hline_def)
      moreover have "?P @ ?L @ rest = (?P @ ?L) @ rest" "?P @ ?L @ drop 2 ?A = ?P @ ?L" unfolding a by simp_all
      ultimately show ?thesis unfolding \<open>?P @ ?L @ rest = (?P @ ?L) @ rest\<close> take_append by simp
    qed
    have "\<exists>q''. WEB_WriteHeaders (q\<lparr>q_head := ?P @ ?L @ rest\<rparr>) = Some (take (q_headLen q) (?P @ ?L @ rest) @ [CR, LF], q'')"
      using WriteHeaders_ok [of "q\<lparr>q_head := ?P @ ?L @ rest\<rparr>"] hl lr by simp
    then show "\<exists>q' q''. WEB_SetHeaderS q k v = Some q' \<and>
      WEB_WriteHeaders q' = Some (take (q_headLen q) (st @ LF # concat (map hline (take i hs)) @ ?L @ drop 2 ?A) @ [CR, LF], q'')"
      using set tk by simp
  }
  {
    assume lv: "length v \<noteq> length (snd (hs ! i))" "length v \<noteq> length (snd (hs ! i)) + 2"
    obtain ls where lT: "length ?T < WEB_HTTP_HEADER_MAX"
      and set: "WEB_SetHeaderS q k v = Some (q\<lparr>q_head := ?T @ NUL # drop (length ?T + 1) (q_head q), q_headLine := ls\<rparr>)"
      using edit_header_ok(2) [OF rep h n room i True refl refl lv] by blast
    have "length (q_head q) = length (?T @ NUL # drop (length ?T + 1) (q_head q))" using lT len by simp
    from hle [OF this] set
    show "\<exists>q' q''. WEB_SetHeaderS q k v = Some q' \<and>
      WEB_WriteHeaders q' = Some (take (q_headLen q) (st @ LF # concat (map hline (set_hdr k v hs)) @
        NUL # drop (length st + length (concat (map hline (set_hdr k v hs))) + 2) (q_head q)) @ [CR, LF], q'')"
      by simp
  }
qed

text \<open>
  C11: on a buffer that holds a status line and fewer than \<open>WEB_HTTP_MAXHEADERS - 2\<close> headers, with room for the new line, and for a name and value
  that make a line (\<open>hdr_ok\<close>: no end of line or NUL in them and no colon in the name, below \<open>WEB_HTTP_PER_HEADER_MAX\<close> characters), \<open>WEB_SetHeaderS\<close> puts a header of
  a new name at the end, and gives the value to the header of the same name, up to case, in its place; what is then sent is the
  status line, the headers and an empty line.  That holds of a replaced value only when it has the length of the old one: a change
  of length leaves \<open>headLen\<close> alone.  Of a shorter or longer value the bytes sent are then the first \<open>headLen\<close> of the updated text
  (cut in its last header, or followed by the old terminator and old bytes), and a value two longer, which the code takes for
  one of the same length, is written over the first two characters of the next header.
\<close>

theorem WEB_SetHeaderS_refines:
  assumes rep: "headers_rep q st hs" and h: "hdr_ok (k, v)" and n: "length hs + 2 < WEB_HTTP_MAXHEADERS"
    and room: "q_headLen q + length (hline (k, v)) + 1 < WEB_HTTP_HEADER_MAX - 2"
  shows "\<exists>q' q'' out. WEB_SetHeaderS q k v = Some q' \<and> WEB_WriteHeaders q' = Some (out @ [CR, LF], q'') \<and>
    (let i = first_idx (same_key k) hs; new = st @ LF # concat (map hline (set_hdr k v hs)) in
     if i = length hs \<or> length v = length (snd (hs ! i)) then headers_rep q' st (set_hdr k v hs) \<and> out = new
     else if length v = length (snd (hs ! i)) + 2
     then out = take (q_headLen q) (st @ LF # concat (map hline (take i hs)) @ hline (fst (hs ! i), v) @ drop 2 (concat (map hline (drop (Suc i) hs))))
     else out = take (q_headLen q) (new @ NUL # drop (length new + 1) (q_head q)))"
proof (cases "first_idx (same_key k) hs < length hs")
  case True
  note edit = edit_header_ok(1) [OF rep h n room refl True refl refl] and sent = edit_sent [OF rep h n room refl True]
  let ?w = "snd (hs ! first_idx (same_key k) hs)"
  consider "length v = length ?w" | "length v = length ?w + 2" | "length v \<noteq> length ?w" "length v \<noteq> length ?w + 2" by blast
  then show ?thesis
  proof cases
    case 1
    then obtain q' where "WEB_SetHeaderS q k v = Some q'" "headers_rep q' st (set_hdr k v hs)" using edit by blast
    moreover obtain q'' where "WEB_WriteHeaders q' = Some (st @ LF # concat (map hline (set_hdr k v hs)) @ [CR, LF], q'')"
      using WriteHeaders_rep [OF calculation(2)] by blast
    ultimately show ?thesis using 1 unfolding Let_def by (intro exI [of _ q'] exI [of _ q''] exI [of _ "st @ LF # concat (map hline (set_hdr k v hs))"]) simp
  next
    case 2
    then show ?thesis using sent(1) True unfolding Let_def by (simp only: if_False if_True) fastforce
  next
    case 3
    then show ?thesis using sent(2) True unfolding Let_def by fastforce
  qed
next
  case False
  then have i: "first_idx (same_key k) hs = length hs" by (metis first_idx_le le_neq_implies_less)
  have new: "set_hdr k v hs = hs @ [(k, v)]" using False by (simp add: set_hdr_def Let_def)
  obtain q' where "WEB_SetHeaderS q k v = Some q'" "headers_rep q' st (set_hdr k v hs)"
    unfolding new using AppendHeader_ok [OF rep h n room] find_header_ok [OF rep h] False by (auto simp: WEB_SetHeaderS_def)
  moreover obtain q'' where "WEB_WriteHeaders q' = Some (st @ LF # concat (map hline (set_hdr k v hs)) @ [CR, LF], q'')"
    using WriteHeaders_rep [OF calculation(2)] by blast
  ultimately show ?thesis using i unfolding Let_def by (intro exI [of _ q'] exI [of _ q''] exI [of _ "st @ LF # concat (map hline (set_hdr k v hs))"]) simp
qed

theorem WEB_SetHeaderS_refines_witness:
  "(\<exists>q' q''. WEB_SetHeaderS fresh_query ''DATE'' ''later'' = Some q' \<and>
     headers_rep q' (''HTTP/1.0 200 OK'' @ [CR]) [(''Date'', ''later'')] \<and>
     WEB_WriteHeaders q' = Some ((''HTTP/1.0 200 OK'' @ [CR]) @ LF # concat (map hline [(''Date'', ''later'')]) @ [CR, LF], q'')) \<and>
   (\<exists>q' q''. WEB_SetHeaderS fresh_query ''DATE'' ''tomorrow'' = Some q' \<and>
     WEB_WriteHeaders q' = Some (''HTTP/1.0 200 OK'' @ [CR, LF] @ ''Date: tomorro'' @ [CR, LF], q''))"
proof -
  let ?st = "''HTTP/1.0 200 OK'' @ [CR]" and ?hs = "[(''Date'', ''today'')]"
  have key: "same_key ''DATE'' (''Date'', ''today'')" by code_simp
  have "q_head fresh_query = ?st @ LF # concat (map hline ?hs) @ NUL # replicate 993 NUL" by code_simp
  then have rep: "headers_rep fresh_query ?st ?hs"
    unfolding headers_rep_def Let_def
    by (intro conjI exI) (simp_all add: fresh_query_def hdr_ok_def hline_def WEB_HTTP_HEADER_MAX_def WEB_HTTP_PER_HEADER_MAX_def)
  have i: "first_idx (same_key ''DATE'') ?hs = 0" using key by simp
  have set: "set_hdr ''DATE'' v ?hs = [(''Date'', v)]" for v using key by (simp add: set_hdr_def)
  have ok: "hdr_ok (''DATE'', ''later'')" "hdr_ok (''DATE'', ''tomorrow'')" by (simp_all add: hdr_ok_def hline_def WEB_HTTP_PER_HEADER_MAX_def)
  have n: "length ?hs + 2 < WEB_HTTP_MAXHEADERS" by (simp add: WEB_HTTP_MAXHEADERS_def)
  have room: "q_headLen fresh_query + length (hline (''DATE'', ''later'')) + 1 < WEB_HTTP_HEADER_MAX - 2"
    "q_headLen fresh_query + length (hline (''DATE'', ''tomorrow'')) + 1 < WEB_HTTP_HEADER_MAX - 2"
    by (simp_all add: fresh_query_def hline_def WEB_HTTP_HEADER_MAX_def)
  have later: "\<exists>q' q''. WEB_SetHeaderS fresh_query ''DATE'' ''later'' = Some q' \<and> headers_rep q' ?st [(''Date'', ''later'')] \<and>
     WEB_WriteHeaders q' = Some (?st @ LF # concat (map hline [(''Date'', ''later'')]) @ [CR, LF], q'')"
    using WEB_SetHeaderS_refines [OF rep ok(1) n room(1)] unfolding i set Let_def by auto
  have out: "take (q_headLen fresh_query) (?st @ LF # concat (map hline [(''Date'', ''tomorrow'')]) @ NUL # r) = ''HTTP/1.0 200 OK'' @ [CR, LF] @ ''Date: tomorro''" for r
    by (simp add: fresh_query_def hline_def)
  have tomorrow: "\<exists>q' q''. WEB_SetHeaderS fresh_query ''DATE'' ''tomorrow'' = Some q' \<and>
     WEB_WriteHeaders q' = Some (''HTTP/1.0 200 OK'' @ [CR, LF] @ ''Date: tomorro'' @ [CR, LF], q'')"
    using WEB_SetHeaderS_refines [OF rep ok(2) n room(2)] unfolding i set Let_def append.assoc
    using out by auto
  show ?thesis using later tomorrow by blast
qed

end
