(* ===== verification/WebVarLaws.thy ===== *)
theory WebVarLaws
  imports WebLaws
begin

unbundle bit_operations_syntax

text \<open>
  Laws of the variables of documents: the buffers of the variables (\<open>var_ok\<close>, \<open>var_appends\<close>), the text of error
  messages, and the filters of documents (\<open>piece\<close>) and of fragments.
\<close>

section \<open>The buffers of variables\<close>

definition var_ok :: "WEB_Variable \<Rightarrow> bool" where
  "var_ok V \<longleftrightarrow> length (v_value V) = v_bufSize V \<and> (\<exists>r. v_value V = take (v_len V) (v_value V) @ NUL # r \<and> nonul (take (v_len V) (v_value V)) \<and>
     v_len V < v_bufSize V)"

lemma var_okI: "v_value V = s @ NUL # r \<Longrightarrow> nonul s \<Longrightarrow> v_len V = length s \<Longrightarrow> v_bufSize V = length (v_value V) \<Longrightarrow> var_ok V"
  by (simp add: var_ok_def)

lemma var_okE:
  assumes "var_ok V"
  obtains r where "v_value V = cstr (v_value V) @ NUL # r" "v_len V = length (cstr (v_value V))" "v_bufSize V = length (v_value V)"
proof -
  obtain r where r: "v_value V = take (v_len V) (v_value V) @ NUL # r" "nonul (take (v_len V) (v_value V))" "v_len V < v_bufSize V"
    "length (v_value V) = v_bufSize V"
    using assms by (auto simp: var_ok_def)
  have c: "cstr (v_value V) = take (v_len V) (v_value V)"
    by (subst r(1)) (rule cstr_append_NUL [OF r(2)])
  show thesis
  proof (rule that)
    show "v_value V = cstr (v_value V) @ NUL # r" unfolding c by (rule r(1))
    show "v_len V = length (cstr (v_value V))" unfolding c using r(3,4) by simp
    show "v_bufSize V = length (v_value V)" using r(4) ..
  qed
qed

lemma Grow_ok:
  assumes "var_ok V"
  obtains s r where "WEB_VAR_Grow J V n = V\<lparr>v_value := s @ NUL # r, v_bufSize := length (s @ NUL # r)\<rparr>"
    "s = cstr (v_value V)" "v_len V = length s" "n \<le> length r"
proof -
  obtain r where r: "v_value V = cstr (v_value V) @ NUL # r" "v_len V = length (cstr (v_value V))" "v_bufSize V = length (v_value V)"
    by (rule var_okE [OF assms])
  define s where "s = cstr (v_value V)"
  have v1: "v_value V = s @ NUL # r" "v_len V = length s" using r by (simp_all add: s_def)
  have "length (v_value V) = length (s @ NUL # r)" using v1(1) by (rule arg_cong)
  with v1 r(3) have v: "v_value V = s @ NUL # r" "v_len V = length s" "v_bufSize V = length s + 1 + length r" by simp_all
  show thesis
  proof (cases "v_len V + n \<ge> v_bufSize V")
    case True
    let ?r = "r @ replicate (v_len V + n + WEB_VAR_BUF_GROW - length (v_value V)) J"
    have "length (v_value V) \<le> v_len V + n + WEB_VAR_BUF_GROW" using True v by simp
    then have "WEB_VAR_Grow J V n = V\<lparr>v_value := s @ NUL # ?r, v_bufSize := length (s @ NUL # ?r)\<rparr>"
      using True v by (simp add: WEB_VAR_Grow_def WEB_VAR_BUF_GROW_def)
    moreover have "n \<le> length ?r" using True v by (simp add: WEB_VAR_BUF_GROW_def)
    ultimately show thesis using v(2) by (intro that [of s ?r]) (simp_all add: s_def)
  next
    case False
    then have "WEB_VAR_Grow J V n = V\<lparr>v_value := s @ NUL # r, v_bufSize := length (s @ NUL # r)\<rparr>" using v by (simp add: WEB_VAR_Grow_def)
    moreover have "n \<le> length r" using False v by simp
    ultimately show thesis using v(2) by (intro that [of s r]) (simp_all add: s_def)
  qed
qed

text \<open>What appending a string does to a variable.\<close>

definition var_appends :: "WEB_Variable \<Rightarrow> string \<Rightarrow> WEB_Variable \<Rightarrow> bool" where
  "var_appends V s V' \<longleftrightarrow> var_ok V' \<and> cstr (v_value V') = cstr (v_value V) @ s \<and> v_key V' = v_key V \<and> v_global V' = v_global V"

lemma appended:
  assumes "t = cstr (v_value V)" and "nonul s" and "b = length ((t @ s) @ NUL # x)"
  shows "var_appends V s (V\<lparr>v_value := (t @ s) @ NUL # x, v_bufSize := b, v_len := length (t @ s)\<rparr>)"
proof -
  have "nonul (t @ s)" using assms(1,2) by simp
  moreover have "var_ok (V\<lparr>v_value := (t @ s) @ NUL # x, v_bufSize := b, v_len := length (t @ s)\<rparr>)"
    using assms by (intro var_okI [of _ "t @ s" x]) simp_all
  ultimately show ?thesis using assms(1) unfolding var_appends_def by (simp del: append_assoc)
qed

lemma Grow_same:
  assumes "var_ok V"
  shows "var_appends V [] (WEB_VAR_Grow J V n)"
proof -
  obtain s r where g: "WEB_VAR_Grow J V n = V\<lparr>v_value := s @ NUL # r, v_bufSize := length (s @ NUL # r)\<rparr>" "s = cstr (v_value V)" "v_len V = length s"
    by (rule Grow_ok [OF assms])
  then have "var_ok (WEB_VAR_Grow J V n)" by (intro var_okI [of _ s r]) simp_all
  then show ?thesis using g by (simp add: var_appends_def)
qed

lemma CatS_ok:
  assumes "var_ok V" and "nonul s"
  shows "\<exists>V'. WEB_VAR_CatS J V s = Some V' \<and> var_appends V s V'"
proof -
  obtain t r where g: "WEB_VAR_Grow J V (length s + 1) = V\<lparr>v_value := t @ NUL # r, v_bufSize := length (t @ NUL # r)\<rparr>" "t = cstr (v_value V)"
    "v_len V = length t" "length s + 1 \<le> length r"
    by (rule Grow_ok [OF assms(1)])
  have "blit (t @ NUL # r) (length t) (s @ [NUL]) = Some (t @ (s @ [NUL]) @ drop (length s) r)" by (use g(4) in \<open>simp add: blit_def\<close>)
  then have "WEB_VAR_CatS J V s = Some (V\<lparr>v_value := (t @ s) @ NUL # drop (length s) r, v_bufSize := length (t @ NUL # r), v_len := length (t @ s)\<rparr>)"
    using g by (simp add: WEB_VAR_CatS_def Let_def)
  then show ?thesis using appended [OF g(2) assms(2), of "length (t @ NUL # r)" "drop (length s) r"] g(4) by simp
qed

lemma CatC_ok:
  assumes "var_ok V" and "c \<noteq> NUL"
  shows "\<exists>V'. WEB_VAR_CatC J V c = Some V' \<and> var_appends V [c] V'"
proof -
  obtain t r where g: "WEB_VAR_Grow J V 1 = V\<lparr>v_value := t @ NUL # r, v_bufSize := length (t @ NUL # r)\<rparr>" "t = cstr (v_value V)"
    "v_len V = length t" "1 \<le> length r"
    by (rule Grow_ok [OF assms(1)])
  obtain y ys where r: "r = y # ys" using g(4) by (cases r) auto
  have "WEB_VAR_CatC J V c = Some (V\<lparr>v_value := (t @ [c]) @ NUL # ys, v_bufSize := length (t @ NUL # r), v_len := length (t @ [c])\<rparr>)"
    using g r by (simp add: WEB_VAR_CatC_def Let_def wr_def list_update_append)
  then show ?thesis using appended [OF g(2), of "[c]" "length (t @ NUL # r)" ys] assms(2) r by simp
qed

lemma var_appends_trans: "var_appends V s V' \<Longrightarrow> var_appends V' t V'' \<Longrightarrow> var_appends V (s @ t) V''"
  by (simp add: var_appends_def)

lemma fold_chars_ok:
  assumes "\<And>V c. var_ok V \<Longrightarrow> c \<noteq> NUL \<Longrightarrow> \<exists>V'. f V c = Some V' \<and> var_appends V (e c) V'"
  shows "var_ok V \<Longrightarrow> nonul s \<Longrightarrow> \<exists>V'. fold_opt f V s = Some V' \<and> var_appends V (concat (map e s)) V'"
proof (induction s arbitrary: V)
  case Nil
  then show ?case by (simp add: var_appends_def)
next
  case (Cons c s)
  then obtain V1 where V1: "f V c = Some V1" "var_appends V (e c) V1" using assms [of V c] by auto
  then obtain V2 where "fold_opt f V1 s = Some V2" "var_appends V1 (concat (map e s)) V2"
    using Cons by (fastforce simp: var_appends_def)
  then show ?case using V1 var_appends_trans [OF V1(2)] by auto
qed

definition html_text :: "char \<Rightarrow> string" where
  "html_text c = (if c = DQ then ''&quot;'' else if c = CHR ''&'' then ''&amp;'' else if c = CHR ''<'' then ''&lt;''
     else if c = CHR ''>'' then ''&gt;'' else [c])"

definition js_text :: "char \<Rightarrow> string" where
  "js_text c = (if c = BS then [BS, BS] else if c = DQ then [BS, DQ] else [c])"

lemma nohtml_char_ok: "var_ok V \<Longrightarrow> c \<noteq> NUL \<Longrightarrow> \<exists>V'. nohtml_char J V c = Some V' \<and> var_appends V (html_text c) V'"
  using CatS_ok [of V _ J] CatC_ok [of V c J] by (simp add: nohtml_char_def html_text_def)

lemma js_char_ok: "var_ok V \<Longrightarrow> c \<noteq> NUL \<Longrightarrow> \<exists>V'. js_char J V c = Some V' \<and> var_appends V (js_text c) V'"
  using CatS_ok [of V _ J] CatC_ok [of V c J] by (simp add: js_char_def js_text_def)

definition js_html_text :: "char \<Rightarrow> string" where
  "js_html_text c = (if c = BS then [BS, BS] else if c = DQ then [BS, DQ] else if c = CHR ''<'' then ''&lt;''
     else if c = CHR ''>'' then ''&gt;'' else [c])"

lemma js_nohtml_char_ok: "var_ok V \<Longrightarrow> c \<noteq> NUL \<Longrightarrow> \<exists>V'. js_nohtml_char J V c = Some V' \<and> var_appends V (js_html_text c) V'"
  using CatS_ok [of V _ J] CatC_ok [of V c J] by (simp add: js_nohtml_char_def js_html_text_def)

text \<open>What encloses the characters in quotes.\<close>

lemma quoted_ok:
  assumes "var_ok V" and "nonul s" and "\<And>V c. var_ok V \<Longrightarrow> c \<noteq> NUL \<Longrightarrow> \<exists>V'. f V c = Some V' \<and> var_appends V (e c) V'"
  shows "\<exists>V'. do { V \<leftarrow> WEB_VAR_CatC J (WEB_VAR_Grow J V n) DQ; V \<leftarrow> fold_opt f V s; WEB_VAR_CatS J V [DQ, CHR '',''] } = Some V' \<and>
    var_appends V (DQ # concat (map e s) @ [DQ, CHR '','']) V'"
proof -
  have g: "var_appends V [] (WEB_VAR_Grow J V n)" using Grow_same [OF assms(1)] .
  then have ok: "var_ok (WEB_VAR_Grow J V n)" by (simp add: var_appends_def)
  obtain V2 where V2: "WEB_VAR_CatC J (WEB_VAR_Grow J V n) DQ = Some V2" "var_appends V [DQ] V2"
    using CatC_ok [OF ok, of DQ J] var_appends_trans [OF g] by auto
  then obtain V3 where V3: "fold_opt f V2 s = Some V3" "var_appends V2 (concat (map e s)) V3"
    using fold_chars_ok [where f = f and e = e and V = V2 and s = s, OF assms(3)] assms(2) by (auto simp: var_appends_def)
  then obtain V4 where V4: "WEB_VAR_CatS J V3 [DQ, CHR '',''] = Some V4" "var_appends V3 [DQ, CHR '',''] V4"
    using CatS_ok [of V3 "[DQ, CHR '','']" J] by (auto simp: var_appends_def)
  have "var_appends V (DQ # concat (map e s) @ [DQ, CHR '','']) V4"
    using var_appends_trans [OF var_appends_trans [OF V2(2) V3(2)] V4(2)] by simp
  then show ?thesis using V2(1) V3(1) V4(1) by simp
qed

lemma CatN_cuts:
  assumes "var_ok V" and "nonul s" and "s \<noteq> []"
  shows "\<exists>V'. WEB_VAR_CatN J V s = Some V' \<and> cstr (v_value V') = cstr (v_value V) @ butlast s \<and> v_len V' = v_len V + length s \<and> \<not> var_ok V'"
proof -
  obtain t r where g: "WEB_VAR_Grow J V (length s + 1) = V\<lparr>v_value := t @ NUL # r, v_bufSize := length (t @ NUL # r)\<rparr>" "t = cstr (v_value V)"
    "v_len V = length t" "length s + 1 \<le> length r"
    by (rule Grow_ok [OF assms(1)])
  obtain u x where s: "s = u @ [x]" using assms(3) by (cases s rule: rev_cases) auto
  let ?r = "drop (length u) r"
  have "blit (t @ NUL # r) (length t) s = Some (t @ s @ ?r)" using g(4) s by (simp add: blit_def)
  moreover have "wr (t @ s @ ?r) (length t + length s - 1) NUL = Some ((t @ u) @ NUL # ?r)"
    using s by (simp add: wr_def list_update_append)
  ultimately have c: "WEB_VAR_CatN J V s = Some (V\<lparr>v_value := (t @ u) @ NUL # ?r, v_bufSize := length (t @ NUL # r), v_len := length t + length s\<rparr>)"
    using g s by (simp add: WEB_VAR_CatN_def Let_def)
  have "nonul (t @ u)" using assms(2) g(2) s by simp
  then have k: "cstr ((t @ u) @ NUL # ?r) = t @ u" by (simp del: append_assoc)
  have "\<not> var_ok (V\<lparr>v_value := (t @ u) @ NUL # ?r, v_bufSize := length (t @ NUL # r), v_len := length t + length s\<rparr>)"
  proof
    assume "var_ok (V\<lparr>v_value := (t @ u) @ NUL # ?r, v_bufSize := length (t @ NUL # r), v_len := length t + length s\<rparr>)"
    from var_okE [OF this] have "length t + length s = length (cstr ((t @ u) @ NUL # ?r))" by fastforce
    then show False unfolding k using s by simp
  qed
  then show ?thesis using c k s g(2,3) by simp
qed

lemma CatN_NoNUL_ok:
  assumes "var_ok V"
  shows "\<exists>V'. WEB_VAR_CatN_NoNUL J V s = Some V' \<and> v_len V' = v_len V + length s \<and> take (v_len V') (v_value V') = cstr (v_value V) @ s \<and>
    v_len V' < length (v_value V')"
proof -
  obtain t r where g: "WEB_VAR_Grow J V (length s + 1) = V\<lparr>v_value := t @ NUL # r, v_bufSize := length (t @ NUL # r)\<rparr>" "t = cstr (v_value V)"
    "v_len V = length t" "length s + 1 \<le> length r"
    by (rule Grow_ok [OF assms(1)])
  have "blit (t @ NUL # r) (length t) s = Some (t @ s @ drop (length s) (NUL # r))" using g(4) by (simp add: blit_def)
  then show ?thesis using g by (simp add: WEB_VAR_CatN_NoNUL_def Let_def)
qed

text \<open>
  C15: appending a string to a variable stays within its buffer, whatever the length of the string, keeps the buffer a terminated
  string of the length that the variable says (\<open>var_ok\<close>), and appends the text: one character, the string as it is, with the characters of
  HTML replaced, or as a quoted string with a comma and with its backslashes and quotes escaped.  The two routines that take bytes and their
  number do not keep it: \<open>WEB_VAR_CatN\<close> writes the terminator over the last byte, which it still counts, and
  \<open>WEB_VAR_CatN_NoNUL\<close> places the bytes within the buffer and leaves it without a terminator.
\<close>

theorem WEB_VAR_Cat_keeps:
  assumes "var_ok V" and "nonul s"
  shows "(\<exists>V'. WEB_VAR_CatS J V s = Some V' \<and> var_appends V s V') \<and>
    (\<exists>V'. WEB_VAR_CatS_NODUP J V s = Some V' \<and> var_appends V s V') \<and>
    (\<exists>V'. WEB_VAR_Cat J V s = Some V' \<and> var_appends V s V') \<and>
    (c \<noteq> NUL \<longrightarrow> (\<exists>V'. WEB_VAR_CatC J V c = Some V' \<and> var_appends V [c] V')) \<and>
    (\<exists>V'. WEB_VAR_CatS_NoHTML J V s = Some V' \<and> var_appends V (concat (map html_text s)) V') \<and>
    (\<exists>V'. WEB_VAR_CatJS J V s = Some V' \<and> var_appends V (DQ # concat (map js_text s) @ [DQ, CHR '','']) V') \<and>
    (\<exists>V'. WEB_VAR_CatJS_NoHTML J V s = Some V' \<and> var_appends V (DQ # concat (map js_html_text s) @ [DQ, CHR '','']) V') \<and>
    (s \<noteq> [] \<longrightarrow> (\<exists>V'. WEB_VAR_CatN J V s = Some V' \<and> cstr (v_value V') = cstr (v_value V) @ butlast s \<and>
       v_len V' = v_len V + length s \<and> \<not> var_ok V')) \<and>
    (\<exists>V'. WEB_VAR_CatN_NoNUL J V s = Some V' \<and> v_len V' = v_len V + length s \<and> take (v_len V') (v_value V') = cstr (v_value V) @ s \<and>
       v_len V' < length (v_value V'))"
proof (intro conjI impI)
  have S: "\<exists>V'. WEB_VAR_CatS J V s = Some V' \<and> var_appends V s V'" using assms by (rule CatS_ok)
  show "\<exists>V'. WEB_VAR_CatS J V s = Some V' \<and> var_appends V s V'" by (rule S)
  show "\<exists>V'. WEB_VAR_CatS_NODUP J V s = Some V' \<and> var_appends V s V'" using S by (simp add: WEB_VAR_CatS_def WEB_VAR_CatS_NODUP_def)
  show "\<exists>V'. WEB_VAR_Cat J V s = Some V' \<and> var_appends V s V'" using S by (simp add: WEB_VAR_CatS_def WEB_VAR_Cat_def)
  show "\<exists>V'. WEB_VAR_CatC J V c = Some V' \<and> var_appends V [c] V'" if "c \<noteq> NUL" using assms(1) that by (rule CatC_ok)
  have g: "var_appends V [] (WEB_VAR_Grow J V n)" for n using Grow_same [OF assms(1)] .
  then have ok: "var_ok (WEB_VAR_Grow J V n)" for n by (simp add: var_appends_def)
  obtain V1 where "fold_opt (nohtml_char J) (WEB_VAR_Grow J V (length s)) s = Some V1"
    "var_appends (WEB_VAR_Grow J V (length s)) (concat (map html_text s)) V1"
    using fold_chars_ok [where f = "nohtml_char J" and e = html_text, OF nohtml_char_ok ok [of "length s"] assms(2)] by auto
  then show "\<exists>V'. WEB_VAR_CatS_NoHTML J V s = Some V' \<and> var_appends V (concat (map html_text s)) V'"
    using var_appends_trans [OF g [of "length s"]] by (auto simp: WEB_VAR_CatS_NoHTML_def)
  show "\<exists>V'. WEB_VAR_CatJS J V s = Some V' \<and> var_appends V (DQ # concat (map js_text s) @ [DQ, CHR '','']) V'"
    unfolding WEB_VAR_CatJS_def by (rule quoted_ok [OF assms js_char_ok])
  show "\<exists>V'. WEB_VAR_CatJS_NoHTML J V s = Some V' \<and> var_appends V (DQ # concat (map js_html_text s) @ [DQ, CHR '','']) V'"
    unfolding WEB_VAR_CatJS_NoHTML_def by (rule quoted_ok [OF assms js_nohtml_char_ok])
qed (rule CatN_cuts [OF assms] CatN_NoNUL_ok [OF assms(1)]; assumption)+

theorem WEB_VAR_Cat_keeps_witness:
  "\<exists>V'. WEB_VAR_CatS_NoHTML NUL \<lparr>v_key = ''x'', v_value = ''1'' @ [NUL], v_len = 1, v_bufSize = 2, v_global = False\<rparr> ''a<b'' = Some V' \<and>
     var_appends \<lparr>v_key = ''x'', v_value = ''1'' @ [NUL], v_len = 1, v_bufSize = 2, v_global = False\<rparr> ''a&lt;b'' V'"
proof -
  have "var_ok \<lparr>v_key = ''x'', v_value = ''1'' @ [NUL], v_len = 1, v_bufSize = 2, v_global = False\<rparr>" by (intro var_okI [of _ "''1''" "[]"]) simp_all
  moreover have "concat (map html_text ''a<b'') = ''a&lt;b''" by code_simp
  ultimately show ?thesis
    using WEB_VAR_Cat_keeps [of "\<lparr>v_key = ''x'', v_value = ''1'' @ [NUL], v_len = 1, v_bufSize = 2, v_global = False\<rparr>" "''a<b''" NUL] by simp
qed

section \<open>Error messages\<close>

definition msg_text :: "char \<Rightarrow> string" where
  "msg_text c = (if c = CHR ''<'' then ''&lt;'' else if c = CHR ''>'' then ''&gt;'' else [c])"

lemma message_html_step:
  "message_html len d (c # s) = (if d < len - 5 then msg_text c @ message_html len (d + length (msg_text c)) s else [])"
  by (simp add: msg_text_def eval_nat_numeral)

lemma length_msg_text: "length (msg_text c) \<le> 4" by (simp add: msg_text_def)

lemma message_html_text:
  "\<exists>n. message_html len d s = concat (map msg_text (take n s)) \<and>
       d + length (message_html len d s) \<le> max d (len - 2) \<and>
       (n < length s \<longrightarrow> d + length (message_html len d s) \<ge> len - 5)"
proof (induction s arbitrary: d)
  case (Cons c s)
  show ?case
  proof (cases "d < len - 5")
    case False
    then show ?thesis by (intro exI [of _ 0]) simp
  next
    case True
    let ?d = "d + length (msg_text c)"
    obtain n where n: "message_html len ?d s = concat (map msg_text (take n s))"
      "?d + length (message_html len ?d s) \<le> max ?d (len - 2)"
      "n < length s \<longrightarrow> ?d + length (message_html len ?d s) \<ge> len - 5" using Cons.IH by blast
    have "d + 4 \<le> len - 2" using True by simp
    then have "?d \<le> len - 2" using length_msg_text [of c] by linarith
    then have "?d + length (message_html len ?d s) \<le> len - 2" using n(2) by simp
    then show ?thesis using n(1,3) True unfolding message_html_step by (intro exI [of _ "Suc n"]) (simp add: add.assoc)
  qed
qed simp

text \<open>
  An error message is turned into HTML within the buffer: the text is the message, or a beginning of it when the buffer is
  nearly full, with its angle brackets replaced, so that it has none.
\<close>

theorem MessageToHTML_safe:
  assumes "5 \<le> n"
  shows "\<exists>k. MessageToHTML n msg = concat (map msg_text (take k msg)) \<and> length (MessageToHTML n msg) < n \<and>
    set (MessageToHTML n msg) \<inter> set ''<>'' = {} \<and> (k < length msg \<longrightarrow> length (MessageToHTML n msg) \<ge> n - 5)"
proof -
  obtain k where k: "message_html n 0 msg = concat (map msg_text (take k msg))"
    "0 + length (message_html n 0 msg) \<le> max 0 (n - 2)"
    "k < length msg \<longrightarrow> 0 + length (message_html n 0 msg) \<ge> n - 5" using message_html_text [of n 0 msg] by blast
  have "set (msg_text c) \<inter> set ''<>'' = {}" for c by (simp add: msg_text_def)
  then have "set (concat (map msg_text s)) \<inter> set ''<>'' = {}" for s by (induction s) auto
  then have "set (message_html n 0 msg) \<inter> set ''<>'' = {}" unfolding k(1) .
  moreover have "length (message_html n 0 msg) < n" using k(2) assms by simp
  ultimately show ?thesis using k unfolding MessageToHTML_def by (intro exI [of _ k]) simp
qed

theorem MessageToHTML_safe_witness:
  "\<exists>k. MessageToHTML WEB_ERROR_MAX ''a<b>'' = concat (map msg_text (take k ''a<b>'')) \<and> length (MessageToHTML WEB_ERROR_MAX ''a<b>'') < WEB_ERROR_MAX \<and>
    set (MessageToHTML WEB_ERROR_MAX ''a<b>'') \<inter> set ''<>'' = {} \<and>
    (k < length ''a<b>'' \<longrightarrow> length (MessageToHTML WEB_ERROR_MAX ''a<b>'') \<ge> WEB_ERROR_MAX - 5)"
  by (rule MessageToHTML_safe) (simp add: WEB_ERROR_MAX_def)


section \<open>Templates\<close>

text \<open>A document as text, references to variables and texts to translate, each written with a dollar sign or its escape
  (the flag); its source and what is written for it.  The scan of a name stops before the last character of the document.\<close>

datatype piece = P_Text string | P_Ref bool string | P_Msg bool string

definition var_sign :: "bool \<Rightarrow> string" where
  "var_sign pct = (if pct then ''%24'' else ''$'')"

fun piece_src :: "piece \<Rightarrow> string" where
  "piece_src (P_Text t) = t"
| "piece_src (P_Ref pct v) = var_sign pct @ v"
| "piece_src (P_Msg pct m) = var_sign pct @ ''_('' @ m @ '')''"

definition var_text :: "WEB_Variable list \<Rightarrow> string \<Rightarrow> string" where
  "var_text vars v = (if v = [] then [] else case WEB_VAR_Get vars v of Some b \<Rightarrow> cstr b | None \<Rightarrow> [])"

fun template_text :: "(string \<Rightarrow> string) \<Rightarrow> WEB_Variable list \<Rightarrow> piece list \<Rightarrow> string" where
  "template_text tr vars [] = []"
| "template_text tr vars (P_Text t # ps) = t @ template_text tr vars ps"
| "template_text tr vars (P_Ref pct v # ps) =
     (if ps = [] then var_text vars (butlast v) @ [last v] else var_text vars v @ template_text tr vars ps)"
| "template_text tr vars (P_Msg pct m # ps) = tr m @ template_text tr vars ps"

text \<open>A text has no sign; a name ends where the next text begins.\<close>

fun sign_free :: "string \<Rightarrow> bool" where
  "sign_free [] = True"
| "sign_free (c # t) = (c \<noteq> CHR ''$'' \<and> take 3 (c # t) \<noteq> ''%24'' \<and> sign_free t)"

fun template_ok :: "piece list \<Rightarrow> bool" where
  "template_ok [] = True"
| "template_ok (P_Text t # ps) = (t \<noteq> [] \<and> sign_free t \<and> template_ok ps \<and> (case ps of P_Text _ # _ \<Rightarrow> False | _ \<Rightarrow> True))"
| "template_ok (P_Ref pct v # ps) = (v \<noteq> [] \<and> list_all VarNameChar v \<and> length v < VAR_GETTEXT_MAX \<and> template_ok ps \<and>
     (case ps of [] \<Rightarrow> v \<noteq> ''_'' | P_Text (c # t) # _ \<Rightarrow> \<not> VarNameChar c \<and> (c = CHR ''('' \<longrightarrow> v \<noteq> ''_'') | _ \<Rightarrow> True))"
| "template_ok (P_Msg pct m # ps) = (list_all (\<lambda>c. isprint c \<and> c \<noteq> CHR '')'') m \<and> length m < VAR_GETTEXT_MAX \<and> template_ok ps)"

lemma scan_name_stops:
  "list_all P v \<Longrightarrow> \<not> P c \<Longrightarrow> length v \<le> n \<Longrightarrow> scan_name P n (v @ c # s) = (v, c # s)"
proof (induction v arbitrary: n)
  case Nil
  then show ?case by (cases n; cases s) simp_all
next
  case (Cons x v)
  then obtain m where "n = Suc m" by (cases n) auto
  then show ?case using Cons by (cases v) (simp_all split: prod.split)
qed

lemma scan_name_end: "list_all P v \<Longrightarrow> length v \<le> n \<Longrightarrow> scan_name P n (v @ [c]) = (v, [c])"
proof (induction v arbitrary: n)
  case (Cons x v)
  then obtain m where "n = Suc m" by (cases n) auto
  then show ?case using Cons by (cases v) (simp_all split: prod.split)
qed simp

lemma Write_data: "q_data (WEB_Write q s) = q_data q @ s"
  by (simp add: WEB_Write_def)

lemma text_mode:
  assumes "sign_free (c # t)" and "s = [] \<or> hd s \<noteq> CHR ''2'' \<and> hd s \<noteq> CHR ''4''"
  shows "filter_mode (c # t @ s) = Some (WEB_VARSUBST_NORMAL, [], c # t @ s)"
proof -
  have "take 3 (c # t @ s) \<noteq> ''%24''"
  proof
    assume e: "take 3 (c # t @ s) = ''%24''"
    show False
    proof (cases t)
      case Nil
      then show False using e assms(2) by (cases s) (auto simp: numeral_3_eq_3)
    next
      case (Cons d t')
      then show False using e assms by (cases t'; cases s) (auto simp: numeral_3_eq_3)
    qed
  qed
  then show ?thesis using assms(1) unfolding filter_mode_def by (simp only: if_False simp_thms) simp
qed

lemma filter_text:
  assumes "sign_free t" and "s = [] \<or> hd s \<noteq> CHR ''2'' \<and> hd s \<noteq> CHR ''4''"
  shows "filter_document tr vars (t @ s) q = filter_document tr vars s (foldl (\<lambda>q c. WEB_Write q [c]) q t)"
  using assms(1)
proof (induction t arbitrary: q)
  case (Cons c t)
  then have "filter_document tr vars ((c # t) @ s) q = filter_document tr vars (t @ s) (WEB_Write q [c])"
    using text_mode [OF Cons.prems assms(2)] by (subst filter_document.simps) (simp add: filter_put_def rd_def)
  then show ?case using Cons by simp
qed simp

lemma Write_chars: "q_data (foldl (\<lambda>q c. WEB_Write q [c]) q t) = q_data q @ t"
  by (induction t arbitrary: q) (simp_all add: Write_data)

lemma sign_mode:
  assumes "var_name s = Some (isText, v, r)" and "s = c # s'" "c \<noteq> CHR ''$''" "c \<noteq> CHR ''%''"
  shows "filter_mode (var_sign pct @ s) = Some (if isText then WEB_VARSUBST_TRANSLATE else WEB_VARSUBST_VAR, v, r)"
  using assms by (cases pct) (auto simp: filter_mode_def var_sign_def rd_def)

lemma name_char: "VarNameChar c \<Longrightarrow> c \<noteq> CHR ''$'' \<and> c \<noteq> CHR ''%'' \<and> c \<noteq> CHR ''(''"
proof -
  have "\<not> VarNameChar (CHR ''$'')" "\<not> VarNameChar (CHR ''%'')" "\<not> VarNameChar (CHR ''('')" by code_simp+
  then show "VarNameChar c \<Longrightarrow> ?thesis" by blast
qed

lemma var_name_ref:
  assumes "v = x # v'" "list_all VarNameChar v" and "scan_name VarNameChar (VAR_GETTEXT_MAX - 1) (v @ s) = (w, r)"
    and "v = ''_'' \<Longrightarrow> s \<noteq> [] \<and> hd s \<noteq> CHR ''(''"
  shows "var_name (v @ s) = Some (False, w, r)"
proof -
  have "(if x = CHR ''_'' then map_option (\<lambda>d. d = CHR ''('') (rd (v @ s) 1) else Some False) = Some False"
  proof (cases "x = CHR ''_''")
    case True
    show ?thesis
    proof (cases v')
      case Nil
      then show ?thesis using True assms(1,4) by (cases s) (simp_all add: rd_def)
    next
      case (Cons y v'')
      then show ?thesis using True assms(1,2) name_char [of y] by (simp add: rd_def)
    qed
  qed simp
  moreover have "rd (v @ s) 0 = Some x" using assms(1) by (simp add: rd_def)
  ultimately show ?thesis by (simp only: var_name_def assms(3) bind.bind_lunit) simp
qed

lemma filter_ref:
  assumes "v = x # v'" "list_all VarNameChar v" and "scan_name VarNameChar (VAR_GETTEXT_MAX - 1) (v @ s) = (w, r)"
    and "v = ''_'' \<Longrightarrow> s \<noteq> [] \<and> hd s \<noteq> CHR ''(''" and "\<forall>V \<in> set vars. terminated (v_value V)"
  shows "\<exists>q'. filter_document tr vars (var_sign pct @ v @ s) q = filter_document tr vars r q' \<and> q_data q' = q_data q @ var_text vars w"
proof -
  have x: "x \<noteq> CHR ''$''" "x \<noteq> CHR ''%''" using assms(1,2) name_char [of x] by simp_all
  have n: "var_name (v @ s) = Some (False, w, r)" by (rule var_name_ref [OF assms(1-4)])
  have m: "filter_mode (var_sign pct @ v @ s) = Some (WEB_VARSUBST_VAR, w, r)"
    using sign_mode [OF n, of x "v' @ s"] assms(1) x by simp
  obtain q1 where q1: "filter_put WEB_Write tr vars q (WEB_VARSUBST_VAR, w, r) = Some (q1, r)" "q_data q1 = q_data q @ var_text vars w"
  proof (cases "w = [] \<or> WEB_VAR_Get vars w = None")
    case True
    then show ?thesis by (intro that [of q]) (auto simp: filter_put_def var_text_def)
  next
    case False
    then obtain b where b: "WEB_VAR_Get vars w = Some b" "w \<noteq> []" by blast
    then have "terminated b" using assms(5) by (auto simp: WEB_VAR_Get_def find_Some_iff)
    then show ?thesis using b by (intro that [of "WEB_Write q (cstr b)"]) (simp_all add: filter_put_def Write_data var_text_def)
  qed
  have "var_sign pct @ v @ s \<noteq> []" using assms(1) by simp
  then have "filter_document tr vars (var_sign pct @ v @ s) q = filter_document tr vars r q1"
    using m q1(1) filter_document.simps [of tr vars "var_sign pct @ v @ s" q] by (simp only: if_False option.case prod.case)
  then show ?thesis using q1(2) by blast
qed

lemma template_hd: "ps \<noteq> [] \<Longrightarrow> (case ps of P_Text _ # _ \<Rightarrow> False | _ \<Rightarrow> True) \<Longrightarrow>
  \<exists>c s. concat (map piece_src ps) = c # s \<and> (c = CHR ''$'' \<or> c = CHR ''%'')"
  by (auto simp: var_sign_def neq_Nil_conv split: piece.splits)

lemma filter_template:
  assumes "template_ok ps" and "\<forall>V \<in> set vars. terminated (v_value V)"
  shows "\<exists>q'. filter_document tr vars (concat (map piece_src ps)) q = Some q' \<and> q_data q' = q_data q @ template_text tr vars ps"
  using assms(1)
proof (induction ps arbitrary: q rule: template_ok.induct)
  case 1
  then show ?case by (simp add: filter_document.simps)
next
  case (2 t ps)
  let ?q = "foldl (\<lambda>q c. WEB_Write q [c]) q t"
  have "concat (map piece_src ps) = [] \<or> hd (concat (map piece_src ps)) \<noteq> CHR ''2'' \<and> hd (concat (map piece_src ps)) \<noteq> CHR ''4''"
    using template_hd [of ps] 2(2) by (cases "ps = []") auto
  then have f: "filter_document tr vars (concat (map piece_src (P_Text t # ps))) q = filter_document tr vars (concat (map piece_src ps)) ?q"
    using 2 by (simp add: filter_text)
  obtain q' where "filter_document tr vars (concat (map piece_src ps)) ?q = Some q'"
    "q_data q' = q_data ?q @ template_text tr vars ps" using 2 by auto
  then show ?case using f by (simp add: Write_chars)
next
  case (3 pct v ps)
  let ?s = "concat (map piece_src ps)"
  obtain x v' where v: "v = x # v'" using 3(2) by (cases v) auto
  have ok: "list_all VarNameChar v" "length v < VAR_GETTEXT_MAX" "template_ok ps" using 3(2) by simp_all
  show ?case
  proof (cases "ps = []")
    case True
    have us: "v \<noteq> ''_''" using 3(2) True by simp
    have bl: "v = butlast v @ [last v]" using v by simp
    have nc: "VarNameChar (last v)" using ok(1) v by (simp add: list_all_iff)
    have "scan_name VarNameChar (VAR_GETTEXT_MAX - 1) (butlast v @ [last v]) = (butlast v, [last v])"
    proof (rule scan_name_end)
      show "list_all VarNameChar (butlast v)" using ok(1) by (auto simp: list_all_iff dest: in_set_butlastD)
    qed (use ok(2) in simp)
    then have "scan_name VarNameChar (VAR_GETTEXT_MAX - 1) (v @ []) = (butlast v, [last v])" using bl by simp
    from filter_ref [OF v ok(1) this _ assms(2), of tr pct q] us
    obtain q1 where q1: "filter_document tr vars (var_sign pct @ v) q = filter_document tr vars [last v] q1"
      "q_data q1 = q_data q @ var_text vars (butlast v)" by auto
    have "sign_free [last v]" using name_char [OF nc] by simp
    from filter_text [OF this, of "[]" tr vars q1]
    have "filter_document tr vars [last v] q1 = Some (WEB_Write q1 [last v])" by (simp add: filter_document.simps [of tr vars "[]"])
    then show ?thesis using True q1 by (simp add: Write_data)
  next
    case False
    have "\<exists>c r. ?s = c # r \<and> \<not> VarNameChar c \<and> (v = ''_'' \<longrightarrow> c \<noteq> CHR ''('')"
    proof (cases "case ps of P_Text _ # _ \<Rightarrow> False | _ \<Rightarrow> True")
      case True
      then obtain c r where "?s = c # r" "c = CHR ''$'' \<or> c = CHR ''%''" using template_hd [OF False] by blast
      then show ?thesis using name_char [of c] by auto
    next
      case False
      then obtain t ps' where ps: "ps = P_Text t # ps'" by (auto split: list.splits piece.splits)
      then obtain c t' where "t = c # t'" using ok(3) by (cases t) auto
      then show ?thesis using 3(2) ps by auto
    qed
    then obtain c r where s: "?s = c # r" "\<not> VarNameChar c" "v = ''_'' \<longrightarrow> c \<noteq> CHR ''(''" by blast
    have "scan_name VarNameChar (VAR_GETTEXT_MAX - 1) (v @ ?s) = (v, ?s)"
      unfolding s(1) using ok s(2) by (intro scan_name_stops) auto
    from filter_ref [OF v ok(1) this _ assms(2), of tr pct q] s
    obtain q1 where q1: "filter_document tr vars (var_sign pct @ v @ ?s) q = filter_document tr vars ?s q1"
      "q_data q1 = q_data q @ var_text vars v" by auto
    obtain q' where "filter_document tr vars ?s q1 = Some q'" "q_data q' = q_data q1 @ template_text tr vars ps"
      using 3(1) ok(3) by blast
    then show ?thesis using q1 False by simp
  qed
next
  case (4 pct m ps)
  let ?s = "concat (map piece_src ps)" and ?P = "\<lambda>c. c \<noteq> CHR '')'' \<and> isprint c"
  have "scan_name ?P (VAR_GETTEXT_MAX - 1) (m @ CHR '')'' # ?s) = (m, CHR '')'' # ?s)"
  proof (rule scan_name_stops)
    show "list_all ?P m" using 4(2) by (simp add: list_all_iff)
    show "\<not> ?P (CHR '')'')" by simp
    show "length m \<le> VAR_GETTEXT_MAX - 1" using 4(2) by (simp add: VAR_GETTEXT_MAX_def)
  qed
  note sc = this
  have r: "rd (''_('' @ m @ '')'' @ ?s) 0 = Some (CHR ''_'')" "rd (''_('' @ m @ '')'' @ ?s) 1 = Some (CHR ''('')"
    "drop 2 (''_('' @ m @ '')'' @ ?s) = m @ CHR '')'' # ?s" by (simp_all add: rd_def)
  have n: "var_name (''_('' @ m @ '')'' @ ?s) = Some (True, m, ?s)"
    by (simp only: var_name_def r bind.bind_lunit if_True option.map sc) simp
  have f: "filter_mode (var_sign pct @ ''_('' @ m @ '')'' @ ?s) = Some (WEB_VARSUBST_TRANSLATE, m, ?s)"
    using sign_mode [OF n, of "CHR ''_''"] by simp
  obtain q' where "filter_document tr vars ?s (WEB_Write q (tr m)) = Some q'"
    "q_data q' = q_data (WEB_Write q (tr m)) @ template_text tr vars ps"
    using 4 by auto
  moreover have "filter_document tr vars (concat (map piece_src (P_Msg pct m # ps))) q = filter_document tr vars ?s (WEB_Write q (tr m))"
    using f by (subst filter_document.simps) (simp add: filter_put_def)
  ultimately show ?case by (simp add: Write_data)
qed


text \<open>
  C13: a document of texts, references to variables and texts to translate, each behind a dollar sign or \<open>%24\<close>, is written with the
  values of the variables and the translations in place; a variable that is not set is left out.  At the end of the document
  the last character of a name is not part of it: the variable of the shorter name is written, and then that character.
  Of a text it is required that it has no dollar sign and no \<open>%24\<close> (a doubled sign is not covered) and does not go on with a
  character of names behind a reference; of names that they have less than \<open>VAR_GETTEXT_MAX\<close> characters, and that a single
  underscore is not followed by a parenthesis or the end; of texts to translate that their characters can be printed and they
  have no closing parenthesis; and that the values of variables are terminated.
\<close>

theorem WEB_VAR_FilterDocument_expands:
  assumes "template_ok ps" and "\<forall>V \<in> set vars. terminated (v_value V)"
  shows "\<exists>q'. WEB_VAR_FilterDocument tr vars q (concat (map piece_src ps)) = Some q' \<and>
    q_data q' = q_data q @ template_text tr vars ps"
  using filter_template [OF assms] by (simp add: WEB_VAR_FilterDocument_def)

definition name_var :: WEB_Variable where
  "name_var = \<lparr>v_key = ''name'', v_value = ''Ann'' @ [NUL], v_len = 3, v_bufSize = 4, v_global = False\<rparr>"

theorem WEB_VAR_FilterDocument_expands_witness:
  "\<exists>q'. WEB_VAR_FilterDocument (\<lambda>s. ''Hallo'') [name_var] fresh_query ''$_(Hello) %24name$name, 5% $names'' = Some q' \<and> q_data q' = ''Hallo AnnAnn, 5% Anns''"
proof -
  let ?ps = "[P_Msg False ''Hello'', P_Text '' '', P_Ref True ''name'', P_Ref False ''name'', P_Text '', 5% '', P_Ref False ''names'']"
  have ok: "template_ok ?ps" by code_simp
  have vars: "\<forall>V \<in> set [name_var]. terminated (v_value V)" by (simp add: name_var_def terminated_def)
  have src: "concat (map piece_src ?ps) = ''$_(Hello) %24name$name, 5% $names''" by code_simp
  have out: "template_text (\<lambda>s. ''Hallo'') [name_var] ?ps = ''Hallo AnnAnn, 5% Anns''" by code_simp
  have q: "q_data fresh_query = []" by (simp add: fresh_query_def)
  show ?thesis
    using WEB_VAR_FilterDocument_expands [OF ok vars, of "\<lambda>s. ''Hallo''" fresh_query] unfolding src out q append_Nil .
qed

section \<open>Fragments\<close>

lemma fragment_result:
  assumes "filter_fragment tr vars b s q = Some r"
  shows "s = [] \<or> body_tag s \<noteq> Some Body_None \<or> b"
proof (rule filter_fragment.raw_induct [where P = "\<lambda>tr vars b s q r. s = [] \<or> body_tag s \<noteq> Some Body_None \<or> b", rotated, OF assms])
  fix f :: "(string \<Rightarrow> string) \<Rightarrow> WEB_Variable list \<Rightarrow> bool \<Rightarrow> string \<Rightarrow> WEB_Query \<Rightarrow> WEB_Query option option" and tr vars b s q r
  assume IH: "\<And>tr vars b s q r. f tr vars b s q = Some r \<Longrightarrow> s = [] \<or> body_tag s \<noteq> Some Body_None \<or> b"
    and body: "(if s = [] then Some (Some q)
      else case body_tag s of
        None \<Rightarrow> Some None
      | Some tag \<Rightarrow>
          if tag = Body_End then Some (Some q)
          else if \<not> b \<and> tag \<noteq> Body_Begin then f tr vars b s q
          else (case filter_mode s of
             None \<Rightarrow> Some None
           | Some m \<Rightarrow> (case filter_put WEB_VAR_WriteJSON tr vars q m of
                None \<Rightarrow> Some None
              | Some (q', s') \<Rightarrow> f tr vars True s' q'))) = Some r"
  show "s = [] \<or> body_tag s \<noteq> Some Body_None \<or> b"
  proof (rule ccontr)
    assume n: "\<not> (s = [] \<or> body_tag s \<noteq> Some Body_None \<or> b)"
    then have "f tr vars b s q = Some r" using body by simp
    from IH [OF this] n show False by blast
  qed
qed

lemma fragment_stuck: "s \<noteq> [] \<Longrightarrow> body_tag s = Some Body_None \<Longrightarrow> filter_fragment tr vars False s q = None"
  using fragment_result by (cases "filter_fragment tr vars False s q") fastforce+

lemma fragment_end: "body_tag s = Some Body_End \<Longrightarrow> filter_fragment tr vars b s q = Some (Some q)"
  by (subst filter_fragment.simps) simp

text \<open>Within the body every pass moves on.\<close>

lemma fragment_body: "\<exists>r. filter_fragment tr vars True s q = Some r"
proof (induction "length s" arbitrary: s q rule: less_induct)
  case less
  have step: "\<exists>r. filter_fragment tr vars True s' q' = Some r"
    if "filter_mode s = Some m" "filter_put WEB_VAR_WriteJSON tr vars q m = Some (q', s')" for m q' s'
    using less filter_put_length [OF that] by blast
  show ?case by (subst filter_fragment.simps) (auto split: option.splits dest: step)
qed

lemma fragment_begin:
  assumes "body_tag s = Some Body_Begin" and "s \<noteq> []"
  shows "\<exists>r. filter_fragment tr vars False s q = Some r"
  using assms by (subst filter_fragment.simps) (auto split: option.splits intro: fragment_body)

text \<open>Within the body, text without signs and body tags is written as it is, escaped.\<close>

definition json_text :: "char \<Rightarrow> string" where
  "json_text c = (if c = BS then [BS, BS] else if c = DQ then [BS, DQ] else if c = LF then BS # ''n'' else if c = HT then BS # ''t'' else [c])"

fun tag_free :: "string \<Rightarrow> bool" where
  "tag_free [] = True"
| "tag_free (c # t) = (body_tag (c # t @ ''</body>'') = Some Body_None \<and> tag_free t)"

lemma json_frag_data: "q_data (WEB_VAR_WriteJSON q [c]) = q_data q @ json_text c"
  by (simp add: WEB_VAR_WriteJSON_def json_frag_char_def json_text_def WEB_PutS_def WEB_PutC_def Write_data)

lemma starts_with_append: "starts_with s p = Some b \<Longrightarrow> starts_with (s @ r) p = Some b"
  by (induction s p rule: starts_with.induct) (auto split: if_splits)

lemma body_tag_append: "body_tag s = Some b \<Longrightarrow> s \<noteq> [] \<Longrightarrow> body_tag (s @ r) = Some b"
proof -
  assume t: "body_tag s = Some b" and "s \<noteq> []"
  then obtain c s' where s: "s = c # s'" by (cases s) auto
  show "body_tag (s @ r) = Some b"
  proof (cases "c = CHR ''<''")
    case False
    then show ?thesis using t unfolding s by (simp add: body_tag_def)
  next
    case True
    obtain x where x: "starts_with s' ''body>'' = Some x" using t True unfolding s body_tag_def by (cases "starts_with s' ''body>''") simp_all
    show ?thesis
    proof (cases x)
      case x': True
      then show ?thesis using t x starts_with_append [OF x] True unfolding s by (simp add: body_tag_def)
    next
      case x': False
      obtain y where y: "starts_with s' ''/body>'' = Some y" using t x x' True unfolding s body_tag_def by (cases "starts_with s' ''/body>''") simp_all
      show ?thesis using t x x' y starts_with_append [OF x, of r] starts_with_append [OF y, of r] True unfolding s by (simp add: body_tag_def)
    qed
  qed
qed

lemma fragment_char:
  assumes "body_tag (c # s) \<noteq> None" "body_tag (c # s) \<noteq> Some Body_End" "b \<or> body_tag (c # s) = Some Body_Begin"
    and "filter_mode (c # s) = Some (WEB_VARSUBST_NORMAL, [], c # s)"
  shows "filter_fragment tr vars b (c # s) q = filter_fragment tr vars True s (WEB_VAR_WriteJSON q [c])"
proof -
  obtain m where m: "body_tag (c # s) = Some m" using assms(1) by blast
  have p: "filter_put WEB_VAR_WriteJSON tr vars q (WEB_VARSUBST_NORMAL, [], c # s) = Some (WEB_VAR_WriteJSON q [c], s)"
    by (simp add: filter_put_def rd_def)
  show ?thesis
    using assms(2,3) m by (subst filter_fragment.simps) (auto simp: assms(4) p)
qed

lemma fragment_text:
  assumes "sign_free t" and "tag_free t"
  shows "\<exists>q'. filter_fragment tr vars True (t @ ''</body>'' @ r) q = Some (Some q') \<and> q_data q' = q_data q @ concat (map json_text t)"
  using assms
proof (induction t arbitrary: q)
  case Nil
  have "body_tag (''</body>'' @ r) = Some Body_End" by (simp add: body_tag_def)
  then show ?case using fragment_end by simp
next
  case (Cons c t)
  have "body_tag ((c # t @ ''</body>'') @ r) = Some Body_None" using Cons.prems(2) by (intro body_tag_append) simp_all
  moreover have "filter_mode (c # t @ ''</body>'' @ r) = Some (WEB_VARSUBST_NORMAL, [], c # t @ ''</body>'' @ r)"
    using Cons.prems(1) by (intro text_mode) simp_all
  ultimately have "filter_fragment tr vars True ((c # t) @ ''</body>'' @ r) q = filter_fragment tr vars True (t @ ''</body>'' @ r) (WEB_VAR_WriteJSON q [c])"
    using fragment_char [of c "t @ ''</body>'' @ r" True] by simp
  then show ?case using Cons.IH [of "WEB_VAR_WriteJSON q [c]"] Cons.prems by (auto simp: json_frag_data)
qed

lemma fragment_whole:
  assumes "sign_free t" and "tag_free t"
  shows "\<exists>q'. filter_fragment tr vars False (''<body>'' @ t @ ''</body>'' @ r) q = Some (Some q') \<and>
    q_data q' = q_data q @ concat (map json_text (''<body>'' @ t))"
proof -
  let ?s = "''body>'' @ t @ ''</body>'' @ r"
  have "body_tag (CHR ''<'' # ?s) = Some Body_Begin" by (simp add: body_tag_def)
  moreover have "filter_mode (CHR ''<'' # ?s) = Some (WEB_VARSUBST_NORMAL, [], CHR ''<'' # ?s)" by (simp add: filter_mode_def)
  ultimately have f: "filter_fragment tr vars False (CHR ''<'' # ?s) q = filter_fragment tr vars True ?s (WEB_VAR_WriteJSON q ''<'')"
    by (intro fragment_char) simp_all
  have "sign_free (''body>'' @ t)" using assms(1) by simp
  moreover have "tag_free (''body>'' @ t)" using assms(2) by (simp add: body_tag_def)
  ultimately obtain q' where "filter_fragment tr vars True ?s (WEB_VAR_WriteJSON q ''<'') = Some (Some q')"
    "q_data q' = q_data (WEB_VAR_WriteJSON q ''<'') @ concat (map json_text (''body>'' @ t))"
    using fragment_text [of "''body>'' @ t"] by fastforce
  then show ?thesis using f by (simp add: json_frag_data)
qed

text \<open>
  C16: the filter of fragments runs for ever exactly on the nonempty fragments that do not begin with a body tag (whole or cut).
  A fragment that ends within a tag at its beginning is read past its end (the inner \<open>None\<close>, which is not a
  return: what the code does from there depends on the memory behind the fragment, and it may as well not end).  An empty fragment and one that begins with the end tag return at once and write nothing; a body of text without
  variables or further body tags returns, the characters of the tag and of the text written with the escapes of JSON, and what
  follows the end tag left out.
\<close>

theorem WEB_VAR_FilterFragment_returns:
  "(WEB_VAR_FilterFragment tr vars q src = None \<longleftrightarrow> src \<noteq> [] \<and> body_tag src = Some Body_None) \<and>
   (src \<noteq> [] \<and> body_tag src = None \<longrightarrow> WEB_VAR_FilterFragment tr vars q src = Some None) \<and>
   (src = [] \<or> body_tag src = Some Body_End \<longrightarrow> WEB_VAR_FilterFragment tr vars q src = Some (Some q)) \<and>
   (sign_free t \<and> tag_free t \<longrightarrow> (\<exists>q'. WEB_VAR_FilterFragment tr vars q (''<body>'' @ t @ ''</body>'' @ r) = Some (Some q') \<and>
      q_data q' = q_data q @ concat (map json_text (''<body>'' @ t))))"
proof (intro conjI impI)
  show "WEB_VAR_FilterFragment tr vars q src = None \<longleftrightarrow> src \<noteq> [] \<and> body_tag src = Some Body_None"
  proof (cases "src = []")
    case True
    then show ?thesis by (simp add: WEB_VAR_FilterFragment_def filter_fragment.simps)
  next
    case False
    show ?thesis
    proof (cases "body_tag src")
      case None
      then show ?thesis using False by (simp add: WEB_VAR_FilterFragment_def filter_fragment.simps [of tr vars False src])
    next
      case (Some tag)
      then show ?thesis using False fragment_stuck [OF False] fragment_end fragment_begin [OF _ False]
        by (cases tag) (auto simp: WEB_VAR_FilterFragment_def)
    qed
  qed
  show "WEB_VAR_FilterFragment tr vars q src = Some None" if "src \<noteq> [] \<and> body_tag src = None"
    using that by (simp add: WEB_VAR_FilterFragment_def filter_fragment.simps [of tr vars False src])
  show "WEB_VAR_FilterFragment tr vars q src = Some (Some q)" if "src = [] \<or> body_tag src = Some Body_End"
    using that fragment_end by (auto simp: WEB_VAR_FilterFragment_def filter_fragment.simps [of tr vars False "[]"])
  show "\<exists>q'. WEB_VAR_FilterFragment tr vars q (''<body>'' @ t @ ''</body>'' @ r) = Some (Some q') \<and>
      q_data q' = q_data q @ concat (map json_text (''<body>'' @ t))" if "sign_free t \<and> tag_free t"
    unfolding WEB_VAR_FilterFragment_def using that by (intro fragment_whole) simp_all
qed

theorem WEB_VAR_FilterFragment_returns_witness:
  "WEB_VAR_FilterFragment (\<lambda>s. s) [] fresh_query ''<p>Hello</p>'' = None \<and>
   WEB_VAR_FilterFragment (\<lambda>s. s) [] fresh_query ''<bo'' = Some None \<and>
   (\<exists>q'. WEB_VAR_FilterFragment (\<lambda>s. s) [] fresh_query ''<body><p>Hi</p></body></html>'' = Some (Some q') \<and> q_data q' = ''<body><p>Hi</p>'')"
proof -
  note all = WEB_VAR_FilterFragment_returns [of "\<lambda>s. s" "[]" fresh_query]
  have "body_tag ''<p>Hello</p>'' = Some Body_None" by code_simp
  then have a: "WEB_VAR_FilterFragment (\<lambda>s. s) [] fresh_query ''<p>Hello</p>'' = None" using all [of "''<p>Hello</p>''" "[]" "[]"] by simp
  have "body_tag ''<bo'' = None" by code_simp
  then have b: "WEB_VAR_FilterFragment (\<lambda>s. s) [] fresh_query ''<bo'' = Some None" using all [of "''<bo''" "[]" "[]"] by simp
  have t: "sign_free ''<p>Hi</p>'' \<and> tag_free ''<p>Hi</p>''" by code_simp
  have o: "concat (map json_text (''<body>'' @ ''<p>Hi</p>'')) = ''<body><p>Hi</p>''" by code_simp
  have q: "q_data fresh_query = []" by (simp add: fresh_query_def)
  have "\<exists>q'. WEB_VAR_FilterFragment (\<lambda>s. s) [] fresh_query (''<body>'' @ ''<p>Hi</p>'' @ ''</body>'' @ ''</html>'') = Some (Some q') \<and>
    q_data q' = q_data fresh_query @ concat (map json_text (''<body>'' @ ''<p>Hi</p>''))"
    using all [of "[]" "''<p>Hi</p>''" "''</html>''"] t by blast
  then have "\<exists>q'. WEB_VAR_FilterFragment (\<lambda>s. s) [] fresh_query ''<body><p>Hi</p></body></html>'' = Some (Some q') \<and> q_data q' = ''<body><p>Hi</p>''"
    unfolding o q by simp
  with a b show ?thesis by blast
qed

end
