(* ===== verification/WebServeLaws.thy ===== *)
theory WebServeLaws
  imports WebLaws
begin

unbundle bit_operations_syntax

text \<open>
  Laws of the answers: the compressed body (\<open>dechunk\<close>), numbers of arguments, ranges, and the headers that a
  worker begins its answer with.  \<open>same_rest\<close> is what the operations on headers leave alone.
\<close>

section \<open>What the headers leave alone\<close>

definition same_rest :: "WEB_Query \<Rightarrow> WEB_Query \<Rightarrow> bool" where
  "same_rest q q' \<longleftrightarrow> q' = q\<lparr>q_head := q_head q', q_headLine := q_headLine q', q_headLen := q_headLen q'\<rparr>"

lemma same_rest_fields:
  "same_rest q q' \<Longrightarrow> q_data q' = q_data q \<and> q_method q' = q_method q \<and> q_compressLvl q' = q_compressLvl q \<and> q_flags q' = q_flags q \<and>
     q_cookies q' = q_cookies q \<and> q_args q' = q_args q \<and> q_rangeFrom q' = q_rangeFrom q \<and> q_rangeTo q' = q_rangeTo q"
  by (cases q; cases q') (simp add: same_rest_def)

lemma same_rest_trans: "same_rest a b \<Longrightarrow> same_rest b c \<Longrightarrow> same_rest a c"
  by (cases a; cases b; cases c) (simp add: same_rest_def)

definition keeps :: "WEB_Query \<Rightarrow> WEB_Query option \<Rightarrow> bool" where
  "keeps q r \<longleftrightarrow> (\<forall>q'. r = Some q' \<longrightarrow> same_rest q q')"

lemma keeps_intros:
  "keeps q None" "keeps q (Some (q\<lparr>q_head := h\<rparr>))" "keeps q (Some (q\<lparr>q_head := h, q_headLine := l\<rparr>))"
  "keeps q (Some (q\<lparr>q_head := h, q_headLine := l, q_headLen := n\<rparr>))"
  by (simp_all add: keeps_def same_rest_def)

lemma keeps_bind: "(\<And>x. keeps q (f x)) \<Longrightarrow> keeps q (m \<bind> f)" by (cases m) (simp_all add: keeps_def)

lemma keeps_if: "(b \<Longrightarrow> keeps q x) \<Longrightarrow> (\<not> b \<Longrightarrow> keeps q y) \<Longrightarrow> keeps q (if b then x else y)" by simp

lemma keeps_Append: "keeps q (WEB_AppendHeaderS q k v)"
  unfolding WEB_AppendHeaderS_def Let_def by (intro keeps_bind keeps_if keeps_intros)

lemma keeps_Edit: "keeps q (WEB_EditHeader q l v)"
  unfolding WEB_EditHeader_def WEB_UpdateHeaderLines_def Let_def by (intro keeps_bind keeps_if) (simp_all add: keeps_intros)

lemma SetHeaderS_rest: "WEB_SetHeaderS q k v = Some q' \<Longrightarrow> same_rest q q'"
  using keeps_Append [of q k v] keeps_Edit [of q _ v]
  by (auto simp: WEB_SetHeaderS_def bind_eq_Some_conv keeps_def split: option.splits)

lemma WriteHeaders_rest: "WEB_WriteHeaders q = Some (s, q') \<Longrightarrow> same_rest q q'"
  by (auto simp: WEB_WriteHeaders_def bind_eq_Some_conv same_rest_def)

section \<open>Chunks\<close>

fun unhex :: "nat \<Rightarrow> string \<Rightarrow> nat" where
  "unhex n [] = n"
| "unhex n (c # s) = unhex (16 * n + hex_value c) s"

text \<open>A reader of the chunked encoding: the size, the data, until a chunk of size 0.\<close>

function dechunk :: "string \<Rightarrow> string option" where
  "dechunk s = (let h = takeWhile isxdigit s; n = unhex 0 h; r = drop (length h + 2) s in
     if h = [] \<or> take 2 (drop (length h) s) \<noteq> [CR, LF] then None
     else if n = 0 then (if r = [CR, LF] then Some [] else None)
     else if take 2 (drop n r) \<noteq> [CR, LF] \<or> length r < n then None
     else map_option ((@) (take n r)) (dechunk (drop (n + 2) r)))"
  by pat_completeness auto
termination
  by (relation "measure length") (auto simp: Let_def)

declare dechunk.simps [simp del]

lemma unhex_append: "unhex n (s @ [c]) = 16 * unhex n s + hex_value c"
  by (induction s arbitrary: n) simp_all

lemma hex_rev_ok: "n < 16 ^ k \<Longrightarrow> 0 < k \<Longrightarrow> unhex 0 (rev (hex_rev k n)) = n \<and> list_all isxdigit (hex_rev k n) \<and> hex_rev k n \<noteq> []"
proof (induction k arbitrary: n)
  case (Suc k)
  have d: "isxdigit (hex_digit (n mod 16))" "hex_value (hex_digit (n mod 16)) = n mod 16" using hex_digits [of "n mod 16"] by simp_all
  show ?case
  proof (cases "n < 16")
    case True
    then show ?thesis using d by simp
  next
    case False
    then have "0 < k" using Suc.prems by (cases k) auto
    moreover have "n div 16 < 16 ^ k" using Suc.prems by (simp add: less_mult_imp_div_less mult.commute)
    ultimately have IH: "unhex 0 (rev (hex_rev k (n div 16))) = n div 16" "list_all isxdigit (hex_rev k (n div 16))" using Suc.IH by blast+
    then show ?thesis using False d by (simp add: unhex_append)
  qed
qed simp

lemma hex_nat_ok:
  assumes "n < 16 ^ 16"
  shows "unhex 0 (hex_nat n) = n" and "list_all isxdigit (hex_nat n)" and "hex_nat n \<noteq> []"
  using hex_rev_ok [OF assms] by (auto simp: hex_nat_def list_all_iff)

lemma takeWhile_hex: "list_all isxdigit h \<Longrightarrow> takeWhile isxdigit (h @ CR # s) = h"
proof -
  have "\<not> isxdigit CR" by code_simp
  then show "list_all isxdigit h \<Longrightarrow> takeWhile isxdigit (h @ CR # s) = h" by (induction h) simp_all
qed

lemma dechunk_chunk:
  assumes "p \<noteq> []" and "length p < 16 ^ 16"
  shows "dechunk (chunk p @ s) = map_option ((@) p) (dechunk s)"
proof -
  let ?h = "hex_nat (length p)"
  note h = hex_nat_ok [OF assms(2)]
  have c: "chunk p @ s = ?h @ CR # LF # p @ CR # LF # s" using assms(1) by (simp add: chunk_def)
  show ?thesis unfolding c using assms(1) h(1,3) by (subst dechunk.simps) (simp add: takeWhile_hex [OF h(2)] Let_def)
qed

lemma chunk_Nil: "chunk [] = []" by (simp add: chunk_def)

lemma dechunk_all:
  "\<forall>p \<in> set ps. length p < 16 ^ 16 \<Longrightarrow> dechunk (concat (map chunk ps) @ ''0'' @ [CR, LF, CR, LF]) = Some (concat ps)"
proof (induction ps)
  case Nil
  show ?case by code_simp
next
  case (Cons p ps)
  then have "dechunk (concat (map chunk ps) @ ''0'' @ [CR, LF, CR, LF]) = Some (concat ps)" by simp
  then show ?case using Cons.prems dechunk_chunk [of p] chunk_Nil by (cases "p = []") simp_all
qed

text \<open>The stream of zlib seen from outside: all that \<open>deflate\<close> gave for the blocks of the body, the last one with \<open>Z_FINISH\<close>.\<close>

lemma deflate_loop_multiple: "length d = m * deflate_block \<Longrightarrow> deflate_loop Z st d = None"
proof (induction m arbitrary: d st)
  case 0
  then show ?case by (simp add: deflate_loop.simps deflate_block_def WEB_DATA_BUFSIZE_def)
next
  case (Suc m)
  have "length (drop deflate_block d) = m * deflate_block" using Suc.prems by simp
  then have "deflate_loop Z st' (drop deflate_block d) = None" for st' by (rule Suc.IH)
  then show ?case using Suc.prems by (subst deflate_loop.simps) (cases "z_deflate Z st (take deflate_block d) False"; simp split: prod.split)
qed

lemma deflate_loop_short: "d \<noteq> [] \<Longrightarrow> length d < deflate_block \<Longrightarrow> deflate_loop Z st d = map_option snd (z_deflate Z st d True)"
  by (simp add: deflate_loop.simps)

text \<open>
  C14: a compressed response, to any method but HEAD, is the headers and a body in the chunked encoding, which decodes to the
  output of the compressor, piece after piece; but when the length of the body is a multiple of 65534 the compressor never gets
  the end of the stream and the assertion after the loop ends the process.  The compressor starts, the buffer of the headers
  has room for the two fields that are set, and pieces have less than \<open>16 ^ 16\<close> bytes, the length that a chunk can give.
\<close>

theorem WEB_FlushQuery_DEFLATE_chunks:
  assumes "q_method q \<noteq> WEB_METHOD_HEAD" and "WEB_SetHeaderS q ''Content-Encoding'' ''deflate'' = Some q1"
    and "WEB_SetHeaderS q1 ''Transfer-Encoding'' ''chunked'' = Some q2" and "WEB_WriteHeaders q2 = Some (head, q3)"
    and "z_init Z (q_compressLvl q) = Some st"
  shows "(\<forall>m. length (q_data q) = m * deflate_block \<longrightarrow> WEB_FlushQuery_DEFLATE Z q = None) \<and>
    (\<forall>ps. deflate_loop Z st (q_data q) = Some ps \<and> (\<forall>p \<in> set ps. length p < 16 ^ 16) \<longrightarrow>
       (\<exists>body q'. WEB_FlushQuery_DEFLATE Z q = Some (head @ body, q') \<and> dechunk body = Some (concat ps)))"
proof (intro conjI allI impI)
  have "same_rest q q3"
    using assms(2-4) SetHeaderS_rest WriteHeaders_rest same_rest_trans by blast
  then have "q_data q3 = q_data q" "q_compressLvl q3 = q_compressLvl q" using same_rest_fields by blast+
  then have run: "WEB_FlushQuery_DEFLATE Z q = do {
      ps \<leftarrow> deflate_loop Z st (q_data q); Some (head @ concat (map chunk ps) @ ''0'' @ [CR, LF, CR, LF], q3) }"
    using assms by (simp add: WEB_FlushQuery_DEFLATE_def Let_def)
  {
    fix m assume "length (q_data q) = m * deflate_block"
    then show "WEB_FlushQuery_DEFLATE Z q = None" using run deflate_loop_multiple [of "q_data q" m Z st] by simp
  next
    fix ps assume "deflate_loop Z st (q_data q) = Some ps \<and> (\<forall>p \<in> set ps. length p < 16 ^ 16)"
    then show "\<exists>body q'. WEB_FlushQuery_DEFLATE Z q = Some (head @ body, q') \<and> dechunk body = Some (concat ps)"
      using run dechunk_all by auto
  }
qed

text \<open>A stand-in for zlib that gives its input back in pieces of three characters.\<close>

function pieces :: "string \<Rightarrow> string list" where
  "pieces s = (if length s \<le> 3 then [s] else take 3 s # pieces (drop 3 s))"
  by pat_completeness auto
termination by (relation "measure length") auto

definition copy_zlib :: "unit web_zlib" where
  "copy_zlib = \<lparr>z_init = (\<lambda>l. Some ()), z_deflate = (\<lambda>st s fin. Some ((), pieces s))\<rparr>"

definition hello_query :: WEB_Query where
  "hello_query = fresh_query\<lparr>q_data := ''Hello''\<rparr>"

theorem WEB_FlushQuery_DEFLATE_chunks_witness:
  "\<exists>head body q'. WEB_FlushQuery_DEFLATE copy_zlib hello_query = Some (head @ body, q') \<and> dechunk body = Some ''Hello''"
proof -
  let ?st = "''HTTP/1.0 200 OK'' @ [CR]" and ?hs = "[(''Date'', ''today'')]"
  have key: "\<not> same_key ''Content-Encoding'' (''Date'', ''today'')" "\<not> same_key ''Transfer-Encoding'' (''Date'', ''today'')"
    "\<not> same_key ''Transfer-Encoding'' (''Content-Encoding'', ''deflate'')" by code_simp+
  have "q_head fresh_query = ?st @ LF # concat (map hline ?hs) @ NUL # replicate 993 NUL" by code_simp
  then have rep: "headers_rep hello_query ?st ?hs"
    unfolding headers_rep_def Let_def hello_query_def
    by (intro conjI exI) (simp_all add: fresh_query_def hdr_ok_def hline_def WEB_HTTP_HEADER_MAX_def WEB_HTTP_PER_HEADER_MAX_def)
  obtain q1 where 1: "WEB_SetHeaderS hello_query ''Content-Encoding'' ''deflate'' = Some q1"
    "headers_rep q1 ?st (set_hdr ''Content-Encoding'' ''deflate'' ?hs)"
    using WEB_SetHeaderS_refines [OF rep, of "''Content-Encoding''" "''deflate''"] key
    by (auto simp: hello_query_def fresh_query_def hdr_ok_def hline_def web_sizes)
  then have r1: "headers_rep q1 ?st [(''Date'', ''today''), (''Content-Encoding'', ''deflate'')]" using key by (simp add: set_hdr_def)
  then have "q_headLen q1 = 57" by (auto simp: headers_rep_def hline_def)
  then obtain q2 q3 head where 2: "WEB_SetHeaderS q1 ''Transfer-Encoding'' ''chunked'' = Some q2" and 3: "WEB_WriteHeaders q2 = Some (head, q3)"
    using WEB_SetHeaderS_refines [OF r1, of "''Transfer-Encoding''" "''chunked''"] key
    by (auto simp: hdr_ok_def hline_def web_sizes)
  have "deflate_loop copy_zlib () (q_data hello_query) = Some [''Hel'', ''lo'']"
    by (subst deflate_loop_short) (simp_all add: hello_query_def deflate_block_def WEB_DATA_BUFSIZE_def copy_zlib_def)
  moreover have "q_method hello_query \<noteq> WEB_METHOD_HEAD" by code_simp
  ultimately show ?thesis
    using WEB_FlushQuery_DEFLATE_chunks [OF _ 1(1) 2 3, of copy_zlib "()"] by (fastforce simp: copy_zlib_def)
qed

section \<open>Numbers\<close>

lemma ascii_digit: "d < 10 \<Longrightarrow> ascii (digit_char d) = 48 + d"
proof -
  assume "d < 10"
  then have d: "d \<in> {0, 1, 2, 3, 4, 5, 6, 7, 8, 9}" unfolding insert_iff empty_iff by arith
  have "\<forall>d \<in> {0, 1, 2, 3, 4, 5, 6, 7, 8, 9}. ascii (digit_char d) = 48 + d" by code_simp
  then show ?thesis using d by (rule bspec)
qed

lemma isdigit_digit: "d < 10 \<Longrightarrow> isdigit (digit_char d)"
  by (simp add: isdigit_def ascii_digit)

lemma digits_append: "digits_value (s @ [c]) = 10 * digits_value s + (ascii c - 48)"
  by (simp add: digits_value_def)

lemma dec_rev_digits: "list_all isdigit (dec_rev n) \<and> dec_rev n \<noteq> [] \<and> digits_value (rev (dec_rev n)) = n"
proof (induction n rule: dec_rev.induct)
  case (1 n)
  show ?case
  proof (cases "n < 10")
    case True
    then show ?thesis by (subst (1 2 3) dec_rev.simps) (simp add: isdigit_digit ascii_digit digits_value_def)
  next
    case False
    then have "n div 10 > 0" by simp
    moreover have "list_all isdigit (dec_rev (n div 10)) \<and> digits_value (rev (dec_rev (n div 10))) = n div 10" using 1 \<open>n div 10 > 0\<close> by simp
    ultimately show ?thesis using False by (subst (1 2 3) dec_rev.simps) (simp add: isdigit_digit ascii_digit digits_append)
  qed
qed

lemma dec_digits: "list_all isdigit (dec n)" "dec n \<noteq> []" "digits_value (dec n) = n"
  using dec_rev_digits [of n] by (auto simp: dec_def list_all_iff)

lemma digit_not_space: "isdigit c \<Longrightarrow> \<not> isspace c \<and> c \<noteq> CHR ''-'' \<and> c \<noteq> CHR ''+''"
proof -
  have "\<not> isdigit (CHR ''-'')" "\<not> isdigit (CHR ''+'')" by code_simp+
  then show "isdigit c \<Longrightarrow> \<not> isspace c \<and> c \<noteq> CHR ''-'' \<and> c \<noteq> CHR ''+''" by (auto simp: isdigit_def isspace_def)
qed

lemma takeWhile_digits: "list_all isdigit s \<Longrightarrow> takeWhile isdigit s = s \<and> dropWhile isdigit s = []"
  by (induction s) simp_all

lemma dec_scan: "takeWhile isdigit (dec n) = dec n" "dropWhile isdigit (dec n) = []"
  using takeWhile_digits [OF dec_digits(1)] by blast+

lemma split_dec: "split_number (dec_int v) = (v < 0, dec (nat \<bar>v\<bar>), [])"
proof (cases "v < 0")
  case True
  have "\<not> isspace (CHR ''-'')" by code_simp
  then show ?thesis using True
    by (simp add: dec_int_def split_number_def Let_def dec_scan dec_digits(2))
next
  case False
  obtain c s where c: "dec (nat v) = c # s" using dec_digits(2) [of "nat v"] by (cases "dec (nat v)") auto
  then have "isdigit c" using dec_digits(1) [of "nat v"] by simp
  then show ?thesis using False digit_not_space [of c] takeWhile_digits [OF dec_digits(1) [of "nat v"]] c
    by (simp add: dec_int_def split_number_def Let_def)
qed

lemma strtol_dec: "LONG_MIN \<le> v \<Longrightarrow> v \<le> LONG_MAX \<Longrightarrow> strtol (dec_int v) = (v, [], False)"
  by (auto simp: strtol_def split_dec dec_digits(3) Let_def)

lemma dec_int_nonempty: "dec_int v \<noteq> []" using dec_digits(2) by (simp add: dec_int_def)

text \<open>
  An argument that is the decimal text of a number of 64 bits: \<open>WEB_GetIntR\<close> gives the number exactly when it is within the
  range, and \<open>WEB_GetInt\<close> never fails: it gives the low 32 bits of the number.
\<close>

theorem WEB_GetInt_wraps:
  assumes "WEB_GetArgument q key = Some a" and "arg_string a = Some (dec_int v)" and "LONG_MIN \<le> v" and "v \<le> LONG_MAX"
    and "INT_MIN \<le> mn" and "mx \<le> INT_MAX"
  shows "WEB_GetInt q key = Some (Inr (int_of v)) \<and>
    WEB_GetIntR q key mn mx = Some (if mn \<le> v \<and> v \<le> mx then Inr v else Inl (Arg_OutOfRange key)) \<and>
    WEB_GetSint64 q key = Some (Inr v)"
proof -
  have "int_of v = v" if "mn \<le> v" "v \<le> mx"
    using that assms(5,6) unfolding int_of_def sint_sbintrunc' by (simp add: signed_take_bit_int_eq_self)
  then show ?thesis using assms(1-4) strtol_dec [OF assms(3,4)] dec_int_nonempty
    by (simp add: WEB_GetInt_def WEB_GetIntR_def WEB_GetSint64_def)
qed

theorem WEB_GetInt_wraps_witness:
  "WEB_GetInt (WEB_Set fresh_query ''n'' (Some ''4294967297'')) ''n'' = Some (Inr 1) \<and>
   WEB_GetIntR (WEB_Set fresh_query ''n'' (Some ''4294967297'')) ''n'' 0 9 = Some (Inl (Arg_OutOfRange ''n''))"
proof -
  let ?q = "WEB_Set fresh_query ''n'' (Some ''4294967297'')"
  have d: "dec_int 4294967297 = ''4294967297''" by (simp add: dec_int_def dec_def dec_rev.simps digit_char_def)
  have "map_option arg_string (WEB_GetArgument ?q ''n'') = Some (Some ''4294967297'')" by code_simp
  then obtain a where a: "WEB_GetArgument ?q ''n'' = Some a" "arg_string a = Some ''4294967297''" by auto
  have "int_of 4294967297 = 1" by code_simp
  moreover note d
  ultimately show ?thesis using WEB_GetInt_wraps [OF a(1), of 4294967297 0 9] d a(2) by simp
qed

section \<open>Ranges\<close>

lemma split_on_prefix: "set p \<inter> ds = {} \<Longrightarrow> split_on ds (p @ s) = (p @ hd (split_on ds s)) # tl (split_on ds s)"
  by (induction p) auto

lemma strtonum_word:
  assumes "c \<notin> set ''-+''" "\<not> isspace c" "\<not> isdigit c"
  shows "strtonum (c # s) mn mx = None"
proof -
  have "split_number (c # s) = (False, [], c # s)" using assms by (simp add: split_number_def Let_def)
  then show ?thesis by (simp add: strtonum_def strtol_def digits_value_def Let_def)
qed

lemma range_refused:
  "\<exists>q' \<in> {q, q\<lparr>q_rangeFrom := 0\<rparr>}. ParseRange q (''bytes='' @ t) = with_code q' ''416 Range Not Satisfiable''"
proof (cases "CHR '','' \<in> set t")
  case True
  then show ?thesis by (simp add: ParseRange_def)
next
  case False
  let ?ts = "split_on {CHR ''-''} t"
  have s: "split_on {CHR ''-''} (''bytes='' @ t) = (''bytes='' @ hd ?ts) # tl ?ts" by (rule split_on_prefix) simp
  have "\<not> isspace (CHR ''b'')" "\<not> isdigit (CHR ''b'')" by code_simp+
  then have "strtonum (''bytes='' @ hd ?ts) 0 INT_MAX = None" using strtonum_word [of "CHR ''b''"] by simp
  then show ?thesis using False unfolding ParseRange_def s by (cases "tl ?ts") simp_all
qed

text \<open>
  A range that is written as the standard has it, beginning with \<open>bytes=\<close>, is never accepted: the answer is the code 416.
\<close>

theorem ParseRange_refuses:
  "\<exists>q'. (q' = q \<or> q' = q\<lparr>q_rangeFrom := 0\<rparr>) \<and> ParseRange q (''bytes='' @ t) = with_code q' ''416 Range Not Satisfiable''"
  using range_refused [of q t] by (simp only: bex_simps) blast

section \<open>Cookies of the answer\<close>

lemma append_counts:
  assumes "append_cookie q ck = Some q'"
  shows "length (q_headLine q') = length (q_headLine q) + 1 \<and> length (q_headLine q) + 1 < WEB_HTTP_MAXHEADERS"
  using assms by (auto simp: append_cookie_def WEB_AppendHeaderS_def Let_def bind_eq_Some_conv split: if_splits)

lemma append_cookies_count:
  "fold_opt append_cookie q cks = Some q' \<Longrightarrow> cks \<noteq> [] \<Longrightarrow> length (q_headLine q) + length cks < WEB_HTTP_MAXHEADERS"
proof (induction cks arbitrary: q)
  case (Cons ck cks)
  then obtain q1 where q1: "append_cookie q ck = Some q1" "fold_opt append_cookie q1 cks = Some q'" by (auto simp: bind_eq_Some_conv)
  show ?case
  proof (cases "cks = []")
    case True
    then show ?thesis using append_counts [OF q1(1)] by simp
  next
    case False
    then show ?thesis using append_counts [OF q1(1)] Cons.IH [OF q1(2)] by simp
  qed
qed simp


lemma SetHeaderS_keeps_cookies: "WEB_SetHeaderS q k v = Some q' \<Longrightarrow> q_cookies q' = q_cookies q"
  using SetHeaderS_rest same_rest_fields by blast

text \<open>
  A query with 32 cookies, as many as \<open>WEB_QueryLoad\<close> lets through, ends the worker process: the answer sets every cookie again,
  and has room for fewer headers than that.
\<close>

theorem WEB_BeginWorkerQuery_cookies:
  assumes "WEB_MAX_COOKIES \<le> length (q_cookies q)"
  shows "WEB_BeginWorkerQuery e menuFn modules W q = None"
proof -
  have c: "length (q_headLine q1) + length (q_cookies q) < WEB_HTTP_MAXHEADERS \<or> q_cookies q = []"
    if "fold_opt append_cookie q1 (q_cookies q) = Some q2" for q1 q2
    using append_cookies_count [OF that] by blast
  have none: "fold_opt append_cookie q1 (q_cookies q) = None" for q1
  proof (rule ccontr)
    assume "fold_opt append_cookie q1 (q_cookies q) \<noteq> None"
    then obtain q2 where "fold_opt append_cookie q1 (q_cookies q) = Some q2" by blast
    from c [OF this] show False using assms by (auto simp: WEB_MAX_COOKIES_def WEB_HTTP_MAXHEADERS_def)
  qed
  obtain W0 q0 where b: "WEB_BeginQueryCommon e W q = (W0, q0)" "q_cookies q0 = q_cookies q"
    by (simp add: WEB_BeginQueryCommon_def Let_def)
  have "(case r of None \<Rightarrow> None | Some q1 \<Rightarrow> fold_opt append_cookie q1 (q_cookies q1) \<bind> f) = None"
    if "\<And>q1. r = Some q1 \<Longrightarrow> q_cookies q1 = q_cookies q" for r and f :: "WEB_Query \<Rightarrow> (web_world \<times> WEB_Query) option"
    using that none by (cases r) simp_all
  note step = this
  show ?thesis
  proof (cases "WEB_SetHeaderS q0 ''Date'' (q_date q0)")
    case None
    then show ?thesis by (simp add: WEB_BeginWorkerQuery_def b)
  next
    case (Some q1)
    let ?r = "if q_flags q1 AND WEB_QUERY_KEEPALIVE \<noteq> 0 then WEB_SetHeaderS q1 ''Connection'' ''keep-alive'' else Some q1"
    have "q_cookies q2 = q_cookies q" if "?r = Some q2" for q2
      using that b(2) SetHeaderS_keeps_cookies [OF Some] SetHeaderS_keeps_cookies by (auto split: if_splits)
    then have "?r = None \<or> (\<exists>q2. ?r = Some q2 \<and> fold_opt append_cookie q2 (q_cookies q2) = None)"
      using none by (cases ?r) auto
    then show ?thesis using Some unfolding WEB_BeginWorkerQuery_def b(1) by (auto simp: Let_def)
  qed
qed

definition some_env :: web_env where
  "some_env = \<lparr>e_zlib = True, e_version = ''1.5'', e_tr = (\<lambda>s. s), e_junk = NUL, e_app = \<lparr>app_name = ''app'', app_availLangs = [''en''], app_homeOp = ''home''\<rparr>\<rparr>"

definition some_world :: web_world where
  "some_world = \<lparr>ww_vars = [], ww_files = (\<lambda>p. None), ww_error = [], ww_sess = \<lparr>S_id = ''123'', S_vars = [], S_nVars = 0, S_nEvents = 0\<rparr>\<rparr>"

definition some_cookie :: WEB_Cookie where
  "some_cookie = \<lparr>ck_name = ''a'', ck_value = ''1'', ck_expires = [], ck_domain = [], ck_path = [], ck_flags = 0\<rparr>"

theorem WEB_BeginWorkerQuery_cookies_witness:
  "WEB_BeginWorkerQuery some_env None ([] :: unit WEB_Module list) some_world (fresh_query\<lparr>q_cookies := replicate 32 some_cookie\<rparr>) = None"
  by (rule WEB_BeginWorkerQuery_cookies) (simp add: WEB_MAX_COOKIES_def)

end
