(* ===== verification/SourceLaws.thy ===== *)
theory SourceLaws
  imports ArchiveLaws
begin

unbundle bit_operations_syntax

text \<open>
  Laws of the data sources for components that write and read sequences of values without type codes: loops that write the elements of a list,
  what a source on a buffer of fixed size has written and how much room it has (\<open>core_at\<close>), and what is left to read of a
  source (\<open>rest_is\<close>).
\<close>

section \<open>Writing the elements of a list\<close>

lemma str_bytes_bytes_str [simp]: "str_bytes (bytes_str bs) = bs"
proof (induction bs)
  case (Cons b bs)
  have "unat b < 256" using unsigned_less [of b] by simp
  then show ?case using Cons by (simp add: str_bytes_def bytes_str_def)
qed (simp add: str_bytes_def bytes_str_def)

text \<open>Writing the elements of a list, each as its bytes.\<close>

lemma fold_appends:
  assumes "at_end ds" and "\<not> ds_debug ds" and "\<And>x. x \<in> set xs \<Longrightarrow> length (b x) \<le> m"
    and "\<And>ds x. x \<in> set xs \<Longrightarrow> at_end ds \<Longrightarrow> \<not> ds_debug ds \<Longrightarrow> byte_order ds = ord \<Longrightarrow> int (length (cs_data ds)) + 131072 < 2 ^ 63 \<Longrightarrow>
       \<exists>ds'. f ds x = Some ds' \<and> appends ds (b x) ds'"
    and "byte_order ds = ord" and "int (length (cs_data ds)) + int (m * length xs) + 131072 < 2 ^ 63"
  shows "\<exists>ds'. fold_opt f ds xs = Some ds' \<and> appends ds (concat (map b xs)) ds'"
  using assms
proof (induction xs arbitrary: ds)
  case Nil
  then show ?case by (auto simp: appends_def at_end_def)
next
  case (Cons x xs)
  have "int (length (cs_data ds)) + 131072 < 2 ^ 63" using Cons.prems(6) of_nat_0_le_iff [of "m * length (x # xs)"] by linarith
  then obtain ds1 where ds1: "f ds x = Some ds1" "appends ds (b x) ds1" using Cons.prems(4) [of x ds] Cons.prems(1,2,5) by auto
  have s: "\<not> ds_debug ds1" "byte_order ds1 = ord" "at_end ds1" using appends_setup [OF ds1(2)] Cons.prems(1,2,5) appends_at_end [OF Cons.prems(1) ds1(2)] by auto
  have l: "length (cs_data ds1) = length (cs_data ds) + length (b x)" using ds1(2) by (simp add: appends_def)
  have "length (b x) \<le> m" using Cons.prems(3) by simp
  then have "int (length (cs_data ds1)) + int (m * length xs) + 131072 < 2 ^ 63" using Cons.prems(6) l by simp
  then obtain ds' where "fold_opt f ds1 xs = Some ds'" "appends ds1 (concat (map b xs)) ds'"
    using Cons.IH [OF s(3,1)] Cons.prems(3,4) s(2) by auto
  then show ?case using ds1 appends_trans [OF ds1(2)] by auto
qed

section \<open>Writing into a buffer of fixed size\<close>

text \<open>The source has written \<open>out\<close> and has room for \<open>n\<close> bytes more.\<close>

definition core_at :: "AG_DataSource \<Rightarrow> byte list \<Rightarrow> nat \<Rightarrow> bool" where
  "core_at ds out n \<longleftrightarrow> ds_kind ds = K_Core \<and> \<not> ds_debug ds \<and> byte_order ds = AG_BYTEORDER_BE \<and> length (cs_data ds) = cs_size ds \<and>
     cs_offs ds = int (length out) \<and> take (length out) (cs_data ds) = out \<and> length out + n \<le> cs_size ds \<and> cs_size ds < 2 ^ 62"

lemma core_ds_write:
  assumes "core_at ds out (length bs + n)"
  shows "\<exists>ds'. ds_write bs ds = Some (0, Some (length bs), ds') \<and> core_at ds' (out @ bs) n"
proof -
  let ?d = "out @ bs @ drop (length out + length bs) (cs_data ds)"
  have k: "ds_kind ds = K_Core" and o: "cs_offs ds = int (length out)" and l: "length out + length bs \<le> length (cs_data ds)"
    and t: "take (length out) (cs_data ds) = out" and s: "length (cs_data ds) = cs_size ds" "cs_size ds < 2 ^ 62"
    using assms by (simp_all add: core_at_def)
  have u: "usz (int (length out) + int (length bs)) = length out + length bs" using l s by (subst usz_small) auto
  have "CoreWrite bs ds = Some (0, Some (length bs), ds\<lparr>cs_data := ?d, cs_offs := int (length out) + int (length bs)\<rparr>)"
    unfolding CoreWrite_def o u using l s t by (simp add: mem_write_def)
  moreover have "core_at (ds\<lparr>cs_data := ?d, cs_offs := int (length out) + int (length bs)\<rparr>) (out @ bs) n"
    using assms l by (simp add: core_at_def)
  ultimately show ?thesis using k by (simp add: ds_write_def)
qed

lemma core_counts [simp]: "core_at (ds\<lparr>wrLast := k\<rparr>) out n = core_at ds out n" "core_at (ds\<lparr>wrTotal := k\<rparr>) out n = core_at ds out n"
  by (simp_all add: core_at_def)

lemma core_write:
  assumes "core_at ds out (length bs + n)"
  shows "\<exists>ds'. AG_Write bs ds = Some (0, ds') \<and> core_at ds' (out @ bs) n"
    and "\<exists>ds'. raw_write bs ds = Some (True, ds') \<and> core_at ds' (out @ bs) n"
proof -
  obtain ds' where "ds_write bs ds = Some (0, Some (length bs), ds')" "core_at ds' (out @ bs) n" using core_ds_write [OF assms] by blast
  then show "\<exists>ds'. AG_Write bs ds = Some (0, ds') \<and> core_at ds' (out @ bs) n" "\<exists>ds'. raw_write bs ds = Some (True, ds') \<and> core_at ds' (out @ bs) n"
    by (simp_all add: AG_Write_def raw_write_def count_write_def Let_def)
qed

abbreviation be32 :: "32 word \<Rightarrow> byte list" where "be32 \<equiv> num_bytes AG_BYTEORDER_BE 4 AG_Swap32"

lemma core_num:
  assumes "core_at ds out (k + n)"
  shows "\<exists>ds'. write_num t k sw w ds = Some ds' \<and> core_at ds' (out @ num_bytes AG_BYTEORDER_BE k sw w) n"
proof -
  have "\<not> ds_debug ds" "byte_order ds = AG_BYTEORDER_BE" using assms by (simp_all add: core_at_def)
  moreover obtain ds' where "AG_Write (num_bytes AG_BYTEORDER_BE k sw w) ds = Some (0, ds')" "core_at ds' (out @ num_bytes AG_BYTEORDER_BE k sw w) n"
    using core_write(1) [of ds out "num_bytes AG_BYTEORDER_BE k sw w" n] assms by auto
  ultimately show ?thesis by (simp add: write_num_def debug_type_def Let_def swap_for_bytes or_error_def)
qed

lemma core_u8: "core_at ds out (1 + n) \<Longrightarrow> \<exists>ds'. AG_WriteUint8 x ds = Some ds' \<and> core_at ds' (out @ [x]) n"
  using core_num [of ds out 1 n AG_SOURCE_UINT8 id x] by (simp add: AG_WriteUint8_def num_bytes_def to_bytes_def)

lemma core_u32: "core_at ds out (4 + n) \<Longrightarrow> \<exists>ds'. AG_WriteUint32 x ds = Some ds' \<and> core_at ds' (out @ be32 x) n"
  using core_num [of ds out 4 n AG_SOURCE_UINT32 AG_Swap32 x] by (simp add: AG_WriteUint32_def)

lemma core_string:
  assumes "core_at ds out (4 + length s + n)"
  shows "\<exists>ds'. AG_WriteString (Some s) ds = Some ds' \<and> core_at ds' (out @ string_bytes AG_BYTEORDER_BE s) n"
proof -
  have d: "\<not> ds_debug ds" "byte_order ds = AG_BYTEORDER_BE" using assms by (simp_all add: core_at_def)
  let ?h = "be32 (u32 (length s))"
  have h: "to_bytes 4 (if s = [] then 0 else swap_for AG_Swap32 ds (u32 (length s))) = ?h"
    using d by (simp add: swap_for_bytes) (simp add: num_bytes_def u32_def zero_bytes)
  obtain d1 where d1: "raw_write ?h ds = Some (True, d1)" "core_at d1 (out @ ?h) (length s + n)"
    using core_write(2) [of ds out ?h "length s + n"] assms by (auto simp: add.assoc)
  show ?thesis
  proof (cases "s = []")
    case True
    with d d1 h show ?thesis by (auto simp: AG_WriteString_def Let_def string_bytes_def debug_type_def)
  next
    case False
    obtain d2 where "raw_write (str_bytes s) d1 = Some (True, d2)" "core_at d2 ((out @ ?h) @ str_bytes s) n"
      using core_write(2) [of d1 "out @ ?h" "str_bytes s" n] d1(2) by auto
    with False d d1 h show ?thesis by (auto simp: AG_WriteString_def Let_def string_bytes_def debug_type_def)
  qed
qed

lemma core_fold:
  assumes "\<And>ds out n x. x \<in> set xs \<Longrightarrow> core_at ds out (length (b x) + n) \<Longrightarrow> \<exists>ds'. f ds x = Some ds' \<and> core_at ds' (out @ b x) n"
    and "core_at ds out (length (concat (map b xs)) + n)"
  shows "\<exists>ds'. fold_opt f ds xs = Some ds' \<and> core_at ds' (out @ concat (map b xs)) n"
  using assms
proof (induction xs arbitrary: ds out)
  case (Cons x xs)
  obtain d1 where d1: "f ds x = Some d1" "core_at d1 (out @ b x) (length (concat (map b xs)) + n)"
    using Cons.prems(1) [of x ds out "length (concat (map b xs)) + n"] Cons.prems(2) by (auto simp: add.assoc)
  then show ?case using Cons.IH [of d1 "out @ b x"] Cons.prems(1) by auto
qed simp

lemma length_string_bytes [simp]: "length (string_bytes ord s) = 4 + length s" by (simp add: string_bytes_def)

abbreviation str_be :: "string \<Rightarrow> byte list" where "str_be \<equiv> string_bytes AG_BYTEORDER_BE"

section \<open>Reading\<close>

text \<open>A source without type codes of which \<open>bs\<close> is left.\<close>

definition rest_is :: "AG_DataSource \<Rightarrow> byte list \<Rightarrow> bool" where
  "rest_is ds bs \<longleftrightarrow> src_ok ds \<and> \<not> ds_debug ds \<and> byte_order ds = AG_BYTEORDER_BE \<and> to_read ds = bs"

lemma rest_is_reads: "rest_is ds bs \<Longrightarrow> reads ds r ds' \<Longrightarrow> rest_is ds' r"
  by (auto simp: rest_is_def reads_def same_setup_def)

lemma rest_u8: "rest_is ds ([x] @ r) \<Longrightarrow> \<exists>ds'. AG_ReadUint8 ds = Some (x, ds') \<and> rest_is ds' r"
  using read_num_ok [of ds AG_SOURCE_UINT8 1 id x r] rest_is_reads [of ds "[x] @ r" r]
  by (fastforce simp: AG_ReadUint8_def rest_is_def type_bytes_def num_bytes_def to_bytes_def)

lemma rest_u32: "rest_is ds (be32 x @ r) \<Longrightarrow> \<exists>ds'. AG_ReadUint32 ds = Some (x, ds') \<and> rest_is ds' r"
  using read_u32_ok [of ds x r] rest_is_reads [of ds "be32 x @ r" r] by (fastforce simp: rest_is_def)

lemma rest_u32v: "rest_is ds (be32 x @ r) \<Longrightarrow> \<exists>ds'. AG_ReadUint32v ds = Some (0, Some x, ds') \<and> rest_is ds' r"
  using readv_num_ok [of ds AG_SOURCE_UINT32 4 AG_Swap32 x r] rest_is_reads [of ds "be32 x @ r" r]
  by (fastforce simp: AG_ReadUint32v_def rest_is_def type_bytes_def)

lemma rest_raw: "rest_is ds (bs @ r) \<Longrightarrow> n = length bs \<Longrightarrow> \<exists>ds'. AG_Read n ds = Some (0, bs, ds') \<and> rest_is ds' r"
  using AG_Read_ok [of ds bs r n] rest_is_reads [of ds "bs @ r" r] by (fastforce simp: rest_is_def)

lemma rest_string:
  "rest_is ds (str_be s @ r) \<Longrightarrow> nonul s \<Longrightarrow> length s < n \<Longrightarrow> n \<le> 2 ^ 32 \<Longrightarrow> \<exists>ds'. copy_str n ds = Some (length s, s, ds') \<and> rest_is ds' r"
  using copy_str_ok [of ds s r n] rest_is_reads [of ds "str_be s @ r" r] by (fastforce simp: rest_is_def)

end
