(* ===== verification/WebSaveLaws.thy ===== *)
theory WebSaveLaws
  imports WebLaws SourceLaws
begin

unbundle bit_operations_syntax

text \<open>
  Laws of the queries and sessions that are written and read again; \<open>query_image\<close> and \<open>session_bytes\<close>
  are the serialized forms.
\<close>

section \<open>Sessions\<close>

definition sv_bytes :: "ag_byte_order \<Rightarrow> WEB_SessionVar \<Rightarrow> byte list" where
  "sv_bytes ord v = string_bytes ord (sv_key v) @ string_bytes ord (sv_value v)"

definition sv_ok :: "WEB_SessionVar \<Rightarrow> bool" where
  "sv_ok v \<longleftrightarrow> nonul (sv_key v) \<and> length (sv_key v) < WEB_SESSION_VAR_KEY_MAX \<and> nonul (sv_value v) \<and> length (sv_value v) < WEB_SESSION_VAR_VALUE_MAX"

lemma save_sv_ok:
  assumes "sv_ok v" and "at_end ds" and "\<not> ds_debug ds" and "byte_order ds = ord" and "int (length (cs_data ds)) + 131072 < 2 ^ 63"
  shows "\<exists>ds'. save_sv ds v = Some ds' \<and> appends ds (sv_bytes ord v) ds'"
proof -
  have l: "length (sv_key v) < 32" "length (sv_value v) < 1024" using assms(1) by (simp_all add: sv_ok_def WEB_SESSION_VAR_KEY_MAX_def WEB_SESSION_VAR_VALUE_MAX_def)
  obtain ds1 where ds1: "AG_WriteString (Some (sv_key v)) ds = Some ds1" "appends ds (string_bytes ord (sv_key v)) ds1"
    using AG_WriteString_plain [OF assms(2,3), of "sv_key v"] assms(4,5) l by auto
  have "length (cs_data ds1) = length (cs_data ds) + 4 + length (sv_key v)" using ds1(2) by (simp add: appends_def string_bytes_def)
  then obtain ds2 where "AG_WriteString (Some (sv_value v)) ds1 = Some ds2" "appends ds1 (string_bytes ord (sv_value v)) ds2"
    using AG_WriteString_plain [OF appends_at_end [OF assms(2) ds1(2)], of "sv_value v"] appends_setup [OF ds1(2)] assms(3-5) l by auto
  then show ?thesis using ds1 appends_trans [OF ds1(2)] by (auto simp: save_sv_def sv_bytes_def)
qed

lemma load_svs_ok:
  assumes "src_ok ds" and "\<not> ds_debug ds" and "byte_order ds = ord" and "list_all sv_ok vs" and "to_read ds = concat (map (sv_bytes ord) vs) @ rest"
  shows "\<exists>ds'. load_svs (length vs) ds S = Some (ds', S\<lparr>S_vars := S_vars S @ vs, S_nVars := S_nVars S + length vs\<rparr>) \<and> reads ds rest ds'"
  using assms
proof (induction vs arbitrary: ds S)
  case Nil
  then show ?case by (simp add: reads_def)
next
  case (Cons v vs)
  have v: "nonul (sv_key v)" "length (sv_key v) < WEB_SESSION_VAR_KEY_MAX" "nonul (sv_value v)" "length (sv_value v) < WEB_SESSION_VAR_VALUE_MAX"
    using Cons.prems(4) by (simp_all add: sv_ok_def)
  let ?r = "string_bytes ord (sv_value v) @ concat (map (sv_bytes ord) vs) @ rest"
  have "to_read ds = string_bytes (byte_order ds) (sv_key v) @ ?r" using Cons.prems(3,5) sv_bytes_def [of ord v] by simp
  then obtain ds1 where ds1: "copy_str WEB_SESSION_VAR_KEY_MAX ds = Some (length (sv_key v), sv_key v, ds1)" "reads ds ?r ds1"
    using copy_str_ok [OF Cons.prems(1,2) _ v(1,2)] by (auto simp: WEB_SESSION_VAR_KEY_MAX_def)
  have s1: "src_ok ds1" "\<not> ds_debug ds1" "byte_order ds1 = ord" "to_read ds1 = string_bytes ord (sv_value v) @ concat (map (sv_bytes ord) vs) @ rest"
    using ds1(2) Cons.prems(2,3) by (auto simp: reads_def same_setup_def)
  obtain ds2 where ds2: "copy_str WEB_SESSION_VAR_VALUE_MAX ds1 = Some (length (sv_value v), sv_value v, ds2)"
    "reads ds1 (concat (map (sv_bytes ord) vs) @ rest) ds2"
    using copy_str_ok [OF s1(1,2) _ v(3,4)] s1(3,4) by (auto simp: WEB_SESSION_VAR_VALUE_MAX_def)
  have s2: "src_ok ds2" "\<not> ds_debug ds2" "byte_order ds2 = ord" "to_read ds2 = concat (map (sv_bytes ord) vs) @ rest"
    using ds2(2) s1(2,3) by (auto simp: reads_def same_setup_def)
  let ?S = "S\<lparr>S_vars := S_vars S @ [\<lparr>sv_key = sv_key v, sv_value = sv_value v\<rparr>], S_nVars := S_nVars S + 1\<rparr>"
  obtain ds3 where "load_svs (length vs) ds2 ?S = Some (ds3, ?S\<lparr>S_vars := S_vars ?S @ vs, S_nVars := S_nVars ?S + length vs\<rparr>)" "reads ds2 rest ds3"
    using Cons.IH [OF s2(1-3) _ s2(4), of ?S] Cons.prems(4) by auto
  moreover have v: "\<lparr>sv_key = sv_key v, sv_value = sv_value v\<rparr> = v" by simp
  moreover have "reads ds x ds3" if "reads ds2 x ds3" for x using reads_trans [OF reads_trans [OF ds1(2) ds2(2)] that] .
  ultimately show ?case using ds1 ds2 by (simp add: v)
qed

definition session_bytes :: "WEB_Session \<Rightarrow> byte list" where
  "session_bytes S = num_bytes AG_BYTEORDER_BE 4 AG_Swap32 WEB_SESSION_DATA_MAGIC @ num_bytes AG_BYTEORDER_BE 4 AG_Swap32 (u32 (S_nVars S)) @
     concat (map (sv_bytes AG_BYTEORDER_BE) (S_vars S)) @ num_bytes AG_BYTEORDER_BE 4 AG_Swap32 (u32 (S_nEvents S))"

lemma length_sv_bytes: "sv_ok v \<Longrightarrow> length (sv_bytes ord v) \<le> 2000"
  by (simp add: sv_bytes_def string_bytes_def sv_ok_def WEB_SESSION_VAR_KEY_MAX_def WEB_SESSION_VAR_VALUE_MAX_def)

lemma length_svs_bytes: "list_all sv_ok vs \<Longrightarrow> length (concat (map (sv_bytes ord) vs)) \<le> 2000 * length vs"
proof (induction vs)
  case (Cons v vs)
  then show ?case using length_sv_bytes [of v ord] by simp
qed simp

lemma SessionSave_ok:
  assumes vars: "list_all sv_ok (S_vars S)" and count: "S_nVars S = length (S_vars S)" "S_nVars S < 2 ^ 32"
    and can: "can_open (session_path (S_id S) [])"
  shows "WEB_SessionSave j None can_open files S = Some (True, files(session_path (S_id S) [] := Some (bytes_str (session_bytes S))))"
proof -
  let ?p = "session_path (S_id S) []" and ?n = "u32 (S_nVars S)" and ?e = "u32 (S_nEvents S)" and ?B = "AG_BYTEORDER_BE"
  let ?W = "\<lambda>x. num_bytes ?B 4 AG_Swap32 x" and ?vs = "concat (map (sv_bytes ?B) (S_vars S))"
  obtain d0 where d0: "AG_OpenFile_wb j can_open ?p = Some d0" "at_end d0" "\<not> ds_debug d0" "cs_data d0 = []" "byte_order d0 = ?B"
    using can by (auto simp: AG_OpenFile_wb_def AG_DataSourceInit_def at_end_def sized_def to_read_def)
  obtain d1 where d1: "AG_WriteUint32 WEB_SESSION_DATA_MAGIC d0 = Some d1" "appends d0 (?W WEB_SESSION_DATA_MAGIC) d1"
    using write_u32_ok [OF d0(2,3)] d0(4,5) by auto
  have s1: "at_end d1" "\<not> ds_debug d1" "byte_order d1 = ?B" "length (cs_data d1) = 4"
    using appends_at_end [OF d0(2) d1(2)] appends_setup [OF d1(2)] d0 d1(2) by (auto simp: appends_def)
  obtain d2 where d2: "AG_WriteUint32 ?n d1 = Some d2" "appends d1 (?W ?n) d2" using write_u32_ok [OF s1(1,2)] s1(3,4) by auto
  have s2: "at_end d2" "\<not> ds_debug d2" "byte_order d2 = ?B" "length (cs_data d2) = 8"
    using appends_at_end [OF s1(1) d2(2)] appends_setup [OF d2(2)] s1 d2(2) by (auto simp: appends_def)
  have "\<exists>d3. fold_opt save_sv d2 (S_vars S) = Some d3 \<and> appends d2 ?vs d3"
    using vars count s2(4) save_sv_ok length_sv_bytes
    by (intro fold_appends [OF s2(1,2), where m = 2000 and ord = ?B]) (auto simp: list_all_iff s2(3))
  then obtain d3 where d3: "fold_opt save_sv d2 (S_vars S) = Some d3" "appends d2 ?vs d3" by blast
  have "length (cs_data d3) \<le> 8 + 2000 * length (S_vars S)" using length_svs_bytes [OF vars, of ?B] d3(2) s2(4) by (simp add: appends_def)
  then have s3: "at_end d3" "\<not> ds_debug d3" "byte_order d3 = ?B" "int (length (cs_data d3)) + 65536 < 2 ^ 63"
    using appends_at_end [OF s2(1) d3(2)] appends_setup [OF d3(2)] s2 count by auto
  obtain d4 where d4: "AG_WriteUint32 ?e d3 = Some d4" "appends d3 (?W ?e) d4" using write_u32_ok [OF s3(1,2)] s3(3,4) by auto
  have "cs_data d4 = session_bytes S" using d0(4) d1(2) d2(2) d3(2) d4(2) by (simp add: appends_def session_bytes_def)
  then show ?thesis using d0(1) d1(1) d2(1) d3(1) d4(1) by (simp add: WEB_SessionSave_def Let_def)
qed

lemma SessionLoad_ok:
  assumes vars: "list_all sv_ok (S_vars S)" and count: "S_nVars S = length (S_vars S)" "S_nVars S < 2 ^ 32" and events: "S_nEvents S < 2 ^ 32"
    and sid: "length (S_id S) < WEB_SESSID_MAX" and stored: "files (session_path (S_id S) []) = Some (bytes_str (session_bytes S))"
  shows "\<exists>S'. WEB_SessionLoad j None files S0 (S_id S) = Some (S_vars S \<noteq> [] \<and> length (S_vars S) \<le> WEB_SESSION_VARIABLES_MAX, S') \<and>
    (S_vars S \<noteq> [] \<and> length (S_vars S) \<le> WEB_SESSION_VARIABLES_MAX \<longrightarrow>
      S' = S0\<lparr>S_id := S_id S, S_vars := S_vars S0 @ S_vars S, S_nVars := S_nVars S, S_nEvents := S_nEvents S\<rparr>)"
proof -
  let ?p = "session_path (S_id S) []" and ?n = "u32 (S_nVars S)" and ?e = "u32 (S_nEvents S)" and ?B = "AG_BYTEORDER_BE"
  let ?W = "\<lambda>x. num_bytes ?B 4 AG_Swap32 x" and ?vs = "concat (map (sv_bytes ?B) (S_vars S))"
  have n: "unat ?n = length (S_vars S)" "?n = 0 \<longleftrightarrow> S_vars S = []" using unat_u32 [OF count(2)] count(1) by (auto simp: unat_eq_zero [symmetric])
  have "length (session_bytes S) \<le> 12 + 2000 * length (S_vars S)" using length_svs_bytes [OF vars, of ?B] by (simp add: session_bytes_def)
  then have len: "int (length (session_bytes S)) < 2 ^ 63" using count by simp
  obtain d0 where d0: "AG_OpenFile_rb j (\<lambda>p. map_option str_bytes (files p)) ?p = Some d0" "src_ok d0" "\<not> ds_debug d0" "byte_order d0 = ?B"
    "to_read d0 = session_bytes S"
    using stored len by (auto simp: AG_OpenFile_rb_def AG_DataSourceInit_def src_ok_def sized_def to_read_def)
  obtain d1 where d1: "AG_ReadUint32 d0 = Some (WEB_SESSION_DATA_MAGIC, d1)" "reads d0 (?W ?n @ ?vs @ ?W ?e) d1"
    using read_u32_ok [OF d0(2,3), of WEB_SESSION_DATA_MAGIC "?W ?n @ ?vs @ ?W ?e"] d0(4,5) by (auto simp: session_bytes_def)
  then have s1: "src_ok d1" "\<not> ds_debug d1" "byte_order d1 = ?B" "to_read d1 = ?W ?n @ ?vs @ ?W ?e" using d0 by (auto simp: reads_def same_setup_def)
  obtain d2 where d2: "AG_ReadUint32 d1 = Some (?n, d2)" "reads d1 (?vs @ ?W ?e) d2"
    using read_u32_ok [OF s1(1,2), of ?n "?vs @ ?W ?e"] s1(3,4) by auto
  then have s2: "src_ok d2" "\<not> ds_debug d2" "byte_order d2 = ?B" "to_read d2 = ?vs @ ?W ?e" using s1 by (auto simp: reads_def same_setup_def)
  have id: "str_cpy WEB_SESSID_MAX (S_id S) = S_id S" using sid by simp
  let ?S = "S0\<lparr>S_id := S_id S, S_nVars := 0\<rparr>"
  obtain d3 where d3: "load_svs (length (S_vars S)) d2 ?S = Some (d3, ?S\<lparr>S_vars := S_vars ?S @ S_vars S, S_nVars := S_nVars ?S + length (S_vars S)\<rparr>)"
    "reads d2 (?W ?e) d3"
    using load_svs_ok [OF s2(1-3) vars s2(4), of ?S] by blast
  then have s3: "src_ok d3" "\<not> ds_debug d3" "byte_order d3 = ?B" "to_read d3 = ?W ?e @ []" using s2 by (auto simp: reads_def same_setup_def)
  obtain d4 where d4: "AG_ReadUint32 d3 = Some (?e, d4)" using read_u32_ok [OF s3(1,2), of ?e "[]"] s3(3,4) by auto
  have "unat ?e = S_nEvents S" using unat_u32 [OF events] .
  then show ?thesis using d0(1) d1(1) d2(1) d3(1) d4 n count(1) by (simp add: WEB_SessionLoad_def id Let_def)
qed

text \<open>
  C17: a session that was saved is loaded again exactly when it has between one and a hundred variables, and then it has
  the variables and the count of events that were saved; the variables are put behind those that the new session starts with.
  Its file can be opened, keys and values are strings within their fields, and the counts are below \<open>2 ^ 32\<close>.
\<close>

theorem WEB_Session_roundtrip:
  assumes "list_all sv_ok (S_vars S)" and "S_nVars S = length (S_vars S)" "S_nVars S < 2 ^ 32" and "S_nEvents S < 2 ^ 32"
    and "length (S_id S) < WEB_SESSID_MAX" and "can_open (session_path (S_id S) [])"
  shows "\<exists>files' S'. WEB_SessionSave j None can_open files S = Some (True, files') \<and>
    WEB_SessionLoad j None files' S0 (S_id S) = Some (S_vars S \<noteq> [] \<and> length (S_vars S) \<le> WEB_SESSION_VARIABLES_MAX, S') \<and>
    (S_vars S \<noteq> [] \<and> length (S_vars S) \<le> WEB_SESSION_VARIABLES_MAX \<longrightarrow>
      S' = S0\<lparr>S_id := S_id S, S_vars := S_vars S0 @ S_vars S, S_nVars := S_nVars S, S_nEvents := S_nEvents S\<rparr>)"
  using SessionLoad_ok [OF assms(1-5), of "files(session_path (S_id S) [] := Some (bytes_str (session_bytes S)))" j S0]
    SessionSave_ok [of S can_open j files] assms by simp

definition user_session :: WEB_Session where
  "user_session = \<lparr>S_id = ''1234'', S_vars = [\<lparr>sv_key = ''user'', sv_value = ''ann''\<rparr>], S_nVars = 1, S_nEvents = 3\<rparr>"

theorem WEB_Session_roundtrip_witness:
  "\<exists>files' S'. WEB_SessionSave 0 None (\<lambda>p. True) (\<lambda>p. None) user_session = Some (True, files') \<and>
    WEB_SessionLoad 0 None files' (WEB_SessionInit None) ''1234'' = Some (True, S') \<and> S' = user_session"
proof -
  have "list_all sv_ok (S_vars user_session)"
    by (simp add: user_session_def sv_ok_def WEB_SESSION_VAR_KEY_MAX_def WEB_SESSION_VAR_VALUE_MAX_def)
  moreover have "S_nVars user_session = length (S_vars user_session)" "S_nVars user_session < 2 ^ 32" "S_nEvents user_session < 2 ^ 32"
    "length (S_id user_session) < WEB_SESSID_MAX" "S_id user_session = ''1234''" "S_vars user_session \<noteq> []"
    "length (S_vars user_session) \<le> WEB_SESSION_VARIABLES_MAX"
    by (simp_all add: user_session_def WEB_SESSID_MAX_def WEB_SESSION_VARIABLES_MAX_def)
  moreover have "(WEB_SessionInit None)\<lparr>S_id := S_id user_session, S_vars := S_vars (WEB_SessionInit None) @ S_vars user_session,
      S_nVars := S_nVars user_session, S_nEvents := S_nEvents user_session\<rparr> = user_session"
    by (simp add: WEB_SessionInit_def user_session_def)
  ultimately show ?thesis
    using WEB_Session_roundtrip [of user_session "\<lambda>p. True" 0 "\<lambda>p. None" "WEB_SessionInit None"] by auto
qed

section \<open>Queries\<close>

definition arg_image :: "WEB_Argument \<Rightarrow> byte list" where
  "arg_image a = [arg_type_code (a_type a)] @ str_be (a_contentType a) @ str_be (a_key a) @ be32 (u32 (a_len a)) @ str_bytes (the (a_value a))"

definition cookie_image :: "WEB_Cookie \<Rightarrow> byte list" where
  "cookie_image ck = str_be (ck_name ck) @ str_be (ck_value ck) @ be32 (ck_flags ck)"

definition query_image :: "WEB_Query \<Rightarrow> byte list" where
  "query_image q = [of_nat (q_method q), ucast (q_flags q)] @ concat (map str_be [q_date q, q_userIP q, q_userHost q, q_userAgent q]) @
     [of_nat (length (q_acceptLangs q))] @ concat (map str_be (q_acceptLangs q)) @
     be32 (u32 (q_nArgs q)) @ concat (map arg_image (q_args q)) @ be32 (u32 (q_nCookies q)) @ concat (map cookie_image (q_cookies q)) @
     str_be (q_contentType q) @ be32 (u32 (q_contentLength q))"

definition query_arg_ok :: "WEB_Argument \<Rightarrow> bool" where
  "query_arg_ok a \<longleftrightarrow> arg_code_type (arg_type_code (a_type a)) = a_type a \<and> nonul (a_contentType a) \<and> length (a_contentType a) < 32 \<and>
     nonul (a_key a) \<and> length (a_key a) < WEB_ARG_KEY_MAX \<and> (\<exists>b. a_value a = Some b \<and> a_len a = length b)"

lemma save_arg_ok:
  assumes "query_arg_ok a" and "core_at ds out (length (arg_image a) + n)"
  shows "\<exists>ds'. save_arg ds a = Some ds' \<and> core_at ds' (out @ arg_image a) n"
proof -
  obtain b where b: "a_value a = Some b" "a_len a = length b" using assms(1) by (auto simp: query_arg_ok_def)
  have "core_at ds out (1 + (4 + length (a_contentType a) + (4 + length (a_key a) + (4 + (length (str_bytes b) + n)))))"
    using assms(2) b by (simp add: arg_image_def algebra_simps)
  then obtain d1 where d1: "AG_WriteUint8 (arg_type_code (a_type a)) ds = Some d1"
    "core_at d1 (out @ [arg_type_code (a_type a)]) (4 + length (a_contentType a) + (4 + length (a_key a) + (4 + (length (str_bytes b) + n))))"
    using core_u8 by blast
  obtain d2 where d2: "AG_WriteString (Some (a_contentType a)) d1 = Some d2"
    "core_at d2 ((out @ [arg_type_code (a_type a)]) @ str_be (a_contentType a)) (4 + length (a_key a) + (4 + (length (str_bytes b) + n)))"
    using core_string [OF d1(2)] by blast
  obtain d3 where d3: "AG_WriteString (Some (a_key a)) d2 = Some d3"
    "core_at d3 (((out @ [arg_type_code (a_type a)]) @ str_be (a_contentType a)) @ str_be (a_key a)) (4 + (length (str_bytes b) + n))"
    using core_string [OF d2(2)] by blast
  obtain d4 where d4: "AG_WriteUint32 (u32 (a_len a)) d3 = Some d4"
    "core_at d4 ((((out @ [arg_type_code (a_type a)]) @ str_be (a_contentType a)) @ str_be (a_key a)) @ be32 (u32 (a_len a))) (length (str_bytes b) + n)"
    using core_u32 [OF d3(2)] by blast
  obtain d5 where "AG_Write (str_bytes b) d4 = Some (0, d5)"
    "core_at d5 (((((out @ [arg_type_code (a_type a)]) @ str_be (a_contentType a)) @ str_be (a_key a)) @ be32 (u32 (a_len a))) @ str_bytes b) n"
    using core_write(1) [OF d4(2)] by blast
  moreover have "arg_bytes a = Some (str_bytes b)" using b by (simp add: arg_bytes_def)
  ultimately show ?thesis using d1 d2 d3 d4 b by (simp add: save_arg_def arg_image_def)
qed

lemma save_cookie_ok:
  assumes "core_at ds out (length (cookie_image ck) + n)"
  shows "\<exists>ds'. save_cookie ds ck = Some ds' \<and> core_at ds' (out @ cookie_image ck) n"
proof -
  have "core_at ds out (4 + length (ck_name ck) + (4 + length (ck_value ck) + (4 + n)))"
    using assms by (simp add: cookie_image_def algebra_simps)
  then obtain d1 where d1: "AG_WriteString (Some (ck_name ck)) ds = Some d1"
    "core_at d1 (out @ str_be (ck_name ck)) (4 + length (ck_value ck) + (4 + n))"
    using core_string by blast
  obtain d2 where d2: "AG_WriteString (Some (ck_value ck)) d1 = Some d2" "core_at d2 ((out @ str_be (ck_name ck)) @ str_be (ck_value ck)) (4 + n)"
    using core_string [OF d1(2)] by blast
  obtain d3 where "AG_WriteUint32 (ck_flags ck) d2 = Some d3" "core_at d3 (((out @ str_be (ck_name ck)) @ str_be (ck_value ck)) @ be32 (ck_flags ck)) n"
    using core_u32 [OF d2(2)] by blast
  then show ?thesis using d1 d2 by (simp add: save_cookie_def cookie_image_def)
qed

lemma QuerySave_ok:
  assumes args: "list_all query_arg_ok (q_args q)" and fits: "length (query_image q) \<le> WEB_QUERY_MAX - 4" and buf: "length buf = WEB_QUERY_MAX"
  shows "WEB_QuerySave j buf q = Some (to_bytes 4 (u32 (length (query_image q))) @ query_image q)"
proof -
  let ?s1 = "concat (map str_be [q_date q, q_userIP q, q_userHost q, q_userAgent q])" and ?s2 = "concat (map str_be (q_acceptLangs q))"
    and ?s3 = "concat (map arg_image (q_args q))" and ?s4 = "concat (map cookie_image (q_cookies q))"
  let ?m = "of_nat (q_method q) :: byte" and ?f = "ucast (q_flags q) :: byte" and ?l = "of_nat (length (q_acceptLangs q)) :: byte"
  let ?r10 = "4 + 0" let ?r9 = "4 + length (q_contentType q) + ?r10" let ?r8 = "length ?s4 + ?r9" let ?r7 = "4 + ?r8" let ?r6 = "length ?s3 + ?r7"
  let ?r5 = "4 + ?r6" let ?r4 = "length ?s2 + ?r5" let ?r3 = "1 + ?r4" let ?r2 = "length ?s1 + ?r3" let ?r1 = "1 + ?r2"
  define d where "d = AG_OpenCore j (drop 4 buf) (WEB_QUERY_MAX - 4)"
  have "core_at d [] (1 + ?r1)" using fits buf
    by (simp add: d_def core_at_def AG_OpenCore_def AG_DataSourceInit_def query_image_def WEB_QUERY_MAX_def del: map_map)
  then obtain d1 where d1: "AG_WriteUint8 ?m d = Some d1" "core_at d1 ([] @ [?m]) ?r1" using core_u8 by blast
  then obtain d2 where d2: "AG_WriteUint8 ?f d1 = Some d2" "core_at d2 (([] @ [?m]) @ [?f]) ?r2" using core_u8 by blast
  have str: "\<exists>ds'. save_string ds x = Some ds' \<and> core_at ds' (out @ str_be x) n" if "core_at ds out (length (str_be x) + n)" for ds x out n
    using core_string [of ds out x n] that by (simp add: save_string_def)
  obtain d3 where d3: "fold_opt save_string d2 [q_date q, q_userIP q, q_userHost q, q_userAgent q] = Some d3" "core_at d3 ((([] @ [?m]) @ [?f]) @ ?s1) ?r3"
    using core_fold [where f = save_string and b = str_be, OF _ d2(2)] str by blast
  obtain d4 where d4: "AG_WriteUint8 ?l d3 = Some d4" "core_at d4 (((([] @ [?m]) @ [?f]) @ ?s1) @ [?l]) ?r4" using core_u8 [OF d3(2)] by blast
  obtain d5 where d5: "fold_opt save_string d4 (q_acceptLangs q) = Some d5" "core_at d5 ((((([] @ [?m]) @ [?f]) @ ?s1) @ [?l]) @ ?s2) ?r5"
    using core_fold [where f = save_string and b = str_be, OF _ d4(2)] str by blast
  obtain d6 where d6: "AG_WriteUint32 (u32 (q_nArgs q)) d5 = Some d6"
    "core_at d6 (((((([] @ [?m]) @ [?f]) @ ?s1) @ [?l]) @ ?s2) @ be32 (u32 (q_nArgs q))) ?r6" using core_u32 [OF d5(2)] by blast
  have arg: "\<exists>ds'. save_arg ds x = Some ds' \<and> core_at ds' (out @ arg_image x) n" if "x \<in> set (q_args q)" "core_at ds out (length (arg_image x) + n)" for ds x out n
    using save_arg_ok [of x ds out n] that args by (auto simp: list_all_iff)
  obtain d7 where d7: "fold_opt save_arg d6 (q_args q) = Some d7"
    "core_at d7 ((((((([] @ [?m]) @ [?f]) @ ?s1) @ [?l]) @ ?s2) @ be32 (u32 (q_nArgs q))) @ ?s3) ?r7" using core_fold [where f = save_arg and b = arg_image, OF _ d6(2)] arg by blast
  obtain d8 where d8: "AG_WriteUint32 (u32 (q_nCookies q)) d7 = Some d8"
    "core_at d8 (((((((([] @ [?m]) @ [?f]) @ ?s1) @ [?l]) @ ?s2) @ be32 (u32 (q_nArgs q))) @ ?s3) @ be32 (u32 (q_nCookies q))) ?r8" using core_u32 [OF d7(2)] by blast
  have cook: "\<exists>ds'. save_cookie ds x = Some ds' \<and> core_at ds' (out @ cookie_image x) n"
    if "core_at ds out (length (cookie_image x) + n)" for ds x out n
    using save_cookie_ok [of ds out x n] that by simp
  obtain d9 where d9: "fold_opt save_cookie d8 (q_cookies q) = Some d9"
    "core_at d9 ((((((((([] @ [?m]) @ [?f]) @ ?s1) @ [?l]) @ ?s2) @ be32 (u32 (q_nArgs q))) @ ?s3) @ be32 (u32 (q_nCookies q))) @ ?s4) ?r9"
    using core_fold [where f = save_cookie and b = cookie_image, OF _ d8(2)] cook by blast
  obtain d10 where d10: "AG_WriteString (Some (q_contentType q)) d9 = Some d10"
    "core_at d10 (((((((((([] @ [?m]) @ [?f]) @ ?s1) @ [?l]) @ ?s2) @ be32 (u32 (q_nArgs q))) @ ?s3) @ be32 (u32 (q_nCookies q))) @ ?s4) @ str_be (q_contentType q)) ?r10"
    using core_string [OF d9(2)] by blast
  obtain d11 where d11: "AG_WriteUint32 (u32 (q_contentLength q)) d10 = Some d11" "core_at d11 (query_image q) 0"
    using core_u32 [OF d10(2)] by (auto simp: query_image_def)
  have o: "cs_offs d11 = int (length (query_image q))" "take (length (query_image q)) (cs_data d11) = query_image q" using d11(2) by (simp_all add: core_at_def)
  have u: "unat (u32 (length (query_image q))) = length (query_image q)" using fits by (intro unat_u32) (simp add: WEB_QUERY_MAX_def)
  show ?thesis
    unfolding WEB_QuerySave_def Let_def d_def [symmetric] d1(1) d2(1) bind.bind_lunit d3(1) d4(1) d5(1) d6(1) d7(1) d8(1) d9(1) d10(1) d11(1) o(1) nat_int u
    using o(2) by simp
qed

section \<open>Reading queries\<close>

lemma load_langs_ok:
  assumes "rest_is ds (concat (map str_be ls) @ r)" and "list_all (\<lambda>l. nonul l \<and> length l < WEB_LANG_CODE_MAX) ls"
  shows "\<exists>ds'. load_langs (length ls) ds q = Some (ds', q\<lparr>q_acceptLangs := q_acceptLangs q @ ls\<rparr>) \<and> rest_is ds' r"
  using assms
proof (induction ls arbitrary: ds q)
  case (Cons l ls)
  obtain d where "copy_str WEB_LANG_CODE_MAX ds = Some (length l, l, d)" "rest_is d (concat (map str_be ls) @ r)"
    using rest_string [of ds l "concat (map str_be ls) @ r" WEB_LANG_CODE_MAX] Cons.prems by (auto simp: WEB_LANG_CODE_MAX_def)
  then show ?case using Cons.IH [of d "q\<lparr>q_acceptLangs := q_acceptLangs q @ [l]\<rparr>"] Cons.prems by auto
qed simp

lemma load_args_ok:
  assumes "rest_is ds (concat (map arg_image as) @ r)" and "list_all query_arg_ok as" and "length (concat (map arg_image as)) < WEB_QUERY_MAX"
  shows "\<exists>ds'. load_args (length as) ds q = Some (True, ds', q\<lparr>q_args := q_args q @ as, q_nArgs := q_nArgs q + length as\<rparr>) \<and> rest_is ds' r"
  using assms
proof (induction as arbitrary: ds q)
  case (Cons a as)
  let ?r = "concat (map arg_image as) @ r"
  obtain b where b: "a_value a = Some b" "a_len a = length b" using Cons.prems(2) by (auto simp: query_arg_ok_def)
  have ok: "arg_code_type (arg_type_code (a_type a)) = a_type a" "nonul (a_contentType a)" "length (a_contentType a) < 32"
    "nonul (a_key a)" "length (a_key a) < WEB_ARG_KEY_MAX" using Cons.prems(2) by (simp_all add: query_arg_ok_def)
  have lb: "length b < 4096" using Cons.prems(3) b by (simp add: arg_image_def WEB_QUERY_MAX_def)
  then have u: "unat (u32 (a_len a)) = length b" using b by (subst unat_u32) simp_all
  have "rest_is ds ([arg_type_code (a_type a)] @ str_be (a_contentType a) @ str_be (a_key a) @ be32 (u32 (a_len a)) @ str_bytes b @ ?r)"
    using Cons.prems(1) b arg_image_def [of a] by simp
  then obtain d1 where d1: "AG_ReadUint8 ds = Some (arg_type_code (a_type a), d1)"
    "rest_is d1 (str_be (a_contentType a) @ str_be (a_key a) @ be32 (u32 (a_len a)) @ str_bytes b @ ?r)" using rest_u8 by blast
  obtain d2 where d2: "copy_str 32 d1 = Some (length (a_contentType a), a_contentType a, d2)"
    "rest_is d2 (str_be (a_key a) @ be32 (u32 (a_len a)) @ str_bytes b @ ?r)" using rest_string [OF d1(2) ok(2,3)] by auto
  obtain d3 where d3: "copy_str WEB_ARG_KEY_MAX d2 = Some (length (a_key a), a_key a, d3)"
    "rest_is d3 (be32 (u32 (a_len a)) @ str_bytes b @ ?r)" using rest_string [OF d2(2) ok(4,5)] by (auto simp: WEB_ARG_KEY_MAX_def)
  obtain d4 where d4: "AG_ReadUint32 d3 = Some (u32 (a_len a), d4)" "rest_is d4 (str_bytes b @ ?r)" using rest_u32 [OF d3(2)] by blast
  obtain d5 where d5: "AG_Read (length b) d4 = Some (0, str_bytes b, d5)" "rest_is d5 ?r" using rest_raw [OF d4(2)] by auto
  have a: "\<lparr>a_type = a_type a, a_key = a_key a, a_value = Some b, a_len = length b, a_contentType = a_contentType a\<rparr> = a" using b by (cases a) simp
  have "list_all query_arg_ok as" "length (concat (map arg_image as)) < WEB_QUERY_MAX" using Cons.prems(2,3) by simp_all
  then show ?case using Cons.IH [OF d5(2), of "q\<lparr>q_args := q_args q @ [a], q_nArgs := q_nArgs q + 1\<rparr>"] d1(1) d2(1) d3(1) d4(1) d5(1) u ok(1) lb
    by (auto simp: a WEB_ARG_LENGTH_MAX_def)
qed simp

definition cookie_ok :: "WEB_Cookie \<Rightarrow> bool" where
  "cookie_ok ck \<longleftrightarrow> nonul (ck_name ck) \<and> length (ck_name ck) < WEB_COOKIE_NAME_MAX \<and> nonul (ck_value ck) \<and> length (ck_value ck) < WEB_COOKIE_VALUE_MAX"

definition bare_cookie :: "WEB_Cookie \<Rightarrow> WEB_Cookie" where
  "bare_cookie ck = ck\<lparr>ck_expires := [], ck_domain := [], ck_path := []\<rparr>"

lemma load_cookies_ok:
  assumes "rest_is ds (concat (map cookie_image cks) @ r)" and "list_all cookie_ok cks"
  shows "\<exists>ds'. load_cookies (length cks) ds q =
      Some (True, ds', q\<lparr>q_cookies := q_cookies q @ map bare_cookie cks, q_nCookies := q_nCookies q + length cks\<rparr>) \<and> rest_is ds' r"
  using assms
proof (induction cks arbitrary: ds q)
  case (Cons ck cks)
  let ?r = "concat (map cookie_image cks) @ r"
  have ok: "nonul (ck_name ck)" "length (ck_name ck) < WEB_COOKIE_NAME_MAX" "nonul (ck_value ck)" "length (ck_value ck) < WEB_COOKIE_VALUE_MAX"
    using Cons.prems(2) by (simp_all add: cookie_ok_def)
  have "rest_is ds (str_be (ck_name ck) @ str_be (ck_value ck) @ be32 (ck_flags ck) @ ?r)" using Cons.prems(1) cookie_image_def [of ck] by simp
  then obtain d1 where d1: "copy_str WEB_COOKIE_NAME_MAX ds = Some (length (ck_name ck), ck_name ck, d1)"
    "rest_is d1 (str_be (ck_value ck) @ be32 (ck_flags ck) @ ?r)" using rest_string [OF _ ok(1,2)] by (fastforce simp: WEB_COOKIE_NAME_MAX_def)
  obtain d2 where d2: "copy_str WEB_COOKIE_VALUE_MAX d1 = Some (length (ck_value ck), ck_value ck, d2)" "rest_is d2 (be32 (ck_flags ck) @ ?r)"
    using rest_string [OF d1(2) ok(3,4)] by (auto simp: WEB_COOKIE_VALUE_MAX_def)
  obtain d3 where d3: "AG_ReadUint32v d2 = Some (0, Some (ck_flags ck), d3)" "rest_is d3 ?r" using rest_u32v [OF d2(2)] by blast
  have c: "\<lparr>ck_name = ck_name ck, ck_value = ck_value ck, ck_expires = [], ck_domain = [], ck_path = [], ck_flags = ck_flags ck\<rparr> = bare_cookie ck"
    by (cases ck) (simp add: bare_cookie_def)
  have "list_all cookie_ok cks" using Cons.prems(2) by simp
  then show ?case using Cons.IH [OF d3(2), of "q\<lparr>q_cookies := q_cookies q @ [bare_cookie ck], q_nCookies := q_nCookies q + 1\<rparr>"] d1(1) d2(1) d3(1)
    by (auto simp: c)
qed simp

definition query_ok :: "WEB_Query \<Rightarrow> bool" where
  "query_ok q \<longleftrightarrow> q_method q < WEB_METHOD_LAST \<and> q_flags q < 256 \<and>
     nonul (q_date q) \<and> length (q_date q) < 32 \<and> nonul (q_userIP q) \<and> length (q_userIP q) < 64 \<and>
     nonul (q_userHost q) \<and> length (q_userHost q) < 256 \<and> nonul (q_userAgent q) \<and> length (q_userAgent q) < WEB_USERAGENT_MAX \<and>
     length (q_acceptLangs q) < WEB_LANGS_MAX \<and> list_all (\<lambda>l. nonul l \<and> length l < WEB_LANG_CODE_MAX) (q_acceptLangs q) \<and>
     q_nArgs q = length (q_args q) \<and> q_nArgs q \<le> WEB_MAX_ARGS \<and> list_all query_arg_ok (q_args q) \<and>
     q_nCookies q = length (q_cookies q) \<and> q_nCookies q \<le> WEB_MAX_COOKIES \<and> list_all cookie_ok (q_cookies q) \<and>
     nonul (q_contentType q) \<and> length (q_contentType q) < 128 \<and> q_contentLength q < 2 ^ 32"

text \<open>What the worker gets of a query: the front part of the query, and its own answer.\<close>

definition received :: "WEB_Query \<Rightarrow> WEB_Query \<Rightarrow> WEB_Query" where
  "received q q0 = q0\<lparr>q_method := q_method q, q_flags := q_flags q, q_date := q_date q, q_userIP := q_userIP q, q_userHost := q_userHost q,
     q_userAgent := q_userAgent q, q_acceptLangs := q_acceptLangs q, q_args := q_args q0 @ q_args q, q_nArgs := q_nArgs q0 + q_nArgs q,
     q_cookies := q_cookies q0 @ map bare_cookie (q_cookies q), q_nCookies := q_nCookies q0 + q_nCookies q,
     q_contentType := q_contentType q, q_contentLength := q_contentLength q\<rparr>"

lemma word_byte: "x < 256 \<Longrightarrow> ucast (ucast x :: 8 word) = (x :: 32 word)"
proof -
  assume x: "x < 256"
  have "ucast (ucast x :: 8 word) = x mod 256"
    by (rule bit_word_eqI) (simp add: bit_simps flip: take_bit_eq_mod [of 8, simplified])
  then show ?thesis using x by (simp add: mod_word_less)
qed

lemma QueryLoad_ok:
  assumes q: "query_ok q" and fits: "length (query_image q) < WEB_QUERY_MAX"
  shows "WEB_QueryLoad j q0 (query_image q) = Some (Inr (), received q q0)"
proof -
  let ?m = "of_nat (q_method q) :: byte" and ?f = "ucast (q_flags q) :: byte" and ?l = "of_nat (length (q_acceptLangs q)) :: byte"
  let ?r7 = "str_be (q_contentType q) @ be32 (u32 (q_contentLength q)) @ []"
  let ?r6 = "concat (map cookie_image (q_cookies q)) @ ?r7" let ?r5 = "be32 (u32 (q_nCookies q)) @ ?r6"
  let ?r4 = "concat (map arg_image (q_args q)) @ ?r5" let ?r3 = "be32 (u32 (q_nArgs q)) @ ?r4" let ?r2 = "concat (map str_be (q_acceptLangs q)) @ ?r3"
  let ?r1 = "str_be (q_date q) @ str_be (q_userIP q) @ str_be (q_userHost q) @ str_be (q_userAgent q) @ [?l] @ ?r2"
  define d where "d = AG_OpenConstCore j (query_image q) (length (query_image q))"
  have sz: "int (length (query_image q)) < 2 ^ 63" using fits by (simp add: WEB_QUERY_MAX_def)
  have "rest_is d ([?m] @ [?f] @ ?r1)" using sz
    by (simp add: d_def rest_is_def AG_OpenConstCore_def AG_DataSourceInit_def src_ok_def sized_def to_read_def query_image_def)
  then obtain d1 where d1: "AG_ReadUint8 d = Some (?m, d1)" "rest_is d1 ([?f] @ ?r1)" using rest_u8 by blast
  obtain d2 where d2: "AG_ReadUint8 d1 = Some (?f, d2)" "rest_is d2 ?r1" using rest_u8 [OF d1(2)] by blast
  have f: "nonul (q_date q)" "length (q_date q) < 32" "nonul (q_userIP q)" "length (q_userIP q) < 64" "nonul (q_userHost q)" "length (q_userHost q) < 256"
    "nonul (q_userAgent q)" "length (q_userAgent q) < WEB_USERAGENT_MAX" "nonul (q_contentType q)" "length (q_contentType q) < 128"
    using q by (simp_all add: query_ok_def)
  obtain d3 where d3: "copy_str 32 d2 = Some (length (q_date q), q_date q, d3)"
    "rest_is d3 (str_be (q_userIP q) @ str_be (q_userHost q) @ str_be (q_userAgent q) @ [?l] @ ?r2)"
    using rest_string [OF d2(2) f(1,2)] by auto
  obtain d4 where d4: "copy_str 64 d3 = Some (length (q_userIP q), q_userIP q, d4)"
    "rest_is d4 (str_be (q_userHost q) @ str_be (q_userAgent q) @ [?l] @ ?r2)" using rest_string [OF d3(2) f(3,4)] by auto
  obtain d5 where d5: "copy_str 256 d4 = Some (length (q_userHost q), q_userHost q, d5)" "rest_is d5 (str_be (q_userAgent q) @ [?l] @ ?r2)"
    using rest_string [OF d4(2) f(5,6)] by auto
  obtain d6 where d6: "copy_str WEB_USERAGENT_MAX d5 = Some (length (q_userAgent q), q_userAgent q, d6)" "rest_is d6 ([?l] @ ?r2)"
    using rest_string [OF d5(2) f(7,8)] by (auto simp: WEB_USERAGENT_MAX_def)
  obtain d7 where d7: "AG_ReadUint8 d6 = Some (?l, d7)" "rest_is d7 ?r2" using rest_u8 [OF d6(2)] by blast
  define q1 where "q1 = q0\<lparr>q_method := q_method q, q_flags := q_flags q, q_date := q_date q, q_userIP := q_userIP q, q_userHost := q_userHost q,
    q_userAgent := q_userAgent q, q_acceptLangs := []\<rparr>"
  obtain d8 where d8: "load_langs (length (q_acceptLangs q)) d7 q1 = Some (d8, q1\<lparr>q_acceptLangs := q_acceptLangs q\<rparr>)" "rest_is d8 ?r3"
    using load_langs_ok [OF d7(2), of q1] q by (auto simp: query_ok_def q1_def)
  obtain d9 where d9: "AG_ReadUint32 d8 = Some (u32 (q_nArgs q), d9)" "rest_is d9 ?r4" using rest_u32 [OF d8(2)] by blast
  define q2 where "q2 = q1\<lparr>q_acceptLangs := q_acceptLangs q\<rparr>"
  have args: "list_all query_arg_ok (q_args q)" "length (concat (map arg_image (q_args q))) < WEB_QUERY_MAX" using q fits by (auto simp: query_ok_def query_image_def)
  obtain d10 where d10: "load_args (length (q_args q)) d9 q2 = Some (True, d10, q2\<lparr>q_args := q_args q2 @ q_args q, q_nArgs := q_nArgs q2 + length (q_args q)\<rparr>)"
    "rest_is d10 ?r5" using load_args_ok [OF d9(2) args, of q2] by blast
  obtain d11 where d11: "AG_ReadUint32 d10 = Some (u32 (q_nCookies q), d11)" "rest_is d11 ?r6" using rest_u32 [OF d10(2)] by blast
  define q3 where "q3 = q2\<lparr>q_args := q_args q2 @ q_args q, q_nArgs := q_nArgs q2 + length (q_args q)\<rparr>"
  have "list_all cookie_ok (q_cookies q)" using q by (simp add: query_ok_def)
  then obtain d12 where d12: "load_cookies (length (q_cookies q)) d11 q3 = Some (True, d12, q3\<lparr>q_cookies := q_cookies q3 @ map bare_cookie (q_cookies q),
    q_nCookies := q_nCookies q3 + length (q_cookies q)\<rparr>)" "rest_is d12 ?r7" using load_cookies_ok [OF d11(2), of q3] by blast
  obtain d13 where d13: "copy_str 128 d12 = Some (length (q_contentType q), q_contentType q, d13)" "rest_is d13 (be32 (u32 (q_contentLength q)) @ [])"
    using rest_string [OF d12(2) f(9,10)] by auto
  obtain d14 where d14: "AG_ReadUint32 d13 = Some (u32 (q_contentLength q), d14)" using rest_u32 [OF d13(2)] by blast
  have n: "unat ?m = q_method q" "unat ?l = length (q_acceptLangs q)" "ucast ?f = q_flags q" "unat (u32 (q_nArgs q)) = length (q_args q)"
    "unat (u32 (q_nCookies q)) = length (q_cookies q)" "unat (u32 (q_contentLength q)) = q_contentLength q"
    using q by (auto simp: query_ok_def unat_of_nat WEB_METHOD_LAST_def WEB_LANGS_MAX_def WEB_MAX_ARGS_def WEB_MAX_COOKIES_def unat_u32 word_byte)
  have b: "\<not> WEB_METHOD_LAST \<le> q_method q" "\<not> WEB_LANGS_MAX \<le> length (q_acceptLangs q)" "\<not> WEB_MAX_ARGS < length (q_args q)"
    "\<not> WEB_MAX_COOKIES < length (q_cookies q)" "q_nArgs q = length (q_args q)" "q_nCookies q = length (q_cookies q)"
    using q by (auto simp: query_ok_def)
  show ?thesis
    unfolding WEB_QueryLoad_def Let_def d_def [symmetric] d1(1) bind.bind_lunit prod.case n(1) d2(1) d3(1) d4(1) d5(1) d6(1) d7(1) n(2)
    using d8(1) d9(1) d10(1) d11(1) d12(1) d13(1) d14(1) n(3-6) b
    by (simp add: q1_def q2_def q3_def received_def)
qed

text \<open>
  C12: a query within the limits of \<open>WEB_QueryLoad\<close> (\<open>query_ok\<close>) whose image fits the 4092 bytes of the message: \<open>WEB_QueryLoad\<close> restores from
  what \<open>WEB_QuerySave\<close> sends the method, the flags, the date, address, host and user agent of the client, the languages, the
  arguments in order with their values, names and values of the cookies, and type and length of the content.  Not sent, and empty in the
  worker, are the other attributes of cookies; the range of a range request is not sent either.  The limits: fewer than
  \<open>WEB_LANGS_MAX\<close> languages (a front end accepts that many, and the worker refuses them), arguments and cookies up to their numbers,
  strings without a NUL and within the buffers of their fields, and a content length below \<open>2 ^ 32\<close>.
\<close>

theorem WEB_Query_roundtrip:
  assumes "query_ok q" and "length (query_image q) \<le> WEB_QUERY_MAX - 4" and "length buf = WEB_QUERY_MAX"
  shows "\<exists>msg. WEB_QuerySave j buf q = Some msg \<and> take 4 msg = to_bytes 4 (u32 (length msg - 4)) \<and>
    WEB_QueryLoad j q0 (drop 4 msg) = Some (Inr (), received q q0)"
proof -
  have "list_all query_arg_ok (q_args q)" "length (query_image q) < WEB_QUERY_MAX" using assms by (auto simp: query_ok_def WEB_QUERY_MAX_def)
  then show ?thesis using QuerySave_ok [of q buf j] QueryLoad_ok [of q j q0] assms by simp
qed

definition posted_query :: WEB_Query where
  "posted_query = fresh_query\<lparr>q_method := 2, q_flags := 1, q_date := ''today'', q_userIP := ''10.0.0.1'', q_acceptLangs := [''en'', ''fr''],
     q_args := [\<lparr>a_type = WEB_POST_ARGUMENT, a_key = ''op'', a_value = Some ([CHR ''x'', NUL]), a_len = 2, a_contentType = []\<rparr>], q_nArgs := 1,
     q_cookies := [\<lparr>ck_name = ''sess'', ck_value = ''12'', ck_expires = ''never'', ck_domain = [], ck_path = [], ck_flags = 1\<rparr>], q_nCookies := 1,
     q_contentType := ''text/plain'', q_contentLength := 7\<rparr>"

theorem WEB_Query_roundtrip_witness:
  "\<exists>msg. WEB_QuerySave 0 (replicate WEB_QUERY_MAX 0) posted_query = Some msg \<and>
     WEB_QueryLoad 0 fresh_query (drop 4 msg) = Some (Inr (), received posted_query fresh_query) \<and>
     map ck_expires (q_cookies (received posted_query fresh_query)) = [[]]"
proof -
  have "query_ok posted_query"
    by (simp add: query_ok_def posted_query_def fresh_query_def query_arg_ok_def cookie_ok_def nonul_def arg_type_code_def arg_code_type_def
        WEB_METHOD_LAST_def WEB_USERAGENT_MAX_def WEB_LANGS_MAX_def WEB_LANG_CODE_MAX_def WEB_MAX_ARGS_def WEB_MAX_COOKIES_def WEB_ARG_KEY_MAX_def
        WEB_COOKIE_NAME_MAX_def WEB_COOKIE_VALUE_MAX_def)
  moreover have "length (query_image posted_query) \<le> WEB_QUERY_MAX - 4"
    by (simp add: query_image_def posted_query_def fresh_query_def arg_image_def cookie_image_def WEB_QUERY_MAX_def)
  moreover have "map ck_expires (q_cookies (received posted_query fresh_query)) = [[]]"
    by (simp add: received_def posted_query_def fresh_query_def bare_cookie_def)
  ultimately show ?thesis using WEB_Query_roundtrip [of posted_query "replicate WEB_QUERY_MAX 0" 0 fresh_query] by auto
qed

end
