(* ===== verification/MultiText.thy ===== *)
theory MultiText
  imports Data CaseStr
begin

unbundle bit_operations_syntax

text \<open>
  Texts in several languages (core/text.c, core/text.h).  A text has an entry per language; the buffer of an entry is a block of
  \<open>maxLen\<close> characters.  Languages are numbers, as the code casts them; \<open>J\<close> is what fresh memory holds.  Allocation does not fail,
  except in \<open>AG_TextSet\<close>, whose test of the result is part of what it does.
\<close>

definition AG_LANG_LAST :: nat where "AG_LANG_LAST = 140"

definition AG_TEXT_SAVED_FLAGS :: "32 word" where "AG_TEXT_SAVED_FLAGS = 0"

definition agLanguageCodes :: "string list" where
  "agLanguageCodes =
    [''??'', ''aa'', ''ab'', ''af'', ''am'', ''ar'', ''as'', ''ay'', ''az'', ''ba'', ''be'', ''bg'', ''bh'', ''bi'',
     ''bn'', ''bo'', ''br'', ''ca'', ''co'', ''cs'', ''cy'', ''da'', ''de'', ''dz'', ''el'', ''en'', ''eo'', ''es'',
     ''et'', ''eu'', ''fa'', ''fi'', ''fj'', ''fo'', ''fr'', ''fy'', ''ga'', ''gd'', ''gl'', ''gn'', ''gu'', ''ha'',
     ''he'', ''hi'', ''hr'', ''hu'', ''hy'', ''ia'', ''id'', ''ie'', ''ik'', ''is'', ''it'', ''iu'', ''ja'', ''jw'',
     ''ka'', ''kk'', ''kl'', ''km'', ''kn'', ''ko'', ''ks'', ''ku'', ''ky'', ''la'', ''ln'', ''lo'', ''lt'', ''lv'',
     ''mg'', ''mi'', ''mk'', ''ml'', ''mn'', ''mo'', ''mr'', ''ms'', ''mt'', ''my'', ''na'', ''ne'', ''nl'', ''no'',
     ''oc'', ''om'', ''or'', ''pa'', ''pl'', ''ps'', ''pt'', ''qu'', ''rm'', ''rn'', ''ro'', ''ru'', ''rw'', ''sa'',
     ''sd'', ''sg'', ''sh'', ''si'', ''sk'', ''sl'', ''sm'', ''sn'', ''so'', ''sq'', ''sr'', ''ss'', ''st'', ''su'',
     ''sv'', ''sw'', ''ta'', ''te'', ''tg'', ''th'', ''ti'', ''tk'', ''tl'', ''tn'', ''to'', ''tr'', ''ts'', ''tt'',
     ''tw'', ''ug'', ''uk'', ''ur'', ''uz'', ''vi'', ''vo'', ''wo'', ''xh'', ''yi'', ''yo'', ''za'', ''zh'', ''zu'']"

record AG_TextEnt =
  te_buf :: "char list option"
  te_maxLen :: nat
  te_len :: nat

record AG_Text =
  tx_ent :: "AG_TextEnt list"
  tx_lang :: nat
  tx_maxLen :: nat
  tx_flags :: "32 word"

definition no_ent :: AG_TextEnt where "no_ent = \<lparr>te_buf = None, te_maxLen = 0, te_len = 0\<rparr>"

text \<open>An entry that owns a copy of \<open>s\<close>.\<close>

definition ent_of :: "string option \<Rightarrow> AG_TextEnt" where
  "ent_of s = (case s of None \<Rightarrow> no_ent | Some s \<Rightarrow> \<lparr>te_buf = Some (s @ [NUL]), te_maxLen = length s + 1, te_len = length s\<rparr>)"

definition set_ent :: "nat \<Rightarrow> AG_TextEnt \<Rightarrow> AG_Text \<Rightarrow> AG_Text option" where
  "set_ent lang te tx = do { es \<leftarrow> wr (tx_ent tx) lang te; Some (tx\<lparr>tx_ent := es\<rparr>) }"

section \<open>Creation\<close>

definition AG_TextInit :: "nat \<Rightarrow> AG_Text" where
  "AG_TextInit maxLen = \<lparr>tx_ent = replicate AG_LANG_LAST no_ent, tx_lang = 0, tx_maxLen = (if maxLen \<noteq> 0 then maxLen else 2147483646), tx_flags = 0\<rparr>"

definition AG_TextNew :: "nat \<Rightarrow> AG_Text" where "AG_TextNew maxLen = AG_TextInit maxLen"

definition AG_TextClear :: "AG_Text \<Rightarrow> AG_Text" where
  "AG_TextClear tx = tx\<lparr>tx_ent := replicate AG_LANG_LAST no_ent\<rparr>"

definition AG_TextDup :: "AG_Text \<Rightarrow> AG_Text option" where
  "AG_TextDup src = do {
     let dst = AG_TextNew (tx_maxLen src);
     es \<leftarrow> fold_opt (\<lambda>es te. case te_buf te of
         None \<Rightarrow> Some (es @ [no_ent])
       | Some b \<Rightarrow> if terminated b then Some (es @ [ent_of (Some (cstr b))]) else None) [] (tx_ent src);
     Some (dst\<lparr>tx_lang := tx_lang src, tx_flags := (tx_flags dst AND NOT AG_TEXT_SAVED_FLAGS) OR (tx_flags src AND AG_TEXT_SAVED_FLAGS), tx_ent := es\<rparr>)
   }"

section \<open>Setting\<close>

text \<open>
  \<open>AG_TextSet\<close> for the text that the format gives, or a null format.  The routine takes success of \<open>vasprintf\<close> for failure; when
  \<open>vasprintf\<close> fails the pointer it should have set is used, which has no result.
\<close>

definition AG_TextSet :: "bool \<Rightarrow> AG_Text \<Rightarrow> string option \<Rightarrow> (int \<times> AG_Text) option" where
  "AG_TextSet mem tx s = (case s of
     None \<Rightarrow> do { tx \<leftarrow> set_ent (tx_lang tx) no_ent tx; Some (0, tx) }
   | Some s \<Rightarrow> if mem then Some (-1, tx) else None)"

definition AG_TextSetEnt :: "AG_Text \<Rightarrow> nat \<Rightarrow> string \<Rightarrow> (int \<times> AG_Text) option" where
  "AG_TextSetEnt tx lang s = do { tx \<leftarrow> set_ent lang (ent_of (Some s)) tx; Some (0, tx) }"

definition AG_TextSetEntS :: "AG_Text \<Rightarrow> nat \<Rightarrow> string option \<Rightarrow> (int \<times> AG_Text) option" where
  "AG_TextSetEntS tx lang s = do { tx \<leftarrow> set_ent lang (ent_of s) tx; Some (0, tx) }"

definition AG_TextSetS :: "AG_Text \<Rightarrow> string option \<Rightarrow> (int \<times> AG_Text) option" where
  "AG_TextSetS tx s = AG_TextSetEntS tx (tx_lang tx) s"

definition AG_TextSetLimit :: "AG_Text \<Rightarrow> nat \<Rightarrow> AG_Text" where
  "AG_TextSetLimit tx n = tx\<lparr>tx_maxLen := n\<rparr>"

definition AG_TextSetLang :: "AG_Text \<Rightarrow> nat \<Rightarrow> AG_Text" where
  "AG_TextSetLang tx lang = tx\<lparr>tx_lang := lang\<rparr>"

definition AG_TextGetLang :: "AG_Text \<Rightarrow> nat" where "AG_TextGetLang tx = tx_lang tx"

definition AG_TextGetLangISO :: "AG_Text \<Rightarrow> string option" where
  "AG_TextGetLangISO tx = rd agLanguageCodes (tx_lang tx)"

text \<open>The language whose code is \<open>code\<close>, up to case; \<open>code\<close> is a terminated string.\<close>

fun find_lang :: "string list \<Rightarrow> char list \<Rightarrow> nat \<Rightarrow> nat option" where
  "find_lang [] code i = Some i"
| "find_lang (c # cs) code i = do { d \<leftarrow> AG_Strcasecmp (c @ [NUL]) code; if d = 0 then Some i else find_lang cs code (i + 1) }"

definition AG_TextSetLangISO :: "AG_Text \<Rightarrow> char list \<Rightarrow> (int \<times> AG_Text) option" where
  "AG_TextSetLangISO tx code = do {
     i \<leftarrow> find_lang agLanguageCodes code 0;
     Some (if i = AG_LANG_LAST then (-1, tx) else (0, tx\<lparr>tx_lang := i\<rparr>))
   }"

section \<open>Appending\<close>

definition AG_TextRealloc :: "char \<Rightarrow> AG_TextEnt \<Rightarrow> nat \<Rightarrow> AG_TextEnt" where
  "AG_TextRealloc J te n =
     (if n \<ge> te_maxLen te then
        let b = (case te_buf te of None \<Rightarrow> [] | Some b \<Rightarrow> b) in te\<lparr>te_buf := Some (take n b @ replicate (n - length b) J), te_maxLen := n\<rparr>
      else te)"

definition cat_bytes :: "char \<Rightarrow> AG_Text \<Rightarrow> char list \<Rightarrow> nat \<Rightarrow> (int \<times> AG_Text) option" where
  "cat_bytes J tx cs len = do {
     te \<leftarrow> rd (tx_ent tx) (tx_lang tx);
     let te = AG_TextRealloc J te (te_len te + len + 1);
     b \<leftarrow> te_buf te;
     b \<leftarrow> blit b (te_len te) cs;
     tx \<leftarrow> set_ent (tx_lang tx) (te\<lparr>te_buf := Some b, te_len := te_len te + len\<rparr>) tx;
     Some (0, tx)
   }"

definition AG_TextCatS :: "char \<Rightarrow> AG_Text \<Rightarrow> string \<Rightarrow> (int \<times> AG_Text) option" where
  "AG_TextCatS J tx s = cat_bytes J tx (s @ [NUL]) (length s)"

definition AS_StringCatBytes :: "char \<Rightarrow> AG_Text \<Rightarrow> char list \<Rightarrow> (int \<times> AG_Text) option" where
  "AS_StringCatBytes J tx cs = cat_bytes J tx cs (length cs)"

section \<open>Saving and loading\<close>

fun save_ents :: "AG_TextEnt list \<Rightarrow> nat \<Rightarrow> AG_DataSource \<Rightarrow> AG_DataSource option" where
  "save_ents [] i ds = Some ds"
| "save_ents (te # es) i ds = (case te_buf te of
     None \<Rightarrow> save_ents es (i + 1) ds
   | Some b \<Rightarrow> do {
       ds \<leftarrow> AG_WriteUint32 (u32 i) ds;
       s \<leftarrow> (if terminated b then Some (cstr b) else None);
       ds \<leftarrow> AG_WriteString (Some s) ds;
       save_ents es (i + 1) ds
     })"

definition AG_TextSave :: "AG_DataSource \<Rightarrow> AG_Text \<Rightarrow> AG_DataSource option" where
  "AG_TextSave ds tx = do {
     ds \<leftarrow> AG_WriteUint8 (of_nat (length (filter (\<lambda>te. te_buf te \<noteq> None) (tx_ent tx)))) ds;
     ds \<leftarrow> save_ents (tx_ent tx) 0 ds;
     AG_WriteUint32 (tx_flags tx AND AG_TEXT_SAVED_FLAGS) ds
   }"

fun load_ents :: "nat \<Rightarrow> AG_DataSource \<Rightarrow> AG_Text \<Rightarrow> (int \<times> AG_DataSource \<times> AG_Text) option" where
  "load_ents 0 ds tx = Some (0, ds, tx)"
| "load_ents (Suc n) ds tx = do {
     (lang, ds) \<leftarrow> AG_ReadUint32 ds;
     if unat lang \<ge> AG_LANG_LAST then Some (-1, ds, tx)
     else do {
       (b, ds) \<leftarrow> AG_ReadStringLen (tx_maxLen tx) ds;
       (case b of
          None \<Rightarrow> do {
            te \<leftarrow> rd (tx_ent tx) (unat lang);
            tx \<leftarrow> set_ent (unat lang) (te\<lparr>te_buf := None\<rparr>) tx;
            Some (-1, ds, tx)
          }
        | Some b \<Rightarrow> do {
            tx \<leftarrow> set_ent (unat lang) \<lparr>te_buf = Some b, te_maxLen = length (cstr b) + 1, te_len = length (cstr b)\<rparr> tx;
            load_ents n ds tx
          })
     }
   }"

definition AG_TextLoad :: "AG_Text \<Rightarrow> AG_DataSource \<Rightarrow> (int \<times> AG_DataSource \<times> AG_Text) option" where
  "AG_TextLoad tx ds = do {
     (count, ds) \<leftarrow> AG_ReadUint8 ds;
     if unat count \<ge> AG_LANG_LAST then Some (-1, ds, tx)
     else do {
       (rv, ds, tx) \<leftarrow> load_ents (unat count) ds (AG_TextClear tx);
       if rv = -1 then Some (-1, ds, tx)
       else do {
         (flags, ds) \<leftarrow> AG_ReadUint32 ds;
         Some (0, ds, tx\<lparr>tx_flags := (tx_flags tx AND NOT AG_TEXT_SAVED_FLAGS) OR (flags AND AG_TEXT_SAVED_FLAGS)\<rparr>)
       }
     }
   }"

end
