(* ===== verification/MultiTextLaws.thy ===== *)
theory MultiTextLaws
  imports MultiText SourceLaws
begin

text \<open>
  The laws of texts in several languages: the codes of the languages are distinct and select their language; the operations are those of a
  table of strings by language, which \<open>text_rep\<close> relates to the buffers; what is saved is loaded.
\<close>


section \<open>Languages\<close>

lemma codes_length: "length agLanguageCodes = AG_LANG_LAST" by code_simp

definition code_key :: "string \<Rightarrow> int" where
  "code_key c = foldl (\<lambda>n x. 256 * n + of_char x) 0 c"

lemma codes_sorted: "successively (<) (map code_key agLanguageCodes)" by code_simp

lemma codes_distinct: "distinct agLanguageCodes"
proof -
  have "sorted_wrt (<) (map code_key agLanguageCodes)" using codes_sorted by (simp add: successively_conv_sorted_wrt)
  then have "distinct (map code_key agLanguageCodes)" by (simp add: strict_sorted_iff)
  then show ?thesis by (simp add: distinct_map)
qed

lemma codes_lower: "list_all (\<lambda>c. nonul c \<and> list_all (\<lambda>x. of_char x < (128 :: int) \<and> tolower x = x) c) agLanguageCodes" by code_simp

lemma ci_eq_codes:
  assumes "c \<in> set agLanguageCodes" and "d \<in> set agLanguageCodes" and "ci_eq c s" and "ci_eq d s"
  shows "c = d"
proof -
  have "cm y = of_char y" if "of_char y < (128 :: int)" "tolower y = y" for y
  proof -
    have "int (of_char y) < 128" using that(1) by (simp only: of_nat_of_char)
    then show ?thesis using cm_ascii [of y] that(2) by simp
  qed
  then have e: "map cm x = map of_char x" if "x \<in> set agLanguageCodes" for x
    using that codes_lower by (fastforce simp: list_all_iff)
  have "map of_char c = (map of_char d :: nat list)" using assms e by (simp add: ci_eq_def)
  then show ?thesis by (metis (mono_tags) inj_map_eq_map inj_on_def of_char_eq_iff)
qed

lemma find_lang_ok:
  assumes "list_all nonul cs" and "nonul s" 
  shows "find_lang cs (s @ NUL # r) i = Some (i + first_idx (\<lambda>c. ci_eq c s) cs)"
  using assms
proof (induction cs arbitrary: i)
  case (Cons c cs)
  obtain v where "AG_Strcasecmp (c @ [NUL]) (s @ NUL # r) = Some v" "v = 0 \<longleftrightarrow> ci_eq c s"
    using AG_Strcasecmp_total [of c s "[]" r] Cons.prems by auto
  then show ?case using Cons by simp
qed simp

text \<open>
  The language whose code is given, in any mixture of cases, becomes the language of the text, so that \<open>AG_TextGetLangISO\<close> gives
  the code back; the routine fails exactly for other codes, and then changes nothing.
\<close>

theorem AG_TextSetLangISO_selects:
  assumes "nonul s"
  shows "(i < AG_LANG_LAST \<and> ci_eq (agLanguageCodes ! i) s \<longrightarrow>
           AG_TextSetLangISO tx (s @ NUL # r) = Some (0, tx\<lparr>tx_lang := i\<rparr>) \<and> AG_TextGetLangISO (tx\<lparr>tx_lang := i\<rparr>) = Some (agLanguageCodes ! i)) \<and>
         ((\<forall>c \<in> set agLanguageCodes. \<not> ci_eq c s) \<longrightarrow> AG_TextSetLangISO tx (s @ NUL # r) = Some (-1, tx))"
proof -
  let ?f = "first_idx (\<lambda>c. ci_eq c s) agLanguageCodes"
  have "list_all nonul agLanguageCodes" using codes_lower by (auto simp: list_all_iff)
  then have f: "find_lang agLanguageCodes (s @ NUL # r) 0 = Some ?f" using find_lang_ok [OF _ assms, of agLanguageCodes r 0] by simp
  have "?f = i" if i: "i < AG_LANG_LAST" "ci_eq (agLanguageCodes ! i) s"
  proof -
    have l: "i < length agLanguageCodes" using i codes_length by simp
    then have "?f < length agLanguageCodes" using i(2) by (auto simp: first_idx_less_iff)
    moreover from this have "ci_eq (agLanguageCodes ! ?f) s" by (rule first_idx_holds)
    ultimately have "agLanguageCodes ! ?f = agLanguageCodes ! i" using ci_eq_codes i(2) l nth_mem by metis
    then show ?thesis using codes_distinct l \<open>?f < length agLanguageCodes\<close> by (simp add: nth_eq_iff_index_eq)
  qed
  moreover have "?f = AG_LANG_LAST" if "\<forall>c \<in> set agLanguageCodes. \<not> ci_eq c s"
    using that codes_length by (metis (no_types, lifting) first_idx_none)
  ultimately show ?thesis using f codes_length by (auto simp: AG_TextSetLangISO_def AG_TextGetLangISO_def rd_def)
qed

theorem AG_TextSetLangISO_selects_witness:
  "AG_TextSetLangISO (AG_TextInit 0) (''En'' @ NUL # []) = Some (0, (AG_TextInit 0)\<lparr>tx_lang := 25\<rparr>) \<and>
   AG_TextGetLangISO ((AG_TextInit 0)\<lparr>tx_lang := 25\<rparr>) = Some ''en''"
proof -
  have "agLanguageCodes ! 25 = ''en''" "ci_eq ''en'' ''En''" by code_simp+
  then show ?thesis using AG_TextSetLangISO_selects [of "''En''" 25 "AG_TextInit 0" "[]"] by (simp add: AG_LANG_LAST_def)
qed

section \<open>Texts as tables of strings\<close>

definition ent_rep :: "AG_TextEnt \<Rightarrow> string option \<Rightarrow> bool" where
  "ent_rep te so \<longleftrightarrow> (case so of None \<Rightarrow> te = no_ent
     | Some s \<Rightarrow> \<exists>r. te_buf te = Some (s @ NUL # r) \<and> nonul s \<and> te_len te = length s \<and> te_maxLen te = length s + 1 + length r)"

definition text_rep :: "AG_Text \<Rightarrow> string option list \<Rightarrow> bool" where
  "text_rep tx ss \<longleftrightarrow> length ss = AG_LANG_LAST \<and> list_all2 ent_rep (tx_ent tx) ss \<and> tx_lang tx < AG_LANG_LAST"

lemma ent_rep_of: "(\<And>s. so = Some s \<Longrightarrow> nonul s) \<Longrightarrow> ent_rep (ent_of so) so"
  by (cases so) (auto simp: ent_rep_def ent_of_def)

lemma ent_rep_none: "ent_rep no_ent None" by (simp add: ent_rep_def)

lemma text_rep_init: "text_rep (AG_TextInit n) (replicate AG_LANG_LAST None)"
  by (simp add: text_rep_def AG_TextInit_def list_all2_conv_all_nth ent_rep_none AG_LANG_LAST_def)

lemma text_rep_clear: "text_rep tx ss \<Longrightarrow> text_rep (AG_TextClear tx) (replicate AG_LANG_LAST None)"
  by (simp add: text_rep_def AG_TextClear_def list_all2_conv_all_nth ent_rep_none)

lemma set_ent_ok:
  assumes "text_rep tx ss" and "ent_rep te so" and "l < AG_LANG_LAST"
  shows "\<exists>tx'. set_ent l te tx = Some tx' \<and> text_rep tx' (ss[l := so]) \<and> tx_lang tx' = tx_lang tx \<and> tx_maxLen tx' = tx_maxLen tx \<and> tx_flags tx' = tx_flags tx"
proof -
  have "length (tx_ent tx) = AG_LANG_LAST" using assms(1) by (auto simp: text_rep_def dest: list_all2_lengthD)
  then show ?thesis using assms by (simp add: set_ent_def text_rep_def wr_def list_all2_update_cong)
qed

lemma grow_ent:
  assumes "ent_rep te so"
  shows "\<exists>r. te_buf (AG_TextRealloc J te (te_len te + n + 1)) = Some ((case so of None \<Rightarrow> [] | Some s \<Rightarrow> s) @ r) \<and> n < length r \<and>
    te_len (AG_TextRealloc J te (te_len te + n + 1)) = length (case so of None \<Rightarrow> [] | Some s \<Rightarrow> s) \<and> nonul (case so of None \<Rightarrow> [] | Some s \<Rightarrow> s) \<and>
    te_maxLen (AG_TextRealloc J te (te_len te + n + 1)) = length (case so of None \<Rightarrow> [] | Some s \<Rightarrow> s) + length r"
proof (cases so)
  case None
  then show ?thesis using assms by (simp add: ent_rep_def no_ent_def AG_TextRealloc_def)
next
  case (Some s)
  then obtain r where r: "te_buf te = Some (s @ NUL # r)" "nonul s" "te_len te = length s" "te_maxLen te = length s + 1 + length r"
    using assms by (auto simp: ent_rep_def)
  show ?thesis
  proof (cases "te_len te + n + 1 \<ge> te_maxLen te")
    case True
    then have "take (length s + n + 1) (s @ NUL # r) = s @ NUL # r" using r by simp
    then show ?thesis using True Some r by (auto simp: AG_TextRealloc_def)
  next
    case False
    then show ?thesis using Some r by (auto simp: AG_TextRealloc_def)
  qed
qed

lemma TextCatS_ok:
  assumes "text_rep tx ss" and "nonul s"
  shows "\<exists>tx'. AG_TextCatS J tx s = Some (0, tx') \<and> text_rep tx' (ss[tx_lang tx := Some ((case ss ! tx_lang tx of None \<Rightarrow> [] | Some t \<Rightarrow> t) @ s)]) \<and>
    tx_lang tx' = tx_lang tx"
proof -
  let ?l = "tx_lang tx" and ?te = "tx_ent tx ! tx_lang tx" and ?t = "case ss ! tx_lang tx of None \<Rightarrow> [] | Some t \<Rightarrow> t"
  have l: "?l < AG_LANG_LAST" "length (tx_ent tx) = AG_LANG_LAST" "length ss = AG_LANG_LAST"
    using assms(1) by (auto simp: text_rep_def dest: list_all2_lengthD)
  have rep: "ent_rep ?te (ss ! ?l)" using assms(1) l by (auto simp: text_rep_def intro: list_all2_nthD)
  define te where "te = AG_TextRealloc J ?te (te_len ?te + length s + 1)"
  obtain r where r: "te_buf te = Some (?t @ r)" "length s < length r" "te_len te = length ?t" "nonul ?t" "te_maxLen te = length ?t + length r"
    using grow_ent [OF rep, of J "length s"] unfolding te_def by blast
  have b: "blit (?t @ r) (length ?t) (s @ [NUL]) = Some ((?t @ s) @ NUL # drop (length s + 1) r)" using r(2) by (simp add: blit_def)
  let ?te' = "te\<lparr>te_buf := Some ((?t @ s) @ NUL # drop (length s + 1) r), te_len := length ?t + length s\<rparr>"
  have "ent_rep ?te' (Some (?t @ s))" using r(2,4,5) assms(2) by (auto simp: ent_rep_def)
  then obtain tx' where "set_ent ?l ?te' tx = Some tx'" "text_rep tx' (ss[?l := Some (?t @ s)])" "tx_lang tx' = ?l"
    using set_ent_ok [OF assms(1) _ l(1)] by blast
  moreover have e: "rd (tx_ent tx) ?l = Some ?te" using l by (simp add: rd_def)
  ultimately show ?thesis
    unfolding AG_TextCatS_def cat_bytes_def e bind.bind_lunit te_def [symmetric] Let_def r(1) unfolding r(3) b by simp
qed

lemma dup_ents:
  assumes "list_all2 ent_rep es ss"
  shows "\<exists>es'. fold_opt (\<lambda>es te. case te_buf te of None \<Rightarrow> Some (es @ [no_ent])
       | Some b \<Rightarrow> if terminated b then Some (es @ [ent_of (Some (cstr b))]) else None) acc es = Some (acc @ es') \<and> list_all2 ent_rep es' ss"
  using assms
proof (induction es ss arbitrary: acc rule: list_all2_induct)
  case (Cons te es so ss)
  show ?case
  proof (cases so)
    case None
    then have "te = no_ent" using Cons.hyps(1) by (simp add: ent_rep_def)
    then show ?thesis using None Cons.IH [of "acc @ [no_ent]"] by (auto simp: no_ent_def ent_rep_def)
  next
    case (Some s)
    then obtain r where "te_buf te = Some (s @ NUL # r)" "nonul s" using Cons.hyps(1) by (auto simp: ent_rep_def)
    then show ?thesis using Some Cons.IH [of "acc @ [ent_of (Some s)]"] ent_rep_of [of "Some s"] by auto
  qed
qed simp

lemma TextDup_ok:
  assumes "text_rep tx ss"
  shows "\<exists>tx'. AG_TextDup tx = Some tx' \<and> text_rep tx' ss \<and> tx_lang tx' = tx_lang tx"
  using dup_ents [of "tx_ent tx" ss "[]"] assms
  by (auto simp: AG_TextDup_def Let_def text_rep_def AG_TextNew_def AG_TextInit_def)

text \<open>
  C28: a text is a table of strings (without NUL) by language: setting an entry, appending to the entry of the current language, duplicating and clearing are
  the operations on the table, within the buffers of the entries.  The limit of the text, \<open>tx_maxLen\<close>, plays no part: a string that is
  longer is stored and appended whole, although the manual calls it the maximum length (only loading uses it).
  And \<open>AG_TextSet\<close> with a format sets nothing and fails, because its test of the result is the wrong way round.
\<close>

theorem AG_Text_refines_table:
  assumes "text_rep tx ss" and "nonul s" and "l < AG_LANG_LAST"
  shows "(\<exists>tx'. AG_TextSetEntS tx l (Some s) = Some (0, tx') \<and> text_rep tx' (ss[l := Some s])) \<and>
    (\<exists>tx'. AG_TextSetS tx None = Some (0, tx') \<and> text_rep tx' (ss[tx_lang tx := None])) \<and>
    (\<exists>tx'. AG_TextCatS J tx s = Some (0, tx') \<and> text_rep tx' (ss[tx_lang tx := Some ((case ss ! tx_lang tx of None \<Rightarrow> [] | Some t \<Rightarrow> t) @ s)])) \<and>
    (\<exists>tx'. AG_TextDup tx = Some tx' \<and> text_rep tx' ss) \<and>
    text_rep (AG_TextClear tx) (replicate AG_LANG_LAST None) \<and>
    AG_TextSet True tx (Some s) = Some (-1, tx)"
proof (intro conjI)
  show "\<exists>tx'. AG_TextSetEntS tx l (Some s) = Some (0, tx') \<and> text_rep tx' (ss[l := Some s])"
    using set_ent_ok [OF assms(1) ent_rep_of assms(3), of "Some s"] assms(2) by (auto simp: AG_TextSetEntS_def)
  have "tx_lang tx < AG_LANG_LAST" using assms(1) by (simp add: text_rep_def)
  then show "\<exists>tx'. AG_TextSetS tx None = Some (0, tx') \<and> text_rep tx' (ss[tx_lang tx := None])"
    using set_ent_ok [OF assms(1) ent_rep_of, of None "tx_lang tx"] by (auto simp: AG_TextSetS_def AG_TextSetEntS_def)
qed (use TextCatS_ok [OF assms(1,2)] TextDup_ok [OF assms(1)] text_rep_clear [OF assms(1)] in \<open>auto simp: AG_TextSet_def\<close>)

theorem AG_Text_refines_table_witness:
  "tx_maxLen (AG_TextInit 3) = 3 \<and>
   (\<exists>tx'. AG_TextSetEntS (AG_TextInit 3) 25 (Some ''Hello'') = Some (0, tx') \<and> text_rep tx' ((replicate AG_LANG_LAST None)[25 := Some ''Hello'']))"
  using AG_Text_refines_table [OF text_rep_init, of "''Hello''" 25 3] by (simp add: AG_LANG_LAST_def AG_TextInit_def)


section \<open>Saving and loading\<close>

fun ents_image :: "string option list \<Rightarrow> nat \<Rightarrow> byte list" where
  "ents_image [] i = []"
| "ents_image (None # ss) i = ents_image ss (i + 1)"
| "ents_image (Some s # ss) i = be32 (u32 i) @ str_be s @ ents_image ss (i + 1)"

definition n_set :: "string option list \<Rightarrow> nat" where "n_set ss = length (filter (\<lambda>so. so \<noteq> None) ss)"

definition text_image :: "string option list \<Rightarrow> byte list" where
  "text_image ss = [of_nat (n_set ss)] @ ents_image ss 0 @ be32 0"

lemma ent_rep_None: "ent_rep te so \<Longrightarrow> te_buf te = None \<longleftrightarrow> so = None"
  by (auto simp: ent_rep_def no_ent_def split: option.splits)

lemma count_ents: "list_all2 ent_rep es ss \<Longrightarrow> length (filter (\<lambda>te. te_buf te \<noteq> None) es) = n_set ss"
  by (induction rule: list_all2_induct) (auto simp: n_set_def ent_rep_None simp del: not_None_eq)

lemma n_set_all: "n_set ss = length ss \<longleftrightarrow> None \<notin> set ss"
proof (induction ss)
  case (Cons so ss)
  have "n_set ss \<le> length ss" by (simp add: n_set_def)
  moreover have "n_set (None # ss) = n_set ss" "n_set (Some s # ss) = Suc (n_set ss)" for s by (simp_all add: n_set_def)
  ultimately show ?case using Cons by (cases so) auto
qed (simp add: n_set_def)

lemma write_u8_ok:
  assumes "at_end ds" and "\<not> ds_debug ds" and "int (length (cs_data ds)) + 65536 < 2 ^ 63"
  shows "\<exists>ds'. AG_WriteUint8 x ds = Some ds' \<and> appends ds [x] ds'"
  using write_num_ok [OF assms(1), of 1 AG_SOURCE_UINT8 id x] assms(2,3)
  by (auto simp: AG_WriteUint8_def type_bytes_def num_bytes_def to_bytes_def split: if_splits)

lemma save_ents_ok:
  assumes "list_all2 ent_rep es ss" and "at_end ds" and "\<not> ds_debug ds" and "byte_order ds = AG_BYTEORDER_BE"
    and "int (length (cs_data ds)) + int (length (ents_image ss i)) + 131072 < 2 ^ 63"
  shows "\<exists>ds'. save_ents es i ds = Some ds' \<and> appends ds (ents_image ss i) ds'"
  using assms
proof (induction es ss arbitrary: i ds rule: list_all2_induct)
  case Nil
  then show ?case by (auto simp: appends_def at_end_def)
next
  case (Cons te es so ss)
  show ?case
  proof (cases so)
    case None
    then show ?thesis using Cons ent_rep_None [OF Cons.hyps(1)] by auto
  next
    case (Some s)
    then obtain r where te: "te_buf te = Some (s @ NUL # r)" "nonul s" using Cons.hyps(1) by (auto simp: ent_rep_def)
    have b: "int (length (cs_data ds)) + int (8 + length s + length (ents_image ss (i + 1))) + 131072 < 2 ^ 63" using Cons.prems(4) Some by simp
    obtain d1 where d1: "AG_WriteUint32 (u32 i) ds = Some d1" "appends ds (be32 (u32 i)) d1"
      using write_u32_ok [OF Cons.prems(1,2)] Cons.prems(3) b by auto
    have s1: "at_end d1" "\<not> ds_debug d1" "byte_order d1 = AG_BYTEORDER_BE" "length (cs_data d1) = length (cs_data ds) + 4"
      using appends_at_end [OF Cons.prems(1) d1(2)] appends_setup [OF d1(2)] Cons.prems(2,3) d1(2) by (auto simp: appends_def)
    obtain d2 where d2: "AG_WriteString (Some s) d1 = Some d2" "appends d1 (str_be s) d2"
      using AG_WriteString_plain [OF s1(1,2), of s] s1(3,4) b by auto
    have s2: "at_end d2" "\<not> ds_debug d2" "byte_order d2 = AG_BYTEORDER_BE" "length (cs_data d2) = length (cs_data ds) + 8 + length s"
      using appends_at_end [OF s1(1) d2(2)] appends_setup [OF d2(2)] s1 d2(2) by (auto simp: appends_def)
    obtain d3 where "save_ents es (i + 1) d2 = Some d3" "appends d2 (ents_image ss (i + 1)) d3"
      using Cons.IH [OF s2(1-3), of "i + 1"] s2(4) b by auto
    then show ?thesis using Some te d1(1) d2(1) appends_trans [OF d1(2) appends_trans [OF d2(2)]] by auto
  qed
qed

lemma TextSave_ok:
  assumes "text_rep tx ss" and "at_end ds" and "\<not> ds_debug ds" and "byte_order ds = AG_BYTEORDER_BE"
    and "int (length (cs_data ds)) + int (length (text_image ss)) + 131072 < 2 ^ 63"
  shows "\<exists>ds'. AG_TextSave ds tx = Some ds' \<and> appends ds (text_image ss) ds'"
proof -
  have rep: "list_all2 ent_rep (tx_ent tx) ss" using assms(1) by (simp add: text_rep_def)
  have b: "int (length (cs_data ds)) + 1 + int (length (ents_image ss 0)) + 4 + 131072 < 2 ^ 63" using assms(5) by (simp add: text_image_def)
  obtain d1 where d1: "AG_WriteUint8 (of_nat (n_set ss)) ds = Some d1" "appends ds [of_nat (n_set ss)] d1"
    using write_u8_ok [OF assms(2,3)] b by fastforce
  have s1: "at_end d1" "\<not> ds_debug d1" "byte_order d1 = AG_BYTEORDER_BE" "length (cs_data d1) = length (cs_data ds) + 1"
    using appends_at_end [OF assms(2) d1(2)] appends_setup [OF d1(2)] assms(3,4) d1(2) by (auto simp: appends_def)
  obtain d2 where d2: "save_ents (tx_ent tx) 0 d1 = Some d2" "appends d1 (ents_image ss 0) d2"
    using save_ents_ok [OF rep s1(1-3), of 0] s1(4) b by auto
  have s2: "at_end d2" "\<not> ds_debug d2" "byte_order d2 = AG_BYTEORDER_BE" "int (length (cs_data d2)) + 65536 < 2 ^ 63"
    using appends_at_end [OF s1(1) d2(2)] appends_setup [OF d2(2)] s1 d2(2) b by (auto simp: appends_def)
  obtain d3 where "AG_WriteUint32 0 d2 = Some d3" "appends d2 (be32 0) d3" using write_u32_ok [OF s2(1,2)] s2(3,4) by auto
  then show ?thesis using d1 d2 count_ents [OF rep] appends_trans [OF d1(2) appends_trans [OF d2(2)]]
    by (auto simp: AG_TextSave_def AG_TEXT_SAVED_FLAGS_def text_image_def)
qed

text \<open>The entries from \<open>i\<close> on are read into a text that has those before \<open>i\<close>.\<close>

lemma load_ents_ok:
  assumes "rest_is ds (ents_image ss i @ r)" and "text_rep tx (ts @ replicate (length ss) None)" and "length ts = i"
    and "\<forall>s. Some s \<in> set ss \<longrightarrow> nonul s \<and> length s \<le> tx_maxLen tx" and "tx_maxLen tx < 2 ^ 32"
  shows "\<exists>ds' tx'. load_ents (n_set ss) ds tx = Some (0, ds', tx') \<and> rest_is ds' r \<and> text_rep tx' (ts @ ss) \<and> tx_lang tx' = tx_lang tx \<and> tx_flags tx' = tx_flags tx"
  using assms
proof (induction ss i arbitrary: ds tx ts rule: ents_image.induct)
  case (2 ss i)
  have "text_rep tx ((ts @ [None]) @ replicate (length ss) None)" using "2.prems"(2) by simp
  then show ?case using "2.IH" [of ds tx "ts @ [None]"] "2.prems" by (auto simp: n_set_def)
next
  case (3 s ss i)
  have i: "i < AG_LANG_LAST" using "3.prems"(2,3) by (auto simp: text_rep_def)
  then have u: "unat (u32 i) = i" by (subst unat_u32) (simp_all add: AG_LANG_LAST_def)
  obtain d1 where d1: "AG_ReadUint32 ds = Some (u32 i, d1)" "rest_is d1 (str_be s @ ents_image ss (i + 1) @ r)"
    using rest_u32 [of ds "u32 i" "str_be s @ ents_image ss (i + 1) @ r"] "3.prems"(1) by auto
  have s: "nonul s" "length s \<le> tx_maxLen tx" using "3.prems"(4) by auto
  obtain d2 where d2: "AG_ReadStringLen (tx_maxLen tx) d1 = Some (Some (s @ [NUL]), d2)" "rest_is d2 (ents_image ss (i + 1) @ r)"
    using AG_ReadStringLen_ok [of d1 s "ents_image ss (i + 1) @ r", OF _ _ _ s(2) "3.prems"(5)] d1(2) rest_is_reads [OF d1(2)]
    by (auto simp: rest_is_def)
  have e: "\<lparr>te_buf = Some (s @ [NUL]), te_maxLen = Suc (length s), te_len = length s\<rparr> = ent_of (Some s)" by (simp add: ent_of_def)
  obtain tx1 where tx1: "set_ent i (ent_of (Some s)) tx = Some tx1" "text_rep tx1 ((ts @ replicate (length (Some s # ss)) None)[i := Some s])"
    "tx_lang tx1 = tx_lang tx" "tx_maxLen tx1 = tx_maxLen tx" "tx_flags tx1 = tx_flags tx"
    using set_ent_ok [OF "3.prems"(2) ent_rep_of i, of "Some s"] s(1) by auto
  have "text_rep tx1 ((ts @ [Some s]) @ replicate (length ss) None)" using tx1(2) "3.prems"(3) by (simp add: list_update_append)
  then obtain d3 tx3 where "load_ents (n_set ss) d2 tx1 = Some (0, d3, tx3)" "rest_is d3 r" "text_rep tx3 ((ts @ [Some s]) @ ss)"
    "tx_lang tx3 = tx_lang tx1" "tx_flags tx3 = tx_flags tx1"
    using "3.IH" [OF d2(2), of tx1 "ts @ [Some s]"] "3.prems"(3-5) tx1(4) by auto
  moreover have "\<not> AG_LANG_LAST \<le> i" using i by simp
  moreover have "cstr (s @ [NUL]) = s" using s(1) by simp
  ultimately show ?case using d1(1) d2(1) u tx1(1,3,5) by (simp add: n_set_def e)
qed (auto simp: n_set_def)

text \<open>
  C29: what \<open>AG_TextSave\<close> writes, at the end of a source that is not in debug mode and in network byte order, \<open>AG_TextLoad\<close> reads from such a source
  into any text whose limit (below \<open>2 ^ 32\<close>) no string exceeds: the text then has
  the same string in every language, and the source is after what was written.  The exception is a text in all the languages, whose count \<open>AG_TextLoad\<close> refuses.
  The whole stays within the offsets of a source (\<open>2 ^ 63\<close>).  In debug mode \<open>AG_ReadStringLen\<close> refuses every string that was written,
  since it does not expect the type that precedes it (\<open>AG_ReadStringLen_untyped\<close>).
\<close>

theorem AG_Text_roundtrip:
  assumes "text_rep tx ss" and "at_end ds" and "\<not> ds_debug ds" and "byte_order ds = AG_BYTEORDER_BE"
    and "int (length (cs_data ds)) + int (length (text_image ss)) + 131072 < 2 ^ 63"
    and "text_rep tx0 ss0" and "\<forall>s. Some s \<in> set ss \<longrightarrow> nonul s \<and> length s \<le> tx_maxLen tx0" and "tx_maxLen tx0 < 2 ^ 32"
  shows "\<exists>ds' bs. AG_TextSave ds tx = Some ds' \<and> appends ds bs ds' \<and>
    (\<forall>ds1 r. rest_is ds1 (bs @ r) \<longrightarrow> (\<exists>ds2 tx'.
       AG_TextLoad tx0 ds1 = Some (if None \<notin> set ss then -1 else 0, ds2, tx') \<and>
       (None \<in> set ss \<longrightarrow> text_rep tx' ss \<and> tx_lang tx' = tx_lang tx0 \<and> tx_flags tx' = tx_flags tx0 \<and> rest_is ds2 r)))"
proof -
  have len: "length ss = AG_LANG_LAST" using assms(1) by (simp add: text_rep_def)
  have all: "n_set ss = AG_LANG_LAST \<longleftrightarrow> None \<notin> set ss" using n_set_all [of ss] len by simp
  have le: "n_set ss \<le> AG_LANG_LAST" using len by (metis n_set_def length_filter_le)
  then have u: "unat (of_nat (n_set ss) :: byte) = n_set ss" by (simp add: unat_of_nat AG_LANG_LAST_def)
  have load: "\<exists>ds2 tx'. AG_TextLoad tx0 ds1 = Some (if None \<notin> set ss then -1 else 0, ds2, tx') \<and>
       (None \<in> set ss \<longrightarrow> text_rep tx' ss \<and> tx_lang tx' = tx_lang tx0 \<and> tx_flags tx' = tx_flags tx0 \<and> rest_is ds2 r)"
    if ds1: "rest_is ds1 (text_image ss @ r)" for ds1 r
  proof -
    obtain d1 where d1: "AG_ReadUint8 ds1 = Some (of_nat (n_set ss), d1)" "rest_is d1 (ents_image ss 0 @ be32 0 @ r)"
      using rest_u8 [of ds1 "of_nat (n_set ss)" "ents_image ss 0 @ be32 0 @ r"] ds1 by (auto simp: text_image_def)
    show ?thesis
    proof (cases "None \<in> set ss")
      case False
      then show ?thesis using all u d1(1) by (simp add: AG_TextLoad_def)
    next
      case True
      have c: "text_rep (AG_TextClear tx0) ([] @ replicate (length ss) None)" using text_rep_clear [OF assms(6)] len by simp
      obtain d2 tx2 where d2: "load_ents (n_set ss) d1 (AG_TextClear tx0) = Some (0, d2, tx2)" "rest_is d2 (be32 0 @ r)" "text_rep tx2 ([] @ ss)"
        "tx_lang tx2 = tx_lang (AG_TextClear tx0)" "tx_flags tx2 = tx_flags (AG_TextClear tx0)"
        using load_ents_ok [OF d1(2) c] assms(7,8) by (auto simp: AG_TextClear_def)
      obtain d3 where "AG_ReadUint32 d2 = Some (0, d3)" "rest_is d3 r" using rest_u32 [OF d2(2)] by blast
      moreover have "\<not> AG_LANG_LAST \<le> n_set ss" using all le True by simp
      moreover have "tx2\<lparr>tx_flags := tx_flags tx0\<rparr> = tx2" using d2(5) by (cases tx2) (simp add: AG_TextClear_def)
      ultimately show ?thesis using True d1(1) d2 u by (simp add: AG_TextLoad_def AG_TEXT_SAVED_FLAGS_def AG_TextClear_def)
    qed
  qed
  then show ?thesis using TextSave_ok [OF assms(1-5)] by blast
qed

definition hello_text :: AG_Text where
  "hello_text = (AG_TextInit 0)\<lparr>tx_ent := (tx_ent (AG_TextInit 0))[25 := ent_of (Some ''Hello'')]\<rparr>"

theorem AG_Text_roundtrip_witness:
  "\<exists>ds' ds2 tx'. AG_TextSave (new_source 0 AG_BYTEORDER_BE False) hello_text = Some ds' \<and>
    AG_TextLoad (AG_TextNew 0) (snd (AG_Seek 0 AG_SEEK_SET ds')) = Some (0, ds2, tx') \<and>
    text_rep tx' ((replicate AG_LANG_LAST None)[25 := Some ''Hello''])"
proof -
  let ?ds = "new_source 0 AG_BYTEORDER_BE False" and ?ss = "(replicate AG_LANG_LAST None)[25 := Some ''Hello'']"
  have rep: "text_rep hello_text ?ss"
    using set_ent_ok [OF text_rep_init ent_rep_of, of "Some ''Hello''" 25 0]
    by (auto simp: set_ent_def wr_def hello_text_def AG_LANG_LAST_def AG_TextInit_def)
  have n: "None \<in> set ?ss" by (auto simp: AG_LANG_LAST_def in_set_conv_nth intro!: exI [of _ 0])
  have m: "\<forall>s. Some s \<in> set ?ss \<longrightarrow> nonul s \<and> length s \<le> tx_maxLen (AG_TextNew 0)"
    using set_update_subset_insert [of "replicate AG_LANG_LAST None" 25 "Some ''Hello''"] by (auto simp: AG_TextNew_def AG_TextInit_def split: if_splits)
  have "length (text_image ?ss) < 1000" by code_simp
  moreover have "tx_maxLen (AG_TextNew 0) < 2 ^ 32" "text_rep (AG_TextNew 0) (replicate AG_LANG_LAST None)"
    using text_rep_init [of 0] by (simp_all add: AG_TextNew_def AG_TextInit_def)
  ultimately obtain ds' bs where s: "AG_TextSave ?ds hello_text = Some ds'" "appends ?ds bs ds'"
    and l: "\<forall>ds1 r. rest_is ds1 (bs @ r) \<longrightarrow> (\<exists>ds2 tx'. AG_TextLoad (AG_TextNew 0) ds1 = Some (0, ds2, tx') \<and> text_rep tx' ?ss)"
    using AG_Text_roundtrip [OF rep new_source_at_end(1), of 0 AG_BYTEORDER_BE False "AG_TextNew 0" "replicate AG_LANG_LAST None"] m n
      new_source_at_end [of 0 AG_BYTEORDER_BE False] by fastforce
  have "same_setup ?ds ds'" "sized ds'" "cs_data ds' = bs" using s(2) new_source_at_end(2) by (simp_all add: appends_def)
  then have "src_ok ds'" "cs_data ds' = bs" "\<not> ds_debug ds'" "byte_order ds' = AG_BYTEORDER_BE"
    using new_source_at_end [of 0 AG_BYTEORDER_BE False] by (auto simp: src_ok_def same_setup_def)
  moreover from this have "reads ds' bs (snd (AG_Seek 0 AG_SEEK_SET ds'))" using seek_start [of ds'] by (auto simp: src_ok_def sized_def simp flip: length_0_conv)
  ultimately have "rest_is (snd (AG_Seek 0 AG_SEEK_SET ds')) (bs @ [])" by (simp add: rest_is_def reads_def same_setup_def)
  then show ?thesis using s(1) l by blast
qed

end
