(* ===== verification/Format.thy ===== *)
theory Format
  imports CStr
begin

text \<open>
  The formatting engine of core/string.c: \<open>AG_Printf\<close> and \<open>AG_PrintfN\<close>, which format their arguments into buffers that
  grow, \<open>AG_PrintfP\<close> and \<open>AG_ProcessFmtString\<close>, which keep pointers to the arguments and format them later, and the registry of extended
  specifiers.  The arguments of a call are the values that \<open>va_arg\<close> takes; taking one of another type is undefined.  Pointers to
  typed data are addresses of a memory \<open>fmt_mem\<close>.  What the C library makes of a single conversion (\<open>Snprintf\<close>) is the parameter \<open>cp\<close>, which gives the
  whole text; the copy into the buffer is written out.  The format is the list of the characters from a position on.
\<close>

section \<open>Arguments and their memory\<close>

datatype fmt_val = A_int "32 word" | A_long "64 word" | A_double "64 word" | A_float "32 word" | A_str "char list" | A_ptr "nat option"

datatype fmt_obj = M_byte "8 word" | M_half "16 word" | M_word "32 word" | M_quad "64 word" | M_float "32 word" | M_double "64 word"
  | M_chars "char list" | M_object string string

type_synonym fmt_mem = "nat \<Rightarrow> fmt_obj option"

type_synonym cprintf = "string \<Rightarrow> fmt_val \<Rightarrow> string"

definition AG_STRING_BUFFERS_MAX :: nat where "AG_STRING_BUFFERS_MAX = 8"
definition AG_STRING_POINTERS_MAX :: nat where "AG_STRING_POINTERS_MAX = 32"
definition AG_FMTSTRING_BUFFER_INIT :: nat where "AG_FMTSTRING_BUFFER_INIT = 128"
definition AG_FMTSTRING_BUFFER_GROW :: nat where "AG_FMTSTRING_BUFFER_GROW = 128"

text \<open>A format with the pointers that were given for it; \<open>fs_p\<close> has the pointers that are set.\<close>

record AG_FmtString =
  fs_s :: "char list option"
  fs_p :: "nat option list"
  fs_mu :: "nat option list"
  fs_n :: nat
  fs_curArg :: nat

definition AG_FMTSTRING_ARG :: "AG_FmtString \<Rightarrow> (nat option \<times> AG_FmtString) option" where
  "AG_FMTSTRING_ARG fs = do { p \<leftarrow> rd (fs_p fs) (fs_curArg fs); Some (p, fs\<lparr>fs_curArg := fs_curArg fs + 1\<rparr>) }"

definition FSARG :: "fmt_mem \<Rightarrow> AG_FmtString \<Rightarrow> (fmt_obj \<times> AG_FmtString) option" where
  "FSARG M fs = do { (p, fs) \<leftarrow> AG_FMTSTRING_ARG fs; a \<leftarrow> p; ob \<leftarrow> M a; Some (ob, fs) }"

fun the_byte :: "fmt_obj \<Rightarrow> 8 word option" where "the_byte (M_byte w) = Some w" | "the_byte _ = None"
fun the_half :: "fmt_obj \<Rightarrow> 16 word option" where "the_half (M_half w) = Some w" | "the_half _ = None"
fun the_word :: "fmt_obj \<Rightarrow> 32 word option" where "the_word (M_word w) = Some w" | "the_word _ = None"
fun the_quad :: "fmt_obj \<Rightarrow> 64 word option" where "the_quad (M_quad w) = Some w" | "the_quad _ = None"
fun the_float :: "fmt_obj \<Rightarrow> 32 word option" where "the_float (M_float w) = Some w" | "the_float _ = None"
fun the_double :: "fmt_obj \<Rightarrow> 64 word option" where "the_double (M_double w) = Some w" | "the_double _ = None"
fun the_chars :: "fmt_obj \<Rightarrow> char list option" where "the_chars (M_chars b) = Some b" | "the_chars _ = None"
fun the_object :: "fmt_obj \<Rightarrow> (string \<times> string) option" where "the_object (M_object n c) = Some (n, c)" | "the_object _ = None"

fun va_int :: "fmt_val list \<Rightarrow> (32 word \<times> fmt_val list) option" where "va_int (A_int w # ap) = Some (w, ap)" | "va_int _ = None"
fun va_long :: "fmt_val list \<Rightarrow> (64 word \<times> fmt_val list) option" where "va_long (A_long w # ap) = Some (w, ap)" | "va_long _ = None"
fun va_double :: "fmt_val list \<Rightarrow> (64 word \<times> fmt_val list) option" where "va_double (A_double w # ap) = Some (w, ap)" | "va_double _ = None"
fun va_str :: "fmt_val list \<Rightarrow> (char list \<times> fmt_val list) option" where "va_str (A_str b # ap) = Some (b, ap)" | "va_str _ = None"
fun va_ptr :: "fmt_val list \<Rightarrow> (nat option \<times> fmt_val list) option" where "va_ptr (A_ptr p # ap) = Some (p, ap)" | "va_ptr _ = None"

text \<open>\<open>Snprintf\<close> for a text; the destination is the rest of the buffer.\<close>

definition c_snprintf :: "char list \<Rightarrow> nat \<Rightarrow> string \<Rightarrow> (char list \<times> nat) option" where
  "c_snprintf s sz t = (if sz = 0 then Some (s, length t) else do { s \<leftarrow> blit s 0 (take (sz - 1) t @ [NUL]); Some (s, length t) })"

section \<open>Extended specifiers\<close>

type_synonym fmt_fn = "fmt_mem \<Rightarrow> AG_FmtString \<Rightarrow> char list \<Rightarrow> nat \<Rightarrow> (AG_FmtString \<times> char list \<times> nat) option"

record AG_FmtStringExt =
  ex_fmt :: string
  ex_fn :: fmt_fn

definition PrintU8 :: fmt_fn where
  "PrintU8 M fs dst sz = do { (ob, fs) \<leftarrow> FSARG M fs; v \<leftarrow> the_byte ob; (dst, rv) \<leftarrow> AG_StrlcpyUint dst (unat v) sz; Some (fs, dst, rv) }"

definition PrintS8 :: fmt_fn where
  "PrintS8 M fs dst sz = do { (ob, fs) \<leftarrow> FSARG M fs; v \<leftarrow> the_byte ob; (dst, rv) \<leftarrow> AG_StrlcpyInt dst (sint v) sz; Some (fs, dst, rv) }"

definition PrintU16 :: fmt_fn where
  "PrintU16 M fs dst sz = do { (ob, fs) \<leftarrow> FSARG M fs; v \<leftarrow> the_half ob; (dst, rv) \<leftarrow> AG_StrlcpyUint dst (unat v) sz; Some (fs, dst, rv) }"

definition PrintS16 :: fmt_fn where
  "PrintS16 M fs dst sz = do { (ob, fs) \<leftarrow> FSARG M fs; v \<leftarrow> the_half ob; (dst, rv) \<leftarrow> AG_StrlcpyInt dst (sint v) sz; Some (fs, dst, rv) }"

definition PrintU32 :: fmt_fn where
  "PrintU32 M fs dst sz = do { (ob, fs) \<leftarrow> FSARG M fs; v \<leftarrow> the_word ob; (dst, rv) \<leftarrow> AG_StrlcpyUint dst (unat v) sz; Some (fs, dst, rv) }"

definition PrintS32 :: fmt_fn where
  "PrintS32 M fs dst sz = do { (ob, fs) \<leftarrow> FSARG M fs; v \<leftarrow> the_word ob; (dst, rv) \<leftarrow> AG_StrlcpyInt dst (sint v) sz; Some (fs, dst, rv) }"

definition PrintU64 :: "cprintf \<Rightarrow> fmt_fn" where
  "PrintU64 cp M fs dst sz = do { (ob, fs) \<leftarrow> FSARG M fs; v \<leftarrow> the_quad ob; (dst, rv) \<leftarrow> c_snprintf dst sz (cp ''%llu'' (A_long v)); Some (fs, dst, rv) }"

definition PrintS64 :: "cprintf \<Rightarrow> fmt_fn" where
  "PrintS64 cp M fs dst sz = do { (ob, fs) \<leftarrow> FSARG M fs; v \<leftarrow> the_quad ob; (dst, rv) \<leftarrow> c_snprintf dst sz (cp ''%lld'' (A_long v)); Some (fs, dst, rv) }"

definition PrintOBJNAME :: fmt_fn where
  "PrintOBJNAME M fs dst sz = do {
     (p, fs) \<leftarrow> AG_FMTSTRING_ARG fs;
     s \<leftarrow> (case p of None \<Rightarrow> Some ''(null)'' | Some a \<Rightarrow> do { ob \<leftarrow> M a; (n, c) \<leftarrow> the_object ob; Some n });
     (dst, rv) \<leftarrow> AG_Strlcpy dst (s @ [NUL]) sz;
     Some (fs, dst, rv)
   }"

definition PrintOBJTYPE :: fmt_fn where
  "PrintOBJTYPE M fs dst sz = do {
     (p, fs) \<leftarrow> AG_FMTSTRING_ARG fs;
     s \<leftarrow> (case p of None \<Rightarrow> Some ''(null)'' | Some a \<Rightarrow> do { ob \<leftarrow> M a; (n, c) \<leftarrow> the_object ob; Some c });
     (dst, rv) \<leftarrow> AG_Strlcpy dst (s @ [NUL]) sz;
     Some (fs, dst, rv)
   }"

definition AG_RegisterFmtStringExt :: "string \<Rightarrow> fmt_fn \<Rightarrow> AG_FmtStringExt list \<Rightarrow> AG_FmtStringExt list" where
  "AG_RegisterFmtStringExt fmt fn E = E @ [\<lparr>ex_fmt = fmt, ex_fn = fn\<rparr>]"

definition AG_UnregisterFmtStringExt :: "string \<Rightarrow> AG_FmtStringExt list \<Rightarrow> AG_FmtStringExt list" where
  "AG_UnregisterFmtStringExt fmt E = (let i = first_idx (\<lambda>x. ex_fmt x = fmt) E in if i < length E then del_at i E else E)"

definition AG_InitStringSubsystem :: "cprintf \<Rightarrow> AG_FmtStringExt list \<Rightarrow> char list option list \<times> AG_FmtStringExt list" where
  "AG_InitStringSubsystem cp E = (replicate AG_STRING_BUFFERS_MAX None,
     fold (\<lambda>(fmt, fn). AG_RegisterFmtStringExt fmt fn)
       [(''u8'', PrintU8), (''s8'', PrintS8), (''u16'', PrintU16), (''s16'', PrintS16), (''u32'', PrintU32), (''s32'', PrintS32),
        (''u64'', PrintU64 cp), (''s64'', PrintS64 cp), (''objName'', PrintOBJNAME), (''objType'', PrintOBJTYPE)] E)"

text \<open>The first extension that is a prefix of what follows the bracket.\<close>

fun find_ext :: "AG_FmtStringExt list \<Rightarrow> char list \<Rightarrow> AG_FmtStringExt option" where
  "find_ext [] g = None"
| "find_ext (x # E) g = (if take (length (ex_fmt x)) g = ex_fmt x then Some x else find_ext E g)"

section \<open>Formatting values\<close>

text \<open>A routine that writes from \<open>pDst\<close> on, with the room it is given.\<close>

definition at_ptr :: "char list \<Rightarrow> nat \<Rightarrow> nat \<Rightarrow> (char list \<Rightarrow> nat \<Rightarrow> (char list \<times> nat) option) \<Rightarrow> (char list \<times> nat) option" where
  "at_ptr dst p n f = do { (b, rv) \<leftarrow> f (drop p dst) n; Some (take p dst @ b, rv) }"

definition CAT_SPEC :: "string \<Rightarrow> char \<Rightarrow> string option" where
  "CAT_SPEC spec c = (if length spec + 2 \<ge> 32 then None else Some (spec @ [c]))"

text \<open>The integer specifiers.\<close>

definition int_specs :: "char set" where
  "int_specs = {CHR ''d'', CHR ''i'', CHR ''o'', CHR ''u'', CHR ''x'', CHR ''X''}"

definition flag_specs :: "char set" where
  "flag_specs = {CHR ''#'', CHR ''0'', CHR ''-'', CHR '' '', CHR ''+'', CHR 0x27, CHR ''.'', CHR ''1'', CHR ''2'', CHR ''3'', CHR ''4'',
     CHR ''5'', CHR ''6'', CHR ''7'', CHR ''8'', CHR ''9''}"

text \<open>
  What a conversion leaves: the buffer, the characters written, the arguments left, the rest of the format, and whether the engine leaves because
  there is no room.
\<close>

type_synonym converted = "char list \<times> nat \<times> fmt_val list \<times> char list \<times> bool"

text \<open>An integer or floating point number that the C library formats, from the arguments.\<close>

definition conv_long :: "cprintf \<Rightarrow> nat \<Rightarrow> char list \<Rightarrow> nat \<Rightarrow> string \<Rightarrow> char list \<Rightarrow> fmt_val list \<Rightarrow> converted option" where
  "conv_long cp e dst p spec g ap = do {
     (w, ap) \<leftarrow> va_long ap;
     (dst, rv) \<leftarrow> at_ptr dst p (e - p) (\<lambda>b n. c_snprintf b n (cp spec (A_long w)));
     Some (dst, rv, ap, g, False)
   }"

definition conv_double :: "cprintf \<Rightarrow> nat \<Rightarrow> char list \<Rightarrow> nat \<Rightarrow> string \<Rightarrow> char list \<Rightarrow> fmt_val list \<Rightarrow> converted option" where
  "conv_double cp e dst p spec g ap = do {
     (w, ap) \<leftarrow> va_double ap;
     (dst, rv) \<leftarrow> at_ptr dst p (e - p) (\<lambda>b n. c_snprintf b n (cp spec (A_double w)));
     Some (dst, rv, ap, g, False)
   }"

text \<open>What follows \<open>ll\<close> and \<open>l\<close>.\<close>

fun do_long_long :: "cprintf \<Rightarrow> nat \<Rightarrow> char list \<Rightarrow> nat \<Rightarrow> string \<Rightarrow> char list \<Rightarrow> fmt_val list \<Rightarrow> converted option" where
  "do_long_long cp e dst p spec [] ap = None"
| "do_long_long cp e dst p spec (c # g) ap =
     (if c \<in> int_specs then do { spec \<leftarrow> CAT_SPEC spec c; conv_long cp e dst p spec g ap } else Some (dst, 0, ap, g, False))"

fun do_long :: "cprintf \<Rightarrow> nat \<Rightarrow> char list \<Rightarrow> nat \<Rightarrow> string \<Rightarrow> char list \<Rightarrow> fmt_val list \<Rightarrow> converted option" where
  "do_long cp e dst p spec [] ap = None"
| "do_long cp e dst p spec (c # g) ap =
     (if c \<in> int_specs then do { spec \<leftarrow> CAT_SPEC spec c; conv_long cp e dst p spec g ap }
      else if c \<in> {CHR ''f'', CHR ''g''} then do { spec \<leftarrow> CAT_SPEC spec c; conv_double cp e dst p spec g ap }
      else if c = CHR ''l'' then do { spec \<leftarrow> CAT_SPEC spec c; do_long_long cp e dst p spec g ap }
      else Some (dst, 0, ap, g, False))"

definition do_ext :: "AG_FmtStringExt list \<Rightarrow> fmt_mem \<Rightarrow> nat \<Rightarrow> char list \<Rightarrow> nat \<Rightarrow> char list \<Rightarrow> fmt_val list \<Rightarrow> converted option" where
  "do_ext E M e dst p g ap = (case find_ext E g of
     None \<Rightarrow> Some (dst, 0, ap, g, False)
   | Some x \<Rightarrow> do {
       (v, ap) \<leftarrow> va_ptr ap;
       (dst, rv) \<leftarrow> at_ptr dst p (e - p) (\<lambda>b n. do {
         (fs, b, rv) \<leftarrow> ex_fn x M \<lparr>fs_s = None, fs_p = [v], fs_mu = [], fs_n = 0, fs_curArg = 0\<rparr> b n;
         Some (b, rv)
       });
       Some (dst, rv, ap, drop (length (ex_fmt x) + 1) g, False)
     })"

text \<open>One character at \<open>pDst\<close>, if there is room for it.\<close>

definition do_char :: "nat \<Rightarrow> char list \<Rightarrow> nat \<Rightarrow> (fmt_val list \<Rightarrow> (char \<times> fmt_val list) option) \<Rightarrow> char list \<Rightarrow> fmt_val list \<Rightarrow> converted option" where
  "do_char e dst p f g ap =
     (if p + 1 > e then do { dst \<leftarrow> wr dst e NUL; Some (dst, 0, ap, g, True) }
      else do { (c, ap) \<leftarrow> f ap; dst \<leftarrow> wr dst p c; Some (dst, 1, ap, g, False) })"

text \<open>The conversion that follows a percent sign, or the flags that \<open>spec\<close> has.\<close>

fun do_spec :: "cprintf \<Rightarrow> AG_FmtStringExt list \<Rightarrow> fmt_mem \<Rightarrow> nat \<Rightarrow> char list \<Rightarrow> nat \<Rightarrow> string \<Rightarrow> char list \<Rightarrow> fmt_val list \<Rightarrow>
    converted option" where
  "do_spec cp E M e dst p spec [] ap = None"
| "do_spec cp E M e dst p spec (c # g) ap =
     (if c = CHR ''['' then do_ext E M e dst p g ap
      else if c \<in> {CHR ''d'', CHR ''i''} then do {
        spec \<leftarrow> CAT_SPEC spec c;
        (w, ap) \<leftarrow> va_int ap;
        (dst, rv) \<leftarrow> at_ptr dst p (e - p) (\<lambda>b n. if length spec = 2 then AG_StrlcpyInt b (sint w) n else c_snprintf b n (cp spec (A_int w)));
        Some (dst, rv, ap, g, False)
      } else if c = CHR ''u'' then do {
        spec \<leftarrow> CAT_SPEC spec c;
        (w, ap) \<leftarrow> va_int ap;
        (dst, rv) \<leftarrow> at_ptr dst p (e - p) (\<lambda>b n. if length spec = 2 then AG_StrlcpyUint b (unat w) n else c_snprintf b n (cp spec (A_int w)));
        Some (dst, rv, ap, g, False)
      } else if c \<in> {CHR ''o'', CHR ''x'', CHR ''X''} then do {
        spec \<leftarrow> CAT_SPEC spec c;
        (w, ap) \<leftarrow> va_int ap;
        (dst, rv) \<leftarrow> at_ptr dst p (e - p) (\<lambda>b n. c_snprintf b n (cp spec (A_int w)));
        Some (dst, rv, ap, g, False)
      } else if c = CHR ''c'' then do {
        spec \<leftarrow> CAT_SPEC spec c;
        if length spec = 2 then do_char e dst p (\<lambda>ap. do { (w, ap) \<leftarrow> va_int ap; Some (char_of (unat w), ap) }) g ap
        else do {
          (w, ap) \<leftarrow> va_int ap;
          (dst, rv) \<leftarrow> at_ptr dst p (e - p) (\<lambda>b n. c_snprintf b n (cp spec (A_int (scast (ucast w :: 8 word)))));
          Some (dst, rv, ap, g, False)
        }
      } else if c \<in> {CHR ''f'', CHR ''g''} then do {
        spec \<leftarrow> CAT_SPEC spec c;
        conv_double cp e dst p spec g ap
      } else if c = CHR ''s'' then do {
        spec \<leftarrow> CAT_SPEC spec c;
        (s, ap) \<leftarrow> va_str ap;
        (dst, rv) \<leftarrow> at_ptr dst p (e - p) (\<lambda>b n. if length spec = 2 then AG_Strlcpy b s n
          else if terminated s then c_snprintf b n (cp spec (A_str s)) else None);
        Some (dst, rv, ap, g, False)
      } else if c = CHR ''l'' then do {
        spec \<leftarrow> CAT_SPEC spec c;
        do_long cp e dst p spec g ap
      } else if c \<in> flag_specs then do {
        spec \<leftarrow> CAT_SPEC spec c;
        do_spec cp E M e dst p spec g ap
      } else if c = CHR ''%'' then do_char e dst p (\<lambda>ap. Some (CHR ''%'', ap)) g ap
      else Some (dst, 0, ap, g, False))"

declare do_spec.simps [simp del]

text \<open>\<open>holds P x\<close>: the value of \<open>x\<close>, if it has one, satisfies \<open>P\<close>; for values made by the option monad.\<close>

definition holds :: "('a \<Rightarrow> bool) \<Rightarrow> 'a option \<Rightarrow> bool" where
  "holds P x \<longleftrightarrow> (\<forall>v. x = Some v \<longrightarrow> P v)"

lemma holds_None: "holds P None" by (simp add: holds_def)

lemma holds_Some: "P v \<Longrightarrow> holds P (Some v)" by (simp add: holds_def)

lemma holds_bind: "(\<And>v. m = Some v \<Longrightarrow> holds P (k v)) \<Longrightarrow> holds P (Option.bind m k)"
  by (cases m) (simp_all add: holds_def)

lemma holds_if: "(b \<Longrightarrow> holds P x) \<Longrightarrow> (\<not> b \<Longrightarrow> holds P y) \<Longrightarrow> holds P (if b then x else y)" by simp

lemma holds_prod: "(\<And>a b. v = (a, b) \<Longrightarrow> holds P (k a b)) \<Longrightarrow> holds P (case v of (a, b) \<Rightarrow> k a b)" by (cases v) simp

lemma holds_option: "(x = None \<Longrightarrow> holds P n) \<Longrightarrow> (\<And>v. x = Some v \<Longrightarrow> holds P (s v)) \<Longrightarrow> holds P (case x of None \<Rightarrow> n | Some v \<Rightarrow> s v)"
  by (cases x) simp_all

lemma holdsD: "x = Some v \<Longrightarrow> holds P x \<Longrightarrow> P v" by (simp add: holds_def)

lemmas holds_rules = holds_None holds_Some holds_bind holds_if holds_prod holds_option

definition shorter :: "char list \<Rightarrow> converted \<Rightarrow> bool" where
  "shorter g = (\<lambda>(dst, rv, ap, f, out). length f < length g)"

lemma shorter_Cons: "length f \<le> length g \<Longrightarrow> shorter (c # g) (dst, rv, ap, f, out)" by (simp add: shorter_def)

lemma shorter_mono: "holds (shorter g) x \<Longrightarrow> holds (shorter (c # g)) x" by (fastforce simp: holds_def shorter_def)

lemma conv_shorter: "holds (shorter (c # g)) (conv_long cp e dst p spec g ap)" "holds (shorter (c # g)) (conv_double cp e dst p spec g ap)"
  "holds (shorter (c # g)) (do_char e dst p h g ap)" "holds (shorter (c # g)) (do_ext E M e dst p g ap)"
  unfolding conv_long_def conv_double_def do_char_def do_ext_def by (intro holds_rules shorter_Cons; simp)+

lemma do_long_long_shorter: "holds (shorter g) (do_long_long cp e dst p spec g ap)"
proof (cases g)
  case (Cons c g')
  show ?thesis unfolding Cons do_long_long.simps by (intro holds_rules conv_shorter shorter_Cons) simp
qed (simp add: holds_None)

lemma do_long_shorter: "holds (shorter g) (do_long cp e dst p spec g ap)"
proof (cases g)
  case (Cons c g')
  show ?thesis unfolding Cons do_long.simps by (intro holds_rules conv_shorter shorter_mono [OF do_long_long_shorter] shorter_Cons) simp
qed (simp add: holds_None)

lemma do_spec_shorter: "holds (shorter g) (do_spec cp E M e dst p spec g ap)"
proof (induction g arbitrary: spec)
  case (Cons c g)
  show ?case unfolding do_spec.simps
    by (intro holds_rules conv_shorter shorter_mono [OF do_long_shorter] shorter_mono [OF Cons.IH] shorter_Cons; simp)
qed (simp add: do_spec.simps holds_None)

text \<open>
  The loop over the format: \<open>pEnd\<close> is the last character of the buffer.  The result is the buffer and \<open>pDst\<close> when the loop is left.
\<close>

function fmt_loop :: "cprintf \<Rightarrow> AG_FmtStringExt list \<Rightarrow> fmt_mem \<Rightarrow> nat \<Rightarrow> char list \<Rightarrow> nat \<Rightarrow> char list \<Rightarrow> fmt_val list \<Rightarrow> (char list \<times> nat) option" where
  "fmt_loop cp E M e dst p [] ap = None"
| "fmt_loop cp E M e dst p (c # g) ap =
     (if c = NUL then Some (dst, p)
      else do {
        next \<leftarrow> rd g 0;
        if c \<noteq> CHR ''%'' \<or> next = NUL then do {
          dst \<leftarrow> wr dst p c;
          if p + 1 \<ge> e then do { dst \<leftarrow> wr dst e NUL; Some (dst, p + 1) }
          else fmt_loop cp E M e dst (p + 1) g ap
        } else (case do_spec cp E M e dst p ''%'' g ap of
            None \<Rightarrow> None
          | Some (dst, rv, ap, f, out) \<Rightarrow>
              if out then Some (dst, p)
              else if p + rv > e then do { dst \<leftarrow> wr dst e NUL; Some (dst, p + rv) }
              else fmt_loop cp E M e dst (p + rv) f ap)
      })"
  by pat_completeness auto
termination
  by (relation "measure (\<lambda>(cp, E, M, e, dst, p, f, ap). length f)") (auto dest!: holdsD [OF _ do_spec_shorter] simp: shorter_def)

declare fmt_loop.simps [simp del]

definition AG_DoPrintf :: "cprintf \<Rightarrow> AG_FmtStringExt list \<Rightarrow> fmt_mem \<Rightarrow> char list \<Rightarrow> nat \<Rightarrow> char list \<Rightarrow> fmt_val list \<Rightarrow> (char list \<times> nat) option" where
  "AG_DoPrintf cp E M dst dstSize fmt ap =
     (if dstSize < 1 then Some (dst, 1)
      else do {
        let e = dstSize - 1;
        dst \<leftarrow> wr dst 0 NUL;
        (dst, p) \<leftarrow> fmt_loop cp E M e dst 0 fmt ap;
        dst \<leftarrow> wr dst (if p < e then p else e) NUL;
        Some (dst, p)
      })"

section \<open>Buffers that grow\<close>

text \<open>\<open>restart\<close>: as long as the text does not fit, the buffer grows; \<open>J\<close> is what fresh memory holds.\<close>

partial_function (option) printf_loop :: "cprintf \<Rightarrow> AG_FmtStringExt list \<Rightarrow> fmt_mem \<Rightarrow> char \<Rightarrow> char list \<Rightarrow> fmt_val list \<Rightarrow> char list \<Rightarrow> char list option" where
  "printf_loop cp E M J fmt ap dst = do {
     dst \<leftarrow> wr dst 0 NUL;
     (b, rv) \<leftarrow> AG_DoPrintf cp E M dst (length dst) fmt ap;
     if rv \<ge> length dst then printf_loop cp E M J fmt ap (b @ replicate (rv + AG_FMTSTRING_BUFFER_GROW - length b) J)
     else Some b
   }"

definition AG_PrintfN :: "cprintf \<Rightarrow> AG_FmtStringExt list \<Rightarrow> fmt_mem \<Rightarrow> char \<Rightarrow> nat \<Rightarrow> char list \<Rightarrow> fmt_val list \<Rightarrow> char list option list \<Rightarrow>
    (char list \<times> char list option list) option" where
  "AG_PrintfN cp E M J idx fmt ap bufs = do {
     b \<leftarrow> printf_loop cp E M J fmt ap (replicate AG_FMTSTRING_BUFFER_INIT J);
     bufs \<leftarrow> wr bufs idx (Some b);
     Some (b, bufs)
   }"

definition AG_Printf :: "cprintf \<Rightarrow> AG_FmtStringExt list \<Rightarrow> fmt_mem \<Rightarrow> char \<Rightarrow> char list \<Rightarrow> fmt_val list \<Rightarrow> char list option list \<Rightarrow>
    (char list \<times> char list option list) option" where
  "AG_Printf cp E M J fmt ap bufs = do {
     b \<leftarrow> printf_loop cp E M J fmt ap (replicate AG_FMTSTRING_BUFFER_INIT J);
     bufs \<leftarrow> wr bufs 0 (Some b);
     Some (b, bufs)
   }"

section \<open>Deferred formatting\<close>

text \<open>The pointers that the specifiers of a format take; \<open>mu\<close> is the lock for the next one.\<close>

fun take_args :: "char list \<Rightarrow> nat option \<Rightarrow> nat option list \<Rightarrow> AG_FmtString \<Rightarrow> AG_FmtString option" where
  "take_args [] mu ap fs = None"
| "take_args [c] mu ap fs = (if c = NUL then Some fs else None)"
| "take_args (c # n # g) mu ap fs =
     (if c = NUL then Some fs
      else if c \<noteq> CHR ''%'' then take_args (n # g) mu ap fs
      else if n \<in> {CHR ''%'', CHR '' ''} then take_args g mu ap fs
      else if n = CHR ''m'' then (case ap of [] \<Rightarrow> None | m # ap \<Rightarrow> take_args (n # g) m ap fs)
      else if n = CHR ''>'' then take_args (n # g) None ap fs
      else if n = NUL then take_args (n # g) mu ap fs
      else if fs_n fs + 1 \<ge> AG_STRING_POINTERS_MAX then None
      else (case ap of [] \<Rightarrow> None
        | a # ap \<Rightarrow> take_args (n # g) None ap (fs\<lparr>fs_p := fs_p fs @ [a], fs_mu := fs_mu fs @ [mu], fs_n := fs_n fs + 1\<rparr>)))"

definition AG_PrintfP :: "char list \<Rightarrow> nat option list \<Rightarrow> AG_FmtString option" where
  "AG_PrintfP fmt ap = (if terminated fmt then
     take_args fmt None ap \<lparr>fs_s = Some (cstr fmt @ [NUL]), fs_p = [], fs_mu = [], fs_n = 0, fs_curArg = 0\<rparr> else None)"

text \<open>What a deferred conversion leaves: the format with its position, the buffer, the characters written, and the rest of the format.\<close>

type_synonym processed = "AG_FmtString \<times> char list \<times> nat \<times> char list"

definition p_printf :: "cprintf \<Rightarrow> nat \<Rightarrow> char list \<Rightarrow> nat \<Rightarrow> string \<Rightarrow> fmt_val \<Rightarrow> AG_FmtString \<Rightarrow> char list \<Rightarrow> processed option" where
  "p_printf cp e dst p spec v fs g = do { (dst, rv) \<leftarrow> at_ptr dst p (e - p) (\<lambda>b n. c_snprintf b n (cp spec v)); Some (fs, dst, rv, g) }"

text \<open>The character after \<open>ll\<close>; the position moves on by two whether or not it is a specifier.\<close>

fun ProcessFmtString64 :: "cprintf \<Rightarrow> fmt_mem \<Rightarrow> nat \<Rightarrow> char list \<Rightarrow> nat \<Rightarrow> char list \<Rightarrow> AG_FmtString \<Rightarrow> processed option" where
  "ProcessFmtString64 cp M e dst p [] fs = None"
| "ProcessFmtString64 cp M e dst p (c # g) fs =
     (if c \<in> int_specs then do {
        (ob, fs) \<leftarrow> FSARG M fs;
        w \<leftarrow> the_quad ob;
        p_printf cp e dst p (''%ll'' @ [if c = CHR ''i'' then CHR ''d'' else c]) (A_long w) fs g
      } else Some (fs, dst, 0, g))"

fun process_long :: "cprintf \<Rightarrow> fmt_mem \<Rightarrow> nat \<Rightarrow> char list \<Rightarrow> nat \<Rightarrow> char list \<Rightarrow> AG_FmtString \<Rightarrow> processed option" where
  "process_long cp M e dst p [] fs = None"
| "process_long cp M e dst p (c # g) fs =
     (if c = CHR ''f'' then do { (ob, fs) \<leftarrow> FSARG M fs; w \<leftarrow> the_double ob; p_printf cp e dst p ''%.2f'' (A_double w) fs g }
      else if c = CHR ''g'' then do { (ob, fs) \<leftarrow> FSARG M fs; w \<leftarrow> the_double ob; p_printf cp e dst p ''%g'' (A_double w) fs g }
      else if c = CHR ''l'' then ProcessFmtString64 cp M e dst p g fs
      else Some (fs, dst, 0, c # g))"

fun process_spec :: "cprintf \<Rightarrow> AG_FmtStringExt list \<Rightarrow> fmt_mem \<Rightarrow> nat \<Rightarrow> char list \<Rightarrow> nat \<Rightarrow> char list \<Rightarrow> AG_FmtString \<Rightarrow> processed option" where
  "process_spec cp E M e dst p [] fs = None"
| "process_spec cp E M e dst p (c # g) fs =
     (if c = CHR ''['' then
        (case find_ext E g of
           None \<Rightarrow> Some (fs, dst, 0, g)
         | Some x \<Rightarrow> do {
             (fs, b, rv) \<leftarrow> ex_fn x M fs (drop p dst) (e - p);
             Some (fs, take p dst @ b, rv, drop (length (ex_fmt x) + 1) g)
           })
      else if c = CHR ''l'' then process_long cp M e dst p g fs
      else if c \<in> {CHR ''d'', CHR ''i''} then do {
        (ob, fs) \<leftarrow> FSARG M fs;
        w \<leftarrow> the_word ob;
        (dst, rv) \<leftarrow> at_ptr dst p (e - p) (\<lambda>b. AG_StrlcpyInt b (sint w));
        Some (fs, dst, rv, g)
      } else if c = CHR ''u'' then do {
        (ob, fs) \<leftarrow> FSARG M fs;
        w \<leftarrow> the_word ob;
        (dst, rv) \<leftarrow> at_ptr dst p (e - p) (\<lambda>b. AG_StrlcpyUint b (unat w));
        Some (fs, dst, rv, g)
      } else if c = CHR ''f'' then do { (ob, fs) \<leftarrow> FSARG M fs; w \<leftarrow> the_float ob; p_printf cp e dst p ''%.2f'' (A_float w) fs g }
      else if c = CHR ''g'' then do { (ob, fs) \<leftarrow> FSARG M fs; w \<leftarrow> the_float ob; p_printf cp e dst p ''%g'' (A_float w) fs g }
      else if c = CHR ''s'' then do {
        (ob, fs) \<leftarrow> FSARG M fs;
        s \<leftarrow> the_chars ob;
        (dst, rv) \<leftarrow> at_ptr dst p (e - p) (\<lambda>b. AG_Strlcpy b s);
        Some (fs, dst, rv, g)
      } else if c \<in> {CHR ''o'', CHR ''x'', CHR ''X''} then do {
        (ob, fs) \<leftarrow> FSARG M fs;
        w \<leftarrow> the_word ob;
        p_printf cp e dst p [CHR ''%'', c] (A_int w) fs g
      } else if c = CHR ''c'' then do {
        (ob, fs) \<leftarrow> FSARG M fs;
        s \<leftarrow> the_chars ob;
        x \<leftarrow> rd s 0;
        dst \<leftarrow> wr dst p x;
        Some (fs, dst, 1, g)
      } else if c = CHR ''%'' then do { dst \<leftarrow> wr dst p CHR ''%''; Some (fs, dst, 1, g) }
      else Some (fs, dst, 0, g))"

definition p_shorter :: "char list \<Rightarrow> processed \<Rightarrow> bool" where
  "p_shorter g = (\<lambda>(fs, dst, rv, f). length f < length g)"

lemma p_shorter_Cons: "length f \<le> length g \<Longrightarrow> p_shorter (c # g) (fs, dst, rv, f)" by (simp add: p_shorter_def)

lemma p_shorter_mono: "holds (p_shorter g) x \<Longrightarrow> holds (p_shorter (c # g)) x" by (fastforce simp: holds_def p_shorter_def)

lemma p_printf_shorter: "holds (p_shorter (c # g)) (p_printf cp e dst p spec v fs g)"
  unfolding p_printf_def by (intro holds_rules p_shorter_Cons) simp

lemma ProcessFmtString64_shorter: "holds (p_shorter g) (ProcessFmtString64 cp M e dst p g fs)"
proof (cases g)
  case (Cons c g')
  show ?thesis unfolding Cons ProcessFmtString64.simps by (intro holds_rules p_printf_shorter p_shorter_Cons) simp
qed (simp add: holds_None)

lemma process_long_shorter: "holds (p_shorter (c # g)) (process_long cp M e dst p g fs)"
proof (cases g)
  case (Cons d g')
  show ?thesis unfolding Cons process_long.simps
    by (intro holds_rules p_shorter_mono [OF p_printf_shorter] p_shorter_mono [OF p_shorter_mono [OF ProcessFmtString64_shorter]] p_shorter_Cons) simp
qed (simp add: holds_None)

lemma process_spec_shorter: "holds (p_shorter g) (process_spec cp E M e dst p g fs)"
proof (cases g)
  case (Cons c g')
  show ?thesis unfolding Cons process_spec.simps
    by (intro holds_rules p_printf_shorter process_long_shorter p_shorter_Cons; simp)
qed (simp add: holds_None)

function process_loop :: "cprintf \<Rightarrow> AG_FmtStringExt list \<Rightarrow> fmt_mem \<Rightarrow> nat \<Rightarrow> char list \<Rightarrow> nat \<Rightarrow> char list \<Rightarrow> AG_FmtString \<Rightarrow>
    (AG_FmtString \<times> char list \<times> nat) option" where
  "process_loop cp E M e dst p [] fs = None"
| "process_loop cp E M e dst p (c # g) fs =
     (if c = NUL then Some (fs, dst, p)
      else do {
        next \<leftarrow> rd g 0;
        if c \<noteq> CHR ''%'' \<or> next = NUL then do {
          dst \<leftarrow> wr dst p c;
          if p + 1 \<ge> e then do { dst \<leftarrow> wr dst e NUL; Some (fs, dst, p + 1) }
          else process_loop cp E M e dst (p + 1) g fs
        } else (case process_spec cp E M e dst p g fs of
            None \<Rightarrow> None
          | Some (fs, dst, rv, f) \<Rightarrow>
              if p + rv > e then do { dst \<leftarrow> wr dst e NUL; Some (fs, dst, p + rv) }
              else process_loop cp E M e dst (p + rv) f fs)
      })"
  by pat_completeness auto
termination
  by (relation "measure (\<lambda>(cp, E, M, e, dst, p, f, fs). length f)") (auto dest!: holdsD [OF _ process_spec_shorter] simp: p_shorter_def)

declare process_loop.simps [simp del]

definition AG_ProcessFmtString :: "cprintf \<Rightarrow> AG_FmtStringExt list \<Rightarrow> fmt_mem \<Rightarrow> AG_FmtString \<Rightarrow> char list \<Rightarrow> nat \<Rightarrow>
    (AG_FmtString \<times> char list \<times> nat) option" where
  "AG_ProcessFmtString cp E M fs dst dstSize = (let fs = fs\<lparr>fs_curArg := 0\<rparr> in
     if dstSize < 1 then Some (fs, dst, 0)
     else do {
       let e = dstSize - 1;
       dst \<leftarrow> wr dst 0 NUL;
       f \<leftarrow> fs_s fs;
       (fs, dst, p) \<leftarrow> process_loop cp E M e dst 0 f fs;
       dst \<leftarrow> wr dst (if p < e then p else e) NUL;
       Some (fs, dst, p)
     })"

end
