(* ===== verification/FormatLaws.thy ===== *)
theory FormatLaws
  imports Format
begin

text \<open>
  The laws of the formatting engine: elements of a format print their text when there is room (\<open>fmt_loop_items\<close>), which gives what
  \<open>AG_Printf\<close> prints and where it cuts; deferred formatting prints the same (\<open>process_loop_items\<close>); and the engine stays in its buffer for every format.
\<close>

section \<open>Routines that write a text\<close>

text \<open>With room for the text and its terminator, the routine writes them and gives the length.\<close>

definition writes :: "(char list \<Rightarrow> nat \<Rightarrow> (char list \<times> nat) option) \<Rightarrow> string \<Rightarrow> bool" where
  "writes f t \<longleftrightarrow> (\<forall>b n. n \<le> length b \<longrightarrow> length t < n \<longrightarrow> f b n = Some (t @ NUL # drop (length t + 1) b, length t))"

lemma writes_Strlcpy:
  assumes "nonul s"
  shows "writes (\<lambda>b. AG_Strlcpy b (s @ NUL # r)) s"
proof -
  have "min (n - 1) (length s) = length s" "take (n - 1) s = s" if "length s < n" for n using that by simp_all
  then show ?thesis by (simp add: writes_def AG_Strlcpy_spec assms)
qed

lemma writes_StrlcpyInt: "int_ok v \<Longrightarrow> writes (\<lambda>b. AG_StrlcpyInt b v) (dec_int v)"
  by (auto simp: writes_def AG_StrlcpyInt_spec Let_def)

lemma writes_StrlcpyUint: "writes (\<lambda>b. AG_StrlcpyUint b v) (dec v)"
  by (auto simp: writes_def AG_StrlcpyUint_spec Let_def)

lemma writes_snprintf: "writes (\<lambda>b n. c_snprintf b n t) t"
  by (auto simp: writes_def c_snprintf_def blit_def)

text \<open>The buffer after \<open>t\<close> was put at \<open>p\<close>, up to what follows it.\<close>

definition put :: "char list \<Rightarrow> nat \<Rightarrow> string \<Rightarrow> char list \<Rightarrow> bool" where
  "put dst p t dst' \<longleftrightarrow> length dst' = length dst \<and> take (p + length t) dst' = take p dst @ t"

lemma put_Nil [simp]: "put dst p [] dst" by (simp add: put_def)

lemma put_trans: "put dst p s d1 \<Longrightarrow> put d1 (p + length s) t d2 \<Longrightarrow> put dst p (s @ t) d2"
  by (simp add: put_def add.assoc)

lemma put_wr: "p < length dst \<Longrightarrow> \<exists>dst'. wr dst p c = Some dst' \<and> put dst p [c] dst'"
  by (simp add: wr_def put_def take_Suc_conv_app_nth)

lemma at_ptr_writes:
  assumes "writes f t" and "p + length t < e" and "e < length dst"
  shows "\<exists>dst'. at_ptr dst p (e - p) f = Some (dst', length t) \<and> put dst p t dst'"
proof -
  have "f (drop p dst) (e - p) = Some (t @ NUL # drop (length t + 1) (drop p dst), length t)"
    using assms by (simp add: writes_def)
  then show ?thesis using assms by (simp add: at_ptr_def put_def)
qed

section \<open>Formats and their text\<close>

text \<open>
  The elements of a format: characters, the percent sign, \<open>%d\<close>, \<open>%u\<close>, \<open>%x\<close>, \<open>%s\<close>, \<open>%c\<close> and the extended \<open>%[u8]\<close> of a byte at an address.
\<close>

datatype fmt_item = I_lit char | I_pct | I_dec "32 word" | I_uns "32 word" | I_hex "32 word" | I_str string | I_chr char | I_u8 nat "8 word"

fun item_fmt :: "fmt_item \<Rightarrow> string" where
  "item_fmt (I_lit c) = [c]" | "item_fmt I_pct = ''%%''" | "item_fmt (I_dec w) = ''%d''" | "item_fmt (I_uns w) = ''%u''" | "item_fmt (I_hex w) = ''%x''"
| "item_fmt (I_str s) = ''%s''" | "item_fmt (I_chr c) = ''%c''" | "item_fmt (I_u8 a w) = ''%[u8]''"

fun item_args :: "fmt_item \<Rightarrow> fmt_val list" where
  "item_args (I_dec w) = [A_int w]" | "item_args (I_uns w) = [A_int w]" | "item_args (I_hex w) = [A_int w]"
| "item_args (I_str s) = [A_str (s @ [NUL])]" | "item_args (I_chr c) = [A_int (of_char c)]" | "item_args (I_u8 a w) = [A_ptr (Some a)]"
| "item_args _ = []"

fun item_text :: "cprintf \<Rightarrow> fmt_item \<Rightarrow> string" where
  "item_text cp (I_lit c) = [c]" | "item_text cp I_pct = ''%''" | "item_text cp (I_dec w) = dec_int (sint w)" | "item_text cp (I_uns w) = dec (unat w)"
| "item_text cp (I_hex w) = cp ''%x'' (A_int w)" | "item_text cp (I_str s) = s" | "item_text cp (I_chr c) = [c]" | "item_text cp (I_u8 a w) = dec (unat w)"

fun item_ok :: "cprintf \<Rightarrow> fmt_mem \<Rightarrow> fmt_item \<Rightarrow> bool" where
  "item_ok cp M (I_lit c) \<longleftrightarrow> c \<noteq> NUL \<and> c \<noteq> CHR ''%''" | "item_ok cp M I_pct \<longleftrightarrow> True" | "item_ok cp M (I_dec w) \<longleftrightarrow> sint w \<noteq> - (2 ^ 31)"
| "item_ok cp M (I_uns w) \<longleftrightarrow> True" | "item_ok cp M (I_hex w) \<longleftrightarrow> nonul (cp ''%x'' (A_int w))" | "item_ok cp M (I_str s) \<longleftrightarrow> nonul s"
| "item_ok cp M (I_chr c) \<longleftrightarrow> c \<noteq> NUL" | "item_ok cp M (I_u8 a w) \<longleftrightarrow> M a = Some (M_byte w)"

definition fmt_of :: "fmt_item list \<Rightarrow> string" where "fmt_of is = concat (map item_fmt is)"
definition args_of :: "fmt_item list \<Rightarrow> fmt_val list" where "args_of is = concat (map item_args is)"
definition text_of :: "cprintf \<Rightarrow> fmt_item list \<Rightarrow> string" where "text_of cp is = concat (map (item_text cp) is)"

lemma of_simps [simp]: "fmt_of [] = []" "fmt_of (i # is) = item_fmt i @ fmt_of is" "args_of [] = []" "args_of (i # is) = item_args i @ args_of is"
  "text_of cp [] = []" "text_of cp (i # is) = item_text cp i @ text_of cp is"
  by (simp_all add: fmt_of_def args_of_def text_of_def)

lemma sint_int_ok: "sint (w :: 32 word) \<noteq> - (2 ^ 31) \<Longrightarrow> int_ok (sint w)"
  using sint_range_size [of w] by (auto simp: int_ok_def word_size)

lemma dec_int_nonul [simp]: "nonul (dec_int v)" by (simp add: dec_int_def)

lemma item_text_nonul: "item_ok cp M i \<Longrightarrow> nonul (item_text cp i)" by (cases i) auto

lemma text_nonul: "list_all (item_ok cp M) is \<Longrightarrow> nonul (text_of cp is)"
  by (induction "is") (auto simp: item_text_nonul)

abbreviation builtin_exts :: "cprintf \<Rightarrow> AG_FmtStringExt list" where
  "builtin_exts cp \<equiv> snd (AG_InitStringSubsystem cp [])"

lemma find_u8: "find_ext (builtin_exts cp @ E) (''u8]'' @ f) = Some \<lparr>ex_fmt = ''u8'', ex_fn = PrintU8\<rparr>"
  by (simp add: AG_InitStringSubsystem_def AG_RegisterFmtStringExt_def)

lemma sint_byte: "int_ok (sint (w :: 8 word))"
  using sint_range_size [of w] by (auto simp: int_ok_def word_size)

lemma fmt_loop_spec:
  assumes "do_spec cp E M e dst p ''%'' (n # g) ap = Some (d, rv, ap', f, False)" and "n \<noteq> NUL" and "p + rv \<le> e"
  shows "fmt_loop cp E M e dst p (CHR ''%'' # n # g) ap = fmt_loop cp E M e d (p + rv) f ap'"
  using assms by (simp add: fmt_loop.simps(2) [of _ _ _ _ _ _ "CHR ''%''"] rd_def)

text \<open>One element is printed at the position, if the buffer goes beyond its text.\<close>

lemma do_spec_item:
  assumes "item_ok cp M i" and "p + length (item_text cp i) < e" and "e < length dst" and "item_fmt i = CHR ''%'' # g"
  shows "\<exists>d. do_spec cp (builtin_exts cp @ E) M e dst p ''%'' (g @ f) (item_args i @ ap) = Some (d, length (item_text cp i), ap, f, False) \<and>
    put dst p (item_text cp i) d"
proof (cases i)
  case I_pct
  then show ?thesis using assms put_wr [of p dst "CHR ''%''"] by (auto simp: do_spec.simps do_char_def flag_specs_def)
next
  case (I_dec w)
  then have "writes (\<lambda>b. AG_StrlcpyInt b (sint w)) (item_text cp i)" using assms(1) by (simp add: writes_StrlcpyInt sint_int_ok)
  from at_ptr_writes [OF this assms(2,3)] show ?thesis using I_dec assms(4) by (auto simp: do_spec.simps CAT_SPEC_def)
next
  case (I_uns w)
  then have "writes (\<lambda>b. AG_StrlcpyUint b (unat w)) (item_text cp i)" by (simp add: writes_StrlcpyUint)
  from at_ptr_writes [OF this assms(2,3)] show ?thesis using I_uns assms(4) by (auto simp: do_spec.simps CAT_SPEC_def)
next
  case (I_hex w)
  then have "writes (\<lambda>b n. c_snprintf b n (cp ''%x'' (A_int w))) (item_text cp i)" by (simp add: writes_snprintf)
  from at_ptr_writes [OF this assms(2,3)] show ?thesis using I_hex assms(4) by (auto simp: do_spec.simps CAT_SPEC_def)
next
  case (I_str s)
  then have "writes (\<lambda>b. AG_Strlcpy b (s @ [NUL])) (item_text cp i)" using assms(1) writes_Strlcpy [of s "[]"] by simp
  from at_ptr_writes [OF this assms(2,3)] show ?thesis using I_str assms(4) by (auto simp: do_spec.simps CAT_SPEC_def)
next
  case (I_chr c)
  have "of_char c < (2 ^ 32 :: nat)" using nat_of_char_less_256 [of c] by (rule less_trans) simp
  then have "unat (word_of_nat (of_char c) :: 32 word) = of_char c" by (simp add: unat_of_nat)
  then have "char_of (unat (of_char c :: 32 word)) = c" by (metis char_of_char of_nat_of_char)
  then show ?thesis using assms I_chr put_wr [of p dst c] by (auto simp: do_spec.simps do_char_def CAT_SPEC_def)
next
  case (I_u8 a w)
  then have "writes (\<lambda>b. AG_StrlcpyUint b (unat w)) (item_text cp i)" by (simp add: writes_StrlcpyUint)
  from at_ptr_writes [OF this assms(2,3)] show ?thesis using I_u8 assms(1,4) find_u8 [of cp E f]
    by (auto simp: do_spec.simps do_ext_def at_ptr_def PrintU8_def FSARG_def AG_FMTSTRING_ARG_def rd_def bind_eq_Some_conv)
qed (use assms in auto)

lemma fmt_loop_item:
  assumes "item_ok cp M i" and "p + length (item_text cp i) < e" and "e < length dst" and "f \<noteq> []"
  shows "\<exists>d. fmt_loop cp (builtin_exts cp @ E) M e dst p (item_fmt i @ f) (item_args i @ ap) =
      fmt_loop cp (builtin_exts cp @ E) M e d (p + length (item_text cp i)) f ap \<and> put dst p (item_text cp i) d"
proof (cases "\<exists>c. i = I_lit c")
  case True
  then obtain c where i: "i = I_lit c" ..
  obtain x f' where f: "f = x # f'" using assms(4) by (cases f) auto
  then show ?thesis using assms i put_wr [of p dst c] by (auto simp: fmt_loop.simps(2) [of _ _ _ _ _ _ c] rd_def)
next
  case False
  then obtain n g where g: "item_fmt i = CHR ''%'' # n # g" "n \<noteq> NUL" by (cases i) auto
  from do_spec_item [OF assms(1-3) g(1), of E f ap] show ?thesis
    using fmt_loop_spec [of cp "builtin_exts cp @ E" M e dst p n "g @ f" "item_args i @ ap"] g assms(2) by auto
qed

lemma fmt_loop_items:
  assumes "list_all (item_ok cp M) is" and "p + length (text_of cp is) < e" and "e < length dst" and "f \<noteq> []"
  shows "\<exists>d. fmt_loop cp (builtin_exts cp @ E) M e dst p (fmt_of is @ f) (args_of is @ ap) =
      fmt_loop cp (builtin_exts cp @ E) M e d (p + length (text_of cp is)) f ap \<and> put dst p (text_of cp is) d"
  using assms
proof (induction "is" arbitrary: dst p)
  case (Cons i "is")
  obtain d where d: "fmt_loop cp (builtin_exts cp @ E) M e dst p (item_fmt i @ fmt_of is @ f) (item_args i @ args_of is @ ap) =
      fmt_loop cp (builtin_exts cp @ E) M e d (p + length (item_text cp i)) (fmt_of is @ f) (args_of is @ ap)" "put dst p (item_text cp i) d"
    using fmt_loop_item [of cp M i p e dst "fmt_of is @ f" E "args_of is @ ap"] Cons.prems by auto
  from Cons.IH [of "p + length (item_text cp i)" d] Cons.prems d show ?case by (auto simp: put_def add.assoc)
qed auto

section \<open>Direct formatting\<close>

lemma put_cstr:
  assumes "put dst 0 t d" and "nonul t" and "length t < length dst"
  shows "\<exists>b. wr d (length t) NUL = Some b \<and> b = t @ NUL # drop (length t + 1) d"
proof -
  have "d = t @ drop (length t) d" using assms(1) by (metis add_0 append_Nil append_take_drop_id put_def take0)
  moreover have "drop (length t) d = d ! length t # drop (length t + 1) d"
    using assms(1,3) by (simp add: put_def Cons_nth_drop_Suc)
  ultimately have "d = t @ d ! length t # drop (length t + 1) d" by simp
  then show ?thesis using wr_append [of t "d ! length t" "drop (length t + 1) d" NUL] by simp
qed

lemma DoPrintf_items:
  assumes "list_all (item_ok cp M) is" and "length (text_of cp is) < e" and "e < length dst"
  shows "\<exists>d. AG_DoPrintf cp (builtin_exts cp @ E) M dst (Suc e) (fmt_of is @ NUL # r) (args_of is) = Some (text_of cp is @ NUL # d, length (text_of cp is)) \<and>
    length (text_of cp is) + 1 + length d = length dst"
proof -
  let ?t = "text_of cp is"
  have w: "wr dst 0 NUL = Some (dst[0 := NUL])" using assms(2,3) by (auto simp: wr_def)
  obtain d where d: "fmt_loop cp (builtin_exts cp @ E) M e (dst[0 := NUL]) 0 (fmt_of is @ NUL # r) (args_of is @ []) =
      fmt_loop cp (builtin_exts cp @ E) M e d (0 + length ?t) (NUL # r) []" "put (dst[0 := NUL]) 0 ?t d"
    using fmt_loop_items [OF assms(1), of 0 e "dst[0 := NUL]" "NUL # r" E "[]"] assms(2,3) by auto
  obtain b where b: "wr d (length ?t) NUL = Some b" "b = ?t @ NUL # drop (length ?t + 1) d"
    using put_cstr [OF d(2) text_nonul [OF assms(1)]] assms(2,3) by auto
  have "length d = length dst" using d(2) by (simp add: put_def)
  then show ?thesis using w d(1) b assms(2,3) by (auto simp: AG_DoPrintf_def Let_def fmt_loop.simps(2))
qed

lemma printf_loop_fits:
  assumes "AG_DoPrintf cp E M (dst[0 := NUL]) (length dst) fmt ap = Some (b, rv)" and "rv < length dst"
  shows "printf_loop cp E M J fmt ap dst = Some b"
  using assms by (subst printf_loop.simps) (auto simp: wr_def)

lemma printf_loop_grows:
  assumes "AG_DoPrintf cp E M (dst[0 := NUL]) (length dst) fmt ap = Some (b, rv)" and "length dst \<le> rv" and "dst \<noteq> []"
  shows "printf_loop cp E M J fmt ap dst = printf_loop cp E M J fmt ap (b @ replicate (rv + 128 - length b) J)"
  using assms by (subst printf_loop.simps) (simp add: wr_def AG_FMTSTRING_BUFFER_GROW_def)

text \<open>The string of a single \<open>%s\<close> that does not fit.\<close>

lemma Strlcpy_long:
  assumes "nonul s" and "e < length dst" and "1 \<le> e" and "e \<le> length s"
  shows "AG_Strlcpy dst (s @ NUL # q) e = Some (take (e - 1) s @ NUL # drop e dst, length s)"
  using assms by (simp add: AG_Strlcpy_spec min_def)

lemma DoPrintf_str_exact:
  assumes "nonul s" and "length s < length dst" and "s \<noteq> []"
  shows "\<exists>d. AG_DoPrintf cp E M dst (Suc (length s)) (''%s'' @ NUL # r) [A_str (s @ NUL # q)] = Some (butlast s @ NUL # d, length s)"
proof -
  let ?b = "take (length s - 1) s @ NUL # drop (length s) (dst[0 := NUL])"
  have cp: "AG_Strlcpy (dst[0 := NUL]) (s @ NUL # q) (length s) = Some (?b, length s)"
    using Strlcpy_long [of s "length s" "dst[0 := NUL]" q] assms by (cases s) auto
  then have sp: "do_spec cp E M (length s) (dst[0 := NUL]) 0 ''%'' (CHR ''s'' # NUL # r) [A_str (s @ NUL # q)] = Some (?b, length s, [], NUL # r, False)"
    by (simp add: do_spec.simps CAT_SPEC_def at_ptr_def)
  have "fmt_loop cp E M (length s) (dst[0 := NUL]) 0 (''%s'' @ NUL # r) [A_str (s @ NUL # q)] = Some (?b, length s)"
    using fmt_loop_spec [OF sp] by (simp add: fmt_loop.simps(2))
  moreover have "wr ?b (length s) NUL = Some (butlast s @ NUL # (drop (length s) (dst[0 := NUL]))[0 := NUL])"
    using assms by (cases s rule: rev_cases) (auto simp: wr_def list_update_append)
  ultimately show ?thesis using assms by (auto simp: AG_DoPrintf_def Let_def wr_def)
qed

lemma DoPrintf_str_long:
  assumes "nonul s" and "e < length s" and "e < length dst" and "1 \<le> e"
  shows "\<exists>d. AG_DoPrintf cp E M dst (Suc e) (''%s'' @ NUL # r) [A_str (s @ NUL # q)] = Some (d, length s) \<and> length d = length dst"
proof -
  let ?b = "take (e - 1) s @ NUL # drop e (dst[0 := NUL])"
  have cp: "AG_Strlcpy (dst[0 := NUL]) (s @ NUL # q) e = Some (?b, length s)"
    using Strlcpy_long [of s e "dst[0 := NUL]" q] assms by auto
  then have sp: "do_spec cp E M e (dst[0 := NUL]) 0 ''%'' (CHR ''s'' # NUL # r) [A_str (s @ NUL # q)] = Some (?b, length s, [], NUL # r, False)"
    by (simp add: do_spec.simps CAT_SPEC_def at_ptr_def)
  have l: "length ?b = length dst" using assms by auto
  have "fmt_loop cp E M e (dst[0 := NUL]) 0 (CHR ''%'' # CHR ''s'' # NUL # r) [A_str (s @ NUL # q)] = Some (?b[e := NUL], length s)"
    using sp l assms by (subst fmt_loop.simps(2)) (simp add: rd_def wr_def)
  then show ?thesis using assms l by (auto simp: AG_DoPrintf_def Let_def wr_def)
qed

text \<open>Text without conversions that is too long.\<close>

lemma fmt_loop_long:
  assumes "NUL \<notin> set s" and "CHR ''%'' \<notin> set s" and "p < e" and "e \<le> p + length s" and "e < length dst" and "f \<noteq> []"
  shows "\<exists>d. fmt_loop cp E M e dst p (s @ f) ap = Some (d, e) \<and> length d = length dst \<and> take e d = take p dst @ take (e - p) s"
  using assms
proof (induction s arbitrary: dst p)
  case (Cons c s)
  obtain x f' where f: "s @ f = x # f'" using assms(6) by (cases "s @ f") auto
  obtain d where d: "wr dst p c = Some d" "put dst p [c] d" using put_wr [of p dst c] Cons.prems by auto
  show ?case
  proof (cases "p + 1 \<ge> e")
    case True
    then have "e = p + 1" using Cons.prems by simp
    then show ?thesis using Cons.prems f d by (auto simp: fmt_loop.simps(2) rd_def wr_def put_def)
  next
    case False
    then obtain d' where "fmt_loop cp E M e d (p + 1) (s @ f) ap = Some (d', e)" "length d' = length d" "take e d' = take (p + 1) d @ take (e - (p + 1)) s"
      using Cons.IH [of "p + 1" d] Cons.prems d(2) by (auto simp: put_def)
    moreover have "e - p = Suc (e - (p + 1))" using Cons.prems by simp
    ultimately show ?thesis using Cons.prems False f d by (auto simp: fmt_loop.simps(2) rd_def put_def)
  qed
qed simp

lemma DoPrintf_long_text:
  assumes "nonul s" and "CHR ''%'' \<notin> set s" and "e \<le> length s" and "0 < e" and "e < length dst"
  shows "\<exists>d. AG_DoPrintf cp E M dst (Suc e) (s @ NUL # r) ap = Some (take e s @ NUL # d, e)"
proof -
  have "NUL \<notin> set s" using assms(1) by (simp add: nonul_def)
  then obtain d where d: "fmt_loop cp E M e (dst[0 := NUL]) 0 (s @ NUL # r) ap = Some (d, e)" "length d = length dst" "take e d = take e s"
    using fmt_loop_long [of s 0 e "dst[0 := NUL]" "NUL # r" cp E M ap] assms by auto
  have "d = take e s @ d ! e # drop (Suc e) d" using d assms id_take_nth_drop [of e d] by simp
  moreover have "length (take e s) = e" using assms(3) by simp
  ultimately have "wr d e NUL = Some (take e s @ NUL # drop (Suc e) d)" by (metis wr_append)
  moreover have "wr dst 0 NUL = Some (dst[0 := NUL])" using assms(5) by (auto simp: wr_def)
  ultimately show ?thesis using d(1) by (simp add: AG_DoPrintf_def Let_def)
qed

text \<open>
  C38: \<open>AG_Printf\<close> gives the text of its format when the text has at most 126 characters and the format is made of characters,
  \<open>%%\<close>, \<open>%d\<close> (but of the least integer), \<open>%u\<close>, \<open>%x\<close>, \<open>%s\<close>, \<open>%c\<close> (but of NUL) and the extended \<open>%[u8]\<close> (\<open>fmt_item\<close>).  A string of any length printed by \<open>%s\<close> alone is given
  whole, unless it has 127 characters, when its last one is lost; and a format without conversions is cut after 127 characters, because the engine
  reports the room it used, and the buffer does not grow.
\<close>

theorem AG_Printf_exact:
  assumes "bufs \<noteq> []"
  shows "(list_all (item_ok cp M) is \<and> length (text_of cp is) \<le> 126 \<longrightarrow>
      (\<exists>b. AG_Printf cp (builtin_exts cp @ E) M J (fmt_of is @ NUL # r) (args_of is) bufs = Some (text_of cp is @ NUL # b, bufs[0 := Some (text_of cp is @ NUL # b)]))) \<and>
    (nonul s \<longrightarrow> (\<exists>b. AG_Printf cp (builtin_exts cp @ E) M J (''%s'' @ NUL # r) [A_str (s @ [NUL])] bufs =
      Some ((if length s = 127 then butlast s else s) @ NUL # b, bufs[0 := Some ((if length s = 127 then butlast s else s) @ NUL # b)]))) \<and>
    (nonul s \<and> CHR ''%'' \<notin> set s \<and> 127 \<le> length s \<longrightarrow> (\<exists>b. AG_Printf cp (builtin_exts cp @ E) M J (s @ NUL # r) ap bufs =
      Some (take 127 s @ NUL # b, bufs[0 := Some (take 127 s @ NUL # b)])))"
proof (intro conjI impI)
  have w: "wr bufs 0 x = Some (bufs[0 := x])" for x using assms by (simp add: wr_def)
  let ?E = "builtin_exts cp @ E" and ?d = "replicate 128 J"
  have P: "AG_Printf cp ?E M J fmt ap bufs = Some (b, bufs[0 := Some b])" if "printf_loop cp ?E M J fmt ap ?d = Some b" for fmt ap b
    using that w by (simp add: AG_Printf_def AG_FMTSTRING_BUFFER_INIT_def)
  show "\<exists>b. AG_Printf cp ?E M J (fmt_of is @ NUL # r) (args_of is) bufs = Some (text_of cp is @ NUL # b, bufs[0 := Some (text_of cp is @ NUL # b)])"
    if "list_all (item_ok cp M) is \<and> length (text_of cp is) \<le> 126"
    using that DoPrintf_items [of cp M "is" 127 "?d[0 := NUL]" E r] P printf_loop_fits [of cp ?E M ?d "fmt_of is @ NUL # r" "args_of is"] by fastforce
  show "\<exists>b. AG_Printf cp ?E M J (s @ NUL # r) ap bufs = Some (take 127 s @ NUL # b, bufs[0 := Some (take 127 s @ NUL # b)])"
    if "nonul s \<and> CHR ''%'' \<notin> set s \<and> 127 \<le> length s"
    using that DoPrintf_long_text [of s 127 "?d[0 := NUL]" cp ?E M r ap] P printf_loop_fits [of cp ?E M ?d "s @ NUL # r" ap] by fastforce
  show "\<exists>b. AG_Printf cp ?E M J (''%s'' @ NUL # r) [A_str (s @ [NUL])] bufs =
      Some ((if length s = 127 then butlast s else s) @ NUL # b, bufs[0 := Some ((if length s = 127 then butlast s else s) @ NUL # b)])" if s: "nonul s"
  proof -
    let ?f = "''%s'' @ NUL # r" and ?a = "[A_str (s @ [NUL])]"
    consider "length s \<le> 126" | "length s = 127" | "128 \<le> length s" by linarith
    then have "\<exists>b. printf_loop cp ?E M J ?f ?a ?d = Some ((if length s = 127 then butlast s else s) @ NUL # b)"
    proof cases
      case 1
      then show ?thesis using s DoPrintf_items [of cp M "[I_str s]" 127 "?d[0 := NUL]" E r] printf_loop_fits [of cp ?E M ?d ?f ?a] by fastforce
    next
      case 2
      then show ?thesis using s DoPrintf_str_exact [of s "?d[0 := NUL]" cp ?E M r "[]"] printf_loop_fits [of cp ?E M ?d ?f ?a] by fastforce
    next
      case 3
      then obtain d where d: "AG_DoPrintf cp ?E M (?d[0 := NUL]) 128 ?f ?a = Some (d, length s)" "length d = 128"
        using s DoPrintf_str_long [of s 127 "?d[0 := NUL]" cp ?E M r "[]"] by auto
      let ?b = "d @ replicate (length s + 128 - length d) J"
      have l: "length ?b = length s + 128" using d(2) 3 by simp
      obtain d' where "AG_DoPrintf cp ?E M (?b[0 := NUL]) (length ?b) ?f ?a = Some (s @ NUL # d', length s)"
        using s l DoPrintf_items [of cp M "[I_str s]" "length s + 127" "?b[0 := NUL]" E r] by (auto simp: add.commute)
      then show ?thesis using printf_loop_grows [of cp ?E M ?d ?f ?a d "length s" J] printf_loop_fits [of cp ?E M ?b ?f ?a] d 3 l by auto
    qed
    then show ?thesis using P by blast
  qed
qed

theorem AG_Printf_exact_witness:
  "\<exists>b. AG_Printf (\<lambda>spec v. []) (builtin_exts (\<lambda>spec v. []) @ []) (\<lambda>a. None) NUL (''n = %d'' @ NUL # []) [A_int 42] (replicate 8 None) =
     Some (''n = 42'' @ NUL # b, (replicate 8 None)[0 := Some (''n = 42'' @ NUL # b)])"
proof -
  let ?is = "[I_lit CHR ''n'', I_lit CHR '' '', I_lit CHR ''='', I_lit CHR '' '', I_dec 42]"
  have "dec_int (sint (42 :: 32 word)) = ''42''" by code_simp
  then have "text_of (\<lambda>spec v. []) ?is = ''n = 42''" by simp
  then show ?thesis
    using AG_Printf_exact [of "replicate 8 None" "\<lambda>spec v. []" "\<lambda>a. None" ?is "[]" NUL "[]" "[]" "[]"] by simp
qed

section \<open>Deferred formatting\<close>

text \<open>An element and the address of its value.\<close>

fun located :: "fmt_mem \<Rightarrow> fmt_item \<times> nat \<Rightarrow> bool" where
  "located M (I_dec w, a) \<longleftrightarrow> M a = Some (M_word w)" | "located M (I_uns w, a) \<longleftrightarrow> M a = Some (M_word w)"
| "located M (I_hex w, a) \<longleftrightarrow> M a = Some (M_word w)" | "located M (I_str s, a) \<longleftrightarrow> M a = Some (M_chars (s @ [NUL]))"
| "located M (I_chr c, a) \<longleftrightarrow> (\<exists>r. M a = Some (M_chars (c # r)))" | "located M (I_u8 b w, a) \<longleftrightarrow> a = b"
| "located M (_, a) \<longleftrightarrow> True"

definition item_ptr :: "fmt_item \<times> nat \<Rightarrow> nat option list" where
  "item_ptr = (\<lambda>(i, a). if item_args i = [] then [] else [Some a])"

definition ptrs_of :: "(fmt_item \<times> nat) list \<Rightarrow> nat option list" where "ptrs_of ias = concat (map item_ptr ias)"

lemma ptrs_of_simps [simp]: "ptrs_of [] = []" "ptrs_of (ia # ias) = item_ptr ia @ ptrs_of ias"
  by (simp_all add: ptrs_of_def)

lemma process_loop_spec:
  assumes "process_spec cp E M e dst p (n # g) fs = Some (fs', d, rv, f)" and "n \<noteq> NUL" and "p + rv \<le> e"
  shows "process_loop cp E M e dst p (CHR ''%'' # n # g) fs = process_loop cp E M e d (p + rv) f fs'"
  using assms by (simp add: process_loop.simps(2) [of _ _ _ _ _ _ "CHR ''%''"] rd_def)

lemma FSARG_ok: "rd (fs_p fs) (fs_curArg fs) = Some (Some a) \<Longrightarrow> M a = Some ob \<Longrightarrow> FSARG M fs = Some (ob, fs\<lparr>fs_curArg := fs_curArg fs + 1\<rparr>)"
  by (simp add: FSARG_def AG_FMTSTRING_ARG_def)

lemma process_spec_item:
  assumes "item_ok cp M i" and "located M (i, a)" and "p + length (item_text cp i) < e" and "e < length dst" and "item_fmt i = CHR ''%'' # g"
    and "item_args i \<noteq> [] \<Longrightarrow> rd (fs_p fs) (fs_curArg fs) = Some (Some a)"
  shows "\<exists>d. process_spec cp (builtin_exts cp @ E) M e dst p (g @ f) fs =
      Some (fs\<lparr>fs_curArg := fs_curArg fs + length (item_args i)\<rparr>, d, length (item_text cp i), f) \<and> put dst p (item_text cp i) d"
proof (cases i)
  case I_pct
  then show ?thesis using assms put_wr [of p dst "CHR ''%''"] by auto
next
  case (I_dec w)
  then have "writes (\<lambda>b. AG_StrlcpyInt b (sint w)) (item_text cp i)" using assms(1) by (simp add: writes_StrlcpyInt sint_int_ok)
  from at_ptr_writes [OF this assms(3,4)] show ?thesis using I_dec assms(2,5,6) by (auto simp: FSARG_ok)
next
  case (I_uns w)
  then have "writes (\<lambda>b. AG_StrlcpyUint b (unat w)) (item_text cp i)" by (simp add: writes_StrlcpyUint)
  from at_ptr_writes [OF this assms(3,4)] show ?thesis using I_uns assms(2,5,6) by (auto simp: FSARG_ok)
next
  case (I_hex w)
  then have "writes (\<lambda>b n. c_snprintf b n (cp ''%x'' (A_int w))) (item_text cp i)" by (simp add: writes_snprintf)
  from at_ptr_writes [OF this assms(3,4)] show ?thesis using I_hex assms(2,5,6) by (auto simp: FSARG_ok p_printf_def)
next
  case (I_str s)
  then have "writes (\<lambda>b. AG_Strlcpy b (s @ [NUL])) (item_text cp i)" using assms(1) writes_Strlcpy [of s "[]"] by simp
  from at_ptr_writes [OF this assms(3,4)] show ?thesis using I_str assms(2,5,6) by (auto simp: FSARG_ok)
next
  case (I_chr c)
  then show ?thesis using assms put_wr [of p dst c] by (auto simp: FSARG_ok rd_def)
next
  case (I_u8 b w)
  then have "writes (\<lambda>b. AG_StrlcpyUint b (unat w)) (item_text cp i)" by (simp add: writes_StrlcpyUint)
  from at_ptr_writes [OF this assms(3,4)] show ?thesis using I_u8 assms(1,2,5,6) find_u8 [of cp E f]
    by (auto simp: at_ptr_def PrintU8_def FSARG_ok bind_eq_Some_conv)
qed (use assms in auto)

lemma process_loop_item:
  assumes "item_ok cp M i" and "located M (i, a)" and "p + length (item_text cp i) < e" and "e < length dst" and "f \<noteq> []"
    and "item_args i \<noteq> [] \<Longrightarrow> rd (fs_p fs) (fs_curArg fs) = Some (Some a)"
  shows "\<exists>d. process_loop cp (builtin_exts cp @ E) M e dst p (item_fmt i @ f) fs =
      process_loop cp (builtin_exts cp @ E) M e d (p + length (item_text cp i)) f (fs\<lparr>fs_curArg := fs_curArg fs + length (item_args i)\<rparr>) \<and>
    put dst p (item_text cp i) d"
proof (cases "\<exists>c. i = I_lit c")
  case True
  then obtain c where i: "i = I_lit c" ..
  obtain x f' where f: "f = x # f'" using assms(5) by (cases f) auto
  then show ?thesis using assms i put_wr [of p dst c] by (auto simp: process_loop.simps(2) [of _ _ _ _ _ _ c] rd_def)
next
  case False
  then obtain n g where g: "item_fmt i = CHR ''%'' # n # g" "n \<noteq> NUL" by (cases i) auto
  from process_spec_item [OF assms(1-4) g(1) assms(6), of E f] show ?thesis
    using process_loop_spec [of cp "builtin_exts cp @ E" M e dst p n "g @ f" fs] g assms(3) by auto
qed

lemma process_loop_items:
  assumes "list_all (\<lambda>ia. item_ok cp M (fst ia) \<and> located M ia) ias" and "p + length (text_of cp (map fst ias)) < e" and "e < length dst" and "f \<noteq> []"
    and "fs_p fs = pre @ ptrs_of ias @ post" and "fs_curArg fs = length pre"
  shows "\<exists>d k. process_loop cp (builtin_exts cp @ E) M e dst p (fmt_of (map fst ias) @ f) fs =
      process_loop cp (builtin_exts cp @ E) M e d (p + length (text_of cp (map fst ias))) f (fs\<lparr>fs_curArg := k\<rparr>) \<and> put dst p (text_of cp (map fst ias)) d"
  using assms
proof (induction ias arbitrary: dst p fs pre)
  case Nil
  show ?case by (rule exI [of _ dst], rule exI [of _ "fs_curArg fs"]) simp
next
  case (Cons ia ias)
  obtain i a where ia: "ia = (i, a)" by (cases ia)
  have "rd (fs_p fs) (fs_curArg fs) = Some (Some a)" if "item_args i \<noteq> []" using Cons.prems(5,6) that ia by (simp add: item_ptr_def rd_append)
  then obtain d where d: "process_loop cp (builtin_exts cp @ E) M e dst p (item_fmt i @ fmt_of (map fst ias) @ f) fs =
      process_loop cp (builtin_exts cp @ E) M e d (p + length (item_text cp i)) (fmt_of (map fst ias) @ f) (fs\<lparr>fs_curArg := fs_curArg fs + length (item_args i)\<rparr>)"
      "put dst p (item_text cp i) d"
    using process_loop_item [of cp M i a p e dst "fmt_of (map fst ias) @ f" fs E] Cons.prems ia by auto
  have k: "length (item_args i) = length (item_ptr ia)" using ia by (cases i) (simp_all add: item_ptr_def)
  show ?case using Cons.IH [of "p + length (item_text cp i)" d "fs\<lparr>fs_curArg := fs_curArg fs + length (item_args i)\<rparr>" "pre @ item_ptr ia"] Cons.prems d ia k
    by (auto simp: put_def add.assoc)
qed

text \<open>The pointers are taken in the order of the elements.\<close>

lemma take_args_items:
  assumes "list_all (\<lambda>ia. item_ok cp M (fst ia)) ias" and "fs_n fs + length (ptrs_of ias) < AG_STRING_POINTERS_MAX"
  shows "\<exists>mu n. take_args (fmt_of (map fst ias) @ NUL # r) None (ptrs_of ias @ ap) fs = Some (fs\<lparr>fs_p := fs_p fs @ ptrs_of ias, fs_mu := mu, fs_n := n\<rparr>)"
  using assms
proof (induction ias arbitrary: fs)
  case Nil
  have "take_args (NUL # r) None ap fs = Some fs" by (cases r) auto
  then show ?case by (auto intro!: exI [of _ "fs_mu fs"] exI [of _ "fs_n fs"])
next
  case (Cons ia ias)
  obtain i a where ia: "ia = (i, a)" by (cases ia)
  obtain x g where g: "fmt_of (map fst ias) @ NUL # r = x # g" by (cases "fmt_of (map fst ias) @ NUL # r") auto
  have step: "take_args (item_fmt i @ x # g) None (item_ptr ia @ ps) fs =
      take_args (x # g) None ps (if item_args i = [] then fs else fs\<lparr>fs_p := fs_p fs @ [Some a], fs_mu := fs_mu fs @ [None], fs_n := fs_n fs + 1\<rparr>)" for ps
    using Cons.prems ia by (cases i) (auto simp: item_ptr_def AG_STRING_POINTERS_MAX_def)
  show ?case using Cons.IH [of "if item_args i = [] then fs else fs\<lparr>fs_p := fs_p fs @ [Some a], fs_mu := fs_mu fs @ [None], fs_n := fs_n fs + 1\<rparr>"]
      Cons.prems ia g step [of "ptrs_of ias @ ap"] by (auto simp: item_ptr_def)
qed

text \<open>
  C39: deferred formatting agrees with direct formatting on formats of characters, \<open>%%\<close>, \<open>%d\<close> (but of the least integer), \<open>%u\<close>, \<open>%x\<close>, \<open>%s\<close>, \<open>%c\<close> (but of NUL) and the
  extended \<open>%[u8]\<close> (\<open>fmt_item\<close>), with fewer than \<open>AG_STRING_POINTERS_MAX\<close> arguments: when the pointers given to \<open>AG_PrintfP\<close> refer to the values given to
  \<open>AG_DoPrintf\<close>, and there is room for the text, \<open>AG_ProcessFmtString\<close> writes the same string as \<open>AG_DoPrintf\<close> and gives the same length.
  On other conversions the two disagree: \<open>%f\<close> and \<open>%lf\<close> print two decimals when deferred and six when direct (\<open>float_deferred\<close>),
  and \<open>%ld\<close> is not known when deferred (\<open>process_long_int\<close>).
\<close>

theorem AG_ProcessFmtString_agrees:
  assumes "list_all (\<lambda>ia. item_ok cp M (fst ia) \<and> located M ia) ias" and "length (ptrs_of ias) < AG_STRING_POINTERS_MAX"
    and "length (text_of cp (map fst ias)) < e" and "e < length dst"
  shows "\<exists>fs fs' d d'. AG_PrintfP (fmt_of (map fst ias) @ [NUL]) (ptrs_of ias) = Some fs \<and>
    AG_ProcessFmtString cp (builtin_exts cp @ E) M fs dst (Suc e) = Some (fs', text_of cp (map fst ias) @ NUL # d, length (text_of cp (map fst ias))) \<and>
    AG_DoPrintf cp (builtin_exts cp @ E) M dst (Suc e) (fmt_of (map fst ias) @ [NUL]) (args_of (map fst ias)) =
      Some (text_of cp (map fst ias) @ NUL # d', length (text_of cp (map fst ias)))"
proof -
  let ?is = "map fst ias" and ?fs = "\<lparr>fs_s = Some (fmt_of (map fst ias) @ [NUL]), fs_p = [], fs_mu = [], fs_n = 0, fs_curArg = 0\<rparr>"
  have ok: "list_all (item_ok cp M) ?is" "list_all (\<lambda>ia. item_ok cp M (fst ia)) ias" using assms(1) by (auto simp: list_all_iff)
  have "nonul (fmt_of ?is)" using ok(1)
  proof (induction ?is arbitrary: ias)
    case (Cons i "is")
    then show ?case by (cases ias; cases i) auto
  qed simp
  then have c: "AG_PrintfP (fmt_of ?is @ [NUL]) (ptrs_of ias) = take_args (fmt_of ?is @ [NUL]) None (ptrs_of ias) ?fs"
    by (simp add: AG_PrintfP_def)
  obtain mu n where a: "AG_PrintfP (fmt_of ?is @ [NUL]) (ptrs_of ias) = Some (?fs\<lparr>fs_p := ptrs_of ias, fs_mu := mu, fs_n := n\<rparr>)"
    using take_args_items [OF ok(2), of ?fs "[]" "[]"] assms(2) c by auto
  let ?f = "?fs\<lparr>fs_p := ptrs_of ias, fs_mu := mu, fs_n := n\<rparr>"
  have w: "wr dst 0 NUL = Some (dst[0 := NUL])" using assms(4) by (auto simp: wr_def)
  obtain d k where d: "process_loop cp (builtin_exts cp @ E) M e (dst[0 := NUL]) 0 (fmt_of ?is @ [NUL]) ?f =
      process_loop cp (builtin_exts cp @ E) M e d (0 + length (text_of cp ?is)) [NUL] (?f\<lparr>fs_curArg := k\<rparr>)" "put (dst[0 := NUL]) 0 (text_of cp ?is) d"
    using process_loop_items [OF assms(1), of 0 e "dst[0 := NUL]" "[NUL]" ?f "[]" "[]" E] assms(3,4) by auto
  obtain b where "wr d (length (text_of cp ?is)) NUL = Some b" "b = text_of cp ?is @ NUL # drop (length (text_of cp ?is) + 1) d"
    using put_cstr [OF d(2) text_nonul [OF ok(1)]] assms(3,4) by auto
  then have "\<exists>fs' d. AG_ProcessFmtString cp (builtin_exts cp @ E) M ?f dst (Suc e) = Some (fs', text_of cp ?is @ NUL # d, length (text_of cp ?is))"
    using d(1) w assms(3) by (auto simp: AG_ProcessFmtString_def Let_def process_loop.simps(2))
  then show ?thesis using a DoPrintf_items [OF ok(1) assms(3,4), of E "[]"] by blast
qed

theorem AG_ProcessFmtString_agrees_witness:
  "\<exists>fs fs' d d'. AG_PrintfP (''%s: %d'' @ [NUL]) [Some 1, Some 2] = Some fs \<and>
    AG_ProcessFmtString (\<lambda>spec v. []) (builtin_exts (\<lambda>spec v. []) @ []) [1 \<mapsto> M_chars (''n'' @ [NUL]), 2 \<mapsto> M_word 42] fs (replicate 20 NUL) (Suc 15) =
      Some (fs', ''n: 42'' @ NUL # d, length ''n: 42'') \<and>
    AG_DoPrintf (\<lambda>spec v. []) (builtin_exts (\<lambda>spec v. []) @ []) [1 \<mapsto> M_chars (''n'' @ [NUL]), 2 \<mapsto> M_word 42] (replicate 20 NUL) (Suc 15) (''%s: %d'' @ [NUL])
      [A_str (''n'' @ [NUL]), A_int 42] = Some (''n: 42'' @ NUL # d', length ''n: 42'')"
proof -
  let ?is = "[(I_str ''n'', 1), (I_lit CHR '':'', 0), (I_lit CHR '' '', 0), (I_dec 42, 2)]"
  have "dec_int (sint (42 :: 32 word)) = ''42''" by code_simp
  then have t: "text_of (\<lambda>spec v. []) (map fst ?is) = ''n: 42''" by simp
  have "list_all (\<lambda>ia. item_ok (\<lambda>spec v. []) [1 \<mapsto> M_chars (''n'' @ [NUL]), 2 \<mapsto> M_word 42] (fst ia) \<and> located [1 \<mapsto> M_chars (''n'' @ [NUL]), 2 \<mapsto> M_word 42] ia) ?is"
    by simp
  from AG_ProcessFmtString_agrees [OF this, of 15 "replicate 20 NUL" "[]"] show ?thesis
    using t by (simp add: AG_STRING_POINTERS_MAX_def item_ptr_def)
qed

section \<open>Bounds\<close>

text \<open>Routines that write within the size they are given, and keep the rest.\<close>

definition confined :: "(char list \<Rightarrow> nat \<Rightarrow> (char list \<times> nat) option) \<Rightarrow> bool" where
  "confined f \<longleftrightarrow> (\<forall>b n b' rv. n \<le> length b \<longrightarrow> f b n = Some (b', rv) \<longrightarrow> length b' = length b \<and> drop n b' = drop n b)"

lemma scan_nul_unterminated: "NUL \<notin> set s \<Longrightarrow> scan_nul s = None"
  by (induction s) auto

lemma strlcpy_copy_unterminated:
  "NUL \<notin> set s \<Longrightarrow> strlcpy_copy dst d s n = Some (dst', d', s', n') \<Longrightarrow> NUL \<notin> set s' \<and> n' = 0"
  by (induction s arbitrary: dst d n) (auto simp: bind_eq_Some_conv split: if_splits)

lemma AG_Strlcpy_unterminated:
  assumes "NUL \<notin> set s"
  shows "AG_Strlcpy dst s n = None"
proof (cases "n \<noteq> 0 \<and> n - 1 \<noteq> 0")
  case True
  show ?thesis
  proof (cases "strlcpy_copy dst 0 s (n - 1)")
    case (Some a)
    then obtain dst' d' s' n' where a: "strlcpy_copy dst 0 s (n - 1) = Some (dst', d', s', n')" by (cases a) auto
    then have "scan_nul s' = None" "n' = 0" using strlcpy_copy_unterminated [OF assms] scan_nul_unterminated by blast+
    then show ?thesis using True a by (cases "wr dst' d' NUL") (simp_all add: AG_Strlcpy_def)
  qed (use True in \<open>simp add: AG_Strlcpy_def\<close>)
next
  case False
  then show ?thesis using scan_nul_unterminated [OF assms] by (cases "wr dst 0 NUL") (auto simp: AG_Strlcpy_def)
qed

lemma drop_behind: "k < n \<Longrightarrow> drop (n - k) (c # drop (Suc k) b) = drop n b"
  by (simp add: drop_Cons' add.commute)

lemma confined_Strlcpy: "confined (\<lambda>b. AG_Strlcpy b s)"
proof -
  have "length b' = length b \<and> drop n b' = drop n b" if "n \<le> length b" "AG_Strlcpy b s n = Some (b', rv)" for b n b' rv
  proof (cases "terminated s")
    case True
    then obtain r where s: "s = cstr s @ NUL # r" by (rule terminated_split)
    show ?thesis
    proof (cases "n = 0")
      case True
      then show ?thesis using that s by (metis AG_Strlcpy_zero nonul_cstr option.sel prod.sel(1))
    next
      case False
      then have "b' = take (n - 1) (cstr s) @ NUL # drop (Suc (min (n - 1) (length (cstr s)))) b"
        using AG_Strlcpy_spec [of "cstr s" n b r] that s by simp
      then show ?thesis using that(1) False by (auto simp: min_def drop_behind)
    qed
  next
    case False
    then show ?thesis using that AG_Strlcpy_unterminated by (auto simp: terminated_def)
  qed
  then show ?thesis by (auto simp: confined_def)
qed

lemma confined_snprintf: "confined (\<lambda>b n. c_snprintf b n t)"
  by (auto simp: confined_def c_snprintf_def blit_def drop_behind min_less_iff_disj split: if_splits)

lemma confined_StrlcpyUint: "confined (\<lambda>b. AG_StrlcpyUint b v)"
proof -
  have "length b' = length b \<and> drop n b' = drop n b" if "n \<le> length b" "AG_StrlcpyUint b v n = Some (b', rv)" for b n b' rv
  proof (cases "n = 0")
    case True
    then show ?thesis using that by (simp add: AG_StrlcpyUint_def)
  next
    case False
    then show ?thesis using that AG_StrlcpyUint_spec [of n b v] by (auto simp: Let_def drop_behind split: if_splits)
  qed
  then show ?thesis by (auto simp: confined_def)
qed

lemma confined_StrlcpyInt:
  assumes "- (2 ^ 31) \<le> v" and "v < 2 ^ 31"
  shows "confined (\<lambda>b. AG_StrlcpyInt b v)"
proof -
  have "length b' = length b \<and> drop n b' = drop n b" if b: "n \<le> length b" "AG_StrlcpyInt b v n = Some (b', rv)" for b n b' rv
  proof (cases "n = 0")
    case True
    then show ?thesis using b by (simp add: AG_StrlcpyInt_def)
  next
    case False
    then have "v \<noteq> - (2 ^ 31)" using b AG_StrlcpyInt_min [of n b] by auto
    then have "int_ok v" using assms by (simp add: int_ok_def)
    then show ?thesis using b False AG_StrlcpyInt_spec [of n b v] by (auto simp: Let_def drop_behind split: if_splits)
  qed
  then show ?thesis by (auto simp: confined_def)
qed

lemma confined_sint: "confined (\<lambda>b. AG_StrlcpyInt b (sint (w :: 32 word)))"
  using sint_range_size [of w] by (intro confined_StrlcpyInt) (simp_all add: word_size)

lemma confined_sint16: "confined (\<lambda>b. AG_StrlcpyInt b (sint (w :: 16 word)))"
  using sint_range_size [of w] by (intro confined_StrlcpyInt) (simp_all add: word_size)

lemma confined_sint8: "confined (\<lambda>b. AG_StrlcpyInt b (sint (w :: 8 word)))"
  using sint_range_size [of w] by (intro confined_StrlcpyInt) (simp_all add: word_size)

lemma confined_if: "confined f \<Longrightarrow> confined g \<Longrightarrow> confined (\<lambda>b n. if c then f b n else g b n)"
  by (cases c) simp_all

lemma confined_None: "confined (\<lambda>b n. None)" by (simp add: confined_def)

lemmas confined_rules = confined_Strlcpy confined_snprintf confined_StrlcpyUint confined_sint confined_sint16 confined_sint8 confined_if confined_None

text \<open>The extensions are confined if their functions are, whatever they take.\<close>

definition fits :: "char list \<Rightarrow> nat \<Rightarrow> AG_FmtString \<times> char list \<times> nat \<Rightarrow> bool" where
  "fits b n = (\<lambda>(fs, b', rv). length b' = length b \<and> drop n b' = drop n b)"

definition fn_confined :: "fmt_fn \<Rightarrow> bool" where
  "fn_confined fn \<longleftrightarrow> (\<forall>M fs b n. n \<le> length b \<longrightarrow> holds (fits b n) (fn M fs b n))"

definition exts_confined :: "AG_FmtStringExt list \<Rightarrow> bool" where
  "exts_confined E \<longleftrightarrow> (\<forall>x \<in> set E. fn_confined (ex_fn x))"

lemma confinedD: "confined f \<Longrightarrow> f b n = Some (b', rv) \<Longrightarrow> n \<le> length b \<Longrightarrow> length b' = length b \<and> drop n b' = drop n b"
  by (auto simp: confined_def)

lemma fits_rules:
  "AG_StrlcpyUint b v n = Some r \<Longrightarrow> r = (b', rv) \<Longrightarrow> n \<le> length b \<Longrightarrow> fits b n (fs, b', rv)"
  "AG_StrlcpyInt b (sint (w1 :: 32 word)) n = Some r \<Longrightarrow> r = (b', rv) \<Longrightarrow> n \<le> length b \<Longrightarrow> fits b n (fs, b', rv)"
  "AG_StrlcpyInt b (sint (w2 :: 16 word)) n = Some r \<Longrightarrow> r = (b', rv) \<Longrightarrow> n \<le> length b \<Longrightarrow> fits b n (fs, b', rv)"
  "AG_StrlcpyInt b (sint (w3 :: 8 word)) n = Some r \<Longrightarrow> r = (b', rv) \<Longrightarrow> n \<le> length b \<Longrightarrow> fits b n (fs, b', rv)"
  "c_snprintf b n t = Some r \<Longrightarrow> r = (b', rv) \<Longrightarrow> n \<le> length b \<Longrightarrow> fits b n (fs, b', rv)"
  "AG_Strlcpy b s n = Some r \<Longrightarrow> r = (b', rv) \<Longrightarrow> n \<le> length b \<Longrightarrow> fits b n (fs, b', rv)"
  using confinedD [OF confined_StrlcpyUint, of b v n b' rv] confinedD [OF confined_sint, of b w1 n b' rv] confinedD [OF confined_sint16, of b w2 n b' rv]
    confinedD [OF confined_sint8, of b w3 n b' rv] confinedD [OF confined_snprintf, of b n t b' rv] confinedD [OF confined_Strlcpy, of b s n b' rv]
  unfolding fits_def by blast+

lemma fn_confined_builtin: "fn_confined PrintU8" "fn_confined PrintS8" "fn_confined PrintU16" "fn_confined PrintS16" "fn_confined PrintU32" "fn_confined PrintS32"
  "fn_confined (PrintU64 cp)" "fn_confined (PrintS64 cp)" "fn_confined PrintOBJNAME" "fn_confined PrintOBJTYPE"
  unfolding fn_confined_def PrintU8_def PrintS8_def PrintU16_def PrintS16_def PrintU32_def PrintS32_def PrintU64_def PrintS64_def PrintOBJNAME_def PrintOBJTYPE_def
  by (intro allI impI holds_rules; (erule (2) fits_rules(1) | erule (2) fits_rules(2) | erule (2) fits_rules(3) | erule (2) fits_rules(4) | erule (2) fits_rules(5) | erule (2) fits_rules(6)))+

lemma builtin_confined: "exts_confined (builtin_exts cp)"
  by (simp add: exts_confined_def AG_InitStringSubsystem_def AG_RegisterFmtStringExt_def fn_confined_builtin)

lemma exts_confined_append: "exts_confined (E @ F) \<longleftrightarrow> exts_confined E \<and> exts_confined F"
  by (auto simp: exts_confined_def)

lemma find_ext_in: "find_ext E g = Some x \<Longrightarrow> x \<in> set E"
  by (induction E) (auto split: if_splits)

text \<open>What is behind the buffer stays.\<close>

definition same_after :: "nat \<Rightarrow> char list \<Rightarrow> char list \<Rightarrow> bool" where
  "same_after e dst d \<longleftrightarrow> length d = length dst \<and> drop (e + 1) d = drop (e + 1) dst"

lemma same_after_refl [simp]: "same_after e d d" by (simp add: same_after_def)

lemma same_after_trans: "same_after e a b \<Longrightarrow> same_after e b c \<Longrightarrow> same_after e a c" by (simp add: same_after_def)

lemma same_after_wr: "wr dst p c = Some d \<Longrightarrow> p \<le> e \<Longrightarrow> same_after e dst d"
  by (auto simp: wr_def same_after_def split: if_splits)

lemma same_after_at_ptr:
  assumes "confined f" and "at_ptr dst p (e - p) f = Some (d, rv)" and "p \<le> e" and "e < length dst"
  shows "same_after e dst d"
proof -
  obtain b where b: "f (drop p dst) (e - p) = Some (b, rv)" "d = take p dst @ b" using assms(2) by (auto simp: at_ptr_def bind_eq_Some_conv)
  then have c: "length b = length dst - p" "drop (e - p) b = drop e dst" using confinedD [OF assms(1) b(1)] assms(3,4) by auto
  have "drop (e + 1) d = drop 1 (drop (e - p) b)" using b(2) assms(3,4) by (simp add: min_def Suc_diff_le)
  then show ?thesis using b(2) c assms(3,4) by (simp add: same_after_def)
qed

definition conv_after :: "nat \<Rightarrow> char list \<Rightarrow> converted \<Rightarrow> bool" where
  "conv_after e dst = (\<lambda>(d, rv, ap, f, out). same_after e dst d)"

lemma conv_after_same: "same_after e dst d \<Longrightarrow> conv_after e dst (d, rv, ap, f, out)" by (simp add: conv_after_def)

lemma conv_after_wr: "wr dst k c = Some d \<Longrightarrow> k \<le> e \<Longrightarrow> conv_after e dst (d, rv, ap, f, out)"
  by (simp add: conv_after_def same_after_wr)

lemma conv_after_at:
  "at_ptr dst p (e - p) h = Some v \<Longrightarrow> v = (d, rv) \<Longrightarrow> p \<le> e \<Longrightarrow> e < length dst \<Longrightarrow> confined h \<Longrightarrow> conv_after e dst (d, rv, ap, f, out)"
  by (simp add: conv_after_def same_after_at_ptr)

lemma conv_same:
  assumes "p \<le> e" and "e < length dst"
  shows "holds (conv_after e dst) (conv_long cp e dst p spec g ap)" "holds (conv_after e dst) (conv_double cp e dst p spec g ap)"
    "holds (conv_after e dst) (do_char e dst p h g ap)"
proof -
  show "holds (conv_after e dst) (conv_long cp e dst p spec g ap)" unfolding conv_long_def
    by (intro holds_rules; erule conv_after_at) (use assms in \<open>auto intro: confined_rules\<close>)
  show "holds (conv_after e dst) (conv_double cp e dst p spec g ap)" unfolding conv_double_def
    by (intro holds_rules; erule conv_after_at) (use assms in \<open>auto intro: confined_rules\<close>)
  show "holds (conv_after e dst) (do_char e dst p h g ap)" unfolding do_char_def
    by (intro holds_rules; erule conv_after_wr) (use assms in auto)
qed

lemma do_ext_same:
  assumes "exts_confined E" and "p \<le> e" and "e < length dst"
  shows "holds (conv_after e dst) (do_ext E M e dst p g ap)"
proof (cases "find_ext E g")
  case (Some x)
  have c: "confined (\<lambda>b n. ex_fn x M fs b n \<bind> (\<lambda>(fs, b, rv). Some (b, rv)))" for fs
    using assms(1) find_ext_in [OF Some] by (fastforce simp: confined_def exts_confined_def fn_confined_def fits_def holds_def bind_eq_Some_conv)
  show ?thesis unfolding do_ext_def Some option.case
    by (intro holds_rules; erule conv_after_at) (use assms c in auto)
qed (simp add: do_ext_def holds_def conv_after_def)

lemma do_long_long_same:
  assumes "p \<le> e" and "e < length dst"
  shows "holds (conv_after e dst) (do_long_long cp e dst p spec g ap)"
proof (cases g)
  case (Cons c g')
  show ?thesis unfolding Cons do_long_long.simps by (intro holds_rules conv_same [OF assms] conv_after_same same_after_refl)
qed (simp add: holds_None)

lemma do_long_same:
  assumes "p \<le> e" and "e < length dst"
  shows "holds (conv_after e dst) (do_long cp e dst p spec g ap)"
proof (cases g)
  case (Cons c g')
  show ?thesis unfolding Cons do_long.simps by (intro holds_rules conv_same [OF assms] do_long_long_same [OF assms] conv_after_same same_after_refl)
qed (simp add: holds_None)

lemma do_spec_same:
  assumes "exts_confined E" and "p \<le> e" and "e < length dst"
  shows "holds (conv_after e dst) (do_spec cp E M e dst p spec g ap)"
proof (induction g arbitrary: spec)
  case (Cons c g)
  show ?case unfolding do_spec.simps
    by (intro holds_rules conv_same [OF assms(2,3)] do_ext_same [OF assms] do_long_same [OF assms(2,3)] Cons.IH; (rule conv_after_same, rule same_after_refl)?;
        erule (1) conv_after_at; (rule assms)?; intro confined_rules)
qed (simp add: do_spec.simps holds_None)

definition proc_after :: "nat \<Rightarrow> char list \<Rightarrow> processed \<Rightarrow> bool" where
  "proc_after e dst = (\<lambda>(fs, d, rv, f). same_after e dst d)"

lemma proc_after_same: "same_after e dst d \<Longrightarrow> proc_after e dst (fs, d, rv, f)" by (simp add: proc_after_def)

lemma proc_after_wr: "wr dst k c = Some d \<Longrightarrow> k \<le> e \<Longrightarrow> proc_after e dst (fs, d, rv, f)"
  by (simp add: proc_after_def same_after_wr)

lemma proc_after_at:
  "at_ptr dst p (e - p) h = Some v \<Longrightarrow> v = (d, rv) \<Longrightarrow> p \<le> e \<Longrightarrow> e < length dst \<Longrightarrow> confined h \<Longrightarrow> proc_after e dst (fs, d, rv, f)"
  by (simp add: proc_after_def same_after_at_ptr)

lemma p_printf_same:
  assumes "p \<le> e" and "e < length dst"
  shows "holds (proc_after e dst) (p_printf cp e dst p spec v fs g)"
  unfolding p_printf_def by (intro holds_rules; erule proc_after_at) (use assms in \<open>auto intro: confined_rules\<close>)

lemma ProcessFmtString64_same:
  assumes "p \<le> e" and "e < length dst"
  shows "holds (proc_after e dst) (ProcessFmtString64 cp M e dst p g fs)"
proof (cases g)
  case (Cons c g')
  show ?thesis unfolding Cons ProcessFmtString64.simps by (intro holds_rules p_printf_same [OF assms] proc_after_same same_after_refl)
qed (simp add: holds_None)

lemma process_long_same:
  assumes "p \<le> e" and "e < length dst"
  shows "holds (proc_after e dst) (process_long cp M e dst p g fs)"
proof (cases g)
  case (Cons c g')
  show ?thesis unfolding Cons process_long.simps
    by (intro holds_rules p_printf_same [OF assms] ProcessFmtString64_same [OF assms] proc_after_same same_after_refl)
qed (simp add: holds_None)

lemma ext_call_same:
  assumes "exts_confined E" and "find_ext E g = Some x" and "ex_fn x M fs (drop p dst) (e - p) = Some v" and "v = (fs', r)" and "r = (b, rv)" and "p \<le> e" and "e < length dst"
  shows "proc_after e dst (fs', take p dst @ b, rv, f)"
proof -
  have "fits (drop p dst) (e - p) (fs', b, rv)" using assms find_ext_in [OF assms(2)] by (auto simp: exts_confined_def fn_confined_def holds_def)
  then have c: "length b = length dst - p" "drop (e - p) b = drop e dst" using assms(6,7) by (simp_all add: fits_def)
  have "drop (e + 1) (take p dst @ b) = drop 1 (drop (e - p) b)" using assms(6,7) by (simp add: min_def Suc_diff_le)
  then show ?thesis using c assms(6,7) by (simp add: proc_after_def same_after_def)
qed

lemma process_spec_same:
  assumes "exts_confined E" and "p \<le> e" and "e < length dst"
  shows "holds (proc_after e dst) (process_spec cp E M e dst p g fs)"
proof (cases g)
  case (Cons c g')
  show ?thesis unfolding Cons process_spec.simps
    by (intro holds_rules p_printf_same [OF assms(2,3)] process_long_same [OF assms(2,3)]; (rule proc_after_same, rule same_after_refl)?;
        ((erule (1) proc_after_at; (rule assms)?; intro confined_rules) | (erule proc_after_wr, rule assms) | (erule (3) ext_call_same [OF assms(1)]; rule assms)))
qed (simp add: holds_None)

text \<open>The loops stay in the buffer.\<close>

lemma same_after_then:
  assumes "same_after e dst d" and "e < length d \<Longrightarrow> holds (\<lambda>x. same_after e d (h x)) y" and "e < length dst"
  shows "holds (\<lambda>x. same_after e dst (h x)) y"
  using assms by (auto simp: holds_def same_after_def)

lemma fmt_loop_same:
  assumes "exts_confined E" and "p \<le> e" and "e < length dst"
  shows "holds (\<lambda>r. same_after e dst (fst r)) (fmt_loop cp E M e dst p f ap)"
  using assms
proof (induction cp E M e dst p f ap rule: fmt_loop.induct)
  case (2 cp E M e dst p c g ap)
  have conv: "same_after e dst d" if "do_spec cp E M e dst p ''%'' g ap = Some (d, r)" for d r
    using holdsD [OF that do_spec_same [OF "2.prems"]] by (auto simp: conv_after_def)
  show ?case unfolding fmt_loop.simps
  proof (intro holds_rules, goal_cases)
    case (3 nxt d)
    then show ?case using "2.IH"(1) [of nxt d] "2.prems" by (intro same_after_then [of e dst d] same_after_wr [of dst p c]) auto
  next
    case (5 nxt va d b rv ba ap' bb f out d')
    then show ?case using conv "2.prems" by (auto intro: same_after_trans same_after_wr)
  next
    case (6 nxt va d b rv ba ap' bb f out)
    then have s: "same_after e dst d" using conv [of d "(rv, ap', f, out)"] by simp
    from 6 "2.IH"(2) [of nxt va d b rv ba ap' bb f out] "2.prems" show ?case by (intro same_after_then [OF s]) simp_all
  qed (use "2.prems" conv in \<open>auto intro: same_after_trans [OF same_after_wr same_after_wr]\<close>)
qed (simp add: fmt_loop.simps holds_None)

lemma process_loop_same:
  assumes "exts_confined E" and "p \<le> e" and "e < length dst"
  shows "holds (\<lambda>r. same_after e dst (fst (snd r))) (process_loop cp E M e dst p f fs)"
  using assms
proof (induction cp E M e dst p f fs rule: process_loop.induct)
  case (2 cp E M e dst p c g fs)
  have conv: "same_after e dst d" if "process_spec cp E M e dst p g fs = Some (fs', d, r)" for fs' d r
    using holdsD [OF that process_spec_same [OF "2.prems"]] by (auto simp: proc_after_def)
  show ?case unfolding process_loop.simps
  proof (intro holds_rules, goal_cases)
    case (3 nxt d)
    then show ?case using "2.IH"(1) [of nxt d] "2.prems" by (intro same_after_then [of e dst d] same_after_wr [of dst p c]) auto
  next
    case (4 nxt va fs' b d ba rv f d')
    then show ?case using conv "2.prems" by (auto intro: same_after_trans same_after_wr)
  next
    case (5 nxt va fs' b d ba rv f)
    then have s: "same_after e dst d" using conv [of fs' d "(rv, f)"] by simp
    show ?case by (rule same_after_then [OF s "2.IH"(2) [OF 5(1-4) 5(5-7) [symmetric] 5(8) "2.prems"(1)] "2.prems"(3)]) (use 5(8) in simp)
  next
    case (2 nxt d d')
    have "same_after e dst d" "same_after e d d'" using 2 "2.prems"(2) by (auto intro: same_after_wr)
    then show ?case by (auto intro: same_after_trans)
  qed simp
qed (simp add: process_loop.simps holds_None)

definition well_written :: "nat \<Rightarrow> char list \<Rightarrow> char list \<Rightarrow> bool" where
  "well_written n dst d \<longleftrightarrow> length d = length dst \<and> drop n d = drop n dst \<and> (0 < n \<longrightarrow> NUL \<in> set (take n d))"

lemma well_written_wr:
  assumes "same_after e dst d" and "wr d k NUL = Some d'" and "k \<le> e" and "e < length dst"
  shows "well_written (Suc e) dst d'"
proof -
  have "same_after e dst d'" using same_after_trans [OF assms(1) same_after_wr [OF assms(2,3)]] .
  moreover have "d' ! k = NUL" using assms by (auto simp: wr_def split: if_splits)
  ultimately show ?thesis using assms(3,4) by (auto simp: well_written_def same_after_def in_set_conv_nth intro!: exI [of _ k])
qed

text \<open>
  C40: whatever the format and the arguments, and as long as the registered extensions keep to the room that they are given (the built-in ones do), the
  engine writes nothing behind the buffer, and leaves a terminator in it.
\<close>

theorem AG_DoPrintf_bounded:
  assumes "exts_confined E" and "n \<le> length dst"
  shows "(AG_DoPrintf cp E M dst n fmt ap = Some (d, rv) \<longrightarrow> well_written n dst d) \<and>
    (AG_ProcessFmtString cp E M fs dst n = Some (fs', d, rv) \<longrightarrow> well_written n dst d) \<and> exts_confined (builtin_exts cp)"
proof (cases n)
  case 0
  then show ?thesis using builtin_confined by (auto simp: AG_DoPrintf_def AG_ProcessFmtString_def well_written_def Let_def)
next
  case (Suc e)
  have w: "same_after e dst b" "e < length b" if "wr dst 0 NUL = Some b" for b
    using that assms(2) Suc by (auto intro: same_after_wr dest: wr_length)
  have "holds (\<lambda>r. well_written n dst (fst r)) (AG_DoPrintf cp E M dst n fmt ap)"
    unfolding AG_DoPrintf_def Suc Let_def
  proof (intro holds_rules, goal_cases)
    case (2 b v d q b')
    then have "same_after e b d" using holdsD [OF _ fmt_loop_same [OF assms(1), of 0 e b]] w by fastforce
    then show ?case using 2 w assms(2) Suc by (auto intro!: well_written_wr [of e dst d] same_after_trans [of e dst b] split: if_splits)
  qed simp
  moreover have "holds (\<lambda>r. well_written n dst (fst (snd r))) (AG_ProcessFmtString cp E M fs dst n)"
    unfolding AG_ProcessFmtString_def Suc Let_def
  proof (intro holds_rules, goal_cases)
    case (2 b f v fs' r d q b')
    then have "same_after e b d" using holdsD [OF _ process_loop_same [OF assms(1), of 0 e b]] w by fastforce
    then show ?case using 2 w assms(2) Suc by (auto intro!: well_written_wr [of e dst d] same_after_trans [of e dst b] split: if_splits)
  qed simp
  ultimately show ?thesis using builtin_confined by (auto simp: holds_def)
qed

theorem AG_DoPrintf_bounded_witness:
  "\<exists>d. AG_DoPrintf (\<lambda>spec v. []) (builtin_exts (\<lambda>spec v. [])) (\<lambda>a. None) (replicate 8 CHR ''?'') 4 (''abcdef'' @ NUL # []) [] = Some (d, 3) \<and>
     well_written 4 (replicate 8 CHR ''?'') d"
proof -
  obtain d where d: "AG_DoPrintf (\<lambda>spec v. []) (builtin_exts (\<lambda>spec v. [])) (\<lambda>a. None) (replicate 8 CHR ''?'') (Suc 3) (''abcdef'' @ NUL # []) [] =
      Some (take 3 ''abcdef'' @ NUL # d, 3)"
    using DoPrintf_long_text [of "''abcdef''" 3 "replicate 8 CHR ''?''" "\<lambda>spec v. []" "builtin_exts (\<lambda>spec v. [])" "\<lambda>a. None" "[]" "[]"] by auto
  then show ?thesis
    using AG_DoPrintf_bounded [OF builtin_confined, of 4 "replicate 8 CHR ''?''" "\<lambda>spec v. []" "\<lambda>spec v. []" "\<lambda>a. None" "''abcdef'' @ NUL # []" "[]" _ 3]
    by (simp del: append_Cons)
qed

section \<open>Formats that the engine does not treat as it should\<close>

text \<open>A format that ends inside a specifier is read past its end.\<close>

lemma fmt_overread_flag: "0 < e \<Longrightarrow> e < length dst \<Longrightarrow> AG_DoPrintf cp E M dst (Suc e) (''%5'' @ [NUL]) ap = None"
  by (auto simp: AG_DoPrintf_def Let_def wr_def fmt_loop.simps rd_def do_spec.simps CAT_SPEC_def flag_specs_def)

lemma fmt_overread_long: "0 < e \<Longrightarrow> e < length dst \<Longrightarrow> AG_DoPrintf cp E M dst (Suc e) (''%l'' @ [NUL]) ap = None"
  by (auto simp: AG_DoPrintf_def Let_def wr_def fmt_loop.simps rd_def do_spec.simps CAT_SPEC_def flag_specs_def int_specs_def)

text \<open>Deferred formatting of a \<open>long\<close> takes no argument and leaves the \<open>d\<close> in the text.\<close>

lemma process_long_int: "process_spec cp E M e dst p (CHR ''l'' # CHR ''d'' # f) fs = Some (fs, dst, 0, CHR ''d'' # f)"
  by simp

text \<open>A float is printed with another conversion when it is deferred.\<close>

lemma float_deferred:
  "process_spec cp E M e dst p (CHR ''f'' # g) fs = do { (ob, fs) \<leftarrow> FSARG M fs; w \<leftarrow> the_float ob; p_printf cp e dst p ''%.2f'' (A_float w) fs g }"
  "do_spec cp E M e dst p ''%'' (CHR ''f'' # g) ap = conv_double cp e dst p ''%f'' g ap"
  by (simp_all add: do_spec.simps CAT_SPEC_def)

text \<open>Of the eight buffers that there are, the manual allows the ninth.\<close>

lemma PrintfN_index: "length bufs = AG_STRING_BUFFERS_MAX \<Longrightarrow> AG_PrintfN cp E M J AG_STRING_BUFFERS_MAX fmt ap bufs = None"
  by (cases "printf_loop cp E M J fmt ap (replicate AG_FMTSTRING_BUFFER_INIT J)") (simp_all add: AG_PrintfN_def wr_def)


end
