(* ===== verification/Sinks.thy ===== *)
theory Sinks
  imports Timers
begin

text \<open>
  Event sources, sinks and the event loop of core/event.c.

  The source of the thread (\<open>agEventSource\<close>) and its sinks are in the world, so that handlers can
  change them.  What the build chooses (kqueue, timerfd, select or a delay loop) is the configuration \<open>event_cfg\<close>; the system calls, the
  handlers and the clock are the parameters \<open>event_env\<close>.  The fields of a sink that \<open>malloc\<close> leaves open are read only after they were written, and are 0 here.
  Waiting again after an interrupted call may go on for ever, as may the loop: both are partial functions.
\<close>

section \<open>Configuration and environment\<close>

record event_cfg =
  ec_method :: sink_method
  ec_kqueue_ok :: bool
  ec_soft :: bool

datatype sel_result = Sel_EINTR | Sel_error | Sel_ready nat "int set" "int set"

datatype kq_result = Kq_EINTR | Kq_error | Kq_events "kevent list"

datatype kq_note = NOTE_DELETE | NOTE_WRITE | NOTE_EXTEND | NOTE_ATTRIB | NOTE_LINK | NOTE_RENAME | NOTE_REVOKE | NOTE_EXIT | NOTE_FORK | NOTE_EXEC

type_synonym sink_fns = "nat \<Rightarrow> nat \<Rightarrow> AG_Event \<Rightarrow> world \<Rightarrow> (int \<times> world) option"

text \<open>
  The timers' parameters, the handlers of sinks and timers, \<open>select\<close> (with its timeout in seconds and microseconds), \<open>kevent\<close> (whether it
  blocks), \<open>timerfd_create\<close>, \<open>timerfd_settime\<close>, \<open>close\<close>, \<open>AG_Delay\<close> of a tick, and the constants of the system.
\<close>

record event_env =
  en_timers :: AG_EventSource
  en_sink :: sink_fns
  en_timer :: timer_fns
  en_select :: "int \<Rightarrow> int set \<Rightarrow> int set \<Rightarrow> (nat \<times> nat) option \<Rightarrow> world \<Rightarrow> sel_result \<times> world"
  en_kevent :: "kevent list \<Rightarrow> bool \<Rightarrow> world \<Rightarrow> kq_result \<times> world"
  en_timerfd :: "world \<Rightarrow> int option \<times> world"
  en_settime :: "int \<Rightarrow> 32 word \<Rightarrow> world \<Rightarrow> bool \<times> world"
  en_close :: "int \<Rightarrow> world \<Rightarrow> world"
  en_delay :: "world \<Rightarrow> world"
  en_note :: "kq_note \<Rightarrow> 32 word"

definition FD_SETSIZE :: int where "FD_SETSIZE = 1024"

definition put_source :: "event_source \<Rightarrow> world \<Rightarrow> world" where
  "put_source src w = w\<lparr>w_source := Some src\<rparr>"

definition put_sink :: "nat \<Rightarrow> AG_EventSink \<Rightarrow> world \<Rightarrow> world" where
  "put_sink es sk w = w\<lparr>w_sinks := (w_sinks w)(es \<mapsto> sk)\<rparr>"

definition free_sink :: "nat \<Rightarrow> world \<Rightarrow> world option" where
  "free_sink es w = (if w_sinks w es = None then None else Some (w\<lparr>w_sinks := (w_sinks w)(es := None)\<rparr>))"

section \<open>Event sources\<close>

definition CreateEventSource :: "event_cfg \<Rightarrow> event_source option" where
  "CreateEventSource cfg =
     (let m = ec_method cfg;
          src = \<lparr>so_caps = (\<lambda>t. case m of
                     By_kqueue \<Rightarrow> t \<in> {AG_SINK_TIMER, AG_SINK_READ, AG_SINK_WRITE, AG_SINK_FSEVENT, AG_SINK_PROCEVENT}
                   | By_timerfd \<Rightarrow> t \<in> {AG_SINK_TIMER, AG_SINK_READ, AG_SINK_WRITE}
                   | By_timedselect \<Rightarrow> t \<in> {AG_SINK_READ, AG_SINK_WRITE}
                   | By_select \<Rightarrow> t \<in> {AG_SINK_READ, AG_SINK_WRITE}
                   | By_spinner \<Rightarrow> False),
                 so_flags = 0, so_breakReq = 0, so_returnCode = 0, so_sinkFn = m, so_timerFns = (m = By_kqueue \<or> m = By_timerfd),
                 so_prologues = [], so_epilogues = [], so_spinners = [], so_sinks = [], so_changes = [], so_maxChanges = (if m = By_kqueue then 64 else 0)\<rparr>
      in if m = By_kqueue \<and> \<not> ec_kqueue_ok cfg then None
         else Some (if ec_soft cfg then src\<lparr>so_timerFns := False, so_caps := (so_caps src)(AG_SINK_TIMER := False)\<rparr> else src))"

definition AG_GetEventSource :: "event_cfg \<Rightarrow> world \<Rightarrow> (event_source \<times> world) option" where
  "AG_GetEventSource cfg w = (case w_source w of
     Some src \<Rightarrow> Some (src, w)
   | None \<Rightarrow> do { src \<leftarrow> CreateEventSource cfg; Some (src, put_source src w) })"

definition AG_InitEventSubsystem :: "event_cfg \<Rightarrow> world \<Rightarrow> world option" where
  "AG_InitEventSubsystem cfg w = do { (src, w) \<leftarrow> AG_GetEventSource cfg (w\<lparr>w_source := None\<rparr>); Some w }"

definition DestroyEventSource :: "world \<Rightarrow> world option" where
  "DestroyEventSource w = (case w_source w of
     None \<Rightarrow> Some w
   | Some src \<Rightarrow> fold_opt (\<lambda>w es. free_sink es w) w (so_prologues src @ so_epilogues src @ so_spinners src @ so_sinks src))"

definition AG_DestroyEventSubsystem :: "world \<Rightarrow> world option" where
  "AG_DestroyEventSubsystem w = (case w_source w of
     None \<Rightarrow> Some w
   | Some src \<Rightarrow> do { w \<leftarrow> DestroyEventSource w; Some (w\<lparr>w_source := None\<rparr>) })"

section \<open>Translation to kqueue\<close>

fun GetSinkType :: "ev_filter \<Rightarrow> ag_event_sink_type" where
  "GetSinkType EVFILT_TIMER = AG_SINK_TIMER" | "GetSinkType EVFILT_READ = AG_SINK_READ" | "GetSinkType EVFILT_WRITE = AG_SINK_WRITE"
| "GetSinkType EVFILT_VNODE = AG_SINK_FSEVENT" | "GetSinkType EVFILT_PROC = AG_SINK_PROCEVENT" | "GetSinkType EVFILT_other = AG_SINK_NONE"

definition kq_flags :: "(32 word \<times> kq_note) list" where
  "kq_flags = [(0x0001, NOTE_DELETE), (0x0002, NOTE_WRITE), (0x0004, NOTE_EXTEND), (0x0008, NOTE_ATTRIB), (0x0010, NOTE_LINK),
     (0x0020, NOTE_RENAME), (0x0040, NOTE_REVOKE), (0x1000, NOTE_EXIT), (0x2000, NOTE_FORK), (0x4000, NOTE_EXEC)]"

definition GetKqFilterFlags :: "(kq_note \<Rightarrow> 32 word) \<Rightarrow> 32 word \<Rightarrow> 32 word" where
  "GetKqFilterFlags NOTE flags = fold (\<lambda>(f, k) fflags. if flags AND f \<noteq> 0 then fflags OR NOTE k else fflags) kq_flags 0"

text \<open>The inverse, which sets the bits in its argument and returns the variable that it should set.\<close>

definition GetSinkFlags :: "(kq_note \<Rightarrow> 32 word) \<Rightarrow> 32 word \<Rightarrow> 32 word" where
  "GetSinkFlags NOTE fflags =
     (let flags = 0; fflags = fold (\<lambda>(f, k) fflags. if fflags AND NOTE k \<noteq> 0 then fflags OR f else fflags) kq_flags fflags in flags)"

definition GrowKqChangelist :: "nat \<Rightarrow> event_source \<Rightarrow> event_source" where
  "GrowKqChangelist n src = (if n \<le> so_maxChanges src then src else src\<lparr>so_maxChanges := n\<rparr>)"

text \<open>\<open>kev = &kq->changes[kq->nChanges++]\<close> and its assignment.\<close>

definition push_change :: "kevent \<Rightarrow> event_source \<Rightarrow> event_source option" where
  "push_change ke src = (let src = GrowKqChangelist (length (so_changes src) + 1) src in
     if length (so_changes src) < so_maxChanges src then Some (src\<lparr>so_changes := so_changes src @ [ke]\<rparr>) else None)"

text \<open>The change that a sink of a type asks for; \<open>fl\<close> are its flags for the system.\<close>

definition sink_change :: "(kq_note \<Rightarrow> 32 word) \<Rightarrow> ag_event_sink_type \<Rightarrow> int \<Rightarrow> 32 word \<Rightarrow> kev_action \<Rightarrow> nat option \<Rightarrow> event_source \<Rightarrow> event_source option" where
  "sink_change NOTE type ident flags act udata src =
     (let ke = \<lambda>filt fflags. \<lparr>ke_ident = ident, ke_filter = filt, ke_flags = act, ke_fflags = fflags, ke_data = 0, ke_udata = udata\<rparr> in
      if type = AG_SINK_READ then push_change (ke EVFILT_READ 0) src
      else if type = AG_SINK_WRITE then push_change (ke EVFILT_WRITE 0) src
      else if type = AG_SINK_FSEVENT then push_change (ke EVFILT_VNODE (GetKqFilterFlags NOTE flags)) src
      else if type = AG_SINK_PROCEVENT then push_change (ke EVFILT_PROC (GetKqFilterFlags NOTE flags)) src
      else Some (GrowKqChangelist (length (so_changes src) + 1) src))"

section \<open>Sinks\<close>

definition new_sink :: "ag_event_sink_type \<Rightarrow> int \<Rightarrow> 32 word \<Rightarrow> nat \<Rightarrow> string option \<Rightarrow> cval list \<Rightarrow> nat \<Rightarrow> world \<Rightarrow> world option" where
  "new_sink type ident flags fn fmt ap es w = do {
     ev \<leftarrow> InitEvent None blank_event;
     ev \<leftarrow> GET_ARGS fmt ap ev;
     Some (put_sink es \<lparr>sk_type = type, sk_ident = ident, sk_flags = flags, sk_flagsMatched = 0, sk_fn = fn, sk_fnArgs = ev\<lparr>ev_argc0 := ev_argc ev\<rparr>\<rparr> w)
   }"

definition AG_AddEventPrologue :: "event_cfg \<Rightarrow> nat \<Rightarrow> string option \<Rightarrow> cval list \<Rightarrow> world \<Rightarrow> (nat \<times> world) option" where
  "AG_AddEventPrologue cfg fn fmt ap w = do {
     (src, w) \<leftarrow> AG_GetEventSource cfg w;
     let (es, w) = fresh w;
     w \<leftarrow> new_sink AG_SINK_PROLOGUE 0 0 fn fmt ap es w;
     q \<leftarrow> q_insert_tail es (so_prologues src);
     Some (es, put_source (src\<lparr>so_prologues := q\<rparr>) w)
   }"

definition AG_DelEventPrologue :: "event_cfg \<Rightarrow> nat \<Rightarrow> world \<Rightarrow> world option" where
  "AG_DelEventPrologue cfg es w = do {
     (src, w) \<leftarrow> AG_GetEventSource cfg w;
     q \<leftarrow> q_remove es (so_prologues src);
     free_sink es (put_source (src\<lparr>so_prologues := q\<rparr>) w)
   }"

definition AG_AddEventEpilogue :: "event_cfg \<Rightarrow> nat \<Rightarrow> string option \<Rightarrow> cval list \<Rightarrow> world \<Rightarrow> (nat \<times> world) option" where
  "AG_AddEventEpilogue cfg fn fmt ap w = do {
     (src, w) \<leftarrow> AG_GetEventSource cfg w;
     let (es, w) = fresh w;
     w \<leftarrow> new_sink AG_SINK_EPILOGUE 0 0 fn fmt ap es w;
     q \<leftarrow> q_insert_tail es (so_epilogues src);
     Some (es, put_source (src\<lparr>so_epilogues := q\<rparr>) w)
   }"

definition AG_DelEventEpilogue :: "event_cfg \<Rightarrow> nat \<Rightarrow> world \<Rightarrow> world option" where
  "AG_DelEventEpilogue cfg es w = do {
     (src, w) \<leftarrow> AG_GetEventSource cfg w;
     q \<leftarrow> q_remove es (so_epilogues src);
     free_sink es (put_source (src\<lparr>so_epilogues := q\<rparr>) w)
   }"

definition AG_AddEventSpinner :: "event_cfg \<Rightarrow> nat \<Rightarrow> string option \<Rightarrow> cval list \<Rightarrow> world \<Rightarrow> (nat \<times> world) option" where
  "AG_AddEventSpinner cfg fn fmt ap w = do {
     (src, w) \<leftarrow> AG_GetEventSource cfg w;
     let (es, w) = fresh w;
     w \<leftarrow> new_sink AG_SINK_SPINNER 0 0 fn fmt ap es w;
     q \<leftarrow> q_insert_tail es (so_spinners src);
     Some (es, put_source (src\<lparr>so_spinners := q\<rparr>) w)
   }"

definition AG_DelEventSpinner :: "event_cfg \<Rightarrow> nat \<Rightarrow> world \<Rightarrow> world option" where
  "AG_DelEventSpinner cfg es w = do {
     (src, w) \<leftarrow> AG_GetEventSource cfg w;
     q \<leftarrow> q_remove es (so_spinners src);
     free_sink es (put_source (src\<lparr>so_spinners := q\<rparr>) w)
   }"

text \<open>The result is \<open>NULL\<close> for a type that the source does not support.\<close>

definition AG_AddEventSink ::
  "event_cfg \<Rightarrow> (kq_note \<Rightarrow> 32 word) \<Rightarrow> ag_event_sink_type \<Rightarrow> int \<Rightarrow> 32 word \<Rightarrow> nat \<Rightarrow> string option \<Rightarrow> cval list \<Rightarrow> world \<Rightarrow> (nat option \<times> world) option" where
  "AG_AddEventSink cfg NOTE type ident flags fn fmt ap w = do {
     (src, w) \<leftarrow> AG_GetEventSource cfg w;
     if \<not> so_caps src type then Some (None, w)
     else do {
       let (es, w) = fresh w;
       src \<leftarrow> (if ec_method cfg = By_kqueue then sink_change NOTE type ident flags EV_ADD_ENABLE (Some es) src else Some src);
       w \<leftarrow> new_sink type ident flags fn fmt ap es w;
       q \<leftarrow> q_insert_tail es (so_sinks src);
       Some (Some es, put_source (src\<lparr>so_sinks := q\<rparr>) w)
     }
   }"

definition AG_DelEventSink :: "event_cfg \<Rightarrow> (kq_note \<Rightarrow> 32 word) \<Rightarrow> nat \<Rightarrow> world \<Rightarrow> world option" where
  "AG_DelEventSink cfg NOTE es w = do {
     (src, w) \<leftarrow> AG_GetEventSource cfg w;
     sk \<leftarrow> w_sinks w es;
     src \<leftarrow> (if ec_method cfg = By_kqueue then sink_change NOTE (sk_type sk) (sk_ident sk) (sk_flags sk) EV_DELETE None src else Some src);
     q \<leftarrow> q_remove es (so_sinks src);
     free_sink es (put_source (src\<lparr>so_sinks := q\<rparr>) w)
   }"

text \<open>The loop saves the successor, and removes nothing but the current sink: it goes over the sinks that there were.\<close>

fun del_sinks :: "event_cfg \<Rightarrow> (kq_note \<Rightarrow> 32 word) \<Rightarrow> ag_event_sink_type \<Rightarrow> int \<Rightarrow> 32 word \<Rightarrow> nat list \<Rightarrow> world \<Rightarrow> world option" where
  "del_sinks cfg NOTE type ident flags [] w = Some w"
| "del_sinks cfg NOTE type ident flags (es # ess) w = do {
     sk \<leftarrow> w_sinks w es;
     w \<leftarrow> (if sk_type sk = type \<and> sk_ident sk = ident \<and> sk_flags sk = flags then AG_DelEventSink cfg NOTE es w else Some w);
     del_sinks cfg NOTE type ident flags ess w
   }"

definition AG_DelEventSinksByIdent :: "event_cfg \<Rightarrow> (kq_note \<Rightarrow> 32 word) \<Rightarrow> ag_event_sink_type \<Rightarrow> int \<Rightarrow> 32 word \<Rightarrow> world \<Rightarrow> world option" where
  "AG_DelEventSinksByIdent cfg NOTE type ident flags w = do {
     (src, w) \<leftarrow> AG_GetEventSource cfg w;
     del_sinks cfg NOTE type ident flags (so_sinks src) w
   }"

section \<open>Running sinks\<close>

text \<open>A loop over a queue of the source that calls the sinks that are ready; a handler may change the queue, and \<open>n\<close> is the fuel.\<close>

fun run_sinks :: "nat \<Rightarrow> sink_fns \<Rightarrow> (event_source \<Rightarrow> nat list) \<Rightarrow> (AG_EventSink \<Rightarrow> bool option) \<Rightarrow> nat option \<Rightarrow> world \<Rightarrow> world option" where
  "run_sinks 0 call queue ready cur w = None"
| "run_sinks (Suc n) call queue ready cur w = (case cur of
     None \<Rightarrow> Some w
   | Some es \<Rightarrow> do {
       sk \<leftarrow> w_sinks w es;
       now \<leftarrow> ready sk;
       w \<leftarrow> (if now then do { (rv, w) \<leftarrow> call (sk_fn sk) es (sk_fnArgs sk) w; Some w } else Some w);
       src \<leftarrow> w_source w;
       cur' \<leftarrow> next_of es (queue src);
       run_sinks n call queue ready cur' w
     })"

definition run_queue :: "nat \<Rightarrow> sink_fns \<Rightarrow> (event_source \<Rightarrow> nat list) \<Rightarrow> (AG_EventSink \<Rightarrow> bool option) \<Rightarrow> world \<Rightarrow> world option" where
  "run_queue n call queue ready w = do { src \<leftarrow> w_source w; run_sinks n call queue ready (first_of (queue src)) w }"

text \<open>\<open>FD_SET\<close> and \<open>FD_ISSET\<close> outside of the set are undefined.\<close>

definition FD_SET :: "int \<Rightarrow> int set \<Rightarrow> int set option" where
  "FD_SET fd s = (if 0 \<le> fd \<and> fd < FD_SETSIZE then Some (insert fd s) else None)"

definition FD_ISSET :: "int \<Rightarrow> int set \<Rightarrow> bool option" where
  "FD_ISSET fd s = (if 0 \<le> fd \<and> fd < FD_SETSIZE then Some (fd \<in> s) else None)"

definition fd_ready :: "int set \<Rightarrow> int set \<Rightarrow> AG_EventSink \<Rightarrow> bool option" where
  "fd_ready rdFds wrFds sk =
     (if sk_type sk = AG_SINK_READ then FD_ISSET (sk_ident sk) rdFds
      else if sk_type sk = AG_SINK_WRITE then FD_ISSET (sk_ident sk) wrFds
      else Some False)"

definition watch_sink :: "world \<Rightarrow> int \<times> int set \<times> int set \<Rightarrow> nat \<Rightarrow> (int \<times> int set \<times> int set) option" where
  "watch_sink w = (\<lambda>(nFds, rdFds, wrFds) es. do {
     sk \<leftarrow> w_sinks w es;
     if sk_type sk = AG_SINK_READ then do { rdFds \<leftarrow> FD_SET (sk_ident sk) rdFds; Some (if sk_ident sk > nFds then sk_ident sk else nFds, rdFds, wrFds) }
     else if sk_type sk = AG_SINK_WRITE then do { wrFds \<leftarrow> FD_SET (sk_ident sk) wrFds; Some (if sk_ident sk > nFds then sk_ident sk else nFds, rdFds, wrFds) }
     else Some (nFds, rdFds, wrFds)
   })"

definition watch_timer :: "world \<Rightarrow> int \<times> int set \<times> int set \<Rightarrow> nat \<Rightarrow> (int \<times> int set \<times> int set) option" where
  "watch_timer w = (\<lambda>(nFds, rdFds, wrFds) to. do {
     T \<leftarrow> w_timers w to;
     rdFds \<leftarrow> FD_SET (to_id T) rdFds;
     Some (if to_id T > nFds then to_id T else nFds, rdFds, wrFds)
   })"

text \<open>A loop over all timers of all objects that have timers.\<close>

definition fold_timers :: "('s \<Rightarrow> nat \<Rightarrow> 's option) \<Rightarrow> 's \<Rightarrow> world \<Rightarrow> 's option" where
  "fold_timers f s w = fold_opt (\<lambda>s p. do { ts \<leftarrow> timers_of p w; fold_opt f s ts }) s (w_timerObjQ w)"

section \<open>select with timers in its timeout\<close>

definition soonest :: "world \<Rightarrow> 32 word \<Rightarrow> 32 word option" where
  "soonest w t = fold_timers (\<lambda>s to. do { T \<leftarrow> w_timers w to; Some (if to_tSched T - t < s then to_tSched T - t else s) }) 0xfffffffe w"

text \<open>The variable \<open>t\<close> has no value unless there was a pass without spinners.\<close>

partial_function (option) timedselect :: "nat \<Rightarrow> event_env \<Rightarrow> 32 word option \<Rightarrow> world \<Rightarrow> (int \<times> world) option" where
  "timedselect n env t w = do {
     src \<leftarrow> w_source w;
     (nFds, rdFds, wrFds) \<leftarrow> fold_opt (watch_sink w) (0, {}, {}) (so_sinks src);
     (t, timeo) \<leftarrow> (if so_spinners src \<noteq> [] then Some (t, (0, 0))
        else do { let t = src_ticks (en_timers env) w; s \<leftarrow> soonest w t; Some (Some t, (unat s div 1000, unat s mod 1000 * 1000)) });
     (case en_select env (nFds + 1) rdFds wrFds (Some timeo) w of (r, w) \<Rightarrow> (case r of
        Sel_EINTR \<Rightarrow> timedselect n env t w
      | Sel_error \<Rightarrow> Some (-1, w)
      | Sel_ready rv rdFds wrFds \<Rightarrow> do {
          t \<leftarrow> t;
          w \<leftarrow> AG_ProcessTimeouts n (en_timers env) (en_timer env) t w;
          w \<leftarrow> (if rv > 0 then run_queue n (en_sink env) so_sinks (fd_ready rdFds wrFds) w else Some w);
          Some (0, w)
        }))
   }"

definition AG_EventSinkTIMEDSELECT :: "nat \<Rightarrow> event_env \<Rightarrow> world \<Rightarrow> (int \<times> world) option" where
  "AG_EventSinkTIMEDSELECT n env w = timedselect n env None w"

section \<open>select that does not wait\<close>

partial_function (option) select_now :: "event_env \<Rightarrow> int \<Rightarrow> int set \<Rightarrow> int set \<Rightarrow> world \<Rightarrow> (sel_result \<times> world) option" where
  "select_now env nFds rdFds wrFds w = (case en_select env (nFds + 1) rdFds wrFds (Some (0, 0)) w of (r, w) \<Rightarrow>
     (if r = Sel_EINTR then select_now env nFds rdFds wrFds w else Some (r, w)))"

definition AG_EventSinkSELECT :: "nat \<Rightarrow> event_env \<Rightarrow> world \<Rightarrow> (int \<times> world) option" where
  "AG_EventSinkSELECT n env w = do {
     src \<leftarrow> w_source w;
     (nFds, rdFds, wrFds) \<leftarrow> fold_opt (watch_sink w) (0, {}, {}) (so_sinks src);
     (r, w) \<leftarrow> select_now env nFds rdFds wrFds w;
     (case r of
        Sel_ready rv rdFds wrFds \<Rightarrow> do {
          w \<leftarrow> AG_ProcessTimeouts n (en_timers env) (en_timer env) (src_ticks (en_timers env) w) w;
          w \<leftarrow> (if rv > 0 then run_queue n (en_sink env) so_sinks (fd_ready rdFds wrFds) w else Some w);
          src \<leftarrow> w_source w;
          Some (0, if so_spinners src = [] then en_delay env w else w)
        }
      | _ \<Rightarrow> Some (-1, w))
   }"

section \<open>select with timers that are files\<close>

definition AG_AddTimerTIMERFD :: "event_env \<Rightarrow> nat \<Rightarrow> 32 word \<Rightarrow> bool \<Rightarrow> world \<Rightarrow> (bool \<times> world) option" where
  "AG_AddTimerTIMERFD env to ival newTimer w = do {
     T \<leftarrow> w_timers w to;
     (fd, w) \<leftarrow> Some (if newTimer then en_timerfd env w else (Some (to_id T), w));
     T \<leftarrow> w_timers w to;
     (case fd of
        None \<Rightarrow> Some (False, put_timer to (T\<lparr>to_id := -1\<rparr>) w)
      | Some fd \<Rightarrow> (case en_settime env fd ival w of (ok, w) \<Rightarrow> do {
          T \<leftarrow> w_timers w to;
          if ok then Some (True, put_timer to (T\<lparr>to_id := fd, to_ival := ival\<rparr>) w)
          else Some (False, en_close env fd (put_timer to (T\<lparr>to_id := fd\<rparr>) w))
        }))
   }"

definition AG_DelTimerTIMERFD :: "event_env \<Rightarrow> nat \<Rightarrow> world \<Rightarrow> world option" where
  "AG_DelTimerTIMERFD env to w = do { T \<leftarrow> w_timers w to; Some (en_close env (to_id T) w) }"

text \<open>The timers of an object, and the objects, whose files are ready; the successor is saved before each.\<close>

fun timerfd_obj :: "nat \<Rightarrow> event_env \<Rightarrow> nat \<Rightarrow> nat option \<Rightarrow> int set \<Rightarrow> world \<Rightarrow> (int set \<times> world) option" where
  "timerfd_obj 0 env p cur rdFds w = None"
| "timerfd_obj (Suc n) env p cur rdFds w = (case cur of
     None \<Rightarrow> Some (rdFds, w)
   | Some to \<Rightarrow> do {
       ts \<leftarrow> timers_of p w;
       toNext \<leftarrow> next_of to ts;
       T \<leftarrow> w_timers w to;
       expired \<leftarrow> FD_ISSET (to_id T) rdFds;
       if \<not> expired then timerfd_obj n env p toNext rdFds w
       else do {
         f \<leftarrow> to_fn T;
         (rvt, w) \<leftarrow> en_timer env f to (to_fnEvent T) w;
         T \<leftarrow> w_timers w to;
         (ok, w) \<leftarrow> Some (if 0 < rvt then en_settime env (to_id T) rvt w else (False, w));
         if ok then timerfd_obj n env p toNext rdFds w
         else do {
           w \<leftarrow> AG_DelTimer (en_timers env) (Some p) to w;
           timerfd_obj n env p toNext (rdFds - {to_id T}) w
         }
       }
     })"

fun timerfd_objs :: "nat \<Rightarrow> event_env \<Rightarrow> nat option \<Rightarrow> int set \<Rightarrow> world \<Rightarrow> (int set \<times> world) option" where
  "timerfd_objs 0 env cur rdFds w = None"
| "timerfd_objs (Suc n) env cur rdFds w = (case cur of
     None \<Rightarrow> Some (rdFds, w)
   | Some p \<Rightarrow> do {
       obNext \<leftarrow> next_of p (w_timerObjQ w);
       ts \<leftarrow> timers_of p w;
       (rdFds, w) \<leftarrow> timerfd_obj n env p (first_of ts) rdFds w;
       timerfd_objs n env obNext rdFds w
     })"

partial_function (option) AG_EventSinkTIMERFD :: "nat \<Rightarrow> event_env \<Rightarrow> world \<Rightarrow> (int \<times> world) option" where
  "AG_EventSinkTIMERFD n env w = do {
     src \<leftarrow> w_source w;
     r \<leftarrow> fold_opt (watch_sink w) (0, {}, {}) (so_sinks src);
     (nFds, rdFds, wrFds) \<leftarrow> fold_timers (watch_timer w) r w;
     (case en_select env (nFds + 1) rdFds wrFds (if so_spinners src \<noteq> [] then Some (0, 0) else None) w of (r, w) \<Rightarrow> (case r of
        Sel_EINTR \<Rightarrow> AG_EventSinkTIMERFD n env w
      | Sel_error \<Rightarrow> Some (-1, w)
      | Sel_ready rv rdFds wrFds \<Rightarrow> do {
          (rdFds, w) \<leftarrow> timerfd_objs n env (first_of (w_timerObjQ w)) rdFds w;
          w \<leftarrow> run_queue n (en_sink env) so_sinks (fd_ready rdFds wrFds) w;
          Some (0, w)
        }))
   }"

section \<open>kqueue\<close>

definition other_ids :: "world \<Rightarrow> nat \<Rightarrow> int list option" where
  "other_ids w to = fold_timers (\<lambda>ids to'. if to' = to then Some ids else do { T \<leftarrow> w_timers w to'; Some (ids @ [to_id T]) }) [] w"

text \<open>\<open>gen_id\<close>: the next number that no other timer has; the result is the number and the new count.\<close>

partial_function (option) gen_id :: "int list \<Rightarrow> 32 word \<Rightarrow> (int \<times> 32 word) option" where
  "gen_id ids c = (if sint (c + 1) \<in> set ids then gen_id ids (c + 1) else Some (sint (c + 1), c + 1))"

definition GenerateTimerID :: "nat \<Rightarrow> world \<Rightarrow> (int \<times> world) option" where
  "GenerateTimerID to w = do { ids \<leftarrow> other_ids w to; (i, c) \<leftarrow> gen_id ids (w_timerCount w); Some (i, w\<lparr>w_timerCount := c\<rparr>) }"

definition timer_change :: "int \<Rightarrow> kev_action \<Rightarrow> 32 word \<Rightarrow> nat option \<Rightarrow> world \<Rightarrow> world option" where
  "timer_change i act ival udata w = do {
     src \<leftarrow> w_source w;
     src \<leftarrow> push_change \<lparr>ke_ident = i, ke_filter = EVFILT_TIMER, ke_flags = act, ke_fflags = 0, ke_data = sint ival, ke_udata = udata\<rparr> src;
     Some (put_source src w)
   }"

definition AG_AddTimerKQUEUE :: "nat \<Rightarrow> 32 word \<Rightarrow> bool \<Rightarrow> world \<Rightarrow> (bool \<times> world) option" where
  "AG_AddTimerKQUEUE to ival newTimer w = do {
     w \<leftarrow> (if newTimer then do { (i, w) \<leftarrow> GenerateTimerID to w; T \<leftarrow> w_timers w to; Some (put_timer to (T\<lparr>to_id := i\<rparr>) w) } else Some w);
     T \<leftarrow> w_timers w to;
     if newTimer \<or> to_ival T \<noteq> ival then do {
       w \<leftarrow> timer_change (to_id T) EV_ADD_ENABLE_ONESHOT ival (Some to) w;
       Some (True, put_timer to (T\<lparr>to_ival := ival\<rparr>) w)
     } else Some (True, w)
   }"

definition AG_DelTimerKQUEUE :: "nat \<Rightarrow> world \<Rightarrow> world option" where
  "AG_DelTimerKQUEUE to w = do {
     T \<leftarrow> w_timers w to;
     w \<leftarrow> timer_change (to_id T) EV_DELETE 0 None w;
     Some (w\<lparr>w_timerCount := w_timerCount w - 1\<rparr>)
   }"

definition kq_timer :: "event_env \<Rightarrow> nat \<Rightarrow> world \<Rightarrow> world option" where
  "kq_timer env to w = do {
     T \<leftarrow> w_timers w to;
     f \<leftarrow> to_fn T;
     (rvt, w) \<leftarrow> en_timer env f to (to_fnEvent T) w;
     T \<leftarrow> w_timers w to;
     if 0 < rvt then do {
       w \<leftarrow> timer_change (to_id T) EV_ADD_ENABLE_ONESHOT rvt (Some to) w;
       Some (put_timer to (T\<lparr>to_ival := rvt\<rparr>) w)
     } else (case to_obj T of
         None \<Rightarrow> Some w
       | Some p \<Rightarrow> do {
           ts \<leftarrow> timers_of p w;
           ts \<leftarrow> q_remove to ts;
           w \<leftarrow> set_timers p ts w;
           w \<leftarrow> (if ts = [] then unqueue_obj p w else Some w);
           let w = (if to_flags T AND AG_TIMER_AUTO_FREE \<noteq> 0 then w\<lparr>w_timers := (w_timers w)(to := None)\<rparr>
                    else put_timer to (T\<lparr>to_ival := 0, to_id := -1, to_obj := None\<rparr>) w);
           Some (w\<lparr>w_timerCount := w_timerCount w - 1\<rparr>)
         })
   }"

fun kq_timers :: "event_env \<Rightarrow> kevent list \<Rightarrow> world \<Rightarrow> world option" where
  "kq_timers env [] w = Some w"
| "kq_timers env (kev # kevs) w =
     (if ke_flags kev = EV_ERROR \<or> GetSinkType (ke_filter kev) \<noteq> AG_SINK_TIMER then kq_timers env kevs w
      else (case ke_udata kev of
          None \<Rightarrow> kq_timers env kevs w
        | Some to \<Rightarrow> do { w \<leftarrow> kq_timer env to w; kq_timers env kevs w }))"

text \<open>Events of sinks; a sink that was freed, or a null pointer, is undefined.\<close>

fun kq_sinks :: "event_env \<Rightarrow> kevent list \<Rightarrow> world \<Rightarrow> world option" where
  "kq_sinks env [] w = Some w"
| "kq_sinks env (kev # kevs) w =
     (let esType = GetSinkType (ke_filter kev) in
      if esType \<in> {AG_SINK_READ, AG_SINK_WRITE} then do {
        es \<leftarrow> ke_udata kev;
        sk \<leftarrow> w_sinks w es;
        (rv, w) \<leftarrow> en_sink env (sk_fn sk) es (sk_fnArgs sk) w;
        kq_sinks env kevs w
      } else if esType \<in> {AG_SINK_FSEVENT, AG_SINK_PROCEVENT} then do {
        es \<leftarrow> ke_udata kev;
        sk \<leftarrow> w_sinks w es;
        let sk = sk\<lparr>sk_flagsMatched := GetSinkFlags (en_note env) (ke_fflags kev)\<rparr>;
        (rv, w) \<leftarrow> en_sink env (sk_fn sk) es (sk_fnArgs sk) (put_sink es sk w);
        kq_sinks env kevs w
      } else kq_sinks env kevs w)"

partial_function (option) AG_EventSinkKQUEUE :: "event_env \<Rightarrow> world \<Rightarrow> (int \<times> world) option" where
  "AG_EventSinkKQUEUE env w = do {
     src \<leftarrow> w_source w;
     (case en_kevent env (so_changes src) (so_spinners src = []) w of (r, w) \<Rightarrow> (case r of
        Kq_EINTR \<Rightarrow> AG_EventSinkKQUEUE env w
      | Kq_error \<Rightarrow> Some (-1, w)
      | Kq_events kevs \<Rightarrow> do {
          src \<leftarrow> w_source w;
          w \<leftarrow> kq_timers env kevs (put_source (src\<lparr>so_changes := []\<rparr>) w);
          w \<leftarrow> kq_sinks env kevs w;
          Some (0, w)
        }))
   }"

section \<open>The event loop\<close>

definition AG_EventSinkSPINNER :: "nat \<Rightarrow> event_env \<Rightarrow> world \<Rightarrow> (int \<times> world) option" where
  "AG_EventSinkSPINNER n env w = do {
     w \<leftarrow> AG_ProcessTimeouts n (en_timers env) (en_timer env) (src_ticks (en_timers env) w) w;
     Some (0, en_delay env w)
   }"

definition sink_fn :: "nat \<Rightarrow> event_env \<Rightarrow> sink_method \<Rightarrow> world \<Rightarrow> (int \<times> world) option" where
  "sink_fn n env m w = (case m of
     By_kqueue \<Rightarrow> AG_EventSinkKQUEUE env w
   | By_timerfd \<Rightarrow> AG_EventSinkTIMERFD n env w
   | By_timedselect \<Rightarrow> AG_EventSinkTIMEDSELECT n env w
   | By_select \<Rightarrow> AG_EventSinkSELECT n env w
   | By_spinner \<Rightarrow> AG_EventSinkSPINNER n env w)"

text \<open>One pass of the loop: its exit code if it is left, and the world.\<close>

definition loop_pass :: "nat \<Rightarrow> event_env \<Rightarrow> world \<Rightarrow> (int option \<times> world) option" where
  "loop_pass n env w = do {
     w \<leftarrow> run_queue n (en_sink env) so_spinners (\<lambda>sk. Some True) w;
     src \<leftarrow> w_source w;
     (rv, w) \<leftarrow> sink_fn n env (so_sinkFn src) w;
     if rv = -1 then Some (Some 1, w)
     else do {
       w \<leftarrow> run_queue n (en_sink env) so_epilogues (\<lambda>sk. Some True) w;
       src \<leftarrow> w_source w;
       Some (if so_breakReq src \<noteq> 0 then Some (so_returnCode src) else None, w)
     }
   }"

partial_function (option) event_loop :: "nat \<Rightarrow> event_env \<Rightarrow> world \<Rightarrow> (int \<times> world) option" where
  "event_loop n env w = do {
     (r, w) \<leftarrow> loop_pass n env w;
     (case r of Some rc \<Rightarrow> Some (rc, w) | None \<Rightarrow> event_loop n env w)
   }"

definition AG_EventLoop :: "nat \<Rightarrow> event_cfg \<Rightarrow> event_env \<Rightarrow> world \<Rightarrow> (int \<times> world) option" where
  "AG_EventLoop n cfg env w = do {
     (src, w) \<leftarrow> AG_GetEventSource cfg w;
     w \<leftarrow> run_queue n (en_sink env) so_prologues (\<lambda>sk. Some True) w;
     event_loop n env w
   }"

definition AG_Terminate :: "event_cfg \<Rightarrow> int \<Rightarrow> world \<Rightarrow> world option" where
  "AG_Terminate cfg retCode w = do {
     (src, w) \<leftarrow> AG_GetEventSource cfg w;
     Some (put_source (src\<lparr>so_breakReq := 1, so_returnCode := retCode\<rparr>) w)
   }"

definition AG_TerminateEv :: "event_cfg \<Rightarrow> AG_Event \<Rightarrow> world \<Rightarrow> world option" where
  "AG_TerminateEv cfg ev w = do {
     (src, w) \<leftarrow> AG_GetEventSource cfg w;
     rc \<leftarrow> (if ev_argc ev > 1 then do {
              V \<leftarrow> rd (ev_argv ev) 1;
              if v_type V = AG_VARIABLE_INT then (case v_data V of C_i i \<Rightarrow> Some (sint i) | _ \<Rightarrow> None) else Some 0
            } else Some 0);
     Some (put_source (src\<lparr>so_returnCode := rc, so_breakReq := 1\<rparr>) w)
   }"

end
