(* ===== verification/SinkLaws.thy ===== *)
theory SinkLaws
  imports Sinks TimerLaws
begin

text \<open>
  Properties of the event sources and the event loop: the handlers that a queue calls, what the loop does (\<open>loop_runs\<close>), how long \<open>select\<close> waits for timers, the
  numbers of timers under kqueue, and the queues of sinks.
\<close>

section \<open>Running the sinks of a queue\<close>

text \<open>Handlers that leave the source and the sinks alone.\<close>

definition leaves_sinks :: "sink_fns \<Rightarrow> bool" where
  "leaves_sinks call \<longleftrightarrow> (\<forall>f es ev w rv w'. call f es ev w = Some (rv, w') \<longrightarrow> w_source w' = w_source w \<and> w_sinks w' = w_sinks w)"

definition call_sink :: "sink_fns \<Rightarrow> world \<Rightarrow> nat \<Rightarrow> world option" where
  "call_sink call w es = do { sk \<leftarrow> w_sinks w es; (rv, w) \<leftarrow> call (sk_fn sk) es (sk_fnArgs sk) w; Some w }"

lemma call_sink_leaving: "leaves_sinks call \<Longrightarrow> call_sink call w es = Some w' \<Longrightarrow> w_source w' = w_source w \<and> w_sinks w' = w_sinks w"
  by (auto simp: call_sink_def leaves_sinks_def bind_eq_Some_conv)

lemma next_of_between: "e \<notin> set xs \<Longrightarrow> next_of e (xs @ e # ys) = Some (first_of ys)"
  by (induction xs) (auto simp: first_of_def split: list.splits)

lemma run_sinks_leaving:
  assumes "leaves_sinks call" and "w_source w = Some src" and "queue src = xs @ ys" and "distinct (queue src)"
    and "\<forall>es \<in> set ys. \<exists>sk. w_sinks w es = Some sk \<and> ready sk = Some (P sk)" and "length ys < n"
  shows "run_sinks n call queue ready (first_of ys) w = fold_opt (call_sink call) w (filter (\<lambda>es. P (the (w_sinks w es))) ys)"
  using assms
proof (induction ys arbitrary: xs w n)
  case Nil
  then show ?case by (cases n) (simp_all add: first_of_def)
next
  case (Cons es ys)
  obtain m where n: "n = Suc m" "length ys < m" using Cons.prems(6) by (cases n) auto
  obtain sk where sk: "w_sinks w es = Some sk" "ready sk = Some (P sk)" using Cons.prems(5) by auto
  have nx: "next_of es (queue src) = Some (first_of ys)" using Cons.prems(3,4) by (simp add: next_of_between)
  have e: "first_of (es # ys) = Some es" by (simp add: first_of_def)
  have rest: "run_sinks m call queue ready (first_of ys) w' = fold_opt (call_sink call) w' (filter (\<lambda>es. P (the (w_sinks w es))) ys)"
    if "w_source w' = w_source w" "w_sinks w' = w_sinks w" for w'
    using Cons.IH [OF Cons.prems(1), of w' "xs @ [es]" m] Cons.prems n that by simp
  show ?case
  proof (cases "P sk")
    case False
    then show ?thesis using rest [of w] n sk nx e Cons.prems(2) by simp
  next
    case True
    show ?thesis
    proof (cases "call (sk_fn sk) es (sk_fnArgs sk) w")
      case None
      then show ?thesis using n sk e True by (simp add: call_sink_def [of call w es])
    next
      case (Some r)
      then obtain rv w' where r: "call (sk_fn sk) es (sk_fnArgs sk) w = Some (rv, w')" by (cases r) auto
      then have "w_source w' = w_source w" "w_sinks w' = w_sinks w" using Cons.prems(1) by (auto simp: leaves_sinks_def)
      then show ?thesis using rest [of w'] n sk nx e True r Cons.prems(2) by (simp add: call_sink_def [of call w es])
    qed
  qed
qed

definition source_of :: "world \<Rightarrow> event_source \<Rightarrow> bool" where
  "source_of w src \<longleftrightarrow> w_source w = Some src \<and> distinct (so_sinks src) \<and> (\<forall>es \<in> set (so_sinks src). \<exists>sk. w_sinks w es = Some sk \<and> 0 \<le> sk_ident sk \<and> sk_ident sk < FD_SETSIZE)"

text \<open>
  C37: when \<open>select\<close> has reported the files that are ready, the event sinks are called that wait for one of them, each once, in the order in which they
  were added, and no other sink; here the handlers leave the sinks alone.
\<close>

theorem sinks_of_ready_files:
  assumes "leaves_sinks call" and "source_of w src" and "length (so_sinks src) < n"
  shows "run_queue n call so_sinks (fd_ready rdFds wrFds) w =
    fold_opt (call_sink call) w (filter (\<lambda>es. case w_sinks w es of None \<Rightarrow> False
      | Some sk \<Rightarrow> sk_type sk = AG_SINK_READ \<and> sk_ident sk \<in> rdFds \<or> sk_type sk = AG_SINK_WRITE \<and> sk_ident sk \<in> wrFds) (so_sinks src))"
proof -
  let ?P = "\<lambda>sk. sk_type sk = AG_SINK_READ \<and> sk_ident sk \<in> rdFds \<or> sk_type sk = AG_SINK_WRITE \<and> sk_ident sk \<in> wrFds"
  have r: "\<forall>es \<in> set (so_sinks src). \<exists>sk. w_sinks w es = Some sk \<and> fd_ready rdFds wrFds sk = Some (?P sk)"
    using assms(2) by (fastforce simp: source_of_def fd_ready_def FD_ISSET_def)
  have "filter (\<lambda>es. ?P (the (w_sinks w es))) (so_sinks src) = filter (\<lambda>es. case w_sinks w es of None \<Rightarrow> False | Some sk \<Rightarrow> ?P sk) (so_sinks src)"
    using r by (intro filter_cong) (auto split: option.splits)
  then show ?thesis using run_sinks_leaving [of call w src so_sinks "[]" "so_sinks src" "fd_ready rdFds wrFds" ?P n] assms r
    by (simp add: run_queue_def source_of_def)
qed

text \<open>Two sinks that wait for the same file, which is ready to be read; the handler leaves a mark.\<close>

definition two_sinks :: world where
  "two_sinks = blank_world\<lparr>
     w_source := map_option (\<lambda>src. src\<lparr>so_sinks := [20, 21]\<rparr>) (CreateEventSource \<lparr>ec_method = By_timedselect, ec_kqueue_ok = True, ec_soft = False\<rparr>),
     w_sinks := [20 \<mapsto> \<lparr>sk_type = AG_SINK_READ, sk_ident = 5, sk_flags = 0, sk_flagsMatched = 0, sk_fn = 70, sk_fnArgs = blank_event\<rparr>,
                 21 \<mapsto> \<lparr>sk_type = AG_SINK_WRITE, sk_ident = 5, sk_flags = 0, sk_flagsMatched = 0, sk_fn = 71, sk_fnArgs = blank_event\<rparr>]\<rparr>"

definition mark_sink :: sink_fns where
  "mark_sink f es ev w = Some (0, w\<lparr>w_mem := (w_mem w)(f \<mapsto> M_buf ''x'')\<rparr>)"

theorem sinks_of_ready_files_witness:
  "run_queue 3 mark_sink so_sinks (fd_ready {5} {}) two_sinks = Some (two_sinks\<lparr>w_mem := [70 \<mapsto> M_buf ''x'']\<rparr>)"
proof -
  obtain src where src: "w_source two_sinks = Some src" "so_sinks src = [20, 21]" by (simp add: two_sinks_def CreateEventSource_def Let_def)
  have "source_of two_sinks src" using src by (simp add: source_of_def two_sinks_def FD_SETSIZE_def)
  moreover have "leaves_sinks mark_sink" by (simp add: leaves_sinks_def mark_sink_def)
  ultimately have "run_queue 3 mark_sink so_sinks (fd_ready {5} {}) two_sinks = fold_opt (call_sink mark_sink) two_sinks [20]"
    using sinks_of_ready_files [of mark_sink two_sinks src 3 "{5}" "{}"] src by (simp add: two_sinks_def)
  then show ?thesis by (simp add: call_sink_def mark_sink_def two_sinks_def blank_world_def)
qed

section \<open>The loop\<close>

text \<open>What a handler leaves alone: the sinks, and the queues of the loop.  It may set \<open>breakReq\<close> and the code to return.\<close>

definition keeps_queues :: "world \<Rightarrow> world \<Rightarrow> bool" where
  "keeps_queues w w' \<longleftrightarrow> w_sinks w' = w_sinks w \<and> (\<exists>src src'. w_source w = Some src \<and> w_source w' = Some src' \<and>
     so_prologues src' = so_prologues src \<and> so_spinners src' = so_spinners src \<and> so_epilogues src' = so_epilogues src)"

definition loop_ready :: "nat \<Rightarrow> world \<Rightarrow> bool" where
  "loop_ready n w \<longleftrightarrow> (\<exists>src. w_source w = Some src \<and> (\<forall>q \<in> {so_prologues src, so_spinners src, so_epilogues src}.
     distinct q \<and> length q < n \<and> (\<forall>es \<in> set q. w_sinks w es \<noteq> None)))"

text \<open>
  What the program keeps true (\<open>I\<close>) while the loop runs: there is a source whose queues hold existing sinks, each once; handlers
  keep it and leave the queues as they are, and the sink function keeps it.
\<close>

definition loop_safe :: "nat \<Rightarrow> event_env \<Rightarrow> (world \<Rightarrow> bool) \<Rightarrow> bool" where
  "loop_safe n env I \<longleftrightarrow> (\<forall>w. I w \<longrightarrow> loop_ready n w) \<and>
     (\<forall>w f es ev rv w'. I w \<longrightarrow> en_sink env f es ev w = Some (rv, w') \<longrightarrow> I w' \<and> keeps_queues w w') \<and>
     (\<forall>w src rv w'. I w \<longrightarrow> w_source w = Some src \<longrightarrow> sink_fn n env (so_sinkFn src) w = Some (rv, w') \<longrightarrow> I w')"

lemma run_sinks_each:
  assumes "loop_safe n0 env I" and "queue \<in> {so_prologues, so_spinners, so_epilogues}" and "I w" and "w_source w = Some src" and "queue src = xs @ ys"
    and "distinct (queue src)" and "\<forall>es \<in> set ys. w_sinks w es \<noteq> None" and "length ys < n"
  shows "run_sinks n (en_sink env) queue (\<lambda>sk. Some True) (first_of ys) w = fold_opt (call_sink (en_sink env)) w ys \<and>
    (\<forall>w'. fold_opt (call_sink (en_sink env)) w ys = Some w' \<longrightarrow> I w')"
  using assms
proof (induction ys arbitrary: xs w src n)
  case Nil
  then show ?case by (cases n) (simp_all add: first_of_def)
next
  case (Cons es ys)
  obtain m where n: "n = Suc m" "length ys < m" using Cons.prems(8) by (cases n) auto
  obtain sk where sk: "w_sinks w es = Some sk" using Cons.prems(7) by auto
  have e: "first_of (es # ys) = Some es" by (simp add: first_of_def)
  show ?case
  proof (cases "en_sink env (sk_fn sk) es (sk_fnArgs sk) w")
    case None
    then show ?thesis using n sk e by (simp add: call_sink_def)
  next
    case (Some r)
    then obtain rv w' where r: "en_sink env (sk_fn sk) es (sk_fnArgs sk) w = Some (rv, w')" by (cases r) auto
    then have I: "I w'" and q: "keeps_queues w w'" using Cons.prems(1,3) unfolding loop_safe_def by blast+
    then obtain src' where src': "w_source w' = Some src'" "queue src' = queue src" "w_sinks w' = w_sinks w"
      using Cons.prems(2,4) by (auto simp: keeps_queues_def)
    have nx: "next_of es (queue src') = Some (first_of ys)" using Cons.prems(5,6) src'(2) by (simp add: next_of_between)
    have "run_sinks m (en_sink env) queue (\<lambda>sk. Some True) (first_of ys) w' = fold_opt (call_sink (en_sink env)) w' ys \<and>
      (\<forall>w''. fold_opt (call_sink (en_sink env)) w' ys = Some w'' \<longrightarrow> I w'')"
      using Cons.IH [OF Cons.prems(1,2) I src'(1), of "xs @ [es]" m] Cons.prems(5-7) src'(2,3) n(2) by simp
    then show ?thesis using n(1) sk e r nx src'(1) by (simp add: call_sink_def [of _ w es])
  qed
qed

lemma run_queue_each:
  assumes "loop_safe n env I" and "queue \<in> {so_prologues, so_spinners, so_epilogues}" and "I w" and "w_source w = Some src"
  shows "run_queue n (en_sink env) queue (\<lambda>sk. Some True) w = fold_opt (call_sink (en_sink env)) w (queue src)"
    and "fold_opt (call_sink (en_sink env)) w (queue src) = Some w' \<Longrightarrow> I w'"
proof -
  have "loop_ready n w" using assms(1,3) unfolding loop_safe_def by blast
  then have q: "distinct (queue src)" "length (queue src) < n" "\<forall>es \<in> set (queue src). w_sinks w es \<noteq> None"
    using assms(2,4) by (auto simp: loop_ready_def)
  note each = run_sinks_each [OF assms(1-4), of "[]" "queue src" n] q
  show "run_queue n (en_sink env) queue (\<lambda>sk. Some True) w = fold_opt (call_sink (en_sink env)) w (queue src)"
    using each assms(4) by (simp add: run_queue_def)
  show "fold_opt (call_sink (en_sink env)) w (queue src) = Some w' \<Longrightarrow> I w'" using each by simp
qed

text \<open>
  The loop as it is meant: the spinners are called, each once and in order, then the sink function of the source; if it fails
  the loop ends with 1, and otherwise the epilogues are called in the same way, and the loop ends with the code of the source if a
  break is requested by then.
\<close>

inductive loop_runs :: "nat \<Rightarrow> event_env \<Rightarrow> world \<Rightarrow> int \<Rightarrow> world \<Rightarrow> bool" for n env where
  sink_fails: "w_source w = Some src \<Longrightarrow> fold_opt (call_sink (en_sink env)) w (so_spinners src) = Some w1 \<Longrightarrow>
    w_source w1 = Some src1 \<Longrightarrow> sink_fn n env (so_sinkFn src1) w1 = Some (-1, w2) \<Longrightarrow> loop_runs n env w 1 w2"
| break_requested: "w_source w = Some src \<Longrightarrow> fold_opt (call_sink (en_sink env)) w (so_spinners src) = Some w1 \<Longrightarrow>
    w_source w1 = Some src1 \<Longrightarrow> sink_fn n env (so_sinkFn src1) w1 = Some (rv, w2) \<Longrightarrow> rv \<noteq> -1 \<Longrightarrow>
    w_source w2 = Some src2 \<Longrightarrow> fold_opt (call_sink (en_sink env)) w2 (so_epilogues src2) = Some w3 \<Longrightarrow>
    w_source w3 = Some src3 \<Longrightarrow> so_breakReq src3 \<noteq> 0 \<Longrightarrow> loop_runs n env w (so_returnCode src3) w3"
| next_pass: "w_source w = Some src \<Longrightarrow> fold_opt (call_sink (en_sink env)) w (so_spinners src) = Some w1 \<Longrightarrow>
    w_source w1 = Some src1 \<Longrightarrow> sink_fn n env (so_sinkFn src1) w1 = Some (rv, w2) \<Longrightarrow> rv \<noteq> -1 \<Longrightarrow>
    w_source w2 = Some src2 \<Longrightarrow> fold_opt (call_sink (en_sink env)) w2 (so_epilogues src2) = Some w3 \<Longrightarrow>
    w_source w3 = Some src3 \<Longrightarrow> so_breakReq src3 = 0 \<Longrightarrow> loop_runs n env w3 rc w' \<Longrightarrow> loop_runs n env w rc w'"

lemma bind_SomeE: "Option.bind x f = Some y \<Longrightarrow> (\<And>a. x = Some a \<Longrightarrow> f a = Some y \<Longrightarrow> thesis) \<Longrightarrow> thesis"
  by (cases x) auto

lemma safe_source: "loop_safe n env I \<Longrightarrow> I w \<Longrightarrow> \<exists>src. w_source w = Some src"
  unfolding loop_safe_def loop_ready_def by blast

lemma loop_pass_runs:
  assumes "loop_safe n env I" and "I w" and "loop_pass n env w = Some (q, w')"
  shows "I w' \<and> (case q of Some rc \<Rightarrow> loop_runs n env w rc w' | None \<Rightarrow> (\<forall>rc w''. loop_runs n env w' rc w'' \<longrightarrow> loop_runs n env w rc w''))"
proof -
  note safe = safe_source [OF assms(1)]
  obtain src where src: "w_source w = Some src" using safe [OF assms(2)] by blast
  let ?rest = "\<lambda>rv w2. if rv = -1 then Some (Some 1, w2) else do {
       w \<leftarrow> run_queue n (en_sink env) so_epilogues (\<lambda>sk. Some True) w2; src \<leftarrow> w_source w;
       Some (if so_breakReq src \<noteq> 0 then Some (so_returnCode src) else None, w) }"
  have "loop_pass n env w = do { w1 \<leftarrow> fold_opt (call_sink (en_sink env)) w (so_spinners src); src1 \<leftarrow> w_source w1;
      (rv, w2) \<leftarrow> sink_fn n env (so_sinkFn src1) w1; ?rest rv w2 }"
    using run_queue_each(1) [OF assms(1) _ assms(2) src, of so_spinners] by (simp add: loop_pass_def)
  from this [symmetric] assms(3) have "do { w1 \<leftarrow> fold_opt (call_sink (en_sink env)) w (so_spinners src); src1 \<leftarrow> w_source w1;
      (rv, w2) \<leftarrow> sink_fn n env (so_sinkFn src1) w1; ?rest rv w2 } = Some (q, w')" by (rule trans)
  then obtain w1 src1 rv w2 where w1: "fold_opt (call_sink (en_sink env)) w (so_spinners src) = Some w1" "w_source w1 = Some src1"
    "sink_fn n env (so_sinkFn src1) w1 = Some (rv, w2)" and rest: "?rest rv w2 = Some (q, w')"
    by (elim bind_SomeE) (auto simp del: if_split)
  have I1: "I w1" using run_queue_each(2) [OF assms(1) _ assms(2) src, of so_spinners] w1(1) by simp
  then have I2: "I w2" using assms(1) w1(2,3) unfolding loop_safe_def by blast
  show ?thesis
  proof (cases "rv = -1")
    case True
    then have "sink_fn n env (so_sinkFn src1) w1 = Some (-1, w2)" "q = Some 1" "w' = w2" using rest w1(3) by simp_all
    then show ?thesis using I2 sink_fails [OF src w1(1,2)] by simp
  next
    case False
    obtain src2 where src2: "w_source w2 = Some src2" using safe [OF I2] by blast
    have "do { w3 \<leftarrow> fold_opt (call_sink (en_sink env)) w2 (so_epilogues src2); src3 \<leftarrow> w_source w3;
        Some (if so_breakReq src3 \<noteq> 0 then Some (so_returnCode src3) else None, w3) } = Some (q, w')"
      using rest False run_queue_each(1) [OF assms(1) _ I2 src2, of so_epilogues] by (simp only: if_False) simp
    then obtain w3 src3 where w3: "fold_opt (call_sink (en_sink env)) w2 (so_epilogues src2) = Some w3" "w_source w3 = Some src3"
      and q: "q = (if so_breakReq src3 \<noteq> 0 then Some (so_returnCode src3) else None)" "w' = w3"
      by (elim bind_SomeE) (auto simp del: if_split)
    have I3: "I w3" using run_queue_each(2) [OF assms(1) _ I2 src2, of so_epilogues] w3(1) by simp
    show ?thesis
      using q I3 break_requested [OF src w1(1,2,3) False src2 w3] next_pass [OF src w1(1,2,3) False src2 w3] by auto
  qed
qed

lemma event_loop_runs:
  assumes "event_loop n env w = Some r" and "loop_safe n env I" and "I w"
  shows "loop_runs n env w (fst r) (snd r)"
proof -
  have "n' = n \<longrightarrow> env' = env \<longrightarrow> I w \<longrightarrow> loop_runs n env w (fst r) (snd r)" if "event_loop n' env' w = Some r" for n' env' w r
    using that
  proof (rule event_loop.raw_induct [where P = "\<lambda>n' env' w r. n' = n \<longrightarrow> env' = env \<longrightarrow> I w \<longrightarrow> loop_runs n env w (fst r) (snd r)", rotated], intro impI)
    fix loop n' env' w r
    assume IH: "\<And>n' env' w r. loop n' env' w = Some r \<Longrightarrow> n' = n \<longrightarrow> env' = env \<longrightarrow> I w \<longrightarrow> loop_runs n env w (fst r) (snd r)"
      and body: "(do { (q, w) \<leftarrow> loop_pass n' env' w; case q of Some rc \<Rightarrow> Some (rc, w) | None \<Rightarrow> loop n' env' w }) = Some r"
      and eq: "n' = n" "env' = env" and I: "I w"
    obtain q w1 where q: "loop_pass n env w = Some (q, w1)" "(case q of Some rc \<Rightarrow> Some (rc, w1) | None \<Rightarrow> loop n env w1) = Some r"
      using body eq by (auto simp: bind_eq_Some_conv)
    then show "loop_runs n env w (fst r) (snd r)"
      using loop_pass_runs [OF assms(2) I q(1)] IH [of n env w1 r] by (cases q) auto
  qed
  then show ?thesis using assms by blast
qed

lemma loop_runs_event:
  assumes "loop_safe n env I"
  shows "loop_runs n env w rc w' \<Longrightarrow> I w \<Longrightarrow> event_loop n env w = Some (rc, w')"
proof (induction rule: loop_runs.induct)
  case (sink_fails w src w1 src1 w2)
  then have "loop_pass n env w = Some (Some 1, w2)"
    using run_queue_each(1) [OF assms _ sink_fails.prems sink_fails.hyps(1), of so_spinners] by (simp add: loop_pass_def)
  then show ?case by (simp add: event_loop.simps)
next
  case (break_requested w src w1 src1 rv w2 src2 w3 src3)
  have "I w1" using run_queue_each(2) [OF assms _ break_requested.prems break_requested.hyps(1), of so_spinners] break_requested.hyps(2) by simp
  then have I2: "I w2" using assms break_requested.hyps(3,4) unfolding loop_safe_def by blast
  have "loop_pass n env w = Some (Some (so_returnCode src3), w3)"
    using break_requested.hyps run_queue_each(1) [OF assms _ break_requested.prems break_requested.hyps(1), of so_spinners]
      run_queue_each(1) [OF assms _ I2 break_requested.hyps(6), of so_epilogues] by (simp add: loop_pass_def)
  then show ?case by (simp add: event_loop.simps)
next
  case (next_pass w src w1 src1 rv w2 src2 w3 src3 rc w')
  have "I w1" using run_queue_each(2) [OF assms _ next_pass.prems next_pass.hyps(1), of so_spinners] next_pass.hyps(2) by simp
  then have I2: "I w2" using assms next_pass.hyps(3,4) unfolding loop_safe_def by blast
  then have I3: "I w3" using run_queue_each(2) [OF assms _ I2 next_pass.hyps(6), of so_epilogues] next_pass.hyps(7) by simp
  have "loop_pass n env w = Some (None, w3)"
    using next_pass.hyps run_queue_each(1) [OF assms _ next_pass.prems next_pass.hyps(1), of so_spinners]
      run_queue_each(1) [OF assms _ I2 next_pass.hyps(6), of so_epilogues] by (simp add: loop_pass_def)
  then show ?case using next_pass.IH [OF I3] by (simp add: event_loop.simps [of n env w])
qed

text \<open>
  C33: \<open>AG_EventLoop\<close> calls the prologues of the source, each once and in order, and then does what \<open>loop_runs\<close> says, pass by pass: it returns a
  code in a world exactly if that ends there.  The handlers of these queues are taken to leave the queues and the sinks as they are,
  and may request a break (\<open>AG_Terminate\<close>) or change anything else; the sink function may change the queues, as long as they hold existing
  sinks, each once, and fewer than the fuel \<open>n\<close> (\<open>loop_safe\<close>).
\<close>

theorem AG_EventLoop_runs:
  assumes "loop_safe n env I" and "AG_GetEventSource cfg w = Some (src, w0)" and "I w0"
  shows "AG_EventLoop n cfg env w = Some (rc, w') \<longleftrightarrow>
    (\<exists>w1. fold_opt (call_sink (en_sink env)) w0 (so_prologues src) = Some w1 \<and> loop_runs n env w1 rc w')"
proof -
  have src: "w_source w0 = Some src"
    using assms(2) by (auto simp: AG_GetEventSource_def put_source_def bind_eq_Some_conv split: option.splits)
  have "AG_EventLoop n cfg env w = do { w1 \<leftarrow> fold_opt (call_sink (en_sink env)) w0 (so_prologues src); event_loop n env w1 }"
    using assms(2) run_queue_each(1) [OF assms(1) _ assms(3) src, of so_prologues] by (simp add: AG_EventLoop_def)
  moreover have "event_loop n env w1 = Some (rc, w') \<longleftrightarrow> loop_runs n env w1 rc w'"
    if "fold_opt (call_sink (en_sink env)) w0 (so_prologues src) = Some w1" for w1
  proof -
    have "I w1" using run_queue_each(2) [OF assms(1) _ assms(3) src, of so_prologues] that by simp
    then show ?thesis using event_loop_runs [OF _ assms(1), of w1 "(rc, w')"] loop_runs_event [OF assms(1)] by auto
  qed
  ultimately show ?thesis by (auto simp: bind_eq_Some_conv)
qed

text \<open>A source without files, with a spinner that leaves a mark and an epilogue that ends the loop.\<close>

definition spin_cfg :: event_cfg where "spin_cfg = \<lparr>ec_method = By_spinner, ec_kqueue_ok = True, ec_soft = False\<rparr>"

definition still_env :: "32 word \<Rightarrow> event_env" where
  "still_env t = \<lparr>en_timers = wheel_at t, en_sink = mark_sink, en_timer = test_fns, en_select = (\<lambda>_ _ _ _ w. (Sel_error, w)),
     en_kevent = (\<lambda>_ _ w. (Kq_error, w)), en_timerfd = (\<lambda>w. (None, w)), en_settime = (\<lambda>_ _ w. (False, w)), en_close = (\<lambda>_ w. w),
     en_delay = (\<lambda>w. w), en_note = (\<lambda>_. 1)\<rparr>"

definition ending_sink :: sink_fns where
  "ending_sink f es ev w = (if f = 71 then do { w \<leftarrow> AG_Terminate spin_cfg 4 w; Some (0, w) } else mark_sink f es ev w)"

definition spinning :: world where
  "spinning = blank_world\<lparr>
     w_source := map_option (\<lambda>src. src\<lparr>so_spinners := [20], so_epilogues := [21]\<rparr>) (CreateEventSource spin_cfg),
     w_sinks := [20 \<mapsto> \<lparr>sk_type = AG_SINK_SPINNER, sk_ident = 0, sk_flags = 0, sk_flagsMatched = 0, sk_fn = 70, sk_fnArgs = blank_event\<rparr>,
                 21 \<mapsto> \<lparr>sk_type = AG_SINK_EPILOGUE, sk_ident = 0, sk_flags = 0, sk_flagsMatched = 0, sk_fn = 71, sk_fnArgs = blank_event\<rparr>]\<rparr>"

definition spinning_ok :: "world \<Rightarrow> bool" where
  "spinning_ok w \<longleftrightarrow> w_timerObjQ w = [] \<and> w_sinks w = w_sinks spinning \<and> (\<exists>src. w_source w = Some src \<and> so_sinkFn src = By_spinner \<and>
     so_prologues src = [] \<and> so_spinners src = [20] \<and> so_epilogues src = [21])"

lemma spinning_timeouts: "w_timerObjQ w = [] \<Longrightarrow> AG_EventSinkSPINNER 9 ((still_env 3)\<lparr>en_sink := ending_sink\<rparr>) w = Some (0, w)"
  by (simp add: AG_EventSinkSPINNER_def AG_ProcessTimeouts_def first_of_def still_env_def wheel_at_def eval_nat_numeral)

lemma spinning_safe: "loop_safe 9 ((still_env 3)\<lparr>en_sink := ending_sink\<rparr>) spinning_ok"
  unfolding loop_safe_def
proof (intro conjI allI impI)
  show "loop_ready 9 w" if "spinning_ok w" for w
    using that by (auto simp: spinning_ok_def loop_ready_def spinning_def)
  fix w f es ev rv w'
  assume "spinning_ok w" "en_sink ((still_env 3)\<lparr>en_sink := ending_sink\<rparr>) f es ev w = Some (rv, w')"
  then show "spinning_ok w'" "keeps_queues w w'"
    by (auto simp: ending_sink_def mark_sink_def AG_Terminate_def AG_GetEventSource_def put_source_def spinning_ok_def keeps_queues_def bind_eq_Some_conv
        split: if_splits)
next
  fix w src rv w'
  assume a: "spinning_ok w" "w_source w = Some src" "sink_fn 9 ((still_env 3)\<lparr>en_sink := ending_sink\<rparr>) (so_sinkFn src) w = Some (rv, w')"
  then have "so_sinkFn src = By_spinner" "w_timerObjQ w = []" by (auto simp: spinning_ok_def)
  then show "spinning_ok w'" using a spinning_timeouts [of w] by (simp add: sink_fn_def)
qed

theorem AG_EventLoop_runs_witness:
  "\<exists>w'. AG_EventLoop 9 spin_cfg ((still_env 3)\<lparr>en_sink := ending_sink\<rparr>) spinning = Some (4, w') \<and> w_mem w' = [70 \<mapsto> M_buf ''x'']"
proof -
  let ?env = "(still_env 3)\<lparr>en_sink := ending_sink\<rparr>" and ?w1 = "spinning\<lparr>w_mem := [70 \<mapsto> M_buf ''x'']\<rparr>"
  obtain src where src: "w_source spinning = Some src" "so_sinkFn src = By_spinner" "so_prologues src = []" "so_spinners src = [20]" "so_epilogues src = [21]"
    by (simp add: spinning_def CreateEventSource_def spin_cfg_def)
  let ?src = "src\<lparr>so_breakReq := 1, so_returnCode := 4\<rparr>" and ?w3 = "put_source (src\<lparr>so_breakReq := 1, so_returnCode := 4\<rparr>) ?w1"
  have q: "w_timerObjQ spinning = []" by (simp add: spinning_def blank_world_def)
  have sk: "\<exists>sk. w_sinks spinning 20 = Some sk \<and> sk_fn sk = 70" "\<exists>sk. w_sinks spinning 21 = Some sk \<and> sk_fn sk = 71" by (simp_all add: spinning_def)
  have mem: "w_mem spinning = Map.empty" by (simp add: spinning_def blank_world_def)
  have "fold_opt (call_sink (en_sink ?env)) spinning (so_spinners src) = Some ?w1"
    using sk(1) src mem by (auto simp: call_sink_def ending_sink_def mark_sink_def)
  moreover have "sink_fn 9 ?env (so_sinkFn src) ?w1 = Some (0, ?w1)" using src(2) q spinning_timeouts [of ?w1] by (simp add: sink_fn_def)
  moreover have "fold_opt (call_sink (en_sink ?env)) ?w1 (so_epilogues src) = Some ?w3"
    using sk(2) src by (auto simp: call_sink_def ending_sink_def AG_Terminate_def AG_GetEventSource_def)
  ultimately have "loop_runs 9 ?env spinning (so_returnCode ?src) ?w3"
    using src(1) by (intro loop_runs.break_requested [of spinning src ?env ?w1 src 9 0 ?w1 src]) (simp_all add: put_source_def)
  moreover have "AG_GetEventSource spin_cfg spinning = Some (src, spinning)" using src by (simp add: AG_GetEventSource_def)
  moreover have "spinning_ok spinning" using src q by (simp add: spinning_ok_def)
  ultimately have "AG_EventLoop 9 spin_cfg ?env spinning = Some (4, ?w3)"
    using AG_EventLoop_runs [OF spinning_safe, of spin_cfg spinning src spinning 4 ?w3] src(1,3) by simp
  then show ?thesis by (auto simp: put_source_def)
qed

section \<open>Timers in the timeout of select\<close>

text \<open>The timers that there are, and the time until each, as the code computes it.\<close>

definition all_timers :: "world \<Rightarrow> AG_Timer list option" where
  "all_timers w = fold_timers (\<lambda>Ts to. do { T \<leftarrow> w_timers w to; Some (Ts @ [T]) }) [] w"

lemma fold_timers_all:
  assumes "all_timers w = Some Ts" and "\<And>s to. f s to = (do { T \<leftarrow> w_timers w to; Some (g s T) })"
  shows "fold_timers f s w = Some (foldl g s Ts)"
proof -
  have one: "fold_opt f s ts = Some (foldl g s Us) \<and> acc' = acc @ Us"
    if "fold_opt (\<lambda>Ts to. do { T \<leftarrow> w_timers w to; Some (Ts @ [T]) }) acc ts = Some acc'" "Us = drop (length acc) acc'" for ts acc acc' s Us
    using that
  proof (induction ts arbitrary: acc s Us)
    case (Cons to ts)
    then obtain T where T: "w_timers w to = Some T" "fold_opt (\<lambda>Ts to. do { T \<leftarrow> w_timers w to; Some (Ts @ [T]) }) (acc @ [T]) ts = Some acc'"
      by (auto simp: bind_eq_Some_conv)
    from Cons.IH [OF T(2) refl, of "g s T"] obtain Vs where "Vs = drop (length (acc @ [T])) acc'" "acc' = (acc @ [T]) @ Vs" "fold_opt f (g s T) ts = Some (foldl g (g s T) Vs)"
      by blast
    then show ?case using Cons.prems(2) T(1) assms(2) [of s to] by simp
  qed simp
  have "fold_opt (\<lambda>s p. do { ts \<leftarrow> timers_of p w; fold_opt f s ts }) s ps = Some (foldl g s Us) \<and> acc' = acc @ Us"
    if "fold_opt (\<lambda>Ts p. do { ts \<leftarrow> timers_of p w; fold_opt (\<lambda>Ts to. do { T \<leftarrow> w_timers w to; Some (Ts @ [T]) }) Ts ts }) acc ps = Some acc'"
      "Us = drop (length acc) acc'" for ps acc acc' s Us
    using that
  proof (induction ps arbitrary: acc s Us)
    case (Cons p ps)
    then obtain ts acc1 where ts: "timers_of p w = Some ts" "fold_opt (\<lambda>Ts to. do { T \<leftarrow> w_timers w to; Some (Ts @ [T]) }) acc ts = Some acc1"
      and r: "fold_opt (\<lambda>Ts p. do { ts \<leftarrow> timers_of p w; fold_opt (\<lambda>Ts to. do { T \<leftarrow> w_timers w to; Some (Ts @ [T]) }) Ts ts }) acc1 ps = Some acc'"
      by (auto simp: bind_eq_Some_conv)
    obtain Vs where V: "fold_opt f s ts = Some (foldl g s Vs)" "acc1 = acc @ Vs" using one [OF ts(2) refl, of s] by blast
    obtain Ws where "Ws = drop (length acc1) acc'" "acc' = acc1 @ Ws"
      "fold_opt (\<lambda>s p. do { ts \<leftarrow> timers_of p w; fold_opt f s ts }) (foldl g s Vs) ps = Some (foldl g (foldl g s Vs) Ws)"
      using Cons.IH [OF r refl, of "foldl g s Vs"] by blast
    then show ?case using Cons.prems(2) ts(1) V by simp
  qed simp
  from this [of "[]" "w_timerObjQ w" Ts Ts s] show ?thesis using assms(1) by (simp add: all_timers_def fold_timers_def)
qed

lemma foldl_min: "foldl (\<lambda>s T. if d T < s then d T else s) s Ts = Min (insert s (d ` set Ts))" for s :: "32 word"
proof (induction Ts arbitrary: s)
  case (Cons T Ts)
  have "Min (insert (if d T < s then d T else s) (d ` set Ts)) = Min (insert s (insert (d T) (d ` set Ts)))"
    by (cases "d ` set Ts = {}") (auto simp: min_def not_less)
  then show ?case using Cons by simp
qed simp

lemma soonest_min: "all_timers w = Some Ts \<Longrightarrow> soonest w t = Some (Min (insert 0xfffffffe ((\<lambda>T. to_tSched T - t) ` set Ts)))"
  unfolding soonest_def using fold_timers_all [of w Ts _ "\<lambda>s T. if to_tSched T - t < s then to_tSched T - t else s" "0xfffffffe"]
  by (simp add: foldl_min)

text \<open>
  C34: the select of a source without spinners waits until the first timer expires, if no timer is late; but when all timers are late (by up to 24 days) it
  waits for at least 24 days, because the time left is computed without a sign.
\<close>

theorem AG_EventSinkTIMEDSELECT_waits:
  assumes "w_source w = Some src" and "so_spinners src = []" and "fold_opt (watch_sink w) (0, {}, {}) (so_sinks src) = Some (nFds, rdFds, wrFds)"
    and "all_timers w = Some Ts"
  shows "\<exists>s. (\<forall>w'. en_select env (nFds + 1) rdFds wrFds (Some (unat s div 1000, unat s mod 1000 * 1000)) w = (Sel_error, w') \<longrightarrow>
        AG_EventSinkTIMEDSELECT n env w = Some (-1, w')) \<and>
    ((\<forall>T \<in> set Ts. to_tSched T - src_ticks (en_timers env) w < 2 ^ 31) \<and> Ts \<noteq> [] \<longrightarrow>
      s \<in> (\<lambda>T. to_tSched T - src_ticks (en_timers env) w) ` set Ts \<and> (\<forall>T \<in> set Ts. s \<le> to_tSched T - src_ticks (en_timers env) w)) \<and>
    ((\<forall>T \<in> set Ts. 2 ^ 31 \<le> to_tSched T - src_ticks (en_timers env) w) \<longrightarrow> (s :: 32 word) \<ge> 2 ^ 31)"
proof -
  let ?t = "src_ticks (en_timers env) w"
  let ?D = "(\<lambda>T. to_tSched T - ?t) ` set Ts"
  define s where "s = Min (insert 0xfffffffe ?D)"
  have "soonest w ?t = Some s" using soonest_min [OF assms(4)] by (simp add: s_def)
  then have a: "\<forall>w'. en_select env (nFds + 1) rdFds wrFds (Some (unat s div 1000, unat s mod 1000 * 1000)) w = (Sel_error, w') \<longrightarrow>
        AG_EventSinkTIMEDSELECT n env w = Some (-1, w')"
    using assms by (simp add: AG_EventSinkTIMEDSELECT_def timedselect.simps)
  have fin: "finite (insert 0xfffffffe ?D)" by simp
  have b: "s \<in> ?D \<and> (\<forall>T \<in> set Ts. s \<le> to_tSched T - ?t)" if early: "\<forall>T \<in> set Ts. to_tSched T - ?t < 2 ^ 31" and "Ts \<noteq> []"
  proof -
    obtain T where T: "T \<in> set Ts" using \<open>Ts \<noteq> []\<close> by (cases Ts) auto
    have "s \<le> to_tSched T - ?t" unfolding s_def using T fin by (intro Min_le) auto
    also have "\<dots> < 2 ^ 31" using early T by blast
    finally have "s \<noteq> 0xfffffffe" by auto
    moreover have "s \<in> insert 0xfffffffe ?D" unfolding s_def using fin by (intro Min_in) auto
    ultimately show ?thesis using fin by (auto simp: s_def intro!: Min_le)
  qed
  have c: "2 ^ 31 \<le> s" if "\<forall>T \<in> set Ts. 2 ^ 31 \<le> to_tSched T - ?t"
    unfolding s_def using that by (subst Min_ge_iff) auto
  show ?thesis using a b c by blast
qed

text \<open>
  No sinks, and the timers of \<open>timer_world\<close>, of which the first expires at 3; \<open>select\<close> notes how many microseconds it waits.  At 1 these are 2 ms, at
  100 they are more than 24 days.
\<close>

definition timed_world :: world where
  "timed_world = timer_world\<lparr>w_source := CreateEventSource \<lparr>ec_method = By_timedselect, ec_kqueue_ok = True, ec_soft = False\<rparr>\<rparr>"

definition waiting_env :: "32 word \<Rightarrow> event_env" where
  "waiting_env t = (still_env t)\<lparr>en_select := \<lambda>_ _ _ timeo w. (Sel_error, w\<lparr>w_brk := (case timeo of None \<Rightarrow> 0 | Some (s, us) \<Rightarrow> s * 1000000 + us)\<rparr>)\<rparr>"

lemma timed_world_timers: "all_timers timed_world = Some [test_timer 0 5, test_timer 0 20, test_timer 1 3]"
  by (simp add: all_timers_def fold_timers_def timed_world_def timer_world_def timers_of_def blank_obj_def)

theorem AG_EventSinkTIMEDSELECT_waits_witness:
  "AG_EventSinkTIMEDSELECT 9 (waiting_env 1) timed_world = Some (-1, timed_world\<lparr>w_brk := 2000\<rparr>) \<and>
   (\<exists>us. AG_EventSinkTIMEDSELECT 9 (waiting_env 100) timed_world = Some (-1, timed_world\<lparr>w_brk := us\<rparr>) \<and> 24 * 24 * 60 * 60 * 1000000 \<le> us)"
proof -
  obtain src where src: "w_source timed_world = Some src" "so_spinners src = []" "so_sinks src = []"
    by (simp add: timed_world_def CreateEventSource_def Let_def)
  have f: "fold_opt (watch_sink timed_world) (0, {}, {}) (so_sinks src) = Some (0, {}, {})" using src by simp
  note waits = AG_EventSinkTIMEDSELECT_waits [OF src(1,2) f timed_world_timers]
  have us: "unat s div 1000 * 1000000 + unat s mod 1000 * 1000 = unat s * 1000" for s :: "32 word"
  proof -
    have "unat s div 1000 * 1000000 + unat s mod 1000 * 1000 = (unat s div 1000 * 1000 + unat s mod 1000) * 1000" by (simp only: distrib_right mult.assoc)
    then show ?thesis by simp
  qed
  have sel: "en_select (waiting_env t) (0 + 1) {} {} (Some (unat s div 1000, unat s mod 1000 * 1000)) timed_world =
      (Sel_error, timed_world\<lparr>w_brk := unat s * 1000\<rparr>)" for t and s :: "32 word"
    by (simp add: waiting_env_def us)
  have t: "src_ticks (en_timers (waiting_env t)) timed_world = t" for t by (simp add: waiting_env_def still_env_def wheel_at_def)
  obtain s :: "32 word" where s: "AG_EventSinkTIMEDSELECT 9 (waiting_env 1) timed_world = Some (-1, timed_world\<lparr>w_brk := unat s * 1000\<rparr>)"
    and e: "s \<in> {4, 19, 2}" "s \<le> 2"
    using waits [of "waiting_env 1" 9] unfolding sel t by (auto simp: test_timer_def)
  from e have "s = 2" by auto
  moreover obtain r :: "32 word" where r: "AG_EventSinkTIMEDSELECT 9 (waiting_env 100) timed_world = Some (-1, timed_world\<lparr>w_brk := unat r * 1000\<rparr>)"
    and "2 ^ 31 \<le> r"
    using waits [of "waiting_env 100" 9] unfolding sel t by (auto simp: test_timer_def)
  then have "unat (2 ^ 31 :: 32 word) \<le> unat r" by (simp only: word_le_nat_alt)
  ultimately show ?thesis using s r by (intro conjI exI [of _ "unat r * 1000"]) simp_all
qed

text \<open>With a spinner the ticks for the timers are never read from the clock.\<close>

lemma timedselect_spinner:
  assumes "w_source w = Some src" and "so_spinners src \<noteq> []" and "fold_opt (watch_sink w) (0, {}, {}) (so_sinks src) = Some (nFds, rdFds, wrFds)"
    and "en_select env (nFds + 1) rdFds wrFds (Some (0, 0)) w = (Sel_ready rv r1 r2, w')"
  shows "AG_EventSinkTIMEDSELECT n env w = None"
  using assms by (simp add: AG_EventSinkTIMEDSELECT_def timedselect.simps)

section \<open>Numbers of timers\<close>

lemma gen_id_fresh: "gen_id ids c = Some r \<Longrightarrow> fst r \<notin> set ids"
  by (rule gen_id.raw_induct [where P = "\<lambda>ids c r. fst r \<notin> set ids"]) (auto split: if_splits)

lemma gen_id_ends: "sint (c + of_nat (Suc j)) \<notin> set ids \<Longrightarrow> \<exists>r. gen_id ids c = Some r"
proof (induction j arbitrary: c)
  case 0
  then show ?case by (simp add: gen_id.simps)
next
  case (Suc j)
  show ?case
  proof (cases "sint (c + 1) \<in> set ids")
    case True
    then show ?thesis using Suc.IH [of "c + 1"] Suc.prems by (simp add: gen_id.simps [of ids c] add.assoc)
  qed (simp add: gen_id.simps)
qed

text \<open>
  C35: the number that a new timer gets from \<open>GenerateTimerID\<close> is that of no other timer, and the search for it ends as long as there are fewer than
  \<open>2 ^ 32 - 1\<close> others.
\<close>

theorem GenerateTimerID_fresh:
  assumes "other_ids w to = Some ids" and "length ids < 2 ^ 32 - 1"
  shows "\<exists>i c. GenerateTimerID to w = Some (i, w\<lparr>w_timerCount := c\<rparr>) \<and> i \<notin> set ids"
proof -
  let ?c = "w_timerCount w" and ?J = "{1..length ids + 1}"
  have inj: "inj_on (\<lambda>j. sint (?c + of_nat j)) ?J"
  proof (rule inj_onI)
    fix i j assume ij: "i \<in> ?J" "j \<in> ?J" "sint (?c + of_nat i) = sint (?c + of_nat j)"
    then have "(of_nat i :: 32 word) = of_nat j" by (metis add_left_cancel signed_word_eqI)
    then have "unat (of_nat i :: 32 word) = unat (of_nat j :: 32 word)" by simp
    then have "i mod 2 ^ 32 = j mod 2 ^ 32" by (simp add: unat_of_nat)
    moreover have "i < 2 ^ 32" "j < 2 ^ 32" using ij(1,2) assms(2) by auto
    ultimately show "i = j" by simp
  qed
  have "\<not> (\<lambda>j. sint (?c + of_nat j)) ` ?J \<subseteq> set ids"
  proof
    assume "(\<lambda>j. sint (?c + of_nat j)) ` ?J \<subseteq> set ids"
    then have "card ?J \<le> card (set ids)" using card_mono [of "set ids" "(\<lambda>j. sint (?c + of_nat j)) ` ?J"] card_image [OF inj] by simp
    then show False using card_length [of ids] by simp
  qed
  then obtain j where "j \<in> ?J" "sint (?c + of_nat j) \<notin> set ids" by blast
  then obtain r where "gen_id ids ?c = Some r" using gen_id_ends [of ?c "j - 1" ids] by fastforce
  then show ?thesis using assms(1) gen_id_fresh [of ids ?c r] by (cases r) (auto simp: GenerateTimerID_def)
qed

theorem GenerateTimerID_fresh_witness:
  "\<exists>i c. GenerateTimerID 10 timer_world = Some (i, timer_world\<lparr>w_timerCount := c\<rparr>) \<and> i \<notin> {to_id (test_timer 0 20), to_id (test_timer 1 3)}"
proof -
  have "other_ids timer_world 10 = Some [to_id (test_timer 0 20), to_id (test_timer 1 3)]"
    by (simp add: other_ids_def fold_timers_def timer_world_def timers_of_def blank_obj_def)
  then show ?thesis using GenerateTimerID_fresh [of timer_world 10] by fastforce
qed

text \<open>\<open>GetSinkFlags\<close> returns no flags at all.\<close>

lemma GetSinkFlags_zero: "GetSinkFlags NOTE fflags = 0" by (simp add: GetSinkFlags_def)

section \<open>The queues of a source\<close>

text \<open>The sinks of the queues, with the queue that each is in.\<close>

datatype sink_queue = Q_prologues | Q_epilogues | Q_spinners | Q_sinks

definition tagged :: "event_source \<Rightarrow> (sink_queue \<times> nat) list" where
  "tagged src = map (Pair Q_prologues) (so_prologues src) @ map (Pair Q_epilogues) (so_epilogues src) @
     map (Pair Q_spinners) (so_spinners src) @ map (Pair Q_sinks) (so_sinks src)"

fun fits_queue :: "event_source \<Rightarrow> sink_queue \<Rightarrow> ag_event_sink_type \<Rightarrow> bool" where
  "fits_queue src Q_prologues t \<longleftrightarrow> t = AG_SINK_PROLOGUE" | "fits_queue src Q_epilogues t \<longleftrightarrow> t = AG_SINK_EPILOGUE"
| "fits_queue src Q_spinners t \<longleftrightarrow> t = AG_SINK_SPINNER" | "fits_queue src Q_sinks t \<longleftrightarrow> so_caps src t"

text \<open>
  A sink is in at most one place, has the type of its queue (for event sinks, one that the source supports), and every sink that is allocated is in a queue.
\<close>

definition source_ok :: "world \<Rightarrow> bool" where
  "source_ok w \<longleftrightarrow> (case w_source w of
     None \<Rightarrow> \<forall>es. w_sinks w es = None
   | Some src \<Rightarrow> distinct (map snd (tagged src)) \<and> (\<forall>es. w_sinks w es \<noteq> None \<longrightarrow> es \<in> snd ` set (tagged src)) \<and>
       (\<forall>(q, es) \<in> set (tagged src). es < w_brk w \<and> (\<exists>sk. w_sinks w es = Some sk \<and> fits_queue src q (sk_type sk))))"

inductive source_step :: "event_cfg \<Rightarrow> (kq_note \<Rightarrow> 32 word) \<Rightarrow> world \<Rightarrow> world \<Rightarrow> bool" for cfg NOTE where
  "AG_AddEventPrologue cfg fn fmt ap w = Some (es, w') \<Longrightarrow> source_step cfg NOTE w w'"
| "AG_DelEventPrologue cfg es w = Some w' \<Longrightarrow> source_step cfg NOTE w w'"
| "AG_AddEventEpilogue cfg fn fmt ap w = Some (es, w') \<Longrightarrow> source_step cfg NOTE w w'"
| "AG_DelEventEpilogue cfg es w = Some w' \<Longrightarrow> source_step cfg NOTE w w'"
| "AG_AddEventSpinner cfg fn fmt ap w = Some (es, w') \<Longrightarrow> source_step cfg NOTE w w'"
| "AG_DelEventSpinner cfg es w = Some w' \<Longrightarrow> source_step cfg NOTE w w'"
| "AG_AddEventSink cfg NOTE type ident flags fn fmt ap w = Some (r, w') \<Longrightarrow> source_step cfg NOTE w w'"
| "AG_DelEventSink cfg NOTE es w = Some w' \<Longrightarrow> source_step cfg NOTE w w'"
| "AG_Terminate cfg rc w = Some w' \<Longrightarrow> source_step cfg NOTE w w'"

lemma source_ok_get:
  assumes "source_ok w" and "AG_GetEventSource cfg w = Some (src, w1)"
  shows "source_ok w1 \<and> w_source w1 = Some src \<and> w_brk w1 = w_brk w"
  using assms by (auto simp: AG_GetEventSource_def source_ok_def put_source_def CreateEventSource_def Let_def tagged_def bind_eq_Some_conv split: option.splits if_splits)

lemma new_sink_world: "new_sink type ident flags fn fmt ap es w = Some w' \<Longrightarrow> \<exists>sk. w' = put_sink es sk w \<and> sk_type sk = type"
  by (auto simp: new_sink_def bind_eq_Some_conv)

lemma sink_change_queues: "sink_change NOTE type ident flags act udata src = Some src' \<Longrightarrow>
    so_prologues src' = so_prologues src \<and> so_epilogues src' = so_epilogues src \<and> so_spinners src' = so_spinners src \<and> so_sinks src' = so_sinks src \<and>
    so_caps src' = so_caps src"
  by (auto simp: sink_change_def push_change_def GrowKqChangelist_def Let_def split: if_splits)

lemma fits_queue_caps: "so_caps src' = so_caps src \<Longrightarrow> fits_queue src' q t = fits_queue src q t"
  by (cases q) simp_all

lemma source_ok_add:
  assumes "source_ok w" and "w_source w = Some src" and "new_sink type ident flags fn fmt ap (w_brk w) (w\<lparr>w_brk := Suc (w_brk w)\<rparr>) = Some w1"
    and "so_caps src' = so_caps src" and "fits_queue src q type"
    and "set (tagged src') = insert (q, w_brk w) (set (tagged src))" and "distinct (map snd (tagged src)) \<Longrightarrow> w_brk w \<notin> snd ` set (tagged src) \<Longrightarrow> distinct (map snd (tagged src'))"
  shows "source_ok (put_source src' w1)"
proof -
  obtain sk where sk: "w1 = put_sink (w_brk w) sk (w\<lparr>w_brk := Suc (w_brk w)\<rparr>)" "sk_type sk = type" using new_sink_world [OF assms(3)] by blast
  have ok: "distinct (map snd (tagged src))" "\<forall>es. w_sinks w es \<noteq> None \<longrightarrow> es \<in> snd ` set (tagged src)"
    "\<forall>(q, es) \<in> set (tagged src). es < w_brk w \<and> (\<exists>sk. w_sinks w es = Some sk \<and> fits_queue src q (sk_type sk))"
    using assms(1,2) by (simp_all add: source_ok_def)
  then have "w_brk w \<notin> snd ` set (tagged src)" by fastforce
  then have "distinct (map snd (tagged src'))" using assms(7) ok(1) by blast
  moreover have "\<forall>es. es \<noteq> w_brk w \<longrightarrow> w_sinks w es \<noteq> None \<longrightarrow> es \<in> snd ` set (tagged src')" using ok(2) assms(6) by auto
  moreover have "\<forall>(p, es) \<in> set (tagged src'). es < Suc (w_brk w) \<and>
      (\<exists>sk'. (if es = w_brk w then Some sk else w_sinks w es) = Some sk' \<and> fits_queue src' p (sk_type sk'))"
  proof (intro ballI, clarify)
    fix p es assume "(p, es) \<in> set (tagged src')"
    then consider "p = q" "es = w_brk w" | "(p, es) \<in> set (tagged src)" using assms(6) by auto
    then show "es < Suc (w_brk w) \<and> (\<exists>sk'. (if es = w_brk w then Some sk else w_sinks w es) = Some sk' \<and> fits_queue src' p (sk_type sk'))"
    proof cases
      case 1
      then show ?thesis using sk(2) assms(5) fits_queue_caps [OF assms(4)] by simp
    next
      case 2
      then have "es < w_brk w" "\<exists>sk. w_sinks w es = Some sk \<and> fits_queue src p (sk_type sk)" using ok(3) by auto
      then show ?thesis using fits_queue_caps [OF assms(4)] by auto
    qed
  qed
  moreover have "w_brk w \<in> snd ` set (tagged src')" using assms(6) by auto
  ultimately show ?thesis using sk(1) by (auto simp: source_ok_def put_source_def put_sink_def)
qed

lemma source_ok_del:
  assumes "source_ok w" and "w_source w = Some src" and "free_sink es (put_source src' w) = Some w'"
    and "so_caps src' = so_caps src" and "set (tagged src') = set (tagged src) - {(q, es)}" and "(q, es) \<in> set (tagged src)"
    and "distinct (map snd (tagged src)) \<Longrightarrow> distinct (map snd (tagged src'))"
  shows "source_ok w'"
proof -
  have ok: "distinct (map snd (tagged src))" "\<forall>es. w_sinks w es \<noteq> None \<longrightarrow> es \<in> snd ` set (tagged src)"
    "\<forall>(q, es) \<in> set (tagged src). es < w_brk w \<and> (\<exists>sk. w_sinks w es = Some sk \<and> fits_queue src q (sk_type sk))"
    using assms(1,2) by (simp_all add: source_ok_def)
  have inj: "inj_on snd (set (tagged src))" using ok(1) by (simp add: distinct_map)
  have o: "es' \<noteq> es" if "(q', es') \<in> set (tagged src')" for q' es'
  proof
    assume "es' = es"
    moreover have "(q', es') \<in> set (tagged src)" "(q', es') \<noteq> (q, es)" using that assms(5) by blast+
    ultimately show False using inj assms(6) by (metis inj_onD snd_conv)
  qed
  have w': "w' = (put_source src' w)\<lparr>w_sinks := (w_sinks w)(es := None)\<rparr>" using assms(3) by (auto simp: free_sink_def put_source_def split: if_splits)
  have "es' \<in> snd ` set (tagged src')" if "es' \<noteq> es" "w_sinks w es' \<noteq> None" for es'
    using ok(2) that assms(5) by force
  moreover have "es' \<noteq> es \<and> es' < w_brk w \<and> (\<exists>sk. w_sinks w es' = Some sk \<and> fits_queue src' p (sk_type sk))" if "(p, es') \<in> set (tagged src')" for p es'
  proof -
    have "(p, es') \<in> set (tagged src)" using that assms(5) by blast
    then have "es' < w_brk w \<and> (\<exists>sk. w_sinks w es' = Some sk \<and> fits_queue src p (sk_type sk))" using ok(3) by blast
    then show ?thesis using o [OF that] fits_queue_caps [OF assms(4)] by blast
  qed
  moreover have "distinct (map snd (tagged src'))" using assms(7) ok(1) by blast
  ultimately show ?thesis using w' by (auto simp: source_ok_def put_source_def)
qed

lemma q_remove_set: "q_remove e xs = Some ys \<Longrightarrow> e \<in> set xs \<and> ys = remove1 e xs"
  by (simp add: q_remove_def split: if_splits)

lemma q_insert_tail_set: "q_insert_tail e xs = Some ys \<Longrightarrow> ys = xs @ [e]"
  by (simp add: q_insert_tail_def split: if_splits)

lemma tagged_fields:
  "tagged (src\<lparr>so_breakReq := b, so_returnCode := c\<rparr>) = tagged src" "tagged (src\<lparr>so_returnCode := c, so_breakReq := b\<rparr>) = tagged src"
  by (simp_all add: tagged_def)

lemma tagged_remove:
  assumes "distinct (map snd (tagged src))"
  shows "set (tagged (src\<lparr>so_prologues := remove1 es (so_prologues src)\<rparr>)) = set (tagged src) - {(Q_prologues, es)}"
    and "set (tagged (src\<lparr>so_epilogues := remove1 es (so_epilogues src)\<rparr>)) = set (tagged src) - {(Q_epilogues, es)}"
    and "set (tagged (src\<lparr>so_spinners := remove1 es (so_spinners src)\<rparr>)) = set (tagged src) - {(Q_spinners, es)}"
    and "set (tagged (src\<lparr>so_sinks := remove1 es (so_sinks src)\<rparr>)) = set (tagged src) - {(Q_sinks, es)}"
    and "distinct (map snd (tagged (src\<lparr>so_prologues := remove1 es (so_prologues src)\<rparr>)))"
    and "distinct (map snd (tagged (src\<lparr>so_epilogues := remove1 es (so_epilogues src)\<rparr>)))"
    and "distinct (map snd (tagged (src\<lparr>so_spinners := remove1 es (so_spinners src)\<rparr>)))"
    and "distinct (map snd (tagged (src\<lparr>so_sinks := remove1 es (so_sinks src)\<rparr>)))"
proof -
  have d: "distinct (so_prologues src)" "distinct (so_epilogues src)" "distinct (so_spinners src)" "distinct (so_sinks src)"
    using assms by (simp_all add: tagged_def comp_def)
  show "set (tagged (src\<lparr>so_prologues := remove1 es (so_prologues src)\<rparr>)) = set (tagged src) - {(Q_prologues, es)}"
    "set (tagged (src\<lparr>so_epilogues := remove1 es (so_epilogues src)\<rparr>)) = set (tagged src) - {(Q_epilogues, es)}"
    "set (tagged (src\<lparr>so_spinners := remove1 es (so_spinners src)\<rparr>)) = set (tagged src) - {(Q_spinners, es)}"
    "set (tagged (src\<lparr>so_sinks := remove1 es (so_sinks src)\<rparr>)) = set (tagged src) - {(Q_sinks, es)}"
    using d by (auto simp: tagged_def)
  show "distinct (map snd (tagged (src\<lparr>so_prologues := remove1 es (so_prologues src)\<rparr>)))"
    "distinct (map snd (tagged (src\<lparr>so_epilogues := remove1 es (so_epilogues src)\<rparr>)))"
    "distinct (map snd (tagged (src\<lparr>so_spinners := remove1 es (so_spinners src)\<rparr>)))"
    "distinct (map snd (tagged (src\<lparr>so_sinks := remove1 es (so_sinks src)\<rparr>)))"
    using assms d by (auto simp: tagged_def comp_def)
qed

lemma tagged_append:
  "set (tagged (src\<lparr>so_prologues := so_prologues src @ [es]\<rparr>)) = insert (Q_prologues, es) (set (tagged src))"
  "set (tagged (src\<lparr>so_epilogues := so_epilogues src @ [es]\<rparr>)) = insert (Q_epilogues, es) (set (tagged src))"
  "set (tagged (src\<lparr>so_spinners := so_spinners src @ [es]\<rparr>)) = insert (Q_spinners, es) (set (tagged src))"
  "set (tagged (src\<lparr>so_sinks := so_sinks src @ [es]\<rparr>)) = insert (Q_sinks, es) (set (tagged src))"
  "distinct (map snd (tagged src)) \<Longrightarrow> es \<notin> snd ` set (tagged src) \<Longrightarrow> distinct (map snd (tagged (src\<lparr>so_prologues := so_prologues src @ [es]\<rparr>)))"
  "distinct (map snd (tagged src)) \<Longrightarrow> es \<notin> snd ` set (tagged src) \<Longrightarrow> distinct (map snd (tagged (src\<lparr>so_epilogues := so_epilogues src @ [es]\<rparr>)))"
  "distinct (map snd (tagged src)) \<Longrightarrow> es \<notin> snd ` set (tagged src) \<Longrightarrow> distinct (map snd (tagged (src\<lparr>so_spinners := so_spinners src @ [es]\<rparr>)))"
  "distinct (map snd (tagged src)) \<Longrightarrow> es \<notin> snd ` set (tagged src) \<Longrightarrow> distinct (map snd (tagged (src\<lparr>so_sinks := so_sinks src @ [es]\<rparr>)))"
  by (auto simp: tagged_def comp_def image_Un image_image)

lemma mem_tagged:
  "(Q_prologues, es) \<in> set (tagged src) \<longleftrightarrow> es \<in> set (so_prologues src)" "(Q_epilogues, es) \<in> set (tagged src) \<longleftrightarrow> es \<in> set (so_epilogues src)"
  "(Q_spinners, es) \<in> set (tagged src) \<longleftrightarrow> es \<in> set (so_spinners src)" "(Q_sinks, es) \<in> set (tagged src) \<longleftrightarrow> es \<in> set (so_sinks src)"
  by (auto simp: tagged_def)

lemma source_ok_distinct: "source_ok w \<Longrightarrow> w_source w = Some src \<Longrightarrow> distinct (map snd (tagged src))"
  by (simp add: source_ok_def)

lemma source_ok_same:
  "source_ok w \<Longrightarrow> w_source w = Some src \<Longrightarrow> tagged src' = tagged src \<Longrightarrow> so_caps src' = so_caps src \<Longrightarrow> source_ok (put_source src' w)"
  by (auto simp: source_ok_def put_source_def fits_queue_caps [of src' src])

lemma AG_DelEventSink_ok:
  assumes "source_ok w" and "AG_DelEventSink cfg NOTE es w = Some w'"
  shows "source_ok w'"
proof -
  obtain src w1 where g: "AG_GetEventSource cfg w = Some (src, w1)" using assms(2) by (auto simp: AG_DelEventSink_def bind_eq_Some_conv)
  then obtain sk where k: "w_sinks w1 es = Some sk" using assms(2) by (auto simp: AG_DelEventSink_def bind_eq_Some_conv)
  then obtain src1 q where
    s: "(if ec_method cfg = By_kqueue then sink_change NOTE (sk_type sk) (sk_ident sk) (sk_flags sk) EV_DELETE None src else Some src) = Some src1"
    and q: "q_remove es (so_sinks src1) = Some q" and f: "free_sink es (put_source (src1\<lparr>so_sinks := q\<rparr>) w1) = Some w'"
    using assms(2) g by (auto simp: AG_DelEventSink_def bind_eq_Some_conv)
  have same: "so_prologues src1 = so_prologues src" "so_epilogues src1 = so_epilogues src" "so_spinners src1 = so_spinners src" "so_sinks src1 = so_sinks src"
    "so_caps src1 = so_caps src"
    using s sink_change_queues [of NOTE "sk_type sk" "sk_ident sk" "sk_flags sk" EV_DELETE None src src1] by (auto split: if_splits)
  then have "tagged src1 = tagged src" by (simp add: tagged_def)
  moreover have ok: "source_ok w1" "w_source w1 = Some src" using source_ok_get [OF assms(1) g] by blast+
  ultimately have d: "distinct (map snd (tagged src1))" using source_ok_distinct by simp
  show ?thesis
    by (rule source_ok_del [OF ok f, of Q_sinks])
      (use q_remove_set [OF q] same \<open>tagged src1 = tagged src\<close> tagged_remove(4,8) [OF d, of es] mem_tagged(4) [of es src] in simp_all)
qed

lemma AG_AddEventSink_ok:
  assumes "AG_AddEventSink cfg NOTE type ident flags fn fmt ap w = Some (r, w')" and "source_ok w"
  shows "source_ok w'"
proof -
  obtain src w1 where g: "AG_GetEventSource cfg w = Some (src, w1)" using assms(1) by (auto simp: AG_AddEventSink_def bind_eq_Some_conv)
  have ok: "source_ok w1" "w_source w1 = Some src" using source_ok_get [OF assms(2) g] by blast+
  show ?thesis
  proof (cases "so_caps src type")
    case False
    then show ?thesis using assms(1) g ok by (simp add: AG_AddEventSink_def)
  next
    case True
    then obtain src1 w2 q where
      s: "(if ec_method cfg = By_kqueue then sink_change NOTE type ident flags EV_ADD_ENABLE (Some (w_brk w1)) src else Some src) = Some src1"
      and k: "new_sink type ident flags fn fmt ap (w_brk w1) (w1\<lparr>w_brk := Suc (w_brk w1)\<rparr>) = Some w2"
      and q: "q_insert_tail (w_brk w1) (so_sinks src1) = Some q" and w': "w' = put_source (src1\<lparr>so_sinks := q\<rparr>) w2"
      using assms(1) g by (auto simp: AG_AddEventSink_def fresh_def bind_eq_Some_conv)
    have same: "so_prologues src1 = so_prologues src \<and> so_epilogues src1 = so_epilogues src \<and> so_spinners src1 = so_spinners src \<and>
        so_sinks src1 = so_sinks src \<and> so_caps src1 = so_caps src"
      using s sink_change_queues [of NOTE type ident flags EV_ADD_ENABLE "Some (w_brk w1)" src src1] by (auto split: if_splits)
    then have t: "tagged src1 = tagged src" by (simp add: tagged_def)
    show ?thesis unfolding w' q_insert_tail_set [OF q]
      by (rule source_ok_add [OF ok k, of _ Q_sinks]) (use same True t tagged_append [of src1 "w_brk w1"] in simp_all)
  qed
qed

lemma source_step_ok: "source_step cfg NOTE w w' \<Longrightarrow> source_ok w \<Longrightarrow> source_ok w'"
proof (induction rule: source_step.induct)
  case (1 fn fmt ap w es w')
  then obtain src w1 w2 q where g: "AG_GetEventSource cfg w = Some (src, w1)"
    and k: "new_sink AG_SINK_PROLOGUE 0 0 fn fmt ap (w_brk w1) (w1\<lparr>w_brk := Suc (w_brk w1)\<rparr>) = Some w2"
    and q: "q_insert_tail (w_brk w1) (so_prologues src) = Some q" and w': "w' = put_source (src\<lparr>so_prologues := q\<rparr>) w2"
    by (auto simp: AG_AddEventPrologue_def fresh_def bind_eq_Some_conv)
  have ok: "source_ok w1" "w_source w1 = Some src" using source_ok_get [OF 1(2) g] by blast+
  show ?case unfolding w' q_insert_tail_set [OF q]
    by (rule source_ok_add [OF ok k, of _ Q_prologues]) (use tagged_append [of src "w_brk w1"] in simp_all)
next
  case (2 es w w')
  then obtain src w1 q where g: "AG_GetEventSource cfg w = Some (src, w1)" and q: "q_remove es (so_prologues src) = Some q"
    and f: "free_sink es (put_source (src\<lparr>so_prologues := q\<rparr>) w1) = Some w'"
    by (auto simp: AG_DelEventPrologue_def bind_eq_Some_conv)
  have ok: "source_ok w1" "w_source w1 = Some src" using source_ok_get [OF 2(2) g] by blast+
  note d = source_ok_distinct [OF ok]
  show ?case by (rule source_ok_del [OF ok f, of Q_prologues]) (use q_remove_set [OF q] tagged_remove [OF d, of es] mem_tagged [of es src] in simp_all)
next
  case (3 fn fmt ap w es w')
  then obtain src w1 w2 q where g: "AG_GetEventSource cfg w = Some (src, w1)"
    and k: "new_sink AG_SINK_EPILOGUE 0 0 fn fmt ap (w_brk w1) (w1\<lparr>w_brk := Suc (w_brk w1)\<rparr>) = Some w2"
    and q: "q_insert_tail (w_brk w1) (so_epilogues src) = Some q" and w': "w' = put_source (src\<lparr>so_epilogues := q\<rparr>) w2"
    by (auto simp: AG_AddEventEpilogue_def fresh_def bind_eq_Some_conv)
  have ok: "source_ok w1" "w_source w1 = Some src" using source_ok_get [OF 3(2) g] by blast+
  show ?case unfolding w' q_insert_tail_set [OF q]
    by (rule source_ok_add [OF ok k, of _ Q_epilogues]) (use tagged_append [of src "w_brk w1"] in simp_all)
next
  case (4 es w w')
  then obtain src w1 q where g: "AG_GetEventSource cfg w = Some (src, w1)" and q: "q_remove es (so_epilogues src) = Some q"
    and f: "free_sink es (put_source (src\<lparr>so_epilogues := q\<rparr>) w1) = Some w'"
    by (auto simp: AG_DelEventEpilogue_def bind_eq_Some_conv)
  have ok: "source_ok w1" "w_source w1 = Some src" using source_ok_get [OF 4(2) g] by blast+
  note d = source_ok_distinct [OF ok]
  show ?case by (rule source_ok_del [OF ok f, of Q_epilogues]) (use q_remove_set [OF q] tagged_remove [OF d, of es] mem_tagged [of es src] in simp_all)
next
  case (5 fn fmt ap w es w')
  then obtain src w1 w2 q where g: "AG_GetEventSource cfg w = Some (src, w1)"
    and k: "new_sink AG_SINK_SPINNER 0 0 fn fmt ap (w_brk w1) (w1\<lparr>w_brk := Suc (w_brk w1)\<rparr>) = Some w2"
    and q: "q_insert_tail (w_brk w1) (so_spinners src) = Some q" and w': "w' = put_source (src\<lparr>so_spinners := q\<rparr>) w2"
    by (auto simp: AG_AddEventSpinner_def fresh_def bind_eq_Some_conv)
  have ok: "source_ok w1" "w_source w1 = Some src" using source_ok_get [OF 5(2) g] by blast+
  show ?case unfolding w' q_insert_tail_set [OF q]
    by (rule source_ok_add [OF ok k, of _ Q_spinners]) (use tagged_append [of src "w_brk w1"] in simp_all)
next
  case (6 es w w')
  then obtain src w1 q where g: "AG_GetEventSource cfg w = Some (src, w1)" and q: "q_remove es (so_spinners src) = Some q"
    and f: "free_sink es (put_source (src\<lparr>so_spinners := q\<rparr>) w1) = Some w'"
    by (auto simp: AG_DelEventSpinner_def bind_eq_Some_conv)
  have ok: "source_ok w1" "w_source w1 = Some src" using source_ok_get [OF 6(2) g] by blast+
  note d = source_ok_distinct [OF ok]
  show ?case by (rule source_ok_del [OF ok f, of Q_spinners]) (use q_remove_set [OF q] tagged_remove [OF d, of es] mem_tagged [of es src] in simp_all)
next
  case (7 type ident flags fn fmt ap w r w')
  then show ?case by (rule AG_AddEventSink_ok)
next
  case (8 es w w')
  then show ?case using AG_DelEventSink_ok by blast
next
  case (9 rc w w')
  then obtain src w1 where g: "AG_GetEventSource cfg w = Some (src, w1)" and w': "w' = put_source (src\<lparr>so_breakReq := 1, so_returnCode := rc\<rparr>) w1"
    by (auto simp: AG_Terminate_def bind_eq_Some_conv)
  show ?case unfolding w' using source_ok_get [OF 9(2) g] by (intro source_ok_same [of w1 src]) (simp_all add: tagged_fields)
qed

lemma source_ok_reach: "(source_step cfg NOTE)\<^sup>*\<^sup>* w0 w \<Longrightarrow> source_ok w0 \<Longrightarrow> source_ok w"
  by (induction rule: rtranclp_induct) (simp_all add: source_step_ok)

lemma free_sinks:
  "distinct ess \<Longrightarrow> \<forall>es \<in> set ess. w_sinks w es \<noteq> None \<Longrightarrow>
    fold_opt (\<lambda>w es. free_sink es w) w ess = Some (w\<lparr>w_sinks := \<lambda>es. if es \<in> set ess then None else w_sinks w es\<rparr>)"
proof (induction ess arbitrary: w)
  case (Cons es ess)
  let ?w = "w\<lparr>w_sinks := (w_sinks w)(es := None)\<rparr>"
  have f: "free_sink es w = Some ?w" using Cons.prems(2) by (simp add: free_sink_def)
  have "fold_opt (\<lambda>w es. free_sink es w) ?w ess = Some (?w\<lparr>w_sinks := \<lambda>e. if e \<in> set ess then None else w_sinks ?w e\<rparr>)"
    using Cons.prems by (intro Cons.IH) auto
  also have "\<dots> = Some (w\<lparr>w_sinks := \<lambda>e. if e \<in> set (es # ess) then None else w_sinks w e\<rparr>)" by (auto intro!: arg_cong [of _ _ "\<lambda>f. w\<lparr>w_sinks := f\<rparr>"])
  finally show ?case using f by simp
qed simp

text \<open>
  C32: starting without a source, after any additions and removals of prologues, epilogues, spinners and sinks, every sink is allocated and in exactly
  one queue, the one of its type, and event sinks have only types that the source supports; \<open>AG_DestroyEventSubsystem\<close> then frees them all, each once.
\<close>

theorem event_sources_ok:
  assumes "(source_step cfg NOTE)\<^sup>*\<^sup>* w0 w" and "w_source w0 = None" and "\<forall>es. w_sinks w0 es = None"
  shows "source_ok w \<and> AG_DestroyEventSubsystem w = Some (w\<lparr>w_source := None, w_sinks := \<lambda>_. None\<rparr>)"
proof -
  have ok: "source_ok w" using source_ok_reach [OF assms(1)] assms(2,3) by (simp add: source_ok_def)
  show ?thesis
  proof (cases "w_source w")
    case None
    then have "w_sinks w = (\<lambda>_. None)" using ok by (simp add: source_ok_def fun_eq_iff)
    then have "w = w\<lparr>w_source := None, w_sinks := \<lambda>_. None\<rparr>" using None by (cases w) simp
    then show ?thesis using ok None by (simp add: AG_DestroyEventSubsystem_def)
  next
    case (Some src)
    let ?ess = "so_prologues src @ so_epilogues src @ so_spinners src @ so_sinks src"
    have e: "map snd (tagged src) = ?ess" by (simp add: tagged_def comp_def)
    have "distinct ?ess" using source_ok_distinct [OF ok Some] e by metis
    moreover have "\<forall>es \<in> snd ` set (tagged src). w_sinks w es \<noteq> None" using ok Some by (fastforce simp: source_ok_def)
    then have "\<forall>es \<in> set ?ess. w_sinks w es \<noteq> None" using e by (metis set_map)
    ultimately have f: "fold_opt (\<lambda>w es. free_sink es w) w ?ess = Some (w\<lparr>w_sinks := \<lambda>es. if es \<in> set ?ess then None else w_sinks w es\<rparr>)" by (rule free_sinks)
    have "\<forall>es. w_sinks w es \<noteq> None \<longrightarrow> es \<in> snd ` set (tagged src)" using ok Some by (simp add: source_ok_def)
    then have "\<forall>es. w_sinks w es \<noteq> None \<longrightarrow> es \<in> set ?ess" using e by (metis set_map)
    then have "(\<lambda>es. if es \<in> set ?ess then None else w_sinks w es) = (\<lambda>_. None)" by (auto simp: fun_eq_iff)
    then have g: "fold_opt (\<lambda>w es. free_sink es w) w ?ess = Some (w\<lparr>w_sinks := \<lambda>_. None\<rparr>)" using f by simp
    then have "DestroyEventSource w = Some (w\<lparr>w_sinks := \<lambda>_. None\<rparr>)" using Some by (simp only: DestroyEventSource_def option.simps)
    then show ?thesis using ok Some by (simp add: AG_DestroyEventSubsystem_def)
  qed
qed

theorem event_sources_ok_witness:
  "\<exists>w es. (do { (es, w) \<leftarrow> AG_AddEventSpinner spin_cfg 70 None [] blank_world; w \<leftarrow> AG_Terminate spin_cfg 4 w; Some (es, w) }) = Some (es, w) \<and>
     w_sinks w es \<noteq> None \<and> source_ok w \<and> AG_DestroyEventSubsystem w = Some (w\<lparr>w_source := None, w_sinks := \<lambda>_. None\<rparr>)"
proof -
  obtain w1 where w1: "AG_AddEventSpinner spin_cfg 70 None [] blank_world = Some (0, w1)" "w_sinks w1 0 \<noteq> None" "w_source w1 \<noteq> None"
    by (simp add: AG_AddEventSpinner_def AG_GetEventSource_def CreateEventSource_def spin_cfg_def new_sink_def InitEvent_def GET_ARGS_def
      set_ptr_arg_def rd_def wr_def blank_event_def
      fresh_def blank_world_def q_insert_tail_def put_source_def put_sink_def Let_def)
  obtain w2 where w2: "AG_Terminate spin_cfg 4 w1 = Some w2" "w_sinks w2 = w_sinks w1"
    using w1(3) by (auto simp: AG_Terminate_def AG_GetEventSource_def put_source_def)
  have "(source_step spin_cfg (\<lambda>_. 1))\<^sup>*\<^sup>* blank_world w2"
    using source_step.intros(5) [OF w1(1)] source_step.intros(9) [OF w2(1)] by (meson rtranclp.rtrancl_refl rtranclp.rtrancl_into_rtrancl)
  then have "source_ok w2 \<and> AG_DestroyEventSubsystem w2 = Some (w2\<lparr>w_source := None, w_sinks := \<lambda>_. None\<rparr>)"
    using event_sources_ok [of spin_cfg "\<lambda>_. 1" blank_world w2] by (simp add: blank_world_def)
  then show ?thesis using w1 w2 by (intro exI [of _ w2] exI [of _ 0]) simp
qed

section \<open>Removing sinks by what they wait for\<close>

lemma push_change_grows: "\<exists>src'. push_change ke src = Some src'"
  by (simp add: push_change_def GrowKqChangelist_def Let_def)

lemma sink_change_some: "\<exists>src'. sink_change NOTE type ident flags act udata src = Some src'"
  unfolding sink_change_def Let_def using push_change_grows by simp

definition same_queues :: "event_source \<Rightarrow> event_source \<Rightarrow> bool" where
  "same_queues src src' \<longleftrightarrow> so_prologues src' = so_prologues src \<and> so_epilogues src' = so_epilogues src \<and> so_spinners src' = so_spinners src"

lemma AG_DelEventSink_effect:
  assumes "w_source w = Some src" and "es \<in> set (so_sinks src)" and "w_sinks w es \<noteq> None"
  shows "\<exists>w' src'. AG_DelEventSink cfg NOTE es w = Some w' \<and> w_source w' = Some src' \<and> same_queues src src' \<and>
    so_sinks src' = remove1 es (so_sinks src) \<and> w_sinks w' = (w_sinks w)(es := None)"
proof -
  obtain sk where sk: "w_sinks w es = Some sk" using assms(3) by blast
  obtain src1 where s: "(if ec_method cfg = By_kqueue then sink_change NOTE (sk_type sk) (sk_ident sk) (sk_flags sk) EV_DELETE None src else Some src) = Some src1"
    using sink_change_some [of NOTE "sk_type sk" "sk_ident sk" "sk_flags sk" EV_DELETE None src] by (cases "ec_method cfg = By_kqueue") auto
  then have "so_prologues src1 = so_prologues src \<and> so_epilogues src1 = so_epilogues src \<and> so_spinners src1 = so_spinners src \<and> so_sinks src1 = so_sinks src"
    using sink_change_queues [of NOTE "sk_type sk" "sk_ident sk" "sk_flags sk" EV_DELETE None src src1] by (auto split: if_splits)
  then show ?thesis using assms sk s
    by (simp add: AG_DelEventSink_def AG_GetEventSource_def q_remove_def free_sink_def put_source_def same_queues_def)
qed

definition waits_for :: "ag_event_sink_type \<Rightarrow> int \<Rightarrow> 32 word \<Rightarrow> world \<Rightarrow> nat \<Rightarrow> bool" where
  "waits_for type ident flags w es \<longleftrightarrow> (case w_sinks w es of None \<Rightarrow> False
     | Some sk \<Rightarrow> sk_type sk = type \<and> sk_ident sk = ident \<and> sk_flags sk = flags)"

lemma del_sinks_exact:
  assumes "w_source w = Some src" and "distinct (so_sinks src)" and "set ess \<subseteq> set (so_sinks src)" and "distinct ess"
    and "\<forall>es \<in> set ess. w_sinks w es \<noteq> None"
  shows "\<exists>w' src'. del_sinks cfg NOTE type ident flags ess w = Some w' \<and> w_source w' = Some src' \<and> same_queues src src' \<and>
    so_sinks src' = filter (\<lambda>es. \<not> (es \<in> set ess \<and> waits_for type ident flags w es)) (so_sinks src) \<and>
    w_sinks w' = (\<lambda>es. if es \<in> set ess \<and> waits_for type ident flags w es then None else w_sinks w es)"
  using assms
proof (induction ess arbitrary: w src)
  case Nil
  then show ?case by (simp add: same_queues_def)
next
  case (Cons es ess)
  let ?P = "waits_for type ident flags"
  obtain sk where sk: "w_sinks w es = Some sk" using Cons.prems(5) by auto
  show ?case
  proof (cases "?P w es")
    case False
    then have e: "del_sinks cfg NOTE type ident flags (es # ess) w = del_sinks cfg NOTE type ident flags ess w"
      using sk by (auto simp: waits_for_def)
    have m: "e \<in> set (es # ess) \<and> ?P w e \<longleftrightarrow> e \<in> set ess \<and> ?P w e" for e using False by auto
    show ?thesis unfolding e m using Cons.prems by (intro Cons.IH) auto
  next
    case True
    obtain w1 src1 where d: "AG_DelEventSink cfg NOTE es w = Some w1" and w1: "w_source w1 = Some src1" "same_queues src src1"
      "so_sinks src1 = remove1 es (so_sinks src)" "w_sinks w1 = (w_sinks w)(es := None)"
      using AG_DelEventSink_effect [OF Cons.prems(1), of es cfg NOTE] Cons.prems(3) sk by auto
    have e: "del_sinks cfg NOTE type ident flags (es # ess) w = del_sinks cfg NOTE type ident flags ess w1"
      using sk True d by (simp add: waits_for_def)
    have P: "?P w1 e \<longleftrightarrow> e \<noteq> es \<and> ?P w e" for e using w1(4) by (simp add: waits_for_def)
    have "distinct (so_sinks src1)" "set ess \<subseteq> set (so_sinks src1)" "distinct ess" "\<forall>e \<in> set ess. w_sinks w1 e \<noteq> None"
      using Cons.prems w1 by auto
    from Cons.IH [OF w1(1) this] obtain w' src' where r: "del_sinks cfg NOTE type ident flags ess w1 = Some w'" "w_source w' = Some src'"
      "same_queues src1 src'" "so_sinks src' = filter (\<lambda>e. \<not> (e \<in> set ess \<and> ?P w1 e)) (so_sinks src1)"
      "w_sinks w' = (\<lambda>e. if e \<in> set ess \<and> ?P w1 e then None else w_sinks w1 e)" by blast
    have "so_sinks src' = filter (\<lambda>e. \<not> (e \<in> set (es # ess) \<and> ?P w e)) (so_sinks src)"
      unfolding r(4) w1(3) P using Cons.prems(2,4) True by (auto simp: distinct_remove1_removeAll removeAll_filter_not_eq intro!: filter_cong)
    moreover have "w_sinks w' = (\<lambda>e. if e \<in> set (es # ess) \<and> ?P w e then None else w_sinks w e)"
      unfolding r(5) P w1(4) using True by (auto simp: fun_eq_iff)
    moreover have "same_queues src src'" using w1(2) r(3) by (simp add: same_queues_def)
    ultimately show ?thesis unfolding e using r(1,2) by blast
  qed
qed

text \<open>
  C36: \<open>AG_DelEventSinksByIdent\<close>, which deletes sinks while it goes over them, removes and frees exactly the sinks with the type, file and flags
  that it is given; the others keep their order, and the other queues and sinks are left alone.
\<close>

theorem AG_DelEventSinksByIdent_exact:
  assumes "source_ok w" and "w_source w = Some src"
  shows "\<exists>w' src'. AG_DelEventSinksByIdent cfg NOTE type ident flags w = Some w' \<and> w_source w' = Some src' \<and> same_queues src src' \<and>
    so_sinks src' = filter (\<lambda>es. \<not> waits_for type ident flags w es) (so_sinks src) \<and>
    w_sinks w' = (\<lambda>es. if es \<in> set (so_sinks src) \<and> waits_for type ident flags w es then None else w_sinks w es)"
proof -
  have "distinct (so_sinks src)" using source_ok_distinct [OF assms] by (simp add: tagged_def comp_def)
  moreover have "\<forall>es \<in> set (so_sinks src). w_sinks w es \<noteq> None"
  proof
    fix es assume "es \<in> set (so_sinks src)"
    then have "(Q_sinks, es) \<in> set (tagged src)" by (simp add: mem_tagged)
    then show "w_sinks w es \<noteq> None" using assms unfolding source_ok_def by (simp only: option.simps) blast
  qed
  moreover have f: "filter (\<lambda>es. \<not> (es \<in> set (so_sinks src) \<and> waits_for type ident flags w es)) (so_sinks src) =
    filter (\<lambda>es. \<not> waits_for type ident flags w es) (so_sinks src)" by (rule filter_cong) auto
  moreover have "AG_DelEventSinksByIdent cfg NOTE type ident flags w = del_sinks cfg NOTE type ident flags (so_sinks src) w"
    using assms(2) by (simp add: AG_DelEventSinksByIdent_def AG_GetEventSource_def)
  ultimately show ?thesis using del_sinks_exact [OF assms(2) _ order_refl, of cfg NOTE type ident flags] unfolding f by presburger
qed

theorem AG_DelEventSinksByIdent_exact_witness:
  "\<exists>w' src'. AG_DelEventSinksByIdent \<lparr>ec_method = By_timedselect, ec_kqueue_ok = True, ec_soft = False\<rparr> (\<lambda>_. 1) AG_SINK_READ 5 0
     (two_sinks\<lparr>w_brk := 30\<rparr>) = Some w' \<and> w_source w' = Some src' \<and> so_sinks src' = [21] \<and> w_sinks w' 20 = None \<and> w_sinks w' 21 \<noteq> None"
proof -
  let ?w = "two_sinks\<lparr>w_brk := 30\<rparr>"
  obtain src where src: "w_source ?w = Some src" "so_sinks src = [20, 21]" "so_prologues src = []" "so_epilogues src = []" "so_spinners src = []"
    "so_caps src AG_SINK_READ" "so_caps src AG_SINK_WRITE"
    by (simp add: two_sinks_def CreateEventSource_def Let_def)
  have sinks: "w_sinks ?w = (w_sinks two_sinks)" "w_brk ?w = 30" by (simp_all add: two_sinks_def)
  have "\<exists>sk. w_sinks two_sinks 20 = Some sk \<and> sk_type sk = AG_SINK_READ" "\<exists>sk. w_sinks two_sinks 21 = Some sk \<and> sk_type sk = AG_SINK_WRITE"
    "\<forall>es. w_sinks two_sinks es \<noteq> None \<longrightarrow> es = 20 \<or> es = 21" by (simp_all add: two_sinks_def blank_world_def)
  then have "source_ok ?w" using src(2-) unfolding source_ok_def src(1) sinks by (auto simp: tagged_def)
  moreover have "waits_for AG_SINK_READ 5 0 ?w 20" "\<not> waits_for AG_SINK_READ 5 0 ?w 21" by (simp_all add: waits_for_def two_sinks_def)
  moreover have "w_sinks ?w 21 \<noteq> None" by (simp add: two_sinks_def)
  ultimately show ?thesis
    using AG_DelEventSinksByIdent_exact [of ?w src "\<lparr>ec_method = By_timedselect, ec_kqueue_ok = True, ec_soft = False\<rparr>" "\<lambda>_. 1" AG_SINK_READ 5 0] src
    by auto
qed

end
