(* ===== verification/Spec2Isabelle.thy ===== *)
theory Spec2Isabelle
  imports CStr CaseStr Unicode Tbl ClassTbl Queue Events VarLaws TimerLaws ObjLaws DataLaws ArchiveProps WebVarLaws WebServeLaws WebSaveLaws MultiTextLaws FormatLaws SinkLaws
begin

text \<open>
  A verification development for Agar, a C library for graphical applications and servers.

  \<^bold>\<open>The program.\<close>  \<open>src/core\<close> (Agar-Core) is the object system on which everything else is built.  An object
  (\<open>AG_Object\<close>) is an instance of a registered class, has a place in a tree of objects (a virtual file system), and
  carries variables (typed values or references to the memory of the program), event handlers, timers and
  dependencies on other objects.  Objects are written to and read from archives, through data sources
  that fix the byte order and can tag values with type codes.  On top of this, \<open>src/core/web.c\<close> is an HTTP application
  server: a frontend process parses requests and hands them as serialized queries to the worker process of the session.
  \<open>src/gui\<close>, \<open>src/vg\<close>, \<open>src/math\<close>, \<open>src/au\<close> and \<open>src/dev\<close> are libraries over the object system.

  \<^bold>\<open>Conventions.\<close>  A C object in memory is a list of cells and every access is checked (\<open>rd\<close>, \<open>wr\<close> of theory
  \<open>Prelude\<close>): a result \<^const>\<open>None\<close> means that the code accesses memory outside of an object or after it was
  freed, or that the process ends (\<open>AG_FatalError\<close>, a failed \<open>assert\<close>).  Errors that the code reports are values of
  their own, a sum type or the \<open>-1\<close> of the code.  Integers are words of their width, or integers
  with the conversion written out; sizes are natural numbers where they cannot wrap, with the wrap-around written out where they
  can (\<open>size_diff\<close>, \<open>size_add\<close>).  Structures of the object system are known by their addresses, and
  \<open>world\<close> (theory \<open>ObjData\<close>) is the memory that holds them.  Code outside of \<open>src\<close> is a parameter: the dynamic loader, \<open>zlib\<close>,
  \<open>gettext\<close>, the clock, the handlers and class routines of applications, the file system, the results of \<open>read\<close> and
  \<open>write\<close>, of \<open>select\<close>, \<open>kevent\<close> and timer files.  The configuration is the one without threads, on a 64-bit machine.

  \<^bold>\<open>Theories.\<close>
  \<^item> \<open>Prelude\<close>: checked memory, terminated strings, the scanning loop \<open>first_idx\<close>, and the
    collections of rewrite rules that the components share.
  \<^item> \<open>CStr\<close>, \<open>CaseStr\<close>, \<open>Unicode\<close> (\<open>core/string.c\<close>, \<open>core/string.h\<close>, \<open>core/string_strcasecmp.h\<close>): the bounded copies and
    their specification, tokens, decimal numbers, comparison without case, search, and UTF-8.  \<open>Format\<close>, \<open>FormatLaws\<close>: the formatting
    engine of \<open>AG_Printf\<close>, the buffers that grow, deferred formatting and its registry of specifiers.
  \<^item> \<open>Tbl\<close> (\<open>core/tbl.c\<close>): the hash table, which refines a map.  \<open>Queue\<close> (\<open>core/queue.h\<close>): the tail
    queues with their pointers, which refine lists.
  \<^item> \<open>ClassTbl\<close> (\<open>core/class.c\<close>): class specifications, name spaces, the registry, inheritance and loading of classes.
  \<^item> \<open>ObjData\<close>, \<open>Variables\<close>, \<open>VarLaws\<close> (\<open>core/variable.c\<close>): the structures, the accessors and what they
    promise: reading after writing, sharing by references, resolution of references, substitution in texts.
  \<^item> \<open>Events\<close> (\<open>core/event.c\<close>): event structures and their arguments, handlers, posting, propagation and forwarding.
  \<^item> \<open>Timers\<close>, \<open>TimerLaws\<close> (\<open>core/timeout.c\<close> and the scheduled events of \<open>core/event.c\<close>): the timing wheel, which stays
    ordered, and the processing of the timers that are due.
  \<^item> \<open>Sinks\<close>, \<open>SinkLaws\<close> (\<open>core/event.c\<close>): event sources, their sinks, the ways to wait (kqueue, timerfd, select, delay) and the event loop.
  \<^item> \<open>Objects\<close>, \<open>ObjLaws\<close> (\<open>core/object.c\<close>): life cycle, the tree and its path names, generated names, dependencies.
  \<^item> \<open>Data\<close>, \<open>DataLaws\<close> (\<open>core/data_source.c\<close>, \<open>core/load_*.c\<close>, \<open>core/load_*.h\<close>): the data sources and the serialization of
    numbers, strings and versions; records are read back as they were written, with and without type codes.
  \<^item> \<open>Archive\<close>, \<open>ArchiveFiles\<close>, \<open>ArchiveLaws\<close>, \<open>ArchiveProps\<close> (\<open>core/object.c\<close>): saving and loading of objects in
    sources, files and databases, paging, backups and the detection of changes.
  \<^item> \<open>Web\<close>, \<open>WebVars\<close>, \<open>WebServe\<close>, \<open>WebSave\<close> (\<open>core/web.c\<close>, \<open>core/web.h\<close>, \<open>core/web_var.c\<close>, \<open>core/web_auth.c\<close>): requests
    and their arguments, the headers of an answer, the variables of documents and their filters, the answers themselves, and
    the serialized queries and sessions; \<open>WebLaws\<close>, \<open>WebVarLaws\<close>, \<open>WebServeLaws\<close> and \<open>WebSaveLaws\<close> have what they promise.
  \<^item> \<open>SourceLaws\<close>: reading and writing in sources of the network byte order, which serialized queries and texts share.
  \<^item> \<open>MultiText\<close>, \<open>MultiTextLaws\<close> (\<open>core/text.c\<close>, \<open>core/text.h\<close>): texts in several languages, a table of strings by language.

  Three interfaces are locales, interpreted on the model: \<open>dictionary\<close> (theory \<open>Tbl\<close>), \<open>element_list\<close> (theory \<open>Queue\<close>) and
  \<open>name_search\<close> (theory \<open>ObjLaws\<close>, for both generators of names).
  The operations have the names of the functions of the code, and the helpers are the loops and blocks inside of them.

  \<^bold>\<open>What the lemmas show.\<close>  For every component: that its operations stay within their buffers and keep its
  well-formedness (the table, the queues, the wheel, the tree of objects, the variables of documents); that they do what
  their abstract counterpart does (a map, a list, an ordered list, a tree of names, a list of headers); that what is written can be
  read again (numbers, records, archives in databases, queries, sessions, texts, URLs, forms, UTF-8, path names); and where the code departs from
  this, the exact condition (archives of constant strings, a status line or a header of another length, names at the end of a
  document, the filter of fragments that does not return, references that form a cycle).  The event loop is the big-step relation
  \<open>loop_runs\<close>: each handler of a queue once, the sink function, and a break only where the code tests for it.
  What a property needs of the handlers and of the sizes of its inputs stands in the text before it.

  \<^bold>\<open>Bounds and fuel.\<close>  Loops over data recurse over it.  Three kinds of recursion have a bound: references between
  variables (\<open>AG_GetVariableLocked\<close>, whose bound is the number of variables, enough unless references form a cycle), the recursion over the
  children of objects (the depth of the tree) and the handlers of events that post events.  The filter of fragments, the growing buffer of \<open>AG_Printf\<close>, the event loop and the search for the
  number of a timer are each a \<open>partial_function\<close>: they may run forever, and that they end is part of what is proved.  The loops over the sinks
  of a source, which handlers may change, have a fuel; it is enough when it exceeds the length of the queue, if handlers leave the queue alone.

  \<^bold>\<open>Not modelled.\<close>  Locks and threads; long double; the iconv branch of the Unicode routines; system interfaces (processes, sockets, directories, users, dynamic loading, databases, CPU identification); \<open>MD5\<close>, \<open>SHA-1\<close>, \<open>RIPEMD-160\<close> and the \<open>printf\<close> family, which are
  third-party code in \<open>src/core\<close>; drawing, widgets and drivers of \<open>src/gui\<close>; floating point geometry of \<open>src/vg\<close> and \<open>src/math\<close> and the
  third-party sparse solver there; \<open>src/au\<close>, \<open>src/dev\<close>, the bindings for Ada and Perl, tests and tools.
\<close>

end
